(* ===== verification/Prelude.thy ===== *)
theory Prelude
  imports Main "HOL-Library.Word" "HOL-Library.Multiset"
begin

text \<open>
  Shared vocabulary of the development: the machine integer types of the C
  sources, the project's error kinds that several components return, and the
  generic facts on lists and words the component theories share.

  The C code is written against the runtime library \<open>sp\<close>, which is
  not part of the repository. Its plain containers are read as the HOL types they
  denote: a \<open>sp_str_t\<close> is a \<open>string\<close> (bytes), a
  \<open>sp_da(T)\<close> is a list, a table (\<open>sp_ht\<close>,
  \<open>sp_str_ht\<close>, \<open>sp_om\<close>) is an association list in
  the order in which the table is iterated. Everything of \<open>sp\<close> that
  computes (decimal rendering, hash functions, sorting) is an argument of the
  definitions that call it.
\<close>

type_synonym u8 = "8 word"
type_synonym u32 = "32 word"
type_synonym u64 = "64 word"

section \<open>Collections of rules\<close>

named_theorems parser_simps \<open>rewrite rules for parser positions\<close>
named_theorems range_simps \<open>unfolding of the range constructors\<close>
named_theorems run_simps \<open>frame facts for the state transformers\<close>

section \<open>The runtime's comparison results\<close>

text \<open>A comparison function of the sources returns a signed integer whose sign is
  read by \<open>qsort\<close>; the three named results are these.\<close>

definition SP_QSORT_A_FIRST :: int where "SP_QSORT_A_FIRST = -1"
definition SP_QSORT_EQUAL :: int where "SP_QSORT_EQUAL = 0"
definition SP_QSORT_B_FIRST :: int where "SP_QSORT_B_FIRST = 1"

lemmas qsort_consts [simp] = SP_QSORT_A_FIRST_def SP_QSORT_EQUAL_def SP_QSORT_B_FIRST_def

section \<open>Association lists\<close>

text \<open>The tables of the runtime: lookup is \<open>map_of\<close>, an insert
  replaces the value of a present key in place and appends a new key, an erase drops the key.\<close>

fun ht_insert :: "'k \<Rightarrow> 'v \<Rightarrow> ('k \<times> 'v) list \<Rightarrow> ('k \<times> 'v) list" where
  "ht_insert k v [] = [(k, v)]"
| "ht_insert k v ((k', v') # xs) =
     (if k' = k then (k, v) # xs else (k', v') # ht_insert k v xs)"

definition ht_erase :: "'k \<Rightarrow> ('k \<times> 'v) list \<Rightarrow> ('k \<times> 'v) list" where
  "ht_erase k xs = filter (\<lambda>(k', _). k' \<noteq> k) xs"

abbreviation ht_get :: "('k \<times> 'v) list \<Rightarrow> 'k \<Rightarrow> 'v option" where
  "ht_get \<equiv> map_of"

abbreviation ht_keys :: "('k \<times> 'v) list \<Rightarrow> 'k list" where
  "ht_keys \<equiv> map fst"

lemma ht_get_insert [simp]: "ht_get (ht_insert k v xs) = (ht_get xs)(k \<mapsto> v)"
  by (induction k v xs rule: ht_insert.induct) (auto simp: fun_eq_iff)

lemma ht_get_erase [simp]: "ht_get (ht_erase k xs) = (ht_get xs)(k := None)"
  by (induction xs) (auto simp: ht_erase_def fun_eq_iff)

lemma ht_keys_insert:
  "ht_keys (ht_insert k v xs) = (if k \<in> set (ht_keys xs) then ht_keys xs else ht_keys xs @ [k])"
  by (induction k v xs rule: ht_insert.induct) auto

lemma distinct_ht_insert [simp]:
  "distinct (ht_keys xs) \<Longrightarrow> distinct (ht_keys (ht_insert k v xs))"
  by (simp add: ht_keys_insert)

lemma distinct_ht_erase [simp]:
  "distinct (ht_keys xs) \<Longrightarrow> distinct (ht_keys (ht_erase k xs))"
  by (induction xs) (auto simp: ht_erase_def)

lemma ht_get_None_iff: "ht_get xs k = None \<longleftrightarrow> k \<notin> set (ht_keys xs)"
  by (simp add: map_of_eq_None_iff)

lemma ht_get_SomeD: "ht_get xs k = Some v \<Longrightarrow> (k, v) \<in> set xs"
  by (rule map_of_SomeD)

lemma set_ht_insert_subset: "set (ht_insert k v xs) \<subseteq> insert (k, v) (set xs)"
  by (induction k v xs rule: ht_insert.induct) auto

section \<open>Machine words\<close>

lemma u32_unat_lt [simp]: "unat (x :: u32) < 4294967296"
  using unsigned_less [of x, where 'a = nat] by simp

lemma unat_succ_u32: "(x :: u32) \<noteq> -1 \<Longrightarrow> unat (x + 1) = Suc (unat x)"
  by (metis add.commute add.right_inverse add_left_imp_eq unatSuc)

lemma less_succ_u32_iff: "(x :: u32) \<noteq> -1 \<Longrightarrow> y < x + 1 \<longleftrightarrow> y \<le> x"
  by (simp add: word_less_nat_alt word_le_nat_alt unat_succ_u32 less_Suc_eq_le)

lemma u32_le_max [simp]: "(x :: u32) \<le> -1"
  by simp

lemma u32_not_max_less [simp]: "\<not> (-1 :: u32) < x"
  by (simp add: not_less)

lemma u32_max_numeral: "(4294967295 :: u32) = -1"
  by simp

end
