(* ===== verification/Semver.thy ===== *)
theory Semver
  imports Prelude
begin

text \<open>
  The version component, \<open>source/core/semver\<close>: the version triple and
  its comparison functions (\<open>compare.c\<close>), the position-based parser
  (\<open>parser.c\<close>) and the conversion between the written form of a version
  requirement and a pair of bounds (\<open>convert.c\<close>). Version components are
  32-bit words, so the increments of the upper bounds wrap as they do in C. The decimal
  rendering of a number comes from the runtime library and is the argument
  \<open>fmt\<close> of the printing functions.
\<close>

section \<open>Versions, operators and ranges\<close>

datatype spn_semver_t = Semver (major: u32) (minor: u32) (patch: u32)

datatype spn_semver_op_t =
  SPN_SEMVER_OP_LT | SPN_SEMVER_OP_LEQ | SPN_SEMVER_OP_GT | SPN_SEMVER_OP_GEQ | SPN_SEMVER_OP_EQ

datatype spn_semver_mod_t =
  SPN_SEMVER_MOD_NONE | SPN_SEMVER_MOD_CARET | SPN_SEMVER_MOD_TILDE
| SPN_SEMVER_MOD_WILDCARD | SPN_SEMVER_MOD_CMP

record spn_semver_components_t =
  has_major :: bool
  has_minor :: bool
  has_patch :: bool

record spn_semver_parsed_t =
  parsed_version :: spn_semver_t
  components :: spn_semver_components_t

datatype spn_semver_bound_t =
  Bound (bound_version: spn_semver_t) (bound_op: spn_semver_op_t)

datatype spn_semver_range_t =
  Range (low: spn_semver_bound_t) (high: spn_semver_bound_t) (range_mod: spn_semver_mod_t)

definition semver_zero :: spn_semver_t where
  "semver_zero = Semver 0 0 0"

definition semver_max :: spn_semver_t where
  "semver_max = Semver 0xFFFFFFFF 0xFFFFFFFF 0xFFFFFFFF"

definition spn_semver_any :: spn_semver_range_t where
  "spn_semver_any =
     Range (Bound (Semver 0 0 0) SPN_SEMVER_OP_GEQ)
           (Bound (Semver 0xFFFFFFFF 0xFFFFFFFF 0xFFFFFFFF) SPN_SEMVER_OP_LT)
           SPN_SEMVER_MOD_WILDCARD"

definition parsed_zero :: spn_semver_parsed_t where
  "parsed_zero =
     \<lparr>parsed_version = Semver 0 0 0,
      components = \<lparr>has_major = False, has_minor = False, has_patch = False\<rparr>\<rparr>"

section \<open>Comparison\<close>

definition spn_semver_eq :: "spn_semver_t \<Rightarrow> spn_semver_t \<Rightarrow> bool" where
  "spn_semver_eq lhs rhs \<longleftrightarrow>
     major lhs = major rhs \<and> minor lhs = minor rhs \<and> patch lhs = patch rhs"

definition spn_semver_geq :: "spn_semver_t \<Rightarrow> spn_semver_t \<Rightarrow> bool" where
  "spn_semver_geq lhs rhs \<longleftrightarrow>
     (if major lhs \<noteq> major rhs then major lhs > major rhs
      else if minor lhs \<noteq> minor rhs then minor lhs > minor rhs
      else patch lhs \<ge> patch rhs)"

definition spn_semver_ge :: "spn_semver_t \<Rightarrow> spn_semver_t \<Rightarrow> bool" where
  "spn_semver_ge lhs rhs \<longleftrightarrow>
     (if major lhs \<noteq> major rhs then major lhs > major rhs
      else if minor lhs \<noteq> minor rhs then minor lhs > minor rhs
      else patch lhs > patch rhs)"

definition spn_semver_leq :: "spn_semver_t \<Rightarrow> spn_semver_t \<Rightarrow> bool" where
  "spn_semver_leq lhs rhs \<longleftrightarrow>
     (if major lhs \<noteq> major rhs then major lhs < major rhs
      else if minor lhs \<noteq> minor rhs then minor lhs < minor rhs
      else patch lhs \<le> patch rhs)"

definition spn_semver_le :: "spn_semver_t \<Rightarrow> spn_semver_t \<Rightarrow> bool" where
  "spn_semver_le lhs rhs \<longleftrightarrow>
     (if major lhs \<noteq> major rhs then major lhs < major rhs
      else if minor lhs \<noteq> minor rhs then minor lhs < minor rhs
      else patch lhs < patch rhs)"

definition spn_semver_cmp :: "spn_semver_t \<Rightarrow> spn_semver_t \<Rightarrow> int" where
  "spn_semver_cmp lhs rhs =
     (if spn_semver_eq lhs rhs then SP_QSORT_EQUAL
      else if spn_semver_leq lhs rhs then SP_QSORT_A_FIRST
      else SP_QSORT_B_FIRST)"

definition spn_semver_sort_kernel :: "spn_semver_t \<Rightarrow> spn_semver_t \<Rightarrow> int" where
  "spn_semver_sort_kernel lhs rhs = spn_semver_cmp lhs rhs"

fun spn_semver_satisfies :: "spn_semver_t \<Rightarrow> spn_semver_t \<Rightarrow> spn_semver_op_t \<Rightarrow> bool" where
  "spn_semver_satisfies v b SPN_SEMVER_OP_EQ = spn_semver_eq v b"
| "spn_semver_satisfies v b SPN_SEMVER_OP_LT = spn_semver_le v b"
| "spn_semver_satisfies v b SPN_SEMVER_OP_LEQ = spn_semver_leq v b"
| "spn_semver_satisfies v b SPN_SEMVER_OP_GT = spn_semver_ge v b"
| "spn_semver_satisfies v b SPN_SEMVER_OP_GEQ = spn_semver_geq v b"

definition spn_semver_in_range :: "spn_semver_t \<Rightarrow> spn_semver_range_t \<Rightarrow> bool" where
  "spn_semver_in_range v r \<longleftrightarrow>
     spn_semver_satisfies v (bound_version (low r)) (bound_op (low r)) \<and>
     spn_semver_satisfies v (bound_version (high r)) (bound_op (high r))"

definition spn_semver_is_empty :: "spn_semver_t \<Rightarrow> bool" where
  "spn_semver_is_empty v \<longleftrightarrow> major v = 0 \<and> minor v = 0 \<and> patch v = 0"

section \<open>From a parsed requirement to a range\<close>

definition spn_semver_caret_to_range :: "spn_semver_parsed_t \<Rightarrow> spn_semver_range_t" where
  "spn_semver_caret_to_range p =
     (let v = parsed_version p in
      if major v > 0 then
        Range (Bound v SPN_SEMVER_OP_GEQ)
              (Bound (Semver (major v + 1) 0 0) SPN_SEMVER_OP_LT) SPN_SEMVER_MOD_CARET
      else if minor v > 0 then
        Range (Bound v SPN_SEMVER_OP_GEQ)
              (Bound (Semver (major v) (minor v + 1) 0) SPN_SEMVER_OP_LT) SPN_SEMVER_MOD_CARET
      else
        Range (Bound v SPN_SEMVER_OP_GEQ)
              (Bound (Semver (major v) (minor v) (patch v + 1)) SPN_SEMVER_OP_LT)
              SPN_SEMVER_MOD_CARET)"

definition spn_semver_tilde_to_range :: "spn_semver_parsed_t \<Rightarrow> spn_semver_range_t" where
  "spn_semver_tilde_to_range p =
     (let v = parsed_version p; c = components p in
      if has_patch c then
        Range (Bound v SPN_SEMVER_OP_GEQ)
              (Bound (Semver (major v) (minor v + 1) 0) SPN_SEMVER_OP_LT) SPN_SEMVER_MOD_TILDE
      else if has_minor c then
        Range (Bound v SPN_SEMVER_OP_GEQ)
              (Bound (Semver (major v) (minor v + 1) 0) SPN_SEMVER_OP_LT) SPN_SEMVER_MOD_TILDE
      else
        Range (Bound v SPN_SEMVER_OP_GEQ)
              (Bound (Semver (major v + 1) 0 0) SPN_SEMVER_OP_LT) SPN_SEMVER_MOD_TILDE)"

definition spn_semver_wildcard_to_range :: "spn_semver_parsed_t \<Rightarrow> spn_semver_range_t" where
  "spn_semver_wildcard_to_range p =
     (let v = parsed_version p; c = components p in
      if \<not> has_major c then
        Range (Bound (Semver 0 0 0) SPN_SEMVER_OP_GEQ)
              (Bound (Semver 0xFFFFFFFF 0xFFFFFFFF 0xFFFFFFFF) SPN_SEMVER_OP_LT)
              SPN_SEMVER_MOD_WILDCARD
      else if \<not> has_minor c then
        Range (Bound (Semver (major v) 0 0) SPN_SEMVER_OP_GEQ)
              (Bound (Semver (major v + 1) 0 0) SPN_SEMVER_OP_LT) SPN_SEMVER_MOD_WILDCARD
      else
        Range (Bound (Semver (major v) (minor v) 0) SPN_SEMVER_OP_GEQ)
              (Bound (Semver (major v) (minor v + 1) 0) SPN_SEMVER_OP_LT)
              SPN_SEMVER_MOD_WILDCARD)"

fun spn_semver_comparison_to_range ::
  "spn_semver_op_t \<Rightarrow> spn_semver_t \<Rightarrow> spn_semver_range_t" where
  "spn_semver_comparison_to_range SPN_SEMVER_OP_EQ v =
     Range (Bound v SPN_SEMVER_OP_GEQ) (Bound v SPN_SEMVER_OP_LEQ) SPN_SEMVER_MOD_CMP"
| "spn_semver_comparison_to_range SPN_SEMVER_OP_GEQ v =
     Range (Bound v SPN_SEMVER_OP_GEQ) (Bound semver_max SPN_SEMVER_OP_LEQ) SPN_SEMVER_MOD_CMP"
| "spn_semver_comparison_to_range SPN_SEMVER_OP_GT v =
     Range (Bound v SPN_SEMVER_OP_GT) (Bound semver_max SPN_SEMVER_OP_LEQ) SPN_SEMVER_MOD_CMP"
| "spn_semver_comparison_to_range SPN_SEMVER_OP_LEQ v =
     Range (Bound semver_zero SPN_SEMVER_OP_GEQ) (Bound v SPN_SEMVER_OP_LEQ) SPN_SEMVER_MOD_CMP"
| "spn_semver_comparison_to_range SPN_SEMVER_OP_LT v =
     Range (Bound semver_zero SPN_SEMVER_OP_GEQ) (Bound v SPN_SEMVER_OP_LT) SPN_SEMVER_MOD_CMP"

lemmas to_range_defs [range_simps] =
  spn_semver_caret_to_range_def spn_semver_tilde_to_range_def spn_semver_wildcard_to_range_def
  Let_def semver_max_def semver_zero_def

section \<open>The parser\<close>

text \<open>The parser is a string and a position. Reading past the end yields the NUL byte, as
  \<open>spn_semver_parser_peek\<close> does.\<close>

record spn_semver_parser_t =
  p_str :: string
  p_it :: nat

definition NUL :: char where "NUL = CHR 0x00"

definition spn_semver_parser_is_done :: "spn_semver_parser_t \<Rightarrow> bool" where
  "spn_semver_parser_is_done p \<longleftrightarrow> p_it p \<ge> length (p_str p)"

definition spn_semver_parser_peek :: "spn_semver_parser_t \<Rightarrow> char" where
  "spn_semver_parser_peek p = (if spn_semver_parser_is_done p then NUL else p_str p ! p_it p)"

definition spn_semver_parser_eat :: "spn_semver_parser_t \<Rightarrow> spn_semver_parser_t" where
  "spn_semver_parser_eat p = p\<lparr>p_it := p_it p + 1\<rparr>"

definition spn_semver_parser_is_digit :: "char \<Rightarrow> bool" where
  "spn_semver_parser_is_digit c \<longleftrightarrow> 48 \<le> (of_char c :: nat) \<and> (of_char c :: nat) \<le> 57"

definition spn_semver_parser_is_whitespace :: "char \<Rightarrow> bool" where
  "spn_semver_parser_is_whitespace c \<longleftrightarrow> c = CHR '' '' \<or> c = CHR 0x09 \<or> c = CHR 0x0A"

function spn_semver_parser_eat_whitespace :: "spn_semver_parser_t \<Rightarrow> spn_semver_parser_t" where
  "spn_semver_parser_eat_whitespace p =
     (if spn_semver_parser_is_done p then p
      else if \<not> spn_semver_parser_is_whitespace (spn_semver_parser_peek p) then p
      else spn_semver_parser_eat_whitespace (spn_semver_parser_eat p))"
  by pat_completeness auto
termination
  by (relation "measure (\<lambda>p. length (p_str p) - p_it p)")
     (auto simp: spn_semver_parser_is_done_def spn_semver_parser_eat_def)

definition digit_value :: "char \<Rightarrow> u32" where
  "digit_value c = of_nat (of_char c) - 48"

function parse_number_loop :: "u32 \<Rightarrow> spn_semver_parser_t \<Rightarrow> u32 \<times> spn_semver_parser_t" where
  "parse_number_loop result p =
     (if spn_semver_parser_is_done p then (result, p)
      else if \<not> spn_semver_parser_is_digit (spn_semver_parser_peek p) then (result, p)
      else let c = spn_semver_parser_peek p in
           parse_number_loop (result * 10 + digit_value c) (spn_semver_parser_eat p))"
  by pat_completeness auto
termination
  by (relation "measure (\<lambda>(r, p). length (p_str p) - p_it p)")
     (auto simp: spn_semver_parser_is_done_def spn_semver_parser_eat_def)

declare spn_semver_parser_eat_whitespace.simps [simp del] parse_number_loop.simps [simp del]

definition spn_semver_parser_parse_number ::
  "spn_semver_parser_t \<Rightarrow> u32 \<times> spn_semver_parser_t" where
  "spn_semver_parser_parse_number p = parse_number_loop 0 p"

definition spn_semver_parser_parse ::
  "spn_semver_parser_t \<Rightarrow> spn_semver_parsed_t \<times> spn_semver_parser_t" where
  "spn_semver_parser_parse p0 =
     (let (ma, p1) = spn_semver_parser_parse_number p0;
          c1 = \<lparr>has_major = True, has_minor = False, has_patch = False\<rparr>;
          r1 = \<lparr>parsed_version = Semver ma 0 0, components = c1\<rparr> in
      if spn_semver_parser_is_done p1 then (r1, p1)
      else if spn_semver_parser_peek p1 \<noteq> CHR ''.'' then (r1, p1)
      else
        let (mi, p2) = spn_semver_parser_parse_number (spn_semver_parser_eat p1);
            r2 = \<lparr>parsed_version = Semver ma mi 0, components = c1\<lparr>has_minor := True\<rparr>\<rparr> in
        if spn_semver_parser_is_done p2 then (r2, p2)
        else if spn_semver_parser_peek p2 \<noteq> CHR ''.'' then (r2, p2)
        else
          let (pa, p3) = spn_semver_parser_parse_number (spn_semver_parser_eat p2) in
          (\<lparr>parsed_version = Semver ma mi pa,
            components = c1\<lparr>has_minor := True, has_patch := True\<rparr>\<rparr>, p3))"

definition spn_semver_parse_component ::
  "spn_semver_parser_t \<Rightarrow> bool \<times> u32 \<times> spn_semver_parser_t" where
  "spn_semver_parse_component p =
     (let start = p_it p; (v, p') = spn_semver_parser_parse_number p in (p_it p' \<noteq> start, v, p'))"

text \<open>The result of \<open>spn_semver_parse_version\<close>: whether it succeeded, what it
  stored in \<open>parsed\<close>, whether it saw a wildcard, and the parser.\<close>

definition spn_semver_parse_version ::
  "spn_semver_parser_t \<Rightarrow> spn_semver_parsed_t \<Rightarrow> bool \<Rightarrow> bool \<Rightarrow>
   bool \<times> spn_semver_parsed_t \<times> bool \<times> spn_semver_parser_t" where
  "spn_semver_parse_version p0 r0 allow_wildcard wildcard =
     (let v0 = parsed_version r0;
          (ok1, ma, p1) = spn_semver_parse_component p0;
          r1 = r0\<lparr>parsed_version := Semver ma (minor v0) (patch v0)\<rparr> in
      if \<not> ok1 then (False, r1, wildcard, p1) else
      let r1 = r1\<lparr>components := (components r1)\<lparr>has_major := True\<rparr>\<rparr> in
      if spn_semver_parser_peek p1 \<noteq> CHR ''.'' then (True, r1, wildcard, p1) else
      let p1 = spn_semver_parser_eat p1 in
      if allow_wildcard \<and> spn_semver_parser_peek p1 = CHR ''*''
      then (True, r1, True, spn_semver_parser_eat p1) else
      let (ok2, mi, p2) = spn_semver_parse_component p1;
          r2 = r1\<lparr>parsed_version := Semver ma mi (patch v0)\<rparr> in
      if \<not> ok2 then (False, r2, wildcard, p2) else
      let r2 = r2\<lparr>components := (components r2)\<lparr>has_minor := True\<rparr>\<rparr> in
      if spn_semver_parser_peek p2 \<noteq> CHR ''.'' then (True, r2, wildcard, p2) else
      let p2 = spn_semver_parser_eat p2 in
      if allow_wildcard \<and> spn_semver_parser_peek p2 = CHR ''*''
      then (True, r2, True, spn_semver_parser_eat p2) else
      let (ok3, pa, p3) = spn_semver_parse_component p2;
          r3 = r2\<lparr>parsed_version := Semver ma mi pa\<rparr> in
      if \<not> ok3 then (False, r3, wildcard, p3) else
      (True, r3\<lparr>components := (components r3)\<lparr>has_patch := True\<rparr>\<rparr>, wildcard, p3))"

datatype spn_semver_err_t = SPN_OK | SPN_ERROR

text \<open>The out parameter \<open>*range\<close> is passed in and returned, since it is also
  written on the path that then fails on trailing text.\<close>

definition spn_semver_parse_range ::
  "string \<Rightarrow> spn_semver_range_t \<Rightarrow> spn_semver_err_t \<times> spn_semver_range_t" where
  "spn_semver_parse_range s rng =
     (let p = spn_semver_parser_eat_whitespace \<lparr>p_str = s, p_it = 0\<rparr>;
          c = spn_semver_parser_peek p;
          finish = (\<lambda>p rng.
            (if spn_semver_parser_is_done (spn_semver_parser_eat_whitespace p)
             then SPN_OK else SPN_ERROR, rng)) in
      if c = CHR ''*'' then
        finish (spn_semver_parser_eat p) (spn_semver_wildcard_to_range parsed_zero)
      else if c = CHR ''^'' \<or> c = CHR ''~'' then
        let p = spn_semver_parser_eat_whitespace (spn_semver_parser_eat p);
            (ok, parsed, wildcard, p) = spn_semver_parse_version p parsed_zero False False in
        if \<not> ok then (SPN_ERROR, rng)
        else finish p (if c = CHR ''^'' then spn_semver_caret_to_range parsed
                       else spn_semver_tilde_to_range parsed)
      else if c = CHR ''>'' \<or> c = CHR ''<'' \<or> c = CHR ''='' then
        let p = spn_semver_parser_eat p;
            (op, p) =
              (if c = CHR ''>'' then
                 (if spn_semver_parser_peek p = CHR ''=''
                  then (SPN_SEMVER_OP_GEQ, spn_semver_parser_eat p) else (SPN_SEMVER_OP_GT, p))
               else if c = CHR ''<'' then
                 (if spn_semver_parser_peek p = CHR ''=''
                  then (SPN_SEMVER_OP_LEQ, spn_semver_parser_eat p) else (SPN_SEMVER_OP_LT, p))
               else (SPN_SEMVER_OP_EQ, p));
            p = spn_semver_parser_eat_whitespace p;
            (ok, parsed, wildcard, p) = spn_semver_parse_version p parsed_zero False False in
        if \<not> ok then (SPN_ERROR, rng)
        else finish p (spn_semver_comparison_to_range op (parsed_version parsed))
      else if spn_semver_parser_is_digit c then
        let (ok, parsed, wildcard, p) = spn_semver_parse_version p parsed_zero True False in
        if \<not> ok then (SPN_ERROR, rng)
        else finish p (if wildcard then spn_semver_wildcard_to_range parsed
                       else spn_semver_caret_to_range parsed)
      else (SPN_ERROR, rng))"

section \<open>Printing\<close>

fun spn_semver_op_to_str :: "spn_semver_op_t \<Rightarrow> string" where
  "spn_semver_op_to_str SPN_SEMVER_OP_EQ = ''=''"
| "spn_semver_op_to_str SPN_SEMVER_OP_GEQ = ''>=''"
| "spn_semver_op_to_str SPN_SEMVER_OP_GT = ''>''"
| "spn_semver_op_to_str SPN_SEMVER_OP_LEQ = ''<=''"
| "spn_semver_op_to_str SPN_SEMVER_OP_LT = ''<''"

fun spn_semver_mod_to_str :: "spn_semver_mod_t \<Rightarrow> spn_semver_op_t \<Rightarrow> string" where
  "spn_semver_mod_to_str SPN_SEMVER_MOD_TILDE op = ''~''"
| "spn_semver_mod_to_str SPN_SEMVER_MOD_CARET op = ''^''"
| "spn_semver_mod_to_str SPN_SEMVER_MOD_WILDCARD op = ''*''"
| "spn_semver_mod_to_str SPN_SEMVER_MOD_CMP op = spn_semver_op_to_str op"
| "spn_semver_mod_to_str SPN_SEMVER_MOD_NONE op = ''''"

definition spn_semver_from_str :: "string \<Rightarrow> spn_semver_t" where
  "spn_semver_from_str s = parsed_version (fst (spn_semver_parser_parse \<lparr>p_str = s, p_it = 0\<rparr>))"

definition spn_semver_to_str :: "(u32 \<Rightarrow> string) \<Rightarrow> spn_semver_t \<Rightarrow> string" where
  "spn_semver_to_str fmt v = fmt (major v) @ ''.'' @ fmt (minor v) @ ''.'' @ fmt (patch v)"

definition semver_version_eq :: "spn_semver_t \<Rightarrow> spn_semver_t \<Rightarrow> bool" where
  "semver_version_eq a b \<longleftrightarrow> major a = major b \<and> minor a = minor b \<and> patch a = patch b"

definition spn_semver_range_to_str :: "(u32 \<Rightarrow> string) \<Rightarrow> spn_semver_range_t \<Rightarrow> string" where
  "spn_semver_range_to_str fmt r =
     (let lv = bound_version (low r); hv = bound_version (high r);
          dflt = spn_semver_mod_to_str (range_mod r) (bound_op (low r)) @ spn_semver_to_str fmt lv in
      case range_mod r of
        SPN_SEMVER_MOD_CMP \<Rightarrow>
          if semver_version_eq lv hv then ''='' @ spn_semver_to_str fmt lv
          else if semver_version_eq lv semver_zero \<and> bound_op (low r) = SPN_SEMVER_OP_GEQ then
            spn_semver_op_to_str (bound_op (high r)) @ spn_semver_to_str fmt hv
          else spn_semver_op_to_str (bound_op (low r)) @ spn_semver_to_str fmt lv
      | SPN_SEMVER_MOD_WILDCARD \<Rightarrow>
          if semver_version_eq lv semver_zero \<and> semver_version_eq hv semver_max then ''*''
          else if minor lv = 0 \<and> patch lv = 0 \<and> major hv = major lv + 1 then
            fmt (major lv) @ ''.*''
          else fmt (major lv) @ ''.'' @ fmt (minor lv) @ ''.*''
      | SPN_SEMVER_MOD_TILDE \<Rightarrow>
          if minor lv = 0 \<and> patch lv = 0 \<and> major hv = major lv + 1 then ''~'' @ fmt (major lv)
          else dflt
      | SPN_SEMVER_MOD_CARET \<Rightarrow> dflt
      | SPN_SEMVER_MOD_NONE \<Rightarrow> dflt)"

text \<open>\<open>spn_semver_parse\<close> accepts exactly the canonical text of the version it read;
  the version is stored before the check, so it is returned in both cases.\<close>

definition spn_semver_parse ::
  "(u32 \<Rightarrow> string) \<Rightarrow> string \<Rightarrow> spn_semver_err_t \<times> spn_semver_t" where
  "spn_semver_parse fmt s =
     (let v = spn_semver_from_str s in
      if s = [] then (SPN_ERROR, v)
      else (if s = spn_semver_to_str fmt v then SPN_OK else SPN_ERROR, v))"

end
