(* ===== verification/Semver_Facts.thy ===== *)
theory Semver_Facts
  imports Semver
begin

text \<open>
  Facts about the version component: the comparison functions are a linear order,
  the parser reads what the printer writes, and each range constructor denotes the set of
  versions its notation stands for. The position-based parser is reasoned about through
  the text that is left, \<open>parser_rest\<close>.
\<close>

section \<open>Versions are linearly ordered\<close>

instantiation spn_semver_t :: linorder
begin

definition less_eq_spn_semver_t :: "spn_semver_t \<Rightarrow> spn_semver_t \<Rightarrow> bool" where
  "less_eq_spn_semver_t a b = spn_semver_leq a b"

definition less_spn_semver_t :: "spn_semver_t \<Rightarrow> spn_semver_t \<Rightarrow> bool" where
  "less_spn_semver_t a b = spn_semver_le a b"

instance
proof
  fix x y z :: spn_semver_t
  show "(x < y) = (x \<le> y \<and> \<not> y \<le> x)"
    by (auto simp: less_eq_spn_semver_t_def less_spn_semver_t_def spn_semver_leq_def spn_semver_le_def)
  show "x \<le> x"
    by (simp add: less_eq_spn_semver_t_def spn_semver_leq_def)
  show "x \<le> y \<Longrightarrow> y \<le> z \<Longrightarrow> x \<le> z"
    by (auto simp: less_eq_spn_semver_t_def spn_semver_leq_def split: if_splits)
  show "x \<le> y \<Longrightarrow> y \<le> x \<Longrightarrow> x = y"
    by (cases x; cases y) (auto simp: less_eq_spn_semver_t_def spn_semver_leq_def split: if_splits)
  show "x \<le> y \<or> y \<le> x"
    by (auto simp: less_eq_spn_semver_t_def spn_semver_leq_def)
qed

end

lemma semver_leq_iff [simp]: "spn_semver_leq a b \<longleftrightarrow> a \<le> b"
  unfolding less_eq_spn_semver_t_def ..

lemma semver_le_iff [simp]: "spn_semver_le a b \<longleftrightarrow> a < b"
  unfolding less_spn_semver_t_def ..

lemma semver_eq_iff [simp]: "spn_semver_eq a b \<longleftrightarrow> a = b"
  by (cases a; cases b) (simp add: spn_semver_eq_def)

lemma semver_geq_iff [simp]: "spn_semver_geq a b \<longleftrightarrow> b \<le> a"
  unfolding less_eq_spn_semver_t_def spn_semver_leq_def spn_semver_geq_def by auto

lemma semver_ge_iff [simp]: "spn_semver_ge a b \<longleftrightarrow> b < a"
  unfolding less_spn_semver_t_def spn_semver_le_def spn_semver_ge_def by auto

lemma semver_version_eq_iff [simp]: "semver_version_eq a b \<longleftrightarrow> a = b"
  by (cases a; cases b) (simp add: semver_version_eq_def)

lemma Semver_less_iff:
  "Semver a b c < Semver a' b' c' \<longleftrightarrow> a < a' \<or> a = a' \<and> (b < b' \<or> b = b' \<and> c < c')"
  unfolding less_spn_semver_t_def spn_semver_le_def by auto

lemma Semver_le_iff:
  "Semver a b c \<le> Semver a' b' c' \<longleftrightarrow> a < a' \<or> a = a' \<and> (b < b' \<or> b = b' \<and> c \<le> c')"
  unfolding less_eq_spn_semver_t_def spn_semver_leq_def by auto

lemma semver_zero_le [simp]: "semver_zero \<le> v"
  by (cases v) (auto simp: semver_zero_def Semver_le_iff word_gt_0)

lemma semver_max_alt: "semver_max = Semver (-1) (-1) (-1)"
  by (simp add: semver_max_def)

lemma semver_le_max [simp]: "v \<le> semver_max"
  by (cases v) (auto simp: semver_max_alt Semver_le_iff less_le)

lemma semver_cmp_values:
  "spn_semver_cmp a b = (if a = b then 0 else if a < b then -1 else 1)"
  by (simp add: spn_semver_cmp_def less_le)

section \<open>Range membership\<close>

lemma in_range_Range [simp]:
  "spn_semver_in_range v (Range l h m) \<longleftrightarrow>
     spn_semver_satisfies v (bound_version l) (bound_op l) \<and>
     spn_semver_satisfies v (bound_version h) (bound_op h)"
  by (simp add: spn_semver_in_range_def)

lemma comparison_range_iff:
  "spn_semver_in_range v (spn_semver_comparison_to_range op b) \<longleftrightarrow> spn_semver_satisfies v b op"
  by (cases op) auto

lemma caret_range_iff:
  assumes "parsed_version p = Semver M m q"
  shows "M > 0 \<Longrightarrow> M \<noteq> -1 \<Longrightarrow>
           spn_semver_in_range v (spn_semver_caret_to_range p) \<longleftrightarrow> Semver M m q \<le> v \<and> major v = M"
    and "M = 0 \<Longrightarrow> m > 0 \<Longrightarrow> m \<noteq> -1 \<Longrightarrow>
           spn_semver_in_range v (spn_semver_caret_to_range p) \<longleftrightarrow>
           Semver 0 m q \<le> v \<and> major v = 0 \<and> minor v = m"
    and "M = 0 \<Longrightarrow> m = 0 \<Longrightarrow> q \<noteq> -1 \<Longrightarrow>
           spn_semver_in_range v (spn_semver_caret_to_range p) \<longleftrightarrow> v = Semver 0 0 q"
  using assms
  by (cases v; auto simp: spn_semver_caret_to_range_def Semver_less_iff Semver_le_iff
        less_succ_u32_iff word_gt_0 dest: order.antisym)+

lemma tilde_range_iff:
  assumes "parsed_version p = Semver M m q"
  shows "has_minor (components p) \<or> has_patch (components p) \<Longrightarrow> m \<noteq> -1 \<Longrightarrow>
           spn_semver_in_range v (spn_semver_tilde_to_range p) \<longleftrightarrow>
           Semver M m q \<le> v \<and> major v = M \<and> minor v = m"
    and "\<not> has_minor (components p) \<Longrightarrow> \<not> has_patch (components p) \<Longrightarrow> M \<noteq> -1 \<Longrightarrow>
           spn_semver_in_range v (spn_semver_tilde_to_range p) \<longleftrightarrow>
           Semver M m q \<le> v \<and> major v = M"
  using assms
  by (cases v; auto simp: spn_semver_tilde_to_range_def Let_def Semver_less_iff Semver_le_iff
        less_succ_u32_iff word_gt_0 dest: order.antisym)+

section \<open>Parser positions as remaining text\<close>

definition parser_rest :: "spn_semver_parser_t \<Rightarrow> string" where
  "parser_rest p = drop (p_it p) (p_str p)"

abbreviation is_digit :: "char \<Rightarrow> bool" where
  "is_digit \<equiv> spn_semver_parser_is_digit"

abbreviation is_ws :: "char \<Rightarrow> bool" where
  "is_ws \<equiv> spn_semver_parser_is_whitespace"

lemma is_done_rest [parser_simps]: "spn_semver_parser_is_done p \<longleftrightarrow> parser_rest p = []"
  by (simp add: spn_semver_parser_is_done_def parser_rest_def)

lemma peek_rest [parser_simps]:
  "spn_semver_parser_peek p = (case parser_rest p of [] \<Rightarrow> NUL | c # _ \<Rightarrow> c)"
  by (auto simp: spn_semver_parser_peek_def is_done_rest parser_rest_def hd_drop_conv_nth
      split: list.splits dest: arg_cong [where f = hd])

lemma rest_eat [parser_simps]: "parser_rest (spn_semver_parser_eat p) = tl (parser_rest p)"
  by (simp add: parser_rest_def spn_semver_parser_eat_def tl_drop drop_Suc)

lemma rest_start [parser_simps]: "parser_rest \<lparr>p_str = s, p_it = 0\<rparr> = s"
  by (simp add: parser_rest_def)

lemma rest_eat_whitespace [parser_simps]:
  "parser_rest (spn_semver_parser_eat_whitespace p) = dropWhile is_ws (parser_rest p)"
proof (induction p rule: spn_semver_parser_eat_whitespace.induct)
  case (1 p)
  show ?case
    by (subst spn_semver_parser_eat_whitespace.simps)
       (use 1 in \<open>auto simp: parser_simps split: list.splits\<close>)
qed

definition dec_value :: "u32 \<Rightarrow> string \<Rightarrow> u32" where
  "dec_value r ds = foldl (\<lambda>r c. r * 10 + digit_value c) r ds"

lemma dec_value_Nil [simp]: "dec_value r [] = r"
  and dec_value_Cons [simp]: "dec_value r (c # ds) = dec_value (r * 10 + digit_value c) ds"
  by (simp_all add: dec_value_def)

lemma rest_advance_Suc [parser_simps]:
  "parser_rest (p\<lparr>p_it := Suc (p_it p)\<rparr>) = tl (parser_rest p)"
  using rest_eat [of p] by (simp add: spn_semver_parser_eat_def)

lemma parse_number_loop_rest:
  "parse_number_loop r p =
     (dec_value r (takeWhile is_digit (parser_rest p)),
      p\<lparr>p_it := p_it p + length (takeWhile is_digit (parser_rest p))\<rparr>)"
proof (induction r p rule: parse_number_loop.induct)
  case (1 r p)
  show ?case
    by (subst parse_number_loop.simps)
       (use 1 in \<open>auto simp: parser_simps spn_semver_parser_eat_def Let_def split: list.splits\<close>)
qed

lemma parser_rest_advance:
  "parser_rest (p\<lparr>p_it := p_it p + length (takeWhile P (parser_rest p))\<rparr>) = dropWhile P (parser_rest p)"
  by (simp add: parser_rest_def dropWhile_eq_drop add.commute)

lemma parse_number_result:
  assumes "parser_rest p = ds @ t" "list_all is_digit ds" "t = [] \<or> \<not> is_digit (hd t)"
  obtains p' where "spn_semver_parser_parse_number p = (dec_value 0 ds, p')" "parser_rest p' = t"
    "p_it p' = p_it p + length ds"
proof -
  have *: "takeWhile is_digit (parser_rest p) = ds" "dropWhile is_digit (parser_rest p) = t"
    using assms by (cases t; auto simp: list_all_iff takeWhile_append2 dropWhile_append2)+
  show ?thesis
    by (rule that [OF _ _ _])
       (auto simp: spn_semver_parser_parse_number_def parse_number_loop_rest parser_rest_advance *
         simp flip: *)
qed

section \<open>Decimal rendering\<close>

text \<open>What the code relies on of the runtime's \<open>{}\<close> format for a \<open>u32\<close>:
  it writes a non-empty run of decimal digits that denotes the number.\<close>

definition decimal_fmt :: "(u32 \<Rightarrow> string) \<Rightarrow> bool" where
  "decimal_fmt fmt \<longleftrightarrow>
     (\<forall>n. fmt n \<noteq> [] \<and> list_all spn_semver_parser_is_digit (fmt n) \<and> dec_value 0 (fmt n) = n)"

lemma decimal_fmtD [simp]:
  assumes "decimal_fmt fmt"
  shows "fmt n \<noteq> []" "list_all is_digit (fmt n)" "dec_value 0 (fmt n) = n"
  using assms by (auto simp: decimal_fmt_def)

text \<open>A concrete rendering with that property, for the examples.\<close>

fun dec_digits :: "nat \<Rightarrow> string" where
  "dec_digits n =
     (if n < 10 then [char_of (48 + n)] else dec_digits (n div 10) @ [char_of (48 + n mod 10)])"

declare dec_digits.simps [simp del]

definition dec_u32 :: "u32 \<Rightarrow> string" where
  "dec_u32 n = dec_digits (unat n)"

lemma dec_value_append: "dec_value r (xs @ ys) = dec_value (dec_value r xs) ys"
  by (simp add: dec_value_def)

lemma digit_char [simp]:
  "d < 10 \<Longrightarrow> is_digit (char_of (48 + d))" "d < 10 \<Longrightarrow> digit_value (char_of (48 + d)) = of_nat d"
  by (auto simp: spn_semver_parser_is_digit_def digit_value_def)

lemma dec_digits_decimal:
  "dec_digits n \<noteq> [] \<and> list_all is_digit (dec_digits n) \<and> dec_value 0 (dec_digits n) = of_nat n"
proof (induction n rule: dec_digits.induct)
  case (1 n)
  show ?case
  proof (cases "n < 10")
    case True
    then show ?thesis by (simp add: dec_digits.simps [of n])
  next
    case False
    have "(of_nat (n div 10) :: u32) * 10 + of_nat (n mod 10) = of_nat (n div 10 * 10 + n mod 10)"
      by (simp only: of_nat_add of_nat_mult of_nat_numeral)
    also have "\<dots> = of_nat n" by (simp only: div_mult_mod_eq)
    finally have "(of_nat (n div 10) :: u32) * 10 + of_nat (n mod 10) = of_nat n" .
    with 1 False show ?thesis
      by (simp add: dec_digits.simps [of n] dec_value_append)
  qed
qed

lemma dec_u32_decimal: "decimal_fmt dec_u32"
  using dec_digits_decimal by (simp add: decimal_fmt_def dec_u32_def)

section \<open>What the parser reads of a printed version\<close>

definition no_digit :: "string \<Rightarrow> bool" where
  "no_digit t \<longleftrightarrow> t = [] \<or> \<not> is_digit (hd t)"

lemma no_digit_simps [simp]: "no_digit []" "no_digit (c # t) \<longleftrightarrow> \<not> is_digit c"
  by (simp_all add: no_digit_def)

lemma punctuation_simps [simp]:
  "\<not> is_digit CHR ''.''" "\<not> is_digit CHR ''*''" "\<not> is_digit NUL" "\<not> is_ws CHR ''.''"
  "\<not> is_digit CHR ''^''" "\<not> is_digit CHR ''~''" "\<not> is_digit CHR ''=''"
  "\<not> is_digit CHR ''>''" "\<not> is_digit CHR ''<''" "\<not> is_ws CHR ''='' "
  "\<not> is_ws CHR ''^''" "\<not> is_ws CHR ''~''" "\<not> is_ws CHR ''*''" "\<not> is_ws CHR ''<''" "\<not> is_ws CHR ''>''"
  "NUL \<noteq> CHR ''.''" "NUL \<noteq> CHR ''*''"
  by (simp_all add: spn_semver_parser_is_digit_def spn_semver_parser_is_whitespace_def NUL_def)

lemma digit_not_punct:
  assumes "is_digit c"
  shows "\<not> is_ws c" "c \<noteq> CHR ''*''" "c \<noteq> CHR ''^''" "c \<noteq> CHR ''~''" "c \<noteq> CHR ''<''"
    "c \<noteq> CHR ''>''" "c \<noteq> CHR ''=''" "c \<noteq> CHR ''.''"
  using assms by (auto simp: spn_semver_parser_is_digit_def spn_semver_parser_is_whitespace_def)

lemma parse_component_digits:
  assumes "parser_rest p = ds @ t" "list_all is_digit ds" "ds \<noteq> []" "no_digit t"
  obtains p' where "spn_semver_parse_component p = (True, dec_value 0 ds, p')" "parser_rest p' = t"
proof -
  obtain p' where "spn_semver_parser_parse_number p = (dec_value 0 ds, p')" "parser_rest p' = t"
      "p_it p' = p_it p + length ds"
    using parse_number_result [OF assms(1,2)] assms(4) unfolding no_digit_def by blast
  with \<open>ds \<noteq> []\<close> show ?thesis
    by (intro that [of p']) (simp_all add: spn_semver_parse_component_def)
qed

lemma peek_fmt:
  assumes "decimal_fmt fmt" "parser_rest p = fmt n @ t"
  shows "is_digit (spn_semver_parser_peek p)"
  using decimal_fmtD(1,2) [OF assms(1), of n] assms(2)
  by (cases "fmt n") (simp_all add: peek_rest)

abbreviation full_version :: "u32 \<Rightarrow> u32 \<Rightarrow> u32 \<Rightarrow> spn_semver_parsed_t" where
  "full_version a b c \<equiv>
     \<lparr>parsed_version = Semver a b c,
      components = \<lparr>has_major = True, has_minor = True, has_patch = True\<rparr>\<rparr>"

abbreviation minor_version :: "u32 \<Rightarrow> u32 \<Rightarrow> spn_semver_parsed_t" where
  "minor_version a b \<equiv>
     \<lparr>parsed_version = Semver a b 0,
      components = \<lparr>has_major = True, has_minor = True, has_patch = False\<rparr>\<rparr>"

abbreviation major_version :: "u32 \<Rightarrow> spn_semver_parsed_t" where
  "major_version a \<equiv>
     \<lparr>parsed_version = Semver a 0 0,
      components = \<lparr>has_major = True, has_minor = False, has_patch = False\<rparr>\<rparr>"

lemma parse_version_full:
  assumes fmt: "decimal_fmt fmt" and "parser_rest p = spn_semver_to_str fmt (Semver a b c) @ t" "no_digit t"
  obtains p' where
    "spn_semver_parse_version p parsed_zero aw w = (True, full_version a b c, w, p')"
    "parser_rest p' = t"
proof -
  note D = decimal_fmtD [OF fmt]
  from assms have r: "parser_rest p = fmt a @ CHR ''.'' # fmt b @ CHR ''.'' # fmt c @ t"
    by (simp add: spn_semver_to_str_def)
  obtain p1 where 1: "spn_semver_parse_component p = (True, dec_value 0 (fmt a), p1)"
      "parser_rest p1 = CHR ''.'' # fmt b @ CHR ''.'' # fmt c @ t"
    using parse_component_digits [OF r D(2,1)] by auto
  obtain p2 where 2: "spn_semver_parse_component (spn_semver_parser_eat p1) = (True, dec_value 0 (fmt b), p2)"
      "parser_rest p2 = CHR ''.'' # fmt c @ t"
    using parse_component_digits [OF _ D(2,1), of "spn_semver_parser_eat p1" b "CHR ''.'' # fmt c @ t"] 1
    by (auto simp: rest_eat)
  obtain p3 where 3: "spn_semver_parse_component (spn_semver_parser_eat p2) = (True, dec_value 0 (fmt c), p3)"
      "parser_rest p3 = t"
    using parse_component_digits [OF _ D(2,1), of "spn_semver_parser_eat p2" c t] 2 \<open>no_digit t\<close>
    by (auto simp: rest_eat)
  have star: "spn_semver_parser_peek (spn_semver_parser_eat p1) \<noteq> CHR ''*''"
      "spn_semver_parser_peek (spn_semver_parser_eat p2) \<noteq> CHR ''*''"
    using peek_fmt [OF fmt, of "spn_semver_parser_eat p1" b "CHR ''.'' # fmt c @ t"]
      peek_fmt [OF fmt, of "spn_semver_parser_eat p2" c t] 1 2 digit_not_punct(2)
    by (auto simp: rest_eat)
  show ?thesis
    by (rule that [of p3])
       (use 1 2 3 star D(3) in \<open>simp_all add: spn_semver_parse_version_def parsed_zero_def peek_rest\<close>)
qed

lemma parse_version_major:
  assumes fmt: "decimal_fmt fmt" and r: "parser_rest p = fmt a @ t" "no_digit t" "t = [] \<or> hd t \<noteq> CHR ''.''"
  obtains p' where "spn_semver_parse_version p parsed_zero aw w = (True, major_version a, w, p')"
    "parser_rest p' = t"
proof -
  note D = decimal_fmtD [OF fmt]
  obtain p1 where 1: "spn_semver_parse_component p = (True, dec_value 0 (fmt a), p1)" "parser_rest p1 = t"
    using parse_component_digits [OF r(1) D(2,1) r(2)] by auto
  show ?thesis
    by (rule that [of p1])
       (use 1 D(3) r(3) in \<open>auto simp: spn_semver_parse_version_def parsed_zero_def peek_rest
          split: list.splits\<close>)
qed

lemma parse_version_wild1:
  assumes fmt: "decimal_fmt fmt" and r: "parser_rest p = fmt a @ ''.*'' @ t"
  obtains p' where "spn_semver_parse_version p parsed_zero True w = (True, major_version a, True, p')"
    "parser_rest p' = t"
proof -
  note D = decimal_fmtD [OF fmt]
  obtain p1 where 1: "spn_semver_parse_component p = (True, dec_value 0 (fmt a), p1)"
      "parser_rest p1 = ''.*'' @ t"
    using parse_component_digits [OF r D(2,1)] by auto
  show ?thesis
    by (rule that [of "spn_semver_parser_eat (spn_semver_parser_eat p1)"])
       (use 1 D(3) in \<open>auto simp: spn_semver_parse_version_def parsed_zero_def peek_rest rest_eat\<close>)
qed

lemma parse_version_wild2:
  assumes fmt: "decimal_fmt fmt" and r: "parser_rest p = fmt a @ ''.'' @ fmt b @ ''.*'' @ t"
  obtains p' where "spn_semver_parse_version p parsed_zero True w = (True, minor_version a b, True, p')"
    "parser_rest p' = t"
proof -
  note D = decimal_fmtD [OF fmt]
  obtain p1 where 1: "spn_semver_parse_component p = (True, dec_value 0 (fmt a), p1)"
      "parser_rest p1 = CHR ''.'' # fmt b @ ''.*'' @ t"
    using parse_component_digits [OF r D(2,1)] by auto
  obtain p2 where 2: "spn_semver_parse_component (spn_semver_parser_eat p1) = (True, dec_value 0 (fmt b), p2)"
      "parser_rest p2 = ''.*'' @ t"
    using parse_component_digits [OF _ D(2,1), of "spn_semver_parser_eat p1" b "''.*'' @ t"] 1
    by (auto simp: rest_eat)
  have star: "spn_semver_parser_peek (spn_semver_parser_eat p1) \<noteq> CHR ''*''"
    using peek_fmt [OF fmt, of "spn_semver_parser_eat p1" b "''.*'' @ t"] 1 digit_not_punct(2)
    by (auto simp: rest_eat)
  show ?thesis
    by (rule that [of "spn_semver_parser_eat (spn_semver_parser_eat p2)"])
       (use 1 2 star D(3) in \<open>auto simp: spn_semver_parse_version_def parsed_zero_def peek_rest rest_eat\<close>)
qed

lemma fmt_no_ws [simp]:
  assumes "decimal_fmt fmt"
  shows "dropWhile is_ws (fmt n @ t) = fmt n @ t" "dropWhile is_ws (fmt n) = fmt n"
  using decimal_fmtD(1,2) [OF assms, of n]
  by (cases "fmt n"; simp add: digit_not_punct)+

lemma to_str_no_ws [simp]:
  "decimal_fmt fmt \<Longrightarrow> dropWhile is_ws (spn_semver_to_str fmt v) = spn_semver_to_str fmt v"
  by (simp add: spn_semver_to_str_def)

section \<open>Reading back what was printed\<close>

lemma from_str_to_str:
  assumes fmt: "decimal_fmt fmt"
  shows "spn_semver_from_str (spn_semver_to_str fmt v) = v"
proof (cases v)
  case (Semver a b c)
  note D = decimal_fmtD [OF fmt]
  let ?p0 = "\<lparr>p_str = spn_semver_to_str fmt v, p_it = 0\<rparr>"
  have r0: "parser_rest ?p0 = fmt a @ CHR ''.'' # fmt b @ CHR ''.'' # fmt c"
    by (simp add: rest_start spn_semver_to_str_def Semver)
  obtain p1 where 1: "spn_semver_parser_parse_number ?p0 = (a, p1)"
      "parser_rest p1 = CHR ''.'' # fmt b @ CHR ''.'' # fmt c"
    using parse_number_result [OF r0 D(2)] D(3) [of a] by auto
  obtain p2 where 2: "spn_semver_parser_parse_number (spn_semver_parser_eat p1) = (b, p2)"
      "parser_rest p2 = CHR ''.'' # fmt c"
    using parse_number_result [OF _ D(2), of "spn_semver_parser_eat p1" b "CHR ''.'' # fmt c"]
      1 D(3) [of b] by (auto simp: rest_eat)
  obtain p3 where 3: "spn_semver_parser_parse_number (spn_semver_parser_eat p2) = (c, p3)"
    using parse_number_result [OF _ D(2), of "spn_semver_parser_eat p2" c "[]"]
      2 D(3) [of c] by (auto simp: rest_eat)
  show ?thesis
    using 1 2 3 Semver by (simp add: spn_semver_from_str_def spn_semver_parser_parse_def parser_simps)
qed

lemma parse_range_caret:
  assumes "decimal_fmt fmt"
  shows "spn_semver_parse_range (''^'' @ spn_semver_to_str fmt (Semver a b c)) r0 =
           (SPN_OK, spn_semver_caret_to_range (full_version a b c))"
proof -
  let ?p = "spn_semver_parser_eat_whitespace (spn_semver_parser_eat (spn_semver_parser_eat_whitespace
     \<lparr>p_str = ''^'' @ spn_semver_to_str fmt (Semver a b c), p_it = 0\<rparr>))"
  obtain p' where "spn_semver_parse_version ?p parsed_zero False False =
      (True, full_version a b c, False, p')" "parser_rest p' = []"
    using parse_version_full [OF assms, of ?p a b c "[]"] assms by (auto simp: parser_simps)
  then show ?thesis
    by (simp add: spn_semver_parse_range_def parser_simps)
qed

lemma parse_range_tilde:
  assumes "decimal_fmt fmt"
  shows "spn_semver_parse_range (''~'' @ spn_semver_to_str fmt (Semver a b c)) r0 =
           (SPN_OK, spn_semver_tilde_to_range (full_version a b c))"
proof -
  let ?p = "spn_semver_parser_eat_whitespace (spn_semver_parser_eat (spn_semver_parser_eat_whitespace
     \<lparr>p_str = ''~'' @ spn_semver_to_str fmt (Semver a b c), p_it = 0\<rparr>))"
  obtain p' where "spn_semver_parse_version ?p parsed_zero False False =
      (True, full_version a b c, False, p')" "parser_rest p' = []"
    using parse_version_full [OF assms, of ?p a b c "[]"] assms by (auto simp: parser_simps)
  then show ?thesis
    by (simp add: spn_semver_parse_range_def parser_simps)
qed

lemma parse_range_tilde_major:
  assumes "decimal_fmt fmt"
  shows "spn_semver_parse_range (''~'' @ fmt a) r0 =
           (SPN_OK, spn_semver_tilde_to_range (major_version a))"
proof -
  let ?p = "spn_semver_parser_eat_whitespace (spn_semver_parser_eat (spn_semver_parser_eat_whitespace
     \<lparr>p_str = ''~'' @ fmt a, p_it = 0\<rparr>))"
  obtain p' where "spn_semver_parse_version ?p parsed_zero False False =
      (True, major_version a, False, p')" "parser_rest p' = []"
    using parse_version_major [OF assms, of ?p a "[]"] assms by (auto simp: parser_simps)
  then show ?thesis
    by (simp add: spn_semver_parse_range_def parser_simps)
qed

lemma parse_range_any:
  "spn_semver_parse_range ''*'' r0 = (SPN_OK, spn_semver_wildcard_to_range parsed_zero)"
  by (simp add: spn_semver_parse_range_def parser_simps)

lemma fmt_start:
  assumes "decimal_fmt fmt" "s = fmt a @ t"
  obtains c cs where "s = c # cs" "is_digit c"
  using decimal_fmtD(1,2) [OF assms(1), of a] assms(2) by (cases "fmt a") auto

lemma parse_range_wild1:
  assumes fmt: "decimal_fmt fmt"
  shows "spn_semver_parse_range (fmt a @ ''.*'') r0 =
           (SPN_OK, spn_semver_wildcard_to_range (major_version a))"
proof -
  let ?p = "spn_semver_parser_eat_whitespace \<lparr>p_str = fmt a @ ''.*'', p_it = 0\<rparr>"
  obtain p' where "spn_semver_parse_version ?p parsed_zero True False =
      (True, major_version a, True, p')" "parser_rest p' = []"
    using parse_version_wild1 [OF fmt, of ?p a "[]"] fmt by (auto simp: parser_simps)
  moreover obtain c cs where "fmt a @ ''.*'' = c # cs" "is_digit c"
    using fmt_start [OF fmt refl] .
  ultimately show ?thesis
    using fmt by (simp add: spn_semver_parse_range_def parser_simps digit_not_punct)
qed

lemma parse_range_wild2:
  assumes fmt: "decimal_fmt fmt"
  shows "spn_semver_parse_range (fmt a @ ''.'' @ fmt b @ ''.*'') r0 =
           (SPN_OK, spn_semver_wildcard_to_range (minor_version a b))"
proof -
  let ?p = "spn_semver_parser_eat_whitespace \<lparr>p_str = fmt a @ ''.'' @ fmt b @ ''.*'', p_it = 0\<rparr>"
  obtain p' where "spn_semver_parse_version ?p parsed_zero True False =
      (True, minor_version a b, True, p')" "parser_rest p' = []"
    using parse_version_wild2 [OF fmt, of ?p a b "[]"] fmt by (auto simp: parser_simps)
  moreover obtain c cs where "fmt a @ ''.'' @ fmt b @ ''.*'' = c # cs" "is_digit c"
    using fmt_start [OF fmt refl] .
  ultimately show ?thesis
    using fmt by (simp add: spn_semver_parse_range_def parser_simps digit_not_punct)
qed

lemma parse_range_cmp:
  assumes fmt: "decimal_fmt fmt"
  shows "spn_semver_parse_range (spn_semver_op_to_str op @ spn_semver_to_str fmt v) r0 =
           (SPN_OK, spn_semver_comparison_to_range op v)"
proof -
  obtain a b c where v: "v = Semver a b c" by (cases v)
  have rd: "\<exists>p'. spn_semver_parse_version p parsed_zero False False =
        (True, full_version a b c, False, p') \<and> parser_rest p' = []"
    if "parser_rest p = spn_semver_to_str fmt (Semver a b c)" for p
    by (rule parse_version_full [OF fmt, of p a b c "[]" False False]) (use that in simp_all)
  let ?p = "spn_semver_parser_eat_whitespace
    \<lparr>p_str = spn_semver_op_to_str op @ spn_semver_to_str fmt v, p_it = 0\<rparr>"
  let ?q = "spn_semver_parser_eat_whitespace (spn_semver_parser_eat ?p)"
  let ?q2 = "spn_semver_parser_eat_whitespace (spn_semver_parser_eat (spn_semver_parser_eat ?p))"
  obtain d ds where hd: "spn_semver_to_str fmt v = d # ds" "is_digit d"
    by (rule fmt_start [OF fmt spn_semver_to_str_def])
  have ws: "\<not> is_ws d" and ne: "d \<noteq> CHR ''=''" using digit_not_punct hd(2) by auto
  show ?thesis
  proof (cases op)
    case SPN_SEMVER_OP_LT
    have "parser_rest ?q = spn_semver_to_str fmt (Semver a b c)"
      using hd ws v by (simp add: parser_simps SPN_SEMVER_OP_LT)
    from rd [OF this] obtain p' where
      "spn_semver_parse_version ?q parsed_zero False False = (True, full_version a b c, False, p')"
      "parser_rest p' = []" by blast
    then show ?thesis
      using v hd ne by (simp add: spn_semver_parse_range_def parser_simps SPN_SEMVER_OP_LT)
  next
    case SPN_SEMVER_OP_LEQ
    have "parser_rest ?q2 = spn_semver_to_str fmt (Semver a b c)"
      using hd ws v by (simp add: parser_simps SPN_SEMVER_OP_LEQ)
    from rd [OF this] obtain p' where
      "spn_semver_parse_version ?q2 parsed_zero False False = (True, full_version a b c, False, p')"
      "parser_rest p' = []" by blast
    then show ?thesis
      using v hd ne by (simp add: spn_semver_parse_range_def parser_simps SPN_SEMVER_OP_LEQ)
  next
    case SPN_SEMVER_OP_GT
    have "parser_rest ?q = spn_semver_to_str fmt (Semver a b c)"
      using hd ws v by (simp add: parser_simps SPN_SEMVER_OP_GT)
    from rd [OF this] obtain p' where
      "spn_semver_parse_version ?q parsed_zero False False = (True, full_version a b c, False, p')"
      "parser_rest p' = []" by blast
    then show ?thesis
      using v hd ne by (simp add: spn_semver_parse_range_def parser_simps SPN_SEMVER_OP_GT)
  next
    case SPN_SEMVER_OP_GEQ
    have "parser_rest ?q2 = spn_semver_to_str fmt (Semver a b c)"
      using hd ws v by (simp add: parser_simps SPN_SEMVER_OP_GEQ)
    from rd [OF this] obtain p' where
      "spn_semver_parse_version ?q2 parsed_zero False False = (True, full_version a b c, False, p')"
      "parser_rest p' = []" by blast
    then show ?thesis
      using v hd ne by (simp add: spn_semver_parse_range_def parser_simps SPN_SEMVER_OP_GEQ)
  next
    case SPN_SEMVER_OP_EQ
    have "parser_rest ?q = spn_semver_to_str fmt (Semver a b c)"
      using hd ws v by (simp add: parser_simps SPN_SEMVER_OP_EQ)
    from rd [OF this] obtain p' where
      "spn_semver_parse_version ?q parsed_zero False False = (True, full_version a b c, False, p')"
      "parser_rest p' = []" by blast
    then show ?thesis
      using v hd ne by (simp add: spn_semver_parse_range_def parser_simps SPN_SEMVER_OP_EQ)
  qed
qed

section \<open>The ranges the parser produces\<close>

definition wf_parsed :: "spn_semver_parsed_t \<Rightarrow> bool" where
  "wf_parsed p \<longleftrightarrow> (\<exists>a b c. p = full_version a b c \<or> p = minor_version a b \<or> p = major_version a)"

definition parsed_range :: "spn_semver_range_t \<Rightarrow> bool" where
  "parsed_range r \<longleftrightarrow>
     (\<exists>p. wf_parsed p \<and> (r = spn_semver_caret_to_range p \<or> r = spn_semver_tilde_to_range p)) \<or>
     (\<exists>a b. r = spn_semver_wildcard_to_range (major_version a) \<or>
            r = spn_semver_wildcard_to_range (minor_version a b)) \<or>
     r = spn_semver_wildcard_to_range parsed_zero \<or>
     (\<exists>op v. r = spn_semver_comparison_to_range op v)"

lemma parse_version_wf:
  assumes "spn_semver_parse_version p parsed_zero aw w = (True, r, w', p')"
  shows "wf_parsed r" and "w' \<Longrightarrow> \<not> w \<Longrightarrow> (\<exists>a b. r = major_version a \<or> r = minor_version a b)"
  using assms
  by (auto simp: spn_semver_parse_version_def parsed_zero_def wf_parsed_def Let_def
      split: prod.splits if_splits)

lemma parse_range_parsed:
  assumes "spn_semver_parse_range s r0 = (SPN_OK, r)"
  shows "parsed_range r"
  using assms
  by (auto simp: spn_semver_parse_range_def parsed_range_def Let_def
      simp del: spn_semver_comparison_to_range.simps
      split: prod.splits if_splits dest: parse_version_wf)

end
