(* ===== verification/Semver_Props.thy ===== *)
theory Semver_Props
  imports Semver_Facts
begin

text \<open>
  The promises of the version component: the comparison used for sorting is
  consistent, versions and requirements survive printing and reading back, and each
  requirement form admits exactly the versions its notation means.
\<close>

section \<open>Printing and reading ranges\<close>

lemma roundtrip_caret_tilde:
  assumes fmt: "decimal_fmt fmt" and "wf_parsed p"
    and "r = spn_semver_caret_to_range p \<or> r = spn_semver_tilde_to_range p"
  shows "spn_semver_parse_range (spn_semver_range_to_str fmt r) r0 = (SPN_OK, r)"
proof -
  from \<open>wf_parsed p\<close> obtain a b c where
    p: "p = full_version a b c \<or> p = minor_version a b \<or> p = major_version a"
    by (auto simp: wf_parsed_def)
  note pr = parse_range_caret [OF fmt, simplified] parse_range_tilde [OF fmt, simplified]
    parse_range_tilde_major [OF fmt, simplified]
  have succ: "(x :: u32) \<noteq> x + 1" for x by simp
  from assms(3) show ?thesis
  proof
    assume r: "r = spn_semver_caret_to_range p"
    then have "spn_semver_range_to_str fmt r = ''^'' @ spn_semver_to_str fmt (parsed_version p)"
      by (simp add: spn_semver_range_to_str_def spn_semver_caret_to_range_def Let_def)
    moreover obtain x y z where v: "parsed_version p = Semver x y z"
      by (cases "parsed_version p")
    moreover have "spn_semver_caret_to_range (full_version x y z) = r"
      using v r by (simp add: spn_semver_caret_to_range_def)
    ultimately show ?thesis by (simp add: pr)
  next
    assume r: "r = spn_semver_tilde_to_range p"
    from p show ?thesis
    proof (elim disjE)
      assume q: "p = full_version a b c"
      then have "spn_semver_range_to_str fmt r = ''~'' @ spn_semver_to_str fmt (Semver a b c)"
        using succ [of a] by (simp add: r spn_semver_range_to_str_def spn_semver_tilde_to_range_def)
      with q r show ?thesis by (simp add: pr)
    next
      assume q: "p = minor_version a b"
      then have "spn_semver_range_to_str fmt r = ''~'' @ spn_semver_to_str fmt (Semver a b 0)"
        using succ [of a] by (simp add: r spn_semver_range_to_str_def spn_semver_tilde_to_range_def)
      with q r show ?thesis by (simp add: pr spn_semver_tilde_to_range_def)
    next
      assume q: "p = major_version a"
      then have "spn_semver_range_to_str fmt r = ''~'' @ fmt a"
        by (simp add: r spn_semver_range_to_str_def spn_semver_tilde_to_range_def)
      with q r show ?thesis by (simp add: pr)
    qed
  qed
qed

lemma roundtrip_wildcard:
  assumes fmt: "decimal_fmt fmt"
    and "r = spn_semver_wildcard_to_range (major_version a) \<or>
         r = spn_semver_wildcard_to_range (minor_version a b) \<or>
         r = spn_semver_wildcard_to_range parsed_zero"
  shows "spn_semver_parse_range (spn_semver_range_to_str fmt r) r0 = (SPN_OK, r)"
proof -
  note pr = parse_range_any parse_range_wild1 [OF fmt, simplified] parse_range_wild2 [OF fmt, simplified]
  have succ: "(x :: u32) \<noteq> x + 1" for x by simp
  from assms(2) show ?thesis
  proof (elim disjE)
    assume r: "r = spn_semver_wildcard_to_range (major_version a)"
    then have "spn_semver_range_to_str fmt r = fmt a @ ''.*''"
      by (simp add: spn_semver_range_to_str_def spn_semver_wildcard_to_range_def semver_max_def
          semver_zero_def)
    with r show ?thesis by (simp add: pr)
  next
    assume r: "r = spn_semver_wildcard_to_range (minor_version a b)"
    then have "spn_semver_range_to_str fmt r = fmt a @ ''.'' @ fmt b @ ''.*''"
      using succ [of a]
      by (simp add: spn_semver_range_to_str_def spn_semver_wildcard_to_range_def semver_max_def
          semver_zero_def)
    with r show ?thesis by (simp add: pr)
  next
    assume r: "r = spn_semver_wildcard_to_range parsed_zero"
    then have "spn_semver_range_to_str fmt r = ''*''"
      by (simp add: spn_semver_range_to_str_def spn_semver_wildcard_to_range_def semver_max_def
          semver_zero_def parsed_zero_def)
    with r show ?thesis by (simp add: pr)
  qed
qed

lemma semver_zero_neq_max [simp]: "semver_zero \<noteq> semver_max" "semver_max \<noteq> semver_zero"
  by (simp_all add: semver_zero_def semver_max_def)

lemma roundtrip_comparison:
  assumes fmt: "decimal_fmt fmt"
    and r: "r = spn_semver_comparison_to_range op v"
    and "r \<noteq> spn_semver_comparison_to_range SPN_SEMVER_OP_LT semver_zero"
    and "r \<noteq> spn_semver_comparison_to_range SPN_SEMVER_OP_GT semver_max"
  shows "spn_semver_parse_range (spn_semver_range_to_str fmt r) r0 = (SPN_OK, r)"
  using assms(3,4) parse_range_cmp [OF fmt, of SPN_SEMVER_OP_EQ v r0]
    parse_range_cmp [OF fmt, of SPN_SEMVER_OP_LEQ semver_max r0] parse_range_cmp [OF fmt, of op v r0]
  unfolding r by (cases op) (auto simp: spn_semver_range_to_str_def)

text \<open>C29: a requirement that the parser accepts is printed to text that the parser reads
  back as the same range. The only ranges excluded are those of \<open><0.0.0\<close> and of
  \<open>>4294967295.4294967295.4294967295\<close>, which admit no version at all.\<close>

theorem range_print_parse:
  assumes "decimal_fmt fmt"
    and "spn_semver_parse_range s r0 = (SPN_OK, r)"
    and "r \<noteq> spn_semver_comparison_to_range SPN_SEMVER_OP_LT semver_zero"
    and "r \<noteq> spn_semver_comparison_to_range SPN_SEMVER_OP_GT semver_max"
  shows "spn_semver_parse_range (spn_semver_range_to_str fmt r) r1 = (SPN_OK, r)"
  using parse_range_parsed [OF assms(2)] assms unfolding parsed_range_def
  by (metis roundtrip_caret_tilde roundtrip_wildcard roundtrip_comparison)

theorem range_print_parse_witness:
  "spn_semver_parse_range (spn_semver_range_to_str dec_u32
      (spn_semver_tilde_to_range (major_version 7))) spn_semver_any =
    (SPN_OK, spn_semver_tilde_to_range (major_version 7))"
  by (rule range_print_parse [OF dec_u32_decimal parse_range_tilde_major [OF dec_u32_decimal]])
     (simp_all add: spn_semver_tilde_to_range_def)

text \<open>C30: the version parser accepts a text exactly when it is the canonical rendering of
  the version it returns; every rendered version is accepted.\<close>

theorem version_parse_canonical:
  assumes "decimal_fmt fmt"
  shows "spn_semver_parse fmt s = (SPN_OK, v) \<longleftrightarrow> s = spn_semver_to_str fmt v"
  using from_str_to_str [OF assms, of v]
  by (auto simp: spn_semver_parse_def spn_semver_to_str_def Let_def split: if_splits)

theorem version_parse_canonical_witness:
  "spn_semver_parse dec_u32 (spn_semver_to_str dec_u32 (Semver 1 20 3)) = (SPN_OK, Semver 1 20 3)"
  by (simp add: version_parse_canonical [OF dec_u32_decimal])

text \<open>the sort kernel is a consistent comparison: it is zero on equal versions only, it
  is antisymmetric, and it is transitive (the result for the outer pair never exceeds both inner
  results).\<close>

theorem sort_kernel_consistent:
  "(spn_semver_sort_kernel a b = 0 \<longleftrightarrow> a = b) \<and>
   spn_semver_sort_kernel b a = - spn_semver_sort_kernel a b \<and>
   spn_semver_sort_kernel a c \<le> max (spn_semver_sort_kernel a b) (spn_semver_sort_kernel b c)"
  by (auto simp: spn_semver_sort_kernel_def semver_cmp_values)

text \<open>C31: a caret requirement admits the versions from the written one up to the next change
  of the leftmost non-zero component; a caret on a version whose leftmost non-zero component is
  the largest number admits nothing, because the upper bound wraps to zero.\<close>

theorem caret_admits:
  "spn_semver_in_range v (spn_semver_caret_to_range p) \<longleftrightarrow>
     parsed_version p \<le> v \<and>
     (if major (parsed_version p) > 0 then
        major v = major (parsed_version p) \<and> major (parsed_version p) < 0xFFFFFFFF
      else if minor (parsed_version p) > 0 then
        major v = 0 \<and> minor v = minor (parsed_version p) \<and> minor (parsed_version p) < 0xFFFFFFFF
      else v = parsed_version p \<and> patch v < 0xFFFFFFFF)"
proof (cases "parsed_version p")
  case (Semver M m q)
  have lt_max: "(x :: u32) < 4294967295 \<longleftrightarrow> x \<noteq> -1" for x
    by (metis u32_max_numeral u32_not_max_less linorder_neqE)
  have wrap1: "\<not> spn_semver_in_range v (spn_semver_caret_to_range p)" if "M = -1"
    using that Semver
    by (cases v) (auto simp: spn_semver_caret_to_range_def Semver_less_iff word_gt_0)
  have wrap2: "\<not> spn_semver_in_range v (spn_semver_caret_to_range p)" if "M = 0" "m = -1"
    using that Semver
    by (cases v) (auto simp: spn_semver_caret_to_range_def Semver_less_iff word_gt_0)
  have wrap3: "\<not> spn_semver_in_range v (spn_semver_caret_to_range p)" if "M = 0" "m = 0" "q = -1"
    using that Semver
    by (cases v) (auto simp: spn_semver_caret_to_range_def Semver_less_iff word_gt_0)
  note ranges = caret_range_iff [OF Semver, of v]
  consider "M > 0" | "M = 0" "m > 0" | "M = 0" "m = 0" by (auto simp: word_gt_0)
  then show ?thesis
  proof cases
    case 1
    with ranges(1) wrap1 Semver show ?thesis by (cases "M = -1") (simp_all add: lt_max)
  next
    case 2
    with ranges(2) wrap2 Semver show ?thesis by (cases "m = -1") (simp_all add: lt_max)
  next
    case 3
    with ranges(3) wrap3 Semver show ?thesis by (cases "q = -1") (auto simp: lt_max)
  qed
qed

text \<open>a comparison requirement admits exactly the versions in that relation to the
  written version, and a tilde requirement with a minor component admits the versions from the
  written one on that agree with it in major and minor.\<close>

theorem comparison_and_tilde_admit:
  "spn_semver_in_range v (spn_semver_comparison_to_range op b) = spn_semver_satisfies v b op \<and>
   spn_semver_in_range v (spn_semver_tilde_to_range (minor_version M m)) =
     (Semver M m 0 \<le> v \<and> major v = M \<and> minor v = m \<and> m < 0xFFFFFFFF)"
proof -
  have lt_max: "(x :: u32) < 4294967295 \<longleftrightarrow> x \<noteq> -1" for x
    by (metis u32_max_numeral u32_not_max_less linorder_neqE)
  have "\<not> spn_semver_in_range v (spn_semver_tilde_to_range (minor_version M (-1)))"
    by (cases v) (auto simp: spn_semver_tilde_to_range_def Semver_less_iff Semver_le_iff)
  with tilde_range_iff(1) [of "minor_version M m" M m 0 v] lt_max
  show ?thesis by (cases "m = -1") (auto simp: comparison_range_iff)
qed

text \<open>the empty requirement \<open><0.0.0\<close> is printed as the requirement
  \<open>=0.0.0\<close>, which admits version 0.0.0: reading the printed text back changes the
  meaning.\<close>

theorem lt_zero_prints_as_eq:
  assumes "decimal_fmt fmt"
  shows "spn_semver_range_to_str fmt (spn_semver_comparison_to_range SPN_SEMVER_OP_LT semver_zero) =
           ''='' @ spn_semver_to_str fmt semver_zero \<and>
         \<not> spn_semver_in_range v (spn_semver_comparison_to_range SPN_SEMVER_OP_LT semver_zero) \<and>
         spn_semver_in_range semver_zero (snd (spn_semver_parse_range
           (spn_semver_range_to_str fmt
             (spn_semver_comparison_to_range SPN_SEMVER_OP_LT semver_zero)) r0))"
  using parse_range_cmp [OF assms, of SPN_SEMVER_OP_EQ semver_zero r0]
  by (auto simp: spn_semver_range_to_str_def not_less)

theorem lt_zero_prints_as_eq_witness:
  "spn_semver_range_to_str dec_u32 (spn_semver_comparison_to_range SPN_SEMVER_OP_LT semver_zero) =
     ''='' @ spn_semver_to_str dec_u32 semver_zero"
  using lt_zero_prints_as_eq [OF dec_u32_decimal] by blast

end
