(* ===== verification/Intern.thy ===== *)
theory Intern
  imports Prelude
begin

text \<open>
  The string interner, \<open>source/core/intern/intern.c\<close>: an open-addressing
  table with linear probing over a power-of-two capacity, which gives every distinct string
  a number. All counters are 32-bit words. The hash function is a field of the interner, as
  in the source. A probe loop of the source stops only at a free or matching slot, so it is
  a \<open>partial_function\<close> whose value \<open>None\<close> means that the loop does not end;
  the facts in \<open>Intern_Facts\<close> show that it always ends.

  A pointer to interned bytes is its address in the arena and the bytes there; the arena is the
  next free address. The mutex of the source makes every operation one step of the model. A
  null interner pointer is \<open>None\<close>.
\<close>

record cstr =
  addr :: nat
  bytes :: string

record sp_intern_slot_t =
  slot_hash :: u32
  slot_len :: nat
  slot_id :: u32
  slot_data :: "cstr option"

record sp_intern_index_t =
  slots :: "sp_intern_slot_t list"
  idx_count :: u32
  capacity :: u32

record sp_intern_t =
  arena :: nat
  index :: sp_intern_index_t
  by_id :: "string list"
  hash_fn :: "string \<Rightarrow> u32"
  next_id :: u32

unbundle bit_operations_syntax

definition SP_INTERN_INVALID_ID :: u32 where "SP_INTERN_INVALID_ID = 0"
definition SP_INTERN_INDEX_MIN_CAPACITY :: u32 where "SP_INTERN_INDEX_MIN_CAPACITY = 16"

definition free_slot :: sp_intern_slot_t where
  "free_slot = \<lparr>slot_hash = 0, slot_len = 0, slot_id = 0, slot_data = None\<rparr>"

text \<open>The default hash truncates the runtime's byte hash to 32 bits.\<close>

definition sp_intern_default_hash :: "(string \<Rightarrow> u64) \<Rightarrow> string \<Rightarrow> u32" where
  "sp_intern_default_hash hash_bytes s = ucast (hash_bytes s)"

section \<open>The index\<close>

abbreviation slot_at :: "sp_intern_index_t \<Rightarrow> u32 \<Rightarrow> sp_intern_slot_t" where
  "slot_at idx s \<equiv> slots idx ! unat s"

definition slot_matches :: "sp_intern_slot_t \<Rightarrow> string \<Rightarrow> u32 \<Rightarrow> bool" where
  "slot_matches e str hash \<longleftrightarrow>
     slot_hash e = hash \<and> slot_len e = length str \<and>
     (case slot_data e of None \<Rightarrow> False | Some d \<Rightarrow> bytes d = str)"

partial_function (option) find_from ::
  "sp_intern_index_t \<Rightarrow> string \<Rightarrow> u32 \<Rightarrow> u32 \<Rightarrow> u32 \<Rightarrow> u32 option" where
  "find_from idx str hash msk slot =
     (if slot_data (slot_at idx slot) = None then Some slot
      else if slot_matches (slot_at idx slot) str hash then Some slot
      else find_from idx str hash msk ((slot + 1) AND msk))"

definition sp_intern_index_find :: "sp_intern_index_t \<Rightarrow> string \<Rightarrow> u32 \<Rightarrow> u32 option" where
  "sp_intern_index_find idx str hash =
     (let msk = capacity idx - 1 in find_from idx str hash msk (hash AND msk))"

partial_function (option) free_from ::
  "sp_intern_index_t \<Rightarrow> u32 \<Rightarrow> u32 \<Rightarrow> u32 option" where
  "free_from idx msk slot =
     (if slot_data (slot_at idx slot) = None then Some slot
      else free_from idx msk ((slot + 1) AND msk))"

definition put_slot :: "sp_intern_index_t \<Rightarrow> u32 \<Rightarrow> sp_intern_slot_t \<Rightarrow> sp_intern_index_t" where
  "put_slot idx slot entry =
     idx\<lparr>slots := (slots idx)[unat slot := entry], idx_count := idx_count idx + 1\<rparr>"

definition sp_intern_index_insert ::
  "sp_intern_index_t \<Rightarrow> sp_intern_slot_t \<Rightarrow> sp_intern_index_t option" where
  "sp_intern_index_insert idx entry =
     (let msk = capacity idx - 1 in
      case free_from idx msk (slot_hash entry AND msk) of
        None \<Rightarrow> None
      | Some slot \<Rightarrow> Some (put_slot idx slot entry))"

fun reinsert_all ::
  "sp_intern_slot_t list \<Rightarrow> sp_intern_index_t \<Rightarrow> sp_intern_index_t option" where
  "reinsert_all [] idx = Some idx"
| "reinsert_all (entry # old) idx =
     (if slot_data entry = None then reinsert_all old idx
      else case sp_intern_index_insert idx entry of
             None \<Rightarrow> None
           | Some idx' \<Rightarrow> reinsert_all old idx')"

definition sp_intern_index_grow :: "sp_intern_index_t \<Rightarrow> sp_intern_index_t option" where
  "sp_intern_index_grow idx =
     (let cap = capacity idx * 2 in
      reinsert_all (take (unat (capacity idx)) (slots idx))
        \<lparr>slots = replicate (unat cap) free_slot, idx_count = 0, capacity = cap\<rparr>)"

definition sp_intern_index_put ::
  "sp_intern_index_t \<Rightarrow> sp_intern_slot_t \<Rightarrow> u32 \<Rightarrow> sp_intern_index_t option" where
  "sp_intern_index_put idx entry slot =
     (if (idx_count idx + 1) * 4 > capacity idx * 3 then
        (case sp_intern_index_grow idx of
           None \<Rightarrow> None
         | Some idx' \<Rightarrow> sp_intern_index_insert idx' entry)
      else Some (put_slot idx slot entry))"

section \<open>The interner\<close>

definition sp_intern_init_ex :: "(string \<Rightarrow> u32) \<Rightarrow> sp_intern_t option" where
  "sp_intern_init_ex hash =
     (let idx = \<lparr>slots = replicate (unat SP_INTERN_INDEX_MIN_CAPACITY) free_slot,
                 idx_count = 0, capacity = SP_INTERN_INDEX_MIN_CAPACITY\<rparr>;
          entry = \<lparr>slot_hash = hash [], slot_len = 0, slot_id = SP_INTERN_INVALID_ID,
                   slot_data = Some \<lparr>addr = 1, bytes = []\<rparr>\<rparr> in
      case sp_intern_index_insert idx entry of
        None \<Rightarrow> None
      | Some idx' \<Rightarrow>
          Some \<lparr>arena = 2, index = idx', by_id = [[]], hash_fn = hash,
                next_id = SP_INTERN_INVALID_ID + 1\<rparr>)"

definition sp_intern_init :: "(string \<Rightarrow> u64) \<Rightarrow> sp_intern_t option" where
  "sp_intern_init hash_bytes = sp_intern_init_ex (sp_intern_default_hash hash_bytes)"

text \<open>The shared tail of the two inserting operations: the string is copied to the arena, gets
  the next number, and is put into the index and appended to \<open>by_id\<close>.\<close>

definition intern_new ::
  "sp_intern_t \<Rightarrow> string \<Rightarrow> u32 \<Rightarrow> u32 \<Rightarrow> (u32 \<times> cstr \<times> sp_intern_t) option" where
  "intern_new it str hash slot =
     (let d = \<lparr>addr = arena it, bytes = str\<rparr>; i = next_id it;
          entry = \<lparr>slot_hash = hash, slot_len = length str, slot_id = i, slot_data = Some d\<rparr> in
      case sp_intern_index_put (index it) entry slot of
        None \<Rightarrow> None
      | Some idx' \<Rightarrow>
          Some (i, d, it\<lparr>arena := arena it + 1, index := idx', by_id := by_id it @ [str],
                         next_id := next_id it + 1\<rparr>))"

fun sp_intern_get_or_insert ::
  "sp_intern_t option \<Rightarrow> string \<Rightarrow> (u32 \<times> sp_intern_t option) option" where
  "sp_intern_get_or_insert None str = Some (SP_INTERN_INVALID_ID, None)"
| "sp_intern_get_or_insert (Some it) str =
     (if str = [] then Some (SP_INTERN_INVALID_ID, Some it)
      else let hash = hash_fn it str in
        case sp_intern_index_find (index it) str hash of
          None \<Rightarrow> None
        | Some slot \<Rightarrow>
            (case slot_data (slot_at (index it) slot) of
               Some _ \<Rightarrow> Some (slot_id (slot_at (index it) slot), Some it)
             | None \<Rightarrow>
                 (case intern_new it str hash slot of
                    None \<Rightarrow> None
                  | Some (i, d, it') \<Rightarrow> Some (i, Some it'))))"

fun sp_intern_get :: "sp_intern_t option \<Rightarrow> string \<Rightarrow> u32 option" where
  "sp_intern_get None str = Some SP_INTERN_INVALID_ID"
| "sp_intern_get (Some it) str =
     (if str = [] then Some SP_INTERN_INVALID_ID
      else map_option (\<lambda>slot. slot_id (slot_at (index it) slot))
             (sp_intern_index_find (index it) str (hash_fn it str)))"

definition sp_intern_is_equal :: "sp_intern_t option \<Rightarrow> u32 \<Rightarrow> u32 \<Rightarrow> bool" where
  "sp_intern_is_equal it a b \<longleftrightarrow> a = b"

text \<open>\<open>None\<close> inside the result is the null string \<open>SP_INTERN_INVALID_STR\<close>; the
  literal empty string has address 0 here.\<close>

fun sp_intern_get_str :: "sp_intern_t option \<Rightarrow> string \<Rightarrow> cstr option option" where
  "sp_intern_get_str None str = Some None"
| "sp_intern_get_str (Some it) str =
     (if str = [] then Some (Some \<lparr>addr = 0, bytes = []\<rparr>)
      else map_option (\<lambda>slot. slot_data (slot_at (index it) slot))
             (sp_intern_index_find (index it) str (hash_fn it str)))"

fun sp_intern_get_or_insert_str ::
  "sp_intern_t option \<Rightarrow> string \<Rightarrow> (cstr option \<times> sp_intern_t option) option" where
  "sp_intern_get_or_insert_str None str = Some (None, None)"
| "sp_intern_get_or_insert_str (Some it) str =
     (if str = [] then Some (Some \<lparr>addr = 0, bytes = []\<rparr>, Some it)
      else let hash = hash_fn it str in
        case sp_intern_index_find (index it) str hash of
          None \<Rightarrow> None
        | Some slot \<Rightarrow>
            (case slot_data (slot_at (index it) slot) of
               Some d \<Rightarrow> Some (Some d, Some it)
             | None \<Rightarrow>
                 (case intern_new it str hash slot of
                    None \<Rightarrow> None
                  | Some (i, d, it') \<Rightarrow> Some (Some d, Some it'))))"

fun sp_intern_str_from_id :: "sp_intern_t option \<Rightarrow> u32 \<Rightarrow> string option" where
  "sp_intern_str_from_id None i = None"
| "sp_intern_str_from_id (Some it) i =
     (if unat i < length (by_id it) then Some (by_id it ! unat i) else None)"

fun sp_intern_is_interned :: "sp_intern_t option \<Rightarrow> string \<Rightarrow> bool option" where
  "sp_intern_is_interned None str = Some False"
| "sp_intern_is_interned (Some it) str =
     (if str = [] then Some True
      else map_option (\<lambda>slot. slot_data (slot_at (index it) slot) \<noteq> None)
             (sp_intern_index_find (index it) str (hash_fn it str)))"

fun sp_intern_is_equal_str :: "sp_intern_t option \<Rightarrow> string \<Rightarrow> string \<Rightarrow> bool option" where
  "sp_intern_is_equal_str None a b = Some False"
| "sp_intern_is_equal_str (Some it) a b =
     (if a = [] \<or> b = [] then Some (length a = length b)
      else
        case (sp_intern_index_find (index it) a (hash_fn it a),
              sp_intern_index_find (index it) b (hash_fn it b)) of
          (Some sa, Some sb) \<Rightarrow>
            (case (slot_data (slot_at (index it) sa), slot_data (slot_at (index it) sb)) of
               (Some da, Some db) \<Rightarrow> Some (addr da = addr db)
             | _ \<Rightarrow> Some False)
        | _ \<Rightarrow> None)"

fun sp_intern_size :: "sp_intern_t option \<Rightarrow> u32" where
  "sp_intern_size None = 0"
| "sp_intern_size (Some it) = idx_count (index it)"

text \<open>\<open>sizeof(sp_intern_slot_t)\<close> is a parameter: it depends on the ABI.\<close>

fun sp_intern_metadata_bytes :: "u64 \<Rightarrow> sp_intern_t option \<Rightarrow> u64" where
  "sp_intern_metadata_bytes slot_size None = 0"
| "sp_intern_metadata_bytes slot_size (Some it) = ucast (capacity (index it)) * slot_size"

end
