(* ===== verification/Intern_Facts.thy ===== *)
theory Intern_Facts
  imports Intern
begin

text \<open>
  The interner is correct: with a free slot every probe sequence ends, growing
  and inserting keep the entries reachable from their home slots, and every operation agrees
  with the abstract view of the interner, the list of distinct strings in the order of their
  numbers (\<open>by_id\<close>).
\<close>

section \<open>Masks are remainders\<close>

lemma and_pow2_minus_1:
  fixes x :: u32
  assumes "k < 32"
  shows "unat (x AND (2 ^ k - 1)) = unat x mod 2 ^ k"
proof -
  have "(2 ^ k - 1 :: u32) = mask k" by (simp add: mask_eq_exp_minus_1)
  then have "x AND (2 ^ k - 1) = take_bit k x" by (simp add: take_bit_eq_mask)
  moreover have "unat (take_bit k x) = take_bit k (unat x)" by (rule unsigned_take_bit_eq)
  moreover have "take_bit k (unat x) = unat x mod 2 ^ k" by (rule take_bit_eq_mod)
  ultimately show ?thesis by simp
qed

lemma unat_pow2_u32:
  assumes "k < 32"
  shows "unat ((2 :: u32) ^ k) = 2 ^ k"
proof -
  have "(2::nat) ^ k < 2 ^ 32" using assms by (intro power_strict_increasing) auto
  moreover have "(2 :: u32) ^ k = of_nat (2 ^ k)" by simp
  ultimately show ?thesis by (simp only: unat_of_nat) simp
qed

lemma next_slot:
  fixes s :: u32
  assumes "k < 32"
  shows "unat ((s + 1) AND (2 ^ k - 1)) = (unat s + 1) mod 2 ^ k"
proof -
  have dv: "(2::nat) ^ k dvd 2 ^ 32" using assms by (intro le_imp_power_dvd) simp
  have "unat (s + 1) mod 2 ^ k = (unat s + 1) mod 2 ^ 32 mod 2 ^ k"
    by (simp add: unat_word_ariths)
  also have "\<dots> = (unat s + 1) mod 2 ^ k" by (rule mod_mod_cancel [OF dv])
  finally show ?thesis using assms by (simp add: and_pow2_minus_1)
qed

section \<open>Probing\<close>

lemma probe_stops:
  fixes F :: "u32 \<Rightarrow> u32 option"
  assumes F: "\<And>s. F s = (if Q (unat s) then Some s else F ((s + 1) AND (2 ^ k - 1)))"
    and k: "k < 32" and s: "unat s < 2 ^ k" and stop: "Q ((unat s + d) mod 2 ^ k)"
  shows "\<exists>r j. F s = Some r \<and> j \<le> d \<and> unat r = (unat s + j) mod 2 ^ k \<and> Q (unat r) \<and>
           (\<forall>m < j. \<not> Q ((unat s + m) mod 2 ^ k))"
  using s stop
proof (induction d arbitrary: s)
  case 0
  then show ?case by (subst F) (auto intro!: exI [of _ s])
next
  case (Suc d)
  show ?case
  proof (cases "Q (unat s)")
    case True
    with Suc.prems show ?thesis
      by (subst F) (auto intro!: exI [of _ s] exI [of _ "0 :: nat"])
  next
    case False
    let ?t = "(s + 1) AND (2 ^ k - 1)"
    have t: "unat ?t = (unat s + 1) mod 2 ^ k" by (rule next_slot [OF k])
    have shift: "(unat ?t + m) mod 2 ^ k = (unat s + Suc m) mod 2 ^ k" for m
      by (simp add: t mod_add_left_eq)
    from Suc.IH [of ?t] Suc.prems t shift obtain r j where
      r: "F ?t = Some r" "j \<le> d" "unat r = (unat s + Suc j) mod 2 ^ k" "Q (unat r)"
        "\<forall>m < j. \<not> Q ((unat s + Suc m) mod 2 ^ k)"
      by auto
    have "\<forall>m < Suc j. \<not> Q ((unat s + m) mod 2 ^ k)"
      using r(5) False Suc.prems(1) by (auto simp: less_Suc_eq_0_disj)
    with r False show ?thesis
      by (subst F) (auto intro!: exI [of _ r] exI [of _ "Suc j"])
  qed
qed

definition occupied :: "sp_intern_slot_t \<Rightarrow> bool" where
  "occupied e \<longleftrightarrow> slot_data e \<noteq> None"

definition entries :: "sp_intern_index_t \<Rightarrow> sp_intern_slot_t list" where
  "entries idx = filter occupied (slots idx)"

text \<open>An entry at position \<open>i\<close> is reachable when every slot on the way from the home slot
  of its hash to \<open>i\<close> is occupied.\<close>

definition reachable_at :: "nat \<Rightarrow> sp_intern_slot_t list \<Rightarrow> nat \<Rightarrow> u32 \<Rightarrow> bool" where
  "reachable_at k xs i h \<longleftrightarrow>
     (\<exists>j < 2 ^ k. i = (unat h + j) mod 2 ^ k \<and> (\<forall>m < j. occupied (xs ! ((unat h + m) mod 2 ^ k))))"

definition idx_ok :: "nat \<Rightarrow> sp_intern_index_t \<Rightarrow> bool" where
  "idx_ok k idx \<longleftrightarrow>
     k < 32 \<and> capacity idx = 2 ^ k \<and> length (slots idx) = 2 ^ k \<and>
     unat (idx_count idx) = length (entries idx) \<and>
     (\<forall>i < 2 ^ k. occupied (slots idx ! i) \<longrightarrow> reachable_at k (slots idx) i (slot_hash (slots idx ! i))) \<and>
     (\<forall>i < 2 ^ k. \<not> occupied (slots idx ! i) \<longrightarrow> slots idx ! i = free_slot)"

lemma free_slot_exists:
  assumes "length (filter P xs) < length xs"
  obtains i where "i < length xs" "\<not> P (xs ! i)"
  using assms by (metis filter_True in_set_conv_nth less_irrefl)

lemma mset_put_free:
  assumes "i < length xs" "\<not> P (xs ! i)" "P e"
  shows "mset (filter P (xs[i := e])) = add_mset e (mset (filter P xs))"
  using assms by (simp add: mset_filter mset_update)

lemma reach_distance:
  assumes "(i :: nat) < 2 ^ k"
  obtains d where "d < 2 ^ k" "i = (h + d) mod 2 ^ k"
proof
  let ?N = "2 ^ k :: nat"
  let ?d = "(i + (?N - h mod ?N)) mod ?N"
  show "?d < ?N" by simp
  have "(h + ?d) mod ?N = (h mod ?N + (i + (?N - h mod ?N))) mod ?N"
    by (simp add: mod_simps)
  also have "h mod ?N + (i + (?N - h mod ?N)) = i + ?N"
  proof -
    have "h mod ?N < ?N" by simp
    then show ?thesis by linarith
  qed
  finally show "i = (h + ?d) mod ?N" using assms by simp
qed

text \<open>The search loop, started at the home slot of \<open>hash\<close>, stops at the first slot that is
  free or holds the string.\<close>

lemma index_find_stops:
  assumes ok: "idx_ok k idx" and room: "length (entries idx) < 2 ^ k"
  obtains r j where
    "sp_intern_index_find idx str hash = Some r" "j < 2 ^ k" "unat r = (unat hash + j) mod 2 ^ k"
    "\<not> occupied (slot_at idx r) \<or> slot_matches (slot_at idx r) str hash"
    "\<forall>m < j. occupied (slots idx ! ((unat hash + m) mod 2 ^ k)) \<and>
            \<not> slot_matches (slots idx ! ((unat hash + m) mod 2 ^ k)) str hash"
proof -
  have k: "k < 32" and len: "length (slots idx) = 2 ^ k" and cap: "capacity idx = 2 ^ k"
    using ok by (auto simp: idx_ok_def)
  obtain i where i: "i < 2 ^ k" "\<not> occupied (slots idx ! i)"
    using free_slot_exists [of occupied "slots idx"] room len by (auto simp: entries_def)
  let ?Q = "\<lambda>i. \<not> occupied (slots idx ! i) \<or> slot_matches (slots idx ! i) str hash"
  let ?s = "hash AND (2 ^ k - 1)"
  have s: "unat ?s = unat hash mod 2 ^ k" by (rule and_pow2_minus_1 [OF k])
  obtain d where d: "d < 2 ^ k" "i = (unat ?s + d) mod 2 ^ k"
    using reach_distance [OF i(1)] by blast
  have F: "find_from idx str hash (2 ^ k - 1) t =
      (if ?Q (unat t) then Some t else find_from idx str hash (2 ^ k - 1) ((t + 1) AND (2 ^ k - 1)))" for t
    by (subst find_from.simps) (auto simp: occupied_def)
  from probe_stops [where Q = ?Q and F = "find_from idx str hash (2 ^ k - 1)", OF F k, of ?s d] d i s
  obtain r j where "find_from idx str hash (2 ^ k - 1) ?s = Some r" "j \<le> d"
      "unat r = (unat ?s + j) mod 2 ^ k" "?Q (unat r)" "\<forall>m < j. \<not> ?Q ((unat ?s + m) mod 2 ^ k)"
    by auto
  with d(1) show ?thesis
    by (intro that [of r j])
       (auto simp: sp_intern_index_find_def cap s mod_add_left_eq)
qed

lemma index_free_stops:
  assumes ok: "idx_ok k idx" and room: "length (entries idx) < 2 ^ k"
  obtains r j where
    "free_from idx (capacity idx - 1) (hash AND (capacity idx - 1)) = Some r" "j < 2 ^ k"
    "unat r = (unat hash + j) mod 2 ^ k" "\<not> occupied (slot_at idx r)"
    "\<forall>m < j. occupied (slots idx ! ((unat hash + m) mod 2 ^ k))"
proof -
  have k: "k < 32" and len: "length (slots idx) = 2 ^ k" and cap: "capacity idx = 2 ^ k"
    using ok by (auto simp: idx_ok_def)
  obtain i where i: "i < 2 ^ k" "\<not> occupied (slots idx ! i)"
    using free_slot_exists [of occupied "slots idx"] room len by (auto simp: entries_def)
  let ?Q = "\<lambda>i. \<not> occupied (slots idx ! i)"
  let ?s = "hash AND (2 ^ k - 1)"
  have s: "unat ?s = unat hash mod 2 ^ k" by (rule and_pow2_minus_1 [OF k])
  obtain d where d: "d < 2 ^ k" "i = (unat ?s + d) mod 2 ^ k"
    using reach_distance [OF i(1)] by blast
  have F: "free_from idx (2 ^ k - 1) t =
      (if ?Q (unat t) then Some t else free_from idx (2 ^ k - 1) ((t + 1) AND (2 ^ k - 1)))" for t
    by (subst free_from.simps) (auto simp: occupied_def)
  from probe_stops [where Q = ?Q and F = "free_from idx (2 ^ k - 1)", OF F k, of ?s d] d i s
  obtain r j where "free_from idx (2 ^ k - 1) ?s = Some r" "j \<le> d"
      "unat r = (unat ?s + j) mod 2 ^ k" "?Q (unat r)" "\<forall>m < j. \<not> ?Q ((unat ?s + m) mod 2 ^ k)"
    by auto
  with d(1) show ?thesis
    by (intro that [of r j]) (simp_all add: cap s mod_add_left_eq)
qed

section \<open>Storing an entry keeps the index\<close>

lemma reachable_at_mono:
  assumes "reachable_at k xs i h" "\<And>m. m < 2 ^ k \<Longrightarrow> occupied (xs ! m) \<Longrightarrow> occupied (ys ! m)"
  shows "reachable_at k ys i h"
proof -
  from assms(1) obtain j where "j < 2 ^ k" "i = (unat h + j) mod 2 ^ k"
      "\<forall>m < j. occupied (xs ! ((unat h + m) mod 2 ^ k))"
    unfolding reachable_at_def by blast
  moreover have "(unat h + m) mod 2 ^ k < 2 ^ k" for m by simp
  ultimately show ?thesis unfolding reachable_at_def using assms(2) by blast
qed

lemma put_slot_ok:
  assumes ok: "idx_ok k idx" and r: "unat r = (unat (slot_hash e) + j) mod 2 ^ k" "j < 2 ^ k"
    and free: "\<not> occupied (slot_at idx r)" and e: "occupied e"
    and path: "\<forall>m < j. occupied (slots idx ! ((unat (slot_hash e) + m) mod 2 ^ k))"
  shows "idx_ok k (put_slot idx r e)"
    and "mset (entries (put_slot idx r e)) = add_mset e (mset (entries idx))"
proof -
  have k: "k < 32" and len: "length (slots idx) = 2 ^ k"
    and cnt: "unat (idx_count idx) = length (entries idx)"
    using ok by (auto simp: idx_ok_def)
  have rlt: "unat r < 2 ^ k" using r by simp
  show m: "mset (entries (put_slot idx r e)) = add_mset e (mset (entries idx))"
    using rlt len free e by (simp add: entries_def put_slot_def mset_put_free del: mset_filter)
  then have "length (entries (put_slot idx r e)) = Suc (length (entries idx))"
    by (metis size_mset size_add_mset)
  moreover have "length (entries (put_slot idx r e)) \<le> 2 ^ k"
    using length_filter_le [of occupied "slots (put_slot idx r e)"] len
    by (simp add: entries_def put_slot_def)
  moreover have "(2::nat) ^ k \<le> 2 ^ 31" using k by (intro power_increasing) auto
  ultimately have "idx_count idx \<noteq> -1"
    using cnt by (auto simp: unsigned_minus_1_eq_mask mask_eq_exp_minus_1)
  then have cnt': "unat (idx_count idx + 1) = length (entries (put_slot idx r e))"
    using cnt \<open>length (entries (put_slot idx r e)) = _\<close> by (simp add: unat_succ_u32)
  have keep: "occupied ((slots idx)[unat r := e] ! m)" if "m < 2 ^ k" "occupied (slots idx ! m)" for m
    using that len e by (cases "m = unat r") simp_all
  have "reachable_at k ((slots idx)[unat r := e]) i (slot_hash ((slots idx)[unat r := e] ! i))"
    if "i < 2 ^ k" "occupied ((slots idx)[unat r := e] ! i)" for i
  proof (cases "i = unat r")
    case True
    have "reachable_at k (slots idx) (unat r) (slot_hash e)"
      unfolding reachable_at_def using r path by blast
    with True rlt len show ?thesis
      by (auto intro: reachable_at_mono keep)
  next
    case False
    with that ok have "reachable_at k (slots idx) i (slot_hash (slots idx ! i))"
      by (simp add: idx_ok_def)
    with False show ?thesis by (auto intro: reachable_at_mono keep)
  qed
  moreover have "(slots idx)[unat r := e] ! i = free_slot"
    if "i < 2 ^ k" "\<not> occupied ((slots idx)[unat r := e] ! i)" for i
    using that ok len e by (cases "i = unat r") (auto simp: idx_ok_def)
  ultimately show "idx_ok k (put_slot idx r e)"
    using ok cnt' by (auto simp: idx_ok_def put_slot_def)
qed

lemma index_insert_ok:
  assumes ok: "idx_ok k idx" and room: "length (entries idx) < 2 ^ k" and e: "occupied e"
  obtains idx' where "sp_intern_index_insert idx e = Some idx'" "idx_ok k idx'"
    "mset (entries idx') = add_mset e (mset (entries idx))"
proof -
  obtain r j where
    r: "free_from idx (capacity idx - 1) (slot_hash e AND (capacity idx - 1)) = Some r" "j < 2 ^ k"
    "unat r = (unat (slot_hash e) + j) mod 2 ^ k" "\<not> occupied (slot_at idx r)"
    "\<forall>m < j. occupied (slots idx ! ((unat (slot_hash e) + m) mod 2 ^ k))"
    using index_free_stops [OF ok room] .
  show ?thesis
    using put_slot_ok [OF ok r(3,2,4) e r(5)] r(1)
    by (intro that [of "put_slot idx r e"]) (simp_all add: sp_intern_index_insert_def Let_def)
qed

lemma reinsert_all_ok:
  assumes "idx_ok k idx" "length (filter occupied old) + length (entries idx) < 2 ^ k"
  shows "\<exists>idx'. reinsert_all old idx = Some idx' \<and> idx_ok k idx' \<and>
           mset (entries idx') = mset (filter occupied old) + mset (entries idx)"
  using assms
proof (induction old arbitrary: idx)
  case Nil
  then show ?case by simp
next
  case (Cons e old)
  show ?case
  proof (cases "occupied e")
    case False
    with Cons show ?thesis by (simp add: occupied_def)
  next
    case True
    with Cons.prems have room: "length (entries idx) < 2 ^ k" by simp
    obtain idx1 where 1: "sp_intern_index_insert idx e = Some idx1" "idx_ok k idx1"
        "mset (entries idx1) = add_mset e (mset (entries idx))"
      using index_insert_ok [OF Cons.prems(1) room True] .
    from 1(3) have "length (entries idx1) = Suc (length (entries idx))"
      by (metis size_mset size_add_mset)
    with Cons.IH [OF 1(2)] Cons.prems True 1 show ?thesis
      by (auto simp: occupied_def)
  qed
qed

definition empty_index :: "nat \<Rightarrow> sp_intern_index_t" where
  "empty_index k = \<lparr>slots = replicate (2 ^ k) free_slot, idx_count = 0, capacity = 2 ^ k\<rparr>"

lemma empty_index_ok:
  assumes "k < 32"
  shows "idx_ok k (empty_index k)" "entries (empty_index k) = []"
  using assms by (auto simp: idx_ok_def empty_index_def entries_def occupied_def free_slot_def
      filter_replicate)

lemma index_grow_ok:
  assumes ok: "idx_ok k idx" and k: "Suc k < 32"
  obtains idx' where "sp_intern_index_grow idx = Some idx'" "idx_ok (Suc k) idx'"
    "mset (entries idx') = mset (entries idx)"
proof -
  have cap: "capacity idx = 2 ^ k" and len: "length (slots idx) = 2 ^ k"
    using ok by (auto simp: idx_ok_def)
  have cap2: "capacity idx * 2 = 2 ^ Suc k" by (simp add: cap)
  have "length (filter occupied (slots idx)) \<le> 2 ^ k" by (metis len length_filter_le)
  then have "length (filter occupied (slots idx)) + length (entries (empty_index (Suc k))) < 2 ^ Suc k"
    using empty_index_ok(2) [OF k] by (simp add: le_less_trans)
  from reinsert_all_ok [OF empty_index_ok(1) [OF k] this] obtain idx' where
    "reinsert_all (slots idx) (empty_index (Suc k)) = Some idx'" "idx_ok (Suc k) idx'"
    "mset (entries idx') = mset (entries idx)"
    using empty_index_ok(2) [OF k] by (auto simp: entries_def simp del: mset_filter)
  moreover have "sp_intern_index_grow idx = reinsert_all (slots idx) (empty_index (Suc k))"
    using len unat_pow2_u32 [of k] unat_pow2_u32 [OF k] k
    by (simp add: sp_intern_index_grow_def cap empty_index_def Let_def mult.commute)
  ultimately show ?thesis using that by simp
qed

section \<open>The interner's invariant\<close>

definition entry_ok :: "sp_intern_t \<Rightarrow> sp_intern_slot_t \<Rightarrow> bool" where
  "entry_ok it e \<longleftrightarrow>
     (\<exists>str. slot_data e = Some \<lparr>addr = Suc (unat (slot_id e)), bytes = str\<rparr> \<and>
        slot_hash e = hash_fn it str \<and> slot_len e = length str \<and>
        unat (slot_id e) < length (by_id it) \<and> by_id it ! unat (slot_id e) = str)"

definition intern_inv :: "sp_intern_t \<Rightarrow> bool" where
  "intern_inv it \<longleftrightarrow>
     (\<exists>k \<le> 30. idx_ok k (index it) \<and> 4 * length (entries (index it)) \<le> 3 * 2 ^ k) \<and>
     (\<forall>e \<in> set (entries (index it)). entry_ok it e) \<and>
     mset (map (unat \<circ> slot_id) (entries (index it))) = mset [0..<length (by_id it)] \<and>
     distinct (by_id it) \<and> by_id it \<noteq> [] \<and> hd (by_id it) = [] \<and>
     unat (next_id it) = length (by_id it) \<and> arena it = Suc (length (by_id it))"

text \<open>The largest number of strings for which no counter of the index wraps: three quarters
  of a capacity of \<open>2 ^ 30\<close>.\<close>

definition intern_room :: "sp_intern_t \<Rightarrow> bool" where
  "intern_room it \<longleftrightarrow> length (by_id it) < 805306368"

lemma distinct_filter_nth_eq:
  assumes "distinct (map f (filter P xs))" "i < length xs" "j < length xs"
    "P (xs ! i)" "P (xs ! j)" "f (xs ! i) = f (xs ! j)"
  shows "i = j"
  using assms
proof (induction xs arbitrary: i j)
  case Nil
  then show ?case by simp
next
  case (Cons x xs)
  show ?case
  proof (cases "\<exists>i' j'. i = Suc i' \<and> j = Suc j'")
    case True
    with Cons show ?thesis by (auto split: if_splits)
  next
    case False
    have "f x \<noteq> f (xs ! m)" if "P x" "m < length xs" "P (xs ! m)" for m
      using Cons.prems(1) that by force
    with False Cons.prems show ?thesis by (cases i; cases j) force+
  qed
qed

lemma intern_inv_distinct_ids:
  "intern_inv it \<Longrightarrow> distinct (map (unat \<circ> slot_id) (entries (index it)))"
  unfolding intern_inv_def using mset_eq_imp_distinct_iff distinct_upt by metis

lemma intern_inv_length:
  "intern_inv it \<Longrightarrow> length (entries (index it)) = length (by_id it)"
  unfolding intern_inv_def by (metis length_map length_upt minus_nat.diff_0 size_mset)

lemma intern_inv_room:
  assumes "intern_inv it"
  obtains k where "k \<le> 30" "idx_ok k (index it)" "length (entries (index it)) < 2 ^ k"
    "4 * length (entries (index it)) \<le> 3 * 2 ^ k"
proof -
  from assms obtain k where k: "k \<le> 30" "idx_ok k (index it)"
      "4 * length (entries (index it)) \<le> 3 * 2 ^ k"
    unfolding intern_inv_def by blast
  moreover have "length (entries (index it)) < 2 ^ k"
    using k(3) zero_less_power [of "2 :: nat" k] by linarith
  ultimately show ?thesis using that by blast
qed

text \<open>The outcome of a search: the string's slot when it is interned, a free slot reachable
  from its home otherwise.\<close>

lemma intern_find:
  assumes inv: "intern_inv it"
  obtains r k j where
    "sp_intern_index_find (index it) str (hash_fn it str) = Some r"
    "k \<le> 30" "idx_ok k (index it)" "j < 2 ^ k" "unat r = (unat (hash_fn it str) + j) mod 2 ^ k"
    "\<forall>m < j. occupied (slots (index it) ! ((unat (hash_fn it str) + m) mod 2 ^ k))"
    "if str \<in> set (by_id it) then
       (\<exists>i < length (by_id it). by_id it ! i = str \<and> slot_id (slot_at (index it) r) = of_nat i \<and>
         slot_data (slot_at (index it) r) = Some \<lparr>addr = Suc i, bytes = str\<rparr>)
     else \<not> occupied (slot_at (index it) r)"
proof -
  let ?idx = "index it"
  let ?h = "hash_fn it str"
  obtain k where k: "k \<le> 30" "idx_ok k ?idx" "length (entries ?idx) < 2 ^ k"
    using intern_inv_room [OF inv] .
  have len: "length (slots ?idx) = 2 ^ k" using k(2) by (simp add: idx_ok_def)
  obtain r j where r: "sp_intern_index_find ?idx str ?h = Some r" "j < 2 ^ k"
      "unat r = (unat ?h + j) mod 2 ^ k"
      "\<not> occupied (slot_at ?idx r) \<or> slot_matches (slot_at ?idx r) str ?h"
      "\<forall>m < j. occupied (slots ?idx ! ((unat ?h + m) mod 2 ^ k)) \<and>
              \<not> slot_matches (slots ?idx ! ((unat ?h + m) mod 2 ^ k)) str ?h"
    using index_find_stops [OF k(2,3)] .
  have rlt: "unat r < 2 ^ k" using r(3) by simp
  have mem: "occupied (slots ?idx ! p) \<Longrightarrow> p < 2 ^ k \<Longrightarrow> entry_ok it (slots ?idx ! p)" for p
    using inv len by (auto simp: intern_inv_def entries_def)
  have final: "if str \<in> set (by_id it) then
       (\<exists>i < length (by_id it). by_id it ! i = str \<and> slot_id (slot_at ?idx r) = of_nat i \<and>
         slot_data (slot_at ?idx r) = Some \<lparr>addr = Suc i, bytes = str\<rparr>)
     else \<not> occupied (slot_at ?idx r)"
  proof (cases "occupied (slot_at ?idx r)")
    case True
    with r(4) have "slot_matches (slot_at ?idx r) str ?h" by simp
    with mem [OF True rlt] show ?thesis
      by (auto simp: slot_matches_def entry_ok_def intro!: exI [of _ "unat (slot_id (slot_at ?idx r))"])
  next
    case False
    have "str \<notin> set (by_id it)"
    proof
      assume "str \<in> set (by_id it)"
      then obtain i where i: "i < length (by_id it)" "by_id it ! i = str"
        by (metis in_set_conv_nth)
      have "i \<in># mset (map (unat \<circ> slot_id) (entries ?idx))"
        using inv i(1) by (auto simp: intern_inv_def)
      then obtain e where "e \<in> set (entries ?idx)" "unat (slot_id e) = i" by auto
      then obtain p where p: "p < 2 ^ k" "occupied (slots ?idx ! p)" "unat (slot_id (slots ?idx ! p)) = i"
        using len by (auto simp: entries_def in_set_conv_nth)
      with mem i have ok: "slot_hash (slots ?idx ! p) = ?h" "slot_matches (slots ?idx ! p) str ?h"
        by (force simp: entry_ok_def slot_matches_def)+
      from k(2) p ok obtain j' where j': "j' < 2 ^ k" "p = (unat ?h + j') mod 2 ^ k"
          "\<forall>m < j'. occupied (slots ?idx ! ((unat ?h + m) mod 2 ^ k))"
        by (auto simp: idx_ok_def reachable_at_def)
      consider "j' < j" | "j' = j" | "j < j'" by linarith
      then show False
      proof cases
        case 1
        with r(5) j'(2) ok(2) show False by blast
      next
        case 2
        with False p(2) j'(2) r(3) show False by simp
      next
        case 3
        with False j'(3) r(3) show False by simp
      qed
    qed
    with False show ?thesis by simp
  qed
  show ?thesis
    by (rule that [OF r(1) k(1,2) r(2,3) _ final]) (use r(5) in blast)
qed

end
