(* ===== verification/Intern_Props.thy ===== *)
theory Intern_Props
  imports Intern_Facts
begin

text \<open>
  Every operation of the interner returns, keeps the invariant, and agrees with the
  list of interned strings; the laws the rest of the program relies on (equal strings get
  equal numbers, now and later) are stated as the interface \<open>interner\<close> and
  discharged for the model.
\<close>

section \<open>Inserting a new string\<close>

lemma grow_condition:
  assumes n: "unat (c :: u32) = n" "n < 805306368" and k: "k \<le> 30"
  shows "(c + 1) * 4 > 2 ^ k * 3 \<longleftrightarrow> 4 * (n + 1) > 3 * 2 ^ k"
proof -
  have "(2::nat) ^ k \<le> 2 ^ 30" using k by (intro power_increasing) auto
  then have p: "unat ((2 :: u32) ^ k * 3) = 2 ^ k * 3"
    using k by (simp add: unat_word_ariths unat_pow2_u32)
  have "c \<noteq> -1" using n by (auto simp: unsigned_minus_1_eq_mask mask_eq_exp_minus_1)
  then have "unat (c + 1) = n + 1" using n by (simp add: unat_succ_u32)
  moreover have "unat (d * 4) = (n + 1) * 4" if "unat (d :: u32) = n + 1" for d
    using that n by (simp add: unat_word_ariths)
  ultimately have q: "unat ((c + 1) * 4) = (n + 1) * 4" by blast
  show ?thesis unfolding word_less_nat_alt p q by auto
qed

lemma index_put_ok:
  assumes ok: "idx_ok k idx" "k \<le> 30" "4 * length (entries idx) \<le> 3 * 2 ^ k"
    and room: "length (entries idx) < 805306368" and e: "occupied e"
    and r: "unat r = (unat (slot_hash e) + j) mod 2 ^ k" "j < 2 ^ k" "\<not> occupied (slot_at idx r)"
      "\<forall>m < j. occupied (slots idx ! ((unat (slot_hash e) + m) mod 2 ^ k))"
  obtains idx' k' where "sp_intern_index_put idx e r = Some idx'" "k' \<le> 30" "idx_ok k' idx'"
    "mset (entries idx') = add_mset e (mset (entries idx))"
    "4 * length (entries idx') \<le> 3 * 2 ^ k'"
proof -
  let ?n = "length (entries idx)"
  have cnt: "unat (idx_count idx) = ?n" and cap: "capacity idx = 2 ^ k"
    using ok(1) by (auto simp: idx_ok_def)
  have len: "length (entries idx') = Suc ?n"
    if "mset (entries idx') = add_mset e (mset (entries idx))" for idx'
    using that by (metis size_mset size_add_mset)
  note cond = grow_condition [OF cnt room ok(2)]
  show ?thesis
  proof (cases "4 * (?n + 1) > 3 * 2 ^ k")
    case False
    note put = put_slot_ok [OF ok(1) r(1,2,3) e r(4)]
    have "sp_intern_index_put idx e r = Some (put_slot idx r e)"
      using cond False by (simp add: sp_intern_index_put_def cap)
    with put len [OF put(2)] False ok(2) show ?thesis by (intro that) auto
  next
    case True
    have "k \<noteq> 30" using True room by auto
    with ok(2) have k: "Suc k \<le> 30" by simp
    then have "Suc k < 32" by simp
    from index_grow_ok [OF ok(1) this] obtain idx1 where
      1: "sp_intern_index_grow idx = Some idx1" "idx_ok (Suc k) idx1" "mset (entries idx1) = mset (entries idx)" .
    have n1: "length (entries idx1) = ?n" using 1(3) by (metis size_mset)
    have pos: "(1::nat) \<le> 2 ^ k" by simp
    have "length (entries idx1) < 2 ^ Suc k" using n1 ok(3) pos unfolding power_Suc by linarith
    from index_insert_ok [OF 1(2) this e] obtain idx2 where
      2: "sp_intern_index_insert idx1 e = Some idx2" "idx_ok (Suc k) idx2"
        "mset (entries idx2) = add_mset e (mset (entries idx1))" .
    have put: "sp_intern_index_put idx e r = Some idx2"
      using cond True 1 2 by (simp add: sp_intern_index_put_def cap)
    have m: "mset (entries idx2) = add_mset e (mset (entries idx))" using 1 2 by simp
    have "4 * (?n + 1) \<le> 3 * 2 ^ Suc k"
    proof (cases k)
      case 0
      with ok(3) show ?thesis by simp
    next
      case (Suc l)
      have step: "4 * (m + 1) \<le> 3 * (2 * (2 * x))" if "4 * m \<le> 3 * (2 * x)" "1 \<le> x" for m x :: nat
        using that by simp
      have "4 * ?n \<le> 3 * (2 * 2 ^ l)" using ok(3) unfolding Suc power_Suc .
      then show ?thesis unfolding Suc power_Suc by (rule step) simp
    qed
    with len [OF m] have "4 * length (entries idx2) \<le> 3 * 2 ^ Suc k" by simp
    with put 2 m k show ?thesis by (intro that)
  qed
qed

lemma intern_new_ok:
  assumes inv: "intern_inv it" and room: "intern_room it" and new: "str \<notin> set (by_id it)"
    and r: "sp_intern_index_find (index it) str (hash_fn it str) = Some r"
  obtains it' where
    "intern_new it str (hash_fn it str) r =
       Some (of_nat (length (by_id it)), \<lparr>addr = Suc (length (by_id it)), bytes = str\<rparr>, it')"
    "intern_inv it'" "by_id it' = by_id it @ [str]" "hash_fn it' = hash_fn it"
proof -
  let ?n = "length (by_id it)"
  let ?d = "\<lparr>addr = arena it, bytes = str\<rparr>"
  let ?e = "\<lparr>slot_hash = hash_fn it str, slot_len = length str, slot_id = next_id it, slot_data = Some ?d\<rparr>"
  obtain k j where f: "k \<le> 30" "idx_ok k (index it)" "j < 2 ^ k" "unat r = (unat (hash_fn it str) + j) mod 2 ^ k"
      "\<forall>m < j. occupied (slots (index it) ! ((unat (hash_fn it str) + m) mod 2 ^ k))"
      "\<not> occupied (slot_at (index it) r)"
    using intern_find [OF inv, of str] new r by (metis option.inject)
  have n: "length (entries (index it)) = ?n" by (rule intern_inv_length [OF inv])
  obtain k2 where k2: "idx_ok k2 (index it)" "4 * length (entries (index it)) \<le> 3 * 2 ^ k2"
    using intern_inv_room [OF inv] by metis
  then have "k2 = k" using f(2) by (auto simp: idx_ok_def)
  with k2 have load: "4 * length (entries (index it)) \<le> 3 * 2 ^ k" by simp
  have lt: "length (entries (index it)) < 805306368" using room n by (simp add: intern_room_def)
  obtain idx' k' where p: "sp_intern_index_put (index it) ?e r = Some idx'" "k' \<le> 30" "idx_ok k' idx'"
      "mset (entries idx') = add_mset ?e (mset (entries (index it)))" "4 * length (entries idx') \<le> 3 * 2 ^ k'"
    by (rule index_put_ok [OF f(2,1) load lt, of ?e r j]) (use f in \<open>auto simp: occupied_def\<close>)
  let ?it = "it\<lparr>arena := arena it + 1, index := idx', by_id := by_id it @ [str], next_id := next_id it + 1\<rparr>"
  have base: "unat (next_id it) = ?n" "arena it = Suc ?n" using inv by (auto simp: intern_inv_def)
  have nid: "next_id it = of_nat ?n" using base(1) by (metis of_nat_unat ucast_id)
  have "next_id it \<noteq> -1"
    using base(1) room by (auto simp: intern_room_def unsigned_minus_1_eq_mask mask_eq_exp_minus_1)
  then have nid': "unat (next_id it + 1) = Suc ?n" using base by (simp add: unat_succ_u32)
  have set': "set (entries idx') = insert ?e (set (entries (index it)))"
    using p(4) by (metis set_mset_mset set_mset_add_mset_insert)
  have old: "entry_ok ?it e" if "e \<in> set (entries (index it))" for e
    using that inv by (fastforce simp: intern_inv_def entry_ok_def nth_append)
  have "entry_ok ?it ?e" using base by (simp add: entry_ok_def nth_append)
  with set' old have ents: "\<forall>e \<in> set (entries (index ?it)). entry_ok ?it e" by auto
  have "mset (map (unat \<circ> slot_id) (entries idx')) = image_mset (unat \<circ> slot_id) (mset (entries idx'))"
    by simp
  also have "\<dots> = add_mset ?n (mset (map (unat \<circ> slot_id) (entries (index it))))"
    unfolding p(4) using base by simp
  also have "\<dots> = mset [0..<Suc ?n]" using inv by (simp add: intern_inv_def)
  finally have ids: "mset (map (unat \<circ> slot_id) (entries idx')) = mset [0..<Suc ?n]" .
  have "intern_inv ?it"
    unfolding intern_inv_def using inv ents ids p(2,3,5) base nid' new
    by (auto simp: intern_inv_def hd_append)
  with p(1) nid base show ?thesis
    by (intro that [of ?it]) (simp_all add: intern_new_def Let_def)
qed

section \<open>The operations on the abstract view\<close>

lemma intern_init_ok:
  obtains it where "sp_intern_init_ex hash = Some it" "intern_inv it" "by_id it = [[]]" "hash_fn it = hash"
proof -
  let ?e = "\<lparr>slot_hash = hash [], slot_len = 0, slot_id = SP_INTERN_INVALID_ID,
              slot_data = Some \<lparr>addr = 1, bytes = []\<rparr>\<rparr>"
  have e: "occupied ?e" by (simp add: occupied_def)
  note empty = empty_index_ok [of 4, simplified]
  obtain idx where idx: "sp_intern_index_insert (empty_index 4) ?e = Some idx" "idx_ok 4 idx"
      "mset (entries idx) = {#?e#}"
    by (rule index_insert_ok [OF empty(1) _ e]) (use empty(2) in auto)
  then have "entries idx = [?e]" by simp
  with idx show ?thesis
    by (intro that [of "\<lparr>arena = 2, index = idx, by_id = [[]], hash_fn = hash,
            next_id = SP_INTERN_INVALID_ID + 1\<rparr>"])
       (auto simp: sp_intern_init_ex_def empty_index_def SP_INTERN_INDEX_MIN_CAPACITY_def
          intern_inv_def entry_ok_def SP_INTERN_INVALID_ID_def Let_def intro!: exI [of _ 4])
qed

lemma intern_inv_empty_mem [simp]: "intern_inv it \<Longrightarrow> [] \<in> set (by_id it)"
  by (metis intern_inv_def hd_in_set)

lemma intern_inv_nth0 [simp]: "intern_inv it \<Longrightarrow> by_id it ! 0 = []"
  by (metis intern_inv_def hd_conv_nth)

lemma intern_inv_small_ids:
  assumes "intern_inv it" "i < length (by_id it)"
  shows "unat (of_nat i :: u32) = i"
proof -
  have "unat (next_id it) = length (by_id it)" using assms(1) by (simp add: intern_inv_def)
  then have "i < 2 ^ 32" using assms(2) u32_unat_lt [of "next_id it"] by simp
  then show ?thesis by (simp only: unat_of_nat) simp
qed

lemma get_or_insert_ok:
  assumes inv: "intern_inv it" and room: "intern_room it"
  obtains i it' where "sp_intern_get_or_insert (Some it) str = Some (of_nat i, Some it')"
    "intern_inv it'" "by_id it' = (if str \<in> set (by_id it) then by_id it else by_id it @ [str])"
    "i < length (by_id it')" "by_id it' ! i = str"
proof (cases "str = []")
  case True
  with inv show ?thesis
    by (intro that [of 0 it]) (auto simp: SP_INTERN_INVALID_ID_def intern_inv_def)
next
  case ne: False
  obtain r where r: "sp_intern_index_find (index it) str (hash_fn it str) = Some r"
    "if str \<in> set (by_id it) then
       (\<exists>i < length (by_id it). by_id it ! i = str \<and> slot_id (slot_at (index it) r) = of_nat i \<and>
         slot_data (slot_at (index it) r) = Some \<lparr>addr = Suc i, bytes = str\<rparr>)
     else \<not> occupied (slot_at (index it) r)"
    using intern_find [OF inv] by metis
  show ?thesis
  proof (cases "str \<in> set (by_id it)")
    case True
    with r obtain i where "i < length (by_id it)" "by_id it ! i = str"
        "slot_id (slot_at (index it) r) = of_nat i"
        "slot_data (slot_at (index it) r) = Some \<lparr>addr = Suc i, bytes = str\<rparr>" by auto
    with True r(1) ne inv show ?thesis by (intro that [of i it]) simp_all
  next
    case False
    with r(2) have free: "slot_data (slot_at (index it) r) = None" by (simp add: occupied_def)
    obtain it' where
      "intern_new it str (hash_fn it str) r =
         Some (of_nat (length (by_id it)), \<lparr>addr = Suc (length (by_id it)), bytes = str\<rparr>, it')"
      "intern_inv it'" "by_id it' = by_id it @ [str]"
      using intern_new_ok [OF inv room False r(1)] by metis
    with free r(1) ne False show ?thesis
      by (intro that [of "length (by_id it)" it']) simp_all
  qed
qed

declare sp_intern_get_or_insert.simps [simp del]

section \<open>The interface the program relies on\<close>

locale interner =
  fixes ins :: "'s \<Rightarrow> string \<Rightarrow> ('i \<times> 's) option"
    and name :: "'s \<Rightarrow> 'i \<Rightarrow> string option"
    and inv :: "'s \<Rightarrow> bool"
    and room :: "'s \<Rightarrow> bool"
  assumes ins_returns: "inv s \<Longrightarrow> room s \<Longrightarrow> \<exists>i s'. ins s str = Some (i, s')"
    and ins_inv: "inv s \<Longrightarrow> room s \<Longrightarrow> ins s str = Some (i, s') \<Longrightarrow> inv s'"
    and ins_name: "inv s \<Longrightarrow> room s \<Longrightarrow> ins s str = Some (i, s') \<Longrightarrow> name s' i = Some str"
    and ins_keeps: "inv s \<Longrightarrow> room s \<Longrightarrow> ins s str = Some (i, s') \<Longrightarrow> name s j = Some t \<Longrightarrow>
                      name s' j = Some t"
    and ins_known: "inv s \<Longrightarrow> room s \<Longrightarrow> ins s str = Some (i, s') \<Longrightarrow> name s j = Some str \<Longrightarrow> i = j"
begin

fun ins_all :: "'s \<Rightarrow> string list \<Rightarrow> 's option" where
  "ins_all s [] = Some s"
| "ins_all s (x # xs) = (if room s then (case ins s x of None \<Rightarrow> None | Some (_, s') \<Rightarrow> ins_all s' xs) else None)"

lemma ins_all_keeps:
  "inv s \<Longrightarrow> ins_all s xs = Some s' \<Longrightarrow> inv s' \<and> (\<forall>j t. name s j = Some t \<longrightarrow> name s' j = Some t)"
proof (induction xs arbitrary: s)
  case Nil
  then show ?case by simp
next
  case (Cons x xs)
  then obtain i s1 where s1: "room s" "ins s x = Some (i, s1)" "ins_all s1 xs = Some s'"
    by (auto split: if_splits option.splits)
  have "inv s1" using ins_inv [OF Cons.prems(1) s1(1,2)] .
  with Cons.IH [OF _ s1(3)] ins_keeps [OF Cons.prems(1) s1(1,2)] show ?case by blast
qed

lemma ids_agree:
  assumes "inv s" "room s" "ins s a = Some (i, s1)" "ins_all s1 xs = Some s2"
    "room s2" "ins s2 b = Some (j, s3)"
  shows "i = j \<longleftrightarrow> a = b"
proof -
  have "inv s1" using ins_inv assms(1,2,3) .
  with ins_all_keeps assms(4) have s2: "inv s2" "name s2 i = Some a"
    using ins_name [OF assms(1,2,3)] by auto
  have "name s3 i = Some a" "name s3 j = Some b"
    using ins_keeps [OF s2(1) assms(5,6) s2(2)] ins_name [OF s2(1) assms(5,6)] .
  moreover have "a = b \<Longrightarrow> i = j" using ins_known [OF s2(1) assms(5,6)] s2(2) by simp
  ultimately show ?thesis by auto
qed

end

definition intern_ins :: "sp_intern_t \<Rightarrow> string \<Rightarrow> (u32 \<times> sp_intern_t) option" where
  "intern_ins it str =
     (case sp_intern_get_or_insert (Some it) str of Some (i, Some it') \<Rightarrow> Some (i, it') | _ \<Rightarrow> None)"

definition intern_name :: "sp_intern_t \<Rightarrow> u32 \<Rightarrow> string option" where
  "intern_name it i = sp_intern_str_from_id (Some it) i"

lemma intern_ins_cases:
  assumes "intern_inv it" "intern_room it" "intern_ins it str = Some (n, it')"
  obtains i where "n = of_nat i" "unat n = i" "intern_inv it'"
    "by_id it' = (if str \<in> set (by_id it) then by_id it else by_id it @ [str])"
    "i < length (by_id it')" "by_id it' ! i = str"
proof (rule get_or_insert_ok [OF assms(1,2), of str])
  fix i it1
  assume a: "sp_intern_get_or_insert (Some it) str = Some (of_nat i, Some it1)" "intern_inv it1"
    "by_id it1 = (if str \<in> set (by_id it) then by_id it else by_id it @ [str])"
    "i < length (by_id it1)" "by_id it1 ! i = str"
  from a(1) assms(3) have "n = of_nat i" "it' = it1" by (auto simp: intern_ins_def)
  with a intern_inv_small_ids [OF a(2,4)] show ?thesis by (intro that [of i]) auto
qed

interpretation strs: interner intern_ins intern_name intern_inv intern_room
proof unfold_locales
  fix s str
  assume a: "intern_inv s" "intern_room s"
  show "\<exists>i s'. intern_ins s str = Some (i, s')"
    by (rule get_or_insert_ok [OF a, of str]) (auto simp: intern_ins_def)
  fix i s'
  assume b: "intern_ins s str = Some (i, s')"
  note c = intern_ins_cases [OF a b]
  show "intern_inv s'" by (rule c)
  show "intern_name s' i = Some str" by (rule c) (simp add: intern_name_def split: if_splits)
  fix j t
  assume n: "intern_name s j = Some t"
  show "intern_name s' j = Some t"
    by (rule c) (use n in \<open>auto simp: intern_name_def nth_append split: if_splits\<close>)
next
  fix s str i s' j
  assume a: "intern_inv s" "intern_room s" and b: "intern_ins s str = Some (i, s')"
    and n: "intern_name s j = Some str"
  from n have j: "unat j < length (by_id s)" "by_id s ! unat j = str"
    by (auto simp: intern_name_def split: if_splits)
  have "distinct (by_id s)" using a(1) by (simp add: intern_inv_def)
  then show "i = j"
    using j by (auto intro: intern_ins_cases [OF a b] simp: nth_eq_iff_index_eq word_unat_eq_iff)
qed

lemma query_ok:
  assumes inv: "intern_inv it"
  obtains r where "sp_intern_index_find (index it) str (hash_fn it str) = Some r"
    "if str \<in> set (by_id it) then
       (\<exists>i < length (by_id it). by_id it ! i = str \<and> slot_id (slot_at (index it) r) = of_nat i \<and>
         slot_data (slot_at (index it) r) = Some \<lparr>addr = Suc i, bytes = str\<rparr>)
     else slot_at (index it) r = free_slot"
proof (rule intern_find [OF inv, of str])
  fix r k j
  assume r: "sp_intern_index_find (index it) str (hash_fn it str) = Some r"
    and k: "idx_ok k (index it)" "unat r = (unat (hash_fn it str) + j) mod 2 ^ k"
    and res: "if str \<in> set (by_id it) then
       (\<exists>i < length (by_id it). by_id it ! i = str \<and> slot_id (slot_at (index it) r) = of_nat i \<and>
         slot_data (slot_at (index it) r) = Some \<lparr>addr = Suc i, bytes = str\<rparr>)
     else \<not> occupied (slot_at (index it) r)"
  have "unat r < 2 ^ k" using k(2) by simp
  with k(1) have "\<not> occupied (slot_at (index it) r) \<Longrightarrow> slot_at (index it) r = free_slot"
    by (auto simp: idx_ok_def)
  with r res show ?thesis by (intro that [of r]) (auto split: if_splits)
qed

lemma lookup_ok:
  assumes inv: "intern_inv it"
  shows "sp_intern_is_interned (Some it) str = Some (str \<in> set (by_id it)) \<and>
         (\<exists>i. sp_intern_get (Some it) str = Some i \<and>
            (if str \<in> set (by_id it) then sp_intern_str_from_id (Some it) i = Some str
             else i = SP_INTERN_INVALID_ID))"
proof (cases "str = []")
  case True
  have "by_id it \<noteq> []" using inv by (simp add: intern_inv_def)
  with True inv show ?thesis by (simp add: SP_INTERN_INVALID_ID_def)
next
  case False
  show ?thesis
  proof (rule query_ok [OF inv, of str])
    fix r
    assume r: "sp_intern_index_find (index it) str (hash_fn it str) = Some r"
      and res: "if str \<in> set (by_id it) then
       (\<exists>i < length (by_id it). by_id it ! i = str \<and> slot_id (slot_at (index it) r) = of_nat i \<and>
         slot_data (slot_at (index it) r) = Some \<lparr>addr = Suc i, bytes = str\<rparr>)
     else slot_at (index it) r = free_slot"
    show ?thesis
    proof (cases "str \<in> set (by_id it)")
      case True
      with res obtain i where "i < length (by_id it)" "by_id it ! i = str"
          "slot_id (slot_at (index it) r) = of_nat i" "slot_data (slot_at (index it) r) \<noteq> None" by auto
      with True False r intern_inv_small_ids [OF inv, of i] show ?thesis by simp
    next
      case new: False
      with res False r show ?thesis by (simp add: free_slot_def SP_INTERN_INVALID_ID_def)
    qed
  qed
qed

lemma equal_str_ok:
  assumes inv: "intern_inv it" and ne: "a \<noteq> []" "b \<noteq> []"
  shows "sp_intern_is_equal_str (Some it) a b = Some (a = b \<and> a \<in> set (by_id it))"
proof (rule query_ok [OF inv, of a], rule query_ok [OF inv, of b])
  fix ra rb
  let ?res = "\<lambda>s r. if s \<in> set (by_id it) then
       (\<exists>i < length (by_id it). by_id it ! i = s \<and> slot_id (slot_at (index it) r) = of_nat i \<and>
         slot_data (slot_at (index it) r) = Some \<lparr>addr = Suc i, bytes = s\<rparr>)
     else slot_at (index it) r = free_slot"
  assume a: "sp_intern_index_find (index it) a (hash_fn it a) = Some ra" "?res a ra"
    and b: "sp_intern_index_find (index it) b (hash_fn it b) = Some rb" "?res b rb"
  have out: "slot_data (slot_at (index it) r) = None" if "?res s r" "s \<notin> set (by_id it)" for s r
    using that by (simp add: free_slot_def)
  have in_: "\<exists>i < length (by_id it). by_id it ! i = s \<and>
        slot_data (slot_at (index it) r) = Some \<lparr>addr = Suc i, bytes = s\<rparr>"
    if "?res s r" "s \<in> set (by_id it)" for s r
    using that by auto
  have d: "distinct (by_id it)" using inv by (simp add: intern_inv_def)
  consider "a \<notin> set (by_id it)" | "a \<in> set (by_id it)" "b \<notin> set (by_id it)"
    | "a \<in> set (by_id it)" "b \<in> set (by_id it)" by blast
  then show ?thesis
  proof cases
    case 1
    with a b ne out [OF a(2)] show ?thesis by (simp split: option.split)
  next
    case 2
    with a b ne out [OF b(2)] show ?thesis by (auto split: option.split)
  next
    case 3
    obtain i j where "i < length (by_id it)" "by_id it ! i = a" "j < length (by_id it)" "by_id it ! j = b"
        "slot_data (slot_at (index it) ra) = Some \<lparr>addr = Suc i, bytes = a\<rparr>"
        "slot_data (slot_at (index it) rb) = Some \<lparr>addr = Suc j, bytes = b\<rparr>"
      using in_ [OF a(2) 3(1)] in_ [OF b(2) 3(2)] by auto
    with a(1) b(1) ne 3 d show ?thesis by (auto simp: nth_eq_iff_index_eq)
  qed
qed

section \<open>Properties\<close>

text \<open>C32: interning always returns. A string already interned leaves the table as it is and
  yields its number; a new one is appended to the strings; in both cases the returned number
  names the string afterwards and the table's invariant holds again.\<close>

theorem intern_get_or_insert_correct:
  assumes "intern_inv it" and "intern_room it"
  shows "\<exists>i it'. sp_intern_get_or_insert (Some it) str = Some (i, Some it') \<and>
           intern_inv it' \<and>
           by_id it' = (if str \<in> set (by_id it) then by_id it else by_id it @ [str]) \<and>
           sp_intern_str_from_id (Some it') i = Some str"
  by (rule get_or_insert_ok [OF assms, of str])
     (use intern_inv_small_ids in \<open>auto simp del: sp_intern_get_or_insert.simps\<close>)

theorem intern_get_or_insert_correct_witness:
  "\<exists>it i it'. sp_intern_init_ex (\<lambda>s. of_nat (length s)) = Some it \<and>
     sp_intern_get_or_insert (Some it) ''core/lua'' = Some (i, Some it') \<and>
     by_id it' = [[], ''core/lua'']"
proof (rule intern_init_ok [of "\<lambda>s. of_nat (length s)"])
  fix it
  assume it: "sp_intern_init_ex (\<lambda>s. of_nat (length s)) = Some it" "intern_inv it" "by_id it = [[]]"
  then have "intern_room it" by (simp add: intern_room_def)
  from intern_get_or_insert_correct [OF it(2) this, of "''core/lua''"] it(1,3) show ?thesis by auto
qed

text \<open>C33: numbers identify strings. After a string was interned and any number of other
  strings were, interning a second string gives the same number exactly when it is the same
  string.\<close>

theorem intern_ids_identify:
  assumes "intern_inv s" "intern_room s" "intern_ins s a = Some (i, s1)"
    "strs.ins_all s1 xs = Some s2" "intern_room s2" "intern_ins s2 b = Some (j, s3)"
  shows "i = j \<longleftrightarrow> a = b"
  using assms by (rule strs.ids_agree)

theorem intern_ids_identify_witness:
  "\<exists>it i j s1 s3. sp_intern_init_ex (\<lambda>_. 0) = Some it \<and> intern_ins it ''a'' = Some (i, s1) \<and>
     intern_ins s1 ''b'' = Some (j, s3) \<and> i \<noteq> j"
proof (rule intern_init_ok [of "\<lambda>_. 0"])
  fix it
  assume it: "sp_intern_init_ex (\<lambda>_. 0) = Some it" "intern_inv it" "by_id it = [[]]"
  then have r: "intern_room it" by (simp add: intern_room_def)
  obtain i s1 where 1: "intern_ins it ''a'' = Some (i, s1)"
    using strs.ins_returns [OF it(2) r] by blast
  note c = intern_ins_cases [OF it(2) r 1]
  have inv1: "intern_inv s1" by (rule c)
  have r1: "intern_room s1" by (rule c) (use it(3) in \<open>simp add: intern_room_def\<close>)
  obtain j s3 where 2: "intern_ins s1 ''b'' = Some (j, s3)"
    using strs.ins_returns [OF inv1 r1] by blast
  have "i \<noteq> j" using intern_ids_identify [OF it(2) r 1 _ r1 2, of "[]"] by simp
  with it(1) 1 2 show ?thesis by blast
qed

text \<open>the queries agree with the list of interned strings: a lookup returns the position of
  an interned string and the invalid id otherwise, the membership test is membership, and
  comparing interned pointers decides equality of interned strings.\<close>

theorem intern_queries_correct:
  assumes "intern_inv it"
  shows "sp_intern_is_interned (Some it) a = Some (a \<in> set (by_id it)) \<and>
         (\<exists>i. sp_intern_get (Some it) a = Some i \<and>
            (if a \<in> set (by_id it) then sp_intern_str_from_id (Some it) i = Some a
             else i = SP_INTERN_INVALID_ID)) \<and>
         sp_intern_is_equal_str (Some it) a b = Some (a = b \<and> a \<in> set (by_id it))"
proof (cases "a = [] \<or> b = []")
  case True
  then show ?thesis
    using lookup_ok [OF assms, of a] intern_inv_empty_mem [OF assms] by (cases "a = []") auto
next
  case False
  then show ?thesis
    using lookup_ok [OF assms, of a] equal_str_ok [OF assms, of a b] by simp
qed

theorem intern_queries_correct_witness:
  "\<exists>it. sp_intern_init_ex (\<lambda>_. 7) = Some it \<and> sp_intern_get (Some it) ''zlib'' = Some 0"
proof (rule intern_init_ok [of "\<lambda>_. 7"])
  fix it
  assume "sp_intern_init_ex (\<lambda>_. 7) = Some it" "intern_inv it" "by_id it = [[]]"
  then show ?thesis
    using intern_queries_correct [of it "''zlib''" "''zlib''"] by (auto simp: SP_INTERN_INVALID_ID_def)
qed

end
