(* ===== verification/Enum_Types.thy ===== *)
theory Enum_Types
  imports Prelude
begin

text \<open>
  The enumerations of \<open>include/spn/core.h\<close>, \<open>include/spn/types.h\<close> and
  of the components' \<open>types.h\<close> files that the textual names of
  \<open>source/core/enum/enum.c\<close> and the component theories range over: one
  datatype per C enumeration, with its enumerators in their order. The sanitizers are
  the exception: their enumerators are single bits of a set
  (\<open>spn_sanitizer_set_t\<close>), so they are words.
\<close>

datatype spn_abi_t =
  SPN_ABI_NONE
  | SPN_ABI_GNU
  | SPN_ABI_MUSL
  | SPN_ABI_MSVC
  | SPN_ABI_APPLE
  | SPN_ABI_BARE
  | SPN_ABI_ELF
  | SPN_ABI_COUNT

datatype spn_os_t =
  SPN_OS_NONE
  | SPN_OS_WINDOWS
  | SPN_OS_LINUX
  | SPN_OS_MACOS
  | SPN_OS_WASI
  | SPN_OS_FREESTANDING

datatype spn_arch_t =
  SPN_ARCH_NONE
  | SPN_ARCH_X64
  | SPN_ARCH_ARM64
  | SPN_ARCH_WASM32

datatype spn_cc_driver_t =
  SPN_CC_DRIVER_NONE
  | SPN_CC_DRIVER_GCC
  | SPN_CC_DRIVER_CLANG
  | SPN_CC_DRIVER_MSVC
  | SPN_CC_DRIVER_ZIG

datatype spn_ld_family_t =
  SPN_LD_FAMILY_NONE
  | SPN_LD_FAMILY_GNU
  | SPN_LD_FAMILY_LLD
  | SPN_LD_FAMILY_LD64
  | SPN_LD_FAMILY_MSVC

datatype spn_toolchain_detect_t =
  SPN_TOOLCHAIN_DETECT_NONE
  | SPN_TOOLCHAIN_DETECT_MSVC

datatype spn_cc_feature_t =
  SPN_CC_FEATURE_LINK_EXE
  | SPN_CC_FEATURE_LINK_SHARED
  | SPN_CC_FEATURE_LINK_REACTOR
  | SPN_CC_FEATURE_ARCHIVE
  | SPN_CC_FEATURE_FRAMEWORKS
  | SPN_CC_FEATURE_LINKER_SCRIPT

datatype spn_option_setter_kind_t =
  SPN_OPTION_SETTER_NONE
  | SPN_OPTION_SETTER_DEFAULT
  | SPN_OPTION_SETTER_PROFILE
  | SPN_OPTION_SETTER_ROOT_MANIFEST
  | SPN_OPTION_SETTER_UNION
  | SPN_OPTION_SETTER_CONSUMER

datatype spn_linkage_requester_t =
  SPN_LINKAGE_REQUESTER_PROFILE
  | SPN_LINKAGE_REQUESTER_ROOT_MANIFEST
  | SPN_LINKAGE_REQUESTER_LIBC
  | SPN_LINKAGE_REQUESTER_TARGET

datatype spn_mode_t =
  SPN_MODE_NONE
  | SPN_MODE_DEBUG
  | SPN_MODE_RELEASE

datatype spn_opt_level_t =
  SPN_OPT_LEVEL_NONE
  | SPN_OPT_LEVEL_0
  | SPN_OPT_LEVEL_1
  | SPN_OPT_LEVEL_2
  | SPN_OPT_LEVEL_3
  | SPN_OPT_LEVEL_S
  | SPN_OPT_LEVEL_Z

datatype spn_linkage_t =
  SPN_LIB_KIND_NONE
  | SPN_LIB_KIND_SHARED
  | SPN_LIB_KIND_STATIC
  | SPN_LIB_KIND_SOURCE
  | SPN_LIB_KIND_OBJECT

datatype spn_runtime_t =
  SPN_RUNTIME_NONE
  | SPN_RUNTIME_STATIC
  | SPN_RUNTIME_SHARED

datatype spn_linking_refusal_t =
  SPN_LINKING_REFUSAL_NONE
  | SPN_LINKING_REFUSAL_NO_LOADER
  | SPN_LINKING_REFUSAL_OS_LIBC
  | SPN_LINKING_REFUSAL_OS_RUNTIME
  | SPN_LINKING_REFUSAL_SHARED_RUNTIME
  | SPN_LINKING_REFUSAL_HYBRID_CRT
  | SPN_LINKING_REFUSAL_SHARED_DEPS

datatype spn_win_subsystem_t =
  SPN_WIN_SUBSYSTEM_NONE
  | SPN_WIN_SUBSYSTEM_CONSOLE
  | SPN_WIN_SUBSYSTEM_WINDOWS

datatype spn_tree_t =
  SPN_TREE_NONE
  | SPN_TREE_SOURCE
  | SPN_TREE_MANIFEST

datatype spn_libc_kind_t =
  SPN_LIBC_GNU
  | SPN_LIBC_MUSL
  | SPN_LIBC_COSMOPOLITAN
  | SPN_LIBC_CUSTOM
  | SPN_LIBC_NONE

datatype spn_dir_t =
  SPN_DIR_NONE
  | SPN_DIR_CACHE
  | SPN_DIR_STORE
  | SPN_DIR_INCLUDE
  | SPN_DIR_VENDOR
  | SPN_DIR_LIB
  | SPN_DIR_SOURCE
  | SPN_DIR_WORK
  | SPN_DIR_PROJECT
  | SPN_DIR_MANIFEST
  | SPN_DIR_BIN

datatype spn_c_standard_t =
  SPN_C_STANDARD_NONE
  | SPN_C11
  | SPN_C99
  | SPN_C89
  | SPN_GNU11
  | SPN_GNU99
  | SPN_GNU89

datatype spn_cxx_standard_t =
  SPN_CXX_STANDARD_NONE
  | SPN_CXX11
  | SPN_CXX14
  | SPN_CXX17
  | SPN_CXX20
  | SPN_CXX23

datatype spn_lang_t =
  SPN_LANG_C
  | SPN_LANG_CXX
  | SPN_LANG_ASM

datatype spn_cc_kind_t =
  SPN_CC_NONE
  | SPN_CC_GCC
  | SPN_CC_CLANG
  | SPN_CC_MUSL_GCC
  | SPN_CC_TCC
  | SPN_CC_COSMOCC
  | SPN_CC_ZIG
  | SPN_CC_CUSTOM

datatype spn_dep_kind_t =
  SPN_DEP_KIND_PACKAGE
  | SPN_DEP_KIND_BUILD
  | SPN_DEP_KIND_TEST

datatype spn_index_kind_t =
  SPN_INDEX_KIND_WORKSPACE
  | SPN_INDEX_KIND_BUILTIN
  | SPN_INDEX_KIND_USER

datatype spn_index_protocol_t =
  SPN_INDEX_PROTOCOL_GIT
  | SPN_INDEX_PROTOCOL_HTTP
  | SPN_INDEX_PROTOCOL_DIR

datatype spn_pkg_source_t =
  SPN_PKG_SOURCE_ROOT
  | SPN_PKG_SOURCE_FILE
  | SPN_PKG_SOURCE_INDEX

datatype spn_pkg_root_kind_t =
  SPN_PKG_ROOT_NONE
  | SPN_PKG_ROOT_LOCAL
  | SPN_PKG_ROOT_GIT

datatype spn_dep_edge_t =
  SPN_DEP_EDGE_SCOPE
  | SPN_DEP_EDGE_PROCESS
  | SPN_DEP_EDGE_PRIVATE
  | SPN_DEP_EDGE_PRUNED

datatype spn_index_dep_kind_t =
  SPN_INDEX_DEP_NORMAL
  | SPN_INDEX_DEP_BUILD
  | SPN_INDEX_DEP_TEST

datatype spn_option_type_t =
  SPN_OPTION_TYPE_NONE
  | SPN_OPTION_TYPE_BOOL
  | SPN_OPTION_TYPE_ENUM

datatype spn_ld_dialect_t =
  SPN_LD_DIALECT_GNU
  | SPN_LD_DIALECT_LINK
  | SPN_LD_DIALECT_DARWIN
  | SPN_LD_DIALECT_WASM
  | SPN_LD_DIALECT_COUNT

datatype spn_obj_format_t =
  SPN_OBJ_ELF
  | SPN_OBJ_COFF
  | SPN_OBJ_MACHO
  | SPN_OBJ_WASM

datatype spn_target_kind_t =
  SPN_TARGET_KIND_LIB
  | SPN_TARGET_KIND_EXE
  | SPN_TARGET_KIND_SCRIPT
  | SPN_TARGET_KIND_TEST
  | SPN_TARGET_KIND_EXAMPLE
  | SPN_TARGET_KIND_CONFIGURE_METAPROGRAM
  | SPN_TARGET_KIND_BUILD_METAPROGRAM

datatype spn_target_rule_kind_t =
  SPN_TARGET_RULE_NONE
  | SPN_TARGET_RULE_ALL
  | SPN_TARGET_RULE_NAMED

datatype spn_sdk_kind_t =
  SPN_SDK_NONE
  | SPN_SDK_SYSROOT
  | SPN_SDK_MACOS
  | SPN_SDK_MSVC

datatype spn_option_value_kind_t =
  SPN_OPTION_VALUE_NONE
  | SPN_OPTION_VALUE_BOOL
  | SPN_OPTION_VALUE_STR

datatype spn_option_err_t =
  SPN_OPTION_ERR_UNDECLARED
  | SPN_OPTION_ERR_BAD_VALUE
  | SPN_OPTION_ERR_CONFLICT
  | SPN_OPTION_ERR_VETO
  | SPN_OPTION_ERR_NO_VALUE
  | SPN_OPTION_ERR_LATE_GATE
  | SPN_OPTION_ERR_UNKNOWN_PKG

datatype spn_path_root_t =
  SPN_PATH_ROOT_NONE
  | SPN_PATH_ROOT_PROJECT
  | SPN_PATH_ROOT_STORE
  | SPN_PATH_ROOT_BUILD
  | SPN_PATH_ROOT_CHECKOUT
  | SPN_PATH_ROOT_TOOLCHAIN
  | SPN_PATH_ROOT_INDEX
  | SPN_PATH_ROOT_RUNTIME
  | SPN_PATH_ROOT_CACHE
  | SPN_PATH_ROOT_STORAGE
  | SPN_PATH_ROOT_COUNT

type_synonym spn_sanitizer_t = u32
type_synonym spn_sanitizer_set_t = u32

definition SPN_SANITIZER_NONE :: spn_sanitizer_t where "SPN_SANITIZER_NONE = 0"
definition SPN_SANITIZER_ADDRESS :: spn_sanitizer_t where "SPN_SANITIZER_ADDRESS = push_bit 0 1"
definition SPN_SANITIZER_THREAD :: spn_sanitizer_t where "SPN_SANITIZER_THREAD = push_bit 1 1"
definition SPN_SANITIZER_UNDEFINED :: spn_sanitizer_t where "SPN_SANITIZER_UNDEFINED = push_bit 2 1"
definition SPN_SANITIZER_MEMORY :: spn_sanitizer_t where "SPN_SANITIZER_MEMORY = push_bit 3 1"
definition SPN_SANITIZER_LEAK :: spn_sanitizer_t where "SPN_SANITIZER_LEAK = push_bit 4 1"

lemmas sanitizer_bits =
  SPN_SANITIZER_NONE_def SPN_SANITIZER_ADDRESS_def SPN_SANITIZER_THREAD_def
  SPN_SANITIZER_UNDEFINED_def SPN_SANITIZER_MEMORY_def SPN_SANITIZER_LEAK_def

end
