(* ===== verification/Enums.thy ===== *)
theory Enums
  imports Enum_Types
begin

unbundle bit_operations_syntax

text \<open>
  \<open>source/core/enum/enum.c\<close>: the text of every enumerator and the
  enumerator of every text. A \<open>switch\<close> over an enumeration is a function by
  cases; a chain of string comparisons is a chain of conditionals. A branch the source
  marks unreachable (\<open>sp_unreachable_case\<close>, \<open>SP_UNREACHABLE_RETURN\<close>) is
  \<open>None\<close>, so the functions that have one return an option.
  The second part states, once for all enumerations, what a pair of such functions
  promises, as the locales \<open>str_enum_opt\<close> and \<open>str_enum\<close>, and instantiates
  it for each pair.
\<close>

section \<open>Names and enumerators\<close>

definition spn_arch_from_str :: "string \<Rightarrow> spn_arch_t" where
  "spn_arch_from_str s =
    (if s = ''x86_64'' then SPN_ARCH_X64
     else if s = ''aarch64'' then SPN_ARCH_ARM64
     else if s = ''wasm32'' then SPN_ARCH_WASM32
     else SPN_ARCH_NONE)"

fun spn_arch_to_str :: "spn_arch_t \<Rightarrow> string" where
  "spn_arch_to_str SPN_ARCH_X64 = ''x86_64''"
| "spn_arch_to_str SPN_ARCH_ARM64 = ''aarch64''"
| "spn_arch_to_str SPN_ARCH_WASM32 = ''wasm32''"
| "spn_arch_to_str SPN_ARCH_NONE = ''''"

definition spn_os_from_str :: "string \<Rightarrow> spn_os_t" where
  "spn_os_from_str s =
    (if s = ''windows'' then SPN_OS_WINDOWS
     else if s = ''linux'' then SPN_OS_LINUX
     else if s = ''macos'' then SPN_OS_MACOS
     else if s = ''wasi'' then SPN_OS_WASI
     else if s = ''freestanding'' then SPN_OS_FREESTANDING
     else SPN_OS_NONE)"

fun spn_os_to_str :: "spn_os_t \<Rightarrow> string" where
  "spn_os_to_str SPN_OS_LINUX = ''linux''"
| "spn_os_to_str SPN_OS_WINDOWS = ''windows''"
| "spn_os_to_str SPN_OS_MACOS = ''macos''"
| "spn_os_to_str SPN_OS_WASI = ''wasi''"
| "spn_os_to_str SPN_OS_FREESTANDING = ''freestanding''"
| "spn_os_to_str SPN_OS_NONE = ''''"

definition spn_cc_driver_from_str :: "string \<Rightarrow> spn_cc_driver_t" where
  "spn_cc_driver_from_str s =
    (if s = ''gcc'' then SPN_CC_DRIVER_GCC
     else if s = ''clang'' then SPN_CC_DRIVER_CLANG
     else if s = ''msvc'' then SPN_CC_DRIVER_MSVC
     else if s = ''zig'' then SPN_CC_DRIVER_ZIG
     else SPN_CC_DRIVER_NONE)"

fun spn_cc_driver_to_str :: "spn_cc_driver_t \<Rightarrow> string" where
  "spn_cc_driver_to_str SPN_CC_DRIVER_NONE = ''''"
| "spn_cc_driver_to_str SPN_CC_DRIVER_GCC = ''gcc''"
| "spn_cc_driver_to_str SPN_CC_DRIVER_CLANG = ''clang''"
| "spn_cc_driver_to_str SPN_CC_DRIVER_MSVC = ''msvc''"
| "spn_cc_driver_to_str SPN_CC_DRIVER_ZIG = ''zig''"

definition spn_ld_family_from_str :: "string \<Rightarrow> spn_ld_family_t" where
  "spn_ld_family_from_str s =
    (if s = ''gnu'' then SPN_LD_FAMILY_GNU
     else if s = ''lld'' then SPN_LD_FAMILY_LLD
     else if s = ''ld64'' then SPN_LD_FAMILY_LD64
     else if s = ''msvc'' then SPN_LD_FAMILY_MSVC
     else SPN_LD_FAMILY_NONE)"

fun spn_ld_family_to_str :: "spn_ld_family_t \<Rightarrow> string" where
  "spn_ld_family_to_str SPN_LD_FAMILY_NONE = ''''"
| "spn_ld_family_to_str SPN_LD_FAMILY_GNU = ''gnu''"
| "spn_ld_family_to_str SPN_LD_FAMILY_LLD = ''lld''"
| "spn_ld_family_to_str SPN_LD_FAMILY_LD64 = ''ld64''"
| "spn_ld_family_to_str SPN_LD_FAMILY_MSVC = ''msvc''"

definition spn_toolchain_detect_from_str :: "string \<Rightarrow> spn_toolchain_detect_t" where
  "spn_toolchain_detect_from_str s =
    (if s = ''msvc'' then SPN_TOOLCHAIN_DETECT_MSVC
     else SPN_TOOLCHAIN_DETECT_NONE)"

fun spn_toolchain_detect_to_str :: "spn_toolchain_detect_t \<Rightarrow> string" where
  "spn_toolchain_detect_to_str SPN_TOOLCHAIN_DETECT_NONE = ''''"
| "spn_toolchain_detect_to_str SPN_TOOLCHAIN_DETECT_MSVC = ''msvc''"

fun spn_ld_dialect_to_str :: "spn_ld_dialect_t \<Rightarrow> string option" where
  "spn_ld_dialect_to_str SPN_LD_DIALECT_GNU = Some ''gnu''"
| "spn_ld_dialect_to_str SPN_LD_DIALECT_LINK = Some ''link''"
| "spn_ld_dialect_to_str SPN_LD_DIALECT_DARWIN = Some ''darwin''"
| "spn_ld_dialect_to_str SPN_LD_DIALECT_WASM = Some ''wasm''"
| "spn_ld_dialect_to_str SPN_LD_DIALECT_COUNT = None"

definition spn_abi_from_str :: "string \<Rightarrow> spn_abi_t" where
  "spn_abi_from_str s =
    (if s = ''gnu'' then SPN_ABI_GNU
     else if s = ''musl'' then SPN_ABI_MUSL
     else if s = ''msvc'' then SPN_ABI_MSVC
     else if s = ''apple'' then SPN_ABI_APPLE
     else if s = ''none'' then SPN_ABI_BARE
     else if s = ''elf'' then SPN_ABI_ELF
     else SPN_ABI_NONE)"

fun spn_abi_to_str :: "spn_abi_t \<Rightarrow> string option" where
  "spn_abi_to_str SPN_ABI_GNU = Some ''gnu''"
| "spn_abi_to_str SPN_ABI_MUSL = Some ''musl''"
| "spn_abi_to_str SPN_ABI_MSVC = Some ''msvc''"
| "spn_abi_to_str SPN_ABI_APPLE = Some ''apple''"
| "spn_abi_to_str SPN_ABI_BARE = Some ''none''"
| "spn_abi_to_str SPN_ABI_ELF = Some ''elf''"
| "spn_abi_to_str SPN_ABI_NONE = Some ''''"
| "spn_abi_to_str SPN_ABI_COUNT = None"

definition spn_libc_kind_from_str :: "string \<Rightarrow> spn_libc_kind_t option" where
  "spn_libc_kind_from_str s =
    (if s = ''gnu'' then Some SPN_LIBC_GNU
     else if s = ''musl'' then Some SPN_LIBC_MUSL
     else if s = ''cosmopolitan'' then Some SPN_LIBC_COSMOPOLITAN
     else if s = ''custom'' then Some SPN_LIBC_CUSTOM
     else if s = ''none'' then Some SPN_LIBC_NONE
     else None)"

fun spn_libc_kind_to_str :: "spn_libc_kind_t \<Rightarrow> string" where
  "spn_libc_kind_to_str SPN_LIBC_GNU = ''gnu''"
| "spn_libc_kind_to_str SPN_LIBC_MUSL = ''musl''"
| "spn_libc_kind_to_str SPN_LIBC_COSMOPOLITAN = ''cosmopolitan''"
| "spn_libc_kind_to_str SPN_LIBC_CUSTOM = ''custom''"
| "spn_libc_kind_to_str SPN_LIBC_NONE = ''none''"

definition spn_mode_from_str :: "string \<Rightarrow> spn_mode_t" where
  "spn_mode_from_str s =
    (if s = ''release'' then SPN_MODE_RELEASE
     else if s = ''debug'' then SPN_MODE_DEBUG
     else SPN_MODE_NONE)"

fun spn_mode_to_str :: "spn_mode_t \<Rightarrow> string" where
  "spn_mode_to_str SPN_MODE_RELEASE = ''release''"
| "spn_mode_to_str SPN_MODE_DEBUG = ''debug''"
| "spn_mode_to_str SPN_MODE_NONE = ''''"

definition spn_opt_level_from_str :: "string \<Rightarrow> spn_opt_level_t" where
  "spn_opt_level_from_str s =
    (if s = ''0'' then SPN_OPT_LEVEL_0
     else if s = ''1'' then SPN_OPT_LEVEL_1
     else if s = ''2'' then SPN_OPT_LEVEL_2
     else if s = ''3'' then SPN_OPT_LEVEL_3
     else if s = ''s'' then SPN_OPT_LEVEL_S
     else if s = ''z'' then SPN_OPT_LEVEL_Z
     else SPN_OPT_LEVEL_NONE)"

fun spn_opt_level_to_str :: "spn_opt_level_t \<Rightarrow> string" where
  "spn_opt_level_to_str SPN_OPT_LEVEL_0 = ''0''"
| "spn_opt_level_to_str SPN_OPT_LEVEL_1 = ''1''"
| "spn_opt_level_to_str SPN_OPT_LEVEL_2 = ''2''"
| "spn_opt_level_to_str SPN_OPT_LEVEL_3 = ''3''"
| "spn_opt_level_to_str SPN_OPT_LEVEL_S = ''s''"
| "spn_opt_level_to_str SPN_OPT_LEVEL_Z = ''z''"
| "spn_opt_level_to_str SPN_OPT_LEVEL_NONE = ''''"

definition spn_win_subsystem_from_str :: "string \<Rightarrow> spn_win_subsystem_t" where
  "spn_win_subsystem_from_str s =
    (if s = ''console'' then SPN_WIN_SUBSYSTEM_CONSOLE
     else if s = ''windows'' then SPN_WIN_SUBSYSTEM_WINDOWS
     else SPN_WIN_SUBSYSTEM_NONE)"

fun spn_win_subsystem_to_str :: "spn_win_subsystem_t \<Rightarrow> string" where
  "spn_win_subsystem_to_str SPN_WIN_SUBSYSTEM_CONSOLE = ''console''"
| "spn_win_subsystem_to_str SPN_WIN_SUBSYSTEM_WINDOWS = ''windows''"
| "spn_win_subsystem_to_str SPN_WIN_SUBSYSTEM_NONE = ''''"

definition spn_tree_from_str :: "string \<Rightarrow> spn_tree_t" where
  "spn_tree_from_str s =
    (if s = ''source'' then SPN_TREE_SOURCE
     else if s = ''manifest'' then SPN_TREE_MANIFEST
     else SPN_TREE_NONE)"

fun spn_tree_to_str :: "spn_tree_t \<Rightarrow> string" where
  "spn_tree_to_str SPN_TREE_SOURCE = ''source''"
| "spn_tree_to_str SPN_TREE_MANIFEST = ''manifest''"
| "spn_tree_to_str SPN_TREE_NONE = ''''"

fun spn_dir_to_str :: "spn_dir_t \<Rightarrow> string" where
  "spn_dir_to_str SPN_DIR_NONE = ''''"
| "spn_dir_to_str SPN_DIR_CACHE = ''cache''"
| "spn_dir_to_str SPN_DIR_STORE = ''store''"
| "spn_dir_to_str SPN_DIR_INCLUDE = ''include''"
| "spn_dir_to_str SPN_DIR_VENDOR = ''vendor''"
| "spn_dir_to_str SPN_DIR_LIB = ''lib''"
| "spn_dir_to_str SPN_DIR_SOURCE = ''source''"
| "spn_dir_to_str SPN_DIR_WORK = ''work''"
| "spn_dir_to_str SPN_DIR_PROJECT = ''project''"
| "spn_dir_to_str SPN_DIR_MANIFEST = ''manifest''"
| "spn_dir_to_str SPN_DIR_BIN = ''bin''"

definition spn_lib_kind_from_str :: "string \<Rightarrow> spn_linkage_t" where
  "spn_lib_kind_from_str s =
    (if s = ''shared'' then SPN_LIB_KIND_SHARED
     else if s = ''static'' then SPN_LIB_KIND_STATIC
     else if s = ''source'' then SPN_LIB_KIND_SOURCE
     else if s = ''object'' then SPN_LIB_KIND_OBJECT
     else SPN_LIB_KIND_NONE)"

definition spn_option_type_from_str :: "string \<Rightarrow> spn_option_type_t" where
  "spn_option_type_from_str s =
    (if s = ''bool'' then SPN_OPTION_TYPE_BOOL
     else if s = ''enum'' then SPN_OPTION_TYPE_ENUM
     else SPN_OPTION_TYPE_NONE)"

fun spn_option_type_to_str :: "spn_option_type_t \<Rightarrow> string" where
  "spn_option_type_to_str SPN_OPTION_TYPE_BOOL = ''bool''"
| "spn_option_type_to_str SPN_OPTION_TYPE_ENUM = ''enum''"
| "spn_option_type_to_str SPN_OPTION_TYPE_NONE = ''''"

fun spn_option_setter_kind_to_str :: "spn_option_setter_kind_t \<Rightarrow> string" where
  "spn_option_setter_kind_to_str SPN_OPTION_SETTER_NONE = ''none''"
| "spn_option_setter_kind_to_str SPN_OPTION_SETTER_DEFAULT = ''default''"
| "spn_option_setter_kind_to_str SPN_OPTION_SETTER_PROFILE = ''profile''"
| "spn_option_setter_kind_to_str SPN_OPTION_SETTER_ROOT_MANIFEST = ''root_manifest''"
| "spn_option_setter_kind_to_str SPN_OPTION_SETTER_UNION = ''union''"
| "spn_option_setter_kind_to_str SPN_OPTION_SETTER_CONSUMER = ''consumer''"

fun spn_linkage_requester_to_str :: "spn_linkage_requester_t \<Rightarrow> string" where
  "spn_linkage_requester_to_str SPN_LINKAGE_REQUESTER_PROFILE = ''profile''"
| "spn_linkage_requester_to_str SPN_LINKAGE_REQUESTER_ROOT_MANIFEST = ''root_manifest''"
| "spn_linkage_requester_to_str SPN_LINKAGE_REQUESTER_LIBC = ''libc''"
| "spn_linkage_requester_to_str SPN_LINKAGE_REQUESTER_TARGET = ''target''"

fun spn_linking_refusal_to_str :: "spn_linking_refusal_t \<Rightarrow> string" where
  "spn_linking_refusal_to_str SPN_LINKING_REFUSAL_NONE = ''none''"
| "spn_linking_refusal_to_str SPN_LINKING_REFUSAL_NO_LOADER = ''no_loader''"
| "spn_linking_refusal_to_str SPN_LINKING_REFUSAL_OS_LIBC = ''os_libc''"
| "spn_linking_refusal_to_str SPN_LINKING_REFUSAL_OS_RUNTIME = ''os_runtime''"
| "spn_linking_refusal_to_str SPN_LINKING_REFUSAL_SHARED_RUNTIME = ''shared_runtime''"
| "spn_linking_refusal_to_str SPN_LINKING_REFUSAL_HYBRID_CRT = ''hybrid_crt''"
| "spn_linking_refusal_to_str SPN_LINKING_REFUSAL_SHARED_DEPS = ''shared_deps''"

fun spn_cc_feature_to_str :: "spn_cc_feature_t \<Rightarrow> string" where
  "spn_cc_feature_to_str SPN_CC_FEATURE_LINK_EXE = ''link_exe''"
| "spn_cc_feature_to_str SPN_CC_FEATURE_LINK_SHARED = ''link_shared''"
| "spn_cc_feature_to_str SPN_CC_FEATURE_LINK_REACTOR = ''link_reactor''"
| "spn_cc_feature_to_str SPN_CC_FEATURE_ARCHIVE = ''archive''"
| "spn_cc_feature_to_str SPN_CC_FEATURE_FRAMEWORKS = ''frameworks''"
| "spn_cc_feature_to_str SPN_CC_FEATURE_LINKER_SCRIPT = ''linker_script''"

fun spn_linkage_to_str :: "spn_linkage_t \<Rightarrow> string option" where
  "spn_linkage_to_str SPN_LIB_KIND_SHARED = Some ''shared''"
| "spn_linkage_to_str SPN_LIB_KIND_STATIC = Some ''static''"
| "spn_linkage_to_str SPN_LIB_KIND_SOURCE = Some ''source''"
| "spn_linkage_to_str SPN_LIB_KIND_OBJECT = Some ''object''"
| "spn_linkage_to_str SPN_LIB_KIND_NONE = None"

definition spn_runtime_from_str :: "string \<Rightarrow> spn_runtime_t" where
  "spn_runtime_from_str s =
    (if s = ''static'' then SPN_RUNTIME_STATIC
     else if s = ''shared'' then SPN_RUNTIME_SHARED
     else SPN_RUNTIME_NONE)"

fun spn_runtime_to_str :: "spn_runtime_t \<Rightarrow> string option" where
  "spn_runtime_to_str SPN_RUNTIME_STATIC = Some ''static''"
| "spn_runtime_to_str SPN_RUNTIME_SHARED = Some ''shared''"
| "spn_runtime_to_str SPN_RUNTIME_NONE = None"

definition spn_cc_kind_from_str :: "string \<Rightarrow> spn_cc_kind_t" where
  "spn_cc_kind_from_str s =
    (if s = '''' then SPN_CC_NONE
     else if s = ''tcc'' then SPN_CC_TCC
     else if s = ''gcc'' then SPN_CC_GCC
     else if s = ''clang'' then SPN_CC_CLANG
     else if s = ''musl-gcc'' then SPN_CC_MUSL_GCC
     else if s = ''zcc'' then SPN_CC_ZIG
     else if s = ''zig cc'' then SPN_CC_ZIG
     else if s = ''cosmocc'' then SPN_CC_COSMOCC
     else SPN_CC_CUSTOM)"

fun spn_c_standard_to_str :: "spn_c_standard_t \<Rightarrow> string" where
  "spn_c_standard_to_str SPN_C11 = ''c11''"
| "spn_c_standard_to_str SPN_C99 = ''c99''"
| "spn_c_standard_to_str SPN_C89 = ''c89''"
| "spn_c_standard_to_str SPN_GNU11 = ''gnu11''"
| "spn_c_standard_to_str SPN_GNU99 = ''gnu99''"
| "spn_c_standard_to_str SPN_GNU89 = ''gnu89''"
| "spn_c_standard_to_str SPN_C_STANDARD_NONE = ''''"

fun spn_cxx_standard_to_str :: "spn_cxx_standard_t \<Rightarrow> string" where
  "spn_cxx_standard_to_str SPN_CXX11 = ''c++11''"
| "spn_cxx_standard_to_str SPN_CXX14 = ''c++14''"
| "spn_cxx_standard_to_str SPN_CXX17 = ''c++17''"
| "spn_cxx_standard_to_str SPN_CXX20 = ''c++20''"
| "spn_cxx_standard_to_str SPN_CXX23 = ''c++23''"
| "spn_cxx_standard_to_str SPN_CXX_STANDARD_NONE = ''''"

definition spn_cxx_standard_from_str :: "string \<Rightarrow> spn_cxx_standard_t" where
  "spn_cxx_standard_from_str s =
    (if s = ''c++11'' then SPN_CXX11
     else if s = ''c++14'' then SPN_CXX14
     else if s = ''c++17'' then SPN_CXX17
     else if s = ''c++20'' then SPN_CXX20
     else if s = ''c++23'' then SPN_CXX23
     else SPN_CXX_STANDARD_NONE)"

definition spn_c_standard_from_str :: "string \<Rightarrow> spn_c_standard_t" where
  "spn_c_standard_from_str s =
    (if s = ''c89'' then SPN_C89
     else if s = ''c99'' then SPN_C99
     else if s = ''c11'' then SPN_C11
     else if s = ''gnu89'' then SPN_GNU89
     else if s = ''gnu99'' then SPN_GNU99
     else if s = ''gnu11'' then SPN_GNU11
     else SPN_C_STANDARD_NONE)"

fun spn_pkg_source_to_str :: "spn_pkg_source_t \<Rightarrow> string" where
  "spn_pkg_source_to_str SPN_PKG_SOURCE_ROOT = ''root''"
| "spn_pkg_source_to_str SPN_PKG_SOURCE_FILE = ''file''"
| "spn_pkg_source_to_str SPN_PKG_SOURCE_INDEX = ''index''"

definition spn_pkg_source_from_str :: "string \<Rightarrow> spn_pkg_source_t option" where
  "spn_pkg_source_from_str s =
    (if s = ''root'' then Some SPN_PKG_SOURCE_ROOT
     else if s = ''file'' then Some SPN_PKG_SOURCE_FILE
     else if s = ''index'' then Some SPN_PKG_SOURCE_INDEX
     else None)"

fun spn_pkg_root_kind_to_str :: "spn_pkg_root_kind_t \<Rightarrow> string" where
  "spn_pkg_root_kind_to_str SPN_PKG_ROOT_NONE = ''none''"
| "spn_pkg_root_kind_to_str SPN_PKG_ROOT_LOCAL = ''local''"
| "spn_pkg_root_kind_to_str SPN_PKG_ROOT_GIT = ''git''"

definition spn_pkg_root_kind_from_str :: "string \<Rightarrow> spn_pkg_root_kind_t option" where
  "spn_pkg_root_kind_from_str s =
    (if s = ''none'' then Some SPN_PKG_ROOT_NONE
     else if s = ''local'' then Some SPN_PKG_ROOT_LOCAL
     else if s = ''git'' then Some SPN_PKG_ROOT_GIT
     else None)"

fun spn_dep_kind_to_str :: "spn_dep_kind_t \<Rightarrow> string" where
  "spn_dep_kind_to_str SPN_DEP_KIND_PACKAGE = ''package''"
| "spn_dep_kind_to_str SPN_DEP_KIND_BUILD = ''build''"
| "spn_dep_kind_to_str SPN_DEP_KIND_TEST = ''test''"

definition spn_dep_kind_from_str :: "string \<Rightarrow> spn_dep_kind_t" where
  "spn_dep_kind_from_str s =
    (if s = ''package'' then SPN_DEP_KIND_PACKAGE
     else if s = ''build'' then SPN_DEP_KIND_BUILD
     else if s = ''test'' then SPN_DEP_KIND_TEST
     else SPN_DEP_KIND_PACKAGE)"

fun spn_dep_edge_to_str :: "spn_dep_edge_t \<Rightarrow> string" where
  "spn_dep_edge_to_str SPN_DEP_EDGE_SCOPE = ''scope''"
| "spn_dep_edge_to_str SPN_DEP_EDGE_PROCESS = ''process''"
| "spn_dep_edge_to_str SPN_DEP_EDGE_PRIVATE = ''private''"
| "spn_dep_edge_to_str SPN_DEP_EDGE_PRUNED = ''pruned''"

definition spn_dep_edge_from_str :: "string \<Rightarrow> spn_dep_edge_t" where
  "spn_dep_edge_from_str s =
    (if s = ''scope'' then SPN_DEP_EDGE_SCOPE
     else if s = ''process'' then SPN_DEP_EDGE_PROCESS
     else if s = ''private'' then SPN_DEP_EDGE_PRIVATE
     else if s = ''pruned'' then SPN_DEP_EDGE_PRUNED
     else SPN_DEP_EDGE_SCOPE)"

fun spn_index_kind_to_str :: "spn_index_kind_t \<Rightarrow> string" where
  "spn_index_kind_to_str SPN_INDEX_KIND_WORKSPACE = ''workspace''"
| "spn_index_kind_to_str SPN_INDEX_KIND_BUILTIN = ''builtin''"
| "spn_index_kind_to_str SPN_INDEX_KIND_USER = ''user''"

definition spn_index_kind_from_str :: "string \<Rightarrow> spn_index_kind_t option" where
  "spn_index_kind_from_str s =
    (if s = ''workspace'' then Some SPN_INDEX_KIND_WORKSPACE
     else if s = ''builtin'' then Some SPN_INDEX_KIND_BUILTIN
     else if s = ''user'' then Some SPN_INDEX_KIND_USER
     else None)"

fun spn_index_dep_kind_to_str :: "spn_index_dep_kind_t \<Rightarrow> string" where
  "spn_index_dep_kind_to_str SPN_INDEX_DEP_NORMAL = ''normal''"
| "spn_index_dep_kind_to_str SPN_INDEX_DEP_BUILD = ''build''"
| "spn_index_dep_kind_to_str SPN_INDEX_DEP_TEST = ''test''"

definition spn_index_dep_kind_from_str :: "string \<Rightarrow> spn_index_dep_kind_t" where
  "spn_index_dep_kind_from_str s =
    (if s = ''normal'' then SPN_INDEX_DEP_NORMAL
     else if s = ''build'' then SPN_INDEX_DEP_BUILD
     else if s = ''test'' then SPN_INDEX_DEP_TEST
     else SPN_INDEX_DEP_NORMAL)"

fun spn_index_protocol_to_str :: "spn_index_protocol_t \<Rightarrow> string" where
  "spn_index_protocol_to_str SPN_INDEX_PROTOCOL_GIT = ''git''"
| "spn_index_protocol_to_str SPN_INDEX_PROTOCOL_HTTP = ''http''"
| "spn_index_protocol_to_str SPN_INDEX_PROTOCOL_DIR = ''dir''"

definition spn_index_protocol_from_str :: "string \<Rightarrow> spn_index_protocol_t option" where
  "spn_index_protocol_from_str s =
    (if s = ''git'' then Some SPN_INDEX_PROTOCOL_GIT
     else if s = ''http'' then Some SPN_INDEX_PROTOCOL_HTTP
     else if s = ''dir'' then Some SPN_INDEX_PROTOCOL_DIR
     else None)"

definition spn_linkage_from_str :: "string \<Rightarrow> spn_linkage_t" where
  "spn_linkage_from_str s = spn_lib_kind_from_str s"

text \<open>The file extension is computed by the runtime (\<open>sp_fs_get_ext\<close>): an
  argument.\<close>

definition spn_lang_from_path :: "(string \<Rightarrow> string) \<Rightarrow> string \<Rightarrow> spn_lang_t" where
  "spn_lang_from_path get_ext path =
    (let ext = get_ext path in
     if ext \<in> set [''cpp'', ''cc'', ''cxx'', ''c++'', ''C''] then SPN_LANG_CXX
     else if ext \<in> set [''s'', ''S'', ''asm''] then SPN_LANG_ASM
     else SPN_LANG_C)"

section \<open>Sanitizers\<close>

definition spn_sanitizer_from_str :: "string \<Rightarrow> spn_sanitizer_t" where
  "spn_sanitizer_from_str s =
    (if s = ''address'' then SPN_SANITIZER_ADDRESS
     else if s = ''thread'' then SPN_SANITIZER_THREAD
     else if s = ''undefined'' then SPN_SANITIZER_UNDEFINED
     else if s = ''memory'' then SPN_SANITIZER_MEMORY
     else if s = ''leak'' then SPN_SANITIZER_LEAK
     else SPN_SANITIZER_NONE)"

definition spn_sanitizer_to_str :: "spn_sanitizer_t \<Rightarrow> string option" where
  "spn_sanitizer_to_str v =
    (if v = SPN_SANITIZER_ADDRESS then Some ''address''
     else if v = SPN_SANITIZER_THREAD then Some ''thread''
     else if v = SPN_SANITIZER_UNDEFINED then Some ''undefined''
     else if v = SPN_SANITIZER_MEMORY then Some ''memory''
     else if v = SPN_SANITIZER_LEAK then Some ''leak''
     else if v = SPN_SANITIZER_NONE then Some ''''
     else None)"

text \<open>The loop over the five bits, with the flag \<open>first\<close> and the text
  written so far.\<close>

fun sanitizer_write :: "spn_sanitizer_set_t \<Rightarrow> bool \<Rightarrow> string \<Rightarrow> nat list \<Rightarrow> string option" where
  "sanitizer_write s first out [] = Some out"
| "sanitizer_write s first out (it # its) =
    (let b = push_bit it 1 in
     if s AND b = 0 then sanitizer_write s first out its
     else case spn_sanitizer_to_str b of
         None \<Rightarrow> None
       | Some name \<Rightarrow> sanitizer_write s False (out @ (if first then name else '','' @ name)) its)"

definition spn_sanitizer_set_to_str :: "spn_sanitizer_set_t \<Rightarrow> string option" where
  "spn_sanitizer_set_to_str s = sanitizer_write s True '''' [0..<5]"

definition spn_sanitizer_set_from_list :: "spn_sanitizer_t list \<Rightarrow> spn_sanitizer_set_t" where
  "spn_sanitizer_set_from_list xs = foldl (\<lambda>s x. s OR x) 0 xs"

definition spn_sanitizer_set_has_conflict :: "spn_sanitizer_set_t \<Rightarrow> bool" where
  "spn_sanitizer_set_has_conflict s =
    (if s AND SPN_SANITIZER_THREAD \<noteq> 0 \<and>
        s AND (SPN_SANITIZER_ADDRESS OR SPN_SANITIZER_MEMORY OR SPN_SANITIZER_LEAK) \<noteq> 0 then True
     else if s AND SPN_SANITIZER_MEMORY \<noteq> 0 \<and>
        s AND (SPN_SANITIZER_ADDRESS OR SPN_SANITIZER_LEAK) \<noteq> 0 then True
     else False)"


section \<open>The contract of a pair of text functions\<close>

text \<open>The text of an enumerator reads back as that enumerator; a text that reads as an
  enumerator other than the fallback for unknown text is its text.\<close>

locale enum_text =
  fixes to_str :: "'a \<Rightarrow> string option"
    and from_str :: "string \<Rightarrow> 'a option"
    and fallback :: "'a set"
  assumes reads: "to_str x = Some s \<Longrightarrow> from_str s = Some x"
    and canon: "from_str s = Some x \<Longrightarrow> x \<notin> fallback \<Longrightarrow> to_str x = Some s"
begin

lemma reads_iff: "x \<notin> fallback \<Longrightarrow> from_str s = Some x \<longleftrightarrow> to_str x = Some s"
  using reads canon by blast

lemma reads_conj:
  "(from_str s = Some x \<and> x \<notin> fallback) = (to_str x = Some s \<and> x \<notin> fallback)"
  using reads_iff by blast

lemma text_inj: "to_str x = Some s \<Longrightarrow> to_str y = Some s \<Longrightarrow> x = y"
  by (metis reads option.inject option.distinct(1))

lemma rejected: "from_str s = None \<Longrightarrow> to_str x \<noteq> Some s"
  by (metis reads option.inject option.distinct(1))

lemma fallback_unknown:
  "from_str s = Some x \<Longrightarrow> x \<in> fallback \<Longrightarrow> y \<notin> fallback \<Longrightarrow> to_str y \<noteq> Some s"
  by (metis reads option.inject)

end

interpretation arch: enum_text "(\<lambda>x. Some (spn_arch_to_str x))" "(\<lambda>s. Some (spn_arch_from_str s))" "{SPN_ARCH_NONE}"
proof
  fix x s
  show "(\<lambda>x. Some (spn_arch_to_str x)) x = Some s \<Longrightarrow> (\<lambda>s. Some (spn_arch_from_str s)) s = Some x"
    by (cases x) (auto simp: spn_arch_from_str_def)
  show "(\<lambda>s. Some (spn_arch_from_str s)) s = Some x \<Longrightarrow> x \<notin> {SPN_ARCH_NONE} \<Longrightarrow> (\<lambda>x. Some (spn_arch_to_str x)) x = Some s"
    by (auto simp: spn_arch_from_str_def split: if_splits)
qed

interpretation os: enum_text "(\<lambda>x. Some (spn_os_to_str x))" "(\<lambda>s. Some (spn_os_from_str s))" "{SPN_OS_NONE}"
proof
  fix x s
  show "(\<lambda>x. Some (spn_os_to_str x)) x = Some s \<Longrightarrow> (\<lambda>s. Some (spn_os_from_str s)) s = Some x"
    by (cases x) (auto simp: spn_os_from_str_def)
  show "(\<lambda>s. Some (spn_os_from_str s)) s = Some x \<Longrightarrow> x \<notin> {SPN_OS_NONE} \<Longrightarrow> (\<lambda>x. Some (spn_os_to_str x)) x = Some s"
    by (auto simp: spn_os_from_str_def split: if_splits)
qed

interpretation cc_driver: enum_text "(\<lambda>x. Some (spn_cc_driver_to_str x))" "(\<lambda>s. Some (spn_cc_driver_from_str s))" "{SPN_CC_DRIVER_NONE}"
proof
  fix x s
  show "(\<lambda>x. Some (spn_cc_driver_to_str x)) x = Some s \<Longrightarrow> (\<lambda>s. Some (spn_cc_driver_from_str s)) s = Some x"
    by (cases x) (auto simp: spn_cc_driver_from_str_def)
  show "(\<lambda>s. Some (spn_cc_driver_from_str s)) s = Some x \<Longrightarrow> x \<notin> {SPN_CC_DRIVER_NONE} \<Longrightarrow> (\<lambda>x. Some (spn_cc_driver_to_str x)) x = Some s"
    by (auto simp: spn_cc_driver_from_str_def split: if_splits)
qed

interpretation ld_family: enum_text "(\<lambda>x. Some (spn_ld_family_to_str x))" "(\<lambda>s. Some (spn_ld_family_from_str s))" "{SPN_LD_FAMILY_NONE}"
proof
  fix x s
  show "(\<lambda>x. Some (spn_ld_family_to_str x)) x = Some s \<Longrightarrow> (\<lambda>s. Some (spn_ld_family_from_str s)) s = Some x"
    by (cases x) (auto simp: spn_ld_family_from_str_def)
  show "(\<lambda>s. Some (spn_ld_family_from_str s)) s = Some x \<Longrightarrow> x \<notin> {SPN_LD_FAMILY_NONE} \<Longrightarrow> (\<lambda>x. Some (spn_ld_family_to_str x)) x = Some s"
    by (auto simp: spn_ld_family_from_str_def split: if_splits)
qed

interpretation toolchain_detect: enum_text "(\<lambda>x. Some (spn_toolchain_detect_to_str x))" "(\<lambda>s. Some (spn_toolchain_detect_from_str s))" "{SPN_TOOLCHAIN_DETECT_NONE}"
proof
  fix x s
  show "(\<lambda>x. Some (spn_toolchain_detect_to_str x)) x = Some s \<Longrightarrow> (\<lambda>s. Some (spn_toolchain_detect_from_str s)) s = Some x"
    by (cases x) (auto simp: spn_toolchain_detect_from_str_def)
  show "(\<lambda>s. Some (spn_toolchain_detect_from_str s)) s = Some x \<Longrightarrow> x \<notin> {SPN_TOOLCHAIN_DETECT_NONE} \<Longrightarrow> (\<lambda>x. Some (spn_toolchain_detect_to_str x)) x = Some s"
    by (auto simp: spn_toolchain_detect_from_str_def split: if_splits)
qed

interpretation abi: enum_text "spn_abi_to_str" "(\<lambda>s. Some (spn_abi_from_str s))" "{SPN_ABI_NONE}"
proof
  fix x s
  show "spn_abi_to_str x = Some s \<Longrightarrow> (\<lambda>s. Some (spn_abi_from_str s)) s = Some x"
    by (cases x) (auto simp: spn_abi_from_str_def)
  show "(\<lambda>s. Some (spn_abi_from_str s)) s = Some x \<Longrightarrow> x \<notin> {SPN_ABI_NONE} \<Longrightarrow> spn_abi_to_str x = Some s"
    by (auto simp: spn_abi_from_str_def split: if_splits)
qed

interpretation libc_kind: enum_text "(\<lambda>x. Some (spn_libc_kind_to_str x))" "spn_libc_kind_from_str" "{}"
proof
  fix x s
  show "(\<lambda>x. Some (spn_libc_kind_to_str x)) x = Some s \<Longrightarrow> spn_libc_kind_from_str s = Some x"
    by (cases x) (auto simp: spn_libc_kind_from_str_def)
  show "spn_libc_kind_from_str s = Some x \<Longrightarrow> x \<notin> {} \<Longrightarrow> (\<lambda>x. Some (spn_libc_kind_to_str x)) x = Some s"
    by (auto simp: spn_libc_kind_from_str_def split: if_splits)
qed

interpretation mode: enum_text "(\<lambda>x. Some (spn_mode_to_str x))" "(\<lambda>s. Some (spn_mode_from_str s))" "{SPN_MODE_NONE}"
proof
  fix x s
  show "(\<lambda>x. Some (spn_mode_to_str x)) x = Some s \<Longrightarrow> (\<lambda>s. Some (spn_mode_from_str s)) s = Some x"
    by (cases x) (auto simp: spn_mode_from_str_def)
  show "(\<lambda>s. Some (spn_mode_from_str s)) s = Some x \<Longrightarrow> x \<notin> {SPN_MODE_NONE} \<Longrightarrow> (\<lambda>x. Some (spn_mode_to_str x)) x = Some s"
    by (auto simp: spn_mode_from_str_def split: if_splits)
qed

interpretation opt_level: enum_text "(\<lambda>x. Some (spn_opt_level_to_str x))" "(\<lambda>s. Some (spn_opt_level_from_str s))" "{SPN_OPT_LEVEL_NONE}"
proof
  fix x s
  show "(\<lambda>x. Some (spn_opt_level_to_str x)) x = Some s \<Longrightarrow> (\<lambda>s. Some (spn_opt_level_from_str s)) s = Some x"
    by (cases x) (auto simp: spn_opt_level_from_str_def)
  show "(\<lambda>s. Some (spn_opt_level_from_str s)) s = Some x \<Longrightarrow> x \<notin> {SPN_OPT_LEVEL_NONE} \<Longrightarrow> (\<lambda>x. Some (spn_opt_level_to_str x)) x = Some s"
    by (auto simp: spn_opt_level_from_str_def split: if_splits)
qed

interpretation win_subsystem: enum_text "(\<lambda>x. Some (spn_win_subsystem_to_str x))" "(\<lambda>s. Some (spn_win_subsystem_from_str s))" "{SPN_WIN_SUBSYSTEM_NONE}"
proof
  fix x s
  show "(\<lambda>x. Some (spn_win_subsystem_to_str x)) x = Some s \<Longrightarrow> (\<lambda>s. Some (spn_win_subsystem_from_str s)) s = Some x"
    by (cases x) (auto simp: spn_win_subsystem_from_str_def)
  show "(\<lambda>s. Some (spn_win_subsystem_from_str s)) s = Some x \<Longrightarrow> x \<notin> {SPN_WIN_SUBSYSTEM_NONE} \<Longrightarrow> (\<lambda>x. Some (spn_win_subsystem_to_str x)) x = Some s"
    by (auto simp: spn_win_subsystem_from_str_def split: if_splits)
qed

interpretation tree: enum_text "(\<lambda>x. Some (spn_tree_to_str x))" "(\<lambda>s. Some (spn_tree_from_str s))" "{SPN_TREE_NONE}"
proof
  fix x s
  show "(\<lambda>x. Some (spn_tree_to_str x)) x = Some s \<Longrightarrow> (\<lambda>s. Some (spn_tree_from_str s)) s = Some x"
    by (cases x) (auto simp: spn_tree_from_str_def)
  show "(\<lambda>s. Some (spn_tree_from_str s)) s = Some x \<Longrightarrow> x \<notin> {SPN_TREE_NONE} \<Longrightarrow> (\<lambda>x. Some (spn_tree_to_str x)) x = Some s"
    by (auto simp: spn_tree_from_str_def split: if_splits)
qed

interpretation option_type: enum_text "(\<lambda>x. Some (spn_option_type_to_str x))" "(\<lambda>s. Some (spn_option_type_from_str s))" "{SPN_OPTION_TYPE_NONE}"
proof
  fix x s
  show "(\<lambda>x. Some (spn_option_type_to_str x)) x = Some s \<Longrightarrow> (\<lambda>s. Some (spn_option_type_from_str s)) s = Some x"
    by (cases x) (auto simp: spn_option_type_from_str_def)
  show "(\<lambda>s. Some (spn_option_type_from_str s)) s = Some x \<Longrightarrow> x \<notin> {SPN_OPTION_TYPE_NONE} \<Longrightarrow> (\<lambda>x. Some (spn_option_type_to_str x)) x = Some s"
    by (auto simp: spn_option_type_from_str_def split: if_splits)
qed

interpretation linkage: enum_text "spn_linkage_to_str" "(\<lambda>s. Some (spn_lib_kind_from_str s))" "{SPN_LIB_KIND_NONE}"
proof
  fix x s
  show "spn_linkage_to_str x = Some s \<Longrightarrow> (\<lambda>s. Some (spn_lib_kind_from_str s)) s = Some x"
    by (cases x) (auto simp: spn_lib_kind_from_str_def)
  show "(\<lambda>s. Some (spn_lib_kind_from_str s)) s = Some x \<Longrightarrow> x \<notin> {SPN_LIB_KIND_NONE} \<Longrightarrow> spn_linkage_to_str x = Some s"
    by (auto simp: spn_lib_kind_from_str_def split: if_splits)
qed

interpretation runtime: enum_text "spn_runtime_to_str" "(\<lambda>s. Some (spn_runtime_from_str s))" "{SPN_RUNTIME_NONE}"
proof
  fix x s
  show "spn_runtime_to_str x = Some s \<Longrightarrow> (\<lambda>s. Some (spn_runtime_from_str s)) s = Some x"
    by (cases x) (auto simp: spn_runtime_from_str_def)
  show "(\<lambda>s. Some (spn_runtime_from_str s)) s = Some x \<Longrightarrow> x \<notin> {SPN_RUNTIME_NONE} \<Longrightarrow> spn_runtime_to_str x = Some s"
    by (auto simp: spn_runtime_from_str_def split: if_splits)
qed

interpretation c_standard: enum_text "(\<lambda>x. Some (spn_c_standard_to_str x))" "(\<lambda>s. Some (spn_c_standard_from_str s))" "{SPN_C_STANDARD_NONE}"
proof
  fix x s
  show "(\<lambda>x. Some (spn_c_standard_to_str x)) x = Some s \<Longrightarrow> (\<lambda>s. Some (spn_c_standard_from_str s)) s = Some x"
    by (cases x) (auto simp: spn_c_standard_from_str_def)
  show "(\<lambda>s. Some (spn_c_standard_from_str s)) s = Some x \<Longrightarrow> x \<notin> {SPN_C_STANDARD_NONE} \<Longrightarrow> (\<lambda>x. Some (spn_c_standard_to_str x)) x = Some s"
    by (auto simp: spn_c_standard_from_str_def split: if_splits)
qed

interpretation cxx_standard: enum_text "(\<lambda>x. Some (spn_cxx_standard_to_str x))" "(\<lambda>s. Some (spn_cxx_standard_from_str s))" "{SPN_CXX_STANDARD_NONE}"
proof
  fix x s
  show "(\<lambda>x. Some (spn_cxx_standard_to_str x)) x = Some s \<Longrightarrow> (\<lambda>s. Some (spn_cxx_standard_from_str s)) s = Some x"
    by (cases x) (auto simp: spn_cxx_standard_from_str_def)
  show "(\<lambda>s. Some (spn_cxx_standard_from_str s)) s = Some x \<Longrightarrow> x \<notin> {SPN_CXX_STANDARD_NONE} \<Longrightarrow> (\<lambda>x. Some (spn_cxx_standard_to_str x)) x = Some s"
    by (auto simp: spn_cxx_standard_from_str_def split: if_splits)
qed

interpretation pkg_source: enum_text "(\<lambda>x. Some (spn_pkg_source_to_str x))" "spn_pkg_source_from_str" "{}"
proof
  fix x s
  show "(\<lambda>x. Some (spn_pkg_source_to_str x)) x = Some s \<Longrightarrow> spn_pkg_source_from_str s = Some x"
    by (cases x) (auto simp: spn_pkg_source_from_str_def)
  show "spn_pkg_source_from_str s = Some x \<Longrightarrow> x \<notin> {} \<Longrightarrow> (\<lambda>x. Some (spn_pkg_source_to_str x)) x = Some s"
    by (auto simp: spn_pkg_source_from_str_def split: if_splits)
qed

interpretation pkg_root_kind: enum_text "(\<lambda>x. Some (spn_pkg_root_kind_to_str x))" "spn_pkg_root_kind_from_str" "{}"
proof
  fix x s
  show "(\<lambda>x. Some (spn_pkg_root_kind_to_str x)) x = Some s \<Longrightarrow> spn_pkg_root_kind_from_str s = Some x"
    by (cases x) (auto simp: spn_pkg_root_kind_from_str_def)
  show "spn_pkg_root_kind_from_str s = Some x \<Longrightarrow> x \<notin> {} \<Longrightarrow> (\<lambda>x. Some (spn_pkg_root_kind_to_str x)) x = Some s"
    by (auto simp: spn_pkg_root_kind_from_str_def split: if_splits)
qed

interpretation dep_kind: enum_text "(\<lambda>x. Some (spn_dep_kind_to_str x))" "(\<lambda>s. Some (spn_dep_kind_from_str s))" "{SPN_DEP_KIND_PACKAGE}"
proof
  fix x s
  show "(\<lambda>x. Some (spn_dep_kind_to_str x)) x = Some s \<Longrightarrow> (\<lambda>s. Some (spn_dep_kind_from_str s)) s = Some x"
    by (cases x) (auto simp: spn_dep_kind_from_str_def)
  show "(\<lambda>s. Some (spn_dep_kind_from_str s)) s = Some x \<Longrightarrow> x \<notin> {SPN_DEP_KIND_PACKAGE} \<Longrightarrow> (\<lambda>x. Some (spn_dep_kind_to_str x)) x = Some s"
    by (auto simp: spn_dep_kind_from_str_def split: if_splits)
qed

interpretation dep_edge: enum_text "(\<lambda>x. Some (spn_dep_edge_to_str x))" "(\<lambda>s. Some (spn_dep_edge_from_str s))" "{SPN_DEP_EDGE_SCOPE}"
proof
  fix x s
  show "(\<lambda>x. Some (spn_dep_edge_to_str x)) x = Some s \<Longrightarrow> (\<lambda>s. Some (spn_dep_edge_from_str s)) s = Some x"
    by (cases x) (auto simp: spn_dep_edge_from_str_def)
  show "(\<lambda>s. Some (spn_dep_edge_from_str s)) s = Some x \<Longrightarrow> x \<notin> {SPN_DEP_EDGE_SCOPE} \<Longrightarrow> (\<lambda>x. Some (spn_dep_edge_to_str x)) x = Some s"
    by (auto simp: spn_dep_edge_from_str_def split: if_splits)
qed

interpretation index_kind: enum_text "(\<lambda>x. Some (spn_index_kind_to_str x))" "spn_index_kind_from_str" "{}"
proof
  fix x s
  show "(\<lambda>x. Some (spn_index_kind_to_str x)) x = Some s \<Longrightarrow> spn_index_kind_from_str s = Some x"
    by (cases x) (auto simp: spn_index_kind_from_str_def)
  show "spn_index_kind_from_str s = Some x \<Longrightarrow> x \<notin> {} \<Longrightarrow> (\<lambda>x. Some (spn_index_kind_to_str x)) x = Some s"
    by (auto simp: spn_index_kind_from_str_def split: if_splits)
qed

interpretation index_dep_kind: enum_text "(\<lambda>x. Some (spn_index_dep_kind_to_str x))" "(\<lambda>s. Some (spn_index_dep_kind_from_str s))" "{SPN_INDEX_DEP_NORMAL}"
proof
  fix x s
  show "(\<lambda>x. Some (spn_index_dep_kind_to_str x)) x = Some s \<Longrightarrow> (\<lambda>s. Some (spn_index_dep_kind_from_str s)) s = Some x"
    by (cases x) (auto simp: spn_index_dep_kind_from_str_def)
  show "(\<lambda>s. Some (spn_index_dep_kind_from_str s)) s = Some x \<Longrightarrow> x \<notin> {SPN_INDEX_DEP_NORMAL} \<Longrightarrow> (\<lambda>x. Some (spn_index_dep_kind_to_str x)) x = Some s"
    by (auto simp: spn_index_dep_kind_from_str_def split: if_splits)
qed

interpretation index_protocol: enum_text "(\<lambda>x. Some (spn_index_protocol_to_str x))" "spn_index_protocol_from_str" "{}"
proof
  fix x s
  show "(\<lambda>x. Some (spn_index_protocol_to_str x)) x = Some s \<Longrightarrow> spn_index_protocol_from_str s = Some x"
    by (cases x) (auto simp: spn_index_protocol_from_str_def)
  show "spn_index_protocol_from_str s = Some x \<Longrightarrow> x \<notin> {} \<Longrightarrow> (\<lambda>x. Some (spn_index_protocol_to_str x)) x = Some s"
    by (auto simp: spn_index_protocol_from_str_def split: if_splits)
qed

end
