(* ===== verification/Enum_Props.thy ===== *)
theory Enum_Props
  imports Enums
begin

unbundle bit_operations_syntax

text \<open>
  Properties of the textual names: every name reads back as its enumerator and every
  other text is refused or read as the fallback; the text of a sanitizer set names its
  members; the conflict test on a set is the pairwise one on its members.
\<close>

section \<open>Names\<close>

lemma abi_partial:
  "map_option spn_abi_from_str (spn_abi_to_str a) = (if a = SPN_ABI_COUNT then None else Some a)"
  by (cases a) (use abi.reads in auto)

lemma linkage_partial:
  "map_option spn_lib_kind_from_str (spn_linkage_to_str a) =
     (if a = SPN_LIB_KIND_NONE then None else Some a)"
  by (cases a) (use linkage.reads in auto)

lemma runtime_partial:
  "map_option spn_runtime_from_str (spn_runtime_to_str a) =
     (if a = SPN_RUNTIME_NONE then None else Some a)"
  by (cases a) (use runtime.reads in auto)

text \<open>C34: the text of an enumerator reads back as that enumerator, for each of the
  twenty-three enumerations with functions in both directions. The enumerators without a
  text (\<open>SPN_ABI_COUNT\<close>, \<open>SPN_LIB_KIND_NONE\<close>, \<open>SPN_RUNTIME_NONE\<close>)
  are exactly those whose branch is marked unreachable.\<close>

theorem enum_text_reads_back:
  "spn_arch_from_str (spn_arch_to_str arch) = arch \<and>
   spn_os_from_str (spn_os_to_str os) = os \<and>
   spn_cc_driver_from_str (spn_cc_driver_to_str cc_driver) = cc_driver \<and>
   spn_ld_family_from_str (spn_ld_family_to_str ld_family) = ld_family \<and>
   spn_toolchain_detect_from_str (spn_toolchain_detect_to_str toolchain_detect) = toolchain_detect \<and>
   map_option spn_abi_from_str (spn_abi_to_str abi) = (if abi = SPN_ABI_COUNT then None else Some abi) \<and>
   spn_libc_kind_from_str (spn_libc_kind_to_str libc_kind) = Some libc_kind \<and>
   spn_mode_from_str (spn_mode_to_str mode) = mode \<and>
   spn_opt_level_from_str (spn_opt_level_to_str opt_level) = opt_level \<and>
   spn_win_subsystem_from_str (spn_win_subsystem_to_str win_subsystem) = win_subsystem \<and>
   spn_tree_from_str (spn_tree_to_str tree) = tree \<and>
   spn_option_type_from_str (spn_option_type_to_str option_type) = option_type \<and>
   map_option spn_lib_kind_from_str (spn_linkage_to_str linkage) = (if linkage = SPN_LIB_KIND_NONE then None else Some linkage) \<and>
   map_option spn_runtime_from_str (spn_runtime_to_str runtime) = (if runtime = SPN_RUNTIME_NONE then None else Some runtime) \<and>
   spn_c_standard_from_str (spn_c_standard_to_str c_standard) = c_standard \<and>
   spn_cxx_standard_from_str (spn_cxx_standard_to_str cxx_standard) = cxx_standard \<and>
   spn_pkg_source_from_str (spn_pkg_source_to_str pkg_source) = Some pkg_source \<and>
   spn_pkg_root_kind_from_str (spn_pkg_root_kind_to_str pkg_root_kind) = Some pkg_root_kind \<and>
   spn_dep_kind_from_str (spn_dep_kind_to_str dep_kind) = dep_kind \<and>
   spn_dep_edge_from_str (spn_dep_edge_to_str dep_edge) = dep_edge \<and>
   spn_index_kind_from_str (spn_index_kind_to_str index_kind) = Some index_kind \<and>
   spn_index_dep_kind_from_str (spn_index_dep_kind_to_str index_dep_kind) = index_dep_kind \<and>
   spn_index_protocol_from_str (spn_index_protocol_to_str index_protocol) = Some index_protocol"
  using abi_partial linkage_partial runtime_partial
    arch.reads[OF refl] os.reads[OF refl] cc_driver.reads[OF refl]
    ld_family.reads[OF refl] toolchain_detect.reads[OF refl] libc_kind.reads[OF refl]
    mode.reads[OF refl] opt_level.reads[OF refl] win_subsystem.reads[OF refl]
    tree.reads[OF refl] option_type.reads[OF refl] c_standard.reads[OF refl]
    cxx_standard.reads[OF refl] pkg_source.reads[OF refl] pkg_root_kind.reads[OF refl]
    dep_kind.reads[OF refl] dep_edge.reads[OF refl] index_kind.reads[OF refl]
    index_dep_kind.reads[OF refl] index_protocol.reads[OF refl]
  by simp

text \<open>an enumerator other than the one unknown text falls back to is read from
  exactly one text, its own: no other spelling is accepted.\<close>

theorem enum_text_unique:
  "(spn_arch_from_str s = arch \<and> arch \<noteq> SPN_ARCH_NONE) = (spn_arch_to_str arch = s \<and> arch \<noteq> SPN_ARCH_NONE) \<and>
   (spn_os_from_str s = os \<and> os \<noteq> SPN_OS_NONE) = (spn_os_to_str os = s \<and> os \<noteq> SPN_OS_NONE) \<and>
   (spn_cc_driver_from_str s = cc_driver \<and> cc_driver \<noteq> SPN_CC_DRIVER_NONE) = (spn_cc_driver_to_str cc_driver = s \<and> cc_driver \<noteq> SPN_CC_DRIVER_NONE) \<and>
   (spn_ld_family_from_str s = ld_family \<and> ld_family \<noteq> SPN_LD_FAMILY_NONE) = (spn_ld_family_to_str ld_family = s \<and> ld_family \<noteq> SPN_LD_FAMILY_NONE) \<and>
   (spn_toolchain_detect_from_str s = toolchain_detect \<and> toolchain_detect \<noteq> SPN_TOOLCHAIN_DETECT_NONE) = (spn_toolchain_detect_to_str toolchain_detect = s \<and> toolchain_detect \<noteq> SPN_TOOLCHAIN_DETECT_NONE) \<and>
   (spn_abi_from_str s = abi \<and> abi \<noteq> SPN_ABI_NONE) = (spn_abi_to_str abi = Some s \<and> abi \<noteq> SPN_ABI_NONE) \<and>
   (spn_libc_kind_from_str s = Some libc_kind) = (spn_libc_kind_to_str libc_kind = s) \<and>
   (spn_mode_from_str s = mode \<and> mode \<noteq> SPN_MODE_NONE) = (spn_mode_to_str mode = s \<and> mode \<noteq> SPN_MODE_NONE) \<and>
   (spn_opt_level_from_str s = opt_level \<and> opt_level \<noteq> SPN_OPT_LEVEL_NONE) = (spn_opt_level_to_str opt_level = s \<and> opt_level \<noteq> SPN_OPT_LEVEL_NONE) \<and>
   (spn_win_subsystem_from_str s = win_subsystem \<and> win_subsystem \<noteq> SPN_WIN_SUBSYSTEM_NONE) = (spn_win_subsystem_to_str win_subsystem = s \<and> win_subsystem \<noteq> SPN_WIN_SUBSYSTEM_NONE) \<and>
   (spn_tree_from_str s = tree \<and> tree \<noteq> SPN_TREE_NONE) = (spn_tree_to_str tree = s \<and> tree \<noteq> SPN_TREE_NONE) \<and>
   (spn_option_type_from_str s = option_type \<and> option_type \<noteq> SPN_OPTION_TYPE_NONE) = (spn_option_type_to_str option_type = s \<and> option_type \<noteq> SPN_OPTION_TYPE_NONE) \<and>
   (spn_lib_kind_from_str s = linkage \<and> linkage \<noteq> SPN_LIB_KIND_NONE) = (spn_linkage_to_str linkage = Some s \<and> linkage \<noteq> SPN_LIB_KIND_NONE) \<and>
   (spn_runtime_from_str s = runtime \<and> runtime \<noteq> SPN_RUNTIME_NONE) = (spn_runtime_to_str runtime = Some s \<and> runtime \<noteq> SPN_RUNTIME_NONE) \<and>
   (spn_c_standard_from_str s = c_standard \<and> c_standard \<noteq> SPN_C_STANDARD_NONE) = (spn_c_standard_to_str c_standard = s \<and> c_standard \<noteq> SPN_C_STANDARD_NONE) \<and>
   (spn_cxx_standard_from_str s = cxx_standard \<and> cxx_standard \<noteq> SPN_CXX_STANDARD_NONE) = (spn_cxx_standard_to_str cxx_standard = s \<and> cxx_standard \<noteq> SPN_CXX_STANDARD_NONE) \<and>
   (spn_pkg_source_from_str s = Some pkg_source) = (spn_pkg_source_to_str pkg_source = s) \<and>
   (spn_pkg_root_kind_from_str s = Some pkg_root_kind) = (spn_pkg_root_kind_to_str pkg_root_kind = s) \<and>
   (spn_dep_kind_from_str s = dep_kind \<and> dep_kind \<noteq> SPN_DEP_KIND_PACKAGE) = (spn_dep_kind_to_str dep_kind = s \<and> dep_kind \<noteq> SPN_DEP_KIND_PACKAGE) \<and>
   (spn_dep_edge_from_str s = dep_edge \<and> dep_edge \<noteq> SPN_DEP_EDGE_SCOPE) = (spn_dep_edge_to_str dep_edge = s \<and> dep_edge \<noteq> SPN_DEP_EDGE_SCOPE) \<and>
   (spn_index_kind_from_str s = Some index_kind) = (spn_index_kind_to_str index_kind = s) \<and>
   (spn_index_dep_kind_from_str s = index_dep_kind \<and> index_dep_kind \<noteq> SPN_INDEX_DEP_NORMAL) = (spn_index_dep_kind_to_str index_dep_kind = s \<and> index_dep_kind \<noteq> SPN_INDEX_DEP_NORMAL) \<and>
   (spn_index_protocol_from_str s = Some index_protocol) = (spn_index_protocol_to_str index_protocol = s)"
  by (intro conjI)
    (simp_all add:
      arch.reads_conj[simplified] os.reads_conj[simplified]
      cc_driver.reads_conj[simplified] ld_family.reads_conj[simplified]
      toolchain_detect.reads_conj[simplified] abi.reads_conj[simplified]
      libc_kind.reads_conj[simplified] mode.reads_conj[simplified]
      opt_level.reads_conj[simplified] win_subsystem.reads_conj[simplified]
      tree.reads_conj[simplified] option_type.reads_conj[simplified]
      linkage.reads_conj[simplified] runtime.reads_conj[simplified]
      c_standard.reads_conj[simplified] cxx_standard.reads_conj[simplified]
      pkg_source.reads_conj[simplified] pkg_root_kind.reads_conj[simplified]
      dep_kind.reads_conj[simplified] dep_edge.reads_conj[simplified]
      index_kind.reads_conj[simplified] index_dep_kind.reads_conj[simplified]
      index_protocol.reads_conj[simplified])

section \<open>Sanitizers\<close>

text \<open>The reader of the printed text: split at commas, read each name, collect.\<close>

fun comma_split :: "string \<Rightarrow> string list" where
  "comma_split [] = [[]]"
| "comma_split (c # cs) =
    (if c = CHR '','' then [] # comma_split cs
     else case comma_split cs of [] \<Rightarrow> [[c]] | t # ts \<Rightarrow> (c # t) # ts)"

definition read_set :: "string \<Rightarrow> spn_sanitizer_set_t" where
  "read_set t = spn_sanitizer_set_from_list (map spn_sanitizer_from_str (comma_split t))"

lemma sanitizer_write_low: "set ks \<subseteq> {..<5} \<Longrightarrow>
   sanitizer_write (s AND 31) f out ks = sanitizer_write s f out ks"
proof (induction ks arbitrary: f out)
  case (Cons a ks)
  have "a < 5" using Cons.prems by auto
  then have "a = 0 \<or> a = 1 \<or> a = 2 \<or> a = 3 \<or> a = 4" by arith
  then have "(31::u32) AND push_bit a 1 = push_bit a 1" by auto
  then have "(s AND 31) AND push_bit a 1 = s AND push_bit a 1"
    by (simp add: and.assoc)
  moreover have "set ks \<subseteq> {..<5}" using Cons.prems by auto
  ultimately show ?case using Cons.IH by (simp add: Let_def split: option.splits)
qed simp

lemma set_to_str_low: "spn_sanitizer_set_to_str (s AND 31) = spn_sanitizer_set_to_str s"
  unfolding spn_sanitizer_set_to_str_def by (rule sanitizer_write_low) auto

lemma low_sets: "(s AND 31 :: u32) \<in> set (map of_nat [0..<32])"
proof -
  have "s AND 31 = of_nat (unat (s AND 31))" by simp
  moreover have "unat (s AND 31) < 32"
  proof -
    have "s AND 31 = take_bit 5 s" by (simp add: take_bit_eq_mask mask_eq_exp_minus_1)
    then show ?thesis
      using take_bit_nat_less_exp [of 5 "unat s"] by (simp add: unsigned_take_bit_eq)
  qed
  ultimately show ?thesis by (metis atLeastLessThan_iff imageI le0 set_map set_upt)
qed

lemma set_text_all:
  "\<forall>s \<in> set (map of_nat [0..<32]). map_option read_set (spn_sanitizer_set_to_str s) = Some s"
  by code_simp


text \<open>the text of a sanitizer set, split at its commas and read name by name,
  is the set again, for every word: the bits above the five sanitizers are dropped, no bit
  below them is lost and no branch without a name is reached.\<close>

theorem sanitizer_set_text:
  "map_option read_set (spn_sanitizer_set_to_str s) = Some (s AND 31)"
  using set_text_all low_sets [of s] set_to_str_low [of s] by metis

lemma has_conflict_bits:
  "spn_sanitizer_set_has_conflict s \<longleftrightarrow>
     bit s 1 \<and> (bit s 0 \<or> bit s 3 \<or> bit s 4) \<or> bit s 3 \<and> (bit s 0 \<or> bit s 4)"
  unfolding spn_sanitizer_set_has_conflict_def sanitizer_bits
  by (auto simp: bit_iff_and_push_bit_not_eq_0 bit.conj_disj_distrib or_eq_0_iff simp del: push_bit_of_1 push_bit_eq_mult)

lemma bit_from_list:
  "bit (spn_sanitizer_set_from_list xs) n \<longleftrightarrow> (\<exists>x\<in>set xs. bit x n)"
proof -
  have "bit (foldl (\<lambda>s x. s OR x) a xs) n \<longleftrightarrow> bit a n \<or> (\<exists>x\<in>set xs. bit x n)" for a :: u32
    by (induction xs arbitrary: a) (auto simp: bit_or_iff)
  then show ?thesis by (simp add: spn_sanitizer_set_from_list_def)
qed

lemma bit_from_str:
  "bit (spn_sanitizer_from_str t) 0 \<longleftrightarrow> t = ''address''"
  "bit (spn_sanitizer_from_str t) 1 \<longleftrightarrow> t = ''thread''"
  "bit (spn_sanitizer_from_str t) 3 \<longleftrightarrow> t = ''memory''"
  "bit (spn_sanitizer_from_str t) 4 \<longleftrightarrow> t = ''leak''"
  by (auto simp: spn_sanitizer_from_str_def sanitizer_bits bit_simps)

text \<open>a list of sanitizer names conflicts exactly when it names thread together
  with address, memory or leak, or memory together with address or leak; undefined and
  unknown names conflict with nothing.\<close>

theorem sanitizer_conflict_pairs:
  "spn_sanitizer_set_has_conflict
     (spn_sanitizer_set_from_list (map spn_sanitizer_from_str names)) \<longleftrightarrow>
   ''thread'' \<in> set names \<and> set names \<inter> {''address'', ''memory'', ''leak''} \<noteq> {} \<or>
   ''memory'' \<in> set names \<and> set names \<inter> {''address'', ''leak''} \<noteq> {}"
  by (auto simp: has_conflict_bits bit_from_list bit_from_str bit_from_str(2)[unfolded One_nat_def])

end
