(* ===== verification/When.thy ===== *)
theory When
  imports Enums
begin

text \<open>
  \<open>source/core/when\<close>: option values, the conditions (\<open>when\<close> clauses) that
  gate manifest entries, the environment they are evaluated in, and the defaults of an
  option. A tagged union is a datatype; a pointer that may be null is an option; the
  environment table is an association list. \<open>None\<close> as the result of a function
  that fills an environment or renders facts is the unreachable branch of the
  \<open>spn_abi_to_str\<close> it calls.
\<close>

section \<open>Types\<close>

datatype spn_option_value_t =
  OptNone
| OptBool bool
| OptStr string

fun value_kind :: "spn_option_value_t \<Rightarrow> spn_option_value_kind_t" where
  "value_kind OptNone = SPN_OPTION_VALUE_NONE"
| "value_kind (OptBool _) = SPN_OPTION_VALUE_BOOL"
| "value_kind (OptStr _) = SPN_OPTION_VALUE_STR"

record spn_when_clause_t =
  clause_key :: string
  clause_negated :: bool
  clause_value :: spn_option_value_t

record spn_when_t =
  when_clauses :: "spn_when_clause_t list"

type_synonym spn_when_env_t = "(string \<times> spn_option_value_t) list"

record spn_when_facts_t =
  facts_os :: spn_os_t
  facts_arch :: spn_arch_t
  facts_abi :: spn_abi_t
  facts_driver :: spn_cc_driver_t
  facts_linker :: spn_ld_family_t
  facts_mode :: spn_mode_t
  facts_opt :: spn_opt_level_t
  facts_sanitizers :: spn_sanitizer_set_t

record spn_option_default_t =
  default_when :: spn_when_t
  default_value :: spn_option_value_t

record spn_option_info_t =
  option_name :: string
  option_type :: spn_option_type_t
  option_additive :: bool
  option_public :: bool
  option_define :: string
  option_values :: "string list"
  option_defaults :: "spn_option_default_t list"

section \<open>Values\<close>

definition spn_option_value_none :: spn_option_value_t where
  "spn_option_value_none = OptNone"

definition spn_option_value_bool :: "bool \<Rightarrow> spn_option_value_t" where
  "spn_option_value_bool b = OptBool b"

definition spn_option_value_str :: "string \<Rightarrow> spn_option_value_t" where
  "spn_option_value_str s = OptStr s"

lemmas option_value_defs [simp] =
  spn_option_value_none_def spn_option_value_bool_def spn_option_value_str_def

fun spn_option_value_equal :: "spn_option_value_t \<Rightarrow> spn_option_value_t \<Rightarrow> bool" where
  "spn_option_value_equal a b =
    (if value_kind a \<noteq> value_kind b then False
     else case (a, b) of
         (OptNone, _) \<Rightarrow> True
       | (OptBool x, OptBool y) \<Rightarrow> x = y
       | (OptStr x, OptStr y) \<Rightarrow> x = y
       | _ \<Rightarrow> False)"

fun spn_option_value_to_str :: "spn_option_value_t \<Rightarrow> string" where
  "spn_option_value_to_str OptNone = ''none''"
| "spn_option_value_to_str (OptBool b) = (if b then ''true'' else ''false'')"
| "spn_option_value_to_str (OptStr s) = ''\"'' @ s @ ''\"''"

lemma option_value_equal_iff [simp]: "spn_option_value_equal a b \<longleftrightarrow> a = b"
  by (cases a; cases b) simp_all

declare spn_option_value_equal.simps [simp del]

section \<open>The environment\<close>

definition spn_when_env_init :: spn_when_env_t where
  "spn_when_env_init = []"

definition spn_when_env_set ::
    "spn_when_env_t \<Rightarrow> string \<Rightarrow> spn_option_value_t \<Rightarrow> spn_when_env_t" where
  "spn_when_env_set env key v = ht_insert key v env"

definition spn_when_env_set_platform ::
    "spn_when_env_t \<Rightarrow> spn_os_t \<Rightarrow> spn_arch_t \<Rightarrow> spn_when_env_t" where
  "spn_when_env_set_platform env os arch =
    (let env = spn_when_env_set env ''os'' (spn_option_value_str (spn_os_to_str os)) in
     spn_when_env_set env ''arch'' (spn_option_value_str (spn_arch_to_str arch)))"

definition spn_when_env_set_facts ::
    "spn_when_env_t \<Rightarrow> spn_when_facts_t \<Rightarrow> spn_when_env_t option" where
  "spn_when_env_set_facts env facts =
    (let env = spn_when_env_set_platform env (facts_os facts) (facts_arch facts) in
     case spn_abi_to_str (facts_abi facts) of
       None \<Rightarrow> None
     | Some abi \<Rightarrow>
        (let env = spn_when_env_set env ''abi'' (spn_option_value_str abi);
             env = spn_when_env_set env ''driver''
                     (spn_option_value_str (spn_cc_driver_to_str (facts_driver facts)));
             env = spn_when_env_set env ''linker''
                     (spn_option_value_str (spn_ld_family_to_str (facts_linker facts)));
             env = spn_when_env_set env ''mode''
                     (spn_option_value_str (spn_mode_to_str (facts_mode facts)));
             env = spn_when_env_set env ''opt''
                     (spn_option_value_str (spn_opt_level_to_str (facts_opt facts)));
             env = spn_when_env_set env ''sanitize_address''
                     (spn_option_value_bool (facts_sanitizers facts AND SPN_SANITIZER_ADDRESS \<noteq> 0));
             env = spn_when_env_set env ''sanitize_thread''
                     (spn_option_value_bool (facts_sanitizers facts AND SPN_SANITIZER_THREAD \<noteq> 0));
             env = spn_when_env_set env ''sanitize_undefined''
                     (spn_option_value_bool (facts_sanitizers facts AND SPN_SANITIZER_UNDEFINED \<noteq> 0));
             env = spn_when_env_set env ''sanitize_memory''
                     (spn_option_value_bool (facts_sanitizers facts AND SPN_SANITIZER_MEMORY \<noteq> 0));
             env = spn_when_env_set env ''sanitize_leak''
                     (spn_option_value_bool (facts_sanitizers facts AND SPN_SANITIZER_LEAK \<noteq> 0))
         in Some env))"

text \<open>The upper-casing of a text is the runtime's \<open>sp_str_to_upper\<close>: an
  argument.\<close>

definition push_fact_define ::
    "(string \<Rightarrow> string) \<Rightarrow> string list \<Rightarrow> string \<Rightarrow> string \<Rightarrow> string list" where
  "push_fact_define upper defines key v =
    (if v = [] then defines else defines @ [''SPN_BUILD_'' @ key @ ''_'' @ upper v])"

definition spn_when_facts_to_defines ::
    "(string \<Rightarrow> string) \<Rightarrow> spn_when_facts_t \<Rightarrow> string list option" where
  "spn_when_facts_to_defines upper facts =
    (let push = push_fact_define upper;
         flag = (\<lambda>ds b name. if facts_sanitizers facts AND b \<noteq> 0 then ds @ [name] else ds);
         ds = [''SPN_BUILD''];
         ds = push ds ''OS'' (spn_os_to_str (facts_os facts));
         ds = push ds ''ARCH'' (spn_arch_to_str (facts_arch facts))
     in case spn_abi_to_str (facts_abi facts) of
       None \<Rightarrow> None
     | Some abi \<Rightarrow>
        (let ds = push ds ''ABI'' abi;
             ds = push ds ''DRIVER'' (spn_cc_driver_to_str (facts_driver facts));
             ds = push ds ''LINKER'' (spn_ld_family_to_str (facts_linker facts));
             ds = push ds ''MODE'' (spn_mode_to_str (facts_mode facts));
             ds = push ds ''OPT'' (spn_opt_level_to_str (facts_opt facts));
             ds = flag ds SPN_SANITIZER_ADDRESS ''SPN_BUILD_SANITIZE_ADDRESS'';
             ds = flag ds SPN_SANITIZER_THREAD ''SPN_BUILD_SANITIZE_THREAD'';
             ds = flag ds SPN_SANITIZER_UNDEFINED ''SPN_BUILD_SANITIZE_UNDEFINED'';
             ds = flag ds SPN_SANITIZER_MEMORY ''SPN_BUILD_SANITIZE_MEMORY'';
             ds = flag ds SPN_SANITIZER_LEAK ''SPN_BUILD_SANITIZE_LEAK''
         in Some ds))"

section \<open>Conditions\<close>

fun eval_clauses :: "spn_when_clause_t list \<Rightarrow> spn_when_env_t \<Rightarrow> bool" where
  "eval_clauses [] env = True"
| "eval_clauses (clause # cs) env =
    (case ht_get env (clause_key clause) of
       None \<Rightarrow> False
     | Some current \<Rightarrow>
        if spn_option_value_equal current (clause_value clause) = clause_negated clause then False
        else eval_clauses cs env)"

fun spn_when_eval :: "spn_when_t option \<Rightarrow> spn_when_env_t \<Rightarrow> bool" where
  "spn_when_eval None env = True"
| "spn_when_eval (Some w) env = eval_clauses (when_clauses w) env"

definition clause_to_str :: "spn_when_clause_t \<Rightarrow> string" where
  "clause_to_str clause =
    clause_key clause @ '' '' @ (if clause_negated clause then ''!='' else ''='') @ '' '' @
    spn_option_value_to_str (clause_value clause)"

fun clauses_to_str :: "nat \<Rightarrow> spn_when_clause_t list \<Rightarrow> string" where
  "clauses_to_str it [] = []"
| "clauses_to_str it (clause # cs) =
    (if it \<noteq> 0 then '', '' else []) @ clause_to_str clause @ clauses_to_str (Suc it) cs"

fun spn_when_to_str :: "spn_when_t option \<Rightarrow> string" where
  "spn_when_to_str None = ''always''"
| "spn_when_to_str (Some w) =
    (if when_clauses w = [] then ''always'' else clauses_to_str 0 (when_clauses w))"

section \<open>Options\<close>

definition spn_option_value_ok :: "spn_option_info_t \<Rightarrow> spn_option_value_t \<Rightarrow> bool" where
  "spn_option_value_ok option v =
    (case option_type option of
       SPN_OPTION_TYPE_NONE \<Rightarrow> False
     | SPN_OPTION_TYPE_BOOL \<Rightarrow> value_kind v = SPN_OPTION_VALUE_BOOL
     | SPN_OPTION_TYPE_ENUM \<Rightarrow>
        (case v of OptStr s \<Rightarrow> s \<in> set (option_values option) | _ \<Rightarrow> False))"

fun resolve_defaults :: "spn_option_default_t list \<Rightarrow> spn_when_env_t \<Rightarrow> spn_option_value_t" where
  "resolve_defaults [] env = spn_option_value_none"
| "resolve_defaults (d # ds) env =
    (if spn_when_eval (Some (default_when d)) env then default_value d
     else resolve_defaults ds env)"

definition spn_option_resolve :: "spn_option_info_t \<Rightarrow> spn_when_env_t \<Rightarrow> spn_option_value_t" where
  "spn_option_resolve option env = resolve_defaults (option_defaults option) env"

section \<open>Facts\<close>

lemma eval_clauses_iff:
  "eval_clauses cs env \<longleftrightarrow>
     (\<forall>c \<in> set cs. \<exists>v. ht_get env (clause_key c) = Some v \<and>
        (v = clause_value c) \<noteq> clause_negated c)"
  by (induction cs env rule: eval_clauses.induct) (auto split: option.splits)

lemma env_get_set [simp]:
  "ht_get (spn_when_env_set env k v) = (ht_get env)(k \<mapsto> v)"
  by (simp add: spn_when_env_set_def)

lemma resolve_defaults_cases:
  "resolve_defaults ds env = OptNone \<or> (\<exists>d \<in> set ds. resolve_defaults ds env = default_value d)"
  by (induction ds) auto

end
