(* ===== verification/Target_Select.thy ===== *)
theory Target_Select
  imports Enums
begin

text \<open>
  \<open>source/core/filter/filter.c\<close> (which targets a command selects),
  \<open>source/core/target/select.c\<close> (which kind of artifact a library target is
  built as) and the linkage sets of \<open>source/core/target/mutate.c\<close>. \<open>None\<close>
  is an unreachable branch; the out parameter of a function that returns an error code is
  the \<open>Some\<close> of the inner option, its \<open>SPN_ERROR\<close> the inner \<open>None\<close>.
\<close>

section \<open>Linkage sets\<close>

record spn_linkage_set_t =
  set_source :: bool
  set_shared :: bool
  set_static_lib :: bool
  set_object :: bool

fun spn_linkage_set_add :: "spn_linkage_set_t \<Rightarrow> spn_linkage_t \<Rightarrow> spn_linkage_set_t option" where
  "spn_linkage_set_add s SPN_LIB_KIND_SOURCE = Some (s\<lparr>set_source := True\<rparr>)"
| "spn_linkage_set_add s SPN_LIB_KIND_SHARED = Some (s\<lparr>set_shared := True\<rparr>)"
| "spn_linkage_set_add s SPN_LIB_KIND_STATIC = Some (s\<lparr>set_static_lib := True\<rparr>)"
| "spn_linkage_set_add s SPN_LIB_KIND_OBJECT = Some (s\<lparr>set_object := True\<rparr>)"
| "spn_linkage_set_add s SPN_LIB_KIND_NONE = None"

fun spn_linkage_set_has :: "spn_linkage_set_t \<Rightarrow> spn_linkage_t \<Rightarrow> bool option" where
  "spn_linkage_set_has s SPN_LIB_KIND_SOURCE = Some (set_source s)"
| "spn_linkage_set_has s SPN_LIB_KIND_SHARED = Some (set_shared s)"
| "spn_linkage_set_has s SPN_LIB_KIND_STATIC = Some (set_static_lib s)"
| "spn_linkage_set_has s SPN_LIB_KIND_OBJECT = Some (set_object s)"
| "spn_linkage_set_has s SPN_LIB_KIND_NONE = None"

definition spn_linkage_set_default :: "spn_linkage_set_t \<Rightarrow> spn_linkage_t option" where
  "spn_linkage_set_default s =
    (if set_object s then Some SPN_LIB_KIND_OBJECT
     else if set_source s then Some SPN_LIB_KIND_SOURCE
     else if set_static_lib s then Some SPN_LIB_KIND_STATIC
     else if set_shared s then Some SPN_LIB_KIND_SHARED
     else None)"

section \<open>The kind of a library\<close>

record spn_kind_query_t =
  query_config :: "spn_linkage_t option"
  query_linkage :: spn_linkage_t

fun select_first_supported ::
    "spn_linkage_set_t \<Rightarrow> spn_linkage_t list \<Rightarrow> spn_linkage_t option option" where
  "select_first_supported supported [] = Some None"
| "select_first_supported supported (k # ks) =
    (case spn_linkage_set_has supported k of
       None \<Rightarrow> None
     | Some True \<Rightarrow> Some (Some k)
     | Some False \<Rightarrow> select_first_supported supported ks)"

text \<open>Of a target's description the selection reads the linkage set only.\<close>

definition spn_target_select_lib_kind ::
    "spn_linkage_set_t \<Rightarrow> spn_kind_query_t \<Rightarrow> spn_linkage_t option option" where
  "spn_target_select_lib_kind supported query =
    (case query_config query of
       Some value \<Rightarrow>
        (case spn_linkage_set_has supported value of
           None \<Rightarrow> None
         | Some False \<Rightarrow> Some None
         | Some True \<Rightarrow> Some (Some value))
     | None \<Rightarrow>
        (case query_linkage query of
           SPN_LIB_KIND_STATIC \<Rightarrow>
             select_first_supported supported [SPN_LIB_KIND_SOURCE, SPN_LIB_KIND_STATIC]
         | SPN_LIB_KIND_SOURCE \<Rightarrow>
             select_first_supported supported [SPN_LIB_KIND_SOURCE, SPN_LIB_KIND_STATIC]
         | SPN_LIB_KIND_SHARED \<Rightarrow>
             select_first_supported supported
               [SPN_LIB_KIND_SOURCE, SPN_LIB_KIND_STATIC, SPN_LIB_KIND_SHARED]
         | SPN_LIB_KIND_NONE \<Rightarrow>
             select_first_supported supported
               [SPN_LIB_KIND_SOURCE, SPN_LIB_KIND_STATIC, SPN_LIB_KIND_SHARED]
         | SPN_LIB_KIND_OBJECT \<Rightarrow> None))"

section \<open>The selection of targets\<close>

record spn_target_rule_t =
  rule_kind :: spn_target_rule_kind_t
  rule_names :: "string list"

record spn_target_selection_t =
  sel_bin :: spn_target_rule_t
  sel_lib :: spn_target_rule_t
  sel_test :: spn_target_rule_t
  sel_script :: spn_target_rule_t
  sel_example :: spn_target_rule_t

definition spn_target_rule_pass :: "spn_target_rule_t \<Rightarrow> string \<Rightarrow> bool" where
  "spn_target_rule_pass rule name =
    (case rule_kind rule of
       SPN_TARGET_RULE_NONE \<Rightarrow> False
     | SPN_TARGET_RULE_ALL \<Rightarrow> True
     | SPN_TARGET_RULE_NAMED \<Rightarrow> name \<in> set (rule_names rule))"

definition is_default :: "spn_target_selection_t \<Rightarrow> bool" where
  "is_default s \<longleftrightarrow>
     rule_kind (sel_bin s) = SPN_TARGET_RULE_NONE \<and>
     rule_kind (sel_lib s) = SPN_TARGET_RULE_NONE \<and>
     rule_kind (sel_test s) = SPN_TARGET_RULE_NONE \<and>
     rule_kind (sel_script s) = SPN_TARGET_RULE_NONE \<and>
     rule_kind (sel_example s) = SPN_TARGET_RULE_NONE"

text \<open>Of a target the selection reads the kind and the name.\<close>

definition spn_target_selection_pass ::
    "spn_target_selection_t \<Rightarrow> spn_target_kind_t \<Rightarrow> string \<Rightarrow> bool" where
  "spn_target_selection_pass s kind name =
    (if is_default s then
       (case kind of
          SPN_TARGET_KIND_BUILD_METAPROGRAM \<Rightarrow> False
        | SPN_TARGET_KIND_CONFIGURE_METAPROGRAM \<Rightarrow> False
        | SPN_TARGET_KIND_SCRIPT \<Rightarrow> False
        | SPN_TARGET_KIND_LIB \<Rightarrow> True
        | SPN_TARGET_KIND_TEST \<Rightarrow> True
        | SPN_TARGET_KIND_EXE \<Rightarrow> True
        | SPN_TARGET_KIND_EXAMPLE \<Rightarrow> True)
     else
       (case kind of
          SPN_TARGET_KIND_EXE \<Rightarrow> spn_target_rule_pass (sel_bin s) name
        | SPN_TARGET_KIND_LIB \<Rightarrow> spn_target_rule_pass (sel_lib s) name
        | SPN_TARGET_KIND_TEST \<Rightarrow> spn_target_rule_pass (sel_test s) name
        | SPN_TARGET_KIND_SCRIPT \<Rightarrow> spn_target_rule_pass (sel_script s) name
        | SPN_TARGET_KIND_EXAMPLE \<Rightarrow> spn_target_rule_pass (sel_example s) name
        | SPN_TARGET_KIND_CONFIGURE_METAPROGRAM \<Rightarrow> False
        | SPN_TARGET_KIND_BUILD_METAPROGRAM \<Rightarrow> False))"

end
