(* ===== verification/Pkg.thy ===== *)
theory Pkg
  imports When Target_Select Semver
begin

text \<open>
  The package data model of \<open>source/core/pkg/types.h\<close>,
  \<open>source/core/index/types.h\<close>, \<open>source/core/profile/types.h\<close> and
  \<open>source/core/session/registry/types.h\<close>, and the package names of
  \<open>source/core/pkg/id.c\<close>.

  An interned string is a word in the sources. Interning is injective and the identifier
  of every interned text is valid (\<open>Intern_Props\<close>), so a
  \<open>sp_intern_id_t\<close> is here the text it stands for: \<open>Some s\<close>, and
  \<open>None\<close> for the invalid identifier 0 of a zero-initialised structure.
  Of the large records (\<open>spn_pkg_info_t\<close>, \<open>spn_profile_info_t\<close>,
  \<open>spn_target_info_t\<close>) the fields that the modelled code reads are declared.
\<close>

section \<open>Paths and roots\<close>

record spn_path_t =
  path_root :: spn_path_root_t
  path_sub :: string

record spn_git_patch_set_t =
  patch_files :: "string list"
  patch_hash :: u64

record spn_git_checkout_id_t =
  git_url :: string
  git_rev :: string
  git_dir :: string
  git_patches :: spn_git_patch_set_t

datatype spn_pkg_root_t =
  RootNone
| RootLocal spn_path_t
| RootGit spn_git_checkout_id_t

definition spn_path_parent :: "spn_path_t \<Rightarrow> spn_path_t" where
  "spn_path_parent path =
    (let sub = path_sub path;
         sep = length (takeWhile (\<lambda>c. c \<noteq> CHR ''/'') (rev sub))
     in if CHR ''/'' \<notin> set sub then path\<lparr>path_sub := []\<rparr>
        else if length sub - 1 - sep = 0 then path\<lparr>path_sub := take 1 sub\<rparr>
        else path\<lparr>path_sub := take (length sub - 1 - sep) sub\<rparr>)"

fun spn_path_root_rank :: "spn_path_root_t \<Rightarrow> nat" where
  "spn_path_root_rank SPN_PATH_ROOT_NONE = 0"
| "spn_path_root_rank SPN_PATH_ROOT_PROJECT = 1"
| "spn_path_root_rank SPN_PATH_ROOT_STORE = 2"
| "spn_path_root_rank SPN_PATH_ROOT_BUILD = 3"
| "spn_path_root_rank SPN_PATH_ROOT_CHECKOUT = 4"
| "spn_path_root_rank SPN_PATH_ROOT_TOOLCHAIN = 5"
| "spn_path_root_rank SPN_PATH_ROOT_INDEX = 6"
| "spn_path_root_rank SPN_PATH_ROOT_RUNTIME = 7"
| "spn_path_root_rank SPN_PATH_ROOT_CACHE = 8"
| "spn_path_root_rank SPN_PATH_ROOT_STORAGE = 9"
| "spn_path_root_rank SPN_PATH_ROOT_COUNT = 10"

text \<open>The alphabetical comparison of two texts is the runtime's: an argument.\<close>

definition spn_path_compare ::
    "(string \<Rightarrow> string \<Rightarrow> int) \<Rightarrow> spn_path_t \<Rightarrow> spn_path_t \<Rightarrow> int" where
  "spn_path_compare str_cmp a b =
    (if path_root a \<noteq> path_root b then
       (if spn_path_root_rank (path_root a) < spn_path_root_rank (path_root b) then -1 else 1)
     else str_cmp (path_sub a) (path_sub b))"

section \<open>Names and identities\<close>

type_synonym sp_name = "string option"

record spn_pkg_name_t =
  pn_namespace :: string
  pn_name :: string

record spn_pkg_id_t =
  id_qualified :: sp_name
  id_hash :: u64
  id_version :: spn_semver_t

definition spn_pkg_id_zero :: spn_pkg_id_t where
  "spn_pkg_id_zero = \<lparr>id_qualified = None, id_hash = 0, id_version = semver_zero\<rparr>"

definition spn_pkg_id :: "string \<Rightarrow> spn_pkg_id_t" where
  "spn_pkg_id qualified = spn_pkg_id_zero\<lparr>id_qualified := Some qualified\<rparr>"

definition spn_pkg_id_eq :: "spn_pkg_id_t \<Rightarrow> spn_pkg_id_t \<Rightarrow> bool" where
  "spn_pkg_id_eq a b \<longleftrightarrow>
     id_qualified a = id_qualified b \<and> spn_semver_eq (id_version a) (id_version b)"

definition spn_pkg_name_to_qualified :: "spn_pkg_name_t \<Rightarrow> string" where
  "spn_pkg_name_to_qualified name =
    (let namespace = (if pn_namespace name = [] then ''core'' else pn_namespace name) in
     namespace @ ''/'' @ pn_name name)"

text \<open>The split of a text at a character is the runtime's \<open>sp_str_cleave_c8\<close>:
  an argument.\<close>

definition spn_pkg_name_from_qualified ::
    "(string \<Rightarrow> char \<Rightarrow> string \<times> string) \<Rightarrow> string \<Rightarrow> spn_pkg_name_t" where
  "spn_pkg_name_from_qualified cleave qualified =
    (let pair = cleave qualified (CHR ''/'') in
     if snd pair = [] then \<lparr>pn_namespace = ''core'', pn_name = qualified\<rparr>
     else \<lparr>pn_namespace = fst pair, pn_name = snd pair\<rparr>)"

definition spn_pkg_canonicalize_name ::
    "(string \<Rightarrow> char \<Rightarrow> string \<times> string) \<Rightarrow> string \<Rightarrow> string" where
  "spn_pkg_canonicalize_name cleave name =
    (if name = [] then []
     else spn_pkg_name_to_qualified (spn_pkg_name_from_qualified cleave name))"

definition spn_pkg_canonicalize_pair :: "string \<Rightarrow> string \<Rightarrow> string" where
  "spn_pkg_canonicalize_pair namespace name =
     spn_pkg_name_to_qualified \<lparr>pn_namespace = namespace, pn_name = name\<rparr>"

section \<open>Requests, options and configuration\<close>

datatype req_target =
  ReqIndex spn_semver_range_t
| ReqFile spn_path_t
| ReqRoot

record spn_requested_dep_t =
  req_qualified :: string
  req_target :: req_target
  req_kind :: spn_dep_kind_t
  req_private :: bool
  req_when :: spn_when_t
  req_options :: spn_when_t

fun target_source :: "req_target \<Rightarrow> spn_pkg_source_t" where
  "target_source (ReqIndex _) = SPN_PKG_SOURCE_INDEX"
| "target_source (ReqFile _) = SPN_PKG_SOURCE_FILE"
| "target_source ReqRoot = SPN_PKG_SOURCE_ROOT"

abbreviation req_source :: "spn_requested_dep_t \<Rightarrow> spn_pkg_source_t" where
  "req_source r \<equiv> target_source (req_target r)"

record spn_option_request_t =
  request_consumer :: string
  request_options :: spn_when_t

record spn_option_setter_t =
  setter_kind :: spn_option_setter_kind_t
  setter_name :: string

record spn_resolved_option_t =
  resolved_name :: string
  resolved_value :: spn_option_value_t
  resolved_setter :: spn_option_setter_t
  resolved_is_default :: bool

record spn_option_violation_t =
  viol_kind :: spn_option_err_t
  viol_pkg :: string
  viol_option :: string
  viol_value :: spn_option_value_t
  viol_a :: spn_option_setter_t
  viol_b :: spn_option_setter_t

record spn_merged_options_t =
  merged_options :: "spn_resolved_option_t list"
  merged_violations :: "spn_option_violation_t list"

record spn_pkg_config_t =
  config_kind :: "spn_linkage_t option"
  config_options :: spn_when_t
  config_defaults_declined :: bool

record spn_pkg_config_entry_t =
  entry_key :: string
  entry_value :: spn_pkg_config_t

record spn_profile_info_t =
  profile_driver :: spn_cc_driver_t
  profile_linker :: spn_ld_family_t
  profile_os :: spn_os_t
  profile_arch :: spn_arch_t
  profile_abi :: spn_abi_t
  profile_mode :: spn_mode_t
  profile_opt :: spn_opt_level_t
  profile_sanitizers :: spn_sanitizer_set_t
  profile_linkage :: spn_linkage_t
  profile_options :: spn_when_t

definition spn_profile_facts :: "spn_profile_info_t \<Rightarrow> spn_when_facts_t" where
  "spn_profile_facts profile =
    \<lparr>facts_os = profile_os profile,
     facts_arch = profile_arch profile,
     facts_abi = profile_abi profile,
     facts_driver = profile_driver profile,
     facts_linker = profile_linker profile,
     facts_mode = profile_mode profile,
     facts_opt = profile_opt profile,
     facts_sanitizers = profile_sanitizers profile\<rparr>"

section \<open>Releases, manifests and resolved packages\<close>

record spn_index_dep_t =
  idep_kind :: spn_index_dep_kind_t
  idep_private :: bool
  idep_id :: spn_pkg_name_t
  idep_range :: spn_semver_range_t
  idep_when :: spn_when_t
  idep_options :: spn_when_t

record spn_index_rel_paths_t =
  paths_manifest :: string
  paths_script :: string

record spn_index_target_t =
  itarget_name :: string
  itarget_linkages :: "spn_linkage_t list"

record spn_index_release_t =
  rel_id :: spn_pkg_name_t
  rel_version :: spn_semver_t
  rel_yanked :: bool
  rel_source :: spn_pkg_root_t
  rel_manifest :: spn_pkg_root_t
  rel_paths :: spn_index_rel_paths_t
  rel_deps :: "spn_index_dep_t list"
  rel_targets :: "spn_index_target_t list"
  rel_options :: "(string \<times> spn_option_info_t) list"

record spn_index_pkg_t =
  ipkg_id :: spn_pkg_name_t
  ipkg_releases :: "spn_index_release_t list"

record spn_pkg_info_t =
  info_name :: string
  info_qualified :: string
  info_version :: spn_semver_t
  info_upstream_url :: string
  info_upstream_commit :: string
  info_libs :: "(string \<times> spn_linkage_set_t) list"
  info_deps :: "spn_requested_dep_t list"
  info_options :: "(string \<times> spn_option_info_t) list"

definition spn_pkg_upstream :: "spn_pkg_info_t \<Rightarrow> spn_pkg_root_t" where
  "spn_pkg_upstream info =
    (if info_upstream_url info = [] then RootNone
     else RootGit \<lparr>git_url = info_upstream_url info, git_rev = info_upstream_commit info,
            git_dir = [], git_patches = \<lparr>patch_files = [], patch_hash = 0\<rparr>\<rparr>)"

record spn_registry_pkg_t =
  reg_source :: spn_pkg_source_t
  reg_info :: spn_pkg_info_t
  reg_manifest :: spn_path_t

record spn_resolved_dep_t =
  rdep_id :: spn_pkg_id_t
  rdep_kind :: spn_dep_kind_t
  rdep_edge :: spn_dep_edge_t
  rdep_private :: bool

record spn_pkg_origin_t =
  origin_recipe :: spn_pkg_root_t
  origin_source :: spn_pkg_root_t
  origin_paths :: spn_index_rel_paths_t
  origin_info :: "spn_pkg_info_t option"
  origin_release :: "spn_index_release_t option"

record spn_resolved_pkg_t =
  pkg_id :: spn_pkg_id_t
  pkg_name :: string
  pkg_options :: "(string \<times> spn_option_info_t) list"
  pkg_source :: spn_pkg_source_t
  pkg_priority :: u64
  pkg_deps :: "spn_requested_dep_t list"
  pkg_edges :: "spn_resolved_dep_t list"
  pkg_origin :: spn_pkg_origin_t

end
