(* ===== verification/Options.thy ===== *)
theory Options
  imports Pkg
begin

text \<open>
  \<open>source/core/pkg/options.c\<close>: the values of a package's options, merged from the
  profile or the root manifest, the requests of its consumers and its defaults, and the
  violations found on the way. The loops over the claims carry their local variables as a
  record; the order of the claims and the early exits are those of the source.
\<close>

section \<open>Configuration lookup and environments\<close>

fun spn_pkg_config_find ::
    "spn_pkg_config_entry_t list \<Rightarrow> string \<Rightarrow> spn_pkg_config_t option" where
  "spn_pkg_config_find [] name = None"
| "spn_pkg_config_find (e # es) name =
    (if entry_key e = name then Some (entry_value e) else spn_pkg_config_find es name)"

definition spn_when_env_from_profile :: "spn_profile_info_t \<Rightarrow> spn_when_env_t option" where
  "spn_when_env_from_profile profile =
     spn_when_env_set_facts spn_when_env_init (spn_profile_facts profile)"

fun spn_when_env_add_options ::
    "spn_when_env_t \<Rightarrow> spn_resolved_option_t list \<Rightarrow> spn_when_env_t" where
  "spn_when_env_add_options env [] = env"
| "spn_when_env_add_options env (r # rs) =
    (if value_kind (resolved_value r) = SPN_OPTION_VALUE_NONE then spn_when_env_add_options env rs
     else spn_when_env_add_options
            (spn_when_env_set env (resolved_name r) (resolved_value r)) rs)"

section \<open>Claims\<close>

record option_set_t =
  oset_clauses :: "spn_when_t option"
  oset_setter :: spn_option_setter_t
  oset_defaults_declined :: bool

definition find_set ::
    "spn_resolved_pkg_t \<Rightarrow> spn_profile_info_t \<Rightarrow> spn_pkg_config_entry_t list \<Rightarrow> option_set_t" where
  "find_set pkg profile root_config =
    (let is_root = (pkg_source pkg = SPN_PKG_SOURCE_ROOT);
         config = spn_pkg_config_find root_config (pkg_name pkg)
     in \<lparr>oset_clauses =
          (if is_root then Some (profile_options profile)
           else map_option config_options config),
         oset_setter =
          \<lparr>setter_kind =
             (if is_root then SPN_OPTION_SETTER_PROFILE else SPN_OPTION_SETTER_ROOT_MANIFEST),
           setter_name = []\<rparr>,
         oset_defaults_declined =
          (case config of None \<Rightarrow> False | Some c \<Rightarrow> config_defaults_declined c)\<rparr>)"

record claim_t =
  claim_option :: string
  claim_setter :: spn_option_setter_t
  claim_value :: spn_option_value_t
  claim_negated :: bool

definition setter_consumer :: "string \<Rightarrow> spn_option_setter_t" where
  "setter_consumer name = \<lparr>setter_kind = SPN_OPTION_SETTER_CONSUMER, setter_name = name\<rparr>"

definition setter_zero :: spn_option_setter_t where
  "setter_zero = \<lparr>setter_kind = SPN_OPTION_SETTER_NONE, setter_name = []\<rparr>"

fun gather_claims ::
    "spn_resolved_pkg_t \<Rightarrow> spn_when_clause_t list \<Rightarrow> spn_option_setter_t \<Rightarrow>
     claim_t list \<times> spn_option_violation_t list \<Rightarrow> claim_t list \<times> spn_option_violation_t list" where
  "gather_claims pkg [] setter acc = acc"
| "gather_claims pkg (clause # cs) setter (claims, violations) =
    (case ht_get (pkg_options pkg) (clause_key clause) of
       None \<Rightarrow>
         gather_claims pkg cs setter (claims, violations @
           [\<lparr>viol_kind = SPN_OPTION_ERR_UNDECLARED, viol_pkg = pkg_name pkg,
             viol_option = clause_key clause, viol_value = OptNone,
             viol_a = setter, viol_b = setter_zero\<rparr>])
     | Some option \<Rightarrow>
         if \<not> spn_option_value_ok option (clause_value clause) then
           gather_claims pkg cs setter (claims, violations @
             [\<lparr>viol_kind = SPN_OPTION_ERR_BAD_VALUE, viol_pkg = pkg_name pkg,
               viol_option = clause_key clause, viol_value = clause_value clause,
               viol_a = setter, viol_b = setter_zero\<rparr>])
         else if clause_negated clause \<and> setter_kind setter \<noteq> SPN_OPTION_SETTER_CONSUMER then
           gather_claims pkg cs setter (claims, violations)
         else
           gather_claims pkg cs setter (claims @
             [\<lparr>claim_option = clause_key clause, claim_setter = setter,
               claim_value = clause_value clause, claim_negated = clause_negated clause\<rparr>],
             violations))"

fun gather_requests ::
    "spn_resolved_pkg_t \<Rightarrow> spn_option_request_t list \<Rightarrow>
     claim_t list \<times> spn_option_violation_t list \<Rightarrow> claim_t list \<times> spn_option_violation_t list" where
  "gather_requests pkg [] acc = acc"
| "gather_requests pkg (r # rs) acc =
     gather_requests pkg rs
       (gather_claims pkg (when_clauses (request_options r))
         (setter_consumer (request_consumer r)) acc)"

section \<open>The value of one option\<close>

record settle_t =
  st_value :: spn_option_value_t
  st_setter :: spn_option_setter_t
  st_settled :: bool
  st_union :: bool
  st_last :: "claim_t option"
  st_violations :: "spn_option_violation_t list"

fun settle_claims :: "spn_resolved_pkg_t \<Rightarrow> spn_option_info_t \<Rightarrow> claim_t list \<Rightarrow> settle_t \<Rightarrow> settle_t" where
  "settle_claims pkg option [] st = st"
| "settle_claims pkg option (claim # cs) st =
    (if claim_option claim \<noteq> option_name option \<or> claim_negated claim then
       settle_claims pkg option cs st
     else if setter_kind (claim_setter claim) \<noteq> SPN_OPTION_SETTER_CONSUMER then
       st\<lparr>st_value := claim_value claim, st_setter := claim_setter claim, st_settled := True\<rparr>
     else if option_additive option then
       (let value_union = (st_union st \<or> claim_value claim = OptBool True) in
        settle_claims pkg option cs
          (st\<lparr>st_union := value_union,
              st_value := spn_option_value_bool value_union,
              st_setter := \<lparr>setter_kind = SPN_OPTION_SETTER_UNION, setter_name = []\<rparr>,
              st_settled := True\<rparr>))
     else
       (let conflict =
          (case st_last st of
             None \<Rightarrow> []
           | Some prev \<Rightarrow>
              if spn_option_value_equal (claim_value prev) (claim_value claim) then []
              else [\<lparr>viol_kind = SPN_OPTION_ERR_CONFLICT, viol_pkg = pkg_name pkg,
                     viol_option = option_name option, viol_value = claim_value claim,
                     viol_a = claim_setter prev, viol_b = claim_setter claim\<rparr>])
        in settle_claims pkg option cs
          (st\<lparr>st_violations := st_violations st @ conflict,
              st_value := claim_value claim,
              st_setter := claim_setter claim,
              st_settled := True,
              st_last := Some claim\<rparr>)))"

definition veto_claims ::
    "spn_resolved_pkg_t \<Rightarrow> spn_option_info_t \<Rightarrow> spn_option_value_t \<Rightarrow> spn_option_setter_t \<Rightarrow>
     claim_t list \<Rightarrow> spn_option_violation_t list" where
  "veto_claims pkg option v setter claims =
     map (\<lambda>claim. \<lparr>viol_kind = SPN_OPTION_ERR_VETO, viol_pkg = pkg_name pkg,
                    viol_option = option_name option, viol_value = claim_value claim,
                    viol_a = claim_setter claim, viol_b = setter\<rparr>)
       (filter (\<lambda>claim. claim_option claim = option_name option \<and> claim_negated claim \<and>
                        spn_option_value_equal v (claim_value claim)) claims)"

definition option_fallback ::
    "bool \<Rightarrow> spn_option_info_t \<Rightarrow> spn_when_env_t \<Rightarrow> spn_option_value_t" where
  "option_fallback declined option env =
    (let fallback = (if \<not> declined then spn_option_resolve option env else OptNone) in
     if value_kind fallback = SPN_OPTION_VALUE_NONE \<and> option_type option = SPN_OPTION_TYPE_BOOL
     then spn_option_value_bool False else fallback)"

text \<open>The body of the loop over the options: the environment, the violations and the
  resolved options so far.\<close>

definition merge_option ::
    "spn_resolved_pkg_t \<Rightarrow> bool \<Rightarrow> claim_t list \<Rightarrow> spn_option_info_t \<Rightarrow>
     spn_when_env_t \<times> spn_merged_options_t \<Rightarrow> spn_when_env_t \<times> spn_merged_options_t" where
  "merge_option pkg declined claims option acc =
    (let (env, merged) = acc;
         fallback = option_fallback declined option env;
         st = settle_claims pkg option claims
                \<lparr>st_value = OptNone,
                 st_setter = \<lparr>setter_kind = SPN_OPTION_SETTER_DEFAULT, setter_name = []\<rparr>,
                 st_settled = False, st_union = False, st_last = None,
                 st_violations = merged_violations merged\<rparr>;
         v = (if st_settled st then st_value st else fallback);
         missing =
           (if value_kind v = SPN_OPTION_VALUE_NONE then
              [\<lparr>viol_kind = SPN_OPTION_ERR_NO_VALUE, viol_pkg = pkg_name pkg,
                viol_option = option_name option, viol_value = OptNone,
                viol_a = setter_zero, viol_b = setter_zero\<rparr>]
            else []);
         vetoes = veto_claims pkg option v (st_setter st) claims;
         env' = (if value_kind v \<noteq> SPN_OPTION_VALUE_NONE
                 then spn_when_env_set env (option_name option) v else env)
     in (env',
         \<lparr>merged_options = merged_options merged @
            [\<lparr>resolved_name = option_name option, resolved_value = v,
              resolved_setter = st_setter st,
              resolved_is_default = spn_option_value_equal v fallback\<rparr>],
          merged_violations = st_violations st @ missing @ vetoes\<rparr>))"

fun merge_options ::
    "spn_resolved_pkg_t \<Rightarrow> bool \<Rightarrow> claim_t list \<Rightarrow> spn_option_info_t list \<Rightarrow>
     spn_when_env_t \<times> spn_merged_options_t \<Rightarrow> spn_when_env_t \<times> spn_merged_options_t" where
  "merge_options pkg declined claims [] acc = acc"
| "merge_options pkg declined claims (option # os) acc =
     merge_options pkg declined claims os (merge_option pkg declined claims option acc)"

section \<open>Merging\<close>

definition option_claims ::
    "spn_resolved_pkg_t \<Rightarrow> option_set_t \<Rightarrow> spn_option_request_t list \<Rightarrow>
     claim_t list \<times> spn_option_violation_t list" where
  "option_claims pkg oset requests =
    (let acc =
       (case oset_clauses oset of
          None \<Rightarrow> ([], [])
        | Some clauses \<Rightarrow> gather_claims pkg (when_clauses clauses) (oset_setter oset) ([], []))
     in gather_requests pkg requests acc)"

definition spn_pkg_options_merge ::
    "spn_resolved_pkg_t \<Rightarrow> spn_profile_info_t \<Rightarrow> spn_pkg_config_entry_t list \<Rightarrow>
     spn_option_request_t list \<Rightarrow> spn_merged_options_t option" where
  "spn_pkg_options_merge pkg profile root_config requests =
    (let oset = find_set pkg profile root_config;
         (claims, violations) = option_claims pkg oset requests
     in case spn_when_env_from_profile profile of
          None \<Rightarrow> None
        | Some env \<Rightarrow>
            Some (snd (merge_options pkg (oset_defaults_declined oset) claims
                    (map snd (pkg_options pkg))
                    (env, \<lparr>merged_options = [], merged_violations = violations\<rparr>))))"

definition spn_pkg_options_env ::
    "spn_resolved_pkg_t \<Rightarrow> spn_profile_info_t \<Rightarrow> spn_pkg_config_entry_t list \<Rightarrow>
     spn_option_request_t list \<Rightarrow> spn_when_env_t option" where
  "spn_pkg_options_env pkg profile root_config requests =
    (case spn_pkg_options_merge pkg profile root_config requests of
       None \<Rightarrow> None
     | Some merged \<Rightarrow>
        (case spn_when_env_from_profile profile of
           None \<Rightarrow> None
         | Some env \<Rightarrow> Some (spn_when_env_add_options env (merged_options merged))))"

end
