(* ===== verification/Options_Facts.thy ===== *)
theory Options_Facts
  imports Options
begin

text \<open>
  The lemmas behind the option properties: where a claim comes from, the value the claims
  settle on as a specification without loop state, and the frame of the loop over the options.
\<close>

section \<open>Gathering\<close>

definition clause_claim :: "spn_option_setter_t \<Rightarrow> spn_when_clause_t \<Rightarrow> claim_t" where
  "clause_claim setter c =
     \<lparr>claim_option = clause_key c, claim_setter = setter,
      claim_value = clause_value c, claim_negated = clause_negated c\<rparr>"

definition clause_accepted :: "spn_resolved_pkg_t \<Rightarrow> spn_option_setter_t \<Rightarrow> spn_when_clause_t \<Rightarrow> bool" where
  "clause_accepted pkg setter c \<longleftrightarrow>
     (\<exists>o'. ht_get (pkg_options pkg) (clause_key c) = Some o' \<and>
           spn_option_value_ok o' (clause_value c)) \<and>
     \<not> (clause_negated c \<and> setter_kind setter \<noteq> SPN_OPTION_SETTER_CONSUMER)"

definition clause_declared :: "spn_resolved_pkg_t \<Rightarrow> spn_when_clause_t \<Rightarrow> bool" where
  "clause_declared pkg c \<longleftrightarrow>
     (\<exists>o'. ht_get (pkg_options pkg) (clause_key c) = Some o' \<and>
           spn_option_value_ok o' (clause_value c))"

lemma gather_claims_fst:
  "fst (gather_claims pkg cs setter acc) =
     fst acc @ map (clause_claim setter) (filter (clause_accepted pkg setter) cs)"
  by (induction pkg cs setter acc rule: gather_claims.induct)
    (auto simp: clause_accepted_def clause_claim_def split: option.splits)

lemma gather_claims_snd:
  "\<exists>vs. snd (gather_claims pkg cs setter acc) = snd acc @ vs \<and>
     (vs = [] \<longleftrightarrow> (\<forall>c \<in> set cs. clause_declared pkg c))"
proof (induction pkg cs setter acc rule: gather_claims.induct)
  case (2 pkg clause cs setter claims violations)
  show ?case
  proof (cases "ht_get (pkg_options pkg) (clause_key clause)")
    case None
    then show ?thesis using 2(1)[OF None] by (auto simp: clause_declared_def)
  next
    case (Some option)
    then show ?thesis using 2(2,3,4)[OF Some]
      by (cases "spn_option_value_ok option (clause_value clause)") (auto simp: clause_declared_def)
  qed
qed (auto simp: clause_declared_def)

definition request_claims :: "spn_resolved_pkg_t \<Rightarrow> spn_option_request_t \<Rightarrow> claim_t list" where
  "request_claims pkg r =
     map (clause_claim (setter_consumer (request_consumer r)))
       (filter (clause_accepted pkg (setter_consumer (request_consumer r)))
          (when_clauses (request_options r)))"

lemma gather_requests_fst:
  "fst (gather_requests pkg rs acc) = fst acc @ concat (map (request_claims pkg) rs)"
  by (induction pkg rs acc rule: gather_requests.induct)
    (simp_all add: gather_claims_fst request_claims_def)

lemma gather_requests_snd:
  "\<exists>vs. snd (gather_requests pkg rs acc) = snd acc @ vs \<and>
     (vs = [] \<longleftrightarrow> (\<forall>r \<in> set rs. \<forall>c \<in> set (when_clauses (request_options r)). clause_declared pkg c))"
proof (induction pkg rs acc rule: gather_requests.induct)
  case (2 pkg r rs acc)
  then show ?case
    using gather_claims_snd[of pkg "when_clauses (request_options r)"
        "setter_consumer (request_consumer r)" acc] by fastforce
qed simp

definition set_claims :: "spn_resolved_pkg_t \<Rightarrow> option_set_t \<Rightarrow> claim_t list" where
  "set_claims pkg oset =
     (case oset_clauses oset of None \<Rightarrow> []
      | Some w \<Rightarrow> map (clause_claim (oset_setter oset))
                   (filter (clause_accepted pkg (oset_setter oset)) (when_clauses w)))"

lemma option_claims_fst:
  "fst (option_claims pkg oset rs) = set_claims pkg oset @ concat (map (request_claims pkg) rs)"
  by (simp add: option_claims_def gather_requests_fst gather_claims_fst set_claims_def Let_def
      split: option.splits)

lemma option_claims_snd:
  assumes "snd (option_claims pkg oset rs) = []" "r \<in> set rs" "c \<in> set (when_clauses (request_options r))"
  shows "clause_declared pkg c"
  using assms gather_requests_snd [of pkg rs "case oset_clauses oset of None \<Rightarrow> ([], []) |
    Some w \<Rightarrow> gather_claims pkg (when_clauses w) (oset_setter oset) ([], [])"]
  by (auto simp: option_claims_def Let_def)

lemma find_set_setter:
  "setter_kind (oset_setter (find_set pkg profile config)) \<in>
     {SPN_OPTION_SETTER_PROFILE, SPN_OPTION_SETTER_ROOT_MANIFEST}"
  by (simp add: find_set_def Let_def)

section \<open>The settled value\<close>

text \<open>The positive claims on an option, in order.\<close>

definition claims_on :: "spn_option_info_t \<Rightarrow> claim_t list \<Rightarrow> claim_t list" where
  "claims_on option claims =
     filter (\<lambda>c. claim_option c = option_name option \<and> \<not> claim_negated c) claims"

definition override_claim :: "claim_t \<Rightarrow> bool" where
  "override_claim c \<longleftrightarrow> setter_kind (claim_setter c) \<noteq> SPN_OPTION_SETTER_CONSUMER"

text \<open>The value rule: the first claim of the profile or root manifest, else the default
  when nothing was claimed, else the disjunction for an additive option, else the last claim.\<close>

definition settled_value ::
    "spn_option_info_t \<Rightarrow> claim_t list \<Rightarrow> spn_option_value_t \<Rightarrow> spn_option_value_t" where
  "settled_value option pos fallback =
     (case find override_claim pos of
        Some c \<Rightarrow> claim_value c
      | None \<Rightarrow>
         if pos = [] then fallback
         else if option_additive option then OptBool (\<exists>c \<in> set pos. claim_value c = OptBool True)
         else claim_value (last pos))"

definition settled_setter :: "spn_option_info_t \<Rightarrow> claim_t list \<Rightarrow> spn_option_setter_t" where
  "settled_setter option pos =
     (case find override_claim pos of
        Some c \<Rightarrow> claim_setter c
      | None \<Rightarrow>
         if pos = [] then \<lparr>setter_kind = SPN_OPTION_SETTER_DEFAULT, setter_name = []\<rparr>
         else if option_additive option then \<lparr>setter_kind = SPN_OPTION_SETTER_UNION, setter_name = []\<rparr>
         else claim_setter (last pos))"

definition agree :: "claim_t list \<Rightarrow> bool" where
  "agree pos \<longleftrightarrow> (\<forall>c \<in> set pos. \<forall>d \<in> set pos. claim_value c = claim_value d)"

lemma settle_claims_filter:
  "settle_claims pkg option claims st = settle_claims pkg option (claims_on option claims) st"
  by (induction pkg option claims st rule: settle_claims.induct)
    (auto simp: claims_on_def Let_def)

text \<open>The facts below are about a list of positive claims on the option.\<close>

lemma settle_override:
  "\<forall>c \<in> set pos. claim_option c = option_name option \<and> \<not> claim_negated c \<Longrightarrow>
   find override_claim pos = Some c \<Longrightarrow>
   st_value (settle_claims pkg option pos st) = claim_value c \<and>
   st_setter (settle_claims pkg option pos st) = claim_setter c \<and>
   st_settled (settle_claims pkg option pos st)"
  by (induction pkg option pos st rule: settle_claims.induct)
    (auto simp: override_claim_def Let_def split: if_splits)

lemma settle_additive:
  "\<forall>c \<in> set pos. claim_option c = option_name option \<and> \<not> claim_negated c \<Longrightarrow>
   find override_claim pos = None \<Longrightarrow> option_additive option \<Longrightarrow> pos \<noteq> [] \<Longrightarrow>
   st_value (settle_claims pkg option pos st) =
     OptBool (st_union st \<or> (\<exists>c \<in> set pos. claim_value c = OptBool True)) \<and>
   st_setter (settle_claims pkg option pos st) =
     \<lparr>setter_kind = SPN_OPTION_SETTER_UNION, setter_name = []\<rparr> \<and>
   st_settled (settle_claims pkg option pos st)"
proof (induction pkg option pos st rule: settle_claims.induct)
  case (2 pkg option claim cs st)
  then show ?case
    by (cases "cs = []") (auto simp: override_claim_def Let_def split: if_splits)
qed simp

lemma settle_last:
  "\<forall>c \<in> set pos. claim_option c = option_name option \<and> \<not> claim_negated c \<Longrightarrow>
   find override_claim pos = None \<Longrightarrow> \<not> option_additive option \<Longrightarrow> pos \<noteq> [] \<Longrightarrow>
   st_value (settle_claims pkg option pos st) = claim_value (last pos) \<and>
   st_setter (settle_claims pkg option pos st) = claim_setter (last pos) \<and>
   st_settled (settle_claims pkg option pos st)"
proof (induction pkg option pos st rule: settle_claims.induct)
  case (2 pkg option claim cs st)
  then show ?case
    by (cases "cs = []") (auto simp: override_claim_def Let_def split: if_splits)
qed simp

text \<open>The violations only grow, and a run without overrides that adds none means that the
  claims agree with each other and with the last one seen before.\<close>

lemma settle_violations_grow:
  "\<exists>vs. st_violations (settle_claims pkg option pos st) = st_violations st @ vs"
  by (induction pkg option pos st rule: settle_claims.induct) (auto simp: Let_def)

lemma settle_agree:
  "\<forall>c \<in> set pos. claim_option c = option_name option \<and> \<not> claim_negated c \<Longrightarrow>
   find override_claim pos = None \<Longrightarrow> \<not> option_additive option \<Longrightarrow>
   (st_violations (settle_claims pkg option pos st) = st_violations st) =
   agree ((case st_last st of None \<Rightarrow> [] | Some c \<Rightarrow> [c]) @ pos)"
proof (induction pkg option pos st rule: settle_claims.induct)
  case (2 pkg option claim cs st)
  let ?v = "case st_last st of
             None \<Rightarrow> []
           | Some prev \<Rightarrow>
              if spn_option_value_equal (claim_value prev) (claim_value claim) then []
              else [\<lparr>viol_kind = SPN_OPTION_ERR_CONFLICT, viol_pkg = pkg_name pkg,
                     viol_option = option_name option, viol_value = claim_value claim,
                     viol_a = claim_setter prev, viol_b = claim_setter claim\<rparr>]"
  let ?st = "st\<lparr>st_violations := st_violations st @ ?v, st_value := claim_value claim,
       st_setter := claim_setter claim, st_settled := True, st_last := Some claim\<rparr>"
  have step: "settle_claims pkg option (claim # cs) st = settle_claims pkg option cs ?st"
    using 2(4-6) by (simp add: override_claim_def Let_def split: if_splits option.splits)
  have ih: "(st_violations (settle_claims pkg option cs ?st) = st_violations ?st) = agree (claim # cs)"
    using 2 by (simp add: override_claim_def Let_def split: if_splits)
  obtain vs where grow: "st_violations (settle_claims pkg option cs ?st) = st_violations ?st @ vs"
    using settle_violations_grow by blast
  show ?case
  proof (cases "st_last st")
    case None
    then show ?thesis using ih unfolding step by simp
  next
    case (Some prev)
    then show ?thesis using ih grow unfolding step by (auto simp: agree_def)
  qed
next
  case (1 pkg option st)
  then show ?case by (cases "st_last st") (simp_all add: agree_def)
qed

lemma claims_on_props: "c \<in> set (claims_on option claims) \<Longrightarrow>
   claim_option c = option_name option \<and> \<not> claim_negated c \<and> c \<in> set claims"
  by (simp add: claims_on_def)

definition settle_init :: "spn_option_violation_t list \<Rightarrow> settle_t" where
  "settle_init vs =
     \<lparr>st_value = OptNone,
      st_setter = \<lparr>setter_kind = SPN_OPTION_SETTER_DEFAULT, setter_name = []\<rparr>,
      st_settled = False, st_union = False, st_last = None, st_violations = vs\<rparr>"

lemma settle_init_value:
  "(if st_settled (settle_claims pkg option claims (settle_init vs))
    then st_value (settle_claims pkg option claims (settle_init vs)) else fallback) =
   settled_value option (claims_on option claims) fallback"
proof -
  let ?pos = "claims_on option claims"
  have pos: "\<forall>c \<in> set ?pos. claim_option c = option_name option \<and> \<not> claim_negated c"
    by (simp add: claims_on_def)
  show ?thesis
    unfolding settle_claims_filter [of pkg option claims]
    using settle_override [OF pos, of _ pkg "settle_init vs"]
      settle_additive [OF pos, of pkg "settle_init vs"]
      settle_last [OF pos, of pkg "settle_init vs"]
    by (cases "?pos = []") (auto simp: settled_value_def settle_init_def split: option.splits)
qed

lemma settle_init_setter:
  "st_setter (settle_claims pkg option claims (settle_init vs)) =
   settled_setter option (claims_on option claims)"
proof -
  let ?pos = "claims_on option claims"
  have pos: "\<forall>c \<in> set ?pos. claim_option c = option_name option \<and> \<not> claim_negated c"
    by (simp add: claims_on_def)
  show ?thesis
    unfolding settle_claims_filter [of pkg option claims]
    using settle_override [OF pos, of _ pkg "settle_init vs"]
      settle_additive [OF pos, of pkg "settle_init vs"]
      settle_last [OF pos, of pkg "settle_init vs"]
    by (cases "?pos = []") (auto simp: settled_setter_def settle_init_def split: option.splits)
qed

section \<open>The loop over the options\<close>

lemma value_kind_none [simp]: "value_kind v = SPN_OPTION_VALUE_NONE \<longleftrightarrow> v = OptNone"
  by (cases v) simp_all

text \<open>The resolved option of one turn, and the conditions under which the turn adds no
  violation.\<close>

definition turn_result :: "bool \<Rightarrow> claim_t list \<Rightarrow> spn_option_info_t \<Rightarrow> spn_when_env_t \<Rightarrow> spn_resolved_option_t" where
  "turn_result declined claims option env =
     (let fallback = option_fallback declined option env;
          pos = claims_on option claims;
          v = settled_value option pos fallback
      in \<lparr>resolved_name = option_name option, resolved_value = v,
          resolved_setter = settled_setter option pos, resolved_is_default = (v = fallback)\<rparr>)"

definition turn_clean :: "claim_t list \<Rightarrow> spn_option_info_t \<Rightarrow> spn_option_value_t \<Rightarrow> bool" where
  "turn_clean claims option v \<longleftrightarrow>
     (find override_claim (claims_on option claims) = None \<longrightarrow>
        option_additive option \<or> agree (claims_on option claims)) \<and>
     v \<noteq> OptNone \<and>
     (\<forall>c \<in> set claims. claim_option c = option_name option \<and> claim_negated c \<longrightarrow> claim_value c \<noteq> v)"

lemma merge_option_eq:
  "merge_option pkg declined claims option (env, m) =
     (let r = turn_result declined claims option env;
          v = resolved_value r
      in (if v \<noteq> OptNone then spn_when_env_set env (option_name option) v else env,
          \<lparr>merged_options = merged_options m @ [r],
           merged_violations =
             st_violations (settle_claims pkg option claims (settle_init (merged_violations m))) @
             (if v = OptNone then
                [\<lparr>viol_kind = SPN_OPTION_ERR_NO_VALUE, viol_pkg = pkg_name pkg,
                  viol_option = option_name option, viol_value = OptNone,
                  viol_a = setter_zero, viol_b = setter_zero\<rparr>]
              else []) @
             veto_claims pkg option v (resolved_setter r) claims\<rparr>))"
  unfolding merge_option_def Let_def split_beta fst_conv snd_conv settle_init_def [symmetric]
    settle_init_value settle_init_setter
  by (simp add: turn_result_def Let_def)

lemma merge_option_turn:
  assumes "merge_option pkg declined claims option (env, m) = (env', m')"
  shows "merged_options m' = merged_options m @ [turn_result declined claims option env]"
    and "spn_when_env_add_options env (turn_result declined claims option env # rs) =
         spn_when_env_add_options env' rs"
    and "\<exists>vs. merged_violations m' = merged_violations m @ vs \<and>
            (vs = [] \<longrightarrow> turn_clean claims option (resolved_value (turn_result declined claims option env)))"
proof -
  let ?pos = "claims_on option claims"
  have pos: "\<forall>c \<in> set ?pos. claim_option c = option_name option \<and> \<not> claim_negated c"
    by (simp add: claims_on_def)
  let ?st = "settle_claims pkg option claims (settle_init (merged_violations m))"
  let ?v = "resolved_value (turn_result declined claims option env)"
  obtain vs where grow: "st_violations ?st = merged_violations m @ vs"
    using settle_violations_grow [of pkg option claims "settle_init (merged_violations m)"]
    by (auto simp: settle_init_def)
  have clean: "agree ?pos" if "vs = []" "find override_claim ?pos = None" "\<not> option_additive option"
    using settle_agree [OF pos that(2,3), of pkg "settle_init (merged_violations m)"] grow that(1)
    unfolding settle_claims_filter [of pkg option claims]
    by (simp add: settle_init_def)
  have m': "merged_violations m' = merged_violations m @ vs @
      (if ?v = OptNone then
         [\<lparr>viol_kind = SPN_OPTION_ERR_NO_VALUE, viol_pkg = pkg_name pkg,
           viol_option = option_name option, viol_value = OptNone,
           viol_a = setter_zero, viol_b = setter_zero\<rparr>]
       else []) @
      veto_claims pkg option ?v (resolved_setter (turn_result declined claims option env)) claims"
    and env': "env' = (if ?v \<noteq> OptNone then spn_when_env_set env (option_name option) ?v else env)"
    using assms unfolding merge_option_eq Let_def by (auto simp: grow)
  show "merged_options m' = merged_options m @ [turn_result declined claims option env]"
    using assms unfolding merge_option_eq Let_def by auto
  show "spn_when_env_add_options env (turn_result declined claims option env # rs) =
        spn_when_env_add_options env' rs"
    by (simp add: env' turn_result_def Let_def)
  show "\<exists>vs. merged_violations m' = merged_violations m @ vs \<and> (vs = [] \<longrightarrow> turn_clean claims option ?v)"
    unfolding m' turn_clean_def veto_claims_def
    by (rule exI, rule conjI, rule refl) (use clean in \<open>auto simp: filter_empty_conv\<close>)
qed

lemma merge_options_turns:
  "\<exists>rs vs. merged_options (snd (merge_options pkg declined claims os (env, m))) =
        merged_options m @ rs \<and>
      merged_violations (snd (merge_options pkg declined claims os (env, m))) =
        merged_violations m @ vs \<and>
      length rs = length os \<and>
      (\<forall>i < length os. rs ! i =
         turn_result declined claims (os ! i) (spn_when_env_add_options env (take i rs))) \<and>
      (vs = [] \<longrightarrow> (\<forall>i < length os. turn_clean claims (os ! i) (resolved_value (rs ! i))))"
proof (induction os arbitrary: env m)
  case (Cons o' os)
  let ?r = "turn_result declined claims o' env"
  obtain env' m' where step: "merge_option pkg declined claims o' (env, m) = (env', m')"
    by (cases "merge_option pkg declined claims o' (env, m)") auto
  note t = merge_option_turn [OF step]
  obtain rs vs where ih:
    "merged_options (snd (merge_options pkg declined claims os (env', m'))) = merged_options m' @ rs"
    "merged_violations (snd (merge_options pkg declined claims os (env', m'))) = merged_violations m' @ vs"
    "length rs = length os"
    "\<forall>i < length os. rs ! i =
       turn_result declined claims (os ! i) (spn_when_env_add_options env' (take i rs))"
    "vs = [] \<longrightarrow> (\<forall>i < length os. turn_clean claims (os ! i) (resolved_value (rs ! i)))"
    using Cons.IH [of env' m'] by blast
  obtain ws where ws: "merged_violations m' = merged_violations m @ ws"
    "ws = [] \<longrightarrow> turn_clean claims o' (resolved_value ?r)"
    using t(3) by blast
  have nth: "(?r # rs) ! i = turn_result declined claims ((o' # os) ! i)
      (spn_when_env_add_options env (take i (?r # rs)))" if "i < length (o' # os)" for i
    using that ih(4) by (cases i) (auto simp: t(2) simp del: spn_when_env_add_options.simps(2))
  have clean: "turn_clean claims ((o' # os) ! i) (resolved_value ((?r # rs) ! i))"
    if "ws @ vs = []" "i < length (o' # os)" for i
    using that ih(5) ws(2) by (cases i) auto
  show ?case
    by (rule exI [of _ "?r # rs"], rule exI [of _ "ws @ vs"])
      (use ih(1-3) ws(1) t(1) step nth clean in \<open>simp\<close>)
qed simp

end
