(* ===== verification/Options_Props.thy ===== *)
theory Options_Props
  imports Options_Facts
begin

text \<open>
  Properties of the merge of a package's options: the value rule, that a merge without
  violations honours every consumer's request, gives every option a value of its type and
  does not depend on the order of the requests, and that contradictory requests on an option
  that is not additive are reported.
\<close>

section \<open>The shape of a merge\<close>

abbreviation merge_claims ::
    "spn_resolved_pkg_t \<Rightarrow> spn_profile_info_t \<Rightarrow> spn_pkg_config_entry_t list \<Rightarrow>
     spn_option_request_t list \<Rightarrow> claim_t list" where
  "merge_claims pkg profile config requests \<equiv>
     fst (option_claims pkg (find_set pkg profile config) requests)"

text \<open>The option table of a package is an ordered map in which both the manifest loader and the index
  loader put an option under its name. The manifest loader (\<open>validate_options\<close>) also checks that the
  defaults of an option have its type and that only a boolean option is additive; the loader of an
  index release does not, so neither is assumed here.\<close>

definition option_names_ok :: "(string \<times> spn_option_info_t) list \<Rightarrow> bool" where
  "option_names_ok os \<longleftrightarrow> distinct (ht_keys os) \<and> (\<forall>(k, o') \<in> set os. option_name o' = k)"

lemma option_table_nth:
  assumes "option_names_ok os" "i < length os"
  shows "ht_get os (option_name (snd (os ! i))) = Some (snd (os ! i))"
    and "option_name (snd (os ! i)) = fst (os ! i)"
proof -
  have "(fst (os ! i), snd (os ! i)) \<in> set os" using assms(2) by simp
  then show name: "option_name (snd (os ! i)) = fst (os ! i)"
    using assms(1) by (force simp: option_names_ok_def)
  from name assms show "ht_get os (option_name (snd (os ! i))) = Some (snd (os ! i))"
    by (simp add: option_names_ok_def)
qed

lemma option_table_index:
  assumes "option_names_ok os" "ht_get os k = Some o'"
  obtains i where "i < length os" "snd (os ! i) = o'" "option_name o' = k"
proof -
  have "(k, o') \<in> set os" using assms(2) by (rule map_of_SomeD)
  then obtain i where "i < length os" "os ! i = (k, o')" by (auto simp: in_set_conv_nth)
  then show ?thesis using that[of i] option_table_nth(2)[OF assms(1), of i] by simp
qed

lemma merge_shape:
  assumes "spn_pkg_options_merge pkg profile config requests = Some m"
    and "spn_when_env_from_profile profile = Some env"
  shows "length (merged_options m) = length (pkg_options pkg)"
    and "i < length (pkg_options pkg) \<Longrightarrow>
      merged_options m ! i =
        turn_result (oset_defaults_declined (find_set pkg profile config))
          (merge_claims pkg profile config requests) (snd (pkg_options pkg ! i))
          (spn_when_env_add_options env (take i (merged_options m)))"
    and "merged_violations m = [] \<Longrightarrow> i < length (pkg_options pkg) \<Longrightarrow>
      turn_clean (merge_claims pkg profile config requests) (snd (pkg_options pkg ! i))
        (resolved_value (merged_options m ! i))"
    and "merged_violations m = [] \<Longrightarrow>
      snd (option_claims pkg (find_set pkg profile config) requests) = []"
proof -
  let ?oset = "find_set pkg profile config"
  have m: "m = snd (merge_options pkg (oset_defaults_declined ?oset)
        (merge_claims pkg profile config requests) (map snd (pkg_options pkg))
        (env, \<lparr>merged_options = [], merged_violations = snd (option_claims pkg ?oset requests)\<rparr>))"
    using assms unfolding spn_pkg_options_merge_def Let_def split_beta by simp
  note turns = merge_options_turns [of pkg "oset_defaults_declined ?oset"
    "merge_claims pkg profile config requests" "map snd (pkg_options pkg)" env
    "\<lparr>merged_options = [], merged_violations = snd (option_claims pkg ?oset requests)\<rparr>",
    folded m]
  show "length (merged_options m) = length (pkg_options pkg)" using turns by auto
  show "i < length (pkg_options pkg) \<Longrightarrow>
      merged_options m ! i =
        turn_result (oset_defaults_declined ?oset)
          (merge_claims pkg profile config requests) (snd (pkg_options pkg ! i))
          (spn_when_env_add_options env (take i (merged_options m)))"
    using turns by auto
  show "merged_violations m = [] \<Longrightarrow> i < length (pkg_options pkg) \<Longrightarrow>
      turn_clean (merge_claims pkg profile config requests) (snd (pkg_options pkg ! i))
        (resolved_value (merged_options m ! i))"
    using turns by auto
  show "merged_violations m = [] \<Longrightarrow> snd (option_claims pkg ?oset requests) = []"
    using turns by auto
qed

lemma merge_env: "spn_pkg_options_merge pkg profile config requests = Some m \<Longrightarrow>
   \<exists>env. spn_when_env_from_profile profile = Some env"
  by (auto simp: spn_pkg_options_merge_def Let_def split_beta split: option.splits)

lemma merge_claims_cases:
  assumes "c \<in> set (merge_claims pkg profile config requests)"
  shows "spn_option_value_ok (the (ht_get (pkg_options pkg) (claim_option c))) (claim_value c)"
    and "override_claim c \<Longrightarrow> setter_kind (claim_setter c) \<in>
      {SPN_OPTION_SETTER_PROFILE, SPN_OPTION_SETTER_ROOT_MANIFEST}"
  using assms find_set_setter [of pkg profile config]
  by (auto simp: option_claims_fst set_claims_def request_claims_def clause_accepted_def
      clause_claim_def override_claim_def setter_consumer_def split: option.splits)

lemma request_claim:
  assumes "r \<in> set requests" "c \<in> set (when_clauses (request_options r))" "clause_declared pkg c"
  shows "clause_claim (setter_consumer (request_consumer r)) c \<in>
    set (merge_claims pkg profile config requests)"
  using assms
  by (auto simp: option_claims_fst request_claims_def clause_accepted_def clause_declared_def
      setter_consumer_def)

section \<open>The value rule\<close>

text \<open>C35: the merge resolves every declared option, in order, under its name. Its value is
  the first value claimed by the profile or the root manifest; without one, the default when no
  consumer asked, the disjunction of the requests for an additive option, and the last request
  otherwise. The default is evaluated in the environment of the profile's facts extended with
  the options resolved before.\<close>

theorem options_value_rule:
  assumes "spn_pkg_options_merge pkg profile config requests = Some m"
    and "spn_when_env_from_profile profile = Some env"
    and "i < length (pkg_options pkg)"
  shows "length (merged_options m) = length (pkg_options pkg) \<and>
    (let option = snd (pkg_options pkg ! i);
         fallback = option_fallback (oset_defaults_declined (find_set pkg profile config)) option
                      (spn_when_env_add_options env (take i (merged_options m)));
         pos = claims_on option (fst (option_claims pkg (find_set pkg profile config) requests))
     in merged_options m ! i =
          \<lparr>resolved_name = option_name option,
           resolved_value = settled_value option pos fallback,
           resolved_setter = settled_setter option pos,
           resolved_is_default = (settled_value option pos fallback = fallback)\<rparr>)"
  using merge_shape [OF assms(1,2)] assms(3) by (simp add: turn_result_def Let_def)

section \<open>Requests are honoured\<close>

text \<open>C8: when a merge reports no violation, every clause of every consumer's request
  holds of the resolved value, a negated one by differing from it. The only exceptions are an
  option the profile or the root manifest sets, and an additive option, whose value is the union of
  its requests: for a boolean one, a request for false does not hold when another one turned it on;
  for one that is not boolean, which the manifest loader refuses and the index loader accepts, the
  union ignores the requests. The table of the options has each option once, under its name.\<close>

theorem options_requests_honoured:
  assumes merge: "spn_pkg_options_merge pkg profile config requests = Some m"
    and clean: "merged_violations m = []"
    and ok: "option_names_ok (pkg_options pkg)"
    and r: "r \<in> set requests" and c: "c \<in> set (when_clauses (request_options r))"
  shows "\<exists>o' ro. ht_get (pkg_options pkg) (clause_key c) = Some o' \<and>
    ro \<in> set (merged_options m) \<and> resolved_name ro = clause_key c \<and>
    (if clause_negated c then resolved_value ro \<noteq> clause_value c
     else resolved_value ro = clause_value c \<or>
       setter_kind (resolved_setter ro) \<in> {SPN_OPTION_SETTER_PROFILE, SPN_OPTION_SETTER_ROOT_MANIFEST} \<or>
       setter_kind (resolved_setter ro) = SPN_OPTION_SETTER_UNION \<and> option_additive o' \<and>
         (option_type o' = SPN_OPTION_TYPE_BOOL \<longrightarrow>
            clause_value c = OptBool False \<and> resolved_value ro = OptBool True))"
proof -
  obtain env where env: "spn_when_env_from_profile profile = Some env" using merge_env[OF merge] ..
  note shape = merge_shape [OF merge env]
  let ?claims = "merge_claims pkg profile config requests"
  let ?c = "clause_claim (setter_consumer (request_consumer r)) c"
  have decl: "clause_declared pkg c" by (rule option_claims_snd [OF shape(4)[OF clean] r c])
  then obtain o' where o': "ht_get (pkg_options pkg) (clause_key c) = Some o'"
    "spn_option_value_ok o' (clause_value c)" by (auto simp: clause_declared_def)
  obtain i where i: "i < length (pkg_options pkg)" "snd (pkg_options pkg ! i) = o'"
    "option_name o' = clause_key c" by (rule option_table_index [OF ok o'(1)])
  let ?ro = "merged_options m ! i" and ?pos = "claims_on o' ?claims"
  have ro: "?ro \<in> set (merged_options m)" using i(1) shape(1) by simp
  have name: "resolved_name ?ro = clause_key c"
    using shape(2)[OF i(1)] i by (simp add: turn_result_def Let_def)
  have turn: "turn_clean ?claims o' (resolved_value ?ro)" using shape(3)[OF clean i(1)] i(2) by simp
  have claim: "?c \<in> set ?claims" by (rule request_claim [OF r c decl])
  show ?thesis
  proof (cases "clause_negated c")
    case True
    then have "resolved_value ?ro \<noteq> clause_value c"
      using turn claim i(3) by (auto simp: turn_clean_def clause_claim_def)
    with True name ro o'(1) show ?thesis by auto
  next
    case False
    have pos: "?c \<in> set ?pos" using claim False i(3) by (simp add: claims_on_def clause_claim_def)
    obtain fb where v: "resolved_value ?ro = settled_value o' ?pos fb"
      and s: "resolved_setter ?ro = settled_setter o' ?pos"
      using shape(2)[OF i(1)] i(2) by (simp add: turn_result_def Let_def)
    have cv: "claim_value ?c = clause_value c" by (simp add: clause_claim_def)
    have "resolved_value ?ro = clause_value c \<or>
       setter_kind (resolved_setter ?ro) \<in> {SPN_OPTION_SETTER_PROFILE, SPN_OPTION_SETTER_ROOT_MANIFEST} \<or>
       setter_kind (resolved_setter ?ro) = SPN_OPTION_SETTER_UNION \<and> option_additive o' \<and>
         (option_type o' = SPN_OPTION_TYPE_BOOL \<longrightarrow>
            clause_value c = OptBool False \<and> resolved_value ?ro = OptBool True)"
    proof (cases "find override_claim ?pos")
      case (Some d)
      then have "d \<in> set ?pos" "override_claim d"
        unfolding find_Some_iff using nth_mem by blast+
      then have "d \<in> set ?claims" "override_claim d" by (simp_all add: claims_on_def)
      from merge_claims_cases(2)[OF this] show ?thesis using s Some
        by (simp add: settled_setter_def)
    next
      case None
      show ?thesis
      proof (cases "option_additive o'")
        case True
        have "?pos \<noteq> []" using pos by auto
        then have union: "resolved_value ?ro = OptBool (\<exists>c \<in> set ?pos. claim_value c = OptBool True)"
          "setter_kind (resolved_setter ?ro) = SPN_OPTION_SETTER_UNION"
          using v s None True by (simp_all add: settled_value_def settled_setter_def)
        have "clause_value c = OptBool False \<and> resolved_value ?ro = OptBool True"
          if bool: "option_type o' = SPN_OPTION_TYPE_BOOL" and differs: "resolved_value ?ro \<noteq> clause_value c"
        proof -
          obtain b where b: "clause_value c = OptBool b"
            using o'(2) bool by (cases "clause_value c") (auto simp: spn_option_value_ok_def)
          moreover have "b \<Longrightarrow> \<exists>c \<in> set ?pos. claim_value c = OptBool True"
            using pos cv b by metis
          ultimately show ?thesis using union(1) differs by (cases b) auto
        qed
        then show ?thesis using union(2) True by blast
      next
        case False
        then have "agree ?pos" using turn None by (simp add: turn_clean_def)
        then have "claim_value (last ?pos) = claim_value ?c"
          using pos unfolding agree_def by (metis last_in_set list.set_cases neq_Nil_conv)
        moreover have "?pos \<noteq> []" using pos by auto
        ultimately show ?thesis using v cv None False by (simp add: settled_value_def)
      qed
    qed
    then show ?thesis using False name ro o'(1) by auto
  qed
qed

section \<open>Types\<close>

lemma fallback_cases:
  assumes "option_fallback declined option env \<noteq> OptNone"
  shows "spn_option_value_ok option (option_fallback declined option env) \<or>
    (\<exists>d \<in> set (option_defaults option). option_fallback declined option env = default_value d)"
proof (cases "spn_option_resolve option env = OptNone \<or> declined")
  case True
  then show ?thesis using assms
    by (auto simp: option_fallback_def Let_def spn_option_value_ok_def split: if_splits)
next
  case False
  then obtain d where "d \<in> set (option_defaults option)" "spn_option_resolve option env = default_value d"
    using resolve_defaults_cases [of "option_defaults option" env] by (auto simp: spn_option_resolve_def)
  then show ?thesis using False by (auto simp: option_fallback_def Let_def)
qed

text \<open>C36: when a merge reports no violation, every declared option has a value of its type (a
  boolean, or one of the listed values of an enumeration), with two exceptions: one of its declared
  defaults, which the merge takes as it is, and the union of the requests on an additive option that
  is not boolean. The manifest loader refuses defaults of another type and additive options that are
  not boolean, so there every value has its type; the index loader refuses neither. The table of the
  options has each option once, under its name.\<close>

theorem options_well_typed:
  assumes merge: "spn_pkg_options_merge pkg profile config requests = Some m"
    and clean: "merged_violations m = []"
    and ok: "option_names_ok (pkg_options pkg)"
    and i: "i < length (pkg_options pkg)"
  shows "let option = snd (pkg_options pkg ! i); ro = merged_options m ! i
    in (spn_option_value_ok option (resolved_value ro) \<or>
        setter_kind (resolved_setter ro) = SPN_OPTION_SETTER_DEFAULT \<and>
          (\<exists>d \<in> set (option_defaults option). resolved_value ro = default_value d) \<or>
        setter_kind (resolved_setter ro) = SPN_OPTION_SETTER_UNION \<and>
          option_additive option \<and> option_type option \<noteq> SPN_OPTION_TYPE_BOOL) \<and>
       ((\<forall>d \<in> set (option_defaults option). spn_option_value_ok option (default_value d)) \<and>
        (option_additive option \<longrightarrow> option_type option = SPN_OPTION_TYPE_BOOL) \<longrightarrow>
          spn_option_value_ok option (resolved_value ro))"
proof -
  obtain env where env: "spn_when_env_from_profile profile = Some env" using merge_env[OF merge] ..
  note shape = merge_shape [OF merge env]
  let ?o = "snd (pkg_options pkg ! i)" and ?ro = "merged_options m ! i"
  let ?v = "resolved_value ?ro"
  let ?pos = "claims_on ?o (merge_claims pkg profile config requests)"
  let ?fb = "option_fallback (oset_defaults_declined (find_set pkg profile config)) ?o
    (spn_when_env_add_options env (take i (merged_options m)))"
  have v: "?v = settled_value ?o ?pos ?fb" and s: "resolved_setter ?ro = settled_setter ?o ?pos"
    using shape(2)[OF i] by (simp_all add: turn_result_def Let_def)
  have some: "?v \<noteq> OptNone" using shape(3)[OF clean i] by (simp add: turn_clean_def)
  have claim: "spn_option_value_ok ?o (claim_value c)" if "c \<in> set ?pos" for c
    using merge_claims_cases(1) [of c pkg profile config requests] claims_on_props [OF that]
      option_table_nth(1)[OF ok i] by simp
  consider (override) c where "find override_claim ?pos = Some c"
    | (none) "find override_claim ?pos = None" "?pos = []"
    | (union) "find override_claim ?pos = None" "?pos \<noteq> []" "option_additive ?o"
    | (last) "find override_claim ?pos = None" "?pos \<noteq> []" "\<not> option_additive ?o"
    by (cases "find override_claim ?pos") auto
  then have "spn_option_value_ok ?o ?v \<or>
      setter_kind (resolved_setter ?ro) = SPN_OPTION_SETTER_DEFAULT \<and>
        (\<exists>d \<in> set (option_defaults ?o). ?v = default_value d) \<or>
      setter_kind (resolved_setter ?ro) = SPN_OPTION_SETTER_UNION \<and>
        option_additive ?o \<and> option_type ?o \<noteq> SPN_OPTION_TYPE_BOOL"
  proof cases
    case override
    then have "c \<in> set ?pos" unfolding find_Some_iff using nth_mem by blast
    then show ?thesis using claim v override by (simp add: settled_value_def)
  next
    case none
    then have "?v = ?fb" "setter_kind (resolved_setter ?ro) = SPN_OPTION_SETTER_DEFAULT"
      using v s by (simp_all add: settled_value_def settled_setter_def)
    then show ?thesis using fallback_cases some by metis
  next
    case union
    then have "setter_kind (resolved_setter ?ro) = SPN_OPTION_SETTER_UNION"
      using s by (simp add: settled_setter_def)
    moreover have "spn_option_value_ok ?o ?v" if "option_type ?o = SPN_OPTION_TYPE_BOOL"
      using that v union by (simp add: settled_value_def spn_option_value_ok_def)
    ultimately show ?thesis using union(3) by blast
  next
    case last
    then show ?thesis using v claim by (simp add: settled_value_def)
  qed
  then show ?thesis unfolding Let_def by metis
qed

section \<open>Order of the requests\<close>

lemma add_options_cong:
  "map (\<lambda>r. (resolved_name r, resolved_value r)) rs =
   map (\<lambda>r. (resolved_name r, resolved_value r)) rs' \<Longrightarrow>
   spn_when_env_add_options env rs = spn_when_env_add_options env rs'"
proof (induction env rs arbitrary: rs' rule: spn_when_env_add_options.induct)
  case (2 env r rs)
  then show ?case by (cases rs') auto
qed simp

lemma find_append: "find P (xs @ ys) = (case find P xs of None \<Rightarrow> find P ys | Some x \<Rightarrow> Some x)"
  by (induction xs) auto

lemma settled_value_order:
  assumes "set B = set B'" "\<forall>c \<in> set B. \<not> override_claim c"
    and "find override_claim (A @ B) = None \<Longrightarrow> \<not> option_additive option \<Longrightarrow> agree (A @ B)"
  shows "settled_value option (A @ B) fb = settled_value option (A @ B') fb"
proof -
  have none: "find override_claim B = None" "find override_claim B' = None"
    using assms(1,2) by (auto simp: find_None_iff)
  show ?thesis
  proof (cases "find override_claim A")
    case None
    have empty: "A @ B = [] \<longleftrightarrow> A @ B' = []" using assms(1) by auto
    have "claim_value (last (A @ B)) = claim_value (last (A @ B'))"
      if "\<not> option_additive option" "A @ B \<noteq> []"
    proof -
      have "last (A @ B) \<in> set (A @ B)" by (rule last_in_set [OF that(2)])
      moreover have "A @ B' \<noteq> []" using that(2) empty by blast
      then have "last (A @ B') \<in> set (A @ B')" by (rule last_in_set)
      then have "last (A @ B') \<in> set (A @ B)" using assms(1) by (simp del: last_append)
      moreover have "find override_claim (A @ B) = None" using None none by (simp add: find_append)
      then have "agree (A @ B)" using assms(3) that(1) by blast
      ultimately show ?thesis unfolding agree_def by blast
    qed
    moreover have "set (A @ B) = set (A @ B')" using assms(1) by simp
    moreover have "settled_value option (A @ B) fb =
        (if A @ B = [] then fb
         else if option_additive option then OptBool (\<exists>c \<in> set (A @ B). claim_value c = OptBool True)
         else claim_value (last (A @ B)))"
      using None none by (simp add: settled_value_def find_append del: append_is_Nil_conv set_append last_append)
    moreover have "settled_value option (A @ B') fb =
        (if A @ B' = [] then fb
         else if option_additive option then OptBool (\<exists>c \<in> set (A @ B'). claim_value c = OptBool True)
         else claim_value (last (A @ B')))"
      using None none by (simp add: settled_value_def find_append del: append_is_Nil_conv set_append last_append)
    ultimately show ?thesis using empty by (simp del: append_is_Nil_conv set_append last_append)
  qed (simp add: settled_value_def find_append)
qed

text \<open>C37: two merges of the same requests in any order and multiplicity, both without
  violations, resolve every option to the same value.\<close>

theorem options_order_independent:
  assumes merge: "spn_pkg_options_merge pkg profile config requests = Some m"
    and merge': "spn_pkg_options_merge pkg profile config requests' = Some m'"
    and clean: "merged_violations m = []" "merged_violations m' = []"
    and same: "set requests = set requests'"
  shows "map (\<lambda>r. (resolved_name r, resolved_value r)) (merged_options m) =
         map (\<lambda>r. (resolved_name r, resolved_value r)) (merged_options m')"
proof -
  obtain env where env: "spn_when_env_from_profile profile = Some env" using merge_env[OF merge] ..
  note shape = merge_shape [OF merge env] and shape' = merge_shape [OF merge' env]
  let ?nv = "\<lambda>r. (resolved_name r, resolved_value r)"
  let ?oset = "find_set pkg profile config"
  let ?B = "\<lambda>o' rs. claims_on o' (concat (map (request_claims pkg) rs))"
  have split: "claims_on o' (merge_claims pkg profile config rs) =
      claims_on o' (set_claims pkg ?oset) @ ?B o' rs" for o' rs
    by (simp add: option_claims_fst claims_on_def)
  have consumers: "\<forall>c \<in> set (?B o' rs). \<not> override_claim c" for o' rs
    by (auto simp: claims_on_def request_claims_def override_claim_def clause_claim_def setter_consumer_def)
  have nth: "?nv (merged_options m ! i) = ?nv (merged_options m' ! i)"
    if "i < length (pkg_options pkg)" for i
    using that
  proof (induction i rule: less_induct)
    case (less i)
    let ?o = "snd (pkg_options pkg ! i)"
    have "map ?nv (take i (merged_options m)) = map ?nv (take i (merged_options m'))"
      using less shape(1) shape'(1) by (auto intro!: nth_equalityI)
    then have e: "spn_when_env_add_options env (take i (merged_options m)) =
        spn_when_env_add_options env (take i (merged_options m'))"
      by (rule add_options_cong)
    have B: "set (?B ?o requests) = set (?B ?o requests')" using same by (auto simp: claims_on_def)
    have ag: "find override_claim (claims_on ?o (set_claims pkg ?oset) @ ?B ?o requests) = None \<Longrightarrow>
        \<not> option_additive ?o \<Longrightarrow> agree (claims_on ?o (set_claims pkg ?oset) @ ?B ?o requests)"
      using shape(3)[OF clean(1) less.prems] by (simp add: turn_clean_def split)
    show ?case
      unfolding shape(2)[OF less.prems] shape'(2)[OF less.prems] turn_result_def Let_def split e
      using settled_value_order [OF B consumers ag] by simp
  qed
  show ?thesis
    by (rule nth_equalityI) (use nth shape(1) shape'(1) in auto)
qed

section \<open>Contradictory requests\<close>

text \<open>two consumers that ask for different values of an option that is not additive,
  with no claim of the profile or root manifest on it, make the merge report a violation. This
  includes the boolean options that do not declare \<open>additive\<close>.\<close>

theorem options_conflict_reported:
  assumes merge: "spn_pkg_options_merge pkg profile config requests = Some m"
    and ok: "option_names_ok (pkg_options pkg)"
    and r: "r \<in> set requests" "c \<in> set (when_clauses (request_options r))" "\<not> clause_negated c"
    and r': "r' \<in> set requests" "c' \<in> set (when_clauses (request_options r'))" "\<not> clause_negated c'"
    and clash: "clause_key c = clause_key c'" "clause_value c \<noteq> clause_value c'"
    and o': "ht_get (pkg_options pkg) (clause_key c) = Some o'" "\<not> option_additive o'"
    and free: "oset_clauses (find_set pkg profile config) = None"
  shows "merged_violations m \<noteq> []"
proof
  assume clean: "merged_violations m = []"
  obtain env where env: "spn_when_env_from_profile profile = Some env" using merge_env[OF merge] ..
  note shape = merge_shape [OF merge env]
  let ?claims = "merge_claims pkg profile config requests"
  let ?c = "clause_claim (setter_consumer (request_consumer r)) c"
  let ?c' = "clause_claim (setter_consumer (request_consumer r')) c'"
  obtain i where i: "i < length (pkg_options pkg)" "snd (pkg_options pkg ! i) = o'"
    "option_name o' = clause_key c" by (rule option_table_index [OF ok o'(1)])
  have "clause_declared pkg c" by (rule option_claims_snd [OF shape(4)[OF clean] r(1,2)])
  from request_claim [OF r(1,2) this] have c: "?c \<in> set (claims_on o' ?claims)"
    using r(3) i(3) by (simp add: claims_on_def clause_claim_def)
  have "clause_declared pkg c'" by (rule option_claims_snd [OF shape(4)[OF clean] r'(1,2)])
  from request_claim [OF r'(1,2) this] have c': "?c' \<in> set (claims_on o' ?claims)"
    using r'(3) i(3) clash(1) by (simp add: claims_on_def clause_claim_def)
  have "find override_claim (claims_on o' ?claims) = None"
    using free unfolding find_None_iff
    by (auto simp: option_claims_fst set_claims_def claims_on_def request_claims_def
        override_claim_def clause_claim_def setter_consumer_def)
  then have "agree (claims_on o' ?claims)"
    using shape(3)[OF clean i(1)] i(2) o'(2) by (simp add: turn_clean_def)
  then have "claim_value ?c = claim_value ?c'" using c c' unfolding agree_def by blast
  then show False using clash(2) by (simp add: clause_claim_def)
qed

section \<open>An example\<close>

definition ex_clause :: "string \<Rightarrow> bool \<Rightarrow> spn_option_value_t \<Rightarrow> spn_when_clause_t" where
  "ex_clause key negated v = \<lparr>clause_key = key, clause_negated = negated, clause_value = v\<rparr>"

definition ex_zstd :: "bool \<Rightarrow> spn_option_info_t" where
  "ex_zstd additive =
     \<lparr>option_name = ''zstd'', option_type = SPN_OPTION_TYPE_BOOL, option_additive = additive,
      option_public = False, option_define = [], option_values = [], option_defaults = []\<rparr>"

definition ex_tls :: spn_option_info_t where
  "ex_tls =
     \<lparr>option_name = ''tls'', option_type = SPN_OPTION_TYPE_ENUM, option_additive = False,
      option_public = False, option_define = [], option_values = [''openssl'', ''off''],
      option_defaults =
        [\<lparr>default_when = \<lparr>when_clauses = [ex_clause ''os'' False (OptStr ''linux'')]\<rparr>,
          default_value = OptStr ''openssl''\<rparr>]\<rparr>"

definition ex_pkg :: "bool \<Rightarrow> spn_resolved_pkg_t" where
  "ex_pkg additive =
     \<lparr>pkg_id = spn_pkg_id ''core/curl'', pkg_name = ''curl'',
      pkg_options = [(''zstd'', ex_zstd additive), (''tls'', ex_tls)],
      pkg_source = SPN_PKG_SOURCE_INDEX, pkg_priority = 0, pkg_deps = [], pkg_edges = [],
      pkg_origin = \<lparr>origin_recipe = RootNone, origin_source = RootNone,
        origin_paths = \<lparr>paths_manifest = [], paths_script = []\<rparr>, origin_info = None,
        origin_release = None\<rparr>\<rparr>"

definition ex_profile :: spn_profile_info_t where
  "ex_profile =
     \<lparr>profile_driver = SPN_CC_DRIVER_GCC, profile_linker = SPN_LD_FAMILY_GNU,
      profile_os = SPN_OS_LINUX, profile_arch = SPN_ARCH_X64, profile_abi = SPN_ABI_GNU,
      profile_mode = SPN_MODE_DEBUG, profile_opt = SPN_OPT_LEVEL_0, profile_sanitizers = 0,
      profile_linkage = SPN_LIB_KIND_NONE, profile_options = \<lparr>when_clauses = []\<rparr>\<rparr>"

definition ex_request :: "string \<Rightarrow> spn_when_clause_t list \<Rightarrow> spn_option_request_t" where
  "ex_request consumer cs = \<lparr>request_consumer = consumer, request_options = \<lparr>when_clauses = cs\<rparr>\<rparr>"

definition ex_requests :: "spn_option_request_t list" where
  "ex_requests =
     [ex_request ''a'' [ex_clause ''zstd'' False (OptBool True), ex_clause ''tls'' True (OptStr ''off'')],
      ex_request ''b'' [ex_clause ''zstd'' False (OptBool False)]]"

lemmas ex_defs = ex_clause_def ex_zstd_def ex_tls_def ex_pkg_def ex_profile_def ex_request_def ex_requests_def

definition ex_merged :: spn_merged_options_t where
  "ex_merged =
     \<lparr>merged_options =
        [\<lparr>resolved_name = ''zstd'', resolved_value = OptBool True,
          resolved_setter = \<lparr>setter_kind = SPN_OPTION_SETTER_UNION, setter_name = []\<rparr>,
          resolved_is_default = False\<rparr>,
         \<lparr>resolved_name = ''tls'', resolved_value = OptStr ''openssl'',
          resolved_setter = \<lparr>setter_kind = SPN_OPTION_SETTER_DEFAULT, setter_name = []\<rparr>,
          resolved_is_default = True\<rparr>],
      merged_violations = []\<rparr>"

lemma ex_merge: "spn_pkg_options_merge (ex_pkg True) ex_profile [] ex_requests = Some ex_merged"
  by code_simp

lemma ex_merge_rev: "spn_pkg_options_merge (ex_pkg True) ex_profile [] (rev ex_requests) = Some ex_merged"
  by code_simp

lemma ex_table: "option_names_ok (pkg_options (ex_pkg a))"
  by (simp add: option_names_ok_def ex_defs)

text \<open>An additive enumeration, as an index release may declare it: the request for one of its values is
  ignored, the value is not one of the enumeration, and no violation is reported.\<close>

lemma additive_enum_ignored:
  "spn_pkg_options_merge ((ex_pkg True)\<lparr>pkg_options := [(''tls'', ex_tls\<lparr>option_additive := True\<rparr>)]\<rparr>) ex_profile []
     [ex_request ''a'' [ex_clause ''tls'' False (OptStr ''openssl'')]] =
   Some \<lparr>merged_options =
       [\<lparr>resolved_name = ''tls'', resolved_value = OptBool False,
         resolved_setter = \<lparr>setter_kind = SPN_OPTION_SETTER_UNION, setter_name = []\<rparr>,
         resolved_is_default = False\<rparr>],
     merged_violations = []\<rparr>"
  by code_simp

lemma ex_clean: "merged_violations ex_merged = []"
  by (simp add: ex_merged_def)

theorem options_value_rule_witness:
  "settled_value ex_tls (claims_on ex_tls
      (fst (option_claims (ex_pkg True) (find_set (ex_pkg True) ex_profile []) ex_requests)))
      (option_fallback False ex_tls
        (spn_when_env_add_options (the (spn_when_env_from_profile ex_profile))
           (take 1 (merged_options ex_merged)))) = OptStr ''openssl''"
proof -
  have "spn_when_env_from_profile ex_profile = Some (the (spn_when_env_from_profile ex_profile))"
    by code_simp
  from options_value_rule [OF ex_merge this, of 1]
  show ?thesis by (simp add: ex_pkg_def ex_merged_def find_set_def Let_def)
qed

theorem options_requests_honoured_witness:
  "\<exists>ro \<in> set (merged_options ex_merged). resolved_name ro = ''tls'' \<and> resolved_value ro \<noteq> OptStr ''off''"
proof -
  have "hd ex_requests \<in> set ex_requests"
    "ex_clause ''tls'' True (OptStr ''off'') \<in> set (when_clauses (request_options (hd ex_requests)))"
    by (simp_all add: ex_requests_def ex_request_def)
  from options_requests_honoured [OF ex_merge ex_clean ex_table this]
  show ?thesis by (auto simp: ex_clause_def)
qed

theorem options_well_typed_witness:
  "spn_option_value_ok ex_tls (OptStr ''openssl'')"
proof -
  have "1 < length (pkg_options (ex_pkg True))" by (simp add: ex_pkg_def)
  from options_well_typed [OF ex_merge ex_clean ex_table this]
  show ?thesis by (simp add: ex_pkg_def ex_merged_def ex_tls_def spn_option_value_ok_def Let_def)
qed

theorem options_order_independent_witness:
  "spn_pkg_options_merge (ex_pkg True) ex_profile [] ex_requests = Some ex_merged \<and>
   map resolved_name (merged_options ex_merged) = [''zstd'', ''tls'']"
  using options_order_independent [OF ex_merge ex_merge_rev ex_clean ex_clean]
  by (simp add: ex_merge) (simp add: ex_merged_def)

theorem options_conflict_reported_witness:
  "merged_violations (the (spn_pkg_options_merge (ex_pkg False) ex_profile [] ex_requests)) \<noteq> []"
proof -
  have "spn_pkg_options_merge (ex_pkg False) ex_profile [] ex_requests =
      Some (the (spn_pkg_options_merge (ex_pkg False) ex_profile [] ex_requests))"
    by code_simp
  from options_conflict_reported [OF this ex_table, of "hd ex_requests"
      "ex_clause ''zstd'' False (OptBool True)" "ex_requests ! 1"
      "ex_clause ''zstd'' False (OptBool False)" "ex_zstd False"]
  show ?thesis by (simp add: ex_defs find_set_def Let_def)
qed

end
