(* ===== verification/When_Props.thy ===== *)
theory When_Props
  imports Options
begin

text \<open>
  Properties of conditions over the platform facts, of the choice of a library's artifact
  kind and of the selection of targets, and of package names.
\<close>

section \<open>Conditions on facts\<close>

abbreviation one_clause :: "string \<Rightarrow> bool \<Rightarrow> spn_option_value_t \<Rightarrow> spn_when_t option" where
  "one_clause key negated v \<equiv>
     Some \<lparr>when_clauses = [\<lparr>clause_key = key, clause_negated = negated, clause_value = v\<rparr>]\<rparr>"

lemma one_clause_eval:
  "spn_when_eval (one_clause key n v) env \<longleftrightarrow> (\<exists>w. ht_get env key = Some w \<and> (w = v) \<noteq> n)"
  by (auto simp: eval_clauses_iff)

definition fact_keys :: "string list" where
  "fact_keys =
     [''os'', ''arch'', ''abi'', ''driver'', ''linker'', ''mode'', ''opt'', ''sanitize_address'', ''sanitize_thread'', ''sanitize_undefined'', ''sanitize_memory'', ''sanitize_leak'']"

lemma env_of_facts:
  assumes "spn_when_env_set_facts env f = Some env'"
  shows "\<exists>abi. spn_abi_to_str (facts_abi f) = Some abi \<and> ht_get env' =
    (ht_get env)
      (''os'' \<mapsto> OptStr (spn_os_to_str (facts_os f)),
       ''arch'' \<mapsto> OptStr (spn_arch_to_str (facts_arch f)),
       ''abi'' \<mapsto> OptStr abi,
       ''driver'' \<mapsto> OptStr (spn_cc_driver_to_str (facts_driver f)),
       ''linker'' \<mapsto> OptStr (spn_ld_family_to_str (facts_linker f)),
       ''mode'' \<mapsto> OptStr (spn_mode_to_str (facts_mode f)),
       ''opt'' \<mapsto> OptStr (spn_opt_level_to_str (facts_opt f)),
       ''sanitize_address'' \<mapsto> OptBool (facts_sanitizers f AND SPN_SANITIZER_ADDRESS \<noteq> 0),
       ''sanitize_thread'' \<mapsto> OptBool (facts_sanitizers f AND SPN_SANITIZER_THREAD \<noteq> 0),
       ''sanitize_undefined'' \<mapsto> OptBool (facts_sanitizers f AND SPN_SANITIZER_UNDEFINED \<noteq> 0),
       ''sanitize_memory'' \<mapsto> OptBool (facts_sanitizers f AND SPN_SANITIZER_MEMORY \<noteq> 0),
       ''sanitize_leak'' \<mapsto> OptBool (facts_sanitizers f AND SPN_SANITIZER_LEAK \<noteq> 0))"
  using assms unfolding spn_when_env_set_facts_def spn_when_env_set_platform_def Let_def
  by (auto split: option.splits)

lemma sanitizer_tests:
  "(s AND SPN_SANITIZER_ADDRESS \<noteq> 0) = bit s 0"
  "(s AND SPN_SANITIZER_THREAD \<noteq> 0) = bit s 1"
  "(s AND SPN_SANITIZER_UNDEFINED \<noteq> 0) = bit s 2"
  "(s AND SPN_SANITIZER_MEMORY \<noteq> 0) = bit s 3"
  "(s AND SPN_SANITIZER_LEAK \<noteq> 0) = bit s 4"
  unfolding sanitizer_bits by (simp_all only: bit_iff_and_push_bit_not_eq_0)

lemma text_injective:
  "spn_os_to_str a = spn_os_to_str b \<longleftrightarrow> a = b"
  "spn_arch_to_str c = spn_arch_to_str d \<longleftrightarrow> c = d"
  "spn_cc_driver_to_str e = spn_cc_driver_to_str e' \<longleftrightarrow> e = e'"
  "spn_ld_family_to_str g = spn_ld_family_to_str h \<longleftrightarrow> g = h"
  "spn_mode_to_str i = spn_mode_to_str j \<longleftrightarrow> i = j"
  "spn_opt_level_to_str k = spn_opt_level_to_str l \<longleftrightarrow> k = l"
  using os.text_inj [of a "spn_os_to_str a" b] arch.text_inj [of c "spn_arch_to_str c" d]
    cc_driver.text_inj [of e "spn_cc_driver_to_str e" e'] ld_family.text_inj [of g "spn_ld_family_to_str g" h]
    mode.text_inj [of i "spn_mode_to_str i" j] opt_level.text_inj [of k "spn_opt_level_to_str k" l]
  by auto

text \<open>C38: in an environment filled with a profile's facts, a clause that compares a fact
  with the text of an enumerator holds exactly when the profile has that enumerator (or, negated,
  has another one); a sanitizer key is true exactly when the profile enables the sanitizer; a key
  that is neither a fact nor already bound makes the condition fail, negated or not.\<close>

theorem when_facts_decide:
  assumes "spn_when_env_set_facts env f = Some env'"
  shows
   "spn_when_eval (one_clause ''os'' n (OptStr (spn_os_to_str os))) env' = ((facts_os f = os) \<noteq> n) \<and>
    spn_when_eval (one_clause ''arch'' n (OptStr (spn_arch_to_str arch))) env' = ((facts_arch f = arch) \<noteq> n) \<and>
    spn_when_eval (one_clause ''driver'' n (OptStr (spn_cc_driver_to_str driver))) env' = ((facts_driver f = driver) \<noteq> n) \<and>
    spn_when_eval (one_clause ''linker'' n (OptStr (spn_ld_family_to_str linker))) env' = ((facts_linker f = linker) \<noteq> n) \<and>
    spn_when_eval (one_clause ''mode'' n (OptStr (spn_mode_to_str mode))) env' = ((facts_mode f = mode) \<noteq> n) \<and>
    spn_when_eval (one_clause ''opt'' n (OptStr (spn_opt_level_to_str opt))) env' = ((facts_opt f = opt) \<noteq> n) \<and>
    (\<exists>abi. spn_abi_to_str (facts_abi f) = Some abi \<and>
        spn_when_eval (one_clause ''abi'' n (OptStr t)) env' = ((abi = t) \<noteq> n)) \<and>
    spn_when_eval (one_clause ''sanitize_address'' n (OptBool True)) env' = (bit (facts_sanitizers f) 0 \<noteq> n) \<and>
    spn_when_eval (one_clause ''sanitize_thread'' n (OptBool True)) env' = (bit (facts_sanitizers f) 1 \<noteq> n) \<and>
    spn_when_eval (one_clause ''sanitize_undefined'' n (OptBool True)) env' = (bit (facts_sanitizers f) 2 \<noteq> n) \<and>
    spn_when_eval (one_clause ''sanitize_memory'' n (OptBool True)) env' = (bit (facts_sanitizers f) 3 \<noteq> n) \<and>
    spn_when_eval (one_clause ''sanitize_leak'' n (OptBool True)) env' = (bit (facts_sanitizers f) 4 \<noteq> n) \<and>
    (key \<in> set fact_keys \<or> ht_get env key \<noteq> None \<or> spn_when_eval (one_clause key n v) env' = False)"
proof -
  obtain abi where abi: "spn_abi_to_str (facts_abi f) = Some abi" and get: "ht_get env' =
    (ht_get env)
      (''os'' \<mapsto> OptStr (spn_os_to_str (facts_os f)),
       ''arch'' \<mapsto> OptStr (spn_arch_to_str (facts_arch f)),
       ''abi'' \<mapsto> OptStr abi,
       ''driver'' \<mapsto> OptStr (spn_cc_driver_to_str (facts_driver f)),
       ''linker'' \<mapsto> OptStr (spn_ld_family_to_str (facts_linker f)),
       ''mode'' \<mapsto> OptStr (spn_mode_to_str (facts_mode f)),
       ''opt'' \<mapsto> OptStr (spn_opt_level_to_str (facts_opt f)),
       ''sanitize_address'' \<mapsto> OptBool (bit (facts_sanitizers f) 0),
       ''sanitize_thread'' \<mapsto> OptBool (bit (facts_sanitizers f) 1),
       ''sanitize_undefined'' \<mapsto> OptBool (bit (facts_sanitizers f) 2),
       ''sanitize_memory'' \<mapsto> OptBool (bit (facts_sanitizers f) 3),
       ''sanitize_leak'' \<mapsto> OptBool (bit (facts_sanitizers f) 4))"
    using env_of_facts [OF assms] unfolding sanitizer_tests by blast
  show ?thesis
    unfolding one_clause_eval get abi
    by (intro conjI) (auto simp: text_injective fact_keys_def)
qed

definition ex_facts :: spn_when_facts_t where
  "ex_facts =
     \<lparr>facts_os = SPN_OS_LINUX, facts_arch = SPN_ARCH_X64, facts_abi = SPN_ABI_GNU,
      facts_driver = SPN_CC_DRIVER_GCC, facts_linker = SPN_LD_FAMILY_GNU,
      facts_mode = SPN_MODE_DEBUG, facts_opt = SPN_OPT_LEVEL_0,
      facts_sanitizers = SPN_SANITIZER_THREAD\<rparr>"

theorem when_facts_decide_witness:
  "\<not> spn_when_eval (one_clause ''os'' False (OptStr (spn_os_to_str SPN_OS_WINDOWS)))
      (the (spn_when_env_set_facts [] ex_facts))"
proof -
  have "spn_when_env_set_facts [] ex_facts = Some (the (spn_when_env_set_facts [] ex_facts))"
    by (simp add: spn_when_env_set_facts_def ex_facts_def Let_def)
  from when_facts_decide [OF this, of False SPN_OS_WINDOWS]
  show ?thesis by (simp add: ex_facts_def)
qed

section \<open>The kind of a library\<close>

text \<open>a configured kind is chosen exactly when the library supports it. Otherwise the
  choice is source, then static, then shared, and shared is never chosen for a profile that
  demands static or source linkage; without a permitted kind the selection fails, in particular
  for a library that supports object linkage only.\<close>

theorem lib_kind_choice:
  assumes "query_linkage query \<noteq> SPN_LIB_KIND_OBJECT" "query_config query \<noteq> Some SPN_LIB_KIND_NONE"
  shows "spn_target_select_lib_kind s query = Some
    (case query_config query of
       Some k \<Rightarrow> if spn_linkage_set_has s k = Some True then Some k else None
     | None \<Rightarrow>
        if set_source s then Some SPN_LIB_KIND_SOURCE
        else if set_static_lib s then Some SPN_LIB_KIND_STATIC
        else if set_shared s \<and> query_linkage query \<notin> {SPN_LIB_KIND_STATIC, SPN_LIB_KIND_SOURCE}
        then Some SPN_LIB_KIND_SHARED
        else None)"
proof (cases "query_config query")
  case None
  then show ?thesis using assms(1)
    by (cases "query_linkage query"; simp add: spn_target_select_lib_kind_def split: bool.splits)
next
  case (Some k)
  then show ?thesis using assms(2)
    by (cases k; simp add: spn_target_select_lib_kind_def split: bool.splits)
qed

theorem lib_kind_choice_witness:
  "spn_target_select_lib_kind
     \<lparr>set_source = False, set_shared = True, set_static_lib = False, set_object = True\<rparr>
     \<lparr>query_config = None, query_linkage = SPN_LIB_KIND_STATIC\<rparr> = Some None"
  using lib_kind_choice [of "\<lparr>query_config = None, query_linkage = SPN_LIB_KIND_STATIC\<rparr>"
      "\<lparr>set_source = False, set_shared = True, set_static_lib = False, set_object = True\<rparr>"]
  by simp

section \<open>The selection of targets\<close>

text \<open>the configure and build programs are never selected, a script only by a script
  rule that admits its name; the other kinds are all selected when no rule is given, and only by
  their own rule otherwise.\<close>

theorem target_selection:
  "\<not> spn_target_selection_pass s SPN_TARGET_KIND_CONFIGURE_METAPROGRAM name \<and>
   \<not> spn_target_selection_pass s SPN_TARGET_KIND_BUILD_METAPROGRAM name \<and>
   spn_target_selection_pass s SPN_TARGET_KIND_SCRIPT name = spn_target_rule_pass (sel_script s) name \<and>
   spn_target_selection_pass s SPN_TARGET_KIND_LIB name = (is_default s \<or> spn_target_rule_pass (sel_lib s) name) \<and>
   spn_target_selection_pass s SPN_TARGET_KIND_EXE name = (is_default s \<or> spn_target_rule_pass (sel_bin s) name) \<and>
   spn_target_selection_pass s SPN_TARGET_KIND_TEST name = (is_default s \<or> spn_target_rule_pass (sel_test s) name) \<and>
   spn_target_selection_pass s SPN_TARGET_KIND_EXAMPLE name = (is_default s \<or> spn_target_rule_pass (sel_example s) name)"
  by (auto simp: spn_target_selection_pass_def is_default_def spn_target_rule_pass_def)

section \<open>Package names\<close>

text \<open>What the names rely on of the runtime's \<open>sp_str_cleave_c8\<close>: a text with
  one separator is cut there; without one the second part is empty.\<close>

definition cleave_spec :: "(string \<Rightarrow> char \<Rightarrow> string \<times> string) \<Rightarrow> bool" where
  "cleave_spec cleave \<longleftrightarrow>
     (\<forall>a b c. c \<notin> set a \<longrightarrow> c \<notin> set b \<longrightarrow> cleave (a @ c # b) c = (a, b)) \<and>
     (\<forall>s c. c \<notin> set s \<longrightarrow> snd (cleave s c) = [])"

definition cleave_first :: "string \<Rightarrow> char \<Rightarrow> string \<times> string" where
  "cleave_first s c = (takeWhile (\<lambda>x. x \<noteq> c) s, drop 1 (dropWhile (\<lambda>x. x \<noteq> c) s))"

lemma cleave_first_spec: "cleave_spec cleave_first"
proof -
  have "takeWhile (\<lambda>x. x \<noteq> c) (a @ c # b) = a \<and> dropWhile (\<lambda>x. x \<noteq> c) (a @ c # b) = c # b"
    if "c \<notin> set a" for a b :: string and c
    using that by (induction a) auto
  moreover have "drop 1 (dropWhile (\<lambda>x. x \<noteq> c) s) = []" if "c \<notin> set s" for s :: string and c
    using that by (induction s) auto
  ultimately show ?thesis unfolding cleave_spec_def cleave_first_def
    by (metis drop0 drop_Suc_Cons One_nat_def snd_conv)
qed

text \<open>qualifying a package name whose parts have no separator and reading it back
  gives the name with an empty namespace replaced by \<open>core\<close>; qualified names are fixed
  points of canonicalisation, and a bare name is canonicalised into \<open>core\<close>.\<close>

theorem pkg_name_roundtrip:
  assumes "cleave_spec cleave" "pn_name n \<noteq> []"
    and "CHR ''/'' \<notin> set (pn_name n)" "CHR ''/'' \<notin> set (pn_namespace n)"
  shows "spn_pkg_name_from_qualified cleave (spn_pkg_name_to_qualified n) =
       n\<lparr>pn_namespace := if pn_namespace n = [] then ''core'' else pn_namespace n\<rparr> \<and>
    spn_pkg_canonicalize_name cleave (spn_pkg_name_to_qualified n) = spn_pkg_name_to_qualified n \<and>
    spn_pkg_canonicalize_name cleave (pn_name n) = spn_pkg_canonicalize_pair ''core'' (pn_name n)"
proof -
  let ?ns = "if pn_namespace n = [] then ''core'' else pn_namespace n"
  have q: "spn_pkg_name_to_qualified n = ?ns @ CHR ''/'' # pn_name n"
    by (simp add: spn_pkg_name_to_qualified_def)
  have cut: "cleave (?ns @ CHR ''/'' # pn_name n) (CHR ''/'') = (?ns, pn_name n)"
    using assms unfolding cleave_spec_def by simp
  have bare: "snd (cleave (pn_name n) (CHR ''/'')) = []"
    using assms unfolding cleave_spec_def by blast
  show ?thesis
    unfolding spn_pkg_canonicalize_name_def spn_pkg_name_from_qualified_def q cut Let_def
    by (simp add: assms(2) bare spn_pkg_canonicalize_pair_def spn_pkg_name_to_qualified_def)
qed

theorem pkg_name_roundtrip_witness:
  "spn_pkg_canonicalize_name cleave_first ''zlib'' = ''core/zlib''"
  using pkg_name_roundtrip [OF cleave_first_spec, of "\<lparr>pn_namespace = [], pn_name = ''zlib''\<rparr>"]
  by (simp add: spn_pkg_canonicalize_pair_def spn_pkg_name_to_qualified_def)

end
