(* ===== verification/Resolve.thy ===== *)
theory Resolve
  imports Options "HOL-Library.Monad_Syntax"
begin

text \<open>
  \<open>source/core/resolve/resolve.c\<close>, the version solver: data, the solver of one
  scope (node, candidates, requests, pins) and the operations that carry a scope's result
  over to the next. The cross-scope checks and the outer loop are in \<open>Resolve_Groups\<close>.

  State. A run (\<open>spn_resolve_run_t\<close>) is passed and returned. It also holds the two
  tables it reaches through pointers and changes: the result of the query and the package
  registry of the resolver. Tables are association lists; the order in which the runtime
  iterates over a hash table is not specified, so every loop over one goes through an
  argument (\<open>rt_named_order\<close>, \<open>rt_result_order\<close>).

  Errors. A function that returns an error union returns \<open>Some e\<close>, or \<open>None\<close> for
  no error, together with the run. Around that pair, \<open>None\<close> means that the call does
  not return: it is out of fuel, or it has reached a branch the source marks unreachable.

  Recursion. The mutual recursion of the source goes through \<open>solve_node\<close>. The other
  functions take it as the argument \<open>rec\<close>, and \<open>solve_node\<close> is defined by recursion
  on a fuel; \<open>Resolve_Facts\<close> shows that fuel above the candidate budget plus the number
  of local package names is enough.
\<close>

section \<open>What the solver takes from outside\<close>

text \<open>Failures of the index lookup and of loading a manifest.\<close>

datatype index_failure =
  FailManifestIssues string
| FailIndexCorrupt string
| FailIndexPathDep string
| FailOther nat

datatype load_failure =
  LoadNoManifest
| LoadIssues

datatype resolve_err =
  ErrDepCycle spn_pkg_name_t
| ErrPkgConflict string string string spn_semver_t spn_semver_t
| ErrPkgConflictExact string string string spn_semver_t spn_semver_t
| ErrPkgNoMatch string string string spn_semver_t spn_semver_t
| ErrPkgUnknown string string
| ErrTooComplex spn_pkg_name_t
| ErrNoManifest string
| ErrManifestIssues string string
| ErrIndexCorrupt string string
| ErrIndexPathDep string string
| ErrIndexOther nat
| ErrPkgMismatch string string string
| ErrUnitCycle spn_pkg_name_t spn_semver_t
| ErrDynamicDuplicate spn_pkg_name_t spn_semver_t spn_semver_t

record spn_edge_record_t =
  erec_hash :: u64
  erec_kind :: spn_dep_kind_t
  erec_private :: bool

text \<open>The runtime library (text, sorting, hashing, table order) and the two operations
  that read the file system: the index cache and the manifest loader.\<close>

record runtime =
  rt_cleave :: "string \<Rightarrow> char \<Rightarrow> string \<times> string"
  rt_str_cmp :: "string \<Rightarrow> string \<Rightarrow> int"
  rt_fmt :: "u32 \<Rightarrow> string"
  rt_path_str :: "spn_path_t \<Rightarrow> string"
  rt_fs_name :: "string \<Rightarrow> string"
  rt_sort_reqs :: "(spn_requested_dep_t \<Rightarrow> spn_requested_dep_t \<Rightarrow> int) \<Rightarrow>
    spn_requested_dep_t list \<Rightarrow> spn_requested_dep_t list"
  rt_sort_picks :: "(spn_resolved_pkg_t \<Rightarrow> spn_resolved_pkg_t \<Rightarrow> int) \<Rightarrow>
    spn_resolved_pkg_t list \<Rightarrow> spn_resolved_pkg_t list"
  rt_sort_records :: "(spn_edge_record_t \<Rightarrow> spn_edge_record_t \<Rightarrow> int) \<Rightarrow>
    spn_edge_record_t list \<Rightarrow> spn_edge_record_t list"
  rt_named_order :: "(sp_name \<times> spn_resolved_pkg_t) list \<Rightarrow> (sp_name \<times> spn_resolved_pkg_t) list"
  rt_result_order :: "(spn_pkg_id_t \<times> spn_resolved_pkg_t) list \<Rightarrow> (spn_pkg_id_t \<times> spn_resolved_pkg_t) list"
  rt_hash_str :: "string \<Rightarrow> u64"
  rt_hash_version :: "spn_semver_t \<Rightarrow> u64 \<Rightarrow> u64"
  rt_hash_records :: "spn_edge_record_t list \<Rightarrow> u64 \<Rightarrow> u64"
  rt_get_package :: "spn_pkg_name_t \<Rightarrow> index_failure + spn_index_pkg_t option"
  rt_pkg_load :: "spn_path_t \<Rightarrow> load_failure + spn_pkg_info_t"

record spn_resolver_t =
  res_profile :: spn_profile_info_t
  res_config :: "spn_pkg_config_entry_t list"
  res_seeds :: "(sp_name \<times> spn_option_request_t list) list option"
  res_budget :: u64

definition SPN_RESOLVE_DEFAULT_BUDGET :: u64 where
  "SPN_RESOLVE_DEFAULT_BUDGET = 1000000"

definition spn_resolver_init ::
    "spn_profile_info_t \<Rightarrow> spn_pkg_config_entry_t list \<Rightarrow> u64 \<Rightarrow> spn_resolver_t" where
  "spn_resolver_init profile config budget =
     \<lparr>res_profile = profile, res_config = config, res_seeds = None,
      res_budget = (if budget \<noteq> 0 then budget else SPN_RESOLVE_DEFAULT_BUDGET)\<rparr>"

type_synonym registry = "(spn_pkg_id_t \<times> spn_registry_pkg_t) list"
type_synonym named = "(sp_name \<times> spn_resolved_pkg_t) list"
type_synonym spn_resolve_t = "(spn_pkg_id_t \<times> spn_resolved_pkg_t) list"

section \<open>The state of a run\<close>

record spn_scope_boundary_t =
  bd_from :: spn_pkg_id_t
  bd_edge :: spn_dep_edge_t
  bd_req :: spn_requested_dep_t

record spn_pin_t =
  pin_name :: sp_name
  pin_version :: spn_semver_t

record spn_scope_t =
  scope_root :: sp_name
  scope_from :: spn_pkg_id_t
  scope_reqs :: "spn_requested_dep_t list"
  scope_cursor :: nat
  scope_named :: named
  scope_pins :: "spn_pin_t list"
  scope_processes :: "nat list"

record spn_scope_edge_t =
  edge_from :: nat
  edge_to :: nat
  edge_private :: bool

record spn_resolve_run_t =
  run_result :: spn_resolve_t
  run_registry :: registry
  run_scopes :: "spn_scope_t list"
  run_boundaries :: "spn_scope_boundary_t list"
  run_edges :: "spn_scope_edge_t list"
  run_visited :: "(sp_name \<times> u8) list"
  run_scope :: nat
  run_picks :: u64
  run_budget :: u64
  run_fatal :: bool
  run_forced :: "spn_pin_t option"
  run_retry :: "spn_pin_t list"

type_synonym outcome = "(resolve_err option \<times> spn_resolve_run_t) option"
type_synonym solver = "sp_name \<Rightarrow> spn_resolved_pkg_t \<Rightarrow> spn_resolve_run_t \<Rightarrow> outcome"

abbreviation current_scope :: "spn_resolve_run_t \<Rightarrow> spn_scope_t" where
  "current_scope run \<equiv> run_scopes run ! run_scope run"

definition update_scope ::
    "(spn_scope_t \<Rightarrow> spn_scope_t) \<Rightarrow> spn_resolve_run_t \<Rightarrow> spn_resolve_run_t" where
  "update_scope f run =
     run\<lparr>run_scopes := (run_scopes run)[run_scope run := f (current_scope run)]\<rparr>"

abbreviation cur_named :: "spn_resolve_run_t \<Rightarrow> named" where
  "cur_named run \<equiv> scope_named (current_scope run)"

definition set_named :: "named \<Rightarrow> spn_resolve_run_t \<Rightarrow> spn_resolve_run_t" where
  "set_named t = update_scope (\<lambda>s. s\<lparr>scope_named := t\<rparr>)"

section \<open>Errors\<close>

fun dep_kind_from_index :: "spn_index_dep_kind_t \<Rightarrow> spn_dep_kind_t" where
  "dep_kind_from_index SPN_INDEX_DEP_NORMAL = SPN_DEP_KIND_PACKAGE"
| "dep_kind_from_index SPN_INDEX_DEP_BUILD = SPN_DEP_KIND_BUILD"
| "dep_kind_from_index SPN_INDEX_DEP_TEST = SPN_DEP_KIND_TEST"

definition name_text :: "sp_name \<Rightarrow> string" where
  "name_text n = (case n of None \<Rightarrow> [] | Some s \<Rightarrow> s)"

definition unsatisfiable_err ::
    "runtime \<Rightarrow> spn_resolved_pkg_t \<Rightarrow> spn_requested_dep_t \<Rightarrow>
     (string \<Rightarrow> string \<Rightarrow> string \<Rightarrow> spn_semver_t \<Rightarrow> spn_semver_t \<Rightarrow> resolve_err) \<Rightarrow>
     spn_semver_t \<Rightarrow> resolve_err" where
  "unsatisfiable_err rt from request kind selected =
     kind (req_qualified request)
       (case req_target request of
          ReqIndex r \<Rightarrow> spn_semver_range_to_str (rt_fmt rt) r
        | _ \<Rightarrow> [])
       (name_text (id_qualified (pkg_id from)))
       (id_version (pkg_id from))
       selected"

fun index_err :: "spn_requested_dep_t \<Rightarrow> index_failure \<Rightarrow> resolve_err" where
  "index_err request (FailManifestIssues path) = ErrManifestIssues (req_qualified request) path"
| "index_err request (FailIndexCorrupt path) = ErrIndexCorrupt (req_qualified request) path"
| "index_err request (FailIndexPathDep dep) = ErrIndexPathDep (req_qualified request) dep"
| "index_err request (FailOther n) = ErrIndexOther n"

section \<open>Classification of a dependency\<close>

fun find_forced :: "spn_resolve_run_t \<Rightarrow> sp_name \<Rightarrow> spn_semver_t option" where
  "find_forced run name =
    (case run_forced run of
       None \<Rightarrow> None
     | Some pin \<Rightarrow> if pin_name pin = name then Some (pin_version pin) else None)"

definition kind_query :: "spn_resolver_t \<Rightarrow> string \<Rightarrow> spn_kind_query_t" where
  "kind_query resolver name =
    (let config = spn_pkg_config_find (res_config resolver) name
     in \<lparr>query_config = (case config of None \<Rightarrow> None | Some c \<Rightarrow> config_kind c),
         query_linkage = profile_linkage (res_profile resolver)\<rparr>)"

definition target_selects_shared :: "spn_linkage_set_t \<Rightarrow> spn_kind_query_t \<Rightarrow> bool option" where
  "target_selects_shared linkages query = do {
     kind \<leftarrow> spn_target_select_lib_kind linkages query;
     Some (case kind of None \<Rightarrow> False | Some k \<Rightarrow> k = SPN_LIB_KIND_SHARED)
   }"

definition node_options_env ::
    "spn_resolver_t \<Rightarrow> spn_resolved_pkg_t \<Rightarrow> spn_when_env_t option" where
  "node_options_env resolver node =
    (let seeds =
       (case res_seeds resolver of
          None \<Rightarrow> []
        | Some s \<Rightarrow>
           (case ht_get s (id_qualified (pkg_id node)) of None \<Rightarrow> [] | Some rs \<Rightarrow> rs))
     in spn_pkg_options_env node (res_profile resolver) (res_config resolver) seeds)"

fun add_linkages :: "spn_linkage_set_t \<Rightarrow> spn_linkage_t list \<Rightarrow> spn_linkage_set_t option" where
  "add_linkages s [] = Some s"
| "add_linkages s (k # ks) = do { s' \<leftarrow> spn_linkage_set_add s k; add_linkages s' ks }"

definition linkage_set_zero :: spn_linkage_set_t where
  "linkage_set_zero =
     \<lparr>set_source = False, set_shared = False, set_static_lib = False, set_object = False\<rparr>"

fun release_is_shared :: "spn_kind_query_t \<Rightarrow> spn_index_target_t list \<Rightarrow> bool option" where
  "release_is_shared query [] = Some False"
| "release_is_shared query (target # ts) =
    (if itarget_linkages target = [] then release_is_shared query ts
     else do {
       linkages \<leftarrow> add_linkages linkage_set_zero (itarget_linkages target);
       shared \<leftarrow> target_selects_shared linkages query;
       if shared then Some True else release_is_shared query ts
     })"

fun libs_are_shared :: "spn_kind_query_t \<Rightarrow> (string \<times> spn_linkage_set_t) list \<Rightarrow> bool option" where
  "libs_are_shared query [] = Some False"
| "libs_are_shared query (lib # libs) = do {
     shared \<leftarrow> target_selects_shared (snd lib) query;
     if shared then Some True else libs_are_shared query libs
   }"

definition registry_key :: "sp_name \<Rightarrow> spn_pkg_id_t" where
  "registry_key name = spn_pkg_id_zero\<lparr>id_qualified := name\<rparr>"

definition node_is_shared ::
    "spn_resolver_t \<Rightarrow> registry \<Rightarrow> spn_resolved_pkg_t \<Rightarrow> bool option" where
  "node_is_shared resolver registry node =
    (let query = kind_query resolver (pkg_name node) in
     case pkg_source node of
       SPN_PKG_SOURCE_INDEX \<Rightarrow>
        (case origin_release (pkg_origin node) of
           None \<Rightarrow> Some False
         | Some release \<Rightarrow> release_is_shared query (rel_targets release))
     | _ \<Rightarrow>
        (case ht_get registry (registry_key (id_qualified (pkg_id node))) of
           None \<Rightarrow> Some False
         | Some pkg \<Rightarrow> libs_are_shared query (info_libs (reg_info pkg))))"

definition classify_dep ::
    "spn_resolver_t \<Rightarrow> registry \<Rightarrow> spn_resolved_pkg_t \<Rightarrow> spn_requested_dep_t \<Rightarrow> spn_dep_edge_t option" where
  "classify_dep resolver registry node dep =
    (case req_kind dep of
       SPN_DEP_KIND_BUILD \<Rightarrow> Some SPN_DEP_EDGE_PROCESS
     | SPN_DEP_KIND_TEST \<Rightarrow>
         Some (if pkg_source node = SPN_PKG_SOURCE_ROOT then SPN_DEP_EDGE_PROCESS
               else SPN_DEP_EDGE_PRUNED)
     | SPN_DEP_KIND_PACKAGE \<Rightarrow>
         if req_private dep then do {
           shared \<leftarrow> node_is_shared resolver registry node;
           Some (if shared then SPN_DEP_EDGE_PRIVATE else SPN_DEP_EDGE_SCOPE)
         }
         else Some SPN_DEP_EDGE_SCOPE)"

section \<open>Snapshots, orders and pins\<close>

definition snapshot_named :: "runtime \<Rightarrow> spn_resolve_run_t \<Rightarrow> sp_name list" where
  "snapshot_named rt run = map fst (rt_named_order rt (cur_named run))"

definition restore_named :: "runtime \<Rightarrow> sp_name list \<Rightarrow> spn_resolve_run_t \<Rightarrow> spn_resolve_run_t" where
  "restore_named rt snapshot run =
    (let added = filter (\<lambda>k. k \<notin> set snapshot) (map fst (rt_named_order rt (cur_named run)))
     in set_named (fold ht_erase added (cur_named run)) run)"

definition truncate_boundaries :: "nat \<Rightarrow> spn_resolve_run_t \<Rightarrow> spn_resolve_run_t" where
  "truncate_boundaries n run = run\<lparr>run_boundaries := take n (run_boundaries run)\<rparr>"

definition sort_pick_by_priority :: "spn_resolved_pkg_t \<Rightarrow> spn_resolved_pkg_t \<Rightarrow> int" where
  "sort_pick_by_priority lhs rhs = (if pkg_priority lhs < pkg_priority rhs then -1 else 1)"

fun dep_kind_rank :: "spn_dep_kind_t \<Rightarrow> nat" where
  "dep_kind_rank SPN_DEP_KIND_PACKAGE = 0"
| "dep_kind_rank SPN_DEP_KIND_BUILD = 1"
| "dep_kind_rank SPN_DEP_KIND_TEST = 2"

fun pkg_source_rank :: "spn_pkg_source_t \<Rightarrow> nat" where
  "pkg_source_rank SPN_PKG_SOURCE_ROOT = 0"
| "pkg_source_rank SPN_PKG_SOURCE_FILE = 1"
| "pkg_source_rank SPN_PKG_SOURCE_INDEX = 2"

fun semver_op_rank :: "spn_semver_op_t \<Rightarrow> nat" where
  "semver_op_rank SPN_SEMVER_OP_LT = 0"
| "semver_op_rank SPN_SEMVER_OP_LEQ = 1"
| "semver_op_rank SPN_SEMVER_OP_GT = 2"
| "semver_op_rank SPN_SEMVER_OP_GEQ = 3"
| "semver_op_rank SPN_SEMVER_OP_EQ = 4"

fun semver_mod_rank :: "spn_semver_mod_t \<Rightarrow> nat" where
  "semver_mod_rank SPN_SEMVER_MOD_NONE = 0"
| "semver_mod_rank SPN_SEMVER_MOD_CARET = 1"
| "semver_mod_rank SPN_SEMVER_MOD_TILDE = 2"
| "semver_mod_rank SPN_SEMVER_MOD_WILDCARD = 3"
| "semver_mod_rank SPN_SEMVER_MOD_CMP = 4"

definition rank_cmp :: "nat \<Rightarrow> nat \<Rightarrow> int" where
  "rank_cmp a b = (if a = b then 0 else if a < b then -1 else 1)"

fun first_nonzero :: "int list \<Rightarrow> int" where
  "first_nonzero [] = 0"
| "first_nonzero (x # xs) = (if x \<noteq> 0 then x else first_nonzero xs)"

definition sort_req_canonical ::
    "runtime \<Rightarrow> spn_requested_dep_t \<Rightarrow> spn_requested_dep_t \<Rightarrow> int" where
  "sort_req_canonical rt lhs rhs =
     first_nonzero
      ([rt_str_cmp rt (req_qualified lhs) (req_qualified rhs),
        rank_cmp (dep_kind_rank (req_kind lhs)) (dep_kind_rank (req_kind rhs)),
        rank_cmp (of_bool (req_private lhs)) (of_bool (req_private rhs)),
        rank_cmp (pkg_source_rank (req_source lhs)) (pkg_source_rank (req_source rhs))] @
       (case (req_target lhs, req_target rhs) of
          (ReqIndex l, ReqIndex r) \<Rightarrow>
            [spn_semver_cmp (bound_version (low l)) (bound_version (low r)),
             rank_cmp (semver_op_rank (bound_op (low l))) (semver_op_rank (bound_op (low r))),
             spn_semver_cmp (bound_version (high l)) (bound_version (high r)),
             rank_cmp (semver_op_rank (bound_op (high l))) (semver_op_rank (bound_op (high r))),
             rank_cmp (semver_mod_rank (range_mod l)) (semver_mod_rank (range_mod r))]
        | (ReqFile p, ReqFile q) \<Rightarrow> [spn_path_compare (rt_str_cmp rt) p q]
        | _ \<Rightarrow> []))"

text \<open>The pin of a name: its version, and whether two pins disagree.\<close>

fun find_pin_from ::
    "spn_pin_t list \<Rightarrow> sp_name \<Rightarrow> spn_semver_t option \<Rightarrow> (spn_semver_t \<times> bool) option" where
  "find_pin_from [] name found = map_option (\<lambda>v. (v, False)) found"
| "find_pin_from (pin # pins) name found =
    (if pin_name pin \<noteq> name then find_pin_from pins name found
     else case found of
         Some v \<Rightarrow>
           if \<not> spn_semver_eq v (pin_version pin) then Some (v, True)
           else find_pin_from pins name (Some (pin_version pin))
       | None \<Rightarrow> find_pin_from pins name (Some (pin_version pin)))"

definition find_pin :: "spn_scope_t \<Rightarrow> sp_name \<Rightarrow> (spn_semver_t \<times> bool) option" where
  "find_pin scope name = find_pin_from (scope_pins scope) name None"

definition held_version :: "spn_resolve_run_t \<Rightarrow> sp_name \<Rightarrow> (spn_semver_t \<times> bool) option" where
  "held_version run name =
    (case find_forced run name of
       Some v \<Rightarrow> Some (v, False)
     | None \<Rightarrow> find_pin (current_scope run) name)"

fun scope_index :: "spn_scope_t list \<Rightarrow> sp_name \<Rightarrow> spn_pkg_id_t \<Rightarrow> nat option" where
  "scope_index [] root from = None"
| "scope_index (s # ss) root from =
    (if scope_root s = root \<and> spn_pkg_id_eq (scope_from s) from then Some 0
     else map_option Suc (scope_index ss root from))"

definition find_scope :: "spn_resolve_run_t \<Rightarrow> sp_name \<Rightarrow> spn_pkg_id_t \<Rightarrow> nat option" where
  "find_scope run root from = scope_index (run_scopes run) root from"

definition new_scope :: "sp_name \<Rightarrow> spn_pkg_id_t \<Rightarrow> spn_scope_t" where
  "new_scope root from =
     \<lparr>scope_root = root, scope_from = from, scope_reqs = [], scope_cursor = 0,
      scope_named = [], scope_pins = [], scope_processes = []\<rparr>"

definition find_or_create_scope ::
    "spn_resolve_run_t \<Rightarrow> sp_name \<Rightarrow> spn_pkg_id_t \<Rightarrow> nat \<times> spn_resolve_run_t" where
  "find_or_create_scope run root from =
    (case scope_index (run_scopes run) root from of
       Some i \<Rightarrow> (i, run)
     | None \<Rightarrow>
        (length (run_scopes run),
         run\<lparr>run_scopes := run_scopes run @ [new_scope root from]\<rparr>))"

section \<open>Local packages\<close>

definition load_file_pkg ::
    "runtime \<Rightarrow> spn_requested_dep_t \<Rightarrow> spn_path_t \<Rightarrow> spn_resolve_run_t \<Rightarrow>
     (resolve_err + spn_registry_pkg_t) \<times> spn_resolve_run_t" where
  "load_file_pkg rt request path run =
    (let id = spn_pkg_id (req_qualified request) in
     case ht_get (run_registry run) id of
       Some existing \<Rightarrow> (Inr existing, run)
     | None \<Rightarrow>
        (case rt_pkg_load rt path of
           Inl LoadNoManifest \<Rightarrow> (Inl (ErrNoManifest (rt_path_str rt path)), run)
         | Inl LoadIssues \<Rightarrow>
             (Inl (ErrManifestIssues (req_qualified request) (rt_path_str rt path)), run)
         | Inr info \<Rightarrow>
             if info_qualified info \<noteq> req_qualified request then
               (Inl (ErrPkgMismatch (rt_path_str rt path) (info_qualified info)
                  (req_qualified request)), run)
             else
               (let pkg = \<lparr>reg_source = SPN_PKG_SOURCE_FILE, reg_info = info, reg_manifest = path\<rparr>
                in (Inr pkg, run\<lparr>run_registry := ht_insert id pkg (run_registry run)\<rparr>))))"

text \<open>The registry entry a local request stands for: looked up, or loaded from its path.\<close>

definition find_local_pkg ::
    "runtime \<Rightarrow> spn_requested_dep_t \<Rightarrow> spn_resolve_run_t \<Rightarrow>
     (resolve_err + spn_registry_pkg_t) \<times> spn_resolve_run_t" where
  "find_local_pkg rt request run =
    (case ht_get (run_registry run) (registry_key (Some (req_qualified request))) of
       Some pkg \<Rightarrow> (Inr pkg, run)
     | None \<Rightarrow>
        (case req_target request of
           ReqFile path \<Rightarrow> load_file_pkg rt request path run
         | _ \<Rightarrow> (Inl (ErrPkgUnknown (req_qualified request) []), run)))"

fun keep_deps :: "('a \<Rightarrow> spn_when_t) \<Rightarrow> spn_when_env_t \<Rightarrow> 'a list \<Rightarrow> 'a list" where
  "keep_deps gate env [] = []"
| "keep_deps gate env (d # ds) =
    (if \<not> spn_when_eval (Some (gate d)) env then keep_deps gate env ds
     else d # keep_deps gate env ds)"

definition local_node :: "runtime \<Rightarrow> spn_registry_pkg_t \<Rightarrow> spn_resolved_pkg_t" where
  "local_node rt pkg =
    (let info = reg_info pkg in
     \<lparr>pkg_id = spn_pkg_id_zero\<lparr>id_qualified := Some (info_qualified info),
                              id_version := info_version info\<rparr>,
      pkg_name = info_name info,
      pkg_options = info_options info,
      pkg_source = reg_source pkg,
      pkg_priority = 0,
      pkg_deps = [],
      pkg_edges = [],
      pkg_origin =
        \<lparr>origin_recipe = RootLocal (spn_path_parent (reg_manifest pkg)),
         origin_source = spn_pkg_upstream info,
         origin_paths = \<lparr>paths_manifest = rt_fs_name rt (path_sub (reg_manifest pkg)),
                        paths_script = ''spn.c''\<rparr>,
         origin_info = Some info,
         origin_release = None\<rparr>\<rparr>)"

definition resolve_local_package ::
    "runtime \<Rightarrow> spn_resolver_t \<Rightarrow> solver \<Rightarrow> spn_resolved_pkg_t \<Rightarrow> spn_requested_dep_t \<Rightarrow>
     spn_resolve_run_t \<Rightarrow> outcome" where
  "resolve_local_package rt resolver rec from request run =
    (let name = Some (req_qualified request) in
     if ht_get (run_visited run) name \<noteq> None then
       Some (Some (ErrDepCycle (spn_pkg_name_from_qualified (rt_cleave rt) (req_qualified request))), run)
     else if ht_get (cur_named run) name \<noteq> None then Some (None, run)
     else
       (case find_local_pkg rt request run of
          (Inl err, run) \<Rightarrow> Some (Some err, run)
        | (Inr pkg, run) \<Rightarrow>
            let info = reg_info pkg;
                unsat = unsatisfiable_err rt from request ErrPkgConflictExact;
                go = do {
                  env \<leftarrow> node_options_env resolver (local_node rt pkg);
                  let node = (local_node rt pkg)
                    \<lparr>pkg_deps := rt_sort_reqs rt (sort_req_canonical rt)
                       (keep_deps req_when env (info_deps info))\<rparr>;
                  rec name node run
                }
            in case held_version run name of
                 None \<Rightarrow> go
               | Some (pinned, contradiction) \<Rightarrow>
                   if contradiction \<or> \<not> spn_semver_eq (info_version info) pinned
                   then Some (Some (unsat pinned), run) else go))"

section \<open>Index packages\<close>

definition request_from_index :: "spn_index_dep_t \<Rightarrow> spn_requested_dep_t" where
  "request_from_index dep =
     \<lparr>req_qualified = spn_pkg_name_to_qualified (idep_id dep),
      req_target = ReqIndex (idep_range dep),
      req_kind = dep_kind_from_index (idep_kind dep),
      req_private = idep_private dep,
      req_when = idep_when dep,
      req_options = idep_options dep\<rparr>"

definition release_name :: "spn_index_release_t \<Rightarrow> sp_name" where
  "release_name release = Some (spn_pkg_name_to_qualified (rel_id release))"

definition release_node :: "spn_index_release_t \<Rightarrow> spn_resolved_pkg_t" where
  "release_node release =
     \<lparr>pkg_id = spn_pkg_id_zero\<lparr>id_qualified := release_name release,
                              id_version := rel_version release\<rparr>,
      pkg_name = pn_name (rel_id release),
      pkg_options = rel_options release,
      pkg_source = SPN_PKG_SOURCE_INDEX,
      pkg_priority = 0,
      pkg_deps = [],
      pkg_edges = [],
      pkg_origin =
        \<lparr>origin_recipe =
           (if rel_manifest release \<noteq> RootNone then rel_manifest release else rel_source release),
         origin_source = rel_source release,
         origin_paths = rel_paths release,
         origin_info = None,
         origin_release = Some release\<rparr>\<rparr>"

definition try_candidate ::
    "runtime \<Rightarrow> spn_resolver_t \<Rightarrow> solver \<Rightarrow> spn_index_release_t \<Rightarrow> spn_resolve_run_t \<Rightarrow> outcome" where
  "try_candidate rt resolver rec release run =
    (if run_fatal run \<or> run_budget run = 0 then
       Some (Some (ErrTooComplex (rel_id release)), run\<lparr>run_fatal := True\<rparr>)
     else
       let run = run\<lparr>run_budget := run_budget run - 1\<rparr> in do {
         env \<leftarrow> node_options_env resolver (release_node release);
         let node = (release_node release)
           \<lparr>pkg_deps := rt_sort_reqs rt (sort_req_canonical rt)
              (map request_from_index (keep_deps idep_when env (rel_deps release)))\<rparr>;
         rec (release_name release) node run
       })"

text \<open>The loop over the releases, newest first, with the first error seen.\<close>

fun try_releases ::
    "runtime \<Rightarrow> spn_resolver_t \<Rightarrow> solver \<Rightarrow> spn_semver_range_t \<Rightarrow> spn_index_release_t list \<Rightarrow>
     resolve_err option \<Rightarrow> spn_resolve_run_t \<Rightarrow>
     ((resolve_err option \<times> bool) \<times> spn_resolve_run_t) option" where
  "try_releases rt resolver rec r [] first run = Some ((first, False), run)"
| "try_releases rt resolver rec r (release # rs) first run =
    (if rel_yanked release then try_releases rt resolver rec r rs first run
     else if \<not> spn_semver_in_range (rel_version release) r then
       try_releases rt resolver rec r rs first run
     else do {
       (err, run) \<leftarrow> try_candidate rt resolver rec release run;
       if err = None \<or> run_fatal run then Some ((err, True), run)
       else try_releases rt resolver rec r rs (if first = None then err else first) run
     })"

fun find_release :: "spn_index_release_t list \<Rightarrow> spn_semver_t \<Rightarrow> spn_index_release_t option" where
  "find_release [] v = None"
| "find_release (release # rs) v =
    (if spn_semver_eq (rel_version release) v then Some release else find_release rs v)"

text \<open>The releases are tried from the end of the list, which the loader of the index sorts by version;
  the model takes the list in the order it has.\<close>

definition resolve_index_package ::
    "runtime \<Rightarrow> spn_resolver_t \<Rightarrow> solver \<Rightarrow> spn_resolved_pkg_t \<Rightarrow> spn_requested_dep_t \<Rightarrow>
     spn_semver_range_t \<Rightarrow> spn_resolve_run_t \<Rightarrow> outcome" where
  "resolve_index_package rt resolver rec from request r run =
    (let name = Some (req_qualified request);
         pkg_name = spn_pkg_name_from_qualified (rt_cleave rt) (req_qualified request);
         conflict = unsatisfiable_err rt from request ErrPkgConflict
     in
     if ht_get (run_visited run) name \<noteq> None then Some (Some (ErrDepCycle pkg_name), run)
     else case ht_get (cur_named run) name of
       Some existing \<Rightarrow>
         if spn_semver_in_range (id_version (pkg_id existing)) r then Some (None, run)
         else Some (Some (conflict (id_version (pkg_id existing))), run)
     | None \<Rightarrow>
        (case rt_get_package rt pkg_name of
           Inl got \<Rightarrow> Some (Some (index_err request got), run)
         | Inr None \<Rightarrow>
             Some (Some (ErrPkgUnknown (req_qualified request)
                     (spn_semver_range_to_str (rt_fmt rt) r)), run)
         | Inr (Some pkg) \<Rightarrow>
            (case held_version run name of
               Some (pinned, contradiction) \<Rightarrow>
                 if contradiction \<or> \<not> spn_semver_in_range pinned r
                 then Some (Some (conflict pinned), run)
                 else (case find_release (ipkg_releases pkg) pinned of
                     Some release \<Rightarrow> try_candidate rt resolver rec release run
                   | None \<Rightarrow> Some (Some (conflict pinned), run))
             | None \<Rightarrow> do {
                 ((err, stop), run) \<leftarrow>
                   try_releases rt resolver rec r (rev (ipkg_releases pkg)) None run;
                 if stop then Some (err, run)
                 else case err of
                     Some e \<Rightarrow> Some (Some e, run)
                   | None \<Rightarrow>
                       Some (Some (unsatisfiable_err rt from request ErrPkgNoMatch semver_zero), run)
               })))"

section \<open>Dependencies and nodes\<close>

definition resolve_dep ::
    "runtime \<Rightarrow> spn_resolver_t \<Rightarrow> solver \<Rightarrow> spn_resolved_pkg_t \<Rightarrow> spn_requested_dep_t \<Rightarrow>
     spn_resolve_run_t \<Rightarrow> outcome" where
  "resolve_dep rt resolver rec node dep run = do {
     edge \<leftarrow> classify_dep resolver (run_registry run) node dep;
     let push = Some (None, run\<lparr>run_boundaries := run_boundaries run @
            [\<lparr>bd_from = pkg_id node, bd_edge = edge, bd_req = dep\<rparr>]\<rparr>);
     case edge of
       SPN_DEP_EDGE_PRUNED \<Rightarrow> Some (None, run)
     | SPN_DEP_EDGE_PROCESS \<Rightarrow> push
     | SPN_DEP_EDGE_PRIVATE \<Rightarrow> push
     | SPN_DEP_EDGE_SCOPE \<Rightarrow>
        (case req_target dep of
           ReqIndex r \<Rightarrow> resolve_index_package rt resolver rec node dep r run
         | _ \<Rightarrow> resolve_local_package rt resolver rec node dep run)
   }"

fun resolve_dep_list ::
    "runtime \<Rightarrow> spn_resolver_t \<Rightarrow> solver \<Rightarrow> spn_resolved_pkg_t \<Rightarrow> spn_requested_dep_t list \<Rightarrow>
     spn_resolve_run_t \<Rightarrow> outcome" where
  "resolve_dep_list rt resolver rec node [] run = Some (None, run)"
| "resolve_dep_list rt resolver rec node (dep # deps) run = do {
     (err, run) \<leftarrow> resolve_dep rt resolver rec node dep run;
     if err \<noteq> None then Some (err, run) else resolve_dep_list rt resolver rec node deps run
   }"

definition resolve_deps ::
    "runtime \<Rightarrow> spn_resolver_t \<Rightarrow> solver \<Rightarrow> spn_resolved_pkg_t \<Rightarrow> spn_resolve_run_t \<Rightarrow> outcome" where
  "resolve_deps rt resolver rec node run = do {
     let name = id_qualified (pkg_id node);
     let run = run\<lparr>run_visited := ht_insert name 1 (run_visited run)\<rparr>;
     (err, run) \<leftarrow> resolve_dep_list rt resolver rec node (pkg_deps node) run;
     Some (err, run\<lparr>run_visited := ht_erase name (run_visited run)\<rparr>)
   }"

primrec solve_node :: "runtime \<Rightarrow> spn_resolver_t \<Rightarrow> nat \<Rightarrow> solver" where
  "solve_node rt resolver 0 name node run = None"
| "solve_node rt resolver (Suc fuel) name node run = do {
     let node = node\<lparr>pkg_priority := run_picks run\<rparr>;
     let run = run\<lparr>run_picks := run_picks run + 1\<rparr>;
     let snapshot = snapshot_named rt run;
     let boundaries = length (run_boundaries run);
     let run = set_named (ht_insert name node (cur_named run)) run;
     (err, run) \<leftarrow> resolve_deps rt resolver (solve_node rt resolver fuel) node run;
     Some (err, if err \<noteq> None
                then truncate_boundaries boundaries (restore_named rt snapshot run) else run)
   }"

section \<open>The requests of a scope\<close>

definition root_node :: spn_resolved_pkg_t where
  "root_node =
     \<lparr>pkg_id = spn_pkg_id [], pkg_name = [], pkg_options = [],
      pkg_source = SPN_PKG_SOURCE_ROOT, pkg_priority = 0, pkg_deps = [], pkg_edges = [],
      pkg_origin = \<lparr>origin_recipe = RootNone, origin_source = RootNone,
        origin_paths = \<lparr>paths_manifest = [], paths_script = []\<rparr>, origin_info = None,
        origin_release = None\<rparr>\<rparr>"

definition solve_reqs ::
    "runtime \<Rightarrow> spn_resolver_t \<Rightarrow> nat \<Rightarrow> nat \<Rightarrow> nat \<Rightarrow> spn_resolve_run_t \<Rightarrow> outcome" where
  "solve_reqs rt resolver fuel from to run =
     resolve_dep_list rt resolver (solve_node rt resolver fuel) root_node
       (take (to - from) (drop from (scope_reqs (current_scope run)))) run"

record spn_witness_t =
  wit_entries :: named
  wit_boundaries :: "spn_scope_boundary_t list"

definition capture_witness ::
    "runtime \<Rightarrow> spn_resolve_run_t \<Rightarrow> sp_name list \<Rightarrow> nat \<Rightarrow> spn_witness_t" where
  "capture_witness rt run snapshot boundaries =
     \<lparr>wit_entries = filter (\<lambda>(k, _). k \<notin> set snapshot) (rt_named_order rt (cur_named run)),
      wit_boundaries = drop boundaries (run_boundaries run)\<rparr>"

text \<open>The out parameter: \<open>None\<close> is the null pointer, \<open>Some None\<close> a witness
  that holds nothing yet.\<close>

definition attempt_reqs ::
    "runtime \<Rightarrow> spn_resolver_t \<Rightarrow> nat \<Rightarrow> nat \<Rightarrow> nat \<Rightarrow> bool \<Rightarrow> spn_witness_t option option \<Rightarrow>
     spn_resolve_run_t \<Rightarrow>
     ((resolve_err option \<times> spn_witness_t option option) \<times> spn_resolve_run_t) option" where
  "attempt_reqs rt resolver fuel from to keep witness run = do {
     let snapshot = snapshot_named rt run;
     let boundaries = length (run_boundaries run);
     (err, run) \<leftarrow> solve_reqs rt resolver fuel from to run;
     let witness = (if err = None \<and> witness \<noteq> None
                    then Some (Some (capture_witness rt run snapshot boundaries)) else witness);
     let run = (if err \<noteq> None \<or> \<not> keep
                then truncate_boundaries boundaries (restore_named rt snapshot run) else run);
     Some ((err, witness), run)
   }"

definition set_pins :: "spn_pin_t list \<Rightarrow> spn_resolve_run_t \<Rightarrow> spn_resolve_run_t" where
  "set_pins pins = update_scope (\<lambda>s. s\<lparr>scope_pins := pins\<rparr>)"

text \<open>The loop that keeps a pin when the requests are still satisfiable under it.\<close>

fun keep_pins ::
    "runtime \<Rightarrow> spn_resolver_t \<Rightarrow> nat \<Rightarrow> nat \<Rightarrow> nat \<Rightarrow> spn_pin_t list \<Rightarrow> spn_witness_t option option \<Rightarrow>
     spn_resolve_run_t \<Rightarrow>
     ((resolve_err option \<times> spn_witness_t option option) \<times> spn_resolve_run_t) option" where
  "keep_pins rt resolver fuel from to [] witness run = Some ((None, witness), run)"
| "keep_pins rt resolver fuel from to (pin # pins) witness run = do {
     let run = set_pins (scope_pins (current_scope run) @ [pin]) run;
     ((err, witness), run) \<leftarrow> attempt_reqs rt resolver fuel from to False witness run;
     if err \<noteq> None then
       (if run_fatal run then Some ((err, witness), run)
        else keep_pins rt resolver fuel from to pins witness
               (set_pins (butlast (scope_pins (current_scope run))) run))
     else keep_pins rt resolver fuel from to pins witness run
   }"

definition install_witness :: "spn_witness_t \<Rightarrow> spn_resolve_run_t \<Rightarrow> spn_resolve_run_t" where
  "install_witness witness run =
    (let run = set_named (fold (\<lambda>(k, v). ht_insert k v) (wit_entries witness) (cur_named run)) run
     in run\<lparr>run_boundaries := run_boundaries run @ wit_boundaries witness\<rparr>)"

definition resolve_scope ::
    "runtime \<Rightarrow> spn_resolver_t \<Rightarrow> nat \<Rightarrow> spn_resolve_run_t \<Rightarrow> outcome" where
  "resolve_scope rt resolver fuel run = do {
     let scope = current_scope run;
     let from = scope_cursor scope;
     let to = length (scope_reqs scope);
     let run = update_scope (\<lambda>s. s\<lparr>scope_cursor := to,
           scope_reqs := take from (scope_reqs s) @
             rt_sort_reqs rt (sort_req_canonical rt) (drop from (scope_reqs s))\<rparr>) run;
     let run = run\<lparr>run_budget := res_budget resolver\<rparr>;
     if from \<noteq> 0 \<or> run_result run = [] then solve_reqs rt resolver fuel from to run
     else do {
       let picks = rt_sort_picks rt sort_pick_by_priority
             (map snd (rt_result_order rt (run_result run)));
       let pins = map (\<lambda>p. \<lparr>pin_name = id_qualified (pkg_id p),
                           pin_version = id_version (pkg_id p)\<rparr>) picks;
       let run = set_pins (scope_pins (current_scope run) @ pins) run;
       ((err, _), run) \<leftarrow> attempt_reqs rt resolver fuel from to True None run;
       if err = None \<or> run_fatal run then Some (err, run)
       else do {
         let run = set_pins [] run;
         ((err, witness), run) \<leftarrow> keep_pins rt resolver fuel from to pins (Some None) run;
         if err \<noteq> None then Some (err, run)
         else case witness of
             Some (Some w) \<Rightarrow> Some (None, install_witness w run)
           | _ \<Rightarrow> solve_reqs rt resolver fuel from to run
       }
     }
   }"

section \<open>From one scope to the next\<close>

definition commit_scope :: "runtime \<Rightarrow> spn_resolve_run_t \<Rightarrow> spn_resolve_run_t" where
  "commit_scope rt run =
     run\<lparr>run_result :=
       fold (\<lambda>(k, node) result.
               if ht_get result (pkg_id node) = None then ht_insert (pkg_id node) node result
               else result)
         (rt_named_order rt (cur_named run)) (run_result run)\<rparr>"

definition process_boundary ::
    "nat \<Rightarrow> spn_scope_boundary_t \<Rightarrow> spn_resolve_run_t \<Rightarrow> spn_resolve_run_t" where
  "process_boundary from boundary run =
    (let root = (if bd_edge boundary = SPN_DEP_EDGE_PRIVATE then id_qualified (bd_from boundary)
                 else Some (req_qualified (bd_req boundary)));
         (target, run) = find_or_create_scope run root (bd_from boundary);
         run = run\<lparr>run_edges := run_edges run @
                 [\<lparr>edge_from = from, edge_to = target,
                   edge_private = (bd_edge boundary = SPN_DEP_EDGE_PRIVATE)\<rparr>]\<rparr>;
         req = (bd_req boundary)\<lparr>req_kind := SPN_DEP_KIND_PACKAGE, req_private := False\<rparr>;
         scope = run_scopes run ! target
     in run\<lparr>run_scopes := (run_scopes run)
              [target := scope\<lparr>scope_reqs := scope_reqs scope @ [req]\<rparr>]\<rparr>)"

definition process_boundaries :: "spn_resolve_run_t \<Rightarrow> spn_resolve_run_t" where
  "process_boundaries run =
     (fold (process_boundary (run_scope run)) (run_boundaries run) run)\<lparr>run_boundaries := []\<rparr>"

end
