(* ===== verification/Resolve_Groups.thy ===== *)
theory Resolve_Groups
  imports Resolve
begin

text \<open>
  The rest of \<open>source/core/resolve/resolve.c\<close>: the processes of the scopes, the edges
  between the packages of all scopes, the check for cycles, the hash of a package with
  everything it depends on, the instances of the result, the check for two copies of a shared
  library in one process, and the loops that drive the scopes.

  A group node is a package in a scope: the index of the scope and a name. The walks over group
  nodes are depth-first over a table that marks a node 1 while it is open and 2 when it is done;
  they take a fuel for the depth of the recursion, and \<open>None\<close> is a walk out of fuel or a
  read of an absent table entry. \<open>Resolve_Cycles\<close> shows that one more than the number of
  group nodes is enough. The two outer loops may run as long as scopes produce requests; they
  are \<open>partial_function\<close>s, and not to return is the value \<open>None\<close>.
\<close>

section \<open>Processes\<close>

definition scope_has_process :: "spn_scope_t \<Rightarrow> nat \<Rightarrow> bool" where
  "scope_has_process scope process \<longleftrightarrow> process \<in> set (scope_processes scope)"

definition scope_add_process :: "nat \<Rightarrow> spn_scope_t \<Rightarrow> spn_scope_t" where
  "scope_add_process process scope =
    (if process \<in> set (scope_processes scope) then scope
     else scope\<lparr>scope_processes := scope_processes scope @ [process]\<rparr>)"

definition add_process :: "nat \<Rightarrow> nat \<Rightarrow> spn_scope_t list \<Rightarrow> spn_scope_t list" where
  "add_process i process scopes = scopes[i := scope_add_process process (scopes ! i)]"

definition own_process :: "spn_scope_edge_t \<Rightarrow> spn_scope_t list \<Rightarrow> spn_scope_t list" where
  "own_process edge scopes =
    (if edge_private edge then scopes else add_process (edge_to edge) (edge_to edge) scopes)"

text \<open>One step of the inner loop: a process of the source scope reaches the target.\<close>

definition spread_process ::
    "nat \<Rightarrow> nat \<Rightarrow> bool \<times> spn_scope_t list \<Rightarrow> bool \<times> spn_scope_t list" where
  "spread_process to process st =
    (if scope_has_process (snd st ! to) process then st
     else (True, add_process to process (snd st)))"

definition spread_edge ::
    "spn_scope_edge_t \<Rightarrow> bool \<times> spn_scope_t list \<Rightarrow> bool \<times> spn_scope_t list" where
  "spread_edge edge st =
    (if \<not> edge_private edge then st
     else fold (spread_process (edge_to edge)) (scope_processes (snd st ! edge_from edge)) st)"

definition spread_pass :: "spn_scope_edge_t list \<Rightarrow> spn_scope_t list \<Rightarrow> bool \<times> spn_scope_t list" where
  "spread_pass edges scopes = fold spread_edge edges (False, scopes)"

partial_function (option) spread_loop ::
    "spn_scope_edge_t list \<Rightarrow> spn_scope_t list \<Rightarrow> spn_scope_t list option" where
  "spread_loop edges scopes =
    (if fst (spread_pass edges scopes) then spread_loop edges (snd (spread_pass edges scopes))
     else Some (snd (spread_pass edges scopes)))"

definition compute_processes :: "spn_resolve_run_t \<Rightarrow> spn_resolve_run_t option" where
  "compute_processes run =
     map_option (\<lambda>scopes. run\<lparr>run_scopes := scopes\<rparr>)
       (spread_loop (run_edges run)
         (fold own_process (run_edges run) (add_process 0 0 (run_scopes run))))"

section \<open>Edges between packages\<close>

type_synonym spn_group_node_t = "nat \<times> sp_name"

record spn_node_edge_t =
  ne_scope :: nat
  ne_name :: sp_name
  ne_node :: spn_resolved_pkg_t
  ne_kind :: spn_dep_kind_t
  ne_edge :: spn_dep_edge_t
  ne_private :: bool

text \<open>The edge of one dependency, if it leads to a package.\<close>

definition node_edge ::
    "spn_resolver_t \<Rightarrow> spn_resolve_run_t \<Rightarrow> nat \<Rightarrow> spn_resolved_pkg_t \<Rightarrow> spn_requested_dep_t \<Rightarrow>
     spn_node_edge_t option option" where
  "node_edge resolver run s node dep = do {
     edge \<leftarrow> classify_dep resolver (run_registry run) node dep;
     let name = Some (req_qualified dep);
     let found =
       (if edge = SPN_DEP_EDGE_SCOPE then Some s
        else find_scope run (if edge = SPN_DEP_EDGE_PRIVATE then id_qualified (pkg_id node) else name)
               (pkg_id node));
     Some
      (if edge = SPN_DEP_EDGE_PRUNED then None
       else case found of
           None \<Rightarrow> None
         | Some target_scope \<Rightarrow>
            (case ht_get (scope_named (run_scopes run ! target_scope)) name of
               None \<Rightarrow> None
             | Some target \<Rightarrow>
                 Some \<lparr>ne_scope = target_scope, ne_name = name, ne_node = target,
                       ne_kind = req_kind dep, ne_edge = edge, ne_private = req_private dep\<rparr>))
   }"

definition edge_present :: "spn_node_edge_t \<Rightarrow> spn_node_edge_t \<Rightarrow> bool" where
  "edge_present e e' \<longleftrightarrow>
     ne_scope e' = ne_scope e \<and> ne_name e' = ne_name e \<and> ne_kind e' = ne_kind e \<and>
     ne_private e' = ne_private e"

fun collect_edges ::
    "spn_resolver_t \<Rightarrow> spn_resolve_run_t \<Rightarrow> nat \<Rightarrow> spn_resolved_pkg_t \<Rightarrow> spn_requested_dep_t list \<Rightarrow>
     spn_node_edge_t list \<Rightarrow> spn_node_edge_t list option" where
  "collect_edges resolver run s node [] edges = Some edges"
| "collect_edges resolver run s node (dep # deps) edges = do {
     found \<leftarrow> node_edge resolver run s node dep;
     collect_edges resolver run s node deps
       (case found of
          None \<Rightarrow> edges
        | Some e \<Rightarrow> if list_ex (edge_present e) edges then edges else edges @ [e])
   }"

definition collect_node_edges ::
    "spn_resolver_t \<Rightarrow> spn_resolve_run_t \<Rightarrow> nat \<Rightarrow> spn_resolved_pkg_t \<Rightarrow> spn_node_edge_t list option" where
  "collect_node_edges resolver run s node = collect_edges resolver run s node (pkg_deps node) []"

section \<open>Cycles\<close>

type_synonym spn_group_states_t = "(spn_group_node_t \<times> u8) list"
type_synonym cycle_walk =
  "nat \<Rightarrow> sp_name \<Rightarrow> spn_group_states_t \<Rightarrow> (resolve_err option \<times> spn_group_states_t) option"

fun check_edges ::
    "cycle_walk \<Rightarrow> spn_node_edge_t list \<Rightarrow> spn_group_states_t \<Rightarrow>
     (resolve_err option \<times> spn_group_states_t) option" where
  "check_edges rec [] states = Some (None, states)"
| "check_edges rec (e # es) states = do {
     (err, states) \<leftarrow> rec (ne_scope e) (ne_name e) states;
     if err \<noteq> None then Some (err, states) else check_edges rec es states
   }"

primrec check_group_cycle ::
    "runtime \<Rightarrow> spn_resolver_t \<Rightarrow> spn_resolve_run_t \<Rightarrow> nat \<Rightarrow> cycle_walk" where
  "check_group_cycle rt resolver run 0 s name states = None"
| "check_group_cycle rt resolver run (Suc fuel) s name states =
    (if ht_get states (s, name) = Some 2 then Some (None, states)
     else case ht_get (scope_named (run_scopes run ! s)) name of
       None \<Rightarrow> Some (None, states)
     | Some node \<Rightarrow>
         if ht_get states (s, name) = Some 1 then
           Some (Some (ErrUnitCycle
              (spn_pkg_name_from_qualified (rt_cleave rt) (name_text (id_qualified (pkg_id node))))
              (id_version (pkg_id node))), states)
         else do {
           let states = ht_insert (s, name) 1 states;
           edges \<leftarrow> collect_node_edges resolver run s node;
           (err, states) \<leftarrow> check_edges (check_group_cycle rt resolver run fuel) edges states;
           Some (if err \<noteq> None then (err, states) else (None, ht_insert (s, name) 2 states))
         })"

text \<open>All group nodes, scope by scope, in the order the loops over the scopes meet them.\<close>

definition group_nodes :: "runtime \<Rightarrow> spn_resolve_run_t \<Rightarrow> (nat \<times> sp_name \<times> spn_resolved_pkg_t) list" where
  "group_nodes rt run =
     concat (map (\<lambda>s. map (\<lambda>(name, node). (s, name, node))
                       (rt_named_order rt (scope_named (run_scopes run ! s))))
            [0..<length (run_scopes run)])"

fun check_nodes ::
    "cycle_walk \<Rightarrow> (nat \<times> sp_name \<times> spn_resolved_pkg_t) list \<Rightarrow> spn_group_states_t \<Rightarrow>
     (resolve_err option \<times> spn_group_states_t) option" where
  "check_nodes rec [] states = Some (None, states)"
| "check_nodes rec ((s, name, _) # ns) states = do {
     (err, states) \<leftarrow> rec s name states;
     if err \<noteq> None then Some (err, states) else check_nodes rec ns states
   }"

definition check_group_cycles ::
    "runtime \<Rightarrow> spn_resolver_t \<Rightarrow> nat \<Rightarrow> spn_resolve_run_t \<Rightarrow> resolve_err option option" where
  "check_group_cycles rt resolver fuel run =
     map_option fst (check_nodes (check_group_cycle rt resolver run fuel) (group_nodes rt run) [])"

section \<open>Hashes\<close>

record spn_hash_state_t =
  hst_state :: u8
  hst_hash :: u64

type_synonym spn_group_hash_t = "(spn_group_node_t \<times> spn_hash_state_t) list"
type_synonym hash_walk =
  "nat \<Rightarrow> sp_name \<Rightarrow> spn_group_hash_t \<Rightarrow> (u64 \<times> spn_group_hash_t) option"

definition leaf_hash :: "runtime \<Rightarrow> spn_resolved_pkg_t \<Rightarrow> u64" where
  "leaf_hash rt instance =
     rt_hash_version rt (id_version (pkg_id instance))
       (rt_hash_str rt (name_text (id_qualified (pkg_id instance))))"

definition sort_edge_record :: "spn_edge_record_t \<Rightarrow> spn_edge_record_t \<Rightarrow> int" where
  "sort_edge_record lhs rhs =
    (if erec_hash lhs \<noteq> erec_hash rhs then (if erec_hash lhs < erec_hash rhs then -1 else 1)
     else first_nonzero
       [rank_cmp (dep_kind_rank (erec_kind lhs)) (dep_kind_rank (erec_kind rhs)),
        rank_cmp (of_bool (erec_private lhs)) (of_bool (erec_private rhs))])"

fun hash_edges ::
    "hash_walk \<Rightarrow> spn_node_edge_t list \<Rightarrow> spn_group_hash_t \<Rightarrow>
     (spn_edge_record_t list \<times> spn_group_hash_t) option" where
  "hash_edges rec [] memo = Some ([], memo)"
| "hash_edges rec (e # es) memo = do {
     (h, memo) \<leftarrow> rec (ne_scope e) (ne_name e) memo;
     (records, memo) \<leftarrow> hash_edges rec es memo;
     Some (\<lparr>erec_hash = h, erec_kind = ne_kind e, erec_private = ne_private e\<rparr> # records, memo)
   }"

text \<open>The hash of a package over the records of its edges.\<close>

definition node_hash :: "runtime \<Rightarrow> spn_resolved_pkg_t \<Rightarrow> spn_edge_record_t list \<Rightarrow> u64" where
  "node_hash rt node records =
    (let records = rt_sort_records rt sort_edge_record records;
         hash = leaf_hash rt node
     in if records \<noteq> [] then rt_hash_records rt records hash else hash)"

primrec hash_group_node ::
    "runtime \<Rightarrow> spn_resolver_t \<Rightarrow> spn_resolve_run_t \<Rightarrow> nat \<Rightarrow> hash_walk" where
  "hash_group_node rt resolver run 0 s name memo = None"
| "hash_group_node rt resolver run (Suc fuel) s name memo = do {
     node \<leftarrow> ht_get (scope_named (run_scopes run ! s)) name;
     let state = ht_get memo (s, name);
     if map_option hst_state state = Some 2 then Some (hst_hash (the state), memo)
     else if map_option hst_state state = Some 1 then Some (leaf_hash rt node, memo)
     else do {
       let memo = ht_insert (s, name) \<lparr>hst_state = 1, hst_hash = 0\<rparr> memo;
       edges \<leftarrow> collect_node_edges resolver run s node;
       (records, memo) \<leftarrow> hash_edges (hash_group_node rt resolver run fuel) edges memo;
       let hash = node_hash rt node records;
       Some (hash, ht_insert (s, name) \<lparr>hst_state = 2, hst_hash = hash\<rparr> memo)
     }
   }"

fun hash_nodes ::
    "hash_walk \<Rightarrow> (nat \<times> sp_name \<times> spn_resolved_pkg_t) list \<Rightarrow> spn_group_hash_t \<Rightarrow>
     spn_group_hash_t option" where
  "hash_nodes rec [] memo = Some memo"
| "hash_nodes rec ((s, name, _) # ns) memo = do {
     (_, memo) \<leftarrow> rec s name memo;
     hash_nodes rec ns memo
   }"

section \<open>Instances\<close>

definition memo_hash :: "spn_group_hash_t \<Rightarrow> nat \<Rightarrow> sp_name \<Rightarrow> u64 option" where
  "memo_hash memo s name = map_option hst_hash (ht_get memo (s, name))"

fun instance_edges ::
    "spn_group_hash_t \<Rightarrow> spn_node_edge_t list \<Rightarrow> spn_resolved_dep_t list option" where
  "instance_edges memo [] = Some []"
| "instance_edges memo (e # es) = do {
     h \<leftarrow> memo_hash memo (ne_scope e) (ne_name e);
     deps \<leftarrow> instance_edges memo es;
     Some (\<lparr>rdep_id = (pkg_id (ne_node e))\<lparr>id_hash := h\<rparr>, rdep_kind = ne_kind e,
            rdep_edge = ne_edge e, rdep_private = ne_private e\<rparr> # deps)
   }"

definition add_instance ::
    "spn_resolver_t \<Rightarrow> spn_resolve_run_t \<Rightarrow> spn_group_hash_t \<Rightarrow>
     nat \<times> sp_name \<times> spn_resolved_pkg_t \<Rightarrow> spn_resolve_t \<Rightarrow> spn_resolve_t option" where
  "add_instance resolver run memo entry rekeyed = (case entry of (s, name, node) \<Rightarrow> do {
     h \<leftarrow> memo_hash memo s name;
     let id = (pkg_id node)\<lparr>id_hash := h\<rparr>;
     if ht_get rekeyed id \<noteq> None then Some rekeyed
     else do {
       edges \<leftarrow> collect_node_edges resolver run s node;
       deps \<leftarrow> instance_edges memo edges;
       Some (ht_insert id (node\<lparr>pkg_id := id, pkg_edges := deps\<rparr>) rekeyed)
     }
   })"

fun add_instances ::
    "spn_resolver_t \<Rightarrow> spn_resolve_run_t \<Rightarrow> spn_group_hash_t \<Rightarrow>
     (nat \<times> sp_name \<times> spn_resolved_pkg_t) list \<Rightarrow> spn_resolve_t \<Rightarrow> spn_resolve_t option" where
  "add_instances resolver run memo [] rekeyed = Some rekeyed"
| "add_instances resolver run memo (entry # entries) rekeyed = do {
     rekeyed \<leftarrow> add_instance resolver run memo entry rekeyed;
     add_instances resolver run memo entries rekeyed
   }"

definition commit_instances ::
    "runtime \<Rightarrow> spn_resolver_t \<Rightarrow> spn_group_hash_t \<Rightarrow> spn_resolve_run_t \<Rightarrow> spn_resolve_run_t option" where
  "commit_instances rt resolver memo run =
     map_option (\<lambda>rekeyed. run\<lparr>run_result := rekeyed\<rparr>)
       (add_instances resolver run memo (group_nodes rt run) [])"

section \<open>Two copies of a shared library in one process\<close>

record spn_shared_seen_t =
  seen_node :: spn_resolved_pkg_t
  seen_hash :: u64

text \<open>The loop over the packages of a process: \<open>Inl\<close> is the pair that stops it.\<close>

fun find_duplicate ::
    "spn_resolver_t \<Rightarrow> spn_resolve_run_t \<Rightarrow> spn_group_hash_t \<Rightarrow>
     (nat \<times> sp_name \<times> spn_resolved_pkg_t) list \<Rightarrow> (sp_name \<times> spn_shared_seen_t) list \<Rightarrow>
     (spn_resolved_pkg_t \<times> spn_resolved_pkg_t) option option" where
  "find_duplicate resolver run memo [] shared = Some None"
| "find_duplicate resolver run memo ((s, name, node) # entries) shared = do {
     is_shared \<leftarrow> node_is_shared resolver (run_registry run) node;
     if \<not> is_shared then find_duplicate resolver run memo entries shared
     else do {
       hash \<leftarrow> memo_hash memo s name;
       case ht_get shared (id_qualified (pkg_id node)) of
         None \<Rightarrow>
           find_duplicate resolver run memo entries
             (ht_insert (id_qualified (pkg_id node)) \<lparr>seen_node = node, seen_hash = hash\<rparr> shared)
       | Some prior \<Rightarrow>
           if seen_hash prior = hash then find_duplicate resolver run memo entries shared
           else Some (Some (seen_node prior, node))
     }
   }"

definition process_nodes ::
    "runtime \<Rightarrow> spn_resolve_run_t \<Rightarrow> nat \<Rightarrow> (nat \<times> sp_name \<times> spn_resolved_pkg_t) list" where
  "process_nodes rt run process =
     filter (\<lambda>(s, _). scope_has_process (run_scopes run ! s) process) (group_nodes rt run)"

fun find_duplicates ::
    "runtime \<Rightarrow> spn_resolver_t \<Rightarrow> spn_resolve_run_t \<Rightarrow> spn_group_hash_t \<Rightarrow> nat list \<Rightarrow>
     (spn_resolved_pkg_t \<times> spn_resolved_pkg_t) option option" where
  "find_duplicates rt resolver run memo [] = Some None"
| "find_duplicates rt resolver run memo (process # ps) = do {
     found \<leftarrow> find_duplicate resolver run memo (process_nodes rt run process) [];
     if found \<noteq> None then Some found else find_duplicates rt resolver run memo ps
   }"

definition check_dynamic_duplicates ::
    "runtime \<Rightarrow> spn_resolver_t \<Rightarrow> spn_group_hash_t \<Rightarrow> spn_resolve_run_t \<Rightarrow> outcome" where
  "check_dynamic_duplicates rt resolver memo run = do {
     found \<leftarrow> find_duplicates rt resolver run memo [0..<length (run_scopes run)];
     Some (case found of
       None \<Rightarrow> (None, run)
     | Some (prior, node) \<Rightarrow>
        (let ordered = spn_semver_le (id_version (pkg_id prior)) (id_version (pkg_id node));
             low = (if ordered then id_version (pkg_id prior) else id_version (pkg_id node));
             high = (if ordered then id_version (pkg_id node) else id_version (pkg_id prior));
             name = id_qualified (pkg_id node)
         in (Some (ErrDynamicDuplicate
                (spn_pkg_name_from_qualified (rt_cleave rt) (name_text name)) low high),
             if run_forced run = None \<and> \<not> spn_semver_eq low high
             then run\<lparr>run_retry := [\<lparr>pin_name = name, pin_version = low\<rparr>,
                                    \<lparr>pin_name = name, pin_version = high\<rparr>]\<rparr>
             else run)))
   }"

section \<open>The driver\<close>

record spn_resolve_query_t =
  query_reqs :: "spn_requested_dep_t list"
  query_result :: spn_resolve_t
  query_errors :: "resolve_err list"

definition spn_resolve_query_init :: spn_resolve_query_t where
  "spn_resolve_query_init = \<lparr>query_reqs = [], query_result = [], query_errors = []\<rparr>"

definition spn_resolve_query_add :: "spn_resolve_query_t \<Rightarrow> spn_requested_dep_t \<Rightarrow> spn_resolve_query_t" where
  "spn_resolve_query_add query req = query\<lparr>query_reqs := query_reqs query @ [req]\<rparr>"

text \<open>One sweep over the scopes from index \<open>i\<close>; scopes added on the way are met too.
  The result carries the progress flag.\<close>

partial_function (option) sweep_scopes ::
    "runtime \<Rightarrow> spn_resolver_t \<Rightarrow> nat \<Rightarrow> nat \<Rightarrow> bool \<Rightarrow> spn_resolve_run_t \<Rightarrow>
     ((resolve_err option \<times> bool) \<times> spn_resolve_run_t) option" where
  "sweep_scopes rt resolver fuel i progress run =
    (if length (run_scopes run) \<le> i then Some ((None, progress), run)
     else if scope_cursor (run_scopes run ! i) = length (scope_reqs (run_scopes run ! i)) then
       sweep_scopes rt resolver fuel (i + 1) progress run
     else do {
       (err, run) \<leftarrow> resolve_scope rt resolver fuel (run\<lparr>run_scope := i\<rparr>);
       if err \<noteq> None then Some ((err, True), run)
       else sweep_scopes rt resolver fuel (i + 1) True (process_boundaries (commit_scope rt run))
     })"

partial_function (option) solve_scopes ::
    "runtime \<Rightarrow> spn_resolver_t \<Rightarrow> nat \<Rightarrow> spn_resolve_run_t \<Rightarrow> outcome" where
  "solve_scopes rt resolver fuel run = do {
     ((err, progress), run) \<leftarrow> sweep_scopes rt resolver fuel 0 False run;
     if err \<noteq> None then Some (err, run)
     else if progress then solve_scopes rt resolver fuel run
     else Some (None, run)
   }"

declare spread_loop.simps [code] sweep_scopes.simps [code] solve_scopes.simps [code]

definition initial_run ::
    "spn_resolve_query_t \<Rightarrow> registry \<Rightarrow> spn_pin_t option \<Rightarrow> spn_resolve_run_t" where
  "initial_run query registry forced =
     \<lparr>run_result = query_result query, run_registry = registry, run_scopes = [],
      run_boundaries = [], run_edges = [], run_visited = [], run_scope = 0, run_picks = 0,
      run_budget = 0, run_fatal = False, run_forced = forced, run_retry = []\<rparr>"

text \<open>The number of group nodes, which bounds the depth of the walks.\<close>

definition group_fuel :: "spn_resolve_run_t \<Rightarrow> nat" where
  "group_fuel run = sum_list (map (length \<circ> scope_named) (run_scopes run)) + 2"

definition finish_groups :: "runtime \<Rightarrow> spn_resolver_t \<Rightarrow> spn_resolve_run_t \<Rightarrow> outcome" where
  "finish_groups rt resolver run = do {
     run \<leftarrow> compute_processes run;
     err \<leftarrow> check_group_cycles rt resolver (group_fuel run) run;
     if err \<noteq> None then Some (err, run)
     else do {
       memo \<leftarrow> hash_nodes (hash_group_node rt resolver run (group_fuel run)) (group_nodes rt run) [];
       run \<leftarrow> commit_instances rt resolver memo run;
       check_dynamic_duplicates rt resolver memo run
     }
   }"

definition solve_once ::
    "runtime \<Rightarrow> spn_resolver_t \<Rightarrow> nat \<Rightarrow> spn_resolve_query_t \<Rightarrow> registry \<Rightarrow> spn_pin_t option \<Rightarrow> outcome" where
  "solve_once rt resolver fuel query registry forced = do {
     let (root, run) =
       find_or_create_scope (initial_run query registry forced) None spn_pkg_id_zero;
     let scope = run_scopes run ! root;
     let run = run\<lparr>run_scopes := (run_scopes run)
                   [root := scope\<lparr>scope_reqs := scope_reqs scope @ query_reqs query\<rparr>]\<rparr>;
     (err, run) \<leftarrow> solve_scopes rt resolver fuel run;
     if err \<noteq> None then Some (err, run) else finish_groups rt resolver run
   }"

text \<open>The retries: each one starts from an empty result; the first that succeeds clears the
  error.\<close>

fun retry_pins ::
    "runtime \<Rightarrow> spn_resolver_t \<Rightarrow> nat \<Rightarrow> spn_pin_t list \<Rightarrow> resolve_err option \<Rightarrow>
     spn_resolve_query_t \<Rightarrow> registry \<Rightarrow>
     (resolve_err option \<times> spn_resolve_query_t \<times> registry) option" where
  "retry_pins rt resolver fuel [] err query registry = Some (err, query, registry)"
| "retry_pins rt resolver fuel (pin # pins) err query registry =
    (if err = None then Some (err, query, registry)
     else do {
       (err', retry) \<leftarrow> solve_once rt resolver fuel (query\<lparr>query_result := []\<rparr>) registry (Some pin);
       retry_pins rt resolver fuel pins (if err' = None then None else err)
         (query\<lparr>query_result := run_result retry\<rparr>) (run_registry retry)
     })"

text \<open>The return value is the first error of the query, \<open>None\<close> for \<open>SPN_OK\<close>.\<close>

definition spn_resolve_from_solver ::
    "runtime \<Rightarrow> spn_resolver_t \<Rightarrow> nat \<Rightarrow> spn_resolve_query_t \<Rightarrow> registry \<Rightarrow>
     (resolve_err option \<times> spn_resolve_query_t \<times> registry) option" where
  "spn_resolve_from_solver rt resolver fuel query registry = do {
     (err, run) \<leftarrow> solve_once rt resolver fuel query registry None;
     (err, query, registry) \<leftarrow>
       retry_pins rt resolver fuel (run_retry run) err
         (query\<lparr>query_result := run_result run\<rparr>) (run_registry run);
     let query = (case err of
          None \<Rightarrow> query | Some e \<Rightarrow> query\<lparr>query_errors := query_errors query @ [e]\<rparr>);
     Some (case query_errors query of [] \<Rightarrow> None | e # _ \<Rightarrow> Some e, query, registry)
   }"

end
