(* ===== verification/Resolve_Facts.thy ===== *)
theory Resolve_Facts
  imports Resolve
begin

text \<open>
  The lemmas behind the solver's properties. First the frame of a solving step: it changes
  the names of the current scope, the boundaries, the registry, the candidate budget and the
  pick counter only. Then the contract of the recursive call as the locale
  \<open>node_solver\<close>: what every function of the recursion keeps and establishes, proved
  once from the contract and instantiated with \<open>solve_node\<close> at every fuel.
\<close>

section \<open>The current scope\<close>

definition idx_ok :: "spn_resolve_run_t \<Rightarrow> bool" where
  "idx_ok run \<longleftrightarrow> run_scope run < length (run_scopes run)"

lemma update_scope_simps [simp]:
  "run_result (update_scope f run) = run_result run"
  "run_registry (update_scope f run) = run_registry run"
  "run_boundaries (update_scope f run) = run_boundaries run"
  "run_edges (update_scope f run) = run_edges run"
  "run_visited (update_scope f run) = run_visited run"
  "run_scope (update_scope f run) = run_scope run"
  "run_picks (update_scope f run) = run_picks run"
  "run_budget (update_scope f run) = run_budget run"
  "run_fatal (update_scope f run) = run_fatal run"
  "run_forced (update_scope f run) = run_forced run"
  "run_retry (update_scope f run) = run_retry run"
  "idx_ok (update_scope f run) = idx_ok run"
  by (simp_all add: update_scope_def idx_ok_def)

lemma current_update [simp]:
  "idx_ok run \<Longrightarrow> run_scopes (update_scope f run) ! run_scope run = f (current_scope run)"
  by (simp add: update_scope_def idx_ok_def)

lemma set_named_simps [simp]:
  "run_result (set_named t run) = run_result run"
  "run_registry (set_named t run) = run_registry run"
  "run_boundaries (set_named t run) = run_boundaries run"
  "run_edges (set_named t run) = run_edges run"
  "run_visited (set_named t run) = run_visited run"
  "run_scope (set_named t run) = run_scope run"
  "run_picks (set_named t run) = run_picks run"
  "run_budget (set_named t run) = run_budget run"
  "run_fatal (set_named t run) = run_fatal run"
  "run_forced (set_named t run) = run_forced run"
  "run_retry (set_named t run) = run_retry run"
  "idx_ok (set_named t run) = idx_ok run"
  by (simp_all add: set_named_def)

lemma current_set_named [simp]:
  "idx_ok run \<Longrightarrow>
   run_scopes (set_named t run) ! run_scope run = (current_scope run)\<lparr>scope_named := t\<rparr>"
  by (simp add: set_named_def)

text \<open>What a solving step leaves alone.\<close>

definition frame :: "spn_resolve_run_t \<Rightarrow> spn_resolve_run_t \<Rightarrow> bool" where
  "frame run run' \<longleftrightarrow>
     run_result run' = run_result run \<and> run_edges run' = run_edges run \<and>
     run_scope run' = run_scope run \<and> run_forced run' = run_forced run \<and>
     run_retry run' = run_retry run \<and>
     (\<exists>t. run_scopes run' =
        (run_scopes run)[run_scope run := (current_scope run)\<lparr>scope_named := t\<rparr>])"

lemma frame_refl [simp]: "frame run run"
  unfolding frame_def
  by (intro conjI refl exI [of _ "cur_named run"]) simp

lemma frame_trans: "frame a b \<Longrightarrow> frame b c \<Longrightarrow> frame a c"
  unfolding frame_def
  by (cases "run_scope a < length (run_scopes a)") (auto simp: list_update_beyond)

lemma frame_idx: "frame a b \<Longrightarrow> idx_ok b = idx_ok a"
  by (auto simp: frame_def idx_ok_def)

lemma frame_current:
  assumes "frame a b" "idx_ok a"
  shows "current_scope b = (current_scope a)\<lparr>scope_named := cur_named b\<rparr>"
  using assms by (auto simp: frame_def idx_ok_def)

lemma frame_set_named [simp]: "frame run (set_named t run)"
  by (auto simp: frame_def set_named_def update_scope_def)

lemma frame_updates [simp]:
  "frame run (run'\<lparr>run_registry := r\<rparr>) = frame run run'"
  "frame run (run'\<lparr>run_boundaries := bs\<rparr>) = frame run run'"
  "frame run (run'\<lparr>run_visited := v\<rparr>) = frame run run'"
  "frame run (run'\<lparr>run_picks := p\<rparr>) = frame run run'"
  "frame run (run'\<lparr>run_budget := b\<rparr>) = frame run run'"
  "frame run (run'\<lparr>run_fatal := f\<rparr>) = frame run run'"
  by (simp_all add: frame_def)

lemma frame_updates_left [simp]:
  "frame (run\<lparr>run_registry := r\<rparr>) run' = frame run run'"
  "frame (run\<lparr>run_boundaries := bs\<rparr>) run' = frame run run'"
  "frame (run\<lparr>run_visited := v\<rparr>) run' = frame run run'"
  "frame (run\<lparr>run_picks := p\<rparr>) run' = frame run run'"
  "frame (run\<lparr>run_budget := b\<rparr>) run' = frame run run'"
  "frame (run\<lparr>run_fatal := f\<rparr>) run' = frame run run'"
  by (simp_all add: frame_def)

lemma frame_held:
  assumes "frame a b" "idx_ok a"
  shows "held_version b name = held_version a name"
proof -
  have "scope_pins (current_scope b) = scope_pins (current_scope a)"
    using frame_current [OF assms] by (metis spn_scope_t.ext_inject spn_scope_t.surjective spn_scope_t.update_convs(5))
  then show ?thesis using assms(1)
    by (simp add: held_version_def find_pin_def frame_def cong: option.case_cong)
qed

section \<open>Hypotheses on the outside\<close>

text \<open>A requested name is canonical when qualifying its parts gives it back.\<close>

definition canon :: "runtime \<Rightarrow> string \<Rightarrow> bool" where
  "canon rt q \<longleftrightarrow>
     spn_pkg_name_to_qualified (spn_pkg_name_from_qualified (rt_cleave rt) q) = q"

text \<open>A request the solver may meet: its name is canonical and, for a local one, in the
  set of local names considered.\<close>

definition req_ok :: "runtime \<Rightarrow> sp_name set \<Rightarrow> spn_requested_dep_t \<Rightarrow> bool" where
  "req_ok rt L d \<longleftrightarrow> canon rt (req_qualified d) \<and>
     (req_source d = SPN_PKG_SOURCE_INDEX \<or> Some (req_qualified d) \<in> L)"

text \<open>What the solver relies on: the index files releases under their own name, dependency
  names are canonical in releases and manifests, sorting and table iteration permute.\<close>

definition rt_ok :: "runtime \<Rightarrow> sp_name set \<Rightarrow> bool" where
  "rt_ok rt L \<longleftrightarrow>
     (\<forall>n pkg. rt_get_package rt n = Inr (Some pkg) \<longrightarrow>
        (\<forall>r \<in> set (ipkg_releases pkg). rel_id r = n \<and>
           (\<forall>d \<in> set (rel_deps r). canon rt (spn_pkg_name_to_qualified (idep_id d))))) \<and>
     (\<forall>path info. rt_pkg_load rt path = Inr info \<longrightarrow>
        (\<forall>d \<in> set (info_deps info). req_ok rt L d)) \<and>
     (\<forall>cmp xs. mset (rt_sort_reqs rt cmp xs) = mset xs) \<and>
     (\<forall>cmp xs. mset (rt_sort_picks rt cmp xs) = mset xs) \<and>
     (\<forall>t. mset (rt_named_order rt t) = mset t) \<and>
     (\<forall>t. mset (rt_result_order rt t) = mset t)"

lemma rt_ok_release:
  assumes "rt_ok rt L" "rt_get_package rt n = Inr (Some pkg)" "r \<in> set (ipkg_releases pkg)"
  shows "rel_id r = n" "d \<in> set (rel_deps r) \<Longrightarrow> canon rt (spn_pkg_name_to_qualified (idep_id d))"
  using assms by (auto simp: rt_ok_def)

lemma rt_ok_load:
  "rt_ok rt L \<Longrightarrow> rt_pkg_load rt path = Inr info \<Longrightarrow> d \<in> set (info_deps info) \<Longrightarrow>
   req_ok rt L d"
  by (auto simp: rt_ok_def)

lemma rt_ok_sets:
  assumes "rt_ok rt L"
  shows "set (rt_sort_reqs rt cmp xs) = set xs"
    "set (rt_named_order rt t) = set t" "set (rt_result_order rt u) = set u"
  using assms by (auto simp: rt_ok_def dest!: arg_cong [of _ _ set_mset] intro!: mset_eq_setD)

lemma canon_nonempty: "canon rt q \<Longrightarrow> q \<noteq> []"
  by (auto simp: canon_def spn_pkg_name_to_qualified_def Let_def)

section \<open>Well-formed runs\<close>

definition registry_ok :: "runtime \<Rightarrow> sp_name set \<Rightarrow> registry \<Rightarrow> bool" where
  "registry_ok rt L reg \<longleftrightarrow>
     (\<forall>k p. ht_get reg k = Some p \<longrightarrow>
        k = registry_key (Some (info_qualified (reg_info p))) \<and>
        canon rt (info_qualified (reg_info p)) \<and>
        (\<forall>d \<in> set (info_deps (reg_info p)). req_ok rt L d))"

definition registered :: "registry \<Rightarrow> spn_resolved_pkg_t \<Rightarrow> bool" where
  "registered reg node \<longleftrightarrow>
     pkg_source node = SPN_PKG_SOURCE_INDEX \<or>
     ht_get reg (registry_key (id_qualified (pkg_id node))) \<noteq> None \<or>
     id_qualified (pkg_id node) = Some []"

lemma registry_key_inj [simp]: "registry_key a = registry_key b \<longleftrightarrow> a = b"
  by (auto simp: registry_key_def spn_pkg_id_zero_def)

lemma registry_no_root:
  "registry_ok rt L reg \<Longrightarrow> ht_get reg (registry_key (Some [])) = None"
  using canon_nonempty [of rt "[]"]
  by (cases "ht_get reg (registry_key (Some []))") (force simp: registry_ok_def)+

lemma registered_mono: "registered reg node \<Longrightarrow> ht_get reg \<subseteq>\<^sub>m ht_get reg' \<Longrightarrow> registered reg' node"
  by (force simp: registered_def map_le_def dom_def)

lemma node_is_shared_mono:
  assumes "registered reg node" "ht_get reg \<subseteq>\<^sub>m ht_get reg'" "registry_ok rt L reg" "registry_ok rt L reg'"
  shows "node_is_shared resolver reg' node = node_is_shared resolver reg node"
proof (cases "pkg_source node = SPN_PKG_SOURCE_INDEX")
  case True
  then show ?thesis by (simp add: node_is_shared_def Let_def)
next
  case False
  let ?k = "registry_key (id_qualified (pkg_id node))"
  have "ht_get reg' ?k = ht_get reg ?k"
  proof (cases "ht_get reg ?k")
    case None
    then have "id_qualified (pkg_id node) = Some []" using assms(1) False by (simp add: registered_def)
    then show ?thesis using registry_no_root assms(3,4) by auto
  next
    case (Some x)
    then show ?thesis using assms(2) by (metis domI map_le_def)
  qed
  then show ?thesis
    by (cases "pkg_source node") (simp_all add: node_is_shared_def Let_def)
qed

lemma classify_mono:
  assumes "registered reg node" "ht_get reg \<subseteq>\<^sub>m ht_get reg'" "registry_ok rt L reg" "registry_ok rt L reg'"
  shows "classify_dep resolver reg' node dep = classify_dep resolver reg node dep"
  using node_is_shared_mono [OF assms] by (simp add: classify_dep_def cong: spn_dep_kind_t.case_cong)

text \<open>A dependency is met when the scope has its name, at a version in the requested
  range, or when it leaves the scope and its boundary is recorded in \<open>B\<close>.\<close>

definition boundary_of :: "spn_resolved_pkg_t \<Rightarrow> spn_dep_edge_t \<Rightarrow> spn_requested_dep_t \<Rightarrow> spn_scope_boundary_t" where
  "boundary_of node edge dep = \<lparr>bd_from = pkg_id node, bd_edge = edge, bd_req = dep\<rparr>"

definition dep_met ::
    "spn_resolver_t \<Rightarrow> registry \<Rightarrow> spn_scope_boundary_t set \<Rightarrow>
     (sp_name \<Rightarrow> spn_resolved_pkg_t option) \<Rightarrow> spn_resolved_pkg_t \<Rightarrow> spn_requested_dep_t \<Rightarrow> bool" where
  "dep_met resolver reg B N node dep \<longleftrightarrow>
     (classify_dep resolver reg node dep = Some SPN_DEP_EDGE_SCOPE \<longrightarrow>
       (\<exists>p. N (Some (req_qualified dep)) = Some p \<and>
          (\<forall>r. req_target dep = ReqIndex r \<longrightarrow> spn_semver_in_range (id_version (pkg_id p)) r))) \<and>
     (\<forall>edge. classify_dep resolver reg node dep = Some edge \<longrightarrow>
        edge = SPN_DEP_EDGE_PROCESS \<or> edge = SPN_DEP_EDGE_PRIVATE \<longrightarrow>
        boundary_of node edge dep \<in> B)"

text \<open>The boundaries a run knows: those of earlier scopes, \<open>P\<close>, and its own.\<close>

definition known :: "spn_scope_boundary_t set \<Rightarrow> spn_resolve_run_t \<Rightarrow> spn_scope_boundary_t set" where
  "known P run = P \<union> set (run_boundaries run)"

lemma known_updates [simp]:
  "known P (run\<lparr>run_picks := p\<rparr>) = known P run"
  "known P (run\<lparr>run_budget := b\<rparr>) = known P run"
  "known P (run\<lparr>run_fatal := f\<rparr>) = known P run"
  "known P (run\<lparr>run_visited := v\<rparr>) = known P run"
  "known P (run\<lparr>run_registry := g\<rparr>) = known P run"
  "known P (update_scope f' run) = known P run"
  "known P (set_named t run) = known P run"
  "known P (run\<lparr>run_boundaries := bs\<rparr>) = P \<union> set bs"
  by (simp_all add: known_def)

lemma dep_met_mono:
  assumes "dep_met resolver reg B N node dep"
    and "registered reg node" "ht_get reg \<subseteq>\<^sub>m ht_get reg'" "registry_ok rt L reg" "registry_ok rt L reg'"
    and "N \<subseteq>\<^sub>m N'" "B \<subseteq> B'"
  shows "dep_met resolver reg' B' N' node dep"
proof -
  have N: "N' k = Some p" if "N k = Some p" for k p using that assms(6) by (metis domI map_le_def)
  show ?thesis using assms(1,7) N unfolding dep_met_def classify_mono [OF assms(2-5)] by blast
qed

text \<open>Where a package comes from: a release the index lists, or an entry of the
  registry, at the version of either.\<close>

definition provenance :: "runtime \<Rightarrow> registry \<Rightarrow> spn_resolved_pkg_t \<Rightarrow> bool" where
  "provenance rt reg p \<longleftrightarrow>
     id_hash (pkg_id p) = 0 \<and>
     (case origin_release (pkg_origin p) of
        Some r \<Rightarrow> id_version (pkg_id p) = rel_version r \<and>
          (\<exists>pkg. rt_get_package rt (rel_id r) = Inr (Some pkg) \<and> r \<in> set (ipkg_releases pkg))
      | None \<Rightarrow> (\<exists>pkg. ht_get reg (registry_key (id_qualified (pkg_id p))) = Some pkg \<and>
          id_version (pkg_id p) = info_version (reg_info pkg)))"

lemma provenance_mono: "provenance rt reg p \<Longrightarrow> ht_get reg \<subseteq>\<^sub>m ht_get reg' \<Longrightarrow> provenance rt reg' p"
  unfolding provenance_def by (auto split: option.splits) (metis domI map_le_def)

definition node_ok :: "runtime \<Rightarrow> sp_name set \<Rightarrow> registry \<Rightarrow> spn_resolved_pkg_t \<Rightarrow> bool" where
  "node_ok rt L reg p \<longleftrightarrow> registered reg p \<and> (\<forall>d \<in> set (pkg_deps p). req_ok rt L d) \<and>
     provenance rt reg p"

text \<open>Every name of the scope that is not being visited has its dependencies met.\<close>

definition closed ::
    "runtime \<Rightarrow> sp_name set \<Rightarrow> spn_resolver_t \<Rightarrow> registry \<Rightarrow> spn_scope_boundary_t set \<Rightarrow>
     (sp_name \<Rightarrow> u8 option) \<Rightarrow> (sp_name \<Rightarrow> spn_resolved_pkg_t option) \<Rightarrow> bool" where
  "closed rt L resolver reg B V N \<longleftrightarrow>
     (\<forall>k p. N k = Some p \<longrightarrow> node_ok rt L reg p \<and> id_qualified (pkg_id p) = k \<and>
        (V k = None \<longrightarrow> (\<forall>d \<in> set (pkg_deps p). dep_met resolver reg B N p d)))"

definition solver_inv :: "runtime \<Rightarrow> sp_name set \<Rightarrow> spn_scope_boundary_t set \<Rightarrow> spn_resolver_t \<Rightarrow> spn_resolve_run_t \<Rightarrow> bool" where
  "solver_inv rt L P resolver run \<longleftrightarrow>
     idx_ok run \<and> distinct (ht_keys (cur_named run)) \<and> registry_ok rt L (run_registry run) \<and>
     closed rt L resolver (run_registry run) (known P run) (ht_get (run_visited run)) (ht_get (cur_named run))"

text \<open>What a new name of the scope owes to the pins and to the index.\<close>

definition fresh_ok :: "runtime \<Rightarrow> (spn_semver_t \<times> bool) option \<Rightarrow> spn_resolved_pkg_t \<Rightarrow> bool" where
  "fresh_ok rt held p \<longleftrightarrow>
     (\<forall>v c. held = Some (v, c) \<longrightarrow> \<not> c \<and> id_version (pkg_id p) = v) \<and>
     (\<forall>r. origin_release (pkg_origin p) = Some r \<longrightarrow>
        id_version (pkg_id p) = rel_version r \<and>
        (\<exists>pkg. rt_get_package rt (rel_id r) = Inr (Some pkg) \<and> r \<in> set (ipkg_releases pkg)) \<and>
        (rel_yanked r \<longrightarrow> held \<noteq> None))"

text \<open>Where a new boundary comes from: an open package or one that is new since
  \<open>N\<close>, or a request of the scope that leaves it.\<close>

definition sourced_at ::
    "runtime \<Rightarrow> sp_name set \<Rightarrow> spn_resolver_t \<Rightarrow> (sp_name \<Rightarrow> spn_resolved_pkg_t option) \<Rightarrow>
     (sp_name \<Rightarrow> u8 option) \<Rightarrow> (sp_name \<Rightarrow> spn_resolved_pkg_t option) \<Rightarrow> registry \<Rightarrow>
     spn_scope_boundary_t \<Rightarrow> bool" where
  "sourced_at rt L resolver N V M reg b \<longleftrightarrow>
     req_ok rt L (bd_req b) \<and>
     (bd_edge b = SPN_DEP_EDGE_PROCESS \<or> bd_edge b = SPN_DEP_EDGE_PRIVATE) \<and>
     ((\<exists>k p. M k = Some p \<and> (N k = None \<or> V k \<noteq> None) \<and>
         bd_from b = pkg_id p \<and> bd_req b \<in> set (pkg_deps p)) \<or>
      bd_from b = pkg_id root_node \<and>
      classify_dep resolver reg root_node (bd_req b) = Some (bd_edge b))"

abbreviation sourced ::
    "runtime \<Rightarrow> sp_name set \<Rightarrow> spn_resolver_t \<Rightarrow> (sp_name \<Rightarrow> spn_resolved_pkg_t option) \<Rightarrow>
     (sp_name \<Rightarrow> u8 option) \<Rightarrow> spn_resolve_run_t \<Rightarrow> spn_scope_boundary_t \<Rightarrow> bool" where
  "sourced rt L resolver N V run \<equiv>
     sourced_at rt L resolver N V (ht_get (cur_named run)) (run_registry run)"

definition step ::
    "runtime \<Rightarrow> sp_name set \<Rightarrow> spn_scope_boundary_t set \<Rightarrow> spn_resolver_t \<Rightarrow> spn_resolve_run_t \<Rightarrow>
     spn_resolve_run_t \<Rightarrow> bool" where
  "step rt L P resolver run run' \<longleftrightarrow>
     frame run run' \<and> solver_inv rt L P resolver run' \<and>
     ht_get (run_visited run') = ht_get (run_visited run) \<and>
     ht_get (cur_named run) \<subseteq>\<^sub>m ht_get (cur_named run') \<and>
     (\<exists>bs. run_boundaries run' = run_boundaries run @ bs \<and>
        (\<forall>b \<in> set bs. sourced rt L resolver (ht_get (cur_named run)) (ht_get (run_visited run)) run' b)) \<and>
     ht_get (run_registry run) \<subseteq>\<^sub>m ht_get (run_registry run') \<and>
     unat (run_budget run') \<le> unat (run_budget run) \<and>
     (\<forall>k p. ht_get (cur_named run') k = Some p \<longrightarrow> ht_get (cur_named run) k = None \<longrightarrow>
        fresh_ok rt (held_version run k) p)"

lemma root_registered: "registered reg root_node"
  by (simp add: registered_def root_node_def spn_pkg_id_def)

lemma sourced_at_mono:
  assumes "sourced_at rt L resolver N V M reg b" "M \<subseteq>\<^sub>m M'" "ht_get reg \<subseteq>\<^sub>m ht_get reg'"
    and "registry_ok rt L reg" "registry_ok rt L reg'"
    and "N' \<subseteq>\<^sub>m N" "\<And>k. V k \<noteq> None \<Longrightarrow> V' k \<noteq> None \<or> N' k = None"
  shows "sourced_at rt L resolver N' V' M' reg' b"
proof -
  have root: "classify_dep resolver reg' root_node (bd_req b) = classify_dep resolver reg root_node (bd_req b)"
    by (rule classify_mono [OF root_registered assms(3-5)])
  have "N' k = None" if "N k = None" for k using that assms(6) by (metis domIff map_le_def)
  moreover have "M' k = Some p" if "M k = Some p" for k p
    using that assms(2) by (metis domI map_le_def)
  ultimately show ?thesis using assms(1,7) unfolding sourced_at_def root by meson
qed

lemmas sourced_mono = sourced_at_mono [where M = "ht_get (cur_named run)" and reg = "run_registry run"
    and M' = "ht_get (cur_named run')" and reg' = "run_registry run'" for run run']

lemma step_refl: "solver_inv rt L P resolver run \<Longrightarrow> step rt L P resolver run run"
  by (simp add: step_def)

lemma step_registry: "step rt L P resolver a b \<Longrightarrow> registry_ok rt L (run_registry b)"
  by (simp add: step_def solver_inv_def)

lemma step_known: "step rt L P resolver a b \<Longrightarrow> known P a \<subseteq> known P b"
  by (auto simp: step_def known_def)

lemma step_trans:
  assumes a: "solver_inv rt L P resolver a" and ab: "step rt L P resolver a b" and bc: "step rt L P resolver b c"
  shows "step rt L P resolver a c"
proof -
  have idx: "idx_ok a" using a by (simp add: solver_inv_def)
  have held: "held_version b k = held_version a k" for k
    using frame_held [of a b k] ab idx by (simp add: step_def)
  have "fresh_ok rt (held_version a k) p"
    if "ht_get (cur_named c) k = Some p" "ht_get (cur_named a) k = None" for k p
  proof (cases "ht_get (cur_named b) k")
    case None
    then show ?thesis using bc that(1) held by (simp add: step_def)
  next
    case (Some q)
    then have "ht_get (cur_named c) k = Some q" using bc by (metis domI map_le_def step_def)
    then show ?thesis using ab Some that by (simp add: step_def)
  qed
  moreover have le: "ht_get (cur_named a) \<subseteq>\<^sub>m ht_get (cur_named b)" "ht_get (cur_named b) \<subseteq>\<^sub>m ht_get (cur_named c)"
    "ht_get (run_registry a) \<subseteq>\<^sub>m ht_get (run_registry b)"
    "ht_get (run_registry b) \<subseteq>\<^sub>m ht_get (run_registry c)"
    and V: "ht_get (run_visited b) = ht_get (run_visited a)"
    using ab bc unfolding step_def by blast+
  moreover have "\<exists>bs. run_boundaries c = run_boundaries a @ bs \<and>
      (\<forall>x \<in> set bs. sourced rt L resolver (ht_get (cur_named a)) (ht_get (run_visited a)) c x)"
  proof -
    obtain bs cs where bs: "run_boundaries b = run_boundaries a @ bs"
      "\<forall>x \<in> set bs. sourced rt L resolver (ht_get (cur_named a)) (ht_get (run_visited a)) b x"
      and cs: "run_boundaries c = run_boundaries b @ cs"
      "\<forall>x \<in> set cs. sourced rt L resolver (ht_get (cur_named b)) (ht_get (run_visited b)) c x"
      using ab bc unfolding step_def by blast
    have "sourced rt L resolver (ht_get (cur_named a)) (ht_get (run_visited a)) c x"
      if "x \<in> set (bs @ cs)" for x
    proof (cases "x \<in> set bs")
      case True
      then have "sourced rt L resolver (ht_get (cur_named a)) (ht_get (run_visited a)) b x" using bs(2) by blast
      then show ?thesis
        by (rule sourced_mono [OF _ le(2,4) step_registry [OF ab] step_registry [OF bc] map_le_refl]) blast
    next
      case False
      then have "sourced rt L resolver (ht_get (cur_named b)) (ht_get (run_visited b)) c x"
        using that cs(2) by simp
      then show ?thesis
        by (rule sourced_mono [OF _ map_le_refl map_le_refl step_registry [OF bc] step_registry [OF bc] le(1)])
          (simp add: V)
    qed
    then show ?thesis using bs(1) cs(1) by (intro exI [of _ "bs @ cs"]) simp
  qed
  moreover have "frame a c" using ab bc frame_trans by (auto simp: step_def)
  moreover have "unat (run_budget c) \<le> unat (run_budget a)"
    "ht_get (run_visited c) = ht_get (run_visited a)" "solver_inv rt L P resolver c"
    using ab bc unfolding step_def by simp_all
  moreover have "ht_get (cur_named a) \<subseteq>\<^sub>m ht_get (cur_named c)"
    "ht_get (run_registry a) \<subseteq>\<^sub>m ht_get (run_registry c)"
    using le map_le_trans by blast+
  ultimately show ?thesis by (simp add: step_def)
qed

lemma closed_mono_registry:
  assumes "closed rt L resolver reg B V N" "ht_get reg \<subseteq>\<^sub>m ht_get reg'" "registry_ok rt L reg" "registry_ok rt L reg'"
  shows "closed rt L resolver reg' B V N"
  unfolding closed_def
proof (intro allI impI conjI)
  fix k p assume kp: "N k = Some p"
  note c = assms(1)[unfolded closed_def, rule_format, OF kp]
  show "node_ok rt L reg' p" using c registered_mono provenance_mono assms(2) by (auto simp: node_ok_def)
  show "id_qualified (pkg_id p) = k" using c by simp
  assume "V k = None"
  then show "\<forall>d \<in> set (pkg_deps p). dep_met resolver reg' B N p d"
    using c dep_met_mono [OF _ _ assms(2-4) map_le_refl subset_refl] by (auto simp: node_ok_def)
qed

section \<open>Updates that keep the invariant\<close>

lemma solver_inv_updates [simp]:
  "solver_inv rt L P resolver (run\<lparr>run_picks := p\<rparr>) = solver_inv rt L P resolver run"
  "solver_inv rt L P resolver (run\<lparr>run_budget := b\<rparr>) = solver_inv rt L P resolver run"
  "solver_inv rt L P resolver (run\<lparr>run_fatal := f\<rparr>) = solver_inv rt L P resolver run"
  "idx_ok (run\<lparr>run_boundaries := bs\<rparr>) = idx_ok run"
  "idx_ok (run\<lparr>run_picks := p\<rparr>) = idx_ok run"
  "idx_ok (run\<lparr>run_budget := b\<rparr>) = idx_ok run"
  "idx_ok (run\<lparr>run_fatal := f\<rparr>) = idx_ok run"
  "idx_ok (run\<lparr>run_visited := v\<rparr>) = idx_ok run"
  "idx_ok (run\<lparr>run_registry := g\<rparr>) = idx_ok run"
  by (simp_all add: solver_inv_def idx_ok_def)

lemma held_updates [simp]:
  "held_version (run\<lparr>run_boundaries := bs\<rparr>) k = held_version run k"
  "held_version (run\<lparr>run_picks := p\<rparr>) k = held_version run k"
  "held_version (run\<lparr>run_budget := b\<rparr>) k = held_version run k"
  "held_version (run\<lparr>run_fatal := f\<rparr>) k = held_version run k"
  "held_version (run\<lparr>run_visited := v\<rparr>) k = held_version run k"
  "held_version (run\<lparr>run_registry := g\<rparr>) k = held_version run k"
  by (simp_all add: held_version_def cong: option.case_cong)

lemma step_fatal: "solver_inv rt L P resolver run \<Longrightarrow> step rt L P resolver run (run\<lparr>run_fatal := f\<rparr>)"
  by (simp add: step_def)

lemma unat_dec: "(b :: u64) \<noteq> 0 \<Longrightarrow> unat (b - 1) < unat b"
  by (simp add: unat_gt_0 unat_minus_one)

lemma step_budget:
  "solver_inv rt L P resolver run \<Longrightarrow> run_budget run \<noteq> 0 \<Longrightarrow>
   step rt L P resolver run (run\<lparr>run_budget := run_budget run - 1\<rparr>)"
  using unat_dec [of "run_budget run"] by (simp add: step_def)

lemma closed_known:
  assumes "closed rt L resolver reg B V N" "B \<subseteq> B'" "registry_ok rt L reg"
  shows "closed rt L resolver reg B' V N"
  using assms(1) dep_met_mono [OF _ _ map_le_refl assms(3,3) map_le_refl assms(2)]
  by (auto simp: closed_def node_ok_def)

lemma step_push:
  assumes "solver_inv rt L P resolver run"
    and "\<forall>b \<in> set bs. sourced rt L resolver (ht_get (cur_named run)) (ht_get (run_visited run)) run b"
  shows "step rt L P resolver run (run\<lparr>run_boundaries := run_boundaries run @ bs\<rparr>)"
proof -
  let ?run = "run\<lparr>run_boundaries := run_boundaries run @ bs\<rparr>"
  have inv: "idx_ok run" "distinct (ht_keys (cur_named run))" "registry_ok rt L (run_registry run)"
    "closed rt L resolver (run_registry run) (known P run) (ht_get (run_visited run)) (ht_get (cur_named run))"
    using assms(1) by (simp_all add: solver_inv_def)
  have "known P run \<subseteq> known P ?run" by (auto simp: known_def)
  from closed_known [OF inv(4) this inv(3)] have "solver_inv rt L P resolver ?run"
    using inv(1-3) by (simp add: solver_inv_def)
  moreover have "\<exists>cs. run_boundaries ?run = run_boundaries run @ cs \<and>
      (\<forall>b \<in> set cs. sourced rt L resolver (ht_get (cur_named run)) (ht_get (run_visited run)) ?run b)"
    using assms(2) by (intro exI [of _ bs]) simp
  ultimately show ?thesis unfolding step_def by (intro conjI) simp_all
qed

lemma ht_get_fold_erase:
  "ht_get (fold ht_erase ks t) k = (if k \<in> set ks then None else ht_get t k)"
  by (induction ks arbitrary: t) auto

lemma restore_get:
  assumes "rt_ok rt L" "idx_ok run" "ht_get t \<subseteq>\<^sub>m ht_get (cur_named run)"
    and "set snapshot = dom (ht_get t)"
  shows "ht_get (cur_named (restore_named rt snapshot run)) = ht_get t"
proof
  fix k
  let ?N = "cur_named run"
  have keys: "k \<in> set (map fst (rt_named_order rt ?N)) \<longleftrightarrow> k \<in> dom (ht_get ?N)"
    using rt_ok_sets(2)[OF assms(1), of ?N] by (simp add: dom_map_of_conv_image_fst)
  have "ht_get t k = None \<or> k \<in> dom (ht_get t) \<and> ht_get t k = ht_get ?N k"
    using assms(3) unfolding map_le_def by blast
  then show "ht_get (cur_named (restore_named rt snapshot run)) k = ht_get t k"
    using assms(2,4) keys
    by (auto simp: restore_named_def Let_def ht_get_fold_erase)
qed

lemma distinct_fold_erase: "distinct (ht_keys t) \<Longrightarrow> distinct (ht_keys (fold ht_erase ks t))"
  by (induction ks arbitrary: t) auto

lemma restore_distinct:
  "idx_ok run \<Longrightarrow> distinct (ht_keys (cur_named run)) \<Longrightarrow>
   distinct (ht_keys (cur_named (restore_named rt sn run)))"
  by (simp add: restore_named_def Let_def distinct_fold_erase)

lemma snapshot_keys: "rt_ok rt L \<Longrightarrow> set (snapshot_named rt run) = dom (ht_get (cur_named run))"
  using rt_ok_sets(2)[of rt L "cur_named run"]
  by (simp add: snapshot_named_def dom_map_of_conv_image_fst)

lemma restore_simps [simp]:
  "run_registry (restore_named rt sn run) = run_registry run"
  "run_boundaries (restore_named rt sn run) = run_boundaries run"
  "run_visited (restore_named rt sn run) = run_visited run"
  "run_budget (restore_named rt sn run) = run_budget run"
  "run_fatal (restore_named rt sn run) = run_fatal run"
  "run_scope (restore_named rt sn run) = run_scope run"
  "run_result (restore_named rt sn run) = run_result run"
  "idx_ok (restore_named rt sn run) = idx_ok run"
  "frame run (restore_named rt sn run)"
  "known P (restore_named rt sn run) = known P run"
  by (simp_all add: restore_named_def Let_def)

lemma truncate_simps [simp]:
  "run_registry (truncate_boundaries n run) = run_registry run"
  "run_scopes (truncate_boundaries n run) = run_scopes run"
  "run_scope (truncate_boundaries n run) = run_scope run"
  "run_boundaries (truncate_boundaries n run) = take n (run_boundaries run)"
  "run_visited (truncate_boundaries n run) = run_visited run"
  "run_budget (truncate_boundaries n run) = run_budget run"
  "run_fatal (truncate_boundaries n run) = run_fatal run"
  "run_result (truncate_boundaries n run) = run_result run"
  "idx_ok (truncate_boundaries n run) = idx_ok run"
  "frame r (truncate_boundaries n run) = frame r run"
  "known P (truncate_boundaries n run) = P \<union> set (take n (run_boundaries run))"
  by (simp_all add: truncate_boundaries_def idx_ok_def)

section \<open>Finding a local package\<close>

lemma registry_insert_ok:
  assumes "registry_ok rt L reg" "rt_pkg_load rt path = Inr info" "rt_ok rt L"
    and "info_qualified info = q" "canon rt q"
  shows "registry_ok rt L (ht_insert (spn_pkg_id q)
           \<lparr>reg_source = SPN_PKG_SOURCE_FILE, reg_info = info, reg_manifest = path\<rparr> reg)"
  using assms rt_ok_load [OF assms(3,2)]
  by (auto simp: registry_ok_def spn_pkg_id_def registry_key_def)

lemma find_local_post:
  assumes "rt_ok rt L" "solver_inv rt L P resolver run" "req_ok rt L request"
    and "find_local_pkg rt request run = (res, run')"
  shows "step rt L P resolver run run'"
    and "cur_named run' = cur_named run" "run_boundaries run' = run_boundaries run"
    and "run_visited run' = run_visited run" "run_budget run' = run_budget run"
    and "res = Inr pkg \<Longrightarrow>
      ht_get (run_registry run') (registry_key (Some (req_qualified request))) = Some pkg"
proof -
  let ?key = "registry_key (Some (req_qualified request))"
  have key: "spn_pkg_id (req_qualified request) = ?key"
    by (simp add: spn_pkg_id_def registry_key_def)
  have keys: "distinct (ht_keys (cur_named run))"
    and inv: "idx_ok run" "registry_ok rt L (run_registry run)"
    "closed rt L resolver (run_registry run) (known P run) (ht_get (run_visited run)) (ht_get (cur_named run))"
    using assms(2) by (simp_all add: solver_inv_def)
  consider (same) "run' = run" "\<And>pkg. res = Inr pkg \<Longrightarrow> ht_get (run_registry run) ?key = Some pkg"
    | (loaded) path info where "rt_pkg_load rt path = Inr info"
        "info_qualified info = req_qualified request" "ht_get (run_registry run) ?key = None"
        "res = Inr \<lparr>reg_source = SPN_PKG_SOURCE_FILE, reg_info = info, reg_manifest = path\<rparr>"
        "run' = run\<lparr>run_registry := ht_insert ?key
           \<lparr>reg_source = SPN_PKG_SOURCE_FILE, reg_info = info, reg_manifest = path\<rparr> (run_registry run)\<rparr>"
    using assms(4) unfolding find_local_pkg_def load_file_pkg_def key Let_def
    by (auto split: option.splits req_target.splits sum.splits load_failure.splits if_splits)
  then have "step rt L P resolver run run' \<and> cur_named run' = cur_named run \<and>
      run_boundaries run' = run_boundaries run \<and> run_visited run' = run_visited run \<and>
      run_budget run' = run_budget run \<and>
      (res = Inr pkg \<longrightarrow> ht_get (run_registry run') ?key = Some pkg)"
  proof cases
    case same
    then show ?thesis using step_refl [OF assms(2)] by auto
  next
    case loaded
    let ?reg = "run_registry run'"
    have ok: "registry_ok rt L ?reg"
      using registry_insert_ok [OF inv(2) loaded(1) assms(1) loaded(2)] assms(3)
      by (simp add: loaded(5) key req_ok_def)
    have le: "ht_get (run_registry run) \<subseteq>\<^sub>m ht_get ?reg"
      using loaded(3) by (auto simp: loaded(5) map_le_def)
    have "closed rt L resolver ?reg (known P run) (ht_get (run_visited run)) (ht_get (cur_named run))"
      by (rule closed_mono_registry [OF inv(3) le inv(2) ok])
    then have "solver_inv rt L P resolver run'" using inv(1) keys ok by (simp add: solver_inv_def loaded(5))
    then show ?thesis using le by (simp add: step_def loaded(4,5))
  qed
  then show "step rt L P resolver run run'"
    "cur_named run' = cur_named run" "run_boundaries run' = run_boundaries run"
    "run_visited run' = run_visited run" "run_budget run' = run_budget run"
    "res = Inr pkg \<Longrightarrow> ht_get (run_registry run') ?key = Some pkg"
    by simp_all
qed

section \<open>The contract of the recursive call\<close>

text \<open>What a call of \<open>solve_node\<close> promises: it is a step; on success the scope has
  the node under its name; on failure the scope's names and the boundaries are as before.\<close>

definition node_post ::
    "runtime \<Rightarrow> sp_name set \<Rightarrow> spn_scope_boundary_t set \<Rightarrow> spn_resolver_t \<Rightarrow> sp_name \<Rightarrow> spn_resolved_pkg_t \<Rightarrow> spn_resolve_run_t \<Rightarrow>
     resolve_err option \<Rightarrow> spn_resolve_run_t \<Rightarrow> bool" where
  "node_post rt L P resolver name node run err run' \<longleftrightarrow>
     step rt L P resolver run run' \<and>
     (err = None \<longrightarrow>
        (\<exists>q. ht_get (cur_named run') name = Some q \<and> pkg_id q = pkg_id node)) \<and>
     (err \<noteq> None \<longrightarrow> ht_get (cur_named run') = ht_get (cur_named run) \<and>
        run_boundaries run' = run_boundaries run)"

definition node_pre ::
    "runtime \<Rightarrow> sp_name set \<Rightarrow> spn_scope_boundary_t set \<Rightarrow> spn_resolver_t \<Rightarrow> sp_name \<Rightarrow> spn_resolved_pkg_t \<Rightarrow> spn_resolve_run_t \<Rightarrow> bool" where
  "node_pre rt L P resolver name node run \<longleftrightarrow>
     rt_ok rt L \<and> solver_inv rt L P resolver run \<and> node_ok rt L (run_registry run) node \<and>
     id_qualified (pkg_id node) = name \<and> ht_get (run_visited run) name = None \<and>
     ht_get (cur_named run) name = None \<and> fresh_ok rt (held_version run name) node"

lemma keep_deps_subset: "set (keep_deps gate env ds) \<subseteq> set ds"
  by (induction ds) auto

lemma candidate_pre:
  assumes "rt_ok rt L" "solver_inv rt L P resolver run"
    and "rt_get_package rt (rel_id release) = Inr (Some pkg)" "release \<in> set (ipkg_releases pkg)"
    and "ht_get (run_visited run) (release_name release) = None"
    and "ht_get (cur_named run) (release_name release) = None"
    and "\<And>v c. held_version run (release_name release) = Some (v, c) \<Longrightarrow> \<not> c \<and> rel_version release = v"
    and "rel_yanked release \<Longrightarrow> held_version run (release_name release) \<noteq> None"
  shows "node_pre rt L P resolver (release_name release)
    ((release_node release)\<lparr>pkg_deps := rt_sort_reqs rt (sort_req_canonical rt)
       (map request_from_index (keep_deps idep_when env (rel_deps release)))\<rparr>)
    (run\<lparr>run_budget := run_budget run - 1\<rparr>)"
    (is "node_pre rt L P resolver ?name ?node ?run")
proof -
  have deps: "req_ok rt L d" if "d \<in> set (pkg_deps ?node)" for d
    using that rt_ok_release(2)[OF assms(1,3,4)] keep_deps_subset [of idep_when env "rel_deps release"]
    by (auto simp: rt_ok_sets(1)[OF assms(1)] request_from_index_def req_ok_def)
  have "fresh_ok rt (held_version run ?name) ?node"
    using assms(3,4,7,8) by (auto simp: fresh_ok_def release_node_def)
  then show ?thesis
    using assms(1-6) deps
    by (auto simp: node_pre_def node_ok_def registered_def release_node_def provenance_def
        spn_pkg_id_zero_def)
qed

lemma local_pre:
  assumes "rt_ok rt L" "solver_inv rt L P resolver run"
    and "ht_get (run_registry run) (registry_key (Some q)) = Some pkg"
    and "ht_get (run_visited run) (Some q) = None" "ht_get (cur_named run) (Some q) = None"
    and "\<And>v c. held_version run (Some q) = Some (v, c) \<Longrightarrow> \<not> c \<and> info_version (reg_info pkg) = v"
  shows "node_pre rt L P resolver (Some q)
    ((local_node rt pkg)\<lparr>pkg_deps := rt_sort_reqs rt (sort_req_canonical rt)
       (keep_deps req_when env (info_deps (reg_info pkg)))\<rparr>) run"
    (is "node_pre rt L P resolver _ ?node run")
proof -
  have q: "info_qualified (reg_info pkg) = q"
    and deps: "\<forall>d \<in> set (info_deps (reg_info pkg)). req_ok rt L d"
    using assms(2,3) registry_key_inj [of "Some q" "Some (info_qualified (reg_info pkg))"]
    unfolding solver_inv_def registry_ok_def by (metis option.inject)+
  have "node_ok rt L (run_registry run) ?node"
    using assms(3) q deps keep_deps_subset [of req_when env "info_deps (reg_info pkg)"]
    by (auto simp: node_ok_def registered_def local_node_def Let_def rt_ok_sets(1)[OF assms(1)]
        provenance_def spn_pkg_id_zero_def)
  moreover have "fresh_ok rt (held_version run (Some q)) ?node"
    using assms(6) by (auto simp: fresh_ok_def local_node_def Let_def)
  ultimately show ?thesis
    using assms q by (auto simp: node_pre_def local_node_def Let_def)
qed

text \<open>The node whose dependencies are resolved: the root, or an open package of the scope.\<close>

definition source_node :: "spn_resolve_run_t \<Rightarrow> spn_resolved_pkg_t \<Rightarrow> spn_requested_dep_t list \<Rightarrow> bool" where
  "source_node run node deps \<longleftrightarrow>
     node = root_node \<or>
     (\<exists>k. ht_get (cur_named run) k = Some node \<and> ht_get (run_visited run) k \<noteq> None \<and>
        set deps \<subseteq> set (pkg_deps node))"

lemma source_sourced:
  assumes "source_node run node [dep]" "req_ok rt L dep"
    and "classify_dep resolver (run_registry run) node dep = Some edge"
    and "edge = SPN_DEP_EDGE_PROCESS \<or> edge = SPN_DEP_EDGE_PRIVATE"
  shows "sourced rt L resolver (ht_get (cur_named run)) (ht_get (run_visited run)) run
    (boundary_of node edge dep)"
  using assms(1)
proof (cases "node = root_node")
  case True
  then show ?thesis using assms(2-4) by (simp add: sourced_at_def boundary_of_def)
next
  case False
  then obtain k where "ht_get (cur_named run) k = Some node" "ht_get (run_visited run) k \<noteq> None"
    "dep \<in> set (pkg_deps node)" using assms(1) unfolding source_node_def by auto
  then show ?thesis unfolding sourced_at_def boundary_of_def spn_scope_boundary_t.select_convs
    using assms(2,4) by blast
qed

lemma source_node_step:
  "source_node run node deps \<Longrightarrow> step rt L P resolver run run' \<Longrightarrow> set deps' \<subseteq> set deps \<Longrightarrow>
   source_node run' node deps'"
  unfolding source_node_def step_def by (metis domI map_le_def order_trans)

locale node_solver =
  fixes rt :: runtime
    and L :: "sp_name set"
    and P :: "spn_scope_boundary_t set"
    and resolver :: spn_resolver_t
    and rec :: solver
  assumes contract:
    "node_pre rt L P resolver name node run \<Longrightarrow> rec name node run = Some (err, run') \<Longrightarrow>
     node_post rt L P resolver name node run err run'"
begin

lemma try_candidate_post:
  assumes "rt_ok rt L" "solver_inv rt L P resolver run"
    and "rt_get_package rt (rel_id release) = Inr (Some pkg)" "release \<in> set (ipkg_releases pkg)"
    and "ht_get (run_visited run) (release_name release) = None"
    and "ht_get (cur_named run) (release_name release) = None"
    and "\<And>v c. held_version run (release_name release) = Some (v, c) \<Longrightarrow> \<not> c \<and> rel_version release = v"
    and "rel_yanked release \<Longrightarrow> held_version run (release_name release) \<noteq> None"
    and "try_candidate rt resolver rec release run = Some (err, run')"
  shows "step rt L P resolver run run'"
    and "err = None \<Longrightarrow>
      \<exists>q. ht_get (cur_named run') (release_name release) = Some q \<and>
          id_version (pkg_id q) = rel_version release"
    and "err \<noteq> None \<Longrightarrow> ht_get (cur_named run') = ht_get (cur_named run) \<and>
      run_boundaries run' = run_boundaries run"
proof -
  let ?name = "release_name release"
  have "step rt L P resolver run run' \<and>
     (err = None \<longrightarrow> (\<exists>q. ht_get (cur_named run') ?name = Some q \<and>
        id_version (pkg_id q) = rel_version release)) \<and>
     (err \<noteq> None \<longrightarrow> ht_get (cur_named run') = ht_get (cur_named run) \<and>
        run_boundaries run' = run_boundaries run)"
  proof (cases "run_fatal run \<or> run_budget run = 0")
    case True
    then have "err \<noteq> None" "run' = run\<lparr>run_fatal := True\<rparr>"
      using assms(9) by (auto simp: try_candidate_def)
    then show ?thesis using step_fatal [OF assms(2)] by auto
  next
    case False
    let ?run = "run\<lparr>run_budget := run_budget run - 1\<rparr>"
    obtain env where env: "node_options_env resolver (release_node release) = Some env"
      and call: "rec ?name ((release_node release)
           \<lparr>pkg_deps := rt_sort_reqs rt (sort_req_canonical rt)
              (map request_from_index (keep_deps idep_when env (rel_deps release)))\<rparr>) ?run = Some (err, run')"
      using assms(9) False by (auto simp: try_candidate_def Let_def bind_eq_Some_conv)
    let ?node = "(release_node release)
           \<lparr>pkg_deps := rt_sort_reqs rt (sort_req_canonical rt)
              (map request_from_index (keep_deps idep_when env (rel_deps release)))\<rparr>"
    have pre: "node_pre rt L P resolver ?name ?node ?run" by (rule candidate_pre [OF assms(1-8)])
    have post: "node_post rt L P resolver ?name ?node ?run err run'" by (rule contract [OF pre call])
    have "step rt L P resolver run ?run" using step_budget [OF assms(2)] False by simp
    then have "step rt L P resolver run run'"
      using post step_trans [OF assms(2)] by (simp add: node_post_def)
    then show ?thesis using post by (auto simp: node_post_def release_node_def)
  qed
  then show "step rt L P resolver run run'"
    and "err = None \<Longrightarrow> \<exists>q. ht_get (cur_named run') ?name = Some q \<and>
        id_version (pkg_id q) = rel_version release"
    and "err \<noteq> None \<Longrightarrow> ht_get (cur_named run') = ht_get (cur_named run) \<and>
      run_boundaries run' = run_boundaries run"
    by blast+
qed

lemma try_releases_post:
  assumes "rt_ok rt L" "rt_get_package rt n = Inr (Some pkg)" "set rs \<subseteq> set (ipkg_releases pkg)"
    and "name = Some (spn_pkg_name_to_qualified n)"
    and "solver_inv rt L P resolver run"
    and "ht_get (run_visited run) name = None" "ht_get (cur_named run) name = None"
    and "held_version run name = None"
    and "try_releases rt resolver rec r rs first run = Some ((err, stop), run')"
  shows "step rt L P resolver run run' \<and>
    (stop \<and> err = None \<longrightarrow> (\<exists>q. ht_get (cur_named run') name = Some q \<and>
       spn_semver_in_range (id_version (pkg_id q)) r)) \<and>
    (\<not> (stop \<and> err = None) \<longrightarrow> ht_get (cur_named run') = ht_get (cur_named run) \<and>
       run_boundaries run' = run_boundaries run)"
  using assms(3-)
proof (induction rs arbitrary: first run)
  case Nil
  then show ?case by (simp add: step_refl)
next
  case (Cons release rs)
  show ?case
  proof (cases "rel_yanked release \<or> \<not> spn_semver_in_range (rel_version release) r")
    case True
    then have "try_releases rt resolver rec r rs first run = Some ((err, stop), run')"
      using Cons.prems(7) by (auto split: if_splits)
    then show ?thesis using Cons by auto
  next
    case False
    have rel: "release \<in> set (ipkg_releases pkg)" using Cons.prems(1) by simp
    have id: "rel_id release = n" by (rule rt_ok_release(1)[OF assms(1,2) rel])
    have nm: "release_name release = name" using id Cons.prems(2) by (simp add: release_name_def)
    obtain err1 run1 where tried: "try_candidate rt resolver rec release run = Some (err1, run1)"
      and rest: "(if err1 = None \<or> run_fatal run1 then Some ((err1, True), run1)
        else try_releases rt resolver rec r rs (if first = None then err1 else first) run1) =
        Some ((err, stop), run')"
      using Cons.prems(7) False by (auto simp: bind_eq_Some_conv)
    note post = try_candidate_post [OF assms(1) Cons.prems(3) assms(2)[folded id] rel, unfolded nm,
        OF Cons.prems(4,5) _ _ tried]
    have held: "held_version run name = None" using Cons.prems(6) .
    have p1: "step rt L P resolver run run1" using post(1) held False by simp
    have p2: "err1 = None \<Longrightarrow> \<exists>q. ht_get (cur_named run1) name = Some q \<and>
        id_version (pkg_id q) = rel_version release" using post(2) held False by simp
    have p3: "err1 \<noteq> None \<Longrightarrow> ht_get (cur_named run1) = ht_get (cur_named run) \<and>
        run_boundaries run1 = run_boundaries run" using post(3) held False by simp
    show ?thesis
    proof (cases "err1 = None \<or> run_fatal run1")
      case True
      then show ?thesis using rest p1 p2 p3 False by auto
    next
      case go: False
      then have call: "try_releases rt resolver rec r rs (if first = None then err1 else first) run1 =
          Some ((err, stop), run')" using rest go by (cases err1) simp_all
      have same: "ht_get (cur_named run1) = ht_get (cur_named run)"
        "run_boundaries run1 = run_boundaries run" using p3 go by simp_all
      have inv1: "solver_inv rt L P resolver run1" using p1 by (simp add: step_def)
      have "ht_get (run_visited run1) name = None" using p1 Cons.prems(4) by (simp add: step_def)
      moreover have "held_version run1 name = None"
        using frame_held [of run run1 name] p1 held Cons.prems(3) by (simp add: step_def solver_inv_def)
      ultimately have "step rt L P resolver run1 run' \<and>
        (stop \<and> err = None \<longrightarrow> (\<exists>q. ht_get (cur_named run') name = Some q \<and>
           spn_semver_in_range (id_version (pkg_id q)) r)) \<and>
        (\<not> (stop \<and> err = None) \<longrightarrow> ht_get (cur_named run') = ht_get (cur_named run1) \<and>
           run_boundaries run' = run_boundaries run1)"
        using Cons.IH [OF _ Cons.prems(2) inv1 _ _ _ call] Cons.prems(1,5) same(1) by simp
      then show ?thesis using step_trans [OF Cons.prems(3) p1] same by auto
    qed
  qed
qed

lemma resolve_index_post:
  assumes "rt_ok rt L" "solver_inv rt L P resolver run" "req_ok rt L request"
    and "resolve_index_package rt resolver rec from request r run = Some (err, run')"
  shows "step rt L P resolver run run' \<and>
    (err = None \<longrightarrow> (\<exists>q. ht_get (cur_named run') (Some (req_qualified request)) = Some q \<and>
       spn_semver_in_range (id_version (pkg_id q)) r))"
proof -
  let ?name = "Some (req_qualified request)"
  let ?n = "spn_pkg_name_from_qualified (rt_cleave rt) (req_qualified request)"
  have nm: "?name = Some (spn_pkg_name_to_qualified ?n)" using assms(3) by (simp add: canon_def req_ok_def)
  note refl = step_refl [OF assms(2)]
  show ?thesis
  proof (cases "ht_get (run_visited run) ?name")
    case Some
    then show ?thesis using assms(4) refl by (auto simp: resolve_index_package_def Let_def)
  next
    case vis: None
    show ?thesis
    proof (cases "ht_get (cur_named run) ?name")
      case (Some q)
      then show ?thesis using assms(4) vis refl
        by (auto simp: resolve_index_package_def Let_def split: if_splits)
    next
      case free: None
      show ?thesis
      proof (cases "\<exists>pkg. rt_get_package rt ?n = Inr (Some pkg)")
        case False
        then show ?thesis using assms(4) vis free refl
          by (auto simp: resolve_index_package_def Let_def split: sum.splits option.splits)
      next
        case True
        then obtain pkg where pkg: "rt_get_package rt ?n = Inr (Some pkg)" ..
        show ?thesis
        proof (cases "held_version run ?name")
          case None
          have eq: "resolve_index_package rt resolver rec from request r run =
              (try_releases rt resolver rec r (rev (ipkg_releases pkg)) None run \<bind>
               (\<lambda>((err, stop), run). if stop then Some (err, run)
                  else case err of Some e \<Rightarrow> Some (Some e, run)
                  | None \<Rightarrow> Some (Some (unsatisfiable_err rt from request ErrPkgNoMatch semver_zero), run)))"
            using None vis free pkg by (simp add: resolve_index_package_def Let_def)
          obtain err1 stop run1 where loop: "try_releases rt resolver rec r
               (rev (ipkg_releases pkg)) None run = Some ((err1, stop), run1)"
            using assms(4) unfolding eq by (auto simp: bind_eq_Some_conv)
          have out: "run' = run1" "err = None \<Longrightarrow> stop \<and> err1 = None"
            using assms(4) unfolding eq loop by (auto split: if_splits option.splits)
          have "step rt L P resolver run run1 \<and>
             (stop \<and> err1 = None \<longrightarrow> (\<exists>q. ht_get (cur_named run1) ?name = Some q \<and>
                spn_semver_in_range (id_version (pkg_id q)) r))"
            using try_releases_post [OF assms(1) pkg _ nm assms(2) vis free None loop] by simp
          then show ?thesis using out by auto
        next
          case (Some h)
          obtain v c where h: "h = (v, c)" by (cases h)
          show ?thesis
          proof (cases "c \<or> \<not> spn_semver_in_range v r \<or> find_release (ipkg_releases pkg) v = None")
            case True
            then show ?thesis using assms(4) vis free pkg Some h refl
              by (auto simp: resolve_index_package_def Let_def split: if_splits)
          next
            case False
            then obtain release where rel: "find_release (ipkg_releases pkg) v = Some release" by auto
            have "find_release rs v = Some release \<Longrightarrow> release \<in> set rs \<and> rel_version release = v" for rs
              by (induction rs) (auto simp: spn_semver_eq_def split: if_splits intro: spn_semver_t.expand)
            from this [OF rel] have mem: "release \<in> set (ipkg_releases pkg)" "rel_version release = v"
              by simp_all
            have id: "rel_id release = ?n" by (rule rt_ok_release(1)[OF assms(1) pkg mem(1)])
            have rn: "release_name release = ?name" using id nm by (simp add: release_name_def)
            have call: "try_candidate rt resolver rec release run = Some (err, run')"
              using assms(4) vis free pkg Some h rel False
              by (simp add: resolve_index_package_def Let_def)
            note post = try_candidate_post [OF assms(1,2) pkg[folded id] mem(1), unfolded rn,
                OF vis free _ _ call]
            have "step rt L P resolver run run'" using post(1) Some h False mem(2) by simp
            moreover have "err = None \<Longrightarrow> \<exists>q. ht_get (cur_named run') ?name = Some q \<and>
                id_version (pkg_id q) = rel_version release"
              using post(2) Some h False mem(2) by simp
            ultimately show ?thesis using False mem(2) by auto
          qed
        qed
      qed
    qed
  qed
qed

lemma resolve_local_post:
  assumes "rt_ok rt L" "solver_inv rt L P resolver run" "req_ok rt L request"
    and "resolve_local_package rt resolver rec from request run = Some (err, run')"
  shows "step rt L P resolver run run' \<and>
    (err = None \<longrightarrow> (\<exists>q. ht_get (cur_named run') (Some (req_qualified request)) = Some q))"
proof -
  let ?name = "Some (req_qualified request)"
  note refl = step_refl [OF assms(2)]
  show ?thesis
  proof (cases "ht_get (run_visited run) ?name \<noteq> None \<or> ht_get (cur_named run) ?name \<noteq> None")
    case True
    then show ?thesis using assms(4) refl
      by (auto simp: resolve_local_package_def Let_def split: if_splits)
  next
    case False
    obtain res run1 where find: "find_local_pkg rt request run = (res, run1)"
      by (cases "find_local_pkg rt request run")
    note found = find_local_post [OF assms(1-3) find]
    show ?thesis
    proof (cases res)
      case (Inl e)
      then show ?thesis using assms(4) False find found(1)
        by (auto simp: resolve_local_package_def Let_def)
    next
      case (Inr pkg)
      let ?info = "reg_info pkg"
      have held1: "held_version run1 ?name = held_version run ?name"
        using frame_held [of run run1] found(1) assms(2) by (simp add: step_def solver_inv_def)
      have inv1: "solver_inv rt L P resolver run1" using found(1) by (simp add: step_def)
      have reg: "ht_get (run_registry run1) (registry_key ?name) = Some pkg" using found(6) Inr by simp
      consider (conflict) e where "err = Some e" "run' = run1"
        | (go) env where "node_options_env resolver (local_node rt pkg) = Some env"
            "rec ?name ((local_node rt pkg)\<lparr>pkg_deps := rt_sort_reqs rt (sort_req_canonical rt)
               (keep_deps req_when env (info_deps ?info))\<rparr>) run1 = Some (err, run')"
            "\<And>v c. held_version run1 ?name = Some (v, c) \<Longrightarrow> \<not> c \<and> info_version ?info = v"
        using assms(4) False find Inr
        by (auto simp: resolve_local_package_def Let_def bind_eq_Some_conv spn_semver_eq_def
            split: option.splits prod.splits if_splits intro: spn_semver_t.expand)
      then show ?thesis
      proof cases
        case conflict
        then show ?thesis using found(1) by simp
      next
        case go
        let ?node = "(local_node rt pkg)\<lparr>pkg_deps := rt_sort_reqs rt (sort_req_canonical rt)
               (keep_deps req_when env (info_deps ?info))\<rparr>"
        have "node_pre rt L P resolver ?name ?node run1"
          by (rule local_pre [OF assms(1) inv1 reg _ _ go(3)]) (use False found(2,4) in simp_all)
        from contract [OF this go(2)] have post: "node_post rt L P resolver ?name ?node run1 err run'" .
        then have "step rt L P resolver run run'"
          using step_trans [OF assms(2) found(1)] by (simp add: node_post_def)
        then show ?thesis using post by (auto simp: node_post_def)
      qed
    qed
  qed
qed

lemma resolve_dep_post:
  assumes "rt_ok rt L" "solver_inv rt L P resolver run" "req_ok rt L dep"
    and "registered (run_registry run) node" "source_node run node [dep]"
    and "resolve_dep rt resolver rec node dep run = Some (err, run')"
  shows "step rt L P resolver run run' \<and>
    (err = None \<longrightarrow> dep_met resolver (run_registry run') (known P run') (ht_get (cur_named run')) node dep)"
proof -
  obtain edge where edge: "classify_dep resolver (run_registry run) node dep = Some edge"
    using assms(6) by (auto simp: resolve_dep_def bind_eq_Some_conv)
  show ?thesis
  proof (cases "edge = SPN_DEP_EDGE_SCOPE")
    case False
    show ?thesis
    proof (cases "edge = SPN_DEP_EDGE_PRUNED")
      case True
      then have "err = None" "run' = run" using assms(6) edge by (simp_all add: resolve_dep_def Let_def)
      then show ?thesis using edge True step_refl [OF assms(2)] by (simp add: dep_met_def)
    next
      case pushed: False
      let ?b = "boundary_of node edge dep"
      have kind: "edge = SPN_DEP_EDGE_PROCESS \<or> edge = SPN_DEP_EDGE_PRIVATE"
        using False pushed by (cases edge) simp_all
      have "resolve_dep rt resolver rec node dep run =
          Some (None, run\<lparr>run_boundaries := run_boundaries run @ [?b]\<rparr>)"
        using edge False pushed by (cases edge) (simp_all add: resolve_dep_def Let_def boundary_of_def)
      then have err: "err = None" and run': "run' = run\<lparr>run_boundaries := run_boundaries run @ [?b]\<rparr>"
        using assms(6) by simp_all
      have "sourced rt L resolver (ht_get (cur_named run)) (ht_get (run_visited run)) run ?b"
        by (rule source_sourced [OF assms(5,3) edge kind])
      then have "step rt L P resolver run run'"
        using step_push [OF assms(2), of "[?b]"] by (simp add: run')
      moreover have "dep_met resolver (run_registry run') (known P run') (ht_get (cur_named run')) node dep"
        using edge False by (simp add: dep_met_def run')
      ultimately show ?thesis by simp
    qed
  next
    case True
    have met: "dep_met resolver (run_registry run') (known P run') (ht_get (cur_named run')) node dep"
      if "step rt L P resolver run run'"
        "ht_get (cur_named run') (Some (req_qualified dep)) = Some q"
        "\<And>r. req_target dep = ReqIndex r \<Longrightarrow> spn_semver_in_range (id_version (pkg_id q)) r" for q
    proof -
      have "classify_dep resolver (run_registry run') node dep = Some SPN_DEP_EDGE_SCOPE"
        using classify_mono [OF assms(4), of "run_registry run'" rt L resolver dep] that(1) assms(2) edge True
        by (simp add: step_def solver_inv_def)
      then show ?thesis using that(2,3) by (simp add: dep_met_def)
    qed
    show ?thesis
    proof (cases "req_target dep")
      case (ReqIndex r)
      then have "resolve_index_package rt resolver rec node dep r run = Some (err, run')"
        using assms(6) edge True by (simp add: resolve_dep_def Let_def)
      from resolve_index_post [OF assms(1-3) this] show ?thesis
        using ReqIndex met by (metis req_target.inject(1))
    next
      case (ReqFile path)
      then have "resolve_local_package rt resolver rec node dep run = Some (err, run')"
        using assms(6) edge True by (simp add: resolve_dep_def Let_def)
      from resolve_local_post [OF assms(1-3) this] show ?thesis
        using ReqFile met by fastforce
    next
      case ReqRoot
      then have "resolve_local_package rt resolver rec node dep run = Some (err, run')"
        using assms(6) edge True by (simp add: resolve_dep_def Let_def)
      from resolve_local_post [OF assms(1-3) this] show ?thesis
        using ReqRoot met by fastforce
    qed
  qed
qed

lemma step_dep_met:
  assumes "step rt L P resolver a b" "solver_inv rt L P resolver a" "registered (run_registry a) node"
    and "dep_met resolver (run_registry a) (known P a) (ht_get (cur_named a)) node d"
  shows "dep_met resolver (run_registry b) (known P b) (ht_get (cur_named b)) node d"
  using dep_met_mono [OF assms(4,3)] assms(1,2) step_known [OF assms(1)]
  by (auto simp: step_def solver_inv_def)

lemma resolve_dep_list_post:
  assumes "rt_ok rt L" "solver_inv rt L P resolver run" "registered (run_registry run) node"
    and "\<forall>d \<in> set deps. req_ok rt L d" "source_node run node deps"
    and "resolve_dep_list rt resolver rec node deps run = Some (err, run')"
  shows "step rt L P resolver run run' \<and>
    (err = None \<longrightarrow> (\<forall>d \<in> set deps.
       dep_met resolver (run_registry run') (known P run') (ht_get (cur_named run')) node d))"
  using assms(2-)
proof (induction deps arbitrary: run)
  case Nil
  then show ?case by (simp add: step_refl)
next
  case (Cons dep deps)
  obtain err1 run1 where one: "resolve_dep rt resolver rec node dep run = Some (err1, run1)"
    and rest: "(if err1 \<noteq> None then Some (err1, run1)
       else resolve_dep_list rt resolver rec node deps run1) = Some (err, run')"
    using Cons.prems(5) by (auto simp: bind_eq_Some_conv)
  have post: "step rt L P resolver run run1 \<and>
    (err1 = None \<longrightarrow> dep_met resolver (run_registry run1) (known P run1) (ht_get (cur_named run1)) node dep)"
    by (rule resolve_dep_post [OF assms(1) Cons.prems(1) _ Cons.prems(2) _ one])
      (use Cons.prems(3,4) in \<open>auto simp: source_node_def\<close>)
  show ?case
  proof (cases err1)
    case (Some e)
    then show ?thesis using rest post by auto
  next
    case None
    have inv1: "solver_inv rt L P resolver run1" using post by (simp add: step_def)
    have reg1: "registered (run_registry run1) node"
      using registered_mono [OF Cons.prems(2)] post by (simp add: step_def)
    have src: "source_node run1 node deps"
      using source_node_step [OF Cons.prems(4), of rt L P resolver run1 deps] post by auto
    have "step rt L P resolver run1 run' \<and> (err = None \<longrightarrow> (\<forall>d \<in> set deps.
       dep_met resolver (run_registry run') (known P run') (ht_get (cur_named run')) node d))"
      using Cons.IH [OF inv1 reg1 _ src] Cons.prems(3) rest None by simp
    then show ?thesis
      using step_trans [OF Cons.prems(1)] post None step_dep_met [OF _ inv1 reg1] by auto
  qed
qed

end

section \<open>The contract holds of \<open>solve_node\<close>\<close>

lemma map_le_upd_new: "m k = None \<Longrightarrow> m \<subseteq>\<^sub>m m(k \<mapsto> v)"
  by (auto simp: map_le_def)

lemma enter_node_inv:
  assumes pre: "node_pre rt L P resolver name node run"
    and same: "pkg_id node' = pkg_id node" "pkg_source node' = pkg_source node"
      "pkg_deps node' = pkg_deps node" "pkg_origin node' = pkg_origin node"
    and run1_def: "run1 = (set_named (ht_insert name node' (cur_named run)) (run\<lparr>run_picks := picks\<rparr>))
      \<lparr>run_visited := ht_insert name 1 (run_visited run)\<rparr>"
  shows "solver_inv rt L P resolver run1" "frame run run1"
    "ht_get (cur_named run1) = (ht_get (cur_named run))(name \<mapsto> node')"
    "ht_get (run_visited run1) = (ht_get (run_visited run))(name \<mapsto> 1)"
    "run_registry run1 = run_registry run" "run_boundaries run1 = run_boundaries run"
    "run_budget run1 = run_budget run" "held_version run1 k = held_version run k"
    "known P run1 = known P run"
proof -
  let ?N = "ht_get (cur_named run)" and ?V = "ht_get (run_visited run)" and ?reg = "run_registry run"
  have keys: "distinct (ht_keys (cur_named run))"
    and inv: "idx_ok run" "registry_ok rt L ?reg" "closed rt L resolver ?reg (known P run) ?V ?N"
    and ok: "node_ok rt L ?reg node" and id: "id_qualified (pkg_id node) = name"
    and free: "?N name = None"
    using pre by (simp_all add: node_pre_def solver_inv_def)
  show frame: "frame run run1"
    using frame_trans [of run "run\<lparr>run_picks := picks\<rparr>" run1] by (simp add: run1_def)
  show N: "ht_get (cur_named run1) = ?N(name \<mapsto> node')"
    using current_set_named [of "run\<lparr>run_picks := picks\<rparr>"] inv(1) by (simp add: run1_def)
  have keys': "distinct (ht_keys (cur_named run1))"
    using current_set_named [of "run\<lparr>run_picks := picks\<rparr>"] inv(1) keys by (simp add: run1_def)
  show V: "ht_get (run_visited run1) = ?V(name \<mapsto> 1)"
    and reg: "run_registry run1 = ?reg" and "run_boundaries run1 = run_boundaries run"
    and "run_budget run1 = run_budget run" and known: "known P run1 = known P run"
    by (simp_all add: run1_def)
  show "held_version run1 k = held_version run k" by (rule frame_held [OF frame inv(1)])
  have le: "?N \<subseteq>\<^sub>m ?N(name \<mapsto> node')" using free by (auto simp: map_le_def)
  have ok': "node_ok rt L ?reg node'" using ok unfolding node_ok_def registered_def provenance_def same by simp
  have "closed rt L resolver ?reg (known P run) (?V(name \<mapsto> 1)) (?N(name \<mapsto> node'))"
    unfolding closed_def
  proof (intro allI impI conjI)
    fix k p assume kp: "(?N(name \<mapsto> node')) k = Some p"
    show "node_ok rt L ?reg p" using kp ok' inv(3) by (auto simp: closed_def split: if_splits)
    show "id_qualified (pkg_id p) = k" using kp id same inv(3) by (auto simp: closed_def split: if_splits)
    assume "(?V(name \<mapsto> 1)) k = None"
    then have k: "k \<noteq> name" "?V k = None" "?N k = Some p" using kp by (auto split: if_splits)
    then have "\<forall>d \<in> set (pkg_deps p). dep_met resolver ?reg (known P run) ?N p d" "registered ?reg p"
      using inv(3) by (auto simp: closed_def node_ok_def)
    then show "\<forall>d \<in> set (pkg_deps p). dep_met resolver ?reg (known P run) (?N(name \<mapsto> node')) p d"
      using dep_met_mono [OF _ _ map_le_refl inv(2,2) le subset_refl] by blast
  qed
  then show "solver_inv rt L P resolver run1"
    using inv(1,2) keys' N V reg known frame_idx [OF frame] by (simp add: solver_inv_def)
qed

lemma leave_node_inv:
  assumes inv: "solver_inv rt L P resolver run"
    and node: "ht_get (cur_named run) name = Some node"
    and met: "\<forall>d \<in> set (pkg_deps node).
      dep_met resolver (run_registry run) (known P run) (ht_get (cur_named run)) node d"
  shows "solver_inv rt L P resolver (run\<lparr>run_visited := ht_erase name (run_visited run)\<rparr>)"
  using inv node met by (auto simp: solver_inv_def closed_def simp del: map_of_eq_Some_iff)

lemma solve_node_post:
  "node_pre rt L P resolver name node run \<Longrightarrow>
   solve_node rt resolver fuel name node run = Some (err, run') \<Longrightarrow>
   node_post rt L P resolver name node run err run'"
proof (induction fuel arbitrary: name node run err run')
  case 0
  then show ?case by simp
next
  case (Suc fuel)
  note pre = Suc.prems(1)
  have solver: "node_solver rt L P resolver (solve_node rt resolver fuel)"
    using Suc.IH by (rule node_solver.intro)
  let ?node = "node\<lparr>pkg_priority := run_picks run\<rparr>"
  let ?run0 = "run\<lparr>run_picks := run_picks run + 1\<rparr>"
  let ?sn = "snapshot_named rt ?run0"
  let ?run1 = "(set_named (ht_insert name ?node (cur_named run)) ?run0)
      \<lparr>run_visited := ht_insert name 1 (run_visited run)\<rparr>"
  have id: "id_qualified (pkg_id ?node) = name" using pre by (simp add: node_pre_def)
  note enter = enter_node_inv [OF pre, of ?node, OF _ _ _ _ refl, simplified]
  obtain run2 where list: "resolve_dep_list rt resolver (solve_node rt resolver fuel) ?node
       (pkg_deps node) ?run1 = Some (err, run2)"
    and run': "run' = (if err \<noteq> None
       then truncate_boundaries (length (run_boundaries run)) (restore_named rt ?sn
              (run2\<lparr>run_visited := ht_erase name (run_visited run2)\<rparr>))
       else run2\<lparr>run_visited := ht_erase name (run_visited run2)\<rparr>)"
    using Suc.prems(2) id
    by (auto simp: resolve_deps_def Let_def bind_eq_Some_conv split: if_splits)
  have rtok: "rt_ok rt L" and idx: "idx_ok run" and free: "ht_get (cur_named run) name = None"
    and unvisited: "ht_get (run_visited run) name = None"
    and fresh: "fresh_ok rt (held_version run name) node"
    using pre by (simp_all add: node_pre_def solver_inv_def)
  have nok: "registered (run_registry run) ?node" "\<forall>d \<in> set (pkg_deps node). req_ok rt L d"
    using pre by (auto simp: node_pre_def node_ok_def registered_def)
  have src: "source_node ?run1 ?node (pkg_deps node)"
    unfolding source_node_def using enter(3,4) by (intro disjI2 exI [of _ name]) simp
  have post: "step rt L P resolver ?run1 run2 \<and> (err = None \<longrightarrow> (\<forall>d \<in> set (pkg_deps node).
       dep_met resolver (run_registry run2) (known P run2) (ht_get (cur_named run2)) ?node d))"
    by (rule node_solver.resolve_dep_list_post [OF solver rtok enter(1) _ nok(2) _ list])
      (use nok(1) src in simp_all)
  let ?run3 = "run2\<lparr>run_visited := ht_erase name (run_visited run2)\<rparr>"
  have V: "ht_get (run_visited ?run3) = ht_get (run_visited run)"
    using post enter(4) unvisited by (auto simp: step_def)
  have le: "(ht_get (cur_named run))(name \<mapsto> ?node) \<subseteq>\<^sub>m ht_get (cur_named run2)"
    using post enter(3) by (simp add: step_def)
  then have le': "ht_get (cur_named run) \<subseteq>\<^sub>m ht_get (cur_named run2)"
    using map_le_trans [OF map_le_upd_new [of "ht_get (cur_named run)" name ?node]] free by simp
  have "frame ?run1 run2" using post unfolding step_def by blast
  then have frame: "frame run run2" using frame_trans [OF enter(2)] by simp
  have idx2: "idx_ok run2" using frame_idx [OF frame] idx by simp
  have reg: "ht_get (run_registry run) \<subseteq>\<^sub>m ht_get (run_registry run2)"
    and bud: "unat (run_budget run2) \<le> unat (run_budget run)"
    and inv2: "solver_inv rt L P resolver run2"
    using post by (simp_all add: step_def)
  obtain bs where bs: "run_boundaries run2 = run_boundaries run @ bs"
    and src2: "\<forall>b \<in> set bs. sourced rt L resolver (ht_get (cur_named ?run1)) (ht_get (run_visited ?run1)) run2 b"
    using post by (auto simp: step_def)
  show ?case
  proof (cases err)
    case None
    have src: "\<forall>b \<in> set bs. sourced rt L resolver (ht_get (cur_named run)) (ht_get (run_visited run)) run2 b"
    proof
      fix b assume "b \<in> set bs"
      then have b: "sourced rt L resolver (ht_get (cur_named ?run1)) (ht_get (run_visited ?run1)) run2 b"
        using src2 by blast
      have ok: "registry_ok rt L (run_registry run2)" using inv2 by (simp add: solver_inv_def)
      have N1: "ht_get (cur_named ?run1) = (ht_get (cur_named run))(name \<mapsto> ?node)"
        using enter(3) by simp
      have "ht_get (cur_named run) \<subseteq>\<^sub>m ht_get (cur_named ?run1)"
        unfolding N1 by (rule map_le_upd_new, rule free)
      with b show "sourced rt L resolver (ht_get (cur_named run)) (ht_get (run_visited run)) run2 b"
      proof (rule sourced_mono [OF _ map_le_refl map_le_refl ok ok])
        fix k assume "ht_get (run_visited ?run1) k \<noteq> None"
        then have "k = name \<or> ht_get (run_visited run) k \<noteq> None" by (auto split: if_splits)
        then show "ht_get (run_visited run) k \<noteq> None \<or> ht_get (cur_named run) k = None" using free by (elim disjE) simp_all
      qed
    qed
    have node2: "ht_get (cur_named run2) name = Some ?node"
      using le unfolding map_le_def by (metis domI fun_upd_same)
    have inv3: "solver_inv rt L P resolver ?run3"
      by (rule leave_node_inv [OF inv2 node2]) (use post None in simp)
    have fresh': "fresh_ok rt (held_version run k) p"
      if kp: "ht_get (cur_named run2) k = Some p" "ht_get (cur_named run) k = None" for k p
    proof (cases "k = name")
      case True
      then have "p = ?node" using kp(1) node2 by simp
      moreover have "fresh_ok rt h ?node = fresh_ok rt h node" for h
        by (simp add: fresh_ok_def)
      ultimately show ?thesis using True fresh by simp
    next
      case False
      then have "ht_get (cur_named ?run1) k = None" using kp(2) enter(3) by simp
      then have "fresh_ok rt (held_version ?run1 k) p"
        using post kp(1) unfolding step_def by blast
      then show ?thesis using enter(8) by simp
    qed
    have "step rt L P resolver run ?run3"
      using inv3 V le' reg bud bs frame fresh' src by (simp add: step_def)
    then show ?thesis using None run' node2 by (simp add: node_post_def)
  next
    case (Some e)
    let ?run4 = "truncate_boundaries (length (run_boundaries run)) (restore_named rt ?sn ?run3)"
    have N: "ht_get (cur_named ?run4) = ht_get (cur_named run)"
    proof -
      have "set ?sn = dom (ht_get (cur_named run))" using snapshot_keys [OF rtok, of ?run0] by simp
      then show ?thesis using restore_get [OF rtok, of ?run3 "cur_named run" ?sn] idx2 le' by simp
    qed
    have regs: "registry_ok rt L (run_registry run)" "registry_ok rt L (run_registry run2)"
      using pre inv2 by (simp_all add: node_pre_def solver_inv_def)
    have "closed rt L resolver (run_registry run2) (known P run) (ht_get (run_visited run)) (ht_get (cur_named run))"
      using closed_mono_registry [OF _ reg regs] pre by (simp add: node_pre_def solver_inv_def)
    moreover have "distinct (ht_keys (cur_named ?run4))"
      using restore_distinct [of ?run3 rt ?sn] inv2 by (simp add: solver_inv_def)
    ultimately have inv4: "solver_inv rt L P resolver ?run4"
      using N V idx2 regs(2) bs by (simp add: solver_inv_def known_def)
    have "frame run ?run4"
      using frame frame_trans [of run ?run3 "restore_named rt ?sn ?run3"] by simp
    then have "step rt L P resolver run ?run4"
      using inv4 V N reg bud bs by (simp add: step_def)
    then show ?thesis using Some run' N bs by (simp add: node_post_def)
  qed
qed

interpretation solver: node_solver rt L P resolver "solve_node rt resolver fuel"
  for rt L P resolver fuel
  using solve_node_post by (rule node_solver.intro)

end
