(* ===== verification/Resolve_Returns.thy ===== *)
theory Resolve_Returns
  imports Resolve_Facts Semver_Facts
begin

text \<open>
  The solver returns. Along a path of the recursion every index candidate takes one unit of
  the budget and every local package adds a name to the scope, so fuel above the budget plus
  the number of local names still missing is enough, provided no unreachable branch of the
  sources is met (\<open>traps_free\<close>). The locale \<open>node_returns\<close> extends the solver's
  contract by this promise.
\<close>

section \<open>Unreachable branches\<close>

definition traps_free :: "runtime \<Rightarrow> spn_resolver_t \<Rightarrow> bool" where
  "traps_free rt resolver \<longleftrightarrow>
     profile_linkage (res_profile resolver) \<noteq> SPN_LIB_KIND_OBJECT \<and>
     profile_abi (res_profile resolver) \<noteq> SPN_ABI_COUNT \<and>
     (\<forall>e \<in> set (res_config resolver). config_kind (entry_value e) \<noteq> Some SPN_LIB_KIND_NONE) \<and>
     (\<forall>n pkg. rt_get_package rt n = Inr (Some pkg) \<longrightarrow>
        (\<forall>r \<in> set (ipkg_releases pkg). \<forall>t \<in> set (rel_targets r).
           SPN_LIB_KIND_NONE \<notin> set (itarget_linkages t)))"

definition node_plain :: "spn_resolved_pkg_t \<Rightarrow> bool" where
  "node_plain node \<longleftrightarrow>
     (\<forall>r. origin_release (pkg_origin node) = Some r \<longrightarrow>
        (\<forall>t \<in> set (rel_targets r). SPN_LIB_KIND_NONE \<notin> set (itarget_linkages t)))"

lemma facts_env_some: "facts_abi f \<noteq> SPN_ABI_COUNT \<Longrightarrow> spn_when_env_set_facts env f \<noteq> None"
  by (cases "facts_abi f") (simp_all add: spn_when_env_set_facts_def Let_def)

lemma options_env_some:
  "traps_free rt resolver \<Longrightarrow> \<exists>env. node_options_env resolver node = Some env"
  using facts_env_some [of "spn_profile_facts (res_profile resolver)" spn_when_env_init]
  by (auto simp: traps_free_def node_options_env_def Let_def spn_pkg_options_env_def
      spn_pkg_options_merge_def spn_when_env_from_profile_def spn_profile_facts_def split_beta
      split: option.splits)

lemma config_find_mem: "spn_pkg_config_find es name = Some c \<Longrightarrow> \<exists>e \<in> set es. entry_value e = c"
  by (induction es) (auto split: if_splits)

lemma select_some:
  assumes "traps_free rt resolver"
  shows "spn_target_select_lib_kind s (kind_query resolver name) \<noteq> None"
proof -
  have has: "k \<noteq> SPN_LIB_KIND_NONE \<Longrightarrow> spn_linkage_set_has s k \<noteq> None" for k
    by (cases k) simp_all
  have first: "\<forall>k \<in> set ks. k \<noteq> SPN_LIB_KIND_NONE \<Longrightarrow> select_first_supported s ks \<noteq> None" for ks
    using has by (induction ks) (auto split: option.splits bool.splits)
  have config: "query_config (kind_query resolver name) \<noteq> Some SPN_LIB_KIND_NONE"
    using assms config_find_mem [of "res_config resolver" name]
    by (auto simp: traps_free_def kind_query_def Let_def split: option.splits)
  have linkage: "query_linkage (kind_query resolver name) \<noteq> SPN_LIB_KIND_OBJECT"
    using assms by (simp add: traps_free_def kind_query_def Let_def)
  show ?thesis
  proof (cases "query_config (kind_query resolver name)")
    case None
    then show ?thesis using linkage first
      by (cases "query_linkage (kind_query resolver name)")
        (simp_all add: spn_target_select_lib_kind_def del: select_first_supported.simps)
  next
    case (Some k)
    then show ?thesis using config has [of k]
      by (auto simp: spn_target_select_lib_kind_def split: option.splits bool.splits)
  qed
qed

lemma shared_some:
  "traps_free rt resolver \<Longrightarrow> \<exists>b. target_selects_shared s (kind_query resolver name) = Some b"
  using select_some [of rt resolver s name] by (auto simp: target_selects_shared_def)

lemma libs_shared_some:
  "traps_free rt resolver \<Longrightarrow> libs_are_shared (kind_query resolver name) libs \<noteq> None"
proof (induction libs)
  case (Cons lib libs)
  then show ?case using shared_some [OF Cons.prems, of "snd lib" name] by auto
qed simp

lemma add_linkages_some: "SPN_LIB_KIND_NONE \<notin> set ks \<Longrightarrow> \<exists>s'. add_linkages s ks = Some s'"
proof (induction ks arbitrary: s)
  case (Cons k ks)
  then show ?case by (cases k) auto
qed simp

lemma release_shared_some:
  "traps_free rt resolver \<Longrightarrow> \<forall>t \<in> set ts. SPN_LIB_KIND_NONE \<notin> set (itarget_linkages t) \<Longrightarrow>
   release_is_shared (kind_query resolver name) ts \<noteq> None"
proof (induction ts)
  case (Cons t ts)
  obtain s where s: "add_linkages linkage_set_zero (itarget_linkages t) = Some s"
    using add_linkages_some Cons.prems(2) by (meson list.set_intros(1))
  show ?case using Cons s shared_some [OF Cons.prems(1), of s name] by auto
qed simp

lemma classify_some:
  assumes "traps_free rt resolver" "node_plain node"
  shows "\<exists>edge. classify_dep resolver reg node dep = Some edge"
proof -
  have "node_is_shared resolver reg node \<noteq> None"
    using assms(2) release_shared_some [OF assms(1)] libs_shared_some [OF assms(1)]
    by (auto simp: node_is_shared_def Let_def node_plain_def
        split: spn_pkg_source_t.splits option.splits)
  then show ?thesis by (auto simp: classify_dep_def split: spn_dep_kind_t.splits)
qed

section \<open>The measure\<close>

definition work :: "sp_name set \<Rightarrow> spn_resolve_run_t \<Rightarrow> nat" where
  "work L run = unat (run_budget run) + card (L - dom (ht_get (cur_named run)))"

definition node_work :: "sp_name set \<Rightarrow> sp_name \<Rightarrow> spn_resolve_run_t \<Rightarrow> nat" where
  "node_work L name run =
     unat (run_budget run) + card (L - insert name (dom (ht_get (cur_named run))))"

lemma step_work:
  assumes "finite L" "step rt L P resolver a b"
  shows "work L b \<le> work L a"
proof -
  have "dom (ht_get (cur_named a)) \<subseteq> dom (ht_get (cur_named b))"
    using assms(2) map_le_implies_dom_le unfolding step_def by blast
  then have "card (L - dom (ht_get (cur_named b))) \<le> card (L - dom (ht_get (cur_named a)))"
    by (intro card_mono) (use assms(1) in auto)
  then show ?thesis using assms(2) by (simp add: work_def step_def)
qed

lemma node_work_le: "finite L \<Longrightarrow> node_work L name run \<le> work L run"
  by (auto simp: node_work_def work_def intro!: card_mono)

lemma node_work_candidate:
  assumes "finite L" "run_budget run \<noteq> 0"
  shows "node_work L name (run\<lparr>run_budget := run_budget run - 1\<rparr>) < work L run"
  using unat_dec [OF assms(2)] node_work_le [OF assms(1), of name run]
  by (simp add: node_work_def work_def)

lemma node_work_local:
  assumes "finite L" "name \<in> L" "ht_get (cur_named run) name = None"
  shows "node_work L name run < work L run"
proof -
  have "L - insert name (dom (ht_get (cur_named run))) \<subset> L - dom (ht_get (cur_named run))"
    using assms by auto
  then show ?thesis using assms(1) by (auto simp: node_work_def work_def intro!: psubset_card_mono)
qed

section \<open>The contract of a call that returns\<close>

locale node_returns = node_solver +
  fixes bound :: nat
  assumes returns:
    "finite L \<Longrightarrow> traps_free rt resolver \<Longrightarrow> node_pre rt L P resolver name node run \<Longrightarrow>
     node_plain node \<Longrightarrow> node_work L name run < bound \<Longrightarrow> rec name node run \<noteq> None"
begin

lemma try_candidate_returns:
  assumes env: "finite L" "traps_free rt resolver"
    and "rt_ok rt L" "solver_inv rt L P resolver run"
    and "rt_get_package rt (rel_id release) = Inr (Some pkg)" "release \<in> set (ipkg_releases pkg)"
    and "ht_get (run_visited run) (release_name release) = None"
    and "ht_get (cur_named run) (release_name release) = None"
    and "\<And>v c. held_version run (release_name release) = Some (v, c) \<Longrightarrow> \<not> c \<and> rel_version release = v"
    and "rel_yanked release \<Longrightarrow> held_version run (release_name release) \<noteq> None"
    and "work L run \<le> bound"
  shows "try_candidate rt resolver rec release run \<noteq> None"
proof (cases "run_fatal run \<or> run_budget run = 0")
  case True
  then show ?thesis by (simp add: try_candidate_def)
next
  case False
  let ?run = "run\<lparr>run_budget := run_budget run - 1\<rparr>"
  let ?name = "release_name release"
  obtain opts where opts: "node_options_env resolver (release_node release) = Some opts"
    using options_env_some [OF env(2)] by blast
  let ?node = "(release_node release)
       \<lparr>pkg_deps := rt_sort_reqs rt (sort_req_canonical rt)
          (map request_from_index (keep_deps idep_when opts (rel_deps release)))\<rparr>"
  have pre: "node_pre rt L P resolver ?name ?node ?run"
    by (rule candidate_pre [OF assms(3-10)])
  have plain: "node_plain ?node"
    using env(2) assms(5,6) by (auto simp: node_plain_def release_node_def traps_free_def)
  have "node_work L ?name ?run < bound"
    using node_work_candidate [OF env(1), of run ?name] False assms(11) by simp
  from returns [OF env pre plain this] show ?thesis
    using False opts by (simp add: try_candidate_def Let_def)
qed

lemma try_releases_returns:
  assumes env: "finite L" "traps_free rt resolver"
    and "rt_ok rt L" "rt_get_package rt n = Inr (Some pkg)" "set rs \<subseteq> set (ipkg_releases pkg)"
    and "name = Some (spn_pkg_name_to_qualified n)"
    and "solver_inv rt L P resolver run"
    and "ht_get (run_visited run) name = None" "ht_get (cur_named run) name = None"
    and "held_version run name = None" "work L run \<le> bound"
  shows "try_releases rt resolver rec r rs first run \<noteq> None"
  using assms(5-)
proof (induction rs arbitrary: first run)
  case Nil
  then show ?case by simp
next
  case (Cons release rs)
  show ?case
  proof (cases "rel_yanked release \<or> \<not> spn_semver_in_range (rel_version release) r")
    case True
    then show ?thesis using Cons by auto
  next
    case False
    have rel: "release \<in> set (ipkg_releases pkg)" using Cons.prems(1) by simp
    have id: "rel_id release = n" by (rule rt_ok_release(1)[OF assms(3,4) rel])
    have nm: "release_name release = name" using id Cons.prems(2) by (simp add: release_name_def)
    note held = Cons.prems(6)
    have "try_candidate rt resolver rec release run \<noteq> None"
      by (rule try_candidate_returns [OF env assms(3) Cons.prems(3) assms(4)[folded id] rel,
            unfolded nm, OF Cons.prems(4,5) _ _ Cons.prems(7)]) (use held False in simp_all)
    then obtain err1 run1 where tried: "try_candidate rt resolver rec release run = Some (err1, run1)"
      by auto
    note post = try_candidate_post [OF assms(3) Cons.prems(3) assms(4)[folded id] rel, unfolded nm,
        OF Cons.prems(4,5) _ _ tried]
    have p1: "step rt L P resolver run run1" using post(1) held False by simp
    have p3: "err1 \<noteq> None \<Longrightarrow> ht_get (cur_named run1) = ht_get (cur_named run)"
      using post(3) held False by simp
    show ?thesis
    proof (cases "err1 = None \<or> run_fatal run1")
      case True
      then show ?thesis using tried False by auto
    next
      case go: False
      have inv1: "solver_inv rt L P resolver run1" using p1 by (simp add: step_def)
      have "ht_get (run_visited run1) name = None" using p1 Cons.prems(4) by (simp add: step_def)
      moreover have "held_version run1 name = None"
        using frame_held [of run run1 name] p1 held Cons.prems(3) by (simp add: step_def solver_inv_def)
      moreover have "work L run1 \<le> bound" using step_work [OF env(1) p1] Cons.prems(7) by simp
      ultimately have "try_releases rt resolver rec r rs f run1 \<noteq> None" for f
        using Cons.IH [OF _ Cons.prems(2) inv1] Cons.prems(1,5) p3 go by simp
      then show ?thesis using tried False go by auto
    qed
  qed
qed

lemma resolve_index_returns:
  assumes env: "finite L" "traps_free rt resolver"
    and "rt_ok rt L" "solver_inv rt L P resolver run" "req_ok rt L request" "work L run \<le> bound"
  shows "resolve_index_package rt resolver rec from request r run \<noteq> None"
proof -
  let ?name = "Some (req_qualified request)"
  let ?n = "spn_pkg_name_from_qualified (rt_cleave rt) (req_qualified request)"
  have nm: "?name = Some (spn_pkg_name_to_qualified ?n)" using assms(5) by (simp add: canon_def req_ok_def)
  show ?thesis
  proof (cases "ht_get (run_visited run) ?name \<noteq> None \<or> ht_get (cur_named run) ?name \<noteq> None \<or>
      (\<nexists>pkg. rt_get_package rt ?n = Inr (Some pkg))")
    case True
    then show ?thesis
      by (auto simp: resolve_index_package_def Let_def split: option.splits sum.splits)
  next
    case False
    then obtain pkg where vis: "ht_get (run_visited run) ?name = None"
      and free: "ht_get (cur_named run) ?name = None"
      and pkg: "rt_get_package rt ?n = Inr (Some pkg)" by auto
    show ?thesis
    proof (cases "held_version run ?name")
      case None
      have "try_releases rt resolver rec r (rev (ipkg_releases pkg)) None run \<noteq> None"
        using try_releases_returns [OF env assms(3) pkg _ nm assms(4) vis free None assms(6)] by simp
      then obtain e st run1 where
        "try_releases rt resolver rec r (rev (ipkg_releases pkg)) None run = Some ((e, st), run1)"
        by auto
      then show ?thesis using vis free pkg None
        by (auto simp: resolve_index_package_def Let_def split: option.splits)
    next
      case (Some h)
      obtain v c where h: "h = (v, c)" by (cases h)
      have found: "find_release rs v = Some release \<Longrightarrow> release \<in> set rs \<and> rel_version release = v"
        for rs release
        by (induction rs) (auto simp: spn_semver_eq_def split: if_splits intro: spn_semver_t.expand)
      have "try_candidate rt resolver rec release run \<noteq> None"
        if rel: "find_release (ipkg_releases pkg) v = Some release" and c: "\<not> c" for release
      proof -
        note mem = found [OF rel]
        have id: "rel_id release = ?n" by (rule rt_ok_release(1)[OF assms(3) pkg]) (use mem in simp)
        have rn: "release_name release = ?name" using id nm by (simp add: release_name_def)
        show ?thesis
          by (rule try_candidate_returns [OF env assms(3,4) pkg[folded id], unfolded rn,
                OF _ vis free _ _ assms(6)]) (use mem Some h c in auto)
      qed
      then show ?thesis using vis free pkg Some h
        by (auto simp: resolve_index_package_def Let_def split: option.splits)
    qed
  qed
qed

lemma resolve_local_returns:
  assumes env: "finite L" "traps_free rt resolver"
    and "rt_ok rt L" "solver_inv rt L P resolver run" "req_ok rt L request" "work L run \<le> bound"
    and local: "req_source request \<noteq> SPN_PKG_SOURCE_INDEX"
  shows "resolve_local_package rt resolver rec from request run \<noteq> None"
proof -
  let ?name = "Some (req_qualified request)"
  show ?thesis
  proof (cases "ht_get (run_visited run) ?name \<noteq> None \<or> ht_get (cur_named run) ?name \<noteq> None")
    case True
    then show ?thesis by (auto simp: resolve_local_package_def Let_def)
  next
    case False
    obtain res run1 where find: "find_local_pkg rt request run = (res, run1)"
      by (cases "find_local_pkg rt request run")
    note found = find_local_post [OF assms(3-5) find]
    show ?thesis
    proof (cases res)
      case (Inl e)
      then show ?thesis using False find by (simp add: resolve_local_package_def Let_def)
    next
      case (Inr pkg)
      have inv1: "solver_inv rt L P resolver run1" using found(1) by (simp add: step_def)
      have reg: "ht_get (run_registry run1) (registry_key ?name) = Some pkg" using found(6) Inr by simp
      obtain opts where opts: "node_options_env resolver (local_node rt pkg) = Some opts"
        using options_env_some [OF env(2)] by blast
      let ?node = "(local_node rt pkg)\<lparr>pkg_deps := rt_sort_reqs rt (sort_req_canonical rt)
               (keep_deps req_when opts (info_deps (reg_info pkg)))\<rparr>"
      have "?name \<in> L" using assms(5) local by (simp add: req_ok_def)
      then have "node_work L ?name run1 < work L run1"
        using node_work_local [OF env(1)] False found(2) by simp
      then have work: "node_work L ?name run1 < bound"
        using step_work [OF env(1) found(1)] assms(6) by simp
      have plain: "node_plain ?node" by (simp add: node_plain_def local_node_def Let_def)
      have "rec ?name ?node run1 \<noteq> None"
        if "\<And>v c. held_version run1 ?name = Some (v, c) \<Longrightarrow> \<not> c \<and> info_version (reg_info pkg) = v"
        by (rule returns [OF env local_pre [OF assms(3) inv1 reg _ _ that] plain work])
          (use False found(2,4) in simp_all)
      then show ?thesis using False find Inr opts
        by (auto simp: resolve_local_package_def Let_def semver_eq_iff split: option.splits)
    qed
  qed
qed

lemma resolve_dep_returns:
  assumes env: "finite L" "traps_free rt resolver"
    and "rt_ok rt L" "solver_inv rt L P resolver run" "req_ok rt L dep" "work L run \<le> bound"
    and "node_plain node"
  shows "resolve_dep rt resolver rec node dep run \<noteq> None"
proof -
  obtain edge where edge: "classify_dep resolver (run_registry run) node dep = Some edge"
    using classify_some [OF env(2) assms(7)] by blast
  show ?thesis
    using edge resolve_index_returns [OF assms(1-6)] resolve_local_returns [OF assms(1-6)]
    by (cases edge; cases "req_target dep") (simp_all add: resolve_dep_def Let_def)
qed

lemma resolve_dep_list_returns:
  assumes env: "finite L" "traps_free rt resolver"
    and "rt_ok rt L" "solver_inv rt L P resolver run" "registered (run_registry run) node"
    and "\<forall>d \<in> set deps. req_ok rt L d" "work L run \<le> bound" "node_plain node"
    and "source_node run node deps"
  shows "resolve_dep_list rt resolver rec node deps run \<noteq> None"
  using assms(4-)
proof (induction deps arbitrary: run)
  case (Cons dep deps)
  have dep: "req_ok rt L dep" using Cons.prems(3) by simp
  obtain err1 run1 where one: "resolve_dep rt resolver rec node dep run = Some (err1, run1)"
    using resolve_dep_returns [OF env assms(3) Cons.prems(1) dep Cons.prems(4,5)] by auto
  have st: "step rt L P resolver run run1"
    using resolve_dep_post [OF assms(3) Cons.prems(1) dep Cons.prems(2) _ one] Cons.prems(6)
    by (auto simp: source_node_def)
  have "resolve_dep_list rt resolver rec node deps run1 \<noteq> None"
  proof (rule Cons.IH)
    show "solver_inv rt L P resolver run1" using st by (simp add: step_def)
    show "registered (run_registry run1) node"
      using registered_mono [OF Cons.prems(2)] st by (simp add: step_def)
    show "work L run1 \<le> bound" using step_work [OF env(1) st] Cons.prems(4) by simp
    show "source_node run1 node deps"
      using source_node_step [OF Cons.prems(6) st] by auto
  qed (use Cons.prems in simp_all)
  then show ?case using one by auto
qed simp

end

section \<open>The contract holds of \<open>solve_node\<close>\<close>

lemma solve_node_returns:
  "finite L \<Longrightarrow> traps_free rt resolver \<Longrightarrow> node_pre rt L P resolver name node run \<Longrightarrow>
   node_plain node \<Longrightarrow> node_work L name run < fuel \<Longrightarrow>
   solve_node rt resolver fuel name node run \<noteq> None"
proof (induction fuel arbitrary: name node run)
  case 0
  then show ?case by simp
next
  case (Suc fuel)
  note pre = Suc.prems(3)
  have solver: "node_returns rt L P resolver (solve_node rt resolver fuel) fuel"
    using solver.node_solver_axioms Suc.IH
    by (auto intro!: node_returns.intro node_returns_axioms.intro)
  let ?node = "node\<lparr>pkg_priority := run_picks run\<rparr>"
  let ?run0 = "run\<lparr>run_picks := run_picks run + 1\<rparr>"
  let ?run1 = "(set_named (ht_insert name ?node (cur_named run)) ?run0)
      \<lparr>run_visited := ht_insert name 1 (run_visited run)\<rparr>"
  have id: "id_qualified (pkg_id ?node) = name" using pre by (simp add: node_pre_def)
  note enter = enter_node_inv [OF pre, of ?node, OF _ _ _ _ refl]
  have "work L ?run1 = node_work L name run"
    using enter(3) by (simp add: work_def node_work_def)
  then have work: "work L ?run1 \<le> fuel" using Suc.prems(5) by simp
  have "resolve_dep_list rt resolver (solve_node rt resolver fuel) ?node (pkg_deps node) ?run1 \<noteq> None"
  proof (rule node_returns.resolve_dep_list_returns [OF solver Suc.prems(1,2)])
    show "rt_ok rt L" using pre by (simp add: node_pre_def)
    show "solver_inv rt L P resolver ?run1" by (rule enter(1)) simp_all
    show "registered (run_registry ?run1) ?node" "\<forall>d \<in> set (pkg_deps node). req_ok rt L d"
      using pre by (auto simp: node_pre_def node_ok_def registered_def)
    show "node_plain ?node" using Suc.prems(4) by (simp add: node_plain_def)
    show "source_node ?run1 ?node (pkg_deps node)"
      unfolding source_node_def using enter(3,4) by (intro disjI2 exI [of _ name]) simp
  qed (rule work)
  then show ?case using id by (auto simp: resolve_deps_def Let_def)
qed

interpretation solver: node_returns rt L P resolver "solve_node rt resolver fuel" fuel
  for rt L P resolver fuel
  using solve_node_returns solver.node_solver_axioms
  by (auto intro!: node_returns.intro node_returns_axioms.intro)

end
