(* ===== verification/Resolve_Cycles.thy ===== *)
theory Resolve_Cycles
  imports Resolve_Groups Resolve_Returns
begin

text \<open>
  The graph of group nodes, and the depth-first check for cycles: it returns, it succeeds
  exactly on an acyclic graph, and the package it reports lies on a cycle. The locale
  \<open>cycle_walker\<close> holds the contract of the recursive call; the interpretation discharges it
  for \<open>check_group_cycle\<close> at every fuel.
\<close>

section \<open>The graph\<close>

definition group_node :: "spn_resolve_run_t \<Rightarrow> nat \<times> sp_name \<Rightarrow> spn_resolved_pkg_t option" where
  "group_node run k =
    (if fst k < length (run_scopes run) then ht_get (scope_named (run_scopes run ! fst k)) (snd k)
     else None)"

definition edge_target :: "spn_node_edge_t \<Rightarrow> nat \<times> sp_name" where
  "edge_target e = (ne_scope e, ne_name e)"

definition group_edges :: "spn_resolver_t \<Rightarrow> spn_resolve_run_t \<Rightarrow> nat \<times> sp_name \<Rightarrow> spn_node_edge_t list option" where
  "group_edges resolver run k =
     Option.bind (group_node run k) (collect_node_edges resolver run (fst k))"

definition group_graph :: "spn_resolver_t \<Rightarrow> spn_resolve_run_t \<Rightarrow> ((nat \<times> sp_name) \<times> (nat \<times> sp_name)) set" where
  "group_graph resolver run =
     {(k, edge_target e) | k e es. group_edges resolver run k = Some es \<and> e \<in> set es}"

text \<open>No dependency of a group node meets an unreachable branch when it is classified.\<close>

definition edges_known :: "spn_resolver_t \<Rightarrow> spn_resolve_run_t \<Rightarrow> bool" where
  "edges_known resolver run \<longleftrightarrow>
     (\<forall>k node. group_node run k = Some node \<longrightarrow>
        (\<forall>d \<in> set (pkg_deps node). classify_dep resolver (run_registry run) node d \<noteq> None))"

definition well_scoped :: "spn_resolve_run_t \<Rightarrow> (spn_node_edge_t) \<Rightarrow> bool" where
  "well_scoped run e \<longleftrightarrow> group_node run (edge_target e) = Some (ne_node e)"

lemma scope_index_bound: "scope_index ss root from = Some i \<Longrightarrow> i < length ss"
  by (induction ss arbitrary: i) (auto split: if_splits)

lemma node_edge_scoped:
  assumes "node_edge resolver run s node dep = Some (Some e)" "s < length (run_scopes run)"
  shows "well_scoped run e"
  using assms scope_index_bound
  by (auto simp: node_edge_def well_scoped_def group_node_def edge_target_def find_scope_def Let_def
      split: option.splits if_splits bind_splits)

lemma collect_edges_scoped:
  assumes "collect_edges resolver run s node deps edges = Some es" "s < length (run_scopes run)"
    and "\<forall>e \<in> set edges. well_scoped run e"
  shows "\<forall>e \<in> set es. well_scoped run e"
  using assms
proof (induction deps arbitrary: edges)
  case (Cons dep deps)
  then obtain found where found: "node_edge resolver run s node dep = Some found"
    and rest: "collect_edges resolver run s node deps
      (case found of None \<Rightarrow> edges
       | Some e \<Rightarrow> if list_ex (edge_present e) edges then edges else edges @ [e]) = Some es"
    by (auto split: bind_splits)
  have "\<forall>e \<in> set (case found of None \<Rightarrow> edges
       | Some e \<Rightarrow> if list_ex (edge_present e) edges then edges else edges @ [e]). well_scoped run e"
    using Cons.prems(2,3) node_edge_scoped found by (auto split: option.splits)
  then show ?case using Cons.IH [OF rest Cons.prems(2)] by simp
qed simp

lemma group_edges_scoped:
  "group_edges resolver run k = Some es \<Longrightarrow> e \<in> set es \<Longrightarrow> well_scoped run e"
  using collect_edges_scoped [of resolver run "fst k"]
  by (auto simp: group_edges_def collect_node_edges_def group_node_def split: bind_splits if_splits)

lemma collect_edges_some:
  "\<forall>d \<in> set deps. classify_dep resolver (run_registry run) node d \<noteq> None \<Longrightarrow>
   \<exists>es. collect_edges resolver run s node deps edges = Some es"
proof (induction deps arbitrary: edges)
  case (Cons dep deps)
  then have "\<exists>found. node_edge resolver run s node dep = Some found"
    by (auto simp: node_edge_def Let_def)
  then show ?case using Cons by (auto split: bind_splits)
qed simp

lemma group_edges_some:
  assumes "edges_known resolver run" "group_node run k = Some node"
  shows "\<exists>es. group_edges resolver run k = Some es"
  using assms collect_edges_some [of "pkg_deps node" resolver run node]
  by (cases k) (auto simp: group_edges_def collect_node_edges_def edges_known_def)

lemma graph_nodes:
  "(k, k') \<in> group_graph resolver run \<Longrightarrow> group_node run k \<noteq> None \<and> group_node run k' \<noteq> None"
  using group_edges_scoped [of resolver run k]
  by (auto simp: group_graph_def well_scoped_def group_edges_def split: bind_splits)

lemma group_nodes_set:
  assumes "\<forall>t. set (rt_named_order rt t) = set t"
    and "\<forall>s \<in> set (run_scopes run). distinct (ht_keys (scope_named s))"
  shows "set (group_nodes rt run) = {(s, name, node). group_node run (s, name) = Some node}"
  using assms
  by (auto simp: group_nodes_def group_node_def split: if_splits intro!: bexI)

definition nodes_of :: "spn_resolve_run_t \<Rightarrow> (nat \<times> sp_name) set" where
  "nodes_of run = {k. group_node run k \<noteq> None}"

lemma nodes_of_card: "finite (nodes_of run)" "card (nodes_of run) < group_fuel run"
proof -
  let ?ks = "concat (map (\<lambda>s. map (Pair s) (ht_keys (scope_named (run_scopes run ! s))))
      [0..<length (run_scopes run)])"
  have sub: "nodes_of run \<subseteq> set ?ks"
    by (force simp: nodes_of_def group_node_def split: if_splits dest: map_of_SomeD)
  have "length ?ks = sum_list (map (length \<circ> scope_named) (run_scopes run))"
    by (simp add: length_concat comp_def) (metis (no_types, lifting) map_map map_nth comp_def map_eq_conv)
  moreover have "card (nodes_of run) \<le> length ?ks"
    using card_mono [OF finite_set sub] card_length [of ?ks] by linarith
  ultimately show "card (nodes_of run) < group_fuel run" by (simp add: group_fuel_def)
  show "finite (nodes_of run)" using sub finite_subset by blast
qed

section \<open>The walk\<close>

abbreviation gray :: "spn_group_states_t \<Rightarrow> (nat \<times> sp_name) set" where
  "gray states \<equiv> {k. ht_get states k = Some 1}"

abbreviation black :: "spn_group_states_t \<Rightarrow> (nat \<times> sp_name) set" where
  "black states \<equiv> {k. ht_get states k = Some 2}"

text \<open>Finished nodes lead only to finished nodes and lie on no cycle.\<close>

definition walk_inv :: "((nat \<times> sp_name) \<times> (nat \<times> sp_name)) set \<Rightarrow> spn_group_states_t \<Rightarrow> bool" where
  "walk_inv E states \<longleftrightarrow>
     (\<forall>k k'. k \<in> black states \<longrightarrow> (k, k') \<in> E \<longrightarrow> k' \<in> black states) \<and>
     (\<forall>k \<in> black states. (k, k) \<notin> E\<^sup>+)"

definition cycle_error ::
    "runtime \<Rightarrow> spn_resolver_t \<Rightarrow> spn_resolve_run_t \<Rightarrow> resolve_err \<Rightarrow> bool" where
  "cycle_error rt resolver run e \<longleftrightarrow>
     (\<exists>k node. (k, k) \<in> (group_graph resolver run)\<^sup>+ \<and> group_node run k = Some node \<and>
        e = ErrUnitCycle
             (spn_pkg_name_from_qualified (rt_cleave rt) (name_text (id_qualified (pkg_id node))))
             (id_version (pkg_id node)))"

definition walk_pre ::
    "spn_resolver_t \<Rightarrow> spn_resolve_run_t \<Rightarrow> nat \<times> sp_name \<Rightarrow> spn_group_states_t \<Rightarrow> bool" where
  "walk_pre resolver run k states \<longleftrightarrow>
     group_node run k \<noteq> None \<and> walk_inv (group_graph resolver run) states \<and>
     (\<forall>g \<in> gray states. (g, k) \<in> (group_graph resolver run)\<^sup>+)"

definition walk_post ::
    "runtime \<Rightarrow> spn_resolver_t \<Rightarrow> spn_resolve_run_t \<Rightarrow> (nat \<times> sp_name) set \<Rightarrow>
     spn_group_states_t \<Rightarrow> resolve_err option \<Rightarrow> spn_group_states_t \<Rightarrow> bool" where
  "walk_post rt resolver run ks states err states' \<longleftrightarrow>
     (case err of
        None \<Rightarrow> walk_inv (group_graph resolver run) states' \<and> ks \<subseteq> black states' \<and>
          black states \<subseteq> black states' \<and> gray states' = gray states
      | Some e \<Rightarrow> cycle_error rt resolver run e)"

definition unmarked :: "spn_resolve_run_t \<Rightarrow> spn_group_states_t \<Rightarrow> (nat \<times> sp_name) set" where
  "unmarked run states = nodes_of run - gray states - black states"

lemma unmarked_mono:
  "black states \<subseteq> black states' \<Longrightarrow> gray states' = gray states \<Longrightarrow>
   card (unmarked run states') \<le> card (unmarked run states)"
  using nodes_of_card(1) [of run] by (intro card_mono) (auto simp: unmarked_def)

locale cycle_walker =
  fixes rt :: runtime and resolver :: spn_resolver_t and run :: spn_resolve_run_t
    and rec :: cycle_walk and depth :: nat
  assumes rec_post: "rec s name states = Some (err, states') \<Longrightarrow> walk_pre resolver run (s, name) states \<Longrightarrow>
      walk_post rt resolver run {(s, name)} states err states'"
    and rec_returns: "edges_known resolver run \<Longrightarrow> walk_pre resolver run (s, name) states \<Longrightarrow>
      card (unmarked run states) < depth \<Longrightarrow> \<exists>r. rec s name states = Some r"
begin

lemma check_edges_post:
  assumes "check_edges rec es states = Some (err, states')"
    and "\<forall>e \<in> set es. walk_pre resolver run (edge_target e) states"
    and "walk_inv (group_graph resolver run) states"
  shows "walk_post rt resolver run (edge_target ` set es) states err states'"
  using assms
proof (induction es arbitrary: states)
  case Nil
  then show ?case by (simp add: walk_post_def)
next
  case (Cons e es)
  then obtain err1 states1 where first: "rec (ne_scope e) (ne_name e) states = Some (err1, states1)"
    and rest: "if err1 \<noteq> None then (err, states') = (err1, states1)
      else check_edges rec es states1 = Some (err, states')"
    by (auto split: bind_splits if_splits)
  have "walk_pre resolver run (ne_scope e, ne_name e) states"
    using Cons.prems(2) by (simp add: edge_target_def)
  note post = rec_post [OF first this]
  show ?case
  proof (cases err1)
    case None
    then have s1: "walk_inv (group_graph resolver run) states1" "edge_target e \<in> black states1"
      "black states \<subseteq> black states1" "gray states1 = gray states"
      using post by (simp_all add: walk_post_def edge_target_def)
    have "\<forall>e \<in> set es. walk_pre resolver run (edge_target e) states1"
      using Cons.prems(2) s1 by (simp add: walk_pre_def)
    from Cons.IH [OF _ this s1(1)] rest None
    have "walk_post rt resolver run (edge_target ` set es) states1 err states'" by simp
    then show ?thesis using s1 by (auto simp: walk_post_def split: option.splits)
  next
    case (Some x)
    then show ?thesis using post rest by (simp add: walk_post_def)
  qed
qed

lemma check_edges_returns:
  assumes "edges_known resolver run" "card (unmarked run states) < depth"
    and "\<forall>e \<in> set es. walk_pre resolver run (edge_target e) states"
  shows "\<exists>r. check_edges rec es states = Some r"
  using assms
proof (induction es arbitrary: states)
  case (Cons e es)
  have pre: "walk_pre resolver run (ne_scope e, ne_name e) states"
    using Cons.prems(3) by (simp add: edge_target_def)
  obtain err1 states1 where first: "rec (ne_scope e) (ne_name e) states = Some (err1, states1)"
    using rec_returns [OF Cons.prems(1) pre Cons.prems(2)] by auto
  show ?case
  proof (cases err1)
    case None
    then have s1: "walk_inv (group_graph resolver run) states1"
      "black states \<subseteq> black states1" "gray states1 = gray states"
      using rec_post [OF first pre] by (simp_all add: walk_post_def)
    have "card (unmarked run states1) < depth"
      using Cons.prems(2) unmarked_mono [OF s1(2,3)] le_less_trans by blast
    moreover have "\<forall>e \<in> set es. walk_pre resolver run (edge_target e) states1"
      using Cons.prems(3) s1 by (simp add: walk_pre_def)
    ultimately show ?thesis using Cons.IH [OF Cons.prems(1)] first None by simp
  qed (simp add: first)
qed simp

lemma check_nodes_post:
  assumes "check_nodes rec ns states = Some (err, states')"
    and "\<forall>(s, name, node) \<in> set ns. group_node run (s, name) = Some node"
    and "walk_inv (group_graph resolver run) states" "gray states = {}"
  shows "walk_post rt resolver run ((\<lambda>(s, name, _). (s, name)) ` set ns) states err states'"
  using assms
proof (induction ns arbitrary: states)
  case Nil
  then show ?case by (simp add: walk_post_def)
next
  case (Cons n ns)
  obtain s name node where n: "n = (s, name, node)" by (cases n)
  obtain err1 states1 where first: "rec s name states = Some (err1, states1)"
    and rest: "if err1 \<noteq> None then (err, states') = (err1, states1)
      else check_nodes rec ns states1 = Some (err, states')"
    using Cons.prems(1) n by (auto split: bind_splits if_splits)
  have "walk_pre resolver run (s, name) states" using Cons.prems(2-4) n by (simp add: walk_pre_def)
  note post = rec_post [OF first this]
  show ?case
  proof (cases err1)
    case None
    then have s1: "walk_inv (group_graph resolver run) states1" "(s, name) \<in> black states1"
      "black states \<subseteq> black states1" "gray states1 = {}"
      using post Cons.prems(4) by (simp_all add: walk_post_def)
    from Cons.IH [OF _ _ s1(1,4)] Cons.prems(2) rest None
    have "walk_post rt resolver run ((\<lambda>(s, name, _). (s, name)) ` set ns) states1 err states'" by simp
    then show ?thesis using s1 n Cons.prems(4) by (auto simp: walk_post_def split: option.splits)
  next
    case (Some x)
    then show ?thesis using post rest by (simp add: walk_post_def)
  qed
qed

lemma check_nodes_returns:
  assumes "edges_known resolver run" "card (unmarked run states) < depth"
    and "\<forall>(s, name, node) \<in> set ns. group_node run (s, name) = Some node"
    and "walk_inv (group_graph resolver run) states" "gray states = {}"
  shows "\<exists>r. check_nodes rec ns states = Some r"
  using assms
proof (induction ns arbitrary: states)
  case (Cons n ns)
  obtain s name node where n: "n = (s, name, node)" by (cases n)
  have pre: "walk_pre resolver run (s, name) states"
    using Cons.prems(3-5) n by (simp add: walk_pre_def)
  obtain err1 states1 where first: "rec s name states = Some (err1, states1)"
    using rec_returns [OF Cons.prems(1) pre Cons.prems(2)] by auto
  show ?case
  proof (cases err1)
    case None
    then have s1: "walk_inv (group_graph resolver run) states1"
      "black states \<subseteq> black states1" "gray states1 = gray states"
      using rec_post [OF first pre] by (simp_all add: walk_post_def)
    have "card (unmarked run states1) < depth"
      using Cons.prems(2) unmarked_mono [OF s1(2,3)] le_less_trans by blast
    moreover have "gray states1 = {}" using s1(3) Cons.prems(5) by simp
    moreover have "\<forall>(s, name, node) \<in> set ns. group_node run (s, name) = Some node"
      using Cons.prems(3) by simp
    ultimately have "\<exists>r. check_nodes rec ns states1 = Some r"
      using Cons.IH [OF Cons.prems(1)] s1(1) by simp
    then show ?thesis using first None n by simp
  qed (simp add: first n)
qed simp

end

lemma black_insert: "black (ht_insert k 1 states) = black states - {k}"
  "gray (ht_insert k 1 states) = insert k (gray states)"
  "black (ht_insert k 2 states) = insert k (black states)"
  "gray (ht_insert k 2 states) = gray states - {k}"
  by auto

lemma graph_acyclic_insert:
  assumes "walk_inv E states" "k \<notin> black states" "\<forall>k'. (k, k') \<in> E \<longrightarrow> k' \<in> black states"
  shows "walk_inv E (ht_insert k 2 states)"
proof -
  have stay: "b \<in> black states" if "(a, b) \<in> E\<^sup>+" "a \<in> black states" for a b
    using that
  proof (induction rule: trancl_induct)
    case (step y z)
    then show ?case using assms(1) unfolding walk_inv_def by blast
  qed (use assms(1) in \<open>unfold walk_inv_def, blast\<close>)
  have "(k, k) \<notin> E\<^sup>+"
  proof
    assume "(k, k) \<in> E\<^sup>+"
    then obtain k' where "(k, k') \<in> E" "k' = k \<or> (k', k) \<in> E\<^sup>+"
      by (metis converse_tranclE)
    then show False using assms(2,3) stay by blast
  qed
  then show ?thesis using assms(1,3) unfolding walk_inv_def black_insert by blast
qed

lemma walk_enter:
  assumes "walk_pre resolver run k states" "k \<notin> gray states" "k \<notin> black states"
    and "group_edges resolver run k = Some es"
  shows "\<forall>e \<in> set es. walk_pre resolver run (edge_target e) (ht_insert k 1 states)"
    "walk_inv (group_graph resolver run) (ht_insert k 1 states)"
    "card (unmarked run (ht_insert k 1 states)) < card (unmarked run states)"
proof -
  show inv: "walk_inv (group_graph resolver run) (ht_insert k 1 states)"
    using assms(1,3) by (simp add: walk_inv_def black_insert walk_pre_def) blast
  show "\<forall>e \<in> set es. walk_pre resolver run (edge_target e) (ht_insert k 1 states)"
  proof
    fix e assume e: "e \<in> set es"
    then have step: "(k, edge_target e) \<in> group_graph resolver run"
      using assms(4) unfolding group_graph_def by blast
    then have "(g, edge_target e) \<in> (group_graph resolver run)\<^sup>+"
      if "g \<in> gray (ht_insert k 1 states)" for g
      using that assms(1) step unfolding black_insert walk_pre_def by (blast intro: trancl_into_trancl)
    then show "walk_pre resolver run (edge_target e) (ht_insert k 1 states)"
      using inv graph_nodes [OF step] by (simp add: walk_pre_def)
  qed
  have "unmarked run (ht_insert k 1 states) \<subset> unmarked run states"
    using assms(1-3) unfolding unmarked_def black_insert walk_pre_def nodes_of_def by auto
  then show "card (unmarked run (ht_insert k 1 states)) < card (unmarked run states)"
    using nodes_of_card(1) [of run] by (intro psubset_card_mono) (auto simp: unmarked_def)
qed

lemma check_group_cycle_walker:
  "cycle_walker rt resolver run (check_group_cycle rt resolver run fuel) fuel"
proof (induction fuel)
  case 0
  then show ?case by unfold_locales simp_all
next
  case (Suc fuel)
  note edges_post = cycle_walker.check_edges_post [OF Suc.IH]
    and edges_returns = cycle_walker.check_edges_returns [OF Suc.IH]
  show ?case
  proof
    fix s name states err states'
    assume run: "check_group_cycle rt resolver run (Suc fuel) s name states = Some (err, states')"
      and pre: "walk_pre resolver run (s, name) states"
    let ?k = "(s, name)"
    obtain node where node: "group_node run ?k = Some node" using pre by (auto simp: walk_pre_def)
    then have named: "ht_get (scope_named (run_scopes run ! s)) name = Some node"
      by (simp add: group_node_def split: if_splits)
    show "walk_post rt resolver run {?k} states err states'"
    proof (cases "?k \<in> gray states \<or> ?k \<in> black states")
      case True
      have "(?k, ?k) \<in> (group_graph resolver run)\<^sup>+" if "?k \<in> gray states"
        using that pre by (simp add: walk_pre_def)
      then have "cycle_error rt resolver run (ErrUnitCycle
          (spn_pkg_name_from_qualified (rt_cleave rt) (name_text (id_qualified (pkg_id node))))
          (id_version (pkg_id node)))" if "?k \<in> gray states"
        using that node unfolding cycle_error_def by blast
      then show ?thesis using True run pre named
        by (auto simp: walk_post_def walk_pre_def)
    next
      case False
      then obtain es err1 states1 where es: "group_edges resolver run ?k = Some es"
        and walk: "check_edges (check_group_cycle rt resolver run fuel) es (ht_insert ?k 1 states) =
          Some (err1, states1)"
        and res: "(err, states') = (if err1 \<noteq> None then (err1, states1) else (None, ht_insert ?k 2 states1))"
        using run named node by (auto simp: group_edges_def split: bind_splits)
      note enter = walk_enter [OF pre _ _ es]
      have post: "walk_post rt resolver run (edge_target ` set es) (ht_insert ?k 1 states) err1 states1"
        using edges_post [OF walk] enter False by simp
      show ?thesis
      proof (cases err1)
        case None
        then have s1: "walk_inv (group_graph resolver run) states1" "edge_target ` set es \<subseteq> black states1"
          "black states - {?k} \<subseteq> black states1" "gray states1 = insert ?k (gray states)"
          using post unfolding walk_post_def black_insert by simp_all
        have "?k \<notin> black states1" using s1(4) by force
        moreover have "\<forall>k'. (?k, k') \<in> group_graph resolver run \<longrightarrow> k' \<in> black states1"
          using es s1(2) unfolding group_graph_def by auto
        ultimately have "walk_inv (group_graph resolver run) (ht_insert ?k 2 states1)"
          using graph_acyclic_insert [OF s1(1)] by blast
        then show ?thesis using None res s1(3,4) False unfolding walk_post_def black_insert by auto
      next
        case (Some e)
        then show ?thesis using post res by (simp add: walk_post_def)
      qed
    qed
  next
    fix s name states
    assume known: "edges_known resolver run" and pre: "walk_pre resolver run (s, name) states"
      and small: "card (unmarked run states) < Suc fuel"
    let ?k = "(s, name)"
    obtain node where node: "group_node run ?k = Some node" using pre by (auto simp: walk_pre_def)
    then have named: "ht_get (scope_named (run_scopes run ! s)) name = Some node"
      by (simp add: group_node_def split: if_splits)
    show "\<exists>r. check_group_cycle rt resolver run (Suc fuel) s name states = Some r"
    proof (cases "?k \<in> gray states \<or> ?k \<in> black states")
      case False
      obtain es where es: "group_edges resolver run ?k = Some es"
        using group_edges_some [OF known node] by blast
      note enter = walk_enter [OF pre _ _ es]
      have "card (unmarked run (ht_insert ?k 1 states)) < fuel" using enter(3) False small by simp
      then obtain r where "check_edges (check_group_cycle rt resolver run fuel) es (ht_insert ?k 1 states) = Some r"
        using edges_returns [OF known _ enter(1)] False by blast
      then show ?thesis using False named es node by (cases r) (simp add: group_edges_def)
    qed (use named in auto)
  qed
qed

interpretation cycle: cycle_walker rt resolver run "check_group_cycle rt resolver run fuel" fuel
  for rt resolver run fuel
  by (rule check_group_cycle_walker)

section \<open>The check\<close>

definition order_ok :: "runtime \<Rightarrow> bool" where
  "order_ok rt \<longleftrightarrow> (\<forall>t. mset (rt_named_order rt t) = mset t)"

definition names_distinct :: "spn_resolve_run_t \<Rightarrow> bool" where
  "names_distinct run \<longleftrightarrow> (\<forall>s \<in> set (run_scopes run). distinct (ht_keys (scope_named s)))"

lemma group_nodes_iff:
  assumes "order_ok rt" "names_distinct run"
  shows "(s, name, node) \<in> set (group_nodes rt run) \<longleftrightarrow> group_node run (s, name) = Some node"
proof -
  have "\<forall>t. set (rt_named_order rt t) = set t"
    using assms(1) unfolding order_ok_def by (metis set_mset_mset)
  then show ?thesis using group_nodes_set assms(2) by (auto simp: names_distinct_def)
qed

lemma check_group_cycles_correct:
  assumes "order_ok rt" "names_distinct run" "edges_known resolver run"
  shows "\<exists>err. check_group_cycles rt resolver (group_fuel run) run = Some err \<and>
    (err = None \<longleftrightarrow> acyclic (group_graph resolver run)) \<and>
    (\<forall>e. err = Some e \<longrightarrow> cycle_error rt resolver run e)"
proof -
  let ?ns = "group_nodes rt run" and ?E = "group_graph resolver run"
  have nodes: "\<forall>(s, name, node) \<in> set ?ns. group_node run (s, name) = Some node"
    using group_nodes_iff [OF assms(1,2)] by auto
  have start: "walk_inv ?E []" "gray [] = {}" by (simp_all add: walk_inv_def)
  have "card (unmarked run []) < group_fuel run"
    using nodes_of_card(2) [of run] by (simp add: unmarked_def)
  then obtain err states where walk:
    "check_nodes (check_group_cycle rt resolver run (group_fuel run)) ?ns [] = Some (err, states)"
    using cycle.check_nodes_returns [OF assms(3) _ nodes start] by fastforce
  note post = cycle.check_nodes_post [OF walk nodes start]
  have "acyclic ?E" if "err = None"
  proof -
    have inv: "walk_inv ?E states" and all: "(\<lambda>(s, name, _). (s, name)) ` set ?ns \<subseteq> black states"
      using post that by (simp_all add: walk_post_def)
    have "(k, k) \<notin> ?E\<^sup>+" for k
    proof
      assume cycle: "(k, k) \<in> ?E\<^sup>+"
      then obtain k' where "(k, k') \<in> ?E" by (meson tranclD)
      then obtain node where "group_node run k = Some node" using graph_nodes by blast
      then have "(fst k, snd k, node) \<in> set ?ns" using group_nodes_iff [OF assms(1,2)] by simp
      then have "k \<in> black states" using all by force
      then show False using inv cycle unfolding walk_inv_def by blast
    qed
    then show ?thesis by (simp add: acyclic_def)
  qed
  moreover have "\<not> acyclic ?E" if "err = Some e" for e
    using post that by (auto simp: walk_post_def cycle_error_def acyclic_def)
  ultimately have "err = None \<longleftrightarrow> acyclic ?E" by (cases err) auto
  moreover have "\<forall>e. err = Some e \<longrightarrow> cycle_error rt resolver run e" using post by (auto simp: walk_post_def)
  ultimately show ?thesis using walk by (auto simp: check_group_cycles_def)
qed

end
