(* ===== verification/Resolve_Hash.thy ===== *)
theory Resolve_Hash
  imports Resolve_Cycles
begin

text \<open>
  The hash of a group node covers everything below it: on an acyclic graph the walk returns, and
  every hash is the hash of the node's name and version over the records of its edges, each with
  the hash of its target. The fallback for an open node is never used. The locale
  \<open>hash_walker\<close> holds the contract of the recursive call.
\<close>

section \<open>Tables of hashes\<close>

definition hash_of :: "spn_group_hash_t \<Rightarrow> nat \<times> sp_name \<Rightarrow> u64 option" where
  "hash_of memo k =
    (case ht_get memo k of
       None \<Rightarrow> None
     | Some st \<Rightarrow> if hst_state st = 2 then Some (hst_hash st) else None)"

definition open_nodes :: "spn_group_hash_t \<Rightarrow> (nat \<times> sp_name) set" where
  "open_nodes memo = {k. map_option hst_state (ht_get memo k) = Some 1}"

definition edge_record :: "(nat \<times> sp_name \<Rightarrow> u64 option) \<Rightarrow> spn_node_edge_t \<Rightarrow> spn_edge_record_t" where
  "edge_record H e =
     \<lparr>erec_hash = the (H (edge_target e)), erec_kind = ne_kind e, erec_private = ne_private e\<rparr>"

text \<open>The equation of a node: its hash over the hashes of its targets.\<close>

definition hash_equation ::
    "runtime \<Rightarrow> spn_resolver_t \<Rightarrow> spn_resolve_run_t \<Rightarrow> (nat \<times> sp_name \<Rightarrow> u64 option) \<Rightarrow>
     nat \<times> sp_name \<Rightarrow> bool" where
  "hash_equation rt resolver run H k \<longleftrightarrow>
     (\<exists>node es. group_node run k = Some node \<and> group_edges resolver run k = Some es \<and>
        (\<forall>e \<in> set es. H (edge_target e) \<noteq> None) \<and>
        H k = Some (node_hash rt node (map (edge_record H) es)))"

definition hash_inv ::
    "runtime \<Rightarrow> spn_resolver_t \<Rightarrow> spn_resolve_run_t \<Rightarrow> spn_group_hash_t \<Rightarrow> bool" where
  "hash_inv rt resolver run memo \<longleftrightarrow>
     (\<forall>k \<in> dom (hash_of memo). hash_equation rt resolver run (hash_of memo) k)"

lemma edge_record_mono:
  assumes "H \<subseteq>\<^sub>m H'" "\<forall>e \<in> set es. H (edge_target e) \<noteq> None"
  shows "map (edge_record H') es = map (edge_record H) es"
proof -
  have "\<forall>e \<in> set es. H' (edge_target e) = H (edge_target e)"
    using assms by (metis domIff map_le_def)
  then show ?thesis by (simp add: edge_record_def)
qed

lemma hash_equation_mono:
  assumes "hash_equation rt resolver run H k" "H \<subseteq>\<^sub>m H'"
  shows "hash_equation rt resolver run H' k"
proof -
  obtain node es where eq: "group_node run k = Some node" "group_edges resolver run k = Some es"
    "\<forall>e \<in> set es. H (edge_target e) \<noteq> None" "H k = Some (node_hash rt node (map (edge_record H) es))"
    using assms(1) unfolding hash_equation_def by blast
  have "H' k = H k" using eq(4) assms(2) by (metis domI map_le_def)
  moreover have "\<forall>e \<in> set es. H' (edge_target e) \<noteq> None"
    using eq(3) assms(2) by (metis domIff map_le_def)
  ultimately show ?thesis using eq edge_record_mono [OF assms(2) eq(3)]
    unfolding hash_equation_def by (intro exI [of _ node] exI [of _ es]) (simp del: map_eq_conv)
qed

lemma hash_of_open:
  assumes "hash_of memo k = None"
  shows "hash_of (ht_insert k \<lparr>hst_state = 1, hst_hash = h\<rparr> memo) = hash_of memo"
  using assms by (auto simp: hash_of_def fun_eq_iff)

lemma hash_of_done:
  "hash_of (ht_insert k \<lparr>hst_state = 2, hst_hash = h\<rparr> memo) = (hash_of memo)(k \<mapsto> h)"
  by (auto simp: hash_of_def fun_eq_iff)

lemma open_nodes_insert:
  "open_nodes (ht_insert k \<lparr>hst_state = 1, hst_hash = h\<rparr> memo) = insert k (open_nodes memo)"
  "open_nodes (ht_insert k \<lparr>hst_state = 2, hst_hash = h\<rparr> memo) = open_nodes memo - {k}"
  by (auto simp: open_nodes_def)

lemma open_not_done: "k \<in> open_nodes memo \<Longrightarrow> hash_of memo k = None"
  by (auto simp: open_nodes_def hash_of_def split: option.splits)

section \<open>The contract\<close>

definition hash_pre ::
    "runtime \<Rightarrow> spn_resolver_t \<Rightarrow> spn_resolve_run_t \<Rightarrow> nat \<times> sp_name \<Rightarrow> spn_group_hash_t \<Rightarrow> bool" where
  "hash_pre rt resolver run k memo \<longleftrightarrow>
     group_node run k \<noteq> None \<and> hash_inv rt resolver run memo \<and>
     (\<forall>g \<in> open_nodes memo. (g, k) \<in> (group_graph resolver run)\<^sup>+)"

definition hash_step ::
    "runtime \<Rightarrow> spn_resolver_t \<Rightarrow> spn_resolve_run_t \<Rightarrow> spn_group_hash_t \<Rightarrow> spn_group_hash_t \<Rightarrow> bool" where
  "hash_step rt resolver run memo memo' \<longleftrightarrow>
     hash_inv rt resolver run memo' \<and> hash_of memo \<subseteq>\<^sub>m hash_of memo' \<and>
     open_nodes memo' = open_nodes memo"

definition unhashed :: "spn_resolve_run_t \<Rightarrow> spn_group_hash_t \<Rightarrow> (nat \<times> sp_name) set" where
  "unhashed run memo = nodes_of run - dom (hash_of memo) - open_nodes memo"

lemma hash_step_trans:
  "hash_step rt resolver run a b \<Longrightarrow> hash_step rt resolver run b c \<Longrightarrow> hash_step rt resolver run a c"
  by (auto simp: hash_step_def intro: map_le_trans)

lemma hash_step_unhashed:
  assumes "hash_step rt resolver run memo memo'"
  shows "card (unhashed run memo') \<le> card (unhashed run memo)"
proof -
  have "dom (hash_of memo) \<subseteq> dom (hash_of memo')"
    using assms by (auto simp: hash_step_def map_le_implies_dom_le)
  then show ?thesis using assms nodes_of_card(1) [of run]
    by (intro card_mono) (auto simp: unhashed_def hash_step_def)
qed

lemma hash_pre_step:
  "hash_pre rt resolver run k memo \<Longrightarrow> hash_step rt resolver run memo memo' \<Longrightarrow>
   hash_pre rt resolver run k memo'"
  by (simp add: hash_pre_def hash_step_def)

locale hash_walker =
  fixes rt :: runtime and resolver :: spn_resolver_t and run :: spn_resolve_run_t
    and rec :: hash_walk and depth :: nat
  assumes rec_post: "acyclic (group_graph resolver run) \<Longrightarrow> rec s name memo = Some (h, memo') \<Longrightarrow>
      hash_pre rt resolver run (s, name) memo \<Longrightarrow>
      hash_step rt resolver run memo memo' \<and> hash_of memo' (s, name) = Some h"
    and rec_returns: "acyclic (group_graph resolver run) \<Longrightarrow> edges_known resolver run \<Longrightarrow>
      hash_pre rt resolver run (s, name) memo \<Longrightarrow> card (unhashed run memo) < depth \<Longrightarrow>
      \<exists>r. rec s name memo = Some r"
begin

lemma hash_edges_post:
  assumes "acyclic (group_graph resolver run)" "hash_edges rec es memo = Some (records, memo')"
    and "\<forall>e \<in> set es. hash_pre rt resolver run (edge_target e) memo"
    and "hash_inv rt resolver run memo"
  shows "hash_step rt resolver run memo memo' \<and>
    (\<forall>e \<in> set es. hash_of memo' (edge_target e) \<noteq> None) \<and>
    records = map (edge_record (hash_of memo')) es"
  using assms(2-4)
proof (induction es arbitrary: memo records)
  case Nil
  then show ?case by (simp add: hash_step_def)
next
  case (Cons e es)
  obtain h memo1 records1 where first: "rec (ne_scope e) (ne_name e) memo = Some (h, memo1)"
    and rest: "hash_edges rec es memo1 = Some (records1, memo')"
    and records: "records = \<lparr>erec_hash = h, erec_kind = ne_kind e, erec_private = ne_private e\<rparr> # records1"
    using Cons.prems(1) by (auto split: bind_splits)
  have "hash_pre rt resolver run (ne_scope e, ne_name e) memo"
    using Cons.prems(2) by (simp add: edge_target_def)
  note a = rec_post [OF assms(1) first this]
  have b: "hash_step rt resolver run memo1 memo' \<and>
      (\<forall>e \<in> set es. hash_of memo' (edge_target e) \<noteq> None) \<and>
      records1 = map (edge_record (hash_of memo')) es"
    using a Cons.prems(2) hash_pre_step by (intro Cons.IH [OF rest]) (auto simp: hash_step_def hash_pre_def)
  then have "hash_of memo' (edge_target e) = Some h"
    using a unfolding hash_step_def edge_target_def by (metis domI map_le_def)
  then show ?case using a b hash_step_trans records by (auto simp: edge_record_def)
qed

lemma hash_edges_returns:
  assumes "acyclic (group_graph resolver run)" "edges_known resolver run"
    and "card (unhashed run memo) < depth"
    and "\<forall>e \<in> set es. hash_pre rt resolver run (edge_target e) memo"
  shows "\<exists>r. hash_edges rec es memo = Some r"
  using assms(3,4)
proof (induction es arbitrary: memo)
  case (Cons e es)
  have pre: "hash_pre rt resolver run (ne_scope e, ne_name e) memo"
    using Cons.prems(2) by (simp add: edge_target_def)
  obtain h memo1 where first: "rec (ne_scope e) (ne_name e) memo = Some (h, memo1)"
    using rec_returns [OF assms(1,2) pre Cons.prems(1)] by auto
  note step = conjunct1 [OF rec_post [OF assms(1) first pre]]
  have "card (unhashed run memo1) < depth"
    using hash_step_unhashed [OF step] Cons.prems(1) by simp
  moreover have "\<forall>e \<in> set es. hash_pre rt resolver run (edge_target e) memo1"
    using Cons.prems(2) hash_pre_step [OF _ step] by simp
  ultimately obtain r where "hash_edges rec es memo1 = Some r" using Cons.IH by blast
  then show ?case using first by (cases r) simp
qed simp

lemma hash_nodes_total:
  assumes "acyclic (group_graph resolver run)" "edges_known resolver run"
    and "card (unhashed run memo) < depth" "hash_inv rt resolver run memo" "open_nodes memo = {}"
    and "\<forall>(s, name, node) \<in> set ns. group_node run (s, name) = Some node"
  shows "\<exists>memo'. hash_nodes rec ns memo = Some memo' \<and> hash_step rt resolver run memo memo' \<and>
    (\<forall>(s, name, node) \<in> set ns. hash_of memo' (s, name) \<noteq> None)"
  using assms(3-6)
proof (induction ns arbitrary: memo)
  case Nil
  then show ?case by (simp add: hash_step_def)
next
  case (Cons n ns)
  obtain s name node where n: "n = (s, name, node)" by (cases n)
  have pre: "hash_pre rt resolver run (s, name) memo"
    using Cons.prems(2-4) n by (simp add: hash_pre_def)
  obtain h memo1 where first: "rec s name memo = Some (h, memo1)"
    using rec_returns [OF assms(1,2) pre Cons.prems(1)] by auto
  note step = rec_post [OF assms(1) first pre]
  have "card (unhashed run memo1) < depth"
    using hash_step_unhashed step Cons.prems(1) le_less_trans by blast
  moreover have "hash_inv rt resolver run memo1" "open_nodes memo1 = {}"
    using step Cons.prems(3) by (simp_all add: hash_step_def)
  moreover have "\<forall>(s, name, node) \<in> set ns. group_node run (s, name) = Some node"
    using Cons.prems(4) by simp
  ultimately obtain memo' where rest: "hash_nodes rec ns memo1 = Some memo'"
    "hash_step rt resolver run memo1 memo'" "\<forall>(s, name, node) \<in> set ns. hash_of memo' (s, name) \<noteq> None"
    using Cons.IH by blast
  have "hash_of memo' (s, name) = Some h"
    using rest(2) step unfolding hash_step_def by (metis domI map_le_def)
  then show ?case using rest step first n hash_step_trans by auto
qed

end

section \<open>The walk\<close>

lemma hash_enter:
  assumes "hash_pre rt resolver run k memo" "k \<notin> open_nodes memo" "hash_of memo k = None"
    and "group_edges resolver run k = Some es"
  shows "\<forall>e \<in> set es. hash_pre rt resolver run (edge_target e) (ht_insert k \<lparr>hst_state = 1, hst_hash = 0\<rparr> memo)"
    "hash_inv rt resolver run (ht_insert k \<lparr>hst_state = 1, hst_hash = 0\<rparr> memo)"
    "card (unhashed run (ht_insert k \<lparr>hst_state = 1, hst_hash = 0\<rparr> memo)) < card (unhashed run memo)"
proof -
  let ?m = "ht_insert k \<lparr>hst_state = 1, hst_hash = 0\<rparr> memo"
  note same = hash_of_open [OF assms(3)]
  show inv: "hash_inv rt resolver run ?m"
    using assms(1) unfolding hash_inv_def same by (simp add: hash_pre_def hash_inv_def)
  show "\<forall>e \<in> set es. hash_pre rt resolver run (edge_target e) ?m"
  proof
    fix e assume e: "e \<in> set es"
    then have step: "(k, edge_target e) \<in> group_graph resolver run"
      using assms(4) unfolding group_graph_def by blast
    then have "(g, edge_target e) \<in> (group_graph resolver run)\<^sup>+" if "g \<in> open_nodes ?m" for g
      using that assms(1) unfolding open_nodes_insert hash_pre_def by (blast intro: trancl_into_trancl)
    then show "hash_pre rt resolver run (edge_target e) ?m"
      using inv graph_nodes [OF step] by (simp add: hash_pre_def)
  qed
  have "unhashed run ?m \<subset> unhashed run memo"
    using assms(1-3) unfolding unhashed_def open_nodes_insert same hash_pre_def nodes_of_def by auto
  then show "card (unhashed run ?m) < card (unhashed run memo)"
    using nodes_of_card(1) [of run] by (intro psubset_card_mono) (auto simp: unhashed_def)
qed

lemma hash_group_node_eq:
  assumes "group_node run (s, name) = Some node" "group_edges resolver run (s, name) = Some es"
    and "(s, name) \<notin> open_nodes memo"
  shows "hash_group_node rt resolver run (Suc fuel) s name memo =
    (case hash_of memo (s, name) of
       Some h \<Rightarrow> Some (h, memo)
     | None \<Rightarrow>
        (case hash_edges (hash_group_node rt resolver run fuel) es
                (ht_insert (s, name) \<lparr>hst_state = 1, hst_hash = 0\<rparr> memo) of
           None \<Rightarrow> None
         | Some (records, memo') \<Rightarrow>
             Some (node_hash rt node records,
               ht_insert (s, name) \<lparr>hst_state = 2, hst_hash = node_hash rt node records\<rparr> memo')))"
proof -
  have named: "ht_get (scope_named (run_scopes run ! s)) name = Some node"
    using assms(1) by (simp add: group_node_def split: if_splits)
  have "collect_node_edges resolver run s node = Some es"
    using assms(1,2) by (simp add: group_edges_def)
  moreover have "map_option hst_state (ht_get memo (s, name)) \<noteq> Some 1"
    using assms(3) by (simp add: open_nodes_def)
  ultimately show ?thesis using named
    by (cases "ht_get memo (s, name)")
      (auto simp: hash_of_def Let_def split: option.splits bind_splits)
qed

lemma hash_group_node_walker:
  "hash_walker rt resolver run (hash_group_node rt resolver run fuel) fuel"
proof (induction fuel)
  case 0
  then show ?case by unfold_locales simp_all
next
  case (Suc fuel)
  note edges_post = hash_walker.hash_edges_post [OF Suc.IH]
    and edges_returns = hash_walker.hash_edges_returns [OF Suc.IH]
  have shut: "k \<notin> open_nodes memo"
    if "acyclic (group_graph resolver run)" "hash_pre rt resolver run k memo" for k memo
    using that unfolding hash_pre_def acyclic_def by blast
  show ?case
  proof
    fix s name memo h memo'
    assume acyc: "acyclic (group_graph resolver run)"
      and run: "hash_group_node rt resolver run (Suc fuel) s name memo = Some (h, memo')"
      and pre: "hash_pre rt resolver run (s, name) memo"
    let ?k = "(s, name)"
    let ?m = "ht_insert ?k \<lparr>hst_state = 1, hst_hash = 0\<rparr> memo"
    obtain node where node: "group_node run ?k = Some node" using pre by (auto simp: hash_pre_def)
    then have named: "ht_get (scope_named (run_scopes run ! s)) name = Some node"
      by (simp add: group_node_def split: if_splits)
    show "hash_step rt resolver run memo memo' \<and> hash_of memo' ?k = Some h"
    proof (cases "hash_of memo ?k")
      case (Some h')
      then have "ht_get memo ?k = Some \<lparr>hst_state = 2, hst_hash = h'\<rparr>"
        by (auto simp: hash_of_def split: option.splits if_splits)
      then have "h = h'" "memo' = memo" using run named by (simp_all add: Let_def)
      then show ?thesis using pre Some by (simp add: hash_step_def hash_pre_def)
    next
      case None
      have "\<exists>es. group_edges resolver run ?k = Some es"
        using run None named node shut [OF acyc pre]
        by (auto simp: Let_def hash_of_def open_nodes_def group_edges_def
            split: option.splits bind_splits if_splits)
      then obtain es where es: "group_edges resolver run ?k = Some es" by blast
      obtain records memo1 where walk:
        "hash_edges (hash_group_node rt resolver run fuel) es ?m = Some (records, memo1)"
        and h: "h = node_hash rt node records"
        and memo': "memo' = ht_insert ?k \<lparr>hst_state = 2, hst_hash = h\<rparr> memo1"
        using run hash_group_node_eq [OF node es shut [OF acyc pre]] None
        by (auto split: option.splits)
      note enter = hash_enter [OF pre shut [OF acyc pre] None es]
      note post = edges_post [OF acyc walk enter(1,2)]
      have opened: "open_nodes memo1 = insert ?k (open_nodes memo)"
        using post by (simp add: hash_step_def open_nodes_insert)
      have fresh: "hash_of memo1 ?k = None" using open_not_done opened by blast
      then have sub: "hash_of memo1 \<subseteq>\<^sub>m hash_of memo'"
        by (simp add: memo' hash_of_done map_le_def dom_def)
      have eq: "hash_equation rt resolver run (hash_of memo') ?k"
      proof -
        have "\<forall>e \<in> set es. hash_of memo' (edge_target e) \<noteq> None"
          using post sub by (metis domIff map_le_def)
        moreover have "hash_of memo' ?k = Some (node_hash rt node (map (edge_record (hash_of memo')) es))"
          using h memo' post edge_record_mono [OF sub, of es] by (simp add: hash_of_done del: map_eq_conv)
        ultimately show ?thesis using node es unfolding hash_equation_def by blast
      qed
      have "hash_equation rt resolver run (hash_of memo') k'" if "k' \<in> dom (hash_of memo')" for k'
      proof (cases "k' = ?k")
        case False
        then have "k' \<in> dom (hash_of memo1)" using that by (auto simp: memo' hash_of_done)
        then show ?thesis using post hash_equation_mono [OF _ sub] by (simp add: hash_step_def hash_inv_def)
      qed (simp add: eq)
      then have "hash_inv rt resolver run memo'" by (simp add: hash_inv_def)
      moreover have "hash_of memo \<subseteq>\<^sub>m hash_of memo'"
        using post sub hash_of_open [OF None] map_le_trans by (auto simp: hash_step_def)
      moreover have "open_nodes memo' = open_nodes memo"
        using opened shut [OF acyc pre] by (simp add: memo' open_nodes_insert)
      ultimately show ?thesis by (simp add: hash_step_def memo' hash_of_done)
    qed
  next
    fix s name memo
    assume acyc: "acyclic (group_graph resolver run)" and known: "edges_known resolver run"
      and pre: "hash_pre rt resolver run (s, name) memo"
      and small: "card (unhashed run memo) < Suc fuel"
    let ?k = "(s, name)"
    obtain node where node: "group_node run ?k = Some node" using pre by (auto simp: hash_pre_def)
    obtain es where es: "group_edges resolver run ?k = Some es"
      using group_edges_some [OF known node] by blast
    show "\<exists>r. hash_group_node rt resolver run (Suc fuel) s name memo = Some r"
    proof (cases "hash_of memo ?k")
      case None
      note enter = hash_enter [OF pre shut [OF acyc pre] None es]
      obtain r where "hash_edges (hash_group_node rt resolver run fuel) es
          (ht_insert ?k \<lparr>hst_state = 1, hst_hash = 0\<rparr> memo) = Some r"
        using edges_returns [OF acyc known _ enter(1)] enter(3) small by fastforce
      then show ?thesis using hash_group_node_eq [OF node es shut [OF acyc pre]] None
        by (cases r) simp
    next
      case (Some h)
      then show ?thesis using hash_group_node_eq [OF node es shut [OF acyc pre]] by simp
    qed
  qed
qed

interpretation hashes: hash_walker rt resolver run "hash_group_node rt resolver run fuel" fuel
  for rt resolver run fuel
  by (rule hash_group_node_walker)

lemma hash_nodes_correct:
  assumes "order_ok rt" "names_distinct run" "edges_known resolver run"
    and "acyclic (group_graph resolver run)"
  shows "\<exists>memo. hash_nodes (hash_group_node rt resolver run (group_fuel run)) (group_nodes rt run) [] = Some memo \<and>
    hash_inv rt resolver run memo \<and> nodes_of run \<subseteq> dom (hash_of memo)"
proof -
  have nodes: "\<forall>(s, name, node) \<in> set (group_nodes rt run). group_node run (s, name) = Some node"
    using group_nodes_iff [OF assms(1,2)] by auto
  have start: "hash_inv rt resolver run []" "open_nodes [] = {}"
    by (simp_all add: hash_inv_def hash_of_def open_nodes_def dom_def)
  have "card (unhashed run []) < group_fuel run"
    using nodes_of_card(2) [of run] by (simp add: unhashed_def open_nodes_def hash_of_def dom_def)
  then obtain memo where memo:
    "hash_nodes (hash_group_node rt resolver run (group_fuel run)) (group_nodes rt run) [] = Some memo"
    "hash_step rt resolver run [] memo"
    "\<forall>(s, name, node) \<in> set (group_nodes rt run). hash_of memo (s, name) \<noteq> None"
    using hashes.hash_nodes_total [OF assms(4,3) _ start nodes] by blast
  have "k \<in> dom (hash_of memo)" if k: "k \<in> nodes_of run" for k
  proof -
    obtain node where "group_node run k = Some node" using k by (auto simp: nodes_of_def)
    then have "(fst k, snd k, node) \<in> set (group_nodes rt run)" using group_nodes_iff [OF assms(1,2)] by simp
    then show ?thesis using memo(3) by (cases k) auto
  qed
  then show ?thesis using memo(1,2) by (auto simp: hash_step_def)
qed

lemma memo_hash_of:
  "hash_of memo (s, name) = Some h \<Longrightarrow> memo_hash memo s name = Some h"
  by (auto simp: memo_hash_def hash_of_def split: option.splits if_splits)

end
