(* ===== verification/Resolve_Instances.thy ===== *)
theory Resolve_Instances
  imports Resolve_Hash
begin

text \<open>
  The instances of the result and the check for duplicates: every group node has its instance,
  every edge of an instance leads to an instance of the result, and the check finds a pair of
  different shared packages of one name in one process exactly when there is one.
\<close>

section \<open>Instances\<close>

text \<open>The identity of the instance of a group node, and the instance with its edges.\<close>

definition instance_id :: "(nat \<times> sp_name \<Rightarrow> u64 option) \<Rightarrow> nat \<times> sp_name \<Rightarrow> spn_resolved_pkg_t \<Rightarrow> spn_pkg_id_t" where
  "instance_id H k node = (pkg_id node)\<lparr>id_hash := the (H k)\<rparr>"

definition instance_dep :: "(nat \<times> sp_name \<Rightarrow> u64 option) \<Rightarrow> spn_node_edge_t \<Rightarrow> spn_resolved_dep_t" where
  "instance_dep H e =
     \<lparr>rdep_id = instance_id H (edge_target e) (ne_node e), rdep_kind = ne_kind e,
      rdep_edge = ne_edge e, rdep_private = ne_private e\<rparr>"

definition instance_of ::
    "(nat \<times> sp_name \<Rightarrow> u64 option) \<Rightarrow> nat \<times> sp_name \<Rightarrow> spn_resolved_pkg_t \<Rightarrow> spn_node_edge_t list \<Rightarrow>
     spn_resolved_pkg_t" where
  "instance_of H k node es =
     node\<lparr>pkg_id := instance_id H k node, pkg_edges := map (instance_dep H) es\<rparr>"

lemma instance_edges_eq:
  assumes "\<forall>e \<in> set es. hash_of memo (edge_target e) \<noteq> None"
  shows "instance_edges memo es = Some (map (instance_dep (hash_of memo)) es)"
  using assms
proof (induction es)
  case (Cons e es)
  then obtain h where "hash_of memo (edge_target e) = Some h" by auto
  then show ?case using Cons memo_hash_of [of memo "ne_scope e" "ne_name e" h]
    by (simp add: instance_dep_def instance_id_def edge_target_def)
qed simp

definition instances_ok ::
    "spn_resolver_t \<Rightarrow> spn_resolve_run_t \<Rightarrow> (nat \<times> sp_name \<Rightarrow> u64 option) \<Rightarrow> spn_resolve_t \<Rightarrow> bool" where
  "instances_ok resolver run H result \<longleftrightarrow>
     (\<forall>id inst. ht_get result id = Some inst \<longrightarrow>
        (\<exists>k node es. group_node run k = Some node \<and> group_edges resolver run k = Some es \<and>
           id = instance_id H k node \<and> inst = instance_of H k node es))"

lemma add_instances_ok:
  assumes "hash_inv rt resolver run memo" "nodes_of run \<subseteq> dom (hash_of memo)"
    and "\<forall>(s, name, node) \<in> set ns. group_node run (s, name) = Some node"
    and "instances_ok resolver run (hash_of memo) result"
  shows "\<exists>result'. add_instances resolver run memo ns result = Some result' \<and>
    instances_ok resolver run (hash_of memo) result' \<and>
    dom (ht_get result) \<subseteq> dom (ht_get result') \<and>
    (\<forall>(s, name, node) \<in> set ns. instance_id (hash_of memo) (s, name) node \<in> dom (ht_get result'))"
  using assms(3,4)
proof (induction ns arbitrary: result)
  case (Cons n ns)
  obtain s name node where n: "n = (s, name, node)" by (cases n)
  let ?k = "(s, name)" and ?H = "hash_of memo"
  have node: "group_node run ?k = Some node" using Cons.prems(1) n by simp
  then have "?k \<in> dom ?H" using assms(2) by (auto simp: nodes_of_def)
  then obtain h where h: "?H ?k = Some h" by auto
  have "hash_equation rt resolver run ?H ?k" using assms(1) \<open>?k \<in> dom ?H\<close> unfolding hash_inv_def by blast
  then obtain es where es: "group_edges resolver run ?k = Some es"
    "\<forall>e \<in> set es. ?H (edge_target e) \<noteq> None"
    using node unfolding hash_equation_def by auto
  have collect: "collect_node_edges resolver run s node = Some es"
    using es(1) node by (simp add: group_edges_def)
  let ?id = "instance_id ?H ?k node"
  have memo: "memo_hash memo s name = Some h" "(pkg_id node)\<lparr>id_hash := h\<rparr> = ?id"
    using memo_hash_of [OF h] h by (simp_all add: instance_id_def)
  obtain result1 where one: "add_instance resolver run memo n result = Some result1"
    and ok: "instances_ok resolver run ?H result1" and dom: "dom (ht_get result) \<subseteq> dom (ht_get result1)"
    and has: "?id \<in> dom (ht_get result1)"
  proof (cases "ht_get result ?id")
    case None
    let ?r = "ht_insert ?id (instance_of ?H ?k node es) result"
    have "add_instance resolver run memo n result = Some ?r"
      using None memo collect instance_edges_eq [OF es(2)] n
      by (simp add: add_instance_def Let_def instance_of_def)
    moreover have "instances_ok resolver run ?H ?r"
      using Cons.prems(2) node es(1) unfolding instances_ok_def by auto
    ultimately show ?thesis by (intro that) auto
  next
    case (Some inst)
    then have "add_instance resolver run memo n result = Some result"
      using memo n by (simp add: add_instance_def Let_def)
    then show ?thesis using Cons.prems(2) Some by (intro that) auto
  qed
  have "\<forall>(s, name, node) \<in> set ns. group_node run (s, name) = Some node" using Cons.prems(1) by simp
  from Cons.IH [OF this ok] obtain result' where rest:
    "add_instances resolver run memo ns result1 = Some result'"
    "instances_ok resolver run ?H result'" "dom (ht_get result1) \<subseteq> dom (ht_get result')"
    "\<forall>(s, name, node) \<in> set ns. instance_id ?H (s, name) node \<in> dom (ht_get result')" by blast
  have "add_instances resolver run memo (n # ns) result = Some result'" using one rest(1) by simp
  moreover have "\<forall>(s, name, node) \<in> set (n # ns). instance_id ?H (s, name) node \<in> dom (ht_get result')"
    using rest(3,4) has n by auto
  ultimately show ?case using rest(2,3) dom by blast
qed simp

text \<open>What the result of \<open>commit_instances\<close> is.\<close>

definition result_closed ::
    "spn_resolver_t \<Rightarrow> spn_resolve_run_t \<Rightarrow> (nat \<times> sp_name \<Rightarrow> u64 option) \<Rightarrow> spn_resolve_t \<Rightarrow> bool" where
  "result_closed resolver run H result \<longleftrightarrow>
     instances_ok resolver run H result \<and>
     (\<forall>k node. group_node run k = Some node \<longrightarrow> ht_get result (instance_id H k node) \<noteq> None) \<and>
     (\<forall>id inst. ht_get result id = Some inst \<longrightarrow>
        pkg_id inst = id \<and> (\<forall>d \<in> set (pkg_edges inst). ht_get result (rdep_id d) \<noteq> None))"

lemma commit_instances_correct:
  assumes "order_ok rt" "names_distinct run" "hash_inv rt resolver run memo"
    and "nodes_of run \<subseteq> dom (hash_of memo)"
  shows "\<exists>result. commit_instances rt resolver memo run = Some (run\<lparr>run_result := result\<rparr>) \<and>
    result_closed resolver run (hash_of memo) result"
proof -
  let ?H = "hash_of memo"
  have nodes: "\<forall>(s, name, node) \<in> set (group_nodes rt run). group_node run (s, name) = Some node"
    using group_nodes_iff [OF assms(1,2)] by auto
  have "instances_ok resolver run ?H []" by (simp add: instances_ok_def)
  from add_instances_ok [OF assms(3,4) nodes this] obtain result where
    add: "add_instances resolver run memo (group_nodes rt run) [] = Some result"
    and ok: "instances_ok resolver run ?H result"
    and has: "\<forall>(s, name, node) \<in> set (group_nodes rt run). instance_id ?H (s, name) node \<in> dom (ht_get result)"
    by blast
  have all: "ht_get result (instance_id ?H k node) \<noteq> None" if "group_node run k = Some node" for k node
  proof -
    have "(fst k, snd k, node) \<in> set (group_nodes rt run)"
      using that group_nodes_iff [OF assms(1,2)] by simp
    then show ?thesis using has by (cases k) auto
  qed
  have "pkg_id inst = id \<and> (\<forall>d \<in> set (pkg_edges inst). ht_get result (rdep_id d) \<noteq> None)"
    if inst: "ht_get result id = Some inst" for id inst
  proof -
    obtain k node es where k: "group_node run k = Some node" "group_edges resolver run k = Some es"
      "id = instance_id ?H k node" "inst = instance_of ?H k node es"
      using ok inst unfolding instances_ok_def by blast
    have "ht_get result (rdep_id (instance_dep ?H e)) \<noteq> None" if "e \<in> set es" for e
      using all group_edges_scoped [OF k(2) that] by (simp add: instance_dep_def well_scoped_def)
    then show ?thesis using k(3,4) by (auto simp: instance_of_def)
  qed
  then show ?thesis using add ok all by (auto simp: commit_instances_def result_closed_def)
qed

section \<open>Duplicates\<close>

text \<open>Two group nodes of a process that are different builds of one shared package.\<close>

definition clash ::
    "spn_resolver_t \<Rightarrow> spn_resolve_run_t \<Rightarrow> (nat \<times> sp_name \<Rightarrow> u64 option) \<Rightarrow>
     (nat \<times> sp_name \<times> spn_resolved_pkg_t) set \<Rightarrow> spn_resolved_pkg_t \<Rightarrow> spn_resolved_pkg_t \<Rightarrow> bool" where
  "clash resolver run H A p q \<longleftrightarrow>
     (\<exists>s n s' n'. (s, n, p) \<in> A \<and> (s', n', q) \<in> A \<and>
        node_is_shared resolver (run_registry run) p = Some True \<and>
        node_is_shared resolver (run_registry run) q = Some True \<and>
        id_qualified (pkg_id p) = id_qualified (pkg_id q) \<and> H (s, n) \<noteq> H (s', n'))"

definition shared_known :: "spn_resolver_t \<Rightarrow> spn_resolve_run_t \<Rightarrow> bool" where
  "shared_known resolver run \<longleftrightarrow>
     (\<forall>k node. group_node run k = Some node \<longrightarrow>
        node_is_shared resolver (run_registry run) node \<noteq> None)"

text \<open>The table of the packages seen: exactly the shared ones, with their hash.\<close>

definition seen_ok ::
    "spn_resolver_t \<Rightarrow> spn_resolve_run_t \<Rightarrow> (nat \<times> sp_name \<Rightarrow> u64 option) \<Rightarrow>
     (nat \<times> sp_name \<times> spn_resolved_pkg_t) set \<Rightarrow> (sp_name \<times> spn_shared_seen_t) list \<Rightarrow> bool" where
  "seen_ok resolver run H A shared \<longleftrightarrow>
     (\<forall>q seen. ht_get shared q = Some seen \<longrightarrow>
        (\<exists>s n. (s, n, seen_node seen) \<in> A \<and>
           node_is_shared resolver (run_registry run) (seen_node seen) = Some True \<and>
           id_qualified (pkg_id (seen_node seen)) = q \<and> H (s, n) = Some (seen_hash seen))) \<and>
     (\<forall>s n node. (s, n, node) \<in> A \<longrightarrow>
        node_is_shared resolver (run_registry run) node = Some True \<longrightarrow>
        (\<exists>seen. ht_get shared (id_qualified (pkg_id node)) = Some seen \<and> H (s, n) = Some (seen_hash seen)))"

lemma seen_ok_insert:
  assumes "seen_ok resolver run H A shared"
    and "node_is_shared resolver (run_registry run) node = Some True \<Longrightarrow>
      \<exists>seen. ht_get shared (id_qualified (pkg_id node)) = Some seen \<and> H (s, name) = Some (seen_hash seen)"
  shows "seen_ok resolver run H (insert (s, name, node) A) shared"
  unfolding seen_ok_def
proof (intro conjI allI impI)
  fix q seen assume "ht_get shared q = Some seen"
  then show "\<exists>s' n. (s', n, seen_node seen) \<in> insert (s, name, node) A \<and>
      node_is_shared resolver (run_registry run) (seen_node seen) = Some True \<and>
      id_qualified (pkg_id (seen_node seen)) = q \<and> H (s', n) = Some (seen_hash seen)"
    using assms(1) unfolding seen_ok_def by blast
next
  fix s' n' node'
  assume a: "(s', n', node') \<in> insert (s, name, node) A"
    "node_is_shared resolver (run_registry run) node' = Some True"
  show "\<exists>seen. ht_get shared (id_qualified (pkg_id node')) = Some seen \<and> H (s', n') = Some (seen_hash seen)"
  proof (cases "(s', n', node') = (s, name, node)")
    case False
    then show ?thesis using a assms(1) unfolding seen_ok_def by blast
  qed (use a assms(2) in auto)
qed

lemma seen_ok_new:
  assumes "seen_ok resolver run H A shared" "H (s, name) = Some h"
    and "node_is_shared resolver (run_registry run) node = Some True"
    and "ht_get shared (id_qualified (pkg_id node)) = None"
  shows "seen_ok resolver run H (insert (s, name, node) A)
    (ht_insert (id_qualified (pkg_id node)) \<lparr>seen_node = node, seen_hash = h\<rparr> shared)"
  (is "seen_ok _ _ _ _ ?sh")
  unfolding seen_ok_def
proof (intro conjI allI impI)
  fix q seen assume get: "ht_get ?sh q = Some seen"
  show "\<exists>s' n. (s', n, seen_node seen) \<in> insert (s, name, node) A \<and>
      node_is_shared resolver (run_registry run) (seen_node seen) = Some True \<and>
      id_qualified (pkg_id (seen_node seen)) = q \<and> H (s', n) = Some (seen_hash seen)"
  proof (cases "q = id_qualified (pkg_id node)")
    case True
    then show ?thesis using get assms(2,3) by (intro exI [of _ s] exI [of _ name]) auto
  next
    case False
    then have "ht_get shared q = Some seen" using get by simp
    then show ?thesis using assms(1) unfolding seen_ok_def by blast
  qed
next
  fix s' n' node'
  assume a: "(s', n', node') \<in> insert (s, name, node) A"
    "node_is_shared resolver (run_registry run) node' = Some True"
  show "\<exists>seen. ht_get ?sh (id_qualified (pkg_id node')) = Some seen \<and> H (s', n') = Some (seen_hash seen)"
  proof (cases "(s', n', node') = (s, name, node)")
    case True
    then show ?thesis using assms(2) by simp
  next
    case False
    then obtain seen where "ht_get shared (id_qualified (pkg_id node')) = Some seen"
      "H (s', n') = Some (seen_hash seen)" using a assms(1) unfolding seen_ok_def by blast
    then show ?thesis using assms(4) by auto
  qed
qed

lemma find_duplicate_correct:
  assumes "shared_known resolver run" "nodes_of run \<subseteq> dom (hash_of memo)"
    and "\<forall>(s, name, node) \<in> set ns. group_node run (s, name) = Some node"
    and "seen_ok resolver run (hash_of memo) A shared"
  shows "\<exists>found. find_duplicate resolver run memo ns shared = Some found \<and>
    (case found of
       None \<Rightarrow> (\<forall>p q. \<not> clash resolver run (hash_of memo) (A \<union> set ns) p q)
     | Some (p, q) \<Rightarrow> clash resolver run (hash_of memo) (A \<union> set ns) p q)"
  using assms(3,4)
proof (induction ns arbitrary: A shared)
  case Nil
  have "\<not> clash resolver run (hash_of memo) A p q" for p q
    using Nil(2) unfolding clash_def seen_ok_def by (metis option.inject)
  then show ?case by simp
next
  case (Cons n ns)
  obtain s name node where n: "n = (s, name, node)" by (cases n)
  let ?H = "hash_of memo" and ?q = "id_qualified (pkg_id node)"
  let ?reg = "run_registry run"
  have node: "group_node run (s, name) = Some node" using Cons.prems(1) n by simp
  obtain b where b: "node_is_shared resolver ?reg node = Some b"
    using assms(1) node unfolding shared_known_def by blast
  have "(s, name) \<in> dom ?H" using node assms(2) by (auto simp: nodes_of_def)
  then obtain h where h: "?H (s, name) = Some h" by auto
  note memo = memo_hash_of [OF h]
  have nodes: "\<forall>(s, name, node) \<in> set ns. group_node run (s, name) = Some node"
    using Cons.prems(1) by simp
  have un: "insert (s, name, node) A \<union> set ns = A \<union> set (n # ns)" using n by auto
  note IH = Cons.IH [OF nodes, of "insert (s, name, node) A", unfolded un]
  show ?case
  proof (cases b)
    case False
    have "seen_ok resolver run ?H (insert (s, name, node) A) shared"
      using Cons.prems(2) by (rule seen_ok_insert) (simp add: b False)
    from IH [OF this] show ?thesis using b False n by simp
  next
    case True
    show ?thesis
    proof (cases "ht_get shared ?q")
      case None
      have "node_is_shared resolver ?reg node = Some True" using b True by simp
      note IH [OF seen_ok_new [OF Cons.prems(2) h this None]]
      then show ?thesis using b True n memo None by simp
    next
      case (Some prior)
      show ?thesis
      proof (cases "seen_hash prior = h")
        case same: True
        have "seen_ok resolver run ?H (insert (s, name, node) A) shared"
          using Cons.prems(2) by (rule seen_ok_insert) (simp add: Some h same)
        from IH [OF this] show ?thesis using b True n memo Some same by simp
      next
        case differ: False
        obtain s0 n0 where "(s0, n0, seen_node prior) \<in> A"
          "node_is_shared resolver ?reg (seen_node prior) = Some True"
          "id_qualified (pkg_id (seen_node prior)) = ?q" "?H (s0, n0) = Some (seen_hash prior)"
          using Cons.prems(2) Some unfolding seen_ok_def by blast
        then have "clash resolver run ?H (A \<union> set (n # ns)) (seen_node prior) node"
          unfolding clash_def using b True h differ n
          by (intro exI [of _ s0] exI [of _ n0] exI [of _ s] exI [of _ name]) simp
        then show ?thesis using b True n memo Some differ by simp
      qed
    qed
  qed
qed

definition process_set :: "spn_resolve_run_t \<Rightarrow> nat \<Rightarrow> (nat \<times> sp_name \<times> spn_resolved_pkg_t) set" where
  "process_set run p =
     {(s, name, node). group_node run (s, name) = Some node \<and>
        p \<in> set (scope_processes (run_scopes run ! s))}"

lemma process_nodes_set:
  assumes "order_ok rt" "names_distinct run"
  shows "set (process_nodes rt run p) = process_set run p"
  using group_nodes_iff [OF assms]
  by (auto simp: process_nodes_def process_set_def scope_has_process_def)

lemma find_duplicates_correct:
  assumes "order_ok rt" "names_distinct run" "shared_known resolver run"
    and "nodes_of run \<subseteq> dom (hash_of memo)"
  shows "\<exists>found. find_duplicates rt resolver run memo ps = Some found \<and>
    (case found of
       None \<Rightarrow> (\<forall>i \<in> set ps. \<forall>p q. \<not> clash resolver run (hash_of memo) (process_set run i) p q)
     | Some (p, q) \<Rightarrow> (\<exists>i \<in> set ps. clash resolver run (hash_of memo) (process_set run i) p q))"
proof (induction ps)
  case (Cons i ps)
  have nodes: "\<forall>(s, name, node) \<in> set (process_nodes rt run i). group_node run (s, name) = Some node"
    unfolding process_nodes_set [OF assms(1,2)] by (simp add: process_set_def)
  have "seen_ok resolver run (hash_of memo) {} []" by (simp add: seen_ok_def)
  from find_duplicate_correct [OF assms(3,4) nodes this] obtain found where
    found: "find_duplicate resolver run memo (process_nodes rt run i) [] = Some found"
    "case found of None \<Rightarrow> (\<forall>p q. \<not> clash resolver run (hash_of memo) (process_set run i) p q)
     | Some (p, q) \<Rightarrow> clash resolver run (hash_of memo) (process_set run i) p q"
    unfolding process_nodes_set [OF assms(1,2)] Un_empty_left by blast
  show ?case
  proof (cases found)
    case None
    then show ?thesis using Cons found by (auto split: option.splits)
  next
    case (Some pq)
    then show ?thesis using found by (cases pq) auto
  qed
qed simp

end
