(* ===== verification/Resolve_Scope.thy ===== *)
theory Resolve_Scope
  imports Resolve_Returns
begin

text \<open>
  The solver of one scope: its requests under the pins, the loop that keeps the pins that
  still admit a solution, and the installed witness. The predicate \<open>scope_solved\<close> is
  the specification of a successful scope: every request is met, every name has its
  dependencies met.
\<close>

definition scope_solved ::
    "spn_resolver_t \<Rightarrow> registry \<Rightarrow> spn_scope_boundary_t set \<Rightarrow>
     (sp_name \<Rightarrow> spn_resolved_pkg_t option) \<Rightarrow> spn_requested_dep_t list \<Rightarrow> bool" where
  "scope_solved resolver reg B N reqs \<longleftrightarrow>
     (\<forall>d \<in> set reqs. dep_met resolver reg B N root_node d) \<and>
     (\<forall>k p. N k = Some p \<longrightarrow> (\<forall>d \<in> set (pkg_deps p). dep_met resolver reg B N p d))"

lemma root_source: "source_node run root_node deps"
  by (simp add: source_node_def)

lemma closed_solved:
  "closed rt L resolver reg B Map.empty N \<Longrightarrow>
   \<forall>d \<in> set reqs. dep_met resolver reg B N root_node d \<Longrightarrow> scope_solved resolver reg B N reqs"
  by (auto simp: scope_solved_def closed_def)

definition pending_reqs :: "nat \<Rightarrow> nat \<Rightarrow> spn_resolve_run_t \<Rightarrow> spn_requested_dep_t list" where
  "pending_reqs from to run = take (to - from) (drop from (scope_reqs (current_scope run)))"

lemma solve_reqs_post:
  assumes "rt_ok rt L" "solver_inv rt L P resolver run"
    and "\<forall>d \<in> set (pending_reqs from to run). req_ok rt L d"
    and "solve_reqs rt resolver fuel from to run = Some (err, run')"
  shows "step rt L P resolver run run'"
    and "err = None \<Longrightarrow> \<forall>d \<in> set (pending_reqs from to run).
       dep_met resolver (run_registry run') (known P run') (ht_get (cur_named run')) root_node d"
  using solver.resolve_dep_list_post [OF assms(1,2) root_registered assms(3) root_source, of fuel err run']
    assms(4) by (auto simp: solve_reqs_def pending_reqs_def)

lemma solve_reqs_returns:
  assumes "finite L" "traps_free rt resolver" "rt_ok rt L" "solver_inv rt L P resolver run"
    and "\<forall>d \<in> set (pending_reqs from to run). req_ok rt L d" "work L run \<le> fuel"
  shows "solve_reqs rt resolver fuel from to run \<noteq> None"
proof -
  have "node_plain root_node" by (simp add: node_plain_def root_node_def)
  from solver.resolve_dep_list_returns [OF assms(1-4) root_registered assms(5,6) this root_source]
  show ?thesis by (simp add: solve_reqs_def pending_reqs_def)
qed

lemma pending_frame:
  "frame a b \<Longrightarrow> idx_ok a \<Longrightarrow> pending_reqs from to b = pending_reqs from to a"
  using frame_current [of a b] by (metis (no_types, lifting) pending_reqs_def spn_scope_t.ext_inject
      spn_scope_t.surjective spn_scope_t.update_convs(5))

section \<open>Scope updates that are not names\<close>

lemma solver_inv_update_scope:
  assumes "solver_inv rt L P resolver run" "\<And>s. scope_named (f s) = scope_named s"
  shows "solver_inv rt L P resolver (update_scope f run)"
    and "cur_named (update_scope f run) = cur_named run"
proof -
  have "idx_ok run" using assms(1) by (simp add: solver_inv_def)
  then show named: "cur_named (update_scope f run) = cur_named run" using assms(2) by simp
  then show "solver_inv rt L P resolver (update_scope f run)"
    using assms(1) unfolding solver_inv_def by simp
qed

lemma set_pins_simps [simp]:
  "run_result (set_pins ps run) = run_result run"
  "run_registry (set_pins ps run) = run_registry run"
  "run_boundaries (set_pins ps run) = run_boundaries run"
  "run_visited (set_pins ps run) = run_visited run"
  "run_scope (set_pins ps run) = run_scope run"
  "run_budget (set_pins ps run) = run_budget run"
  "run_fatal (set_pins ps run) = run_fatal run"
  "idx_ok (set_pins ps run) = idx_ok run"
  by (simp_all add: set_pins_def)

lemma set_pins_inv:
  assumes "solver_inv rt L P resolver run"
  shows "solver_inv rt L P resolver (set_pins ps run)" "cur_named (set_pins ps run) = cur_named run"
    "pending_reqs from to (set_pins ps run) = pending_reqs from to run"
proof -
  have "idx_ok run" using assms by (simp add: solver_inv_def)
  then show "pending_reqs from to (set_pins ps run) = pending_reqs from to run"
    by (simp add: pending_reqs_def set_pins_def)
qed (use solver_inv_update_scope [OF assms, of "\<lambda>s. s\<lparr>scope_pins := ps\<rparr>"] in \<open>simp_all add: set_pins_def\<close>)

section \<open>What a scope leaves alone\<close>

text \<open>Everything of a run that the solver of a scope does not touch: the other scopes, and
  of the current one all but its names and pins.\<close>

definition erase_names :: "spn_scope_t \<Rightarrow> spn_scope_t" where
  "erase_names s = s\<lparr>scope_named := [], scope_pins := []\<rparr>"

definition outer :: "spn_resolve_run_t \<Rightarrow> spn_resolve_run_t" where
  "outer run = (update_scope erase_names run)
     \<lparr>run_registry := [], run_boundaries := [], run_visited := [], run_picks := 0, run_budget := 0,
      run_fatal := False\<rparr>"

lemma outer_frame: "frame a b \<Longrightarrow> idx_ok a \<Longrightarrow> outer b = outer a"
  by (cases a, cases b) (auto simp: outer_def update_scope_def frame_def idx_ok_def erase_names_def)

lemma outer_update_scope:
  "(\<And>s. erase_names (f s) = erase_names s) \<Longrightarrow> idx_ok run \<Longrightarrow> outer (update_scope f run) = outer run"
  by (simp add: outer_def update_scope_def idx_ok_def)

lemma outer_updates [simp]:
  "outer (run\<lparr>run_boundaries := bs\<rparr>) = outer run"
  "outer (run\<lparr>run_budget := b\<rparr>) = outer run"
  by (simp_all add: outer_def update_scope_def)

lemma outer_set_pins [simp]: "idx_ok run \<Longrightarrow> outer (set_pins ps run) = outer run"
  by (simp add: set_pins_def outer_update_scope erase_names_def)

lemma outer_set_named [simp]: "idx_ok run \<Longrightarrow> outer (set_named t run) = outer run"
  by (simp add: set_named_def outer_update_scope erase_names_def)

section \<open>Witnesses\<close>

definition installed :: "named \<Rightarrow> named \<Rightarrow> named" where
  "installed entries t = fold (\<lambda>(k, v). ht_insert k v) entries t"

lemma ht_get_installed:
  "ht_get (installed entries t) k =
     (case map_of (rev entries) k of None \<Rightarrow> ht_get t k | Some v \<Rightarrow> Some v)"
proof (induction entries arbitrary: t)
  case Nil
  then show ?case by (simp add: installed_def)
next
  case (Cons e entries)
  obtain k' v' where e: "e = (k', v')" by (cases e)
  have "installed (e # entries) t = installed entries (ht_insert k' v' t)"
    by (simp add: installed_def e)
  then show ?case using Cons [of "ht_insert k' v' t"]
    by (cases "map_of (rev entries) k") (simp_all add: e map_add_def)
qed

lemma captured_get:
  assumes "rt_ok rt L" "distinct (ht_keys t)" "ht_get t0 \<subseteq>\<^sub>m ht_get t" "set sn = dom (ht_get t0)"
  shows "ht_get (installed (filter (\<lambda>(k, _). k \<notin> set sn) (rt_named_order rt t)) t0) = ht_get t"
proof
  fix k
  let ?es = "filter (\<lambda>(k, _). k \<notin> set sn) (rt_named_order rt t)"
  have ms: "mset (rt_named_order rt t) = mset t" using assms(1) by (simp add: rt_ok_def)
  have "mset (map fst (rt_named_order rt t)) = mset (ht_keys t)" by (simp add: ms)
  then have d: "distinct (map fst (rt_named_order rt t))"
    using assms(2) by (metis mset_eq_imp_distinct_iff)
  then have "distinct (map fst (rev ?es))"
    by (simp add: rev_map [symmetric] distinct_map_filter)
  then have "map_of (rev ?es) k = Some v \<longleftrightarrow> (k, v) \<in> set ?es" for v
    by simp
  moreover have "(k, v) \<in> set ?es \<longleftrightarrow> k \<notin> dom (ht_get t0) \<and> (k, v) \<in> set t" for v
    using assms(4) mset_eq_setD [OF ms] by auto
  moreover have "(k, v) \<in> set t \<longleftrightarrow> ht_get t k = Some v" for v
    using assms(2) by simp
  ultimately have res: "map_of (rev ?es) k = Some v \<longleftrightarrow> ht_get t0 k = None \<and> ht_get t k = Some v" for v
    by (simp add: domIff)
  show "ht_get (installed ?es t0) k = ht_get t k"
  proof (cases "ht_get t0 k")
    case (Some v)
    then have "map_of (rev ?es) k \<noteq> Some w" for w using res by simp
    then have "map_of (rev ?es) k = None" by (cases "map_of (rev ?es) k") blast+
    moreover have "k \<in> dom (ht_get t0)" using Some by blast
    then have "ht_get t k = Some v" using assms(3) Some unfolding map_le_def by metis
    ultimately show ?thesis using Some by (simp only: ht_get_installed option.case)
  next
    case None
    have "map_of (rev ?es) k = ht_get t k"
    proof (cases "ht_get t k")
      case (Some w)
      then show ?thesis using res [of w] None by simp
    next
      case none: None
      then have "map_of (rev ?es) k \<noteq> Some w" for w using res by simp
      then have "map_of (rev ?es) k = None" using not_None_eq by blast
      then show ?thesis using none by simp
    qed
    then show ?thesis using None by (cases "ht_get t k") (simp_all only: ht_get_installed option.case)
  qed
qed

text \<open>A witness is an assignment for the requests over the names \<open>N\<close> it was
  captured on.\<close>

definition over :: "(sp_name \<Rightarrow> spn_resolved_pkg_t option) \<Rightarrow> named \<Rightarrow> (sp_name \<Rightarrow> spn_resolved_pkg_t option)" where
  "over N entries k = (case map_of (rev entries) k of None \<Rightarrow> N k | Some v \<Rightarrow> Some v)"

definition witness_ok ::
    "runtime \<Rightarrow> sp_name set \<Rightarrow> spn_scope_boundary_t set \<Rightarrow> spn_resolver_t \<Rightarrow> spn_resolve_run_t \<Rightarrow>
     spn_requested_dep_t list \<Rightarrow> spn_witness_t \<Rightarrow> bool" where
  "witness_ok rt L P resolver run reqs w \<longleftrightarrow>
    (let N = ht_get (cur_named run); V = ht_get (run_visited run); reg = run_registry run;
         M = over N (wit_entries w); B = known P run \<union> set (wit_boundaries w)
     in N \<subseteq>\<^sub>m M \<and> closed rt L resolver reg B V M \<and>
        (\<forall>d \<in> set reqs. dep_met resolver reg B M root_node d) \<and>
        (\<forall>b \<in> set (wit_boundaries w). sourced_at rt L resolver N V M reg b))"

section \<open>Attempts\<close>

lemma rollback_step:
  assumes "rt_ok rt L" "solver_inv rt L P resolver run" "step rt L P resolver run run2"
    and "set sn = dom (ht_get (cur_named run))"
    and "run4 = truncate_boundaries (length (run_boundaries run)) (restore_named rt sn run2)"
  shows "step rt L P resolver run run4" "ht_get (cur_named run4) = ht_get (cur_named run)"
    "run_boundaries run4 = run_boundaries run" "run_registry run4 = run_registry run2"
    "run_visited run4 = run_visited run2"
proof -
  have frame: "frame run run2" and le: "ht_get (cur_named run) \<subseteq>\<^sub>m ht_get (cur_named run2)"
    and inv2: "solver_inv rt L P resolver run2" and reg: "ht_get (run_registry run) \<subseteq>\<^sub>m ht_get (run_registry run2)"
    and V: "ht_get (run_visited run2) = ht_get (run_visited run)"
    and bud: "unat (run_budget run2) \<le> unat (run_budget run)"
    using assms(3) by (simp_all add: step_def)
  obtain bs where bs: "run_boundaries run2 = run_boundaries run @ bs"
    using assms(3) by (auto simp: step_def)
  have idx2: "idx_ok run2" using inv2 by (simp add: solver_inv_def)
  show N: "ht_get (cur_named run4) = ht_get (cur_named run)"
    using restore_get [OF assms(1) idx2 le assms(4)] by (simp add: assms(5))
  show B: "run_boundaries run4 = run_boundaries run" and R: "run_registry run4 = run_registry run2"
    and "run_visited run4 = run_visited run2"
    by (simp_all add: assms(5) bs)
  have regs: "registry_ok rt L (run_registry run)" "registry_ok rt L (run_registry run2)"
    using assms(2) inv2 by (simp_all add: solver_inv_def)
  have "closed rt L resolver (run_registry run2) (known P run) (ht_get (run_visited run)) (ht_get (cur_named run))"
    using closed_mono_registry [OF _ reg regs] assms(2) by (simp add: solver_inv_def)
  moreover have "distinct (ht_keys (cur_named run4))"
    using restore_distinct [OF idx2, of rt sn] inv2 by (simp add: assms(5) solver_inv_def)
  ultimately have inv4: "solver_inv rt L P resolver run4"
    using N V idx2 regs(2) bs by (simp add: solver_inv_def assms(5) known_def)
  have "frame run run4"
    using frame frame_trans [of run run2 "restore_named rt sn run2"] by (simp add: assms(5))
  then show "step rt L P resolver run run4"
    using inv4 V N reg bud B by (simp add: step_def assms(5))
qed

lemma attempt_reqs_post:
  assumes "rt_ok rt L" and inv: "solver_inv rt L P resolver run"
    and reqs: "\<forall>d \<in> set (pending_reqs from to run). req_ok rt L d"
    and att: "attempt_reqs rt resolver fuel from to keep w run = Some ((err, w'), run')"
  shows "step rt L P resolver run run'"
    and "err = None \<Longrightarrow> keep \<Longrightarrow> \<forall>d \<in> set (pending_reqs from to run).
       dep_met resolver (run_registry run') (known P run') (ht_get (cur_named run')) root_node d"
    and "err \<noteq> None \<or> \<not> keep \<Longrightarrow> ht_get (cur_named run') = ht_get (cur_named run) \<and>
       run_boundaries run' = run_boundaries run"
    and "err \<noteq> None \<or> w = None \<Longrightarrow> w' = w"
    and "err = None \<Longrightarrow> w \<noteq> None \<Longrightarrow> \<not> keep \<Longrightarrow> \<exists>wit. w' = Some (Some wit) \<and>
       witness_ok rt L P resolver run' (pending_reqs from to run) wit"
proof -
  let ?sn = "snapshot_named rt run" and ?n = "length (run_boundaries run)"
  obtain run2 where solve: "solve_reqs rt resolver fuel from to run = Some (err, run2)"
    and w': "w' = (if err = None \<and> w \<noteq> None then Some (Some (capture_witness rt run2 ?sn ?n)) else w)"
    and run': "run' = (if err \<noteq> None \<or> \<not> keep
       then truncate_boundaries ?n (restore_named rt ?sn run2) else run2)"
    using att by (auto simp: attempt_reqs_def Let_def bind_eq_Some_conv)
  note post = solve_reqs_post [OF assms(1) inv reqs solve]
  have sn: "set ?sn = dom (ht_get (cur_named run))" by (rule snapshot_keys [OF assms(1)])
  note rolled = rollback_step [OF assms(1) inv post(1) sn refl]
  show "step rt L P resolver run run'" using run' post(1) rolled(1) by simp
  show "err = None \<Longrightarrow> keep \<Longrightarrow> \<forall>d \<in> set (pending_reqs from to run).
       dep_met resolver (run_registry run') (known P run') (ht_get (cur_named run')) root_node d"
    using run' post(2) by simp
  show "err \<noteq> None \<or> \<not> keep \<Longrightarrow> ht_get (cur_named run') = ht_get (cur_named run) \<and>
       run_boundaries run' = run_boundaries run"
    using run' rolled(2,3) by simp
  show "err \<noteq> None \<or> w = None \<Longrightarrow> w' = w" using w' by auto
  assume ok: "err = None" "w \<noteq> None" "\<not> keep"
  let ?wit = "capture_witness rt run2 ?sn ?n"
  have inv2: "solver_inv rt L P resolver run2" using post(1) by (simp add: step_def)
  have le: "ht_get (cur_named run) \<subseteq>\<^sub>m ht_get (cur_named run2)" using post(1) by (simp add: step_def)
  have "ht_get (installed (wit_entries ?wit) (cur_named run)) = ht_get (cur_named run2)"
    unfolding capture_witness_def spn_witness_t.select_convs
    by (rule captured_get [OF assms(1) _ le sn]) (use inv2 in \<open>simp add: solver_inv_def\<close>)
  then have N2: "over (ht_get (cur_named run)) (wit_entries ?wit) = ht_get (cur_named run2)"
    by (simp add: fun_eq_iff ht_get_installed over_def)
  obtain bs where bs: "run_boundaries run2 = run_boundaries run @ bs"
    and src: "\<forall>b \<in> set bs. sourced rt L resolver (ht_get (cur_named run)) (ht_get (run_visited run)) run2 b"
    using post(1) by (auto simp: step_def)
  have B: "wit_boundaries ?wit = bs" "known P run \<union> set bs = known P run2"
    using bs by (auto simp: capture_witness_def known_def)
  have run': "run' = truncate_boundaries ?n (restore_named rt ?sn run2)" using run' ok(3) by simp
  have same: "ht_get (cur_named run') = ht_get (cur_named run)" "run_registry run' = run_registry run2"
    "ht_get (run_visited run') = ht_get (run_visited run2)" "known P run' = known P run"
    "ht_get (run_visited run2) = ht_get (run_visited run)"
    using rolled post(1) by (simp_all add: run' known_def step_def)
  have "witness_ok rt L P resolver run' (pending_reqs from to run) ?wit"
    using inv2 post(2)[OF ok(1)] le src
    unfolding witness_ok_def Let_def same N2 B by (simp add: solver_inv_def same)
  then show "\<exists>wit. w' = Some (Some wit) \<and>
       witness_ok rt L P resolver run' (pending_reqs from to run) wit"
    using w' ok by auto
qed

lemma solver_inv_idx: "solver_inv rt L P resolver run \<Longrightarrow> idx_ok run"
  by (simp add: solver_inv_def)

text \<open>What survives between attempts: everything but the pins and the budget.\<close>

definition settled_same ::
    "runtime \<Rightarrow> sp_name set \<Rightarrow> spn_scope_boundary_t set \<Rightarrow> spn_resolver_t \<Rightarrow> spn_resolve_run_t \<Rightarrow> spn_resolve_run_t \<Rightarrow> bool" where
  "settled_same rt L P resolver run run' \<longleftrightarrow>
     solver_inv rt L P resolver run' \<and> ht_get (run_visited run') = ht_get (run_visited run) \<and>
     ht_get (cur_named run') = ht_get (cur_named run) \<and>
     run_boundaries run' = run_boundaries run \<and> outer run' = outer run \<and>
     ht_get (run_registry run) \<subseteq>\<^sub>m ht_get (run_registry run') \<and>
     unat (run_budget run') \<le> unat (run_budget run) \<and>
     (\<forall>from to. pending_reqs from to run' = pending_reqs from to run)"

lemma settled_same_trans:
  "settled_same rt L P resolver a b \<Longrightarrow> settled_same rt L P resolver b c \<Longrightarrow> settled_same rt L P resolver a c"
  unfolding settled_same_def using map_le_trans by (metis (no_types, lifting) order_trans)

lemma settled_pins:
  "solver_inv rt L P resolver run \<Longrightarrow> settled_same rt L P resolver run (set_pins ps run)"
  using set_pins_inv [where run = run and ps = ps] outer_set_pins [of run ps]
  by (simp add: settled_same_def solver_inv_idx)

lemma settled_step:
  assumes "solver_inv rt L P resolver run" "step rt L P resolver run run'"
    and "ht_get (cur_named run') = ht_get (cur_named run)" "run_boundaries run' = run_boundaries run"
  shows "settled_same rt L P resolver run run'"
proof -
  have "idx_ok run" using assms(1) by (simp add: solver_inv_def)
  then show ?thesis using assms(2-4) pending_frame [of run run'] outer_frame [of run run']
    by (simp add: settled_same_def step_def)
qed

lemma witness_ok_settled:
  assumes "witness_ok rt L P resolver run reqs w" "settled_same rt L P resolver run run'"
    and "registry_ok rt L (run_registry run)"
  shows "witness_ok rt L P resolver run' reqs w"
proof -
  have same: "ht_get (run_visited run') = ht_get (run_visited run)"
    "ht_get (cur_named run') = ht_get (cur_named run)" "known P run' = known P run"
    and reg: "ht_get (run_registry run) \<subseteq>\<^sub>m ht_get (run_registry run')" "registry_ok rt L (run_registry run')"
    using assms(2) by (simp_all add: settled_same_def known_def solver_inv_def)
  show ?thesis
    using assms(1) closed_mono_registry [OF _ reg(1) assms(3) reg(2)]
      dep_met_mono [OF _ root_registered reg(1) assms(3) reg(2) map_le_refl subset_refl]
      sourced_at_mono [OF _ map_le_refl reg(1) assms(3) reg(2) map_le_refl]
    unfolding witness_ok_def Let_def same by blast
qed

lemma keep_pins_post:
  assumes "rt_ok rt L"
  shows "solver_inv rt L P resolver run \<Longrightarrow>
    \<forall>d \<in> set (pending_reqs from to run). req_ok rt L d \<Longrightarrow> w \<noteq> None \<Longrightarrow>
    (\<And>wit. w = Some (Some wit) \<Longrightarrow> witness_ok rt L P resolver run (pending_reqs from to run) wit) \<Longrightarrow>
    keep_pins rt resolver fuel from to pins w run = Some ((err, w'), run') \<Longrightarrow>
    settled_same rt L P resolver run run' \<and> w' \<noteq> None \<and>
    (\<forall>wit. w' = Some (Some wit) \<longrightarrow> witness_ok rt L P resolver run' (pending_reqs from to run) wit)"
proof (induction pins arbitrary: run w)
  case Nil
  then show ?case by (auto simp: settled_same_def)
next
  case (Cons pin pins)
  let ?run0 = "set_pins (scope_pins (current_scope run) @ [pin]) run"
  have s0: "settled_same rt L P resolver run ?run0" by (rule settled_pins [OF Cons.prems(1)])
  then have inv0: "solver_inv rt L P resolver ?run0" by (simp add: settled_same_def)
  have reqs0: "\<forall>d \<in> set (pending_reqs from to ?run0). req_ok rt L d"
    using s0 Cons.prems(2) by (simp add: settled_same_def)
  obtain err1 w1 run1 where att:
      "attempt_reqs rt resolver fuel from to False w ?run0 = Some ((err1, w1), run1)"
    and rest: "(if err1 \<noteq> None then
        (if run_fatal run1 then Some ((err1, w1), run1)
         else keep_pins rt resolver fuel from to pins w1
               (set_pins (butlast (scope_pins (current_scope run1))) run1))
      else keep_pins rt resolver fuel from to pins w1 run1) = Some ((err, w'), run')"
    using Cons.prems(5) by (auto simp: bind_eq_Some_conv Let_def)
  note post = attempt_reqs_post [OF assms inv0 reqs0 att]
  have "settled_same rt L P resolver ?run0 run1"
    using settled_step [OF inv0 post(1)] post(3) by simp
  then have s1: "settled_same rt L P resolver run run1" by (rule settled_same_trans [OF s0])
  then have inv1: "solver_inv rt L P resolver run1" by (simp add: settled_same_def)
  have w1: "w1 \<noteq> None" using post(4,5) Cons.prems(3) by (cases "err1 = None") auto
  have reg: "registry_ok rt L (run_registry run)" using Cons.prems(1) by (simp add: solver_inv_def)
  have wit1: "witness_ok rt L P resolver run1 (pending_reqs from to run) wit" if "w1 = Some (Some wit)" for wit
  proof (cases "err1 = None")
    case True
    have "pending_reqs from to ?run0 = pending_reqs from to run" using s0 by (simp add: settled_same_def)
    with post(5)[OF True Cons.prems(3)] that show ?thesis by simp
  next
    case False
    then have "w = Some (Some wit)" using post(4) that by auto
    from witness_ok_settled [OF Cons.prems(4)[OF this] s1 reg] show ?thesis .
  qed
  define next_run where "next_run =
    (if err1 \<noteq> None then set_pins (butlast (scope_pins (current_scope run1))) run1 else run1)"
  have s2: "settled_same rt L P resolver run next_run"
    using settled_same_trans [OF s1 settled_pins [OF inv1]] s1 by (simp add: next_run_def)
  show ?case
  proof (cases "err1 \<noteq> None \<and> run_fatal run1")
    case True
    then show ?thesis using rest s1 w1 wit1 by auto
  next
    case False
    then have call: "keep_pins rt resolver fuel from to pins w1 next_run = Some ((err, w'), run')"
      using rest by (auto simp: next_run_def split: if_splits)
    have same: "pending_reqs from to next_run = pending_reqs from to run" "solver_inv rt L P resolver next_run"
      using s2 by (simp_all add: settled_same_def)
    have "settled_same rt L P resolver run1 next_run"
      using settled_pins [OF inv1] inv1 by (auto simp: next_run_def settled_same_def)
    then have wit2: "witness_ok rt L P resolver next_run (pending_reqs from to run) wit"
      if "w1 = Some (Some wit)" for wit
      using witness_ok_settled [OF wit1 [OF that]] inv1 by (simp add: solver_inv_def)
    have "settled_same rt L P resolver next_run run' \<and> w' \<noteq> None \<and>
      (\<forall>wit. w' = Some (Some wit) \<longrightarrow> witness_ok rt L P resolver run' (pending_reqs from to next_run) wit)"
      by (rule Cons.IH [OF _ _ w1 _ call]) (use same Cons.prems(2) wit2 in simp_all)
    then show ?thesis using settled_same_trans [OF s2] by (simp add: same)
  qed
qed

section \<open>A scope\<close>

definition scope_start :: "runtime \<Rightarrow> spn_resolver_t \<Rightarrow> spn_resolve_run_t \<Rightarrow> spn_resolve_run_t" where
  "scope_start rt resolver run =
    (let from = scope_cursor (current_scope run); to = length (scope_reqs (current_scope run))
     in (update_scope (\<lambda>s. s\<lparr>scope_cursor := to,
           scope_reqs := take from (scope_reqs s) @
             rt_sort_reqs rt (sort_req_canonical rt) (drop from (scope_reqs s))\<rparr>) run)
        \<lparr>run_budget := res_budget resolver\<rparr>)"

abbreviation new_reqs :: "spn_resolve_run_t \<Rightarrow> spn_requested_dep_t list" where
  "new_reqs run \<equiv> drop (scope_cursor (current_scope run)) (scope_reqs (current_scope run))"

lemma scope_start_inv:
  assumes "rt_ok rt L" "solver_inv rt L P resolver run"
    and "scope_cursor (current_scope run) \<le> length (scope_reqs (current_scope run))"
  shows "solver_inv rt L P resolver (scope_start rt resolver run)"
    and "cur_named (scope_start rt resolver run) = cur_named run"
    and "run_registry (scope_start rt resolver run) = run_registry run"
    and "run_visited (scope_start rt resolver run) = run_visited run"
    and "run_result (scope_start rt resolver run) = run_result run"
    and "run_budget (scope_start rt resolver run) = res_budget resolver"
    and "set (pending_reqs (scope_cursor (current_scope run)) (length (scope_reqs (current_scope run)))
          (scope_start rt resolver run)) = set (new_reqs run)"
    and "run_boundaries (scope_start rt resolver run) = run_boundaries run"
proof -
  let ?from = "scope_cursor (current_scope run)" and ?reqs = "scope_reqs (current_scope run)"
  let ?f = "\<lambda>s. s\<lparr>scope_cursor := length ?reqs, scope_reqs := take ?from (scope_reqs s) @
             rt_sort_reqs rt (sort_req_canonical rt) (drop ?from (scope_reqs s))\<rparr>"
  have start: "scope_start rt resolver run = (update_scope ?f run)\<lparr>run_budget := res_budget resolver\<rparr>"
    by (simp add: scope_start_def Let_def)
  have idx: "idx_ok run" using assms(2) by (simp add: solver_inv_def)
  have u: "solver_inv rt L P resolver (update_scope ?f run)" "cur_named (update_scope ?f run) = cur_named run"
    using solver_inv_update_scope [OF assms(2), of ?f] by simp_all
  show "solver_inv rt L P resolver (scope_start rt resolver run)" using u(1) by (simp add: start)
  show "cur_named (scope_start rt resolver run) = cur_named run" using u(2) by (simp add: start)
  show "run_registry (scope_start rt resolver run) = run_registry run"
    "run_visited (scope_start rt resolver run) = run_visited run"
    "run_result (scope_start rt resolver run) = run_result run"
    "run_budget (scope_start rt resolver run) = res_budget resolver"
    "run_boundaries (scope_start rt resolver run) = run_boundaries run"
    by (simp_all add: start)
  have "mset (rt_sort_reqs rt (sort_req_canonical rt) (new_reqs run)) = mset (new_reqs run)"
    using assms(1) by (simp add: rt_ok_def)
  then have len: "length (rt_sort_reqs rt (sort_req_canonical rt) (new_reqs run)) = length ?reqs - ?from"
    by (metis length_drop size_mset)
  have "pending_reqs ?from (length ?reqs) (scope_start rt resolver run) =
      rt_sort_reqs rt (sort_req_canonical rt) (new_reqs run)"
    using idx assms(3) len by (simp add: pending_reqs_def start)
  then show "set (pending_reqs ?from (length ?reqs) (scope_start rt resolver run)) = set (new_reqs run)"
    by (simp add: rt_ok_sets(1)[OF assms(1)])
qed

definition scope_pins_of :: "runtime \<Rightarrow> spn_resolve_run_t \<Rightarrow> spn_pin_t list" where
  "scope_pins_of rt run =
     map (\<lambda>p. \<lparr>pin_name = id_qualified (pkg_id p), pin_version = id_version (pkg_id p)\<rparr>)
       (rt_sort_picks rt sort_pick_by_priority (map snd (rt_result_order rt (run_result run))))"

lemma resolve_scope_eq:
  "resolve_scope rt resolver fuel run =
    (let fr = scope_cursor (current_scope run);
         to = length (scope_reqs (current_scope run));
         start = scope_start rt resolver run;
         pins = scope_pins_of rt start
     in if fr \<noteq> 0 \<or> run_result start = [] then solve_reqs rt resolver fuel fr to start
     else attempt_reqs rt resolver fuel fr to True None
            (set_pins (scope_pins (current_scope start) @ pins) start) \<bind>
      (\<lambda>((err, _), run). if err = None \<or> run_fatal run then Some (err, run)
        else keep_pins rt resolver fuel fr to pins (Some None) (set_pins [] run) \<bind>
          (\<lambda>((err, witness), run). if err \<noteq> None then Some (err, run)
             else case witness of
                 Some (Some w) \<Rightarrow> Some (None, install_witness w run)
               | _ \<Rightarrow> solve_reqs rt resolver fuel fr to run)))"
  unfolding resolve_scope_def Let_def scope_start_def scope_pins_of_def
  by (rule refl)

lemma resolve_scope_cases:
  assumes "resolve_scope rt resolver fuel run = Some (err, run')"
  defines "from \<equiv> scope_cursor (current_scope run)"
    and "to \<equiv> length (scope_reqs (current_scope run))"
    and "start \<equiv> scope_start rt resolver run"
  obtains
    (plain) "solve_reqs rt resolver fuel from to start = Some (err, run')"
  | (pinned) ps w run1 where
      "attempt_reqs rt resolver fuel from to True None (set_pins ps start) = Some ((err, w), run1)"
      "run' = run1" "err = None \<or> run_fatal run1"
  | (searched) ps e w run1 qs w' run2 where
      "attempt_reqs rt resolver fuel from to True None (set_pins ps start) = Some ((Some e, w), run1)"
      "keep_pins rt resolver fuel from to qs (Some None) (set_pins [] run1) = Some ((err, w'), run2)"
      "err \<noteq> None" "run' = run2"
  | (witness) ps e w run1 qs wit run2 where
      "attempt_reqs rt resolver fuel from to True None (set_pins ps start) = Some ((Some e, w), run1)"
      "keep_pins rt resolver fuel from to qs (Some None) (set_pins [] run1) =
         Some ((None, Some (Some wit)), run2)"
      "err = None" "run' = install_witness wit run2"
  | (dropped) ps e w run1 qs w' run2 where
      "attempt_reqs rt resolver fuel from to True None (set_pins ps start) = Some ((Some e, w), run1)"
      "keep_pins rt resolver fuel from to qs (Some None) (set_pins [] run1) = Some ((None, w'), run2)"
      "solve_reqs rt resolver fuel from to run2 = Some (err, run')"
proof (cases "from \<noteq> 0 \<or> run_result start = []")
  case True
  then have "solve_reqs rt resolver fuel from to start = Some (err, run')"
    using assms(1) by (simp add: resolve_scope_def Let_def from_def to_def start_def scope_start_def)
  then show ?thesis by (rule plain)
next
  case False
  define pins where "pins = scope_pins_of rt start"
  define ps where "ps = scope_pins (current_scope start) @ pins"
  have go: "(attempt_reqs rt resolver fuel from to True None (set_pins ps start) \<bind>
      (\<lambda>((err, _), run). if err = None \<or> run_fatal run then Some (err, run)
        else keep_pins rt resolver fuel from to pins (Some None) (set_pins [] run) \<bind>
          (\<lambda>((err, witness), run). if err \<noteq> None then Some (err, run)
             else case witness of
                 Some (Some w) \<Rightarrow> Some (None, install_witness w run)
               | _ \<Rightarrow> solve_reqs rt resolver fuel from to run))) = Some (err, run')"
    using assms(1) False
    unfolding resolve_scope_eq Let_def from_def to_def start_def pins_def ps_def by simp
  then obtain err1 w1 run1 where att:
    "attempt_reqs rt resolver fuel from to True None (set_pins ps start) = Some ((err1, w1), run1)"
    by (auto simp: bind_eq_Some_conv)
  show ?thesis
  proof (cases "err1 = None \<or> run_fatal run1")
    case True
    then show ?thesis using pinned [of ps w1 run1] att go by simp
  next
    case cont: False
    then obtain e where e: "err1 = Some e" by auto
    have go2: "(keep_pins rt resolver fuel from to pins (Some None) (set_pins [] run1) \<bind>
          (\<lambda>((err, witness), run). if err \<noteq> None then Some (err, run)
             else case witness of
                 Some (Some w) \<Rightarrow> Some (None, install_witness w run)
               | _ \<Rightarrow> solve_reqs rt resolver fuel from to run)) = Some (err, run')"
      using go att cont by simp
    then obtain err2 w2 run2 where keep:
      "keep_pins rt resolver fuel from to pins (Some None) (set_pins [] run1) = Some ((err2, w2), run2)"
      by (auto simp: bind_eq_Some_conv)
    show ?thesis
    proof (cases err2)
      case (Some e2)
      then show ?thesis using searched [OF att[unfolded e], of pins w2 run2] keep go2 by auto
    next
      case None
      note none = None
      show ?thesis
      proof (cases "\<exists>wit. w2 = Some (Some wit)")
        case True
        then obtain wit where "w2 = Some (Some wit)" ..
        then show ?thesis using witness [OF att[unfolded e], of pins wit run2] keep go2 none by simp
      next
        case False
        then have "solve_reqs rt resolver fuel from to run2 = Some (err, run')"
          using go2 keep none by (auto split: option.splits)
        then show ?thesis using dropped [OF att[unfolded e], of pins w2 run2] keep none by simp
      qed
    qed
  qed
qed

text \<open>What a solved scope has gained over the run it started from.\<close>

definition solved ::
    "runtime \<Rightarrow> sp_name set \<Rightarrow> spn_scope_boundary_t set \<Rightarrow> spn_resolver_t \<Rightarrow>
     spn_requested_dep_t set \<Rightarrow> spn_resolve_run_t \<Rightarrow> spn_resolve_run_t \<Rightarrow> bool" where
  "solved rt L P resolver reqs run run' \<longleftrightarrow>
     solver_inv rt L P resolver run' \<and> outer run' = outer run \<and>
     ht_get (run_visited run') = ht_get (run_visited run) \<and>
     ht_get (cur_named run) \<subseteq>\<^sub>m ht_get (cur_named run') \<and>
     ht_get (run_registry run) \<subseteq>\<^sub>m ht_get (run_registry run') \<and>
     (\<exists>bs. run_boundaries run' = run_boundaries run @ bs \<and>
        (\<forall>b \<in> set bs. sourced rt L resolver (ht_get (cur_named run)) (ht_get (run_visited run)) run' b)) \<and>
     (\<forall>d \<in> reqs. dep_met resolver (run_registry run') (known P run') (ht_get (cur_named run')) root_node d)"

lemma solved_step:
  "step rt L P resolver run run' \<Longrightarrow> idx_ok run \<Longrightarrow>
   \<forall>d \<in> reqs. dep_met resolver (run_registry run') (known P run') (ht_get (cur_named run')) root_node d \<Longrightarrow>
   solved rt L P resolver reqs run run'"
  using outer_frame [of run run'] by (auto simp: solved_def step_def)

lemma solved_settled:
  assumes "settled_same rt L P resolver a b" "solved rt L P resolver reqs b c"
  shows "solved rt L P resolver reqs a c"
  using assms map_le_trans [of "ht_get (run_registry a)"]
  unfolding solved_def settled_same_def by auto

lemma install_witness_outer: "idx_ok run \<Longrightarrow> outer (install_witness w run) = outer run"
  by (simp add: install_witness_def Let_def)

lemma install_witness_solved:
  assumes inv: "solver_inv rt L P resolver run" and wit: "witness_ok rt L P resolver run reqs w"
  shows "solved rt L P resolver (set reqs) run (install_witness w run)"
proof -
  have idx: "idx_ok run" using inv by (simp add: solver_inv_def)
  let ?run' = "install_witness w run"
  let ?M = "over (ht_get (cur_named run)) (wit_entries w)"
  have named: "cur_named ?run' = installed (wit_entries w) (cur_named run)"
    using idx by (simp add: install_witness_def Let_def installed_def)
  have get: "ht_get (cur_named ?run') = ?M"
    unfolding fun_eq_iff named ht_get_installed over_def by simp
  have "distinct (ht_keys (installed es t))" if "distinct (ht_keys t)" for es t
    using that unfolding installed_def by (induction es arbitrary: t) auto
  then have keys: "distinct (ht_keys (cur_named ?run'))" using inv by (simp add: named solver_inv_def)
  have fields: "run_visited ?run' = run_visited run" "run_registry ?run' = run_registry run"
    "idx_ok ?run'" "run_boundaries ?run' = run_boundaries run @ wit_boundaries w"
    using idx by (simp_all add: install_witness_def Let_def)
  have B: "known P ?run' = known P run \<union> set (wit_boundaries w)"
    using fields(4) by (auto simp: known_def)
  show ?thesis
    using wit inv keys fields idx install_witness_outer [OF idx] unfolding solved_def witness_ok_def Let_def get B
    by (simp add: solver_inv_def get B)
qed

lemma resolve_scope_post:
  assumes rt: "rt_ok rt L" and inv: "solver_inv rt L P resolver run"
    and cursor: "scope_cursor (current_scope run) \<le> length (scope_reqs (current_scope run))"
    and reqs: "\<forall>d \<in> set (new_reqs run). req_ok rt L d"
    and ok: "resolve_scope rt resolver fuel run = Some (None, run')"
  shows "solved rt L P resolver (set (new_reqs run)) (scope_start rt resolver run) run'"
proof -
  let ?from = "scope_cursor (current_scope run)" and ?to = "length (scope_reqs (current_scope run))"
  let ?start = "scope_start rt resolver run"
  note st = scope_start_inv [OF rt inv cursor]
  have preqs: "\<forall>d \<in> set (pending_reqs ?from ?to ?start). req_ok rt L d" using reqs st(7) by simp
  have goal: ?thesis if "solved rt L P resolver (set (pending_reqs ?from ?to ?start)) ?start run'"
    using that st(7) by simp
  have idx: "idx_ok ?start" "idx_ok (set_pins ps ?start)" for ps
    using st(1) by (simp_all add: solver_inv_def)
  have pins: "settled_same rt L P resolver ?start (set_pins ps ?start)" for ps
    by (rule settled_pins [OF st(1)])
  have pinv: "solver_inv rt L P resolver (set_pins ps ?start)" for ps
    using pins [of ps] by (simp add: settled_same_def)
  have ppend: "pending_reqs ?from ?to (set_pins ps ?start) = pending_reqs ?from ?to ?start" for ps
    using pins [of ps] by (simp add: settled_same_def)
  have preqs': "\<forall>d \<in> set (pending_reqs ?from ?to (set_pins ps ?start)). req_ok rt L d" for ps
    using preqs by (simp only: ppend)
  have searched: "settled_same rt L P resolver ?start run2 \<and> solver_inv rt L P resolver run2 \<and>
      pending_reqs ?from ?to run2 = pending_reqs ?from ?to ?start \<and>
      (\<forall>wit. w' = Some (Some wit) \<longrightarrow> witness_ok rt L P resolver run2 (pending_reqs ?from ?to ?start) wit)"
    if att: "attempt_reqs rt resolver fuel ?from ?to True None (set_pins ps ?start) = Some ((Some e, w), run1)"
      and keep: "keep_pins rt resolver fuel ?from ?to qs (Some None) (set_pins [] run1) = Some ((None, w'), run2)"
    for ps e w run1 qs w' run2
  proof -
    note post = attempt_reqs_post [OF rt pinv preqs' att]
    have "settled_same rt L P resolver (set_pins ps ?start) run1"
      using settled_step [OF pinv post(1)] post(3) by simp
    then have s1: "settled_same rt L P resolver ?start run1" by (rule settled_same_trans [OF pins])
    then have inv1: "solver_inv rt L P resolver run1" by (simp add: settled_same_def)
    have s1': "settled_same rt L P resolver ?start (set_pins [] run1)"
      by (rule settled_same_trans [OF s1 settled_pins [OF inv1]])
    then have inv1': "solver_inv rt L P resolver (set_pins [] run1)"
      and pend1: "pending_reqs ?from ?to (set_pins [] run1) = pending_reqs ?from ?to ?start"
      by (simp_all add: settled_same_def)
    have kp: "settled_same rt L P resolver (set_pins [] run1) run2 \<and>
        (\<forall>wit. w' = Some (Some wit) \<longrightarrow> witness_ok rt L P resolver run2 (pending_reqs ?from ?to ?start) wit)"
      using keep_pins_post [OF rt inv1' _ _ _ keep] preqs unfolding pend1 by simp
    then have s2: "settled_same rt L P resolver ?start run2" using settled_same_trans [OF s1'] by blast
    moreover from this have "solver_inv rt L P resolver run2"
      "pending_reqs ?from ?to run2 = pending_reqs ?from ?to ?start"
      by (simp_all add: settled_same_def)
    ultimately show ?thesis using kp by blast
  qed
  show ?thesis
    using ok
  proof (cases rule: resolve_scope_cases)
    case plain
    note post = solve_reqs_post [OF rt st(1) preqs plain]
    show ?thesis by (rule goal, rule solved_step [OF post(1) idx(1)]) (use post(2) in simp)
  next
    case (pinned ps w run1)
    note post = attempt_reqs_post [OF rt pinv preqs' pinned(1)]
    have "solved rt L P resolver (set (pending_reqs ?from ?to ?start)) (set_pins ps ?start) run1"
      by (rule solved_step [OF post(1) idx(2)]) (use post(2) in \<open>simp add: ppend\<close>)
    then show ?thesis using goal solved_settled [OF pins] pinned(2) by blast
  next
    case (searched ps e w run1 qs w' run2)
    then show ?thesis by simp
  next
    case (witness ps e w run1 qs wit run2)
    note s = searched [OF witness(1,2)]
    then have "solved rt L P resolver (set (pending_reqs ?from ?to ?start)) run2 (install_witness wit run2)"
      using install_witness_solved by blast
    then show ?thesis using goal solved_settled s witness(4) by blast
  next
    case (dropped ps e w run1 qs w' run2)
    note s = searched [OF dropped(1,2)]
    have preqs2: "\<forall>d \<in> set (pending_reqs ?from ?to run2). req_ok rt L d" using preqs s by simp
    note post = solve_reqs_post [OF rt _ preqs2 dropped(3)]
    have "solved rt L P resolver (set (pending_reqs ?from ?to ?start)) run2 run'"
      by (rule solved_step [OF post(1)]) (use s post(2) in \<open>auto simp: solver_inv_def\<close>)
    then show ?thesis using goal solved_settled s by blast
  qed
qed

lemma settled_work: "settled_same rt L P resolver a b \<Longrightarrow> work L b \<le> work L a"
  by (simp add: settled_same_def work_def)

lemma attempt_reqs_returns:
  assumes "finite L" "traps_free rt resolver" "rt_ok rt L" "solver_inv rt L P resolver run"
    and "\<forall>d \<in> set (pending_reqs from to run). req_ok rt L d" "work L run \<le> fuel"
  shows "attempt_reqs rt resolver fuel from to keep w run \<noteq> None"
  using solve_reqs_returns [OF assms] by (auto simp: attempt_reqs_def Let_def)

lemma keep_pins_returns:
  assumes env: "finite L" "traps_free rt resolver" "rt_ok rt L"
  shows "solver_inv rt L P resolver run \<Longrightarrow>
    \<forall>d \<in> set (pending_reqs from to run). req_ok rt L d \<Longrightarrow> work L run \<le> fuel \<Longrightarrow>
    keep_pins rt resolver fuel from to pins w run \<noteq> None"
proof (induction pins arbitrary: run w)
  case Nil
  then show ?case by simp
next
  case (Cons pin pins)
  let ?run0 = "set_pins (scope_pins (current_scope run) @ [pin]) run"
  have s0: "settled_same rt L P resolver run ?run0" by (rule settled_pins [OF Cons.prems(1)])
  then have inv0: "solver_inv rt L P resolver ?run0" by (simp add: settled_same_def)
  have reqs0: "\<forall>d \<in> set (pending_reqs from to ?run0). req_ok rt L d"
    using s0 Cons.prems(2) by (simp add: settled_same_def)
  have work0: "work L ?run0 \<le> fuel" using settled_work [OF s0] Cons.prems(3) by simp
  obtain err1 w1 run1 where att:
      "attempt_reqs rt resolver fuel from to False w ?run0 = Some ((err1, w1), run1)"
    using attempt_reqs_returns [OF env inv0 reqs0 work0, of False w] by auto
  note post = attempt_reqs_post [OF env(3) inv0 reqs0 att]
  have "settled_same rt L P resolver ?run0 run1"
    using settled_step [OF inv0 post(1)] post(3) by simp
  then have s1: "settled_same rt L P resolver run run1" by (rule settled_same_trans [OF s0])
  then have inv1: "solver_inv rt L P resolver run1" by (simp add: settled_same_def)
  have s2: "settled_same rt L P resolver run (set_pins ps run1)" for ps
    by (rule settled_same_trans [OF s1 settled_pins [OF inv1]])
  have again: "keep_pins rt resolver fuel from to pins w1 r \<noteq> None"
    if "settled_same rt L P resolver run r" for r
    by (rule Cons.IH) (use that settled_work [OF that] Cons.prems in \<open>simp_all add: settled_same_def\<close>)
  show ?case using att again [OF s1] again [OF s2] by (auto simp: Let_def)
qed

lemma resolve_scope_returns:
  assumes env: "finite L" "traps_free rt resolver" "rt_ok rt L"
    and inv: "solver_inv rt L P resolver run"
    and cursor: "scope_cursor (current_scope run) \<le> length (scope_reqs (current_scope run))"
    and reqs: "\<forall>d \<in> set (new_reqs run). req_ok rt L d"
    and fuel: "unat (res_budget resolver) + card L \<le> fuel"
  shows "resolve_scope rt resolver fuel run \<noteq> None"
proof -
  define fr where "fr = scope_cursor (current_scope run)"
  define to where "to = length (scope_reqs (current_scope run))"
  define start where "start = scope_start rt resolver run"
  note st = scope_start_inv [OF env(3) inv cursor, folded fr_def to_def start_def]
  have pend: "\<forall>d \<in> set (pending_reqs fr to start). req_ok rt L d"
    using reqs st(7) by (simp add: fr_def)
  have "card (L - dom (ht_get (cur_named start))) \<le> card L" using env(1) by (intro card_mono) auto
  then have work: "work L start \<le> fuel" using fuel st(6) by (simp add: work_def)
  have plain: "solve_reqs rt resolver fuel fr to r \<noteq> None" if "settled_same rt L P resolver start r" for r
    by (rule solve_reqs_returns [OF env, where P = P]) (use that settled_work [OF that] work pend in \<open>simp_all add: settled_same_def\<close>)
  have refl: "settled_same rt L P resolver start start" using st(1) by (simp add: settled_same_def)
  define pins where "pins = scope_pins_of rt start"
  define ps where "ps = scope_pins (current_scope start) @ pins"
  note eq = resolve_scope_eq [of rt resolver fuel run, folded fr_def to_def start_def, unfolded Let_def,
      folded pins_def, folded ps_def]
  let ?s1 = "set_pins ps start"
  have s1: "settled_same rt L P resolver start ?s1" by (rule settled_pins [OF st(1)])
  then have inv1: "solver_inv rt L P resolver ?s1" by (simp add: settled_same_def)
  have pend1: "\<forall>d \<in> set (pending_reqs fr to ?s1). req_ok rt L d"
    using s1 pend by (simp add: settled_same_def)
  have "work L ?s1 \<le> fuel" using settled_work [OF s1] work by simp
  then obtain err1 w1 run1 where att:
      "attempt_reqs rt resolver fuel fr to True None ?s1 = Some ((err1, w1), run1)"
    using attempt_reqs_returns [OF env inv1 pend1, of fuel True None] by auto
  note post = attempt_reqs_post [OF env(3) inv1 pend1 att]
  show ?thesis
  proof (cases "fr \<noteq> 0 \<or> run_result start = [] \<or> err1 = None \<or> run_fatal run1")
    case True
    then show ?thesis using plain [OF refl] att unfolding eq by auto
  next
    case False
    have "settled_same rt L P resolver ?s1 run1"
      using settled_step [OF inv1 post(1)] post(3) False by simp
    then have s2: "settled_same rt L P resolver start run1" by (rule settled_same_trans [OF s1])
    then have "solver_inv rt L P resolver run1" by (simp add: settled_same_def)
    then have s3: "settled_same rt L P resolver start (set_pins [] run1)"
      by (rule settled_same_trans [OF s2 settled_pins])
    then have inv3: "solver_inv rt L P resolver (set_pins [] run1)"
      and pend3: "\<forall>d \<in> set (pending_reqs fr to (set_pins [] run1)). req_ok rt L d"
      using pend by (simp_all add: settled_same_def)
    have "work L (set_pins [] run1) \<le> fuel" using settled_work [OF s3] work by simp
    then obtain err2 w2 run2 where keep:
        "keep_pins rt resolver fuel fr to pins (Some None) (set_pins [] run1) = Some ((err2, w2), run2)"
      using keep_pins_returns [OF env inv3 pend3, of fuel pins "Some None"] by auto
    have "settled_same rt L P resolver (set_pins [] run1) run2"
      using keep_pins_post [OF env(3) inv3 pend3 _ _ keep] by simp
    then have "settled_same rt L P resolver start run2" by (rule settled_same_trans [OF s3])
    from plain [OF this] show ?thesis
      using False att keep unfolding eq by (auto split: option.splits)
  qed
qed

end
