(* ===== verification/Resolve_Driver.thy ===== *)
theory Resolve_Driver
  imports Resolve_Instances Resolve_Scope
begin

text \<open>
  The loops that drive the scopes: the invariant between two scopes, how the boundaries of a
  solved scope become requests of other scopes, and what holds when the loops stop: every
  dependency of every package, and every request, has an edge to a package at an admitted
  version.
\<close>

section \<open>Routed boundaries\<close>

definition boundary_root :: "spn_scope_boundary_t \<Rightarrow> sp_name" where
  "boundary_root b = (if bd_edge b = SPN_DEP_EDGE_PRIVATE then id_qualified (bd_from b)
                      else Some (req_qualified (bd_req b)))"

definition inner_req :: "spn_requested_dep_t \<Rightarrow> spn_requested_dep_t" where
  "inner_req d = d\<lparr>req_kind := SPN_DEP_KIND_PACKAGE, req_private := False\<rparr>"

definition plain_req :: "spn_requested_dep_t \<Rightarrow> bool" where
  "plain_req d \<longleftrightarrow> req_kind d = SPN_DEP_KIND_PACKAGE \<and> \<not> req_private d"

text \<open>A boundary is routed when the scope it leads to exists and has its request.\<close>

definition routed :: "spn_scope_t list \<Rightarrow> spn_scope_boundary_t set" where
  "routed ss = {b. \<exists>i. scope_index ss (boundary_root b) (bd_from b) = Some i \<and>
                     inner_req (bd_req b) \<in> set (scope_reqs (ss ! i))}"

lemma inner_req_simps [simp]:
  "req_qualified (inner_req d) = req_qualified d" "req_target (inner_req d) = req_target d"
  "plain_req (inner_req d)" "req_ok rt L (inner_req d) = req_ok rt L d"
  by (simp_all add: inner_req_def plain_req_def req_ok_def)

lemma classify_plain: "plain_req d \<Longrightarrow> classify_dep resolver reg node d = Some SPN_DEP_EDGE_SCOPE"
  by (simp add: plain_req_def classify_dep_def)

definition scope_key :: "spn_scope_t \<Rightarrow> sp_name \<times> spn_pkg_id_t" where
  "scope_key s = (scope_root s, scope_from s)"

lemma scope_index_prefix:
  assumes "scope_index ss root from = Some i" "map scope_key ss = take (length ss) (map scope_key ss')"
  shows "scope_index ss' root from = Some i"
  using assms
proof (induction ss arbitrary: ss' i)
  case (Cons s ss)
  obtain s' rest where ss': "ss' = s' # rest" using Cons.prems(2) by (cases ss') simp_all
  then have "scope_key s = scope_key s'" and rest: "map scope_key ss = take (length ss) (map scope_key rest)"
    using Cons.prems(2) by simp_all
  then have key: "scope_root s' = scope_root s" "scope_from s' = scope_from s"
    by (simp_all add: scope_key_def)
  show ?case
  proof (cases "scope_root s = root \<and> spn_pkg_id_eq (scope_from s) from")
    case True
    then show ?thesis using Cons.prems(1) ss' key by simp
  next
    case False
    then obtain j where j: "scope_index ss root from = Some j" "i = Suc j" using Cons.prems(1) by auto
    then show ?thesis using Cons.IH [OF j(1) rest] False ss' key by simp
  qed
qed simp

lemma scope_index_append:
  "scope_index ss root from = None \<Longrightarrow> scope_root s = root \<Longrightarrow> scope_from s = from \<Longrightarrow>
   scope_index (ss @ [s]) root from = Some (length ss)"
  by (induction ss) (auto simp: spn_pkg_id_eq_def semver_eq_iff split: if_splits)

section \<open>How a run is extended\<close>

text \<open>Between two scopes the scopes only gain requests, and new scopes are added.\<close>

definition gained :: "(spn_requested_dep_t \<Rightarrow> bool) \<Rightarrow> spn_scope_t \<Rightarrow> spn_scope_t \<Rightarrow> bool" where
  "gained Q s s' \<longleftrightarrow> (\<exists>ds. s' = s\<lparr>scope_reqs := scope_reqs s @ ds\<rparr> \<and> (\<forall>d \<in> set ds. Q d))"

definition extends ::
    "(spn_requested_dep_t \<Rightarrow> bool) \<Rightarrow> spn_scope_t list \<Rightarrow> spn_scope_t list \<Rightarrow> bool" where
  "extends Q ss ss' \<longleftrightarrow>
     length ss \<le> length ss' \<and> (\<forall>j < length ss. gained Q (ss ! j) (ss' ! j)) \<and>
     (\<forall>j < length ss'. length ss \<le> j \<longrightarrow> (\<exists>root from. gained Q (new_scope root from) (ss' ! j)))"

lemma gained_refl [simp]: "gained Q s s"
  unfolding gained_def by (intro exI [of _ "[]"]) simp

lemma gained_trans: "gained Q a b \<Longrightarrow> gained Q b c \<Longrightarrow> gained Q a c"
proof -
  assume "gained Q a b" "gained Q b c"
  then obtain ds es where "b = a\<lparr>scope_reqs := scope_reqs a @ ds\<rparr>" "\<forall>d \<in> set ds. Q d"
    "c = b\<lparr>scope_reqs := scope_reqs b @ es\<rparr>" "\<forall>d \<in> set es. Q d" unfolding gained_def by blast
  then show ?thesis unfolding gained_def by (intro exI [of _ "ds @ es"]) auto
qed

lemma gained_fields:
  assumes "gained Q s s'"
  shows "scope_key s' = scope_key s" "scope_named s' = scope_named s" "scope_cursor s' = scope_cursor s"
    "scope_processes s' = scope_processes s" "set (scope_reqs s) \<subseteq> set (scope_reqs s')"
    "length (scope_reqs s) \<le> length (scope_reqs s')"
    "n \<le> length (scope_reqs s) \<Longrightarrow> take n (scope_reqs s') = take n (scope_reqs s)"
    "d \<in> set (scope_reqs s') \<Longrightarrow> d \<in> set (scope_reqs s) \<or> Q d"
  using assms by (auto simp: gained_def scope_key_def)

lemma extends_refl [simp]: "extends Q ss ss"
  by (simp add: extends_def)

lemma extends_trans: "extends Q a b \<Longrightarrow> extends Q b c \<Longrightarrow> extends Q a c"
  unfolding extends_def
proof (intro conjI allI impI)
  assume ab: "length a \<le> length b \<and> (\<forall>j < length a. gained Q (a ! j) (b ! j)) \<and>
      (\<forall>j < length b. length a \<le> j \<longrightarrow> (\<exists>root from. gained Q (new_scope root from) (b ! j)))"
    and bc: "length b \<le> length c \<and> (\<forall>j < length b. gained Q (b ! j) (c ! j)) \<and>
      (\<forall>j < length c. length b \<le> j \<longrightarrow> (\<exists>root from. gained Q (new_scope root from) (c ! j)))"
  show "length a \<le> length c" using ab bc by simp
  show "gained Q (a ! j) (c ! j)" if "j < length a" for j
    using ab bc that gained_trans by (meson less_le_trans)
  show "\<exists>root from. gained Q (new_scope root from) (c ! j)" if "j < length c" "length a \<le> j" for j
    using ab bc that gained_trans by (cases "j < length b") (blast, simp)
qed

lemma extends_keys:
  assumes "extends Q ss ss'"
  shows "map scope_key ss = take (length ss) (map scope_key ss')"
proof (rule nth_equalityI)
  have len: "length ss \<le> length ss'" using assms by (simp add: extends_def)
  then show "length (map scope_key ss) = length (take (length ss) (map scope_key ss'))" by simp
  fix j assume j: "j < length (map scope_key ss)"
  then have "scope_key (ss' ! j) = scope_key (ss ! j)"
    using assms gained_fields(1) [of Q "ss ! j" "ss' ! j"] by (simp add: extends_def)
  then show "map scope_key ss ! j = take (length ss) (map scope_key ss') ! j" using j len by simp
qed

lemma extends_routed:
  assumes "extends Q ss ss'"
  shows "routed ss \<subseteq> routed ss'"
proof
  fix b assume "b \<in> routed ss"
  then obtain i where i: "scope_index ss (boundary_root b) (bd_from b) = Some i"
    "inner_req (bd_req b) \<in> set (scope_reqs (ss ! i))" by (auto simp: routed_def)
  have "gained Q (ss ! i) (ss' ! i)" using assms scope_index_bound [OF i(1)] by (simp add: extends_def)
  then have "inner_req (bd_req b) \<in> set (scope_reqs (ss' ! i))" using i(2) gained_fields(5) by blast
  then show "b \<in> routed ss'"
    using scope_index_prefix [OF i(1) extends_keys [OF assms]] by (auto simp: routed_def)
qed

section \<open>Processing the boundaries\<close>

lemma process_boundary_extends:
  fixes run :: spn_resolve_run_t and b :: spn_scope_boundary_t and i :: nat
  defines "run' \<equiv> process_boundary i b run"
  assumes "i < length (run_scopes run)" "Q (inner_req (bd_req b))"
  shows "extends Q (run_scopes run) (run_scopes run')" "b \<in> routed (run_scopes run')"
    "run_registry run' = run_registry run" "run_visited run' = run_visited run"
    "\<exists>e. run_edges run' = run_edges run @ [e] \<and> edge_from e = i \<and>
       edge_to e < length (run_scopes run') \<and> (edge_private e \<longleftrightarrow> bd_edge b = SPN_DEP_EDGE_PRIVATE)"
proof -
  let ?ss = "run_scopes run" and ?root = "boundary_root b" and ?from = "bd_from b"
  let ?d = "inner_req (bd_req b)"
  let ?add = "\<lambda>s. s\<lparr>scope_reqs := scope_reqs s @ [?d]\<rparr>"
  have "extends Q ?ss (run_scopes run') \<and> b \<in> routed (run_scopes run') \<and>
    run_registry run' = run_registry run \<and> run_visited run' = run_visited run \<and>
    (\<exists>e. run_edges run' = run_edges run @ [e] \<and> edge_from e = i \<and>
       edge_to e < length (run_scopes run') \<and> (edge_private e \<longleftrightarrow> bd_edge b = SPN_DEP_EDGE_PRIVATE))"
  proof (cases "scope_index ?ss ?root ?from")
    case (Some t)
    note t = scope_index_bound [OF Some]
    have ss': "run_scopes run' = ?ss[t := ?add (?ss ! t)]"
      using Some by (simp add: run'_def process_boundary_def find_or_create_scope_def boundary_root_def
          inner_req_def Let_def)
    have gain: "gained Q (?ss ! t) (?add (?ss ! t))"
      using assms(3) unfolding gained_def by (intro exI [of _ "[?d]"]) simp
    have ext: "extends Q ?ss (run_scopes run')"
      using gain t by (simp add: extends_def ss' nth_list_update)
    have "scope_index (run_scopes run') ?root ?from = Some t"
      by (rule scope_index_prefix [OF Some extends_keys [OF ext]])
    then have "b \<in> routed (run_scopes run')" using t by (simp add: routed_def ss')
    then show ?thesis using ext Some t
      by (simp add: run'_def process_boundary_def find_or_create_scope_def boundary_root_def Let_def)
  next
    case None
    let ?new = "new_scope ?root ?from"
    have ss': "run_scopes run' = ?ss @ [?add ?new]"
      using None by (simp add: run'_def process_boundary_def find_or_create_scope_def boundary_root_def
          inner_req_def Let_def)
    have gain: "gained Q ?new (?add ?new)"
      using assms(3) unfolding gained_def by (intro exI [of _ "[?d]"]) simp
    have ext: "extends Q ?ss (run_scopes run')"
      using gain by (auto simp: extends_def ss' nth_append less_Suc_eq)
    have "scope_index (run_scopes run') ?root ?from = Some (length ?ss)"
      unfolding ss' by (rule scope_index_append [OF None]) (simp_all add: new_scope_def)
    then have "b \<in> routed (run_scopes run')" by (simp add: routed_def ss')
    then show ?thesis using ext None
      by (simp add: run'_def process_boundary_def find_or_create_scope_def boundary_root_def Let_def)
  qed
  then show "extends Q ?ss (run_scopes run')" "b \<in> routed (run_scopes run')"
    "run_registry run' = run_registry run" "run_visited run' = run_visited run"
    "\<exists>e. run_edges run' = run_edges run @ [e] \<and> edge_from e = i \<and>
       edge_to e < length (run_scopes run') \<and> (edge_private e \<longleftrightarrow> bd_edge b = SPN_DEP_EDGE_PRIVATE)"
    by blast+
qed

definition edges_in_range :: "spn_resolve_run_t \<Rightarrow> bool" where
  "edges_in_range run \<longleftrightarrow>
     (\<forall>e \<in> set (run_edges run).
        edge_from e < length (run_scopes run) \<and> edge_to e < length (run_scopes run))"

lemma edges_in_range_grow:
  assumes "edges_in_range run" "run_edges run' = run_edges run @ [e]"
    and "length (run_scopes run) \<le> length (run_scopes run')"
    and "edge_from e < length (run_scopes run')" "edge_to e < length (run_scopes run')"
  shows "edges_in_range run'"
  using assms by (fastforce simp: edges_in_range_def)

lemma process_fold_extends:
  assumes "i < length (run_scopes run)" "\<forall>b \<in> set bs. Q (inner_req (bd_req b))" "edges_in_range run"
  shows "extends Q (run_scopes run) (run_scopes (fold (process_boundary i) bs run)) \<and>
    set bs \<subseteq> routed (run_scopes (fold (process_boundary i) bs run)) \<and>
    run_registry (fold (process_boundary i) bs run) = run_registry run \<and>
    run_visited (fold (process_boundary i) bs run) = run_visited run \<and>
    edges_in_range (fold (process_boundary i) bs run)"
  using assms
proof (induction bs arbitrary: run)
  case (Cons b bs)
  let ?r = "process_boundary i b run"
  note one = process_boundary_extends [where Q = Q and run = run and b = b and i = i]
  have pre: "i < length (run_scopes run)" "Q (inner_req (bd_req b))" using Cons.prems by simp_all
  note one = one [OF pre]
  have len: "length (run_scopes run) \<le> length (run_scopes ?r)" using one(1) by (simp add: extends_def)
  obtain e where e: "run_edges ?r = run_edges run @ [e]" "edge_from e = i"
    "edge_to e < length (run_scopes ?r)" using one(5) by blast
  have edges: "edges_in_range ?r"
    by (rule edges_in_range_grow [OF Cons.prems(3) e(1) len]) (use e(2,3) pre(1) len in auto)
  have rest: "extends Q (run_scopes ?r) (run_scopes (fold (process_boundary i) bs ?r)) \<and>
    set bs \<subseteq> routed (run_scopes (fold (process_boundary i) bs ?r)) \<and>
    run_registry (fold (process_boundary i) bs ?r) = run_registry ?r \<and>
    run_visited (fold (process_boundary i) bs ?r) = run_visited ?r \<and>
    edges_in_range (fold (process_boundary i) bs ?r)"
    using Cons.prems pre(1) len edges by (intro Cons.IH) auto
  then have "b \<in> routed (run_scopes (fold (process_boundary i) bs ?r))"
    using one(2) extends_routed by blast
  then show ?case using rest one(1,3,4) extends_trans [OF one(1)] by auto
qed simp

section \<open>The invariant\<close>

definition scope_ok ::
    "runtime \<Rightarrow> sp_name set \<Rightarrow> spn_resolver_t \<Rightarrow> registry \<Rightarrow> spn_scope_boundary_t set \<Rightarrow> spn_scope_t \<Rightarrow> bool" where
  "scope_ok rt L resolver reg B s \<longleftrightarrow>
     distinct (ht_keys (scope_named s)) \<and> scope_cursor s \<le> length (scope_reqs s) \<and>
     scope_processes s = [] \<and> (\<forall>d \<in> set (scope_reqs s). req_ok rt L d) \<and>
     closed rt L resolver reg B Map.empty (ht_get (scope_named s)) \<and>
     (\<forall>d \<in> set (take (scope_cursor s) (scope_reqs s)).
        dep_met resolver reg B (ht_get (scope_named s)) root_node d)"

definition driver_inv :: "runtime \<Rightarrow> sp_name set \<Rightarrow> spn_resolver_t \<Rightarrow> spn_resolve_run_t \<Rightarrow> bool" where
  "driver_inv rt L resolver run \<longleftrightarrow>
     run_scopes run \<noteq> [] \<and> run_boundaries run = [] \<and> ht_get (run_visited run) = Map.empty \<and>
     registry_ok rt L (run_registry run) \<and> edges_in_range run \<and>
     (\<forall>s \<in> set (run_scopes run).
        scope_ok rt L resolver (run_registry run) (routed (run_scopes run)) s) \<and>
     (\<forall>j < length (run_scopes run). 0 < j \<longrightarrow> (\<forall>d \<in> set (scope_reqs (run_scopes run ! j)). plain_req d))"

lemma scope_ok_mono:
  assumes "scope_ok rt L resolver reg B s" "B \<subseteq> B'" "ht_get reg \<subseteq>\<^sub>m ht_get reg'"
    and "registry_ok rt L reg" "registry_ok rt L reg'"
  shows "scope_ok rt L resolver reg' B' s"
proof -
  have "closed rt L resolver reg' B' Map.empty (ht_get (scope_named s))"
    using closed_known [OF closed_mono_registry [OF _ assms(3-5)] assms(2,5)] assms(1)
    by (simp add: scope_ok_def)
  then show ?thesis
    using assms(1) dep_met_mono [OF _ root_registered assms(3-5) map_le_refl assms(2)]
    by (simp add: scope_ok_def)
qed

lemma scope_ok_gained:
  assumes "scope_ok rt L resolver reg B s" "gained Q s s'" "\<And>d. Q d \<Longrightarrow> req_ok rt L d"
  shows "scope_ok rt L resolver reg B s'"
proof -
  have "\<forall>d \<in> set (scope_reqs s'). req_ok rt L d"
    using assms(1,3) gained_fields(8)[OF assms(2)] by (auto simp: scope_ok_def)
  then show ?thesis using assms(1) gained_fields(2-4,6,7)[OF assms(2)]
    by (auto simp: scope_ok_def)
qed

lemma new_scope_ok: "scope_ok rt L resolver reg B (new_scope root from)"
  by (simp add: scope_ok_def new_scope_def closed_def)

section \<open>One scope\<close>

text \<open>The run when scope \<open>i\<close> is entered, and what solving it changes.\<close>

lemma driver_solver_inv:
  assumes "driver_inv rt L resolver run" "i < length (run_scopes run)"
  shows "solver_inv rt L (routed (run_scopes run)) resolver (run\<lparr>run_scope := i\<rparr>)"
proof -
  have "scope_ok rt L resolver (run_registry run) (routed (run_scopes run)) (run_scopes run ! i)"
    using assms by (simp add: driver_inv_def)
  then show ?thesis using assms
    by (simp add: solver_inv_def idx_ok_def driver_inv_def scope_ok_def known_def)
qed

definition solved_scopes ::
    "runtime \<Rightarrow> spn_resolve_run_t \<Rightarrow> nat \<Rightarrow> spn_resolve_run_t \<Rightarrow> bool" where
  "solved_scopes rt run i run' \<longleftrightarrow>
     run_scope run' = i \<and> run_edges run' = run_edges run \<and> run_forced run' = run_forced run \<and>
     run_retry run' = run_retry run \<and> run_result run' = run_result run \<and>
     length (run_scopes run') = length (run_scopes run) \<and>
     (\<forall>j < length (run_scopes run). j \<noteq> i \<longrightarrow> run_scopes run' ! j = run_scopes run ! j) \<and>
     scope_key (run_scopes run' ! i) = scope_key (run_scopes run ! i) \<and>
     scope_processes (run_scopes run' ! i) = scope_processes (run_scopes run ! i) \<and>
     scope_cursor (run_scopes run' ! i) = length (scope_reqs (run_scopes run ! i)) \<and>
     length (scope_reqs (run_scopes run' ! i)) = length (scope_reqs (run_scopes run ! i)) \<and>
     set (scope_reqs (run_scopes run' ! i)) = set (scope_reqs (run_scopes run ! i))"

lemma outer_fields:
  assumes "outer b = outer a" "idx_ok a"
  shows "run_scope b = run_scope a" "run_edges b = run_edges a" "run_forced b = run_forced a"
    "run_retry b = run_retry a" "run_result b = run_result a" "length (run_scopes b) = length (run_scopes a)"
    "j < length (run_scopes a) \<Longrightarrow> j \<noteq> run_scope a \<Longrightarrow> run_scopes b ! j = run_scopes a ! j"
    "erase_names (current_scope b) = erase_names (current_scope a)"
proof -
  have "run_scope (outer b) = run_scope (outer a)" "run_edges (outer b) = run_edges (outer a)"
    "run_forced (outer b) = run_forced (outer a)" "run_retry (outer b) = run_retry (outer a)"
    "run_result (outer b) = run_result (outer a)" and ss: "run_scopes (outer b) = run_scopes (outer a)"
    using assms(1) by simp_all
  then show f: "run_scope b = run_scope a" "run_edges b = run_edges a" "run_forced b = run_forced a"
    "run_retry b = run_retry a" "run_result b = run_result a"
    by (simp_all add: outer_def)
  have ss': "(run_scopes b)[run_scope a := erase_names (run_scopes b ! run_scope a)] =
      (run_scopes a)[run_scope a := erase_names (run_scopes a ! run_scope a)]"
    using ss f by (simp add: outer_def update_scope_def)
  then show len: "length (run_scopes b) = length (run_scopes a)" by (metis length_list_update)
  show "erase_names (current_scope b) = erase_names (current_scope a)"
    using arg_cong [OF ss', of "\<lambda>xs. xs ! run_scope a"] assms(2) len f by (simp add: idx_ok_def)
  show "j < length (run_scopes a) \<Longrightarrow> j \<noteq> run_scope a \<Longrightarrow> run_scopes b ! j = run_scopes a ! j"
    using arg_cong [OF ss', of "\<lambda>xs. xs ! j"] by simp
qed

lemma solved_scope_fields:
  assumes "rt_ok rt L" "i < length (run_scopes run)"
    and "scope_cursor (run_scopes run ! i) \<le> length (scope_reqs (run_scopes run ! i))"
    and "outer run' = outer (scope_start rt resolver (run\<lparr>run_scope := i\<rparr>))"
  shows "solved_scopes rt run i run'"
proof -
  let ?r = "run\<lparr>run_scope := i\<rparr>" and ?s = "run_scopes run ! i"
  let ?start = "scope_start rt resolver ?r"
  let ?reqs = "take (scope_cursor ?s) (scope_reqs ?s) @
      rt_sort_reqs rt (sort_req_canonical rt) (drop (scope_cursor ?s) (scope_reqs ?s))"
  have idx: "idx_ok ?start" using assms(2) by (simp add: scope_start_def Let_def idx_ok_def update_scope_def)
  note f = outer_fields [OF assms(4) idx]
  have start: "run_scopes ?start = (run_scopes run)
      [i := ?s\<lparr>scope_cursor := length (scope_reqs ?s), scope_reqs := ?reqs\<rparr>]"
    "run_scope ?start = i" "run_edges ?start = run_edges run" "run_forced ?start = run_forced run"
    "run_retry ?start = run_retry run" "run_result ?start = run_result run"
    by (simp_all add: scope_start_def Let_def update_scope_def)
  have m: "mset ?reqs = mset (scope_reqs ?s)"
    using assms(1) by (simp add: rt_ok_def) (metis append_take_drop_id mset_append)
  have "erase_names (run_scopes run' ! i) =
      erase_names (?s\<lparr>scope_cursor := length (scope_reqs ?s), scope_reqs := ?reqs\<rparr>)"
    using f(1,8) start assms(2) by simp
  then have "scope_key (run_scopes run' ! i) = scope_key ?s"
    "scope_processes (run_scopes run' ! i) = scope_processes ?s"
    "scope_cursor (run_scopes run' ! i) = length (scope_reqs ?s)"
    "scope_reqs (run_scopes run' ! i) = ?reqs"
    by (simp_all add: erase_names_def scope_key_def)
      (cases "run_scopes run' ! i"; cases ?s; simp)+
  then show ?thesis
    using f start assms(2) mset_eq_setD [OF m] mset_eq_length [OF m]
    by (simp add: solved_scopes_def)
qed

lemma routed_solved:
  assumes "solved_scopes rt run i run'"
  shows "routed (run_scopes run') = routed (run_scopes run)"
proof -
  let ?ss = "run_scopes run" and ?ss' = "run_scopes run'"
  have len: "length ?ss' = length ?ss" using assms by (simp add: solved_scopes_def)
  have same: "scope_key (?ss' ! j) = scope_key (?ss ! j) \<and>
      set (scope_reqs (?ss' ! j)) = set (scope_reqs (?ss ! j))" if "j < length ?ss" for j
    using assms that by (cases "j = i") (simp_all add: solved_scopes_def)
  have keys: "map scope_key ?ss' = map scope_key ?ss"
    using len same by (intro nth_equalityI) simp_all
  have "scope_index ?ss' r f = Some j \<longleftrightarrow> scope_index ?ss r f = Some j" for r f j
    using scope_index_prefix [of ?ss r f j ?ss'] scope_index_prefix [of ?ss' r f j ?ss] keys len
    by auto
  then show ?thesis using same scope_index_bound unfolding routed_def by blast
qed

lemma solved_scopes_ok:
  assumes inv: "driver_inv rt L resolver run" and i: "i < length (run_scopes run)"
    and fields: "solved_scopes rt run i run'"
    and solved: "solved rt L (routed (run_scopes run)) resolver
      (set (drop (scope_cursor (run_scopes run ! i)) (scope_reqs (run_scopes run ! i))))
      (scope_start rt resolver (run\<lparr>run_scope := i\<rparr>)) run'"
    and start: "cur_named (scope_start rt resolver (run\<lparr>run_scope := i\<rparr>)) = scope_named (run_scopes run ! i)"
      "run_registry (scope_start rt resolver (run\<lparr>run_scope := i\<rparr>)) = run_registry run"
      "run_visited (scope_start rt resolver (run\<lparr>run_scope := i\<rparr>)) = run_visited run"
  shows "\<forall>s \<in> set (run_scopes run').
    scope_ok rt L resolver (run_registry run') (known (routed (run_scopes run)) run') s"
proof
  let ?P = "routed (run_scopes run)" and ?s = "run_scopes run ! i" and ?s' = "run_scopes run' ! i"
  let ?B = "known ?P run'"
  fix s assume "s \<in> set (run_scopes run')"
  then obtain j where j: "j < length (run_scopes run)" "s = run_scopes run' ! j"
    using fields by (metis in_set_conv_nth solved_scopes_def)
  have B: "?P \<subseteq> ?B" by (simp add: known_def)
  have reg: "ht_get (run_registry run) \<subseteq>\<^sub>m ht_get (run_registry run')"
    "registry_ok rt L (run_registry run)" "registry_ok rt L (run_registry run')"
    using solved start inv by (simp_all add: solved_def solver_inv_def driver_inv_def)
  have ok: "scope_ok rt L resolver (run_registry run) ?P (run_scopes run ! j)"
    using inv j(1) by (simp add: driver_inv_def)
  show "scope_ok rt L resolver (run_registry run') ?B s"
  proof (cases "j = i")
    case False
    then have "s = run_scopes run ! j" using fields j by (simp add: solved_scopes_def)
    then show ?thesis using scope_ok_mono [OF ok B reg] by simp
  next
    case True
    have cur: "current_scope run' = ?s'" using fields by (simp add: solved_scopes_def)
    have named: "ht_get (scope_named ?s) \<subseteq>\<^sub>m ht_get (scope_named ?s')"
      using solved start(1) cur unfolding solved_def by simp
    have V: "ht_get (run_visited run') = Map.empty"
      using solved start(3) inv unfolding solved_def driver_inv_def by simp
    have closed: "closed rt L resolver (run_registry run') ?B Map.empty (ht_get (scope_named ?s'))"
      and keys: "distinct (ht_keys (scope_named ?s'))"
      using solved V cur unfolding solved_def solver_inv_def by simp_all
    have met: "dep_met resolver (run_registry run') ?B (ht_get (scope_named ?s')) root_node d"
      if d: "d \<in> set (scope_reqs ?s)" for d
    proof (cases "d \<in> set (take (scope_cursor ?s) (scope_reqs ?s))")
      case True
      then have "dep_met resolver (run_registry run) ?P (ht_get (scope_named ?s)) root_node d"
        using ok \<open>j = i\<close> by (simp add: scope_ok_def)
      then show ?thesis by (rule dep_met_mono [OF _ root_registered reg named B])
    next
      case False
      then have "d \<in> set (drop (scope_cursor ?s) (scope_reqs ?s))"
        using d by (metis Un_iff append_take_drop_id set_append)
      then show ?thesis using solved cur unfolding solved_def by simp
    qed
    show ?thesis
      using ok fields closed keys met True j(2)
      by (auto simp: scope_ok_def solved_scopes_def)
  qed
qed

lemma commit_scope_simps [simp]:
  "run_scopes (commit_scope rt run) = run_scopes run"
  "run_boundaries (commit_scope rt run) = run_boundaries run"
  "run_edges (commit_scope rt run) = run_edges run"
  "run_registry (commit_scope rt run) = run_registry run"
  "run_visited (commit_scope rt run) = run_visited run"
  "run_scope (commit_scope rt run) = run_scope run"
  by (simp_all add: commit_scope_def)

lemma scope_index_inj: "scope_index ss r f = Some j \<Longrightarrow> scope_root (ss ! j) = r"
  by (induction ss arbitrary: j) (auto split: if_splits)

lemma driver_step:
  assumes rt: "rt_ok rt L" and inv: "driver_inv rt L resolver run" and i: "i < length (run_scopes run)"
    and solve: "resolve_scope rt resolver fuel (run\<lparr>run_scope := i\<rparr>) = Some (None, run')"
  defines "run2 \<equiv> process_boundaries (commit_scope rt run')"
  shows "driver_inv rt L resolver run2" "solved_scopes rt run i run'"
    "extends (\<lambda>d. req_ok rt L d \<and> plain_req d) (run_scopes run') (run_scopes run2)"
    "ht_get (run_registry run) \<subseteq>\<^sub>m ht_get (run_registry run2)"
    "ht_get (scope_named (run_scopes run ! i)) \<subseteq>\<^sub>m ht_get (scope_named (run_scopes run' ! i))"
    "\<forall>b \<in> set (run_boundaries run'). sourced_at rt L resolver (ht_get (scope_named (run_scopes run ! i)))
       Map.empty (ht_get (scope_named (run_scopes run' ! i))) (run_registry run') b"
proof -
  let ?r = "run\<lparr>run_scope := i\<rparr>" and ?P = "routed (run_scopes run)" and ?s = "run_scopes run ! i"
  let ?Q = "\<lambda>d. req_ok rt L d \<and> plain_req d"
  have ok: "scope_ok rt L resolver (run_registry run) ?P ?s" using inv i by (simp add: driver_inv_def)
  have sinv: "solver_inv rt L ?P resolver ?r" by (rule driver_solver_inv [OF inv i])
  have cursor: "scope_cursor (current_scope ?r) \<le> length (scope_reqs (current_scope ?r))"
    using ok by (simp add: scope_ok_def)
  have reqs: "\<forall>d \<in> set (new_reqs ?r). req_ok rt L d" using ok by (auto simp: scope_ok_def dest: in_set_dropD)
  note st = scope_start_inv [OF rt sinv cursor]
  have solved: "solved rt L ?P resolver (set (drop (scope_cursor ?s) (scope_reqs ?s)))
      (scope_start rt resolver ?r) run'"
    using resolve_scope_post [OF rt sinv cursor reqs solve] by simp
  have start: "cur_named (scope_start rt resolver ?r) = scope_named ?s"
    "run_registry (scope_start rt resolver ?r) = run_registry run"
    "run_visited (scope_start rt resolver ?r) = run_visited run"
    using st(2-4) by simp_all
  show fields: "solved_scopes rt run i run'"
    using solved cursor by (intro solved_scope_fields [OF rt i]) (simp_all add: solved_def)
  have cur: "current_scope run' = run_scopes run' ! i" using fields by (simp add: solved_scopes_def)
  have V0: "ht_get (run_visited run) = Map.empty" using inv unfolding driver_inv_def by blast
  obtain bs where bs: "run_boundaries run' = run_boundaries run @ bs"
    "\<forall>b \<in> set bs. sourced rt L resolver (ht_get (scope_named ?s)) Map.empty run' b"
    using solved st(8) start V0 unfolding solved_def by (auto simp: )
  show src: "\<forall>b \<in> set (run_boundaries run'). sourced_at rt L resolver (ht_get (scope_named ?s))
       Map.empty (ht_get (scope_named (run_scopes run' ! i))) (run_registry run') b"
    using bs inv cur by (simp add: driver_inv_def)
  show "ht_get (scope_named ?s) \<subseteq>\<^sub>m ht_get (scope_named (run_scopes run' ! i))"
    using solved start(1) cur unfolding solved_def by simp
  let ?c = "commit_scope rt run'"
  have edges: "edges_in_range ?c" using inv fields by (simp add: driver_inv_def solved_scopes_def edges_in_range_def)
  have i': "i < length (run_scopes ?c)" using i fields by (simp add: solved_scopes_def)
  have Q: "\<forall>b \<in> set (run_boundaries run'). ?Q (inner_req (bd_req b))"
    using src by (simp add: sourced_at_def)
  let ?f = "fold (process_boundary i) (run_boundaries run') ?c"
  note ext = process_fold_extends [where Q = ?Q, OF i' Q edges]
  have run2: "run2 = ?f\<lparr>run_boundaries := []\<rparr>"
    using fields by (simp add: run2_def process_boundaries_def solved_scopes_def)
  show ext2: "extends ?Q (run_scopes run') (run_scopes run2)" using ext run2 by simp
  have reg2: "run_registry run2 = run_registry run'" using ext run2 by simp
  have vis2: "run_visited run2 = run_visited run'" using ext run2 by simp
  have V2: "ht_get (run_visited run2) = Map.empty"
    using solved start(3) V0 unfolding solved_def vis2 by simp
  show "ht_get (run_registry run) \<subseteq>\<^sub>m ht_get (run_registry run2)"
    using solved start(2) reg2 by (simp add: solved_def)
  have B: "known ?P run' \<subseteq> routed (run_scopes run2)"
    using ext run2 extends_routed [OF ext2] routed_solved [OF fields] by (auto simp: known_def)
  have regok: "registry_ok rt L (run_registry run')" using solved by (simp add: solved_def solver_inv_def)
  have all: "\<forall>s \<in> set (run_scopes run'). scope_ok rt L resolver (run_registry run') (known ?P run') s"
    by (rule solved_scopes_ok [OF inv i fields solved start])
  have scopes: "scope_ok rt L resolver (run_registry run2) (routed (run_scopes run2)) (run_scopes run2 ! j)
      \<and> (0 < j \<longrightarrow> (\<forall>d \<in> set (scope_reqs (run_scopes run2 ! j)). plain_req d))"
    if j: "j < length (run_scopes run2)" for j
  proof (cases "j < length (run_scopes run')")
    case True
    then have g: "gained ?Q (run_scopes run' ! j) (run_scopes run2 ! j)" using ext2 by (simp add: extends_def)
    have "scope_ok rt L resolver (run_registry run') (routed (run_scopes run2)) (run_scopes run' ! j)"
      using scope_ok_mono [OF _ B map_le_refl regok regok] all True by simp
    then have "scope_ok rt L resolver (run_registry run2) (routed (run_scopes run2)) (run_scopes run2 ! j)"
      using scope_ok_gained [OF _ g] reg2 by simp
    moreover have "plain_req d" if "0 < j" "d \<in> set (scope_reqs (run_scopes run2 ! j))" for d
    proof -
      have "d \<in> set (scope_reqs (run_scopes run' ! j)) \<or> plain_req d"
        using gained_fields(8)[OF g that(2)] by blast
      moreover have "set (scope_reqs (run_scopes run' ! j)) = set (scope_reqs (run_scopes run ! j))"
        using fields True by (cases "j = i") (simp_all add: solved_scopes_def)
      moreover have "j < length (run_scopes run)" using True fields by (simp add: solved_scopes_def)
      ultimately show ?thesis using inv that(1) unfolding driver_inv_def by blast
    qed
    ultimately show ?thesis by blast
  next
    case False
    then obtain root fr where g: "gained ?Q (new_scope root fr) (run_scopes run2 ! j)"
      using ext2 j unfolding extends_def by (meson not_le)
    have "\<forall>d \<in> set (scope_reqs (run_scopes run2 ! j)). plain_req d"
      using gained_fields(8)[OF g] by (auto simp: new_scope_def)
    then show ?thesis using scope_ok_gained [OF new_scope_ok g] by simp
  qed
  have "run_scopes run2 \<noteq> []" using ext2 i fields by (auto simp: extends_def solved_scopes_def)
  moreover have "edges_in_range run2" using ext run2 by (simp add: edges_in_range_def)
  moreover have "\<forall>s \<in> set (run_scopes run2).
      scope_ok rt L resolver (run_registry run2) (routed (run_scopes run2)) s"
    using scopes by (metis in_set_conv_nth)
  ultimately show "driver_inv rt L resolver run2"
    using V2 regok scopes reg2 run2 unfolding driver_inv_def by simp
qed

text \<open>A scope that fails leaves the retries alone, and a registry that a retry can use.\<close>

lemma outer_retry: "outer b = outer a \<Longrightarrow> run_retry b = run_retry a"
  by (drule arg_cong [of _ _ run_retry]) (simp add: outer_def)

lemma step_retry:
  "step rt L P resolver run run' \<Longrightarrow> run_retry run' = run_retry run \<and> solver_inv rt L P resolver run'"
  by (simp add: step_def frame_def)

lemma resolve_scope_retry:
  assumes rt: "rt_ok rt L" and inv: "solver_inv rt L P resolver run"
    and cursor: "scope_cursor (current_scope run) \<le> length (scope_reqs (current_scope run))"
    and reqs: "\<forall>d \<in> set (new_reqs run). req_ok rt L d"
    and ret: "resolve_scope rt resolver fuel run = Some (Some e, run')"
  shows "run_retry run' = run_retry run \<and> solver_inv rt L P resolver run'"
proof -
  define fr where "fr = scope_cursor (current_scope run)"
  define to where "to = length (scope_reqs (current_scope run))"
  define start where "start = scope_start rt resolver run"
  note st = scope_start_inv [OF rt inv cursor, folded fr_def to_def start_def]
  have retry: "run_retry start = run_retry run"
    by (simp add: start_def scope_start_def Let_def update_scope_def)
  have preqs: "\<forall>d \<in> set (pending_reqs fr to start). req_ok rt L d"
    using reqs st(7) by (simp add: fr_def)
  have pins: "settled_same rt L P resolver start (set_pins ps start)" for ps
    by (rule settled_pins [OF st(1)])
  have pinv: "solver_inv rt L P resolver (set_pins ps start)"
    and ppend: "pending_reqs fr to (set_pins ps start) = pending_reqs fr to start"
    and pretry: "run_retry (set_pins ps start) = run_retry run" for ps
    using pins [of ps] outer_retry [of "set_pins ps start" start] retry
    by (simp_all add: settled_same_def)
  have preqs': "\<forall>d \<in> set (pending_reqs fr to (set_pins ps start)). req_ok rt L d" for ps
    using preqs by (simp only: ppend)
  have searched: "solver_inv rt L P resolver run2 \<and> run_retry run2 = run_retry run \<and>
      pending_reqs fr to run2 = pending_reqs fr to start"
    if att: "attempt_reqs rt resolver fuel fr to True None (set_pins ps start) = Some ((Some e', w), run1)"
      and keep: "keep_pins rt resolver fuel fr to qs (Some None) (set_pins [] run1) = Some ((err, w'), run2)"
    for ps e' w run1 qs err w' run2
  proof -
    note post = attempt_reqs_post [OF rt pinv preqs' att]
    have "settled_same rt L P resolver (set_pins ps start) run1"
      using settled_step [OF pinv post(1)] post(3) by simp
    then have s1: "settled_same rt L P resolver start run1" by (rule settled_same_trans [OF pins])
    then have inv1: "solver_inv rt L P resolver run1" by (simp add: settled_same_def)
    have s1': "settled_same rt L P resolver start (set_pins [] run1)"
      by (rule settled_same_trans [OF s1 settled_pins [OF inv1]])
    then have inv1': "solver_inv rt L P resolver (set_pins [] run1)"
      and pend1: "pending_reqs fr to (set_pins [] run1) = pending_reqs fr to start"
      by (simp_all add: settled_same_def)
    have "settled_same rt L P resolver (set_pins [] run1) run2"
      using keep_pins_post [OF rt inv1' _ _ _ keep] preqs unfolding pend1 by simp
    then have "settled_same rt L P resolver start run2" by (rule settled_same_trans [OF s1'])
    then show ?thesis using outer_retry [of run2 start] retry by (simp add: settled_same_def)
  qed
  from ret show ?thesis
  proof (cases rule: resolve_scope_cases)
    case plain
    then show ?thesis using step_retry [OF solve_reqs_post(1)[OF rt st(1) preqs plain [folded fr_def to_def start_def]]] retry by simp
  next
    case (pinned ps w run1)
    then show ?thesis
      using step_retry [OF attempt_reqs_post(1)[OF rt pinv preqs' pinned(1) [folded fr_def to_def start_def]]] pretry by simp
  next
    case s: (searched ps e' w run1 qs w' run2)
    then show ?thesis using searched [OF s(1,2) [folded fr_def to_def start_def]] by blast
  next
    case (witness ps e' w run1 qs wit run2)
    then show ?thesis by simp
  next
    case (dropped ps e' w run1 qs w' run2)
    note s = searched [OF dropped(1,2) [folded fr_def to_def start_def]]
    have "\<forall>d \<in> set (pending_reqs fr to run2). req_ok rt L d" using preqs s by simp
    then show ?thesis using step_retry [OF solve_reqs_post(1)[OF rt _ _ dropped(3) [folded fr_def to_def start_def]]] s by metis
  qed
qed

section \<open>The loops\<close>

definition later :: "spn_resolve_run_t \<Rightarrow> spn_resolve_run_t \<Rightarrow> bool" where
  "later run run' \<longleftrightarrow>
     length (run_scopes run) \<le> length (run_scopes run') \<and>
     (\<forall>j < length (run_scopes run).
        scope_key (run_scopes run' ! j) = scope_key (run_scopes run ! j) \<and>
        set (scope_reqs (run_scopes run ! j)) \<subseteq> set (scope_reqs (run_scopes run' ! j))) \<and>
     ht_get (run_registry run) \<subseteq>\<^sub>m ht_get (run_registry run') \<and> run_retry run' = run_retry run"

lemma process_boundary_retry: "run_retry (process_boundary i b run) = run_retry run"
  by (simp add: process_boundary_def find_or_create_scope_def Let_def split: option.splits)

lemma process_boundaries_retry: "run_retry (process_boundaries (commit_scope rt run)) = run_retry run"
proof -
  have "run_retry (fold (process_boundary i) bs r) = run_retry r" for i bs and r :: spn_resolve_run_t
    by (induction bs arbitrary: r) (simp_all add: process_boundary_retry)
  then show ?thesis by (simp add: process_boundaries_def commit_scope_def)
qed

lemma later_refl [simp]: "later run run"
  by (simp add: later_def)

lemma later_trans: "later a b \<Longrightarrow> later b c \<Longrightarrow> later a c"
  unfolding later_def by (auto intro: map_le_trans) (meson less_le_trans subsetD)+

lemma driver_step_later:
  assumes "rt_ok rt L" "driver_inv rt L resolver run" "i < length (run_scopes run)"
    and "resolve_scope rt resolver fuel (run\<lparr>run_scope := i\<rparr>) = Some (None, run')"
  shows "later run (process_boundaries (commit_scope rt run'))"
proof -
  let ?run2 = "process_boundaries (commit_scope rt run')"
  note step = driver_step [OF assms]
  have len: "length (run_scopes run') = length (run_scopes run)" using step(2) by (simp add: solved_scopes_def)
  have "scope_key (run_scopes ?run2 ! j) = scope_key (run_scopes run ! j) \<and>
      set (scope_reqs (run_scopes run ! j)) \<subseteq> set (scope_reqs (run_scopes ?run2 ! j))"
    if j: "j < length (run_scopes run)" for j
  proof -
    have g: "gained (\<lambda>d. req_ok rt L d \<and> plain_req d) (run_scopes run' ! j) (run_scopes ?run2 ! j)"
      using step(3) j len by (simp add: extends_def)
    have "scope_key (run_scopes run' ! j) = scope_key (run_scopes run ! j) \<and>
        set (scope_reqs (run_scopes run' ! j)) = set (scope_reqs (run_scopes run ! j))"
      using step(2) j by (cases "j = i") (simp_all add: solved_scopes_def)
    then show ?thesis using gained_fields(1,5)[OF g] by simp
  qed
  then show ?thesis using step(2,3,4) len
    by (simp add: later_def extends_def process_boundaries_retry solved_scopes_def)
qed

definition done_from :: "nat \<Rightarrow> spn_resolve_run_t \<Rightarrow> bool" where
  "done_from i run \<longleftrightarrow>
     (\<forall>j < length (run_scopes run). i \<le> j \<longrightarrow>
        scope_cursor (run_scopes run ! j) = length (scope_reqs (run_scopes run ! j)))"

definition sweep_post ::
    "runtime \<Rightarrow> sp_name set \<Rightarrow> spn_resolver_t \<Rightarrow> nat \<Rightarrow> bool \<Rightarrow> spn_resolve_run_t \<Rightarrow>
     (resolve_err option \<times> bool) \<times> spn_resolve_run_t \<Rightarrow> bool" where
  "sweep_post rt L resolver i progress run res \<longleftrightarrow>
     (case res of ((err, progress'), run') \<Rightarrow>
        driver_inv rt L resolver run \<longrightarrow> run_retry run' = run_retry run \<and>
          registry_ok rt L (run_registry run') \<and>
          (err = None \<longrightarrow> driver_inv rt L resolver run' \<and> later run run' \<and>
             (\<not> progress' \<longrightarrow> \<not> progress \<and> run' = run \<and> done_from i run)))"

lemma sweep_scopes_post:
  assumes rt: "rt_ok rt L" and ret: "sweep_scopes rt resolver fuel i progress run = Some res"
  shows "sweep_post rt L resolver i progress run res"
proof -
  have "rt' = rt \<and> resolver' = resolver \<and> fuel' = fuel \<longrightarrow> sweep_post rt L resolver i progress run res"
    if "sweep_scopes rt' resolver' fuel' i progress run = Some res" for rt' resolver' fuel'
  proof (rule sweep_scopes.raw_induct [where P = "\<lambda>rt' resolver' fuel' i progress run res.
      rt' = rt \<and> resolver' = resolver \<and> fuel' = fuel \<longrightarrow> sweep_post rt L resolver i progress run res", OF _ that])
    fix f rt' resolver' fuel' i progress run res
    assume IH: "\<And>rt' resolver' fuel' i progress run res. f rt' resolver' fuel' i progress run = Some res \<Longrightarrow>
        rt' = rt \<and> resolver' = resolver \<and> fuel' = fuel \<longrightarrow> sweep_post rt L resolver i progress run res"
      and eq: "(if length (run_scopes run) \<le> i then Some ((None, progress), run)
       else if scope_cursor (run_scopes run ! i) = length (scope_reqs (run_scopes run ! i)) then
         f rt' resolver' fuel' (i + 1) progress run
       else resolve_scope rt' resolver' fuel' (run\<lparr>run_scope := i\<rparr>) \<bind>
         (\<lambda>(err, run). if err \<noteq> None then Some ((err, True), run)
            else f rt' resolver' fuel' (i + 1) True (process_boundaries (commit_scope rt' run)))) = Some res"
    show "rt' = rt \<and> resolver' = resolver \<and> fuel' = fuel \<longrightarrow> sweep_post rt L resolver i progress run res"
    proof
      assume same: "rt' = rt \<and> resolver' = resolver \<and> fuel' = fuel"
      show "sweep_post rt L resolver i progress run res"
      proof (cases "length (run_scopes run) \<le> i")
        case True
        then show ?thesis using eq by (auto simp: sweep_post_def done_from_def driver_inv_def)
      next
        case inside: False
        show ?thesis
        proof (cases "scope_cursor (run_scopes run ! i) = length (scope_reqs (run_scopes run ! i))")
          case True
          then have "sweep_post rt L resolver (i + 1) progress run res" using IH eq same inside by simp
          then show ?thesis using True
            by (auto simp: sweep_post_def done_from_def Suc_le_eq le_less split: prod.splits)
        next
          case False
          then obtain err run1 where solve:
            "resolve_scope rt resolver fuel (run\<lparr>run_scope := i\<rparr>) = Some (err, run1)"
            and cont: "if err \<noteq> None then Some ((err, True), run1) = Some res
              else f rt resolver fuel (i + 1) True (process_boundaries (commit_scope rt run1)) = Some res"
            using eq same inside by (auto split: bind_splits if_splits)
          show ?thesis
          proof (cases err)
            case None
            let ?run2 = "process_boundaries (commit_scope rt run1)"
            have post: "sweep_post rt L resolver (i + 1) True ?run2 res" using IH cont None by simp
            obtain err' p' run' where res: "res = ((err', p'), run')" by (metis prod.exhaust)
            have goal: "run_retry run' = run_retry run \<and> registry_ok rt L (run_registry run') \<and> (err' = None \<longrightarrow>
                driver_inv rt L resolver run' \<and> later run run' \<and> p')"
              if inv: "driver_inv rt L resolver run"
            proof -
              have i: "i < length (run_scopes run)" using inside by simp
              have lat: "later run ?run2" by (rule driver_step_later [OF rt inv i solve [unfolded None]])
              have "run_retry run' = run_retry ?run2 \<and> registry_ok rt L (run_registry run') \<and> (err' = None \<longrightarrow>
                  driver_inv rt L resolver run' \<and> later ?run2 run' \<and> p')"
                using post res driver_step(1) [OF rt inv i solve [unfolded None]]
                unfolding sweep_post_def by auto
              then show ?thesis using lat later_trans [OF lat] by (simp add: later_def [of run ?run2])
            qed
            then show ?thesis using res by (simp add: sweep_post_def)
          next
            case (Some e)
            have "run_retry run1 = run_retry run \<and> registry_ok rt L (run_registry run1)"
              if inv: "driver_inv rt L resolver run"
            proof -
              have i: "i < length (run_scopes run)" using inside by simp
              have ok: "scope_ok rt L resolver (run_registry run) (routed (run_scopes run)) (run_scopes run ! i)"
                using inv i by (simp add: driver_inv_def)
              have "run_retry run1 = run_retry (run\<lparr>run_scope := i\<rparr>) \<and>
                  solver_inv rt L (routed (run_scopes run)) resolver run1"
                by (rule resolve_scope_retry [OF rt driver_solver_inv [OF inv i] _ _ solve [unfolded Some]])
                  (use ok in \<open>auto simp: scope_ok_def dest: in_set_dropD\<close>)
              then show ?thesis by (simp add: solver_inv_def)
            qed
            then show ?thesis using cont Some by (auto simp: sweep_post_def)
          qed
        qed
      qed
    qed
  qed
  then show ?thesis using ret by blast
qed

definition solve_post ::
    "runtime \<Rightarrow> sp_name set \<Rightarrow> spn_resolver_t \<Rightarrow> spn_resolve_run_t \<Rightarrow>
     resolve_err option \<times> spn_resolve_run_t \<Rightarrow> bool" where
  "solve_post rt L resolver run res \<longleftrightarrow>
     (case res of (err, run') \<Rightarrow>
        driver_inv rt L resolver run \<longrightarrow> run_retry run' = run_retry run \<and>
          registry_ok rt L (run_registry run') \<and>
          (err = None \<longrightarrow> driver_inv rt L resolver run' \<and> later run run' \<and> done_from 0 run'))"

lemma solve_scopes_post:
  assumes rt: "rt_ok rt L" and ret: "solve_scopes rt resolver fuel run = Some res"
  shows "solve_post rt L resolver run res"
proof -
  have "rt' = rt \<and> resolver' = resolver \<and> fuel' = fuel \<longrightarrow> solve_post rt L resolver run res"
    if "solve_scopes rt' resolver' fuel' run = Some res" for rt' resolver' fuel'
  proof (rule solve_scopes.raw_induct [where P = "\<lambda>rt' resolver' fuel' run res.
      rt' = rt \<and> resolver' = resolver \<and> fuel' = fuel \<longrightarrow> solve_post rt L resolver run res", OF _ that])
    fix f rt' resolver' fuel' run res
    assume IH: "\<And>rt' resolver' fuel' run res. f rt' resolver' fuel' run = Some res \<Longrightarrow>
        rt' = rt \<and> resolver' = resolver \<and> fuel' = fuel \<longrightarrow> solve_post rt L resolver run res"
      and eq: "sweep_scopes rt' resolver' fuel' 0 False run \<bind>
         (\<lambda>((err, progress), run). if err \<noteq> None then Some (err, run)
            else if progress then f rt' resolver' fuel' run else Some (None, run)) = Some res"
    show "rt' = rt \<and> resolver' = resolver \<and> fuel' = fuel \<longrightarrow> solve_post rt L resolver run res"
    proof
      assume same: "rt' = rt \<and> resolver' = resolver \<and> fuel' = fuel"
      then obtain err p run1 where sweep: "sweep_scopes rt resolver fuel 0 False run = Some ((err, p), run1)"
        and cont: "if err \<noteq> None then Some (err, run1) = Some res
          else if p then f rt resolver fuel run1 = Some res else Some (None, run1) = Some res"
        using eq by (auto split: bind_splits if_splits)
      have post: "sweep_post rt L resolver 0 False run ((err, p), run1)"
        by (rule sweep_scopes_post [OF rt sweep])
      show "solve_post rt L resolver run res"
      proof (cases "err = None \<and> p")
        case True
        then have *: "solve_post rt L resolver run1 res" using IH cont by simp
        obtain err' run' where res: "res = (err', run')" by (cases res)
        have "run_retry run' = run_retry run \<and> registry_ok rt L (run_registry run') \<and> (err' = None \<longrightarrow>
            driver_inv rt L resolver run' \<and> later run run' \<and> done_from 0 run')"
          if inv: "driver_inv rt L resolver run"
        proof -
          have "driver_inv rt L resolver run1" "later run run1"
            using post True inv by (simp_all add: sweep_post_def)
          then show ?thesis using * res later_trans [of run run1 run']
            by (simp add: solve_post_def later_def [of run run1])
        qed
        then show ?thesis using res by (simp add: solve_post_def)
      next
        case False
        then show ?thesis using post cont by (auto simp: solve_post_def sweep_post_def split: if_splits)
      qed
    qed
  qed
  then show ?thesis using ret by blast
qed

end
