(* ===== verification/Resolve_Sound.thy ===== *)
theory Resolve_Sound
  imports Resolve_Driver
begin

text \<open>
  The result of a successful solve: every dependency that counts and every request has its
  package in the result, at an admitted version.
\<close>

section \<open>The scopes when the loops stop\<close>

lemma node_plain_provenance:
  assumes "traps_free rt resolver" "provenance rt reg node"
  shows "node_plain node"
proof (cases "origin_release (pkg_origin node)")
  case (Some r)
  then obtain pkg where "rt_get_package rt (rel_id r) = Inr (Some pkg)" "r \<in> set (ipkg_releases pkg)"
    using assms(2) by (auto simp: provenance_def)
  then have "\<forall>t \<in> set (rel_targets r). SPN_LIB_KIND_NONE \<notin> set (itarget_linkages t)"
    using assms(1) unfolding traps_free_def by blast
  then show ?thesis using Some by (simp add: node_plain_def)
qed (simp add: node_plain_def)

lemma driver_node:
  assumes "driver_inv rt L resolver run" "group_node run k = Some node"
  shows "node_ok rt L (run_registry run) node" "id_qualified (pkg_id node) = snd k"
    "d \<in> set (pkg_deps node) \<Longrightarrow> dep_met resolver (run_registry run) (routed (run_scopes run))
       (ht_get (scope_named (run_scopes run ! fst k))) node d"
proof -
  have k: "fst k < length (run_scopes run)"
    "ht_get (scope_named (run_scopes run ! fst k)) (snd k) = Some node"
    using assms(2) by (simp_all add: group_node_def split: if_splits)
  then have "closed rt L resolver (run_registry run) (routed (run_scopes run)) Map.empty
      (ht_get (scope_named (run_scopes run ! fst k)))"
    using assms(1) by (simp add: driver_inv_def scope_ok_def)
  then show "node_ok rt L (run_registry run) node" "id_qualified (pkg_id node) = snd k"
    "d \<in> set (pkg_deps node) \<Longrightarrow> dep_met resolver (run_registry run) (routed (run_scopes run))
       (ht_get (scope_named (run_scopes run ! fst k))) node d"
    using k(2) unfolding closed_def by blast+
qed

lemma driver_edges_known:
  assumes "traps_free rt resolver" "driver_inv rt L resolver run"
  shows "edges_known resolver run" "shared_known resolver run"
proof -
  have plain: "node_plain node" if "group_node run k = Some node" for k node
    using node_plain_provenance [OF assms(1)] driver_node(1)[OF assms(2) that] unfolding node_ok_def by blast
  then show "edges_known resolver run"
    unfolding edges_known_def using classify_some [OF assms(1)] by blast
  show "shared_known resolver run"
    unfolding shared_known_def
  proof (intro allI impI)
    fix k node assume "group_node run k = Some node"
    from classify_some [OF assms(1) plain [OF this], of "run_registry run"
        "\<lparr>req_qualified = [], req_target = ReqRoot, req_kind = SPN_DEP_KIND_PACKAGE, req_private = True,
          req_when = w, req_options = w\<rparr>" for w]
    show "node_is_shared resolver (run_registry run) node \<noteq> None"
      by (auto simp: classify_dep_def bind_eq_Some_conv)
  qed
qed

text \<open>A request of a scope whose requests are all consumed.\<close>

definition admits :: "spn_requested_dep_t \<Rightarrow> spn_semver_t \<Rightarrow> bool" where
  "admits d v \<longleftrightarrow> (\<forall>r. req_target d = ReqIndex r \<longrightarrow> spn_semver_in_range v r)"

lemma dep_met_scope:
  "dep_met resolver reg B N node d \<Longrightarrow> classify_dep resolver reg node d = Some SPN_DEP_EDGE_SCOPE \<Longrightarrow>
   \<exists>p. N (Some (req_qualified d)) = Some p \<and> admits d (id_version (pkg_id p))"
  by (simp add: dep_met_def admits_def)

lemma dep_met_boundary:
  "dep_met resolver reg B N node d \<Longrightarrow> classify_dep resolver reg node d = Some edge \<Longrightarrow>
   edge \<noteq> SPN_DEP_EDGE_SCOPE \<Longrightarrow> edge \<noteq> SPN_DEP_EDGE_PRUNED \<Longrightarrow> boundary_of node edge d \<in> B"
  by (cases edge) (simp_all add: dep_met_def)

lemma done_request:
  assumes "driver_inv rt L resolver run" "done_from 0 run" "i < length (run_scopes run)"
    and "d \<in> set (scope_reqs (run_scopes run ! i))"
  shows "dep_met resolver (run_registry run) (routed (run_scopes run))
      (ht_get (scope_named (run_scopes run ! i))) root_node d"
  using assms by (simp add: driver_inv_def scope_ok_def done_from_def)

text \<open>A routed boundary leads to a scope that has its package.\<close>

lemma routed_target:
  assumes "driver_inv rt L resolver run" "done_from 0 run" "b \<in> routed (run_scopes run)"
  shows "\<exists>i p. find_scope run (boundary_root b) (bd_from b) = Some i \<and>
    group_node run (i, Some (req_qualified (bd_req b))) = Some p \<and> admits (bd_req b) (id_version (pkg_id p))"
proof -
  obtain i where i: "scope_index (run_scopes run) (boundary_root b) (bd_from b) = Some i"
    "inner_req (bd_req b) \<in> set (scope_reqs (run_scopes run ! i))"
    using assms(3) by (auto simp: routed_def)
  note bound = scope_index_bound [OF i(1)]
  obtain p where "ht_get (scope_named (run_scopes run ! i)) (Some (req_qualified (bd_req b))) = Some p"
    "admits (inner_req (bd_req b)) (id_version (pkg_id p))"
    using dep_met_scope [OF done_request [OF assms(1,2) bound i(2)] classify_plain] by auto
  then show ?thesis using i(1) bound
    by (intro exI [of _ i] exI [of _ p]) (simp add: find_scope_def group_node_def admits_def)
qed

lemma node_edge_complete:
  assumes "driver_inv rt L resolver run" "done_from 0 run" "group_node run k = Some node"
    and "dep \<in> set (pkg_deps node)" "classify_dep resolver (run_registry run) node dep = Some edge"
    and "edge \<noteq> SPN_DEP_EDGE_PRUNED"
  shows "\<exists>e. node_edge resolver run (fst k) node dep = Some (Some e) \<and>
    ne_name e = Some (req_qualified dep) \<and> ne_kind e = req_kind dep \<and> ne_private e = req_private dep \<and>
    admits dep (id_version (pkg_id (ne_node e)))"
proof (cases "edge = SPN_DEP_EDGE_SCOPE")
  case True
  obtain p where "ht_get (scope_named (run_scopes run ! fst k)) (Some (req_qualified dep)) = Some p"
    "admits dep (id_version (pkg_id p))"
    using dep_met_scope [OF driver_node(3)[OF assms(1,3,4)]] assms(5) True by blast
  then show ?thesis using assms(5) True by (simp add: node_edge_def Let_def)
next
  case False
  let ?b = "boundary_of node edge dep"
  have "?b \<in> routed (run_scopes run)"
    by (rule dep_met_boundary [OF driver_node(3)[OF assms(1,3,4)] assms(5) False assms(6)])
  from routed_target [OF assms(1,2) this] obtain i p where
    "find_scope run (boundary_root ?b) (pkg_id node) = Some i"
    "group_node run (i, Some (req_qualified dep)) = Some p" "admits dep (id_version (pkg_id p))"
    by (auto simp: boundary_of_def)
  then show ?thesis using assms(5,6) False
    by (auto simp: node_edge_def Let_def boundary_of_def boundary_root_def group_node_def
        split: if_splits)
qed

lemma collect_edges_complete:
  assumes "collect_edges resolver run s node deps edges = Some es"
  shows "set edges \<subseteq> set es \<and>
    (\<forall>d \<in> set deps. \<forall>e. node_edge resolver run s node d = Some (Some e) \<longrightarrow>
       (\<exists>e' \<in> set es. edge_present e e'))"
  using assms
proof (induction deps arbitrary: edges)
  case (Cons dep deps)
  obtain found where found: "node_edge resolver run s node dep = Some found"
    and rest: "collect_edges resolver run s node deps
      (case found of None \<Rightarrow> edges
       | Some e \<Rightarrow> if list_ex (edge_present e) edges then edges else edges @ [e]) = Some es"
    using Cons.prems by (auto split: bind_splits)
  note IH = Cons.IH [OF rest]
  have sub: "set edges \<subseteq> set es" using IH by (auto split: option.splits if_splits)
  moreover have "\<exists>e' \<in> set es. edge_present e e'" if "found = Some e" for e
  proof (cases "list_ex (edge_present e) edges")
    case True
    then show ?thesis using sub by (auto simp: list_ex_iff)
  next
    case False
    then have "e \<in> set es" using IH that by auto
    then show ?thesis by (auto simp: edge_present_def)
  qed
  ultimately show ?case using IH found by auto
qed simp

lemma group_edges_complete:
  assumes "driver_inv rt L resolver run" "done_from 0 run" "group_node run k = Some node"
    and "group_edges resolver run k = Some es"
    and "dep \<in> set (pkg_deps node)" "classify_dep resolver (run_registry run) node dep = Some edge"
    and "edge \<noteq> SPN_DEP_EDGE_PRUNED"
  shows "\<exists>e \<in> set es. ne_name e = Some (req_qualified dep) \<and> ne_kind e = req_kind dep \<and>
    ne_private e = req_private dep \<and> admits dep (id_version (pkg_id (ne_node e)))"
proof -
  obtain e where e: "node_edge resolver run (fst k) node dep = Some (Some e)"
    "ne_name e = Some (req_qualified dep)" "ne_kind e = req_kind dep" "ne_private e = req_private dep"
    "admits dep (id_version (pkg_id (ne_node e)))"
    using node_edge_complete [OF assms(1-3,5-7)] by blast
  have "collect_edges resolver run (fst k) node (pkg_deps node) [] = Some es"
    using assms(3,4) by (simp add: group_edges_def collect_node_edges_def)
  from collect_edges_complete [OF this] obtain e' where e': "e' \<in> set es" "edge_present e e'"
    using assms(5) e(1) by blast
  have "fst k < length (run_scopes run)" using assms(3) by (simp add: group_node_def split: if_splits)
  then have "ne_node e' = ne_node e"
    using node_edge_scoped [OF e(1)] group_edges_scoped [OF assms(4) e'(1)] e'(2)
    by (simp add: well_scoped_def edge_target_def edge_present_def)
  then show ?thesis using e e' by (intro bexI [of _ e']) (simp_all add: edge_present_def)
qed

end
