(* ===== verification/Resolve_Processes.thy ===== *)
theory Resolve_Processes
  imports Resolve_Groups
begin

text \<open>
  The processes of the scopes. A scope is a process of its own when it is the root or when a
  build or test dependency leads to it; a private edge puts its target into every process of its
  source. The loop of \<open>compute_processes\<close> computes exactly this closure and returns.
\<close>

section \<open>The specification\<close>

definition private_step :: "spn_scope_edge_t list \<Rightarrow> (nat \<times> nat) set" where
  "private_step E = {(edge_from e, edge_to e) | e. e \<in> set E \<and> edge_private e}"

definition process_roots :: "spn_scope_edge_t list \<Rightarrow> nat set" where
  "process_roots E = insert 0 {edge_to e | e. e \<in> set E \<and> \<not> edge_private e}"

definition processes_of :: "spn_scope_edge_t list \<Rightarrow> nat \<Rightarrow> nat set" where
  "processes_of E i = {p \<in> process_roots E. (p, i) \<in> (private_step E)\<^sup>*}"

definition edges_ok :: "spn_resolve_run_t \<Rightarrow> bool" where
  "edges_ok run \<longleftrightarrow> run_scopes run \<noteq> [] \<and>
     (\<forall>e \<in> set (run_edges run).
        edge_from e < length (run_scopes run) \<and> edge_to e < length (run_scopes run))"

section \<open>What a step does\<close>

abbreviation procs :: "spn_scope_t list \<Rightarrow> nat \<Rightarrow> nat set" where
  "procs scopes i \<equiv> set (scope_processes (scopes ! i))"

abbreviation erase_processes :: "spn_scope_t \<Rightarrow> spn_scope_t" where
  "erase_processes scope \<equiv> scope\<lparr>scope_processes := []\<rparr>"

definition total_processes :: "spn_scope_t list \<Rightarrow> nat" where
  "total_processes scopes = sum_list (map (length \<circ> scope_processes) scopes)"

definition sound_processes :: "spn_scope_edge_t list \<Rightarrow> spn_scope_t list \<Rightarrow> bool" where
  "sound_processes E scopes \<longleftrightarrow>
     (\<forall>i < length scopes. distinct (scope_processes (scopes ! i)) \<and> procs scopes i \<subseteq> processes_of E i)"

definition grown :: "spn_scope_t list \<Rightarrow> spn_scope_t list \<Rightarrow> bool" where
  "grown a b \<longleftrightarrow> map erase_processes b = map erase_processes a \<and>
     (\<forall>i < length a. procs a i \<subseteq> procs b i)"

lemma grown_length: "grown a b \<Longrightarrow> length b = length a"
  unfolding grown_def by (metis length_map)

lemma grown_refl [simp]: "grown a a"
  by (simp add: grown_def)

lemma grown_trans: "grown a b \<Longrightarrow> grown b c \<Longrightarrow> grown a c"
  using grown_length [of a b] by (force simp: grown_def)

lemma add_process_nth:
  "i < length scopes \<Longrightarrow> procs (add_process i p scopes) j =
     (if j = i then insert p (procs scopes i) else procs scopes j)"
  by (auto simp: add_process_def scope_add_process_def)

lemma add_process_length [simp]: "length (add_process i p scopes) = length scopes"
  by (simp add: add_process_def)

lemma add_process_grown: "i < length scopes \<Longrightarrow> grown scopes (add_process i p scopes)"
proof -
  assume i: "i < length scopes"
  have "erase_processes (scope_add_process p (scopes ! i)) = erase_processes (scopes ! i)"
    by (simp add: scope_add_process_def)
  then have "map erase_processes (add_process i p scopes) = map erase_processes scopes"
    using i by (simp add: add_process_def map_update list_update_same_conv)
  then show ?thesis using i by (auto simp: grown_def add_process_nth)
qed

lemma add_process_sound:
  assumes "sound_processes E scopes" "i < length scopes" "p \<in> processes_of E i"
  shows "sound_processes E (add_process i p scopes)"
  unfolding sound_processes_def
proof (intro allI impI conjI)
  fix j assume j: "j < length (add_process i p scopes)"
  show "distinct (scope_processes (add_process i p scopes ! j))"
    using assms j by (cases "j = i") (auto simp: add_process_def scope_add_process_def sound_processes_def)
  show "procs (add_process i p scopes) j \<subseteq> processes_of E j"
    using assms j by (auto simp: add_process_nth sound_processes_def)
qed

lemma add_process_total:
  assumes "i < length scopes" "p \<notin> procs scopes i"
  shows "total_processes (add_process i p scopes) = Suc (total_processes scopes)"
proof -
  have len: "length (scope_processes (scope_add_process p (scopes ! i))) =
      Suc (length (scope_processes (scopes ! i)))"
    using assms(2) by (simp add: scope_add_process_def)
  have "scopes = take i scopes @ scopes ! i # drop (Suc i) scopes"
    using assms(1) by (simp add: id_take_nth_drop)
  then have "total_processes scopes =
      total_processes (take i scopes) + length (scope_processes (scopes ! i)) +
      total_processes (drop (Suc i) scopes)"
    unfolding total_processes_def
    by (metis (no_types, lifting) add.assoc comp_apply list.simps(9) map_append sum_list.Cons sum_list_append)
  moreover have "total_processes (add_process i p scopes) =
      total_processes (take i scopes) + Suc (length (scope_processes (scopes ! i))) +
      total_processes (drop (Suc i) scopes)"
    unfolding add_process_def upd_conv_take_nth_drop [OF assms(1)] total_processes_def
    by (simp only: map_append sum_list_append list.map sum_list.Cons comp_apply len add.assoc)
  ultimately show ?thesis by simp
qed

lemma sum_list_le: "\<forall>k \<in> set ks. k \<le> (n :: nat) \<Longrightarrow> sum_list ks \<le> length ks * n"
  by (induction ks) auto

lemma sound_total:
  assumes "sound_processes E scopes" "\<forall>i < length scopes. processes_of E i \<subseteq> {..<length scopes}"
  shows "total_processes scopes \<le> length scopes * length scopes"
proof -
  have "length (scope_processes s) \<le> length scopes" if s: "s \<in> set scopes" for s
  proof -
    obtain i where i: "i < length scopes" "s = scopes ! i" using s by (metis in_set_conv_nth)
    then have "set (scope_processes s) \<subseteq> {..<length scopes}" "distinct (scope_processes s)"
      using assms by (auto simp: sound_processes_def)
    then show ?thesis by (metis card_lessThan card_mono distinct_card finite_lessThan)
  qed
  then have "sum_list (map (length \<circ> scope_processes) scopes) \<le>
      length (map (length \<circ> scope_processes) scopes) * length scopes"
    by (intro sum_list_le) auto
  then show ?thesis by (simp add: total_processes_def)
qed

section \<open>A pass\<close>

definition pass_step ::
    "spn_scope_edge_t list \<Rightarrow> bool \<times> spn_scope_t list \<Rightarrow> bool \<times> spn_scope_t list \<Rightarrow> bool" where
  "pass_step E st st' \<longleftrightarrow>
     grown (snd st) (snd st') \<and> sound_processes E (snd st') \<and>
     (fst st \<longrightarrow> fst st') \<and> total_processes (snd st) \<le> total_processes (snd st') \<and>
     (\<not> fst st \<longrightarrow> (if fst st' then total_processes (snd st) < total_processes (snd st') else st' = st))"

lemma pass_step_refl: "sound_processes E (snd st) \<Longrightarrow> pass_step E st st"
  by (simp add: pass_step_def)

lemma pass_step_trans: "pass_step E a b \<Longrightarrow> pass_step E b c \<Longrightarrow> pass_step E a c"
  unfolding pass_step_def by (auto intro: grown_trans split: if_splits)

lemma pass_step_length: "pass_step E a b \<Longrightarrow> length (snd b) = length (snd a)"
  by (simp add: pass_step_def grown_length)

lemma pass_step_sub: "pass_step E a b \<Longrightarrow> i < length (snd a) \<Longrightarrow> procs (snd a) i \<subseteq> procs (snd b) i"
  by (simp add: pass_step_def grown_def)

lemma spread_process_step:
  assumes "to < length (snd st)" "sound_processes E (snd st)" "p \<in> processes_of E to"
  shows "pass_step E st (spread_process to p st)" "p \<in> procs (snd (spread_process to p st)) to"
proof -
  let ?s = "add_process to p (snd st)"
  have s: "grown (snd st) ?s" "sound_processes E ?s" "p \<in> procs ?s to"
    using assms by (simp_all add: add_process_grown add_process_sound add_process_nth)
  show "pass_step E st (spread_process to p st)"
  proof (cases "p \<in> procs (snd st) to")
    case True
    then show ?thesis using assms(2) by (simp add: spread_process_def scope_has_process_def pass_step_refl)
  next
    case False
    then have "total_processes ?s = Suc (total_processes (snd st))"
      using assms(1) add_process_total by simp
    then show ?thesis using s False by (simp add: spread_process_def scope_has_process_def pass_step_def)
  qed
  show "p \<in> procs (snd (spread_process to p st)) to"
    using s(3) by (simp add: spread_process_def scope_has_process_def)
qed

lemma spread_list_step:
  assumes "to < length (snd st)" "sound_processes E (snd st)" "set ps \<subseteq> processes_of E to"
  shows "pass_step E st (fold (spread_process to) ps st) \<and>
    set ps \<subseteq> procs (snd (fold (spread_process to) ps st)) to"
  using assms
proof (induction ps arbitrary: st)
  case (Cons p ps)
  let ?st = "spread_process to p st"
  have p: "p \<in> processes_of E to" "set ps \<subseteq> processes_of E to" using Cons.prems(3) by simp_all
  note a = spread_process_step [OF Cons.prems(1,2) p(1)]
  have st: "to < length (snd ?st)" "sound_processes E (snd ?st)"
    using a(1) pass_step_length [OF a(1)] Cons.prems(1) by (simp_all add: pass_step_def)
  note b = Cons.IH [OF st p(2)]
  have "p \<in> procs (snd (fold (spread_process to) ps ?st)) to"
    using a(2) pass_step_sub [OF conjunct1 [OF b] st(1)] by blast
  moreover have "pass_step E st (fold (spread_process to) ps ?st)"
    using a(1) conjunct1 [OF b] by (rule pass_step_trans)
  ultimately show ?case using b by simp
qed (simp add: pass_step_refl)

lemma processes_of_step:
  "e \<in> set E \<Longrightarrow> edge_private e \<Longrightarrow> processes_of E (edge_from e) \<subseteq> processes_of E (edge_to e)"
  by (auto simp: processes_of_def private_step_def intro: rtrancl_into_rtrancl)

lemma spread_edge_step:
  assumes "e \<in> set E" "edge_from e < length (snd st)" "edge_to e < length (snd st)"
    and "sound_processes E (snd st)"
  shows "pass_step E st (spread_edge e st) \<and>
    (edge_private e \<longrightarrow> procs (snd st) (edge_from e) \<subseteq> procs (snd (spread_edge e st)) (edge_to e))"
proof (cases "edge_private e")
  case True
  have "procs (snd st) (edge_from e) \<subseteq> processes_of E (edge_to e)"
    using assms(2,4) processes_of_step [OF assms(1) True] by (auto simp: sound_processes_def)
  from spread_list_step [OF assms(3,4) this] True show ?thesis by (simp add: spread_edge_def)
qed (simp add: spread_edge_def assms(4) pass_step_refl)

definition closed_under :: "spn_scope_edge_t list \<Rightarrow> spn_scope_t list \<Rightarrow> bool" where
  "closed_under es scopes \<longleftrightarrow>
     (\<forall>e \<in> set es. edge_private e \<longrightarrow> procs scopes (edge_from e) \<subseteq> procs scopes (edge_to e))"

lemma spread_edges_step:
  assumes "set es \<subseteq> set E" "\<forall>e \<in> set es. edge_from e < length (snd st) \<and> edge_to e < length (snd st)"
    and "sound_processes E (snd st)"
  shows "pass_step E st (fold spread_edge es st) \<and>
    (\<not> fst (fold spread_edge es st) \<longrightarrow> closed_under es (snd st))"
  using assms
proof (induction es arbitrary: st)
  case (Cons e es)
  let ?st = "spread_edge e st"
  have a: "pass_step E st ?st"
    "edge_private e \<longrightarrow> procs (snd st) (edge_from e) \<subseteq> procs (snd ?st) (edge_to e)"
    using spread_edge_step [of e E st] Cons.prems by auto
  have b: "pass_step E ?st (fold spread_edge es ?st)"
    "\<not> fst (fold spread_edge es ?st) \<Longrightarrow> closed_under es (snd ?st)"
    using Cons.IH [of ?st] Cons.prems a(1) pass_step_length [OF a(1)] by (auto simp: pass_step_def)
  have "closed_under (e # es) (snd st)" if quiet: "\<not> fst (fold spread_edge es ?st)"
  proof -
    have "\<not> fst ?st" using b(1) quiet by (auto simp: pass_step_def)
    then have "?st = st" using a(1) by (auto simp: pass_step_def)
    then show ?thesis using b(2) [OF quiet] a(2) by (simp add: closed_under_def)
  qed
  moreover have "pass_step E st (fold spread_edge es ?st)" using a(1) b(1) by (rule pass_step_trans)
  ultimately show ?case by simp
qed (simp add: pass_step_refl closed_under_def)

lemma spread_pass_step:
  assumes "\<forall>e \<in> set E. edge_from e < length scopes \<and> edge_to e < length scopes"
    and "sound_processes E scopes"
  shows "grown scopes (snd (spread_pass E scopes))" "sound_processes E (snd (spread_pass E scopes))"
    "fst (spread_pass E scopes) \<Longrightarrow> total_processes scopes < total_processes (snd (spread_pass E scopes))"
    "\<not> fst (spread_pass E scopes) \<Longrightarrow>
       snd (spread_pass E scopes) = scopes \<and> closed_under E scopes"
  using spread_edges_step [of E E "(False, scopes)"] assms
  by (auto simp: spread_pass_def pass_step_def)

section \<open>The loop\<close>

lemma spread_loop_returns:
  assumes "\<forall>e \<in> set E. edge_from e < length scopes \<and> edge_to e < length scopes"
    and "sound_processes E scopes" "\<forall>i < length scopes. processes_of E i \<subseteq> {..<length scopes}"
  shows "\<exists>scopes'. spread_loop E scopes = Some scopes' \<and> grown scopes scopes' \<and>
    sound_processes E scopes' \<and> closed_under E scopes'"
  using assms
proof (induction "length scopes * length scopes - total_processes scopes" arbitrary: scopes
    rule: less_induct)
  case less
  let ?s = "snd (spread_pass E scopes)"
  note step = spread_pass_step [OF less.prems(1,2)]
  have len: "length ?s = length scopes" using step(1) by (rule grown_length)
  show ?case
  proof (cases "fst (spread_pass E scopes)")
    case True
    have "total_processes ?s \<le> length scopes * length scopes"
      using sound_total [OF step(2)] less.prems(3) len by simp
    then have "length ?s * length ?s - total_processes ?s <
        length scopes * length scopes - total_processes scopes"
      using step(3) [OF True] len by simp
    from less.hyps [OF this] less.prems step(2) len obtain scopes' where
      "spread_loop E ?s = Some scopes'" "grown ?s scopes'" "sound_processes E scopes'"
      "closed_under E scopes'" by auto
    then show ?thesis using True step(1) grown_trans by (simp add: spread_loop.simps [of E scopes])
  next
    case False
    then show ?thesis using step less.prems(2) by (simp add: spread_loop.simps [of E scopes])
  qed
qed

section \<open>The start and the end\<close>

lemma own_process_sound:
  assumes "set es \<subseteq> set E" "\<forall>e \<in> set es. edge_to e < length scopes" "sound_processes E scopes"
  shows "grown scopes (fold own_process es scopes) \<and> sound_processes E (fold own_process es scopes) \<and>
    (\<forall>e \<in> set es. \<not> edge_private e \<longrightarrow> edge_to e \<in> procs (fold own_process es scopes) (edge_to e))"
  using assms
proof (induction es arbitrary: scopes)
  case (Cons e es)
  let ?s = "own_process e scopes"
  have "edge_private e \<or> edge_to e \<in> processes_of E (edge_to e)"
    using Cons.prems(1) by (auto simp: processes_of_def process_roots_def)
  then have a: "grown scopes ?s" "sound_processes E ?s"
    "\<not> edge_private e \<longrightarrow> edge_to e \<in> procs ?s (edge_to e)"
    using Cons.prems by (auto simp: own_process_def add_process_grown add_process_sound add_process_nth)
  have b: "grown ?s (fold own_process es ?s) \<and> sound_processes E (fold own_process es ?s) \<and>
      (\<forall>e \<in> set es. \<not> edge_private e \<longrightarrow> edge_to e \<in> procs (fold own_process es ?s) (edge_to e))"
    using Cons.prems a grown_length [OF a(1)] by (intro Cons.IH) auto
  have "procs ?s (edge_to e) \<subseteq> procs (fold own_process es ?s) (edge_to e)"
    using b grown_length [OF a(1)] Cons.prems(2) by (auto simp: grown_def)
  then show ?case using a b grown_trans by auto
qed simp

lemma closed_under_complete:
  assumes "closed_under E scopes" "p \<in> procs scopes p" "(p, i) \<in> (private_step E)\<^sup>*"
  shows "p \<in> procs scopes i"
  using assms(3,1,2)
  by (induction rule: rtrancl_induct) (force simp: closed_under_def private_step_def)+

lemma processes_in_range:
  assumes "edges_ok run" "i < length (run_scopes run)"
  shows "processes_of (run_edges run) i \<subseteq> {..<length (run_scopes run)}"
  using assms by (auto simp: processes_of_def process_roots_def edges_ok_def)

lemma compute_processes_closure:
  assumes "edges_ok run" "\<forall>s \<in> set (run_scopes run). scope_processes s = []"
  shows "\<exists>scopes. compute_processes run = Some (run\<lparr>run_scopes := scopes\<rparr>) \<and>
    map erase_processes scopes = run_scopes run \<and>
    (\<forall>i < length scopes. distinct (scope_processes (scopes ! i)) \<and>
       procs scopes i = processes_of (run_edges run) i)"
proof -
  let ?E = "run_edges run"
  let ?s0 = "add_process 0 0 (run_scopes run)"
  let ?s1 = "fold own_process ?E ?s0"
  have pos: "0 < length (run_scopes run)" using assms(1) by (simp add: edges_ok_def)
  have "sound_processes ?E (run_scopes run)" using assms(2) by (simp add: sound_processes_def)
  moreover have "0 \<in> processes_of ?E 0" by (simp add: processes_of_def process_roots_def)
  ultimately have a: "grown (run_scopes run) ?s0" "sound_processes ?E ?s0" "0 \<in> procs ?s0 0"
    using pos by (simp_all add: add_process_grown add_process_sound add_process_nth)
  have b: "grown ?s0 ?s1" "sound_processes ?E ?s1"
    "\<forall>e \<in> set ?E. \<not> edge_private e \<longrightarrow> edge_to e \<in> procs ?s1 (edge_to e)"
    using own_process_sound [of ?E ?E ?s0] a assms(1) by (auto simp: edges_ok_def)
  have len: "length ?s1 = length (run_scopes run)" using a(1) b(1) grown_length by metis
  obtain scopes where c: "spread_loop ?E ?s1 = Some scopes" "grown ?s1 scopes"
    "sound_processes ?E scopes" "closed_under ?E scopes"
    using spread_loop_returns [of ?E ?s1] b(2) assms(1) processes_in_range len
    unfolding edges_ok_def by auto
  have len': "length scopes = length (run_scopes run)" using c(2) len grown_length by metis
  have own: "p \<in> procs scopes p" if "p \<in> process_roots ?E" for p
  proof -
    have "p \<in> procs ?s1 p" "p < length ?s1"
      using that a(3) b pos len assms(1) unfolding process_roots_def edges_ok_def
      by (auto simp: grown_def)
    then show ?thesis using c(2) by (auto simp: grown_def)
  qed
  have "processes_of ?E i \<subseteq> procs scopes i" for i
    using own closed_under_complete [OF c(4)] by (auto simp: processes_of_def)
  then have "\<forall>i < length scopes. distinct (scope_processes (scopes ! i)) \<and>
      procs scopes i = processes_of ?E i"
    using c(3) by (auto simp: sound_processes_def)
  moreover have "map erase_processes scopes = run_scopes run"
  proof -
    have "map erase_processes scopes = map erase_processes (run_scopes run)"
      using a(1) b(1) c(2) by (simp add: grown_def)
    also have "\<dots> = run_scopes run" using assms(2) by (intro map_idI) simp
    finally show ?thesis .
  qed
  ultimately show ?thesis using c(1) by (auto simp: compute_processes_def)
qed

end
