(* ===== verification/Resolve_Solve.thy ===== *)
theory Resolve_Solve
  imports Resolve_Sound Resolve_Processes
begin

text \<open>
  A query from end to end: the specification of a resolution, and the proof that
  \<open>spn_resolve_from_solver\<close> meets it whenever it reports no error, through the first solve and
  through the retries with forced pins.
\<close>

section \<open>Processes change nothing else\<close>

definition same_groups :: "spn_resolve_run_t \<Rightarrow> spn_resolve_run_t \<Rightarrow> bool" where
  "same_groups run run' \<longleftrightarrow>
     run_registry run' = run_registry run \<and>
     map erase_processes (run_scopes run') = map erase_processes (run_scopes run)"

lemma same_groups_scopes:
  assumes "same_groups run run'"
  shows "length (run_scopes run') = length (run_scopes run)"
    "i < length (run_scopes run) \<Longrightarrow> scope_named (run_scopes run' ! i) = scope_named (run_scopes run ! i)"
    "i < length (run_scopes run) \<Longrightarrow> scope_key (run_scopes run' ! i) = scope_key (run_scopes run ! i)"
proof -
  have ss: "map erase_processes (run_scopes run') = map erase_processes (run_scopes run)"
    using assms by (simp add: same_groups_def del: map_eq_conv)
  show len: "length (run_scopes run') = length (run_scopes run)" by (rule map_eq_imp_length_eq [OF ss])
  assume "i < length (run_scopes run)"
  then have "erase_processes (run_scopes run' ! i) = erase_processes (run_scopes run ! i)"
    using arg_cong [OF ss, of "\<lambda>xs. xs ! i"] len by simp
  then show "scope_named (run_scopes run' ! i) = scope_named (run_scopes run ! i)"
    "scope_key (run_scopes run' ! i) = scope_key (run_scopes run ! i)"
    by (cases "run_scopes run' ! i"; cases "run_scopes run ! i"; simp add: scope_key_def)+
qed

lemma same_groups_find:
  assumes "same_groups run run'"
  shows "find_scope run' root from = find_scope run root from"
proof -
  note s = same_groups_scopes [OF assms]
  have keys: "map scope_key (run_scopes run') = map scope_key (run_scopes run)"
    using s by (intro nth_equalityI) simp_all
  have "scope_index (run_scopes run') root from = Some j \<longleftrightarrow> scope_index (run_scopes run) root from = Some j" for j
    using scope_index_prefix [of "run_scopes run" root "from" j "run_scopes run'"]
      scope_index_prefix [of "run_scopes run'" root "from" j "run_scopes run"] keys s(1) by auto
  then show ?thesis unfolding find_scope_def by (metis not_Some_eq)
qed

lemma same_groups_node:
  assumes "same_groups run run'"
  shows "group_node run' k = group_node run k"
  using same_groups_scopes [OF assms] by (simp add: group_node_def)

lemma same_groups_edge:
  assumes "same_groups run run'" "s < length (run_scopes run)"
  shows "node_edge resolver run' s node dep = node_edge resolver run s node dep"
proof -
  note same = same_groups_scopes [OF assms(1)] same_groups_find [OF assms(1)]
  have reg: "run_registry run' = run_registry run" using assms(1) by (simp add: same_groups_def)
  have "scope_named (run_scopes run' ! t) = scope_named (run_scopes run ! t)"
    if "(if c then Some s else find_scope run root from) = Some t" for c root "from" t
  proof -
    have "t < length (run_scopes run)"
      using that assms(2) scope_index_bound by (auto simp: find_scope_def split: if_splits)
    then show ?thesis by (rule same(2))
  qed
  note named = this
  show ?thesis
    unfolding node_edge_def reg Let_def same(4)
    by (intro Option.bind_cong refl arg_cong [where f = Some] if_cong option.case_cong) (simp_all add: named)
qed

lemma same_groups_edges:
  assumes "same_groups run run'"
  shows "group_edges resolver run' k = group_edges resolver run k"
proof (cases "fst k < length (run_scopes run)")
  case True
  have "collect_edges resolver run' (fst k) node deps es = collect_edges resolver run (fst k) node deps es"
    for node deps es
    by (induction deps arbitrary: es) (simp_all add: same_groups_edge [OF assms True])
  then have "collect_node_edges resolver run' (fst k) = collect_node_edges resolver run (fst k)"
    by (intro ext) (simp add: collect_node_edges_def)
  then show ?thesis by (simp add: group_edges_def same_groups_node [OF assms])
next
  case False
  then show ?thesis using same_groups_scopes(1)[OF assms] by (simp add: group_edges_def group_node_def)
qed

lemma same_groups_facts:
  assumes "same_groups run run'"
  shows "edges_known resolver run' \<longleftrightarrow> edges_known resolver run"
    "shared_known resolver run' \<longleftrightarrow> shared_known resolver run"
    "names_distinct run' \<longleftrightarrow> names_distinct run"
proof -
  note same = same_groups_scopes [OF assms]
  have reg: "run_registry run' = run_registry run" using assms by (simp add: same_groups_def)
  show "edges_known resolver run' \<longleftrightarrow> edges_known resolver run"
    "shared_known resolver run' \<longleftrightarrow> shared_known resolver run"
    by (simp_all add: edges_known_def shared_known_def reg same_groups_node [OF assms])
  have "map (\<lambda>s. ht_keys (scope_named s)) (run_scopes run') = map (\<lambda>s. ht_keys (scope_named s)) (run_scopes run)"
    by (rule nth_equalityI) (use same in simp_all)
  then have "set (map (\<lambda>s. ht_keys (scope_named s)) (run_scopes run')) =
      set (map (\<lambda>s. ht_keys (scope_named s)) (run_scopes run))" by (rule arg_cong)
  then show "names_distinct run' \<longleftrightarrow> names_distinct run"
    unfolding names_distinct_def set_map by (metis (no_types, lifting) image_iff)
qed

section \<open>The specification\<close>

text \<open>The result has the package of a dependency, at an admitted version.\<close>

definition provides :: "spn_resolve_t \<Rightarrow> spn_requested_dep_t \<Rightarrow> spn_pkg_id_t \<Rightarrow> bool" where
  "provides result d pid \<longleftrightarrow>
     ht_get result pid \<noteq> None \<and> id_qualified pid = Some (req_qualified d) \<and> admits d (id_version pid)"

definition resolution_ok ::
    "spn_resolver_t \<Rightarrow> registry \<Rightarrow> spn_requested_dep_t list \<Rightarrow> spn_resolve_t \<Rightarrow> bool" where
  "resolution_ok resolver reg reqs result \<longleftrightarrow>
     (\<forall>id inst. ht_get result id = Some inst \<longrightarrow> pkg_id inst = id) \<and>
     (\<forall>id inst dep edge. ht_get result id = Some inst \<longrightarrow> dep \<in> set (pkg_deps inst) \<longrightarrow>
        classify_dep resolver reg inst dep = Some edge \<longrightarrow> edge \<noteq> SPN_DEP_EDGE_PRUNED \<longrightarrow>
        (\<exists>e \<in> set (pkg_edges inst). rdep_kind e = req_kind dep \<and> rdep_private e = req_private dep \<and>
           provides result dep (rdep_id e))) \<and>
     (\<forall>d \<in> set reqs. \<forall>edge. classify_dep resolver reg root_node d = Some edge \<longrightarrow>
        edge \<noteq> SPN_DEP_EDGE_PRUNED \<longrightarrow> (\<exists>id. provides result d id))"

lemma classify_instance:
  "classify_dep resolver reg (instance_of H k node es) dep = classify_dep resolver reg node dep"
proof -
  have "node_is_shared resolver reg (instance_of H k node es) = node_is_shared resolver reg node"
    by (cases "pkg_source node") (simp_all add: node_is_shared_def instance_of_def instance_id_def Let_def)
  moreover have "pkg_source (instance_of H k node es) = pkg_source node" by (simp add: instance_of_def)
  ultimately show ?thesis by (cases "req_kind dep") (simp_all add: classify_dep_def)
qed

lemma request_provided:
  assumes "driver_inv rt L resolver run" "done_from 0 run" "d \<in> set (scope_reqs (run_scopes run ! 0))"
    and "classify_dep resolver (run_registry run) root_node d = Some edge" "edge \<noteq> SPN_DEP_EDGE_PRUNED"
  shows "\<exists>k p. snd k = Some (req_qualified d) \<and> group_node run k = Some p \<and>
    admits d (id_version (pkg_id p))"
proof -
  have pos: "0 < length (run_scopes run)" using assms(1) by (simp add: driver_inv_def)
  note met = done_request [OF assms(1,2) pos assms(3)]
  show ?thesis
  proof (cases "edge = SPN_DEP_EDGE_SCOPE")
    case True
    then obtain p where "ht_get (scope_named (run_scopes run ! 0)) (Some (req_qualified d)) = Some p"
      "admits d (id_version (pkg_id p))"
      using dep_met_scope [OF met] assms(4) by blast
    then show ?thesis using pos
      by (intro exI [of _ "(0, Some (req_qualified d))"] exI [of _ p]) (simp add: group_node_def)
  next
    case False
    from routed_target [OF assms(1,2) dep_met_boundary [OF met assms(4) False assms(5)]]
    obtain i p where "group_node run (i, Some (req_qualified d)) = Some p" "admits d (id_version (pkg_id p))"
      by (auto simp: boundary_of_def)
    then show ?thesis by (intro exI [of _ "(i, Some (req_qualified d))"] exI [of _ p]) simp
  qed
qed

text \<open>The committed instances of a finished driver meet the specification.\<close>

lemma result_resolution:
  assumes inv: "driver_inv rt L resolver run" and fin: "done_from 0 run"
    and closed: "result_closed resolver run H result"
    and reqs: "set reqs \<subseteq> set (scope_reqs (run_scopes run ! 0))"
  shows "resolution_ok resolver (run_registry run) reqs result"
  unfolding resolution_ok_def
proof (intro conjI allI ballI impI)
  have all: "provides result d (instance_id H k p)"
    if "group_node run k = Some p" "snd k = Some (req_qualified d)" "admits d (id_version (pkg_id p))" for k p d
  proof -
    have "ht_get result (instance_id H k p) \<noteq> None"
      using closed that(1) unfolding result_closed_def by blast
    then show ?thesis using that driver_node(2)[OF inv that(1)]
      by (simp add: provides_def instance_id_def)
  qed
  show "pkg_id inst = id" if "ht_get result id = Some inst" for id inst
    using closed that by (simp add: result_closed_def)
  show "\<exists>e \<in> set (pkg_edges inst). rdep_kind e = req_kind dep \<and> rdep_private e = req_private dep \<and>
      provides result dep (rdep_id e)"
    if inst: "ht_get result id = Some inst" and dep: "dep \<in> set (pkg_deps inst)"
      and cls: "classify_dep resolver (run_registry run) inst dep = Some edge" "edge \<noteq> SPN_DEP_EDGE_PRUNED"
    for id inst dep edge
  proof -
    obtain k node es where k: "group_node run k = Some node" "group_edges resolver run k = Some es"
      "inst = instance_of H k node es"
      using closed inst unfolding result_closed_def instances_ok_def by blast
    have "dep \<in> set (pkg_deps node)" using dep k(3) by (simp add: instance_of_def)
    from group_edges_complete [OF inv fin k(1,2) this _ cls(2)] cls(1) k(3)
    obtain e where e: "e \<in> set es" "ne_name e = Some (req_qualified dep)" "ne_kind e = req_kind dep"
      "ne_private e = req_private dep" "admits dep (id_version (pkg_id (ne_node e)))"
      by (auto simp: classify_instance)
    have "group_node run (edge_target e) = Some (ne_node e)"
      using group_edges_scoped [OF k(2) e(1)] by (simp add: well_scoped_def)
    then have "provides result dep (rdep_id (instance_dep H e))"
      using all e by (simp add: instance_dep_def edge_target_def)
    moreover have "instance_dep H e \<in> set (pkg_edges inst)" using e(1) k(3) by (simp add: instance_of_def)
    ultimately show ?thesis using e
      by (intro bexI [of _ "instance_dep H e"]) (simp_all add: instance_dep_def)
  qed
  show "\<exists>id. provides result d id"
    if "d \<in> set reqs" "classify_dep resolver (run_registry run) root_node d = Some edge"
      "edge \<noteq> SPN_DEP_EDGE_PRUNED" for d edge
  proof -
    have "d \<in> set (scope_reqs (run_scopes run ! 0))" using reqs that(1) by blast
    from request_provided [OF inv fin this that(2,3)] show ?thesis using all by blast
  qed
qed

section \<open>After the scopes\<close>

lemma driver_edges_ok: "driver_inv rt L resolver run \<Longrightarrow> edges_ok run"
  by (simp add: driver_inv_def edges_ok_def edges_in_range_def)

lemma driver_names_distinct: "driver_inv rt L resolver run \<Longrightarrow> names_distinct run"
  by (simp add: driver_inv_def scope_ok_def names_distinct_def)

text \<open>A finished driver is checked and committed: the cycle check decides, and without an error
  the result meets the specification.\<close>

lemma finish_groups_correct:
  assumes rt: "rt_ok rt L" and traps: "traps_free rt resolver"
    and inv: "driver_inv rt L resolver run" and fin: "done_from 0 run"
    and reqs: "set reqs \<subseteq> set (scope_reqs (run_scopes run ! 0))"
  shows "\<exists>err run'. finish_groups rt resolver run = Some (err, run') \<and>
    run_registry run' = run_registry run \<and>
    (\<not> acyclic (group_graph resolver run) \<longrightarrow> err \<noteq> None \<and> run_retry run' = run_retry run) \<and>
    (err = None \<longrightarrow> resolution_ok resolver (run_registry run) reqs (run_result run'))"
proof -
  have procs: "\<forall>s \<in> set (run_scopes run). scope_processes s = []"
    using inv by (simp add: driver_inv_def scope_ok_def)
  obtain scopes where comp: "compute_processes run = Some (run\<lparr>run_scopes := scopes\<rparr>)"
    and erase: "map erase_processes scopes = run_scopes run"
    using compute_processes_closure [OF driver_edges_ok [OF inv] procs] by blast
  let ?run1 = "run\<lparr>run_scopes := scopes\<rparr>"
  have "map erase_processes (run_scopes run) = map (\<lambda>s. s) (run_scopes run)"
    by (rule map_cong [OF refl]) (use procs in simp)
  then have same: "same_groups run ?run1" using erase by (simp add: same_groups_def del: map_eq_conv)
  note facts = same_groups_facts [OF same]
  have order: "order_ok rt" using rt by (simp add: rt_ok_def order_ok_def)
  have distinct: "names_distinct ?run1" using facts(3) driver_names_distinct [OF inv] by blast
  have known: "edges_known resolver ?run1" "shared_known resolver ?run1"
    using facts(1,2) driver_edges_known [OF traps inv] by blast+
  have graph: "group_graph resolver ?run1 = group_graph resolver run"
    by (simp add: group_graph_def same_groups_edges [OF same])
  obtain err where cyc: "check_group_cycles rt resolver (group_fuel ?run1) ?run1 = Some err"
    "err = None \<longleftrightarrow> acyclic (group_graph resolver run)"
    using check_group_cycles_correct [OF order distinct known(1)] graph by auto
  show ?thesis
  proof (cases "err = None")
    case False
    then have "finish_groups rt resolver run = Some (err, ?run1)" using comp cyc by (simp add: finish_groups_def)
    then show ?thesis using False cyc(2) by (intro exI [of _ err] exI [of _ ?run1]) auto
  next
    case True
    then have acyc: "acyclic (group_graph resolver ?run1)" using cyc(2) graph by simp
    obtain memo where memo:
      "hash_nodes (hash_group_node rt resolver ?run1 (group_fuel ?run1)) (group_nodes rt ?run1) [] = Some memo"
      "hash_inv rt resolver ?run1 memo" "nodes_of ?run1 \<subseteq> dom (hash_of memo)"
      using hash_nodes_correct [OF order distinct known(1) acyc] by blast
    obtain result where res: "commit_instances rt resolver memo ?run1 = Some (?run1\<lparr>run_result := result\<rparr>)"
      "result_closed resolver ?run1 (hash_of memo) result"
      using commit_instances_correct [OF order distinct memo(2,3)] by blast
    let ?run2 = "?run1\<lparr>run_result := result\<rparr>"
    have same2: "same_groups run ?run2" using same by (simp add: same_groups_def del: map_eq_conv)
    have closed: "result_closed resolver run (hash_of memo) result"
      using res(2) by (simp add: result_closed_def instances_ok_def same_groups_node [OF same]
          same_groups_edges [OF same])
    have nodes2: "nodes_of ?run2 \<subseteq> dom (hash_of memo)"
      using memo(3) by (simp add: nodes_of_def same_groups_node [OF same] same_groups_node [OF same2])
    have "names_distinct ?run2" "shared_known resolver ?run2"
      using same_groups_facts [OF same2] driver_names_distinct [OF inv] driver_edges_known [OF traps inv]
      by blast+
    from find_duplicates_correct [OF order this nodes2] obtain found where
      dup: "find_duplicates rt resolver ?run2 memo [0..<length (run_scopes ?run2)] = Some found"
      by blast
    have fg: "finish_groups rt resolver run = check_dynamic_duplicates rt resolver memo ?run2"
      using comp cyc(1) True memo(1) res(1) by (simp add: finish_groups_def)
    obtain err2 run3 where chk: "check_dynamic_duplicates rt resolver memo ?run2 = Some (err2, run3)"
      "run_registry run3 = run_registry run" "run_result run3 = result"
      using dup by (cases found) (auto simp: check_dynamic_duplicates_def Let_def)
    have "resolution_ok resolver (run_registry run) reqs result"
      by (rule result_resolution [OF inv fin closed reqs])
    then show ?thesis using fg chk acyc graph by (intro exI [of _ err2] exI [of _ run3]) simp
  qed
qed

section \<open>The query\<close>

definition solve_start ::
    "spn_resolve_query_t \<Rightarrow> registry \<Rightarrow> spn_pin_t option \<Rightarrow> spn_resolve_run_t" where
  "solve_start query registry forced =
     (initial_run query registry forced)
       \<lparr>run_scopes := [(new_scope None spn_pkg_id_zero)\<lparr>scope_reqs := query_reqs query\<rparr>]\<rparr>"

lemma solve_once_eq:
  "solve_once rt resolver fuel query registry forced =
     Option.bind (solve_scopes rt resolver fuel (solve_start query registry forced))
       (\<lambda>(err, run). if err \<noteq> None then Some (err, run) else finish_groups rt resolver run)"
  by (simp add: solve_once_def solve_start_def find_or_create_scope_def initial_run_def new_scope_def Let_def)

lemma solve_start_inv:
  assumes "registry_ok rt L registry" "\<forall>d \<in> set (query_reqs query). req_ok rt L d"
  shows "driver_inv rt L resolver (solve_start query registry forced)"
  using assms scope_ok_gained [OF new_scope_ok, of "req_ok rt L"]
  by (simp add: driver_inv_def solve_start_def initial_run_def edges_in_range_def scope_ok_def
      new_scope_def closed_def)

lemma solve_once_correct:
  assumes rt: "rt_ok rt L" and traps: "traps_free rt resolver"
    and reg: "registry_ok rt L registry" and reqs: "\<forall>d \<in> set (query_reqs query). req_ok rt L d"
    and ret: "solve_once rt resolver fuel query registry forced = Some (err, run')"
  shows "registry_ok rt L (run_registry run')"
    and "err = None \<Longrightarrow> resolution_ok resolver (run_registry run') (query_reqs query) (run_result run')"
proof -
  let ?start = "solve_start query registry forced"
  note inv = solve_start_inv [OF reg reqs]
  obtain err1 run1 where solve: "solve_scopes rt resolver fuel ?start = Some (err1, run1)"
    and cont: "if err1 \<noteq> None then Some (err1, run1) = Some (err, run')
      else finish_groups rt resolver run1 = Some (err, run')"
    using ret by (auto simp: solve_once_eq split: bind_splits if_splits)
  have post: "registry_ok rt L (run_registry run1) \<and> (err1 = None \<longrightarrow>
      driver_inv rt L resolver run1 \<and> later ?start run1 \<and> done_from 0 run1)"
    using solve_scopes_post [OF rt solve] inv by (simp add: solve_post_def)
  have all: "registry_ok rt L (run_registry run') \<and>
      (err = None \<longrightarrow> resolution_ok resolver (run_registry run') (query_reqs query) (run_result run'))"
  proof (cases "err1 = None")
    case False
    then show ?thesis using cont post by auto
  next
    case True
    then have inv1: "driver_inv rt L resolver run1" "done_from 0 run1" "later ?start run1"
      using post by blast+
    have "set (query_reqs query) \<subseteq> set (scope_reqs (run_scopes run1 ! 0))"
      using inv1(3) by (auto simp: later_def solve_start_def initial_run_def)
    from finish_groups_correct [OF rt traps inv1(1,2) this] show ?thesis
      using cont True post by auto
  qed
  then show "registry_ok rt L (run_registry run')"
    "err = None \<Longrightarrow> resolution_ok resolver (run_registry run') (query_reqs query) (run_result run')"
    by blast+
qed

lemma retry_pins_correct:
  assumes rt: "rt_ok rt L" and traps: "traps_free rt resolver"
  shows "registry_ok rt L registry \<Longrightarrow> \<forall>d \<in> set (query_reqs query). req_ok rt L d \<Longrightarrow>
    err = None \<longrightarrow> resolution_ok resolver registry (query_reqs query) (query_result query) \<Longrightarrow>
    retry_pins rt resolver fuel pins err query registry = Some (err', query', registry') \<Longrightarrow>
    query_reqs query' = query_reqs query \<and> query_errors query' = query_errors query \<and>
    (err' = None \<longrightarrow> resolution_ok resolver registry' (query_reqs query) (query_result query'))"
proof (induction pins arbitrary: err query registry)
  case Nil
  then show ?case by auto
next
  case (Cons pin pins)
  show ?case
  proof (cases "err = None")
    case True
    then show ?thesis using Cons.prems by auto
  next
    case False
    let ?q = "query\<lparr>query_result := []\<rparr>"
    obtain err1 run1 where once: "solve_once rt resolver fuel ?q registry (Some pin) = Some (err1, run1)"
      and rest: "retry_pins rt resolver fuel pins (if err1 = None then None else err)
        (query\<lparr>query_result := run_result run1\<rparr>) (run_registry run1) = Some (err', query', registry')"
      using Cons.prems(4) False by (auto split: bind_splits)
    have reqs: "\<forall>d \<in> set (query_reqs ?q). req_ok rt L d" using Cons.prems(2) by simp
    note one = solve_once_correct [OF rt traps Cons.prems(1) reqs once]
    show ?thesis
      using Cons.IH [OF one(1) _ _ rest] one(2) Cons.prems(2) False by (cases "err1 = None") simp_all
  qed
qed

text \<open>A query that reports no error has a result that meets the specification.\<close>

lemma spn_resolve_from_solver_sound:
  assumes "rt_ok rt L" "traps_free rt resolver" "registry_ok rt L registry"
    and "\<forall>d \<in> set (query_reqs query). req_ok rt L d"
    and ret: "spn_resolve_from_solver rt resolver fuel query registry = Some (None, query', registry')"
  shows "resolution_ok resolver registry' (query_reqs query) (query_result query')"
    "query_errors query = []"
proof -
  obtain err1 run1 err2 query2 where once: "solve_once rt resolver fuel query registry None = Some (err1, run1)"
    and retry: "retry_pins rt resolver fuel (run_retry run1) err1 (query\<lparr>query_result := run_result run1\<rparr>)
      (run_registry run1) = Some (err2, query2, registry')"
    and out: "query' = (case err2 of None \<Rightarrow> query2 | Some e \<Rightarrow> query2\<lparr>query_errors := query_errors query2 @ [e]\<rparr>)"
      "query_errors query' = []"
    using ret by (auto simp: spn_resolve_from_solver_def Let_def split: bind_splits list.splits option.splits)
  note one = solve_once_correct [OF assms(1-4) once]
  have "query_errors query2 = query_errors query \<and>
      (err2 = None \<longrightarrow> resolution_ok resolver registry' (query_reqs query) (query_result query2))"
    using retry_pins_correct [OF assms(1,2) one(1) _ _ retry] one(2) assms(4) by simp
  moreover have "err2 = None" "query' = query2" using out by (auto split: option.splits)
  ultimately show "resolution_ok resolver registry' (query_reqs query) (query_result query')"
    "query_errors query = []" using out(2) by simp_all
qed

end
