(* ===== verification/Resolve_Props.thy ===== *)
theory Resolve_Props
  imports Resolve_Scope Options_Props When_Props
begin

text \<open>
  Properties of the version solver on one scope: what a successful scope guarantees, that a
  failed node leaves no trace, what the chosen versions owe to the index and the pins, that the
  newest admissible release is tried first, and that the solver returns.
\<close>

section \<open>An example index\<close>

text \<open>Package \<open>core/b\<close> with releases 1.0.0, 1.1.0 and a yanked 1.2.0; \<open>core/a\<close>
  with release 1.0.0, which requires \<open>core/b\<close> below 1.1.0.\<close>

definition ex_range :: "u32 \<Rightarrow> u32 \<Rightarrow> spn_semver_range_t" where
  "ex_range lo hi =
     Range (Bound (Semver 1 lo 0) SPN_SEMVER_OP_GEQ) (Bound (Semver 1 hi 0) SPN_SEMVER_OP_LT)
       SPN_SEMVER_MOD_NONE"

definition ex_name :: "string \<Rightarrow> spn_pkg_name_t" where
  "ex_name n = \<lparr>pn_namespace = ''core'', pn_name = n\<rparr>"

definition ex_release :: "string \<Rightarrow> u32 \<Rightarrow> bool \<Rightarrow> spn_index_dep_t list \<Rightarrow> spn_index_release_t" where
  "ex_release n v yanked deps =
     \<lparr>rel_id = ex_name n, rel_version = Semver 1 v 0, rel_yanked = yanked,
      rel_source = RootNone, rel_manifest = RootNone,
      rel_paths = \<lparr>paths_manifest = [], paths_script = []\<rparr>,
      rel_deps = deps, rel_targets = [], rel_options = []\<rparr>"

definition ex_dep :: "string \<Rightarrow> spn_semver_range_t \<Rightarrow> spn_index_dep_t" where
  "ex_dep n r =
     \<lparr>idep_kind = SPN_INDEX_DEP_NORMAL, idep_private = False, idep_id = ex_name n,
      idep_range = r, idep_when = \<lparr>when_clauses = []\<rparr>, idep_options = \<lparr>when_clauses = []\<rparr>\<rparr>"

definition ex_index :: "spn_pkg_name_t \<Rightarrow> index_failure + spn_index_pkg_t option" where
  "ex_index n =
     (if n = ex_name ''b'' then
        Inr (Some \<lparr>ipkg_id = n, ipkg_releases =
          [ex_release ''b'' 0 False [], ex_release ''b'' 1 False [], ex_release ''b'' 2 True []]\<rparr>)
      else if n = ex_name ''a'' then
        Inr (Some \<lparr>ipkg_id = n, ipkg_releases =
          [ex_release ''a'' 0 False [ex_dep ''b'' (ex_range 0 1)]]\<rparr>)
      else Inr None)"

definition ex_rt :: runtime where
  "ex_rt =
     \<lparr>rt_cleave = cleave_first, rt_str_cmp = (\<lambda>_ _. 0), rt_fmt = dec_u32,
      rt_path_str = path_sub, rt_fs_name = (\<lambda>s. s),
      rt_sort_reqs = (\<lambda>_ xs. xs), rt_sort_picks = (\<lambda>_ xs. xs), rt_sort_records = (\<lambda>_ xs. xs),
      rt_named_order = (\<lambda>t. t), rt_result_order = (\<lambda>t. t),
      rt_hash_str = (\<lambda>s. of_nat (length s)), rt_hash_version = (\<lambda>v h. h),
      rt_hash_records = (\<lambda>rs h. h),
      rt_get_package = ex_index, rt_pkg_load = (\<lambda>_. Inl LoadNoManifest)\<rparr>"

definition ex_resolver :: spn_resolver_t where
  "ex_resolver = spn_resolver_init ex_profile [] 10"

definition ex_req :: "string \<Rightarrow> spn_semver_range_t \<Rightarrow> spn_requested_dep_t" where
  "ex_req q r =
     \<lparr>req_qualified = q, req_target = ReqIndex r, req_kind = SPN_DEP_KIND_PACKAGE,
      req_private = False, req_when = \<lparr>when_clauses = []\<rparr>, req_options = \<lparr>when_clauses = []\<rparr>\<rparr>"

definition ex_run :: "spn_requested_dep_t list \<Rightarrow> spn_resolve_run_t" where
  "ex_run reqs =
     \<lparr>run_result = [], run_registry = [],
      run_scopes = [(new_scope None spn_pkg_id_zero)\<lparr>scope_reqs := reqs\<rparr>],
      run_boundaries = [], run_edges = [], run_visited = [], run_scope = 0, run_picks = 0,
      run_budget = 10, run_fatal = False, run_forced = None, run_retry = []\<rparr>"

definition ex_reqs :: "spn_requested_dep_t list" where
  "ex_reqs = [ex_req ''core/a'' (ex_range 0 9), ex_req ''core/b'' (ex_range 0 9)]"

lemma ex_index_cases:
  "ex_index n = Inr (Some pkg) \<Longrightarrow>
     (n = ex_name ''b'' \<or> n = ex_name ''a'') \<and>
     (\<forall>r \<in> set (ipkg_releases pkg). rel_id r = n \<and> rel_targets r = [] \<and>
        (\<forall>d \<in> set (rel_deps r). idep_id d = ex_name ''b''))"
  by (auto simp: ex_index_def ex_release_def ex_dep_def split: if_splits)

lemma ex_canon: "canon ex_rt ''core/a'' \<and> canon ex_rt ''core/b''"
  by (simp add: canon_def ex_rt_def spn_pkg_name_from_qualified_def spn_pkg_name_to_qualified_def
      cleave_first_def)

lemma ex_rt_ok: "rt_ok ex_rt L"
proof -
  have "spn_pkg_name_to_qualified (ex_name ''b'') = ''core/b''"
    by (simp add: spn_pkg_name_to_qualified_def ex_name_def)
  then show ?thesis
    unfolding rt_ok_def using ex_canon
    by (auto dest!: ex_index_cases [unfolded atomize_conj] simp: ex_rt_def)
qed

lemma ex_run_inv: "solver_inv ex_rt L P ex_resolver (ex_run reqs)"
  by (simp add: solver_inv_def idx_ok_def ex_run_def new_scope_def registry_ok_def closed_def)

lemma ex_reqs_ok: "\<forall>d \<in> set ex_reqs. req_ok ex_rt L d"
  using ex_canon by (simp add: ex_reqs_def ex_req_def req_ok_def)

lemma ex_traps_free: "traps_free ex_rt ex_resolver"
  by (auto simp: traps_free_def ex_resolver_def spn_resolver_init_def ex_profile_def ex_rt_def
      dest!: ex_index_cases)

lemma ex_outcome:
  "map_option (\<lambda>(err, run). (err, map (\<lambda>(k, p). (k, id_version (pkg_id p))) (cur_named run)))
     (resolve_scope ex_rt ex_resolver 12 (ex_run ex_reqs)) =
   Some (None, [(Some ''core/a'', Semver 1 0 0), (Some ''core/b'', Semver 1 0 0)])"
  by code_simp

section \<open>A solved scope\<close>

text \<open>C5: when \<open>resolve_scope\<close> succeeds, every new request of the scope that stays in
  the scope is met, and so is every such dependency of every package of the scope: the package
  is there, and for an index request its version is in the requested range. Every dependency that
  leaves the scope has its boundary recorded, in this scope or before (\<open>P\<close>). Packages
  resolved before keep their entry. This covers the plain solve, the solve under all pins, and the search
  for the pins that can be kept, including the installed witness.\<close>

theorem resolve_scope_sound:
  assumes "rt_ok rt L" "solver_inv rt L P resolver run" "ht_get (run_visited run) = Map.empty"
    and "scope_cursor (current_scope run) \<le> length (scope_reqs (current_scope run))"
    and "\<forall>d \<in> set (new_reqs run). req_ok rt L d"
    and "resolve_scope rt resolver fuel run = Some (None, run')"
  shows "scope_solved resolver (run_registry run') (known P run') (ht_get (cur_named run')) (new_reqs run) \<and>
    ht_get (cur_named run) \<subseteq>\<^sub>m ht_get (cur_named run') \<and> solver_inv rt L P resolver run'"
proof -
  note post = resolve_scope_post [OF assms(1,2,4-6)]
    and start = scope_start_inv(2,4) [OF assms(1,2,4)]
  have "closed rt L resolver (run_registry run') (known P run') Map.empty (ht_get (cur_named run'))"
    using post assms(3) start unfolding solved_def solver_inv_def by metis
  then show ?thesis using closed_solved post start unfolding solved_def by auto
qed

lemma ex_resolved:
  obtains run' where "resolve_scope ex_rt ex_resolver 12 (ex_run ex_reqs) = Some (None, run')"
    "map (\<lambda>(k, p). (k, id_version (pkg_id p))) (cur_named run') =
       [(Some ''core/a'', Semver 1 0 0), (Some ''core/b'', Semver 1 0 0)]"
  using ex_outcome by (auto simp: map_option_eq_Some)

lemma ex_start:
  "ht_get (run_visited (ex_run reqs)) = Map.empty"
  "scope_cursor (current_scope (ex_run reqs)) \<le> length (scope_reqs (current_scope (ex_run reqs)))"
  "new_reqs (ex_run reqs) = reqs"
  by (simp_all add: ex_run_def new_scope_def)

theorem resolve_scope_sound_witness:
  "\<exists>run'. resolve_scope ex_rt ex_resolver 12 (ex_run ex_reqs) = Some (None, run') \<and>
     scope_solved ex_resolver (run_registry run') (set (run_boundaries run')) (ht_get (cur_named run')) ex_reqs"
proof -
  obtain run' where ok: "resolve_scope ex_rt ex_resolver 12 (ex_run ex_reqs) = Some (None, run')"
    by (rule ex_resolved)
  have "\<forall>d \<in> set (new_reqs (ex_run ex_reqs)). req_ok ex_rt UNIV d"
    using ex_reqs_ok by (simp add: ex_start)
  from resolve_scope_sound [OF ex_rt_ok ex_run_inv [of _ "{}"] ex_start(1,2) this ok] ok
  show ?thesis by (auto simp: ex_start known_def)
qed

section \<open>Failure leaves no trace\<close>

text \<open>C9: a call of \<open>solve_node\<close> that fails leaves the names of the scope, the
  boundaries and the visited set as they were, and changes no other part of the run but the
  registry (which only grows), the candidate budget (which only shrinks), the pick counter and
  the fatal flag. Backtracking over candidates rests on this.\<close>

theorem solve_node_failure_restores:
  assumes "rt_ok rt L" "solver_inv rt L P resolver run" "node_ok rt L (run_registry run) node"
    and "id_qualified (pkg_id node) = name" "ht_get (run_visited run) name = None"
    and "ht_get (cur_named run) name = None" "fresh_ok rt (held_version run name) node"
    and "solve_node rt resolver fuel name node run = Some (Some e, run')"
  shows "ht_get (cur_named run') = ht_get (cur_named run) \<and>
    run_boundaries run' = run_boundaries run \<and>
    ht_get (run_visited run') = ht_get (run_visited run) \<and>
    ht_get (run_registry run) \<subseteq>\<^sub>m ht_get (run_registry run') \<and>
    unat (run_budget run') \<le> unat (run_budget run) \<and> frame run run'"
proof -
  have "node_pre rt L P resolver name node run" using assms(1-7) by (simp add: node_pre_def)
  from solve_node_post [OF this assms(8)] show ?thesis by (auto simp: node_post_def step_def)
qed

text \<open>The witness: \<open>core/a\<close> under a node that wants a package that does not exist.\<close>

definition ex_bad_node :: spn_resolved_pkg_t where
  "ex_bad_node =
     (release_node (ex_release ''a'' 0 False [ex_dep ''b'' (ex_range 0 1)]))
       \<lparr>pkg_deps := [ex_req ''core/b'' (ex_range 0 1), ex_req ''core/b'' (ex_range 1 2)]\<rparr>"

lemma ex_bad_outcome:
  "map_option fst (solve_node ex_rt ex_resolver 5 (Some ''core/a'') ex_bad_node (ex_run [])) \<noteq> None \<and>
   map_option fst (solve_node ex_rt ex_resolver 5 (Some ''core/a'') ex_bad_node (ex_run [])) \<noteq> Some None"
  by code_simp

theorem solve_node_failure_restores_witness:
  "\<exists>e run'. solve_node ex_rt ex_resolver 5 (Some ''core/a'') ex_bad_node (ex_run []) = Some (Some e, run') \<and>
     ht_get (cur_named run') = Map.empty"
proof -
  obtain e run' where bad:
    "solve_node ex_rt ex_resolver 5 (Some ''core/a'') ex_bad_node (ex_run []) = Some (Some e, run')"
    using ex_bad_outcome by auto
  have node: "node_ok ex_rt UNIV (run_registry (ex_run [])) ex_bad_node"
    using ex_canon by (simp add: node_ok_def registered_def ex_bad_node_def release_node_def req_ok_def
        ex_req_def provenance_def spn_pkg_id_zero_def ex_rt_def ex_index_def ex_release_def ex_name_def)
  have id: "id_qualified (pkg_id ex_bad_node) = Some ''core/a''"
    by (simp add: ex_bad_node_def release_node_def release_name_def ex_release_def ex_name_def
        spn_pkg_name_to_qualified_def)
  have fresh: "fresh_ok ex_rt (held_version (ex_run []) (Some ''core/a'')) ex_bad_node"
    by (auto simp: fresh_ok_def ex_bad_node_def release_node_def held_version_def ex_run_def
        find_pin_def new_scope_def ex_release_def ex_rt_def ex_index_def ex_name_def)
  from solve_node_failure_restores [OF ex_rt_ok ex_run_inv node id _ _ fresh bad]
  have "ht_get (cur_named run') = ht_get (cur_named (ex_run []))" by (simp add: ex_run_def new_scope_def)
  then show ?thesis using bad by (auto simp: ex_run_def new_scope_def)
qed

section \<open>What may be chosen\<close>

text \<open>C10: a package that solving the requests of a scope adds obeys the pins and the
  index: if its name is forced or pinned, the pins agree and it has exactly that version; if it
  comes from the index, it is a release the index lists, at that release's version, and a yanked
  release is taken only for a pinned name.\<close>

theorem solve_reqs_choices:
  assumes "rt_ok rt L" "solver_inv rt L P resolver run"
    and "\<forall>d \<in> set (pending_reqs from to run). req_ok rt L d"
    and "solve_reqs rt resolver fuel from to run = Some (err, run')"
    and "ht_get (cur_named run') k = Some p" "ht_get (cur_named run) k = None"
  shows "(\<forall>v c. held_version run k = Some (v, c) \<longrightarrow> \<not> c \<and> id_version (pkg_id p) = v) \<and>
    (\<forall>r. origin_release (pkg_origin p) = Some r \<longrightarrow>
       id_version (pkg_id p) = rel_version r \<and>
       (\<exists>pkg. rt_get_package rt (rel_id r) = Inr (Some pkg) \<and> r \<in> set (ipkg_releases pkg)) \<and>
       (rel_yanked r \<longrightarrow> held_version run k \<noteq> None))"
  using solve_reqs_post(1)[OF assms(1-4)] assms(5,6) unfolding step_def fresh_ok_def by blast

lemma ex_solve_reqs:
  "map_option (\<lambda>(err, run). (err, map_option (id_version \<circ> pkg_id) (ht_get (cur_named run) (Some ''core/b''))))
     (solve_reqs ex_rt ex_resolver 12 0 2 (ex_run ex_reqs)) = Some (None, Some (Semver 1 0 0))"
  by code_simp

theorem solve_reqs_choices_witness:
  "\<exists>run' p. solve_reqs ex_rt ex_resolver 12 0 2 (ex_run ex_reqs) = Some (None, run') \<and>
     ht_get (cur_named run') (Some ''core/b'') = Some p \<and>
     (\<forall>r. origin_release (pkg_origin p) = Some r \<longrightarrow> \<not> rel_yanked r)"
proof -
  obtain run' p where run': "solve_reqs ex_rt ex_resolver 12 0 2 (ex_run ex_reqs) = Some (None, run')"
    and p: "ht_get (cur_named run') (Some ''core/b'') = Some p"
    using ex_solve_reqs by (auto simp: map_option_eq_Some)
  have reqs: "\<forall>d \<in> set (pending_reqs 0 2 (ex_run ex_reqs)). req_ok ex_rt UNIV d"
    using ex_reqs_ok by (simp add: pending_reqs_def ex_run_def new_scope_def ex_reqs_def)
  have "ht_get (cur_named (ex_run ex_reqs)) (Some ''core/b'') = None"
    "held_version (ex_run ex_reqs) (Some ''core/b'') = None"
    by (simp_all add: ex_run_def new_scope_def held_version_def find_pin_def)
  with solve_reqs_choices [OF ex_rt_ok ex_run_inv reqs run' p] run' p show ?thesis by auto
qed

text \<open>C23: for a name that is free in the scope and not pinned, the first candidate is the
  last release in the list of the index that is not yanked and is in the requested range: all
  releases after it are yanked or out of range, and when it can be solved the request resolves to
  exactly that outcome. It is the newest one because the loader of the index sorts the list by
  version (\<open>index/json.c\<close>), which is outside the model.\<close>

theorem newest_release_first:
  assumes "rt_get_package rt (spn_pkg_name_from_qualified (rt_cleave rt) (req_qualified request)) =
      Inr (Some pkg)"
    and "ipkg_releases pkg = older @ release # newer"
    and "\<forall>r' \<in> set newer. rel_yanked r' \<or> \<not> spn_semver_in_range (rel_version r') r"
    and "\<not> rel_yanked release" "spn_semver_in_range (rel_version release) r"
    and "ht_get (run_visited run) (Some (req_qualified request)) = None"
    and "ht_get (cur_named run) (Some (req_qualified request)) = None"
    and "held_version run (Some (req_qualified request)) = None"
    and "try_candidate rt resolver rec release run = Some (None, run')"
  shows "resolve_index_package rt resolver rec from request r run = Some (None, run')"
proof -
  have skip: "try_releases rt resolver rec r (rev ns @ rs) first run =
      try_releases rt resolver rec r rs first run"
    if "\<forall>r' \<in> set ns. rel_yanked r' \<or> \<not> spn_semver_in_range (rel_version r') r" for ns rs first
    using that by (induction ns arbitrary: rs) auto
  have "try_releases rt resolver rec r (rev (ipkg_releases pkg)) None run = Some ((None, True), run')"
    using assms(2-5,9) skip [of newer "release # rev older" None] by simp
  then show ?thesis
    using assms(1,6-8) by (simp add: resolve_index_package_def Let_def)
qed

lemma ex_candidate:
  "map_option fst (try_candidate ex_rt ex_resolver (solve_node ex_rt ex_resolver 3)
     (ex_release ''b'' 1 False []) (ex_run [])) = Some None"
  by code_simp

theorem newest_release_first_witness:
  "\<exists>run'. resolve_index_package ex_rt ex_resolver (solve_node ex_rt ex_resolver 3) root_node
     (ex_req ''core/b'' (ex_range 0 9)) (ex_range 0 9) (ex_run []) = Some (None, run')"
proof -
  obtain run' where tried: "try_candidate ex_rt ex_resolver (solve_node ex_rt ex_resolver 3)
     (ex_release ''b'' 1 False []) (ex_run []) = Some (None, run')"
    using ex_candidate by (auto simp: map_option_eq_Some)
  have name: "spn_pkg_name_from_qualified (rt_cleave ex_rt)
      (req_qualified (ex_req ''core/b'' (ex_range 0 9))) = ex_name ''b''"
    by (simp add: spn_pkg_name_from_qualified_def ex_rt_def cleave_first_def ex_req_def ex_name_def)
  have range_ok: "spn_semver_in_range (Semver 1 1 0) (ex_range 0 9)" by code_simp
  have idx: "rt_get_package ex_rt (ex_name ''b'') = Inr (Some \<lparr>ipkg_id = ex_name ''b'', ipkg_releases =
      [ex_release ''b'' 0 False []] @ ex_release ''b'' 1 False [] # [ex_release ''b'' 2 True []]\<rparr>)"
    by (simp add: ex_rt_def ex_index_def)
  have "resolve_index_package ex_rt ex_resolver (solve_node ex_rt ex_resolver 3) root_node
     (ex_req ''core/b'' (ex_range 0 9)) (ex_range 0 9) (ex_run []) = Some (None, run')"
    by (rule newest_release_first [OF idx[folded name], of "[ex_release ''b'' 0 False []]"
          "ex_release ''b'' 1 False []" "[ex_release ''b'' 2 True []]" _ _ _ _ "run'"])
      (use range_ok tried in \<open>simp_all add: ex_release_def ex_run_def new_scope_def held_version_def
        find_pin_def\<close>)
  then show ?thesis ..
qed

section \<open>The solver returns\<close>

text \<open>C11: solving a scope terminates: with fuel for the candidate budget and the local
  package names that can be requested, \<open>resolve_scope\<close> returns, whatever the index
  holds. (\<open>traps_free\<close>: no unreachable branch of the sources is met.)\<close>

theorem resolve_scope_terminates:
  assumes "finite L" "traps_free rt resolver" "rt_ok rt L" "solver_inv rt L P resolver run"
    and "scope_cursor (current_scope run) \<le> length (scope_reqs (current_scope run))"
    and "\<forall>d \<in> set (new_reqs run). req_ok rt L d"
    and "unat (res_budget resolver) + card L \<le> fuel"
  shows "\<exists>err run'. resolve_scope rt resolver fuel run = Some (err, run')"
  using resolve_scope_returns [OF assms] by auto

theorem resolve_scope_terminates_witness:
  "\<exists>err run'. resolve_scope ex_rt ex_resolver 10 (ex_run ex_reqs) = Some (err, run')"
proof (rule resolve_scope_terminates [of "{}"])
  show "unat (res_budget ex_resolver) + card {} \<le> 10"
    by (simp add: ex_resolver_def spn_resolver_init_def)
qed (use ex_traps_free ex_rt_ok ex_run_inv ex_reqs_ok in \<open>simp_all add: ex_start del: One_nat_def\<close>)

end
