(* ===== verification/Resolve_Solve_Props.thy ===== *)
theory Resolve_Solve_Props
  imports Resolve_Solve Resolve_Props
begin

text \<open>
  Properties of a whole query: the result of a solve without error meets the specification of a
  resolution, the closure that assigns scopes to processes, the cycle check, the content hashes,
  the committed instances and the check for two copies of a shared library.
\<close>

section \<open>Examples\<close>

definition ex_query :: spn_resolve_query_t where
  "ex_query = \<lparr>query_reqs = [ex_req ''core/a'' (ex_range 0 9),
      (ex_req ''core/b'' (ex_range 0 9))\<lparr>req_kind := SPN_DEP_KIND_BUILD\<rparr>],
     query_result = [], query_errors = []\<rparr>"

text \<open>Two packages of one scope; the first requires the second.\<close>

definition ex_pkg :: "string \<Rightarrow> spn_requested_dep_t list \<Rightarrow> spn_resolved_pkg_t" where
  "ex_pkg n deps = (release_node (ex_release n 0 False []))\<lparr>pkg_deps := deps\<rparr>"

definition ex_pair :: "spn_requested_dep_t list \<Rightarrow> spn_resolve_run_t" where
  "ex_pair back = (ex_run [])\<lparr>run_scopes :=
     [(new_scope None spn_pkg_id_zero)\<lparr>scope_named :=
        [(Some ''core/a'', ex_pkg ''a'' [ex_req ''core/b'' (ex_range 0 9)]),
         (Some ''core/b'', ex_pkg ''b'' back)]\<rparr>,
      new_scope (Some ''core/b'') spn_pkg_id_zero],
     run_edges := [\<lparr>edge_from = 0, edge_to = 1, edge_private = True\<rparr>]\<rparr>"

lemma ex_order_ok: "order_ok ex_rt"
  by (simp add: order_ok_def ex_rt_def)

lemma ex_names_distinct: "names_distinct (ex_pair back)"
  by (simp add: names_distinct_def ex_pair_def new_scope_def)

lemma ex_group_node:
  "group_node (ex_pair back) k = Some node \<Longrightarrow>
     node = ex_pkg ''a'' [ex_req ''core/b'' (ex_range 0 9)] \<or> node = ex_pkg ''b'' back"
  by (cases k) (auto simp: group_node_def ex_pair_def ex_run_def new_scope_def nth_Cons'
      split: if_splits)

lemma ex_pkg_plain: "node_plain (ex_pkg n deps)"
  by (simp add: node_plain_def ex_pkg_def release_node_def ex_release_def)

lemma ex_known: "edges_known ex_resolver (ex_pair back)" "shared_known ex_resolver (ex_pair back)"
proof -
  have plain: "node_plain node" if "group_node (ex_pair back) k = Some node" for k node
    using ex_group_node [OF that] ex_pkg_plain by blast
  show "edges_known ex_resolver (ex_pair back)"
    unfolding edges_known_def using classify_some [OF ex_traps_free plain] by blast
  show "shared_known ex_resolver (ex_pair back)"
    unfolding shared_known_def
  proof (intro allI impI)
    fix k node assume "group_node (ex_pair back) k = Some node"
    then obtain n deps where "node = ex_pkg n deps" using ex_group_node by blast
    then show "node_is_shared ex_resolver (run_registry (ex_pair back)) node \<noteq> None"
      by (simp add: node_is_shared_def ex_pkg_def release_node_def ex_release_def Let_def)
  qed
qed

section \<open>A query from end to end\<close>

text \<open>C1: when \<open>spn_resolve_from_solver\<close> reports no error, its result implements
  the specification of a resolution: every instance is stored under its identity; every dependency
  that counts of every instance (of any kind, private or not) has an edge of its kind to an
  instance of the result with the required name, at a version in the required range; and every
  request of the query that counts has such an instance. This holds for the first solve and for
  the retries with forced versions.\<close>

theorem resolve_query_sound:
  assumes "rt_ok rt L" "traps_free rt resolver" "registry_ok rt L registry"
    and "\<forall>d \<in> set (query_reqs query). req_ok rt L d"
    and "spn_resolve_from_solver rt resolver fuel query registry = Some (None, query', registry')"
  shows "resolution_ok resolver registry' (query_reqs query) (query_result query')"
  by (rule spn_resolve_from_solver_sound [OF assms])

lemma ex_query_outcome:
  "map_option (\<lambda>(e, q, r). (e, map (\<lambda>(k, p). (id_qualified k, id_version k, length (pkg_edges p))) (query_result q)))
     (spn_resolve_from_solver ex_rt ex_resolver 12 ex_query []) =
   Some (None, [(Some ''core/a'', Semver 1 0 0, 1), (Some ''core/b'', Semver 1 0 0, 0)])"
  by code_simp

theorem resolve_query_sound_witness:
  "\<exists>query' registry'.
     spn_resolve_from_solver ex_rt ex_resolver 12 ex_query [] = Some (None, query', registry') \<and>
     resolution_ok ex_resolver registry' (query_reqs ex_query) (query_result query') \<and>
     length (query_result query') = 2"
proof -
  obtain query' registry' where
    ret: "spn_resolve_from_solver ex_rt ex_resolver 12 ex_query [] = Some (None, query', registry')"
    and len: "map (\<lambda>(k, p). (id_qualified k, id_version k, length (pkg_edges p))) (query_result query') =
      [(Some ''core/a'', Semver 1 0 0, 1), (Some ''core/b'', Semver 1 0 0, 0)]"
    using ex_query_outcome by (auto simp: map_option_eq_Some)
  have "length (query_result query') = 2" using arg_cong [OF len, of length] by simp
  moreover have "registry_ok ex_rt UNIV []" by (simp add: registry_ok_def)
  moreover have "\<forall>d \<in> set (query_reqs ex_query). req_ok ex_rt UNIV d"
    using ex_canon by (simp add: ex_query_def ex_req_def req_ok_def)
  ultimately show ?thesis
    using resolve_query_sound [OF ex_rt_ok ex_traps_free _ _ ret] ret by blast
qed

section \<open>Processes\<close>

text \<open>C24: \<open>compute_processes\<close> terminates and assigns to every scope exactly the
  processes it runs in, once each: the process roots (the root scope and the targets of the
  edges that are not private) from which it is reached along private edges. Nothing else
  changes.\<close>

theorem processes_are_closure:
  assumes "edges_ok run" "\<forall>s \<in> set (run_scopes run). scope_processes s = []"
  shows "\<exists>scopes. compute_processes run = Some (run\<lparr>run_scopes := scopes\<rparr>) \<and>
    map erase_processes scopes = run_scopes run \<and>
    (\<forall>i < length scopes. distinct (scope_processes (scopes ! i)) \<and>
       set (scope_processes (scopes ! i)) = processes_of (run_edges run) i)"
  by (rule compute_processes_closure [OF assms])

theorem processes_are_closure_witness:
  "\<exists>scopes. compute_processes (ex_pair []) = Some ((ex_pair [])\<lparr>run_scopes := scopes\<rparr>) \<and>
     0 \<in> set (scope_processes (scopes ! 1))"
proof -
  have ok: "edges_ok (ex_pair [])" "\<forall>s \<in> set (run_scopes (ex_pair [])). scope_processes s = []"
    by (simp_all add: edges_ok_def ex_pair_def new_scope_def)
  obtain scopes where comp: "compute_processes (ex_pair []) = Some ((ex_pair [])\<lparr>run_scopes := scopes\<rparr>)"
    and erase: "map erase_processes scopes = run_scopes (ex_pair [])"
    and procs: "\<forall>i < length scopes. set (scope_processes (scopes ! i)) = processes_of (run_edges (ex_pair [])) i"
    using processes_are_closure [OF ok] by blast
  have "length scopes = 2" using arg_cong [OF erase, of length] by (simp add: ex_pair_def)
  moreover have "0 \<in> processes_of (run_edges (ex_pair [])) 1"
    by (auto simp: processes_of_def process_roots_def private_step_def ex_pair_def)
  ultimately show ?thesis using comp procs by auto
qed

section \<open>Cycles\<close>

text \<open>C25: the depth-first check for cycles terminates and decides: it reports no error
  exactly when the graph of the packages of all scopes is acyclic, and otherwise the error names
  a package that lies on a cycle.\<close>

theorem unit_cycles_decided:
  assumes "order_ok rt" "names_distinct run" "edges_known resolver run"
  shows "\<exists>err. check_group_cycles rt resolver (group_fuel run) run = Some err \<and>
    (err = None \<longleftrightarrow> acyclic (group_graph resolver run)) \<and>
    (\<forall>e. err = Some e \<longrightarrow> cycle_error rt resolver run e)"
  by (rule check_group_cycles_correct [OF assms])

lemma ex_cycle_outcome:
  "check_group_cycles ex_rt ex_resolver (group_fuel (ex_pair [])) (ex_pair []) = Some None"
  "check_group_cycles ex_rt ex_resolver (group_fuel (ex_pair [ex_req ''core/a'' (ex_range 0 9)]))
     (ex_pair [ex_req ''core/a'' (ex_range 0 9)]) \<noteq> Some None"
  by code_simp+

theorem unit_cycles_decided_witness:
  "acyclic (group_graph ex_resolver (ex_pair [])) \<and>
   \<not> acyclic (group_graph ex_resolver (ex_pair [ex_req ''core/a'' (ex_range 0 9)]))"
  using unit_cycles_decided [OF ex_order_ok ex_names_distinct ex_known(1)] ex_cycle_outcome
  by (metis option.inject)

section \<open>Content hashes\<close>

text \<open>C26: over an acyclic graph the hash walk terminates and gives every package of every
  scope the content hash of its subgraph: the hash of its own name and version, over the sorted
  records of its edges with the hashes of their targets.\<close>

theorem content_hashes:
  assumes "order_ok rt" "names_distinct run" "edges_known resolver run"
    and "acyclic (group_graph resolver run)"
  shows "\<exists>memo. hash_nodes (hash_group_node rt resolver run (group_fuel run)) (group_nodes rt run) [] = Some memo \<and>
    (\<forall>k node. group_node run k = Some node \<longrightarrow>
       (\<exists>es. group_edges resolver run k = Some es \<and>
          (\<forall>e \<in> set es. hash_of memo (edge_target e) \<noteq> None) \<and>
          hash_of memo k = Some (node_hash rt node (map (edge_record (hash_of memo)) es))))"
proof -
  obtain memo where memo:
    "hash_nodes (hash_group_node rt resolver run (group_fuel run)) (group_nodes rt run) [] = Some memo"
    "hash_inv rt resolver run memo" "nodes_of run \<subseteq> dom (hash_of memo)"
    using hash_nodes_correct [OF assms] by blast
  have "\<exists>es. group_edges resolver run k = Some es \<and> (\<forall>e \<in> set es. hash_of memo (edge_target e) \<noteq> None) \<and>
      hash_of memo k = Some (node_hash rt node (map (edge_record (hash_of memo)) es))"
    if node: "group_node run k = Some node" for k node
  proof -
    have "k \<in> dom (hash_of memo)" using memo(3) node by (auto simp: nodes_of_def)
    then show ?thesis using memo(2) node unfolding hash_inv_def hash_equation_def
      by (metis option.inject)
  qed
  then show ?thesis using memo(1) by blast
qed

theorem content_hashes_witness:
  "\<exists>memo h. hash_nodes (hash_group_node ex_rt ex_resolver (ex_pair []) (group_fuel (ex_pair [])))
      (group_nodes ex_rt (ex_pair [])) [] = Some memo \<and> hash_of memo (0, Some ''core/a'') = Some h"
proof -
  have "acyclic (group_graph ex_resolver (ex_pair []))"
    using check_group_cycles_correct [OF ex_order_ok ex_names_distinct ex_known(1)] ex_cycle_outcome(1)
    by (metis option.inject)
  moreover have "group_node (ex_pair []) (0, Some ''core/a'') =
      Some (ex_pkg ''a'' [ex_req ''core/b'' (ex_range 0 9)])"
    by (simp add: group_node_def ex_pair_def new_scope_def)
  ultimately show ?thesis
    using content_hashes [OF ex_order_ok ex_names_distinct ex_known(1)] by blast
qed

section \<open>Instances\<close>

text \<open>C27: over a complete table of hashes, \<open>commit_instances\<close> replaces the result
  by the instances: each is stored under its identity with the content hash, comes from a package
  of a scope with one edge for each of its edges, and every edge leads to an instance of the
  result; every package of every scope has its instance.\<close>

theorem instances_committed:
  assumes "order_ok rt" "names_distinct run" "hash_inv rt resolver run memo"
    and "nodes_of run \<subseteq> dom (hash_of memo)"
  shows "\<exists>result. commit_instances rt resolver memo run = Some (run\<lparr>run_result := result\<rparr>) \<and>
    (\<forall>k node. group_node run k = Some node \<longrightarrow>
       ht_get result (instance_id (hash_of memo) k node) \<noteq> None) \<and>
    (\<forall>id inst. ht_get result id = Some inst \<longrightarrow>
       pkg_id inst = id \<and> (\<forall>d \<in> set (pkg_edges inst). ht_get result (rdep_id d) \<noteq> None) \<and>
       (\<exists>k node es. group_node run k = Some node \<and> group_edges resolver run k = Some es \<and>
          inst = instance_of (hash_of memo) k node es))"
proof -
  obtain result where res: "commit_instances rt resolver memo run = Some (run\<lparr>run_result := result\<rparr>)"
    "result_closed resolver run (hash_of memo) result"
    using commit_instances_correct [OF assms] by blast
  show ?thesis
    by (intro exI [of _ result] conjI res(1); insert res(2); unfold result_closed_def instances_ok_def; blast)
qed

lemma ex_memo:
  obtains memo where "hash_inv ex_rt ex_resolver (ex_pair []) memo"
    "nodes_of (ex_pair []) \<subseteq> dom (hash_of memo)"
proof -
  have "acyclic (group_graph ex_resolver (ex_pair []))"
    using check_group_cycles_correct [OF ex_order_ok ex_names_distinct ex_known(1)] ex_cycle_outcome(1)
    by (metis option.inject)
  from hash_nodes_correct [OF ex_order_ok ex_names_distinct ex_known(1) this] show ?thesis
    using that by blast
qed

theorem instances_committed_witness:
  "\<exists>memo result. commit_instances ex_rt ex_resolver memo (ex_pair []) =
     Some ((ex_pair [])\<lparr>run_result := result\<rparr>) \<and> result \<noteq> []"
proof -
  obtain memo where memo: "hash_inv ex_rt ex_resolver (ex_pair []) memo"
    "nodes_of (ex_pair []) \<subseteq> dom (hash_of memo)" by (rule ex_memo)
  have node: "group_node (ex_pair []) (0, Some ''core/a'') =
      Some (ex_pkg ''a'' [ex_req ''core/b'' (ex_range 0 9)])"
    by (simp add: group_node_def ex_pair_def new_scope_def)
  obtain result where "commit_instances ex_rt ex_resolver memo (ex_pair []) =
      Some ((ex_pair [])\<lparr>run_result := result\<rparr>)"
    "\<forall>k node. group_node (ex_pair []) k = Some node \<longrightarrow>
       ht_get result (instance_id (hash_of memo) k node) \<noteq> None"
    using instances_committed [OF ex_order_ok ex_names_distinct memo] by blast
  moreover from this(2) node have "result \<noteq> []" by fastforce
  ultimately show ?thesis by blast
qed

section \<open>Two copies of a shared library\<close>

text \<open>C28: \<open>check_dynamic_duplicates\<close> terminates and decides: it reports an error
  exactly when some process holds two shared libraries of one name with different content; the
  error has the versions of such a pair, the lower one first, and a first solve schedules the two
  versions as retries exactly when they differ.\<close>

theorem duplicates_decided:
  assumes "order_ok rt" "names_distinct run" "shared_known resolver run"
    and "nodes_of run \<subseteq> dom (hash_of memo)"
  shows "\<exists>err run'. check_dynamic_duplicates rt resolver memo run = Some (err, run') \<and>
    (err = None \<longleftrightarrow> (\<forall>i < length (run_scopes run). \<forall>p q.
       \<not> clash resolver run (hash_of memo) (process_set run i) p q)) \<and>
    (err = None \<longrightarrow> run' = run) \<and>
    (\<forall>e. err = Some e \<longrightarrow> (\<exists>i p q low high. clash resolver run (hash_of memo) (process_set run i) p q \<and>
       e = ErrDynamicDuplicate
             (spn_pkg_name_from_qualified (rt_cleave rt) (name_text (id_qualified (pkg_id q)))) low high \<and>
       {low, high} = {id_version (pkg_id p), id_version (pkg_id q)} \<and> spn_semver_leq low high \<and>
       run_retry run' = (if run_forced run = None \<and> \<not> spn_semver_eq low high
         then [\<lparr>pin_name = id_qualified (pkg_id q), pin_version = low\<rparr>,
               \<lparr>pin_name = id_qualified (pkg_id q), pin_version = high\<rparr>]
         else run_retry run)))"
proof -
  obtain found where found: "find_duplicates rt resolver run memo [0..<length (run_scopes run)] = Some found"
    and dec: "case found of
       None \<Rightarrow> (\<forall>i \<in> set [0..<length (run_scopes run)]. \<forall>p q. \<not> clash resolver run (hash_of memo) (process_set run i) p q)
     | Some (p, q) \<Rightarrow> (\<exists>i \<in> set [0..<length (run_scopes run)]. clash resolver run (hash_of memo) (process_set run i) p q)"
    using find_duplicates_correct [OF assms] by blast
  show ?thesis
  proof (cases found)
    case None
    then have "check_dynamic_duplicates rt resolver memo run = Some (None, run)"
      using found by (simp add: check_dynamic_duplicates_def)
    then show ?thesis using dec None by (intro exI [of _ None] exI [of _ run]) simp
  next
    case (Some pq)
    obtain p q where pq: "found = Some (p, q)" using Some by (cases pq) simp
    obtain i where i: "i < length (run_scopes run)" "clash resolver run (hash_of memo) (process_set run i) p q"
      using dec pq by auto
    let ?le = "spn_semver_le (id_version (pkg_id p)) (id_version (pkg_id q))"
    define low where "low = (if ?le then id_version (pkg_id p) else id_version (pkg_id q))"
    define high where "high = (if ?le then id_version (pkg_id q) else id_version (pkg_id p))"
    obtain e run' where chk: "check_dynamic_duplicates rt resolver memo run = Some (Some e, run')"
      "e = ErrDynamicDuplicate
             (spn_pkg_name_from_qualified (rt_cleave rt) (name_text (id_qualified (pkg_id q)))) low high"
      "run_retry run' = (if run_forced run = None \<and> \<not> spn_semver_eq low high
         then [\<lparr>pin_name = id_qualified (pkg_id q), pin_version = low\<rparr>,
               \<lparr>pin_name = id_qualified (pkg_id q), pin_version = high\<rparr>]
         else run_retry run)"
      using found pq by (simp add: check_dynamic_duplicates_def Let_def low_def high_def)
    have "{low, high} = {id_version (pkg_id p), id_version (pkg_id q)}"
      by (auto simp: low_def high_def)
    moreover have "spn_semver_leq low high" by (auto simp: low_def high_def)
    ultimately show ?thesis using chk i by (intro exI [of _ "Some e"] exI [of _ run']) blast
  qed
qed

theorem duplicates_decided_witness:
  "\<exists>memo err run'. check_dynamic_duplicates ex_rt ex_resolver memo (ex_pair []) = Some (err, run')"
proof -
  obtain memo where "nodes_of (ex_pair []) \<subseteq> dom (hash_of memo)" by (rule ex_memo)
  from duplicates_decided [OF ex_order_ok ex_names_distinct ex_known(2) this] show ?thesis by blast
qed

end
