(* ===== verification/Paths.thy ===== *)
theory Paths
  imports Pkg
begin

unbundle bit_operations_syntax

text \<open>
  Rooted paths, \<open>source/core/paths/paths.c\<close>: a path is a root directory of the program and
  a text below it, or an absolute text under no root. A text is classified under the longest root
  that contains it, so one file has one path.

  The path functions of the runtime library (joining, file name, whether a text is absolute) are
  the record \<open>path_lib\<close>. The descriptors of opened directories, and what is read from the
  file system (canonical paths, the working directory, staging names), are left out. Two assertions
  on what the caller gives are left out: a text that is joined to a path is not absolute
  (\<open>spn_path_join\<close>), and the directory of the root of a path is known when the path is made a text
  (\<open>spn_path_str\<close>).
\<close>

record path_lib =
  fs_join :: "string \<Rightarrow> string \<Rightarrow> string"
  fs_name :: "string \<Rightarrow> string"
  fs_absolute :: "string \<Rightarrow> bool"

type_synonym spn_path_root_set_t = u32

record spn_path_roots_t =
  roots_dirs :: "spn_path_root_t \<Rightarrow> string"
  roots_opened :: spn_path_root_set_t
  roots_pinned :: spn_path_root_set_t

text \<open>The values of the loop counters, below \<open>SPN_PATH_ROOT_COUNT\<close>.\<close>

definition path_roots :: "spn_path_root_t list" where
  "path_roots =
     [SPN_PATH_ROOT_NONE, SPN_PATH_ROOT_PROJECT, SPN_PATH_ROOT_STORE, SPN_PATH_ROOT_BUILD,
      SPN_PATH_ROOT_CHECKOUT, SPN_PATH_ROOT_TOOLCHAIN, SPN_PATH_ROOT_INDEX, SPN_PATH_ROOT_RUNTIME,
      SPN_PATH_ROOT_CACHE, SPN_PATH_ROOT_STORAGE]"

section \<open>Roots\<close>

definition root_match :: "string \<Rightarrow> string \<Rightarrow> bool" where
  "root_match dir path \<longleftrightarrow>
     take (length dir) path = dir \<and> (length path = length dir \<or> path ! length dir = CHR ''/'')"

fun root_longest_loop ::
    "(spn_path_root_t \<Rightarrow> string) \<Rightarrow> string \<Rightarrow> spn_path_root_t list \<Rightarrow> spn_path_root_t \<times> nat \<Rightarrow>
     spn_path_root_t" where
  "root_longest_loop dirs str [] (best, longest) = best"
| "root_longest_loop dirs str (r # rs) (best, longest) =
    (if longest < length (dirs r) \<and> root_match (dirs r) str
     then root_longest_loop dirs str rs (r, length (dirs r))
     else root_longest_loop dirs str rs (best, longest))"

definition root_longest :: "spn_path_roots_t \<Rightarrow> string \<Rightarrow> spn_path_root_t" where
  "root_longest roots str =
     root_longest_loop (roots_dirs roots) str path_roots (SPN_PATH_ROOT_NONE, 0)"

definition spn_path_roots_intersect :: "spn_path_roots_t \<Rightarrow> string \<Rightarrow> bool" where
  "spn_path_roots_intersect roots dir \<longleftrightarrow>
     list_ex (\<lambda>r. roots_dirs roots r \<noteq> [] \<and> root_match dir (roots_dirs roots r)) (tl path_roots)"

section \<open>Normal texts\<close>

definition seg_normal :: "string \<Rightarrow> bool" where
  "seg_normal seg \<longleftrightarrow>
    (if seg = [] then False
     else if length seg \<le> 2 \<and> seg ! 0 = CHR ''.'' then \<not> (length seg = 1 \<or> seg ! 1 = CHR ''.'')
     else True)"

text \<open>The loop over the characters; \<open>seg\<close> is the segment read so far.\<close>

fun segments_normal :: "string \<Rightarrow> string \<Rightarrow> bool" where
  "segments_normal [] seg = seg_normal seg"
| "segments_normal (c # cs) seg =
    (if c = CHR ''/'' then seg_normal seg \<and> segments_normal cs [] else segments_normal cs (seg @ [c]))"

definition spn_path_normal :: "string \<Rightarrow> bool" where
  "spn_path_normal path =
    (let rest = (if path \<noteq> [] \<and> path ! 0 = CHR ''/'' then tl path else path)
     in if rest = [] then True else segments_normal rest [])"

section \<open>Paths\<close>

definition spn_path_make :: "spn_path_roots_t \<Rightarrow> string \<Rightarrow> spn_path_t" where
  "spn_path_make roots path =
    (let root = root_longest roots path;
         len = length (roots_dirs roots root);
         skip = (if len < length path then len + 1 else len)
     in if root = SPN_PATH_ROOT_NONE then \<lparr>path_root = SPN_PATH_ROOT_NONE, path_sub = path\<rparr>
        else \<lparr>path_root = root, path_sub = drop skip path\<rparr>)"

definition spn_path_from_root :: "spn_path_root_t \<Rightarrow> spn_path_t" where
  "spn_path_from_root root = \<lparr>path_root = root, path_sub = []\<rparr>"

definition spn_path_join :: "path_lib \<Rightarrow> spn_path_t \<Rightarrow> string \<Rightarrow> spn_path_t" where
  "spn_path_join lib base sub =
     base\<lparr>path_sub := (if path_sub base = [] then sub else fs_join lib (path_sub base) sub)\<rparr>"

definition spn_path_resolve :: "path_lib \<Rightarrow> spn_path_t \<Rightarrow> string \<Rightarrow> spn_path_t" where
  "spn_path_resolve lib base str =
    (if fs_absolute lib str then \<lparr>path_root = SPN_PATH_ROOT_NONE, path_sub = str\<rparr>
     else spn_path_join lib base str)"

definition spn_path_suffix :: "spn_path_t \<Rightarrow> string \<Rightarrow> spn_path_t" where
  "spn_path_suffix path suffix = path\<lparr>path_sub := path_sub path @ suffix\<rparr>"

definition spn_path_str :: "path_lib \<Rightarrow> spn_path_roots_t \<Rightarrow> spn_path_t \<Rightarrow> string" where
  "spn_path_str lib roots path =
    (let dir = roots_dirs roots (path_root path)
     in if path_root path = SPN_PATH_ROOT_NONE then path_sub path
        else if path_sub path = [] then dir else fs_join lib dir (path_sub path))"

definition spn_path_empty :: "spn_path_t \<Rightarrow> bool" where
  "spn_path_empty path \<longleftrightarrow> path_root path = SPN_PATH_ROOT_NONE \<and> path_sub path = []"

definition spn_path_equal :: "spn_path_t \<Rightarrow> spn_path_t \<Rightarrow> bool" where
  "spn_path_equal a b \<longleftrightarrow> path_root a = path_root b \<and> path_sub a = path_sub b"

record spn_path_rel_t =
  rel_within :: bool
  rel_sub :: string

definition spn_path_within :: "spn_path_t \<Rightarrow> spn_path_t \<Rightarrow> spn_path_rel_t" where
  "spn_path_within base path =
    (let b = path_sub base; p = path_sub path; none = \<lparr>rel_within = False, rel_sub = []\<rparr>
     in if path_root base \<noteq> path_root path then none
        else if b = [] then \<lparr>rel_within = path_root base \<noteq> SPN_PATH_ROOT_NONE, rel_sub = p\<rparr>
        else if take (length b) p \<noteq> b then none
        else if length p = length b then \<lparr>rel_within = True, rel_sub = []\<rparr>
        else if p ! length b \<noteq> CHR ''/'' then none
        else \<lparr>rel_within = True, rel_sub = drop (length b + 1) p\<rparr>)"

section \<open>Sets of roots\<close>

definition spn_path_root_mask :: "spn_path_root_t \<Rightarrow> spn_path_root_set_t" where
  "spn_path_root_mask root = push_bit (spn_path_root_rank root) 1"

definition spn_path_pinned_roots :: spn_path_root_set_t where
  "spn_path_pinned_roots =
     (spn_path_root_mask SPN_PATH_ROOT_CHECKOUT OR spn_path_root_mask SPN_PATH_ROOT_TOOLCHAIN)"

text \<open>The test of the callers: the root of a path is pinned.\<close>

definition root_pinned :: "spn_path_root_set_t \<Rightarrow> spn_path_t \<Rightarrow> bool" where
  "root_pinned pinned path \<longleftrightarrow> pinned AND spn_path_root_mask (path_root path) \<noteq> 0"

section \<open>Arguments of a command\<close>

record spn_arg_t =
  arg_prefix :: string
  arg_path :: spn_path_t

definition path_zero :: spn_path_t where
  "path_zero = \<lparr>path_root = SPN_PATH_ROOT_NONE, path_sub = []\<rparr>"

definition spn_arg_lit :: "string \<Rightarrow> spn_arg_t" where
  "spn_arg_lit v = \<lparr>arg_prefix = v, arg_path = path_zero\<rparr>"

definition spn_arg_path :: "spn_path_t \<Rightarrow> spn_arg_t" where
  "spn_arg_path path = \<lparr>arg_prefix = [], arg_path = path\<rparr>"

definition spn_arg_glue :: "string \<Rightarrow> spn_path_t \<Rightarrow> spn_arg_t" where
  "spn_arg_glue prefix path = \<lparr>arg_prefix = prefix, arg_path = path\<rparr>"

definition spn_arg_prepend :: "string \<Rightarrow> spn_arg_t \<Rightarrow> spn_arg_t" where
  "spn_arg_prepend prefix arg = \<lparr>arg_prefix = prefix @ arg_prefix arg, arg_path = arg_path arg\<rparr>"

definition spn_arg_empty :: "spn_arg_t \<Rightarrow> bool" where
  "spn_arg_empty arg \<longleftrightarrow> arg_prefix arg = [] \<and> spn_path_empty (arg_path arg)"

definition spn_arg_str :: "path_lib \<Rightarrow> spn_path_roots_t \<Rightarrow> spn_arg_t \<Rightarrow> string" where
  "spn_arg_str lib roots arg = arg_prefix arg @ spn_path_str lib roots (arg_path arg)"

fun spn_path_root_label :: "spn_path_root_t \<Rightarrow> string" where
  "spn_path_root_label SPN_PATH_ROOT_NONE = ''absolute''"
| "spn_path_root_label SPN_PATH_ROOT_PROJECT = ''project''"
| "spn_path_root_label SPN_PATH_ROOT_STORE = ''store''"
| "spn_path_root_label SPN_PATH_ROOT_BUILD = ''build''"
| "spn_path_root_label SPN_PATH_ROOT_CHECKOUT = ''checkout''"
| "spn_path_root_label SPN_PATH_ROOT_TOOLCHAIN = ''toolchain''"
| "spn_path_root_label SPN_PATH_ROOT_INDEX = ''index''"
| "spn_path_root_label SPN_PATH_ROOT_RUNTIME = ''runtime''"
| "spn_path_root_label SPN_PATH_ROOT_CACHE = ''cache''"
| "spn_path_root_label SPN_PATH_ROOT_STORAGE = ''storage''"
| "spn_path_root_label SPN_PATH_ROOT_COUNT = []"

section \<open>The trees of a package\<close>

record spn_tree_roots_t =
  tree_recipe :: spn_path_t
  tree_source :: spn_path_t

record spn_tree_rel_t =
  trel_tree :: spn_tree_t
  trel_sub :: string

text \<open>\<open>None\<close> is the unreachable branch of \<open>SPN_TREE_NONE\<close>.\<close>

fun spn_tree_root :: "spn_tree_roots_t \<Rightarrow> spn_tree_t \<Rightarrow> spn_path_t option" where
  "spn_tree_root roots SPN_TREE_MANIFEST = Some (tree_recipe roots)"
| "spn_tree_root roots SPN_TREE_SOURCE = Some (tree_source roots)"
| "spn_tree_root roots SPN_TREE_NONE = None"

definition classify :: "path_lib \<Rightarrow> spn_path_roots_t \<Rightarrow> spn_path_t \<Rightarrow> spn_path_t" where
  "classify lib roots path =
    (if path_root path \<noteq> SPN_PATH_ROOT_NONE \<and> roots_dirs roots (path_root path) = [] then path
     else spn_path_make roots (spn_path_str lib roots path))"

definition spn_tree_path ::
    "path_lib \<Rightarrow> spn_path_roots_t \<Rightarrow> spn_tree_roots_t \<Rightarrow> spn_tree_t \<Rightarrow> string \<Rightarrow> spn_path_t option" where
  "spn_tree_path lib roots tree decl str =
     map_option (\<lambda>root. classify lib roots (spn_path_join lib root str)) (spn_tree_root tree decl)"

definition spn_tree_rel :: "spn_tree_roots_t \<Rightarrow> spn_path_t \<Rightarrow> spn_tree_rel_t" where
  "spn_tree_rel roots path =
    (let recipe = spn_path_within (tree_recipe roots) path;
         source = spn_path_within (tree_source roots) path
     in if rel_within recipe \<and>
          (\<not> rel_within source \<or>
           length (path_sub (tree_source roots)) \<le> length (path_sub (tree_recipe roots)))
        then \<lparr>trel_tree = SPN_TREE_MANIFEST, trel_sub = rel_sub recipe\<rparr>
        else if rel_within source then \<lparr>trel_tree = SPN_TREE_SOURCE, trel_sub = rel_sub source\<rparr>
        else \<lparr>trel_tree = SPN_TREE_NONE,
              trel_sub = (if take 1 (path_sub path) = ''/'' then tl (path_sub path) else path_sub path)\<rparr>)"

section \<open>One file, one path\<close>

lemma root_longest_loop_match:
  "best = SPN_PATH_ROOT_NONE \<or> root_match (dirs best) str \<Longrightarrow>
   root_longest_loop dirs str rs (best, longest) = SPN_PATH_ROOT_NONE \<or>
   root_match (dirs (root_longest_loop dirs str rs (best, longest))) str"
  by (induction rs arbitrary: best longest) auto

lemma root_longest_match:
  "root_longest roots str = SPN_PATH_ROOT_NONE \<or>
   root_match (roots_dirs roots (root_longest roots str)) str"
  unfolding root_longest_def by (rule root_longest_loop_match) simp

text \<open>Making a path of a text and writing it out gives the text back.\<close>

lemma path_str_make:
  assumes join: "\<And>a b. fs_join lib a b = a @ ''/'' @ b"
    and "last text \<noteq> CHR ''/''"
  shows "spn_path_str lib roots (spn_path_make roots text) = text"
proof (cases "root_longest roots text = SPN_PATH_ROOT_NONE")
  case True
  then show ?thesis by (simp add: spn_path_make_def spn_path_str_def)
next
  case False
  let ?dir = "roots_dirs roots (root_longest roots text)"
  have match: "root_match ?dir text" using root_longest_match False by blast
  then have pre: "text = ?dir @ drop (length ?dir) text"
    unfolding root_match_def by (metis append_take_drop_id)
  show ?thesis
  proof (cases "length text = length ?dir")
    case True
    then have "text = ?dir" using pre by simp
    then show ?thesis using False True by (simp add: spn_path_make_def spn_path_str_def Let_def)
  next
    case neq: False
    have le: "length ?dir < length text" using match neq unfolding root_match_def
      by (metis le_neq_implies_less length_take min.cobounded1)
    have "text ! length ?dir = CHR ''/''" using match neq by (simp add: root_match_def)
    then have rest: "drop (length ?dir) text = CHR ''/'' # drop (Suc (length ?dir)) text"
      using le by (metis Cons_nth_drop_Suc)
    have "drop (Suc (length ?dir)) text \<noteq> []"
      using rest assms(2) le by (metis drop_eq_Nil2 last_ConsL last_drop not_le)
    then show ?thesis using False le pre rest
      by (simp add: spn_path_make_def spn_path_str_def Let_def join)
  qed
qed

end
