(* ===== verification/Dag.thy ===== *)
theory Dag
  imports Paths "HOL-Library.Monad_Syntax"
begin

text \<open>
  The build graph, \<open>source/core/dag/dag.c\<close>: artifacts (values, files, trees), the actions
  that consume and produce them, the checks of a complete graph, and the keys under which the
  outputs of an action are cached.

  An identifier is an index into the array of its graph; a zero-initialised identifier, which is
  not occupied, is \<open>None\<close>. The assertions that an identifier belongs to the graph are the
  bounds of the indices; those on the arguments of the building operations (an added path is not
  empty, an output with a path is under a root, an action has a function) are left to the caller.
  The assertion of \<open>spn_dag_weak_key\<close> on the digests of the inputs is kept. A digest is a list of bytes; the context of a hash is the list of the
  bytes hashed so far, and the hash function BLAKE3 is an argument. A 64-bit length is hashed as
  its eight bytes in memory, least significant first.
\<close>

section \<open>Data\<close>

type_synonym spn_dag_digest_t = "u8 list"

datatype spn_dag_obs_kind_t =
  SPN_DAG_OBS_FILE
| SPN_DAG_OBS_ABSENT
| SPN_DAG_OBS_ENUMERATION

record spn_dag_obs_t =
  obs_kind :: spn_dag_obs_kind_t
  obs_path :: spn_path_t
  obs_filter :: string

datatype spn_dag_artifact_kind_t =
  SPN_DAG_ARTIFACT_KIND_VALUE
| SPN_DAG_ARTIFACT_KIND_FILE
| SPN_DAG_ARTIFACT_KIND_TREE

record spn_dag_artifact_t =
  af_kind :: spn_dag_artifact_kind_t
  af_name :: string
  af_path :: spn_path_t
  af_materialized :: spn_path_t
  af_digest :: spn_dag_digest_t
  af_producer :: "nat option"
  af_consumers :: "nat list"

datatype spn_dag_action_kind_t =
  SPN_DAG_ACTION_STATIC
| SPN_DAG_ACTION_DISCOVERED
| SPN_DAG_ACTION_UNCACHEABLE

record spn_dag_action_t =
  ac_kind :: spn_dag_action_kind_t
  ac_identity :: spn_dag_digest_t
  ac_consumes :: "nat list"
  ac_produces :: "nat list"
  ac_wrote :: bool

record spn_dag_action_config_t =
  cfg_kind :: spn_dag_action_kind_t
  cfg_identity :: spn_dag_digest_t

record spn_dag_t =
  g_roots :: spn_path_roots_t
  g_artifacts :: "spn_dag_artifact_t list"
  g_actions :: "spn_dag_action_t list"
  g_paths :: "(spn_path_t \<times> nat) list"

text \<open>The errors of the component; \<open>SPN_ERR_EXECUTE\<close> is an error of the function an
  action executes.\<close>

datatype spn_dag_err =
  SPN_ERR_DAG_DUPLICATE_OUTPUT
| SPN_ERR_DAG_PINNED_OUTPUT
| SPN_ERR_DAG_OUTPUT_NAME
| SPN_ERR_DAG_PATH_KIND
| SPN_ERR_DAG_TREE_INPUT
| SPN_ERR_DAG_TREE_ROOT
| SPN_ERR_DAG_NESTED_OUTPUT
| SPN_ERR_DAG_NESTED_INPUT
| SPN_ERR_DAG_MISSING_INPUT
| SPN_ERR_DAG_MISSING_OUTPUT
| SPN_ERR_DAG_CANCELLED
| SPN_ERR_DAG_STALLED
| SPN_ERR_DAG_STAT
| SPN_ERR_DAG_GLOB
| SPN_ERR_DAG_SCRATCH
| SPN_ERR_DAG_TREE
| SPN_ERR_DAG_STORE_READ
| SPN_ERR_DAG_STORE_WRITE
| SPN_ERR_DAG_STORE_MISSING
| SPN_ERR_EXECUTE nat

definition digest_zero :: spn_dag_digest_t where
  "digest_zero = replicate 32 0"

definition spn_dag_digest_valid :: "spn_dag_digest_t \<Rightarrow> bool" where
  "spn_dag_digest_valid digest \<longleftrightarrow> list_ex (\<lambda>b. b \<noteq> 0) digest"

definition spn_dag_digest_equal :: "spn_dag_digest_t \<Rightarrow> spn_dag_digest_t \<Rightarrow> bool" where
  "spn_dag_digest_equal a b \<longleftrightarrow> a = b"

section \<open>Building a graph\<close>

definition spn_dag_new :: "spn_path_roots_t \<Rightarrow> spn_dag_t" where
  "spn_dag_new roots = \<lparr>g_roots = roots, g_artifacts = [], g_actions = [], g_paths = []\<rparr>"

abbreviation spn_dag_find_artifact :: "spn_dag_t \<Rightarrow> nat \<Rightarrow> spn_dag_artifact_t" where
  "spn_dag_find_artifact g i \<equiv> g_artifacts g ! i"

abbreviation spn_dag_find_action :: "spn_dag_t \<Rightarrow> nat \<Rightarrow> spn_dag_action_t" where
  "spn_dag_find_action g i \<equiv> g_actions g ! i"

definition update_artifact ::
    "nat \<Rightarrow> (spn_dag_artifact_t \<Rightarrow> spn_dag_artifact_t) \<Rightarrow> spn_dag_t \<Rightarrow> spn_dag_t" where
  "update_artifact i f g = g\<lparr>g_artifacts := (g_artifacts g)[i := f (g_artifacts g ! i)]\<rparr>"

definition update_action ::
    "nat \<Rightarrow> (spn_dag_action_t \<Rightarrow> spn_dag_action_t) \<Rightarrow> spn_dag_t \<Rightarrow> spn_dag_t" where
  "update_action i f g = g\<lparr>g_actions := (g_actions g)[i := f (g_actions g ! i)]\<rparr>"

definition new_artifact :: "spn_dag_artifact_kind_t \<Rightarrow> spn_dag_artifact_t" where
  "new_artifact kind =
     \<lparr>af_kind = kind, af_name = [], af_path = path_zero, af_materialized = path_zero,
      af_digest = digest_zero, af_producer = None, af_consumers = []\<rparr>"

definition add_artifact :: "spn_dag_t \<Rightarrow> spn_dag_artifact_t \<Rightarrow> nat \<times> spn_dag_t" where
  "add_artifact g artifact =
     (length (g_artifacts g), g\<lparr>g_artifacts := g_artifacts g @ [artifact\<lparr>af_consumers := []\<rparr>]\<rparr>)"

definition spn_dag_add_path :: "spn_dag_t \<Rightarrow> spn_path_t \<Rightarrow> spn_dag_artifact_kind_t \<Rightarrow> nat \<times> spn_dag_t" where
  "spn_dag_add_path g path kind =
    (let fresh = (let (i, g') = add_artifact g ((new_artifact kind)\<lparr>af_path := path\<rparr>)
                  in (i, if ht_get (g_paths g) path = None
                         then g'\<lparr>g_paths := ht_insert path i (g_paths g')\<rparr> else g'))
     in case ht_get (g_paths g) path of
          Some existing \<Rightarrow>
            if af_kind (spn_dag_find_artifact g existing) = kind then (existing, g) else fresh
        | None \<Rightarrow> fresh)"

definition spn_dag_digest :: "(u8 list \<Rightarrow> spn_dag_digest_t) \<Rightarrow> u8 list \<Rightarrow> spn_dag_digest_t" where
  "spn_dag_digest blake3 bytes = blake3 bytes"

definition spn_dag_add_value ::
    "(u8 list \<Rightarrow> spn_dag_digest_t) \<Rightarrow> spn_dag_t \<Rightarrow> u8 list \<Rightarrow> nat \<times> spn_dag_t" where
  "spn_dag_add_value blake3 g bytes =
     add_artifact g ((new_artifact SPN_DAG_ARTIFACT_KIND_VALUE)\<lparr>af_digest := spn_dag_digest blake3 bytes\<rparr>)"

definition spn_dag_add_file :: "spn_dag_t \<Rightarrow> spn_path_t \<Rightarrow> nat \<times> spn_dag_t" where
  "spn_dag_add_file g path = spn_dag_add_path g path SPN_DAG_ARTIFACT_KIND_FILE"

definition spn_dag_add_tree :: "spn_dag_t \<Rightarrow> spn_path_t \<Rightarrow> nat \<times> spn_dag_t" where
  "spn_dag_add_tree g path = spn_dag_add_path g path SPN_DAG_ARTIFACT_KIND_TREE"

definition spn_dag_add_output :: "spn_dag_t \<Rightarrow> string \<Rightarrow> nat \<times> spn_dag_t" where
  "spn_dag_add_output g name =
     add_artifact g ((new_artifact SPN_DAG_ARTIFACT_KIND_FILE)\<lparr>af_name := name\<rparr>)"

definition spn_dag_add_action :: "spn_dag_t \<Rightarrow> spn_dag_action_config_t \<Rightarrow> nat \<times> spn_dag_t" where
  "spn_dag_add_action g config =
     (length (g_actions g),
      g\<lparr>g_actions := g_actions g @
         [\<lparr>ac_kind = cfg_kind config, ac_identity = cfg_identity config, ac_consumes = [],
           ac_produces = [], ac_wrote = False\<rparr>]\<rparr>)"

definition spn_dag_action_add_input :: "spn_dag_t \<Rightarrow> nat \<Rightarrow> nat \<Rightarrow> spn_dag_t" where
  "spn_dag_action_add_input g action_id artifact_id =
     update_artifact artifact_id (\<lambda>a. a\<lparr>af_consumers := af_consumers a @ [action_id]\<rparr>)
       (update_action action_id (\<lambda>a. a\<lparr>ac_consumes := ac_consumes a @ [artifact_id]\<rparr>) g)"

text \<open>The name of an output that has none is taken from its path, and stays set when the
  output is then refused.\<close>

definition spn_dag_action_add_output ::
    "path_lib \<Rightarrow> spn_dag_t \<Rightarrow> nat \<Rightarrow> nat \<Rightarrow> spn_dag_err option \<times> spn_dag_t" where
  "spn_dag_action_add_output lib g action_id artifact_id =
    (let artifact = spn_dag_find_artifact g artifact_id;
         name = (if af_name artifact = [] then fs_name lib (path_sub (af_path artifact)) else af_name artifact);
         g' = update_artifact artifact_id (\<lambda>a. a\<lparr>af_name := name\<rparr>) g
     in if af_producer artifact \<noteq> None then (Some SPN_ERR_DAG_DUPLICATE_OUTPUT, g)
        else if \<not> spn_path_empty (af_path artifact) \<and> root_pinned (roots_pinned (g_roots g)) (af_path artifact)
        then (Some SPN_ERR_DAG_PINNED_OUTPUT, g)
        else if name = [] then (Some SPN_ERR_DAG_OUTPUT_NAME, g')
        else if CHR ''/'' \<in> set name then (Some SPN_ERR_DAG_OUTPUT_NAME, g')
        else if list_ex (\<lambda>p. af_name (spn_dag_find_artifact g' p) = name)
                  (ac_produces (spn_dag_find_action g' action_id))
        then (Some SPN_ERR_DAG_DUPLICATE_OUTPUT, g')
        else (None,
          update_action action_id (\<lambda>a. a\<lparr>ac_produces := ac_produces a @ [artifact_id]\<rparr>)
            (update_artifact artifact_id (\<lambda>a. a\<lparr>af_producer := Some action_id\<rparr>) g')))"

definition spn_dag_output_overlaps :: "spn_dag_artifact_t \<Rightarrow> spn_path_t \<Rightarrow> bool" where
  "spn_dag_output_overlaps artifact path \<longleftrightarrow>
    (if af_producer artifact = None then False
     else rel_within (spn_path_within path (af_path artifact)) \<or>
          (af_kind artifact = SPN_DAG_ARTIFACT_KIND_TREE \<and>
           rel_within (spn_path_within (af_path artifact) path)))"

section \<open>Checking a graph\<close>

text \<open>The loop over the directories above a path. It does not end on a path whose text starts with
  a slash, which is its own parent in the end: \<open>None\<close> is out of fuel.\<close>

primrec tree_above :: "nat \<Rightarrow> spn_dag_t \<Rightarrow> spn_path_t \<Rightarrow> bool option" where
  "tree_above 0 g dir = None"
| "tree_above (Suc fuel) g dir =
    (if path_sub dir = [] then Some False
     else case ht_get (g_paths g) dir of
       Some owner \<Rightarrow>
         if af_kind (spn_dag_find_artifact g owner) = SPN_DAG_ARTIFACT_KIND_TREE then Some True
         else tree_above fuel g (spn_path_parent dir)
     | None \<Rightarrow> tree_above fuel g (spn_path_parent dir))"

record spn_dag_violation_t =
  vio_err :: spn_dag_err
  vio_path :: spn_path_t

text \<open>The check of one artifact: \<open>None\<close> is a path with no entry in the table, or a walk that
  does not end.\<close>

definition check_artifact ::
    "path_lib \<Rightarrow> spn_dag_t \<Rightarrow> nat \<Rightarrow> spn_dag_err option option" where
  "check_artifact lib g i =
    (let artifact = spn_dag_find_artifact g i; path = af_path artifact;
         tree = (af_kind artifact = SPN_DAG_ARTIFACT_KIND_TREE)
     in if spn_path_empty path then Some None
        else case ht_get (g_paths g) path of
          None \<Rightarrow> None
        | Some index \<Rightarrow>
            if index \<noteq> i then Some (Some SPN_ERR_DAG_PATH_KIND)
            else if tree \<and> af_producer artifact = None then Some (Some SPN_ERR_DAG_TREE_INPUT)
            else if tree \<and> spn_path_roots_intersect (g_roots g) (spn_path_str lib (g_roots g) path)
            then Some (Some SPN_ERR_DAG_TREE_ROOT)
            else if path_root path \<noteq> SPN_PATH_ROOT_NONE then
              map_option (\<lambda>found. if \<not> found then None
                   else if af_producer artifact \<noteq> None then Some SPN_ERR_DAG_NESTED_OUTPUT
                   else Some SPN_ERR_DAG_NESTED_INPUT)
                (tree_above (Suc (length (path_sub path))) g (spn_path_parent path))
            else Some None)"

fun validate_from :: "path_lib \<Rightarrow> spn_dag_t \<Rightarrow> nat list \<Rightarrow> spn_dag_violation_t option option" where
  "validate_from lib g [] = Some None"
| "validate_from lib g (i # is) = (case check_artifact lib g i of
     None \<Rightarrow> None
   | Some (Some err) \<Rightarrow>
       Some (Some \<lparr>vio_err = err, vio_path = af_path (spn_dag_find_artifact g i)\<rparr>)
   | Some None \<Rightarrow> validate_from lib g is)"

definition spn_dag_validate :: "path_lib \<Rightarrow> spn_dag_t \<Rightarrow> spn_dag_violation_t option option" where
  "spn_dag_validate lib g = validate_from lib g [0..<length (g_artifacts g)]"

section \<open>Keys\<close>

definition str_bytes :: "string \<Rightarrow> u8 list" where
  "str_bytes s = map (\<lambda>c. of_nat (of_char c)) s"

definition spn_dag_hash_bytes :: "u8 list \<Rightarrow> u8 list \<Rightarrow> u8 list" where
  "spn_dag_hash_bytes ctx bytes = ctx @ bytes"

definition spn_dag_hash_u8 :: "u8 list \<Rightarrow> u8 \<Rightarrow> u8 list" where
  "spn_dag_hash_u8 ctx v = spn_dag_hash_bytes ctx [v]"

definition u64_bytes :: "u64 \<Rightarrow> u8 list" where
  "u64_bytes v = map (\<lambda>i. ucast (drop_bit (8 * i) v)) [0..<8]"

definition spn_dag_hash_u64 :: "u8 list \<Rightarrow> u64 \<Rightarrow> u8 list" where
  "spn_dag_hash_u64 ctx v = spn_dag_hash_bytes ctx (u64_bytes v)"

definition spn_dag_hash_str :: "u8 list \<Rightarrow> string \<Rightarrow> u8 list" where
  "spn_dag_hash_str ctx str =
     spn_dag_hash_bytes (spn_dag_hash_u64 ctx (of_nat (length str))) (str_bytes str)"

definition spn_dag_hash_digest :: "u8 list \<Rightarrow> spn_dag_digest_t \<Rightarrow> u8 list" where
  "spn_dag_hash_digest ctx digest = spn_dag_hash_bytes ctx digest"

definition root_byte :: "spn_path_root_t \<Rightarrow> u8" where
  "root_byte root = of_nat (spn_path_root_rank root)"

definition spn_dag_hash_path :: "u8 list \<Rightarrow> spn_path_t \<Rightarrow> u8 list" where
  "spn_dag_hash_path ctx path =
     spn_dag_hash_str (spn_dag_hash_u8 ctx (root_byte (path_root path))) (path_sub path)"

definition spn_dag_hash_paths :: "u8 list \<Rightarrow> spn_path_t list \<Rightarrow> u8 list" where
  "spn_dag_hash_paths ctx paths =
     foldl spn_dag_hash_path (spn_dag_hash_u64 ctx (of_nat (length paths))) paths"

definition spn_dag_hash_strs :: "u8 list \<Rightarrow> string list \<Rightarrow> u8 list" where
  "spn_dag_hash_strs ctx strs =
     foldl spn_dag_hash_str (spn_dag_hash_u64 ctx (of_nat (length strs))) strs"

definition spn_dag_hash_arg :: "u8 list \<Rightarrow> spn_arg_t \<Rightarrow> u8 list" where
  "spn_dag_hash_arg ctx arg = spn_dag_hash_path (spn_dag_hash_str ctx (arg_prefix arg)) (arg_path arg)"

definition spn_dag_hash_args :: "u8 list \<Rightarrow> spn_arg_t list \<Rightarrow> u8 list" where
  "spn_dag_hash_args ctx args =
     foldl spn_dag_hash_arg (spn_dag_hash_u64 ctx (of_nat (length args))) args"

definition spn_dag_hash_final :: "(u8 list \<Rightarrow> spn_dag_digest_t) \<Rightarrow> u8 list \<Rightarrow> spn_dag_digest_t" where
  "spn_dag_hash_final blake3 ctx = blake3 ctx"

fun artifact_kind_byte :: "spn_dag_artifact_kind_t \<Rightarrow> u8" where
  "artifact_kind_byte SPN_DAG_ARTIFACT_KIND_VALUE = 0"
| "artifact_kind_byte SPN_DAG_ARTIFACT_KIND_FILE = 1"
| "artifact_kind_byte SPN_DAG_ARTIFACT_KIND_TREE = 2"

fun obs_kind_byte :: "spn_dag_obs_kind_t \<Rightarrow> u8" where
  "obs_kind_byte SPN_DAG_OBS_FILE = 0"
| "obs_kind_byte SPN_DAG_OBS_ABSENT = 1"
| "obs_kind_byte SPN_DAG_OBS_ENUMERATION = 2"

text \<open>The two loops of \<open>spn_dag_weak_key\<close>.\<close>

definition hash_input :: "spn_dag_t \<Rightarrow> u8 list \<Rightarrow> nat \<Rightarrow> u8 list" where
  "hash_input g ctx i =
    (let artifact = spn_dag_find_artifact g i
     in spn_dag_hash_digest (spn_dag_hash_u8 ctx (artifact_kind_byte (af_kind artifact))) (af_digest artifact))"

definition hash_output :: "spn_dag_t \<Rightarrow> u8 list \<Rightarrow> nat \<Rightarrow> u8 list" where
  "hash_output g ctx i =
    (let artifact = spn_dag_find_artifact g i
     in spn_dag_hash_str (spn_dag_hash_u8 ctx (artifact_kind_byte (af_kind artifact))) (af_name artifact))"

definition weak_key_bytes :: "spn_dag_t \<Rightarrow> nat \<Rightarrow> u8 list" where
  "weak_key_bytes g action_id =
    (let action = spn_dag_find_action g action_id;
         ctx = spn_dag_hash_str [] ''spn.dag.action.v4'';
         ctx = spn_dag_hash_u64 ctx (ucast (roots_pinned (g_roots g)));
         ctx = spn_dag_hash_digest ctx (ac_identity action);
         ctx = spn_dag_hash_u64 ctx (of_nat (length (ac_consumes action)));
         ctx = foldl (hash_input g) ctx (ac_consumes action);
         ctx = spn_dag_hash_u64 ctx (of_nat (length (ac_produces action)))
     in foldl (hash_output g) ctx (ac_produces action))"

definition inputs_valid :: "spn_dag_t \<Rightarrow> nat \<Rightarrow> bool" where
  "inputs_valid g action_id \<longleftrightarrow>
     list_all (\<lambda>a. spn_dag_digest_valid (af_digest (spn_dag_find_artifact g a)))
       (ac_consumes (spn_dag_find_action g action_id))"

text \<open>\<open>None\<close> is the assertion in the first loop, that every input has a digest.\<close>

definition spn_dag_weak_key ::
    "(u8 list \<Rightarrow> spn_dag_digest_t) \<Rightarrow> spn_dag_t \<Rightarrow> nat \<Rightarrow> spn_dag_digest_t option" where
  "spn_dag_weak_key blake3 g action_id =
    (if inputs_valid g action_id then Some (spn_dag_hash_final blake3 (weak_key_bytes g action_id)) else None)"

definition hash_obs_row :: "u8 list \<Rightarrow> spn_dag_obs_t \<Rightarrow> u8 list" where
  "hash_obs_row ctx obs =
     spn_dag_hash_str
       (spn_dag_hash_str
         (spn_dag_hash_u8 (spn_dag_hash_u8 ctx (obs_kind_byte (obs_kind obs)))
           (root_byte (path_root (obs_path obs))))
         (path_sub (obs_path obs)))
       (obs_filter obs)"

definition strong_key_bytes ::
    "spn_dag_digest_t \<Rightarrow> spn_dag_digest_t \<Rightarrow> (spn_dag_obs_t \<times> spn_dag_digest_t) list \<Rightarrow> u8 list" where
  "strong_key_bytes weak pinned rows =
    (let ctx = spn_dag_hash_str [] ''spn.dag.strong.v8'';
         ctx = spn_dag_hash_digest ctx weak;
         ctx = spn_dag_hash_digest ctx pinned;
         ctx = spn_dag_hash_u64 ctx (of_nat (length rows))
     in foldl (\<lambda>ctx (obs, digest). spn_dag_hash_digest (hash_obs_row ctx obs) digest) ctx rows)"

definition spn_dag_strong_key ::
    "(u8 list \<Rightarrow> spn_dag_digest_t) \<Rightarrow> spn_dag_digest_t \<Rightarrow> spn_dag_digest_t \<Rightarrow> spn_dag_obs_t list \<Rightarrow>
     spn_dag_digest_t list \<Rightarrow> spn_dag_digest_t" where
  "spn_dag_strong_key blake3 weak pinned obs digests =
     spn_dag_hash_final blake3 (strong_key_bytes weak pinned (zip obs digests))"

definition spn_dag_pinned_digest ::
    "(u8 list \<Rightarrow> spn_dag_digest_t) \<Rightarrow> spn_path_root_set_t \<Rightarrow> spn_dag_obs_t list \<Rightarrow> spn_dag_digest_t" where
  "spn_dag_pinned_digest blake3 pinned obs =
    (let rows = filter (\<lambda>o'. root_pinned pinned (obs_path o')) obs;
         ctx = spn_dag_hash_str [] ''spn.dag.pinned.v1'';
         ctx = spn_dag_hash_u64 ctx (of_nat (length rows))
     in spn_dag_hash_final blake3 (foldl hash_obs_row ctx rows))"

definition spn_dag_path_digest :: "(u8 list \<Rightarrow> spn_dag_digest_t) \<Rightarrow> spn_path_t \<Rightarrow> spn_dag_digest_t" where
  "spn_dag_path_digest blake3 path =
     spn_dag_hash_final blake3 (spn_dag_hash_path (spn_dag_hash_str [] ''spn.dag.path.v1'') path)"

section \<open>The text of a digest\<close>

definition hex_digit :: "u8 \<Rightarrow> char" where
  "hex_digit n = ''0123456789abcdef'' ! unat n"

definition spn_dag_digest_hex :: "spn_dag_digest_t \<Rightarrow> string" where
  "spn_dag_digest_hex digest =
     concat (map (\<lambda>b. [hex_digit (drop_bit 4 b), hex_digit (b AND 0xf)]) digest)"

definition hex_nibble :: "char \<Rightarrow> u8 option" where
  "hex_nibble c =
    (let k = (of_char c :: nat)
     in if 48 \<le> k \<and> k \<le> 57 then Some (of_nat (k - 48))
        else if 97 \<le> k \<and> k \<le> 102 then Some (of_nat (k - 97 + 10))
        else None)"

fun parse_bytes :: "string \<Rightarrow> u8 list option" where
  "parse_bytes (a # b # cs) = do {
     hi \<leftarrow> hex_nibble a;
     lo \<leftarrow> hex_nibble b;
     rest \<leftarrow> parse_bytes cs;
     Some ((push_bit 4 hi OR lo) # rest)
   }"
| "parse_bytes _ = Some []"

definition spn_dag_digest_parse :: "string \<Rightarrow> spn_dag_digest_t option" where
  "spn_dag_digest_parse hex = (if length hex \<noteq> 64 then None else parse_bytes hex)"

end
