(* ===== verification/Dag_Rows.thy ===== *)
theory Dag_Rows
  imports Dag
begin

text \<open>
  The texts the caches of the build graph are kept in, first part of
  \<open>source/core/dag/store.c\<close>: rows of outputs, observations and file metadata, and the readers
  that check them.

  A cursor is the text that is left; a reader returns \<open>None\<close> where the code returns false, and
  the callers stop there. The decimal rendering of the runtime library is the record
  \<open>row_lib\<close>. A row is collected in memory, which does not fail; a writer returns \<open>None\<close> only
  where the code refuses a row.
\<close>

type_synonym s64 = "64 word"

record row_lib =
  fmt_uint :: "u64 \<Rightarrow> string"
  fmt_int :: "s64 \<Rightarrow> string"
  row_absolute :: "string \<Rightarrow> bool"

record spn_dag_action_output_t =
  out_name :: string
  out_digest :: spn_dag_digest_t

record spn_dag_pathset_t =
  ps_pinned :: spn_dag_digest_t
  ps_obs :: "spn_dag_obs_t list"

section \<open>Readers\<close>

fun format_obs_kind :: "spn_dag_obs_kind_t \<Rightarrow> char" where
  "format_obs_kind SPN_DAG_OBS_FILE = CHR ''f''"
| "format_obs_kind SPN_DAG_OBS_ABSENT = CHR ''a''"
| "format_obs_kind SPN_DAG_OBS_ENUMERATION = CHR ''e''"

definition parse_obs_kind :: "char \<Rightarrow> spn_dag_obs_kind_t option" where
  "parse_obs_kind c =
    (if c = CHR ''f'' then Some SPN_DAG_OBS_FILE
     else if c = CHR ''a'' then Some SPN_DAG_OBS_ABSENT
     else if c = CHR ''e'' then Some SPN_DAG_OBS_ENUMERATION
     else None)"

definition row_lit :: "char \<Rightarrow> string \<Rightarrow> string option" where
  "row_lit c cursor = (if cursor = [] \<or> hd cursor \<noteq> c then None else Some (tl cursor))"

definition row_digit :: "char \<Rightarrow> bool" where
  "row_digit c \<longleftrightarrow> (48 :: nat) \<le> of_char c \<and> of_char c \<le> (57 :: nat)"

text \<open>The value wraps at 64 bits.\<close>

fun digits_u64 :: "u64 \<Rightarrow> string \<Rightarrow> u64" where
  "digits_u64 v [] = v"
| "digits_u64 v (c # cs) = digits_u64 (v * 10 + of_nat (of_char c - 48)) cs"

definition row_u64 :: "string \<Rightarrow> (u64 \<times> string) option" where
  "row_u64 cursor =
    (let digits = takeWhile row_digit cursor
     in if digits = [] then None else Some (digits_u64 0 digits, dropWhile row_digit cursor))"

text \<open>The negation of the least value, which is undefined in C, wraps here; such a row is
  written only for a time or a size that is the least value.\<close>

definition row_s64 :: "string \<Rightarrow> (s64 \<times> string) option" where
  "row_s64 cursor =
    (let negative = (cursor \<noteq> [] \<and> hd cursor = CHR ''-'')
     in map_option (\<lambda>(v, rest). (if negative then - v else v, rest))
          (row_u64 (if negative then tl cursor else cursor)))"

definition row_bytes :: "u64 \<Rightarrow> string \<Rightarrow> (string \<times> string) option" where
  "row_bytes len cursor =
    (if length cursor < unat len then None else Some (take (unat len) cursor, drop (unat len) cursor))"

definition row_str :: "string \<Rightarrow> (string \<times> string) option" where
  "row_str cursor = do {
     (len, cursor) \<leftarrow> row_u64 cursor;
     cursor \<leftarrow> row_lit (CHR '':'') cursor;
     row_bytes len cursor
   }"

definition row_digest :: "string \<Rightarrow> (spn_dag_digest_t \<times> string) option" where
  "row_digest cursor = do {
     (hex, cursor) \<leftarrow> row_bytes 64 cursor;
     digest \<leftarrow> spn_dag_digest_parse hex;
     Some (digest, cursor)
   }"

definition NL :: char where "NL = CHR 0x0A"

definition row_line :: "string \<Rightarrow> (string \<times> string) option" where
  "row_line cursor = do {
     let line = takeWhile (\<lambda>c. c \<noteq> NL) cursor;
     cursor \<leftarrow> row_lit NL (drop (length line) cursor);
     Some (line, cursor)
   }"

definition row_header :: "char \<Rightarrow> string \<Rightarrow> string option" where
  "row_header version cursor = Option.bind (row_lit version cursor) (row_lit NL)"

section \<open>Outputs\<close>

definition write_header :: "char \<Rightarrow> string" where
  "write_header version = [version, NL]"

definition write_row_str :: "row_lib \<Rightarrow> string \<Rightarrow> string" where
  "write_row_str lib str = fmt_uint lib (of_nat (length str)) @ '':'' @ str"

definition write_output_row :: "row_lib \<Rightarrow> spn_dag_action_output_t \<Rightarrow> string" where
  "write_output_row lib output =
     spn_dag_digest_hex (out_digest output) @ '' '' @ write_row_str lib (out_name output) @ [NL]"

definition parse_output_row :: "string \<Rightarrow> (spn_dag_action_output_t \<times> string) option" where
  "parse_output_row cursor = do {
     (digest, cursor) \<leftarrow> row_digest cursor;
     cursor \<leftarrow> row_lit (CHR '' '') cursor;
     (name, cursor) \<leftarrow> row_str cursor;
     cursor \<leftarrow> row_lit NL cursor;
     Some (\<lparr>out_name = name, out_digest = digest\<rparr>, cursor)
   }"

definition write_outputs :: "row_lib \<Rightarrow> spn_dag_action_output_t list \<Rightarrow> string" where
  "write_outputs lib outputs = write_header (CHR ''2'') @ concat (map (write_output_row lib) outputs)"

lemma row_lit_length: "row_lit c s = Some t \<Longrightarrow> length t < length s"
  by (cases s) (auto simp: row_lit_def split: if_splits)

lemma row_u64_length: "row_u64 s = Some (v, t) \<Longrightarrow> length t \<le> length s"
  by (auto simp: row_u64_def Let_def length_dropWhile_le split: if_splits)

lemma row_s64_length: "row_s64 s = Some (v, t) \<Longrightarrow> length t \<le> length s"
proof -
  assume "row_s64 s = Some (v, t)"
  then obtain w where "row_u64 s = Some (w, t) \<or> row_u64 (tl s) = Some (w, t)"
    by (auto simp: row_s64_def Let_def split: if_splits)
  then show ?thesis using row_u64_length by (metis le_trans length_tl diff_le_self)
qed

lemma row_bytes_length: "row_bytes n s = Some (v, t) \<Longrightarrow> length t \<le> length s"
  by (auto simp: row_bytes_def split: if_splits)

lemma row_str_length: "row_str s = Some (v, t) \<Longrightarrow> length t \<le> length s"
  using row_u64_length row_lit_length row_bytes_length
  by (auto simp: row_str_def split: bind_splits) (meson le_trans less_imp_le)

lemma row_digest_length: "row_digest s = Some (v, t) \<Longrightarrow> length t \<le> length s"
  using row_bytes_length by (auto simp: row_digest_def split: bind_splits)

lemma row_line_length: "row_line s = Some (v, t) \<Longrightarrow> length t < length s"
proof -
  assume "row_line s = Some (v, t)"
  then have "row_lit NL (drop (length v) s) = Some t" by (auto simp: row_line_def Let_def split: bind_splits)
  from row_lit_length [OF this] show ?thesis by simp
qed

lemma parse_output_row_length: "parse_output_row s = Some (v, t) \<Longrightarrow> length t < length s"
  by (auto simp: parse_output_row_def split: bind_splits
      dest!: row_lit_length row_str_length row_digest_length)

function parse_output_rows :: "string \<Rightarrow> spn_dag_action_output_t list option" where
  "parse_output_rows cursor =
    (if cursor = [] then Some []
     else case parse_output_row cursor of
       None \<Rightarrow> None
     | Some (output, rest) \<Rightarrow> map_option ((#) output) (parse_output_rows rest))"
  by pat_completeness auto
termination
  by (relation "measure length") (auto dest: parse_output_row_length)

definition parse_outputs :: "string \<Rightarrow> spn_dag_action_output_t list option" where
  "parse_outputs content = Option.bind (row_header (CHR ''2'') content) parse_output_rows"

section \<open>Observations\<close>

definition write_obs_row :: "row_lib \<Rightarrow> spn_dag_obs_t \<Rightarrow> string option" where
  "write_obs_row lib obs =
    (if NL \<in> set (path_sub (obs_path obs)) then None
     else Some
       ([format_obs_kind (obs_kind obs), CHR '' ''] @
        fmt_uint lib (of_nat (spn_path_root_rank (path_root (obs_path obs)))) @ '' '' @
        (if obs_kind obs = SPN_DAG_OBS_ENUMERATION then write_row_str lib (obs_filter obs) @ '' '' else []) @
        path_sub (obs_path obs) @ [NL]))"

text \<open>The conversion of a number below \<open>SPN_PATH_ROOT_COUNT\<close> to a root.\<close>

definition root_of_u64 :: "u64 \<Rightarrow> spn_path_root_t option" where
  "root_of_u64 root = (if unat root < length path_roots then Some (path_roots ! unat root) else None)"

definition row_rooted :: "row_lib \<Rightarrow> spn_path_root_t \<Rightarrow> string \<Rightarrow> (spn_path_t \<times> string) option" where
  "row_rooted lib root cursor = do {
     (sub, cursor) \<leftarrow> row_line cursor;
     if root = SPN_PATH_ROOT_NONE \<and> \<not> row_absolute lib sub then None
     else Some (\<lparr>path_root = root, path_sub = sub\<rparr>, cursor)
   }"

definition parse_obs_row :: "row_lib \<Rightarrow> string \<Rightarrow> (spn_dag_obs_t \<times> string) option" where
  "parse_obs_row lib cursor = do {
     (kind, cursor) \<leftarrow> row_bytes 1 cursor;
     kind \<leftarrow> parse_obs_kind (kind ! 0);
     cursor \<leftarrow> row_lit (CHR '' '') cursor;
     (root, cursor) \<leftarrow> row_u64 cursor;
     root \<leftarrow> root_of_u64 root;
     cursor \<leftarrow> row_lit (CHR '' '') cursor;
     (filter, cursor) \<leftarrow>
       (if kind = SPN_DAG_OBS_ENUMERATION then do {
          (filter, cursor) \<leftarrow> row_str cursor;
          cursor \<leftarrow> row_lit (CHR '' '') cursor;
          Some (filter, cursor)
        }
        else Some ([], cursor));
     (path, cursor) \<leftarrow> row_rooted lib root cursor;
     Some (\<lparr>obs_kind = kind, obs_path = path, obs_filter = filter\<rparr>, cursor)
   }"

definition obs_version :: char where "obs_version = CHR ''7''"

fun write_obs_rows :: "row_lib \<Rightarrow> spn_dag_obs_t list \<Rightarrow> string option" where
  "write_obs_rows lib [] = Some []"
| "write_obs_rows lib (o' # os) = do {
     row \<leftarrow> write_obs_row lib o';
     rows \<leftarrow> write_obs_rows lib os;
     Some (row @ rows)
   }"

definition write_obs :: "row_lib \<Rightarrow> spn_dag_pathset_t \<Rightarrow> string option" where
  "write_obs lib pathset =
     map_option (\<lambda>rows. write_header obs_version @ spn_dag_digest_hex (ps_pinned pathset) @ [NL] @ rows)
       (write_obs_rows lib (ps_obs pathset))"

lemma row_rooted_length: "row_rooted lib root s = Some (p, t) \<Longrightarrow> length t < length s"
  using row_line_length by (auto simp: row_rooted_def split: bind_splits if_splits)

lemma parse_obs_row_length: "parse_obs_row lib s = Some (v, t) \<Longrightarrow> length t < length s"
  by (auto simp: parse_obs_row_def split: bind_splits if_splits
      dest!: row_bytes_length row_lit_length row_u64_length row_str_length row_rooted_length)

function parse_obs_rows :: "row_lib \<Rightarrow> string \<Rightarrow> spn_dag_obs_t list option" where
  "parse_obs_rows lib cursor =
    (if cursor = [] then Some []
     else case parse_obs_row lib cursor of
       None \<Rightarrow> None
     | Some (o', rest) \<Rightarrow> map_option ((#) o') (parse_obs_rows lib rest))"
  by pat_completeness auto
termination
  by (relation "measure (length \<circ> snd)") (auto dest: parse_obs_row_length)

definition parse_obs :: "row_lib \<Rightarrow> string \<Rightarrow> spn_dag_pathset_t option" where
  "parse_obs lib content = do {
     cursor \<leftarrow> row_header obs_version content;
     (pinned, cursor) \<leftarrow> row_digest cursor;
     cursor \<leftarrow> row_lit NL cursor;
     obs \<leftarrow> parse_obs_rows lib cursor;
     Some \<lparr>ps_pinned = pinned, ps_obs = obs\<rparr>
   }"

section \<open>File metadata\<close>

record spn_dag_file_id_t =
  fid_device :: u64
  fid_inode :: u64

record spn_dag_file_meta_t =
  fm_id :: spn_dag_file_id_t
  fm_sec :: s64
  fm_nsec :: s64
  fm_size :: s64
  fm_digest :: spn_dag_digest_t

definition write_hint_row :: "row_lib \<Rightarrow> spn_path_t \<Rightarrow> spn_dag_file_meta_t \<Rightarrow> string" where
  "write_hint_row lib path meta =
     fmt_uint lib (fid_inode (fm_id meta)) @ '' '' @ fmt_int lib (fm_sec meta) @ '' '' @
     fmt_int lib (fm_nsec meta) @ '' '' @ fmt_int lib (fm_size meta) @ '' '' @
     spn_dag_digest_hex (fm_digest meta) @ '' '' @
     fmt_uint lib (of_nat (spn_path_root_rank (path_root path))) @ '' '' @ path_sub path @ [NL]"

definition parse_hint_row :: "row_lib \<Rightarrow> string \<Rightarrow> ((spn_path_t \<times> spn_dag_file_meta_t) \<times> string) option" where
  "parse_hint_row lib cursor = do {
     (inode, cursor) \<leftarrow> row_u64 cursor;
     cursor \<leftarrow> row_lit (CHR '' '') cursor;
     (sec, cursor) \<leftarrow> row_s64 cursor;
     cursor \<leftarrow> row_lit (CHR '' '') cursor;
     (nsec, cursor) \<leftarrow> row_s64 cursor;
     cursor \<leftarrow> row_lit (CHR '' '') cursor;
     (size, cursor) \<leftarrow> row_s64 cursor;
     cursor \<leftarrow> row_lit (CHR '' '') cursor;
     (digest, cursor) \<leftarrow> row_digest cursor;
     cursor \<leftarrow> row_lit (CHR '' '') cursor;
     (root, cursor) \<leftarrow> row_u64 cursor;
     root \<leftarrow> root_of_u64 root;
     cursor \<leftarrow> row_lit (CHR '' '') cursor;
     (path, cursor) \<leftarrow> row_rooted lib root cursor;
     Some ((path, \<lparr>fm_id = \<lparr>fid_device = 0, fid_inode = inode\<rparr>, fm_sec = sec, fm_nsec = nsec,
                   fm_size = size, fm_digest = digest\<rparr>), cursor)
   }"

lemma parse_hint_row_length: "parse_hint_row lib s = Some (v, t) \<Longrightarrow> length t < length s"
  by (auto simp: parse_hint_row_def split: bind_splits
      dest!: row_lit_length row_u64_length row_s64_length row_digest_length row_rooted_length)

text \<open>The rows of a hints file; the flag is false when a bad row stopped the loop.\<close>

function parse_hint_rows ::
    "row_lib \<Rightarrow> string \<Rightarrow> (spn_path_t \<times> spn_dag_file_meta_t) list \<times> bool" where
  "parse_hint_rows lib cursor =
    (if cursor = [] then ([], True)
     else case parse_hint_row lib cursor of
       None \<Rightarrow> ([], False)
     | Some (row, rest) \<Rightarrow> (let (rows, ok) = parse_hint_rows lib rest in (row # rows, ok)))"
  by pat_completeness auto
termination
  by (relation "measure (length \<circ> snd)") (auto dest: parse_hint_row_length)

end
