(* ===== verification/Dag_Store.thy ===== *)
theory Dag_Store
  imports Dag_Rows
begin

text \<open>
  What the build keeps between actions and between runs: the cache of file digests
  (\<open>run.c\<close>, \<open>stamp.c\<close>), the cache of action outputs, the table of observations
  and the store of blobs (\<open>store.c\<close>).

  The file system is a world of some type with the operations of the record \<open>dag_lib\<close>, which
  stand for the functions of the runtime library and the operating system; every operation of the
  code that touches it passes the world along. Mutexes are left out: each of these operations is
  one atomic step. Counters for statistics are left out.
\<close>

section \<open>The operating system\<close>

datatype sp_rc = SP_OK | SP_ERR_SYS_NOT_FOUND | SP_ERR_SYS_OTHER

datatype sp_fs_kind_t = SP_FS_KIND_FILE | SP_FS_KIND_DIR | SP_FS_KIND_OTHER

record sp_sys_file_meta_t =
  sm_kind :: sp_fs_kind_t
  sm_device :: u64
  sm_id :: u64
  sm_sec :: s64
  sm_nsec :: s64
  sm_size :: s64

record sp_fs_entry_t =
  fe_name :: string
  fe_kind :: sp_fs_kind_t

record 'w dag_lib =
  lib_path :: path_lib
  lib_row :: row_lib
  lib_roots :: spn_path_roots_t
  lib_blake3 :: "u8 list \<Rightarrow> spn_dag_digest_t"
  fs_meta :: "spn_path_t \<Rightarrow> 'w \<Rightarrow> sp_rc + sp_sys_file_meta_t"
  fs_read :: "spn_path_t \<Rightarrow> 'w \<Rightarrow> string option"
  fs_write :: "spn_path_t \<Rightarrow> string \<Rightarrow> 'w \<Rightarrow> bool \<times> 'w"
  fs_remove_file :: "spn_path_t \<Rightarrow> 'w \<Rightarrow> bool \<times> 'w"
  fs_remove_dir :: "spn_path_t \<Rightarrow> 'w \<Rightarrow> bool \<times> 'w"
  fs_create_dir :: "spn_path_t \<Rightarrow> 'w \<Rightarrow> bool \<times> 'w"
  fs_create_parent :: "spn_path_t \<Rightarrow> 'w \<Rightarrow> 'w"
  fs_set_readonly :: "spn_path_t \<Rightarrow> 'w \<Rightarrow> bool \<times> 'w"
  fs_hard_link :: "spn_path_t \<Rightarrow> spn_path_t \<Rightarrow> 'w \<Rightarrow> sp_rc \<times> 'w"
  fs_copy :: "spn_path_t \<Rightarrow> spn_path_t \<Rightarrow> 'w \<Rightarrow> sp_rc \<times> 'w"
  fs_rename :: "spn_path_t \<Rightarrow> spn_path_t \<Rightarrow> 'w \<Rightarrow> sp_rc \<times> 'w"
  fs_walk :: "spn_path_t \<Rightarrow> 'w \<Rightarrow> sp_fs_entry_t list \<times> bool"
  fs_list :: "spn_path_t \<Rightarrow> 'w \<Rightarrow> sp_fs_entry_t list"
  lib_glob :: "string \<Rightarrow> (string \<Rightarrow> bool) option"
  lib_kind_byte :: "sp_fs_kind_t \<Rightarrow> u8"
  lib_str_cmp :: "string \<Rightarrow> string \<Rightarrow> int"
  sort_obs :: "(spn_dag_obs_t \<Rightarrow> spn_dag_obs_t \<Rightarrow> int) \<Rightarrow> spn_dag_obs_t list \<Rightarrow> spn_dag_obs_t list"
  sort_outputs :: "(spn_dag_action_output_t \<Rightarrow> spn_dag_action_output_t \<Rightarrow> int) \<Rightarrow>
    spn_dag_action_output_t list \<Rightarrow> spn_dag_action_output_t list"
  sort_members :: "(sp_fs_entry_t \<Rightarrow> sp_fs_entry_t \<Rightarrow> int) \<Rightarrow> sp_fs_entry_t list \<Rightarrow> sp_fs_entry_t list"
  hint_order :: "(spn_path_t \<times> spn_dag_file_meta_t) list \<Rightarrow> (spn_path_t \<times> spn_dag_file_meta_t) list"

section \<open>State\<close>

record spn_dag_stamp_t =
  stamp_sec :: s64
  stamp_nsec :: s64
  stamp_dir :: spn_path_t

record spn_dag_file_cache_t =
  fc_entries :: "(spn_dag_file_id_t \<times> spn_dag_file_meta_t) list"
  fc_metadata :: "(spn_path_t \<times> sp_sys_file_meta_t) list"
  fc_hints :: "(spn_path_t \<times> spn_dag_file_meta_t) list"
  fc_hints_dirty :: bool
  fc_stamp :: spn_dag_stamp_t

record spn_dag_action_cache_t =
  acc_dir :: spn_path_t
  acc_entries :: "(spn_dag_digest_t \<times> spn_dag_action_output_t list) list"

record spn_dag_obs_table_t =
  obt_dir :: spn_path_t
  obt_entries :: "(spn_dag_digest_t \<times> spn_dag_pathset_t) list"

datatype spn_dag_store_kind_t = SPN_DAG_STORE_MEM | SPN_DAG_STORE_FILESYSTEM

record spn_dag_store_t =
  st_kind :: spn_dag_store_kind_t
  st_dir :: spn_path_t
  st_blobs :: "(spn_dag_digest_t \<times> string) list"

record 'w spn_dag_env_t =
  env_world :: 'w
  env_files :: spn_dag_file_cache_t
  env_cache :: spn_dag_action_cache_t
  env_discovery :: spn_dag_obs_table_t
  env_store :: spn_dag_store_t
  env_scratch :: spn_path_t

text \<open>An operation on the world that returns a value, and one that only changes it.\<close>

definition with_world :: "('w \<Rightarrow> 'a \<times> 'w) \<Rightarrow> 'w spn_dag_env_t \<Rightarrow> 'a \<times> 'w spn_dag_env_t" where
  "with_world f env = (let (v, w) = f (env_world env) in (v, env\<lparr>env_world := w\<rparr>))"

definition update_files ::
    "(spn_dag_file_cache_t \<Rightarrow> spn_dag_file_cache_t) \<Rightarrow> 'w spn_dag_env_t \<Rightarrow> 'w spn_dag_env_t" where
  "update_files f env = env\<lparr>env_files := f (env_files env)\<rparr>"

section \<open>The file cache\<close>

definition is_timespec_equal :: "s64 \<times> s64 \<Rightarrow> s64 \<times> s64 \<Rightarrow> bool" where
  "is_timespec_equal a b \<longleftrightarrow> fst a = fst b \<and> snd a = snd b"

definition file_meta_from_sys :: "sp_sys_file_meta_t \<Rightarrow> spn_dag_file_meta_t" where
  "file_meta_from_sys sys =
     \<lparr>fm_id = \<lparr>fid_device = sm_device sys, fid_inode = sm_id sys\<rparr>, fm_sec = sm_sec sys,
      fm_nsec = sm_nsec sys, fm_size = sm_size sys, fm_digest = digest_zero\<rparr>"

definition file_meta_current :: "spn_dag_file_meta_t \<Rightarrow> sp_sys_file_meta_t \<Rightarrow> bool" where
  "file_meta_current meta sys \<longleftrightarrow>
    (if fid_device (fm_id meta) \<noteq> 0 \<and> fid_device (fm_id meta) \<noteq> sm_device sys then False
     else if fid_inode (fm_id meta) \<noteq> sm_id sys then False
     else if \<not> is_timespec_equal (fm_sec meta, fm_nsec meta) (sm_sec sys, sm_nsec sys) then False
     else fm_size meta = sm_size sys)"

definition spn_dag_stamp_fenced :: "s64 \<times> s64 \<Rightarrow> s64 \<times> s64 \<Rightarrow> bool" where
  "spn_dag_stamp_fenced fence mtime \<longleftrightarrow>
    (if fst mtime \<noteq> fst fence then sint (fst mtime) < sint (fst fence)
     else sint (snd mtime) < sint (snd fence))"

text \<open>The time of the file system: the modification time of a file written now.\<close>

definition spn_dag_stamp_probe ::
    "'w dag_lib \<Rightarrow> spn_path_t \<Rightarrow> 'w spn_dag_env_t \<Rightarrow> (spn_dag_err + s64 \<times> s64) \<times> 'w spn_dag_env_t" where
  "spn_dag_stamp_probe lib dir env =
    (let path = spn_path_join (lib_path lib) dir ''.fence'';
         (ok, env) = with_world (fs_write lib path ''fence'') env
     in if \<not> ok then (Inl SPN_ERR_DAG_SCRATCH, env)
        else case fs_meta lib path (env_world env) of
          Inl _ \<Rightarrow> (Inl SPN_ERR_DAG_STAT, env)
        | Inr meta \<Rightarrow> (Inr (sm_sec meta, sm_nsec meta), env))"

definition set_stamp :: "s64 \<times> s64 \<Rightarrow> spn_path_t \<Rightarrow> 'w spn_dag_env_t \<Rightarrow> 'w spn_dag_env_t" where
  "set_stamp fence dir =
     update_files (\<lambda>c. c\<lparr>fc_stamp := \<lparr>stamp_sec = fst fence, stamp_nsec = snd fence, stamp_dir = dir\<rparr>\<rparr>)"

text \<open>A file is recorded only if it is older than the fence; the fence is moved once when the
  file is not.\<close>

definition spn_dag_stamp_admit ::
    "'w dag_lib \<Rightarrow> s64 \<times> s64 \<Rightarrow> 'w spn_dag_env_t \<Rightarrow> (spn_dag_err + bool) \<times> 'w spn_dag_env_t" where
  "spn_dag_stamp_admit lib mtime env =
    (let stamp = fc_stamp (env_files env);
         admit = spn_dag_stamp_fenced (stamp_sec stamp, stamp_nsec stamp) mtime
     in if admit \<or> spn_path_empty (stamp_dir stamp) then (Inr admit, env)
        else case spn_dag_stamp_probe lib (stamp_dir stamp) env of
          (Inl err, env) \<Rightarrow> (Inl err, env)
        | (Inr probe, env) \<Rightarrow>
            (Inr (spn_dag_stamp_fenced probe mtime), set_stamp probe (stamp_dir stamp) env))"

definition spn_dag_file_cache_fence :: "s64 \<times> s64 \<Rightarrow> 'w spn_dag_env_t \<Rightarrow> 'w spn_dag_env_t" where
  "spn_dag_file_cache_fence fence = set_stamp fence path_zero"

definition spn_dag_file_cache_fence_dir ::
    "'w dag_lib \<Rightarrow> spn_path_t \<Rightarrow> 'w spn_dag_env_t \<Rightarrow> spn_dag_err option \<times> 'w spn_dag_env_t" where
  "spn_dag_file_cache_fence_dir lib dir env =
    (case spn_dag_stamp_probe lib dir env of
       (Inl err, env) \<Rightarrow> (Some err, env)
     | (Inr fence, env) \<Rightarrow> (None, set_stamp fence dir env))"

definition spn_dag_file_cache_invalidate :: "spn_path_t \<Rightarrow> 'w spn_dag_env_t \<Rightarrow> 'w spn_dag_env_t" where
  "spn_dag_file_cache_invalidate path =
     update_files (\<lambda>c. c\<lparr>fc_metadata := ht_erase path (fc_metadata c)\<rparr>)"

definition spn_dag_file_cache_invalidate_all :: "'w spn_dag_env_t \<Rightarrow> 'w spn_dag_env_t" where
  "spn_dag_file_cache_invalidate_all = update_files (\<lambda>c. c\<lparr>fc_metadata := []\<rparr>)"

text \<open>\<open>None\<close> is the error \<open>SPN_ERR_DAG_STAT\<close>.\<close>

definition spn_dag_file_cache_stat ::
    "'w dag_lib \<Rightarrow> spn_path_t \<Rightarrow> 'w spn_dag_env_t \<Rightarrow> sp_sys_file_meta_t option \<times> 'w spn_dag_env_t" where
  "spn_dag_file_cache_stat lib path env =
    (case ht_get (fc_metadata (env_files env)) path of
       Some cached \<Rightarrow> (Some cached, env)
     | None \<Rightarrow>
        (case fs_meta lib path (env_world env) of
           Inl _ \<Rightarrow> (None, env)
         | Inr sys \<Rightarrow>
             (Some sys, update_files (\<lambda>c. c\<lparr>fc_metadata := ht_insert path sys (fc_metadata c)\<rparr>) env)))"

definition spn_dag_file_cache_recorded ::
    "'w dag_lib \<Rightarrow> spn_path_t \<Rightarrow> 'w spn_dag_env_t \<Rightarrow> bool \<times> 'w spn_dag_env_t" where
  "spn_dag_file_cache_recorded lib path env =
    (case spn_dag_file_cache_stat lib path env of
       (None, env) \<Rightarrow> (False, env)
     | (Some sys, env) \<Rightarrow>
        (case ht_get (fc_hints (env_files env)) path of
           None \<Rightarrow> (False, env)
         | Some hint \<Rightarrow> (file_meta_current hint sys, env)))"

definition file_cache_record :: "spn_path_t \<Rightarrow> spn_dag_file_meta_t \<Rightarrow> 'w spn_dag_env_t \<Rightarrow> 'w spn_dag_env_t" where
  "file_cache_record path meta =
     update_files (\<lambda>c. c\<lparr>fc_entries := ht_insert (fm_id meta) meta (fc_entries c),
                         fc_hints := ht_insert path meta (fc_hints c), fc_hints_dirty := True\<rparr>)"

definition spn_digest_file :: "'w dag_lib \<Rightarrow> spn_path_t \<Rightarrow> 'w \<Rightarrow> spn_dag_digest_t option" where
  "spn_digest_file lib path w = map_option (\<lambda>content. lib_blake3 lib (str_bytes content)) (fs_read lib path w)"

text \<open>The digest of a file: from the entry of its inode, from the hint of its path, or from its
  content. \<open>Inl None\<close> is the generic error of a file that cannot be read.\<close>

definition spn_dag_file_cache_digest ::
    "'w dag_lib \<Rightarrow> spn_path_t \<Rightarrow> 'w spn_dag_env_t \<Rightarrow>
     (spn_dag_err option + spn_dag_digest_t) \<times> 'w spn_dag_env_t" where
  "spn_dag_file_cache_digest lib path env =
    (case spn_dag_file_cache_stat lib path env of
       (None, env) \<Rightarrow> (Inl (Some SPN_ERR_DAG_STAT), env)
     | (Some sys, env) \<Rightarrow>
        (let fresh = file_meta_from_sys sys; c = env_files env;
             cached = (case ht_get (fc_entries c) (fm_id fresh) of
                         Some m \<Rightarrow> if file_meta_current m sys then Some m else None | None \<Rightarrow> None);
             hint = (case ht_get (fc_hints c) path of
                       Some m \<Rightarrow> if file_meta_current m sys \<and> spn_dag_digest_valid (fm_digest m)
                                  then Some m else None | None \<Rightarrow> None)
         in case cached of
              Some m \<Rightarrow> (Inr (fm_digest m), env)
            | None \<Rightarrow>
               (case hint of
                  Some m \<Rightarrow>
                    (let m' = m\<lparr>fm_id := (fm_id m)\<lparr>fid_device := sm_device sys\<rparr>\<rparr>
                     in (Inr (fm_digest m),
                         update_files (\<lambda>c. c\<lparr>fc_hints := ht_insert path m' (fc_hints c),
                                             fc_entries := ht_insert (fm_id m') m' (fc_entries c)\<rparr>) env))
                | None \<Rightarrow>
                   (case spn_dag_stamp_admit lib (fm_sec fresh, fm_nsec fresh) env of
                      (Inl err, env) \<Rightarrow> (Inl (Some err), env)
                    | (Inr recorded, env) \<Rightarrow>
                       (case spn_digest_file lib path (env_world env) of
                          None \<Rightarrow> (Inl None, env)
                        | Some digest \<Rightarrow>
                            (Inr digest,
                             if recorded then file_cache_record path (fresh\<lparr>fm_digest := digest\<rparr>) env
                             else env))))))"

definition spn_dag_file_cache_seed ::
    "'w dag_lib \<Rightarrow> spn_path_t \<Rightarrow> spn_dag_digest_t \<Rightarrow> 'w spn_dag_env_t \<Rightarrow>
     spn_dag_err option \<times> 'w spn_dag_env_t" where
  "spn_dag_file_cache_seed lib path digest env =
    (case spn_dag_file_cache_stat lib path (spn_dag_file_cache_invalidate path env) of
       (None, env) \<Rightarrow> (Some SPN_ERR_DAG_STAT, env)
     | (Some sys, env) \<Rightarrow>
         (None, file_cache_record path ((file_meta_from_sys sys)\<lparr>fm_digest := digest\<rparr>) env))"

definition spn_dag_file_cache_load :: "'w dag_lib \<Rightarrow> spn_path_t \<Rightarrow> 'w spn_dag_env_t \<Rightarrow> 'w spn_dag_env_t" where
  "spn_dag_file_cache_load lib path env =
    (let remove = (\<lambda>env. snd (with_world (fs_remove_file lib path) env))
     in case fs_read lib path (env_world env) of
       None \<Rightarrow> env
     | Some content \<Rightarrow>
        (case row_header (CHR ''3'') content of
           None \<Rightarrow> remove env
         | Some cursor \<Rightarrow>
            (let (rows, ok) = parse_hint_rows (lib_row lib) cursor;
                 env = update_files (\<lambda>c. c\<lparr>fc_hints :=
                         fold (\<lambda>(p, m). ht_insert p m) rows (fc_hints c)\<rparr>) env
             in if ok then env else remove env)))"

definition spn_dag_file_cache_flush :: "'w dag_lib \<Rightarrow> spn_path_t \<Rightarrow> 'w spn_dag_env_t \<Rightarrow> 'w spn_dag_env_t" where
  "spn_dag_file_cache_flush lib path env =
    (if \<not> fc_hints_dirty (env_files env) then env
     else
       (let rows = filter (\<lambda>(p, m). NL \<notin> set (path_sub p)) (hint_order lib (fc_hints (env_files env)));
            text = write_header (CHR ''3'') @ concat (map (\<lambda>(p, m). write_hint_row (lib_row lib) p m) rows);
            env = env\<lparr>env_world := fs_create_parent lib path (env_world env)\<rparr>;
            env = snd (with_world (fs_write lib path text) env)
        in update_files (\<lambda>c. c\<lparr>fc_hints_dirty := False\<rparr>) env))"

section \<open>The caches of outputs and observations\<close>

definition entry_path :: "'w dag_lib \<Rightarrow> spn_path_t \<Rightarrow> spn_dag_digest_t \<Rightarrow> spn_path_t" where
  "entry_path lib dir key = spn_path_join (lib_path lib) dir (spn_dag_digest_hex key @ ''.txt'')"

definition load_outputs ::
    "'w dag_lib \<Rightarrow> spn_dag_digest_t \<Rightarrow> 'w spn_dag_env_t \<Rightarrow>
     spn_dag_action_output_t list option \<times> 'w spn_dag_env_t" where
  "load_outputs lib key env =
    (let path = entry_path lib (acc_dir (env_cache env)) key
     in case fs_read lib path (env_world env) of
          None \<Rightarrow> (None, env)
        | Some content \<Rightarrow>
           (case parse_outputs content of
              None \<Rightarrow> (None, snd (with_world (fs_remove_file lib path) env))
            | Some outputs \<Rightarrow> (Some outputs, env)))"

definition save_outputs ::
    "'w dag_lib \<Rightarrow> spn_dag_digest_t \<Rightarrow> spn_dag_action_output_t list \<Rightarrow> 'w spn_dag_env_t \<Rightarrow> 'w spn_dag_env_t" where
  "save_outputs lib key outputs env =
     snd (with_world (fs_write lib (entry_path lib (acc_dir (env_cache env)) key)
            (write_outputs (lib_row lib) outputs)) env)"

definition save_obs ::
    "'w dag_lib \<Rightarrow> spn_dag_digest_t \<Rightarrow> spn_dag_pathset_t \<Rightarrow> 'w spn_dag_env_t \<Rightarrow> 'w spn_dag_env_t" where
  "save_obs lib key pathset env =
    (case write_obs (lib_row lib) pathset of
       None \<Rightarrow> env
     | Some text \<Rightarrow>
         snd (with_world (fs_write lib (entry_path lib (obt_dir (env_discovery env)) key) text) env))"

definition update_cache ::
    "((spn_dag_digest_t \<times> spn_dag_action_output_t list) list \<Rightarrow>
      (spn_dag_digest_t \<times> spn_dag_action_output_t list) list) \<Rightarrow> 'w spn_dag_env_t \<Rightarrow> 'w spn_dag_env_t" where
  "update_cache f env = env\<lparr>env_cache := (env_cache env)\<lparr>acc_entries := f (acc_entries (env_cache env))\<rparr>\<rparr>"

definition spn_dag_action_cache_get ::
    "'w dag_lib \<Rightarrow> spn_dag_digest_t \<Rightarrow> 'w spn_dag_env_t \<Rightarrow>
     spn_dag_action_output_t list option \<times> 'w spn_dag_env_t" where
  "spn_dag_action_cache_get lib key env =
    (case ht_get (acc_entries (env_cache env)) key of
       Some cached \<Rightarrow> (Some cached, env)
     | None \<Rightarrow>
        if spn_path_empty (acc_dir (env_cache env)) then (None, env)
        else case load_outputs lib key env of
          (None, env) \<Rightarrow> (None, env)
        | (Some outputs, env) \<Rightarrow> (Some outputs, update_cache (ht_insert key outputs) env))"

definition spn_dag_action_cache_put ::
    "'w dag_lib \<Rightarrow> spn_dag_digest_t \<Rightarrow> spn_dag_action_output_t list \<Rightarrow> 'w spn_dag_env_t \<Rightarrow> 'w spn_dag_env_t" where
  "spn_dag_action_cache_put lib key outputs env =
    (let env = update_cache (ht_insert key outputs) env
     in if spn_path_empty (acc_dir (env_cache env)) then env else save_outputs lib key outputs env)"

definition spn_dag_action_cache_remove ::
    "'w dag_lib \<Rightarrow> spn_dag_digest_t \<Rightarrow> 'w spn_dag_env_t \<Rightarrow> bool \<times> 'w spn_dag_env_t" where
  "spn_dag_action_cache_remove lib key env =
    (let removed = (ht_get (acc_entries (env_cache env)) key \<noteq> None);
         env = update_cache (ht_erase key) env;
         path = entry_path lib (acc_dir (env_cache env)) key
     in if spn_path_empty (acc_dir (env_cache env)) then (removed, env)
        else case fs_meta lib path (env_world env) of
          Inl _ \<Rightarrow> (removed, env)
        | Inr _ \<Rightarrow> (True, snd (with_world (fs_remove_file lib path) env)))"

definition update_discovery ::
    "((spn_dag_digest_t \<times> spn_dag_pathset_t) list \<Rightarrow> (spn_dag_digest_t \<times> spn_dag_pathset_t) list) \<Rightarrow>
     'w spn_dag_env_t \<Rightarrow> 'w spn_dag_env_t" where
  "update_discovery f env =
     env\<lparr>env_discovery := (env_discovery env)\<lparr>obt_entries := f (obt_entries (env_discovery env))\<rparr>\<rparr>"

definition spn_dag_obs_table_get ::
    "'w dag_lib \<Rightarrow> spn_dag_digest_t \<Rightarrow> 'w spn_dag_env_t \<Rightarrow> spn_dag_pathset_t option \<times> 'w spn_dag_env_t" where
  "spn_dag_obs_table_get lib weak env =
    (let path = entry_path lib (obt_dir (env_discovery env)) weak
     in case ht_get (obt_entries (env_discovery env)) weak of
          Some cached \<Rightarrow> (Some cached, env)
        | None \<Rightarrow>
           if spn_path_empty (obt_dir (env_discovery env)) then (None, env)
           else case fs_read lib path (env_world env) of
             None \<Rightarrow> (None, env)
           | Some content \<Rightarrow>
              (case parse_obs (lib_row lib) content of
                 Some loaded \<Rightarrow> (Some loaded, update_discovery (ht_insert weak loaded) env)
               | None \<Rightarrow> (None, snd (with_world (fs_remove_file lib path) env))))"

definition spn_dag_observe :: "spn_dag_obs_t \<Rightarrow> spn_dag_obs_t list \<Rightarrow> spn_dag_obs_t list" where
  "spn_dag_observe obs rows = rows @ [obs]"

text \<open>The rows under pinned roots are replaced by one digest.\<close>

definition spn_dag_obs_set_put ::
    "'w dag_lib \<Rightarrow> spn_dag_obs_t list \<Rightarrow> spn_dag_digest_t \<Rightarrow> 'w spn_dag_env_t \<Rightarrow>
     spn_dag_pathset_t \<times> 'w spn_dag_env_t" where
  "spn_dag_obs_set_put lib rows weak env =
    (let pinned = roots_pinned (lib_roots lib);
         stored = \<lparr>ps_pinned = spn_dag_pinned_digest (lib_blake3 lib) pinned rows,
                   ps_obs = filter (\<lambda>o'. \<not> root_pinned pinned (obs_path o')) rows\<rparr>;
         env = update_discovery (ht_insert weak stored) env
     in (stored, if spn_path_empty (obt_dir (env_discovery env)) then env else save_obs lib weak stored env))"

section \<open>The store of blobs\<close>

definition get_blob_name :: "'w dag_lib \<Rightarrow> string \<Rightarrow> string" where
  "get_blob_name lib name = (let base = fs_name (lib_path lib) name in if base = [] then ''blob'' else base)"

definition get_blob_dir :: "'w dag_lib \<Rightarrow> spn_dag_store_t \<Rightarrow> spn_dag_digest_t \<Rightarrow> spn_path_t" where
  "get_blob_dir lib store digest = spn_path_join (lib_path lib) (st_dir store) (spn_dag_digest_hex digest)"

definition get_blob :: "'w dag_lib \<Rightarrow> spn_dag_store_t \<Rightarrow> spn_dag_digest_t \<Rightarrow> string \<Rightarrow> spn_path_t" where
  "get_blob lib store digest name =
     spn_path_join (lib_path lib) (get_blob_dir lib store digest) (get_blob_name lib name)"

definition is_file :: "'w dag_lib \<Rightarrow> spn_path_t \<Rightarrow> 'w \<Rightarrow> bool" where
  "is_file lib path w \<longleftrightarrow> (case fs_meta lib path w of Inl _ \<Rightarrow> False | Inr m \<Rightarrow> sm_kind m = SP_FS_KIND_FILE)"

definition update_blobs ::
    "((spn_dag_digest_t \<times> string) list \<Rightarrow> (spn_dag_digest_t \<times> string) list) \<Rightarrow>
     'w spn_dag_env_t \<Rightarrow> 'w spn_dag_env_t" where
  "update_blobs f env = env\<lparr>env_store := (env_store env)\<lparr>st_blobs := f (st_blobs (env_store env))\<rparr>\<rparr>"

definition spn_dag_store_put ::
    "'w dag_lib \<Rightarrow> string \<Rightarrow> string \<Rightarrow> 'w spn_dag_env_t \<Rightarrow>
     spn_dag_err option \<times> spn_dag_digest_t \<times> 'w spn_dag_env_t" where
  "spn_dag_store_put lib content name env =
    (let digest = spn_dag_digest (lib_blake3 lib) (str_bytes content);
         blob = get_blob lib (env_store env) digest name
     in case st_kind (env_store env) of
          SPN_DAG_STORE_MEM \<Rightarrow>
            (None, digest,
             if ht_get (st_blobs (env_store env)) digest = None
             then update_blobs (ht_insert digest content) env else env)
        | SPN_DAG_STORE_FILESYSTEM \<Rightarrow>
            if is_file lib blob (env_world env) then (None, digest, env)
            else
              (let (_, env) = with_world (fs_create_dir lib (get_blob_dir lib (env_store env) digest)) env;
                   (written, env) = with_world (fs_write lib blob content) env
               in if \<not> written then (Some SPN_ERR_DAG_STORE_WRITE, digest, env)
                  else let (ok, env) = with_world (fs_set_readonly lib blob) env
                       in (if ok then None else Some SPN_ERR_DAG_STORE_WRITE, digest, env)))"

definition spn_dag_store_put_file ::
    "'w dag_lib \<Rightarrow> spn_path_t \<Rightarrow> string \<Rightarrow> 'w spn_dag_env_t \<Rightarrow>
     (spn_dag_err + spn_dag_digest_t) \<times> 'w spn_dag_env_t" where
  "spn_dag_store_put_file lib path name env =
    (case fs_read lib path (env_world env) of
       None \<Rightarrow> (Inl SPN_ERR_DAG_STORE_READ, env)
     | Some content \<Rightarrow>
        (case st_kind (env_store env) of
           SPN_DAG_STORE_MEM \<Rightarrow>
            (case spn_dag_store_put lib content name env of
               (Some err, _, env) \<Rightarrow> (Inl err, env)
             | (None, digest, env) \<Rightarrow> (Inr digest, env))
         | SPN_DAG_STORE_FILESYSTEM \<Rightarrow>
            (let digest = lib_blake3 lib (str_bytes content);
                 blob = get_blob lib (env_store env) digest name
             in if is_file lib blob (env_world env) then (Inr digest, env)
                else
                  (let (_, env) = with_world (fs_create_dir lib (get_blob_dir lib (env_store env) digest)) env;
                       (linked, env) = with_world (fs_hard_link lib path blob) env;
                       (copied, env) = (if linked = SP_OK then (SP_OK, env)
                                        else with_world (fs_copy lib path blob) env)
                   in if linked \<noteq> SP_OK \<and> copied \<noteq> SP_OK then (Inl SPN_ERR_DAG_STORE_WRITE, env)
                      else let (ok, env) = with_world (fs_set_readonly lib blob) env
                           in (if ok then Inr digest else Inl SPN_ERR_DAG_STORE_WRITE, env)))))"

definition spn_dag_store_locate ::
    "'w dag_lib \<Rightarrow> spn_dag_digest_t \<Rightarrow> string \<Rightarrow> 'w spn_dag_env_t \<Rightarrow> spn_dag_err + spn_path_t" where
  "spn_dag_store_locate lib digest name env =
    (case st_kind (env_store env) of
       SPN_DAG_STORE_MEM \<Rightarrow>
         (if ht_get (st_blobs (env_store env)) digest \<noteq> None then Inr path_zero
          else Inl SPN_ERR_DAG_STORE_MISSING)
     | SPN_DAG_STORE_FILESYSTEM \<Rightarrow>
         (let blob = get_blob lib (env_store env) digest name
          in if is_file lib blob (env_world env) then Inr blob else Inl SPN_ERR_DAG_STORE_MISSING))"

definition spn_dag_store_owns ::
    "'w dag_lib \<Rightarrow> spn_dag_digest_t \<Rightarrow> string \<Rightarrow> sp_sys_file_meta_t \<Rightarrow> 'w spn_dag_env_t \<Rightarrow> bool" where
  "spn_dag_store_owns lib digest name file env \<longleftrightarrow>
    (case st_kind (env_store env) of
       SPN_DAG_STORE_MEM \<Rightarrow> False
     | SPN_DAG_STORE_FILESYSTEM \<Rightarrow>
         (case fs_meta lib (get_blob lib (env_store env) digest name) (env_world env) of
            Inl _ \<Rightarrow> False
          | Inr blob \<Rightarrow> sm_device blob = sm_device file \<and> sm_id blob = sm_id file))"

definition spn_dag_store_drop ::
    "'w dag_lib \<Rightarrow> spn_dag_digest_t \<Rightarrow> string \<Rightarrow> 'w spn_dag_env_t \<Rightarrow> 'w spn_dag_env_t" where
  "spn_dag_store_drop lib digest name env =
    (case st_kind (env_store env) of
       SPN_DAG_STORE_MEM \<Rightarrow> update_blobs (ht_erase digest) env
     | SPN_DAG_STORE_FILESYSTEM \<Rightarrow>
         snd (with_world (fs_remove_dir lib (get_blob_dir lib (env_store env) digest)) env))"

definition spn_dag_store_get ::
    "'w dag_lib \<Rightarrow> spn_dag_digest_t \<Rightarrow> string \<Rightarrow> 'w spn_dag_env_t \<Rightarrow> spn_dag_err + string" where
  "spn_dag_store_get lib digest name env =
    (case st_kind (env_store env) of
       SPN_DAG_STORE_MEM \<Rightarrow>
         (case ht_get (st_blobs (env_store env)) digest of
            None \<Rightarrow> Inl SPN_ERR_DAG_STORE_MISSING | Some blob \<Rightarrow> Inr blob)
     | SPN_DAG_STORE_FILESYSTEM \<Rightarrow>
         (let stored = get_blob lib (env_store env) digest name
          in if \<not> is_file lib stored (env_world env) then Inl SPN_ERR_DAG_STORE_MISSING
             else case fs_read lib stored (env_world env) of
               None \<Rightarrow> Inl SPN_ERR_DAG_STORE_READ | Some content \<Rightarrow> Inr content))"

definition spn_dag_store_materialize ::
    "'w dag_lib \<Rightarrow> spn_dag_digest_t \<Rightarrow> string \<Rightarrow> spn_path_t \<Rightarrow> 'w spn_dag_env_t \<Rightarrow>
     spn_dag_err option \<times> 'w spn_dag_env_t" where
  "spn_dag_store_materialize lib digest name path env =
    (case st_kind (env_store env) of
       SPN_DAG_STORE_MEM \<Rightarrow>
        (case ht_get (st_blobs (env_store env)) digest of
           None \<Rightarrow> (Some SPN_ERR_DAG_STORE_MISSING, env)
         | Some blob \<Rightarrow>
            (let env = env\<lparr>env_world := fs_create_parent lib path (env_world env)\<rparr>;
                 (ok, env) = with_world (fs_write lib path blob) env
             in (if ok then None else Some SPN_ERR_DAG_STORE_WRITE, env)))
     | SPN_DAG_STORE_FILESYSTEM \<Rightarrow>
        (let stored = get_blob lib (env_store env) digest name;
             staged = spn_path_suffix path ''.tmp'';
             env = env\<lparr>env_world := fs_create_parent lib path (env_world env)\<rparr>;
             (linked, env) = with_world (fs_hard_link lib stored staged) env;
             (rc, env) =
               (if linked \<noteq> SP_OK then with_world (fs_copy lib stored path) env
                else let (renamed, env) = with_world (fs_rename lib staged path) env
                     in (renamed, if renamed = SP_OK then env
                                  else snd (with_world (fs_remove_file lib staged) env)))
         in (case rc of SP_OK \<Rightarrow> None | SP_ERR_SYS_NOT_FOUND \<Rightarrow> Some SPN_ERR_DAG_STORE_MISSING
               | SP_ERR_SYS_OTHER \<Rightarrow> Some SPN_ERR_DAG_STORE_WRITE, env)))"

section \<open>Trees\<close>

definition tree_entry_order :: "'w dag_lib \<Rightarrow> spn_dag_action_output_t \<Rightarrow> spn_dag_action_output_t \<Rightarrow> int" where
  "tree_entry_order lib a b = lib_str_cmp lib (out_name a) (out_name b)"

text \<open>The segments of a text between slashes.\<close>

fun split_slash :: "string \<Rightarrow> string \<Rightarrow> string list" where
  "split_slash seg [] = [seg]"
| "split_slash seg (c # cs) = (if c = CHR ''/'' then seg # split_slash [] cs else split_slash (seg @ [c]) cs)"

definition tree_name_ok :: "string \<Rightarrow> bool" where
  "tree_name_ok name \<longleftrightarrow>
    (if name = [] \<or> name ! 0 = CHR ''/'' then False
     else \<not> list_ex (\<lambda>seg. seg = ''..'') (split_slash [] name))"

fun put_tree_files ::
    "'w dag_lib \<Rightarrow> spn_path_t \<Rightarrow> sp_fs_entry_t list \<Rightarrow> 'w spn_dag_env_t \<Rightarrow>
     (spn_dag_err + spn_dag_action_output_t list) \<times> 'w spn_dag_env_t" where
  "put_tree_files lib dir [] env = (Inr [], env)"
| "put_tree_files lib dir (e # es) env =
    (if fe_kind e = SP_FS_KIND_DIR then put_tree_files lib dir es env
     else case spn_dag_store_put_file lib (spn_path_join (lib_path lib) dir (fe_name e)) (fe_name e) env of
       (Inl err, env) \<Rightarrow> (Inl err, env)
     | (Inr digest, env) \<Rightarrow>
        (case put_tree_files lib dir es env of
           (Inl err, env) \<Rightarrow> (Inl err, env)
         | (Inr outs, env) \<Rightarrow> (Inr (\<lparr>out_name = fe_name e, out_digest = digest\<rparr> # outs), env)))"

definition spn_dag_store_put_tree ::
    "'w dag_lib \<Rightarrow> spn_path_t \<Rightarrow> 'w spn_dag_env_t \<Rightarrow>
     (spn_dag_err + spn_dag_digest_t) \<times> 'w spn_dag_env_t" where
  "spn_dag_store_put_tree lib dir env =
    (case put_tree_files lib dir (fst (fs_walk lib dir (env_world env))) env of
       (Inl err, env) \<Rightarrow> (Inl err, env)
     | (Inr entries, env) \<Rightarrow>
        (let manifest = write_outputs (lib_row lib) (sort_outputs lib (tree_entry_order lib) entries)
         in case spn_dag_store_put lib manifest ''tree'' env of
              (Some err, _, env) \<Rightarrow> (Inl err, env)
            | (None, digest, env) \<Rightarrow> (Inr digest, env)))"

definition spn_dag_tree_entries ::
    "'w dag_lib \<Rightarrow> spn_dag_digest_t \<Rightarrow> 'w spn_dag_env_t \<Rightarrow> spn_dag_err + spn_dag_action_output_t list" where
  "spn_dag_tree_entries lib digest env =
    (case spn_dag_store_get lib digest ''tree'' env of
       Inl err \<Rightarrow> Inl err
     | Inr manifest \<Rightarrow>
        (case parse_outputs manifest of
           None \<Rightarrow> Inl SPN_ERR_DAG_TREE
         | Some entries \<Rightarrow>
             if list_all (\<lambda>e. tree_name_ok (out_name e)) entries then Inr entries
             else Inl SPN_ERR_DAG_TREE))"

end
