(* ===== verification/Dag_Exec.thy ===== *)
theory Dag_Exec
  imports Dag_Store
begin

text \<open>
  One action of the build, \<open>source/core/dag/run.c\<close>: restoring its outputs from the caches,
  executing it in a scratch directory, putting what it wrote into the store, and settling its
  outputs at their paths.

  The function an action executes is the argument \<open>exec\<close>: it is given the graph, the action, the
  paths to write to and the environment, and returns an error or none, with the observations it
  made. What is only reported (traces, progress, the text of a diagnosis) is left out, with
  the assertion of the progress that an action that is not cached was not restored, and so are the
  assertions about what the caller and the function of the action give: a scratch path, a table of
  observations (here every environment has one), that only a discovered action observes, and that
  the text of a tree fits in 32 bits. The other assertions are kept: a result \<open>None\<close> is one that
  fails.
\<close>

type_synonym 'w spn_dag_exec_fn_t =
  "nat \<Rightarrow> spn_dag_t \<Rightarrow> spn_path_t list \<Rightarrow> 'w spn_dag_env_t \<Rightarrow>
   spn_dag_err option \<times> spn_dag_obs_t list \<times> 'w spn_dag_env_t"

section \<open>Settling outputs\<close>

datatype target_state_t = TARGET_SETTLED | TARGET_STALE | TARGET_POISONED

definition target_state ::
    "'w dag_lib \<Rightarrow> spn_path_t \<Rightarrow> string \<Rightarrow> spn_dag_digest_t \<Rightarrow> 'w spn_dag_env_t \<Rightarrow>
     target_state_t \<times> 'w spn_dag_env_t" where
  "target_state lib path name digest env =
    (case spn_dag_file_cache_stat lib path env of
       (None, env) \<Rightarrow> (TARGET_STALE, env)
     | (Some sys, env) \<Rightarrow>
        (case spn_dag_file_cache_digest lib path env of
           (Inl _, env) \<Rightarrow> (TARGET_STALE, env)
         | (Inr existing, env) \<Rightarrow>
            (if spn_dag_digest_equal existing digest then TARGET_SETTLED
             else if spn_dag_store_owns lib digest name sys env then TARGET_POISONED else TARGET_STALE,
             env)))"

definition link_target ::
    "'w dag_lib \<Rightarrow> spn_path_t \<Rightarrow> string \<Rightarrow> spn_dag_digest_t \<Rightarrow> 'w spn_dag_env_t \<Rightarrow>
     spn_dag_err option \<times> 'w spn_dag_env_t" where
  "link_target lib path name digest env =
    (case spn_dag_store_materialize lib digest name path env of
       (Some err, env) \<Rightarrow> (Some err, env)
     | (None, env) \<Rightarrow> spn_dag_file_cache_seed lib path digest env)"

text \<open>The loops of \<open>settle_tree\<close>: the directories above an entry, the states of the entries,
  the removal of what does not belong there, and the entries to write.\<close>

fun parents :: "string \<Rightarrow> string \<Rightarrow> string list" where
  "parents seen [] = []"
| "parents seen (c # cs) = (if c = CHR ''/'' then [seen] else []) @ parents (seen @ [c]) cs"

fun entry_states ::
    "'w dag_lib \<Rightarrow> spn_path_t \<Rightarrow> spn_dag_action_output_t list \<Rightarrow> 'w spn_dag_env_t \<Rightarrow>
     (spn_dag_action_output_t \<times> target_state_t) list \<times> 'w spn_dag_env_t" where
  "entry_states lib dir [] env = ([], env)"
| "entry_states lib dir (e # es) env =
    (let (state, env) =
           target_state lib (spn_path_join (lib_path lib) dir (out_name e)) (out_name e) (out_digest e) env;
         (states, env) = entry_states lib dir es env
     in ((e, state) # states, env))"

fun remove_extra ::
    "'w dag_lib \<Rightarrow> spn_path_t \<Rightarrow> sp_fs_entry_t list \<Rightarrow> 'w spn_dag_env_t \<Rightarrow>
     spn_dag_err option \<times> 'w spn_dag_env_t" where
  "remove_extra lib dir [] env = (None, env)"
| "remove_extra lib dir (e # es) env =
    (let path = spn_path_join (lib_path lib) dir (fe_name e);
         (ok, env) = with_world ((if fe_kind e = SP_FS_KIND_DIR then fs_remove_dir lib else fs_remove_file lib) path) env
     in if \<not> ok then (Some SPN_ERR_DAG_STORE_WRITE, env)
        else remove_extra lib dir es (spn_dag_file_cache_invalidate path env))"

fun link_entries ::
    "'w dag_lib \<Rightarrow> spn_path_t \<Rightarrow> spn_dag_action_output_t list \<Rightarrow> 'w spn_dag_env_t \<Rightarrow>
     spn_dag_err option \<times> 'w spn_dag_env_t" where
  "link_entries lib dir [] env = (None, env)"
| "link_entries lib dir (e # es) env =
    (case link_target lib (spn_path_join (lib_path lib) dir (out_name e)) (out_name e) (out_digest e) env of
       (Some err, env) \<Rightarrow> (Some err, env)
     | (None, env) \<Rightarrow> link_entries lib dir es env)"

text \<open>The result is the error, and whether the action is marked as having written.\<close>

definition settle_tree ::
    "'w dag_lib \<Rightarrow> spn_dag_artifact_t \<Rightarrow> 'w spn_dag_env_t \<Rightarrow>
     (spn_dag_err option \<times> bool) \<times> 'w spn_dag_env_t" where
  "settle_tree lib artifact env =
    (case spn_dag_tree_entries lib (af_digest artifact) env of
       Inl err \<Rightarrow> ((Some err, False), env)
     | Inr entries \<Rightarrow>
        (let dir = af_path artifact;
             exists = (case fs_meta lib dir (env_world env) of Inl _ \<Rightarrow> False | Inr m \<Rightarrow> sm_kind m = SP_FS_KIND_DIR);
             names = map out_name entries;
             dirs = concat (map (parents []) names);
             (walk, walked) = fs_walk lib dir (env_world env);
             extra = (if exists then filter (\<lambda>e. \<not> (if fe_kind e = SP_FS_KIND_DIR then fe_name e \<in> set dirs
                                                      else fe_name e \<in> set names)) walk else []);
             files = length (filter (\<lambda>e. fe_kind e \<noteq> SP_FS_KIND_DIR) walk);
             (created, env) = (if exists then (True, env) else with_world (fs_create_dir lib dir) env);
             (states, env) = (if exists \<and> walked then entry_states lib dir entries env
                              else (map (\<lambda>e. (e, TARGET_STALE)) entries, env));
             stale = map fst (filter (\<lambda>(_, s). s = TARGET_STALE) states);
             poisoned = map fst (filter (\<lambda>(_, s). s = TARGET_POISONED) states)
         in if exists \<and> \<not> walked then ((Some SPN_ERR_DAG_STORE_READ, False), env)
            else if \<not> created then ((Some SPN_ERR_DAG_STORE_WRITE, False), env)
            else if exists \<and> stale = [] \<and> poisoned = [] \<and> files = length entries then ((None, False), env)
            else if poisoned \<noteq> [] then
              ((Some SPN_ERR_DAG_STORE_MISSING, True),
               fold (\<lambda>e. spn_dag_store_drop lib (out_digest e) (out_name e)) poisoned env)
            else case remove_extra lib dir (rev extra) env of
              (Some err, env) \<Rightarrow> ((Some err, True), env)
            | (None, env) \<Rightarrow>
                (case link_entries lib dir stale env of (err, env) \<Rightarrow> ((err, True), env))))"

definition settle_file ::
    "'w dag_lib \<Rightarrow> spn_dag_artifact_t \<Rightarrow> 'w spn_dag_env_t \<Rightarrow>
     (spn_dag_err option \<times> bool) \<times> 'w spn_dag_env_t" where
  "settle_file lib artifact env =
    (case target_state lib (af_path artifact) (af_name artifact) (af_digest artifact) env of
       (TARGET_SETTLED, env) \<Rightarrow> ((None, False), env)
     | (TARGET_POISONED, env) \<Rightarrow>
         ((Some SPN_ERR_DAG_STORE_MISSING, False),
          spn_dag_store_drop lib (af_digest artifact) (af_name artifact) env)
     | (TARGET_STALE, env) \<Rightarrow>
         (case link_target lib (af_path artifact) (af_name artifact) (af_digest artifact) env of
            (err, env) \<Rightarrow> ((err, True), env)))"

definition set_wrote :: "nat \<Rightarrow> bool \<Rightarrow> spn_dag_t \<Rightarrow> spn_dag_t" where
  "set_wrote i wrote = update_action i (\<lambda>a. a\<lparr>ac_wrote := wrote\<rparr>)"

definition set_materialized :: "nat \<Rightarrow> spn_path_t \<Rightarrow> spn_dag_t \<Rightarrow> spn_dag_t" where
  "set_materialized p path = update_artifact p (\<lambda>a. a\<lparr>af_materialized := path\<rparr>)"

fun settle_outputs ::
    "'w dag_lib \<Rightarrow> nat \<Rightarrow> nat list \<Rightarrow> spn_dag_t \<Rightarrow> 'w spn_dag_env_t \<Rightarrow>
     spn_dag_err option \<times> spn_dag_t \<times> 'w spn_dag_env_t" where
  "settle_outputs lib i [] g env = (None, g, env)"
| "settle_outputs lib i (p # ps) g env =
    (let artifact = spn_dag_find_artifact g p
     in if spn_path_empty (af_path artifact) then
          (case spn_dag_store_locate lib (af_digest artifact) (af_name artifact) env of
             Inl err \<Rightarrow> (Some err, set_materialized p path_zero g, env)
           | Inr path \<Rightarrow> settle_outputs lib i ps (set_materialized p path g) env)
        else
          (let ((err, wrote), env) =
                 (if af_kind artifact = SPN_DAG_ARTIFACT_KIND_TREE then settle_tree lib artifact env
                  else settle_file lib artifact env);
               g = (if wrote then set_wrote i True g else g)
           in if err \<noteq> None then (err, g, env)
              else settle_outputs lib i ps (set_materialized p (af_path artifact) g) env))"

definition settle ::
    "'w dag_lib \<Rightarrow> nat \<Rightarrow> spn_dag_t \<Rightarrow> 'w spn_dag_env_t \<Rightarrow>
     spn_dag_err option \<times> spn_dag_t \<times> 'w spn_dag_env_t" where
  "settle lib i g env =
     settle_outputs lib i (ac_produces (spn_dag_find_action g i)) (set_wrote i False g) env"

section \<open>Restoring an action\<close>

definition set_digest :: "nat \<Rightarrow> spn_dag_digest_t \<Rightarrow> spn_dag_t \<Rightarrow> spn_dag_t" where
  "set_digest p digest = update_artifact p (\<lambda>a. a\<lparr>af_digest := digest\<rparr>)"

definition set_digests :: "nat list \<Rightarrow> spn_dag_digest_t list \<Rightarrow> spn_dag_t \<Rightarrow> spn_dag_t" where
  "set_digests ps digests g = fold (\<lambda>(p, d). set_digest p d) (zip ps digests) g"

definition restore_entry ::
    "'w dag_lib \<Rightarrow> nat \<Rightarrow> spn_dag_action_output_t list \<Rightarrow> spn_dag_t \<Rightarrow> 'w spn_dag_env_t \<Rightarrow>
     bool \<times> spn_dag_t \<times> 'w spn_dag_env_t" where
  "restore_entry lib i outputs g env =
    (let produces = ac_produces (spn_dag_find_action g i)
     in if length outputs \<noteq> length produces then (False, g, env)
        else if map out_name outputs \<noteq> map (\<lambda>p. af_name (spn_dag_find_artifact g p)) produces
        then (False, g, env)
        else case settle lib i (set_digests produces (map out_digest outputs) g) env of
          (err, g, env) \<Rightarrow> (err = None, g, env))"

definition try_restore ::
    "'w dag_lib \<Rightarrow> nat \<Rightarrow> spn_dag_digest_t \<Rightarrow> spn_dag_t \<Rightarrow> 'w spn_dag_env_t \<Rightarrow>
     bool \<times> spn_dag_t \<times> 'w spn_dag_env_t" where
  "try_restore lib i key g env =
    (case spn_dag_action_cache_get lib key env of
       (None, env) \<Rightarrow> (False, g, env)
     | (Some outputs, env) \<Rightarrow>
        (case restore_entry lib i outputs g env of
           (True, g, env) \<Rightarrow> (True, g, env)
         | (False, g, env) \<Rightarrow> (False, g, snd (spn_dag_action_cache_remove lib key env))))"

section \<open>Observations\<close>

definition obs_order :: "'w dag_lib \<Rightarrow> spn_dag_obs_t \<Rightarrow> spn_dag_obs_t \<Rightarrow> int" where
  "obs_order lib a b =
    (let rank = (\<lambda>o'. int (spn_path_root_rank (path_root (obs_path o'))));
         order = lib_str_cmp lib (path_sub (obs_path a)) (path_sub (obs_path b));
         kind = (\<lambda>o'. int (unat (obs_kind_byte (obs_kind o'))))
     in if rank a \<noteq> rank b then rank a - rank b
        else if order \<noteq> 0 then order
        else if kind a \<noteq> kind b then kind a - kind b
        else lib_str_cmp lib (obs_filter a) (obs_filter b))"

definition obs_equal :: "spn_dag_obs_t \<Rightarrow> spn_dag_obs_t \<Rightarrow> bool" where
  "obs_equal a b \<longleftrightarrow>
     obs_kind a = obs_kind b \<and> spn_path_equal (obs_path a) (obs_path b) \<and> obs_filter a = obs_filter b"

text \<open>The compaction of the sorted rows: \<open>last\<close> is the row written last.\<close>

fun compact :: "spn_dag_obs_t \<Rightarrow> spn_dag_obs_t list \<Rightarrow> spn_dag_obs_t list" where
  "compact prev [] = []"
| "compact prev (o' # os) = (if \<not> obs_equal o' prev then o' # compact o' os else compact prev os)"

definition spn_dag_obs_canonicalize :: "'w dag_lib \<Rightarrow> spn_dag_obs_t list \<Rightarrow> spn_dag_obs_t list" where
  "spn_dag_obs_canonicalize lib obs =
    (if obs = [] then obs
     else case sort_obs lib (obs_order lib) obs of [] \<Rightarrow> [] | o' # os \<Rightarrow> o' # compact o' os)"

definition member_order :: "'w dag_lib \<Rightarrow> sp_fs_entry_t \<Rightarrow> sp_fs_entry_t \<Rightarrow> int" where
  "member_order lib a b = lib_str_cmp lib (fe_name a) (fe_name b)"

definition membership_digest ::
    "'w dag_lib \<Rightarrow> spn_path_t \<Rightarrow> string \<Rightarrow> 'w \<Rightarrow> spn_dag_err + spn_dag_digest_t" where
  "membership_digest lib dir filt w =
    (let glob = (if filt = [] then Some (\<lambda>_. True) else lib_glob lib filt)
     in case glob of
          None \<Rightarrow> Inl SPN_ERR_DAG_GLOB
        | Some matches \<Rightarrow>
            (let members = sort_members lib (member_order lib)
                   (filter (\<lambda>e. fe_kind e = SP_FS_KIND_DIR \<or> matches (fe_name e)) (fs_list lib dir w));
                 ctx = spn_dag_hash_u64 (spn_dag_hash_str [] ''spn.dag.enum.v1'') (of_nat (length members));
                 ctx = foldl (\<lambda>ctx m. spn_dag_hash_u8 (spn_dag_hash_str ctx (fe_name m))
                                        (lib_kind_byte lib (fe_kind m))) ctx members
             in Inr (spn_dag_hash_final (lib_blake3 lib) ctx)))"

text \<open>The digest of what a row observes now; \<open>None\<close> is an error.\<close>

definition resolve_one ::
    "'w dag_lib \<Rightarrow> spn_dag_obs_t \<Rightarrow> 'w spn_dag_env_t \<Rightarrow> spn_dag_digest_t option \<times> 'w spn_dag_env_t" where
  "resolve_one lib obs env =
    (let path = obs_path obs;
         present = (\<lambda>env. case spn_dag_file_cache_stat lib path env of
             (None, env) \<Rightarrow> (None, env)
           | (Some sys, env) \<Rightarrow>
               if sm_kind sys = SP_FS_KIND_DIR then
                 (case membership_digest lib path [] (env_world env) of
                    Inl _ \<Rightarrow> (None, env) | Inr digest \<Rightarrow> (Some digest, env))
               else case spn_dag_file_cache_digest lib path env of
                 (Inl _, env) \<Rightarrow> (None, env) | (Inr digest, env) \<Rightarrow> (Some digest, env))
     in case obs_kind obs of
          SPN_DAG_OBS_ENUMERATION \<Rightarrow>
            (case membership_digest lib path (obs_filter obs) (env_world env) of
               Inl _ \<Rightarrow> (None, env) | Inr digest \<Rightarrow> (Some digest, env))
        | SPN_DAG_OBS_ABSENT \<Rightarrow>
            (case fs_meta lib path (env_world env) of
               Inl SP_ERR_SYS_NOT_FOUND \<Rightarrow> (Some digest_zero, env)
             | Inl _ \<Rightarrow> (None, env)
             | Inr _ \<Rightarrow> present env)
        | SPN_DAG_OBS_FILE \<Rightarrow> present env)"

fun resolve_observations ::
    "'w dag_lib \<Rightarrow> spn_dag_obs_t list \<Rightarrow> 'w spn_dag_env_t \<Rightarrow>
     spn_dag_digest_t list option \<times> 'w spn_dag_env_t" where
  "resolve_observations lib [] env = (Some [], env)"
| "resolve_observations lib (o' # os) env =
    (case resolve_one lib o' env of
       (None, env) \<Rightarrow> (None, env)
     | (Some digest, env) \<Rightarrow>
        (case resolve_observations lib os env of
           (digests, env) \<Rightarrow> (map_option ((#) digest) digests, env)))"

definition record_outputs ::
    "'w dag_lib \<Rightarrow> nat \<Rightarrow> spn_dag_digest_t \<Rightarrow> spn_dag_t \<Rightarrow> 'w spn_dag_env_t \<Rightarrow> 'w spn_dag_env_t" where
  "record_outputs lib i key g env =
     spn_dag_action_cache_put lib key
       (map (\<lambda>p. \<lparr>out_name = af_name (spn_dag_find_artifact g p), out_digest = af_digest (spn_dag_find_artifact g p)\<rparr>)
         (ac_produces (spn_dag_find_action g i))) env"

section \<open>An attempt\<close>

record spn_dag_attempt_t =
  at_key :: spn_dag_digest_t
  at_hit :: bool
  at_digests :: "spn_dag_digest_t list"
  at_obs :: "spn_dag_obs_t list"

definition attempt_zero :: spn_dag_attempt_t where
  "attempt_zero = \<lparr>at_key = digest_zero, at_hit = False, at_digests = [], at_obs = []\<rparr>"

definition scratch_dir :: "'w dag_lib \<Rightarrow> 'w spn_dag_env_t \<Rightarrow> nat \<Rightarrow> spn_path_t" where
  "scratch_dir lib env i =
     spn_path_join (lib_path lib) (env_scratch env) (''scratch/'' @ fmt_uint (lib_row lib) (of_nat i))"

definition attempt_discard :: "'w dag_lib \<Rightarrow> nat \<Rightarrow> 'w spn_dag_env_t \<Rightarrow> 'w spn_dag_env_t" where
  "attempt_discard lib i env = snd (with_world (fs_remove_dir lib (scratch_dir lib env i)) env)"

definition strong_key_of ::
    "'w dag_lib \<Rightarrow> spn_dag_digest_t \<Rightarrow> spn_dag_pathset_t \<Rightarrow> spn_dag_digest_t list \<Rightarrow> spn_dag_digest_t" where
  "strong_key_of lib weak pathset digests =
     spn_dag_strong_key (lib_blake3 lib) weak (ps_pinned pathset) (ps_obs pathset) digests"

definition lookup ::
    "'w dag_lib \<Rightarrow> nat \<Rightarrow> spn_dag_attempt_t \<Rightarrow> spn_dag_t \<Rightarrow> 'w spn_dag_env_t \<Rightarrow>
     (spn_dag_attempt_t \<times> spn_dag_t \<times> 'w spn_dag_env_t) option" where
  "lookup lib i attempt g env =
    (case ac_kind (spn_dag_find_action g i) of
       SPN_DAG_ACTION_STATIC \<Rightarrow>
         (case spn_dag_weak_key (lib_blake3 lib) g i of
            None \<Rightarrow> None
          | Some key \<Rightarrow>
             (case try_restore lib i key g env of
                (hit, g, env) \<Rightarrow> Some (attempt\<lparr>at_key := key, at_hit := hit\<rparr>, g, env)))
     | SPN_DAG_ACTION_DISCOVERED \<Rightarrow>
         (case spn_dag_weak_key (lib_blake3 lib) g i of
            None \<Rightarrow> None
          | Some key \<Rightarrow>
             (case spn_dag_obs_table_get lib key env of
                (None, env) \<Rightarrow> Some (attempt\<lparr>at_key := key\<rparr>, g, env)
              | (Some pathset, env) \<Rightarrow>
                 (case resolve_observations lib (ps_obs pathset) env of
                    (None, env) \<Rightarrow> Some (attempt\<lparr>at_key := key\<rparr>, g, env)
                  | (Some digests, env) \<Rightarrow>
                     (case try_restore lib i (strong_key_of lib key pathset digests) g env of
                        (hit, g, env) \<Rightarrow> Some (attempt\<lparr>at_key := key, at_hit := hit\<rparr>, g, env)))))
     | SPN_DAG_ACTION_UNCACHEABLE \<Rightarrow> Some (attempt, g, env))"

text \<open>The loop that puts the outputs into the store.\<close>

fun store_outputs ::
    "'w dag_lib \<Rightarrow> spn_dag_t \<Rightarrow> (nat \<times> spn_path_t) list \<Rightarrow> 'w spn_dag_env_t \<Rightarrow>
     (spn_dag_err + spn_dag_digest_t list) \<times> 'w spn_dag_env_t" where
  "store_outputs lib g [] env = (Inr [], env)"
| "store_outputs lib g ((p, output) # rest) env =
    (let artifact = spn_dag_find_artifact g p
     in case fs_meta lib output (env_world env) of
          Inl _ \<Rightarrow> (Inl SPN_ERR_DAG_MISSING_OUTPUT, env)
        | Inr _ \<Rightarrow>
           (case (if af_kind artifact = SPN_DAG_ARTIFACT_KIND_TREE then spn_dag_store_put_tree lib output env
                  else spn_dag_store_put_file lib output (af_name artifact) env) of
              (Inl err, env) \<Rightarrow> (Inl err, env)
            | (Inr digest, env) \<Rightarrow>
               (case store_outputs lib g rest env of
                  (Inl err, env) \<Rightarrow> (Inl err, env)
                | (Inr digests, env) \<Rightarrow> (Inr (digest # digests), env))))"

definition execute_attempt ::
    "'w dag_lib \<Rightarrow> 'w spn_dag_exec_fn_t \<Rightarrow> nat \<Rightarrow> spn_dag_attempt_t \<Rightarrow> spn_dag_t \<Rightarrow> 'w spn_dag_env_t \<Rightarrow>
     spn_dag_err option \<times> spn_dag_attempt_t \<times> 'w spn_dag_env_t" where
  "execute_attempt lib exec i attempt g env =
    (let action = spn_dag_find_action g i;
         staging = scratch_dir lib env i;
         (_, env) = with_world (fs_remove_dir lib staging) env;
         (made, env) = with_world (fs_create_dir lib staging) env;
         outputs = map (\<lambda>p. spn_path_join (lib_path lib) staging (af_name (spn_dag_find_artifact g p))) (ac_produces action);
         pairs = zip (ac_produces action) outputs;
         trees = filter (\<lambda>(p, _). af_kind (spn_dag_find_artifact g p) = SPN_DAG_ARTIFACT_KIND_TREE) pairs
     in if \<not> made then (Some SPN_ERR_DAG_SCRATCH, attempt, env)
        else
          (let env = fold (\<lambda>(_, path) env. snd (with_world (fs_create_dir lib path) env)) trees env
           in case exec i g outputs env of
                (Some err, rows, env) \<Rightarrow> (Some err, attempt\<lparr>at_obs := at_obs attempt @ rows\<rparr>, env)
              | (None, rows, env) \<Rightarrow>
                  (let rows = at_obs attempt @ rows;
                       attempt = attempt\<lparr>at_obs :=
                         (if ac_kind action = SPN_DAG_ACTION_DISCOVERED then spn_dag_obs_canonicalize lib rows else rows)\<rparr>
                   in case store_outputs lib g pairs env of
                        (Inl err, env) \<Rightarrow> (Some err, attempt, env)
                      | (Inr digests, env) \<Rightarrow> (None, attempt\<lparr>at_digests := digests\<rparr>, env))))"

text \<open>\<open>None\<close> is the assertion that the attempt was not restored.\<close>

definition commit ::
    "'w dag_lib \<Rightarrow> nat \<Rightarrow> spn_dag_attempt_t \<Rightarrow> spn_dag_t \<Rightarrow> 'w spn_dag_env_t \<Rightarrow>
     (spn_dag_err option \<times> spn_dag_t \<times> 'w spn_dag_env_t) option" where
  "commit lib i attempt g env =
    (let action = spn_dag_find_action g i;
         g = set_digests (ac_produces action) (at_digests attempt) g
     in if at_hit attempt then None
        else Some (case ac_kind action of
          SPN_DAG_ACTION_UNCACHEABLE \<Rightarrow> settle lib i g env
        | SPN_DAG_ACTION_STATIC \<Rightarrow>
            (case settle lib i g env of
               (Some err, g, env) \<Rightarrow> (Some err, g, env)
             | (None, g, env) \<Rightarrow> (None, g, record_outputs lib i (at_key attempt) g env))
        | SPN_DAG_ACTION_DISCOVERED \<Rightarrow>
            (let (pathset, env) = spn_dag_obs_set_put lib (at_obs attempt) (at_key attempt) env;
                 (resolved, env) = resolve_observations lib (ps_obs pathset) env
             in case settle lib i g env of
                  (Some err, g, env) \<Rightarrow> (Some err, g, env)
                | (None, g, env) \<Rightarrow>
                    (None, g, case resolved of
                       None \<Rightarrow> env
                     | Some digests \<Rightarrow>
                         record_outputs lib i (strong_key_of lib (at_key attempt) pathset digests) g env))))"

text \<open>An action on its own.\<close>

definition exec_action ::
    "'w dag_lib \<Rightarrow> 'w spn_dag_exec_fn_t \<Rightarrow> nat \<Rightarrow> spn_dag_t \<Rightarrow> 'w spn_dag_env_t \<Rightarrow>
     (spn_dag_err option \<times> spn_dag_t \<times> 'w spn_dag_env_t) option" where
  "exec_action lib exec i g env =
    (case lookup lib i attempt_zero g env of
       None \<Rightarrow> None
     | Some (attempt, g, env) \<Rightarrow>
         if at_hit attempt then Some (None, g, env)
         else case execute_attempt lib exec i attempt g env of
           (Some err, _, env) \<Rightarrow> Some (Some err, g, attempt_discard lib i env)
         | (None, attempt, env) \<Rightarrow>
             map_option (\<lambda>(err, g, env). (err, g, attempt_discard lib i env)) (commit lib i attempt g env))"

end
