(* ===== verification/Dag_Run.thy ===== *)
theory Dag_Run
  imports Dag_Exec
begin

text \<open>
  The scheduler of the build, \<open>source/core/dag/run.c\<close>, over the thread pool of
  \<open>source/util/thread_pool/thread_pool.c\<close>.

  The main thread dispatches actions whose inputs are done to the pool, and completes the jobs
  the pool has done: an action restored from the cache is finished; one that executed is committed
  and finished, unless what it observed is the output of an action still to come (it is parked
  until that one is done) or of one that finished and wrote after it began (it is run again).

  The pool has a stack of submitted jobs and a stack of done ones. A worker takes a job
  (\<open>flight_start\<close>), runs it and puts it with the done ones (\<open>flight_finish\<close>); turns of the
  main thread and steps of the workers interleave in any order (\<open>run_step\<close>). A pool without
  workers, as \<open>spn_dag_run\<close> uses, runs a job in the main thread when it is polled; this is the
  function \<open>spn_dag_run\<close>. A result \<open>None\<close> is a failed assertion; every environment has a table of
  observations, so the assertion that there is one has no counterpart.
\<close>

section \<open>The outputs by their paths\<close>

definition path_parent :: "spn_path_t \<Rightarrow> spn_path_t option" where
  "path_parent path =
    (let parent = spn_path_parent path
     in if spn_path_equal parent path \<or> spn_path_empty parent then None else Some parent)"

lemma path_parent_length:
  assumes "path_parent path = Some parent"
  shows "length (path_sub parent) < length (path_sub path)"
proof -
  have parent: "parent = spn_path_parent path" and ne: "\<not> spn_path_equal parent path"
    using assms by (auto simp: path_parent_def Let_def split: if_splits)
  have "\<exists>k. path_sub parent = take k (path_sub path)"
    unfolding parent spn_path_parent_def Let_def by (auto intro: exI [of _ 0])
  then obtain k where k: "path_sub parent = take k (path_sub path)" by blast
  have "path_sub parent \<noteq> path_sub path"
    using ne unfolding parent spn_path_equal_def by (simp add: spn_path_parent_def Let_def)
  then show ?thesis using k by (auto simp: not_le [symmetric])
qed

text \<open>The loop \<open>for (dir = path; path_parent(&dir);)\<close>: the directories above a path.\<close>

function ancestors :: "spn_path_t \<Rightarrow> spn_path_t list" where
  "ancestors path = (case path_parent path of None \<Rightarrow> [] | Some parent \<Rightarrow> parent # ancestors parent)"
  by pat_completeness auto
termination
  by (relation "measure (\<lambda>path. length (path_sub path))") (auto simp: path_parent_length)

declare ancestors.simps [simp del]

record spn_dag_target_t =
  tg_producer :: nat
  tg_kind :: spn_dag_artifact_kind_t

record spn_dag_targets_t =
  by_path :: "(spn_path_t \<times> spn_dag_target_t) list"
  below :: "(spn_path_t \<times> nat list) list"

definition push_below :: "nat \<Rightarrow> spn_path_t \<Rightarrow> spn_dag_targets_t \<Rightarrow> spn_dag_targets_t" where
  "push_below producer dir targets =
     targets\<lparr>below := ht_insert dir
       ((case ht_get (below targets) dir of None \<Rightarrow> [] | Some ps \<Rightarrow> ps) @ [producer]) (below targets)\<rparr>"

definition target_insert ::
    "spn_path_roots_t \<Rightarrow> spn_dag_artifact_t \<Rightarrow> spn_dag_targets_t \<Rightarrow> spn_dag_targets_t option" where
  "target_insert roots artifact targets =
    (case af_producer artifact of
       None \<Rightarrow> Some targets
     | Some producer \<Rightarrow>
        (let path = af_path artifact
         in if spn_path_empty path then Some targets
            else if root_pinned (roots_pinned roots) path then None
            else if ht_get (by_path targets) path \<noteq> None then None
            else Some (fold (push_below producer) (ancestors path)
              (targets\<lparr>by_path := ht_insert path
                 \<lparr>tg_producer = producer, tg_kind = af_kind artifact\<rparr> (by_path targets)\<rparr>))))"

fun targets_add ::
    "spn_path_roots_t \<Rightarrow> spn_dag_artifact_t list \<Rightarrow> spn_dag_targets_t \<Rightarrow> spn_dag_targets_t option" where
  "targets_add roots [] targets = Some targets"
| "targets_add roots (a # as) targets =
     Option.bind (target_insert roots a targets) (targets_add roots as)"

definition targets_init :: "spn_dag_t \<Rightarrow> spn_dag_targets_t option" where
  "targets_init g = targets_add (g_roots g) (g_artifacts g) \<lparr>by_path = [], below = []\<rparr>"

section \<open>The state of a run\<close>

record spn_dag_flight_t =
  fl_epoch :: nat
  fl_err :: "spn_dag_err option"
  fl_attempt :: spn_dag_attempt_t

record spn_dag_run_state_t =
  rs_pending :: nat
  rs_deferred :: nat
  rs_done :: bool
  rs_parked :: bool
  rs_done_epoch :: nat
  rs_waiters :: "nat list"
  rs_flight :: spn_dag_flight_t

text \<open>\<open>run_queue\<close>, \<open>run_running\<close> and \<open>run_jobs\<close> are the pool: the jobs submitted, those
  its workers run, and those done, named by their actions. \<open>run_cancel\<close> is the flag of the
  environment that another thread may set.\<close>

record 'w spn_dag_run_t =
  run_g :: spn_dag_t
  run_env :: "'w spn_dag_env_t"
  run_cancel :: bool
  run_queue :: "nat list"
  run_running :: "nat list"
  run_jobs :: "nat list"
  run_targets :: spn_dag_targets_t
  run_states :: "spn_dag_run_state_t list"
  run_ready :: "nat list"
  run_completed :: nat
  run_in_flight :: nat
  run_err :: "spn_dag_err option"

abbreviation run_state :: "'w spn_dag_run_t \<Rightarrow> nat \<Rightarrow> spn_dag_run_state_t" where
  "run_state run i \<equiv> run_states run ! i"

definition update_state ::
    "nat \<Rightarrow> (spn_dag_run_state_t \<Rightarrow> spn_dag_run_state_t) \<Rightarrow> 'w spn_dag_run_t \<Rightarrow> 'w spn_dag_run_t" where
  "update_state i f run = run\<lparr>run_states := (run_states run)[i := f (run_states run ! i)]\<rparr>"

definition update_flight ::
    "nat \<Rightarrow> (spn_dag_flight_t \<Rightarrow> spn_dag_flight_t) \<Rightarrow> 'w spn_dag_run_t \<Rightarrow> 'w spn_dag_run_t" where
  "update_flight i f = update_state i (\<lambda>s. s\<lparr>rs_flight := f (rs_flight s)\<rparr>)"

definition push_ready :: "nat \<Rightarrow> 'w spn_dag_run_t \<Rightarrow> 'w spn_dag_run_t" where
  "push_ready i run = run\<lparr>run_ready := run_ready run @ [i]\<rparr>"

section \<open>Waiting for what was observed\<close>

definition defer_producer ::
    "nat \<Rightarrow> nat \<Rightarrow> nat \<Rightarrow> 'w spn_dag_run_t \<times> bool \<Rightarrow> 'w spn_dag_run_t \<times> bool" where
  "defer_producer i epoch producer_index = (\<lambda>(run, requeue).
    (let producer = run_state run producer_index
     in if producer_index = i then (run, requeue)
        else if rs_done producer then
          (run, if epoch < rs_done_epoch producer \<and> ac_wrote (spn_dag_find_action (run_g run) producer_index)
                then True else requeue)
        else (update_state i (\<lambda>s. s\<lparr>rs_deferred := rs_deferred s + 1\<rparr>)
               (update_state producer_index (\<lambda>s. s\<lparr>rs_waiters := rs_waiters s @ [i]\<rparr>) run), requeue)))"

text \<open>The producers that one row of observations is about, in the order of the code.\<close>

definition obs_producers :: "spn_path_roots_t \<Rightarrow> spn_dag_targets_t \<Rightarrow> spn_dag_obs_t \<Rightarrow> nat list" where
  "obs_producers roots targets obs =
    (let path = obs_path obs
     in if root_pinned (roots_pinned roots) path then []
        else (case ht_get (by_path targets) path of None \<Rightarrow> [] | Some exact \<Rightarrow> [tg_producer exact])
          @ concat (map (\<lambda>dir. case ht_get (by_path targets) dir of
                None \<Rightarrow> []
              | Some tree \<Rightarrow> if tg_kind tree = SPN_DAG_ARTIFACT_KIND_TREE then [tg_producer tree] else [])
              (ancestors path))
          @ (if obs_kind obs = SPN_DAG_OBS_ENUMERATION
             then (case ht_get (below targets) path of None \<Rightarrow> [] | Some ps \<Rightarrow> ps) else []))"

abbreviation observed :: "'w spn_dag_run_t \<Rightarrow> spn_dag_obs_t list \<Rightarrow> nat list" where
  "observed run obs \<equiv> concat (map (obs_producers (g_roots (run_g run)) (run_targets run)) obs)"

text \<open>The result is whether the action waits, and whether it has to run again.\<close>

definition defer_observations ::
    "nat \<Rightarrow> spn_dag_obs_t list \<Rightarrow> nat \<Rightarrow> 'w spn_dag_run_t \<Rightarrow> bool \<times> bool \<times> 'w spn_dag_run_t" where
  "defer_observations i obs epoch run =
    (case fold (defer_producer i epoch) (observed run obs) (run, False) of
       (run, requeue) \<Rightarrow> (0 < rs_deferred (run_state run i), requeue, run))"

section \<open>The start of a run\<close>

text \<open>\<open>Some None\<close> is the generic error of a file that cannot be read.\<close>

definition seed_source ::
    "'w dag_lib \<Rightarrow> nat \<Rightarrow> spn_dag_t \<Rightarrow> 'w spn_dag_env_t \<Rightarrow>
     spn_dag_err option option \<times> spn_dag_t \<times> 'w spn_dag_env_t" where
  "seed_source lib a g env =
    (let path = af_path (spn_dag_find_artifact g a);
         g = set_materialized a path g
     in case spn_dag_file_cache_stat lib path env of
          (None, env) \<Rightarrow> (Some (Some SPN_ERR_DAG_STAT), g, env)
        | (Some sys, env) \<Rightarrow>
            if sm_kind sys = SP_FS_KIND_DIR then (Some (Some SPN_ERR_DAG_MISSING_INPUT), g, env)
            else (case spn_dag_file_cache_digest lib path env of
                    (Inl err, env) \<Rightarrow> (Some err, g, env)
                  | (Inr digest, env) \<Rightarrow> (None, set_digest a digest g, env)))"

fun seed_from ::
    "'w dag_lib \<Rightarrow> nat list \<Rightarrow> spn_dag_t \<Rightarrow> 'w spn_dag_env_t \<Rightarrow>
     spn_dag_err option \<times> spn_dag_t \<times> 'w spn_dag_env_t" where
  "seed_from lib [] g env = (None, g, env)"
| "seed_from lib (a # as) g env =
    (let artifact = spn_dag_find_artifact g a
     in if af_kind artifact = SPN_DAG_ARTIFACT_KIND_FILE \<and> af_producer artifact = None then
          (if root_pinned (roots_pinned (g_roots g)) (af_path artifact) then
             seed_from lib as
               (set_digest a (spn_dag_path_digest (lib_blake3 lib) (af_path artifact))
                 (set_materialized a (af_path artifact) g)) env
           else case seed_source lib a g env of
             (Some _, g, env) \<Rightarrow> (Some SPN_ERR_DAG_MISSING_INPUT, g, env)
           | (None, g, env) \<Rightarrow> seed_from lib as g env)
        else seed_from lib as g env)"

definition seed_sources ::
    "'w dag_lib \<Rightarrow> spn_dag_t \<Rightarrow> 'w spn_dag_env_t \<Rightarrow> spn_dag_err option \<times> spn_dag_t \<times> 'w spn_dag_env_t" where
  "seed_sources lib g = seed_from lib [0..<length (g_artifacts g)] g"

definition seed_state :: "spn_dag_t \<Rightarrow> spn_dag_action_t \<Rightarrow> spn_dag_run_state_t" where
  "seed_state g action =
     \<lparr>rs_pending = length (filter (\<lambda>a. \<not> spn_dag_digest_valid (af_digest (spn_dag_find_artifact g a)))
        (ac_consumes action)),
      rs_deferred = 0, rs_done = False, rs_parked = False, rs_done_epoch = 0, rs_waiters = [],
      rs_flight = \<lparr>fl_epoch = 0, fl_err = None, fl_attempt = attempt_zero\<rparr>\<rparr>"

definition seed_ready ::
    "spn_dag_t \<Rightarrow> 'w spn_dag_env_t \<Rightarrow> bool \<Rightarrow> spn_dag_targets_t \<Rightarrow> 'w spn_dag_run_t" where
  "seed_ready g env cancel targets =
    (let states = map (seed_state g) (g_actions g)
     in \<lparr>run_g = g, run_env = env, run_cancel = cancel, run_queue = [], run_running = [], run_jobs = [],
         run_targets = targets, run_states = states,
         run_ready = filter (\<lambda>i. rs_pending (states ! i) = 0) [0..<length (g_actions g)],
         run_completed = 0, run_in_flight = 0, run_err = None\<rparr>)"

section \<open>Finishing an action\<close>

text \<open>One round of the two loops: a counter that is not zero goes down, and at zero the action
  is ready.\<close>

definition release ::
    "(spn_dag_run_state_t \<Rightarrow> nat) \<Rightarrow> ((nat \<Rightarrow> nat) \<Rightarrow> spn_dag_run_state_t \<Rightarrow> spn_dag_run_state_t) \<Rightarrow>
     nat \<Rightarrow> 'w spn_dag_run_t \<Rightarrow> 'w spn_dag_run_t" where
  "release counter update i run =
    (if counter (run_state run i) = 0 then run
     else let run = update_state i (update (\<lambda>k. k - 1)) run
          in if counter (run_state run i) = 0 then push_ready i run else run)"

definition finish_action :: "nat \<Rightarrow> 'w spn_dag_run_t \<Rightarrow> 'w spn_dag_run_t" where
  "finish_action i run =
    (let run = run\<lparr>run_completed := run_completed run + 1\<rparr>;
         run = update_state i (\<lambda>s. s\<lparr>rs_done := True, rs_done_epoch := run_completed run\<rparr>) run;
         consumers = concat (map (\<lambda>p. af_consumers (spn_dag_find_artifact (run_g run) p))
           (ac_produces (spn_dag_find_action (run_g run) i)));
         run = fold (release rs_pending rs_pending_update) consumers run
     in fold (release rs_deferred rs_deferred_update) (rs_waiters (run_state run i)) run)"

section \<open>The jobs of the pool\<close>

definition flight_start :: "nat \<Rightarrow> 'w spn_dag_run_t \<Rightarrow> 'w spn_dag_run_t" where
  "flight_start i run = update_flight i (\<lambda>fl. fl\<lparr>fl_epoch := run_completed run\<rparr>) run"

definition flight_finish ::
    "'w dag_lib \<Rightarrow> 'w spn_dag_exec_fn_t \<Rightarrow> nat \<Rightarrow> 'w spn_dag_run_t \<Rightarrow> 'w spn_dag_run_t option" where
  "flight_finish lib exec i run =
    (let flight = rs_flight (run_state run i)
     in case lookup lib i (fl_attempt flight) (run_g run) (run_env run) of
          None \<Rightarrow> None
        | Some (attempt, g, env) \<Rightarrow>
            if at_hit attempt then
              Some (update_flight i (\<lambda>fl. fl\<lparr>fl_attempt := attempt\<rparr>) (run\<lparr>run_g := g, run_env := env\<rparr>))
            else (case execute_attempt lib exec i attempt g env of
              (err, attempt, env) \<Rightarrow>
                Some (update_flight i (\<lambda>fl. fl\<lparr>fl_attempt := attempt, fl_err := err\<rparr>)
                  (run\<lparr>run_g := g, run_env := env\<rparr>))))"

definition flight_run ::
    "'w dag_lib \<Rightarrow> 'w spn_dag_exec_fn_t \<Rightarrow> nat \<Rightarrow> 'w spn_dag_run_t \<Rightarrow> 'w spn_dag_run_t option" where
  "flight_run lib exec i run = flight_finish lib exec i (flight_start i run)"

definition pool_submit :: "nat \<Rightarrow> 'w spn_dag_run_t \<Rightarrow> 'w spn_dag_run_t" where
  "pool_submit i run = run\<lparr>run_queue := run_queue run @ [i]\<rparr>"

text \<open>\<open>Some None\<close> is the answer that there was no job.\<close>

definition spn_thread_pool_step ::
    "'w dag_lib \<Rightarrow> 'w spn_dag_exec_fn_t \<Rightarrow> 'w spn_dag_run_t \<Rightarrow> 'w spn_dag_run_t option option" where
  "spn_thread_pool_step lib exec run =
    (if run_queue run = [] then Some None
     else let i = last (run_queue run)
          in map_option (\<lambda>run. Some (run\<lparr>run_jobs := run_jobs run @ [i]\<rparr>))
               (flight_run lib exec i (run\<lparr>run_queue := butlast (run_queue run)\<rparr>)))"

definition pool_try_poll :: "'w spn_dag_run_t \<Rightarrow> nat option \<times> 'w spn_dag_run_t" where
  "pool_try_poll run =
    (if run_jobs run = [] then (None, run)
     else (Some (last (run_jobs run)), run\<lparr>run_jobs := butlast (run_jobs run)\<rparr>))"

text \<open>Without workers; the loop runs at most one job. \<open>None\<close> is an assertion that fails in the job,
  or that there is no job, for which the code waits forever.\<close>

definition pool_poll ::
    "'w dag_lib \<Rightarrow> 'w spn_dag_exec_fn_t \<Rightarrow> 'w spn_dag_run_t \<Rightarrow> (nat \<times> 'w spn_dag_run_t) option" where
  "pool_poll lib exec run =
    (case pool_try_poll run of
       (Some i, run) \<Rightarrow> Some (i, run)
     | (None, run) \<Rightarrow>
        (case spn_thread_pool_step lib exec run of
           None \<Rightarrow> None
         | Some None \<Rightarrow> None
         | Some (Some run) \<Rightarrow> (case pool_try_poll run of (Some i, run) \<Rightarrow> Some (i, run) | (None, _) \<Rightarrow> None)))"

section \<open>Turns of the main thread\<close>

definition discard :: "'w dag_lib \<Rightarrow> nat \<Rightarrow> 'w spn_dag_run_t \<Rightarrow> 'w spn_dag_run_t" where
  "discard lib i run = run\<lparr>run_env := attempt_discard lib i (run_env run)\<rparr>"

definition run_commit_flight :: "'w dag_lib \<Rightarrow> nat \<Rightarrow> 'w spn_dag_run_t \<Rightarrow> 'w spn_dag_run_t option" where
  "run_commit_flight lib i run =
    (case commit lib i (fl_attempt (rs_flight (run_state run i))) (run_g run) (run_env run) of
       None \<Rightarrow> None
     | Some (err, g, env) \<Rightarrow>
        (let run = discard lib i (run\<lparr>run_g := g, run_env := env, run_err := err\<rparr>)
         in Some (if err \<noteq> None then run else finish_action i run)))"

text \<open>The second half of \<open>run_dispatch\<close>: the outputs the action is known to observe, and the
  job.\<close>

definition dispatch_fresh :: "'w dag_lib \<Rightarrow> nat \<Rightarrow> 'w spn_dag_run_t \<Rightarrow> 'w spn_dag_run_t option" where
  "dispatch_fresh lib i run =
    (let submit = (\<lambda>run. pool_submit i
           (update_flight i (\<lambda>fl. fl\<lparr>fl_err := None,
              fl_attempt := attempt_zero\<lparr>at_digests := at_digests (fl_attempt fl)\<rparr>\<rparr>)
             (run\<lparr>run_in_flight := run_in_flight run + 1\<rparr>)))
     in if ac_kind (spn_dag_find_action (run_g run) i) \<noteq> SPN_DAG_ACTION_DISCOVERED then Some (submit run)
        else (case spn_dag_weak_key (lib_blake3 lib) (run_g run) i of
          None \<Rightarrow> None
        | Some key \<Rightarrow>
           (case spn_dag_obs_table_get lib key (run_env run) of
              (None, env) \<Rightarrow> Some (submit (run\<lparr>run_env := env\<rparr>))
            | (Some pathset, env) \<Rightarrow>
               (case defer_observations i (ps_obs pathset) (run_completed run) (run\<lparr>run_env := env\<rparr>) of
                  (waits, requeue, run) \<Rightarrow>
                    if waits then Some run else if requeue then None else Some (submit run)))))"

definition run_dispatch :: "'w dag_lib \<Rightarrow> nat \<Rightarrow> 'w spn_dag_run_t \<Rightarrow> 'w spn_dag_run_t option" where
  "run_dispatch lib i run =
    (let flight = rs_flight (run_state run i)
     in if rs_parked (run_state run i) then
          (case defer_observations i (at_obs (fl_attempt flight)) (fl_epoch flight) run of
             (waits, requeue, run) \<Rightarrow>
               if waits then Some run
               else let run = update_state i (\<lambda>s. s\<lparr>rs_parked := False\<rparr>) run
                    in if \<not> requeue then run_commit_flight lib i run
                       else dispatch_fresh lib i (discard lib i run))
        else dispatch_fresh lib i run)"

definition run_complete :: "'w dag_lib \<Rightarrow> nat \<Rightarrow> 'w spn_dag_run_t \<Rightarrow> 'w spn_dag_run_t option" where
  "run_complete lib i run =
    (let flight = rs_flight (run_state run i); attempt = fl_attempt flight
     in if run_err run \<noteq> None \<or> fl_err flight \<noteq> None then
          (let run = run\<lparr>run_err := (if run_err run \<noteq> None then run_err run else fl_err flight)\<rparr>
           in Some (if \<not> at_hit attempt then discard lib i run else run))
        else if at_hit attempt then Some (finish_action i run)
        else if ac_kind (spn_dag_find_action (run_g run) i) = SPN_DAG_ACTION_DISCOVERED then
          (case defer_observations i (at_obs attempt) (fl_epoch flight) run of
             (waits, requeue, run) \<Rightarrow>
               if waits then Some (update_state i (\<lambda>s. s\<lparr>rs_parked := True\<rparr>) run)
               else if requeue then Some (push_ready i (discard lib i run))
               else run_commit_flight lib i run)
        else run_commit_flight lib i run)"

definition cancel_check :: "'w spn_dag_run_t \<Rightarrow> 'w spn_dag_run_t" where
  "cancel_check run =
    (if run_err run = None \<and> run_cancel run then run\<lparr>run_err := Some SPN_ERR_DAG_CANCELLED\<rparr> else run)"

definition take_job :: "'w dag_lib \<Rightarrow> nat \<Rightarrow> 'w spn_dag_run_t \<Rightarrow> 'w spn_dag_run_t option" where
  "take_job lib i run = run_complete lib i (run\<lparr>run_in_flight := run_in_flight run - 1\<rparr>)"

text \<open>A turn of the loop: it goes on in a new state, waits in \<open>spn_thread_pool_poll\<close>, or
  leaves the loop.\<close>

datatype 'r turn = TURN_NEXT 'r | TURN_POLL 'r | TURN_BREAK 'r

definition run_turn :: "'w dag_lib \<Rightarrow> 'w spn_dag_run_t \<Rightarrow> 'w spn_dag_run_t turn option" where
  "run_turn lib run =
    (let run = cancel_check run
     in case pool_try_poll run of
          (Some i, run) \<Rightarrow> map_option TURN_NEXT (take_job lib i run)
        | (None, run) \<Rightarrow>
            if run_err run = None \<and> run_ready run \<noteq> [] then
              map_option TURN_NEXT (run_dispatch lib (last (run_ready run))
                (run\<lparr>run_ready := butlast (run_ready run)\<rparr>))
            else if 0 < run_in_flight run then Some (TURN_POLL run)
            else Some (TURN_BREAK run))"

section \<open>The run of a graph\<close>

text \<open>After the loop: parked attempts are discarded, and a run that finished without an error
  but not with every action has stalled.\<close>

definition run_end :: "'w dag_lib \<Rightarrow> 'w spn_dag_run_t \<Rightarrow> 'w spn_dag_run_t" where
  "run_end lib run =
    (let run = fold (\<lambda>i run. if rs_parked (run_state run i) then discard lib i run else run)
           [0..<length (g_actions (run_g run))] run
     in if run_err run = None \<and> run_completed run \<noteq> length (g_actions (run_g run))
        then run\<lparr>run_err := Some SPN_ERR_DAG_STALLED\<rparr> else run)"

text \<open>The loop, with a pool that has no workers; the fuel is the number of turns that the code
  asserts.\<close>

primrec run_loop ::
    "'w dag_lib \<Rightarrow> 'w spn_dag_exec_fn_t \<Rightarrow> nat \<Rightarrow> 'w spn_dag_run_t \<Rightarrow> 'w spn_dag_run_t option" where
  "run_loop lib exec 0 run = None"
| "run_loop lib exec (Suc turns) run =
    (case run_turn lib run of
       None \<Rightarrow> None
     | Some (TURN_NEXT run) \<Rightarrow> run_loop lib exec turns run
     | Some (TURN_POLL run) \<Rightarrow>
        (case pool_poll lib exec run of
           None \<Rightarrow> None
         | Some (i, run) \<Rightarrow>
            (case take_job lib i run of None \<Rightarrow> None | Some run \<Rightarrow> run_loop lib exec turns run))
     | Some (TURN_BREAK run) \<Rightarrow> Some run)"

definition turns_max :: "nat \<Rightarrow> nat" where
  "turns_max n = 4 * (n + 1) * (n + 1)"

text \<open>The part before the loop: the scratch directory, the checks and the digests of the sources;
  then the error, or the state the loop starts in.\<close>

definition run_seed ::
    "'w dag_lib \<Rightarrow> spn_dag_t \<Rightarrow> 'w spn_dag_env_t \<Rightarrow>
     (spn_dag_err option \<times> spn_dag_t \<times> 'w spn_dag_env_t) option" where
  "run_seed lib g env =
    (let scratch = spn_path_join (lib_path lib) (env_scratch env) ''scratch'';
         env = snd (with_world (fs_create_dir lib scratch) env)
     in case spn_dag_file_cache_fence_dir lib scratch env of
          (Some err, env) \<Rightarrow> Some (Some err, g, env)
        | (None, env) \<Rightarrow>
           (case spn_dag_validate (lib_path lib) g of
              None \<Rightarrow> None
            | Some (Some violation) \<Rightarrow> Some (Some (vio_err violation), g, env)
            | Some None \<Rightarrow> Some (seed_sources lib g env)))"

definition run_begin ::
    "'w dag_lib \<Rightarrow> spn_dag_t \<Rightarrow> 'w spn_dag_env_t \<Rightarrow> bool \<Rightarrow>
     (spn_dag_err \<times> spn_dag_t \<times> 'w spn_dag_env_t + 'w spn_dag_run_t) option" where
  "run_begin lib g env cancel =
    (if \<not> length (g_actions g) < 2 ^ 30 then None
     else case run_seed lib g env of
       None \<Rightarrow> None
     | Some (Some err, g, env) \<Rightarrow> Some (Inl (err, g, env))
     | Some (None, g, env) \<Rightarrow>
         map_option (\<lambda>targets. Inr (seed_ready g env cancel targets)) (targets_init g))"

definition spn_dag_run ::
    "'w dag_lib \<Rightarrow> 'w spn_dag_exec_fn_t \<Rightarrow> spn_dag_t \<Rightarrow> 'w spn_dag_env_t \<Rightarrow> bool \<Rightarrow>
     (spn_dag_err option \<times> spn_dag_t \<times> 'w spn_dag_env_t) option" where
  "spn_dag_run lib exec g env cancel =
    (case run_begin lib g env cancel of
       None \<Rightarrow> None
     | Some (Inl (err, g, env)) \<Rightarrow> Some (Some err, g, env)
     | Some (Inr run) \<Rightarrow>
        map_option (\<lambda>run. let run = run_end lib run in (run_err run, run_g run, run_env run))
          (run_loop lib exec (turns_max (length (g_actions g))) run))"

section \<open>Turns and workers interleaved\<close>

text \<open>What the workers of a pool do, and the flag that another thread may set.\<close>

inductive pool_worker ::
    "'w dag_lib \<Rightarrow> 'w spn_dag_exec_fn_t \<Rightarrow> 'w spn_dag_run_t \<Rightarrow> 'w spn_dag_run_t \<Rightarrow> bool"
  for lib :: "'w dag_lib" and exec :: "'w spn_dag_exec_fn_t" where
  worker_start: "run_queue run = queue @ [i] \<Longrightarrow>
     pool_worker lib exec run
       (flight_start i (run\<lparr>run_queue := queue, run_running := run_running run @ [i]\<rparr>))"
| worker_finish: "run_running run = before @ i # after \<Longrightarrow>
     flight_finish lib exec i (run\<lparr>run_running := before @ after, run_jobs := run_jobs run @ [i]\<rparr>) = Some run' \<Longrightarrow>
     pool_worker lib exec run run'"
| set_cancel: "pool_worker lib exec run (run\<lparr>run_cancel := True\<rparr>)"

text \<open>A run after a number of turns of the main thread. In \<open>turn_poll\<close> the main thread sleeps
  while the workers go on, until a job is done.\<close>

inductive run_after ::
    "'w dag_lib \<Rightarrow> 'w spn_dag_exec_fn_t \<Rightarrow> 'w spn_dag_run_t \<Rightarrow> nat \<Rightarrow> 'w spn_dag_run_t \<Rightarrow> bool"
  for lib :: "'w dag_lib" and exec :: "'w spn_dag_exec_fn_t" and start :: "'w spn_dag_run_t" where
  run_start: "run_after lib exec start 0 start"
| run_worker: "run_after lib exec start t run \<Longrightarrow> pool_worker lib exec run run' \<Longrightarrow>
     run_after lib exec start t run'"
| turn_next: "run_after lib exec start t run \<Longrightarrow> run_turn lib run = Some (TURN_NEXT run') \<Longrightarrow>
     run_after lib exec start (Suc t) run'"
| turn_poll: "run_after lib exec start t run \<Longrightarrow> run_turn lib run = Some (TURN_POLL asleep) \<Longrightarrow>
     (pool_worker lib exec)\<^sup>*\<^sup>* asleep awake \<Longrightarrow> pool_try_poll awake = (Some i, awake') \<Longrightarrow>
     take_job lib i awake' = Some run' \<Longrightarrow> run_after lib exec start (Suc t) run'"

end
