(* ===== verification/Dag_Frame.thy ===== *)
theory Dag_Frame
  imports Dag_Run
begin

text \<open>
  What an action changes of its graph: looking it up and committing it change the digests and the
  places of its own outputs and whether it wrote, and nothing else of the graph.
\<close>

definition artifact_shape :: "spn_dag_artifact_t \<Rightarrow> spn_dag_artifact_t" where
  "artifact_shape a = a\<lparr>af_digest := [], af_materialized := path_zero\<rparr>"

definition action_shape :: "spn_dag_action_t \<Rightarrow> spn_dag_action_t" where
  "action_shape a = a\<lparr>ac_wrote := False\<rparr>"

definition touches :: "nat \<Rightarrow> spn_dag_t \<Rightarrow> spn_dag_t \<Rightarrow> bool" where
  "touches i g g' \<longleftrightarrow>
     g_roots g' = g_roots g \<and> g_paths g' = g_paths g \<and>
     length (g_artifacts g') = length (g_artifacts g) \<and> length (g_actions g') = length (g_actions g) \<and>
     (\<forall>p. artifact_shape (spn_dag_find_artifact g' p) = artifact_shape (spn_dag_find_artifact g p)) \<and>
     (\<forall>p. p \<notin> set (ac_produces (spn_dag_find_action g i)) \<longrightarrow>
        spn_dag_find_artifact g' p = spn_dag_find_artifact g p) \<and>
     (\<forall>j. action_shape (spn_dag_find_action g' j) = action_shape (spn_dag_find_action g j)) \<and>
     (\<forall>j. j \<noteq> i \<longrightarrow> spn_dag_find_action g' j = spn_dag_find_action g j)"

lemma artifact_shape_fields:
  "artifact_shape a = artifact_shape b \<Longrightarrow>
   af_kind a = af_kind b \<and> af_name a = af_name b \<and> af_path a = af_path b \<and>
   af_producer a = af_producer b \<and> af_consumers a = af_consumers b"
  by (cases a; cases b) (simp add: artifact_shape_def)

lemma action_shape_fields:
  "action_shape a = action_shape b \<Longrightarrow>
   ac_kind a = ac_kind b \<and> ac_identity a = ac_identity b \<and> ac_consumes a = ac_consumes b \<and>
   ac_produces a = ac_produces b"
  by (cases a; cases b) (simp add: action_shape_def)

lemma touches_refl [simp]: "touches i g g"
  by (simp add: touches_def)

lemma touches_fields:
  assumes "touches i g g'"
  shows "g_roots g' = g_roots g" "g_paths g' = g_paths g"
    "length (g_artifacts g') = length (g_artifacts g)" "length (g_actions g') = length (g_actions g)"
    "af_kind (spn_dag_find_artifact g' p) = af_kind (spn_dag_find_artifact g p)"
    "af_name (spn_dag_find_artifact g' p) = af_name (spn_dag_find_artifact g p)"
    "af_path (spn_dag_find_artifact g' p) = af_path (spn_dag_find_artifact g p)"
    "af_producer (spn_dag_find_artifact g' p) = af_producer (spn_dag_find_artifact g p)"
    "af_consumers (spn_dag_find_artifact g' p) = af_consumers (spn_dag_find_artifact g p)"
    "ac_kind (spn_dag_find_action g' j) = ac_kind (spn_dag_find_action g j)"
    "ac_consumes (spn_dag_find_action g' j) = ac_consumes (spn_dag_find_action g j)"
    "ac_produces (spn_dag_find_action g' j) = ac_produces (spn_dag_find_action g j)"
  using assms artifact_shape_fields action_shape_fields unfolding touches_def by metis+

lemma touches_wrote:
  "touches i g g' \<Longrightarrow> j \<noteq> i \<Longrightarrow>
   ac_wrote (spn_dag_find_action g' j) = ac_wrote (spn_dag_find_action g j)"
  by (simp add: touches_def)

lemma touches_digest:
  "touches i g g' \<Longrightarrow> p \<notin> set (ac_produces (spn_dag_find_action g i)) \<Longrightarrow>
   spn_dag_find_artifact g' p = spn_dag_find_artifact g p"
  by (simp add: touches_def)

lemma touches_trans:
  assumes "touches i g g'" "touches i g' g''"
  shows "touches i g g''"
  using assms touches_fields(12) [OF assms(1), of i] unfolding touches_def by simp

lemma nth_update_shape:
  assumes "\<And>x. shape (f x) = shape x"
  shows "shape (xs[i := f (xs ! i)] ! j) = shape (xs ! j)"
  by (cases "i < length xs") (auto simp: nth_list_update assms list_update_beyond)

lemma touches_artifact:
  assumes "p \<in> set (ac_produces (spn_dag_find_action g i))"
    and "\<And>a. artifact_shape (f a) = artifact_shape a"
  shows "touches i g (update_artifact p f g)"
proof -
  have "(g_artifacts g)[p := a] ! p' = g_artifacts g ! p'"
    if "p' \<notin> set (ac_produces (spn_dag_find_action g i))" for p' a
    using that assms(1) by (metis nth_list_update_neq)
  then show ?thesis
    by (simp add: touches_def update_artifact_def nth_update_shape [of artifact_shape f, OF assms(2)])
qed

lemma touches_set_digest:
  "p \<in> set (ac_produces (spn_dag_find_action g i)) \<Longrightarrow> touches i g (set_digest p digest g)"
  unfolding set_digest_def by (rule touches_artifact) (simp_all add: artifact_shape_def)

lemma touches_set_materialized:
  "p \<in> set (ac_produces (spn_dag_find_action g i)) \<Longrightarrow> touches i g (set_materialized p path g)"
  unfolding set_materialized_def by (rule touches_artifact) (simp_all add: artifact_shape_def)

lemma touches_set_wrote: "touches i g (set_wrote i wrote g)"
  using nth_update_shape [of action_shape "\<lambda>a. a\<lparr>ac_wrote := wrote\<rparr>"]
  by (auto simp: touches_def set_wrote_def update_action_def action_shape_def)

lemma touches_set_digests:
  "set ps \<subseteq> set (ac_produces (spn_dag_find_action g i)) \<Longrightarrow> touches i g (set_digests ps digests g)"
proof (induction ps digests arbitrary: g rule: list_induct2')
  case (4 p ps d ds)
  have head: "touches i g (set_digest p d g)" using 4 by (intro touches_set_digest) simp
  have "touches i (set_digest p d g) (set_digests ps ds (set_digest p d g))"
    using 4 touches_fields(12) [OF head] by (intro "4.IH") auto
  then show ?case using touches_trans [OF head] by (simp add: set_digests_def)
qed (simp_all add: set_digests_def)

section \<open>Settling, restoring and committing\<close>

lemma settle_outputs_touches:
  "settle_outputs lib i ps g env = (err, g', env') \<Longrightarrow>
   set ps \<subseteq> set (ac_produces (spn_dag_find_action g i)) \<Longrightarrow> touches i g g'"
proof (induction lib i ps g env arbitrary: err g' env' rule: settle_outputs.induct)
  case (2 lib i p ps g env)
  let ?a = "spn_dag_find_artifact g p"
  have p: "p \<in> set (ac_produces (spn_dag_find_action g i))" using "2.prems" by simp
  have mat: "touches i g (set_materialized p path g)" for path by (rule touches_set_materialized [OF p])
  show ?case
  proof (cases "spn_path_empty (af_path ?a)")
    case empty: True
    show ?thesis
    proof (cases "spn_dag_store_locate lib (af_digest ?a) (af_name ?a) env")
      case (Inl err)
      then show ?thesis using "2.prems"(1) empty mat by (auto simp: Let_def)
    next
      case (Inr path)
      have rest: "settle_outputs lib i ps (set_materialized p path g) env = (err, g', env')"
        using "2.prems"(1) empty Inr by (simp add: Let_def)
      have "touches i (set_materialized p path g) g'"
        using "2.IH"(1) [OF refl empty Inr rest] "2.prems"(2) touches_fields(12) [OF mat] by simp
      then show ?thesis using touches_trans mat by blast
    qed
  next
    case nonempty: False
    obtain err1 wrote env1 where settled:
      "(if af_kind ?a = SPN_DAG_ARTIFACT_KIND_TREE then settle_tree lib ?a env else settle_file lib ?a env)
         = ((err1, wrote), env1)" by (metis surj_pair)
    let ?g1 = "if wrote then set_wrote i True g else g"
    have g1: "touches i g ?g1" using touches_set_wrote by simp
    show ?thesis
    proof (cases err1)
      case (Some e)
      then show ?thesis using "2.prems"(1) nonempty settled g1 by (simp add: Let_def)
    next
      case None
      let ?g2 = "set_materialized p (af_path ?a) ?g1"
      have rest: "settle_outputs lib i ps ?g2 env1 = (err, g', env')"
        using "2.prems"(1) nonempty settled None by (simp add: Let_def)
      have g2: "touches i g ?g2"
        using touches_trans [OF g1 touches_set_materialized] p touches_fields(12) [OF g1] by simp
      have "touches i ?g2 g'"
        using "2.IH"(2) [OF refl nonempty refl settled [symmetric] refl refl _ rest]
          "2.prems"(2) touches_fields(12) [OF g2] None by simp
      then show ?thesis using touches_trans g2 by blast
    qed
  qed
qed simp

lemma settle_touches: "settle lib i g env = (err, g', env') \<Longrightarrow> touches i g g'"
  unfolding settle_def
  using settle_outputs_touches touches_trans [OF touches_set_wrote]
    touches_fields(12) [OF touches_set_wrote] by (metis subset_refl)

lemma restore_entry_touches:
  assumes "restore_entry lib i outputs g env = (ok, g', env')"
  shows "touches i g g'"
proof -
  let ?g = "set_digests (ac_produces (spn_dag_find_action g i)) (map out_digest outputs) g"
  obtain err gs envs where settled: "settle lib i ?g env = (err, gs, envs)" by (metis surj_pair)
  have "touches i g gs" using touches_trans [OF touches_set_digests settle_touches [OF settled]] by simp
  then show ?thesis using assms settled by (auto simp: restore_entry_def Let_def split: if_splits)
qed

lemma try_restore_touches:
  "try_restore lib i key g env = (ok, g', env') \<Longrightarrow> touches i g g'"
  unfolding try_restore_def
  by (auto split: prod.splits option.splits bool.splits dest: restore_entry_touches)

lemma lookup_touches:
  "lookup lib i attempt g env = Some (attempt', g', env') \<Longrightarrow> touches i g g'"
  unfolding lookup_def Let_def
  by (auto split: spn_dag_action_kind_t.splits prod.splits option.splits dest: try_restore_touches)

lemma commit_touches:
  assumes "commit lib i attempt g env = Some (err, g', env')"
  shows "touches i g g'"
proof -
  let ?g = "set_digests (ac_produces (spn_dag_find_action g i)) (at_digests attempt) g"
  have "\<exists>env err env'. settle lib i ?g env = (err, g', env')"
    using assms unfolding commit_def Let_def
    by (auto split: spn_dag_action_kind_t.splits prod.splits option.splits if_splits)
  then show ?thesis using touches_trans [OF touches_set_digests settle_touches] by blast
qed

end
