(* ===== verification/Dag_Sched.thy ===== *)
theory Dag_Sched
  imports Dag_Frame
begin

text \<open>
  What the loops of the scheduler compute: the counters and the ready list after an action is
  finished, and the counters and the waiters after an action is deferred.
\<close>

section \<open>Releasing\<close>

text \<open>The two counters of an action are fields of its state; the loop over the consumers and the
  loop over the waiters are one loop over a counter.\<close>

lemma count_positive: "0 < k \<Longrightarrow> k \<le> count_list xs x \<Longrightarrow> x \<in> set xs"
  by (metis count_list_0_iff le_zero_eq less_irrefl)

locale counter_field =
  fixes counter :: "spn_dag_run_state_t \<Rightarrow> nat"
    and update :: "(nat \<Rightarrow> nat) \<Rightarrow> spn_dag_run_state_t \<Rightarrow> spn_dag_run_state_t"
  assumes counter_update: "counter (update f s) = f (counter s)"
    and update_update: "update f (update f' s) = update (\<lambda>k. f (f' k)) s"
    and update_same: "f (counter s) = counter s \<Longrightarrow> update f s = s"
begin

lemma release_some:
  assumes "i < length (run_states run)" "counter (run_state run i) \<noteq> 0"
  shows "release counter update i run =
    run\<lparr>run_states := (run_states run)[i := update (\<lambda>k. k - 1) (run_state run i)],
        run_ready := run_ready run @ (if counter (run_state run i) = 1 then [i] else [])\<rparr>"
  using assms by (simp add: release_def update_state_def push_ready_def counter_update Let_def)

lemma release_fold:
  "set is \<subseteq> {..<length (run_states run)} \<Longrightarrow>
   \<exists>new states. fold (release counter update) is run =
       run\<lparr>run_states := states, run_ready := run_ready run @ new\<rparr> \<and>
     length states = length (run_states run) \<and>
     (\<forall>j < length states. states ! j = update (\<lambda>k. k - count_list is j) (run_state run j)) \<and>
     distinct new \<and>
     set new = {j \<in> set is. 0 < counter (run_state run j) \<and> counter (run_state run j) \<le> count_list is j}"
proof (induction "is" arbitrary: run)
  case Nil
  show ?case by (rule exI [of _ "[]"], rule exI [of _ "run_states run"]) (simp add: update_same)
next
  case (Cons i "is")
  have i: "i < length (run_states run)" and prems: "set is \<subseteq> {..<length (run_states run)}"
    using Cons.prems by simp_all
  show ?case
  proof (cases "counter (run_state run i) = 0")
    case zero: True
    then have step: "release counter update i run = run" by (simp add: release_def)
    obtain new states where IH: "fold (release counter update) is run =
        run\<lparr>run_states := states, run_ready := run_ready run @ new\<rparr>"
      "length states = length (run_states run)"
      "\<forall>j < length states. states ! j = update (\<lambda>k. k - count_list is j) (run_state run j)"
      "distinct new"
      "set new = {j \<in> set is. 0 < counter (run_state run j) \<and> counter (run_state run j) \<le> count_list is j}"
      using Cons.IH [of run, OF prems] by blast
    have "states ! j = update (\<lambda>k. k - count_list (i # is) j) (run_state run j)"
      if "j < length states" for j
      using IH(3) that zero by (cases "i = j") (simp_all add: update_same)
    then show ?thesis using IH(1,2,4,5) step zero
      by (intro exI [of _ new] exI [of _ states]) auto
  next
    case pos: False
    let ?mid = "release counter update i run"
    let ?first = "if counter (run_state run i) = 1 then [i] else []"
    note step = release_some [OF i pos]
    have mid: "run_state ?mid j = (if j = i then update (\<lambda>k. k - 1) (run_state run i) else run_state run j)" for j
      using i by (simp add: step)
    have len: "length (run_states ?mid) = length (run_states run)" by (simp add: step)
    obtain new states where IH: "fold (release counter update) is ?mid =
        ?mid\<lparr>run_states := states, run_ready := run_ready ?mid @ new\<rparr>"
      "length states = length (run_states ?mid)"
      "\<forall>j < length states. states ! j = update (\<lambda>k. k - count_list is j) (run_state ?mid j)"
      "distinct new"
      "set new = {j \<in> set is. 0 < counter (run_state ?mid j) \<and> counter (run_state ?mid j) \<le> count_list is j}"
      using Cons.IH [of ?mid] prems unfolding len by blast
    have result: "fold (release counter update) (i # is) run =
        run\<lparr>run_states := states, run_ready := run_ready run @ (?first @ new)\<rparr>"
      using IH(1) by (simp add: step)
    have states: "states ! j = update (\<lambda>k. k - count_list (i # is) j) (run_state run j)"
      if "j < length states" for j
      using IH(3) that by (simp add: mid update_update)
    let ?c = "\<lambda>j. counter (run_state run j)"
    have mid_counter: "counter (run_state ?mid j) = (if j = i then ?c i - 1 else ?c j)" for j
      by (simp add: mid counter_update)
    note new = IH(5) [unfolded mid_counter]
    have "distinct (?first @ new)" using IH(4) new by auto
    moreover have "j \<in> set (?first @ new) \<longleftrightarrow> j \<in> set (i # is) \<and> 0 < ?c j \<and> ?c j \<le> count_list (i # is) j" for j
    proof (cases "j = i")
      case False
      then show ?thesis using new by simp
    next
      case True
      obtain k where k: "?c i = Suc k" using pos by (cases "?c i") auto
      have "i \<in> set new \<longleftrightarrow> i \<in> set is \<and> 0 < k \<and> k \<le> count_list is i" unfolding new by (simp add: k)
      then show ?thesis unfolding True k by (cases "k = 0") (auto dest: count_positive)
    qed
    then have "set (?first @ new) = {j \<in> set (i # is). 0 < ?c j \<and> ?c j \<le> count_list (i # is) j}" by blast
    ultimately show ?thesis
      using result states IH(2) len by (intro exI [of _ "?first @ new"] exI [of _ states]) simp
  qed
qed

end

interpretation pending: counter_field rs_pending rs_pending_update
  by unfold_locales simp_all

interpretation deferred: counter_field rs_deferred rs_deferred_update
  by unfold_locales simp_all

section \<open>Finishing an action\<close>

abbreviation consumers_of :: "spn_dag_t \<Rightarrow> nat \<Rightarrow> nat list" where
  "consumers_of g i \<equiv> concat (map (\<lambda>p. af_consumers (spn_dag_find_artifact g p))
     (ac_produces (spn_dag_find_action g i)))"

definition finished_state :: "'w spn_dag_run_t \<Rightarrow> nat \<Rightarrow> nat \<Rightarrow> spn_dag_run_state_t" where
  "finished_state run i j =
    (let s = (if j = i then (run_state run i)\<lparr>rs_done := True, rs_done_epoch := run_completed run + 1\<rparr>
              else run_state run j)
     in s\<lparr>rs_pending := rs_pending s - count_list (consumers_of (run_g run) i) j,
          rs_deferred := rs_deferred s - count_list (rs_waiters (run_state run i)) j\<rparr>)"

lemma finish_action_result:
  assumes "i < length (run_states run)"
    and "set (consumers_of (run_g run) i) \<subseteq> {..<length (run_states run)}"
    and "set (rs_waiters (run_state run i)) \<subseteq> {..<length (run_states run)}"
    and one: "\<And>j. j < length (run_states run) \<Longrightarrow> 0 < rs_pending (run_state run j) \<Longrightarrow>
      rs_deferred (run_state run j) = 0"
  obtains new states where
    "finish_action i run = run\<lparr>run_completed := run_completed run + 1, run_states := states,
       run_ready := run_ready run @ new\<rparr>"
    "length states = length (run_states run)"
    "\<And>j. j < length states \<Longrightarrow> states ! j = finished_state run i j"
    "distinct new"
    "set new = {j. j < length states \<and>
       (0 < rs_pending (run_state run j) \<and> rs_pending (finished_state run i j) = 0 \<or>
        0 < rs_deferred (run_state run j) \<and> rs_deferred (finished_state run i j) = 0)}"
proof -
  let ?C = "consumers_of (run_g run) i" and ?W = "rs_waiters (run_state run i)"
  let ?r0 = "update_state i (\<lambda>s. s\<lparr>rs_done := True, rs_done_epoch := run_completed run + 1\<rparr>)
    (run\<lparr>run_completed := run_completed run + 1\<rparr>)"
  have r0: "run_state ?r0 j = (if j = i then (run_state run i)\<lparr>rs_done := True,
      rs_done_epoch := run_completed run + 1\<rparr> else run_state run j)" for j
    using assms(1) by (simp add: update_state_def)
  have len0: "length (run_states ?r0) = length (run_states run)" by (simp add: update_state_def)
  have counts0: "rs_pending (run_state ?r0 j) = rs_pending (run_state run j)"
    "rs_deferred (run_state ?r0 j) = rs_deferred (run_state run j)" for j
    unfolding r0 by simp_all
  obtain new1 states1 where one1: "fold (release rs_pending rs_pending_update) ?C ?r0 =
      ?r0\<lparr>run_states := states1, run_ready := run_ready ?r0 @ new1\<rparr>"
    "length states1 = length (run_states ?r0)"
    "\<forall>j < length states1. states1 ! j = rs_pending_update (\<lambda>k. k - count_list ?C j) (run_state ?r0 j)"
    "distinct new1"
    "set new1 = {j \<in> set ?C. 0 < rs_pending (run_state ?r0 j) \<and> rs_pending (run_state ?r0 j) \<le> count_list ?C j}"
    using pending.release_fold [of ?C ?r0] assms(2) unfolding len0 by blast
  let ?r1 = "?r0\<lparr>run_states := states1, run_ready := run_ready ?r0 @ new1\<rparr>"
  have len1: "length (run_states ?r1) = length (run_states run)" using one1(2) len0 by simp
  have waiters: "rs_waiters (run_state ?r1 i) = ?W"
    using one1(2,3) assms(1) len0 r0 by simp
  obtain new2 states2 where two: "fold (release rs_deferred rs_deferred_update) ?W ?r1 =
      ?r1\<lparr>run_states := states2, run_ready := run_ready ?r1 @ new2\<rparr>"
    "length states2 = length (run_states ?r1)"
    "\<forall>j < length states2. states2 ! j = rs_deferred_update (\<lambda>k. k - count_list ?W j) (run_state ?r1 j)"
    "distinct new2"
    "set new2 = {j \<in> set ?W. 0 < rs_deferred (run_state ?r1 j) \<and> rs_deferred (run_state ?r1 j) \<le> count_list ?W j}"
    using deferred.release_fold [of ?W ?r1] assms(3) unfolding len1 by blast
  have len: "length states1 = length (run_states run)" "length states2 = length (run_states run)"
    using one1(2) two(2) len0 by simp_all
  have result: "finish_action i run = run\<lparr>run_completed := run_completed run + 1, run_states := states2,
       run_ready := run_ready run @ (new1 @ new2)\<rparr>"
  proof -
    have "finish_action i run = fold (release rs_deferred rs_deferred_update) ?W ?r1"
      using one1(1) waiters unfolding finish_action_def Let_def
      by (simp add: update_state_def)
    then show ?thesis using two(1) by (simp add: update_state_def)
  qed
  have states: "states2 ! j = finished_state run i j" if "j < length states2" for j
    using that two(3) one1(2,3) len r0 by (simp add: finished_state_def Let_def)
  have deferred1: "rs_deferred (run_state ?r1 j) = rs_deferred (run_state run j)"
    if "j < length (run_states run)" for j
    using that one1(3) len r0 by simp
  have final: "rs_pending (finished_state run i j) = rs_pending (run_state run j) - count_list ?C j"
    "rs_deferred (finished_state run i j) = rs_deferred (run_state run j) - count_list ?W j" for j
    by (simp_all add: finished_state_def Let_def)
  have new1: "set new1 = {j. j < length states2 \<and> 0 < rs_pending (run_state run j) \<and>
      rs_pending (finished_state run i j) = 0}"
    unfolding one1(5) counts0 final len using assms(2) by (auto dest: count_positive)
  have new2: "set new2 = {j. j < length states2 \<and> 0 < rs_deferred (run_state run j) \<and>
      rs_deferred (finished_state run i j) = 0}"
    unfolding two(5) final len using assms(3) deferred1 by (auto simp: subset_eq dest: count_positive)
  have "distinct (new1 @ new2)" using one1(4) two(4) one new1 new2 len by auto
  moreover have "set (new1 @ new2) = {j. j < length states2 \<and>
       (0 < rs_pending (run_state run j) \<and> rs_pending (finished_state run i j) = 0 \<or>
        0 < rs_deferred (run_state run j) \<and> rs_deferred (finished_state run i j) = 0)}"
    using new1 new2 by auto
  ultimately show thesis using that [OF result len(2) states] by blast
qed

section \<open>Deferring an action\<close>

definition deferred_state :: "nat \<Rightarrow> nat list \<Rightarrow> 'w spn_dag_run_t \<Rightarrow> nat \<Rightarrow> spn_dag_run_state_t" where
  "deferred_state i ps run j =
    (let s = run_state run j
     in s\<lparr>rs_waiters := rs_waiters s @ replicate (if rs_done s \<or> j = i then 0 else count_list ps j) i,
          rs_deferred := rs_deferred s + (if j = i then
            length (filter (\<lambda>p. p \<noteq> i \<and> \<not> rs_done (run_state run p)) ps) else 0)\<rparr>)"

definition overtaken :: "nat \<Rightarrow> nat list \<Rightarrow> nat \<Rightarrow> 'w spn_dag_run_t \<Rightarrow> bool" where
  "overtaken i ps epoch run \<longleftrightarrow>
     (\<exists>p \<in> set ps. p \<noteq> i \<and> rs_done (run_state run p) \<and> epoch < rs_done_epoch (run_state run p) \<and>
        ac_wrote (spn_dag_find_action (run_g run) p))"

lemma defer_fold:
  "i < length (run_states run) \<Longrightarrow> set ps \<subseteq> {..<length (run_states run)} \<Longrightarrow>
   \<exists>states. fold (defer_producer i epoch) ps (run, requeue) =
       (run\<lparr>run_states := states\<rparr>, requeue \<or> overtaken i ps epoch run) \<and>
     length states = length (run_states run) \<and>
     (\<forall>j < length states. states ! j = deferred_state i ps run j)"
proof (induction ps arbitrary: run requeue)
  case Nil
  show ?case
    by (rule exI [of _ "run_states run"]) (simp add: deferred_state_def overtaken_def Let_def)
next
  case (Cons p ps)
  have p: "p < length (run_states run)" using Cons.prems by simp
  show ?case
  proof (cases "p = i \<or> rs_done (run_state run p)")
    case True
    then have step: "defer_producer i epoch p (run, requeue) = (run, requeue \<or> overtaken i [p] epoch run)"
      by (auto simp: defer_producer_def overtaken_def Let_def)
    have same: "deferred_state i (p # ps) run j = deferred_state i ps run j" for j
      using True by (auto simp: deferred_state_def Let_def)
    show ?thesis using Cons.IH [of run "requeue \<or> overtaken i [p] epoch run"] Cons.prems step same
      by (auto simp: overtaken_def)
  next
    case False
    define mid where "mid = update_state i (\<lambda>s. s\<lparr>rs_deferred := rs_deferred s + 1\<rparr>)
      (update_state p (\<lambda>s. s\<lparr>rs_waiters := rs_waiters s @ [i]\<rparr>) run)"
    have step: "defer_producer i epoch p (run, requeue) = (mid, requeue)"
      using False by (simp add: defer_producer_def mid_def Let_def)
    have mid_state: "run_state mid j =
        (if j = i then (run_state run i)\<lparr>rs_deferred := rs_deferred (run_state run i) + 1\<rparr>
         else if j = p then (run_state run p)\<lparr>rs_waiters := rs_waiters (run_state run p) @ [i]\<rparr>
         else run_state run j)" for j
      using False Cons.prems p by (auto simp: mid_def update_state_def nth_list_update)
    have len: "length (run_states mid) = length (run_states run)"
      by (simp add: mid_def update_state_def)
    have rest: "mid\<lparr>run_states := states\<rparr> = run\<lparr>run_states := states\<rparr>" "run_g mid = run_g run" for states
      by (simp_all add: mid_def update_state_def)
    have done': "rs_done (run_state mid j) = rs_done (run_state run j)"
      "rs_done_epoch (run_state mid j) = rs_done_epoch (run_state run j)" for j
      by (simp_all add: mid_state)
    have over: "overtaken i ps epoch mid = overtaken i (p # ps) epoch run"
      using False by (auto simp: overtaken_def done' rest)
    have states: "deferred_state i ps mid j = deferred_state i (p # ps) run j" for j
    proof (cases "j = i")
      case True
      then show ?thesis using False unfolding deferred_state_def Let_def done' by (simp add: mid_state)
    next
      case ji: False
      show ?thesis
      proof (cases "j = p")
        case True
        then show ?thesis using False ji unfolding deferred_state_def Let_def done' by (simp add: mid_state)
      next
        case jp: False
        then show ?thesis using ji unfolding deferred_state_def Let_def done' by (simp add: mid_state)
      qed
    qed
    show ?thesis using Cons.IH [of mid requeue] Cons.prems len states over
      by (simp add: step rest)
  qed
qed

end
