(* ===== verification/Dag_Run_Inv.thy ===== *)
theory Dag_Run_Inv
  imports Dag_Sched
begin

text \<open>
  The invariant of a run: the counters of an action count what it waits for (\<open>counts_ok\<close>), an
  action that waits for nothing and is not done is in exactly one place (\<open>places_ok\<close>), epochs
  count the actions done (\<open>epochs_ok\<close>), and no action is done on observations that were out of
  date (\<open>fresh_ok\<close>).
\<close>

section \<open>The graph\<close>

definition dag_linked :: "spn_dag_t \<Rightarrow> bool" where
  "dag_linked g \<longleftrightarrow>
    (let n = length (g_actions g); m = length (g_artifacts g) in
     (\<forall>i<n. set (ac_consumes (spn_dag_find_action g i)) \<subseteq> {..<m} \<and>
        set (ac_produces (spn_dag_find_action g i)) \<subseteq> {..<m} \<and>
        distinct (ac_produces (spn_dag_find_action g i))) \<and>
     (\<forall>p<m. set (af_consumers (spn_dag_find_artifact g p)) \<subseteq> {..<n} \<and>
        pred_option (\<lambda>i. i < n) (af_producer (spn_dag_find_artifact g p)) \<and>
        (\<forall>i<n. (p \<in> set (ac_produces (spn_dag_find_action g i)) \<longleftrightarrow>
                  af_producer (spn_dag_find_artifact g p) = Some i) \<and>
               count_list (af_consumers (spn_dag_find_artifact g p)) i =
                 count_list (ac_consumes (spn_dag_find_action g i)) p)))"

lemma dag_linkedD:
  assumes "dag_linked g" "i < length (g_actions g)"
  shows "set (ac_consumes (spn_dag_find_action g i)) \<subseteq> {..<length (g_artifacts g)}"
    "set (ac_produces (spn_dag_find_action g i)) \<subseteq> {..<length (g_artifacts g)}"
    "distinct (ac_produces (spn_dag_find_action g i))"
    "p < length (g_artifacts g) \<Longrightarrow> p \<in> set (ac_produces (spn_dag_find_action g i)) \<longleftrightarrow>
       af_producer (spn_dag_find_artifact g p) = Some i"
    "p < length (g_artifacts g) \<Longrightarrow> count_list (af_consumers (spn_dag_find_artifact g p)) i =
       count_list (ac_consumes (spn_dag_find_action g i)) p"
    "p < length (g_artifacts g) \<Longrightarrow> set (af_consumers (spn_dag_find_artifact g p)) \<subseteq> {..<length (g_actions g)}"
  using assms unfolding dag_linked_def Let_def by blast+

lemma dag_linked_producer:
  "dag_linked g \<Longrightarrow> p < length (g_artifacts g) \<Longrightarrow> af_producer (spn_dag_find_artifact g p) = Some i \<Longrightarrow>
   i < length (g_actions g)"
  unfolding dag_linked_def Let_def by fastforce

lemma dag_linked_touches: "touches i g g' \<Longrightarrow> dag_linked g' = dag_linked g"
  unfolding dag_linked_def Let_def by (simp add: touches_fields)

lemma count_concat: "count_list (concat xss) x = sum_list (map (\<lambda>xs. count_list xs x) xss)"
  by (induction xss) simp_all

lemma sum_count_distinct:
  "distinct ps \<Longrightarrow> sum_list (map (count_list xs) ps) = length (filter (\<lambda>x. x \<in> set ps) xs)"
proof (induction ps)
  case (Cons p ps)
  have "length (filter (\<lambda>x. x = p \<or> x \<in> set ps) xs) = count_list xs p + length (filter (\<lambda>x. x \<in> set ps) xs)"
    using Cons.prems by (induction xs) auto
  then show ?case using Cons by simp
qed simp

lemma consumers_in_range:
  assumes "dag_linked g" "i < length (g_actions g)"
  shows "set (consumers_of g i) \<subseteq> {..<length (g_actions g)}"
  using dag_linkedD(2,6) [OF assms] by fastforce

lemma consumers_count:
  assumes linked: "dag_linked g" and i: "i < length (g_actions g)" and j: "j < length (g_actions g)"
  shows "count_list (consumers_of g i) j =
    length (filter (\<lambda>p. af_producer (spn_dag_find_artifact g p) = Some i) (ac_consumes (spn_dag_find_action g j)))"
proof -
  let ?ps = "ac_produces (spn_dag_find_action g i)" and ?cs = "ac_consumes (spn_dag_find_action g j)"
  have range: "p < length (g_artifacts g)" if "p \<in> set ?ps" for p
    using dag_linkedD(2) [OF linked i] that by auto
  have "count_list (consumers_of g i) j = sum_list (map (\<lambda>p. count_list (af_consumers (spn_dag_find_artifact g p)) j) ?ps)"
    by (simp add: count_concat comp_def)
  also have "\<dots> = sum_list (map (count_list ?cs) ?ps)"
    using range dag_linkedD(5) [OF linked j] by (simp cong: map_cong)
  also have "\<dots> = length (filter (\<lambda>p. p \<in> set ?ps) ?cs)"
    by (rule sum_count_distinct) (rule dag_linkedD(3) [OF linked i])
  also have "\<dots> = length (filter (\<lambda>p. af_producer (spn_dag_find_artifact g p) = Some i) ?cs)"
    using dag_linkedD(1) [OF linked j] dag_linkedD(4) [OF linked i]
    by (intro arg_cong [of _ _ length] filter_cong) auto
  finally show ?thesis .
qed

section \<open>Counters\<close>

abbreviation run_size :: "'w spn_dag_run_t \<Rightarrow> nat" where
  "run_size run \<equiv> length (g_actions (run_g run))"

text \<open>The inputs whose producers are not done, and the entries among the waiters of actions not
  done.\<close>

definition unmet :: "'w spn_dag_run_t \<Rightarrow> nat \<Rightarrow> nat list" where
  "unmet run i = filter (\<lambda>p. case af_producer (spn_dag_find_artifact (run_g run) p) of
       None \<Rightarrow> False | Some q \<Rightarrow> \<not> rs_done (run_state run q))
     (ac_consumes (spn_dag_find_action (run_g run) i))"

definition waits :: "'w spn_dag_run_t \<Rightarrow> nat \<Rightarrow> nat" where
  "waits run i = (\<Sum>p | p < run_size run \<and> \<not> rs_done (run_state run p). count_list (rs_waiters (run_state run p)) i)"

definition counts_ok :: "'w spn_dag_run_t \<Rightarrow> bool" where
  "counts_ok run \<longleftrightarrow>
     dag_linked (run_g run) \<and> length (run_states run) = run_size run \<and>
     (\<forall>j < run_size run.
        rs_pending (run_state run j) = length (unmet run j) \<and>
        rs_deferred (run_state run j) = waits run j \<and>
        set (rs_waiters (run_state run j)) \<subseteq> {..<run_size run} \<and>
        (rs_done (run_state run j) \<longrightarrow> rs_pending (run_state run j) = 0) \<and>
        (rs_done (run_state run j) \<or> 0 < rs_pending (run_state run j) \<longrightarrow> rs_deferred (run_state run j) = 0))"

lemma counts_okD:
  assumes "counts_ok run"
  shows "dag_linked (run_g run)" "length (run_states run) = run_size run"
    "j < run_size run \<Longrightarrow> rs_pending (run_state run j) = length (unmet run j)"
    "j < run_size run \<Longrightarrow> rs_deferred (run_state run j) = waits run j"
    "j < run_size run \<Longrightarrow> set (rs_waiters (run_state run j)) \<subseteq> {..<run_size run}"
    "j < run_size run \<Longrightarrow> rs_done (run_state run j) \<Longrightarrow> rs_pending (run_state run j) = 0"
    "j < run_size run \<Longrightarrow> rs_done (run_state run j) \<Longrightarrow> rs_deferred (run_state run j) = 0"
    "j < run_size run \<Longrightarrow> 0 < rs_pending (run_state run j) \<Longrightarrow> rs_deferred (run_state run j) = 0"
  using assms unfolding counts_ok_def by blast+

text \<open>A step that leaves the scheduling alone.\<close>

definition core :: "spn_dag_run_state_t \<Rightarrow> nat \<times> nat \<times> bool \<times> nat \<times> nat list" where
  "core s = (rs_pending s, rs_deferred s, rs_done s, rs_done_epoch s, rs_waiters s)"

definition quiet :: "nat \<Rightarrow> 'w spn_dag_run_t \<Rightarrow> 'w spn_dag_run_t \<Rightarrow> bool" where
  "quiet i run run' \<longleftrightarrow>
     touches i (run_g run) (run_g run') \<and> run_targets run' = run_targets run \<and>
     run_completed run' = run_completed run \<and> length (run_states run') = length (run_states run) \<and>
     (\<forall>j. core (run_state run' j) = core (run_state run j)) \<and>
     (\<forall>j. j \<noteq> i \<longrightarrow> run_state run' j = run_state run j)"

lemma quiet_fields:
  assumes "quiet i run run'"
  shows "rs_pending (run_state run' j) = rs_pending (run_state run j)"
    "rs_deferred (run_state run' j) = rs_deferred (run_state run j)"
    "rs_done (run_state run' j) = rs_done (run_state run j)"
    "rs_done_epoch (run_state run' j) = rs_done_epoch (run_state run j)"
    "rs_waiters (run_state run' j) = rs_waiters (run_state run j)"
    "run_completed run' = run_completed run" "run_targets run' = run_targets run"
    "length (run_states run') = length (run_states run)"
    "touches i (run_g run) (run_g run')"
    "j \<noteq> i \<Longrightarrow> run_state run' j = run_state run j"
  using assms unfolding quiet_def core_def by blast+

lemma quiet_size: "quiet i run run' \<Longrightarrow> run_size run' = run_size run"
  using quiet_fields(9) touches_fields(4) by blast

lemma quiet_unmet: "quiet i run run' \<Longrightarrow> unmet run' j = unmet run j"
  using quiet_fields(9) [of i run run']
  by (simp add: unmet_def touches_fields quiet_fields(3) cong: option.case_cong)

lemma quiet_waits: "quiet i run run' \<Longrightarrow> waits run' j = waits run j"
  by (simp add: waits_def quiet_fields(3,5) quiet_size)

lemma quiet_counts:
  assumes "quiet i run run'" "counts_ok run"
  shows "counts_ok run'"
  using assms(2) unfolding counts_ok_def quiet_fields(1-3,5,8) [OF assms(1)] quiet_unmet [OF assms(1)]
    quiet_waits [OF assms(1)] quiet_size [OF assms(1)]
    dag_linked_touches [OF quiet_fields(9) [OF assms(1)]] .

section \<open>Places\<close>

abbreviation flights :: "'w spn_dag_run_t \<Rightarrow> nat list" where
  "flights run \<equiv> run_queue run @ run_running run @ run_jobs run"

definition eligible :: "'w spn_dag_run_t \<Rightarrow> nat set" where
  "eligible run = {j. j < run_size run \<and> \<not> rs_done (run_state run j) \<and>
     rs_pending (run_state run j) = 0 \<and> rs_deferred (run_state run j) = 0}"

text \<open>\<open>hand\<close> is the action the main thread is busy with, if any.\<close>

definition places_ok :: "nat list \<Rightarrow> 'w spn_dag_run_t \<Rightarrow> bool" where
  "places_ok hand run \<longleftrightarrow>
     distinct (hand @ run_ready run @ flights run) \<and>
     set (hand @ run_ready run @ flights run) \<subseteq> eligible run \<and>
     (run_err run = None \<longrightarrow> eligible run \<subseteq> set (hand @ run_ready run @ flights run)) \<and>
     run_in_flight run = length (flights run) \<and>
     (\<forall>j < run_size run. rs_parked (run_state run j) \<longrightarrow>
        \<not> rs_done (run_state run j) \<and> rs_pending (run_state run j) = 0 \<and> j \<notin> set (flights run))"

lemma quiet_eligible: "quiet i run run' \<Longrightarrow> eligible run' = eligible run"
  by (simp add: eligible_def quiet_fields(1-3) quiet_size)

lemma places_parked:
  assumes "places_ok hand run" "j < run_size run" "rs_parked (run_state run j)"
  shows "\<not> rs_done (run_state run j)" "rs_pending (run_state run j) = 0"
    "j \<notin> set (flights run)"
  using assms unfolding places_ok_def by blast+

section \<open>Epochs and observations\<close>

definition epochs_ok :: "'w spn_dag_run_t \<Rightarrow> bool" where
  "epochs_ok run \<longleftrightarrow>
     run_completed run = card {j. j < run_size run \<and> rs_done (run_state run j)} \<and>
     (\<forall>j < run_size run. rs_done_epoch (run_state run j) \<le> run_completed run \<and>
        fl_epoch (rs_flight (run_state run j)) \<le> run_completed run)"

text \<open>A row of observations is about an output: it names its path, a path inside it, or, when
  it lists a directory, a directory above it.\<close>

definition observes :: "spn_path_roots_t \<Rightarrow> spn_dag_obs_t \<Rightarrow> spn_dag_artifact_t \<Rightarrow> bool" where
  "observes roots obs a \<longleftrightarrow>
     \<not> root_pinned (roots_pinned roots) (obs_path obs) \<and> \<not> spn_path_empty (af_path a) \<and>
     (af_path a = obs_path obs \<or>
      af_kind a = SPN_DAG_ARTIFACT_KIND_TREE \<and> af_path a \<in> set (ancestors (obs_path obs)) \<or>
      obs_kind obs = SPN_DAG_OBS_ENUMERATION \<and> obs_path obs \<in> set (ancestors (af_path a)))"

definition observed_producers :: "spn_dag_t \<Rightarrow> spn_dag_obs_t \<Rightarrow> nat set" where
  "observed_producers g obs =
     {i. \<exists>p < length (g_artifacts g). af_producer (spn_dag_find_artifact g p) = Some i \<and>
           observes (g_roots g) obs (spn_dag_find_artifact g p)}"

definition targets_ok :: "'w spn_dag_run_t \<Rightarrow> bool" where
  "targets_ok run \<longleftrightarrow>
     (\<forall>obs. set (obs_producers (g_roots (run_g run)) (run_targets run) obs) =
        observed_producers (run_g run) obs) \<and>
     (\<forall>obs. observed_producers (run_g run) obs \<subseteq> {..<run_size run})"

text \<open>The outputs an action observed are those of actions done, which were done before it began
  or wrote nothing.\<close>

definition obs_current :: "'w spn_dag_run_t \<Rightarrow> nat \<Rightarrow> bool" where
  "obs_current run i \<longleftrightarrow>
     (\<forall>p \<in> set (observed run (at_obs (fl_attempt (rs_flight (run_state run i))))). p \<noteq> i \<longrightarrow>
        rs_done (run_state run p) \<and>
        (rs_done_epoch (run_state run p) \<le> fl_epoch (rs_flight (run_state run i)) \<or>
         \<not> ac_wrote (spn_dag_find_action (run_g run) p)))"

definition executed_discovered :: "'w spn_dag_run_t \<Rightarrow> nat \<Rightarrow> bool" where
  "executed_discovered run i \<longleftrightarrow>
     ac_kind (spn_dag_find_action (run_g run) i) = SPN_DAG_ACTION_DISCOVERED \<and>
     \<not> at_hit (fl_attempt (rs_flight (run_state run i)))"

definition fresh_ok :: "'w spn_dag_run_t \<Rightarrow> bool" where
  "fresh_ok run \<longleftrightarrow>
     (\<forall>i < run_size run. rs_done (run_state run i) \<longrightarrow> executed_discovered run i \<longrightarrow> obs_current run i)"

lemma quiet_observed: "quiet i run run' \<Longrightarrow> observed run' obs = observed run obs"
  using quiet_fields(9) [of i run run'] by (simp add: touches_fields quiet_fields(7))

lemma touches_observed: "touches i g g' \<Longrightarrow> observed_producers g' obs = observed_producers g obs"
  by (simp add: observed_producers_def observes_def touches_fields)

lemma quiet_targets:
  assumes "quiet i run run'" "targets_ok run"
  shows "targets_ok run'"
proof -
  note touches = quiet_fields(9) [OF assms(1)]
  show ?thesis
    using assms(2)
    unfolding targets_ok_def quiet_fields(7) [OF assms(1)] touches_fields(1,4) [OF touches]
      touches_observed [OF touches] .
qed

lemma quiet_epochs:
  assumes "quiet i run run'" "epochs_ok run"
    and "i < run_size run \<Longrightarrow> fl_epoch (rs_flight (run_state run' i)) \<le> run_completed run"
  shows "epochs_ok run'"
proof -
  have "fl_epoch (rs_flight (run_state run' j)) \<le> run_completed run" if "j < run_size run" for j
    using that assms quiet_fields(10) [OF assms(1), of j] by (cases "j = i") (auto simp: epochs_ok_def)
  then show ?thesis using assms(2)
    unfolding epochs_ok_def quiet_fields(3,4,6) [OF assms(1)] quiet_size [OF assms(1)] by blast
qed

lemma quiet_current:
  assumes quiet: "quiet i run run'" and "\<not> rs_done (run_state run i)"
    and "rs_done (run_state run j)" "obs_current run j"
  shows "obs_current run' j"
proof -
  have ji: "j \<noteq> i" using assms by auto
  note same = quiet_fields(10) [OF quiet ji] quiet_observed [OF quiet] quiet_fields(3,4) [OF quiet]
  have "ac_wrote (spn_dag_find_action (run_g run') p) = ac_wrote (spn_dag_find_action (run_g run) p)"
    if "rs_done (run_state run p)" for p
    using touches_wrote [OF quiet_fields(9) [OF quiet]] assms(2) that by metis
  then show ?thesis using assms(4) unfolding obs_current_def same by blast
qed

lemma quiet_fresh:
  assumes quiet: "quiet i run run'" and "\<not> rs_done (run_state run i)" "fresh_ok run"
  shows "fresh_ok run'"
  unfolding fresh_ok_def
proof (intro allI impI)
  fix j
  assume j: "j < run_size run'" and done': "rs_done (run_state run' j)" and ex: "executed_discovered run' j"
  have done': "rs_done (run_state run j)" using done' by (simp add: quiet_fields(3) [OF quiet])
  then have "j \<noteq> i" using assms(2) by auto
  then have "executed_discovered run j"
    using ex quiet_fields(10) [OF quiet, of j] touches_fields(10) [OF quiet_fields(9) [OF quiet], of j]
    by (simp add: executed_discovered_def)
  then have "obs_current run j"
    using assms(3) done' j quiet_size [OF quiet] by (simp add: fresh_ok_def)
  then show "obs_current run' j" using quiet_current [OF quiet assms(2) done'] by blast
qed

section \<open>The invariant\<close>

definition run_inv :: "nat list \<Rightarrow> 'w spn_dag_run_t \<Rightarrow> bool" where
  "run_inv hand run \<longleftrightarrow>
     counts_ok run \<and> places_ok hand run \<and> epochs_ok run \<and> targets_ok run \<and> fresh_ok run"

lemma run_invD:
  assumes "run_inv hand run"
  shows "counts_ok run" "places_ok hand run" "epochs_ok run" "targets_ok run" "fresh_ok run"
  using assms by (auto simp: run_inv_def)

lemma quiet_inv:
  assumes "quiet i run run'" "run_inv hand run" "\<not> rs_done (run_state run i)" "places_ok hand' run'"
    and "i < run_size run \<Longrightarrow> fl_epoch (rs_flight (run_state run' i)) \<le> run_completed run"
  shows "run_inv hand' run'"
  using assms quiet_counts quiet_epochs quiet_targets quiet_fresh unfolding run_inv_def by metis

end
