(* ===== verification/Dag_Run_Finish.thy ===== *)
theory Dag_Run_Finish
  imports Dag_Run_Inv
begin

text \<open>
  Finishing and deferring an action keep the invariant of a run, and do not raise its potential:
  the number of turns that may still come.
\<close>

section \<open>The potential\<close>

definition active :: "'w spn_dag_run_t \<Rightarrow> nat set" where
  "active run = {j. j < run_size run \<and> \<not> rs_done (run_state run j)}"

text \<open>A ready action is dispatched and its job completed; a job that an action finished since it
  began may be run again; an action that waits is dispatched again when it is released.\<close>

definition base :: "'w spn_dag_run_t \<Rightarrow> nat \<Rightarrow> nat" where
  "base run j =
    (if rs_done (run_state run j) then 0
     else if j \<in> set (run_ready run) then 2
     else if j \<in> set (run_queue run) then 1
     else if j \<in> set (run_running run @ run_jobs run) then
       (if fl_epoch (rs_flight (run_state run j)) = run_completed run then 1 else 3)
     else if 0 < rs_pending (run_state run j) then 2
     else if 0 < rs_deferred (run_state run j) then (if rs_parked (run_state run j) then 0 else 1)
     else 0)"

definition potential :: "'w spn_dag_run_t \<Rightarrow> nat" where
  "potential run = card (active run) * (card (active run) - 1) + (\<Sum>j<run_size run. base run j)"

lemma finite_active [simp]: "finite (active run)"
  by (simp add: active_def)

lemma potential_mono:
  assumes "run_size run' = run_size run" "active run' = active run"
    and "\<And>j. j < run_size run \<Longrightarrow> base run' j \<le> base run j"
  shows "potential run' \<le> potential run"
  unfolding potential_def assms(1,2) using assms(3) by (intro add_mono sum_mono) auto

lemma potential_change:
  assumes "run_size run' = run_size run" "active run' = active run" "i < run_size run"
    and "\<And>j. j < run_size run \<Longrightarrow> j \<noteq> i \<Longrightarrow> base run' j = base run j"
  shows "potential run' + base run i = potential run + base run' i"
proof -
  have "(\<Sum>j<run_size run. f j) = f i + (\<Sum>j\<in>{..<run_size run} - {i}. f j)" for f :: "nat \<Rightarrow> nat"
    using assms(3) by (simp add: sum.remove)
  moreover have "(\<Sum>j\<in>{..<run_size run} - {i}. base run' j) = (\<Sum>j\<in>{..<run_size run} - {i}. base run j)"
    using assms(4) by (intro sum.cong) auto
  ultimately show ?thesis unfolding potential_def assms(1,2) by simp
qed

section \<open>Finishing\<close>

lemma placesD:
  assumes "places_ok hand run"
  shows "distinct (hand @ run_ready run @ flights run)"
    "j \<in> set (hand @ run_ready run @ flights run) \<Longrightarrow> j < run_size run"
    "j \<in> set (hand @ run_ready run @ flights run) \<Longrightarrow> \<not> rs_done (run_state run j)"
    "j \<in> set (hand @ run_ready run @ flights run) \<Longrightarrow> rs_pending (run_state run j) = 0"
    "j \<in> set (hand @ run_ready run @ flights run) \<Longrightarrow> rs_deferred (run_state run j) = 0"
    "run_err run = None \<Longrightarrow> j \<in> eligible run \<Longrightarrow> j \<in> set (hand @ run_ready run @ flights run)"
    "run_in_flight run = length (flights run)"
  using assms unfolding places_ok_def eligible_def by blast+

lemma unmet_length:
  assumes "\<not> d i"
  shows "length (filter (\<lambda>p. case pr p of None \<Rightarrow> False | Some q \<Rightarrow> \<not> d q) xs) =
    length (filter (\<lambda>p. case pr p of None \<Rightarrow> False | Some q \<Rightarrow> \<not> (d q \<or> q = i)) xs) +
    length (filter (\<lambda>p. pr p = Some i) xs)"
  using assms by (induction xs) (auto split: option.splits)

text \<open>What finishing an action needs.\<close>

definition finishing :: "'w spn_dag_run_t \<Rightarrow> nat \<Rightarrow> bool" where
  "finishing run i \<longleftrightarrow>
     run_inv [i] run \<and> \<not> rs_parked (run_state run i) \<and> run_err run = None \<and>
     (executed_discovered run i \<longrightarrow> obs_current run i)"

lemma fin_inv: "finishing run i \<Longrightarrow> run_inv [i] run"
  and fin_unparked: "finishing run i \<Longrightarrow> \<not> rs_parked (run_state run i)"
  and fin_no_err: "finishing run i \<Longrightarrow> run_err run = None"
  and fin_current: "finishing run i \<Longrightarrow> executed_discovered run i \<Longrightarrow> obs_current run i"
  by (auto simp: finishing_def)

lemmas fin_counts = run_invD(1) [OF fin_inv]
lemmas fin_places = run_invD(2) [OF fin_inv]
lemmas fin_linked = counts_okD(1) [OF fin_counts]

lemma finish_i_facts:
  assumes fin: "finishing run i"
  shows "i < run_size run" "\<not> rs_done (run_state run i)"
    "rs_pending (run_state run i) = 0" "rs_deferred (run_state run i) = 0"
    "i \<notin> set (run_ready run @ flights run)"
  using placesD(2-5) [OF fin_places [OF fin], of i] placesD(1) [OF fin_places [OF fin]] by auto

lemma finish_result:
  assumes fin: "finishing run i"
  obtains new states where
    "(finish_action i run) = run\<lparr>run_completed := run_completed run + 1, run_states := states,
       run_ready := run_ready run @ new\<rparr>"
    "length states = run_size run"
    "\<And>j. j < run_size run \<Longrightarrow> states ! j = finished_state run i j"
    "distinct new"
    "set new = {j. j < run_size run \<and>
       (0 < rs_pending (run_state run j) \<and> rs_pending (finished_state run i j) = 0 \<or>
        0 < rs_deferred (run_state run j) \<and> rs_deferred (finished_state run i j) = 0)}"
proof -
  note len = counts_okD(2) [OF fin_counts [OF fin]]
  obtain new states where r: "(finish_action i run) = run\<lparr>run_completed := run_completed run + 1, run_states := states,
       run_ready := run_ready run @ new\<rparr>"
    "length states = length (run_states run)"
    "\<And>j. j < length states \<Longrightarrow> states ! j = finished_state run i j"
    "distinct new"
    "set new = {j. j < length states \<and>
       (0 < rs_pending (run_state run j) \<and> rs_pending (finished_state run i j) = 0 \<or>
        0 < rs_deferred (run_state run j) \<and> rs_deferred (finished_state run i j) = 0)}"
  proof (rule finish_action_result [of i run])
    show "i < length (run_states run)" "set (consumers_of (run_g run) i) \<subseteq> {..<length (run_states run)}"
      "set (rs_waiters (run_state run i)) \<subseteq> {..<length (run_states run)}"
      using finish_i_facts(1) [OF fin] consumers_in_range [OF fin_linked [OF fin] finish_i_facts(1) [OF fin]] counts_okD(5) [OF fin_counts [OF fin]]
      unfolding len by blast+
    show "rs_deferred (run_state run j) = 0"
      if "j < length (run_states run)" "0 < rs_pending (run_state run j)" for j
      using that counts_okD(8) [OF fin_counts [OF fin]] unfolding len by blast
  qed (rule that; assumption)
  have size: "length states = run_size run" using r(2) len by simp
  show thesis by (rule that [OF r(1) size r(3) r(4) r(5) [unfolded size]]) (simp add: size)
qed

lemma finish_same:
  assumes fin: "finishing run i"
  shows "run_g (finish_action i run) = run_g run" "run_err (finish_action i run) = run_err run" "run_queue (finish_action i run) = run_queue run"
    "run_running (finish_action i run) = run_running run" "run_jobs (finish_action i run) = run_jobs run"
    "run_targets (finish_action i run) = run_targets run" "run_in_flight (finish_action i run) = run_in_flight run"
    "run_completed (finish_action i run) = run_completed run + 1" "length (run_states (finish_action i run)) = run_size run"
  by (rule finish_result [OF fin]; simp)+

lemma finish_state:
  assumes fin: "finishing run i"
    and "j < run_size run"
  shows "rs_pending (run_state (finish_action i run) j) = rs_pending (run_state run j) - count_list (consumers_of (run_g run) i) j"
    "rs_deferred (run_state (finish_action i run) j) = rs_deferred (run_state run j) - count_list (rs_waiters (run_state run i)) j"
    "rs_done (run_state (finish_action i run) j) \<longleftrightarrow> rs_done (run_state run j) \<or> j = i"
    "rs_done_epoch (run_state (finish_action i run) j) = (if j = i then run_completed run + 1 else rs_done_epoch (run_state run j))"
    "rs_waiters (run_state (finish_action i run) j) = rs_waiters (run_state run j)"
    "rs_parked (run_state (finish_action i run) j) = rs_parked (run_state run j)"
    "rs_flight (run_state (finish_action i run) j) = rs_flight (run_state run j)"
proof -
  have "run_state (finish_action i run) j = finished_state run i j" by (rule finish_result [OF fin]) (simp add: assms(2))
  then show "rs_pending (run_state (finish_action i run) j) = rs_pending (run_state run j) - count_list (consumers_of (run_g run) i) j"
    "rs_deferred (run_state (finish_action i run) j) = rs_deferred (run_state run j) - count_list (rs_waiters (run_state run i)) j"
    "rs_done (run_state (finish_action i run) j) \<longleftrightarrow> rs_done (run_state run j) \<or> j = i"
    "rs_done_epoch (run_state (finish_action i run) j) = (if j = i then run_completed run + 1 else rs_done_epoch (run_state run j))"
    "rs_waiters (run_state (finish_action i run) j) = rs_waiters (run_state run j)"
    "rs_parked (run_state (finish_action i run) j) = rs_parked (run_state run j)"
    "rs_flight (run_state (finish_action i run) j) = rs_flight (run_state run j)"
    by (simp_all add: finished_state_def Let_def)
qed

lemma finish_ready:
  assumes fin: "finishing run i"
  obtains new where "run_ready (finish_action i run) = run_ready run @ new" "distinct new"
    "set new = {j. j < run_size run \<and>
       (0 < rs_pending (run_state run j) \<and> rs_pending (run_state (finish_action i run) j) = 0 \<or>
        0 < rs_deferred (run_state run j) \<and> rs_deferred (run_state (finish_action i run) j) = 0)}"
proof (rule finish_result [OF fin])
  fix new states
  assume "(finish_action i run) = run\<lparr>run_completed := run_completed run + 1, run_states := states,
       run_ready := run_ready run @ new\<rparr>"
    "length states = run_size run"
    "\<And>j. j < run_size run \<Longrightarrow> states ! j = finished_state run i j"
    "distinct new"
    "set new = {j. j < run_size run \<and>
       (0 < rs_pending (run_state run j) \<and> rs_pending (finished_state run i j) = 0 \<or>
        0 < rs_deferred (run_state run j) \<and> rs_deferred (finished_state run i j) = 0)}"
  note r = this
  have state': "run_state (finish_action i run) j = finished_state run i j" if "j < run_size run" for j
    using r(1,3) that by simp
  show thesis
  proof (rule that [of new])
    show "run_ready (finish_action i run) = run_ready run @ new" using r(1) by simp
    show "set new = {j. j < run_size run \<and>
       (0 < rs_pending (run_state run j) \<and> rs_pending (run_state (finish_action i run) j) = 0 \<or>
        0 < rs_deferred (run_state run j) \<and> rs_deferred (run_state (finish_action i run) j) = 0)}"
      unfolding r(5) by (rule Collect_cong) (auto simp: state')
  qed (rule r(4))
qed

lemma finish_unmet:
  assumes fin: "finishing run i"
    and j: "j < run_size run"
  shows "length (unmet run j) = length (unmet (finish_action i run) j) + count_list (consumers_of (run_g run) i) j"
proof -
  have "unmet (finish_action i run) j = filter (\<lambda>p. case af_producer (spn_dag_find_artifact (run_g run) p) of
      None \<Rightarrow> False | Some q \<Rightarrow> \<not> (rs_done (run_state run q) \<or> q = i))
      (ac_consumes (spn_dag_find_action (run_g run) j))"
    unfolding unmet_def finish_same(1) [OF fin]
    using dag_linkedD(1) [OF fin_linked [OF fin] j] dag_linked_producer [OF fin_linked [OF fin]] finish_state(3) [OF fin]
    by (intro filter_cong) (auto split: option.splits simp: subset_eq)
  then show ?thesis
    using unmet_length [of "\<lambda>q. rs_done (run_state run q)", OF finish_i_facts(2) [OF fin]]
      consumers_count [OF fin_linked [OF fin] finish_i_facts(1) [OF fin] j]
    by (simp add: unmet_def)
qed

lemma finish_waits:
  assumes fin: "finishing run i"
    and j: "j < run_size run"
  shows "waits run j = waits (finish_action i run) j + count_list (rs_waiters (run_state run i)) j"
proof -
  have "active run = insert i {p. p < run_size run \<and> \<not> rs_done (run_state (finish_action i run) p)}"
    using finish_i_facts(1,2) [OF fin] finish_state(3) [OF fin] by (auto simp: active_def)
  moreover have "i \<notin> {p. p < run_size run \<and> \<not> rs_done (run_state (finish_action i run) p)}"
    using finish_i_facts(1) [OF fin] finish_state(3) [OF fin] by auto
  ultimately have "waits run j = count_list (rs_waiters (run_state run i)) j +
      (\<Sum>p | p < run_size run \<and> \<not> rs_done (run_state (finish_action i run) p). count_list (rs_waiters (run_state run p)) j)"
    by (simp add: waits_def active_def [symmetric])
  moreover have "(\<Sum>p | p < run_size run \<and> \<not> rs_done (run_state (finish_action i run) p). count_list (rs_waiters (run_state run p)) j) =
      waits (finish_action i run) j"
    unfolding waits_def finish_same(1) [OF fin] by (intro sum.cong) (auto simp: finish_state(5) [OF fin])
  ultimately show ?thesis by simp
qed

lemma finish_counts:
  assumes fin: "finishing run i"
  shows "counts_ok (finish_action i run)"
  unfolding counts_ok_def finish_same(1) [OF fin]
proof (intro conjI allI impI)
  fix j assume j: "j < run_size run"
  show "rs_pending (run_state (finish_action i run) j) = length (unmet (finish_action i run) j)"
    using counts_okD(3) [OF fin_counts [OF fin] j] finish_unmet [OF fin j] finish_state(1) [OF fin j] by simp
  show "rs_deferred (run_state (finish_action i run) j) = waits (finish_action i run) j"
    using counts_okD(4) [OF fin_counts [OF fin] j] finish_waits [OF fin j] finish_state(2) [OF fin j] by simp
  show "set (rs_waiters (run_state (finish_action i run) j)) \<subseteq> {..<run_size run}"
    using counts_okD(5) [OF fin_counts [OF fin] j] finish_state(5) [OF fin j] by simp
  show "rs_pending (run_state (finish_action i run) j) = 0" if "rs_done (run_state (finish_action i run) j)"
    using that finish_state(1,3) [OF fin j] counts_okD(6) [OF fin_counts [OF fin] j] finish_i_facts(3) [OF fin] by auto
  show "rs_deferred (run_state (finish_action i run) j) = 0"
    if "rs_done (run_state (finish_action i run) j) \<or> 0 < rs_pending (run_state (finish_action i run) j)"
    using that finish_state(1,2,3) [OF fin j] counts_okD(7,8) [OF fin_counts [OF fin] j] finish_i_facts(4) [OF fin] by auto
qed (use fin_linked [OF fin] finish_same [OF fin] in simp_all)

lemma finish_eligible:
  assumes fin: "finishing run i"
  shows "eligible (finish_action i run) = (eligible run - {i}) \<union> {j. j < run_size run \<and>
       (0 < rs_pending (run_state run j) \<and> rs_pending (run_state (finish_action i run) j) = 0 \<or>
        0 < rs_deferred (run_state run j) \<and> rs_deferred (run_state (finish_action i run) j) = 0)}"
proof -
  have "j \<in> eligible (finish_action i run) \<longleftrightarrow> j \<in> eligible run - {i} \<or>
       (0 < rs_pending (run_state run j) \<and> rs_pending (run_state (finish_action i run) j) = 0 \<or>
        0 < rs_deferred (run_state run j) \<and> rs_deferred (run_state (finish_action i run) j) = 0)" if j: "j < run_size run" for j
    using finish_state(1-3) [OF fin j] counts_okD(6-8) [OF fin_counts [OF fin] j] finish_i_facts(2-4) [OF fin] j
    by (cases "0 < rs_pending (run_state run j)") (auto simp: eligible_def finish_same [OF fin])
  moreover have "j < run_size run" if "j \<in> eligible run \<union> eligible (finish_action i run)" for j
    using that by (auto simp: eligible_def finish_same [OF fin])
  ultimately show ?thesis by blast
qed

lemma finish_places:
  assumes fin: "finishing run i"
  shows "places_ok [] (finish_action i run)"
proof (rule finish_ready [OF fin])
  fix new
  assume ready: "run_ready (finish_action i run) = run_ready run @ new" and new: "distinct new"
    "set new = {j. j < run_size run \<and>
       (0 < rs_pending (run_state run j) \<and> rs_pending (run_state (finish_action i run) j) = 0 \<or>
        0 < rs_deferred (run_state run j) \<and> rs_deferred (run_state (finish_action i run) j) = 0)}"
  have old: "set (run_ready run @ flights run) = eligible run - {i}"
    using fin_places [OF fin] fin_no_err [OF fin] unfolding places_ok_def by auto
  have "eligible run \<inter> set new = {}" unfolding new(2) by (auto simp: eligible_def)
  then have "distinct (run_ready (finish_action i run) @ flights (finish_action i run))"
    using placesD(1) [OF fin_places [OF fin]] new(1) old unfolding ready finish_same [OF fin] by auto
  moreover have "set (run_ready (finish_action i run) @ flights (finish_action i run)) = eligible (finish_action i run)"
    using old new(2) unfolding finish_eligible [OF fin] ready finish_same [OF fin] by auto
  moreover have "\<not> rs_done (run_state (finish_action i run) j) \<and> rs_pending (run_state (finish_action i run) j) = 0 \<and> j \<notin> set (flights (finish_action i run))"
    if "j < run_size run" "rs_parked (run_state (finish_action i run) j)" for j
    using that places_parked [OF fin_places [OF fin], of j] fin_unparked [OF fin] finish_state(1,3,6) [OF fin that(1)] unfolding finish_same [OF fin] by auto
  ultimately show ?thesis
    using placesD(7) [OF fin_places [OF fin]] unfolding places_ok_def finish_same [OF fin] by simp
qed

lemma finish_epochs:
  assumes fin: "finishing run i"
  shows "epochs_ok (finish_action i run)"
proof -
  have done': "{j. j < run_size run \<and> rs_done (run_state (finish_action i run) j)} =
      insert i {j. j < run_size run \<and> rs_done (run_state run j)}"
    using finish_i_facts(1) [OF fin] finish_state(3) [OF fin] by auto
  have "run_completed (finish_action i run) = card {j. j < run_size run \<and> rs_done (run_state (finish_action i run) j)}"
    using run_invD(3) [OF fin_inv [OF fin]] finish_i_facts(2) [OF fin] unfolding done' finish_same [OF fin] by (simp add: epochs_ok_def)
  then show ?thesis
    using run_invD(3) [OF fin_inv [OF fin]] finish_state(4,7) [OF fin] unfolding epochs_ok_def finish_same [OF fin] by (auto intro: le_SucI)
qed

lemma finish_fresh:
  assumes fin: "finishing run i"
  shows "fresh_ok (finish_action i run)"
  unfolding fresh_ok_def finish_same [OF fin]
proof (intro allI impI)
  fix j
  assume j: "j < run_size run" and done': "rs_done (run_state (finish_action i run) j)" and ex: "executed_discovered (finish_action i run) j"
  have ex: "executed_discovered run j" using ex j by (simp add: executed_discovered_def finish_same [OF fin] finish_state [OF fin])
  have now: "obs_current run j"
  proof (cases "j = i")
    case True
    then show ?thesis using fin_current [OF fin] ex by simp
  next
    case False
    then have "rs_done (run_state run j)" using done' finish_state(3) [OF fin j] by simp
    then show ?thesis using run_invD(5) [OF fin_inv [OF fin]] ex j by (simp add: fresh_ok_def)
  qed
  show "obs_current (finish_action i run) j"
    unfolding obs_current_def finish_same [OF fin] finish_state(7) [OF fin j]
  proof (intro ballI impI)
    fix p
    assume p: "p \<in> set (observed run (at_obs (fl_attempt (rs_flight (run_state run j)))))" "p \<noteq> j"
    then have "p < run_size run" using run_invD(4) [OF fin_inv [OF fin]] by (auto simp: targets_ok_def)
    moreover have "rs_done (run_state run p) \<and>
        (rs_done_epoch (run_state run p) \<le> fl_epoch (rs_flight (run_state run j)) \<or>
         \<not> ac_wrote (spn_dag_find_action (run_g run) p))"
      using now p unfolding obs_current_def by blast
    ultimately show "rs_done (run_state (finish_action i run) p) \<and>
        (rs_done_epoch (run_state (finish_action i run) p) \<le> fl_epoch (rs_flight (run_state run j)) \<or>
         \<not> ac_wrote (spn_dag_find_action (run_g run) p))"
      using finish_state(3,4) [OF fin, of p] finish_i_facts(2) [OF fin] by auto
  qed
qed

lemma finish_inv:
  assumes fin: "finishing run i"
  shows "run_inv [] (finish_action i run)"
  using finish_counts [OF fin] finish_places [OF fin] finish_epochs [OF fin] finish_fresh [OF fin] run_invD(4) [OF fin_inv [OF fin]]
  by (simp add: run_inv_def targets_ok_def finish_same [OF fin])

lemma finish_active:
  assumes fin: "finishing run i"
  shows "active (finish_action i run) = active run - {i}" "i \<in> active run"
  using finish_i_facts(1,2) [OF fin] finish_state(3) [OF fin] by (auto simp: active_def finish_same [OF fin])

lemma finish_base:
  assumes fin: "finishing run i"
    and "j < run_size run"
  shows "base (finish_action i run) j \<le> base run j + (if j \<in> active (finish_action i run) then 2 else 0)"
proof (cases "j \<in> active (finish_action i run)")
  case False
  then show ?thesis using assms by (simp add: active_def base_def finish_same [OF fin])
next
  case True
  then have undone: "\<not> rs_done (run_state (finish_action i run) j)" "\<not> rs_done (run_state run j)"
    using finish_active(1) [OF fin] assms by (auto simp: active_def finish_same [OF fin])
  have ready': "set (run_ready run) \<subseteq> set (run_ready (finish_action i run))" by (rule finish_ready [OF fin]) simp
  show ?thesis
  proof (cases "j \<in> set (run_running run @ run_jobs run)")
    case True
    have "1 \<le> base run j" using True undone by (auto simp: base_def)
    moreover have "base (finish_action i run) j \<le> 3" by (simp add: base_def)
    ultimately show ?thesis using \<open>j \<in> active (finish_action i run)\<close> by simp
  next
    case False
    have "base (finish_action i run) j \<le> 2" using False by (auto simp: base_def finish_same [OF fin])
    then show ?thesis using \<open>j \<in> active (finish_action i run)\<close> by simp
  qed
qed

lemma finish_potential:
  assumes fin: "finishing run i"
  shows "potential (finish_action i run) \<le> potential run"
proof -
  let ?N = "card (active run)"
  have pos: "0 < ?N" using finish_active(2) [OF fin] by (auto simp: card_gt_0_iff)
  have N': "card (active (finish_action i run)) = ?N - 1" using finish_active [OF fin] by simp
  have sub: "{j. j < run_size run \<and> j \<in> active (finish_action i run)} = active (finish_action i run)" by (auto simp: active_def finish_same [OF fin])
  have "(\<Sum>j<run_size run. if j \<in> active (finish_action i run) then (2::nat) else 0) = (\<Sum>j\<in>active (finish_action i run). 2)"
    by (intro sum.mono_neutral_cong_right) (auto simp: active_def finish_same [OF fin])
  then have two: "(\<Sum>j<run_size run. if j \<in> active (finish_action i run) then (2::nat) else 0) = 2 * (?N - 1)"
    by (simp add: N')
  have "(\<Sum>j<run_size run. base (finish_action i run) j) \<le> (\<Sum>j<run_size run. base run j + (if j \<in> active (finish_action i run) then 2 else 0))"
    by (intro sum_mono finish_base [OF fin]) simp
  then have sums: "(\<Sum>j<run_size run. base (finish_action i run) j) \<le> (\<Sum>j<run_size run. base run j) + 2 * (?N - 1)"
    by (simp only: sum.distrib two)
  obtain k where k: "?N = Suc k" using pos by (cases ?N) auto
  have "k * (k - 1) + 2 * k = Suc k * k" by (cases k) simp_all
  then show ?thesis using sums unfolding potential_def N' finish_same(1) [OF fin] k by simp
qed

end
