(* ===== verification/Dag_Run_Steps.thy ===== *)
theory Dag_Run_Steps
  imports Dag_Run_Finish
begin

text \<open>
  Every turn of the main thread and every step of a worker keeps the invariant, never undoes an
  action and never changes the outputs of one that is done; a turn lowers the potential.
\<close>

section \<open>Steps\<close>

text \<open>What is done stays done, and an artifact whose producer is done stays as it is.\<close>

definition keeps :: "'w spn_dag_run_t \<Rightarrow> 'w spn_dag_run_t \<Rightarrow> bool" where
  "keeps run run' \<longleftrightarrow>
     run_size run' = run_size run \<and>
     (\<forall>j < run_size run. ac_kind (spn_dag_find_action (run_g run') j) = ac_kind (spn_dag_find_action (run_g run) j) \<and>
        ac_consumes (spn_dag_find_action (run_g run') j) = ac_consumes (spn_dag_find_action (run_g run) j)) \<and>
     (\<forall>p. af_producer (spn_dag_find_artifact (run_g run') p) = af_producer (spn_dag_find_artifact (run_g run) p)) \<and>
     (\<forall>j < run_size run. rs_done (run_state run j) \<longrightarrow> rs_done (run_state run' j)) \<and>
     (\<forall>p < length (g_artifacts (run_g run)).
        pred_option (\<lambda>i. rs_done (run_state run i)) (af_producer (spn_dag_find_artifact (run_g run) p)) \<longrightarrow>
        spn_dag_find_artifact (run_g run') p = spn_dag_find_artifact (run_g run) p) \<and>
     length (g_artifacts (run_g run')) = length (g_artifacts (run_g run))"

lemma keeps_refl [simp]: "keeps run run"
  by (simp add: keeps_def)

lemma keeps_trans:
  assumes "dag_linked (run_g run)" "keeps run run'" "keeps run' run''"
  shows "keeps run run''"
proof -
  have "pred_option (\<lambda>i. rs_done (run_state run' i)) (af_producer (spn_dag_find_artifact (run_g run') p))"
    if "p < length (g_artifacts (run_g run))"
      "pred_option (\<lambda>i. rs_done (run_state run i)) (af_producer (spn_dag_find_artifact (run_g run) p))" for p
    using that assms(2) dag_linked_producer [OF assms(1) that(1)]
    by (cases "af_producer (spn_dag_find_artifact (run_g run) p)") (auto simp: keeps_def)
  then show ?thesis using assms(2,3) unfolding keeps_def by simp
qed

lemma quiet_keeps:
  assumes quiet: "quiet i run run'" and linked: "dag_linked (run_g run)"
    and i: "i < run_size run" "\<not> rs_done (run_state run i)"
  shows "keeps run run'"
proof -
  note touches = quiet_fields(9) [OF quiet]
  have "p \<notin> set (ac_produces (spn_dag_find_action (run_g run) i))"
    if "p < length (g_artifacts (run_g run))"
      "pred_option (\<lambda>i. rs_done (run_state run i)) (af_producer (spn_dag_find_artifact (run_g run) p))" for p
    using that i(2) dag_linkedD(4) [OF linked i(1)] by auto
  then show ?thesis
    using touches_digest [OF touches]
    by (simp add: keeps_def quiet_fields(3) [OF quiet] touches_fields [OF touches])
qed

lemma finish_keeps: "finishing run i \<Longrightarrow> keeps run (finish_action i run)"
  using finish_state(3) by (auto simp: keeps_def finish_same)

text \<open>A step from a state in which the main thread holds an action (or none) to one in which it
  holds none.\<close>

definition advances :: "nat \<Rightarrow> 'w spn_dag_run_t \<Rightarrow> 'w spn_dag_run_t \<Rightarrow> bool" where
  "advances k run run' \<longleftrightarrow> run_inv [] run' \<and> keeps run run' \<and> potential run' \<le> potential run + k"

lemma finish_advances: "finishing run i \<Longrightarrow> advances 0 run (finish_action i run)"
  using finish_inv [of run i] finish_keeps [of run i] finish_potential [of run i] by (simp add: advances_def)

lemma quiet_active: "quiet i run run' \<Longrightarrow> active run' = active run"
  by (simp add: active_def quiet_fields(3) quiet_size)

text \<open>A quiet step that keeps the places too.\<close>

definition silent :: "nat \<Rightarrow> 'w spn_dag_run_t \<Rightarrow> 'w spn_dag_run_t \<Rightarrow> bool" where
  "silent i run run' \<longleftrightarrow>
     quiet i run run' \<and> run_ready run' = run_ready run \<and> run_queue run' = run_queue run \<and>
     run_running run' = run_running run \<and> run_jobs run' = run_jobs run \<and>
     run_in_flight run' = run_in_flight run \<and> run_err run' = run_err run \<and>
     fl_epoch (rs_flight (run_state run' i)) = fl_epoch (rs_flight (run_state run i)) \<and>
     rs_parked (run_state run' i) = rs_parked (run_state run i)"

lemma silentD:
  assumes "silent i run run'"
  shows "quiet i run run'" "run_ready run' = run_ready run" "run_queue run' = run_queue run"
    "run_running run' = run_running run" "run_jobs run' = run_jobs run"
    "run_in_flight run' = run_in_flight run" "run_err run' = run_err run"
    "fl_epoch (rs_flight (run_state run' j)) = fl_epoch (rs_flight (run_state run j))"
    "rs_parked (run_state run' j) = rs_parked (run_state run j)"
proof -
  have "rs_flight (run_state run' j) = rs_flight (run_state run j) \<and>
      rs_parked (run_state run' j) = rs_parked (run_state run j)" if "j \<noteq> i"
    using assms that quiet_fields(10) unfolding silent_def by metis
  then show "fl_epoch (rs_flight (run_state run' j)) = fl_epoch (rs_flight (run_state run j))"
    "rs_parked (run_state run' j) = rs_parked (run_state run j)"
    using assms unfolding silent_def by (cases "j = i"; simp)+
qed (use assms in \<open>auto simp: silent_def\<close>)

lemma silent_places:
  assumes "silent i run run'" "places_ok hand run"
  shows "places_ok hand run'"
  using assms(2)
  unfolding places_ok_def silentD(2-7,9) [OF assms(1)] quiet_eligible [OF silentD(1) [OF assms(1)]]
    quiet_fields(1,3) [OF silentD(1) [OF assms(1)]] quiet_size [OF silentD(1) [OF assms(1)]] .

lemma silent_inv:
  assumes "silent i run run'" "run_inv hand run" "\<not> rs_done (run_state run i)"
  shows "run_inv hand run'"
proof (rule quiet_inv [OF silentD(1) [OF assms(1)] assms(2,3)])
  show "places_ok hand run'" using silent_places [OF assms(1) run_invD(2) [OF assms(2)]] .
  show "fl_epoch (rs_flight (run_state run' i)) \<le> run_completed run" if "i < run_size run"
    using that run_invD(3) [OF assms(2)] unfolding silentD(8) [OF assms(1)] epochs_ok_def by blast
qed

lemma silent_base: "silent i run run' \<Longrightarrow> base run' j = base run j"
  by (simp add: base_def silentD quiet_fields [OF silentD(1)])

lemma silent_potential: "silent i run run' \<Longrightarrow> potential run' = potential run"
  by (simp add: potential_def silent_base quiet_active [OF silentD(1)] quiet_size [OF silentD(1)])

lemma silent_current:
  assumes "silent i run run'" "\<not> rs_done (run_state run i)" "touches i (run_g run) (run_g run')"
    and "at_obs (fl_attempt (rs_flight (run_state run' i))) = at_obs (fl_attempt (rs_flight (run_state run i)))"
    and "obs_current run i"
  shows "obs_current run' i"
proof -
  note quiet = silentD(1) [OF assms(1)]
  have "ac_wrote (spn_dag_find_action (run_g run') p) = ac_wrote (spn_dag_find_action (run_g run) p)"
    if "p \<noteq> i" for p
    using touches_wrote [OF assms(3) that] .
  then show ?thesis using assms(5)
    unfolding obs_current_def assms(4) silentD(8) [OF assms(1)] quiet_observed [OF quiet]
      quiet_fields(3,4) [OF quiet] by metis
qed

lemma silent_executed:
  assumes "silent i run run'"
    and "at_hit (fl_attempt (rs_flight (run_state run' i))) = at_hit (fl_attempt (rs_flight (run_state run i)))"
  shows "executed_discovered run' i = executed_discovered run i"
  using assms(2) touches_fields(10) [OF quiet_fields(9) [OF silentD(1) [OF assms(1)]], of i]
  by (simp add: executed_discovered_def)

lemma silent_discard: "silent i run (discard lib i run)"
  by (simp add: silent_def quiet_def discard_def)

lemma silent_env: "silent i run (run\<lparr>run_env := env\<rparr>)"
  by (simp add: silent_def quiet_def)

lemma update_flight_state:
  "run_state (update_flight i f run) j =
     (if j = i \<and> i < length (run_states run) then (run_state run i)\<lparr>rs_flight := f (rs_flight (run_state run i))\<rparr>
      else run_state run j)"
  by (auto simp: update_flight_def update_state_def nth_list_update list_update_beyond)

lemma update_flight_same [simp]:
  "run_g (update_flight i f run) = run_g run" "run_env (update_flight i f run) = run_env run"
  "run_queue (update_flight i f run) = run_queue run" "run_running (update_flight i f run) = run_running run"
  "run_jobs (update_flight i f run) = run_jobs run" "run_targets (update_flight i f run) = run_targets run"
  "run_ready (update_flight i f run) = run_ready run" "run_completed (update_flight i f run) = run_completed run"
  "run_in_flight (update_flight i f run) = run_in_flight run" "run_err (update_flight i f run) = run_err run"
  "run_cancel (update_flight i f run) = run_cancel run"
  "length (run_states (update_flight i f run)) = length (run_states run)"
  by (simp_all add: update_flight_def update_state_def)

lemma quiet_update_flight: "quiet i run (update_flight i f run)"
  by (simp add: quiet_def update_flight_state core_def)

section \<open>Deferring\<close>

lemma observed_range:
  "targets_ok run \<Longrightarrow> set (observed run obs) \<subseteq> {..<run_size run}"
  by (auto simp: targets_ok_def)

lemma hand_facts:
  assumes "run_inv [i] run"
  shows "i < run_size run" "\<not> rs_done (run_state run i)" "rs_pending (run_state run i) = 0"
    "rs_deferred (run_state run i) = 0" "i \<notin> set (run_ready run)" "i \<notin> set (flights run)"
    "i \<notin> set (run_queue run)" "i \<notin> set (run_running run)" "i \<notin> set (run_jobs run)"
    "base run i = 0" "dag_linked (run_g run)" "i < length (run_states run)"
proof -
  note places = run_invD(2) [OF assms]
  show facts: "i < run_size run" "\<not> rs_done (run_state run i)" "rs_pending (run_state run i) = 0"
    "rs_deferred (run_state run i) = 0" "i \<notin> set (run_ready run)" "i \<notin> set (flights run)"
    using placesD(2-5) [OF places, of i] placesD(1) [OF places] by auto
  then show "i \<notin> set (run_queue run)" "i \<notin> set (run_running run)" "i \<notin> set (run_jobs run)" by auto
  then show "base run i = 0" using facts by (simp add: base_def)
  show "dag_linked (run_g run)" "i < length (run_states run)"
    using counts_okD(1,2) [OF run_invD(1) [OF assms]] facts(1) by simp_all
qed

lemma waiting_none: "filter (\<lambda>p. p \<noteq> i \<and> \<not> d p) ps = [] \<longleftrightarrow> (\<forall>p \<in> set ps. p = i \<or> d p)"
  by (auto simp: filter_empty_conv)

lemma defer_none:
  assumes "run_inv [i] run" "\<forall>p \<in> set (observed run obs). p = i \<or> rs_done (run_state run p)"
  shows "defer_observations i obs epoch run = (False, overtaken i (observed run obs) epoch run, run)"
proof -
  note hand = hand_facts [OF assms(1)]
  note len = counts_okD(2) [OF run_invD(1) [OF assms(1)]]
  let ?ps = "observed run obs"
  have range: "set ?ps \<subseteq> {..<length (run_states run)}"
    using observed_range [OF run_invD(4) [OF assms(1)]] len by simp
  obtain states where fold: "fold (defer_producer i epoch) ?ps (run, False) =
       (run\<lparr>run_states := states\<rparr>, False \<or> overtaken i ?ps epoch run)"
    "length states = length (run_states run)"
    "\<forall>j < length states. states ! j = deferred_state i ?ps run j"
    using defer_fold [OF hand(12) range, of epoch False] by blast
  have "states ! j = run_state run j" if "j < length states" for j
  proof -
    have "replicate (if rs_done (run_state run j) \<or> j = i then 0 else count_list ?ps j) i = []"
      using assms(2) by (auto simp: count_list_0_iff)
    moreover have "filter (\<lambda>p. p \<noteq> i \<and> \<not> rs_done (run_state run p)) ?ps = []"
      unfolding waiting_none by (rule assms(2))
    ultimately show ?thesis using fold(3) that unfolding deferred_state_def Let_def by simp
  qed
  then have "states = run_states run" using fold(2) by (simp add: list_eq_iff_nth_eq)
  then show ?thesis using fold(1) hand(4) by (simp add: defer_observations_def)
qed

lemma count_replicate: "count_list (replicate k x) y = (if x = y then k else 0)"
  by (induction k) auto

lemma sum_counts:
  "finite A \<Longrightarrow> (\<Sum>p\<in>A. if p = i then 0 else count_list ps p) = length (filter (\<lambda>p. p \<noteq> i \<and> p \<in> A) ps)"
proof (induction ps)
  case Nil
  then show ?case by (simp add: sum.neutral)
next
  case (Cons x ps)
  have "(\<Sum>p\<in>A. if p = i then 0 else count_list (x # ps) p) =
      (\<Sum>p\<in>A. (if p = i then 0 else count_list ps p) + (if p = x then (if x = i then 0 else 1) else 0))"
    by (intro sum.cong) auto
  then show ?case using Cons by (simp add: sum.distrib sum.delta)
qed

lemma defer_some:
  assumes inv: "run_inv [i] run" and some: "\<not> (\<forall>p \<in> set (observed run obs). p = i \<or> rs_done (run_state run p))"
  obtains requeue states where
    "defer_observations i obs epoch run = (True, requeue, run\<lparr>run_states := states\<rparr>)"
    "run_inv [] (run\<lparr>run_states := states\<rparr>)" "keeps run (run\<lparr>run_states := states\<rparr>)"
    "potential (run\<lparr>run_states := states\<rparr>) \<le> potential run + (if rs_parked (run_state run i) then 0 else 1)"
    "0 < rs_deferred (states ! i)" "rs_parked (states ! i) = rs_parked (run_state run i)"
proof -
  note hand = hand_facts [OF inv] and counts = run_invD(1) [OF inv] and places = run_invD(2) [OF inv]
  note len = counts_okD(2) [OF counts]
  let ?ps = "observed run obs"
  have range: "set ?ps \<subseteq> {..<length (run_states run)}"
    using observed_range [OF run_invD(4) [OF inv]] len by simp
  obtain states where fold: "fold (defer_producer i epoch) ?ps (run, False) =
       (run\<lparr>run_states := states\<rparr>, False \<or> overtaken i ?ps epoch run)"
    "length states = length (run_states run)"
    "\<forall>j < length states. states ! j = deferred_state i ?ps run j"
    using defer_fold [OF hand(12) range, of epoch False] by blast
  let ?run = "run\<lparr>run_states := states\<rparr>"
  let ?more = "filter (\<lambda>p. p \<noteq> i \<and> \<not> rs_done (run_state run p)) ?ps"
  have st: "run_state ?run j = deferred_state i ?ps run j" if "j < run_size run" for j
    using fold(2,3) that len by simp
  have state: "rs_pending (run_state ?run j) = rs_pending (run_state run j)"
    "rs_deferred (run_state ?run j) = rs_deferred (run_state run j) + (if j = i then length ?more else 0)"
    "rs_done (run_state ?run j) = rs_done (run_state run j)"
    "rs_done_epoch (run_state ?run j) = rs_done_epoch (run_state run j)"
    "rs_parked (run_state ?run j) = rs_parked (run_state run j)"
    "rs_flight (run_state ?run j) = rs_flight (run_state run j)"
    "rs_waiters (run_state ?run j) = rs_waiters (run_state run j) @
       replicate (if rs_done (run_state run j) \<or> j = i then 0 else count_list ?ps j) i"
    if "j < run_size run" for j
    using st [OF that] by (simp_all add: deferred_state_def Let_def)
  have more: "0 < length ?more" using some unfolding length_greater_0_conv waiting_none .
  have unmet: "unmet ?run j = unmet run j" if "j < run_size run" for j
    unfolding unmet_def
    using dag_linkedD(1) [OF hand(11) that] dag_linked_producer [OF hand(11)] state(3)
    by (intro filter_cong) (auto split: option.splits simp: subset_eq)
  let ?A = "{p. p < run_size run \<and> \<not> rs_done (run_state run p)}"
  have A: "{p. p < run_size run \<and> \<not> rs_done (run_state ?run p)} = ?A" using state(3) by auto
  have waits: "waits ?run j = waits run j + (if j = i then length ?more else 0)" for j
  proof -
    have "waits ?run j = (\<Sum>p\<in>?A. count_list (rs_waiters (run_state run p)) j +
        (if j = i then if p = i then 0 else count_list ?ps p else 0))"
      unfolding waits_def A [simplified]
      by (intro sum.cong) (auto simp: A [simplified] state(7) [simplified] count_replicate)
    also have "\<dots> = waits run j + (if j = i then (\<Sum>p\<in>?A. if p = i then 0 else count_list ?ps p) else 0)"
      by (simp add: waits_def sum.distrib)
    also have "(\<Sum>p\<in>?A. if p = i then 0 else count_list ?ps p) = length (filter (\<lambda>p. p \<noteq> i \<and> p \<in> ?A) ?ps)"
      by (rule sum_counts) simp
    also have "filter (\<lambda>p. p \<noteq> i \<and> p \<in> ?A) ?ps = ?more"
      using range len by (intro filter_cong) (auto simp: subset_eq)
    finally show ?thesis .
  qed
  have counts': "counts_ok ?run"
    unfolding counts_ok_def
  proof (intro conjI allI impI)
    fix j assume "j < run_size ?run"
    then have j: "j < run_size run" by simp
    note old = counts_okD(3-8) [OF counts j]
    show "rs_pending (run_state ?run j) = length (unmet ?run j)"
      using old(1) state(1) [OF j] unmet [OF j] by simp
    show "rs_deferred (run_state ?run j) = waits ?run j"
      using old(2) state(2) [OF j] waits [of j] by simp
    show "set (rs_waiters (run_state ?run j)) \<subseteq> {..<run_size ?run}"
      using old(3) state(7) [OF j] hand(1) by auto
    show "rs_pending (run_state ?run j) = 0" if "rs_done (run_state ?run j)"
      using that old(4) state(1,3) [OF j] by simp
    show "rs_deferred (run_state ?run j) = 0"
      if "rs_done (run_state ?run j) \<or> 0 < rs_pending (run_state ?run j)"
      using that old(5,6) state(1,2,3) [OF j] hand(2,3) by (cases "j = i") auto
  qed (use hand(11) len fold(2) in simp_all)
  have eligible: "eligible ?run = eligible run - {i}"
    unfolding eligible_def using state(1-3) more by auto
  have places': "places_ok [] ?run"
  proof -
    have "\<not> rs_done (run_state ?run j) \<and> rs_pending (run_state ?run j) = 0 \<and> j \<notin> set (flights ?run)"
      if "j < run_size ?run" "rs_parked (run_state ?run j)" for j
      using that places_parked [OF places, of j] state(1,3,5) [of j] by auto
    then show ?thesis
      using places unfolding places_ok_def eligible by auto
  qed
  have epochs': "epochs_ok ?run"
  proof -
    have "{j. j < run_size run \<and> rs_done (run_state ?run j)} = {j. j < run_size run \<and> rs_done (run_state run j)}"
      using state(3) by auto
    then have "run_completed ?run = card {j. j < run_size ?run \<and> rs_done (run_state ?run j)}"
      using run_invD(3) [OF inv] by (simp add: epochs_ok_def)
    moreover have "rs_done_epoch (run_state run j) \<le> run_completed run \<and>
        fl_epoch (rs_flight (run_state run j)) \<le> run_completed run" if "j < run_size run" for j
      using that run_invD(3) [OF inv] unfolding epochs_ok_def by blast
    ultimately show ?thesis unfolding epochs_ok_def using state(4,6) by simp
  qed
  have targets': "targets_ok ?run" using run_invD(4) [OF inv] by (simp add: targets_ok_def)
  have fresh': "fresh_ok ?run"
    unfolding fresh_ok_def
  proof (intro allI impI)
    fix j
    assume j: "j < run_size ?run" and d: "rs_done (run_state ?run j)" and ex: "executed_discovered ?run j"
    have j': "j < run_size run" using j by simp
    have "executed_discovered run j" using ex state(6) [OF j'] by (simp add: executed_discovered_def)
    then have now: "obs_current run j"
      using run_invD(5) [OF inv] j' d state(3) [OF j'] by (simp add: fresh_ok_def)
    show "obs_current ?run j"
      unfolding obs_current_def state(6) [OF j']
    proof (intro ballI impI)
      fix p assume p: "p \<in> set (observed ?run (at_obs (fl_attempt (rs_flight (run_state run j)))))" "p \<noteq> j"
      have "observed ?run obs' = observed run obs'" for obs' by simp
      then have p': "p \<in> set (observed run (at_obs (fl_attempt (rs_flight (run_state run j)))))"
        using p(1) by simp
      then have "p < run_size run" using observed_range [OF run_invD(4) [OF inv]] by blast
      moreover have "rs_done (run_state run p) \<and>
          (rs_done_epoch (run_state run p) \<le> fl_epoch (rs_flight (run_state run j)) \<or>
           \<not> ac_wrote (spn_dag_find_action (run_g run) p))"
        using now p' p(2) unfolding obs_current_def by blast
      ultimately show "rs_done (run_state ?run p) \<and>
          (rs_done_epoch (run_state ?run p) \<le> fl_epoch (rs_flight (run_state run j)) \<or>
           \<not> ac_wrote (spn_dag_find_action (run_g ?run) p))"
        using state(3,4) [of p] by simp
    qed
  qed
  have "keeps run ?run" using state(3) by (simp add: keeps_def)
  moreover have "potential ?run \<le> potential run + (if rs_parked (run_state run i) then 0 else 1)"
  proof -
    have "active ?run = active run" using state(3) by (auto simp: active_def)
    moreover have "base ?run j = base run j" if "j < run_size run" "j \<noteq> i" for j
      using that state [OF that(1)] by (simp add: base_def)
    ultimately have "potential ?run + base run i = potential run + base ?run i"
      using hand(1) by (intro potential_change) simp_all
    moreover have "base ?run i = (if rs_parked (run_state run i) then 0 else 1)"
      using state(1-3,5) [OF hand(1)] hand more by (simp add: base_def)
    ultimately show ?thesis using hand(10) by simp
  qed
  moreover have "defer_observations i obs epoch run = (True, overtaken i ?ps epoch run, ?run)"
    using fold(1) state(2) [OF hand(1)] more by (simp add: defer_observations_def)
  moreover have "run_inv [] ?run"
    using counts' places' epochs' targets' fresh' by (simp add: run_inv_def)
  ultimately show thesis
    using that [of "overtaken i ?ps epoch run" states] state(2,5) [OF hand(1)] more by simp
qed

end
