(* ===== verification/Dag_Run_Turns.thy ===== *)
theory Dag_Run_Turns
  imports Dag_Run_Steps
begin

text \<open>
  The turns of the main thread and the steps of the workers: each keeps the invariant of a run,
  and every turn lowers the potential.
\<close>

section \<open>Parking, submitting and committing\<close>

lemma epoch_bound:
  assumes "epochs_ok run" "j < run_size run"
  shows "fl_epoch (rs_flight (run_state run j)) \<le> run_completed run"
    "rs_done_epoch (run_state run j) \<le> run_completed run"
  using assms unfolding epochs_ok_def by blast+

lemma advances_trans:
  assumes "dag_linked (run_g run)" "keeps run mid" "potential mid \<le> potential run + j" "advances k mid run'"
  shows "advances (j + k) run run'"
  using assms keeps_trans [OF assms(1,2)] unfolding advances_def by auto

lemma advances_mono: "advances j run run' \<Longrightarrow> j \<le> k \<Longrightarrow> advances k run run'"
  unfolding advances_def by auto

lemma silent_advances:
  assumes "silent i run mid" "run_inv [i] run" "advances k mid run'"
  shows "advances k run run'"
  using advances_trans [of run mid 0 k run'] silent_potential [OF assms(1)]
    quiet_keeps [OF silentD(1) [OF assms(1)]] hand_facts [OF assms(2)] assms(3) by simp

lemma set_parked_state:
  "run_state (update_state i (\<lambda>s. s\<lparr>rs_parked := b\<rparr>) run) j =
     (if j = i \<and> i < length (run_states run) then (run_state run i)\<lparr>rs_parked := b\<rparr> else run_state run j)"
  by (auto simp: update_state_def nth_list_update list_update_beyond)

lemma update_state_same [simp]:
  "run_g (update_state i f run) = run_g run" "run_env (update_state i f run) = run_env run"
  "run_queue (update_state i f run) = run_queue run" "run_running (update_state i f run) = run_running run"
  "run_jobs (update_state i f run) = run_jobs run" "run_targets (update_state i f run) = run_targets run"
  "run_ready (update_state i f run) = run_ready run" "run_completed (update_state i f run) = run_completed run"
  "run_in_flight (update_state i f run) = run_in_flight run" "run_err (update_state i f run) = run_err run"
  "length (run_states (update_state i f run)) = length (run_states run)"
  by (simp_all add: update_state_def)

lemma quiet_set_parked: "quiet i run (update_state i (\<lambda>s. s\<lparr>rs_parked := b\<rparr>) run)"
  by (simp add: quiet_def set_parked_state core_def)

text \<open>An action in the hand of the main thread, or one deferred, may be marked.\<close>

lemma set_parked_inv:
  assumes inv: "run_inv hand run" and i: "\<not> rs_done (run_state run i)" "rs_pending (run_state run i) = 0"
    "i \<notin> set (flights run)"
  shows "run_inv hand (update_state i (\<lambda>s. s\<lparr>rs_parked := b\<rparr>) run)"
proof (rule quiet_inv [OF quiet_set_parked inv i(1)])
  let ?run = "update_state i (\<lambda>s. s\<lparr>rs_parked := b\<rparr>) run"
  note places = run_invD(2) [OF inv]
  have "\<not> rs_done (run_state ?run j) \<and> rs_pending (run_state ?run j) = 0 \<and> j \<notin> set (flights ?run)"
    if "j < run_size ?run" "rs_parked (run_state ?run j)" for j
    using that i places_parked [OF places, of j] by (cases "j = i") (auto simp: set_parked_state split: if_splits)
  then show "places_ok hand ?run"
    using places unfolding places_ok_def quiet_eligible [OF quiet_set_parked] by simp
  show "fl_epoch (rs_flight (run_state ?run i)) \<le> run_completed run" if "i < run_size run"
    using epoch_bound(1) [OF run_invD(3) [OF inv] that] by (simp add: set_parked_state)
qed

lemma submit_advances:
  assumes inv: "run_inv [i] run" and parked: "\<not> rs_parked (run_state run i)"
    and epoch: "\<And>fl. fl_epoch (f fl) = fl_epoch fl"
  shows "advances 1 run (pool_submit i (update_flight i f (run\<lparr>run_in_flight := run_in_flight run + 1\<rparr>)))"
proof -
  let ?run = "pool_submit i (update_flight i f (run\<lparr>run_in_flight := run_in_flight run + 1\<rparr>))"
  note hand = hand_facts [OF inv] and places = run_invD(2) [OF inv]
  have st: "run_state ?run j =
      (if j = i then (run_state run i)\<lparr>rs_flight := f (rs_flight (run_state run i))\<rparr> else run_state run j)" for j
    using hand(12) by (simp add: pool_submit_def update_flight_state)
  have quiet: "quiet i run ?run" unfolding quiet_def st by (simp add: pool_submit_def core_def)
  have "\<not> rs_done (run_state ?run j) \<and> rs_pending (run_state ?run j) = 0 \<and> j \<notin> set (flights ?run)"
    if "j < run_size ?run" "rs_parked (run_state ?run j)" for j
    using that parked places_parked [OF places, of j] unfolding st
    by (cases "j = i") (auto simp: pool_submit_def)
  then have "places_ok [] ?run"
    using places unfolding places_ok_def quiet_eligible [OF quiet] by (auto simp: pool_submit_def)
  moreover have "fl_epoch (rs_flight (run_state ?run i)) \<le> run_completed run" if "i < run_size run"
    using epoch_bound(1) [OF run_invD(3) [OF inv] that] unfolding st by (simp add: epoch)
  ultimately have inv': "run_inv [] ?run" using quiet_inv [OF quiet inv hand(2)] by blast
  have "base ?run j = base run j" if "j < run_size run" "j \<noteq> i" for j
    using that unfolding base_def st by (simp add: pool_submit_def)
  then have "potential ?run + base run i = potential run + base ?run i"
    using quiet_active [OF quiet] quiet_size [OF quiet] hand(1) by (intro potential_change) simp_all
  moreover have "base ?run i \<le> 1" using hand unfolding base_def st by (simp add: pool_submit_def)
  ultimately have "potential ?run \<le> potential run + 1" using hand(10) by simp
  then show ?thesis using inv' quiet_keeps [OF quiet hand(11) hand(1,2)] by (simp add: advances_def)
qed

lemma drop_hand:
  assumes "run_inv hand run" "run_err run \<noteq> None"
  shows "run_inv [] run"
  using assms unfolding run_inv_def places_ok_def by auto

lemma set_err_inv:
  assumes inv: "run_inv hand run" and "err \<noteq> None"
  shows "run_inv [] (run\<lparr>run_err := err\<rparr>)"
proof -
  have quiet: "quiet i run (run\<lparr>run_err := err\<rparr>)" for i by (simp add: quiet_def)
  have same: "epochs_ok (run\<lparr>run_err := err\<rparr>) = epochs_ok run" "fresh_ok (run\<lparr>run_err := err\<rparr>) = fresh_ok run"
    by (simp_all add: epochs_ok_def fresh_ok_def executed_discovered_def obs_current_def)
  have places: "places_ok [] (run\<lparr>run_err := err\<rparr>)"
    using run_invD(2) [OF inv] assms(2) unfolding places_ok_def quiet_eligible [OF quiet] by auto
  show ?thesis
    using quiet_counts [OF quiet run_invD(1) [OF inv]] places quiet_targets [OF quiet run_invD(4) [OF inv]]
      run_invD(3,5) [OF inv] same
    by (simp add: run_inv_def)
qed

lemma set_err_base: "base (run\<lparr>run_err := err\<rparr>) j = base run j"
  by (simp add: base_def)

lemma set_err_potential: "potential (run\<lparr>run_err := err\<rparr>) = potential run"
  by (simp add: potential_def set_err_base active_def)

lemma set_err_advances:
  assumes "run_inv hand run" "err \<noteq> None"
  shows "advances 0 run (run\<lparr>run_err := err\<rparr>)"
  using set_err_inv [OF assms] by (simp add: advances_def keeps_def set_err_potential)

lemma commit_advances:
  assumes inv: "run_inv [i] run" and parked: "\<not> rs_parked (run_state run i)" and err: "run_err run = None"
    and current: "executed_discovered run i \<Longrightarrow> obs_current run i"
    and missed: "\<not> at_hit (fl_attempt (rs_flight (run_state run i)))"
  obtains run' where "run_commit_flight lib i run = Some run'" "advances 0 run run'"
proof -
  note hand = hand_facts [OF inv]
  obtain err' g env where commit:
    "commit lib i (fl_attempt (rs_flight (run_state run i))) (run_g run) (run_env run) = Some (err', g, env)"
  proof -
    obtain r where r: "commit lib i (fl_attempt (rs_flight (run_state run i))) (run_g run) (run_env run) = Some r"
      using missed by (simp add: commit_def Let_def)
    show thesis by (rule that [of "fst r" "fst (snd r)" "snd (snd r)"]) (simp add: r)
  qed
  let ?mid = "discard lib i (run\<lparr>run_g := g, run_env := env\<rparr>)"
  have silent: "silent i run ?mid"
    using commit_touches [OF commit] by (simp add: silent_def quiet_def discard_def)
  have inv': "run_inv [i] ?mid" by (rule silent_inv [OF silent inv hand(2)])
  show thesis
  proof (cases err')
    case (Some e)
    have "run_commit_flight lib i run = Some (?mid\<lparr>run_err := Some e\<rparr>)"
      by (simp add: run_commit_flight_def commit Some discard_def)
    then show thesis using that silent_advances [OF silent inv set_err_advances [OF inv']] by simp
  next
    case None
    have result: "run_commit_flight lib i run = Some (finish_action i ?mid)"
    proof -
      have "discard lib i (run\<lparr>run_g := g, run_env := env, run_err := None\<rparr>) = ?mid"
        using err by (cases run) (simp add: discard_def)
      then show ?thesis by (simp add: run_commit_flight_def commit None)
    qed
    have flight: "rs_flight (run_state ?mid i) = rs_flight (run_state run i)" by (simp add: discard_def)
    have "obs_current ?mid i" if "executed_discovered ?mid i"
      using silent_current [OF silent hand(2) quiet_fields(9) [OF silentD(1) [OF silent]]]
        silent_executed [OF silent] that current flight by simp
    then have "finishing ?mid i"
      using inv' parked err by (simp add: finishing_def silentD(7,9) [OF silent])
    then show thesis
      by (intro that [OF result] silent_advances [OF silent inv finish_advances])
  qed
qed

section \<open>Dispatching\<close>

lemma current_of_defer:
  assumes "\<forall>p \<in> set (observed run (at_obs (fl_attempt (rs_flight (run_state run i))))). p = i \<or> rs_done (run_state run p)"
    and "\<not> overtaken i (observed run (at_obs (fl_attempt (rs_flight (run_state run i)))))
           (fl_epoch (rs_flight (run_state run i))) run"
  shows "obs_current run i"
  using assms unfolding obs_current_def overtaken_def by (meson not_le)

lemma not_overtaken:
  assumes "epochs_ok run" "targets_ok run"
  shows "\<not> overtaken i (observed run obs) (run_completed run) run"
proof
  assume "overtaken i (observed run obs) (run_completed run) run"
  then obtain p where "p \<in> set (observed run obs)" "run_completed run < rs_done_epoch (run_state run p)"
    unfolding overtaken_def by blast
  moreover have "p < run_size run" using calculation(1) observed_range [OF assms(2)] by blast
  ultimately show False using assms(1) unfolding epochs_ok_def by (meson leD)
qed

lemma dispatch_fresh_advances:
  assumes inv: "run_inv [i] run" and parked: "\<not> rs_parked (run_state run i)"
  obtains (stuck) "dispatch_fresh lib i run = None" "spn_dag_weak_key (lib_blake3 lib) (run_g run) i = None"
  | (go) run' where "dispatch_fresh lib i run = Some run'" "advances 1 run run'"
proof (cases "ac_kind (spn_dag_find_action (run_g run) i) = SPN_DAG_ACTION_DISCOVERED \<and>
    spn_dag_weak_key (lib_blake3 lib) (run_g run) i = None")
  case True
  then show thesis by (intro stuck) (simp_all add: dispatch_fresh_def Let_def)
next
  case keyed: False
  let ?f = "\<lambda>fl. fl\<lparr>fl_err := None, fl_attempt := attempt_zero\<lparr>at_digests := at_digests (fl_attempt fl)\<rparr>\<rparr>"
  let ?submit = "\<lambda>run. pool_submit i (update_flight i ?f (run\<lparr>run_in_flight := run_in_flight run + 1\<rparr>))"
  let ?key = "the (spn_dag_weak_key (lib_blake3 lib) (run_g run) i)"
  obtain found env where get: "spn_dag_obs_table_get lib ?key (run_env run) = (found, env)"
    by (metis surj_pair)
  note that = go
  let ?mid = "run\<lparr>run_env := env\<rparr>"
  have silent: "silent i run ?mid" by (rule silent_env)
  have inv': "run_inv [i] ?mid" using silent_inv [OF silent inv] hand_facts(2) [OF inv] by blast
  have parked': "\<not> rs_parked (run_state ?mid i)" using parked by simp
  have submit: "advances 1 run (?submit run)" using submit_advances [OF inv parked, of ?f] by simp
  have submit': "advances 1 run (?submit ?mid)"
    using silent_advances [OF silent inv submit_advances [OF inv' parked', of ?f]] by simp
  have dispatch: "dispatch_fresh lib i run =
      (if ac_kind (spn_dag_find_action (run_g run) i) \<noteq> SPN_DAG_ACTION_DISCOVERED then Some (?submit run)
       else (case (found, env) of
          (None, env) \<Rightarrow> Some (?submit (run\<lparr>run_env := env\<rparr>))
        | (Some pathset, env) \<Rightarrow>
           (case defer_observations i (ps_obs pathset) (run_completed run) (run\<lparr>run_env := env\<rparr>) of
              (wait, requeue, run) \<Rightarrow>
                if wait then Some run else if requeue then None else Some (?submit run))))"
    using keyed get by (auto simp: dispatch_fresh_def Let_def split: option.split prod.split)
  show thesis
  proof (cases "ac_kind (spn_dag_find_action (run_g run) i) \<noteq> SPN_DAG_ACTION_DISCOVERED")
    case True
    then show thesis using that [OF _ submit] dispatch by simp
  next
    case discovered: False
    show thesis
    proof (cases found)
      case None
      then show thesis using that [OF _ submit'] dispatch discovered by simp
    next
      case (Some pathset)
      let ?obs = "ps_obs pathset"
      show thesis
      proof (cases "\<forall>p \<in> set (observed ?mid ?obs). p = i \<or> rs_done (run_state ?mid p)")
        case True
        have "defer_observations i ?obs (run_completed run) ?mid = (False, False, ?mid)"
          using defer_none [OF inv' True, of "run_completed run"]
            not_overtaken [OF run_invD(3,4) [OF inv'], of i ?obs] by simp
        then show thesis using that [OF _ submit'] dispatch discovered Some by simp
      next
        case False
        obtain requeue states where deferred:
          "defer_observations i ?obs (run_completed run) ?mid = (True, requeue, ?mid\<lparr>run_states := states\<rparr>)"
          "run_inv [] (?mid\<lparr>run_states := states\<rparr>)" "keeps ?mid (?mid\<lparr>run_states := states\<rparr>)"
          "potential (?mid\<lparr>run_states := states\<rparr>) \<le> potential ?mid + (if rs_parked (run_state ?mid i) then 0 else 1)"
          by (rule defer_some [OF inv' False])
        have "advances 1 ?mid (?mid\<lparr>run_states := states\<rparr>)"
          using deferred(2-4) parked' unfolding advances_def by simp
        then show thesis
          using that [OF _ silent_advances [OF silent inv]] dispatch discovered Some deferred(1) by simp
      qed
    qed
  qed
qed

lemma unpark_silent:
  assumes "run_inv [i] run"
  shows "quiet i run (update_state i (\<lambda>s. s\<lparr>rs_parked := False\<rparr>) run)"
    "run_inv [i] (update_state i (\<lambda>s. s\<lparr>rs_parked := False\<rparr>) run)"
    "potential (update_state i (\<lambda>s. s\<lparr>rs_parked := False\<rparr>) run) = potential run"
proof -
  let ?run = "update_state i (\<lambda>s. s\<lparr>rs_parked := False\<rparr>) run"
  note hand = hand_facts [OF assms]
  show quiet: "quiet i run ?run" by (rule quiet_set_parked)
  show inv': "run_inv [i] ?run" using set_parked_inv [OF assms hand(2,3,6)] .
  have "base ?run j = base run j" if "j < run_size run" "j \<noteq> i" for j
    using that by (simp add: base_def set_parked_state)
  then have "potential ?run + base run i = potential run + base ?run i"
    using quiet_active [OF quiet] quiet_size [OF quiet] hand(1) by (intro potential_change) simp_all
  then show "potential ?run = potential run" using hand(10) hand_facts(10) [OF inv'] by simp
qed

lemma run_dispatch_advances:
  assumes inv: "run_inv [i] run" and err: "run_err run = None"
  obtains (stuck) "run_dispatch lib i run = None" "spn_dag_weak_key (lib_blake3 lib) (run_g run) i = None"
  | (restored) "run_dispatch lib i run = None" "rs_parked (run_state run i)" "at_hit (fl_attempt (rs_flight (run_state run i)))"
  | (go) run' where "run_dispatch lib i run = Some run'" "advances 1 run run'"
proof (cases "rs_parked (run_state run i)")
  case False
  show thesis
  proof (cases rule: dispatch_fresh_advances [OF inv False, of lib])
    case 1
    then show thesis using stuck False by (simp add: run_dispatch_def Let_def)
  next
    case (2 run')
    then show thesis using go False by (simp add: run_dispatch_def Let_def)
  qed
next
  case parked: True
  note that = go
  note hand = hand_facts [OF inv]
  let ?fl = "rs_flight (run_state run i)"
  let ?obs = "at_obs (fl_attempt ?fl)"
  show thesis
  proof (cases "\<forall>p \<in> set (observed run ?obs). p = i \<or> rs_done (run_state run p)")
    case False
    obtain requeue states where deferred:
      "defer_observations i ?obs (fl_epoch ?fl) run = (True, requeue, run\<lparr>run_states := states\<rparr>)"
      "run_inv [] (run\<lparr>run_states := states\<rparr>)" "keeps run (run\<lparr>run_states := states\<rparr>)"
      "potential (run\<lparr>run_states := states\<rparr>) \<le> potential run + (if rs_parked (run_state run i) then 0 else 1)"
      by (rule defer_some [OF inv False])
    have "advances 1 run (run\<lparr>run_states := states\<rparr>)"
      using deferred(2-4) parked unfolding advances_def by simp
    then show thesis using that parked deferred(1) by (simp add: run_dispatch_def Let_def)
  next
    case True
    let ?stale = "overtaken i (observed run ?obs) (fl_epoch ?fl) run"
    let ?mid = "update_state i (\<lambda>s. s\<lparr>rs_parked := False\<rparr>) run"
    note no_defer = defer_none [OF inv True, of "fl_epoch ?fl"]
    note mid = unpark_silent [OF inv]
    have keeps: "keeps run ?mid" using quiet_keeps [OF mid(1) hand(11) hand(1,2)] .
    have unparked: "\<not> rs_parked (run_state ?mid i)" using hand(12) by (simp add: set_parked_state)
    have st: "rs_flight (run_state ?mid i) = ?fl" "rs_done (run_state ?mid j) = rs_done (run_state run j)"
      "rs_done_epoch (run_state ?mid j) = rs_done_epoch (run_state run j)" for j
      by (auto simp: set_parked_state)
    show thesis
    proof (cases ?stale)
      case False
      have "obs_current ?mid i"
        using current_of_defer [OF True False] unfolding obs_current_def st by simp
      then have current: "obs_current ?mid i" .
      show thesis
      proof (cases "at_hit (fl_attempt ?fl)")
        case True
        then have "run_commit_flight lib i ?mid = None" using st(1) by (simp add: run_commit_flight_def commit_def)
        then have "run_dispatch lib i run = None"
          using parked no_defer False by (simp add: run_dispatch_def Let_def)
        then show thesis using restored parked True by simp
      next
        case missed: False
        have "run_err ?mid = None" "\<not> at_hit (fl_attempt (rs_flight (run_state ?mid i)))"
          using err missed st(1) by simp_all
        then obtain run' where run': "run_commit_flight lib i ?mid = Some run'" "advances 0 ?mid run'"
          using commit_advances [OF mid(2) unparked _ current] by blast
        then have "advances 0 run run'"
          using advances_trans [OF hand(11) keeps, of 0 0] mid(3) by simp
        then have "advances 1 run run'" by (rule advances_mono) simp
        then show thesis
          using that run'(1) parked no_defer False by (simp add: run_dispatch_def Let_def)
      qed
    next
      case over: True
      let ?mid2 = "discard lib i ?mid"
      have silent: "silent i ?mid ?mid2" by (rule silent_discard)
      have inv2: "run_inv [i] ?mid2"
        using silent_inv [OF silent mid(2)] hand_facts(2) [OF mid(2)] by blast
      have unparked2: "\<not> rs_parked (run_state ?mid2 i)" using unparked by (simp add: discard_def)
      show thesis
      proof (cases rule: dispatch_fresh_advances [OF inv2 unparked2, of lib])
        case 1
        have "run_g ?mid2 = run_g run" by (simp add: discard_def)
        then show thesis using 1 stuck parked no_defer over by (simp add: run_dispatch_def Let_def)
      next
        case (2 run')
        have step: "advances 1 run run'"
          using advances_trans [OF hand(11) keeps, of 0 1] mid(3)
            silent_advances [OF silent mid(2) 2(2)] by simp
        then show thesis
          using that [OF _ step] parked no_defer over 2(1) by (simp add: run_dispatch_def Let_def)
      qed
    qed
  qed
qed

end
