(* ===== verification/Dag_Run_Loop.thy ===== *)
theory Dag_Run_Loop
  imports Dag_Run_Turns
begin

text \<open>
  Completing a job, the turns of the loop, the workers, and whole runs: every state a run reaches
  satisfies the invariant, and the number of turns is at most the potential of its start.
\<close>

section \<open>Completing a job\<close>

lemma push_ready_advances:
  assumes inv: "run_inv [i] run"
  shows "advances 2 run (push_ready i run)"
proof -
  let ?run = "push_ready i run"
  note hand = hand_facts [OF inv] and places = run_invD(2) [OF inv]
  have quiet: "quiet i run ?run" by (simp add: quiet_def push_ready_def)
  have "places_ok [] ?run"
    using places unfolding places_ok_def quiet_eligible [OF quiet] by (auto simp: push_ready_def)
  moreover have "fl_epoch (rs_flight (run_state ?run i)) \<le> run_completed run" if "i < run_size run"
    using epoch_bound(1) [OF run_invD(3) [OF inv] that] by (simp add: push_ready_def)
  ultimately have inv': "run_inv [] ?run" using quiet_inv [OF quiet inv hand(2)] by blast
  have "base ?run j = base run j" if "j < run_size run" "j \<noteq> i" for j
    using that by (simp add: base_def push_ready_def)
  then have "potential ?run + base run i = potential run + base ?run i"
    using quiet_active [OF quiet] quiet_size [OF quiet] hand(1) by (intro potential_change) simp_all
  moreover have "base ?run i \<le> 2" using hand by (simp add: base_def push_ready_def)
  ultimately have "potential ?run \<le> potential run + 2" using hand(10) by simp
  then show ?thesis using inv' quiet_keeps [OF quiet hand(11) hand(1,2)] by (simp add: advances_def)
qed

lemma park_advances:
  assumes inv: "run_inv [i] run" and parked: "\<not> rs_parked (run_state run i)"
    and some: "\<not> (\<forall>p \<in> set (observed run obs). p = i \<or> rs_done (run_state run p))"
  obtains requeue mid where "defer_observations i obs epoch run = (True, requeue, mid)"
    "advances 0 run (update_state i (\<lambda>s. s\<lparr>rs_parked := True\<rparr>) mid)"
proof -
  note hand = hand_facts [OF inv]
  obtain requeue states where deferred:
    "defer_observations i obs epoch run = (True, requeue, run\<lparr>run_states := states\<rparr>)"
    "run_inv [] (run\<lparr>run_states := states\<rparr>)" "keeps run (run\<lparr>run_states := states\<rparr>)"
    "potential (run\<lparr>run_states := states\<rparr>) \<le> potential run + (if rs_parked (run_state run i) then 0 else 1)"
    "0 < rs_deferred (states ! i)" "rs_parked (states ! i) = rs_parked (run_state run i)"
    by (rule defer_some [OF inv some])
  let ?mid = "run\<lparr>run_states := states\<rparr>" and ?park = "\<lambda>s. s\<lparr>rs_parked := True\<rparr>"
  let ?run = "update_state i ?park ?mid"
  note counts = run_invD(1) [OF deferred(2)]
  have i: "i < run_size ?mid" "i < length states"
    using hand(1) counts_okD(2) [OF counts] by simp_all
  have st: "\<not> rs_done (states ! i)" "rs_pending (states ! i) = 0"
    using counts_okD(7,8) [OF counts i(1)] deferred(5) by auto
  have inv': "run_inv [] ?run"
    using set_parked_inv [OF deferred(2), of i True] st hand(6) by simp
  have quiet: "quiet i ?mid ?run" by (rule quiet_set_parked)
  have keeps: "keeps run ?run"
    using keeps_trans [OF hand(11) deferred(3)] quiet_keeps [OF quiet] hand(11) i st(1) by simp
  have "base ?run j = base ?mid j" if "j < run_size ?mid" "j \<noteq> i" for j
    using that by (simp add: base_def set_parked_state)
  then have change: "potential ?run + base ?mid i = potential ?mid + base ?run i"
    using quiet_active [OF quiet] quiet_size [OF quiet] i(1) by (intro potential_change) simp_all
  have "base ?mid i = 1" "base ?run i = 0"
    using st deferred(5,6) hand parked i by (simp_all add: base_def set_parked_state)
  then have "potential ?run \<le> potential run" using change deferred(4) parked by simp
  then show thesis using that [OF deferred(1)] inv' keeps by (simp add: advances_def)
qed

lemma run_complete_advances:
  assumes inv: "run_inv [i] run" and parked: "\<not> rs_parked (run_state run i)"
  obtains run' where "run_complete lib i run = Some run'"
    "advances (if fl_epoch (rs_flight (run_state run i)) < run_completed run then 2 else 0) run run'"
proof -
  note hand = hand_facts [OF inv]
  let ?fl = "rs_flight (run_state run i)"
  let ?k = "if fl_epoch ?fl < run_completed run then 2 else 0"
  let ?obs = "at_obs (fl_attempt ?fl)"
  note completes = that
  have calm: thesis if result: "run_complete lib i run = Some run'" and step: "advances 0 run run'" for run'
    by (rule completes [OF result], rule advances_mono [OF step]) simp
  show thesis
  proof (cases "run_err run \<noteq> None \<or> fl_err ?fl \<noteq> None")
    case True
    let ?err = "if run_err run \<noteq> None then run_err run else fl_err ?fl"
    have err: "?err \<noteq> None" using True by auto
    let ?mid = "run\<lparr>run_err := ?err\<rparr>"
    have mid: "advances 0 run ?mid" by (rule set_err_advances [OF inv err])
    have silent: "silent i ?mid (discard lib i ?mid)" by (rule silent_discard)
    have "advances 0 ?mid (discard lib i ?mid)"
      using silent_inv [OF silent set_err_inv [OF inv err]] hand silent_potential [OF silent]
        quiet_keeps [OF silentD(1) [OF silent]] by (simp add: advances_def)
    then have "advances 0 run (discard lib i ?mid)"
      using advances_trans [OF hand(11), of ?mid 0 0] mid by (simp add: advances_def)
    moreover have "run_complete lib i run = Some (if at_hit (fl_attempt ?fl) then ?mid else discard lib i ?mid)"
      using True unfolding run_complete_def Let_def by simp
    ultimately show thesis using calm mid by (cases "at_hit (fl_attempt ?fl)") simp_all
  next
    case clean: False
    then have err: "run_err run = None" by simp
    have complete: "run_complete lib i run =
        (if at_hit (fl_attempt ?fl) then Some (finish_action i run)
         else if ac_kind (spn_dag_find_action (run_g run) i) = SPN_DAG_ACTION_DISCOVERED then
           (case defer_observations i ?obs (fl_epoch ?fl) run of
              (wait, requeue, run) \<Rightarrow>
                if wait then Some (update_state i (\<lambda>s. s\<lparr>rs_parked := True\<rparr>) run)
                else if requeue then Some (push_ready i (discard lib i run))
                else run_commit_flight lib i run)
         else run_commit_flight lib i run)"
      using clean unfolding run_complete_def Let_def by simp
    show thesis
    proof (cases "executed_discovered run i")
      case plain: False
      have "finishing run i" using inv parked err plain by (simp add: finishing_def)
      then have finish: "advances 0 run (finish_action i run)" by (rule finish_advances)
      show thesis
      proof (cases "at_hit (fl_attempt ?fl)")
        case True
        then show thesis using calm [OF _ finish] by (simp add: complete)
      next
        case False
        then obtain run' where "run_commit_flight lib i run = Some run'" "advances 0 run run'"
          using commit_advances [OF inv parked err] plain by blast
        then show thesis using calm False plain by (simp add: complete executed_discovered_def)
      qed
    next
      case discovered: True
      then have complete: "run_complete lib i run =
          (case defer_observations i ?obs (fl_epoch ?fl) run of
              (wait, requeue, run) \<Rightarrow>
                if wait then Some (update_state i (\<lambda>s. s\<lparr>rs_parked := True\<rparr>) run)
                else if requeue then Some (push_ready i (discard lib i run))
                else run_commit_flight lib i run)"
        unfolding complete executed_discovered_def by simp
      show thesis
      proof (cases "\<forall>p \<in> set (observed run ?obs). p = i \<or> rs_done (run_state run p)")
        case False
        obtain requeue mid where "defer_observations i ?obs (fl_epoch ?fl) run = (True, requeue, mid)"
          "advances 0 run (update_state i (\<lambda>s. s\<lparr>rs_parked := True\<rparr>) mid)"
          by (rule park_advances [OF inv parked False])
        then show thesis using calm unfolding complete by simp
      next
        case settled: True
        let ?stale = "overtaken i (observed run ?obs) (fl_epoch ?fl) run"
        note none = defer_none [OF inv settled, of "fl_epoch ?fl"]
        show thesis
        proof (cases ?stale)
          case False
          have "\<not> at_hit (fl_attempt ?fl)" using discovered by (simp add: executed_discovered_def)
          then obtain run' where "run_commit_flight lib i run = Some run'" "advances 0 run run'"
            using commit_advances [OF inv parked err] current_of_defer [OF settled False] by blast
          then show thesis using calm False unfolding complete none by simp
        next
          case True
          then obtain p where p: "p \<in> set (observed run ?obs)" "fl_epoch ?fl < rs_done_epoch (run_state run p)"
            unfolding overtaken_def by blast
          have "p < run_size run" using p(1) observed_range [OF run_invD(4) [OF inv]] by blast
          then have late: "fl_epoch ?fl < run_completed run"
            using p(2) epoch_bound(2) [OF run_invD(3) [OF inv]] by (meson less_le_trans)
          have silent: "silent i run (discard lib i run)" by (rule silent_discard)
          have "advances 2 run (push_ready i (discard lib i run))"
            using silent_advances [OF silent inv push_ready_advances [OF silent_inv [OF silent inv hand(2)]]] .
          then show thesis using completes True late unfolding complete none by simp
        qed
      qed
    qed
  qed
qed

lemma pop_job:
  assumes inv: "run_inv [] run" and jobs: "run_jobs run = js @ [i]"
  defines "mid \<equiv> run\<lparr>run_jobs := js, run_in_flight := run_in_flight run - 1\<rparr>"
  shows "run_inv [i] mid" "\<not> rs_parked (run_state mid i)" "keeps run mid"
    "potential run = potential mid + (if fl_epoch (rs_flight (run_state run i)) = run_completed run then 1 else 3)"
proof -
  note places = run_invD(2) [OF inv]
  have i: "i < run_size run" "\<not> rs_done (run_state run i)" "rs_pending (run_state run i) = 0"
    "rs_deferred (run_state run i) = 0"
    using placesD(2-5) [OF places, of i] jobs by auto
  have dist: "distinct (run_ready run @ run_queue run @ run_running run @ js @ [i])"
    using placesD(1) [OF places] jobs by simp
  then have out: "i \<notin> set (run_ready run)" "i \<notin> set (run_queue run)" "i \<notin> set (run_running run)" "i \<notin> set js"
    by auto
  have quiet: "quiet i run mid" by (simp add: quiet_def mid_def)
  show parked: "\<not> rs_parked (run_state mid i)"
    using places_parked(3) [OF places i(1)] jobs by (auto simp: mid_def)
  have "places_ok [i] mid"
    using places dist jobs unfolding places_ok_def quiet_eligible [OF quiet] by (auto simp: mid_def)
  moreover have "fl_epoch (rs_flight (run_state mid i)) \<le> run_completed run" if "i < run_size run"
    using epoch_bound(1) [OF run_invD(3) [OF inv] that] by (simp add: mid_def)
  ultimately show inv': "run_inv [i] mid" using quiet_inv [OF quiet inv i(2)] by blast
  show "keeps run mid"
    using quiet_keeps [OF quiet _ i(1,2)] counts_okD(1) [OF run_invD(1) [OF inv]] by blast
  have "base mid j = base run j" if "j < run_size run" "j \<noteq> i" for j
    using that jobs by (simp add: base_def mid_def)
  then have change: "potential mid + base run i = potential run + base mid i"
    using quiet_active [OF quiet] quiet_size [OF quiet] i(1) by (intro potential_change) simp_all
  have "base run i = (if fl_epoch (rs_flight (run_state run i)) = run_completed run then 1 else 3)"
    using out i jobs by (simp add: base_def)
  then show "potential run = potential mid + (if fl_epoch (rs_flight (run_state run i)) = run_completed run then 1 else 3)"
    using change hand_facts(10) [OF inv'] by simp
qed

text \<open>A turn lowers the potential.\<close>

definition turns :: "'w spn_dag_run_t \<Rightarrow> 'w spn_dag_run_t \<Rightarrow> bool" where
  "turns run run' \<longleftrightarrow> run_inv [] run' \<and> keeps run run' \<and> potential run' < potential run"

lemma turns_linked: "run_inv hand run \<Longrightarrow> dag_linked (run_g run)"
  using counts_okD(1) run_invD(1) by blast

lemma take_job_turns:
  assumes inv: "run_inv [] run" and poll: "pool_try_poll run = (Some i, run')"
  obtains after where "take_job lib i run' = Some after" "turns run after"
proof -
  from poll have ne: "run_jobs run \<noteq> []" and i: "i = last (run_jobs run)"
    and run': "run' = run\<lparr>run_jobs := butlast (run_jobs run)\<rparr>"
    by (auto simp: pool_try_poll_def split: if_splits)
  have jobs: "run_jobs run = butlast (run_jobs run) @ [i]" using ne i by simp
  let ?mid = "run\<lparr>run_jobs := butlast (run_jobs run), run_in_flight := run_in_flight run - 1\<rparr>"
  have take: "take_job lib i run' = run_complete lib i ?mid" by (simp add: take_job_def run')
  note mid = pop_job [OF inv jobs]
  have fl: "fl_epoch (rs_flight (run_state ?mid i)) = fl_epoch (rs_flight (run_state run i))"
    "run_completed ?mid = run_completed run" by simp_all
  obtain after where after: "run_complete lib i ?mid = Some after"
    "advances (if fl_epoch (rs_flight (run_state run i)) < run_completed run then 2 else 0) ?mid after"
    using run_complete_advances [OF mid(1,2), of lib] unfolding fl .
  then have step: "run_inv [] after" "keeps ?mid after"
    "potential after \<le> potential ?mid + (if fl_epoch (rs_flight (run_state run i)) < run_completed run then 2 else 0)"
    by (auto simp: advances_def)
  have "potential after < potential run"
    using step(3) unfolding mid(4) by (auto split: if_splits)
  then show thesis
    using that [of after] after(1) step(1,2) keeps_trans [OF turns_linked [OF inv] mid(3)]
    unfolding turns_def take by blast
qed

lemma pop_ready:
  assumes inv: "run_inv [] run" and ready: "run_ready run = rs @ [i]"
  defines "mid \<equiv> run\<lparr>run_ready := rs\<rparr>"
  shows "run_inv [i] mid" "keeps run mid" "potential run = potential mid + 2"
proof -
  note places = run_invD(2) [OF inv]
  have i: "i < run_size run" "\<not> rs_done (run_state run i)" "rs_pending (run_state run i) = 0"
    "rs_deferred (run_state run i) = 0"
    using placesD(2-5) [OF places, of i] ready by auto
  have quiet: "quiet i run mid" by (simp add: quiet_def mid_def)
  have "places_ok [i] mid"
    using places ready unfolding places_ok_def quiet_eligible [OF quiet] by (auto simp: mid_def)
  moreover have "fl_epoch (rs_flight (run_state mid i)) \<le> run_completed run" if "i < run_size run"
    using epoch_bound(1) [OF run_invD(3) [OF inv] that] by (simp add: mid_def)
  ultimately show inv': "run_inv [i] mid" using quiet_inv [OF quiet inv i(2)] by blast
  show "keeps run mid"
    using quiet_keeps [OF quiet turns_linked [OF inv] i(1,2)] .
  have "base mid j = base run j" if "j < run_size run" "j \<noteq> i" for j
    using that ready by (simp add: base_def mid_def)
  then have change: "potential mid + base run i = potential run + base mid i"
    using quiet_active [OF quiet] quiet_size [OF quiet] i(1) by (intro potential_change) simp_all
  have "base run i = 2" using i ready by (simp add: base_def)
  then show "potential run = potential mid + 2" using change hand_facts(10) [OF inv'] by simp
qed

lemma cancel_check_advances:
  assumes "run_inv [] run"
  shows "advances 0 run (cancel_check run)"
  using set_err_advances [OF assms, of "Some SPN_ERR_DAG_CANCELLED"] assms
  by (simp add: cancel_check_def advances_def)

lemma advances_turns:
  assumes "run_inv [] run" "advances 0 run mid" "turns mid run'"
  shows "turns run run'"
  using assms keeps_trans [OF turns_linked [OF assms(1)]] unfolding advances_def turns_def
  by (metis add.right_neutral order.strict_trans2)

text \<open>A turn goes on with less potential, sleeps, or ends the loop. The assertions that may fail are
  those of the dispatch: that the inputs have digests, and that an attempt that was parked was not
  restored.\<close>

definition dispatch_asserts :: "'w dag_lib \<Rightarrow> 'w spn_dag_run_t \<Rightarrow> nat \<Rightarrow> bool" where
  "dispatch_asserts lib run i \<longleftrightarrow>
     spn_dag_weak_key (lib_blake3 lib) (run_g run) i \<noteq> None \<and>
     (rs_parked (run_state run i) \<longrightarrow> \<not> at_hit (fl_attempt (rs_flight (run_state run i))))"

lemma run_turn_cases:
  assumes inv: "run_inv [] run"
  obtains (go) run' where "run_turn lib run = Some (TURN_NEXT run')" "turns run run'"
  | (sleep) "run_turn lib run = Some (TURN_POLL (cancel_check run))" "run_jobs run = []"
      "0 < run_in_flight run"
  | (leave) "run_turn lib run = Some (TURN_BREAK (cancel_check run))" "run_jobs run = []"
      "run_in_flight run = 0" "run_err (cancel_check run) \<noteq> None \<or> run_ready run = []"
  | (stuck) i where "run_turn lib run = None" "i \<in> set (run_ready run)" "\<not> dispatch_asserts lib run i"
proof -
  let ?run = "cancel_check run"
  note check = cancel_check_advances [OF inv]
  then have inv': "run_inv [] ?run" by (simp add: advances_def)
  have same: "run_jobs ?run = run_jobs run" "run_ready ?run = run_ready run"
    "run_in_flight ?run = run_in_flight run" by (simp_all add: cancel_check_def)
  show thesis
  proof (cases "run_jobs ?run = []")
    case False
    then obtain i run1 where poll: "pool_try_poll ?run = (Some i, run1)" by (simp add: pool_try_poll_def)
    obtain after where "take_job lib i run1 = Some after" "turns ?run after"
      by (rule take_job_turns [OF inv' poll])
    then show thesis
      using go [OF _ advances_turns [OF inv check]] poll by (simp add: run_turn_def Let_def)
  next
    case idle: True
    then have poll: "pool_try_poll ?run = (None, ?run)" by (simp add: pool_try_poll_def)
    show thesis
    proof (cases "run_err ?run = None \<and> run_ready ?run \<noteq> []")
      case True
      let ?i = "last (run_ready ?run)" and ?mid = "?run\<lparr>run_ready := butlast (run_ready ?run)\<rparr>"
      have ready: "run_ready ?run = butlast (run_ready ?run) @ [?i]" using True by simp
      note mid = pop_ready [OF inv' ready]
      have turn: "run_turn lib run = map_option TURN_NEXT (run_dispatch lib ?i ?mid)"
        using poll True by (simp add: run_turn_def Let_def)
      have i: "?i \<in> set (run_ready run)" using True by (simp add: same)
      have fields: "run_g ?mid = run_g run" "run_state ?mid ?i = run_state run ?i"
        by (simp_all add: cancel_check_def)
      have err: "run_err ?mid = None" using True by simp
      show thesis
      proof (cases rule: run_dispatch_advances [OF mid(1) err, of lib])
        case 1
        then show thesis using stuck [OF _ i] turn fields by (simp add: dispatch_asserts_def)
      next
        case 2
        then show thesis using stuck [OF _ i] turn fields by (simp add: dispatch_asserts_def)
      next
        case dispatch: (3 run')
        have "turns ?run run'"
          using dispatch(2) keeps_trans [OF turns_linked [OF inv'] mid(2)] mid(3)
          unfolding advances_def turns_def by auto
        then show thesis using go [OF _ advances_turns [OF inv check]] turn dispatch(1) by simp
      qed
    next
      case False
      show thesis
      proof (cases "0 < run_in_flight ?run")
        case True
        then show thesis using sleep poll False idle unfolding same by (simp add: run_turn_def Let_def same)
      next
        case none: False
        then show thesis using leave poll False idle unfolding same by (simp add: run_turn_def Let_def same)
      qed
    qed
  qed
qed

lemma run_turn_next:
  assumes "run_inv [] run" "run_turn lib run = Some (TURN_NEXT run')"
  shows "turns run run'"
  by (rule run_turn_cases [OF assms(1), of lib]) (use assms(2) in simp_all)

lemma run_turn_poll:
  assumes "run_inv [] run" "run_turn lib run = Some (TURN_POLL asleep)"
  shows "asleep = cancel_check run" "run_jobs run = []" "0 < run_in_flight run"
  by (rule run_turn_cases [OF assms(1), of lib]; use assms(2) in simp)+

lemma run_turn_break:
  assumes "run_inv [] run" "run_turn lib run = Some (TURN_BREAK final)"
  shows "final = cancel_check run" "run_jobs run = []" "run_in_flight run = 0"
    "run_err (cancel_check run) \<noteq> None \<or> run_ready run = []"
  by (rule run_turn_cases [OF assms(1), of lib]; use assms(2) in simp)+

end
