(* ===== verification/Dag_Run_Reach.thy ===== *)
theory Dag_Run_Reach
  imports Dag_Run_Loop
begin

text \<open>
  The workers, the start of a run, and the states a run reaches. A run of \<open>n\<close> actions takes at most
  \<open>n * n + n\<close> turns before it leaves the loop, below the \<open>4 (n + 1)\<^sup>2\<close> that the code asserts.
\<close>

section \<open>The workers\<close>

inductive_cases pool_worker_elim: "pool_worker lib exec run run'"

text \<open>A job that ends without failing the assertion on its inputs.\<close>

lemma flight_finish_result:
  assumes "flight_finish lib exec i run = Some run'"
  obtains f attempt g env env' where
    "lookup lib i (fl_attempt (rs_flight (run_state run i))) (run_g run) (run_env run) = Some (attempt, g, env)"
    "run' = update_flight i f (run\<lparr>run_g := g, run_env := env'\<rparr>)"
    "\<And>fl. fl_epoch (f fl) = fl_epoch fl"
    "at_hit attempt \<Longrightarrow> f = fl_attempt_update (\<lambda>_. attempt)"
    "\<not> at_hit attempt \<Longrightarrow> \<exists>err attempt'. execute_attempt lib exec i attempt g env = (err, attempt', env') \<and>
       f = (\<lambda>fl. fl\<lparr>fl_attempt := attempt', fl_err := err\<rparr>)"
proof -
  obtain attempt g env where look:
    "lookup lib i (fl_attempt (rs_flight (run_state run i))) (run_g run) (run_env run) = Some (attempt, g, env)"
    using assms by (auto simp: flight_finish_def Let_def split: option.splits)
  obtain err attempt' env' where ex: "execute_attempt lib exec i attempt g env = (err, attempt', env')"
    by (metis surj_pair)
  note result = assms [unfolded flight_finish_def Let_def look option.case prod.case ex]
  show thesis
  proof (cases "at_hit attempt")
    case True
    show thesis
      by (rule that [OF look, of "fl_attempt_update (\<lambda>_. attempt)" env]) (use result True in simp_all)
  next
    case False
    show thesis
      by (rule that [OF look, of "\<lambda>fl. fl\<lparr>fl_attempt := attempt', fl_err := err\<rparr>" env'])
        (use result False ex in simp_all)
  qed
qed

lemma flight_finish_frame:
  fixes run :: "'w spn_dag_run_t"
  assumes "flight_finish lib exec i run = Some run'"
  shows "touches i (run_g run) (run_g run')"
    "run_queue run' = run_queue run"
    "run_running run' = run_running run"
    "run_jobs run' = run_jobs run"
    "run_ready run' = run_ready run"
    "run_in_flight run' = run_in_flight run"
    "run_err run' = run_err run"
    "run_targets run' = run_targets run"
    "run_completed run' = run_completed run"
    "length (run_states run') = length (run_states run)"
    "core (run_state run' j) = core (run_state run j)"
    "rs_parked (run_state run' j) = rs_parked (run_state run j)"
    "fl_epoch (rs_flight (run_state run' j)) = fl_epoch (rs_flight (run_state run j))"
    "j \<noteq> i \<Longrightarrow> run_state run' j = run_state run j"
proof -
  obtain f attempt g env env' where look:
      "lookup lib i (fl_attempt (rs_flight (run_state run i))) (run_g run) (run_env run) = Some (attempt, g, env)"
    and result: "run' = update_flight i f (run\<lparr>run_g := g, run_env := env'\<rparr>)"
    and epoch: "\<And>fl. fl_epoch (f fl) = fl_epoch fl"
    by (rule flight_finish_result [OF assms]) blast
  show "touches i (run_g run) (run_g run')"
    using lookup_touches [OF look] unfolding result by simp
  show "core (run_state run' j) = core (run_state run j)"
    "rs_parked (run_state run' j) = rs_parked (run_state run j)"
    "fl_epoch (rs_flight (run_state run' j)) = fl_epoch (rs_flight (run_state run j))"
    "j \<noteq> i \<Longrightarrow> run_state run' j = run_state run j" for j
    unfolding result by (simp_all add: update_flight_state core_def epoch)
  show "run_queue run' = run_queue run" "run_running run' = run_running run" "run_jobs run' = run_jobs run"
    "run_ready run' = run_ready run" "run_in_flight run' = run_in_flight run" "run_err run' = run_err run"
    "run_targets run' = run_targets run" "run_completed run' = run_completed run"
    "length (run_states run') = length (run_states run)"
    by (simp_all add: result)
qed

lemma places_same:
  assumes "places_ok hand run" "quiet i run run'"
    and "run_ready run' = run_ready run" "mset (flights run') = mset (flights run)"
    and "run_in_flight run' = run_in_flight run" "run_err run' = run_err run"
    and "\<And>j. j < run_size run \<Longrightarrow> rs_parked (run_state run' j) = rs_parked (run_state run j)"
  shows "places_ok hand run'"
proof -
  have set: "set (flights run') = set (flights run)" using assms(4) by (rule mset_eq_setD)
  have dist: "distinct (flights run') = distinct (flights run)" using assms(4) by (rule mset_eq_imp_distinct_iff)
  have len: "length (flights run') = length (flights run)" using assms(4) by (rule mset_eq_length)
  have "distinct (hand @ run_ready run' @ flights run') = distinct (hand @ run_ready run @ flights run)"
    "set (hand @ run_ready run' @ flights run') = set (hand @ run_ready run @ flights run)"
    unfolding distinct_append [of hand] distinct_append [of "run_ready run'"] distinct_append [of "run_ready run"]
      set_append [of hand] set_append [of "run_ready run'"] set_append [of "run_ready run"] assms(3) set dist
    by simp_all
  then show ?thesis
    using assms(1) unfolding places_ok_def quiet_eligible [OF assms(2)] quiet_size [OF assms(2)] assms(5,6) len set
      quiet_fields(1,3) [OF assms(2)] by (simp add: assms(7))
qed

lemma worker_start_advances:
  assumes inv: "run_inv [] run" and queue: "run_queue run = queue @ [i]"
  shows "advances 0 run (flight_start i (run\<lparr>run_queue := queue, run_running := run_running run @ [i]\<rparr>))"
proof -
  let ?run = "flight_start i (run\<lparr>run_queue := queue, run_running := run_running run @ [i]\<rparr>)"
  note places = run_invD(2) [OF inv]
  have i: "i < run_size run" "\<not> rs_done (run_state run i)"
    using placesD(2,3) [OF places, of i] queue by auto
  have len: "i < length (run_states run)" using i(1) counts_okD(2) [OF run_invD(1) [OF inv]] by simp
  have out: "i \<notin> set (run_ready run)" "i \<notin> set queue"
    using placesD(1) [OF places] queue by auto
  have st: "run_state ?run j = (if j = i then (run_state run i)\<lparr>rs_flight :=
      (rs_flight (run_state run i))\<lparr>fl_epoch := run_completed run\<rparr>\<rparr> else run_state run j)" for j
    using len by (simp add: flight_start_def update_flight_state)
  have same: "run_g ?run = run_g run" "run_targets ?run = run_targets run" "run_completed ?run = run_completed run"
    "length (run_states ?run) = length (run_states run)" "run_ready ?run = run_ready run"
    "run_queue ?run = queue" "run_running ?run = run_running run @ [i]" "run_jobs ?run = run_jobs run"
    "run_in_flight ?run = run_in_flight run" "run_err ?run = run_err run"
    by (simp_all add: flight_start_def)
  have quiet: "quiet i run ?run" unfolding quiet_def same st by (simp add: core_def)
  have "places_ok [] ?run"
  proof (rule places_same [OF places quiet])
    show "mset (flights ?run) = mset (flights run)" unfolding same queue by simp
  qed (unfold same st, simp_all)
  moreover have "fl_epoch (rs_flight (run_state ?run i)) \<le> run_completed run" by (simp add: st)
  ultimately have inv': "run_inv [] ?run" using quiet_inv [OF quiet inv i(2)] by blast
  have base: "base ?run j = base run j" for j
    using i out queue unfolding base_def same st by (cases "j = i") auto
  have "potential ?run = potential run"
    unfolding potential_def base same quiet_active [OF quiet] by simp
  then show ?thesis
    using inv' quiet_keeps [OF quiet turns_linked [OF inv] i] by (simp add: advances_def)
qed

lemma worker_finish_advances:
  assumes inv: "run_inv [] run" and running: "run_running run = before @ i # after"
    and finish: "flight_finish lib exec i (run\<lparr>run_running := before @ after, run_jobs := run_jobs run @ [i]\<rparr>) = Some run'"
  shows "advances 0 run run'"
proof -
  let ?mid = "run\<lparr>run_running := before @ after, run_jobs := run_jobs run @ [i]\<rparr>"
  let ?run = run'
  note places = run_invD(2) [OF inv]
  have i: "i < run_size run" "\<not> rs_done (run_state run i)"
    using placesD(2,3) [OF places, of i] running by auto
  note frame = flight_finish_frame [OF finish, simplified]
  have quiet: "quiet i run ?run" using frame unfolding quiet_def by simp
  have "places_ok [] ?run"
  proof (rule places_same [OF places quiet])
    show "mset (flights ?run) = mset (flights run)" unfolding frame running by simp
  qed (unfold frame, simp_all)
  moreover have "fl_epoch (rs_flight (run_state ?run i)) \<le> run_completed run"
    using epoch_bound(1) [OF run_invD(3) [OF inv] i(1)] unfolding frame .
  ultimately have inv': "run_inv [] ?run" using quiet_inv [OF quiet inv i(2)] by blast
  have base: "base ?run j = base run j" for j
  proof -
    have "set (before @ after) \<union> set (run_jobs run @ [i]) = set (run_running run @ run_jobs run)"
      unfolding running by auto
    then have "j \<in> set (run_running ?run @ run_jobs ?run) \<longleftrightarrow> j \<in> set (run_running run @ run_jobs run)"
      unfolding frame by auto
    then show ?thesis
      unfolding base_def frame(2,5,9,12,13) quiet_fields(1-3) [OF quiet] by (simp only:)
  qed
  have "potential ?run = potential run"
    unfolding potential_def base quiet_active [OF quiet] quiet_size [OF quiet] ..
  then show ?thesis
    using inv' quiet_keeps [OF quiet turns_linked [OF inv] i] by (simp add: advances_def)
qed

lemma set_cancel_advances:
  assumes "run_inv [] run"
  shows "advances 0 run (run\<lparr>run_cancel := True\<rparr>)"
proof -
  let ?run = "run\<lparr>run_cancel := True\<rparr>"
  have quiet: "quiet i run ?run" for i by (simp add: quiet_def)
  have "epochs_ok ?run = epochs_ok run" "fresh_ok ?run = fresh_ok run"
    by (simp_all add: epochs_ok_def fresh_ok_def executed_discovered_def obs_current_def)
  moreover have "places_ok [] ?run" by (rule places_same [OF run_invD(2) [OF assms] quiet]) simp_all
  moreover have "potential ?run = potential run"
  proof -
    have "base ?run j = base run j" for j by (simp add: base_def)
    then show ?thesis by (simp add: potential_def active_def)
  qed
  ultimately show ?thesis
    using quiet_counts [OF quiet run_invD(1) [OF assms]] quiet_targets [OF quiet run_invD(4) [OF assms]]
      run_invD(3,5) [OF assms]
    by (simp add: advances_def run_inv_def keeps_def)
qed

lemma worker_advances:
  assumes "run_inv [] run" "pool_worker lib exec run run'"
  shows "advances 0 run run'"
  using assms(2)
  by (rule pool_worker_elim)
    (use assms(1) worker_start_advances worker_finish_advances set_cancel_advances in \<open>(simp; blast) | blast\<close>)+

lemma advances_refl: "run_inv [] run \<Longrightarrow> advances 0 run run"
  by (simp add: advances_def)

lemma advances_compose:
  assumes "run_inv [] run" "advances 0 run mid" "advances 0 mid run'"
  shows "advances 0 run run'"
  using advances_trans [OF turns_linked [OF assms(1)], of mid 0 0 run'] assms(2,3) by (simp add: advances_def)

lemma workers_advance:
  assumes "(pool_worker lib exec)\<^sup>*\<^sup>* run run'" "run_inv [] run"
  shows "advances 0 run run'"
  using assms(1)
proof (induction rule: rtranclp_induct)
  case base
  show ?case using assms(2) by (rule advances_refl)
next
  case (step mid run')
  then have "run_inv [] mid" by (simp add: advances_def)
  then show ?case using advances_compose [OF assms(2) step.IH] worker_advances step.hyps(2) by blast
qed

section \<open>Reached states\<close>

lemma run_after_inv:
  assumes "run_after lib exec start t run" "run_inv [] start"
  shows "run_inv [] run \<and> keeps start run \<and> potential run + t \<le> potential start"
  using assms(1)
proof (induction rule: run_after.induct)
  case run_start
  then show ?case using assms(2) by simp
next
  case (run_worker t run run')
  then have "advances 0 run run'" using worker_advances by blast
  then show ?case
    using run_worker.IH keeps_trans [OF turns_linked [OF assms(2)]] unfolding advances_def by auto
next
  case (turn_next t run run')
  then have "turns run run'" by (metis run_turn_next)
  then show ?case
    using turn_next.IH keeps_trans [OF turns_linked [OF assms(2)]] unfolding turns_def by auto
next
  case (turn_poll t run asleep awake i awake' run')
  have inv: "run_inv [] run" using turn_poll.IH by simp
  have "asleep = cancel_check run" using run_turn_poll [OF inv turn_poll.hyps(2)] by simp
  then have asleep: "advances 0 run asleep" using cancel_check_advances [OF inv] by simp
  then have awake: "advances 0 run awake"
    using advances_compose [OF inv asleep] workers_advance [OF turn_poll.hyps(3)] by (simp add: advances_def)
  then have "run_inv [] awake" by (simp add: advances_def)
  then have "turns awake run'"
    using take_job_turns [OF _ turn_poll.hyps(4), of lib] turn_poll.hyps(5) by (metis option.inject)
  then have "turns run run'" using advances_turns [OF inv awake] by blast
  then show ?case
    using turn_poll.IH keeps_trans [OF turns_linked [OF assms(2)]] unfolding turns_def by auto
qed

section \<open>The start\<close>

definition dag_seeded :: "spn_dag_t \<Rightarrow> bool" where
  "dag_seeded g \<longleftrightarrow> dag_linked g \<and>
     (\<forall>p < length (g_artifacts g). spn_dag_digest_valid (af_digest (spn_dag_find_artifact g p)) \<longleftrightarrow>
        af_producer (spn_dag_find_artifact g p) = None)"

lemma seed_unmet:
  assumes "dag_seeded g" "i < length (g_actions g)"
  shows "rs_pending (seed_state g (spn_dag_find_action g i)) = length (unmet (seed_ready g env c targets) i)"
proof -
  let ?states = "run_states (seed_ready g env c targets)"
  have linked: "dag_linked g" using assms(1) by (simp add: dag_seeded_def)
  have undone: "\<not> rs_done (?states ! q)" if "q < length (g_actions g)" for q
    using that by (simp add: seed_ready_def seed_state_def Let_def)
  have "filter (\<lambda>a. \<not> spn_dag_digest_valid (af_digest (spn_dag_find_artifact g a)))
        (ac_consumes (spn_dag_find_action g i)) =
      filter (\<lambda>p. case af_producer (spn_dag_find_artifact g p) of None \<Rightarrow> False | Some q \<Rightarrow> \<not> rs_done (?states ! q))
        (ac_consumes (spn_dag_find_action g i))"
  proof (intro filter_cong refl)
    fix p assume "p \<in> set (ac_consumes (spn_dag_find_action g i))"
    then have p: "p < length (g_artifacts g)" using dag_linkedD(1) [OF linked assms(2)] by auto
    show "(\<not> spn_dag_digest_valid (af_digest (spn_dag_find_artifact g p))) =
        (case af_producer (spn_dag_find_artifact g p) of None \<Rightarrow> False | Some q \<Rightarrow> \<not> rs_done (?states ! q))"
      using assms(1) p dag_linked_producer [OF linked p] undone
      unfolding dag_seeded_def by (cases "af_producer (spn_dag_find_artifact g p)") auto
  qed
  moreover have "run_g (seed_ready g env c targets) = g" by (simp add: seed_ready_def Let_def)
  ultimately show ?thesis by (simp add: unmet_def seed_state_def)
qed

lemma seed_inv:
  assumes seeded: "dag_seeded g" and targets: "targets_ok (seed_ready g env c targets)"
  shows "run_inv [] (seed_ready g env c targets)"
    "potential (seed_ready g env c targets) \<le> length (g_actions g) * length (g_actions g) + length (g_actions g)"
proof -
  let ?run = "seed_ready g env c targets" and ?n = "length (g_actions g)"
  have linked: "dag_linked g" using seeded by (simp add: dag_seeded_def)
  have same: "run_g ?run = g" "run_queue ?run = []" "run_running ?run = []" "run_jobs ?run = []"
    "run_completed ?run = 0" "run_in_flight ?run = 0" "run_err ?run = None" "length (run_states ?run) = ?n"
    "run_ready ?run = filter (\<lambda>i. rs_pending (run_state ?run i) = 0) [0..<?n]"
    by (simp_all add: seed_ready_def Let_def)
  have st: "run_state ?run j = seed_state g (spn_dag_find_action g j)" if "j < ?n" for j
    using that by (simp add: seed_ready_def Let_def)
  have zero: "rs_deferred (seed_state g a) = 0" "\<not> rs_done (seed_state g a)" "\<not> rs_parked (seed_state g a)"
    "rs_waiters (seed_state g a) = []" "rs_done_epoch (seed_state g a) = 0"
    "fl_epoch (rs_flight (seed_state g a)) = 0" for a
    by (simp_all add: seed_state_def)
  have "waits ?run j = 0" for j
    unfolding waits_def same by (intro sum.neutral) (auto simp: st zero)
  then have counts: "counts_ok ?run"
    unfolding counts_ok_def same
    using linked by (auto simp: st zero seed_unmet [OF seeded])
  have "eligible ?run = set (run_ready ?run)"
    unfolding eligible_def same by (auto simp: st zero)
  then have places: "places_ok [] ?run"
    unfolding places_ok_def using same by (auto simp: st zero)
  have "{j. j < ?n \<and> rs_done (run_state ?run j)} = {}" by (auto simp: st zero)
  then have epochs: "epochs_ok ?run" unfolding epochs_ok_def same by (simp add: st zero)
  have fresh: "fresh_ok ?run" unfolding fresh_ok_def same by (simp add: st zero)
  show "run_inv [] ?run" using counts places epochs targets fresh by (simp add: run_inv_def)
  have active: "active ?run = {..<?n}" unfolding active_def same by (auto simp: st zero)
  have "(\<Sum>j<?n. base ?run j) \<le> (\<Sum>j<?n. 2)"
    by (intro sum_mono) (simp add: base_def same)
  then have "potential ?run \<le> ?n * (?n - 1) + 2 * ?n" unfolding potential_def active same by simp
  also have "\<dots> = ?n * ?n + ?n" by (cases ?n) simp_all
  finally show "potential ?run \<le> ?n * ?n + ?n" .
qed

text \<open>The tables of the targets hold the outputs by their paths and by the directories above
  them.\<close>

definition below_of :: "spn_dag_targets_t \<Rightarrow> spn_path_t \<Rightarrow> nat list" where
  "below_of targets dir = (case ht_get (below targets) dir of None \<Rightarrow> [] | Some ps \<Rightarrow> ps)"

definition output_at :: "spn_path_t \<Rightarrow> spn_dag_target_t \<Rightarrow> spn_dag_artifact_t \<Rightarrow> bool" where
  "output_at path target a \<longleftrightarrow>
     af_producer a = Some (tg_producer target) \<and> af_kind a = tg_kind target \<and>
     af_path a = path \<and> \<not> spn_path_empty path"

definition output_below :: "spn_path_t \<Rightarrow> nat \<Rightarrow> spn_dag_artifact_t \<Rightarrow> bool" where
  "output_below dir i a \<longleftrightarrow>
     af_producer a = Some i \<and> \<not> spn_path_empty (af_path a) \<and> dir \<in> set (ancestors (af_path a))"

definition targets_of :: "spn_dag_artifact_t set \<Rightarrow> spn_dag_targets_t \<Rightarrow> bool" where
  "targets_of A targets \<longleftrightarrow>
     (\<forall>path target. ht_get (by_path targets) path = Some target \<longleftrightarrow> (\<exists>a \<in> A. output_at path target a)) \<and>
     (\<forall>dir i. i \<in> set (below_of targets dir) \<longleftrightarrow> (\<exists>a \<in> A. output_below dir i a))"

lemma push_below_of:
  "below_of (push_below i d targets) dir = below_of targets dir @ (if dir = d then [i] else [])"
  by (auto simp: below_of_def push_below_def split: option.split)

lemma push_below_fold_of:
  "set (below_of (fold (push_below i) dirs targets) dir) =
     set (below_of targets dir) \<union> (if dir \<in> set dirs then {i} else {})"
  by (induction dirs arbitrary: targets) (auto simp: push_below_of)

lemma push_below_by_path [simp]: "by_path (fold (push_below i) dirs targets) = by_path targets"
  by (induction dirs arbitrary: targets) (simp_all add: push_below_def)

lemma target_insert_of:
  assumes "target_insert roots a targets = Some mid" "targets_of A targets"
  shows "targets_of (insert a A) mid"
proof (cases "af_producer a = None \<or> spn_path_empty (af_path a)")
  case True
  then have "mid = targets" using assms(1) by (auto simp: target_insert_def Let_def split: option.splits)
  moreover have "\<not> output_at path target a" "\<not> output_below dir i a" for path target dir i
    using True by (auto simp: output_at_def output_below_def)
  ultimately show ?thesis using assms(2) by (simp add: targets_of_def)
next
  case False
  then obtain i where i: "af_producer a = Some i" and path: "\<not> spn_path_empty (af_path a)" by auto
  let ?t = "\<lparr>tg_producer = i, tg_kind = af_kind a\<rparr>"
  let ?base = "targets\<lparr>by_path := ht_insert (af_path a) ?t (by_path targets)\<rparr>"
  have mid: "mid = fold (push_below i) (ancestors (af_path a)) ?base"
    and free: "ht_get (by_path targets) (af_path a) = None"
    using assms(1) i path by (auto simp: target_insert_def Let_def split: if_splits)
  have none: "\<not> output_at (af_path a) target b" if "b \<in> A" for b target
    using free that assms(2) unfolding targets_of_def by (metis option.distinct(1))
  have "ht_get (by_path mid) path' = Some target \<longleftrightarrow> (\<exists>b \<in> insert a A. output_at path' target b)" for path' target
  proof (cases "path' = af_path a")
    case True
    have "output_at path' target a \<longleftrightarrow> target = ?t"
      using i path True by (cases target) (auto simp: output_at_def)
    then show ?thesis using none True by (auto simp: mid)
  next
    case other: False
    then have "\<not> output_at path' target a" by (auto simp: output_at_def)
    then show ?thesis using other assms(2) by (simp add: mid targets_of_def)
  qed
  moreover have "j \<in> set (below_of mid dir) \<longleftrightarrow> (\<exists>b \<in> insert a A. output_below dir j b)" for j dir
  proof -
    have "below_of ?base dir = below_of targets dir" by (simp add: below_of_def)
    then have "j \<in> set (below_of mid dir) \<longleftrightarrow>
        j \<in> set (below_of targets dir) \<or> dir \<in> set (ancestors (af_path a)) \<and> j = i"
      unfolding mid push_below_fold_of by auto
    moreover have "output_below dir j a \<longleftrightarrow> dir \<in> set (ancestors (af_path a)) \<and> j = i"
      using i path by (auto simp: output_below_def)
    ultimately show ?thesis using assms(2) by (auto simp: targets_of_def)
  qed
  ultimately show ?thesis by (simp add: targets_of_def)
qed

lemma targets_add_of:
  "targets_add roots as targets = Some targets' \<Longrightarrow> targets_of A targets \<Longrightarrow> targets_of (A \<union> set as) targets'"
proof (induction as arbitrary: targets A)
  case (Cons a as)
  then obtain mid where "target_insert roots a targets = Some mid" "targets_add roots as mid = Some targets'"
    by (auto simp: bind_eq_Some_conv)
  then show ?case using Cons.IH [of mid "insert a A"] target_insert_of Cons.prems(2) by simp
qed simp

lemma targets_init_of:
  assumes "targets_init g = Some targets"
  shows "targets_of (set (g_artifacts g)) targets"
proof -
  have "targets_of {} \<lparr>by_path = [], below = []\<rparr>" by (simp add: targets_of_def below_of_def)
  from targets_add_of [OF assms [unfolded targets_init_def] this] show ?thesis by simp
qed

lemma obs_producers_of:
  assumes "targets_init g = Some targets"
  shows "set (obs_producers (g_roots g) targets obs) = observed_producers g obs"
proof -
  note of = targets_init_of [OF assms, unfolded targets_of_def]
  let ?path = "obs_path obs" and ?A = "set (g_artifacts g)"
  have at: "i \<in> set (case ht_get (by_path targets) path of None \<Rightarrow> [] | Some t \<Rightarrow> if P t then [tg_producer t] else []) \<longleftrightarrow>
      (\<exists>a \<in> ?A. \<exists>t. output_at path t a \<and> P t \<and> i = tg_producer t)" for i path P
  proof (cases "ht_get (by_path targets) path")
    case None
    then have "\<not> output_at path t a" if "a \<in> ?A" for t a using of that by (metis option.distinct(1))
    then show ?thesis using None by auto
  next
    case (Some t)
    then have "\<exists>a \<in> ?A. output_at path t a" using of by blast
    moreover have "t' = t" if "a \<in> ?A" "output_at path t' a" for t' a
      using of that Some by (metis option.inject)
    ultimately show ?thesis using Some by auto
  qed
  have key: "(\<exists>t. output_at path t a \<and> Q (tg_kind t) \<and> i = tg_producer t) \<longleftrightarrow>
      af_producer a = Some i \<and> Q (af_kind a) \<and> af_path a = path \<and> \<not> spn_path_empty (af_path a)" for path a Q i
    by (auto simp: output_at_def intro!: exI [of _ "\<lparr>tg_producer = i, tg_kind = af_kind a\<rparr>"])
  have exact: "i \<in> set (case ht_get (by_path targets) ?path of None \<Rightarrow> [] | Some t \<Rightarrow> [tg_producer t]) \<longleftrightarrow>
      (\<exists>a \<in> ?A. af_producer a = Some i \<and> af_path a = ?path \<and> \<not> spn_path_empty (af_path a))" for i
    using at [where i = i and path = ?path and P = "\<lambda>_. True"] key [of ?path _ "\<lambda>_. True"] by simp
  have tree: "i \<in> set (case ht_get (by_path targets) dir of None \<Rightarrow> []
        | Some t \<Rightarrow> if tg_kind t = SPN_DAG_ARTIFACT_KIND_TREE then [tg_producer t] else []) \<longleftrightarrow>
      (\<exists>a \<in> ?A. af_producer a = Some i \<and> af_kind a = SPN_DAG_ARTIFACT_KIND_TREE \<and> af_path a = dir \<and>
         \<not> spn_path_empty (af_path a))" for i dir
    using at [where i = i and path = dir and P = "\<lambda>t. tg_kind t = SPN_DAG_ARTIFACT_KIND_TREE"] key [of dir _ "\<lambda>k. k = SPN_DAG_ARTIFACT_KIND_TREE"]
    by simp
  have below: "i \<in> set (case ht_get (below targets) ?path of None \<Rightarrow> [] | Some ps \<Rightarrow> ps) \<longleftrightarrow>
      (\<exists>a \<in> ?A. output_below ?path i a)" for i
    using of unfolding below_of_def by blast
  have parts: "i \<in> set (obs_producers (g_roots g) targets obs) \<longleftrightarrow>
      \<not> root_pinned (roots_pinned (g_roots g)) ?path \<and>
      (i \<in> set (case ht_get (by_path targets) ?path of None \<Rightarrow> [] | Some t \<Rightarrow> [tg_producer t]) \<or>
       (\<exists>dir \<in> set (ancestors ?path). i \<in> set (case ht_get (by_path targets) dir of None \<Rightarrow> []
          | Some t \<Rightarrow> if tg_kind t = SPN_DAG_ARTIFACT_KIND_TREE then [tg_producer t] else [])) \<or>
       obs_kind obs = SPN_DAG_OBS_ENUMERATION \<and>
         i \<in> set (case ht_get (below targets) ?path of None \<Rightarrow> [] | Some ps \<Rightarrow> ps))" for i
    unfolding obs_producers_def Let_def
    by (simp only: set_append set_concat set_map split: if_split) (simp add: Bex_def)
  have "i \<in> set (obs_producers (g_roots g) targets obs) \<longleftrightarrow>
      (\<exists>a \<in> ?A. af_producer a = Some i \<and> observes (g_roots g) obs a)" for i
    unfolding parts exact tree below output_below_def observes_def by blast
  moreover have "(\<exists>a \<in> ?A. Q a) \<longleftrightarrow> (\<exists>p < length (g_artifacts g). Q (spn_dag_find_artifact g p))" for Q
    by (metis in_set_conv_nth)
  ultimately show ?thesis by (simp add: set_eq_iff observed_producers_def)
qed

lemma targets_init_ok:
  assumes linked: "dag_linked g" and targets: "targets_init g = Some targets"
  shows "targets_ok (seed_ready g env c targets)"
proof -
  have "observed_producers g obs \<subseteq> {..<length (g_actions g)}" for obs
    using dag_linked_producer [OF linked] by (auto simp: observed_producers_def)
  then show ?thesis by (simp add: targets_ok_def seed_ready_def Let_def obs_producers_of [OF targets])
qed

lemma seed_run:
  assumes "dag_seeded g" "targets_init g = Some targets"
  shows "run_inv [] (seed_ready g env c targets)"
    "potential (seed_ready g env c targets) \<le> length (g_actions g) * length (g_actions g) + length (g_actions g)"
  using seed_inv [OF assms(1) targets_init_ok [OF _ assms(2)]] assms(1) by (simp_all add: dag_seeded_def)

end
