(* ===== verification/Dag_Run_Asserts.thy ===== *)
theory Dag_Run_Asserts
  imports Dag_Run_Reach
begin

text \<open>
  The assertions of a run: an action that is looked up or dispatched has inputs with digests, and an
  attempt that is committed was not restored. What is executed leaves valid digests; a digest that is
  not valid can only come from a row of the cache of outputs, whose text may hold any digest.
\<close>

section \<open>Digests of outputs\<close>

abbreviation digests :: "spn_dag_t \<Rightarrow> spn_dag_digest_t list" where
  "digests g \<equiv> map af_digest (g_artifacts g)"

lemma map_update_same: "f (g (xs ! i)) = f (xs ! i) \<Longrightarrow> map f (xs[i := g (xs ! i)]) = map f xs"
  by (cases "i < length xs") (simp_all add: map_update list_update_same_conv list_update_beyond)

lemma set_materialized_digests [simp]: "digests (set_materialized p path g) = digests g"
  by (simp add: set_materialized_def update_artifact_def map_update_same)

lemma set_wrote_digests [simp]: "digests (set_wrote i wrote g) = digests g"
  by (simp add: set_wrote_def update_action_def)

lemma settle_outputs_digests:
  "settle_outputs lib i ps g env = (err, g', env') \<Longrightarrow> digests g' = digests g"
proof (induction lib i ps g env arbitrary: err g' env' rule: settle_outputs.induct)
  case (2 lib i p ps g env)
  let ?a = "spn_dag_find_artifact g p"
  show ?case
  proof (cases "spn_path_empty (af_path ?a)")
    case empty: True
    show ?thesis
    proof (cases "spn_dag_store_locate lib (af_digest ?a) (af_name ?a) env")
      case (Inl err)
      then show ?thesis using "2.prems" empty by (auto simp: Let_def)
    next
      case (Inr path)
      have "settle_outputs lib i ps (set_materialized p path g) env = (err, g', env')"
        using "2.prems" empty Inr by (simp add: Let_def)
      from "2.IH"(1) [OF refl empty Inr this] show ?thesis by simp
    qed
  next
    case nonempty: False
    obtain err1 wrote env1 where settled:
      "(if af_kind ?a = SPN_DAG_ARTIFACT_KIND_TREE then settle_tree lib ?a env else settle_file lib ?a env)
         = ((err1, wrote), env1)" by (metis surj_pair)
    let ?g1 = "if wrote then set_wrote i True g else g"
    have g1: "digests ?g1 = digests g" by simp
    show ?thesis
    proof (cases err1)
      case (Some e)
      then show ?thesis using "2.prems" nonempty settled g1 by (simp add: Let_def)
    next
      case None
      have "settle_outputs lib i ps (set_materialized p (af_path ?a) ?g1) env1 = (err, g', env')"
        using "2.prems" nonempty settled None by (simp add: Let_def)
      from "2.IH"(2) [OF refl nonempty refl settled [symmetric] refl refl _ this]
      show ?thesis using g1 None by simp
    qed
  qed
qed simp

lemma settle_digests: "settle lib i g env = (err, g', env') \<Longrightarrow> digests g' = digests g"
  unfolding settle_def using settle_outputs_digests by fastforce

lemma set_digests_nth:
  "distinct ps \<Longrightarrow> length ds = length ps \<Longrightarrow> set ps \<subseteq> {..<length (g_artifacts g)} \<Longrightarrow> p \<in> set ps \<Longrightarrow>
   af_digest (spn_dag_find_artifact (set_digests ps ds g) p) \<in> set ds"
proof (induction ps ds arbitrary: g rule: list_induct2')
  case (4 q ps d ds)
  let ?g = "set_digest q d g"
  have rest: "set_digests (q # ps) (d # ds) g = set_digests ps ds ?g" by (simp add: set_digests_def)
  have len: "length (g_artifacts ?g) = length (g_artifacts g)"
    by (simp add: set_digest_def update_artifact_def)
  show ?case
  proof (cases "p = q")
    case True
    have "spn_dag_find_artifact (set_digests ps ds h) q = spn_dag_find_artifact h q" if "q \<notin> set ps" for h
      using that
      by (induction ps ds arbitrary: h rule: list_induct2')
        (simp_all add: set_digests_def set_digest_def update_artifact_def)
    moreover have "af_digest (spn_dag_find_artifact ?g q) = d"
      using 4(4) by (simp add: set_digest_def update_artifact_def)
    ultimately show ?thesis using True 4(2) unfolding rest by simp
  next
    case False
    then have "af_digest (spn_dag_find_artifact (set_digests ps ds ?g) p) \<in> set ds"
      using 4 by (intro "4.IH") (auto simp: len)
    then show ?thesis unfolding rest by simp
  qed
qed simp_all

lemma store_put_valid:
  assumes valid: "\<And>bytes. spn_dag_digest_valid (lib_blake3 lib bytes)"
  shows "spn_dag_store_put lib content name env = (err, d, env') \<Longrightarrow> spn_dag_digest_valid d"
  using valid
  by (auto simp: spn_dag_store_put_def spn_dag_digest_def Let_def split: spn_dag_store_kind_t.splits prod.splits if_splits)

lemma put_file_valid:
  assumes valid: "\<And>bytes. spn_dag_digest_valid (lib_blake3 lib bytes)"
  shows "spn_dag_store_put_file lib path name env = (Inr d, env') \<Longrightarrow> spn_dag_digest_valid d"
  using store_put_valid [OF valid] valid
  by (auto simp: spn_dag_store_put_file_def Let_def
      split: option.splits spn_dag_store_kind_t.splits prod.splits if_splits)

lemma put_tree_valid:
  assumes valid: "\<And>bytes. spn_dag_digest_valid (lib_blake3 lib bytes)"
  shows "spn_dag_store_put_tree lib path env = (Inr d, env') \<Longrightarrow> spn_dag_digest_valid d"
  using store_put_valid [OF valid]
  by (auto simp: spn_dag_store_put_tree_def Let_def split: sum.splits prod.splits option.splits)

lemma store_outputs_valid:
  assumes valid: "\<And>bytes. spn_dag_digest_valid (lib_blake3 lib bytes)"
  shows "store_outputs lib g pairs env = (Inr ds, env') \<Longrightarrow>
    length ds = length pairs \<and> (\<forall>d \<in> set ds. spn_dag_digest_valid d)"
proof (induction pairs arbitrary: env ds env')
  case (Cons pair rest)
  obtain p out where pair: "pair = (p, out)" by (cases pair)
  let ?a = "spn_dag_find_artifact g p"
  let ?put = "if af_kind ?a = SPN_DAG_ARTIFACT_KIND_TREE then spn_dag_store_put_tree lib out env
    else spn_dag_store_put_file lib out (af_name ?a) env"
  obtain w d env1 ds' where step: "fs_meta lib out (env_world env) = Inr w" "?put = (Inr d, env1)"
      "store_outputs lib g rest env1 = (Inr ds', env')" "ds = d # ds'"
    using Cons.prems unfolding pair store_outputs.simps Let_def by (auto split: sum.splits prod.splits)
  have "spn_dag_digest_valid d"
    using step(2) put_tree_valid [OF valid] put_file_valid [OF valid] by (auto split: if_splits)
  then show ?case using Cons.IH [OF step(3)] step(4) by simp
qed simp

text \<open>What an execution leaves in its attempt.\<close>

definition outcome_ok :: "spn_dag_t \<Rightarrow> nat \<Rightarrow> spn_dag_flight_t \<Rightarrow> bool" where
  "outcome_ok g i fl \<longleftrightarrow> fl_err fl = None \<longrightarrow> \<not> at_hit (fl_attempt fl) \<longrightarrow>
     length (at_digests (fl_attempt fl)) = length (ac_produces (spn_dag_find_action g i)) \<and>
     (\<forall>d \<in> set (at_digests (fl_attempt fl)). spn_dag_digest_valid d)"

lemma outcome_ok_cong:
  assumes "ac_produces (spn_dag_find_action g' i) = ac_produces (spn_dag_find_action g i)"
    "fl_err fl' = fl_err fl" "fl_attempt fl' = fl_attempt fl"
  shows "outcome_ok g' i fl' = outcome_ok g i fl"
  by (simp add: outcome_ok_def assms)

lemma execute_attempt_outcome:
  assumes valid: "\<And>bytes. spn_dag_digest_valid (lib_blake3 lib bytes)"
    and ex: "execute_attempt lib exec i attempt g env = (None, attempt', env')"
  shows "length (at_digests attempt') = length (ac_produces (spn_dag_find_action g i)) \<and>
    (\<forall>d \<in> set (at_digests attempt'). spn_dag_digest_valid d)"
proof -
  let ?ps = "ac_produces (spn_dag_find_action g i)"
  obtain paths env1 ds env2 where "store_outputs lib g (zip ?ps paths) env1 = (Inr ds, env2)"
      "length paths = length ?ps" "at_digests attempt' = ds"
    using ex unfolding execute_attempt_def Let_def
    by (auto split: prod.splits if_splits option.splits sum.splits)
  then show ?thesis using store_outputs_valid [OF valid] by fastforce
qed

lemma commit_outputs_valid:
  assumes linked: "dag_linked g" "i < length (g_actions g)"
    and commit: "commit lib i attempt g env = Some (None, g', env')"
    and outcome: "length (at_digests attempt) = length (ac_produces (spn_dag_find_action g i))"
      "\<forall>d \<in> set (at_digests attempt). spn_dag_digest_valid d"
    and p: "p \<in> set (ac_produces (spn_dag_find_action g i))"
  shows "spn_dag_digest_valid (af_digest (spn_dag_find_artifact g' p))"
proof -
  let ?ps = "ac_produces (spn_dag_find_action g i)"
  let ?g = "set_digests ?ps (at_digests attempt) g"
  have "\<exists>env err env'. settle lib i ?g env = (err, g', env')"
    using commit unfolding commit_def Let_def
    by (auto split: spn_dag_action_kind_t.splits prod.splits option.splits if_splits)
  then have same: "digests g' = digests ?g" using settle_digests by blast
  have "touches i g ?g" by (rule touches_set_digests) simp
  then have len: "length (g_artifacts ?g) = length (g_artifacts g)" by (rule touches_fields)
  have range: "p < length (g_artifacts g)" using dag_linkedD(2) [OF linked] p by auto
  have "af_digest (spn_dag_find_artifact g' p) = digests g' ! p"
    using range len arg_cong [OF same, of length] by simp
  also have "\<dots> = af_digest (spn_dag_find_artifact ?g p)" using range len by (simp add: same)
  finally have "af_digest (spn_dag_find_artifact g' p) = af_digest (spn_dag_find_artifact ?g p)" .
  moreover have "af_digest (spn_dag_find_artifact ?g p) \<in> set (at_digests attempt)"
    by (rule set_digests_nth [OF dag_linkedD(3) [OF linked] outcome(1) dag_linkedD(2) [OF linked] p])
  ultimately show ?thesis using outcome(2) by simp
qed

section \<open>Steps about one action\<close>

definition view :: "spn_dag_run_state_t \<Rightarrow> bool \<times> bool \<times> spn_dag_err option \<times> spn_dag_attempt_t" where
  "view s = (rs_done s, rs_parked s, fl_err (rs_flight s), fl_attempt (rs_flight s))"

lemma view_eq:
  "view s' = view s \<longleftrightarrow> rs_done s' = rs_done s \<and> rs_parked s' = rs_parked s \<and>
     fl_err (rs_flight s') = fl_err (rs_flight s) \<and> fl_attempt (rs_flight s') = fl_attempt (rs_flight s)"
  by (simp add: view_def)

definition about :: "nat \<Rightarrow> 'w spn_dag_run_t \<Rightarrow> 'w spn_dag_run_t \<Rightarrow> bool" where
  "about i run run' \<longleftrightarrow>
     touches i (run_g run) (run_g run') \<and> length (run_states run') = length (run_states run) \<and>
     (\<forall>j < length (run_states run). j \<noteq> i \<longrightarrow> view (run_state run' j) = view (run_state run j)) \<and>
     set (run_jobs run') \<subseteq> insert i (set (run_jobs run))"

lemma about_trans: "about i a b \<Longrightarrow> about i b c \<Longrightarrow> about i a c"
  using touches_trans unfolding about_def by fastforce

lemma about_fields:
  assumes "touches i (run_g run) (run_g run')" "run_states run' = run_states run"
    "set (run_jobs run') \<subseteq> insert i (set (run_jobs run))"
  shows "about i run run'"
  using assms by (simp add: about_def)

lemma about_update: "about i run (update_state i f run)"
  by (auto simp: about_def update_state_def)

lemma about_flight: "about i run (update_flight i f run)"
  unfolding update_flight_def by (rule about_update)

text \<open>The views of the states, which only steps about the action itself change.\<close>

abbreviation views :: "'w spn_dag_run_t \<Rightarrow> (bool \<times> bool \<times> spn_dag_err option \<times> spn_dag_attempt_t) list" where
  "views run \<equiv> map view (run_states run)"

lemma views_nth:
  "views run' = views run \<Longrightarrow> length (run_states run') = length (run_states run) \<and>
     (\<forall>j < length (run_states run). view (run_state run' j) = view (run_state run j))"
  by (metis length_map nth_map)

lemma about_views:
  assumes "touches i (run_g run) (run_g run')" "views run' = views run"
    "set (run_jobs run') \<subseteq> insert i (set (run_jobs run))"
  shows "about i run run'"
  using assms(1,3) views_nth [OF assms(2)] by (simp add: about_def)

lemma fold_keeps:
  assumes "\<And>x s. f (step x s) = f s"
  shows "f (fold step xs s) = f s"
  by (induction xs arbitrary: s) (simp_all add: assms)

lemma update_state_views: "(\<And>s. view (f s) = view s) \<Longrightarrow> views (update_state j f run) = views run"
  by (simp add: update_state_def map_update_same)

definition frame_of :: "'w spn_dag_run_t \<Rightarrow> spn_dag_t \<times> nat list" where
  "frame_of run = (run_g run, run_jobs run)"

lemma frame_update_state [simp]: "frame_of (update_state j f run) = frame_of run"
  by (simp add: frame_of_def update_state_def)

lemma defer_keeps:
  "(views (fst (defer_producer i epoch p s)), frame_of (fst (defer_producer i epoch p s))) =
   (views (fst s), frame_of (fst s))"
  by (cases s) (simp add: defer_producer_def Let_def update_state_views view_def)

lemma defer_observations_keeps:
  assumes "defer_observations i obs epoch run = (wait, requeue, run')"
  shows "views run' = views run" "frame_of run' = frame_of run"
proof -
  let ?f = "\<lambda>s. (views (fst s), frame_of (fst s))"
  have "?f (fold (defer_producer i epoch) (observed run obs) (run, False)) = ?f (run, False)"
    by (rule fold_keeps [of ?f]) (rule defer_keeps)
  then show "views run' = views run" "frame_of run' = frame_of run"
    using assms by (auto simp: defer_observations_def split: prod.splits)
qed

lemma release_keeps:
  assumes "\<And>f s. view (update f s) = view s"
  shows "(views (release counter update j run), frame_of (release counter update j run)) = (views run, frame_of run)"
  by (simp add: release_def push_ready_def Let_def update_state_views assms frame_of_def update_state_def
      del: update_state_views) (simp add: map_update_same assms)

lemma finish_action_keeps:
  "views (finish_action i run) = views (update_state i (\<lambda>s. s\<lparr>rs_done := True\<rparr>) run)"
  "frame_of (finish_action i run) = frame_of run"
proof -
  let ?f = "\<lambda>run. (views run, frame_of run)"
  let ?mid = "update_state i (\<lambda>s. s\<lparr>rs_done := True, rs_done_epoch := run_completed run + 1\<rparr>)
    (run\<lparr>run_completed := run_completed run + 1\<rparr>)"
  have pending: "?f (release rs_pending rs_pending_update j run) = ?f run" for j and run :: "'a spn_dag_run_t"
    by (rule release_keeps) (simp add: view_def)
  have deferred: "?f (release rs_deferred rs_deferred_update j run) = ?f run" for j and run :: "'a spn_dag_run_t"
    by (rule release_keeps) (simp add: view_def)
  have "?f (finish_action i run) = ?f ?mid"
    unfolding finish_action_def Let_def
    by (simp only: fold_keeps [of ?f, OF pending] fold_keeps [of ?f, OF deferred]) simp
  moreover have "views ?mid = views (update_state i (\<lambda>s. s\<lparr>rs_done := True\<rparr>) run)"
    by (simp add: update_state_def map_update view_def)
  moreover have "frame_of ?mid = frame_of run" by (simp add: frame_of_def update_state_def)
  ultimately show "views (finish_action i run) = views (update_state i (\<lambda>s. s\<lparr>rs_done := True\<rparr>) run)"
    "frame_of (finish_action i run) = frame_of run" by auto
qed

lemma finish_action_view:
  assumes "i < length (run_states run)"
  shows "about i run (finish_action i run)" "rs_done (run_state (finish_action i run) i)"
    "rs_parked (run_state (finish_action i run) i) = rs_parked (run_state run i)"
    "fl_attempt (rs_flight (run_state (finish_action i run) i)) = fl_attempt (rs_flight (run_state run i))"
    "run_g (finish_action i run) = run_g run" "run_jobs (finish_action i run) = run_jobs run"
proof -
  let ?run = "finish_action i run" and ?mid = "update_state i (\<lambda>s. s\<lparr>rs_done := True\<rparr>) run"
  show same: "run_g ?run = run_g run" "run_jobs ?run = run_jobs run"
    using finish_action_keeps(2) [of i run] by (simp_all add: frame_of_def)
  have "about i ?mid ?run"
    by (rule about_views) (auto simp: finish_action_keeps(1) same)
  then show "about i run ?run" using about_trans [OF about_update] by blast
  have "view (run_state ?run i) = view (run_state ?mid i)"
    using views_nth [OF finish_action_keeps(1) [of i run]] assms by (simp add: update_state_def)
  then show "rs_done (run_state ?run i)" "rs_parked (run_state ?run i) = rs_parked (run_state run i)"
    "fl_attempt (rs_flight (run_state ?run i)) = fl_attempt (rs_flight (run_state run i))"
    using assms by (simp_all add: view_def update_state_def)
qed

section \<open>Valid digests\<close>

text \<open>What a run knows of one action: the outcome of its job, that a parked attempt was executed, and
  that an action that was executed and is done has outputs with valid digests.\<close>

definition action_ok :: "'w spn_dag_run_t \<Rightarrow> nat \<Rightarrow> bool" where
  "action_ok run i \<longleftrightarrow>
     (let s = run_state run i; fl = rs_flight s
      in (i \<in> set (run_jobs run) \<longrightarrow> outcome_ok (run_g run) i fl) \<and>
         (rs_parked s \<longrightarrow> \<not> at_hit (fl_attempt fl) \<and> fl_err fl = None \<and> outcome_ok (run_g run) i fl) \<and>
         (rs_done s \<longrightarrow> \<not> at_hit (fl_attempt fl) \<longrightarrow>
            (\<forall>p \<in> set (ac_produces (spn_dag_find_action (run_g run) i)).
               spn_dag_digest_valid (af_digest (spn_dag_find_artifact (run_g run) p)))))"

definition digests_ok :: "'w spn_dag_run_t \<Rightarrow> bool" where
  "digests_ok run \<longleftrightarrow>
     (\<forall>p < length (g_artifacts (run_g run)). af_producer (spn_dag_find_artifact (run_g run) p) = None \<longrightarrow>
        spn_dag_digest_valid (af_digest (spn_dag_find_artifact (run_g run) p))) \<and>
     (\<forall>i < run_size run. action_ok run i)"

lemma action_ok_idle:
  "i \<notin> set (run_jobs run) \<Longrightarrow> \<not> rs_parked (run_state run i) \<Longrightarrow> \<not> rs_done (run_state run i) \<Longrightarrow> action_ok run i"
  by (simp add: action_ok_def Let_def)

lemma about_action_ok:
  assumes linked: "dag_linked (run_g run)" and i: "i < run_size run" and about: "about i run run'"
    and len: "length (run_states run) = run_size run"
    and j: "j < run_size run" "j \<noteq> i" and ok: "action_ok run j"
  shows "action_ok run' j"
proof -
  have touch: "touches i (run_g run) (run_g run')" and view: "view (run_state run' j) = view (run_state run j)"
    and jobs: "j \<in> set (run_jobs run') \<Longrightarrow> j \<in> set (run_jobs run)"
    using about j len by (auto simp: about_def)
  note fields = view [unfolded view_eq]
  have outcome: "outcome_ok (run_g run') j (rs_flight (run_state run' j)) =
      outcome_ok (run_g run) j (rs_flight (run_state run j))"
    by (rule outcome_ok_cong) (use fields touches_fields(12) [OF touch] in simp_all)
  have "spn_dag_find_artifact (run_g run') p = spn_dag_find_artifact (run_g run) p"
    if p: "p \<in> set (ac_produces (spn_dag_find_action (run_g run) j))" for p
  proof (rule touches_digest [OF touch])
    have "p < length (g_artifacts (run_g run))" using dag_linkedD(2) [OF linked j(1)] p by auto
    then show "p \<notin> set (ac_produces (spn_dag_find_action (run_g run) i))"
      using p dag_linkedD(4) [OF linked j(1)] dag_linkedD(4) [OF linked i] j(2) by auto
  qed
  then show ?thesis
    using ok jobs outcome fields touches_fields(12) [OF touch] unfolding action_ok_def Let_def by auto
qed

lemma about_digests_ok:
  assumes linked: "dag_linked (run_g run)" and i: "i < run_size run" and about: "about i run run'"
    and len: "length (run_states run) = run_size run"
    and ok: "digests_ok run" "action_ok run' i"
  shows "digests_ok run'"
proof -
  have touch: "touches i (run_g run) (run_g run')" using about by (simp add: about_def)
  note fields = touches_fields [OF touch]
  have "spn_dag_digest_valid (af_digest (spn_dag_find_artifact (run_g run') p))"
    if p: "p < length (g_artifacts (run_g run))" "af_producer (spn_dag_find_artifact (run_g run) p) = None" for p
  proof -
    have "p \<notin> set (ac_produces (spn_dag_find_action (run_g run) i))"
      using dag_linkedD(4) [OF linked i p(1)] p(2) by simp
    from touches_digest [OF touch this] show ?thesis using ok(1) p by (simp add: digests_ok_def)
  qed
  moreover have "action_ok run' j" if "j < run_size run" for j
    using that about_action_ok [OF linked i about len] ok by (cases "j = i") (auto simp: digests_ok_def)
  ultimately show ?thesis by (simp add: digests_ok_def fields)
qed

end
