(* ===== verification/Dag_Run_Valid.thy ===== *)
theory Dag_Run_Valid
  imports Dag_Run_Asserts
begin

text \<open>
  Every step of a run keeps what is known of the digests, so the assertions on digests can only fail
  for an input that was restored from the cache of outputs with a digest that is not valid.
\<close>

section \<open>Steps of the workers\<close>

lemma digests_ok_same:
  assumes "run_g run' = run_g run" "views run' = views run" "set (run_jobs run') \<subseteq> set (run_jobs run)"
    and "length (run_states run) = run_size run" "digests_ok run"
  shows "digests_ok run'"
proof -
  have views: "view (run_state run' i) = view (run_state run i)" if "i < run_size run" for i
    using views_nth [OF assms(2)] assms(4) that by simp
  have "action_ok run' i" if i: "i < run_size run" for i
  proof -
    note same = views [OF i, unfolded view_eq]
    have "outcome_ok (run_g run') i (rs_flight (run_state run' i)) =
        outcome_ok (run_g run) i (rs_flight (run_state run i))"
      by (rule outcome_ok_cong) (use same assms(1) in simp_all)
    moreover have "action_ok run i" using assms(5) i by (simp add: digests_ok_def)
    ultimately show ?thesis using same assms(1,3) unfolding action_ok_def Let_def by auto
  qed
  then show ?thesis using assms(1,5) by (simp add: digests_ok_def)
qed

lemma inv_size: "run_inv hand run \<Longrightarrow> length (run_states run) = run_size run"
  using counts_okD(2) run_invD(1) by blast

lemma action_step:
  assumes "run_inv hand run" "digests_ok run" "i < run_size run" "about i run run'" "action_ok run' i"
  shows "digests_ok run'"
  using about_digests_ok [OF turns_linked [OF assms(1)] assms(3,4) inv_size [OF assms(1)] assms(2,5)] .

lemma flying:
  assumes "run_inv [] run" "i \<in> set (flights run)"
  shows "i < run_size run" "\<not> rs_done (run_state run i)" "\<not> rs_parked (run_state run i)" "unmet run i = []"
proof -
  note places = run_invD(2) [OF assms(1)]
  have place: "i \<in> set ([] @ run_ready run @ flights run)" using assms(2) by simp
  show i: "i < run_size run" "\<not> rs_done (run_state run i)" using placesD(2,3) [OF places place] .
  show "\<not> rs_parked (run_state run i)" using places_parked(3) [OF places i(1)] assms(2) by blast
  have "rs_pending (run_state run i) = 0" using placesD(4) [OF places place] .
  then show "unmet run i = []" using counts_okD(3) [OF run_invD(1) [OF assms(1)] i(1)] by simp
qed

lemma worker_start_digests:
  assumes inv: "run_inv [] run" and ok: "digests_ok run" and queue: "run_queue run = queue @ [i]"
  shows "digests_ok (flight_start i (run\<lparr>run_queue := queue, run_running := run_running run @ [i]\<rparr>))"
proof -
  have i: "i \<in> set (flights run)" using queue by simp
  have "i \<notin> set (run_jobs run)" using placesD(1) [OF run_invD(2) [OF inv]] queue by auto
  then show ?thesis
  proof (intro digests_ok_same [OF _ _ _ inv_size [OF inv] ok])
    show "views (flight_start i (run\<lparr>run_queue := queue, run_running := run_running run @ [i]\<rparr>)) = views run"
      by (simp add: flight_start_def update_flight_def update_state_views view_def)
  qed (simp_all add: flight_start_def)
qed

lemma worker_finish_digests:
  assumes valid: "\<And>bytes. spn_dag_digest_valid (lib_blake3 lib bytes)"
    and inv: "run_inv [] run" and ok: "digests_ok run" and running: "run_running run = before @ i # after"
    and finish: "flight_finish lib exec i (run\<lparr>run_running := before @ after, run_jobs := run_jobs run @ [i]\<rparr>) = Some run'"
  shows "digests_ok run'"
proof -
  let ?mid = "run\<lparr>run_running := before @ after, run_jobs := run_jobs run @ [i]\<rparr>"
  note frame = flight_finish_frame [OF finish, simplified]
  note fly = flying [OF inv, of i]
  have i: "i < run_size run" "\<not> rs_done (run_state run i)" "\<not> rs_parked (run_state run i)"
    using fly running by auto
  have about: "about i run run'" using frame by (auto simp: about_def)
  obtain f attempt g env env' where look:
      "lookup lib i (fl_attempt (rs_flight (run_state ?mid i))) (run_g ?mid) (run_env ?mid) = Some (attempt, g, env)"
    and result: "run' = update_flight i f (?mid\<lparr>run_g := g, run_env := env'\<rparr>)"
    and hit: "at_hit attempt \<Longrightarrow> f = fl_attempt_update (\<lambda>_. attempt)"
    and miss: "\<not> at_hit attempt \<Longrightarrow> \<exists>err attempt'. execute_attempt lib exec i attempt g env = (err, attempt', env') \<and>
       f = (\<lambda>fl. fl\<lparr>fl_attempt := attempt', fl_err := err\<rparr>)"
    by (rule flight_finish_result [OF finish]) blast
  have len: "i < length (run_states run)" using i(1) inv_size [OF inv] by simp
  have st: "run_g run' = g" "rs_flight (run_state run' i) = f (rs_flight (run_state run i))"
    using len by (simp_all add: result update_flight_state)
  have "outcome_ok g i (f (rs_flight (run_state run i)))"
  proof (cases "at_hit attempt")
    case True
    then show ?thesis using hit by (simp add: outcome_ok_def)
  next
    case False
    then obtain err attempt' where ex: "execute_attempt lib exec i attempt g env = (err, attempt', env')"
      "f = (\<lambda>fl. fl\<lparr>fl_attempt := attempt', fl_err := err\<rparr>)" using miss by blast
    then show ?thesis
      using execute_attempt_outcome [OF valid, of exec i attempt g env attempt' env']
      by (auto simp: outcome_ok_def)
  qed
  moreover have "\<not> rs_done (run_state run' i)" "\<not> rs_parked (run_state run' i)"
    using frame(11) [of i] frame(12) [of i] i by (simp_all add: core_def)
  ultimately have "action_ok run' i" by (simp add: action_ok_def Let_def st)
  then show ?thesis by (rule action_step [OF inv ok i(1) about])
qed

lemma worker_digests:
  assumes valid: "\<And>bytes. spn_dag_digest_valid (lib_blake3 lib bytes)"
    and inv: "run_inv [] run" "digests_ok run" and step: "pool_worker lib exec run run'"
  shows "digests_ok run'"
  using step
proof (cases rule: pool_worker.cases)
  case (worker_start queue i)
  then show ?thesis using worker_start_digests [OF inv] by simp
next
  case (worker_finish before i after)
  then show ?thesis using worker_finish_digests [OF valid inv] by blast
next
  case set_cancel
  then show ?thesis using digests_ok_same [OF _ _ _ inv_size [OF inv(1)] inv(2), of run'] by simp
qed

section \<open>Turns\<close>

text \<open>What the main thread knows of the action in its hand before it commits it.\<close>

definition hand_ok :: "'w spn_dag_run_t \<Rightarrow> nat \<Rightarrow> bool" where
  "hand_ok run i \<longleftrightarrow> outcome_ok (run_g run) i (rs_flight (run_state run i))"

lemma restored_digests:
  assumes inv: "run_inv [i] run" and ok: "digests_ok run" and unparked: "\<not> rs_parked (run_state run i)"
    and hit: "at_hit (fl_attempt (rs_flight (run_state run i)))"
  shows "digests_ok (finish_action i run)"
proof -
  note hand = hand_facts [OF inv]
  note view = finish_action_view [OF hand(12)]
  have "action_ok (finish_action i run) i"
    using hand(9) unparked hit by (simp add: action_ok_def Let_def view(2-6))
  then show ?thesis by (rule action_step [OF inv ok hand(1) view(1)])
qed

lemma commit_digests:
  assumes inv: "run_inv [i] run" and ok: "digests_ok run" and unparked: "\<not> rs_parked (run_state run i)"
    and known: "hand_ok run i" "fl_err (rs_flight (run_state run i)) = None"
    and commit: "run_commit_flight lib i run = Some run'"
  shows "digests_ok run'"
proof -
  note hand = hand_facts [OF inv]
  let ?attempt = "fl_attempt (rs_flight (run_state run i))"
  obtain err g env where step: "commit lib i ?attempt (run_g run) (run_env run) = Some (err, g, env)"
    using commit by (auto simp: run_commit_flight_def split: option.splits)
  let ?mid = "discard lib i (run\<lparr>run_g := g, run_env := env, run_err := err\<rparr>)"
  have run': "run' = (if err \<noteq> None then ?mid else finish_action i ?mid)"
    using commit step by (simp add: run_commit_flight_def Let_def)
  have mid: "run_g ?mid = g" "run_states ?mid = run_states run" "run_jobs ?mid = run_jobs run"
    by (simp_all add: discard_def)
  have about: "about i run ?mid"
    by (rule about_fields) (use commit_touches [OF step] mid in auto)
  show ?thesis
  proof (cases err)
    case (Some e)
    have "action_ok ?mid i" by (rule action_ok_idle) (use hand unparked mid in simp_all)
    then show ?thesis using action_step [OF inv ok hand(1) about] run' Some by simp
  next
    case None
    let ?run = "finish_action i ?mid"
    have len: "i < length (run_states ?mid)" using hand(12) mid by simp
    note view = finish_action_view [OF len]
    have miss: "\<not> at_hit ?attempt" using step by (auto simp: commit_def Let_def split: if_splits)
    have outcome: "length (at_digests ?attempt) = length (ac_produces (spn_dag_find_action (run_g run) i))"
      "\<forall>d \<in> set (at_digests ?attempt). spn_dag_digest_valid d"
      using known miss by (simp_all add: hand_ok_def outcome_ok_def)
    have "spn_dag_digest_valid (af_digest (spn_dag_find_artifact g p))"
      if "p \<in> set (ac_produces (spn_dag_find_action g i))" for p
      using commit_outputs_valid [OF hand(11,1) step [unfolded None] outcome, of p] that
        touches_fields(12) [OF commit_touches [OF step]] by simp
    then have "action_ok ?run i"
      using hand(9) unparked by (simp add: action_ok_def Let_def view(2-6) mid)
    then show ?thesis
      using action_step [OF inv ok hand(1) about_trans [OF about view(1)]] run' None by simp
  qed
qed

lemma defer_digests:
  assumes "run_inv [i] run" "digests_ok run" "defer_observations i obs epoch run = (w, requeue, run')"
  shows "digests_ok run'" "run_g run' = run_g run" "run_jobs run' = run_jobs run"
    "length (run_states run') = length (run_states run)"
    "j < length (run_states run) \<Longrightarrow> view (run_state run' j) = view (run_state run j)"
proof -
  note keeps = defer_observations_keeps [OF assms(3)]
  then show same: "run_g run' = run_g run" "run_jobs run' = run_jobs run" by (simp_all add: frame_of_def)
  show "digests_ok run'" by (rule digests_ok_same [OF _ keeps(1) _ inv_size [OF assms(1)] assms(2)]) (simp_all add: same)
  show "length (run_states run') = length (run_states run)"
    "j < length (run_states run) \<Longrightarrow> view (run_state run' j) = view (run_state run j)"
    using views_nth [OF keeps(1)] by simp_all
qed

lemma discard_about: "about i run (discard lib i run)"
  by (rule about_fields) (auto simp: discard_def)

lemma idle_step:
  assumes inv: "run_inv [i] run" and ok: "digests_ok run" and about: "about i run run'"
    and idle: "i \<notin> set (run_jobs run')" "\<not> rs_parked (run_state run' i)" "\<not> rs_done (run_state run' i)"
  shows "digests_ok run'"
  using action_step [OF inv ok hand_facts(1) [OF inv] about action_ok_idle [OF idle]] .

lemma run_complete_digests:
  assumes inv: "run_inv [i] run" and ok: "digests_ok run" and unparked: "\<not> rs_parked (run_state run i)"
    and known: "hand_ok run i" and complete: "run_complete lib i run = Some run'"
  shows "digests_ok run'"
proof -
  note hand = hand_facts [OF inv]
  let ?fl = "rs_flight (run_state run i)"
  let ?attempt = "fl_attempt ?fl"
  show ?thesis
  proof (cases "run_err run \<noteq> None \<or> fl_err ?fl \<noteq> None")
    case True
    then have "run_g run' = run_g run" "run_states run' = run_states run" "run_jobs run' = run_jobs run"
      using complete by (auto simp: run_complete_def Let_def discard_def split: if_splits)
    then show ?thesis by (intro digests_ok_same [OF _ _ _ inv_size [OF inv] ok]) simp_all
  next
    case clean: False
    show ?thesis
    proof (cases "at_hit ?attempt")
      case True
      then have "run' = finish_action i run" using complete clean by (simp add: run_complete_def Let_def)
      then show ?thesis using restored_digests [OF inv ok unparked True] by simp
    next
      case miss: False
      show ?thesis
      proof (cases "ac_kind (spn_dag_find_action (run_g run) i) = SPN_DAG_ACTION_DISCOVERED")
        case False
        then have "run_commit_flight lib i run = Some run'"
          using complete clean miss by (simp add: run_complete_def Let_def)
        then show ?thesis using commit_digests [OF inv ok unparked known] clean by simp
      next
        case True
        obtain w requeue mid where waited: "defer_observations i (at_obs ?attempt) (fl_epoch ?fl) run = (w, requeue, mid)"
          by (metis surj_pair)
        note step = complete [unfolded run_complete_def Let_def if_not_P [OF clean] if_not_P [OF miss]
            if_P [OF True] waited prod.case]
        note mid = defer_digests [OF inv ok waited]
        have same: "rs_flight (run_state mid i) = ?fl \<or> True" by simp
        note views = mid(5) [OF hand(12), unfolded view_eq]
        have outcome: "outcome_ok (run_g mid) i (rs_flight (run_state mid i))"
          using known outcome_ok_cong [of "run_g mid" i "run_g run" "rs_flight (run_state mid i)" ?fl] views
          by (simp add: hand_ok_def mid(2))
        have len: "length (run_states mid) = run_size mid" using inv_size [OF inv] by (simp add: mid)
        have about: "about i run mid"
          by (rule about_views) (use mid(2,3) defer_observations_keeps(1) [OF waited] in auto)
        show ?thesis
        proof (cases w)
          case True
          let ?park = "update_state i (\<lambda>s. s\<lparr>rs_parked := True\<rparr>) mid"
          have run': "run' = ?park" using step True by simp
          have "action_ok ?park i"
            using outcome views clean miss hand mid len
            by (simp add: action_ok_def Let_def set_parked_state outcome_ok_def)
          then show ?thesis
            using action_step [OF inv ok hand(1) about_trans [OF about about_update]] run' by blast
        next
          case kept: False
          show ?thesis
          proof (cases requeue)
            case True
            then have "run_g run' = run_g mid" "run_states run' = run_states mid" "run_jobs run' = run_jobs mid"
              using step kept by (auto simp: discard_def push_ready_def)
            then show ?thesis by (intro digests_ok_same [OF _ _ _ len mid(1)]) simp_all
          next
            case False
            then have commit: "run_commit_flight lib i mid = Some run'" using step kept by simp
            have settled: "\<forall>p \<in> set (observed run (at_obs ?attempt)). p = i \<or> rs_done (run_state run p)"
            proof (rule ccontr)
              assume some: "\<not> ?thesis"
              show False
                by (rule defer_some [OF inv some, of "fl_epoch ?fl"]) (use waited kept in simp)
            qed
            have "mid = run" using defer_none [OF inv settled, of "fl_epoch ?fl"] waited by simp
            then show ?thesis using commit_digests [OF inv ok unparked known _ commit [unfolded \<open>mid = run\<close>]] clean by simp
          qed
        qed
      qed
    qed
  qed
qed

lemma dispatch_fresh_digests:
  fixes run :: "'w spn_dag_run_t"
  assumes inv: "run_inv [i] run" and ok: "digests_ok run" and unparked: "\<not> rs_parked (run_state run i)"
    and fresh: "dispatch_fresh lib i run = Some run'"
  shows "digests_ok run'"
proof -
  note hand = hand_facts [OF inv]
  let ?f = "\<lambda>fl. fl\<lparr>fl_err := None, fl_attempt := attempt_zero\<lparr>at_digests := at_digests (fl_attempt fl)\<rparr>\<rparr>"
  let ?submit = "\<lambda>run. pool_submit i (update_flight i ?f (run\<lparr>run_in_flight := run_in_flight run + 1\<rparr>))"
  have submit: "digests_ok (?submit mid)"
    if "run_g mid = run_g run" "run_jobs mid = run_jobs run" "views mid = views run" for mid :: "'w spn_dag_run_t"
  proof (rule idle_step [OF inv ok])
    let ?start = "mid\<lparr>run_in_flight := run_in_flight mid + 1\<rparr>"
    have start: "about i run ?start" by (rule about_views) (use that in auto)
    have "about i (update_flight i ?f ?start) (?submit mid)" by (rule about_fields) (auto simp: pool_submit_def)
    then show "about i run (?submit mid)" using about_trans [OF about_trans [OF start about_flight]] by blast
    have "view (run_state mid i) = view (run_state run i)" using views_nth [OF that(3)] hand(12) by simp
    moreover have "i < length (run_states mid)" using views_nth [OF that(3)] hand(12) by simp
    ultimately show "\<not> rs_parked (run_state (?submit mid) i)" "\<not> rs_done (run_state (?submit mid) i)"
      using unparked hand(2) by (simp_all add: pool_submit_def update_flight_state view_eq)
    show "i \<notin> set (run_jobs (?submit mid))" using that hand(9) by (simp add: pool_submit_def)
  qed
  have "run' = ?submit run \<or> (\<exists>env. run' = ?submit (run\<lparr>run_env := env\<rparr>)) \<or>
    (\<exists>env obs requeue w mid. defer_observations i obs (run_completed run) (run\<lparr>run_env := env\<rparr>) = (w, requeue, mid) \<and>
       (run' = mid \<or> run' = ?submit mid))"
    using fresh unfolding dispatch_fresh_def Let_def
    by (auto split: if_splits option.splits prod.splits) blast+
  then consider "run' = ?submit run" | env where "run' = ?submit (run\<lparr>run_env := env\<rparr>)"
    | env obs requeue w mid where
        "defer_observations i obs (run_completed run) (run\<lparr>run_env := env\<rparr>) = (w, requeue, mid)"
        "run' = mid \<or> run' = ?submit mid"
    by blast
  then show ?thesis
  proof cases
    case 1
    then show ?thesis using submit [OF refl refl refl] by simp
  next
    case (2 env)
    then show ?thesis using submit [of "run\<lparr>run_env := env\<rparr>"] by simp
  next
    case 3
    note keeps = defer_observations_keeps [OF 3(1), unfolded frame_of_def]
    have same: "run_g mid = run_g run" "run_jobs mid = run_jobs run" "views mid = views run" using keeps by simp_all
    have "digests_ok mid" by (rule digests_ok_same [OF _ _ _ inv_size [OF inv] ok]) (use same in simp_all)
    then show ?thesis using 3(2) submit [OF same] by blast
  qed
qed

lemma run_dispatch_digests:
  assumes inv: "run_inv [i] run" and ok: "digests_ok run" and dispatch: "run_dispatch lib i run = Some run'"
  shows "digests_ok run'"
proof (cases "rs_parked (run_state run i)")
  case False
  then show ?thesis using dispatch dispatch_fresh_digests [OF inv ok] by (simp add: run_dispatch_def Let_def)
next
  case parked: True
  note hand = hand_facts [OF inv]
  let ?fl = "rs_flight (run_state run i)"
  let ?obs = "at_obs (fl_attempt ?fl)"
  have known: "action_ok run i" using ok hand(1) by (simp add: digests_ok_def)
  obtain w requeue mid where waited: "defer_observations i ?obs (fl_epoch ?fl) run = (w, requeue, mid)"
    by (metis surj_pair)
  note step = dispatch [unfolded run_dispatch_def Let_def if_P [OF parked] waited prod.case]
  show ?thesis
  proof (cases w)
    case True
    then show ?thesis using step defer_digests(1) [OF inv ok waited] by simp
  next
    case kept: False
    have settled: "\<forall>p \<in> set (observed run ?obs). p = i \<or> rs_done (run_state run p)"
    proof (rule ccontr)
      assume some: "\<not> ?thesis"
      show False by (rule defer_some [OF inv some, of "fl_epoch ?fl"]) (use waited kept in simp)
    qed
    have mid: "mid = run" using defer_none [OF inv settled, of "fl_epoch ?fl"] waited by simp
    let ?run = "update_state i (\<lambda>s. s\<lparr>rs_parked := False\<rparr>) run"
    note unpark = unpark_silent [OF inv]
    have st: "rs_flight (run_state ?run i) = ?fl" "\<not> rs_parked (run_state ?run i)"
      using hand(12) by (simp_all add: set_parked_state)
    have ok': "digests_ok ?run"
      by (rule idle_step [OF inv ok about_update]) (use hand st in \<open>simp_all add: set_parked_state\<close>)
    show ?thesis
    proof (cases requeue)
      case False
      then have commit: "run_commit_flight lib i ?run = Some run'" using step kept mid by simp
      have "hand_ok ?run i" "fl_err (rs_flight (run_state ?run i)) = None"
        using known parked st by (simp_all add: action_ok_def Let_def hand_ok_def)
      then show ?thesis using commit_digests [OF unpark(2) ok' st(2)] commit by blast
    next
      case True
      let ?mid = "discard lib i ?run"
      have silent: "silent i ?run ?mid" by (rule silent_discard)
      have inv': "run_inv [i] ?mid" using silent_inv [OF silent unpark(2)] hand_facts(2) [OF unpark(2)] by blast
      have "digests_ok ?mid"
        by (rule digests_ok_same [OF _ _ _ inv_size [OF unpark(2)] ok']) (simp_all add: discard_def)
      moreover have "\<not> rs_parked (run_state ?mid i)" using st(2) by (simp add: discard_def)
      moreover have "dispatch_fresh lib i ?mid = Some run'" using step kept mid True by simp
      ultimately show ?thesis using dispatch_fresh_digests [OF inv'] by blast
    qed
  qed
qed

section \<open>Whole runs\<close>

lemma take_job_digests:
  assumes inv: "run_inv [] run" and ok: "digests_ok run" and poll: "pool_try_poll run = (Some i, run')"
    and take: "take_job lib i run' = Some after"
  shows "digests_ok after"
proof -
  let ?js = "butlast (run_jobs run)"
  let ?mid = "run\<lparr>run_jobs := ?js, run_in_flight := run_in_flight run - 1\<rparr>"
  have jobs: "run_jobs run = ?js @ [i]" and run': "run' = run\<lparr>run_jobs := ?js\<rparr>"
    using poll by (auto simp: pool_try_poll_def split: if_splits)
  note mid = pop_job [OF inv jobs]
  have ok': "digests_ok ?mid"
    by (rule digests_ok_same [OF _ _ _ inv_size [OF inv] ok]) (auto dest: in_set_butlastD)
  have "i \<in> set (run_jobs run)" using jobs by (metis in_set_conv_decomp)
  moreover have "action_ok run i" using ok hand_facts(1) [OF mid(1)] by (simp add: digests_ok_def)
  ultimately have "hand_ok ?mid i" by (simp add: action_ok_def Let_def hand_ok_def)
  moreover have "run_complete lib i ?mid = Some after" using take by (simp add: take_job_def run')
  ultimately show ?thesis using run_complete_digests [OF mid(1) ok' mid(2)] by blast
qed

lemma cancel_digests: "run_inv [] run \<Longrightarrow> digests_ok run \<Longrightarrow> digests_ok (cancel_check run)"
  by (rule digests_ok_same [OF _ _ _ inv_size]) (simp_all add: cancel_check_def)

lemma turn_digests:
  assumes inv: "run_inv [] run" and ok: "digests_ok run" and turn: "run_turn lib run = Some (TURN_NEXT run')"
  shows "digests_ok run'"
proof -
  let ?run = "cancel_check run"
  have inv': "run_inv [] ?run" using cancel_check_advances [OF inv] by (simp add: advances_def)
  have ok': "digests_ok ?run" by (rule cancel_digests [OF inv ok])
  show ?thesis
  proof (cases "run_jobs ?run = []")
    case False
    then obtain i mid where poll: "pool_try_poll ?run = (Some i, mid)" by (simp add: pool_try_poll_def)
    then have "take_job lib i mid = Some run'" using turn by (simp add: run_turn_def Let_def)
    then show ?thesis by (rule take_job_digests [OF inv' ok' poll])
  next
    case True
    let ?i = "last (run_ready ?run)" and ?mid = "?run\<lparr>run_ready := butlast (run_ready ?run)\<rparr>"
    have ready: "run_ready ?run \<noteq> []" and dispatch: "run_dispatch lib ?i ?mid = Some run'"
      using turn True by (auto simp: run_turn_def Let_def pool_try_poll_def split: if_splits)
    have "run_ready ?run = butlast (run_ready ?run) @ [?i]" using ready by simp
    note mid = pop_ready [OF inv' this]
    have "digests_ok ?mid" by (rule digests_ok_same [OF _ _ _ inv_size [OF inv'] ok']) simp_all
    then show ?thesis using run_dispatch_digests [OF mid(1) _ dispatch] by simp
  qed
qed

lemma workers_digests:
  assumes valid: "\<And>bytes. spn_dag_digest_valid (lib_blake3 lib bytes)"
    and "(pool_worker lib exec)\<^sup>*\<^sup>* run run'" "run_inv [] run" "digests_ok run"
  shows "run_inv [] run' \<and> digests_ok run'"
  using assms(2)
proof (induction rule: rtranclp_induct)
  case base
  then show ?case using assms(3,4) by simp
next
  case (step mid run')
  then show ?case using worker_digests [OF valid] worker_advances unfolding advances_def by blast
qed

lemma run_after_digests:
  assumes valid: "\<And>bytes. spn_dag_digest_valid (lib_blake3 lib bytes)"
    and "run_after lib exec start t run" "run_inv [] start" "digests_ok start"
  shows "run_inv [] run \<and> digests_ok run"
  using assms(2)
proof (induction rule: run_after.induct)
  case run_start
  then show ?case using assms(3,4) by simp
next
  case (run_worker t run run')
  then show ?case using worker_digests [OF valid] worker_advances unfolding advances_def by blast
next
  case (turn_next t run run')
  then have "turns run run'" by (metis run_turn_next)
  then show ?case using turn_next turn_digests unfolding turns_def by blast
next
  case (turn_poll t run asleep awake i awake' run')
  have inv: "run_inv [] run" and ok: "digests_ok run" using turn_poll.IH by simp_all
  have "asleep = cancel_check run" using run_turn_poll [OF inv turn_poll.hyps(2)] by simp
  then have "run_inv [] asleep" "digests_ok asleep"
    using cancel_check_advances [OF inv] cancel_digests [OF inv ok] by (simp_all add: advances_def)
  then have awake: "run_inv [] awake" "digests_ok awake"
    using workers_digests [OF valid turn_poll.hyps(3)] by simp_all
  obtain after where "take_job lib i awake' = Some after" "turns awake after"
    by (rule take_job_turns [OF awake(1) turn_poll.hyps(4)])
  then show ?case
    using take_job_digests [OF awake turn_poll.hyps(4,5)] turn_poll.hyps(5) by (simp add: turns_def)
qed

lemma seed_digests:
  assumes "dag_seeded g"
  shows "digests_ok (seed_ready g env c targets)"
proof -
  let ?run = "seed_ready g env c targets"
  have same: "run_g ?run = g" "run_jobs ?run = []" by (simp_all add: seed_ready_def Let_def)
  have "action_ok ?run i" if "i < length (g_actions g)" for i
    by (rule action_ok_idle) (use that in \<open>simp_all add: seed_ready_def seed_state_def Let_def\<close>)
  then show ?thesis using assms by (simp add: digests_ok_def same dag_seeded_def)
qed

section \<open>The assertions\<close>

text \<open>An input that was restored from the cache of outputs with a digest that is not valid.\<close>

definition invalid_restored :: "'w spn_dag_run_t \<Rightarrow> nat \<Rightarrow> nat \<Rightarrow> bool" where
  "invalid_restored run i p \<longleftrightarrow>
     i < run_size run \<and> p \<in> set (ac_consumes (spn_dag_find_action (run_g run) i)) \<and>
     \<not> spn_dag_digest_valid (af_digest (spn_dag_find_artifact (run_g run) p)) \<and>
     (\<exists>q. af_producer (spn_dag_find_artifact (run_g run) p) = Some q \<and> q < run_size run \<and>
        rs_done (run_state run q) \<and> at_hit (fl_attempt (rs_flight (run_state run q))))"

lemma weak_key_some:
  assumes inv: "run_inv hand run" and ok: "digests_ok run" and i: "i < run_size run" "unmet run i = []"
    and restored: "\<And>p. \<not> invalid_restored run i p"
  shows "spn_dag_weak_key blake3 (run_g run) i \<noteq> None"
proof -
  note linked = turns_linked [OF inv]
  have "spn_dag_digest_valid (af_digest (spn_dag_find_artifact (run_g run) p))"
    if p: "p \<in> set (ac_consumes (spn_dag_find_action (run_g run) i))" for p
  proof (rule ccontr)
    assume bad: "\<not> ?thesis"
    have range: "p < length (g_artifacts (run_g run))" using dag_linkedD(1) [OF linked i(1)] p by auto
    obtain q where q: "af_producer (spn_dag_find_artifact (run_g run) p) = Some q"
      using bad range ok by (auto simp: digests_ok_def)
    have size: "q < run_size run" by (rule dag_linked_producer [OF linked range q])
    have made: "rs_done (run_state run q)"
      using i(2) p q unfolding unmet_def filter_empty_conv by auto
    have "p \<in> set (ac_produces (spn_dag_find_action (run_g run) q))"
      using dag_linkedD(4) [OF linked size range] q by simp
    moreover have "action_ok run q" using ok size by (simp add: digests_ok_def)
    ultimately have "at_hit (fl_attempt (rs_flight (run_state run q)))"
      using made bad unfolding action_ok_def Let_def by blast
    then show False using restored [of p] i(1) p bad q size made unfolding invalid_restored_def by blast
  qed
  then show ?thesis by (simp add: spn_dag_weak_key_def inputs_valid_def list_all_iff)
qed

lemma ready_asserts:
  assumes inv: "run_inv [] run" and ok: "digests_ok run" and i: "i \<in> set (run_ready run)"
    and restored: "\<And>p. \<not> invalid_restored run i p"
  shows "dispatch_asserts lib run i"
proof -
  have place: "i \<in> set ([] @ run_ready run @ flights run)" using i by simp
  note place = placesD(2-4) [OF run_invD(2) [OF inv] place]
  have "unmet run i = []" using place(3) counts_okD(3) [OF run_invD(1) [OF inv] place(1)] by simp
  then have "spn_dag_weak_key (lib_blake3 lib) (run_g run) i \<noteq> None"
    by (rule weak_key_some [OF inv ok place(1) _ restored])
  moreover have "action_ok run i" using ok place(1) by (simp add: digests_ok_def)
  ultimately show ?thesis by (simp add: dispatch_asserts_def action_ok_def Let_def)
qed

lemma lookup_some:
  "spn_dag_weak_key (lib_blake3 lib) g i \<noteq> None \<Longrightarrow> lookup lib i attempt g env \<noteq> None"
  by (auto simp: lookup_def split: spn_dag_action_kind_t.split option.split prod.split)

lemma flight_some:
  "spn_dag_weak_key (lib_blake3 lib) (run_g run) i \<noteq> None \<Longrightarrow> flight_finish lib exec i run \<noteq> None"
  using lookup_some [of lib "run_g run" i "fl_attempt (rs_flight (run_state run i))" "run_env run"]
  by (auto simp: flight_finish_def Let_def split: option.splits prod.split)

lemma flight_asserts:
  assumes inv: "run_inv [] run" and ok: "digests_ok run" and i: "i \<in> set (flights run)"
    and restored: "\<And>p. \<not> invalid_restored run i p"
    and same: "run_g mid = run_g run"
  shows "flight_finish lib exec i mid \<noteq> None"
proof -
  note fly = flying [OF inv i]
  have "spn_dag_weak_key (lib_blake3 lib) (run_g mid) i \<noteq> None"
    unfolding same by (rule weak_key_some [OF inv ok fly(1,4) restored])
  then show ?thesis by (rule flight_some)
qed

lemma turn_asserts:
  assumes inv: "run_inv [] run" and ok: "digests_ok run" and restored: "\<And>i p. \<not> invalid_restored run i p"
  shows "run_turn lib run \<noteq> None"
  by (rule run_turn_cases [OF inv, of lib]) (use ready_asserts [OF inv ok _ restored] in auto)

text \<open>The workers neither finish an action nor change the outputs of one that is done.\<close>

lemma worker_restored:
  assumes inv: "run_inv [] run" and step: "pool_worker lib exec run run'"
  shows "invalid_restored run' j p = invalid_restored run j p"
proof -
  have quiet: "\<exists>i. i < run_size run \<and> \<not> rs_done (run_state run i) \<and> quiet i run run' \<and>
      (\<forall>j. j \<noteq> i \<longrightarrow> run_state run' j = run_state run j) \<or> run_g run' = run_g run \<and> run_states run' = run_states run"
    using step
  proof (cases rule: pool_worker.cases)
    case (worker_start queue i)
    have "i \<in> set (flights run)" using worker_start(2) by simp
    note fly = flying [OF inv this]
    have "quiet i run run'" "\<forall>j. j \<noteq> i \<longrightarrow> run_state run' j = run_state run j"
      unfolding worker_start(1) by (auto simp: quiet_def flight_start_def update_flight_state core_def)
    then show ?thesis using fly by blast
  next
    case (worker_finish before i after)
    have "i \<in> set (flights run)" using worker_finish(1) by simp
    note fly = flying [OF inv this]
    note frame = flight_finish_frame [OF worker_finish(2), simplified]
    have "quiet i run run'" using frame unfolding quiet_def by simp
    then show ?thesis using fly frame(14) by blast
  next
    case set_cancel
    then show ?thesis by simp
  qed
  then show ?thesis
  proof (elim exE disjE conjE)
    fix i assume i: "i < run_size run" "\<not> rs_done (run_state run i)" and quiet: "quiet i run run'"
      and states: "\<forall>j. j \<noteq> i \<longrightarrow> run_state run' j = run_state run j"
    note touch = quiet_fields(9) [OF quiet]
    note fields = touches_fields [OF touch]
    note linked = turns_linked [OF inv]
    have same: "spn_dag_find_artifact (run_g run') p = spn_dag_find_artifact (run_g run) p"
      if "j < run_size run" "p \<in> set (ac_consumes (spn_dag_find_action (run_g run) j))"
        "af_producer (spn_dag_find_artifact (run_g run) p) = Some q" "rs_done (run_state run q)" for q
    proof (rule touches_digest [OF touch])
      have "p < length (g_artifacts (run_g run))" using dag_linkedD(1) [OF linked that(1)] that(2) by auto
      then show "p \<notin> set (ac_produces (spn_dag_find_action (run_g run) i))"
        using dag_linkedD(4) [OF linked i(1)] that(3,4) i(2) by auto
    qed
    have state: "rs_done (run_state run' q) = rs_done (run_state run q)"
      "rs_done (run_state run q) \<Longrightarrow> run_state run' q = run_state run q" for q
      using quiet_fields(3) [OF quiet] states i(2) by (simp, metis)
    show ?thesis
      unfolding invalid_restored_def fields(4,8,11) using same state by (metis (no_types, lifting))
  qed (simp add: invalid_restored_def)
qed

lemma workers_restored:
  assumes "(pool_worker lib exec)\<^sup>*\<^sup>* run run'" "run_inv [] run"
  shows "invalid_restored run' j p = invalid_restored run j p"
  using assms(1)
proof (induction rule: rtranclp_induct)
  case (step mid run')
  have "run_inv [] mid" using workers_advance [OF step.hyps(1) assms(2)] by (simp add: advances_def)
  then show ?case using worker_restored step by blast
qed simp

lemma workers_in_flight:
  "(pool_worker lib exec)\<^sup>*\<^sup>* run run' \<Longrightarrow> run_in_flight run' = run_in_flight run"
proof (induction rule: rtranclp_induct)
  case (step mid run')
  have "run_in_flight run' = run_in_flight mid"
    using step.hyps(2)
  proof (cases rule: pool_worker.cases)
    case (worker_finish before i after)
    then show ?thesis using flight_finish_frame(6) [OF worker_finish(2)] by simp
  qed (simp_all add: flight_start_def)
  then show ?case using step.IH by simp
qed simp

end
