(* ===== verification/Dag_Run_Done.thy ===== *)
theory Dag_Run_Done
  imports Dag_Run_Valid
begin

text \<open>
  A run with a pool that has no workers: the loop returns within the turns the code asserts, in a
  state that is also reached by a pool with workers; and a run that leaves actions undone without
  an error has actions that wait for each other in a cycle.
\<close>

section \<open>A pool without workers\<close>

lemma release_running: "run_running (release counter update i run) = run_running run"
  by (simp add: release_def update_state_def push_ready_def Let_def)

lemma finish_running: "run_running (finish_action i run) = run_running run"
  by (simp add: finish_action_def Let_def fold_keeps [of run_running, OF release_running] update_state_def)

lemma defer_running: "run_running (fst (defer_producer i epoch p s)) = run_running (fst s)"
  by (cases s) (simp add: defer_producer_def update_state_def Let_def)

lemma defer_observations_running:
  "defer_observations i obs epoch run = (wait, requeue, run') \<Longrightarrow> run_running run' = run_running run"
  using fold_keeps [of "\<lambda>s. run_running (fst s)" "defer_producer i epoch" "observed run obs" "(run, False)"]
  by (auto simp: defer_observations_def defer_running split: prod.splits)

lemma commit_running: "run_commit_flight lib i run = Some run' \<Longrightarrow> run_running run' = run_running run"
  by (auto simp: run_commit_flight_def discard_def finish_running Let_def split: option.splits prod.splits if_splits)

lemma complete_running: "run_complete lib i run = Some run' \<Longrightarrow> run_running run' = run_running run"
  by (auto simp: run_complete_def discard_def push_ready_def finish_running Let_def
      split: if_splits prod.splits dest!: commit_running defer_observations_running)

lemma take_job_running: "take_job lib i run = Some run' \<Longrightarrow> run_running run' = run_running run"
  by (auto simp: take_job_def dest: complete_running)

lemma dispatch_fresh_running:
  "dispatch_fresh lib i run = Some run' \<Longrightarrow> run_running run' = run_running run"
  by (auto simp: dispatch_fresh_def pool_submit_def Let_def split: if_splits prod.splits option.splits
      dest: defer_observations_running)

lemma dispatch_running: "run_dispatch lib i run = Some run' \<Longrightarrow> run_running run' = run_running run"
  unfolding run_dispatch_def Let_def
  by (auto simp: discard_def split: if_splits prod.splits
      dest!: commit_running defer_observations_running dispatch_fresh_running)

lemma turn_running: "run_turn lib run = Some (TURN_NEXT run') \<Longrightarrow> run_running run' = run_running run"
  by (auto simp: run_turn_def cancel_check_def pool_try_poll_def Let_def
      split: if_splits dest!: dispatch_running take_job_running)

lemma flight_finish_pool:
  "flight_finish lib exec i (run\<lparr>run_running := r, run_jobs := js\<rparr>) =
   map_option (run_running_update (\<lambda>_. r) \<circ> run_jobs_update (\<lambda>_. js)) (flight_finish lib exec i run)"
  by (simp add: flight_finish_def update_flight_def update_state_def Let_def split: option.split prod.split)

lemma flight_start_pool:
  "flight_start i (run\<lparr>run_running := r\<rparr>) = (flight_start i run)\<lparr>run_running := r\<rparr>"
  by (simp add: flight_start_def update_flight_def update_state_def)

text \<open>A step of the pool in the main thread is a worker that takes a job and finishes it.\<close>

lemma pool_step_workers:
  assumes "spn_thread_pool_step lib exec run = Some (Some run')"
  shows "(pool_worker lib exec)\<^sup>*\<^sup>* run run'" "run_jobs run' \<noteq> []" "run_running run' = run_running run"
proof -
  let ?i = "last (run_queue run)"
  let ?popped = "run\<lparr>run_queue := butlast (run_queue run)\<rparr>"
  have queue: "run_queue run = butlast (run_queue run) @ [?i]"
    using assms by (auto simp: spn_thread_pool_step_def split: if_splits)
  obtain r where job: "flight_finish lib exec ?i (flight_start ?i ?popped) = Some r"
    and result: "run' = r\<lparr>run_jobs := run_jobs r @ [?i]\<rparr>"
    using assms by (auto simp: spn_thread_pool_step_def flight_run_def Let_def split: if_splits)
  note frame = flight_finish_frame [OF job]
  let ?mid = "flight_start ?i (run\<lparr>run_queue := butlast (run_queue run), run_running := run_running run @ [?i]\<rparr>)"
  have start: "pool_worker lib exec run ?mid" by (rule worker_start [OF queue])
  have mid: "?mid = (flight_start ?i ?popped)\<lparr>run_running := run_running run @ [?i]\<rparr>"
    using flight_start_pool [of ?i "run_running run @ [?i]" ?popped] by simp
  have running: "run_running ?mid = run_running run @ ?i # []" by (simp add: flight_start_def)
  have jobs: "run_jobs ?mid = run_jobs run" by (simp add: flight_start_def)
  have same: "run_running r = run_running run" "run_jobs r = run_jobs run"
    using frame(3,4) by (simp_all add: flight_start_def)
  have "flight_finish lib exec ?i (?mid\<lparr>run_running := run_running run @ [], run_jobs := run_jobs ?mid @ [?i]\<rparr>) =
      flight_finish lib exec ?i ((flight_start ?i ?popped)\<lparr>run_running := run_running run, run_jobs := run_jobs run @ [?i]\<rparr>)"
    unfolding mid jobs [unfolded mid] by simp
  also have "\<dots> = Some run'"
    unfolding flight_finish_pool job result using same by (cases r) simp
  finally have "pool_worker lib exec ?mid run'" by (rule worker_finish [OF running])
  then show "(pool_worker lib exec)\<^sup>*\<^sup>* run run'"
    using start by (metis converse_rtranclp_into_rtranclp rtranclp.rtrancl_refl)
  show "run_jobs run' \<noteq> []" unfolding result by simp
  show "run_running run' = run_running run" unfolding result using same by simp
qed

lemma pool_poll_returns:
  assumes inv: "run_inv [] run" and idle: "run_jobs run = []" "0 < run_in_flight run" "run_running run = []"
  obtains (stuck) i where "pool_poll lib exec run = None" "i \<in> set (flights run)"
      "spn_dag_weak_key (lib_blake3 lib) (run_g run) i = None"
  | (job) i awake run' where "pool_poll lib exec run = Some (i, run')"
    "(pool_worker lib exec)\<^sup>*\<^sup>* run awake" "pool_try_poll awake = (Some i, run')" "run_running run' = []"
proof -
  have ne: "run_queue run \<noteq> []" using placesD(7) [OF run_invD(2) [OF inv]] idle by auto
  let ?i = "last (run_queue run)"
  let ?start = "flight_start ?i (run\<lparr>run_queue := butlast (run_queue run)\<rparr>)"
  show thesis
  proof (cases "flight_finish lib exec ?i ?start")
    case None
    then have "pool_poll lib exec run = None"
      using ne idle(1) by (simp add: pool_poll_def pool_try_poll_def spn_thread_pool_step_def flight_run_def Let_def)
    moreover have "run_g ?start = run_g run" by (simp add: flight_start_def)
    then have "spn_dag_weak_key (lib_blake3 lib) (run_g run) ?i = None"
      using None flight_some [of lib ?start ?i exec]
      by (cases "spn_dag_weak_key (lib_blake3 lib) (run_g run) ?i") auto
    ultimately show thesis using stuck [of ?i] ne by simp
  next
    case (Some r)
    then obtain awake where step: "spn_thread_pool_step lib exec run = Some (Some awake)"
      using ne by (simp add: spn_thread_pool_step_def flight_run_def Let_def)
    note awake = pool_step_workers [OF step]
    obtain i run' where poll: "pool_try_poll awake = (Some i, run')"
      using awake(2) by (auto simp: pool_try_poll_def)
    have "pool_poll lib exec run = Some (i, run')"
      using idle(1) step poll by (simp add: pool_poll_def pool_try_poll_def split: if_splits)
    moreover have "run_running run' = []"
      using poll awake(3) idle(3) by (auto simp: pool_try_poll_def split: if_splits)
    ultimately show thesis using job awake(1) poll by blast
  qed
qed

section \<open>The loop returns\<close>

text \<open>The loop returns, or fails the assertion on the inputs of an action, and then an input was
  restored from the cache of outputs with a digest that is not valid.\<close>

definition loop_ends ::
    "'w dag_lib \<Rightarrow> 'w spn_dag_exec_fn_t \<Rightarrow> 'w spn_dag_run_t \<Rightarrow> 'w spn_dag_run_t option \<Rightarrow> bool" where
  "loop_ends lib exec start result \<longleftrightarrow>
     (\<exists>t last. run_after lib exec start t last \<and>
        (case result of
           Some final \<Rightarrow> run_turn lib last = Some (TURN_BREAK final)
         | None \<Rightarrow> \<exists>i p. invalid_restored last i p))"

lemma run_loop_returns:
  assumes valid: "\<And>bytes. spn_dag_digest_valid (lib_blake3 lib bytes)"
    and "run_after lib exec start t run" "run_inv [] start" "digests_ok start" "run_running run = []"
    and "potential run < fuel"
  shows "loop_ends lib exec start (run_loop lib exec fuel run)"
  using assms(2,5,6)
proof (induction fuel arbitrary: t run)
  case (Suc fuel)
  have inv: "run_inv [] run" and ok: "digests_ok run"
    using run_after_digests [OF valid Suc.prems(1) assms(3,4)] by blast+
  show ?case
  proof (cases rule: run_turn_cases [OF inv, of lib])
    case (1 run')
    have "run_after lib exec start (Suc t) run'" using turn_next Suc.prems(1) 1(1) by blast
    moreover have "run_running run' = []" using turn_running [OF 1(1)] Suc.prems(2) by simp
    moreover have "potential run' < fuel" using 1(2) Suc.prems(3) by (simp add: turns_def)
    ultimately show ?thesis using Suc.IH 1(1) by simp
  next
    case 2
    let ?asleep = "cancel_check run"
    have advances: "advances 0 run ?asleep" by (rule cancel_check_advances [OF inv])
    then have inv': "run_inv [] ?asleep" by (simp add: advances_def)
    have idle: "run_jobs ?asleep = []" "0 < run_in_flight ?asleep" "run_running ?asleep = []"
      using 2 Suc.prems(2) by (simp_all add: cancel_check_def)
    show ?thesis
    proof (cases rule: pool_poll_returns [OF inv' idle, of lib exec])
      case (1 i)
      have same: "run_g ?asleep = run_g run" "flights ?asleep = flights run" by (simp_all add: cancel_check_def)
      note fly = flying [OF inv 1(2) [unfolded same]]
      obtain p where "invalid_restored run i p"
        using weak_key_some [OF inv ok fly(1,4), of "lib_blake3 lib"] 1(3) unfolding same by blast
      then show ?thesis using 2(1) 1(1) Suc.prems(1) unfolding loop_ends_def by auto
    next
      case poll: (2 i awake run')
      have awake: "advances 0 run awake"
        using advances_compose [OF inv advances workers_advance [OF poll(2) inv']] .
      then have "run_inv [] awake" by (simp add: advances_def)
      then obtain final where final: "take_job lib i run' = Some final" "turns awake final"
        by (rule take_job_turns [OF _ poll(3)])
      have after: "run_after lib exec start (Suc t) final"
        using turn_poll [OF Suc.prems(1) 2(1) poll(2,3) final(1)] .
      have "turns run final" using advances_turns [OF inv awake final(2)] .
      then have "potential final < fuel" using Suc.prems(3) by (simp add: turns_def)
      moreover have "run_running final = []" using take_job_running [OF final(1)] poll(4) by simp
      ultimately show ?thesis using Suc.IH [OF after] poll(1) 2(1) final(1) by simp
    qed
  next
    case 3
    then show ?thesis using Suc.prems(1) unfolding loop_ends_def by auto
  next
    case (4 i)
    obtain p where "invalid_restored run i p" using ready_asserts [OF inv ok 4(2), of lib] 4(3) by blast
    then show ?thesis using 4(1) Suc.prems(1) unfolding loop_ends_def by auto
  qed
qed simp

lemma turns_max_enough: "n * n + n < turns_max n"
  by (simp add: turns_max_def algebra_simps)

lemma run_loop_total:
  assumes valid: "\<And>bytes. spn_dag_digest_valid (lib_blake3 lib bytes)"
    and seeded: "dag_seeded g" "targets_init g = Some targets" and start: "start = seed_ready g env cancel targets"
  shows "loop_ends lib exec start (run_loop lib exec (turns_max (length (g_actions g))) start)"
proof -
  note seed = seed_run [OF seeded, of env cancel, folded start]
  have "run_running start = []" by (simp add: start seed_ready_def Let_def)
  moreover have "potential start < turns_max (length (g_actions g))"
    using seed(2) turns_max_enough by (rule le_less_trans)
  moreover have "digests_ok start" unfolding start by (rule seed_digests [OF seeded(1)])
  ultimately show ?thesis using run_loop_returns [OF valid run_start seed(1)] by blast
qed

section \<open>Stalls\<close>

definition waits_for :: "'w spn_dag_run_t \<Rightarrow> nat \<Rightarrow> nat \<Rightarrow> bool" where
  "waits_for run i j \<longleftrightarrow>
     i < run_size run \<and> \<not> rs_done (run_state run i) \<and> j < run_size run \<and> \<not> rs_done (run_state run j) \<and>
     ((\<exists>p \<in> set (ac_consumes (spn_dag_find_action (run_g run) i)).
         af_producer (spn_dag_find_artifact (run_g run) p) = Some j) \<or>
      i \<in> set (rs_waiters (run_state run j)))"

lemma finite_successors_cycle:
  assumes "finite A" "x \<in> A" "\<And>x. x \<in> A \<Longrightarrow> \<exists>y \<in> A. R x y"
  shows "\<exists>x \<in> A. R\<^sup>+\<^sup>+ x x"
proof (rule ccontr)
  assume none: "\<not> ?thesis"
  let ?r = "{(x, y). x \<in> A \<and> y \<in> A \<and> R x y}"
  have "finite ?r" by (rule finite_subset [of _ "A \<times> A"]) (use assms(1) in auto)
  moreover have "acyclic ?r"
  proof (rule acyclicI, intro allI notI)
    fix x assume "(x, x) \<in> ?r\<^sup>+"
    moreover have "x \<in> A \<and> R\<^sup>+\<^sup>+ x y" if "(x, y) \<in> ?r\<^sup>+" for x y
      using that by (induction rule: trancl_induct) (auto intro: tranclp.trancl_into_trancl)
    ultimately show False using none by blast
  qed
  ultimately have "wf (?r\<inverse>)" by (rule finite_acyclic_wf_converse)
  then obtain z where "z \<in> A" "\<And>y. (y, z) \<in> ?r\<inverse> \<Longrightarrow> y \<notin> A" using assms(2) by (rule wfE_min) blast
  then show False using assms(3) by blast
qed

lemma idle_waits:
  assumes inv: "run_inv [] run" and err: "run_err run = None"
    and idle: "run_ready run = []" "flights run = []" and i: "i \<in> active run"
  shows "\<exists>j \<in> active run. waits_for run i j"
proof -
  note counts = run_invD(1) [OF inv]
  have i: "i < run_size run" "\<not> rs_done (run_state run i)" using i by (auto simp: active_def)
  have "i \<notin> eligible run" using placesD(6) [OF run_invD(2) [OF inv] err, of i] idle by auto
  then consider "0 < rs_pending (run_state run i)" | "0 < rs_deferred (run_state run i)"
    using i by (auto simp: eligible_def)
  then show ?thesis
  proof cases
    case 1
    then have "unmet run i \<noteq> []" using counts_okD(3) [OF counts i(1)] by auto
    then obtain p where p: "p \<in> set (unmet run i)" by (meson last_in_set)
    then obtain j where j: "p \<in> set (ac_consumes (spn_dag_find_action (run_g run) i))"
      "af_producer (spn_dag_find_artifact (run_g run) p) = Some j" "\<not> rs_done (run_state run j)"
      by (auto simp: unmet_def split: option.splits)
    have "p < length (g_artifacts (run_g run))"
      using dag_linkedD(1) [OF counts_okD(1) [OF counts] i(1)] j(1) by auto
    then have "j < run_size run" using dag_linked_producer [OF counts_okD(1) [OF counts]] j(2) by blast
    then show ?thesis using i j by (auto simp: active_def waits_for_def)
  next
    case 2
    then have "waits run i \<noteq> 0" using counts_okD(4) [OF counts i(1)] by simp
    then obtain j where j: "j < run_size run" "\<not> rs_done (run_state run j)"
      "count_list (rs_waiters (run_state run j)) i \<noteq> 0"
      unfolding waits_def by (auto dest: sum.not_neutral_contains_not_neutral)
    then have "i \<in> set (rs_waiters (run_state run j))" by (metis count_list_0_iff)
    then show ?thesis using i j by (auto simp: active_def waits_for_def)
  qed
qed

lemma left_undone:
  assumes inv: "run_inv [] run" and turn: "run_turn lib run = Some (TURN_BREAK final)"
    and err: "run_err final = None"
  shows "(\<forall>i < run_size final. rs_done (run_state final i)) \<or> (\<exists>i. (waits_for final)\<^sup>+\<^sup>+ i i)"
proof (cases "active run = {}")
  case True
  note final = run_turn_break(1) [OF inv turn]
  show ?thesis using True unfolding final by (auto simp: active_def cancel_check_def)
next
  case False
  note final = run_turn_break(1) [OF inv turn] and idle = run_turn_break(2-4) [OF inv turn]
  have same: "final = run" using err unfolding final by (auto simp: cancel_check_def split: if_splits)
  have "run_err run = None" "run_ready run = []" using err idle(3) final same by auto
  moreover have "flights run = []" using placesD(7) [OF run_invD(2) [OF inv]] idle(2) by auto
  moreover obtain x where x: "x \<in> active run" using False by blast
  ultimately have "\<exists>i \<in> active run. (waits_for run)\<^sup>+\<^sup>+ i i"
    using idle_waits [OF inv] by (intro finite_successors_cycle [OF finite_active x]) auto
  then show ?thesis unfolding same by blast
qed

lemma run_end_err:
  assumes "epochs_ok run" "run_err run = None"
  shows "run_err (run_end lib run) =
    (if \<forall>i < run_size run. rs_done (run_state run i) then None else Some SPN_ERR_DAG_STALLED)"
proof -
  let ?n = "run_size run"
  let ?step = "\<lambda>i run. if rs_parked (run_state run i) then discard lib i run else run"
  let ?run = "fold ?step [0..<?n] run"
  have same: "run_err ?run = run_err run" "run_completed ?run = run_completed run" "run_g ?run = run_g run"
    using fold_keeps [of run_err ?step] fold_keeps [of run_completed ?step] fold_keeps [of run_g ?step]
    by (simp_all add: discard_def)
  let ?D = "{j. j < ?n \<and> rs_done (run_state run j)}"
  have completed: "run_completed run = card ?D" using assms(1) by (simp add: epochs_ok_def)
  have "card ?D = ?n \<longleftrightarrow> (\<forall>i < ?n. rs_done (run_state run i))"
  proof
    assume "card ?D = ?n"
    then have "card ?D = card {..<?n}" by simp
    then have "?D = {..<?n}" by (intro card_subset_eq) auto
    then show "\<forall>i < ?n. rs_done (run_state run i)" by auto
  next
    assume "\<forall>i < ?n. rs_done (run_state run i)"
    then have "?D = {..<?n}" by auto
    then show "card ?D = ?n" by simp
  qed
  then show ?thesis
    using assms(2) same completed by (simp add: run_end_def Let_def)
qed

end
