(* ===== verification/Dag_Build.thy ===== *)
theory Dag_Build
  imports Dag_Run_Done
begin

text \<open>
  The graphs that the operations of \<open>dag.c\<close> build, and what a run may rely on: a graph that was
  built, checked and whose sources are read is ready to run, and its run returns.
\<close>

section \<open>Graphs that are built\<close>

text \<open>The paths on which the walk over the directories above a path ends.\<close>

definition path_walkable :: "spn_path_t \<Rightarrow> bool" where
  "path_walkable path \<longleftrightarrow> path_root path = SPN_PATH_ROOT_NONE \<or> take 1 (path_sub path) \<noteq> ''/''"

inductive dag_built :: "path_lib \<Rightarrow> (u8 list \<Rightarrow> spn_dag_digest_t) \<Rightarrow> spn_dag_t \<Rightarrow> bool"
  for lib :: path_lib and blake3 :: "u8 list \<Rightarrow> spn_dag_digest_t" where
  built_new: "dag_built lib blake3 (spn_dag_new roots)"
| built_value: "dag_built lib blake3 g \<Longrightarrow> dag_built lib blake3 (snd (spn_dag_add_value blake3 g bytes))"
| built_file: "dag_built lib blake3 g \<Longrightarrow> path_walkable path \<Longrightarrow>
     dag_built lib blake3 (snd (spn_dag_add_file g path))"
| built_tree: "dag_built lib blake3 g \<Longrightarrow> path_walkable path \<Longrightarrow> \<not> spn_path_empty path \<Longrightarrow>
     dag_built lib blake3 (snd (spn_dag_add_tree g path))"
| built_output: "dag_built lib blake3 g \<Longrightarrow> dag_built lib blake3 (snd (spn_dag_add_output g name))"
| built_action: "dag_built lib blake3 g \<Longrightarrow> dag_built lib blake3 (snd (spn_dag_add_action g config))"
| built_add_input: "dag_built lib blake3 g \<Longrightarrow> i < length (g_actions g) \<Longrightarrow> p < length (g_artifacts g) \<Longrightarrow>
     dag_built lib blake3 (spn_dag_action_add_input g i p)"
| built_add_output: "dag_built lib blake3 g \<Longrightarrow> i < length (g_actions g) \<Longrightarrow> p < length (g_artifacts g) \<Longrightarrow>
     dag_built lib blake3 (snd (spn_dag_action_add_output lib g i p))"

definition artifact_ok :: "spn_dag_t \<Rightarrow> spn_dag_artifact_t \<Rightarrow> bool" where
  "artifact_ok g a \<longleftrightarrow>
     path_walkable (af_path a) \<and>
     (spn_path_empty (af_path a) \<or> ht_get (g_paths g) (af_path a) \<noteq> None) \<and>
     (case af_kind a of
        SPN_DAG_ARTIFACT_KIND_VALUE \<Rightarrow> af_producer a = None \<and> af_name a = [] \<and> af_path a = path_zero \<and>
          spn_dag_digest_valid (af_digest a)
      | SPN_DAG_ARTIFACT_KIND_FILE \<Rightarrow> af_digest a = digest_zero
      | SPN_DAG_ARTIFACT_KIND_TREE \<Rightarrow> af_digest a = digest_zero \<and> \<not> spn_path_empty (af_path a)) \<and>
     (af_producer a \<noteq> None \<longrightarrow> af_name a \<noteq> [] \<and> CHR ''/'' \<notin> set (af_name a) \<and>
        (spn_path_empty (af_path a) \<or> \<not> root_pinned (roots_pinned (g_roots g)) (af_path a)))"

definition dag_ok :: "spn_dag_t \<Rightarrow> bool" where
  "dag_ok g \<longleftrightarrow>
     dag_linked g \<and>
     (\<forall>a \<in> set (g_artifacts g). artifact_ok g a) \<and>
     (\<forall>i < length (g_actions g). distinct (map (\<lambda>p. af_name (spn_dag_find_artifact g p))
        (ac_produces (spn_dag_find_action g i))))"

lemma dag_linkedI:
  assumes "\<And>i. i < length (g_actions g) \<Longrightarrow> set (ac_consumes (spn_dag_find_action g i)) \<subseteq> {..<length (g_artifacts g)}"
    and "\<And>i. i < length (g_actions g) \<Longrightarrow> set (ac_produces (spn_dag_find_action g i)) \<subseteq> {..<length (g_artifacts g)}"
    and "\<And>i. i < length (g_actions g) \<Longrightarrow> distinct (ac_produces (spn_dag_find_action g i))"
    and "\<And>p. p < length (g_artifacts g) \<Longrightarrow> set (af_consumers (spn_dag_find_artifact g p)) \<subseteq> {..<length (g_actions g)}"
    and "\<And>p. p < length (g_artifacts g) \<Longrightarrow>
      pred_option (\<lambda>i. i < length (g_actions g)) (af_producer (spn_dag_find_artifact g p))"
    and "\<And>p i. p < length (g_artifacts g) \<Longrightarrow> i < length (g_actions g) \<Longrightarrow>
      p \<in> set (ac_produces (spn_dag_find_action g i)) \<longleftrightarrow> af_producer (spn_dag_find_artifact g p) = Some i"
    and "\<And>p i. p < length (g_artifacts g) \<Longrightarrow> i < length (g_actions g) \<Longrightarrow>
      count_list (af_consumers (spn_dag_find_artifact g p)) i = count_list (ac_consumes (spn_dag_find_action g i)) p"
  shows "dag_linked g"
  unfolding dag_linked_def Let_def using assms by blast

lemma dag_linkedE:
  assumes "dag_linked g"
  shows "i < length (g_actions g) \<Longrightarrow> p \<in> set (ac_consumes (spn_dag_find_action g i)) \<Longrightarrow> p < length (g_artifacts g)"
    "i < length (g_actions g) \<Longrightarrow> p \<in> set (ac_produces (spn_dag_find_action g i)) \<Longrightarrow> p < length (g_artifacts g)"
    "p < length (g_artifacts g) \<Longrightarrow> i \<in> set (af_consumers (spn_dag_find_artifact g p)) \<Longrightarrow> i < length (g_actions g)"
  using dag_linkedD(1,2) [OF assms, of i] dag_linkedD(6) [OF assms, of _ p] assms
  unfolding dag_linked_def Let_def by blast+

section \<open>Every operation keeps the graph well-formed\<close>

text \<open>A new artifact.\<close>

lemma linked_new_artifact:
  assumes linked: "dag_linked g" and a: "af_consumers a = []" "af_producer a = None"
    and g': "g_artifacts g' = g_artifacts g @ [a]" "g_actions g' = g_actions g"
  shows "dag_linked g'"
proof (rule dag_linkedI)
  let ?m = "length (g_artifacts g)"
  have old: "spn_dag_find_artifact g' p = spn_dag_find_artifact g p" if "p < ?m" for p
    using that by (simp add: g' nth_append)
  have new: "spn_dag_find_artifact g' ?m = a" by (simp add: g')
  have out: "?m \<notin> set (ac_consumes (spn_dag_find_action g i))" "?m \<notin> set (ac_produces (spn_dag_find_action g i))"
    if "i < length (g_actions g)" for i
    using dag_linkedE(1,2) [OF linked that, of ?m] by auto
  fix i p
  show "set (ac_consumes (spn_dag_find_action g' i)) \<subseteq> {..<length (g_artifacts g')}"
    "set (ac_produces (spn_dag_find_action g' i)) \<subseteq> {..<length (g_artifacts g')}"
    "distinct (ac_produces (spn_dag_find_action g' i))" if "i < length (g_actions g')"
    using dag_linkedD(1-3) [OF linked, of i] that by (auto simp: g')
  show "set (af_consumers (spn_dag_find_artifact g' p)) \<subseteq> {..<length (g_actions g')}"
    "pred_option (\<lambda>i. i < length (g_actions g')) (af_producer (spn_dag_find_artifact g' p))"
    if "p < length (g_artifacts g')"
    using that dag_linkedE(3) [OF linked, of p] dag_linked_producer [OF linked, of p] a
    by (cases "p = ?m"; auto simp: g' nth_append less_Suc_eq pred_option_def elim!: option.set_cases)+
  show "p \<in> set (ac_produces (spn_dag_find_action g' i)) \<longleftrightarrow> af_producer (spn_dag_find_artifact g' p) = Some i"
    "count_list (af_consumers (spn_dag_find_artifact g' p)) i = count_list (ac_consumes (spn_dag_find_action g' i)) p"
    if "p < length (g_artifacts g')" "i < length (g_actions g')"
    using that dag_linkedD(4,5) [OF linked, of i p] out [of i] a
    by (cases "p = ?m"; simp add: g' nth_append count_list_0_iff)+
qed

lemma artifact_ok_mono:
  assumes "artifact_ok g a" "g_roots g' = g_roots g"
    and "\<And>path. ht_get (g_paths g) path \<noteq> None \<Longrightarrow> ht_get (g_paths g') path \<noteq> None"
  shows "artifact_ok g' a"
  using assms unfolding artifact_ok_def by auto

lemma ok_new_artifact:
  assumes ok: "dag_ok g" and a: "af_consumers a = []" "af_producer a = None" "artifact_ok g' a"
    and g': "g_artifacts g' = g_artifacts g @ [a]" "g_actions g' = g_actions g" "g_roots g' = g_roots g"
    and paths: "\<And>path. ht_get (g_paths g) path \<noteq> None \<Longrightarrow> ht_get (g_paths g') path \<noteq> None"
  shows "dag_ok g'"
proof -
  have linked: "dag_linked g" using ok by (simp add: dag_ok_def)
  have "map (\<lambda>p. af_name (spn_dag_find_artifact g' p)) (ac_produces (spn_dag_find_action g i)) =
      map (\<lambda>p. af_name (spn_dag_find_artifact g p)) (ac_produces (spn_dag_find_action g i))"
    if "i < length (g_actions g)" for i
    using dag_linkedE(2) [OF linked that] by (simp add: g' nth_append)
  then have "distinct (map (\<lambda>p. af_name (spn_dag_find_artifact g' p)) (ac_produces (spn_dag_find_action g i)))"
    if "i < length (g_actions g)" for i
    using that ok unfolding dag_ok_def by metis
  moreover have "artifact_ok g' b" if "b \<in> set (g_artifacts g)" for b
    using that ok artifact_ok_mono [OF _ g'(3) paths] unfolding dag_ok_def by blast
  ultimately show ?thesis
    using ok a(3) linked_new_artifact [OF linked a(1,2) g'(1,2)] unfolding dag_ok_def g'(1,2) by simp
qed

lemma zero_invalid [simp]: "\<not> spn_dag_digest_valid digest_zero"
  by (simp add: spn_dag_digest_valid_def digest_zero_def list_ex_iff)

lemma path_zero_ok [simp]: "spn_path_empty path_zero" "path_walkable path_zero"
  by (simp_all add: spn_path_empty_def path_zero_def path_walkable_def)

lemma ok_add_path:
  assumes ok: "dag_ok g" and path: "path_walkable path"
    and kind: "kind = SPN_DAG_ARTIFACT_KIND_FILE \<or> kind = SPN_DAG_ARTIFACT_KIND_TREE \<and> \<not> spn_path_empty path"
  shows "dag_ok (snd (spn_dag_add_path g path kind))"
proof -
  let ?a = "(new_artifact kind)\<lparr>af_path := path\<rparr>"
  let ?fresh = "snd (let (i, g') = add_artifact g ?a
     in (i, if ht_get (g_paths g) path = None then g'\<lparr>g_paths := ht_insert path i (g_paths g')\<rparr> else g'))"
  have "dag_ok ?fresh"
  proof (rule ok_new_artifact [OF ok])
    show "g_artifacts ?fresh = g_artifacts g @ [?a]" "g_actions ?fresh = g_actions g" "g_roots ?fresh = g_roots g"
      by (simp_all add: add_artifact_def new_artifact_def)
    show "ht_get (g_paths ?fresh) path' \<noteq> None" if "ht_get (g_paths g) path' \<noteq> None" for path'
      using that by (auto simp: add_artifact_def)
    show "artifact_ok ?fresh ?a"
      using path kind by (auto simp: artifact_ok_def add_artifact_def new_artifact_def)
  qed (simp_all add: new_artifact_def)
  then show ?thesis using ok
    by (cases "ht_get (g_paths g) path") (simp_all add: spn_dag_add_path_def add_artifact_def Let_def)
qed

lemma ok_add_value:
  assumes "dag_ok g" "\<And>bytes. spn_dag_digest_valid (blake3 bytes)"
  shows "dag_ok (snd (spn_dag_add_value blake3 g bytes))"
  by (rule ok_new_artifact [OF assms(1), where a = "(new_artifact SPN_DAG_ARTIFACT_KIND_VALUE)\<lparr>af_digest := blake3 bytes\<rparr>"])
    (simp_all add: spn_dag_add_value_def spn_dag_digest_def add_artifact_def new_artifact_def artifact_ok_def assms(2))

lemma ok_add_output:
  assumes "dag_ok g"
  shows "dag_ok (snd (spn_dag_add_output g name))"
  by (rule ok_new_artifact [OF assms, where a = "(new_artifact SPN_DAG_ARTIFACT_KIND_FILE)\<lparr>af_name := name\<rparr>"])
    (simp_all add: spn_dag_add_output_def add_artifact_def new_artifact_def artifact_ok_def)

lemma ok_add_action:
  assumes ok: "dag_ok g"
  shows "dag_ok (snd (spn_dag_add_action g config))"
proof -
  let ?g = "snd (spn_dag_add_action g config)" and ?n = "length (g_actions g)"
  have linked: "dag_linked g" using ok by (simp add: dag_ok_def)
  have same: "g_artifacts ?g = g_artifacts g" "g_roots ?g = g_roots g" "g_paths ?g = g_paths g"
    "length (g_actions ?g) = Suc ?n"
    by (simp_all add: spn_dag_add_action_def)
  have old: "spn_dag_find_action ?g i = spn_dag_find_action g i" if "i < ?n" for i
    using that by (simp add: spn_dag_add_action_def nth_append)
  have new: "ac_consumes (spn_dag_find_action ?g ?n) = []" "ac_produces (spn_dag_find_action ?g ?n) = []"
    by (simp_all add: spn_dag_add_action_def)
  have out: "?n \<notin> set (af_consumers (spn_dag_find_artifact g p))" "af_producer (spn_dag_find_artifact g p) \<noteq> Some ?n"
    if "p < length (g_artifacts g)" for p
    using dag_linkedE(3) [OF linked that, of ?n] dag_linked_producer [OF linked that, of ?n] by auto
  have "dag_linked ?g"
  proof (rule dag_linkedI)
    fix i p
    show "set (ac_consumes (spn_dag_find_action ?g i)) \<subseteq> {..<length (g_artifacts ?g)}"
      "set (ac_produces (spn_dag_find_action ?g i)) \<subseteq> {..<length (g_artifacts ?g)}"
      "distinct (ac_produces (spn_dag_find_action ?g i))" if "i < length (g_actions ?g)"
      using dag_linkedD(1-3) [OF linked, of i] that old [of i] new
      by (cases "i = ?n"; simp add: same(1,4))+
    show "set (af_consumers (spn_dag_find_artifact ?g p)) \<subseteq> {..<length (g_actions ?g)}"
      "pred_option (\<lambda>i. i < length (g_actions ?g)) (af_producer (spn_dag_find_artifact ?g p))"
      if "p < length (g_artifacts ?g)"
      using that dag_linkedE(3) [OF linked, of p] dag_linked_producer [OF linked, of p]
      by (force simp: same(1,4) pred_option_def less_Suc_eq)+
    show "p \<in> set (ac_produces (spn_dag_find_action ?g i)) \<longleftrightarrow> af_producer (spn_dag_find_artifact ?g p) = Some i"
      "count_list (af_consumers (spn_dag_find_artifact ?g p)) i = count_list (ac_consumes (spn_dag_find_action ?g i)) p"
      if "p < length (g_artifacts ?g)" "i < length (g_actions ?g)"
      using that dag_linkedD(4,5) [OF linked, of i p] out [of p] old [of i] new
      by (cases "i = ?n"; simp add: same(1,4) count_list_0_iff)+
  qed
  moreover have "artifact_ok ?g a" if "a \<in> set (g_artifacts g)" for a
    using that ok artifact_ok_mono [of g a ?g] unfolding dag_ok_def same(2,3) by blast
  moreover have "distinct (map (\<lambda>p. af_name (spn_dag_find_artifact ?g p)) (ac_produces (spn_dag_find_action ?g i)))"
    if "i < Suc ?n" for i
    using that ok old [of i] new unfolding dag_ok_def same(1) by (cases "i = ?n") simp_all
  ultimately show ?thesis unfolding dag_ok_def same(1,4) by blast
qed

text \<open>An update of one artifact and of one action.\<close>

lemma update_artifact_nth:
  "p < length (g_artifacts g) \<Longrightarrow> spn_dag_find_artifact (update_artifact p f g) q =
     (if q = p then f (spn_dag_find_artifact g p) else spn_dag_find_artifact g q)"
  by (simp add: update_artifact_def nth_list_update)

lemma update_action_nth:
  "i < length (g_actions g) \<Longrightarrow> spn_dag_find_action (update_action i f g) j =
     (if j = i then f (spn_dag_find_action g i) else spn_dag_find_action g j)"
  by (simp add: update_action_def nth_list_update)

lemma update_same [simp]:
  "g_actions (update_artifact p f g) = g_actions g" "g_roots (update_artifact p f g) = g_roots g"
  "g_paths (update_artifact p f g) = g_paths g" "length (g_artifacts (update_artifact p f g)) = length (g_artifacts g)"
  "g_artifacts (update_action i h g) = g_artifacts g" "g_roots (update_action i h g) = g_roots g"
  "g_paths (update_action i h g) = g_paths g" "length (g_actions (update_action i h g)) = length (g_actions g)"
  by (simp_all add: update_artifact_def update_action_def)

lemma ok_add_input:
  assumes ok: "dag_ok g" and i: "i < length (g_actions g)" and p: "p < length (g_artifacts g)"
  shows "dag_ok (spn_dag_action_add_input g i p)"
proof -
  let ?g = "spn_dag_action_add_input g i p"
  have linked: "dag_linked g" using ok by (simp add: dag_ok_def)
  have same: "length (g_artifacts ?g) = length (g_artifacts g)" "length (g_actions ?g) = length (g_actions g)"
    "g_roots ?g = g_roots g" "g_paths ?g = g_paths g"
    by (simp_all add: spn_dag_action_add_input_def)
  have art: "spn_dag_find_artifact ?g q = (if q = p then
      (spn_dag_find_artifact g p)\<lparr>af_consumers := af_consumers (spn_dag_find_artifact g p) @ [i]\<rparr>
      else spn_dag_find_artifact g q)" for q
    using p by (simp add: spn_dag_action_add_input_def update_artifact_nth)
  have act: "spn_dag_find_action ?g j = (if j = i then
      (spn_dag_find_action g i)\<lparr>ac_consumes := ac_consumes (spn_dag_find_action g i) @ [p]\<rparr>
      else spn_dag_find_action g j)" for j
    using i by (simp add: spn_dag_action_add_input_def update_action_nth)
  have "dag_linked ?g"
  proof (rule dag_linkedI)
    fix j q
    show "set (ac_consumes (spn_dag_find_action ?g j)) \<subseteq> {..<length (g_artifacts ?g)}"
      "set (ac_produces (spn_dag_find_action ?g j)) \<subseteq> {..<length (g_artifacts ?g)}"
      "distinct (ac_produces (spn_dag_find_action ?g j))" if "j < length (g_actions ?g)"
      using dag_linkedD(1-3) [OF linked, of j] that p unfolding same act by auto
    show "set (af_consumers (spn_dag_find_artifact ?g q)) \<subseteq> {..<length (g_actions ?g)}"
      "pred_option (\<lambda>i. i < length (g_actions ?g)) (af_producer (spn_dag_find_artifact ?g q))"
      if "q < length (g_artifacts ?g)"
      using that dag_linkedE(3) [OF linked, of q] dag_linked_producer [OF linked, of q] i
      unfolding same art by (auto simp: pred_option_def elim!: option.set_cases)
    show "q \<in> set (ac_produces (spn_dag_find_action ?g j)) \<longleftrightarrow> af_producer (spn_dag_find_artifact ?g q) = Some j"
      "count_list (af_consumers (spn_dag_find_artifact ?g q)) j = count_list (ac_consumes (spn_dag_find_action ?g j)) q"
      if "q < length (g_artifacts ?g)" "j < length (g_actions ?g)"
      using that dag_linkedD(4,5) [OF linked, of j q] unfolding same art act by auto
  qed
  moreover have "artifact_ok ?g a" if "a \<in> set (g_artifacts ?g)" for a
  proof -
    have "\<exists>q < length (g_artifacts g). a = spn_dag_find_artifact ?g q"
      using that unfolding in_set_conv_nth same(1) by blast
    then obtain q where q: "q < length (g_artifacts g)" "a = spn_dag_find_artifact ?g q" by blast
    have "artifact_ok g (spn_dag_find_artifact g q)" using ok q(1) by (simp add: dag_ok_def)
    then show ?thesis unfolding q(2) art artifact_ok_def same(3,4)
      by (cases "q = p") (auto split: spn_dag_artifact_kind_t.splits)
  qed
  moreover have "distinct (map (\<lambda>q. af_name (spn_dag_find_artifact ?g q)) (ac_produces (spn_dag_find_action ?g j)))"
    if "j < length (g_actions g)" for j
  proof -
    have "(\<lambda>q. af_name (spn_dag_find_artifact ?g q)) = (\<lambda>q. af_name (spn_dag_find_artifact g q))"
      unfolding art by (simp add: fun_eq_iff)
    then show ?thesis using that ok unfolding act dag_ok_def by simp
  qed
  ultimately show ?thesis unfolding dag_ok_def same by blast
qed

text \<open>The name an output takes, and the output itself.\<close>

lemma ok_set_name:
  assumes ok: "dag_ok g" and p: "p < length (g_artifacts g)"
    and fresh: "af_producer (spn_dag_find_artifact g p) = None"
    and kind: "af_kind (spn_dag_find_artifact g p) = SPN_DAG_ARTIFACT_KIND_VALUE \<Longrightarrow> name = []"
  shows "dag_ok (update_artifact p (\<lambda>a. a\<lparr>af_name := name\<rparr>) g)"
proof -
  let ?g = "update_artifact p (\<lambda>a. a\<lparr>af_name := name\<rparr>) g"
  have linked: "dag_linked g" using ok by (simp add: dag_ok_def)
  note art = update_artifact_nth [OF p]
  have fields: "af_kind (spn_dag_find_artifact ?g q) = af_kind (spn_dag_find_artifact g q)"
    "af_producer (spn_dag_find_artifact ?g q) = af_producer (spn_dag_find_artifact g q)"
    "af_consumers (spn_dag_find_artifact ?g q) = af_consumers (spn_dag_find_artifact g q)"
    "af_path (spn_dag_find_artifact ?g q) = af_path (spn_dag_find_artifact g q)"
    "af_digest (spn_dag_find_artifact ?g q) = af_digest (spn_dag_find_artifact g q)" for q
    by (simp_all add: art)
  have "dag_linked ?g" using linked by (simp add: dag_linked_def Let_def fields)
  moreover have "artifact_ok ?g a" if "a \<in> set (g_artifacts ?g)" for a
  proof -
    have "\<exists>q < length (g_artifacts g). a = spn_dag_find_artifact ?g q"
      using that unfolding in_set_conv_nth update_same(4) by blast
    then obtain q where q: "q < length (g_artifacts g)" "a = spn_dag_find_artifact ?g q" by blast
    have "artifact_ok g (spn_dag_find_artifact g q)" using ok q(1) by (simp add: dag_ok_def)
    then show ?thesis unfolding q(2) artifact_ok_def update_same fields
      using fresh kind by (cases "q = p") (auto simp: art split: spn_dag_artifact_kind_t.splits)
  qed
  moreover have "distinct (map (\<lambda>q. af_name (spn_dag_find_artifact ?g q)) (ac_produces (spn_dag_find_action g j)))"
    if j: "j < length (g_actions g)" for j
  proof -
    have "p \<notin> set (ac_produces (spn_dag_find_action g j))"
      using dag_linkedD(4) [OF linked j p] fresh by simp
    then have "map (\<lambda>q. af_name (spn_dag_find_artifact ?g q)) (ac_produces (spn_dag_find_action g j)) =
        map (\<lambda>q. af_name (spn_dag_find_artifact g q)) (ac_produces (spn_dag_find_action g j))"
      by (auto simp: art)
    then show ?thesis using j ok unfolding dag_ok_def by metis
  qed
  ultimately show ?thesis unfolding dag_ok_def by simp
qed

lemma ok_set_producer:
  assumes ok: "dag_ok g" and i: "i < length (g_actions g)" and p: "p < length (g_artifacts g)"
    and fresh: "af_producer (spn_dag_find_artifact g p) = None"
    and name: "af_name (spn_dag_find_artifact g p) \<noteq> []" "CHR ''/'' \<notin> set (af_name (spn_dag_find_artifact g p))"
    and unpinned: "spn_path_empty (af_path (spn_dag_find_artifact g p)) \<or>
      \<not> root_pinned (roots_pinned (g_roots g)) (af_path (spn_dag_find_artifact g p))"
    and new: "\<forall>q \<in> set (ac_produces (spn_dag_find_action g i)).
      af_name (spn_dag_find_artifact g q) \<noteq> af_name (spn_dag_find_artifact g p)"
  shows "dag_ok (update_action i (\<lambda>a. a\<lparr>ac_produces := ac_produces a @ [p]\<rparr>)
      (update_artifact p (\<lambda>a. a\<lparr>af_producer := Some i\<rparr>) g))" (is "dag_ok ?g")
proof -
  have linked: "dag_linked g" using ok by (simp add: dag_ok_def)
  have same: "length (g_artifacts ?g) = length (g_artifacts g)" "length (g_actions ?g) = length (g_actions g)"
    "g_roots ?g = g_roots g" "g_paths ?g = g_paths g" by simp_all
  have art: "spn_dag_find_artifact ?g q = (if q = p then (spn_dag_find_artifact g p)\<lparr>af_producer := Some i\<rparr>
      else spn_dag_find_artifact g q)" for q
    using p by (simp add: update_artifact_nth)
  have act: "spn_dag_find_action ?g j = (if j = i then
      (spn_dag_find_action g i)\<lparr>ac_produces := ac_produces (spn_dag_find_action g i) @ [p]\<rparr>
      else spn_dag_find_action g j)" for j
    using i by (simp add: update_action_nth)
  have out: "p \<notin> set (ac_produces (spn_dag_find_action g j))" if "j < length (g_actions g)" for j
    using dag_linkedD(4) [OF linked that p] fresh by simp
  have "dag_linked ?g"
  proof (rule dag_linkedI)
    fix j q
    show "set (ac_consumes (spn_dag_find_action ?g j)) \<subseteq> {..<length (g_artifacts ?g)}"
      "set (ac_produces (spn_dag_find_action ?g j)) \<subseteq> {..<length (g_artifacts ?g)}"
      "distinct (ac_produces (spn_dag_find_action ?g j))" if "j < length (g_actions ?g)"
      using dag_linkedD(1-3) [OF linked, of j] that p out [of j] unfolding same act by auto
    show "set (af_consumers (spn_dag_find_artifact ?g q)) \<subseteq> {..<length (g_actions ?g)}"
      "pred_option (\<lambda>i. i < length (g_actions ?g)) (af_producer (spn_dag_find_artifact ?g q))"
      if "q < length (g_artifacts ?g)"
      using that dag_linkedE(3) [OF linked, of q] dag_linked_producer [OF linked, of q] i
      unfolding same art by (auto simp: pred_option_def elim!: option.set_cases)
    show "q \<in> set (ac_produces (spn_dag_find_action ?g j)) \<longleftrightarrow> af_producer (spn_dag_find_artifact ?g q) = Some j"
      "count_list (af_consumers (spn_dag_find_artifact ?g q)) j = count_list (ac_consumes (spn_dag_find_action ?g j)) q"
      if "q < length (g_artifacts ?g)" "j < length (g_actions ?g)"
      using that dag_linkedD(4,5) [OF linked, of j q] fresh out [of j] unfolding same art act by auto
  qed
  moreover have "artifact_ok ?g a" if "a \<in> set (g_artifacts ?g)" for a
  proof -
    have "\<exists>q < length (g_artifacts g). a = spn_dag_find_artifact ?g q"
      using that unfolding in_set_conv_nth same(1) by blast
    then obtain q where q: "q < length (g_artifacts g)" "a = spn_dag_find_artifact ?g q" by blast
    have "artifact_ok g (spn_dag_find_artifact g q)" using ok q(1) by (simp add: dag_ok_def)
    then show ?thesis unfolding q(2) art artifact_ok_def same(3,4)
      using name unpinned by (auto split: spn_dag_artifact_kind_t.splits)
  qed
  moreover have "distinct (map (\<lambda>q. af_name (spn_dag_find_artifact ?g q)) (ac_produces (spn_dag_find_action ?g j)))"
    if "j < length (g_actions g)" for j
  proof -
    have "(\<lambda>q. af_name (spn_dag_find_artifact ?g q)) = (\<lambda>q. af_name (spn_dag_find_artifact g q))"
      unfolding art by (simp add: fun_eq_iff)
    moreover have "distinct (map (\<lambda>q. af_name (spn_dag_find_artifact g q)) (ac_produces (spn_dag_find_action g j)))"
      using that ok by (simp add: dag_ok_def)
    ultimately show ?thesis using new unfolding act by (cases "j = i") auto
  qed
  ultimately show ?thesis unfolding dag_ok_def same by blast
qed

lemma ok_action_add_output:
  assumes ok: "dag_ok g" and i: "i < length (g_actions g)" and p: "p < length (g_artifacts g)"
    and names: "fs_name lib [] = []"
  shows "dag_ok (snd (spn_dag_action_add_output lib g i p))"
proof (cases "af_producer (spn_dag_find_artifact g p)")
  case (Some j)
  then show ?thesis using ok by (simp add: spn_dag_action_add_output_def Let_def)
next
  case fresh: None
  let ?a = "spn_dag_find_artifact g p"
  let ?name = "if af_name ?a = [] then fs_name lib (path_sub (af_path ?a)) else af_name ?a"
  let ?g = "update_artifact p (\<lambda>a. a\<lparr>af_name := ?name\<rparr>) g"
  have a: "artifact_ok g ?a" using ok p by (simp add: dag_ok_def)
  have named: "dag_ok ?g"
    by (rule ok_set_name [OF ok p fresh]) (use a names in \<open>simp add: artifact_ok_def path_zero_def\<close>)
  note art = update_artifact_nth [OF p, of "\<lambda>a. a\<lparr>af_name := ?name\<rparr>"]
  show ?thesis
  proof (cases "(\<not> spn_path_empty (af_path ?a) \<and> root_pinned (roots_pinned (g_roots g)) (af_path ?a)) \<or>
      ?name = [] \<or> CHR ''/'' \<in> set ?name \<or>
      list_ex (\<lambda>q. af_name (spn_dag_find_artifact ?g q) = ?name) (ac_produces (spn_dag_find_action ?g i))")
    case True
    then show ?thesis using ok named fresh
      by (auto simp: spn_dag_action_add_output_def Let_def simp del: update_same(2-))
  next
    case False
    have "dag_ok (update_action i (\<lambda>a. a\<lparr>ac_produces := ac_produces a @ [p]\<rparr>)
        (update_artifact p (\<lambda>a. a\<lparr>af_producer := Some i\<rparr>) ?g))"
      by (rule ok_set_producer [OF named])
        (use False i p fresh in \<open>auto simp: art list_ex_iff\<close>)
    then show ?thesis using False fresh
      by (auto simp: spn_dag_action_add_output_def Let_def)
  qed
qed

lemma built_ok:
  assumes "dag_built lib blake3 g" "\<And>bytes. spn_dag_digest_valid (blake3 bytes)" "fs_name lib [] = []"
  shows "dag_ok g"
  using assms(1)
proof (induction rule: dag_built.induct)
  case (built_new roots)
  show ?case by (simp add: dag_ok_def dag_linked_def spn_dag_new_def)
next
  case (built_file g path)
  then show ?case unfolding spn_dag_add_file_def by (intro ok_add_path) auto
next
  case (built_tree g path)
  then show ?case unfolding spn_dag_add_tree_def by (intro ok_add_path) auto
qed (use assms(2,3) ok_add_value ok_add_output ok_add_action ok_add_input ok_action_add_output in auto)

end
