(* ===== verification/Dag_Ready.thy ===== *)
theory Dag_Ready
  imports Dag_Build
begin

text \<open>
  From a graph that was built to a run that returns: the check of the graph ends, reading the
  sources gives every artifact without a producer its digest, the outputs have one path each, and
  the loop returns.
\<close>

section \<open>Reading the sources\<close>

definition files_ok :: "'w spn_dag_env_t \<Rightarrow> bool" where
  "files_ok env \<longleftrightarrow>
     (\<forall>k m. ht_get (fc_entries (env_files env)) k = Some m \<longrightarrow> spn_dag_digest_valid (fm_digest m))"

lemma files_ok_cong: "fc_entries (env_files env') = fc_entries (env_files env) \<Longrightarrow> files_ok env' = files_ok env"
  by (simp add: files_ok_def)

lemma stat_entries:
  "spn_dag_file_cache_stat lib path env = (r, env') \<Longrightarrow> fc_entries (env_files env') = fc_entries (env_files env)"
  by (auto simp: spn_dag_file_cache_stat_def update_files_def split: option.splits sum.splits)

lemma probe_entries:
  "spn_dag_stamp_probe lib dir env = (r, env') \<Longrightarrow> fc_entries (env_files env') = fc_entries (env_files env)"
  by (auto simp: spn_dag_stamp_probe_def with_world_def Let_def split: prod.splits if_splits sum.splits)

lemma admit_entries:
  "spn_dag_stamp_admit lib mtime env = (r, env') \<Longrightarrow> fc_entries (env_files env') = fc_entries (env_files env)"
  by (auto simp: spn_dag_stamp_admit_def set_stamp_def update_files_def Let_def
      split: prod.splits if_splits sum.splits dest: probe_entries)

lemma files_ok_insert:
  assumes "files_ok env" "spn_dag_digest_valid (fm_digest m)"
    and "fc_entries (env_files env') = ht_insert k m (fc_entries (env_files env))"
  shows "files_ok env'"
  using assms by (auto simp: files_ok_def)

lemma digest_ok:
  assumes digest: "spn_dag_file_cache_digest lib path env = (r, env')" and ok: "files_ok env"
    and valid: "\<And>bytes. spn_dag_digest_valid (lib_blake3 lib bytes)"
  shows "files_ok env'" "r = Inr d \<Longrightarrow> spn_dag_digest_valid d"
proof -
  obtain stat env1 where stat: "spn_dag_file_cache_stat lib path env = (stat, env1)" by (metis surj_pair)
  have ok1: "files_ok env1" using ok files_ok_cong [OF stat_entries [OF stat]] by simp
  have "files_ok env' \<and> (\<forall>d. r = Inr d \<longrightarrow> spn_dag_digest_valid d)"
  proof (cases stat)
    case None
    then show ?thesis using digest stat ok1 by (auto simp: spn_dag_file_cache_digest_def)
  next
    case (Some sys)
    let ?fresh = "file_meta_from_sys sys" and ?c = "env_files env1"
    let ?cached = "case ht_get (fc_entries ?c) (fm_id ?fresh) of
        Some m \<Rightarrow> if file_meta_current m sys then Some m else None | None \<Rightarrow> None"
    let ?hint = "case ht_get (fc_hints ?c) path of
        Some m \<Rightarrow> if file_meta_current m sys \<and> spn_dag_digest_valid (fm_digest m) then Some m else None
      | None \<Rightarrow> None"
    note unfolded = digest [unfolded spn_dag_file_cache_digest_def stat prod.case Some option.case Let_def]
    show ?thesis
    proof (cases ?cached)
      case (Some m)
      then have "ht_get (fc_entries ?c) (fm_id ?fresh) = Some m" by (auto split: option.splits if_splits)
      then have "spn_dag_digest_valid (fm_digest m)" using ok1 by (simp add: files_ok_def)
      then show ?thesis using unfolded Some ok1 by auto
    next
      case no_entry: None
      show ?thesis
      proof (cases ?hint)
        case (Some m)
        let ?m = "m\<lparr>fm_id := (fm_id m)\<lparr>fid_device := sm_device sys\<rparr>\<rparr>"
        have valid: "spn_dag_digest_valid (fm_digest m)" using Some by (auto split: option.splits if_splits)
        have r: "r = Inr (fm_digest m)" "env' = update_files (\<lambda>c. c\<lparr>fc_hints := ht_insert path ?m (fc_hints c),
            fc_entries := ht_insert (fm_id ?m) ?m (fc_entries c)\<rparr>) env1"
          using unfolded Some no_entry by auto
        have "files_ok env'"
          by (rule files_ok_insert [OF ok1, of ?m]) (use valid in \<open>simp_all add: r(2) update_files_def\<close>)
        then show ?thesis using valid r(1) by simp
      next
        case no_hint: None
        obtain recorded env2 where admit:
          "spn_dag_stamp_admit lib (fm_sec ?fresh, fm_nsec ?fresh) env1 = (recorded, env2)" by (metis surj_pair)
        have ok2: "files_ok env2" using ok1 files_ok_cong [OF admit_entries [OF admit]] by simp
        note unfolded = unfolded [unfolded no_entry no_hint option.case admit prod.case]
        show ?thesis
        proof (cases recorded)
          case (Inl err)
          then show ?thesis using unfolded ok2 by auto
        next
          case (Inr flag)
          show ?thesis
          proof (cases "spn_digest_file lib path (env_world env2)")
            case None
            then show ?thesis using unfolded Inr ok2 by auto
          next
            case (Some d)
            have d: "spn_dag_digest_valid d" using Some valid by (auto simp: spn_digest_file_def)
            have r: "r = Inr d" "env' = (if flag then file_cache_record path (?fresh\<lparr>fm_digest := d\<rparr>) env2 else env2)"
              using unfolded Inr Some by auto
            have "files_ok (file_cache_record path (?fresh\<lparr>fm_digest := d\<rparr>) env2)"
              by (rule files_ok_insert [OF ok2, of "?fresh\<lparr>fm_digest := d\<rparr>"])
                (use d in \<open>simp_all add: file_cache_record_def update_files_def\<close>)
            then show ?thesis using r d ok2 by simp
          qed
        qed
      qed
    qed
  qed
  then show "files_ok env'" "r = Inr d \<Longrightarrow> spn_dag_digest_valid d" by auto
qed

text \<open>What reading the sources changes: the digests of files without a producer.\<close>

definition is_source :: "spn_dag_artifact_t \<Rightarrow> bool" where
  "is_source a \<longleftrightarrow> af_kind a = SPN_DAG_ARTIFACT_KIND_FILE \<and> af_producer a = None"

definition seeds :: "nat set \<Rightarrow> spn_dag_t \<Rightarrow> spn_dag_t \<Rightarrow> bool" where
  "seeds A g g' \<longleftrightarrow>
     g_roots g' = g_roots g \<and> g_paths g' = g_paths g \<and> g_actions g' = g_actions g \<and>
     length (g_artifacts g') = length (g_artifacts g) \<and>
     (\<forall>p. artifact_shape (spn_dag_find_artifact g' p) = artifact_shape (spn_dag_find_artifact g p)) \<and>
     (\<forall>p. p \<notin> A \<or> \<not> is_source (spn_dag_find_artifact g p) \<longrightarrow>
        af_digest (spn_dag_find_artifact g' p) = af_digest (spn_dag_find_artifact g p)) \<and>
     (\<forall>p \<in> A. is_source (spn_dag_find_artifact g p) \<and> p < length (g_artifacts g) \<longrightarrow>
        spn_dag_digest_valid (af_digest (spn_dag_find_artifact g' p)))"

lemma seeds_source:
  assumes "seeds A g g'"
  shows "is_source (spn_dag_find_artifact g' p) = is_source (spn_dag_find_artifact g p)"
  using artifact_shape_fields assms unfolding seeds_def is_source_def by metis

lemma seeds_empty: "seeds {} g g"
  by (simp add: seeds_def)

lemma seeds_one:
  assumes "is_source (spn_dag_find_artifact g p)" "spn_dag_digest_valid d" "p < length (g_artifacts g)"
  shows "seeds {p} g (set_digest p d (set_materialized p path g))"
  using assms by (auto simp: seeds_def set_digest_def set_materialized_def update_artifact_def nth_list_update
      artifact_shape_def)

lemma seeds_trans:
  assumes "seeds A g g'" "seeds B g' g''"
  shows "seeds (A \<union> B) g g''"
  using assms seeds_source [OF assms(1)] unfolding seeds_def by (auto simp: Un_iff)

lemma seed_from_ok:
  assumes "seed_from lib ps g env = (None, g', env')" "files_ok env" "set ps \<subseteq> {..<length (g_artifacts g)}"
    and valid: "\<And>bytes. spn_dag_digest_valid (lib_blake3 lib bytes)"
  shows "seeds (set ps) g g'"
  using assms(1-3)
proof (induction ps arbitrary: g env)
  case Nil
  then show ?case by (simp add: seeds_empty)
next
  case (Cons p ps)
  let ?a = "spn_dag_find_artifact g p"
  have p: "p < length (g_artifacts g)" using Cons.prems(3) by simp
  show ?case
  proof (cases "is_source ?a")
    case False
    then have "seed_from lib ps g env = (None, g', env')"
      using Cons.prems(1) by (auto simp: is_source_def Let_def split: if_splits)
    then have "seeds (set ps) g g'" using Cons by simp
    then show ?thesis using False unfolding seeds_def by auto
  next
    case source: True
    then have cond: "af_kind ?a = SPN_DAG_ARTIFACT_KIND_FILE \<and> af_producer ?a = None" by (simp add: is_source_def)
    obtain d env1 where step: "seed_from lib ps (set_digest p d (set_materialized p (af_path ?a) g)) env1 = (None, g', env')"
      "spn_dag_digest_valid d" "files_ok env1"
    proof (cases "root_pinned (roots_pinned (g_roots g)) (af_path ?a)")
      case True
      then show thesis
        using that [of "spn_dag_path_digest (lib_blake3 lib) (af_path ?a)" env] Cons.prems(1,2) cond valid
        by (simp add: spn_dag_path_digest_def spn_dag_hash_final_def Let_def)
    next
      case False
      let ?g = "set_materialized p (af_path ?a) g"
      obtain err g1 env1 where seed: "seed_source lib p g env = (err, g1, env1)" by (metis surj_pair)
      then have none: "err = None" and rest: "seed_from lib ps g1 env1 = (None, g', env')"
        using Cons.prems(1) cond False by (auto simp: Let_def split: option.splits)
      obtain stat env2 where stat: "spn_dag_file_cache_stat lib (af_path ?a) env = (stat, env2)" by (metis surj_pair)
      have ok2: "files_ok env2" using Cons.prems(2) files_ok_cong [OF stat_entries [OF stat]] by simp
      obtain r env3 where digest: "spn_dag_file_cache_digest lib (af_path ?a) env2 = (r, env3)" by (metis surj_pair)
      obtain d where d: "r = Inr d" "g1 = set_digest p d ?g" "env1 = env3"
        using seed none stat digest
        by (auto simp: seed_source_def Let_def split: option.splits if_splits sum.splits)
      show thesis
        using that [of d env1] rest d digest_ok [OF digest ok2 valid] by simp
    qed
    let ?mid = "set_digest p d (set_materialized p (af_path ?a) g)"
    have one: "seeds {p} g ?mid" by (rule seeds_one [OF source step(2) p])
    have "set ps \<subseteq> {..<length (g_artifacts ?mid)}"
      using Cons.prems(3) one by (simp add: seeds_def)
    then have "seeds (set ps) ?mid g'" using Cons.IH [OF step(1,3)] by blast
    then show ?thesis using seeds_trans [OF one] by simp
  qed
qed

lemma seed_sources_ok:
  assumes seed: "seed_sources lib g env = (None, g', env')" and ok: "dag_ok g" and files: "files_ok env"
    and valid: "\<And>bytes. spn_dag_digest_valid (lib_blake3 lib bytes)"
    and trees: "\<forall>a \<in> set (g_artifacts g). af_kind a = SPN_DAG_ARTIFACT_KIND_TREE \<longrightarrow> af_producer a \<noteq> None"
  shows "dag_seeded g'" "seeds {..<length (g_artifacts g)} g g'"
proof -
  show seeds: "seeds {..<length (g_artifacts g)} g g'"
    using seed_from_ok [OF seed [unfolded seed_sources_def] files _ valid] by (simp add: lessThan_atLeast0)
  then have same: "g_actions g' = g_actions g" "length (g_artifacts g') = length (g_artifacts g)"
    and shape: "artifact_shape (spn_dag_find_artifact g' p) = artifact_shape (spn_dag_find_artifact g p)" for p
    by (simp_all add: seeds_def)
  note fields = artifact_shape_fields [OF shape]
  have linked: "dag_linked g'"
    using ok by (simp add: dag_ok_def dag_linked_def Let_def same fields)
  have "spn_dag_digest_valid (af_digest (spn_dag_find_artifact g' p)) \<longleftrightarrow> af_producer (spn_dag_find_artifact g' p) = None"
    if p: "p < length (g_artifacts g')" for p
  proof -
    let ?a = "spn_dag_find_artifact g p"
    have a: "?a \<in> set (g_artifacts g)" using p same(2) by simp
    then have ok': "artifact_ok g ?a" using ok by (simp add: dag_ok_def)
    show ?thesis
    proof (cases "is_source ?a")
      case True
      then have "spn_dag_digest_valid (af_digest (spn_dag_find_artifact g' p))"
        using seeds p same(2) unfolding seeds_def by (metis lessThan_iff)
      then show ?thesis using True fields by (simp add: is_source_def)
    next
      case False
      then have digest: "af_digest (spn_dag_find_artifact g' p) = af_digest ?a"
        using seeds unfolding seeds_def by blast
      show ?thesis
      proof (cases "af_kind ?a")
        case SPN_DAG_ARTIFACT_KIND_VALUE
        then show ?thesis using ok' fields digest by (simp add: artifact_ok_def)
      next
        case SPN_DAG_ARTIFACT_KIND_FILE
        then show ?thesis using ok' fields digest False by (simp add: artifact_ok_def is_source_def)
      next
        case SPN_DAG_ARTIFACT_KIND_TREE
        then show ?thesis using ok' fields digest trees a by (simp add: artifact_ok_def)
      qed
    qed
  qed
  then show "dag_seeded g'" using linked by (simp add: dag_seeded_def)
qed

section \<open>The check of the graph\<close>

lemma takeWhile_shorter: "x \<in> set xs \<Longrightarrow> \<not> P x \<Longrightarrow> length (takeWhile P xs) < length xs"
  by (induction xs) auto

lemma parent_walkable:
  assumes "path_root path \<noteq> SPN_PATH_ROOT_NONE" "path_walkable path"
  shows "path_root (spn_path_parent path) \<noteq> SPN_PATH_ROOT_NONE" "path_walkable (spn_path_parent path)"
    "path_sub path \<noteq> [] \<Longrightarrow> length (path_sub (spn_path_parent path)) < length (path_sub path)"
proof -
  let ?sub = "path_sub path"
  let ?k = "length ?sub - 1 - length (takeWhile (\<lambda>c. c \<noteq> CHR ''/'') (rev ?sub))"
  have walk: "take 1 ?sub \<noteq> ''/''" using assms by (simp add: path_walkable_def)
  have front: "?k \<noteq> 0" if slash: "CHR ''/'' \<in> set ?sub"
  proof
    assume zero: "?k = 0"
    let ?pre = "takeWhile (\<lambda>c. c \<noteq> CHR ''/'') (rev ?sub)"
    have len: "length ?pre < length ?sub"
      using takeWhile_shorter [of "CHR ''/''" "rev ?sub" "\<lambda>c. c \<noteq> CHR ''/''"] slash by simp
    then have pre: "length ?pre = length ?sub - 1" using zero by simp
    have "rev ?sub ! length ?pre = CHR ''/''"
      using nth_length_takeWhile [of "\<lambda>c. c \<noteq> CHR ''/''" "rev ?sub"] len by simp
    then have "?sub ! 0 = CHR ''/''" using pre len by (simp add: rev_nth)
    then show False using walk len by (cases ?sub) auto
  qed
  show root: "path_root (spn_path_parent path) \<noteq> SPN_PATH_ROOT_NONE"
    using assms(1) by (simp add: spn_path_parent_def Let_def)
  have sub: "path_sub (spn_path_parent path) = (if CHR ''/'' \<in> set ?sub then take ?k ?sub else [])"
    using front by (simp add: spn_path_parent_def Let_def)
  show "path_walkable (spn_path_parent path)"
    using walk front unfolding path_walkable_def sub by (cases ?sub) (auto simp: take_Cons')
  show "length (path_sub (spn_path_parent path)) < length ?sub" if "?sub \<noteq> []"
    using that unfolding sub by auto
qed

lemma tree_above_some:
  "length (path_sub dir) < fuel \<Longrightarrow> path_root dir \<noteq> SPN_PATH_ROOT_NONE \<Longrightarrow> path_walkable dir \<Longrightarrow>
   tree_above fuel g dir \<noteq> None"
proof (induction fuel arbitrary: dir)
  case (Suc fuel)
  show ?case
  proof (cases "path_sub dir = []")
    case False
    have "tree_above fuel g (spn_path_parent dir) \<noteq> None"
      using Suc.IH parent_walkable [OF Suc.prems(2,3)] False Suc.prems(1) by simp
    then show ?thesis using False by (auto split: option.split intro: exI [of _ True])
  qed simp
qed simp

lemma check_artifact_some:
  assumes ok: "dag_ok g" and i: "i < length (g_artifacts g)"
  shows "check_artifact lib g i \<noteq> None"
proof -
  let ?a = "spn_dag_find_artifact g i" and ?path = "af_path (spn_dag_find_artifact g i)"
  have a: "artifact_ok g ?a" using ok i by (simp add: dag_ok_def)
  then have walk: "path_walkable ?path" and index: "spn_path_empty ?path \<or> ht_get (g_paths g) ?path \<noteq> None"
    by (simp_all add: artifact_ok_def)
  have "tree_above (Suc (length (path_sub ?path))) g (spn_path_parent ?path) \<noteq> None"
    if "path_root ?path \<noteq> SPN_PATH_ROOT_NONE"
  proof (rule tree_above_some)
    show "length (path_sub (spn_path_parent ?path)) < Suc (length (path_sub ?path))"
      using parent_walkable(3) [OF that walk] by (cases "path_sub ?path = []") (auto simp: spn_path_parent_def Let_def)
  qed (use parent_walkable [OF that walk] in auto)
  then show ?thesis using index by (auto simp: check_artifact_def Let_def split: option.split)
qed

lemma validate_from_some:
  assumes "dag_ok g" "set is \<subseteq> {..<length (g_artifacts g)}"
  shows "validate_from lib g is \<noteq> None"
  using assms(2)
proof (induction "is")
  case (Cons i "is")
  then show ?case using check_artifact_some [OF assms(1), of i lib] by (auto split: option.split)
qed simp

lemma validate_from_none:
  "validate_from lib g is = Some None \<Longrightarrow> i \<in> set is \<Longrightarrow> check_artifact lib g i = Some None"
  by (induction "is") (auto split: option.splits)

lemma validate_ok:
  assumes "spn_dag_validate lib g = Some None" "i < length (g_artifacts g)"
    and "\<not> spn_path_empty (af_path (spn_dag_find_artifact g i))"
  shows "ht_get (g_paths g) (af_path (spn_dag_find_artifact g i)) = Some i"
    "af_kind (spn_dag_find_artifact g i) = SPN_DAG_ARTIFACT_KIND_TREE \<Longrightarrow>
     af_producer (spn_dag_find_artifact g i) \<noteq> None"
proof -
  have "check_artifact lib g i = Some None"
    using validate_from_none assms(1,2) unfolding spn_dag_validate_def by fastforce
  then show "ht_get (g_paths g) (af_path (spn_dag_find_artifact g i)) = Some i"
    "af_kind (spn_dag_find_artifact g i) = SPN_DAG_ARTIFACT_KIND_TREE \<Longrightarrow>
     af_producer (spn_dag_find_artifact g i) \<noteq> None"
    using assms(3) by (auto simp: check_artifact_def Let_def split: option.splits if_splits)
qed

section \<open>The targets\<close>

lemma targets_add_some:
  assumes "distinct (map af_path (filter (\<lambda>a. \<not> spn_path_empty (af_path a)) as))"
    and "\<forall>a \<in> set as. af_producer a \<noteq> None \<longrightarrow> spn_path_empty (af_path a) \<or> \<not> root_pinned (roots_pinned roots) (af_path a)"
    and "\<forall>a \<in> set as. \<not> spn_path_empty (af_path a) \<longrightarrow> ht_get (by_path targets) (af_path a) = None"
  shows "\<exists>targets'. targets_add roots as targets = Some targets'"
  using assms
proof (induction as arbitrary: targets)
  case (Cons a as)
  obtain mid where mid: "target_insert roots a targets = Some mid"
    "ht_get (by_path mid) path = ht_get (by_path targets) path \<or> (\<not> spn_path_empty (af_path a) \<and> path = af_path a)" for path
  proof (cases "af_producer a")
    case None
    then show thesis using that [of targets] by (simp add: target_insert_def)
  next
    case (Some i)
    show thesis
    proof (cases "spn_path_empty (af_path a)")
      case True
      then show thesis using Some that [of targets] by (simp add: target_insert_def Let_def)
    next
      case False
      then have "\<not> root_pinned (roots_pinned roots) (af_path a)" "ht_get (by_path targets) (af_path a) = None"
        using Cons.prems(2,3) Some by auto
      then show thesis using Some False
        by (intro that [of "fold (push_below i) (ancestors (af_path a))
              (targets\<lparr>by_path := ht_insert (af_path a) \<lparr>tg_producer = i, tg_kind = af_kind a\<rparr> (by_path targets)\<rparr>)"])
          (auto simp: target_insert_def Let_def push_below_by_path)
    qed
  qed
  have "\<exists>targets'. targets_add roots as mid = Some targets'"
  proof (rule Cons.IH)
    show "distinct (map af_path (filter (\<lambda>a. \<not> spn_path_empty (af_path a)) as))"
      using Cons.prems(1) by (cases "spn_path_empty (af_path a)") simp_all
    show "\<forall>b \<in> set as. \<not> spn_path_empty (af_path b) \<longrightarrow> ht_get (by_path mid) (af_path b) = None"
    proof (intro ballI impI)
      fix b assume b: "b \<in> set as" "\<not> spn_path_empty (af_path b)"
      then have "af_path b \<noteq> af_path a" if "\<not> spn_path_empty (af_path a)"
        using Cons.prems(1) that b by (auto simp: image_iff)
      then show "ht_get (by_path mid) (af_path b) = None"
        using mid(2) [of "af_path b"] Cons.prems(3) b by auto
    qed
  qed (use Cons.prems(2) in auto)
  then show ?case using mid(1) by simp
qed simp

lemma targets_init_some:
  assumes ok: "dag_ok g" and valid: "spn_dag_validate lib g = Some None" and seeds: "seeds A g g'"
  shows "\<exists>targets. targets_init g' = Some targets"
  unfolding targets_init_def
proof (rule targets_add_some)
  let ?arts = "g_artifacts g'"
  have len: "length ?arts = length (g_artifacts g)" and roots: "g_roots g' = g_roots g"
    and shape: "artifact_shape (spn_dag_find_artifact g' p) = artifact_shape (spn_dag_find_artifact g p)" for p
    using seeds by (simp_all add: seeds_def)
  note fields = artifact_shape_fields [OF shape]
  have unique: "i = j" if "i < length ?arts" "j < length ?arts" "\<not> spn_path_empty (af_path (?arts ! i))"
    "af_path (?arts ! i) = af_path (?arts ! j)" for i j
    using validate_ok(1) [OF valid, of i] validate_ok(1) [OF valid, of j] that fields len by simp
  show "distinct (map af_path (filter (\<lambda>a. \<not> spn_path_empty (af_path a)) ?arts))"
  proof -
    have "distinct (map af_path (filter (\<lambda>a. \<not> spn_path_empty (af_path a)) as))"
      if "\<And>i j. i < length as \<Longrightarrow> j < length as \<Longrightarrow> \<not> spn_path_empty (af_path (as ! i)) \<Longrightarrow>
        af_path (as ! i) = af_path (as ! j) \<Longrightarrow> i = j" for as
      using that
    proof (induction as)
      case (Cons a as)
      have "distinct (map af_path (filter (\<lambda>a. \<not> spn_path_empty (af_path a)) as))"
        by (rule Cons.IH) (use Cons.prems [of "Suc _" "Suc _"] in auto)
      moreover have "af_path a \<notin> af_path ` {b \<in> set as. \<not> spn_path_empty (af_path b)}"
      proof
        assume "af_path a \<in> af_path ` {b \<in> set as. \<not> spn_path_empty (af_path b)}"
        then obtain j where j: "j < length as" "\<not> spn_path_empty (af_path (as ! j))" "af_path a = af_path (as ! j)"
          by (auto simp: in_set_conv_nth)
        then show False using Cons.prems [of 0 "Suc j"] by simp
      qed
      ultimately show ?case by simp
    qed simp
    then show ?thesis using unique by blast
  qed
  show "\<forall>a \<in> set ?arts. af_producer a \<noteq> None \<longrightarrow>
      spn_path_empty (af_path a) \<or> \<not> root_pinned (roots_pinned (g_roots g')) (af_path a)"
  proof
    fix a assume "a \<in> set ?arts"
    then obtain p where p: "p < length ?arts" "a = ?arts ! p" by (auto simp: in_set_conv_nth)
    then have "artifact_ok g (spn_dag_find_artifact g p)" using ok len by (simp add: dag_ok_def)
    then show "af_producer a \<noteq> None \<longrightarrow>
        spn_path_empty (af_path a) \<or> \<not> root_pinned (roots_pinned (g_roots g')) (af_path a)"
      using p fields roots by (simp add: artifact_ok_def)
  qed
qed simp

end
