(* ===== verification/Dag_Keys.thy ===== *)
theory Dag_Keys
  imports Dag
begin

text \<open>
  The encodings of \<open>dag.c\<close> are injective: what is hashed into a key determines everything the
  key stands for, so two actions share a key only if they agree in identity, inputs and outputs,
  or the hash function collides. A digest and its text determine each other.
\<close>

section \<open>Prefix codes\<close>

text \<open>An encoding whose words can be told apart whatever follows them.\<close>

definition prefix_code :: "('a \<Rightarrow> 'b list) \<Rightarrow> 'a set \<Rightarrow> bool" where
  "prefix_code enc S \<longleftrightarrow>
     (\<forall>x \<in> S. \<forall>y \<in> S. \<forall>r s. enc x @ r = enc y @ s \<longrightarrow> x = y \<and> r = s)"

lemma prefix_codeI:
  "(\<And>x y r s. x \<in> S \<Longrightarrow> y \<in> S \<Longrightarrow> enc x @ r = enc y @ s \<Longrightarrow> x = y \<and> r = s) \<Longrightarrow> prefix_code enc S"
  unfolding prefix_code_def by blast

lemma prefix_codeD:
  "prefix_code enc S \<Longrightarrow> enc x @ r = enc y @ s \<Longrightarrow> x \<in> S \<Longrightarrow> y \<in> S \<Longrightarrow> x = y \<and> r = s"
  unfolding prefix_code_def by blast

lemma prefix_code_fixed:
  assumes "\<And>x. x \<in> S \<Longrightarrow> length (enc x) = n" "inj_on enc S"
  shows "prefix_code enc S"
proof (rule prefix_codeI)
  fix x y r s assume *: "x \<in> S" "y \<in> S" "enc x @ r = enc y @ s"
  then have "enc x = enc y \<and> r = s" using assms(1) by (simp add: append_eq_append_conv)
  then show "x = y \<and> r = s" using * assms(2) by (simp add: inj_on_def)
qed

lemma prefix_code_pair:
  assumes "prefix_code e S" "prefix_code f T"
  shows "prefix_code (\<lambda>(x, y). e x @ f y) (S \<times> T)"
proof (rule prefix_codeI, clarify, simp)
  fix a b c d r s assume S: "a \<in> S" "b \<in> T" "c \<in> S" "d \<in> T" and eq: "e a @ f b @ r = e c @ f d @ s"
  from prefix_codeD [OF assms(1) eq S(1,3)] have "a = c" "f b @ r = f d @ s" by simp_all
  with prefix_codeD [OF assms(2) this(2) S(2,4)] show "a = c \<and> b = d \<and> r = s" by simp
qed

lemma prefix_code_concat:
  assumes "prefix_code enc S" "length xs = length ys" "set xs \<subseteq> S" "set ys \<subseteq> S"
    and "concat (map enc xs) @ r = concat (map enc ys) @ s"
  shows "xs = ys \<and> r = s"
  using assms(2-)
proof (induction xs ys rule: list_induct2)
  case (Cons x xs y ys)
  have "enc x @ (concat (map enc xs) @ r) = enc y @ (concat (map enc ys) @ s)" using Cons.prems(3) by simp
  from prefix_codeD [OF assms(1) this] Cons show ?case by simp
qed simp

section \<open>Bytes of words and strings\<close>

lemma u64_bytes_inj: "inj u64_bytes"
proof (rule injI)
  fix v w assume eq: "u64_bytes v = u64_bytes w"
  show "v = w"
  proof (rule bit_word_eqI)
    fix n assume n: "n < LENGTH(64)"
    let ?i = "n div 8"
    have i: "?i < 8" using n by simp
    have "u64_bytes v ! ?i = u64_bytes w ! ?i" using eq by simp
    then have "(ucast (drop_bit (8 * ?i) v) :: u8) = ucast (drop_bit (8 * ?i) w)"
      using i by (simp add: u64_bytes_def)
    then have "bit (ucast (drop_bit (8 * ?i) v) :: u8) (n mod 8) = bit (ucast (drop_bit (8 * ?i) w) :: u8) (n mod 8)"
      by simp
    moreover have "8 * ?i + n mod 8 = n" by simp
    ultimately show "bit v n = bit w n" by (simp add: bit_simps)
  qed
qed

lemma u64_bytes_length [simp]: "length (u64_bytes v) = 8"
  by (simp add: u64_bytes_def)

lemma u64_code: "prefix_code u64_bytes UNIV"
  by (rule prefix_code_fixed [where n = 8]) (simp_all add: u64_bytes_inj)

lemma of_nat_u64_eq: "m < 2 ^ 64 \<Longrightarrow> n < 2 ^ 64 \<Longrightarrow> (of_nat m :: u64) = of_nat n \<longleftrightarrow> m = n"
  by (simp add: word_of_nat_eq_iff take_bit_eq_mod)

lemma str_bytes_inj: "str_bytes a = str_bytes b \<Longrightarrow> a = b"
proof -
  have "unat (of_nat (of_char c) :: u8) = of_char c" for c
    using nat_of_char_less_256 [of c] by (simp add: unat_of_nat)
  then have "inj (\<lambda>c :: char. of_nat (of_char c) :: u8)" by (metis injI of_char_eq_iff)
  then show "str_bytes a = str_bytes b \<Longrightarrow> a = b" by (simp add: str_bytes_def inj_map_eq_map)
qed

lemma str_bytes_length [simp]: "length (str_bytes s) = length s"
  by (simp add: str_bytes_def)

definition str_code :: "string \<Rightarrow> u8 list" where
  "str_code s = u64_bytes (of_nat (length s)) @ str_bytes s"

lemma str_prefix_code: "prefix_code str_code {s. length s < 2 ^ 64}"
proof (rule prefix_codeI)
  fix x y r s
  assume mem: "x \<in> {s :: string. length s < 2 ^ 64}" "y \<in> {s :: string. length s < 2 ^ 64}"
    and "str_code x @ r = str_code y @ s"
  then have eq: "u64_bytes (of_nat (length x)) @ str_bytes x @ r = u64_bytes (of_nat (length y)) @ str_bytes y @ s"
    by (simp add: str_code_def)
  from prefix_codeD [OF u64_code eq]
  have "(of_nat (length x) :: u64) = of_nat (length y)" and rest: "str_bytes x @ r = str_bytes y @ s" by simp_all
  then have "length x = length y" using mem by (simp add: of_nat_u64_eq)
  then have "str_bytes x = str_bytes y \<and> r = s" using rest by (simp add: append_eq_append_conv)
  then show "x = y \<and> r = s" using str_bytes_inj by blast
qed

lemma ucast_u32_inj: "(ucast (x :: u32) :: u64) = ucast y \<Longrightarrow> x = y"
proof -
  have "unat (ucast x :: u64) = unat x" for x :: u32
    using less_trans [OF u32_unat_lt [of x]] unfolding unsigned_ucast_eq
    by (simp add: take_bit_nat_eq_self_iff)
  then show "(ucast x :: u64) = ucast y \<Longrightarrow> x = y" by (metis word_unat_eq_iff)
qed

section \<open>The weak key\<close>

definition kind_digest :: "spn_dag_t \<Rightarrow> nat \<Rightarrow> spn_dag_artifact_kind_t \<times> spn_dag_digest_t" where
  "kind_digest g i = (af_kind (g_artifacts g ! i), af_digest (g_artifacts g ! i))"

definition kind_name :: "spn_dag_t \<Rightarrow> nat \<Rightarrow> spn_dag_artifact_kind_t \<times> string" where
  "kind_name g i = (af_kind (g_artifacts g ! i), af_name (g_artifacts g ! i))"

definition kind_code :: "spn_dag_artifact_kind_t \<Rightarrow> u8 list" where
  "kind_code k = [artifact_kind_byte k]"

lemma kind_prefix_code: "prefix_code kind_code UNIV"
proof (rule prefix_codeI)
  fix x y :: spn_dag_artifact_kind_t and r s assume "kind_code x @ r = kind_code y @ s"
  then show "x = y \<and> r = s" by (cases x; cases y) (simp_all add: kind_code_def)
qed

lemma digest_prefix_code: "prefix_code (\<lambda>d. d) {d :: spn_dag_digest_t. length d = 32}"
  by (rule prefix_code_fixed [where n = 32]) simp_all

lemma foldl_append: "foldl (\<lambda>ctx x. ctx @ f x) ctx xs = ctx @ concat (map f xs)"
  by (induction xs arbitrary: ctx) simp_all

definition input_code :: "spn_dag_artifact_kind_t \<times> spn_dag_digest_t \<Rightarrow> u8 list" where
  "input_code = (\<lambda>(k, d). kind_code k @ d)"

definition output_code :: "spn_dag_artifact_kind_t \<times> string \<Rightarrow> u8 list" where
  "output_code = (\<lambda>(k, n). kind_code k @ str_code n)"

lemmas hash_defs = spn_dag_hash_bytes_def spn_dag_hash_u8_def spn_dag_hash_u64_def
  spn_dag_hash_str_def spn_dag_hash_digest_def

lemma hash_input_code: "hash_input g ctx i = ctx @ input_code (kind_digest g i)"
  by (simp add: hash_input_def input_code_def kind_digest_def kind_code_def hash_defs Let_def)

lemma hash_output_code: "hash_output g ctx i = ctx @ output_code (kind_name g i)"
  by (simp add: hash_output_def output_code_def kind_name_def kind_code_def str_code_def hash_defs Let_def)

lemma weak_key_bytes_eq:
  "weak_key_bytes g a =
     str_code ''spn.dag.action.v4'' @ u64_bytes (ucast (roots_pinned (g_roots g))) @
     ac_identity (g_actions g ! a) @
     u64_bytes (of_nat (length (ac_consumes (g_actions g ! a)))) @
     concat (map input_code (map (kind_digest g) (ac_consumes (g_actions g ! a)))) @
     u64_bytes (of_nat (length (ac_produces (g_actions g ! a)))) @
     concat (map output_code (map (kind_name g) (ac_produces (g_actions g ! a))))"
proof -
  have fold: "foldl (hash_input g) ctx ks = ctx @ concat (map input_code (map (kind_digest g) ks))"
    "foldl (hash_output g) ctx ks = ctx @ concat (map output_code (map (kind_name g) ks))" for ctx ks
    by (induction ks arbitrary: ctx) (simp_all add: hash_input_code hash_output_code)
  show ?thesis
    unfolding weak_key_bytes_def Let_def fold by (simp only: hash_defs str_code_def append_assoc append_Nil)
qed

text \<open>The sizes a key can be made of: digests of 32 bytes, lengths below \<open>2\<^sup>64\<close>.\<close>

definition key_sizes :: "spn_dag_t \<Rightarrow> nat \<Rightarrow> bool" where
  "key_sizes g a \<longleftrightarrow>
     (let action = g_actions g ! a
      in length (ac_identity action) = 32 \<and>
         length (ac_consumes action) < 2 ^ 64 \<and> length (ac_produces action) < 2 ^ 64 \<and>
         (\<forall>i \<in> set (ac_consumes action). length (af_digest (g_artifacts g ! i)) = 32) \<and>
         (\<forall>i \<in> set (ac_produces action). length (af_name (g_artifacts g ! i)) < 2 ^ 64))"

lemma weak_key_injective:
  assumes g: "key_sizes g a" and h: "key_sizes h b" and eq: "weak_key_bytes g a = weak_key_bytes h b"
  shows "roots_pinned (g_roots g) = roots_pinned (g_roots h)"
    "ac_identity (g_actions g ! a) = ac_identity (g_actions h ! b)"
    "map (kind_digest g) (ac_consumes (g_actions g ! a)) = map (kind_digest h) (ac_consumes (g_actions h ! b))"
    "map (kind_name g) (ac_produces (g_actions g ! a)) = map (kind_name h) (ac_produces (g_actions h ! b))"
proof -
  let ?A = "g_actions g ! a" and ?B = "g_actions h ! b"
  let ?I = "map (kind_digest g) (ac_consumes ?A)" and ?J = "map (kind_digest h) (ac_consumes ?B)"
  let ?O = "map (kind_name g) (ac_produces ?A)" and ?P = "map (kind_name h) (ac_produces ?B)"
  note sizes = g [unfolded key_sizes_def Let_def] h [unfolded key_sizes_def Let_def]
  have e1: "u64_bytes (ucast (roots_pinned (g_roots g))) @
      ac_identity ?A @ u64_bytes (of_nat (length (ac_consumes ?A))) @ concat (map input_code ?I) @
      u64_bytes (of_nat (length (ac_produces ?A))) @ concat (map output_code ?O) =
    u64_bytes (ucast (roots_pinned (g_roots h))) @
      ac_identity ?B @ u64_bytes (of_nat (length (ac_consumes ?B))) @ concat (map input_code ?J) @
      u64_bytes (of_nat (length (ac_produces ?B))) @ concat (map output_code ?P)"
    using eq unfolding weak_key_bytes_eq by simp
  from prefix_codeD [OF u64_code e1]
  have p: "(ucast (roots_pinned (g_roots g)) :: u64) = ucast (roots_pinned (g_roots h))"
    and e2: "ac_identity ?A @ u64_bytes (of_nat (length (ac_consumes ?A))) @ concat (map input_code ?I) @
      u64_bytes (of_nat (length (ac_produces ?A))) @ concat (map output_code ?O) =
      ac_identity ?B @ u64_bytes (of_nat (length (ac_consumes ?B))) @ concat (map input_code ?J) @
      u64_bytes (of_nat (length (ac_produces ?B))) @ concat (map output_code ?P)" by simp_all
  show "roots_pinned (g_roots g) = roots_pinned (g_roots h)"
    by (rule ucast_u32_inj [OF p])
  from prefix_codeD [OF digest_prefix_code e2] sizes
  show "ac_identity ?A = ac_identity ?B" by simp
  from prefix_codeD [OF digest_prefix_code e2] sizes
  have e3: "u64_bytes (of_nat (length (ac_consumes ?A))) @ concat (map input_code ?I) @
      u64_bytes (of_nat (length (ac_produces ?A))) @ concat (map output_code ?O) =
      u64_bytes (of_nat (length (ac_consumes ?B))) @ concat (map input_code ?J) @
      u64_bytes (of_nat (length (ac_produces ?B))) @ concat (map output_code ?P)" by simp
  from prefix_codeD [OF u64_code e3]
  have "(of_nat (length (ac_consumes ?A)) :: u64) = of_nat (length (ac_consumes ?B))"
    and e4: "concat (map input_code ?I) @ u64_bytes (of_nat (length (ac_produces ?A))) @ concat (map output_code ?O) =
      concat (map input_code ?J) @ u64_bytes (of_nat (length (ac_produces ?B))) @ concat (map output_code ?P)"
    by simp_all
  then have len: "length ?I = length ?J" using sizes by (simp add: of_nat_u64_eq)
  have ic: "prefix_code input_code (UNIV \<times> {d. length d = 32})"
    unfolding input_code_def by (rule prefix_code_pair [OF kind_prefix_code digest_prefix_code])
  have "set ?I \<subseteq> UNIV \<times> {d. length d = 32}" "set ?J \<subseteq> UNIV \<times> {d. length d = 32}"
    using sizes by (auto simp: kind_digest_def)
  from prefix_code_concat [OF ic len this e4]
  show "?I = ?J" by blast
  from prefix_code_concat [OF ic len \<open>set ?I \<subseteq> _\<close> \<open>set ?J \<subseteq> _\<close> e4]
  have e5: "u64_bytes (of_nat (length (ac_produces ?A))) @ concat (map output_code ?O) =
      u64_bytes (of_nat (length (ac_produces ?B))) @ concat (map output_code ?P)" by blast
  from prefix_codeD [OF u64_code e5]
  have "(of_nat (length (ac_produces ?A)) :: u64) = of_nat (length (ac_produces ?B))"
    and e6: "concat (map output_code ?O) @ [] = concat (map output_code ?P) @ []" by simp_all
  then have len': "length ?O = length ?P" using sizes by (simp add: of_nat_u64_eq)
  have oc: "prefix_code output_code (UNIV \<times> {s. length s < 2 ^ 64})"
    unfolding output_code_def by (rule prefix_code_pair [OF kind_prefix_code str_prefix_code])
  have "set ?O \<subseteq> UNIV \<times> {s. length s < 2 ^ 64}" "set ?P \<subseteq> UNIV \<times> {s. length s < 2 ^ 64}"
    using sizes by (auto simp: kind_name_def)
  from prefix_code_concat [OF oc len' this e6] show "?O = ?P" by blast
qed

section \<open>The text of a digest\<close>

lemma hex_nibble_digit:
  assumes "unat n < 16"
  shows "hex_nibble (hex_digit n) = Some n"
proof -
  have "\<forall>m < 16. hex_nibble (''0123456789abcdef'' ! m) = Some (of_nat m)"
    by (simp add: eval_nat_numeral All_less_Suc hex_nibble_def)
  then show ?thesis using assms by (simp add: hex_digit_def)
qed

lemma hex_nibbleD:
  assumes "hex_nibble c = Some n"
  shows "hex_digit n = c \<and> unat n < 16"
proof -
  let ?k = "of_char c :: nat"
  have "\<forall>m < 16. (of_char (''0123456789abcdef'' ! m) :: nat) = (if m < 10 then 48 + m else 87 + m)"
    by (simp add: eval_nat_numeral All_less_Suc)
  then have digits: "\<forall>m \<in> set [0..<16]. (of_char (hex_digit (of_nat m)) :: nat) = (if m < 10 then 48 + m else 87 + m)"
    by (simp add: hex_digit_def unat_of_nat)
  have "\<exists>m < 16. n = of_nat m \<and> ?k = (if m < 10 then 48 + m else 87 + m)"
  proof (cases "48 \<le> ?k \<and> ?k \<le> 57")
    case True
    then show ?thesis using assms by (intro exI [of _ "?k - 48"]) (auto simp: hex_nibble_def Let_def)
  next
    case False
    then show ?thesis using assms
      by (intro exI [of _ "?k - 87"]) (auto simp: hex_nibble_def Let_def of_nat_diff split: if_splits)
  qed
  then obtain m where m: "m < 16" "n = of_nat m" "?k = (if m < 10 then 48 + m else 87 + m)" by blast
  then have "m \<in> set [0..<16]" by simp
  then have "(of_char (hex_digit n) :: nat) = ?k" using digits m by metis
  moreover have "unat n < 16" using m by (simp add: unat_of_nat)
  ultimately show ?thesis using of_char_eqI by blast
qed

lemma nibbles: "push_bit 4 (drop_bit 4 b) OR (b AND 0xF) = (b :: u8)"
proof -
  have "b AND 0xF = take_bit 4 b" by (simp add: take_bit_eq_mask mask_numeral)
  then show ?thesis by (intro bit_word_eqI) (auto simp: bit_simps)
qed

lemma nibbles_small: "unat (drop_bit 4 (b :: u8)) < 16" "unat ((b :: u8) AND 0xF) < 16"
proof -
  have "unat b < 256" using unsigned_less [of b, where 'a = nat] by simp
  then show "unat (drop_bit 4 b) < 16" unfolding unsigned_drop_bit_eq
    by (simp add: drop_bit_eq_div take_bit_nat_eq_self_iff [THEN iffD2])
  have "b AND 0xF = take_bit 4 b" by (simp add: take_bit_eq_mask mask_numeral)
  moreover have "unat (take_bit 4 b) < 16" unfolding unsigned_take_bit_eq by (simp add: take_bit_eq_mod)
  ultimately show "unat (b AND 0xF) < 16" by simp
qed

lemma join_nibbles:
  assumes "unat hi < 16" "unat lo < 16"
  shows "drop_bit 4 (push_bit 4 hi OR lo) = hi" "(push_bit 4 hi OR lo) AND 0xF = (lo :: u8)"
proof -
  have small: "n < 4" if "unat w < 16" "bit w n" for w :: u8 and n
  proof -
    have "take_bit 4 w = w" using that(1)
      unfolding word_unat_eq_iff unsigned_take_bit_eq by (simp add: take_bit_nat_eq_self_iff)
    then show ?thesis using that(2) by (metis bit_take_bit_iff)
  qed
  show "drop_bit 4 (push_bit 4 hi OR lo) = hi"
    by (rule bit_word_eqI) (auto simp: bit_simps dest: small [OF assms(1)] small [OF assms(2)])
  have "(push_bit 4 hi OR lo) AND 0xF = take_bit 4 (push_bit 4 hi OR lo)"
    by (simp add: take_bit_eq_mask mask_numeral)
  also have "\<dots> = lo"
    by (rule bit_word_eqI) (auto simp: bit_simps dest: small [OF assms(2)])
  finally show "(push_bit 4 hi OR lo) AND 0xF = lo" .
qed

lemma hex_Cons:
  "spn_dag_digest_hex (b # bs) = hex_digit (drop_bit 4 b) # hex_digit (b AND 0xf) # spn_dag_digest_hex bs"
  by (simp add: spn_dag_digest_hex_def)

lemma hex_length [simp]: "length (spn_dag_digest_hex bs) = 2 * length bs"
  by (induction bs) (simp_all add: hex_Cons spn_dag_digest_hex_def)

lemma parse_hex: "parse_bytes (spn_dag_digest_hex bs) = Some bs"
proof (induction bs)
  case (Cons b bs)
  then show ?case by (simp add: hex_Cons hex_nibble_digit nibbles_small nibbles)
qed (simp add: spn_dag_digest_hex_def)

lemma hex_parse: "parse_bytes s = Some bs \<Longrightarrow> even (length s) \<Longrightarrow> spn_dag_digest_hex bs = s"
proof (induction s arbitrary: bs rule: parse_bytes.induct)
  case (1 a b cs)
  then obtain hi lo rest where p: "hex_nibble a = Some hi" "hex_nibble b = Some lo"
    "parse_bytes cs = Some rest" "bs = (push_bit 4 hi OR lo) # rest"
    by (auto split: bind_splits)
  note h = hex_nibbleD [OF p(1)] and l = hex_nibbleD [OF p(2)]
  show ?case using 1 p h l join_nibbles [of hi lo] by (simp add: hex_Cons)
qed (simp_all add: spn_dag_digest_hex_def)

text \<open>A digest and its text determine each other.\<close>

lemma digest_text:
  "length d = 32 \<Longrightarrow> spn_dag_digest_parse (spn_dag_digest_hex d) = Some d"
  "spn_dag_digest_parse s = Some d \<Longrightarrow> spn_dag_digest_hex d = s \<and> length d = 32"
proof -
  show "length d = 32 \<Longrightarrow> spn_dag_digest_parse (spn_dag_digest_hex d) = Some d"
    by (simp add: spn_dag_digest_parse_def parse_hex)
  assume "spn_dag_digest_parse s = Some d"
  then have "parse_bytes s = Some d" "length s = 64" by (auto simp: spn_dag_digest_parse_def split: if_splits)
  then have "spn_dag_digest_hex d = s" using hex_parse by simp
  then show "spn_dag_digest_hex d = s \<and> length d = 32" using hex_length [of d] \<open>length s = 64\<close> by simp
qed

end
