(* ===== verification/Dag_Rows_Facts.thy ===== *)
theory Dag_Rows_Facts
  imports Dag_Rows Dag_Keys Semver_Facts
begin

text \<open>
  The rows of the caches read back: what \<open>store.c\<close> writes, its readers accept and restore.
\<close>

section \<open>The rendering of numbers\<close>

text \<open>What the code relies on of the runtime's rendering of integers: a run of decimal digits that
  denotes the number, with a minus sign before the magnitude of a negative one.\<close>

definition row_lib_ok :: "row_lib \<Rightarrow> bool" where
  "row_lib_ok lib \<longleftrightarrow>
     (\<forall>v. fmt_uint lib v \<noteq> [] \<and> list_all row_digit (fmt_uint lib v) \<and> digits_u64 0 (fmt_uint lib v) = v) \<and>
     (\<forall>v. fmt_int lib v = (if sint v < 0 then CHR ''-'' # fmt_uint lib (- v) else fmt_uint lib v))"

text \<open>A text that does not continue a number.\<close>

abbreviation stops :: "string \<Rightarrow> bool" where
  "stops t \<equiv> t = [] \<or> \<not> row_digit (hd t)"

lemma takeWhile_stops:
  "list_all P xs \<Longrightarrow> t = [] \<or> \<not> P (hd t) \<Longrightarrow> takeWhile P (xs @ t) = xs \<and> dropWhile P (xs @ t) = t"
  by (induction xs) (cases t; auto)+

lemma read_uint:
  assumes "row_lib_ok lib" "stops t"
  shows "row_u64 (fmt_uint lib v @ t) = Some (v, t)"
proof -
  have d: "fmt_uint lib v \<noteq> []" "list_all row_digit (fmt_uint lib v)" "digits_u64 0 (fmt_uint lib v) = v"
    using assms(1) by (simp_all add: row_lib_ok_def)
  then show ?thesis using takeWhile_stops [OF d(2) assms(2)] by (simp add: row_u64_def)
qed

lemma minus_not_digit [simp]: "\<not> row_digit CHR ''-''"
  by (simp add: row_digit_def)

lemma separators [simp]: "\<not> row_digit CHR '' ''" "\<not> row_digit CHR '':''" "\<not> row_digit NL"
  by (simp_all add: row_digit_def NL_def)

lemma uint_head:
  assumes "row_lib_ok lib"
  shows "fmt_uint lib v \<noteq> []" "row_digit (hd (fmt_uint lib v))"
proof -
  have "fmt_uint lib v \<noteq> []" "list_all row_digit (fmt_uint lib v)"
    using assms by (simp_all add: row_lib_ok_def)
  then show "fmt_uint lib v \<noteq> []" "row_digit (hd (fmt_uint lib v))"
    by (simp_all add: list_all_iff)
qed

lemma read_int:
  assumes "row_lib_ok lib" "stops t"
  shows "row_s64 (fmt_int lib v @ t) = Some (v, t)"
proof (cases "sint v < 0")
  case True
  then have "fmt_int lib v = CHR ''-'' # fmt_uint lib (- v)" using assms(1) by (simp add: row_lib_ok_def)
  then show ?thesis using read_uint [OF assms, of "- v"] by (simp add: row_s64_def)
next
  case False
  then have eq: "fmt_int lib v = fmt_uint lib v" using assms(1) by (simp add: row_lib_ok_def)
  have "hd (fmt_uint lib v @ t) \<noteq> CHR ''-''"
    using uint_head [OF assms(1), of v] minus_not_digit by (metis hd_append2)
  then show ?thesis using eq read_uint [OF assms, of v] by (simp add: row_s64_def Let_def)
qed

lemma read_lit [simp]: "row_lit c (c # t) = Some t"
  by (simp add: row_lit_def)

lemma read_bytes: "length s < 2 ^ 64 \<Longrightarrow> row_bytes (of_nat (length s)) (s @ t) = Some (s, t)"
  by (simp add: row_bytes_def unat_of_nat take_bit_eq_mod)

lemma read_str:
  assumes "row_lib_ok lib" "length s < 2 ^ 64"
  shows "row_str (write_row_str lib s @ t) = Some (s, t)"
  using read_uint [OF assms(1), of "CHR '':'' # s @ t" "of_nat (length s)"] read_bytes [OF assms(2)]
  by (simp add: row_str_def write_row_str_def)

lemma read_digest: "length d = 32 \<Longrightarrow> row_digest (spn_dag_digest_hex d @ t) = Some (d, t)"
  by (simp add: row_digest_def row_bytes_def digest_text)

lemma read_line: "NL \<notin> set s \<Longrightarrow> row_line (s @ NL # t) = Some (s, t)"
proof -
  assume "NL \<notin> set s"
  then have "takeWhile (\<lambda>c. c \<noteq> NL) (s @ NL # t) = s"
    by (metis (mono_tags, lifting) append_Nil2 takeWhile.simps(2) takeWhile_append2)
  then show ?thesis by (simp add: row_line_def)
qed

section \<open>Outputs\<close>

definition output_ok :: "spn_dag_action_output_t \<Rightarrow> bool" where
  "output_ok out \<longleftrightarrow> length (out_digest out) = 32 \<and> length (out_name out) < 2 ^ 64"

lemma read_output_row:
  assumes "row_lib_ok lib" "output_ok out"
  shows "parse_output_row (write_output_row lib out @ t) = Some (out, t)"
  using assms read_digest [of "out_digest out"] read_str [OF assms(1), of "out_name out"]
  by (simp add: parse_output_row_def write_output_row_def output_ok_def)

declare parse_output_rows.simps [simp del] parse_obs_rows.simps [simp del] parse_hint_rows.simps [simp del]

lemma read_output_rows:
  assumes "row_lib_ok lib" "\<forall>out \<in> set outs. output_ok out"
  shows "parse_output_rows (concat (map (write_output_row lib) outs)) = Some outs"
  using assms(2)
proof (induction outs)
  case (Cons out outs)
  have "write_output_row lib out \<noteq> []" by (simp add: write_output_row_def)
  then show ?case using Cons read_output_row [OF assms(1), of out]
    by (subst parse_output_rows.simps) simp
qed (simp add: parse_output_rows.simps)

lemma outputs_read_back:
  assumes "row_lib_ok lib" "\<forall>out \<in> set outs. output_ok out"
  shows "parse_outputs (write_outputs lib outs) = Some outs"
  using read_output_rows [OF assms] by (simp add: parse_outputs_def write_outputs_def write_header_def row_header_def)

section \<open>Observations\<close>

text \<open>A path the readers accept: under a root, or absolute.\<close>

definition rooted_ok :: "row_lib \<Rightarrow> spn_path_t \<Rightarrow> bool" where
  "rooted_ok lib path \<longleftrightarrow> path_root path \<noteq> SPN_PATH_ROOT_COUNT \<and>
     (path_root path = SPN_PATH_ROOT_NONE \<longrightarrow> row_absolute lib (path_sub path))"

definition obs_ok :: "row_lib \<Rightarrow> spn_dag_obs_t \<Rightarrow> bool" where
  "obs_ok lib obs \<longleftrightarrow> rooted_ok lib (obs_path obs) \<and> length (obs_filter obs) < 2 ^ 64 \<and>
     (obs_kind obs \<noteq> SPN_DAG_OBS_ENUMERATION \<longrightarrow> obs_filter obs = [])"

lemma root_reads_back: "root \<noteq> SPN_PATH_ROOT_COUNT \<Longrightarrow> root_of_u64 (of_nat (spn_path_root_rank root)) = Some root"
  by (cases root) (simp_all add: root_of_u64_def path_roots_def)

lemma kind_reads_back: "parse_obs_kind (format_obs_kind k) = Some k"
  by (cases k) (simp_all add: parse_obs_kind_def)

lemma read_rooted:
  assumes "rooted_ok lib path" "NL \<notin> set (path_sub path)"
  shows "row_rooted lib (path_root path) (path_sub path @ NL # t) = Some (path, t)"
  using assms read_line [OF assms(2)] by (auto simp: row_rooted_def rooted_ok_def)

lemma read_obs_row:
  assumes lib: "row_lib_ok lib" and ok: "obs_ok lib obs" and w: "write_obs_row lib obs = Some row"
  shows "parse_obs_row lib (row @ t) = Some (obs, t)" "row \<noteq> []"
proof -
  have line: "NL \<notin> set (path_sub (obs_path obs))" using w by (simp add: write_obs_row_def split: if_splits)
  have root: "root_of_u64 (of_nat (spn_path_root_rank (path_root (obs_path obs)))) = Some (path_root (obs_path obs))"
    using ok root_reads_back by (simp add: obs_ok_def rooted_ok_def)
  note num = read_uint [OF lib, of "CHR '' '' # _"]
  note path = read_rooted [OF _ line]
  have row: "row = format_obs_kind (obs_kind obs) # CHR '' '' #
      fmt_uint lib (of_nat (spn_path_root_rank (path_root (obs_path obs)))) @ CHR '' '' #
      (if obs_kind obs = SPN_DAG_OBS_ENUMERATION then write_row_str lib (obs_filter obs) @ '' '' else []) @
      path_sub (obs_path obs) @ [NL]"
    using w line by (simp add: write_obs_row_def)
  then show "row \<noteq> []" by simp
  show "parse_obs_row lib (row @ t) = Some (obs, t)"
  proof (cases "obs_kind obs = SPN_DAG_OBS_ENUMERATION")
    case True
    have "length (obs_filter obs) < 2 ^ 64" using ok by (simp add: obs_ok_def)
    from read_str [OF lib this] True ok show ?thesis
      by (simp add: parse_obs_row_def row row_bytes_def parse_obs_kind_def num root path obs_ok_def)
  next
    case False
    then have "obs_filter obs = []" using ok by (simp add: obs_ok_def)
    then show ?thesis using False ok
      by (simp add: parse_obs_row_def row row_bytes_def kind_reads_back num root path obs_ok_def)
  qed
qed

lemma read_obs_rows:
  assumes "row_lib_ok lib" "\<forall>o' \<in> set os. obs_ok lib o'" "write_obs_rows lib os = Some rows"
  shows "parse_obs_rows lib rows = Some os"
  using assms(2,3)
proof (induction os arbitrary: rows)
  case (Cons o' os)
  then obtain row rest where w: "write_obs_row lib o' = Some row" "write_obs_rows lib os = Some rest"
    "rows = row @ rest" by (auto split: bind_splits)
  have "obs_ok lib o'" using Cons.prems(1) by simp
  from read_obs_row [OF assms(1) this w(1)] Cons w show ?case
    by (subst parse_obs_rows.simps) simp
qed (simp add: parse_obs_rows.simps)

lemma obs_read_back:
  assumes "row_lib_ok lib" "\<forall>o' \<in> set (ps_obs ps). obs_ok lib o'" "length (ps_pinned ps) = 32"
    and "write_obs lib ps = Some text"
  shows "parse_obs lib text = Some ps"
proof -
  obtain rows where "write_obs_rows lib (ps_obs ps) = Some rows"
    "text = write_header obs_version @ spn_dag_digest_hex (ps_pinned ps) @ [NL] @ rows"
    using assms(4) by (auto simp: write_obs_def)
  then show ?thesis using read_obs_rows [OF assms(1,2)] read_digest [OF assms(3)]
    by (simp add: parse_obs_def write_header_def row_header_def)
qed

section \<open>File metadata\<close>

text \<open>The device is not written; a row that is read has none, and then it is not compared.\<close>

lemma hint_row_reads_back:
  assumes lib: "row_lib_ok lib" and "rooted_ok lib path" "NL \<notin> set (path_sub path)"
    and "length (fm_digest meta) = 32"
  shows "parse_hint_row lib (write_hint_row lib path meta @ t) =
    Some ((path, meta\<lparr>fm_id := (fm_id meta)\<lparr>fid_device := 0\<rparr>\<rparr>), t)"
proof -
  note num = read_uint [OF lib, of "CHR '' '' # _"] read_int [OF lib, of "CHR '' '' # _"]
  have root: "root_of_u64 (of_nat (spn_path_root_rank (path_root path))) = Some (path_root path)"
    using assms(2) root_reads_back by (simp add: rooted_ok_def)
  show ?thesis
    using assms(4) read_digest [OF assms(4)] read_rooted [OF assms(2,3)]
    by (simp add: parse_hint_row_def write_hint_row_def num root)
qed

section \<open>An example library\<close>

definition dec_u64 :: "u64 \<Rightarrow> string" where
  "dec_u64 v = dec_digits (unat v)"

definition ex_rows :: row_lib where
  "ex_rows = \<lparr>fmt_uint = dec_u64,
     fmt_int = (\<lambda>v. if sint v < 0 then CHR ''-'' # dec_u64 (- v) else dec_u64 v),
     row_absolute = (\<lambda>s. take 1 s = ''/'')\<rparr>"

lemma digits_u64_append: "digits_u64 v (xs @ ys) = digits_u64 (digits_u64 v xs) ys"
  by (induction xs arbitrary: v) simp_all

lemma dec_digits_u64:
  "dec_digits n \<noteq> [] \<and> list_all row_digit (dec_digits n) \<and> digits_u64 0 (dec_digits n) = of_nat n"
proof (induction n rule: dec_digits.induct)
  case (1 n)
  have digit: "row_digit (char_of (48 + d)) \<and> (of_char (char_of (48 + d) :: char) :: nat) - 48 = d"
    if "d < 10" for d :: nat
    using that by (simp add: row_digit_def)
  show ?case
  proof (cases "n < 10")
    case True
    then show ?thesis using digit [OF True] by (simp add: dec_digits.simps [of n])
  next
    case False
    have "(of_nat (n div 10) :: u64) * 10 + of_nat (n mod 10) = of_nat (n div 10 * 10 + n mod 10)"
      by (simp only: of_nat_add of_nat_mult of_nat_numeral)
    also have "\<dots> = of_nat n" by (simp only: div_mult_mod_eq)
    finally have "(of_nat (n div 10) :: u64) * 10 + of_nat (n mod 10) = of_nat n" .
    with 1 False digit [of "n mod 10"] show ?thesis
      by (simp add: dec_digits.simps [of n] digits_u64_append)
  qed
qed

lemma ex_rows_ok: "row_lib_ok ex_rows"
  using dec_digits_u64 by (simp add: row_lib_ok_def ex_rows_def dec_u64_def)

end
