(* ===== verification/Dag_Props.thy ===== *)
theory Dag_Props
  imports Dag_Ready Dag_Rows_Facts
begin

text \<open>
  The properties of the build graph: its keys, the rows of its caches, what building it keeps, and
  what holds in every state of a run, whatever the workers do.
\<close>

section \<open>An example\<close>

definition ex_meta :: sp_sys_file_meta_t where
  "ex_meta = \<lparr>sm_kind = SP_FS_KIND_FILE, sm_device = 1, sm_id = 1, sm_sec = 1, sm_nsec = 0, sm_size = 0\<rparr>"

definition ex_paths :: path_lib where
  "ex_paths = \<lparr>fs_join = (\<lambda>a b. a @ ''/'' @ b), fs_name = (\<lambda>p. rev (takeWhile (\<lambda>c. c \<noteq> CHR ''/'') (rev p))),
     fs_absolute = (\<lambda>s. take 1 s = ''/'')\<rparr>"

definition ex_roots :: spn_path_roots_t where
  "ex_roots = \<lparr>roots_dirs = (\<lambda>_. ''/r''), roots_opened = 0, roots_pinned = 0\<rparr>"

definition ex_lib :: "unit dag_lib" where
  "ex_lib = \<lparr>lib_path = ex_paths, lib_row = ex_rows, lib_roots = ex_roots, lib_blake3 = (\<lambda>_. replicate 32 1),
     fs_meta = (\<lambda>_ _. Inr ex_meta), fs_read = (\<lambda>_ _. Some []), fs_write = (\<lambda>_ _ w. (True, w)),
     fs_remove_file = (\<lambda>_ w. (True, w)), fs_remove_dir = (\<lambda>_ w. (True, w)), fs_create_dir = (\<lambda>_ w. (True, w)),
     fs_create_parent = (\<lambda>_ w. w), fs_set_readonly = (\<lambda>_ w. (True, w)), fs_hard_link = (\<lambda>_ _ w. (SP_OK, w)),
     fs_copy = (\<lambda>_ _ w. (SP_OK, w)), fs_rename = (\<lambda>_ _ w. (SP_OK, w)), fs_walk = (\<lambda>_ _. ([], True)),
     fs_list = (\<lambda>_ _. []), lib_glob = (\<lambda>_. None), lib_kind_byte = (\<lambda>_. 0), lib_str_cmp = (\<lambda>_ _. 0),
     sort_obs = (\<lambda>_ xs. xs), sort_outputs = (\<lambda>_ xs. xs), sort_members = (\<lambda>_ xs. xs), hint_order = (\<lambda>xs. xs)\<rparr>"

definition ex_env :: "unit spn_dag_env_t" where
  "ex_env = \<lparr>env_world = (), env_files = \<lparr>fc_entries = [], fc_metadata = [], fc_hints = [], fc_hints_dirty = False,
       fc_stamp = \<lparr>stamp_sec = 0, stamp_nsec = 0, stamp_dir = path_zero\<rparr>\<rparr>,
     env_cache = \<lparr>acc_dir = path_zero, acc_entries = []\<rparr>, env_discovery = \<lparr>obt_dir = path_zero, obt_entries = []\<rparr>,
     env_store = \<lparr>st_kind = SPN_DAG_STORE_MEM, st_dir = path_zero, st_blobs = []\<rparr>,
     env_scratch = \<lparr>path_root = SPN_PATH_ROOT_BUILD, path_sub = ''s''\<rparr>\<rparr>"

text \<open>Action 0 generates a header, action 1 compiles a source and finds out that it reads the
  header.\<close>

definition ex_header :: spn_path_t where
  "ex_header = \<lparr>path_root = SPN_PATH_ROOT_BUILD, path_sub = ''gen/a.h''\<rparr>"

definition ex_generate :: spn_dag_action_config_t where
  "ex_generate = \<lparr>cfg_kind = SPN_DAG_ACTION_UNCACHEABLE, cfg_identity = replicate 32 1\<rparr>"

definition ex_compile :: spn_dag_action_config_t where
  "ex_compile = \<lparr>cfg_kind = SPN_DAG_ACTION_DISCOVERED, cfg_identity = replicate 32 2\<rparr>"

definition ex_nodes :: spn_dag_t where
  "ex_nodes =
    (let g = spn_dag_new ex_roots;
         g = snd (spn_dag_add_value (lib_blake3 ex_lib) g [7]);
         g = snd (spn_dag_add_file g ex_header);
         g = snd (spn_dag_add_output g ''b.o'');
         g = snd (spn_dag_add_action g ex_generate)
     in snd (spn_dag_add_action g ex_compile))"

definition ex_dag :: spn_dag_t where
  "ex_dag =
    (let g = spn_dag_action_add_input ex_nodes 0 0;
         g = snd (spn_dag_action_add_output ex_paths g 0 1);
         g = spn_dag_action_add_input g 1 0
     in snd (spn_dag_action_add_output ex_paths g 1 2))"

definition ex_exec :: "unit spn_dag_exec_fn_t" where
  "ex_exec i g paths env =
     (None, if i = 1 then [\<lparr>obs_kind = SPN_DAG_OBS_FILE, obs_path = ex_header, obs_filter = []\<rparr>] else [], env)"

lemma ex_valid: "spn_dag_digest_valid (lib_blake3 ex_lib bytes)"
  by (simp add: ex_lib_def spn_dag_digest_valid_def list_ex_iff)

lemma ex_nodes_built: "dag_built ex_paths (lib_blake3 ex_lib) ex_nodes"
  unfolding ex_nodes_def Let_def
  by (intro built_action built_output built_file built_value built_new)
    (simp add: path_walkable_def ex_header_def)

lemma ex_dag_built: "dag_built ex_paths (lib_blake3 ex_lib) ex_dag"
  unfolding ex_dag_def Let_def
  by (intro built_add_output built_add_input ex_nodes_built; code_simp)

lemma ex_names: "fs_name ex_paths [] = []"
  by (simp add: ex_paths_def)

lemma ex_seeded: "dag_seeded ex_dag"
  unfolding dag_seeded_def
proof
  show "dag_linked ex_dag" using built_ok [OF ex_dag_built ex_valid ex_names] by (simp add: dag_ok_def)
  show "\<forall>p < length (g_artifacts ex_dag). spn_dag_digest_valid (af_digest (spn_dag_find_artifact ex_dag p)) \<longleftrightarrow>
      af_producer (spn_dag_find_artifact ex_dag p) = None" by code_simp
qed

definition ex_targets :: spn_dag_targets_t where
  "ex_targets = the (targets_init ex_dag)"

lemma ex_targets: "targets_init ex_dag = Some ex_targets"
proof -
  have "targets_init ex_dag \<noteq> None" by code_simp
  then show ?thesis by (auto simp: ex_targets_def)
qed

definition ex_start :: "unit spn_dag_run_t" where
  "ex_start = seed_ready ex_dag ex_env False ex_targets"

text \<open>After one turn the second action is with the pool.\<close>

lemma ex_dispatched:
  obtains run where "run_after ex_lib ex_exec ex_start 1 run" "flights run = [1]"
    "0 \<in> set (ac_consumes (spn_dag_find_action (run_g run) 1))" "run_size run = 2"
    "\<forall>i < 2. \<forall>p \<in> set (ac_consumes (spn_dag_find_action (run_g run) i)).
       af_producer (spn_dag_find_artifact (run_g run) p) = None"
proof -
  have "case run_turn ex_lib ex_start of
      Some (TURN_NEXT run) \<Rightarrow> flights run = [1] \<and> 0 \<in> set (ac_consumes (spn_dag_find_action (run_g run) 1)) \<and>
        run_size run = 2 \<and> list_all (\<lambda>i. list_all (\<lambda>p. af_producer (spn_dag_find_artifact (run_g run) p) = None)
          (ac_consumes (spn_dag_find_action (run_g run) i))) [0..<2]
    | _ \<Rightarrow> False"
    by code_simp
  then obtain run where run: "run_turn ex_lib ex_start = Some (TURN_NEXT run)" "flights run = [1]"
    "0 \<in> set (ac_consumes (spn_dag_find_action (run_g run) 1))" "run_size run = 2"
    "list_all (\<lambda>i. list_all (\<lambda>p. af_producer (spn_dag_find_artifact (run_g run) p) = None)
       (ac_consumes (spn_dag_find_action (run_g run) i))) [0..<2]"
    by (auto split: option.splits turn.splits)
  have "\<forall>i < 2. \<forall>p \<in> set (ac_consumes (spn_dag_find_action (run_g run) i)).
      af_producer (spn_dag_find_artifact (run_g run) p) = None"
    using run(5) by (auto simp: list_all_iff)
  moreover have "run_after ex_lib ex_exec ex_start 1 run" using turn_next [OF run_start run(1)] by simp
  ultimately show thesis using that run(2-4) by blast
qed

text \<open>At the end both are done, the second on a header written before it began.\<close>

definition ex_row :: spn_dag_obs_t where
  "ex_row = \<lparr>obs_kind = SPN_DAG_OBS_FILE, obs_path = ex_header, obs_filter = []\<rparr>"

lemma ex_finished:
  obtains t run where "run_after ex_lib ex_exec ex_start t run" "rs_done (run_state run 1)"
    "run_size run = 2" "executed_discovered run 1"
    "at_obs (fl_attempt (rs_flight (run_state run 1))) = [ex_row]"
    "af_producer (spn_dag_find_artifact (run_g run) 1) = Some 0"
    "observes (g_roots (run_g run)) ex_row (spn_dag_find_artifact (run_g run) 1)"
    "length (g_artifacts (run_g run)) = 3"
proof -
  have "case run_loop ex_lib ex_exec (turns_max 2) ex_start of
      Some run \<Rightarrow> run_err run = None \<and> rs_done (run_state run 1) \<and> run_size run = 2 \<and>
        ac_kind (spn_dag_find_action (run_g run) 1) = SPN_DAG_ACTION_DISCOVERED \<and>
        \<not> at_hit (fl_attempt (rs_flight (run_state run 1))) \<and>
        at_obs (fl_attempt (rs_flight (run_state run 1))) = [ex_row] \<and>
        af_producer (spn_dag_find_artifact (run_g run) 1) = Some 0 \<and>
        observes (g_roots (run_g run)) ex_row (spn_dag_find_artifact (run_g run) 1) \<and>
        length (g_artifacts (run_g run)) = 3
    | None \<Rightarrow> False"
    by code_simp
  then obtain run where run: "run_loop ex_lib ex_exec (turns_max 2) ex_start = Some run" "run_err run = None"
    "rs_done (run_state run 1)" "run_size run = 2"
    "ac_kind (spn_dag_find_action (run_g run) 1) = SPN_DAG_ACTION_DISCOVERED"
    "\<not> at_hit (fl_attempt (rs_flight (run_state run 1)))"
    "at_obs (fl_attempt (rs_flight (run_state run 1))) = [ex_row]"
    "af_producer (spn_dag_find_artifact (run_g run) 1) = Some 0"
    "observes (g_roots (run_g run)) ex_row (spn_dag_find_artifact (run_g run) 1)"
    "length (g_artifacts (run_g run)) = 3"
    by (auto split: option.splits)
  have "length (g_actions ex_dag) = 2" by code_simp
  then obtain t before where before: "run_after ex_lib ex_exec ex_start t before"
    "run_turn ex_lib before = Some (TURN_BREAK run)"
    using run_loop_total [OF ex_valid ex_seeded ex_targets ex_start_def, of ex_exec] run(1)
    by (auto simp: loop_ends_def)
  have "run_inv [] before"
    using run_after_inv [OF before(1) [unfolded ex_start_def] seed_run(1) [OF ex_seeded ex_targets]] by blast
  then have "run = cancel_check before" using before(2) by (rule run_turn_break(1))
  then have "run = before" using run(2) by (auto simp: cancel_check_def split: if_splits)
  then show thesis using that [of t run] before(1) run(3-) by (simp add: executed_discovered_def)
qed

section \<open>From a graph to its loop\<close>


definition run_small ::
    "'w dag_lib \<Rightarrow> spn_dag_t \<Rightarrow> 'w spn_dag_env_t \<Rightarrow> bool \<Rightarrow>
     (spn_dag_err \<times> spn_dag_t \<times> 'w spn_dag_env_t + 'w spn_dag_run_t) option" where
  "run_small lib g env cancel =
    (case run_seed lib g env of
       None \<Rightarrow> None
     | Some (Some err, g, env) \<Rightarrow> Some (Inl (err, g, env))
     | Some (None, g, env) \<Rightarrow>
         map_option (\<lambda>targets. Inr (seed_ready g env cancel targets)) (targets_init g))"

lemma run_begin_small: "length (g_actions g) < 2 ^ 30 \<Longrightarrow> run_begin lib g env cancel = run_small lib g env cancel"
  by (simp add: run_begin_def run_small_def)


section \<open>Properties\<close>

text \<open>C12: the bytes that are hashed into the weak key of an action determine what the key stands
  for: the pinned roots, the identity of the action, the kinds and digests of its inputs and the
  kinds and names of its outputs, in order. Actions that differ in one of these never hash the
  same bytes.\<close>

theorem weak_key_determines_action:
  assumes "key_sizes g a" "key_sizes h b" "weak_key_bytes g a = weak_key_bytes h b"
  shows "roots_pinned (g_roots g) = roots_pinned (g_roots h) \<and>
    ac_identity (g_actions g ! a) = ac_identity (g_actions h ! b) \<and>
    map (kind_digest g) (ac_consumes (g_actions g ! a)) = map (kind_digest h) (ac_consumes (g_actions h ! b)) \<and>
    map (kind_name g) (ac_produces (g_actions g ! a)) = map (kind_name h) (ac_produces (g_actions h ! b))"
  using weak_key_injective [OF assms] by simp

theorem weak_key_determines_action_witness: "weak_key_bytes ex_dag 0 \<noteq> weak_key_bytes ex_dag 1"
proof -
  have acts: "g_actions ex_dag ! 0 = \<lparr>ac_kind = SPN_DAG_ACTION_UNCACHEABLE, ac_identity = replicate 32 1,
      ac_consumes = [0], ac_produces = [1], ac_wrote = False\<rparr>"
    "g_actions ex_dag ! 1 = \<lparr>ac_kind = SPN_DAG_ACTION_DISCOVERED, ac_identity = replicate 32 2,
      ac_consumes = [0], ac_produces = [2], ac_wrote = False\<rparr>"
    by code_simp+
  have arts: "length (af_digest (g_artifacts ex_dag ! 0)) = 32"
    "length (af_name (g_artifacts ex_dag ! 1)) = 3" "length (af_name (g_artifacts ex_dag ! 2)) = 3"
    by code_simp+
  have "key_sizes ex_dag 0" "key_sizes ex_dag 1"
    using arts unfolding key_sizes_def acts by simp_all
  then show ?thesis
    using weak_key_determines_action [of ex_dag 0 ex_dag 1] unfolding acts by (auto simp: numeral_eq_Suc)
qed

text \<open>C13: what the caches write is read back: the outputs of an action, the observations of a
  weak key with the digest of the pinned ones, and a row of file metadata followed by anything. The
  row does not hold the device of the file: it is read back with device zero, which is not compared,
  so on the device it was written for it stands for the same states of the file.\<close>

theorem cache_rows_read_back:
  assumes "row_lib_ok lib"
  shows "((\<forall>out \<in> set outs. output_ok out) \<longrightarrow> parse_outputs (write_outputs lib outs) = Some outs) \<and>
    ((\<forall>o' \<in> set (ps_obs ps). obs_ok lib o') \<and> length (ps_pinned ps) = 32 \<longrightarrow>
      (\<forall>text. write_obs lib ps = Some text \<longrightarrow> parse_obs lib text = Some ps)) \<and>
    (rooted_ok lib path \<and> NL \<notin> set (path_sub path) \<and> length (fm_digest meta) = 32 \<longrightarrow>
      (\<exists>meta'. parse_hint_row lib (write_hint_row lib path meta @ rest) = Some ((path, meta'), rest) \<and>
         meta' = meta\<lparr>fm_id := (fm_id meta)\<lparr>fid_device := 0\<rparr>\<rparr> \<and>
         (\<forall>sys. sm_device sys = fid_device (fm_id meta) \<longrightarrow>
            file_meta_current meta' sys = file_meta_current meta sys)))"
  using outputs_read_back [OF assms] obs_read_back [OF assms] hint_row_reads_back [OF assms]
  by (auto simp: file_meta_current_def)

definition ex_pathset :: spn_dag_pathset_t where
  "ex_pathset = \<lparr>ps_pinned = replicate 32 3, ps_obs = [ex_row]\<rparr>"

definition ex_hint :: spn_dag_file_meta_t where
  "ex_hint = \<lparr>fm_id = \<lparr>fid_device = 3, fid_inode = 7\<rparr>, fm_sec = - 1, fm_nsec = 5, fm_size = 9, fm_digest = replicate 32 4\<rparr>"

theorem cache_rows_read_back_witness:
  "parse_outputs (write_outputs ex_rows [\<lparr>out_name = ''b.o'', out_digest = replicate 32 3\<rparr>]) =
     Some [\<lparr>out_name = ''b.o'', out_digest = replicate 32 3\<rparr>] \<and>
   parse_obs ex_rows (the (write_obs ex_rows ex_pathset)) = Some ex_pathset \<and>
   parse_hint_row ex_rows (write_hint_row ex_rows ex_header ex_hint) =
     Some ((ex_header, ex_hint\<lparr>fm_id := \<lparr>fid_device = 0, fid_inode = 7\<rparr>\<rparr>), [])"
proof -
  have "rooted_ok ex_rows ex_header" "NL \<notin> set (path_sub ex_header)"
    by (simp_all add: rooted_ok_def ex_header_def NL_def)
  moreover from this have "obs_ok ex_rows ex_row" by (simp add: obs_ok_def ex_row_def)
  moreover have "\<exists>text. write_obs ex_rows ex_pathset = Some text"
    by (simp add: write_obs_def ex_pathset_def ex_row_def write_obs_row_def ex_header_def NL_def)
  ultimately show ?thesis
    using cache_rows_read_back [OF ex_rows_ok, of "[\<lparr>out_name = ''b.o'', out_digest = replicate 32 3\<rparr>]"
        ex_pathset ex_header ex_hint "[]"]
    by (auto simp: output_ok_def ex_pathset_def ex_hint_def)
qed

text \<open>C7: every graph that the operations build is well-formed: inputs and outputs are artifacts of
  the graph, an artifact is an output of exactly the action it names as its producer, the
  consumers of an artifact are the actions it is an input of, with repetitions, and the outputs of
  an action have different names that are file names and are not under a pinned root.\<close>

theorem built_graph_invariant:
  assumes "dag_built lib blake3 g" "\<And>bytes. spn_dag_digest_valid (blake3 bytes)" "fs_name lib [] = []"
    and i: "i < length (g_actions g)"
  shows "set (ac_consumes (spn_dag_find_action g i)) \<subseteq> {..<length (g_artifacts g)} \<and>
    set (ac_produces (spn_dag_find_action g i)) \<subseteq> {..<length (g_artifacts g)} \<and>
    distinct (map (\<lambda>p. af_name (spn_dag_find_artifact g p)) (ac_produces (spn_dag_find_action g i))) \<and>
    (\<forall>p < length (g_artifacts g).
      (p \<in> set (ac_produces (spn_dag_find_action g i)) \<longleftrightarrow> af_producer (spn_dag_find_artifact g p) = Some i) \<and>
      count_list (af_consumers (spn_dag_find_artifact g p)) i = count_list (ac_consumes (spn_dag_find_action g i)) p \<and>
      (af_producer (spn_dag_find_artifact g p) = Some i \<longrightarrow>
        af_name (spn_dag_find_artifact g p) \<noteq> [] \<and> CHR ''/'' \<notin> set (af_name (spn_dag_find_artifact g p)) \<and>
        (spn_path_empty (af_path (spn_dag_find_artifact g p)) \<or>
         \<not> root_pinned (roots_pinned (g_roots g)) (af_path (spn_dag_find_artifact g p)))))"
proof -
  have ok: "dag_ok g" by (rule built_ok [OF assms(1-3)])
  then have linked: "dag_linked g" by (simp add: dag_ok_def)
  have "artifact_ok g (spn_dag_find_artifact g p)" if "p < length (g_artifacts g)" for p
    using ok that by (simp add: dag_ok_def)
  then show ?thesis
    using dag_linkedD [OF linked i] ok i unfolding dag_ok_def artifact_ok_def by auto
qed

theorem built_graph_invariant_witness:
  "set (ac_consumes (spn_dag_find_action ex_dag 1)) \<subseteq> {..<length (g_artifacts ex_dag)}"
proof -
  have "1 < length (g_actions ex_dag)" by code_simp
  then show ?thesis using built_graph_invariant [OF ex_dag_built ex_valid ex_names] by blast
qed

text \<open>C3: in every state that a run reaches, however turns and workers interleave, the producers of
  the inputs of an action that is with the pool are done and these inputs never change again; an
  action is not with the pool once it is done, so it is committed at most once.\<close>

theorem inputs_done_before_action:
  assumes "dag_seeded g" "targets_init g = Some targets"
    and "run_after lib exec (seed_ready g env cancel targets) t run" "i \<in> set (flights run)"
    and "p \<in> set (ac_consumes (spn_dag_find_action (run_g run) i))" "run_after lib exec run t' later"
  shows "\<not> rs_done (run_state run i) \<and>
    pred_option (\<lambda>q. rs_done (run_state run q)) (af_producer (spn_dag_find_artifact (run_g run) p)) \<and>
    spn_dag_find_artifact (run_g later) p = spn_dag_find_artifact (run_g run) p \<and>
    (rs_done (run_state later i) \<longrightarrow> i \<notin> set (run_ready later) \<and> i \<notin> set (flights later))"
proof -
  have inv: "run_inv [] run" using run_after_inv [OF assms(3) seed_run(1) [OF assms(1,2)]] by blast
  have later: "run_inv [] later" "keeps run later" using run_after_inv [OF assms(6) inv] by blast+
  note places = run_invD(2) [OF inv] and counts = run_invD(1) [OF inv]
  have i: "i < run_size run" "\<not> rs_done (run_state run i)" "rs_pending (run_state run i) = 0"
    using placesD(2-4) [OF places, of i] assms(4) by auto
  have "unmet run i = []" using i(3) counts_okD(3) [OF counts i(1)] by simp
  then have met: "pred_option (\<lambda>q. rs_done (run_state run q)) (af_producer (spn_dag_find_artifact (run_g run) p))"
    using assms(5) by (cases "af_producer (spn_dag_find_artifact (run_g run) p)")
      (auto simp: unmet_def filter_empty_conv)
  have p: "p < length (g_artifacts (run_g run))"
    using dag_linkedD(1) [OF counts_okD(1) [OF counts] i(1)] assms(5) by auto
  have "spn_dag_find_artifact (run_g later) p = spn_dag_find_artifact (run_g run) p"
    using later(2) p met unfolding keeps_def by blast
  then show ?thesis using i(2) met placesD(3) [OF run_invD(2) [OF later(1)], of i] by auto
qed

theorem inputs_done_before_action_witness:
  "\<exists>run. run_after ex_lib ex_exec ex_start 1 run \<and> flights run = [1] \<and>
     pred_option (\<lambda>q. rs_done (run_state run q)) (af_producer (spn_dag_find_artifact (run_g run) 0))"
proof -
  obtain run where run: "run_after ex_lib ex_exec ex_start 1 run" "flights run = [1]"
    "0 \<in> set (ac_consumes (spn_dag_find_action (run_g run) 1))"
    using ex_dispatched by metis
  have "1 \<in> set (flights run)" using run(2) by simp
  then show ?thesis
    using inputs_done_before_action [OF ex_seeded ex_targets run(1) [unfolded ex_start_def] _ run(3) run_start] run(1,2)
    by blast
qed

text \<open>C2: no action is done on observations that are out of date: when an action that executed
  observed a path that is the output of another action (that path, a path inside an output
  directory, or a directory above the output that it listed), that action is done, and was done
  before the observing action began unless it wrote nothing.\<close>

theorem observations_up_to_date:
  assumes "dag_seeded g" "targets_init g = Some targets"
    and "run_after lib exec (seed_ready g env cancel targets) t run"
    and "i < run_size run" "rs_done (run_state run i)" "executed_discovered run i"
    and "row \<in> set (at_obs (fl_attempt (rs_flight (run_state run i))))"
    and "p < length (g_artifacts (run_g run))" "af_producer (spn_dag_find_artifact (run_g run) p) = Some q" "q \<noteq> i"
    and "observes (g_roots (run_g run)) row (spn_dag_find_artifact (run_g run) p)"
  shows "rs_done (run_state run q) \<and>
    (rs_done_epoch (run_state run q) \<le> fl_epoch (rs_flight (run_state run i)) \<or>
     \<not> ac_wrote (spn_dag_find_action (run_g run) q))"
proof -
  have inv: "run_inv [] run" using run_after_inv [OF assms(3) seed_run(1) [OF assms(1,2)]] by blast
  have "obs_current run i" using run_invD(5) [OF inv] assms(4-6) by (simp add: fresh_ok_def)
  moreover have "q \<in> observed_producers (run_g run) row"
    using assms(8,9,11) by (auto simp: observed_producers_def)
  then have "q \<in> set (obs_producers (g_roots (run_g run)) (run_targets run) row)"
    using run_invD(4) [OF inv] by (simp add: targets_ok_def)
  ultimately show ?thesis using assms(7,10) unfolding obs_current_def by auto
qed

theorem observations_up_to_date_witness:
  "\<exists>t run. run_after ex_lib ex_exec ex_start t run \<and> rs_done (run_state run 1) \<and> rs_done (run_state run 0)"
proof -
  obtain t run where run: "run_after ex_lib ex_exec ex_start t run" "rs_done (run_state run 1)"
    "run_size run = 2" "executed_discovered run 1"
    "at_obs (fl_attempt (rs_flight (run_state run 1))) = [ex_row]"
    "af_producer (spn_dag_find_artifact (run_g run) 1) = Some 0"
    "observes (g_roots (run_g run)) ex_row (spn_dag_find_artifact (run_g run) 1)"
    "length (g_artifacts (run_g run)) = 3"
    by (rule ex_finished)
  have "1 < run_size run" "ex_row \<in> set (at_obs (fl_attempt (rs_flight (run_state run 1))))"
    "1 < length (g_artifacts (run_g run))" "(0::nat) \<noteq> 1"
    unfolding run(3,5,8) by simp_all
  note observed = observations_up_to_date
    [OF ex_seeded ex_targets run(1) [unfolded ex_start_def] this(1) run(2,4) this(2,3) run(6) this(4) run(7)]
  show ?thesis by (intro exI conjI) (rule run(1,2) conjunct1 [OF observed])+
qed

text \<open>C6: a run of \<open>n\<close> actions takes at most \<open>n * n + n\<close> turns before it leaves its loop, fewer
  than the code asserts. Unless an input of an action was restored from the cache of outputs with a
  digest that is not valid, none of the other assertions of a turn or of a job fails, in any state
  and while the main thread sleeps: the inputs of an action that is looked up or dispatched have
  digests, an attempt that is committed was not restored, and an action dispatched afresh does not
  have to run again. The main thread never sleeps without a job in the pool, and completing the job
  that wakes it fails no assertion.\<close>

definition jobs_asserts :: "'w dag_lib \<Rightarrow> 'w spn_dag_exec_fn_t \<Rightarrow> 'w spn_dag_run_t \<Rightarrow> bool" where
  "jobs_asserts lib exec run \<longleftrightarrow>
     (\<forall>before i after. run_running run = before @ i # after \<longrightarrow>
        flight_finish lib exec i (run\<lparr>run_running := before @ after, run_jobs := run_jobs run @ [i]\<rparr>) \<noteq> None)"

theorem run_turns_bounded:
  assumes "\<And>bytes. spn_dag_digest_valid (lib_blake3 lib bytes)"
    and "dag_seeded g" "targets_init g = Some targets"
    and "run_after lib exec (seed_ready g env cancel targets) t run"
  shows "t \<le> length (g_actions g) * length (g_actions g) + length (g_actions g) \<and>
    t < turns_max (length (g_actions g)) \<and>
    ((\<forall>i p. \<not> invalid_restored run i p) \<longrightarrow> run_turn lib run \<noteq> None \<and> jobs_asserts lib exec run) \<and>
    (\<forall>asleep. run_turn lib run = Some (TURN_POLL asleep) \<longrightarrow>
      (\<forall>awake. (pool_worker lib exec)\<^sup>*\<^sup>* asleep awake \<longrightarrow>
        run_queue awake @ run_running awake @ run_jobs awake \<noteq> [] \<and>
        ((\<forall>i p. \<not> invalid_restored run i p) \<longrightarrow> jobs_asserts lib exec awake) \<and>
        (\<forall>i awake'. pool_try_poll awake = (Some i, awake') \<longrightarrow> take_job lib i awake' \<noteq> None)))"
proof -
  let ?n = "length (g_actions g)"
  note start = seed_run [OF assms(2,3), of env cancel]
  note after = run_after_inv [OF assms(4) start(1)]
  have inv: "run_inv [] run" and ok: "digests_ok run"
    using run_after_digests [OF assms(1,4) start(1) seed_digests [OF assms(2)]] by blast+
  have bound: "t \<le> ?n * ?n + ?n" using after start(2) by linarith
  have turns: "t < turns_max ?n" using bound turns_max_enough by (rule le_less_trans)
  have jobs: "jobs_asserts lib exec r"
    if "run_inv [] r" "digests_ok r" "\<And>i p. \<not> invalid_restored r i p" for r
  proof -
    have "flight_finish lib exec i (r\<lparr>run_running := before @ after, run_jobs := run_jobs r @ [i]\<rparr>) \<noteq> None"
      if "run_running r = before @ i # after" for before i after
      by (rule flight_asserts [OF \<open>run_inv [] r\<close> \<open>digests_ok r\<close> _ \<open>\<And>i p. \<not> invalid_restored r i p\<close>])
        (use that in simp_all)
    then show ?thesis by (simp add: jobs_asserts_def)
  qed
  have here: "run_turn lib run \<noteq> None \<and> jobs_asserts lib exec run" if "\<forall>i p. \<not> invalid_restored run i p"
    using turn_asserts [OF inv ok, of lib] jobs [OF inv ok] that by blast
  have sleeping: "run_queue awake @ run_running awake @ run_jobs awake \<noteq> [] \<and>
      ((\<forall>i p. \<not> invalid_restored run i p) \<longrightarrow> jobs_asserts lib exec awake) \<and>
      (\<forall>i awake'. pool_try_poll awake = (Some i, awake') \<longrightarrow> take_job lib i awake' \<noteq> None)"
    if poll: "run_turn lib run = Some (TURN_POLL asleep)" and awake: "(pool_worker lib exec)\<^sup>*\<^sup>* asleep awake"
    for asleep awake
  proof -
    note asleep = run_turn_poll [OF inv poll]
    have sleep: "run_inv [] asleep" "digests_ok asleep"
      using cancel_check_advances [OF inv] cancel_digests [OF inv ok] by (simp_all add: asleep(1) advances_def)
    have woken: "run_inv [] awake" "digests_ok awake" using workers_digests [OF assms(1) awake sleep] by blast+
    have same: "invalid_restored awake i p = invalid_restored run i p" for i p
      using workers_restored [OF awake sleep(1)] by (simp add: asleep(1) invalid_restored_def cancel_check_def)
    have "0 < run_in_flight asleep" using asleep(3) by (simp add: asleep(1) cancel_check_def)
    then have "0 < run_in_flight awake" using workers_in_flight [OF awake] by simp
    then have "flights awake \<noteq> []" using placesD(7) [OF run_invD(2) [OF woken(1)]] by auto
    moreover have "take_job lib i awake' \<noteq> None" if "pool_try_poll awake = (Some i, awake')" for i awake'
      using take_job_turns [OF woken(1) that, of lib] by auto
    ultimately show ?thesis using jobs [OF woken] same by simp
  qed
  show ?thesis using bound turns here sleeping by blast
qed

theorem run_turns_bounded_witness:
  "\<exists>run. run_after ex_lib ex_exec ex_start 1 run \<and> run_turn ex_lib run \<noteq> None"
proof -
  obtain run where run: "run_after ex_lib ex_exec ex_start 1 run" "run_size run = 2"
    "\<forall>i < 2. \<forall>p \<in> set (ac_consumes (spn_dag_find_action (run_g run) i)).
       af_producer (spn_dag_find_artifact (run_g run) p) = None"
    using ex_dispatched by metis
  have "\<not> invalid_restored run i p" for i p
    using run(2,3) unfolding invalid_restored_def by fastforce
  then show ?thesis
    using run_turns_bounded [OF ex_valid ex_seeded ex_targets run(1) [unfolded ex_start_def]] run(1) by blast
qed



text \<open>The exception happens: the cache has a row for the first of two actions that gives its output
  the digest zero, and the store a blob of that name; the second action consumes it.\<close>

definition ex_chain :: spn_dag_t where
  "ex_chain =
    (let g = spn_dag_new ex_roots;
         g = snd (spn_dag_add_output g ''a.o'');
         g = snd (spn_dag_add_output g ''b.o'');
         g = snd (spn_dag_add_action g \<lparr>cfg_kind = SPN_DAG_ACTION_STATIC, cfg_identity = replicate 32 1\<rparr>);
         g = snd (spn_dag_add_action g \<lparr>cfg_kind = SPN_DAG_ACTION_STATIC, cfg_identity = replicate 32 2\<rparr>);
         g = snd (spn_dag_action_add_output ex_paths g 0 0);
         g = spn_dag_action_add_input g 1 0
     in snd (spn_dag_action_add_output ex_paths g 1 1))"

definition ex_poisoned :: "unit spn_dag_env_t" where
  "ex_poisoned = ex_env
     \<lparr>env_cache := \<lparr>acc_dir = path_zero,
        acc_entries = [(replicate 32 1, [\<lparr>out_name = ''a.o'', out_digest = digest_zero\<rparr>])]\<rparr>,
      env_store := \<lparr>st_kind = SPN_DAG_STORE_MEM, st_dir = path_zero, st_blobs = [(digest_zero, [])]\<rparr>\<rparr>"

lemma zero_digest_fails: "spn_dag_run ex_lib ex_exec ex_chain ex_poisoned False = None"
proof -
  have "length (g_actions ex_chain) = 2" by code_simp
  then have few: "length (g_actions ex_chain) < 2 ^ 30" by simp
  have "case run_small ex_lib ex_chain ex_poisoned False of
      Some (Inr start) \<Rightarrow> run_loop ex_lib ex_exec (turns_max (length (g_actions ex_chain))) start = None
    | _ \<Rightarrow> False" by code_simp
  then show ?thesis unfolding spn_dag_run_def run_begin_small [OF few] by (auto split: option.splits sum.splits)
qed

end
