(* ===== verification/Sha256.thy ===== *)
theory Sha256
  imports Prelude
begin

text \<open>
  SHA-256, \<open>source/core/hash/sha256/sha256.c\<close>: the compression of a block, and the context that
  takes a message in pieces. The digest of a message is compared with the definition of FIPS 180-4:
  padding, blocks, the schedule by its recurrence and the rounds.

  An array is a list of its length. The loop of \<open>spn_sha256_update\<close> never ends on a full block, so
  it is a partial function; \<open>None\<close> is not returning.
\<close>

unbundle bit_operations_syntax

section \<open>The code\<close>

definition spn_sha256_k :: "u32 list" where
  "spn_sha256_k = concat [
    [0x428a2f98, 0x71374491, 0xb5c0fbcf, 0xe9b5dba5, 0x3956c25b, 0x59f111f1, 0x923f82a4, 0xab1c5ed5],
    [0xd807aa98, 0x12835b01, 0x243185be, 0x550c7dc3, 0x72be5d74, 0x80deb1fe, 0x9bdc06a7, 0xc19bf174],
    [0xe49b69c1, 0xefbe4786, 0x0fc19dc6, 0x240ca1cc, 0x2de92c6f, 0x4a7484aa, 0x5cb0a9dc, 0x76f988da],
    [0x983e5152, 0xa831c66d, 0xb00327c8, 0xbf597fc7, 0xc6e00bf3, 0xd5a79147, 0x06ca6351, 0x14292967],
    [0x27b70a85, 0x2e1b2138, 0x4d2c6dfc, 0x53380d13, 0x650a7354, 0x766a0abb, 0x81c2c92e, 0x92722c85],
    [0xa2bfe8a1, 0xa81a664b, 0xc24b8b70, 0xc76c51a3, 0xd192e819, 0xd6990624, 0xf40e3585, 0x106aa070],
    [0x19a4c116, 0x1e376c08, 0x2748774c, 0x34b0bcb5, 0x391c0cb3, 0x4ed8aa4a, 0x5b9cca4f, 0x682e6ff3],
    [0x748f82ee, 0x78a5636f, 0x84c87814, 0x8cc70208, 0x90befffa, 0xa4506ceb, 0xbef9a3f7, 0xc67178f2]]"

definition SPN_SHA256_ROR :: "u32 \<Rightarrow> nat \<Rightarrow> u32" where
  "SPN_SHA256_ROR x n = drop_bit n x OR push_bit (32 - n) x"

record spn_sha256_ctx_t =
  sha_state :: "u32 list"
  sha_length :: u64
  sha_block :: "u8 list"
  sha_fill :: nat

definition spn_sha256_init :: "spn_sha256_ctx_t \<Rightarrow> spn_sha256_ctx_t" where
  "spn_sha256_init ctx = ctx\<lparr>
     sha_state := [0x6a09e667, 0xbb67ae85, 0x3c6ef372, 0xa54ff53a, 0x510e527f, 0x9b05688c, 0x1f83d9ab, 0x5be0cd19],
     sha_length := 0, sha_fill := 0\<rparr>"

text \<open>The words of the block, and the loop that extends them to 64.\<close>

definition load_word :: "u8 list \<Rightarrow> nat \<Rightarrow> u32" where
  "load_word block i =
     push_bit 24 (ucast (block ! (i * 4))) OR push_bit 16 (ucast (block ! (i * 4 + 1))) OR
     push_bit 8 (ucast (block ! (i * 4 + 2))) OR ucast (block ! (i * 4 + 3))"

definition extend_word :: "u32 list \<Rightarrow> nat \<Rightarrow> u32 list" where
  "extend_word w i =
    (let s0 = SPN_SHA256_ROR (w ! (i - 15)) 7 XOR SPN_SHA256_ROR (w ! (i - 15)) 18 XOR drop_bit 3 (w ! (i - 15));
         s1 = SPN_SHA256_ROR (w ! (i - 2)) 17 XOR SPN_SHA256_ROR (w ! (i - 2)) 19 XOR drop_bit 10 (w ! (i - 2))
     in w[i := w ! (i - 16) + s0 + w ! (i - 7) + s1])"

definition sha256_schedule :: "u8 list \<Rightarrow> u32 list" where
  "sha256_schedule block = foldl extend_word (map (load_word block) [0..<16] @ replicate 48 0) [16..<64]"

type_synonym sha256_vars = "u32 \<times> u32 \<times> u32 \<times> u32 \<times> u32 \<times> u32 \<times> u32 \<times> u32"

definition sha256_round :: "u32 list \<Rightarrow> sha256_vars \<Rightarrow> nat \<Rightarrow> sha256_vars" where
  "sha256_round w = (\<lambda>(a, b, c, d, e, f, g, h) i.
    (let s1 = SPN_SHA256_ROR e 6 XOR SPN_SHA256_ROR e 11 XOR SPN_SHA256_ROR e 25;
         ch = (e AND f) XOR (NOT e AND g);
         t1 = h + s1 + ch + spn_sha256_k ! i + w ! i;
         s0 = SPN_SHA256_ROR a 2 XOR SPN_SHA256_ROR a 13 XOR SPN_SHA256_ROR a 22;
         maj = (a AND b) XOR (a AND c) XOR (b AND c);
         t2 = s0 + maj
     in (t1 + t2, a, b, c, d + t1, e, f, g)))"

definition spn_sha256_compress :: "spn_sha256_ctx_t \<Rightarrow> u8 list \<Rightarrow> spn_sha256_ctx_t" where
  "spn_sha256_compress ctx block =
    (let w = sha256_schedule block; s = sha_state ctx;
         (a, b, c, d, e, f, g, h) =
           foldl (sha256_round w) (s ! 0, s ! 1, s ! 2, s ! 3, s ! 4, s ! 5, s ! 6, s ! 7) [0..<64]
     in ctx\<lparr>sha_state := [s ! 0 + a, s ! 1 + b, s ! 2 + c, s ! 3 + d, s ! 4 + e, s ! 5 + f, s ! 6 + g, s ! 7 + h]\<rparr>)"

text \<open>The loop over the data, and the loop that pads.\<close>

partial_function (option) update_loop :: "spn_sha256_ctx_t \<Rightarrow> u8 list \<Rightarrow> spn_sha256_ctx_t option" where
  "update_loop ctx data =
    (if data = [] then Some ctx
     else
       (let len = min (length data) (64 - sha_fill ctx);
            block = take (sha_fill ctx) (sha_block ctx) @ take len data @ drop (sha_fill ctx + len) (sha_block ctx);
            ctx = ctx\<lparr>sha_block := block, sha_fill := sha_fill ctx + len\<rparr>
        in update_loop
             (if sha_fill ctx = 64 then (spn_sha256_compress ctx (sha_block ctx))\<lparr>sha_fill := 0\<rparr> else ctx)
             (drop len data)))"

declare update_loop.simps [code]

definition spn_sha256_update :: "spn_sha256_ctx_t \<Rightarrow> u8 list \<Rightarrow> spn_sha256_ctx_t option" where
  "spn_sha256_update ctx data = update_loop (ctx\<lparr>sha_length := sha_length ctx + of_nat (length data)\<rparr>) data"

definition update_uncounted :: "spn_sha256_ctx_t \<Rightarrow> u8 \<Rightarrow> spn_sha256_ctx_t option" where
  "update_uncounted ctx byte =
     map_option (\<lambda>ctx. ctx\<lparr>sha_length := sha_length ctx - 1\<rparr>) (spn_sha256_update ctx [byte])"

partial_function (option) zeros_loop :: "spn_sha256_ctx_t \<Rightarrow> spn_sha256_ctx_t option" where
  "zeros_loop ctx =
    (if sha_fill ctx = 56 then Some ctx else Option.bind (update_uncounted ctx 0) zeros_loop)"

declare zeros_loop.simps [code]

definition sha256_tail :: "u64 \<Rightarrow> u8 list" where
  "sha256_tail bits = map (\<lambda>i. ucast (drop_bit (56 - i * 8) bits)) [0..<8]"

definition store_word :: "u32 \<Rightarrow> u8 list" where
  "store_word x = [ucast (drop_bit 24 x), ucast (drop_bit 16 x), ucast (drop_bit 8 x), ucast x]"

definition spn_sha256_final :: "spn_sha256_ctx_t \<Rightarrow> u8 list option" where
  "spn_sha256_final ctx =
    (let bits = sha_length ctx * 8
     in Option.bind (update_uncounted ctx 0x80) (\<lambda>ctx.
        Option.bind (zeros_loop ctx) (\<lambda>ctx.
        map_option (\<lambda>ctx. concat (map (\<lambda>i. store_word (sha_state ctx ! i)) [0..<8]))
          (spn_sha256_update ctx (sha256_tail bits)))))"

section \<open>The standard\<close>

definition Sigma0 :: "u32 \<Rightarrow> u32" where
  "Sigma0 x = word_rotr 2 x XOR word_rotr 13 x XOR word_rotr 22 x"

definition Sigma1 :: "u32 \<Rightarrow> u32" where
  "Sigma1 x = word_rotr 6 x XOR word_rotr 11 x XOR word_rotr 25 x"

definition sigma0 :: "u32 \<Rightarrow> u32" where
  "sigma0 x = word_rotr 7 x XOR word_rotr 18 x XOR drop_bit 3 x"

definition sigma1 :: "u32 \<Rightarrow> u32" where
  "sigma1 x = word_rotr 17 x XOR word_rotr 19 x XOR drop_bit 10 x"

definition Ch :: "u32 \<Rightarrow> u32 \<Rightarrow> u32 \<Rightarrow> u32" where
  "Ch x y z = (x AND y) XOR (NOT x AND z)"

definition Maj :: "u32 \<Rightarrow> u32 \<Rightarrow> u32 \<Rightarrow> u32" where
  "Maj x y z = (x AND y) XOR (x AND z) XOR (y AND z)"

text \<open>Numbers as bytes, the first byte the highest.\<close>

definition number_of_bytes :: "u8 list \<Rightarrow> nat" where
  "number_of_bytes bytes = foldl (\<lambda>v b. v * 256 + unat b) 0 bytes"

definition bytes_of_number :: "nat \<Rightarrow> nat \<Rightarrow> u8 list" where
  "bytes_of_number n v = map (\<lambda>i. of_nat (v div 256 ^ (n - 1 - i))) [0..<n]"

text \<open>The message schedule of a block, by its recurrence.\<close>

definition block_word :: "u8 list \<Rightarrow> nat \<Rightarrow> u32" where
  "block_word block t = of_nat (number_of_bytes (take 4 (drop (4 * t) block)))"

fun message_schedule :: "u8 list \<Rightarrow> nat \<Rightarrow> u32" where
  "message_schedule block t =
    (if t < 16 then block_word block t
     else sigma1 (message_schedule block (t - 2)) + message_schedule block (t - 7) +
          sigma0 (message_schedule block (t - 15)) + message_schedule block (t - 16))"

declare message_schedule.simps [simp del]

primrec rounds :: "u8 list \<Rightarrow> nat \<Rightarrow> sha256_vars \<Rightarrow> sha256_vars" where
  "rounds block 0 vars = vars"
| "rounds block (Suc t) vars =
    (case rounds block t vars of (a, b, c, d, e, f, g, h) \<Rightarrow>
       let T1 = h + Sigma1 e + Ch e f g + spn_sha256_k ! t + message_schedule block t;
           T2 = Sigma0 a + Maj a b c
       in (T1 + T2, a, b, c, d + T1, e, f, g))"

definition hash_step :: "u32 list \<Rightarrow> u8 list \<Rightarrow> u32 list" where
  "hash_step H block =
    (case rounds block 64 (H ! 0, H ! 1, H ! 2, H ! 3, H ! 4, H ! 5, H ! 6, H ! 7) of
       (a, b, c, d, e, f, g, h) \<Rightarrow> map2 (+) [a, b, c, d, e, f, g, h] H)"

definition initial_hash :: "u32 list" where
  "initial_hash =
     [0x6a09e667, 0xbb67ae85, 0x3c6ef372, 0xa54ff53a, 0x510e527f, 0x9b05688c, 0x1f83d9ab, 0x5be0cd19]"

text \<open>One bit, the least number of zeros up to eight bytes short of a block, and the length in bits.\<close>

definition zero_bytes :: "nat \<Rightarrow> nat" where
  "zero_bytes n = (LEAST k. (n + 1 + k) mod 64 = 56)"

definition padded :: "u8 list \<Rightarrow> u8 list" where
  "padded msg = msg @ [0x80] @ replicate (zero_bytes (length msg)) 0 @ bytes_of_number 8 (8 * length msg)"

fun blocks :: "u8 list \<Rightarrow> u8 list list" where
  "blocks msg = (if length msg < 64 then [] else take 64 msg # blocks (drop 64 msg))"

declare blocks.simps [simp del]

definition sha256 :: "u8 list \<Rightarrow> u8 list" where
  "sha256 msg = concat (map (bytes_of_number 4 \<circ> unat) (foldl hash_step initial_hash (blocks (padded msg))))"

end
