(* ===== verification/Sha256_Facts.thy ===== *)
theory Sha256_Facts
  imports Sha256
begin

text \<open>
  The compression of a block is a step of the standard, and a context stands for the message it has
  taken so far: its blocks are in the state, the rest is in the block.
\<close>

section \<open>Bytes and words\<close>

lemma ror_word_rotr:
  assumes "0 < n" "n < 32"
  shows "SPN_SHA256_ROR x n = word_rotr n x"
proof (rule bit_word_eqI)
  fix m assume "m < LENGTH(32)"
  then have m: "m < 32" by simp
  have bits: "bit (SPN_SHA256_ROR x n) m \<longleftrightarrow> bit x (n + m) \<or> 32 - n \<le> m \<and> bit x (m - (32 - n))"
    using m by (simp add: SPN_SHA256_ROR_def bit_or_iff bit_drop_bit_eq bit_push_bit_iff)
  have rot: "bit (word_rotr n x) m \<longleftrightarrow> bit x ((m + n) mod 32)"
    using m by (simp add: bit_word_rotr_iff)
  show "bit (SPN_SHA256_ROR x n) m = bit (word_rotr n x) m"
  proof (cases "m + n < 32")
    case True
    then have "\<not> 32 - n \<le> m" using assms by linarith
    then show ?thesis using True unfolding bits rot by (simp add: add.commute)
  next
    case False
    then have "\<not> bit x (n + m)" using bit_imp_le_length [of x "n + m"] by auto
    moreover have "(m + n) mod 32 = m - (32 - n)" using False assms m by (simp add: mod_if)
    moreover have "32 - n \<le> m" using False by linarith
    ultimately show ?thesis unfolding bits rot by simp
  qed
qed

lemma ucast_of_nat: "(ucast (b :: u8) :: u32) = of_nat (unat b)"
  by simp

lemma bytes_or_sum:
  fixes a b c d :: u8
  shows "push_bit 24 (ucast a) OR push_bit 16 (ucast b) OR push_bit 8 (ucast c) OR (ucast d :: u32) =
    of_nat (number_of_bytes [a, b, c, d])"
proof -
  let ?a = "push_bit 24 (ucast a) :: u32" and ?b = "push_bit 16 (ucast b) :: u32"
  let ?c = "push_bit 8 (ucast c) :: u32" and ?d = "ucast d :: u32"
  have cd: "?c OR ?d = ?c + ?d"
    by (rule sym, rule disjunctive_add) (auto simp: bit_push_bit_iff bit_unsigned_iff dest: bit_imp_le_length)
  have bcd: "?b OR (?c OR ?d) = ?b + (?c OR ?d)"
    by (rule sym, rule disjunctive_add)
      (auto simp: bit_push_bit_iff bit_unsigned_iff bit_or_iff dest: bit_imp_le_length)
  have abcd: "?a OR (?b OR (?c OR ?d)) = ?a + (?b OR (?c OR ?d))"
    by (rule sym, rule disjunctive_add)
      (auto simp: bit_push_bit_iff bit_unsigned_iff bit_or_iff dest: bit_imp_le_length)
  show ?thesis
    unfolding abcd unfolding bcd unfolding cd
    by (simp add: number_of_bytes_def push_bit_eq_mult algebra_simps flip: ucast_of_nat)
qed

lemma block_byte_words: "i < 16 \<Longrightarrow> length block = 64 \<Longrightarrow> load_word block i = block_word block i"
  unfolding load_word_def block_word_def bytes_or_sum
  by (simp add: mult.commute Cons_nth_drop_Suc [symmetric] numeral_eq_Suc)

lemma byte_of_word: "(ucast (drop_bit k (x :: 'a :: len word)) :: u8) = of_nat (unat x div 2 ^ k)"
proof -
  have "of_nat (unat (drop_bit k x)) = (ucast (drop_bit k x) :: u8)" by simp
  then show ?thesis unfolding unat_drop_bit_eq drop_bit_eq_div [of k "unat x"] by (rule sym)
qed

lemma store_word_bytes: "store_word x = bytes_of_number 4 (unat x)"
  using byte_of_word [of 0 x] byte_of_word [of 8 x] byte_of_word [of 16 x] byte_of_word [of 24 x]
  by (simp add: store_word_def bytes_of_number_def upt_rec)

lemma sha256_tail_bytes: "sha256_tail (of_nat n) = bytes_of_number 8 n"
proof -
  have "(ucast (drop_bit k (of_nat n :: u64)) :: u8) = of_nat (n div 2 ^ k)" if "k \<le> 56" for k
  proof -
    have "take_bit 8 (drop_bit k (take_bit 64 n)) = take_bit 8 (drop_bit k n)"
      by (rule bit_eqI) (use that in \<open>auto simp: bit_take_bit_iff bit_drop_bit_eq\<close>)
    then show ?thesis
      unfolding byte_of_word by (simp add: word_of_nat_eq_iff unsigned_of_nat drop_bit_eq_div)
  qed
  from this [of 0] this [of 8] this [of 16] this [of 24] this [of 32] this [of 40] this [of 48] this [of 56]
  show ?thesis by (simp add: sha256_tail_def bytes_of_number_def upt_rec)
qed


section \<open>A block\<close>

lemma length_schedule_fold: "length (foldl extend_word w is) = length w"
  by (induction "is" arbitrary: w) (simp_all add: extend_word_def Let_def)

lemma schedule_fold:
  assumes "length block = 64" "n \<le> 48" "t < 16 + n"
  shows "foldl extend_word (map (load_word block) [0..<16] @ replicate 48 0) [16..<16 + n] ! t =
    message_schedule block t"
  using assms(2,3)
proof (induction n arbitrary: t)
  case 0
  then show ?case
    using block_byte_words [OF _ assms(1)] by (simp add: nth_append message_schedule.simps [of block t])
next
  case (Suc n)
  let ?w = "foldl extend_word (map (load_word block) [0..<16] @ replicate 48 0) [16..<16 + n]"
  have len: "length ?w = 64" by (simp add: length_schedule_fold)
  have w: "?w ! s = message_schedule block s" if "s < 16 + n" for s
    using Suc.IH [OF _ that] Suc.prems(1) by simp
  have step: "foldl extend_word (map (load_word block) [0..<16] @ replicate 48 0) [16..<16 + Suc n] =
      extend_word ?w (16 + n)" using upt_Suc_append [of 16 "16 + n"] by (simp only: add_Suc_right le_add1 foldl_append foldl.simps)
  show ?case
  proof (cases "t < 16 + n")
    case True
    then show ?thesis using w [OF True] unfolding step by (simp add: extend_word_def Let_def)
  next
    case False
    then have t: "t = 16 + n" using Suc.prems(2) by simp
    have "extend_word ?w (16 + n) ! t = message_schedule block (16 + n - 16) +
        sigma0 (message_schedule block (16 + n - 15)) + message_schedule block (16 + n - 7) +
        sigma1 (message_schedule block (16 + n - 2))"
      using len Suc.prems(1) w [of "16 + n - 15"] w [of "16 + n - 2"] w [of "16 + n - 7"] w [of "16 + n - 16"]
      by (simp add: extend_word_def Let_def t sigma0_def sigma1_def ror_word_rotr)
    then show ?thesis
      unfolding step t message_schedule.simps [of block "16 + n"] by (simp add: ac_simps)
  qed
qed

lemma schedule_nth: "length block = 64 \<Longrightarrow> t < 64 \<Longrightarrow> sha256_schedule block ! t = message_schedule block t"
  using schedule_fold [of block 48 t] by (simp add: sha256_schedule_def)

lemma rounds_fold:
  assumes "length block = 64" "n \<le> 64"
  shows "foldl (sha256_round (sha256_schedule block)) vars [0..<n] = rounds block n vars"
  using assms(2)
proof (induction n)
  case (Suc n)
  then show ?case
    using schedule_nth [OF assms(1), of n]
    by (simp add: sha256_round_def ror_word_rotr Sigma0_def Sigma1_def Ch_def Maj_def Let_def split: prod.split)
qed simp

lemma compress_step:
  assumes "length block = 64" "length (sha_state ctx) = 8"
  shows "spn_sha256_compress ctx block = ctx\<lparr>sha_state := hash_step (sha_state ctx) block\<rparr>"
proof -
  let ?s = "sha_state ctx"
  have "?s = [?s ! 0, ?s ! 1, ?s ! 2, ?s ! 3, ?s ! 4, ?s ! 5, ?s ! 6, ?s ! 7]"
    using assms(2) by (intro nth_equalityI) (auto simp: nth_Cons' less_Suc_eq numeral_eq_Suc)
  then obtain s0 s1 s2 s3 s4 s5 s6 s7 where s: "?s = [s0, s1, s2, s3, s4, s5, s6, s7]" by metis
  show ?thesis
    unfolding spn_sha256_compress_def hash_step_def Let_def rounds_fold [OF assms(1) order.refl] s
    by (simp split: prod.split)
qed


section \<open>Blocks of a message\<close>

lemma blocks_map: "blocks msg = map (\<lambda>i. take 64 (drop (64 * i) msg)) [0..<length msg div 64]"
proof (induction msg rule: blocks.induct)
  case (1 msg)
  show ?case
  proof (cases "length msg < 64")
    case True
    then show ?thesis by (simp add: blocks.simps)
  next
    case False
    let ?f = "\<lambda>i. take 64 (drop (64 * i) msg)"
    have div: "length msg div 64 = Suc (length (drop 64 msg) div 64)"
      using False by (simp add: div_if [of "length msg"])
    have "map ?f [0..<length msg div 64] = ?f 0 # map (\<lambda>i. ?f (Suc i)) [0..<length (drop 64 msg) div 64]"
      unfolding div by (simp add: upt_conv_Cons map_Suc_upt [symmetric] comp_def del: upt_Suc length_drop)
    then show ?thesis
      using 1 [OF False] False by (simp add: blocks.simps [of msg] add.commute)
  qed
qed

lemma block_before:
  assumes "i < length msg div 64"
  shows "take 64 (drop (64 * i) (msg @ xs)) = take 64 (drop (64 * i) msg)"
proof -
  have "Suc i \<le> length msg div 64" using assms by simp
  then have "64 * Suc i \<le> length msg" by (simp add: less_eq_div_iff_mult_less_eq mult.commute)
  then have "64 - (length msg - 64 * i) = 0" "64 * i - length msg = 0" by simp_all
  then show ?thesis by (simp only: drop_append take_append length_drop take_0 append_Nil2)
qed

lemma blocks_append_map:
  "map (\<lambda>i. take 64 (drop (64 * i) (msg @ xs))) [0..<length msg div 64] = blocks msg"
  unfolding blocks_map [of msg] by (rule map_cong [OF refl], rule block_before) simp

lemma block_count: "length (msg @ xs) div 64 = length msg div 64 + (length msg mod 64 + length xs) div 64"
proof -
  have "length msg + length xs = (length msg mod 64 + length xs) + length msg div 64 * 64"
    using div_mult_mod_eq [of "length msg" 64] by linarith
  then show ?thesis by (simp only: length_append div_mult_self1 [of 64])
qed

lemma blocks_append_short:
  assumes "length msg mod 64 + length xs < 64"
  shows "blocks (msg @ xs) = blocks msg"
proof -
  have "length (msg @ xs) div 64 = length msg div 64" unfolding block_count using assms by simp
  then show ?thesis unfolding blocks_map [of "msg @ xs"] by (simp only: blocks_append_map)
qed

lemma blocks_append_full:
  assumes "length msg mod 64 + length xs = 64"
  shows "blocks (msg @ xs) = blocks msg @ [drop (64 * (length msg div 64)) msg @ xs]"
proof -
  let ?q = "length msg div 64"
  have len: "length (msg @ xs) div 64 = Suc ?q" unfolding block_count assms by simp
  have rest: "length msg - 64 * ?q + length xs = 64" "64 * ?q - length msg = 0"
    using assms div_mult_mod_eq [of "length msg" 64] by linarith+
  have "take 64 (drop (64 * ?q) (msg @ xs)) = drop (64 * ?q) msg @ xs"
    unfolding drop_append rest(2) drop_0 by (rule take_all) (use rest(1) in \<open>simp only: length_append length_drop order.refl\<close>)
  then show ?thesis
    unfolding blocks_map [of "msg @ xs"] len by (simp only: upt_Suc_append le0 map_append list.map blocks_append_map)
qed

section \<open>What a context stands for\<close>

definition sha_holds :: "spn_sha256_ctx_t \<Rightarrow> u8 list \<Rightarrow> bool" where
  "sha_holds ctx msg \<longleftrightarrow>
     sha_state ctx = foldl hash_step initial_hash (blocks msg) \<and> length (sha_block ctx) = 64 \<and>
     sha_fill ctx = length msg mod 64 \<and>
     take (length msg mod 64) (sha_block ctx) = drop (64 * (length msg div 64)) msg"

lemma sha_holds_length [simp]: "sha_holds (ctx\<lparr>sha_length := v\<rparr>) msg = sha_holds ctx msg"
  by (simp add: sha_holds_def)

definition sha_rep :: "spn_sha256_ctx_t \<Rightarrow> u8 list \<Rightarrow> bool" where
  "sha_rep ctx msg \<longleftrightarrow> sha_holds ctx msg \<and> sha_length ctx = of_nat (length msg)"

lemma hash_steps_length: "length (foldl hash_step H bs) = (if bs = [] then length H else min 8 (length H))"
  by (induction bs arbitrary: H) (auto simp: hash_step_def split: prod.split)

lemma init_rep: "length (sha_block ctx) = 64 \<Longrightarrow> sha_rep (spn_sha256_init ctx) []"
  by (simp add: sha_rep_def sha_holds_def spn_sha256_init_def initial_hash_def blocks.simps)

lemma update_loop_holds:
  "sha_holds ctx msg \<Longrightarrow> \<exists>ctx'. update_loop ctx data = Some ctx' \<and> sha_holds ctx' (msg @ data) \<and>
     sha_length ctx' = sha_length ctx"
proof (induction "length data" arbitrary: ctx msg data rule: less_induct)
  case less
  show ?case
  proof (cases "data = []")
    case True
    then show ?thesis using less.prems by (simp add: update_loop.simps [of ctx])
  next
    case False
    define n where "n = min (length data) (64 - sha_fill ctx)"
    define block where "block = take (sha_fill ctx) (sha_block ctx) @ take n data @ drop (sha_fill ctx + n) (sha_block ctx)"
    define filled where "filled = ctx\<lparr>sha_block := block, sha_fill := sha_fill ctx + n\<rparr>"
    define after where "after = (if sha_fill ctx + n = 64 then (spn_sha256_compress filled block)\<lparr>sha_fill := 0\<rparr> else filled)"
    have fill: "sha_fill ctx = length msg mod 64" and room: "sha_fill ctx < 64" and full: "length (sha_block ctx) = 64"
      and state: "sha_state ctx = foldl hash_step initial_hash (blocks msg)"
      and held: "take (sha_fill ctx) (sha_block ctx) = drop (64 * (length msg div 64)) msg"
      using less.prems by (simp_all add: sha_holds_def)
    have n: "0 < n" "sha_fill ctx + n \<le> 64" "n \<le> length data"
      unfolding n_def using False room by auto
    then have taken: "length (take n data) = n" by simp
    have block: "length block = 64" unfolding block_def using full n by simp
    have step: "update_loop ctx data = update_loop after (drop n data)"
      using False by (simp add: update_loop.simps [of ctx] Let_def n_def block_def filled_def after_def)
    have "sha_holds after (msg @ take n data) \<and> sha_length after = sha_length ctx"
    proof (cases "sha_fill ctx + n = 64")
      case True
      then have whole: "length msg mod 64 + length (take n data) = 64" unfolding taken fill [symmetric] .
      have all: "block = drop (64 * (length msg div 64)) msg @ take n data"
        unfolding block_def held True using full by simp
      have "length (sha_state filled) = 8"
        by (simp add: filled_def state hash_steps_length initial_hash_def)
      then have after: "after = filled\<lparr>sha_state := hash_step (sha_state ctx) block, sha_fill := 0\<rparr>"
        using True compress_step [OF block] by (simp add: after_def filled_def)
      have mod: "length (msg @ take n data) mod 64 = 0"
        unfolding length_append mod_add_left_eq [of "length msg" 64, symmetric] whole by simp
      then have "64 * (length (msg @ take n data) div 64) = length (msg @ take n data)"
        using mult_div_mod_eq [of 64 "length (msg @ take n data)"] by linarith
      then have rest: "drop (64 * (length (msg @ take n data) div 64)) (msg @ take n data) = []"
        by (simp only: drop_all order.refl)
      have "foldl hash_step initial_hash (blocks (msg @ take n data)) = hash_step (sha_state ctx) block"
        unfolding blocks_append_full [OF whole] by (simp add: all state)
      then show ?thesis
        unfolding sha_holds_def after mod rest by (simp add: filled_def block)
    next
      case False
      then have short: "length msg mod 64 + length (take n data) < 64"
        unfolding taken fill [symmetric] using n(2) by simp
      have mod: "length (msg @ take n data) mod 64 = sha_fill ctx + n"
        unfolding length_append mod_add_left_eq [of "length msg" 64, symmetric]
        using short by (simp only: taken fill mod_less)
      have div: "length (msg @ take n data) div 64 = length msg div 64"
        unfolding block_count using short by simp
      have "take (sha_fill ctx + n) block = take (sha_fill ctx) (sha_block ctx) @ take n data"
        unfolding block_def using full room n taken by simp
      also have "\<dots> = drop (64 * (length msg div 64)) (msg @ take n data)" unfolding held by simp
      finally show ?thesis
        unfolding sha_holds_def mod div blocks_append_short [OF short] using False
        by (simp add: after_def filled_def block state)
    qed
    then have held': "sha_holds after (msg @ take n data)" "sha_length after = sha_length ctx" by blast+
    have "length (drop n data) < length data" using n by simp
    from less.hyps [OF this held'(1)] show ?thesis unfolding step using held'(2) by simp
  qed
qed

lemma update_rep:
  assumes "sha_rep ctx msg"
  shows "\<exists>ctx'. spn_sha256_update ctx data = Some ctx' \<and> sha_rep ctx' (msg @ data)"
proof -
  have "sha_holds (ctx\<lparr>sha_length := sha_length ctx + of_nat (length data)\<rparr>) msg"
    using assms by (simp add: sha_rep_def)
  from update_loop_holds [OF this, of data] show ?thesis
    using assms by (auto simp: spn_sha256_update_def sha_rep_def)
qed

lemma update_uncounted_holds:
  assumes "sha_holds ctx msg"
  obtains ctx' where "update_uncounted ctx byte = Some ctx'" "sha_holds ctx' (msg @ [byte])"
proof -
  have "sha_holds (ctx\<lparr>sha_length := sha_length ctx + of_nat (length [byte])\<rparr>) msg"
    using assms by simp
  from update_loop_holds [OF this, of "[byte]"] that show thesis
    by (auto simp: update_uncounted_def spn_sha256_update_def)
qed

lemma zeros_loop_holds:
  assumes "sha_holds ctx msg" "(length msg + k) mod 64 = 56" "\<forall>j < k. (length msg + j) mod 64 \<noteq> 56"
  shows "\<exists>ctx'. zeros_loop ctx = Some ctx' \<and> sha_holds ctx' (msg @ replicate k 0)"
  using assms
proof (induction k arbitrary: ctx msg)
  case 0
  then have "sha_fill ctx = 56" by (simp add: sha_holds_def)
  then show ?case using 0 by (simp add: zeros_loop.simps [of ctx])
next
  case (Suc k)
  have "sha_fill ctx \<noteq> 56" using Suc.prems(1,3) by (auto simp: sha_holds_def)
  obtain ctx1 where ctx1: "update_uncounted ctx 0 = Some ctx1" "sha_holds ctx1 (msg @ [0])"
    using update_uncounted_holds [OF Suc.prems(1)] by blast
  have "(length (msg @ [0]) + k) mod 64 = 56" using Suc.prems(2) by simp
  moreover have "\<forall>j < k. (length (msg @ [0]) + j) mod 64 \<noteq> 56"
    using Suc.prems(3) by (auto dest: spec [of _ "Suc _"])
  ultimately show ?case
    using Suc.IH [OF ctx1(2)] ctx1(1) \<open>sha_fill ctx \<noteq> 56\<close> by (simp add: zeros_loop.simps [of ctx])
qed

lemma zero_bytes:
  "(n + 1 + zero_bytes n) mod 64 = 56" "j < zero_bytes n \<Longrightarrow> (n + 1 + j) mod 64 \<noteq> 56"
proof -
  have "(n + 1 + (119 - n mod 64)) mod 64 = 56"
  proof -
    have "n + 1 + (119 - n mod 64) = 64 * (n div 64) + 120"
      by presburger
    then show ?thesis by simp
  qed
  then show "(n + 1 + zero_bytes n) mod 64 = 56" unfolding zero_bytes_def by (rule LeastI)
  show "j < zero_bytes n \<Longrightarrow> (n + 1 + j) mod 64 \<noteq> 56" unfolding zero_bytes_def by (rule not_less_Least)
qed

lemma final_rep:
  assumes "sha_rep ctx msg"
  shows "spn_sha256_final ctx = Some (sha256 msg)"
proof -
  have bits: "sha_length ctx * 8 = of_nat (8 * length msg)" using assms by (simp add: sha_rep_def)
  obtain ctx1 where ctx1: "update_uncounted ctx 0x80 = Some ctx1" "sha_holds ctx1 (msg @ [0x80])"
    using update_uncounted_holds assms unfolding sha_rep_def by blast
  obtain ctx2 where ctx2: "zeros_loop ctx1 = Some ctx2"
    "sha_holds ctx2 ((msg @ [0x80]) @ replicate (zero_bytes (length msg)) 0)"
    using zeros_loop_holds [OF ctx1(2), of "zero_bytes (length msg)"] zero_bytes [where n = "length msg"] by auto
  let ?tail = "bytes_of_number 8 (8 * length msg)"
  have "sha_holds (ctx2\<lparr>sha_length := sha_length ctx2 + of_nat (length ?tail)\<rparr>)
      ((msg @ [0x80]) @ replicate (zero_bytes (length msg)) 0)"
    using ctx2(2) by simp
  from update_loop_holds [OF this, of ?tail] obtain ctx3 where ctx3: "spn_sha256_update ctx2 ?tail = Some ctx3"
    "sha_state ctx3 = foldl hash_step initial_hash (blocks (padded msg))"
    by (auto simp: spn_sha256_update_def sha_holds_def padded_def)
  have "length (sha_state ctx3) = 8" by (simp add: ctx3(2) hash_steps_length initial_hash_def)
  then have out: "map (\<lambda>i. store_word (sha_state ctx3 ! i)) [0..<8] = map store_word (sha_state ctx3)"
    by (intro nth_equalityI) simp_all
  have "spn_sha256_final ctx = Some (concat (map store_word (sha_state ctx3)))"
    unfolding spn_sha256_final_def Let_def bits sha256_tail_bytes
    by (simp only: ctx1(1) ctx2(1) ctx3(1) Option.bind.simps option.map out)
  then show ?thesis by (simp add: ctx3(2) sha256_def store_word_bytes comp_def cong: map_cong)
qed

end
