(* ===== verification/Digest.thy ===== *)
theory Digest
  imports Sha256_Facts Dag
begin

text \<open>
  Digests of bytes and files, \<open>source/core/hash/digest/digest.c\<close>: a context of one of two kinds that
  takes pieces, and the loop that reads a file into it.

  BLAKE3 is a library: its context stands for the bytes given to it, its digest is the argument
  \<open>blake3\<close>. A reader is a state with a function that returns bytes, an error or none, and the next
  state.
\<close>

section \<open>Contexts\<close>

datatype spn_digest_kind_t = SPN_DIGEST_BLAKE3 | SPN_DIGEST_SHA256

datatype spn_digest_ctx_t = DIGEST_CTX_BLAKE3 "u8 list" | DIGEST_CTX_SHA256 spn_sha256_ctx_t

definition sha256_ctx_zero :: spn_sha256_ctx_t where
  "sha256_ctx_zero = \<lparr>sha_state = replicate 8 0, sha_length = 0, sha_block = replicate 64 0, sha_fill = 0\<rparr>"

definition spn_digest_init_blake3 :: spn_digest_ctx_t where
  "spn_digest_init_blake3 = DIGEST_CTX_BLAKE3 []"

definition spn_digest_init_sha256 :: spn_digest_ctx_t where
  "spn_digest_init_sha256 = DIGEST_CTX_SHA256 (spn_sha256_init sha256_ctx_zero)"

fun spn_digest_update :: "spn_digest_ctx_t \<Rightarrow> u8 list \<Rightarrow> spn_digest_ctx_t option" where
  "spn_digest_update (DIGEST_CTX_BLAKE3 bytes) data = Some (DIGEST_CTX_BLAKE3 (bytes @ data))"
| "spn_digest_update (DIGEST_CTX_SHA256 ctx) data = map_option DIGEST_CTX_SHA256 (spn_sha256_update ctx data)"

fun spn_digest_final :: "(u8 list \<Rightarrow> u8 list) \<Rightarrow> spn_digest_ctx_t \<Rightarrow> u8 list option" where
  "spn_digest_final blake3 (DIGEST_CTX_BLAKE3 bytes) = Some (blake3 bytes)"
| "spn_digest_final blake3 (DIGEST_CTX_SHA256 ctx) = spn_sha256_final ctx"

fun init_kind :: "spn_digest_kind_t \<Rightarrow> spn_digest_ctx_t" where
  "init_kind SPN_DIGEST_BLAKE3 = spn_digest_init_blake3"
| "init_kind SPN_DIGEST_SHA256 = spn_digest_init_sha256"

definition spn_digest :: "(u8 list \<Rightarrow> u8 list) \<Rightarrow> spn_digest_kind_t \<Rightarrow> u8 list \<Rightarrow> u8 list option" where
  "spn_digest blake3 kind data =
     Option.bind (spn_digest_update (init_kind kind) data) (spn_digest_final blake3)"

section \<open>Files\<close>

datatype sp_io_err = SP_ERR_IO_EOF | SP_ERR_IO_OTHER

type_synonym 'r sp_io_reader = "'r \<Rightarrow> u8 list \<times> sp_io_err option \<times> 'r"

text \<open>The loop of \<open>spn_digest_file\<close>; \<open>Inl ()\<close> is \<open>SPN_ERROR\<close>, and \<open>None\<close> is not returning.\<close>

partial_function (option) read_loop ::
    "('c \<Rightarrow> u8 list \<Rightarrow> 'c option) \<Rightarrow> 'r sp_io_reader \<Rightarrow> 'c \<Rightarrow> u64 \<Rightarrow> 'r \<Rightarrow> (unit + 'c \<times> u64) option" where
  "read_loop update read ctx len r =
    (case read r of
       (bytes, err, r) \<Rightarrow>
         Option.bind (if bytes = [] then Some ctx else update ctx bytes) (\<lambda>ctx.
           let len = len + of_nat (length bytes)
           in if err = Some SP_ERR_IO_EOF then Some (Inr (ctx, len))
              else if err \<noteq> None then Some (Inl ())
              else if bytes = [] then Some (Inr (ctx, len))
              else read_loop update read ctx len r))"

declare read_loop.simps [code]

definition digest_file ::
    "(u8 list \<Rightarrow> u8 list) \<Rightarrow> spn_digest_kind_t \<Rightarrow> 'r sp_io_reader \<Rightarrow> 'r option \<Rightarrow> (unit + u8 list \<times> u64) option" where
  "digest_file blake3 kind read file =
    (case file of
       None \<Rightarrow> Some (Inl ())
     | Some r \<Rightarrow>
         Option.bind (read_loop spn_digest_update read (init_kind kind) 0 r) (\<lambda>result. case result of
             Inl err \<Rightarrow> Some (Inl err)
           | Inr (ctx, len) \<Rightarrow> map_option (\<lambda>digest. Inr (digest, len)) (spn_digest_final blake3 ctx)))"

definition spn_digest_file_hex ::
    "(u8 list \<Rightarrow> u8 list) \<Rightarrow> spn_digest_kind_t \<Rightarrow> 'r sp_io_reader \<Rightarrow> 'r option \<Rightarrow> (unit + string) option" where
  "spn_digest_file_hex blake3 kind read file =
     map_option (\<lambda>result. case result of Inl err \<Rightarrow> Inl err | Inr (digest, len) \<Rightarrow> Inr (spn_dag_digest_hex digest))
       (digest_file blake3 kind read file)"

text \<open>What a reader gives: a content in pieces, or pieces and an error.\<close>

inductive delivers :: "'r sp_io_reader \<Rightarrow> 'r \<Rightarrow> u8 list \<Rightarrow> bool" for read :: "'r sp_io_reader" where
  delivers_eof: "read r = (bytes, Some SP_ERR_IO_EOF, r') \<Longrightarrow> delivers read r bytes"
| delivers_end: "read r = ([], None, r') \<Longrightarrow> delivers read r []"
| delivers_more: "read r = (bytes, None, r') \<Longrightarrow> bytes \<noteq> [] \<Longrightarrow> delivers read r' rest \<Longrightarrow>
    delivers read r (bytes @ rest)"

inductive breaks :: "'r sp_io_reader \<Rightarrow> 'r \<Rightarrow> bool" for read :: "'r sp_io_reader" where
  breaks_now: "read r = (bytes, Some SP_ERR_IO_OTHER, r') \<Longrightarrow> breaks read r"
| breaks_later: "read r = (bytes, None, r') \<Longrightarrow> bytes \<noteq> [] \<Longrightarrow> breaks read r' \<Longrightarrow> breaks read r"

section \<open>Hashing in pieces\<close>

primrec update_all :: "('c \<Rightarrow> u8 list \<Rightarrow> 'c option) \<Rightarrow> 'c \<Rightarrow> u8 list list \<Rightarrow> 'c option" where
  "update_all update ctx [] = Some ctx"
| "update_all update ctx (part # parts) = Option.bind (update ctx part) (\<lambda>ctx. update_all update ctx parts)"

text \<open>The contract of a context: it stands for the bytes it was given.\<close>

locale stream_hasher =
  fixes update :: "'c \<Rightarrow> u8 list \<Rightarrow> 'c option"
    and holds :: "'c \<Rightarrow> u8 list \<Rightarrow> bool"
  assumes update_holds: "holds ctx msg \<Longrightarrow> \<exists>ctx'. update ctx data = Some ctx' \<and> holds ctx' (msg @ data)"
begin

lemma pieces:
  "holds ctx msg \<Longrightarrow> \<exists>ctx'. update_all update ctx parts = Some ctx' \<and> holds ctx' (msg @ concat parts)"
proof (induction parts arbitrary: ctx msg)
  case (Cons part parts)
  obtain ctx1 where ctx1: "update ctx part = Some ctx1" "holds ctx1 (msg @ part)"
    using update_holds [OF Cons.prems] by blast
  from Cons.IH [OF ctx1(2)] show ?case using ctx1(1) by simp
qed simp

lemma fed:
  assumes "holds ctx msg"
  obtains ctx' where "(if bytes = [] then Some ctx else update ctx bytes) = Some ctx'" "holds ctx' (msg @ bytes)"
  using that assms update_holds [OF assms, of bytes] by (cases "bytes = []") auto

lemma delivered:
  assumes "delivers read r content" "holds ctx msg"
  shows "\<exists>ctx'. read_loop update read ctx len r = Some (Inr (ctx', len + of_nat (length content))) \<and>
    holds ctx' (msg @ content)"
  using assms
proof (induction arbitrary: ctx msg len rule: delivers.induct)
  case (delivers_eof r bytes r')
  obtain ctx1 where "(if bytes = [] then Some ctx else update ctx bytes) = Some ctx1" "holds ctx1 (msg @ bytes)"
    using fed [OF delivers_eof.prems] by blast
  then show ?case using delivers_eof.hyps by (simp add: read_loop.simps [of update read ctx])
next
  case (delivers_end r r')
  then show ?case by (simp add: read_loop.simps [of update read ctx])
next
  case (delivers_more r bytes r' rest)
  obtain ctx1 where ctx1: "update ctx bytes = Some ctx1" "holds ctx1 (msg @ bytes)"
    using update_holds [OF delivers_more.prems] by blast
  from delivers_more.IH [OF ctx1(2), of "len + of_nat (length bytes)"] show ?case
    using delivers_more.hyps(1,2) ctx1(1) by (simp add: read_loop.simps [of update read ctx len] add.assoc)
qed

lemma broken:
  assumes "breaks read r" "holds ctx msg"
  shows "read_loop update read ctx len r = Some (Inl ())"
  using assms
proof (induction arbitrary: ctx msg len rule: breaks.induct)
  case (breaks_now r bytes r')
  obtain ctx1 where "(if bytes = [] then Some ctx else update ctx bytes) = Some ctx1"
    using fed [OF breaks_now.prems] by blast
  then show ?case using breaks_now.hyps by (simp add: read_loop.simps [of update read ctx])
next
  case (breaks_later r bytes r')
  obtain ctx1 where ctx1: "update ctx bytes = Some ctx1" "holds ctx1 (msg @ bytes)"
    using update_holds [OF breaks_later.prems] by blast
  then show ?case
    using breaks_later.hyps(1,2) breaks_later.IH [OF ctx1(2)] by (simp add: read_loop.simps [of update read ctx len])
qed

end

interpretation sha: stream_hasher spn_sha256_update sha_rep
  by unfold_locales (rule update_rep)

fun digest_rep :: "spn_digest_kind_t \<Rightarrow> spn_digest_ctx_t \<Rightarrow> u8 list \<Rightarrow> bool" where
  "digest_rep SPN_DIGEST_BLAKE3 (DIGEST_CTX_BLAKE3 bytes) msg \<longleftrightarrow> bytes = msg"
| "digest_rep SPN_DIGEST_SHA256 (DIGEST_CTX_SHA256 ctx) msg \<longleftrightarrow> sha_rep ctx msg"
| "digest_rep kind ctx msg \<longleftrightarrow> False"

interpretation digest: stream_hasher spn_digest_update "digest_rep kind" for kind
proof unfold_locales
  fix ctx msg data
  assume "digest_rep kind ctx msg"
  then show "\<exists>ctx'. spn_digest_update ctx data = Some ctx' \<and> digest_rep kind ctx' (msg @ data)"
    using update_rep [of _ msg data] by (cases kind; cases ctx; force)
qed

fun digest_of :: "(u8 list \<Rightarrow> u8 list) \<Rightarrow> spn_digest_kind_t \<Rightarrow> u8 list \<Rightarrow> u8 list" where
  "digest_of blake3 SPN_DIGEST_BLAKE3 msg = blake3 msg"
| "digest_of blake3 SPN_DIGEST_SHA256 msg = sha256 msg"

lemma init_kind_rep: "digest_rep kind (init_kind kind) []"
  by (cases kind) (simp_all add: spn_digest_init_blake3_def spn_digest_init_sha256_def init_rep sha256_ctx_zero_def)

lemma final_digest_rep:
  "digest_rep kind ctx msg \<Longrightarrow> spn_digest_final blake3 ctx = Some (digest_of blake3 kind msg)"
  by (cases "(kind, ctx, msg)" rule: digest_rep.cases) (auto simp: final_rep)

section \<open>Properties\<close>

text \<open>C20: a message that is hashed in pieces, however it is cut, gives the digest that FIPS 180-4
  defines for the whole message, its length taken modulo 2^64 in the padding.\<close>

theorem sha256_in_pieces:
  assumes "length (sha_block ctx) = 64"
  shows "Option.bind (update_all spn_sha256_update (spn_sha256_init ctx) parts) spn_sha256_final =
    Some (sha256 (concat parts))"
  using sha.pieces [OF init_rep [OF assms], of parts] final_rep by auto

theorem sha256_in_pieces_witness:
  "Option.bind (update_all spn_sha256_update (spn_sha256_init sha256_ctx_zero) [[0x61], [0x62, 0x63]]) spn_sha256_final =
    Some (sha256 [0x61, 0x62, 0x63])"
  using sha256_in_pieces [of sha256_ctx_zero "[[0x61], [0x62, 0x63]]"] by (simp add: sha256_ctx_zero_def)

text \<open>C21: the digest of a file is the digest of its content, of either kind, whatever pieces the
  reader returns, with the length of the content; a reader that fails, at once or after some
  pieces, or a file that cannot be opened, gives the error.\<close>

theorem file_digest_of_content:
  "(delivers read r content \<longrightarrow>
      digest_file blake3 kind read (Some r) = Some (Inr (digest_of blake3 kind content, of_nat (length content)))) \<and>
   (breaks read r \<longrightarrow> digest_file blake3 kind read (Some r) = Some (Inl ())) \<and>
   digest_file blake3 kind read None = Some (Inl ())"
proof (intro conjI impI)
  assume "delivers read r content"
  from digest.delivered [OF this init_kind_rep [of kind], of 0]
  show "digest_file blake3 kind read (Some r) = Some (Inr (digest_of blake3 kind content, of_nat (length content)))"
    by (auto simp: digest_file_def final_digest_rep)
next
  assume "breaks read r"
  from digest.broken [OF this init_kind_rep [of kind], of 0]
  show "digest_file blake3 kind read (Some r) = Some (Inl ())" by (simp add: digest_file_def)
qed (simp add: digest_file_def)

definition read_list :: "u8 list list sp_io_reader" where
  "read_list parts = (case parts of [] \<Rightarrow> ([], Some SP_ERR_IO_EOF, []) | part # parts \<Rightarrow> (part, None, parts))"

theorem file_digest_of_content_witness:
  "digest_file (\<lambda>_. []) SPN_DIGEST_SHA256 read_list (Some [[1, 2], [3]]) = Some (Inr (sha256 [1, 2, 3], 3))"
proof -
  have "delivers read_list [] []" by (rule delivers_eof [where r' = "[]"]) (simp add: read_list_def)
  then have "delivers read_list [[3]] ([3] @ [])"
    by (rule delivers_more [rotated 2, where r' = "[]"]) (simp_all add: read_list_def)
  then have "delivers read_list [[1, 2], [3]] ([1, 2] @ [3] @ [])"
    by (rule delivers_more [rotated 2, where r' = "[[3]]"]) (simp_all add: read_list_def)
  then show ?thesis
    using file_digest_of_content [of read_list "[[1, 2], [3]]" "[1, 2, 3]" "\<lambda>_. []" SPN_DIGEST_SHA256] by simp
qed

end
