(* ===== verification/Triple.thy ===== *)
theory Triple
  imports Enums
begin

text \<open>
  Target triples, \<open>source/core/triple/triple.c\<close>: their text, the platforms that are supported, the
  completion of a partial triple, and the names of the files of a target. The triple of the host
  is left out: it comes from the preprocessor and the ELF header of \<open>/bin/sh\<close>.
\<close>

record spn_triple_t =
  tr_arch :: spn_arch_t
  tr_os :: spn_os_t
  tr_abi :: spn_abi_t

section \<open>Text\<close>

text \<open>The loop over the segments; \<open>None\<close> is the error.\<close>

function triple_segments :: "nat \<Rightarrow> string \<Rightarrow> string list option" where
  "triple_segments num_segments remaining =
    (let segment = takeWhile (\<lambda>c. c \<noteq> CHR ''-'') remaining;
         rest = drop (length segment) remaining
     in if segment = [] \<or> num_segments = 3 then None
        else if rest = [] then Some [segment]
        else map_option ((#) segment) (triple_segments (num_segments + 1) (tl rest)))"
  by pat_completeness auto
termination
  by (relation "measure (length \<circ> snd)") (auto simp: length_takeWhile_le le_less_trans)

declare triple_segments.simps [simp del]

definition spn_triple_parse :: "string \<Rightarrow> spn_triple_t option" where
  "spn_triple_parse str =
    (case triple_segments 0 str of
       None \<Rightarrow> None
     | Some segments \<Rightarrow>
        (let arch = spn_arch_from_str (segments ! 0);
             os = (if 1 < length segments then spn_os_from_str (segments ! 1) else SPN_OS_NONE);
             abi = (if 2 < length segments then spn_abi_from_str (segments ! 2) else SPN_ABI_NONE)
         in if arch = SPN_ARCH_NONE then None
            else if 1 < length segments \<and> os = SPN_OS_NONE then None
            else if 2 < length segments \<and> abi = SPN_ABI_NONE then None
            else Some \<lparr>tr_arch = arch, tr_os = os, tr_abi = abi\<rparr>))"

definition spn_triple_parse_host :: "string \<Rightarrow> spn_triple_t option" where
  "spn_triple_parse_host str =
    (case spn_triple_parse str of
       None \<Rightarrow> None
     | Some triple \<Rightarrow> if tr_os triple = SPN_OS_NONE then None else Some triple)"

text \<open>\<open>None\<close> is the unreachable branch of the text of an abi.\<close>

definition spn_triple_to_str :: "spn_triple_t \<Rightarrow> string option" where
  "spn_triple_to_str triple =
    (let arch = spn_arch_to_str (tr_arch triple); os = spn_os_to_str (tr_os triple)
     in case spn_abi_to_str (tr_abi triple) of
          None \<Rightarrow> None
        | Some abi \<Rightarrow>
            Some (if tr_abi triple \<noteq> SPN_ABI_NONE then arch @ ''-'' @ os @ ''-'' @ abi
                  else if tr_os triple \<noteq> SPN_OS_NONE then arch @ ''-'' @ os
                  else arch))"

definition str_contains :: "string \<Rightarrow> string \<Rightarrow> bool" where
  "str_contains s part \<longleftrightarrow> list_ex (\<lambda>i. take (length part) (drop i s) = part) [0..<Suc (length s)]"

definition spn_abi_from_interp :: "string \<Rightarrow> spn_abi_t" where
  "spn_abi_from_interp interp =
    (if str_contains interp ''ld-musl'' then SPN_ABI_MUSL
     else if str_contains interp ''ld-linux'' then SPN_ABI_GNU
     else SPN_ABI_NONE)"

section \<open>Platforms\<close>

text \<open>The abis of a platform, and how many of them complete a triple without one.\<close>

fun os_abis :: "spn_os_t \<Rightarrow> spn_abi_t list \<times> nat" where
  "os_abis SPN_OS_LINUX = ([SPN_ABI_GNU, SPN_ABI_MUSL, SPN_ABI_BARE], 2)"
| "os_abis SPN_OS_WINDOWS = ([SPN_ABI_GNU, SPN_ABI_MSVC], 2)"
| "os_abis SPN_OS_MACOS = ([SPN_ABI_APPLE], 1)"
| "os_abis SPN_OS_WASI = ([SPN_ABI_MUSL], 1)"
| "os_abis SPN_OS_FREESTANDING = ([SPN_ABI_BARE, SPN_ABI_ELF], 2)"
| "os_abis SPN_OS_NONE = ([], 0)"

definition spn_os_abis :: "spn_os_t \<Rightarrow> spn_abi_t list" where
  "spn_os_abis os = fst (os_abis os)"

definition spn_os_completions :: "spn_os_t \<Rightarrow> spn_abi_t list" where
  "spn_os_completions os = take (snd (os_abis os)) (fst (os_abis os))"

fun spn_os_archs :: "spn_os_t \<Rightarrow> spn_arch_t list" where
  "spn_os_archs SPN_OS_LINUX = [SPN_ARCH_X64, SPN_ARCH_ARM64]"
| "spn_os_archs SPN_OS_WINDOWS = [SPN_ARCH_X64, SPN_ARCH_ARM64]"
| "spn_os_archs SPN_OS_MACOS = [SPN_ARCH_X64, SPN_ARCH_ARM64]"
| "spn_os_archs SPN_OS_FREESTANDING = [SPN_ARCH_X64, SPN_ARCH_ARM64]"
| "spn_os_archs SPN_OS_WASI = [SPN_ARCH_WASM32]"
| "spn_os_archs SPN_OS_NONE = []"

definition os_has_arch :: "spn_os_t \<Rightarrow> spn_arch_t \<Rightarrow> bool" where
  "os_has_arch os arch \<longleftrightarrow> list_ex (\<lambda>a. a = arch) (spn_os_archs os)"

definition os_has_abi :: "spn_os_t \<Rightarrow> spn_abi_t \<Rightarrow> bool" where
  "os_has_abi os abi \<longleftrightarrow> list_ex (\<lambda>a. a = abi) (spn_os_abis os)"

definition spn_os_triples :: "spn_arch_t \<Rightarrow> spn_os_t \<Rightarrow> spn_triple_t list" where
  "spn_os_triples arch os = map (\<lambda>abi. \<lparr>tr_arch = arch, tr_os = os, tr_abi = abi\<rparr>) (spn_os_abis os)"

definition spn_arch_triples :: "spn_arch_t \<Rightarrow> spn_triple_t list" where
  "spn_arch_triples arch =
     concat (map (\<lambda>os. if \<not> os_has_arch os arch then []
                       else map (\<lambda>abi. \<lparr>tr_arch = arch, tr_os = os, tr_abi = abi\<rparr>) (spn_os_abis os))
       [SPN_OS_LINUX, SPN_OS_WINDOWS, SPN_OS_MACOS, SPN_OS_WASI, SPN_OS_FREESTANDING])"

text \<open>\<open>None\<close> is the unreachable branch.\<close>

fun spn_os_to_native_object_format :: "spn_os_t \<Rightarrow> spn_obj_format_t option" where
  "spn_os_to_native_object_format SPN_OS_LINUX = Some SPN_OBJ_ELF"
| "spn_os_to_native_object_format SPN_OS_FREESTANDING = Some SPN_OBJ_ELF"
| "spn_os_to_native_object_format SPN_OS_WINDOWS = Some SPN_OBJ_COFF"
| "spn_os_to_native_object_format SPN_OS_MACOS = Some SPN_OBJ_MACHO"
| "spn_os_to_native_object_format SPN_OS_WASI = Some SPN_OBJ_WASM"
| "spn_os_to_native_object_format SPN_OS_NONE = None"

definition spn_triple_dynamic :: "spn_triple_t \<Rightarrow> bool" where
  "spn_triple_dynamic triple \<longleftrightarrow>
    (if tr_abi triple = SPN_ABI_BARE then False
     else case tr_os triple of
       SPN_OS_LINUX \<Rightarrow> True | SPN_OS_WINDOWS \<Rightarrow> True | SPN_OS_MACOS \<Rightarrow> True
     | SPN_OS_WASI \<Rightarrow> False | SPN_OS_FREESTANDING \<Rightarrow> False | SPN_OS_NONE \<Rightarrow> False)"

definition spn_triple_pic :: "spn_triple_t \<Rightarrow> bool" where
  "spn_triple_pic triple \<longleftrightarrow>
     spn_triple_dynamic triple \<and> spn_os_to_native_object_format (tr_os triple) \<noteq> Some SPN_OBJ_COFF"

section \<open>Partial triples\<close>

datatype spn_triple_entry_t =
  SPN_TRIPLE_ENTRY_OK
  | SPN_TRIPLE_ENTRY_MISSING_ARCH
  | SPN_TRIPLE_ENTRY_MISSING_OS
  | SPN_TRIPLE_ENTRY_MISSING_ABI
  | SPN_TRIPLE_ENTRY_FOREIGN_ARCH
  | SPN_TRIPLE_ENTRY_FOREIGN_ABI

definition triple_zero :: spn_triple_t where
  "triple_zero = \<lparr>tr_arch = SPN_ARCH_NONE, tr_os = SPN_OS_NONE, tr_abi = SPN_ABI_NONE\<rparr>"

definition spn_triple_entry :: "spn_triple_t \<Rightarrow> spn_triple_entry_t \<times> spn_triple_t" where
  "spn_triple_entry partial =
    (if tr_arch partial = SPN_ARCH_NONE then (SPN_TRIPLE_ENTRY_MISSING_ARCH, triple_zero)
     else if tr_os partial = SPN_OS_NONE then (SPN_TRIPLE_ENTRY_MISSING_OS, triple_zero)
     else if \<not> os_has_arch (tr_os partial) (tr_arch partial) then (SPN_TRIPLE_ENTRY_FOREIGN_ARCH, triple_zero)
     else if tr_abi partial \<noteq> SPN_ABI_NONE then
       (if \<not> os_has_abi (tr_os partial) (tr_abi partial) then (SPN_TRIPLE_ENTRY_FOREIGN_ABI, triple_zero)
        else (SPN_TRIPLE_ENTRY_OK, partial))
     else
       (let abis = spn_os_completions (tr_os partial)
        in if length abis \<noteq> 1 then (SPN_TRIPLE_ENTRY_MISSING_ABI, triple_zero)
           else (SPN_TRIPLE_ENTRY_OK,
             \<lparr>tr_arch = tr_arch partial, tr_os = tr_os partial, tr_abi = abis ! 0\<rparr>)))"

definition spn_triple_merge :: "spn_triple_t \<Rightarrow> spn_triple_t \<Rightarrow> spn_triple_t" where
  "spn_triple_merge base partial =
     \<lparr>tr_arch = (if tr_arch partial \<noteq> SPN_ARCH_NONE then tr_arch partial else tr_arch base),
      tr_os = (if tr_os partial \<noteq> SPN_OS_NONE then tr_os partial else tr_os base),
      tr_abi = (if tr_abi partial \<noteq> SPN_ABI_NONE then tr_abi partial else tr_abi base)\<rparr>"

definition spn_triple_match :: "spn_triple_t \<Rightarrow> spn_triple_t \<Rightarrow> bool" where
  "spn_triple_match entry target \<longleftrightarrow>
    (if tr_arch entry \<noteq> SPN_ARCH_NONE \<and> tr_arch entry \<noteq> tr_arch target then False
     else if tr_os entry \<noteq> SPN_OS_NONE \<and> tr_os entry \<noteq> tr_os target then False
     else if tr_abi entry \<noteq> SPN_ABI_NONE \<and> tr_abi entry \<noteq> tr_abi target then False
     else True)"

definition spn_triple_equal :: "spn_triple_t \<Rightarrow> spn_triple_t \<Rightarrow> bool" where
  "spn_triple_equal a b \<longleftrightarrow> tr_arch a = tr_arch b \<and> tr_os a = tr_os b \<and> tr_abi a = tr_abi b"

definition spn_triple_in :: "spn_triple_t list \<Rightarrow> spn_triple_t \<Rightarrow> bool" where
  "spn_triple_in triples triple \<longleftrightarrow> list_ex (\<lambda>t. spn_triple_equal t triple) triples"

section \<open>File names\<close>

datatype triple_lib_kind = TRIPLE_LIB_STATIC | TRIPLE_LIB_SHARED

definition spn_triple_lib_file_name :: "spn_triple_t \<Rightarrow> string \<Rightarrow> triple_lib_kind \<Rightarrow> string" where
  "spn_triple_lib_file_name triple name kind =
    (case kind of
       TRIPLE_LIB_STATIC \<Rightarrow>
         if tr_os triple = SPN_OS_WINDOWS \<and> tr_abi triple = SPN_ABI_MSVC then name @ ''.lib''
         else ''lib'' @ name @ ''.a''
     | TRIPLE_LIB_SHARED \<Rightarrow>
         (case tr_os triple of
            SPN_OS_WINDOWS \<Rightarrow> name @ ''.dll''
          | SPN_OS_MACOS \<Rightarrow> ''lib'' @ name @ ''.dylib''
          | _ \<Rightarrow> ''lib'' @ name @ ''.so''))"

definition spn_triple_exe_file_name :: "spn_triple_t \<Rightarrow> string \<Rightarrow> string" where
  "spn_triple_exe_file_name triple name =
    (case tr_os triple of
       SPN_OS_WINDOWS \<Rightarrow> name @ ''.exe''
     | SPN_OS_WASI \<Rightarrow> name @ ''.wasm''
     | SPN_OS_FREESTANDING \<Rightarrow> name @ ''.elf''
     | _ \<Rightarrow> name)"

section \<open>The text of a triple\<close>

fun dashed :: "string list \<Rightarrow> string" where
  "dashed [] = []"
| "dashed [s] = s"
| "dashed (s # ss) = s @ ''-'' @ dashed ss"

definition segment_ok :: "string \<Rightarrow> bool" where
  "segment_ok s \<longleftrightarrow> s \<noteq> [] \<and> CHR ''-'' \<notin> set s"

lemma takeWhile_segment: "CHR ''-'' \<notin> set s \<Longrightarrow> takeWhile (\<lambda>c. c \<noteq> CHR ''-'') (s @ CHR ''-'' # t) = s"
  by (subst takeWhile_append2) auto

lemma segments_dashed:
  "segs \<noteq> [] \<Longrightarrow> \<forall>s \<in> set segs. segment_ok s \<Longrightarrow> n + length segs \<le> 3 \<Longrightarrow>
   triple_segments n (dashed segs) = Some segs"
proof (induction segs arbitrary: n rule: dashed.induct)
  case (2 s)
  have whole: "takeWhile (\<lambda>c. c \<noteq> CHR ''-'') s = s"
    unfolding takeWhile_eq_all_conv using 2 by (auto simp: segment_ok_def)
  show ?case using 2 by (simp add: triple_segments.simps [of n s] whole Let_def segment_ok_def)
next
  case (3 s s' ss)
  then have s: "CHR ''-'' \<notin> set s" "s \<noteq> []" by (auto simp: segment_ok_def)
  show ?case
    using 3 s takeWhile_segment [OF s(1)]
    by (simp add: triple_segments.simps [of n "s @ CHR ''-'' # dashed (s' # ss)"])
qed simp

lemma dashed_segments:
  "triple_segments n str = Some segs \<Longrightarrow> n \<le> 3 \<Longrightarrow>
   segs \<noteq> [] \<and> (\<forall>s \<in> set segs. segment_ok s) \<and> n + length segs \<le> 3 \<and> str = dashed segs"
proof (induction n str arbitrary: segs rule: triple_segments.induct)
  case (1 n remaining)
  let ?segment = "takeWhile (\<lambda>c. c \<noteq> CHR ''-'') remaining"
  let ?rest = "drop (length ?segment) remaining"
  have ne: "?segment \<noteq> []" "n \<noteq> 3" using 1(2) by (auto simp: triple_segments.simps [of n remaining] Let_def split: if_splits)
  have ok: "segment_ok ?segment" using ne(1) by (auto simp: segment_ok_def dest: set_takeWhileD)
  have split: "remaining = ?segment @ ?rest" by (metis takeWhile_dropWhile_id dropWhile_eq_drop)
  show ?case
  proof (cases "?rest = []")
    case True
    then have "segs = [?segment]" using 1(2) ne by (simp add: triple_segments.simps [of n remaining] Let_def)
    then show ?thesis using ok split True ne(2) 1(3) by simp
  next
    case False
    then obtain more where more: "triple_segments (n + 1) (tl ?rest) = Some more" "segs = ?segment # more"
      using 1(2) ne by (auto simp: triple_segments.simps [of n remaining] Let_def)
    from 1(1) [OF refl refl _ False more(1)] ne 1(3)
    have tail: "more \<noteq> []" "\<forall>s \<in> set more. segment_ok s" "n + 1 + length more \<le> 3" "tl ?rest = dashed more"
      by auto
    have "hd ?rest = CHR ''-''"
      using False hd_dropWhile [of "\<lambda>c. c \<noteq> CHR ''-''" remaining] by (simp add: dropWhile_eq_drop)
    then have "?rest = CHR ''-'' # tl ?rest" using False by (metis list.collapse)
    then have "remaining = ?segment @ ''-'' @ dashed more" using split tail(4) by simp
    moreover have "dashed (?segment # more) = ?segment @ ''-'' @ dashed more" using tail(1) by (cases more) simp_all
    ultimately show ?thesis using ok tail more(2) by simp
  qed
qed


definition triple_writable :: "spn_triple_t \<Rightarrow> bool" where
  "triple_writable t \<longleftrightarrow> tr_arch t \<noteq> SPN_ARCH_NONE \<and> tr_abi t \<noteq> SPN_ABI_COUNT \<and>
     (tr_os t = SPN_OS_NONE \<longrightarrow> tr_abi t = SPN_ABI_NONE)"

lemma arch_segment: "a \<noteq> SPN_ARCH_NONE \<Longrightarrow> segment_ok (spn_arch_to_str a)"
  by (cases a) (simp_all add: segment_ok_def)

lemma os_segment: "os \<noteq> SPN_OS_NONE \<Longrightarrow> segment_ok (spn_os_to_str os)"
  by (cases os) (simp_all add: segment_ok_def)

lemma abi_segment: "abi \<noteq> SPN_ABI_NONE \<Longrightarrow> spn_abi_to_str abi = Some s \<Longrightarrow> segment_ok s"
  by (cases abi) (auto simp: segment_ok_def)

lemma triple_text_parses:
  assumes "triple_writable t" "spn_triple_to_str t = Some s"
  shows "spn_triple_parse s = Some t"
proof -
  obtain abi where abi: "spn_abi_to_str (tr_abi t) = Some abi"
    using assms(2) by (auto simp: spn_triple_to_str_def Let_def split: option.splits)
  let ?segs = "[spn_arch_to_str (tr_arch t)] @ (if tr_os t = SPN_OS_NONE then [] else [spn_os_to_str (tr_os t)]) @
      (if tr_abi t = SPN_ABI_NONE then [] else [abi])"
  have s: "s = dashed ?segs"
    using assms abi by (auto simp: spn_triple_to_str_def triple_writable_def Let_def)
  have "triple_segments 0 s = Some ?segs"
    unfolding s using assms(1) abi_segment [OF _ abi] arch_segment os_segment
    by (intro segments_dashed) (auto simp: triple_writable_def)
  moreover have "spn_arch_from_str (spn_arch_to_str (tr_arch t)) = tr_arch t"
    "spn_os_from_str (spn_os_to_str (tr_os t)) = tr_os t" "spn_abi_from_str abi = tr_abi t"
    using arch.reads [OF refl] os.reads [OF refl] abi.reads [OF abi] by simp_all
  ultimately show ?thesis using assms(1) by (auto simp: spn_triple_parse_def triple_writable_def Let_def)
qed

lemma abi_from_counts [simp]: "spn_abi_from_str s \<noteq> SPN_ABI_COUNT"
  by (simp add: spn_abi_from_str_def)

lemma triple_parse_text:
  assumes "spn_triple_parse s = Some t"
  shows "triple_writable t" "spn_triple_to_str t = Some s"
proof -
  obtain segs where segs: "triple_segments 0 s = Some segs"
    using assms by (auto simp: spn_triple_parse_def split: option.splits)
  from dashed_segments [OF this] have shape: "segs \<noteq> []" "length segs \<le> 3" "s = dashed segs" by auto
  then consider a where "segs = [a]" | a o' where "segs = [a, o']" | a o' b where "segs = [a, o', b]"
    by (cases segs rule: dashed.cases; cases "tl (tl segs)"; cases "tl (tl (tl segs))") auto
  then have "triple_writable t \<and> spn_triple_to_str t = Some s"
  proof cases
    case (1 a)
    then show ?thesis using assms segs shape(3)
      by (auto simp: spn_triple_parse_def triple_writable_def spn_triple_to_str_def Let_def
          arch.canon [of a, simplified] split: if_splits)
  next
    case (2 a o')
    then show ?thesis using assms segs shape(3)
      by (auto simp: spn_triple_parse_def triple_writable_def spn_triple_to_str_def Let_def
          arch.canon [of a, simplified] os.canon [of o', simplified] split: if_splits)
  next
    case (3 a o' b)
    then show ?thesis using assms segs shape(3)
      by (auto simp: spn_triple_parse_def triple_writable_def spn_triple_to_str_def Let_def
          arch.canon [of a, simplified] os.canon [of o', simplified] abi.canon [of b, simplified] split: if_splits)
  qed
  then show "triple_writable t" "spn_triple_to_str t = Some s" by auto
qed

section \<open>Properties\<close>

text \<open>C39: a text is read as a triple exactly when it is the text of that triple and the triple has
  an architecture, and a platform if it has an abi.\<close>

theorem triple_text_canonical:
  "(spn_triple_parse s = Some t) = (triple_writable t \<and> spn_triple_to_str t = Some s)"
  using triple_text_parses triple_parse_text by blast

text \<open>C40: an entry of a configuration is completed to a triple exactly when that is a supported
  triple of its architecture and platform, and its abi is the one given, or the only one that
  completes the platform. What is merged over a base matches its entry.\<close>

theorem triple_entry_completes:
  "(spn_triple_entry partial = (SPN_TRIPLE_ENTRY_OK, full)) =
     (spn_triple_in (spn_arch_triples (tr_arch partial)) full \<and> tr_os full = tr_os partial \<and>
      (tr_abi full = tr_abi partial \<or> tr_abi partial = SPN_ABI_NONE \<and> spn_os_completions (tr_os partial) = [tr_abi full])) \<and>
   spn_triple_match partial (spn_triple_merge base partial)"
  by (cases partial; cases full; cases "tr_arch partial"; cases "tr_os partial"; cases "tr_abi partial")
    (auto simp: spn_triple_entry_def spn_triple_in_def spn_triple_equal_def spn_arch_triples_def os_has_arch_def
      os_has_abi_def spn_os_abis_def spn_os_completions_def triple_zero_def spn_triple_match_def spn_triple_merge_def)

end
