(* ===== verification/Toml.thy ===== *)
theory Toml
  imports Prelude
begin

text \<open>
  The editor of manifests, \<open>source/core/toml/edit.c\<close>: a scan of the text into sections and entries
  that keeps the position of every key and value, the search for an entry, the splices that set a
  value, and the rendering of the edited text.

  The parser of the code is a pointer to the text, a position and a flag for errors. Here the text
  and the position are arguments, the new position is a result, and the flag is \<open>None\<close> where its
  callers only look at it. Positions are natural numbers: the code has 32 bits for them, so the
  text must be shorter than 4 GB. The encoder of UTF-8 is a function of the runtime library and the
  argument \<open>utf8\<close>.
\<close>

section \<open>Data\<close>

datatype spn_toml_edit_value_kind_t =
    SPN_TOML_EDIT_VALUE_SCALAR
  | SPN_TOML_EDIT_VALUE_STRING
  | SPN_TOML_EDIT_VALUE_ARRAY
  | SPN_TOML_EDIT_VALUE_TABLE

record spn_toml_edit_span_t =
  span_start :: nat
  span_end :: nat

datatype spn_toml_edit_entry_t =
  Entry (te_path: "string list") (te_kind: spn_toml_edit_value_kind_t) (te_key: spn_toml_edit_span_t)
    (te_value: spn_toml_edit_span_t) (te_line_end: nat) (te_entries: "spn_toml_edit_entry_t list")

record spn_toml_edit_section_t =
  ts_path :: "string list"
  ts_array :: bool
  ts_content :: nat
  ts_entries :: "spn_toml_edit_entry_t list"

record spn_toml_edit_splice_t =
  tp_at :: nat
  tp_remove :: nat
  tp_seq :: nat
  tp_insert :: string

record spn_toml_edit_t =
  ed_source :: string
  ed_eol :: string
  ed_sections :: "spn_toml_edit_section_t list"
  ed_splices :: "spn_toml_edit_splice_t list"

text \<open>What a scan that recurses with fuel returns: it ran out of fuel, it failed, or a result.\<close>

datatype 'a scanned = SCAN_STUCK | SCAN_FAIL | SCAN_OK 'a

section \<open>Characters and positions\<close>

definition spn_toml_edit_peek_at :: "string \<Rightarrow> nat \<Rightarrow> nat \<Rightarrow> char" where
  "spn_toml_edit_peek_at src it offset =
    (if length src \<le> it + offset then CHR 0x00 else src ! (it + offset))"

definition spn_toml_edit_peek :: "string \<Rightarrow> nat \<Rightarrow> char" where
  "spn_toml_edit_peek src it = spn_toml_edit_peek_at src it 0"

definition spn_toml_edit_done :: "string \<Rightarrow> nat \<Rightarrow> bool" where
  "spn_toml_edit_done src it = (length src \<le> it)"

definition spn_toml_edit_accept :: "string \<Rightarrow> nat \<Rightarrow> char \<Rightarrow> bool \<times> nat" where
  "spn_toml_edit_accept src it c = (if spn_toml_edit_peek src it \<noteq> c then (False, it) else (True, it + 1))"

definition spn_toml_edit_is_whitespace :: "char \<Rightarrow> bool" where
  "spn_toml_edit_is_whitespace c = (c = CHR '' '' \<or> c = CHR 0x09)"

definition spn_toml_edit_is_blank :: "char \<Rightarrow> bool" where
  "spn_toml_edit_is_blank c = (spn_toml_edit_is_whitespace c \<or> c = CHR 0x0D \<or> c = CHR 0x0A)"

text \<open>\<open>'a' \<le> c \<and> c \<le> 'z'\<close> and the like.\<close>

definition char_between :: "char \<Rightarrow> char \<Rightarrow> char \<Rightarrow> bool" where
  "char_between a b c = ((of_char a :: nat) \<le> of_char c \<and> (of_char c :: nat) \<le> of_char b)"

definition spn_toml_edit_is_bare :: "char \<Rightarrow> bool" where
  "spn_toml_edit_is_bare c =
    (char_between (CHR ''a'') (CHR ''z'') c \<or> char_between (CHR ''A'') (CHR ''Z'') c \<or>
     char_between (CHR ''0'') (CHR ''9'') c \<or> c = CHR ''_'' \<or> c = CHR ''-'')"

definition spn_toml_edit_is_hex :: "char \<Rightarrow> bool" where
  "spn_toml_edit_is_hex c =
    (char_between (CHR ''0'') (CHR ''9'') c \<or> char_between (CHR ''a'') (CHR ''f'') c \<or>
     char_between (CHR ''A'') (CHR ''F'') c)"

definition spn_toml_edit_hex :: "char \<Rightarrow> u32" where
  "spn_toml_edit_hex c =
    (if char_between (CHR ''0'') (CHR ''9'') c then of_nat (of_char c - of_char (CHR ''0''))
     else if char_between (CHR ''a'') (CHR ''f'') c then of_nat (of_char c - of_char (CHR ''a'') + 10)
     else of_nat (of_char c - of_char (CHR ''A'') + 10))"

text \<open>\<open>while (!done && p(peek)) eat\<close>, the loop of the functions that skip. Where the code does not
  test for the end, the character that is peeked there, zero, does not satisfy \<open>p\<close>.\<close>

function toml_skip :: "(char \<Rightarrow> bool) \<Rightarrow> string \<Rightarrow> nat \<Rightarrow> nat" where
  "toml_skip p src it =
    (if \<not> spn_toml_edit_done src it \<and> p (spn_toml_edit_peek src it) then toml_skip p src (it + 1) else it)"
  by pat_completeness auto
termination
  by (relation "measure (\<lambda>(p, src, it). length src - it)") (auto simp: spn_toml_edit_done_def)

declare toml_skip.simps [simp del]

definition spn_toml_edit_skip_whitespace :: "string \<Rightarrow> nat \<Rightarrow> nat" where
  "spn_toml_edit_skip_whitespace = toml_skip spn_toml_edit_is_whitespace"

definition spn_toml_edit_skip_blank :: "string \<Rightarrow> nat \<Rightarrow> nat" where
  "spn_toml_edit_skip_blank = toml_skip spn_toml_edit_is_blank"

definition spn_toml_edit_skip_comment :: "string \<Rightarrow> nat \<Rightarrow> nat" where
  "spn_toml_edit_skip_comment src it =
    (if spn_toml_edit_peek src it \<noteq> CHR ''#'' then it else toml_skip (\<lambda>c. c \<noteq> CHR 0x0A) src it)"

definition spn_toml_edit_skip_line_end :: "string \<Rightarrow> nat \<Rightarrow> bool \<times> nat" where
  "spn_toml_edit_skip_line_end src it =
    (let it = spn_toml_edit_skip_comment src (spn_toml_edit_skip_whitespace src it)
     in if spn_toml_edit_done src it then (True, it)
        else spn_toml_edit_accept src (snd (spn_toml_edit_accept src it (CHR 0x0D))) (CHR 0x0A))"

section \<open>Strings\<close>

definition spn_toml_edit_codepoint_valid :: "u32 \<Rightarrow> bool" where
  "spn_toml_edit_codepoint_valid codepoint =
    (if 0x10FFFF < codepoint then False else codepoint < 0xD800 \<or> 0xDFFF < codepoint)"

primrec unicode_digits :: "string \<Rightarrow> nat \<Rightarrow> nat \<Rightarrow> u32 \<Rightarrow> bool \<times> nat \<times> u32" where
  "unicode_digits src 0 it codepoint = (True, it, codepoint)"
| "unicode_digits src (Suc n) it codepoint =
    (let digit = spn_toml_edit_peek src it
     in if \<not> spn_toml_edit_is_hex digit then (False, it, codepoint)
        else unicode_digits src n (it + 1) (codepoint * 16 + spn_toml_edit_hex digit))"

text \<open>A scan for the text of an escape returns whether it is one, the position and what it writes.\<close>

definition spn_toml_edit_scan_unicode :: "(u32 \<Rightarrow> string) \<Rightarrow> string \<Rightarrow> nat \<Rightarrow> char \<Rightarrow> bool \<times> nat \<times> string" where
  "spn_toml_edit_scan_unicode utf8 src it kind =
    (case unicode_digits src (if kind = CHR ''u'' then 4 else 8) it 0 of
       (ok, it, codepoint) \<Rightarrow>
         if ok \<and> spn_toml_edit_codepoint_valid codepoint then (True, it, utf8 codepoint) else (False, it, []))"

definition spn_toml_edit_unescape :: "(u32 \<Rightarrow> string) \<Rightarrow> string \<Rightarrow> nat \<Rightarrow> bool \<times> nat \<times> string" where
  "spn_toml_edit_unescape utf8 src it =
    (let c = spn_toml_edit_peek src it; it = it + 1
     in if c = CHR ''b'' then (True, it, [CHR 0x08])
        else if c = CHR ''t'' then (True, it, [CHR 0x09])
        else if c = CHR ''n'' then (True, it, [CHR 0x0A])
        else if c = CHR ''f'' then (True, it, [CHR 0x0C])
        else if c = CHR ''r'' then (True, it, [CHR 0x0D])
        else if c = CHR 0x22 then (True, it, [CHR 0x22])
        else if c = CHR 0x5C then (True, it, [CHR 0x5C])
        else if c = CHR ''u'' \<or> c = CHR ''U'' then spn_toml_edit_scan_unicode utf8 src it c
        else (False, it, []))"

lemma unicode_digits_forward: "it \<le> fst (snd (unicode_digits src n it codepoint))"
  by (induction n arbitrary: it codepoint) (auto simp: Let_def intro: Suc_leD)

lemma unescape_forward: "it < fst (snd (spn_toml_edit_unescape utf8 src it))"
  using unicode_digits_forward [of "it + 1" src 4 0] unicode_digits_forward [of "it + 1" src 8 0]
  by (auto simp: spn_toml_edit_unescape_def spn_toml_edit_scan_unicode_def Let_def split: prod.splits)

function basic_loop :: "(u32 \<Rightarrow> string) \<Rightarrow> string \<Rightarrow> nat \<Rightarrow> string \<Rightarrow> (string \<times> nat) option" where
  "basic_loop utf8 src it decoded =
    (let c = spn_toml_edit_peek src it
     in if spn_toml_edit_done src it \<or> c = CHR 0x0A then None
        else if c = CHR 0x22 then Some (decoded, it + 1)
        else if c = CHR 0x5C then
          (case spn_toml_edit_unescape utf8 src (it + 1) of
             (ok, it', text) \<Rightarrow> if ok then basic_loop utf8 src it' (decoded @ text) else None)
        else basic_loop utf8 src (it + 1) (decoded @ [c]))"
  by pat_completeness auto
termination
proof (relation "measure (\<lambda>(utf8, src, it, decoded). length src - it)", goal_cases)
  case (2 utf8 src it decoded c ok r it' written)
  then have "it + 1 < it'" using unescape_forward [of "it + 1" utf8 src] by (metis fst_conv snd_conv)
  then show ?case using 2 by (auto simp: spn_toml_edit_done_def)
qed (auto simp: spn_toml_edit_done_def)

declare basic_loop.simps [simp del]

definition spn_toml_edit_parse_basic :: "(u32 \<Rightarrow> string) \<Rightarrow> string \<Rightarrow> nat \<Rightarrow> (string \<times> nat) option" where
  "spn_toml_edit_parse_basic utf8 src it = basic_loop utf8 src (it + 1) []"

text \<open>\<open>sp_str_sub\<close> with a start and a length.\<close>

definition str_sub :: "string \<Rightarrow> nat \<Rightarrow> nat \<Rightarrow> string" where
  "str_sub src start len = take len (drop start src)"

definition spn_toml_edit_parse_literal :: "string \<Rightarrow> nat \<Rightarrow> (string \<times> nat) option" where
  "spn_toml_edit_parse_literal src it =
    (let start = it + 1;
         it = toml_skip (\<lambda>c. c \<noteq> CHR 0x0A \<and> c \<noteq> CHR 0x27) src start
     in if spn_toml_edit_done src it \<or> spn_toml_edit_peek src it = CHR 0x0A then None
        else Some (str_sub src start (it - start), it + 1))"

definition key_segment :: "(u32 \<Rightarrow> string) \<Rightarrow> string \<Rightarrow> nat \<Rightarrow> (string \<times> nat) option" where
  "key_segment utf8 src it =
    (let c = spn_toml_edit_peek src it
     in if c = CHR 0x22 then spn_toml_edit_parse_basic utf8 src it
        else if c = CHR 0x27 then spn_toml_edit_parse_literal src it
        else
          (let stop = toml_skip spn_toml_edit_is_bare src it
           in if stop = it then None else Some (str_sub src it (stop - it), stop)))"

lemma toml_skip_forward: "it \<le> toml_skip p src it"
  by (induction p src it rule: toml_skip.induct) (subst toml_skip.simps, auto)

lemma basic_loop_forward: "basic_loop utf8 src it decoded = Some (text, it') \<Longrightarrow> it < it'"
proof (induction utf8 src it decoded rule: basic_loop.induct)
  case (1 utf8 src it decoded)
  show ?case
    using 1 unescape_forward [of "it + 1" utf8 src]
    by (subst (asm) basic_loop.simps) (fastforce simp: Let_def split: if_splits prod.splits)
qed

lemma key_segment_forward: "key_segment utf8 src it = Some (segment, it') \<Longrightarrow> it < it'"
  using toml_skip_forward [of it spn_toml_edit_is_bare src]
    toml_skip_forward [of "it + 1" "\<lambda>c. c \<noteq> CHR 0x0A \<and> c \<noteq> CHR 0x27" src]
  by (auto simp: key_segment_def spn_toml_edit_parse_basic_def spn_toml_edit_parse_literal_def Let_def
      split: if_splits dest: basic_loop_forward)

function key_loop :: "(u32 \<Rightarrow> string) \<Rightarrow> string \<Rightarrow> nat \<Rightarrow> string list \<Rightarrow> (string list \<times> nat) option" where
  "key_loop utf8 src it segments =
    (case key_segment utf8 src (spn_toml_edit_skip_whitespace src it) of
       None \<Rightarrow> None
     | Some (segment, it') \<Rightarrow>
         (case spn_toml_edit_accept src (spn_toml_edit_skip_whitespace src it') (CHR ''.'') of
            (dot, it'') \<Rightarrow>
              if dot then key_loop utf8 src it'' (segments @ [segment]) else Some (segments @ [segment], it'')))"
  by pat_completeness auto
termination
proof (relation "measure (\<lambda>(utf8, src, it, segments). length src - it)", goal_cases)
  case (2 utf8 src it segments r segment it' dot it'')
  have "it \<le> spn_toml_edit_skip_whitespace src it" "it' \<le> spn_toml_edit_skip_whitespace src it'"
    by (simp_all add: spn_toml_edit_skip_whitespace_def toml_skip_forward)
  moreover have "spn_toml_edit_skip_whitespace src it < it'" using 2 key_segment_forward by auto
  ultimately show ?case using 2
    by (auto simp: spn_toml_edit_accept_def spn_toml_edit_peek_def spn_toml_edit_peek_at_def split: if_splits)
qed simp

declare key_loop.simps [simp del]

definition spn_toml_edit_parse_key :: "(u32 \<Rightarrow> string) \<Rightarrow> string \<Rightarrow> nat \<Rightarrow> (string list \<times> nat) option" where
  "spn_toml_edit_parse_key utf8 src it = key_loop utf8 src it []"

definition spn_toml_edit_escape_valid :: "char \<Rightarrow> bool \<Rightarrow> bool" where
  "spn_toml_edit_escape_valid c multiline =
    (if c \<in> set ''btnfruU'' \<union> {CHR 0x22, CHR 0x5C} then True
     else multiline \<and> spn_toml_edit_is_blank c)"

definition spn_toml_edit_scan_escape :: "string \<Rightarrow> nat \<Rightarrow> bool \<Rightarrow> bool \<times> nat" where
  "spn_toml_edit_scan_escape src it multiline =
    (let it = it + 1; c = spn_toml_edit_peek src it
     in if \<not> spn_toml_edit_escape_valid c multiline then (False, it)
        else if c = CHR ''u'' \<or> c = CHR ''U'' then
          (case spn_toml_edit_scan_unicode (\<lambda>_. []) src (it + 1) c of (ok, it, _) \<Rightarrow> (ok, it))
        else (True, it + 1))"

lemma scan_escape_forward: "it < snd (spn_toml_edit_scan_escape src it multiline)"
  using unicode_digits_forward [of "it + 2" src 4 0] unicode_digits_forward [of "it + 2" src 8 0]
  by (auto simp: spn_toml_edit_scan_escape_def spn_toml_edit_scan_unicode_def Let_def split: prod.splits)

text \<open>\<open>None\<close> is false.\<close>

function string_loop :: "string \<Rightarrow> nat \<Rightarrow> char \<Rightarrow> bool \<Rightarrow> nat option" where
  "string_loop src it quote multiline =
    (if spn_toml_edit_done src it then None
     else
       (let c = spn_toml_edit_peek src it
        in if c = CHR 0x0A \<and> \<not> multiline then None
           else if c = CHR 0x5C \<and> quote = CHR 0x22 then
             (case spn_toml_edit_scan_escape src it multiline of
                (ok, it') \<Rightarrow> if ok then string_loop src it' quote multiline else None)
           else if c \<noteq> quote then string_loop src (it + 1) quote multiline
           else if \<not> multiline then Some (it + 1)
           else
             (let it' = toml_skip (\<lambda>c. c = quote) src it; run = it' - it
              in if 3 \<le> run then (if run \<le> 5 then Some it' else None)
                 else string_loop src it' quote multiline)))"
  by pat_completeness auto
termination
proof (relation "measure (\<lambda>(src, it, quote, multiline). length src - it)", goal_cases)
  case (2 src it quote multiline c ok it')
  then have "it < it'" using scan_escape_forward [of it src multiline] by (metis snd_conv)
  then show ?case using 2 by (auto simp: spn_toml_edit_done_def)
next
  case (4 src it quote multiline c it' run)
  have "toml_skip (\<lambda>c. c = quote) src it = toml_skip (\<lambda>c. c = quote) src (it + 1)"
    using 4 by (subst toml_skip.simps) auto
  then have "it < it'" using 4 toml_skip_forward [of "it + 1" "\<lambda>c. c = quote" src] by simp
  then show ?case using 4 by (auto simp: spn_toml_edit_done_def)
qed (auto simp: spn_toml_edit_done_def)

declare string_loop.simps [simp del]

definition string_multiline :: "string \<Rightarrow> nat \<Rightarrow> bool" where
  "string_multiline src it =
    (spn_toml_edit_peek_at src it 1 = spn_toml_edit_peek src it \<and>
     spn_toml_edit_peek_at src it 2 = spn_toml_edit_peek src it)"

definition spn_toml_edit_scan_string :: "string \<Rightarrow> nat \<Rightarrow> nat option" where
  "spn_toml_edit_scan_string src it =
    (let quote = spn_toml_edit_peek src it; multiline = string_multiline src it
     in string_loop src (it + (if multiline then 3 else 1)) quote multiline)"

text \<open>The steps of the loop, one for each of its branches.\<close>

lemma string_loop_steps:
  "spn_toml_edit_done src it \<Longrightarrow> string_loop src it quote multiline = None"
  "spn_toml_edit_peek src it = CHR 0x0A \<Longrightarrow> \<not> multiline \<Longrightarrow> string_loop src it quote multiline = None"
  "\<not> spn_toml_edit_done src it \<Longrightarrow> spn_toml_edit_peek src it = CHR 0x5C \<Longrightarrow> quote = CHR 0x22 \<Longrightarrow>
    string_loop src it quote multiline =
      (if fst (spn_toml_edit_scan_escape src it multiline)
       then string_loop src (snd (spn_toml_edit_scan_escape src it multiline)) quote multiline else None)"
  "\<not> spn_toml_edit_done src it \<Longrightarrow> \<not> (spn_toml_edit_peek src it = CHR 0x0A \<and> \<not> multiline) \<Longrightarrow>
    \<not> (spn_toml_edit_peek src it = CHR 0x5C \<and> quote = CHR 0x22) \<Longrightarrow> spn_toml_edit_peek src it \<noteq> quote \<Longrightarrow>
    string_loop src it quote multiline = string_loop src (it + 1) quote multiline"
  "\<not> spn_toml_edit_done src it \<Longrightarrow> quote \<in> {CHR 0x22, CHR 0x27} \<Longrightarrow> spn_toml_edit_peek src it = quote \<Longrightarrow>
    string_loop src it quote False = Some (it + 1)"
  "\<not> spn_toml_edit_done src it \<Longrightarrow> quote \<in> {CHR 0x22, CHR 0x27} \<Longrightarrow> spn_toml_edit_peek src it = quote \<Longrightarrow>
    string_loop src it quote True =
      (let it' = toml_skip (\<lambda>c. c = quote) src it; run = it' - it
       in if 3 \<le> run then (if run \<le> 5 then Some it' else None) else string_loop src it' quote True)"
  by (subst string_loop.simps, (auto split: prod.splits)[])+

lemma toml_skip_inside: "it \<le> length src \<Longrightarrow> toml_skip p src it \<le> length src"
  by (induction p src it rule: toml_skip.induct) (subst toml_skip.simps, auto simp: spn_toml_edit_done_def)

lemma toml_skip_forward_strict:
  "\<not> spn_toml_edit_done src it \<Longrightarrow> p (spn_toml_edit_peek src it) \<Longrightarrow> it < toml_skip p src it"
  using toml_skip_forward [of "it + 1" p src] by (subst toml_skip.simps) auto

lemma string_loop_forward:
  "quote \<in> {CHR 0x22, CHR 0x27} \<Longrightarrow> string_loop src it quote multiline = Some it' \<Longrightarrow>
    it < it' \<and> it' \<le> length src"
proof (induction src it quote multiline rule: string_loop.induct)
  case (1 src it quote multiline)
  let ?c = "spn_toml_edit_peek src it"
  have going: "\<not> spn_toml_edit_done src it" "\<not> (?c = CHR 0x0A \<and> \<not> multiline)"
    using 1(5) string_loop_steps(1,2) [of src it] by force+
  consider (escape) "?c = CHR 0x5C" "quote = CHR 0x22" | (plain) "\<not> (?c = CHR 0x5C \<and> quote = CHR 0x22)" "?c \<noteq> quote"
    | (single) "?c = quote" "\<not> multiline" | (run) "?c = quote" "multiline" using 1(4) by blast
  then show ?case
  proof cases
    case escape
    then show ?thesis
      using 1(1) [OF going(1) refl going(2) _ prod.collapse] 1(5) going string_loop_steps(3) [OF going(1) escape]
        scan_escape_forward [of it src multiline] by (fastforce split: if_splits)
  next
    case plain
    then show ?thesis using 1(2) [OF going(1) refl going(2)] 1(4,5) going string_loop_steps(4) [OF going plain] by fastforce
  next
    case single
    then show ?thesis
      using 1(4,5) going string_loop_steps(5) [OF going(1), of quote] by (simp add: spn_toml_edit_done_def)
  next
    case run
    let ?to = "toml_skip (\<lambda>c. c = quote) src it"
    have "it < ?to \<and> ?to \<le> length src"
      using going run by (auto intro: toml_skip_forward_strict toml_skip_inside simp: spn_toml_edit_done_def)
    moreover have "?to = it' \<or> \<not> 3 \<le> ?to - it \<and> string_loop src ?to quote multiline = Some it'"
      using 1(4,5) string_loop_steps(6) [OF going(1), of quote] run by (auto simp: Let_def split: if_splits)
    moreover have "\<not> 3 \<le> ?to - it \<Longrightarrow> string_loop src ?to quote multiline = Some it' \<Longrightarrow>
        ?to < it' \<and> it' \<le> length src"
      using 1(3) [OF going(1) refl going(2) _ _ _ refl refl] 1(4) run by auto
    ultimately show ?thesis by fastforce
  qed
qed

lemma scan_string_forward:
  "spn_toml_edit_peek src it = CHR 0x22 \<or> spn_toml_edit_peek src it = CHR 0x27 \<Longrightarrow>
    spn_toml_edit_scan_string src it = Some it' \<Longrightarrow> it < it' \<and> it' \<le> length src"
  by (auto simp: spn_toml_edit_scan_string_def Let_def split: if_splits dest!: string_loop_forward [rotated])

lemma skip_comment_forward:
  "\<not> spn_toml_edit_done src it \<Longrightarrow> spn_toml_edit_peek src it = CHR ''#'' \<Longrightarrow> it < spn_toml_edit_skip_comment src it"
  using toml_skip_forward [of "it + 1" "\<lambda>c. c \<noteq> CHR 0x0A" src]
  by (subst spn_toml_edit_skip_comment_def, subst toml_skip.simps) auto

end
