(* ===== verification/Toml_Edit.thy ===== *)
theory Toml_Edit
  imports Toml
begin

text \<open>
  The rest of \<open>source/core/toml/edit.c\<close>: values and entries, the sections of a document, the search
  for entries and keys, the text of a value, the edits and the rendering.
\<close>

section \<open>Values and entries\<close>

text \<open>The loop of \<open>spn_toml_edit_scan_array\<close>; \<open>None\<close> is false.\<close>

function array_loop :: "string \<Rightarrow> nat \<Rightarrow> u32 \<Rightarrow> nat option" where
  "array_loop src it depth =
    (if spn_toml_edit_done src it then None
     else
       (let c = spn_toml_edit_peek src it
        in if c = CHR 0x22 \<or> c = CHR 0x27 then
             (case spn_toml_edit_scan_string src it of None \<Rightarrow> None | Some it' \<Rightarrow> array_loop src it' depth)
           else if c = CHR ''#'' then array_loop src (spn_toml_edit_skip_comment src it) depth
           else if c = CHR ''['' then array_loop src (it + 1) (depth + 1)
           else if c = CHR '']'' then
             (let depth = depth - 1 in if depth = 0 then Some (it + 1) else array_loop src (it + 1) depth)
           else array_loop src (it + 1) depth))"
  by pat_completeness auto
termination
proof (relation "measure (\<lambda>(src, it, depth). length src - it)", goal_cases)
  case (2 src it depth c it')
  then have "it < it'" using scan_string_forward by auto
  then show ?case using 2 by (auto simp: spn_toml_edit_done_def)
next
  case (3 src it depth c)
  then have "it < spn_toml_edit_skip_comment src it" by (auto intro: skip_comment_forward)
  then show ?case using 3 by (auto simp: spn_toml_edit_done_def)
qed (auto simp: spn_toml_edit_done_def)

declare array_loop.simps [simp del]

definition spn_toml_edit_scan_array :: "string \<Rightarrow> nat \<Rightarrow> nat option" where
  "spn_toml_edit_scan_array src it = array_loop src it 0"

text \<open>The end of a scalar: the loop to a character that ends it, then back over whitespace.\<close>

definition scalar_stop :: "bool \<Rightarrow> char \<Rightarrow> bool" where
  "scalar_stop nested c =
    (c = CHR 0x0A \<or> c = CHR 0x0D \<or> c = CHR ''#'' \<or> nested \<and> (c = CHR '','' \<or> c = CHR '']'' \<or> c = CHR 0x7D))"

fun trim_back :: "string \<Rightarrow> nat \<Rightarrow> nat \<Rightarrow> nat" where
  "trim_back src start stop =
    (if start < stop \<and> spn_toml_edit_is_whitespace (src ! (stop - 1)) then trim_back src start (stop - 1) else stop)"

declare trim_back.simps [simp del]

text \<open>The entry that \<open>spn_toml_edit_scan_value\<close> fills is here its kind, the end of its value and its
  entries. The functions call each other: a pair has a value, a table has pairs, and a table is a
  value. The call that closes the circle is the argument \<open>scan\<close>, and the depth of tables in tables
  and the number of pairs of a table are bounded by fuel, of which there is more than text.\<close>

type_synonym toml_value = "spn_toml_edit_value_kind_t \<times> nat \<times> spn_toml_edit_entry_t list"

definition spn_toml_edit_scan_pair ::
    "(nat \<Rightarrow> bool \<Rightarrow> (toml_value \<times> nat) scanned) \<Rightarrow> (u32 \<Rightarrow> string) \<Rightarrow> string \<Rightarrow> nat \<Rightarrow> bool \<Rightarrow>
      (spn_toml_edit_entry_t \<times> nat) scanned" where
  "spn_toml_edit_scan_pair scan utf8 src it nested =
    (let key_start = it
     in case spn_toml_edit_parse_key utf8 src it of
          None \<Rightarrow> SCAN_FAIL
        | Some (path, key_end) \<Rightarrow>
            (case spn_toml_edit_accept src (spn_toml_edit_skip_whitespace src key_end) (CHR ''='') of
               (equals, it) \<Rightarrow>
                 if \<not> equals then SCAN_FAIL
                 else
                   (let start = spn_toml_edit_skip_whitespace src it
                    in case scan start nested of
                         SCAN_STUCK \<Rightarrow> SCAN_STUCK
                       | SCAN_FAIL \<Rightarrow> SCAN_FAIL
                       | SCAN_OK ((kind, stop, entries), it) \<Rightarrow>
                           SCAN_OK
                             (Entry path kind \<lparr>span_start = key_start, span_end = key_end\<rparr>
                                \<lparr>span_start = start, span_end = stop\<rparr> 0 entries, it))))"

primrec table_loop ::
    "nat \<Rightarrow> (nat \<Rightarrow> (spn_toml_edit_entry_t \<times> nat) scanned) \<Rightarrow> string \<Rightarrow> nat \<Rightarrow> spn_toml_edit_entry_t list \<Rightarrow>
      (spn_toml_edit_entry_t list \<times> nat) scanned" where
  "table_loop 0 pair src it entries = SCAN_STUCK"
| "table_loop (Suc fuel) pair src it entries =
    (case pair (spn_toml_edit_skip_blank src it) of
       SCAN_STUCK \<Rightarrow> SCAN_STUCK
     | SCAN_FAIL \<Rightarrow> SCAN_FAIL
     | SCAN_OK (sub, it) \<Rightarrow>
         (let entries = entries @ [sub]
          in case spn_toml_edit_accept src (spn_toml_edit_skip_blank src it) (CHR '','') of
               (comma, it) \<Rightarrow>
                 if comma then table_loop fuel pair src it entries
                 else
                   (case spn_toml_edit_accept src it (CHR 0x7D) of
                      (close, it) \<Rightarrow> if close then SCAN_OK (entries, it) else SCAN_FAIL)))"

definition spn_toml_edit_scan_inline_table ::
    "(nat \<Rightarrow> (spn_toml_edit_entry_t \<times> nat) scanned) \<Rightarrow> string \<Rightarrow> nat \<Rightarrow> (spn_toml_edit_entry_t list \<times> nat) scanned" where
  "spn_toml_edit_scan_inline_table pair src it =
    (case spn_toml_edit_accept src (spn_toml_edit_skip_blank src (it + 1)) (CHR 0x7D) of
       (close, it) \<Rightarrow> if close then SCAN_OK ([], it) else table_loop (Suc (length src)) pair src it [])"

primrec spn_toml_edit_scan_value ::
    "nat \<Rightarrow> (u32 \<Rightarrow> string) \<Rightarrow> string \<Rightarrow> nat \<Rightarrow> bool \<Rightarrow> (toml_value \<times> nat) scanned" where
  "spn_toml_edit_scan_value 0 utf8 src it nested = SCAN_STUCK"
| "spn_toml_edit_scan_value (Suc fuel) utf8 src it nested =
    (let c = spn_toml_edit_peek src it
     in if c = CHR 0x22 \<or> c = CHR 0x27 then
          (case spn_toml_edit_scan_string src it of
             None \<Rightarrow> SCAN_FAIL
           | Some it \<Rightarrow> SCAN_OK ((SPN_TOML_EDIT_VALUE_STRING, it, []), it))
        else if c = CHR ''['' then
          (case spn_toml_edit_scan_array src it of
             None \<Rightarrow> SCAN_FAIL
           | Some it \<Rightarrow> SCAN_OK ((SPN_TOML_EDIT_VALUE_ARRAY, it, []), it))
        else if c = CHR 0x7B then
          (case spn_toml_edit_scan_inline_table
                  (\<lambda>it. spn_toml_edit_scan_pair (spn_toml_edit_scan_value fuel utf8 src) utf8 src it True) src it of
             SCAN_STUCK \<Rightarrow> SCAN_STUCK
           | SCAN_FAIL \<Rightarrow> SCAN_FAIL
           | SCAN_OK (entries, it) \<Rightarrow> SCAN_OK ((SPN_TOML_EDIT_VALUE_TABLE, it, entries), it))
        else
          (let start = it;
               it = toml_skip (\<lambda>c. \<not> scalar_stop nested c) src it;
               stop = trim_back src start it
           in if start < stop then SCAN_OK ((SPN_TOML_EDIT_VALUE_SCALAR, stop, []), it) else SCAN_FAIL))"

section \<open>Documents\<close>

definition spn_toml_edit_parse_entry ::
    "(u32 \<Rightarrow> string) \<Rightarrow> string \<Rightarrow> nat \<Rightarrow> spn_toml_edit_section_t \<Rightarrow> (spn_toml_edit_section_t \<times> nat) scanned" where
  "spn_toml_edit_parse_entry utf8 src it section =
    (case spn_toml_edit_scan_pair (spn_toml_edit_scan_value (Suc (length src)) utf8 src) utf8 src it False of
       SCAN_STUCK \<Rightarrow> SCAN_STUCK
     | SCAN_FAIL \<Rightarrow> SCAN_FAIL
     | SCAN_OK (Entry path kind key value _ entries, it) \<Rightarrow>
         (case spn_toml_edit_skip_line_end src it of
            (ok, it) \<Rightarrow>
              if \<not> ok then SCAN_FAIL
              else SCAN_OK (section\<lparr>ts_entries := ts_entries section @ [Entry path kind key value it entries]\<rparr>, it)))"

definition spn_toml_edit_parse_header ::
    "(u32 \<Rightarrow> string) \<Rightarrow> string \<Rightarrow> nat \<Rightarrow> (spn_toml_edit_section_t \<times> nat) scanned" where
  "spn_toml_edit_parse_header utf8 src it =
    (case spn_toml_edit_accept src (it + 1) (CHR ''['') of
       (array, it) \<Rightarrow>
         (case spn_toml_edit_parse_key utf8 src it of
            None \<Rightarrow> SCAN_FAIL
          | Some (path, it) \<Rightarrow>
              (case spn_toml_edit_accept src (spn_toml_edit_skip_whitespace src it) (CHR '']'') of
                 (close, it) \<Rightarrow>
                   if \<not> close then SCAN_FAIL
                   else
                     (case (if array then spn_toml_edit_accept src it (CHR '']'') else (True, it)) of
                        (close, it) \<Rightarrow>
                          if \<not> close then SCAN_FAIL
                          else
                            (case spn_toml_edit_skip_line_end src it of
                               (ok, it) \<Rightarrow>
                                 if \<not> ok then SCAN_FAIL
                                 else SCAN_OK (\<lparr>ts_path = path, ts_array = array, ts_content = it, ts_entries = []\<rparr>, it))))))"

text \<open>Every scan moves forward, so the loop over the document ends.\<close>

lemma accept_forward: "spn_toml_edit_accept src it c = (ok, it') \<Longrightarrow> it \<le> it'"
  by (auto simp: spn_toml_edit_accept_def split: if_splits)

lemma skip_forward:
  "it \<le> spn_toml_edit_skip_whitespace src it" "it \<le> spn_toml_edit_skip_blank src it"
  "it \<le> spn_toml_edit_skip_comment src it"
  by (simp_all add: spn_toml_edit_skip_whitespace_def spn_toml_edit_skip_blank_def spn_toml_edit_skip_comment_def
      toml_skip_forward)

lemma array_loop_steps:
  "spn_toml_edit_done src it \<Longrightarrow> array_loop src it depth = None"
  "\<not> spn_toml_edit_done src it \<Longrightarrow> spn_toml_edit_peek src it \<in> {CHR 0x22, CHR 0x27} \<Longrightarrow>
    array_loop src it depth =
      (case spn_toml_edit_scan_string src it of None \<Rightarrow> None | Some it' \<Rightarrow> array_loop src it' depth)"
  "\<not> spn_toml_edit_done src it \<Longrightarrow> spn_toml_edit_peek src it = CHR ''#'' \<Longrightarrow>
    array_loop src it depth = array_loop src (spn_toml_edit_skip_comment src it) depth"
  "\<not> spn_toml_edit_done src it \<Longrightarrow> spn_toml_edit_peek src it = CHR ''['' \<Longrightarrow>
    array_loop src it depth = array_loop src (it + 1) (depth + 1)"
  "\<not> spn_toml_edit_done src it \<Longrightarrow> spn_toml_edit_peek src it = CHR '']'' \<Longrightarrow>
    array_loop src it depth = (if depth = 1 then Some (it + 1) else array_loop src (it + 1) (depth - 1))"
  "\<not> spn_toml_edit_done src it \<Longrightarrow> spn_toml_edit_peek src it \<notin> {CHR 0x22, CHR 0x27, CHR ''#'', CHR ''['', CHR '']''} \<Longrightarrow>
    array_loop src it depth = array_loop src (it + 1) depth"
  by (subst array_loop.simps, (auto simp: Let_def)[])+

lemma array_loop_forward: "array_loop src it depth = Some it' \<Longrightarrow> it < it' \<and> it' \<le> length src"
proof (induction src it depth rule: array_loop.induct)
  case (1 src it depth)
  let ?c = "spn_toml_edit_peek src it"
  have going: "\<not> spn_toml_edit_done src it" using 1(6) array_loop_steps(1) by fastforce
  note IH = 1(1-5) [OF going refl]
  consider (str) "?c \<in> {CHR 0x22, CHR 0x27}" | (comment) "?c = CHR ''#''" | (opens) "?c = CHR ''[''"
    | (closes) "?c = CHR '']''" | (other) "?c \<notin> {CHR 0x22, CHR 0x27, CHR ''#'', CHR ''['', CHR '']''}" by blast
  then show ?case
  proof cases
    case str
    then obtain it1 where it1: "spn_toml_edit_scan_string src it = Some it1" "array_loop src it1 depth = Some it'"
      using 1(6) array_loop_steps(2) [OF going] by (auto split: option.splits)
    then show ?thesis using IH(1) [OF _ it1] str scan_string_forward [OF _ it1(1)] by force
  next
    case comment
    then show ?thesis
      using IH(2) 1(6) array_loop_steps(3) [OF going comment] skip_comment_forward [OF going comment] by force
  next
    case opens
    then show ?thesis using IH(3) 1(6) array_loop_steps(4) [OF going opens] by force
  next
    case closes
    then show ?thesis
      using IH(4) 1(6) going array_loop_steps(5) [OF going closes] by (force simp: spn_toml_edit_done_def split: if_splits)
  next
    case other
    then show ?thesis using IH(5) 1(6) array_loop_steps(6) [OF going other] by force
  qed
qed

lemma key_loop_forward: "key_loop utf8 src it segments = Some (path, it') \<Longrightarrow> it < it'"
proof (induction utf8 src it segments rule: key_loop.induct)
  case (1 utf8 src it segments)
  obtain segment it1 where segment:
      "key_segment utf8 src (spn_toml_edit_skip_whitespace src it) = Some (segment, it1)"
    using 1(2) by (subst (asm) key_loop.simps) (auto split: option.splits)
  obtain dot it2 where dot: "spn_toml_edit_accept src (spn_toml_edit_skip_whitespace src it1) (CHR ''.'') = (dot, it2)"
    by fastforce
  have "it < it2"
    using skip_forward(1) [of it src] key_segment_forward [OF segment] skip_forward(1) [of it1 src] accept_forward [OF dot]
    by linarith
  moreover have "if dot then key_loop utf8 src it2 (segments @ [segment]) = Some (path, it') else it' = it2"
    using 1(2) segment dot by (subst (asm) key_loop.simps) (auto split: if_splits)
  ultimately show ?case using 1(1) [OF segment refl dot [symmetric]] by (auto split: if_splits)
qed

text \<open>The parts of a scan that succeeded.\<close>

lemma pair_ok:
  assumes "spn_toml_edit_scan_pair scan utf8 src it nested = SCAN_OK (entry, it')"
  obtains path key_end eq kind stop entries where
    "spn_toml_edit_parse_key utf8 src it = Some (path, key_end)"
    "spn_toml_edit_accept src (spn_toml_edit_skip_whitespace src key_end) (CHR ''='') = (True, eq)"
    "scan (spn_toml_edit_skip_whitespace src eq) nested = SCAN_OK ((kind, stop, entries), it')"
    "entry = Entry path kind \<lparr>span_start = it, span_end = key_end\<rparr>
       \<lparr>span_start = spn_toml_edit_skip_whitespace src eq, span_end = stop\<rparr> 0 entries"
  using assms
  by (auto simp: spn_toml_edit_scan_pair_def Let_def split: option.splits prod.splits if_splits scanned.splits)

lemma table_loop_ok:
  assumes "table_loop (Suc fuel) pair src it entries = SCAN_OK (entries', it')"
  obtains sub it1 comma it2 where
    "pair (spn_toml_edit_skip_blank src it) = SCAN_OK (sub, it1)"
    "spn_toml_edit_accept src (spn_toml_edit_skip_blank src it1) (CHR '','') = (comma, it2)"
    "comma \<Longrightarrow> table_loop fuel pair src it2 (entries @ [sub]) = SCAN_OK (entries', it')"
    "\<not> comma \<Longrightarrow> spn_toml_edit_accept src it2 (CHR 0x7D) = (True, it') \<and> entries' = entries @ [sub]"
  using assms by (auto simp: Let_def split: prod.splits if_splits scanned.splits)

lemma inline_table_ok:
  assumes "spn_toml_edit_scan_inline_table pair src it = SCAN_OK (entries', it')"
  obtains (empty) "spn_toml_edit_accept src (spn_toml_edit_skip_blank src (it + 1)) (CHR 0x7D) = (True, it')" "entries' = []"
    | (pairs) "table_loop (Suc (length src)) pair src (spn_toml_edit_skip_blank src (it + 1)) [] = SCAN_OK (entries', it')"
proof (cases "spn_toml_edit_accept src (spn_toml_edit_skip_blank src (it + 1)) (CHR 0x7D)")
  case (Pair close it1)
  then show thesis
    using assms that by (auto simp: spn_toml_edit_scan_inline_table_def spn_toml_edit_accept_def split: if_splits
        simp del: table_loop.simps)
qed

lemma value_ok:
  assumes "spn_toml_edit_scan_value (Suc fuel) utf8 src it nested = SCAN_OK ((kind, stop, entries), it')"
  obtains (str) "spn_toml_edit_peek src it \<in> {CHR 0x22, CHR 0x27}" "spn_toml_edit_scan_string src it = Some it'"
      "kind = SPN_TOML_EDIT_VALUE_STRING" "stop = it'" "entries = []"
    | (array) "spn_toml_edit_peek src it = CHR ''[''" "spn_toml_edit_scan_array src it = Some it'"
      "kind = SPN_TOML_EDIT_VALUE_ARRAY" "stop = it'" "entries = []"
    | (table) "spn_toml_edit_peek src it = CHR 0x7B"
      "spn_toml_edit_scan_inline_table
         (\<lambda>it. spn_toml_edit_scan_pair (spn_toml_edit_scan_value fuel utf8 src) utf8 src it True) src it = SCAN_OK (entries, it')"
      "kind = SPN_TOML_EDIT_VALUE_TABLE" "stop = it'"
    | (scalar) "spn_toml_edit_peek src it \<notin> {CHR 0x22, CHR 0x27, CHR ''['', CHR 0x7B}"
      "it' = toml_skip (\<lambda>c. \<not> scalar_stop nested c) src it" "stop = trim_back src it it'" "it < stop"
      "kind = SPN_TOML_EDIT_VALUE_SCALAR" "entries = []"
  using assms by (auto simp: Let_def split: scanned.splits option.splits if_splits)

text \<open>What a scan keeps to: it never returns a position before the one it was given.\<close>

definition forward :: "(nat \<Rightarrow> ('a \<times> nat) scanned) \<Rightarrow> bool" where
  "forward scan = (\<forall>it x it'. scan it = SCAN_OK (x, it') \<longrightarrow> it \<le> it')"

lemma forwardD: "forward scan \<Longrightarrow> scan it = SCAN_OK (x, it') \<Longrightarrow> it \<le> it'"
  by (simp add: forward_def)

lemma parse_key_forward: "spn_toml_edit_parse_key utf8 src it = Some (path, it') \<Longrightarrow> it < it'"
  by (simp add: spn_toml_edit_parse_key_def key_loop_forward)

lemma pair_forward:
  assumes "forward (\<lambda>it. scan it nested)" "spn_toml_edit_scan_pair scan utf8 src it nested = SCAN_OK (entry, it')"
  shows "it < it'"
  using assms(2)
proof (rule pair_ok)
  fix path key_end eq kind stop entries
  assume *: "spn_toml_edit_parse_key utf8 src it = Some (path, key_end)"
    "spn_toml_edit_accept src (spn_toml_edit_skip_whitespace src key_end) (CHR ''='') = (True, eq)"
    "scan (spn_toml_edit_skip_whitespace src eq) nested = SCAN_OK ((kind, stop, entries), it')"
  show ?thesis
    using parse_key_forward [OF *(1)] skip_forward(1) [of key_end src] accept_forward [OF *(2)]
      skip_forward(1) [of eq src] forwardD [OF assms(1) *(3)] by linarith
qed

lemma table_loop_forward:
  "forward pair \<Longrightarrow> table_loop fuel pair src it entries = SCAN_OK (entries', it') \<Longrightarrow> it \<le> it'"
proof (induction fuel arbitrary: it entries)
  case (Suc fuel)
  from Suc.prems(2) show ?case
  proof (rule table_loop_ok)
    fix sub it1 comma it2
    assume *: "pair (spn_toml_edit_skip_blank src it) = SCAN_OK (sub, it1)"
      "spn_toml_edit_accept src (spn_toml_edit_skip_blank src it1) (CHR '','') = (comma, it2)"
      "comma \<Longrightarrow> table_loop fuel pair src it2 (entries @ [sub]) = SCAN_OK (entries', it')"
      "\<not> comma \<Longrightarrow> spn_toml_edit_accept src it2 (CHR 0x7D) = (True, it') \<and> entries' = entries @ [sub]"
    have "it2 \<le> it'" using Suc.IH [OF Suc.prems(1) *(3)] *(4) accept_forward by (cases comma) blast+
    then show ?thesis
      using skip_forward(2) [of it src] forwardD [OF Suc.prems(1) *(1)] skip_forward(2) [of it1 src]
        accept_forward [OF *(2)] by linarith
  qed
qed simp

lemma inline_table_forward:
  assumes "forward pair" "spn_toml_edit_scan_inline_table pair src it = SCAN_OK (entries, it')"
  shows "it < it'"
  using assms(2)
proof (rule inline_table_ok)
  assume "spn_toml_edit_accept src (spn_toml_edit_skip_blank src (it + 1)) (CHR 0x7D) = (True, it')"
  then show ?thesis using accept_forward skip_forward(2) [of "it + 1" src] by fastforce
next
  assume "table_loop (Suc (length src)) pair src (spn_toml_edit_skip_blank src (it + 1)) [] = SCAN_OK (entries, it')"
  then show ?thesis using table_loop_forward [OF assms(1)] skip_forward(2) [of "it + 1" src] by fastforce
qed

lemma value_forward: "forward (\<lambda>it. spn_toml_edit_scan_value fuel utf8 src it nested)"
proof (induction fuel arbitrary: nested)
  case (Suc fuel)
  let ?pair = "\<lambda>it. spn_toml_edit_scan_pair (spn_toml_edit_scan_value fuel utf8 src) utf8 src it True"
  have pair: "forward ?pair" 
    unfolding forward_def
    using pair_forward [where scan = "spn_toml_edit_scan_value fuel utf8 src" and nested = True, OF Suc]
    by (blast intro: less_imp_le)
  have "it \<le> it'" if "spn_toml_edit_scan_value (Suc fuel) utf8 src it nested = SCAN_OK ((kind, stop, entries), it')"
    for it kind stop entries it'
    using that
  proof (cases rule: value_ok)
    case str
    then show ?thesis using scan_string_forward by fastforce
  next
    case array
    then show ?thesis using array_loop_forward by (fastforce simp: spn_toml_edit_scan_array_def)
  next
    case table
    then show ?thesis using inline_table_forward [OF pair] by fastforce
  next
    case scalar
    then show ?thesis using toml_skip_forward by simp
  qed
  then show ?case by (fastforce simp: forward_def)
qed (simp add: forward_def)

lemma skip_line_end_forward: "it \<le> snd (spn_toml_edit_skip_line_end src it)"
proof -
  let ?it = "spn_toml_edit_skip_comment src (spn_toml_edit_skip_whitespace src it)"
  have "it \<le> ?it" using skip_forward(1) [of it src] skip_forward(3) [of "spn_toml_edit_skip_whitespace src it" src] by linarith
  moreover have "?it \<le> snd (spn_toml_edit_skip_line_end src it)"
    by (auto simp: spn_toml_edit_skip_line_end_def spn_toml_edit_accept_def Let_def)
  ultimately show ?thesis by linarith
qed

lemma parse_entry_ok:
  assumes "spn_toml_edit_parse_entry utf8 src it section = SCAN_OK (section', it')"
  obtains entry it1 where
    "spn_toml_edit_scan_pair (spn_toml_edit_scan_value (Suc (length src)) utf8 src) utf8 src it False = SCAN_OK (entry, it1)"
    "spn_toml_edit_skip_line_end src it1 = (True, it')"
    "section' = section\<lparr>ts_entries := ts_entries section @
       [Entry (te_path entry) (te_kind entry) (te_key entry) (te_value entry) it' (te_entries entry)]\<rparr>"
  using assms
  by (auto simp: spn_toml_edit_parse_entry_def simp del: spn_toml_edit_scan_value.simps
      split: scanned.splits spn_toml_edit_entry_t.splits prod.splits if_splits)

lemma parse_entry_forward:
  "spn_toml_edit_parse_entry utf8 src it section = SCAN_OK (section', it') \<Longrightarrow> it < it'"
proof (erule parse_entry_ok)
  fix entry it1
  assume "spn_toml_edit_scan_pair (spn_toml_edit_scan_value (Suc (length src)) utf8 src) utf8 src it False = SCAN_OK (entry, it1)"
    "spn_toml_edit_skip_line_end src it1 = (True, it')"
  then show "it < it'" using pair_forward [OF value_forward] skip_line_end_forward [of it1 src] by fastforce
qed

lemma parse_header_ok:
  assumes "spn_toml_edit_parse_header utf8 src it = SCAN_OK (section, it')"
  obtains array it1 path it2 it3 it4 where
    "spn_toml_edit_accept src (it + 1) (CHR ''['') = (array, it1)"
    "spn_toml_edit_parse_key utf8 src it1 = Some (path, it2)"
    "spn_toml_edit_accept src (spn_toml_edit_skip_whitespace src it2) (CHR '']'') = (True, it3)"
    "(if array then spn_toml_edit_accept src it3 (CHR '']'') else (True, it3)) = (True, it4)"
    "spn_toml_edit_skip_line_end src it4 = (True, it')"
    "section = \<lparr>ts_path = path, ts_array = array, ts_content = it', ts_entries = []\<rparr>"
  using assms
  by (auto simp: spn_toml_edit_parse_header_def split: option.splits prod.splits if_splits)

lemma parse_header_forward: "spn_toml_edit_parse_header utf8 src it = SCAN_OK (section, it') \<Longrightarrow> it < it'"
proof (erule parse_header_ok)
  fix array it1 path it2 it3 it4
  assume *: "spn_toml_edit_accept src (it + 1) (CHR ''['') = (array, it1)"
    "spn_toml_edit_parse_key utf8 src it1 = Some (path, it2)"
    "spn_toml_edit_accept src (spn_toml_edit_skip_whitespace src it2) (CHR '']'') = (True, it3)"
    "(if array then spn_toml_edit_accept src it3 (CHR '']'') else (True, it3)) = (True, it4)"
    "spn_toml_edit_skip_line_end src it4 = (True, it')"
  have "it3 \<le> it4" using *(4) accept_forward by (auto split: if_splits)
  moreover have "it4 \<le> it'" using skip_line_end_forward [of it4 src] *(5) by simp
  ultimately show "it < it'"
    using accept_forward [OF *(1)] parse_key_forward [OF *(2)] skip_forward(1) [of it2 src] accept_forward [OF *(3)]
    by linarith
qed

text \<open>The loop of \<open>spn_toml_edit_init\<close> over the document.\<close>

function document_loop ::
    "(u32 \<Rightarrow> string) \<Rightarrow> string \<Rightarrow> nat \<Rightarrow> spn_toml_edit_section_t list \<Rightarrow> spn_toml_edit_section_t list scanned" where
  "document_loop utf8 src it sections =
    (let it1 = spn_toml_edit_skip_blank src it
     in if spn_toml_edit_done src it1 then SCAN_OK sections
        else if spn_toml_edit_peek src it1 = CHR ''#'' then
          document_loop utf8 src (spn_toml_edit_skip_comment src it1) sections
        else if spn_toml_edit_peek src it1 = CHR ''['' then
          (case spn_toml_edit_parse_header utf8 src it1 of
             SCAN_STUCK \<Rightarrow> SCAN_STUCK
           | SCAN_FAIL \<Rightarrow> SCAN_FAIL
           | SCAN_OK (section, it2) \<Rightarrow> document_loop utf8 src it2 (sections @ [section]))
        else
          (case spn_toml_edit_parse_entry utf8 src it1 (last sections) of
             SCAN_STUCK \<Rightarrow> SCAN_STUCK
           | SCAN_FAIL \<Rightarrow> SCAN_FAIL
           | SCAN_OK (section, it2) \<Rightarrow> document_loop utf8 src it2 (butlast sections @ [section])))"
  by pat_completeness auto
termination
proof (relation "measure (\<lambda>(utf8, src, it, sections). length src - it)", goal_cases)
  case (2 utf8 src it sections it1)
  then show ?case
    using skip_forward(2) [of it src] skip_comment_forward [of src it1] by (auto simp: spn_toml_edit_done_def)
next
  case (3 utf8 src it sections it1 r sec it2)
  then have "it1 < it2" using parse_header_forward by blast
  then show ?case using 3 skip_forward(2) [of it src] by (auto simp: spn_toml_edit_done_def)
next
  case (4 utf8 src it sections it1 r sec it2)
  then have "it1 < it2" using parse_entry_forward by blast
  then show ?case using 4 skip_forward(2) [of it src] by (auto simp: spn_toml_edit_done_def)
qed simp

declare document_loop.simps [simp del]

fun has_crlf :: "string \<Rightarrow> bool" where
  "has_crlf (a # b # cs) = (a = CHR 0x0D \<and> b = CHR 0x0A \<or> has_crlf (b # cs))"
| "has_crlf _ = False"

text \<open>\<open>SCAN_FAIL\<close> is \<open>SPN_ERR_TOML_PARSE\<close>.\<close>

definition spn_toml_edit_init :: "(u32 \<Rightarrow> string) \<Rightarrow> string \<Rightarrow> spn_toml_edit_t scanned" where
  "spn_toml_edit_init utf8 src =
    (let eol = if has_crlf src then [CHR 0x0D, CHR 0x0A] else [CHR 0x0A];
         root = \<lparr>ts_path = [], ts_array = False, ts_content = 0, ts_entries = []\<rparr>
     in case document_loop utf8 src 0 [root] of
          SCAN_STUCK \<Rightarrow> SCAN_STUCK
        | SCAN_FAIL \<Rightarrow> SCAN_FAIL
        | SCAN_OK sections \<Rightarrow>
            SCAN_OK \<lparr>ed_source = src, ed_eol = eol, ed_sections = sections, ed_splices = []\<rparr>)"

section \<open>Queries\<close>

definition spn_toml_edit_path_prefix :: "string list \<Rightarrow> string list \<Rightarrow> bool" where
  "spn_toml_edit_path_prefix prefix path =
    (if length path < length prefix then False else list_all (\<lambda>(a, b). a = b) (zip prefix path))"

definition spn_toml_edit_path_starts_with :: "string list \<Rightarrow> string list \<Rightarrow> bool" where
  "spn_toml_edit_path_starts_with segments path =
    (if length segments < length path then False else list_all (\<lambda>(a, b). a = b) (zip segments path))"

lemma entries_size: "size_list size (te_entries entry) < size entry"
  by (cases entry) simp

function spn_toml_edit_find_in :: "spn_toml_edit_entry_t list \<Rightarrow> string list \<Rightarrow> spn_toml_edit_entry_t option" where
  "spn_toml_edit_find_in [] path = None"
| "spn_toml_edit_find_in (entry # entries) path =
    (if \<not> spn_toml_edit_path_prefix (te_path entry) path then spn_toml_edit_find_in entries path
     else if length (te_path entry) = length path then Some entry
     else if te_kind entry = SPN_TOML_EDIT_VALUE_TABLE then
       (case spn_toml_edit_find_in (te_entries entry) (drop (length (te_path entry)) path) of
          Some sub \<Rightarrow> Some sub
        | None \<Rightarrow> spn_toml_edit_find_in entries path)
     else spn_toml_edit_find_in entries path)"
  by pat_completeness auto
termination
  by (relation "measure (\<lambda>(entries, path). size_list size entries)")
    (use entries_size in \<open>auto simp: less_Suc_eq intro: trans_less_add1\<close>)

fun find_section :: "spn_toml_edit_section_t list \<Rightarrow> string list \<Rightarrow> spn_toml_edit_entry_t option \<Rightarrow> spn_toml_edit_entry_t option" where
  "find_section [] path found = found"
| "find_section (section # sections) path found =
    (if \<not> spn_toml_edit_path_prefix (ts_path section) path then find_section sections path found
     else
       (let len = length (ts_path section)
        in if len = length path then find_section sections path found
           else
             (case spn_toml_edit_find_in (ts_entries section) (drop len path) of
                Some entry \<Rightarrow> find_section sections path (Some entry)
              | None \<Rightarrow> find_section sections path found)))"

definition spn_toml_edit_find :: "spn_toml_edit_t \<Rightarrow> string list \<Rightarrow> spn_toml_edit_entry_t option" where
  "spn_toml_edit_find edit path = find_section (ed_sections edit) path None"

definition spn_toml_edit_push_key :: "string list \<Rightarrow> string \<Rightarrow> string list" where
  "spn_toml_edit_push_key keys key = (if key \<in> set keys then keys else keys @ [key])"

function spn_toml_edit_keys_in :: "spn_toml_edit_entry_t list \<Rightarrow> string list \<Rightarrow> string list \<Rightarrow> string list" where
  "spn_toml_edit_keys_in [] path keys = keys"
| "spn_toml_edit_keys_in (entry # entries) path keys =
    (let len = length (te_path entry)
     in spn_toml_edit_keys_in entries path
          (if length path < len then
             (if spn_toml_edit_path_starts_with (te_path entry) path
              then spn_toml_edit_push_key keys (te_path entry ! length path) else keys)
           else if spn_toml_edit_path_prefix (te_path entry) path \<and> te_kind entry = SPN_TOML_EDIT_VALUE_TABLE then
             spn_toml_edit_keys_in (te_entries entry) (drop len path) keys
           else keys))"
  by pat_completeness auto
termination
  by (relation "measure (\<lambda>(entries, path, keys). size_list size entries)")
    (use entries_size in \<open>auto simp: less_Suc_eq intro: trans_less_add1\<close>)

fun keys_loop :: "spn_toml_edit_section_t list \<Rightarrow> string list \<Rightarrow> string list \<Rightarrow> string list" where
  "keys_loop [] path keys = keys"
| "keys_loop (section # sections) path keys =
    (let len = length (ts_path section)
     in keys_loop sections path
          (if length path < len then
             (if spn_toml_edit_path_starts_with (ts_path section) path
              then spn_toml_edit_push_key keys (ts_path section ! length path) else keys)
           else if spn_toml_edit_path_prefix (ts_path section) path then
             spn_toml_edit_keys_in (ts_entries section) (drop len path) keys
           else keys))"

definition spn_toml_edit_keys :: "spn_toml_edit_t \<Rightarrow> string list \<Rightarrow> string list" where
  "spn_toml_edit_keys edit path = keys_loop (ed_sections edit) path []"

end
