(* ===== verification/Toml_Set.thy ===== *)
theory Toml_Set
  imports Toml_Edit
begin

text \<open>
  The edits of \<open>source/core/toml/edit.c\<close>: the text of a value, the writers of keys and values, the
  splices, the search for the place of a new entry, \<open>spn_toml_edit_set_str\<close> and the rendering.
  A function of the code that returns false or \<open>SPN_ERROR\<close> leaves the editor as it was; here it
  returns \<open>None\<close>.
\<close>

section \<open>The text of a value\<close>

text \<open>The loop over the body of a string of several lines, up to \<open>stop\<close>. The result of
  \<open>spn_toml_edit_unescape\<close> is not looked at.\<close>

function multiline_loop :: "(u32 \<Rightarrow> string) \<Rightarrow> string \<Rightarrow> nat \<Rightarrow> nat \<Rightarrow> string \<Rightarrow> string" where
  "multiline_loop utf8 src stop it decoded =
    (if it < stop then
       (let c = spn_toml_edit_peek src it
        in if c \<noteq> CHR 0x5C then multiline_loop utf8 src stop (it + 1) (decoded @ [c])
           else if spn_toml_edit_is_blank (spn_toml_edit_peek src (it + 1)) then
             multiline_loop utf8 src stop (toml_skip spn_toml_edit_is_blank (take stop src) (it + 1)) decoded
           else
             (case spn_toml_edit_unescape utf8 src (it + 1) of
                (_, it', written) \<Rightarrow> multiline_loop utf8 src stop it' (decoded @ written)))
     else decoded)"
  by pat_completeness auto
termination
proof (relation "measure (\<lambda>(utf8, src, stop, it, decoded). stop - it)", goal_cases)
  case (3 utf8 src stop it decoded c)
  then show ?case using toml_skip_forward [of "it + 1" spn_toml_edit_is_blank "take stop src"] by auto
next
  case (4 utf8 src stop it decoded c r r' it' written)
  then have "it + 1 < it'" using unescape_forward [of "it + 1" utf8 src] by (metis fst_conv snd_conv)
  then show ?case using 4 by auto
qed auto

declare multiline_loop.simps [simp del]

text \<open>A string of one line that does not parse has the empty text.\<close>

definition spn_toml_edit_entry_str :: "(u32 \<Rightarrow> string) \<Rightarrow> spn_toml_edit_t \<Rightarrow> spn_toml_edit_entry_t \<Rightarrow> string" where
  "spn_toml_edit_entry_str utf8 edit entry =
    (let src = ed_source edit; span = te_value entry; it = span_start span
     in case te_kind entry of
          SPN_TOML_EDIT_VALUE_SCALAR \<Rightarrow> str_sub src it (span_end span - it)
        | SPN_TOML_EDIT_VALUE_ARRAY \<Rightarrow> []
        | SPN_TOML_EDIT_VALUE_TABLE \<Rightarrow> []
        | SPN_TOML_EDIT_VALUE_STRING \<Rightarrow>
            (let quote = spn_toml_edit_peek src it
             in if \<not> string_multiline src it then
                  (case (if quote = CHR 0x27 then spn_toml_edit_parse_literal src it
                         else spn_toml_edit_parse_basic utf8 src it) of
                     None \<Rightarrow> []
                   | Some (written, _) \<Rightarrow> written)
                else
                  (let it = it + 3;
                       it = (if spn_toml_edit_peek src it = CHR 0x0D \<and> spn_toml_edit_peek_at src it 1 = CHR 0x0A then it + 2
                             else if spn_toml_edit_peek src it = CHR 0x0A then it + 1 else it);
                       stop = span_end span - 3
                   in if quote = CHR 0x27 then str_sub src it (stop - it) else multiline_loop utf8 src stop it [])))"

section \<open>Writers\<close>

definition spn_toml_edit_key_is_bare :: "string \<Rightarrow> bool" where
  "spn_toml_edit_key_is_bare key = (if key = [] then False else list_all spn_toml_edit_is_bare key)"

definition spn_toml_edit_write_key :: "string \<Rightarrow> string" where
  "spn_toml_edit_write_key key =
    (if spn_toml_edit_key_is_bare key then key
     else [CHR 0x22] @ concat (map (\<lambda>c. (if c = CHR 0x22 \<or> c = CHR 0x5C then [CHR 0x5C] else []) @ [c]) key) @ [CHR 0x22])"

fun write_segments :: "bool \<Rightarrow> string list \<Rightarrow> string" where
  "write_segments first [] = []"
| "write_segments first (segment # path) =
    (if first then [] else [CHR ''.'']) @ spn_toml_edit_write_key segment @ write_segments False path"

definition spn_toml_edit_write_key_path :: "string list \<Rightarrow> string" where
  "spn_toml_edit_write_key_path path = write_segments True path"

definition escape_char :: "char \<Rightarrow> string" where
  "escape_char c =
    (if c = CHR 0x22 then [CHR 0x5C, CHR 0x22]
     else if c = CHR 0x5C then [CHR 0x5C, CHR 0x5C]
     else if c = CHR 0x08 then [CHR 0x5C, CHR ''b'']
     else if c = CHR 0x09 then [CHR 0x5C, CHR ''t'']
     else if c = CHR 0x0A then [CHR 0x5C, CHR ''n'']
     else if c = CHR 0x0C then [CHR 0x5C, CHR ''f'']
     else if c = CHR 0x0D then [CHR 0x5C, CHR ''r'']
     else [c])"

definition spn_toml_edit_write_str_value :: "string \<Rightarrow> string" where
  "spn_toml_edit_write_str_value v = [CHR 0x22] @ concat (map escape_char v) @ [CHR 0x22]"

definition spn_toml_edit_quoted :: "string \<Rightarrow> string" where
  "spn_toml_edit_quoted v = spn_toml_edit_write_str_value v"

section \<open>Splices\<close>

definition splice_conflict :: "nat \<Rightarrow> nat \<Rightarrow> spn_toml_edit_splice_t \<Rightarrow> bool" where
  "splice_conflict at removed other =
    (let stop = at + removed; other_stop = tp_at other + tp_remove other
     in if removed \<noteq> 0 \<and> tp_remove other \<noteq> 0 then at < other_stop \<and> tp_at other < stop
        else if removed \<noteq> 0 then at < tp_at other \<and> tp_at other < stop
        else if tp_remove other \<noteq> 0 then tp_at other < at \<and> at < other_stop
        else False)"

definition spn_toml_edit_splice :: "spn_toml_edit_t \<Rightarrow> nat \<Rightarrow> nat \<Rightarrow> string \<Rightarrow> spn_toml_edit_t option" where
  "spn_toml_edit_splice edit at removed inserted =
    (if list_ex (splice_conflict at removed) (ed_splices edit) then None
     else Some (edit\<lparr>ed_splices := ed_splices edit @
       [\<lparr>tp_at = at, tp_remove = removed, tp_seq = length (ed_splices edit), tp_insert = inserted\<rparr>]\<rparr>))"

section \<open>The place of a new entry\<close>

record spn_toml_edit_site_t =
  st_section :: "spn_toml_edit_section_t option"
  st_at :: nat
  st_num_matched :: nat

fun site_entries :: "bool \<Rightarrow> string list \<Rightarrow> spn_toml_edit_entry_t list \<Rightarrow> nat \<Rightarrow> bool \<Rightarrow> nat \<times> bool" where
  "site_entries exact table [] at dotted = (at, dotted)"
| "site_entries exact table (entry # entries) at dotted =
    (if exact then site_entries exact table entries (te_line_end entry) dotted
     else if spn_toml_edit_path_starts_with (te_path entry) table \<and> length table < length (te_path entry) then
       site_entries exact table entries (te_line_end entry) True
     else site_entries exact table entries at dotted)"

fun site_loop :: "string list \<Rightarrow> spn_toml_edit_section_t list \<Rightarrow> spn_toml_edit_site_t \<Rightarrow> spn_toml_edit_site_t" where
  "site_loop table [] site = site"
| "site_loop table (section # sections) site =
    (if ts_array section \<or> \<not> spn_toml_edit_path_prefix (ts_path section) table then site_loop table sections site
     else
       (let len = length (ts_path section); exact = (len = length table)
        in case site_entries exact (drop len table) (ts_entries section) (ts_content section) False of
             (at, dotted) \<Rightarrow>
               if \<not> exact \<and> \<not> dotted then site_loop table sections site
               else if st_section site \<noteq> None \<and> len < st_num_matched site then site_loop table sections site
               else site_loop table sections \<lparr>st_section = Some section, st_at = at, st_num_matched = len\<rparr>))"

text \<open>\<open>table\<close> is the path of the entry without its last segment.\<close>

definition spn_toml_edit_find_site :: "spn_toml_edit_t \<Rightarrow> string list \<Rightarrow> spn_toml_edit_site_t" where
  "spn_toml_edit_find_site edit path =
     site_loop (butlast path) (ed_sections edit) \<lparr>st_section = None, st_at = 0, st_num_matched = 0\<rparr>"

section \<open>Setting a value\<close>

text \<open>The loop over the containers of the entry, from the innermost one: \<open>None\<close> when there is none,
  else the result of the function.\<close>

fun set_in_container ::
    "spn_toml_edit_t \<Rightarrow> string list \<Rightarrow> string \<Rightarrow> nat \<Rightarrow> spn_toml_edit_t option option" where
  "set_in_container edit path quoted 0 = None"
| "set_in_container edit path quoted (Suc n) =
    (let len = Suc n
     in case spn_toml_edit_find edit (take len path) of
          None \<Rightarrow> set_in_container edit path quoted n
        | Some container \<Rightarrow>
            Some
              (if te_kind container \<noteq> SPN_TOML_EDIT_VALUE_TABLE then None
               else
                 (case te_entries container of
                    [] \<Rightarrow>
                      spn_toml_edit_splice edit (span_start (te_value container))
                        (span_end (te_value container) - span_start (te_value container))
                        (''{ '' @ spn_toml_edit_write_key_path (drop len path) @ '' = '' @ quoted @ '' }'')
                  | first # _ \<Rightarrow>
                      spn_toml_edit_splice edit (span_start (te_key first)) 0
                        (spn_toml_edit_write_key_path (drop len path) @ '' = '' @ quoted @ '', ''))))"

text \<open>The text before a new section: an empty line, unless there is one.\<close>

definition new_section_gap :: "spn_toml_edit_t \<Rightarrow> string" where
  "new_section_gap edit =
    (let src = ed_source edit; eol = ed_eol edit
     in if src = [] then []
        else if last src \<noteq> CHR 0x0A then eol @ eol
        else
          (let stop = length src - 1;
               stop = (if stop \<noteq> 0 \<and> src ! (stop - 1) = CHR 0x0D then stop - 1 else stop)
           in if stop \<noteq> 0 \<and> src ! (stop - 1) \<noteq> CHR 0x0A then eol else []))"

definition spn_toml_edit_set_str :: "spn_toml_edit_t \<Rightarrow> string list \<Rightarrow> string \<Rightarrow> spn_toml_edit_t option" where
  "spn_toml_edit_set_str edit path v =
    (if path = [] then None
     else
       (let quoted = spn_toml_edit_quoted v; src = ed_source edit; eol = ed_eol edit
        in case spn_toml_edit_find edit path of
             Some entry \<Rightarrow>
               spn_toml_edit_splice edit (span_start (te_value entry))
                 (span_end (te_value entry) - span_start (te_value entry)) quoted
           | None \<Rightarrow>
               (case set_in_container edit path quoted (length path - 1) of
                  Some result \<Rightarrow> result
                | None \<Rightarrow>
                    (let site = spn_toml_edit_find_site edit path
                     in if st_section site \<noteq> None then
                          spn_toml_edit_splice edit (st_at site) 0
                            ((if st_at site \<noteq> 0 \<and> src ! (st_at site - 1) \<noteq> CHR 0x0A then eol else []) @
                             spn_toml_edit_write_key_path (drop (st_num_matched site) path) @ '' = '' @ quoted @ eol)
                        else if list_ex (\<lambda>section. ts_array section \<and> length (ts_path section) = length path - 1 \<and>
                                  spn_toml_edit_path_prefix (ts_path section) (butlast path)) (ed_sections edit) then None
                        else
                          spn_toml_edit_splice edit (length src) 0
                            (new_section_gap edit @ ''['' @ spn_toml_edit_write_key_path (butlast path) @ '']'' @ eol @
                             spn_toml_edit_write_key (last path) @ '' = '' @ quoted @ eol)))))"

section \<open>Rendering\<close>

definition spn_toml_edit_splice_sort :: "spn_toml_edit_splice_t \<Rightarrow> spn_toml_edit_splice_t \<Rightarrow> int" where
  "spn_toml_edit_splice_sort lhs rhs =
    (if tp_at lhs \<noteq> tp_at rhs then (if tp_at lhs < tp_at rhs then -1 else 1)
     else if tp_seq lhs \<noteq> tp_seq rhs then (if tp_seq lhs < tp_seq rhs then -1 else 1)
     else 0)"

text \<open>\<open>sp_da_sort\<close>: the order is total on splices with distinct numbers, so the algorithm does not
  matter.\<close>

fun insert_splice :: "spn_toml_edit_splice_t \<Rightarrow> spn_toml_edit_splice_t list \<Rightarrow> spn_toml_edit_splice_t list" where
  "insert_splice s [] = [s]"
| "insert_splice s (other # rest) =
    (if spn_toml_edit_splice_sort s other \<le> 0 then s # other # rest
     else other # insert_splice s rest)"

definition sort_splices :: "spn_toml_edit_splice_t list \<Rightarrow> spn_toml_edit_splice_t list" where
  "sort_splices splices = foldr insert_splice splices []"

definition write_source_range :: "string \<Rightarrow> nat \<Rightarrow> nat \<Rightarrow> string" where
  "write_source_range source start stop = (if start < stop then str_sub source start (stop - start) else [])"

text \<open>\<open>None\<close> is the failed assertion.\<close>

fun render_loop :: "string \<Rightarrow> spn_toml_edit_splice_t list \<Rightarrow> nat \<Rightarrow> string option" where
  "render_loop source [] cursor = Some (write_source_range source cursor (length source))"
| "render_loop source (s # splices) cursor =
    (if tp_at s < cursor then None
     else
       map_option (\<lambda>rest. write_source_range source cursor (tp_at s) @ tp_insert s @ rest)
         (render_loop source splices (tp_at s + tp_remove s)))"

definition spn_toml_edit_render :: "spn_toml_edit_t \<Rightarrow> string option" where
  "spn_toml_edit_render edit = render_loop (ed_source edit) (sort_splices (ed_splices edit)) 0"

end
