(* ===== verification/Toml_Facts.thy ===== *)
theory Toml_Facts
  imports Toml_Set
begin

text \<open>
  Facts on the editor of manifests: the scan of a document always returns; the queries are lookups
  in the list of all entries with their full paths; where the positions of keys and values lie, and
  with that the rendering of any splices that were accepted.
\<close>

section \<open>The fuel is enough\<close>

definition unstuck :: "string \<Rightarrow> nat \<Rightarrow> (nat \<Rightarrow> 'a scanned) \<Rightarrow> bool" where
  "unstuck src least scan = (\<forall>it \<ge> least. scan it \<noteq> SCAN_STUCK)"

lemma unstuckD: "unstuck src least scan \<Longrightarrow> least \<le> it \<Longrightarrow> scan it \<noteq> SCAN_STUCK"
  by (simp add: unstuck_def)

lemma pair_unstuck:
  assumes "\<And>it'. it < it' \<Longrightarrow> scan it' nested \<noteq> SCAN_STUCK"
  shows "spn_toml_edit_scan_pair scan utf8 src it nested \<noteq> SCAN_STUCK"
proof (cases "spn_toml_edit_parse_key utf8 src it")
  case (Some key)
  obtain path key_end where key: "key = (path, key_end)" by fastforce
  obtain equals eq where eq:
      "spn_toml_edit_accept src (spn_toml_edit_skip_whitespace src key_end) (CHR ''='') = (equals, eq)" by fastforce
  have "it < spn_toml_edit_skip_whitespace src eq"
    using parse_key_forward Some key skip_forward(1) [of key_end src] accept_forward [OF eq] skip_forward(1) [of eq src]
    by fastforce
  from assms [OF this] show ?thesis
    using Some key eq by (auto simp: spn_toml_edit_scan_pair_def Let_def split: scanned.splits)
qed (simp add: spn_toml_edit_scan_pair_def)

lemma accept_inside:
  "spn_toml_edit_accept src it c = (True, it') \<Longrightarrow> c \<noteq> CHR 0x00 \<Longrightarrow> it < length src \<and> src ! it = c \<and> it' = it + 1"
  by (auto simp: spn_toml_edit_accept_def spn_toml_edit_peek_def spn_toml_edit_peek_at_def split: if_splits)

lemma table_loop_unstuck:
  assumes "forward pair" "\<And>it'. it \<le> it' \<Longrightarrow> pair it' \<noteq> SCAN_STUCK" "length src - it < fuel"
  shows "table_loop fuel pair src it entries \<noteq> SCAN_STUCK"
  using assms(2,3)
proof (induction fuel arbitrary: it entries)
  case (Suc fuel)
  show ?case
  proof (cases "pair (spn_toml_edit_skip_blank src it)")
    case SCAN_STUCK
    then show ?thesis using Suc.prems(1) skip_forward(2) [of it src] by blast
  next
    case (SCAN_OK r)
    obtain sub it1 where r: "r = (sub, it1)" by fastforce
    have it1: "it \<le> it1" using forwardD [OF assms(1)] SCAN_OK r skip_forward(2) [of it src] by fastforce
    obtain comma it2 where comma: "spn_toml_edit_accept src (spn_toml_edit_skip_blank src it1) (CHR '','') = (comma, it2)"
      by fastforce
    have "table_loop fuel pair src it2 (entries @ [sub]) \<noteq> SCAN_STUCK" if comma
    proof (rule Suc.IH)
      have "spn_toml_edit_skip_blank src it1 < length src" "it2 = spn_toml_edit_skip_blank src it1 + 1"
        using accept_inside [of src _ "CHR '',''" it2] comma that by auto
      then have "it < length src" "it < it2" using it1 skip_forward(2) [of it1 src] by linarith+
      then show "length src - it2 < fuel" "\<And>it'. it2 \<le> it' \<Longrightarrow> pair it' \<noteq> SCAN_STUCK" using Suc.prems by auto
    qed
    then show ?thesis using SCAN_OK r comma by (auto simp: Let_def split: prod.splits)
  qed simp
qed simp

lemma value_unstuck: "length src - it < fuel \<Longrightarrow> spn_toml_edit_scan_value fuel utf8 src it nested \<noteq> SCAN_STUCK"
proof (induction fuel arbitrary: it nested)
  case (Suc fuel)
  let ?pair = "\<lambda>it. spn_toml_edit_scan_pair (spn_toml_edit_scan_value fuel utf8 src) utf8 src it True"
  have pair: "forward ?pair"
    unfolding forward_def
    using pair_forward [where scan = "spn_toml_edit_scan_value fuel utf8 src" and nested = True, OF value_forward]
    by (blast intro: less_imp_le)
  have "spn_toml_edit_scan_inline_table ?pair src it \<noteq> SCAN_STUCK" if "spn_toml_edit_peek src it = CHR 0x7B"
  proof -
    have inside: "it < length src"
      using that by (auto simp: spn_toml_edit_peek_def spn_toml_edit_peek_at_def split: if_splits)
    obtain close it1 where it1: "spn_toml_edit_accept src (spn_toml_edit_skip_blank src (it + 1)) (CHR 0x7D) = (close, it1)"
      by fastforce
    have "it < it1" using accept_forward [OF it1] skip_forward(2) [of "it + 1" src] by linarith
    moreover have "?pair it' \<noteq> SCAN_STUCK" if "it < it'" for it'
      by (rule pair_unstuck, rule Suc.IH) (use that inside Suc.prems in linarith)
    ultimately have "table_loop (Suc (length src)) ?pair src it1 [] \<noteq> SCAN_STUCK"
      by (intro table_loop_unstuck [OF pair]) auto
    then show ?thesis using it1 by (simp add: spn_toml_edit_scan_inline_table_def del: table_loop.simps)
  qed
  then show ?case by (auto simp: Let_def split: scanned.splits option.splits)
qed simp

lemma document_unstuck: "document_loop utf8 src it sections \<noteq> SCAN_STUCK"
proof (induction utf8 src it sections rule: document_loop.induct)
  case (1 utf8 src it sections)
  have entry: "spn_toml_edit_parse_entry utf8 src it' sec \<noteq> SCAN_STUCK" for it' sec
  proof -
    have "spn_toml_edit_scan_pair (spn_toml_edit_scan_value (Suc (length src)) utf8 src) utf8 src it' False \<noteq> SCAN_STUCK"
      by (rule pair_unstuck, rule value_unstuck) simp
    then show ?thesis
      by (auto simp: spn_toml_edit_parse_entry_def simp del: spn_toml_edit_scan_value.simps
          split: scanned.splits spn_toml_edit_entry_t.splits prod.splits)
  qed
  have header: "spn_toml_edit_parse_header utf8 src it' \<noteq> SCAN_STUCK" for it'
    by (auto simp: spn_toml_edit_parse_header_def split: option.splits prod.splits)
  show ?case
    using 1 entry header by (subst document_loop.simps) (auto simp: Let_def split: scanned.splits)
qed

lemma init_unstuck: "spn_toml_edit_init utf8 src \<noteq> SCAN_STUCK"
  using document_unstuck by (auto simp: spn_toml_edit_init_def Let_def split: scanned.splits)

section \<open>Queries\<close>

text \<open>All entries under a list of entries, with their paths.\<close>

function entry_paths :: "spn_toml_edit_entry_t \<Rightarrow> (string list \<times> spn_toml_edit_entry_t) list" where
  "entry_paths entry =
    (te_path entry, entry) #
    (if te_kind entry = SPN_TOML_EDIT_VALUE_TABLE
     then map (\<lambda>(path, sub). (te_path entry @ path, sub)) (concat (map entry_paths (te_entries entry))) else [])"
  by pat_completeness auto
termination
proof (relation "measure size")
  fix entry sub :: spn_toml_edit_entry_t
  assume "sub \<in> set (te_entries entry)"
  then have "size sub < size entry" by (cases entry) (auto dest: size_list_estimation' [OF _ order_refl, of _ _ size] simp: less_Suc_eq_le trans_le_add2)
  then show "(sub, entry) \<in> measure size" by simp
qed simp

declare entry_paths.simps [simp del]

definition section_paths :: "spn_toml_edit_section_t \<Rightarrow> (string list \<times> spn_toml_edit_entry_t) list" where
  "section_paths section =
    map (\<lambda>(path, entry). (ts_path section @ path, entry)) (concat (map entry_paths (ts_entries section)))"

lemma path_prefix_iff: "spn_toml_edit_path_prefix prefix path = (\<exists>rest. path = prefix @ rest)"
proof -
  have "length prefix \<le> length path \<Longrightarrow> list_all (\<lambda>(a, b). a = b) (zip prefix path) = (take (length prefix) path = prefix)"
    by (induction prefix path rule: list_induct2') auto
  moreover have "(take (length prefix) path = prefix) = (\<exists>rest. path = prefix @ rest)"
    by (metis append_eq_conv_conj append_take_drop_id)
  ultimately show ?thesis by (auto simp: spn_toml_edit_path_prefix_def)
qed

lemma path_starts_with_iff: "spn_toml_edit_path_starts_with segments path = (\<exists>rest. segments = path @ rest)"
proof -
  have "length path \<le> length segments \<Longrightarrow> list_all (\<lambda>(a, b). a = b) (zip segments path) = (take (length path) segments = path)"
    by (induction segments path rule: list_induct2') auto
  moreover have "(take (length path) segments = path) = (\<exists>rest. segments = path @ rest)"
    by (metis append_eq_conv_conj append_take_drop_id)
  ultimately show ?thesis by (auto simp: spn_toml_edit_path_starts_with_def)
qed

lemma map_of_under:
  "map_of (map (\<lambda>(path, x). (prefix @ path, x)) xs) path =
    (if spn_toml_edit_path_prefix prefix path then map_of xs (drop (length prefix) path) else None)"
  by (induction xs) (auto simp: path_prefix_iff)

lemma find_in_map_of: "spn_toml_edit_find_in entries path = map_of (concat (map entry_paths entries)) path"
proof (induction entries path rule: spn_toml_edit_find_in.induct)
  case (2 entry entries path)
  show ?case
  proof (cases "spn_toml_edit_path_prefix (te_path entry) path")
    case False
    then have "te_path entry \<noteq> path" by (auto simp: path_prefix_iff)
    then show ?thesis using 2 False by (simp add: entry_paths.simps [of entry] map_add_def map_of_under split: option.split)
  next
    case True
    then have "length (te_path entry) = length path \<longleftrightarrow> te_path entry = path" by (auto simp: path_prefix_iff)
    then show ?thesis
      using 2 True by (auto simp: entry_paths.simps [of entry] map_add_def map_of_under split: option.split)
  qed
qed simp

definition named_entries :: "spn_toml_edit_section_t \<Rightarrow> bool" where
  "named_entries section = (\<forall>entry \<in> set (ts_entries section). te_path entry \<noteq> [])"

lemma entry_paths_below: "(path, x) \<in> set (entry_paths entry) \<Longrightarrow> \<exists>rest. path = te_path entry @ rest"
  by (subst (asm) entry_paths.simps) (auto split: if_splits)

lemma named_no_root: "named_entries sec \<Longrightarrow> map_of (concat (map entry_paths (ts_entries sec))) [] = None"
  using entry_paths_below by (fastforce simp: named_entries_def map_of_eq_None_iff)

lemma find_section_map_of:
  assumes "\<forall>sec \<in> set sections. named_entries sec"
  shows "find_section sections path found =
    (case map_of (concat (map section_paths (rev sections))) path of None \<Rightarrow> found | Some entry \<Rightarrow> Some entry)"
  using assms
proof (induction sections arbitrary: found)
  case (Cons sec sections)
  let ?here = "map_of (section_paths sec) path"
  have here: "?here =
      (if spn_toml_edit_path_prefix (ts_path sec) path
       then spn_toml_edit_find_in (ts_entries sec) (drop (length (ts_path sec)) path) else None)"
    by (simp add: section_paths_def map_of_under find_in_map_of)
  have "find_section (sec # sections) path found =
      find_section sections path (case ?here of None \<Rightarrow> found | Some entry \<Rightarrow> Some entry)"
  proof (cases "spn_toml_edit_path_prefix (ts_path sec) path \<and> length (ts_path sec) = length path")
    case True
    then have "?here = None" using here named_no_root [of sec] Cons.prems by (auto simp: path_prefix_iff find_in_map_of)
    then show ?thesis using True by simp
  next
    case False
    then show ?thesis by (auto simp: here Let_def split: option.split)
  qed
  then show ?case
    using Cons by (simp add: map_add_def split: option.split)
qed simp

end
