(* ===== verification/Toml_Layout.thy ===== *)
theory Toml_Layout
  imports Toml_Facts
begin

text \<open>
  Where the parts of a document lie: a value comes after an equals sign, a pair of an inline table
  after a brace or a comma, an insertion at the start of a line. So a place where something is
  inserted is never the start of a value that is replaced, and the splices that the editor accepts
  can be rendered.
\<close>

section \<open>Positions in a document\<close>

definition after_equals :: "string \<Rightarrow> nat \<Rightarrow> bool" where
  "after_equals src it =
    (\<exists>q < it. it < length src \<and> src ! q = CHR ''='' \<and> (\<forall>i. q < i \<longrightarrow> i < it \<longrightarrow> spn_toml_edit_is_whitespace (src ! i)))"

definition after_opening :: "string \<Rightarrow> nat \<Rightarrow> bool" where
  "after_opening src it =
    (\<exists>q < it. it \<le> length src \<and> src ! q \<in> {CHR 0x7B, CHR '',''} \<and> (\<forall>i. q < i \<longrightarrow> i < it \<longrightarrow> spn_toml_edit_is_blank (src ! i)))"

definition at_line :: "string \<Rightarrow> nat \<Rightarrow> bool" where
  "at_line src it = (it = 0 \<or> it = length src \<or> it < length src \<and> src ! (it - 1) = CHR 0x0A)"

lemma whitespace_chars:
  "\<not> spn_toml_edit_is_whitespace (CHR ''='')" "\<not> spn_toml_edit_is_blank (CHR ''='')"
  "\<not> spn_toml_edit_is_blank (CHR 0x7B)" "\<not> spn_toml_edit_is_blank (CHR '','')"
  "\<not> spn_toml_edit_is_whitespace (CHR 0x0A)"
  "spn_toml_edit_is_whitespace c \<Longrightarrow> spn_toml_edit_is_blank c"
  by (auto simp: spn_toml_edit_is_whitespace_def spn_toml_edit_is_blank_def)

lemma opening_not_equals: "after_opening src it \<Longrightarrow> \<not> after_equals src it"
proof
  assume "after_opening src it" "after_equals src it"
  then obtain q r where q: "q < it" "src ! q \<in> {CHR 0x7B, CHR '',''}" "\<forall>i. q < i \<longrightarrow> i < it \<longrightarrow> spn_toml_edit_is_blank (src ! i)"
    and r: "r < it" "src ! r = CHR ''=''" "\<forall>i. r < i \<longrightarrow> i < it \<longrightarrow> spn_toml_edit_is_whitespace (src ! i)"
    by (auto simp: after_opening_def after_equals_def)
  consider "q < r" | "r < q" | "r = q" by linarith
  then show False
  proof cases
    case 1
    then show ?thesis using q(3) r(1,2) whitespace_chars(2) by auto
  next
    case 2
    then have "spn_toml_edit_is_whitespace (src ! q)" using q(1) r(3) by blast
    then show ?thesis using q(2) whitespace_chars(3,4,6) by auto
  next
    case 3
    then show ?thesis using q(2) r(2) by auto
  qed
qed

lemma line_not_equals: "at_line src it \<Longrightarrow> \<not> after_equals src it"
proof
  assume line: "at_line src it" and "after_equals src it"
  then obtain r where r: "r < it" "it < length src" "src ! r = CHR ''=''"
      "\<forall>i. r < i \<longrightarrow> i < it \<longrightarrow> spn_toml_edit_is_whitespace (src ! i)"
    by (auto simp: after_equals_def)
  then have "src ! (it - 1) = CHR 0x0A" using line by (auto simp: at_line_def)
  moreover have "it - 1 = r \<or> r < it - 1" using r(1) by linarith
  ultimately show False using r whitespace_chars(5) by auto
qed

lemma toml_skip_passed: "it \<le> i \<Longrightarrow> i < toml_skip p src it \<Longrightarrow> p (src ! i)"
proof (induction p src it rule: toml_skip.induct)
  case (1 p src it)
  then show ?case
    by (cases "i = it") (auto simp: toml_skip.simps [of p src it] spn_toml_edit_done_def spn_toml_edit_peek_def
        spn_toml_edit_peek_at_def split: if_splits)
qed

fun entry_ok :: "string \<Rightarrow> spn_toml_edit_entry_t \<Rightarrow> bool" where
  "entry_ok src (Entry path kind key val line_end entries) =
    (path \<noteq> [] \<and> after_equals src (span_start val) \<and> span_start val < span_end val \<and> span_end val \<le> length src \<and>
     (\<forall>sub \<in> set entries. after_opening src (span_start (te_key sub)) \<and> entry_ok src sub))"

definition section_ok :: "string \<Rightarrow> spn_toml_edit_section_t \<Rightarrow> bool" where
  "section_ok src sec =
    (at_line src (ts_content sec) \<and> ts_content sec \<le> length src \<and>
     (\<forall>entry \<in> set (ts_entries sec). entry_ok src entry \<and> at_line src (te_line_end entry) \<and> te_line_end entry \<le> length src))"

lemma key_loop_named: "key_loop utf8 src it segments = Some (path, it') \<Longrightarrow> path \<noteq> []"
proof (induction utf8 src it segments rule: key_loop.induct)
  case (1 utf8 src it segments)
  then show ?case by (subst (asm) (2) key_loop.simps) (auto split: option.splits prod.splits if_splits)
qed

text \<open>A pair is fine when its value lies where the scan of values says.\<close>

definition values_ok :: "string \<Rightarrow> (nat \<Rightarrow> bool \<Rightarrow> (toml_value \<times> nat) scanned) \<Rightarrow> bool" where
  "values_ok src scan = (\<forall>it nested kind stop entries it'. scan it nested = SCAN_OK ((kind, stop, entries), it') \<longrightarrow>
     it < stop \<and> stop \<le> length src \<and> (\<forall>sub \<in> set entries. after_opening src (span_start (te_key sub)) \<and> entry_ok src sub))"

lemma values_okD:
  "values_ok src scan \<Longrightarrow> scan it nested = SCAN_OK ((kind, stop, entries), it') \<Longrightarrow>
    it < stop \<and> stop \<le> length src \<and> (\<forall>sub \<in> set entries. after_opening src (span_start (te_key sub)) \<and> entry_ok src sub)"
  unfolding values_ok_def by blast

lemma pair_layout:
  assumes "values_ok src scan" "spn_toml_edit_scan_pair scan utf8 src it nested = SCAN_OK (entry, it')"
  shows "entry_ok src entry \<and> span_start (te_key entry) = it"
  using assms(2)
proof (rule pair_ok)
  fix path key_end eq kind stop entries
  let ?start = "spn_toml_edit_skip_whitespace src eq"
  assume *: "spn_toml_edit_parse_key utf8 src it = Some (path, key_end)"
    "spn_toml_edit_accept src (spn_toml_edit_skip_whitespace src key_end) (CHR ''='') = (True, eq)"
    "scan ?start nested = SCAN_OK ((kind, stop, entries), it')"
    "entry = Entry path kind \<lparr>span_start = it, span_end = key_end\<rparr> \<lparr>span_start = ?start, span_end = stop\<rparr> 0 entries"
  have val: "?start < stop" "stop \<le> length src" "\<forall>sub \<in> set entries. after_opening src (span_start (te_key sub)) \<and> entry_ok src sub"
    using values_okD [OF assms(1) *(3)] by auto
  have eq: "0 < eq" "src ! (eq - 1) = CHR ''=''" using accept_inside [OF *(2)] by auto
  have "spn_toml_edit_is_whitespace (src ! i)" if "eq - 1 < i" "i < ?start" for i
    using toml_skip_passed [of eq i spn_toml_edit_is_whitespace src] that by (simp add: spn_toml_edit_skip_whitespace_def)
  then have "after_equals src ?start"
    using eq val skip_forward(1) [of eq src] by (auto simp: after_equals_def intro!: exI [of _ "eq - 1"])
  moreover have "path \<noteq> []" using *(1) key_loop_named by (auto simp: spn_toml_edit_parse_key_def)
  ultimately show ?thesis using val *(4) by simp
qed

lemma opening_skip:
  assumes "it < length src" "src ! it \<in> {CHR 0x7B, CHR '',''}"
  shows "after_opening src (spn_toml_edit_skip_blank src (it + 1))"
proof -
  have "spn_toml_edit_is_blank (src ! i)" if "it < i" "i < spn_toml_edit_skip_blank src (it + 1)" for i
    using toml_skip_passed [of "it + 1" i spn_toml_edit_is_blank src] that by (simp add: spn_toml_edit_skip_blank_def)
  moreover have "spn_toml_edit_skip_blank src (it + 1) \<le> length src"
    using assms(1) by (simp add: spn_toml_edit_skip_blank_def toml_skip_inside)
  ultimately show ?thesis
    using assms skip_forward(2) [of "it + 1" src] by (auto simp: after_opening_def intro!: exI [of _ it])
qed

lemma toml_skip_stops:
  "spn_toml_edit_done src (toml_skip p src it) \<or> \<not> p (spn_toml_edit_peek src (toml_skip p src it))"
proof (induction p src it rule: toml_skip.induct)
  case (1 p src it)
  then show ?case by (cases "\<not> spn_toml_edit_done src it \<and> p (spn_toml_edit_peek src it)")
      (auto simp: toml_skip.simps [of p src it])
qed

lemma skip_blank_twice: "spn_toml_edit_skip_blank src (spn_toml_edit_skip_blank src it) = spn_toml_edit_skip_blank src it"
  using toml_skip_stops [of src spn_toml_edit_is_blank it]
  by (auto simp: spn_toml_edit_skip_blank_def toml_skip.simps [of _ src "toml_skip spn_toml_edit_is_blank src it"])

lemma table_loop_layout:
  assumes "\<And>it entry it'. pair it = SCAN_OK (entry, it') \<Longrightarrow> entry_ok src entry \<and> span_start (te_key entry) = it"
  shows "table_loop fuel pair src it entries = SCAN_OK (entries', it') \<Longrightarrow>
    after_opening src (spn_toml_edit_skip_blank src it) \<Longrightarrow>
    \<forall>sub \<in> set entries. after_opening src (span_start (te_key sub)) \<and> entry_ok src sub \<Longrightarrow>
    it' \<le> length src \<and> (\<forall>sub \<in> set entries'. after_opening src (span_start (te_key sub)) \<and> entry_ok src sub)"
proof (induction fuel arbitrary: it entries)
  case (Suc fuel)
  from Suc.prems(1) show ?case
  proof (rule table_loop_ok)
    fix sub it1 comma it2
    assume *: "pair (spn_toml_edit_skip_blank src it) = SCAN_OK (sub, it1)"
      "spn_toml_edit_accept src (spn_toml_edit_skip_blank src it1) (CHR '','') = (comma, it2)"
      "comma \<Longrightarrow> table_loop fuel pair src it2 (entries @ [sub]) = SCAN_OK (entries', it')"
      "\<not> comma \<Longrightarrow> spn_toml_edit_accept src it2 (CHR 0x7D) = (True, it') \<and> entries' = entries @ [sub]"
    have new: "\<forall>sub \<in> set (entries @ [sub]). after_opening src (span_start (te_key sub)) \<and> entry_ok src sub"
      using Suc.prems(2,3) assms [OF *(1)] by auto
    show ?thesis
    proof (cases comma)
      case True
      then have "after_opening src (spn_toml_edit_skip_blank src it2)"
        using *(2) accept_inside [of src "spn_toml_edit_skip_blank src it1" "CHR '',''" it2] opening_skip by auto
      then show ?thesis using Suc.IH [OF *(3) _ new] True by blast
    next
      case False
      then show ?thesis using *(4) new accept_inside [of src it2 "CHR 0x7D" it'] by auto
    qed
  qed
qed simp

lemma trim_back_le: "trim_back src start stop \<le> stop"
  by (induction src start stop rule: trim_back.induct) (subst trim_back.simps, auto)

lemma value_layout: "values_ok src (spn_toml_edit_scan_value fuel utf8 src)"
proof (induction fuel)
  case (Suc fuel)
  have pair: "entry_ok src entry \<and> span_start (te_key entry) = it"
    if "spn_toml_edit_scan_pair (spn_toml_edit_scan_value fuel utf8 src) utf8 src it True = SCAN_OK (entry, it')" for it entry it'
    using pair_layout [OF Suc that] .
  have "it < stop \<and> stop \<le> length src \<and> (\<forall>sub \<in> set entries. after_opening src (span_start (te_key sub)) \<and> entry_ok src sub)"
    if "spn_toml_edit_scan_value (Suc fuel) utf8 src it nested = SCAN_OK ((kind, stop, entries), it')"
    for it nested kind stop entries it'
    using that
  proof (cases rule: value_ok)
    case str
    then show ?thesis using scan_string_forward [of src it it'] by auto
  next
    case array
    then show ?thesis using array_loop_forward by (auto simp: spn_toml_edit_scan_array_def)
  next
    case table
    have brace: "it < length src" "src ! it = CHR 0x7B"
      using table(1) by (auto simp: spn_toml_edit_peek_def spn_toml_edit_peek_at_def split: if_splits)
    from table(2) show ?thesis
    proof (cases rule: inline_table_ok)
      case empty
      then show ?thesis
        using accept_inside [OF empty(1)] skip_forward(2) [of "it + 1" src] table(4) by auto
    next
      case pairs
      have "forward (\<lambda>it. spn_toml_edit_scan_pair (spn_toml_edit_scan_value fuel utf8 src) utf8 src it True)"
        unfolding forward_def
        using pair_forward [where scan = "spn_toml_edit_scan_value fuel utf8 src" and nested = True, OF value_forward]
        by (blast intro: less_imp_le)
      from inline_table_forward [OF this table(2)] table_loop_layout [OF pair pairs]
      show ?thesis using opening_skip [OF brace(1)] brace(2) table(4) by (simp add: skip_blank_twice)
    qed
  next
    case scalar
    have "it < length src" using scalar(2,3,4) trim_back_le [of src it it']
      by (auto simp: toml_skip.simps [of _ src it] spn_toml_edit_done_def split: if_splits)
    then show ?thesis
      using scalar trim_back_le [of src it it'] toml_skip_inside [of it src "\<lambda>c. \<not> scalar_stop nested c"] by auto
  qed
  then show ?case by (fastforce simp: values_ok_def)
qed (simp add: values_ok_def)

lemma line_end_layout: "spn_toml_edit_skip_line_end src it = (True, it') \<Longrightarrow> it \<le> length src \<Longrightarrow> at_line src it' \<and> it' \<le> length src"
proof -
  let ?it = "spn_toml_edit_skip_comment src (spn_toml_edit_skip_whitespace src it)"
  assume *: "spn_toml_edit_skip_line_end src it = (True, it')" "it \<le> length src"
  have "?it \<le> length src"
    using *(2) by (simp add: spn_toml_edit_skip_comment_def spn_toml_edit_skip_whitespace_def toml_skip_inside)
  show ?thesis
  proof (cases "spn_toml_edit_done src ?it")
    case True
    then show ?thesis
      using * \<open>?it \<le> length src\<close> by (auto simp: spn_toml_edit_skip_line_end_def Let_def at_line_def spn_toml_edit_done_def)
  next
    case False
    then have "spn_toml_edit_accept src (snd (spn_toml_edit_accept src ?it (CHR 0x0D))) (CHR 0x0A) = (True, it')"
      using * by (simp add: spn_toml_edit_skip_line_end_def Let_def)
    from accept_inside [OF this] show ?thesis by (auto simp: at_line_def)
  qed
qed

lemma scan_value_inside:
  assumes "spn_toml_edit_scan_value fuel utf8 src it nested = SCAN_OK ((kind, stop, entries), it')" "it \<le> length src"
  shows "it' \<le> length src"
proof (cases fuel)
  case (Suc n)
  from assms(1) [unfolded Suc] show ?thesis
  proof (cases rule: value_ok)
    case scalar
    then show ?thesis using assms(2) toml_skip_inside by simp
  qed (use values_okD [OF value_layout assms(1)] in auto)
qed (use assms in simp)

lemma pair_inside:
  assumes "spn_toml_edit_scan_pair (spn_toml_edit_scan_value fuel utf8 src) utf8 src it nested = SCAN_OK (entry, it')"
  shows "it' \<le> length src"
  using assms
proof (rule pair_ok)
  fix path key_end eq kind stop entries
  assume *: "spn_toml_edit_accept src (spn_toml_edit_skip_whitespace src key_end) (CHR ''='') = (True, eq)"
    "spn_toml_edit_scan_value fuel utf8 src (spn_toml_edit_skip_whitespace src eq) nested = SCAN_OK ((kind, stop, entries), it')"
  have "eq \<le> length src" using accept_inside [OF *(1)] by auto
  then show ?thesis
    using scan_value_inside [OF *(2)] by (simp add: spn_toml_edit_skip_whitespace_def toml_skip_inside)
qed

lemma parse_entry_layout:
  assumes "spn_toml_edit_parse_entry utf8 src it sec = SCAN_OK (sec', it')" "section_ok src sec"
  shows "section_ok src sec'"
  using assms(1)
proof (rule parse_entry_ok)
  fix entry it1
  assume *: "spn_toml_edit_scan_pair (spn_toml_edit_scan_value (Suc (length src)) utf8 src) utf8 src it False = SCAN_OK (entry, it1)"
    "spn_toml_edit_skip_line_end src it1 = (True, it')"
    "sec' = sec\<lparr>ts_entries := ts_entries sec @
       [Entry (te_path entry) (te_kind entry) (te_key entry) (te_value entry) it' (te_entries entry)]\<rparr>"
  have "entry_ok src entry" using pair_layout [OF value_layout *(1)] by simp
  then have "entry_ok src (Entry (te_path entry) (te_kind entry) (te_key entry) (te_value entry) it' (te_entries entry))"
    by (cases entry) simp
  then show ?thesis
    using assms(2) *(3) line_end_layout [OF *(2) pair_inside [OF *(1)]] by (auto simp: section_ok_def)
qed

lemma parse_header_layout:
  assumes "spn_toml_edit_parse_header utf8 src it = SCAN_OK (sec, it')"
  shows "section_ok src sec"
  using assms
proof (rule parse_header_ok)
  fix array it1 path it2 it3 it4
  assume *: "spn_toml_edit_accept src (spn_toml_edit_skip_whitespace src it2) (CHR '']'') = (True, it3)"
    "(if array then spn_toml_edit_accept src it3 (CHR '']'') else (True, it3)) = (True, it4)"
    "spn_toml_edit_skip_line_end src it4 = (True, it')"
    "sec = \<lparr>ts_path = path, ts_array = array, ts_content = it', ts_entries = []\<rparr>"
  have "it3 \<le> length src" using accept_inside [OF *(1)] by auto
  then have "it4 \<le> length src" using *(2) accept_inside [of src it3 "CHR '']''" it4] by (auto split: if_splits)
  then show ?thesis using line_end_layout [OF *(3)] *(4) by (simp add: section_ok_def)
qed

lemma document_layout:
  "document_loop utf8 src it sections = SCAN_OK sections' \<Longrightarrow> sections \<noteq> [] \<Longrightarrow>
    \<forall>sec \<in> set sections. section_ok src sec \<Longrightarrow> \<forall>sec \<in> set sections'. section_ok src sec"
proof (induction utf8 src it sections rule: document_loop.induct)
  case (1 utf8 src it sections)
  let ?it = "spn_toml_edit_skip_blank src it"
  have step: "document_loop utf8 src it sections = SCAN_OK sections'" by (rule 1(4))
  consider (finish) "spn_toml_edit_done src ?it"
    | (comment) "\<not> spn_toml_edit_done src ?it" "spn_toml_edit_peek src ?it = CHR ''#''"
    | (header) "\<not> spn_toml_edit_done src ?it" "spn_toml_edit_peek src ?it = CHR ''[''"
    | (entry) "\<not> spn_toml_edit_done src ?it" "spn_toml_edit_peek src ?it \<noteq> CHR ''#''" "spn_toml_edit_peek src ?it \<noteq> CHR ''[''"
    by blast
  then show ?case
  proof cases
    case finish
    then show ?thesis using 1(6) step by (subst (asm) document_loop.simps) simp
  next
    case comment
    then have "document_loop utf8 src (spn_toml_edit_skip_comment src ?it) sections = SCAN_OK sections'"
      using step by (subst (asm) document_loop.simps) simp
    then show ?thesis using 1(1) [OF refl comment] 1(5,6) by blast
  next
    case header
    then obtain sec it2 where sec: "spn_toml_edit_parse_header utf8 src ?it = SCAN_OK (sec, it2)"
      "document_loop utf8 src it2 (sections @ [sec]) = SCAN_OK sections'"
      using step by (subst (asm) document_loop.simps) (auto simp: Let_def split: scanned.splits)
    then show ?thesis using 1(2) [OF refl header(1) _ header(2) sec(1) refl sec(2)] header 1(5,6) parse_header_layout by auto
  next
    case entry
    then obtain sec it2 where sec: "spn_toml_edit_parse_entry utf8 src ?it (last sections) = SCAN_OK (sec, it2)"
      "document_loop utf8 src it2 (butlast sections @ [sec]) = SCAN_OK sections'"
      using step by (subst (asm) document_loop.simps) (auto simp: Let_def split: scanned.splits)
    have "section_ok src sec" using parse_entry_layout [OF sec(1)] 1(5,6) by simp
    then show ?thesis
      using 1(3) [OF refl entry(1,2,3) sec(1) refl sec(2)] 1(6) in_set_butlastD by fastforce
  qed
qed

lemma init_ok:
  assumes "spn_toml_edit_init utf8 src = SCAN_OK edit"
  shows "ed_source edit = src" "ed_splices edit = []" "\<forall>sec \<in> set (ed_sections edit). section_ok src sec"
    "ed_eol edit \<in> {[CHR 0x0A], [CHR 0x0D, CHR 0x0A]}"
proof -
  let ?root = "\<lparr>ts_path = [], ts_array = False, ts_content = 0, ts_entries = []\<rparr>"
  show "ed_source edit = src" "ed_splices edit = []" "ed_eol edit \<in> {[CHR 0x0A], [CHR 0x0D, CHR 0x0A]}"
    using assms by (auto simp: spn_toml_edit_init_def Let_def split: scanned.splits)
  obtain sections where sections: "document_loop utf8 src 0 [?root] = SCAN_OK sections" "ed_sections edit = sections"
    using assms by (auto simp: spn_toml_edit_init_def Let_def split: scanned.splits)
  show "\<forall>sec \<in> set (ed_sections edit). section_ok src sec"
    unfolding sections(2) by (rule document_layout [OF sections(1)]) (simp_all add: section_ok_def at_line_def)
qed

end
