(* ===== verification/Toml_Render.thy ===== *)
theory Toml_Render
  imports Toml_Layout "HOL-Library.Multiset"
begin

text \<open>
  The splices of an editor: what \<open>spn_toml_edit_set_str\<close> adds never overlaps what is there, so the
  sorted splices follow each other and the rendering is the text with every replaced value cut out
  and every insertion put in.
\<close>

section \<open>What is found lies where it should\<close>

lemma entry_ok_parts:
  "entry_ok src entry \<Longrightarrow>
    te_path entry \<noteq> [] \<and> after_equals src (span_start (te_value entry)) \<and>
    span_start (te_value entry) < span_end (te_value entry) \<and> span_end (te_value entry) \<le> length src \<and>
    (\<forall>sub \<in> set (te_entries entry). after_opening src (span_start (te_key sub)) \<and> entry_ok src sub)"
  by (cases entry) simp

lemma find_in_ok:
  "spn_toml_edit_find_in entries path = Some entry \<Longrightarrow> \<forall>entry \<in> set entries. entry_ok src entry \<Longrightarrow> entry_ok src entry"
proof (induction entries path rule: spn_toml_edit_find_in.induct)
  case (2 first entries path)
  then show ?case
    using entry_ok_parts [of src first] by (auto split: if_splits option.splits)
qed simp

lemma find_section_ok:
  "find_section sections path found = Some entry \<Longrightarrow> \<forall>sec \<in> set sections. section_ok src sec \<Longrightarrow>
    (\<And>e. found = Some e \<Longrightarrow> entry_ok src e) \<Longrightarrow> entry_ok src entry"
proof (induction sections arbitrary: found)
  case (Cons sec sections)
  have "entry_ok src e" if "spn_toml_edit_find_in (ts_entries sec) rest = Some e" for e rest
    using find_in_ok [OF that] Cons.prems(2) by (auto simp: section_ok_def)
  then show ?case
    using Cons by (auto simp: Let_def split: if_splits option.splits)
qed auto

definition layout_ok :: "spn_toml_edit_t \<Rightarrow> bool" where
  "layout_ok edit = (\<forall>sec \<in> set (ed_sections edit). section_ok (ed_source edit) sec)"

lemma find_ok: "layout_ok edit \<Longrightarrow> spn_toml_edit_find edit path = Some entry \<Longrightarrow> entry_ok (ed_source edit) entry"
  using find_section_ok [where found = None] by (auto simp: layout_ok_def spn_toml_edit_find_def)

lemma site_entries_line:
  "site_entries exact table entries at dotted = (at', dotted') \<Longrightarrow> at_line src at \<and> at \<le> length src \<Longrightarrow>
    \<forall>entry \<in> set entries. at_line src (te_line_end entry) \<and> te_line_end entry \<le> length src \<Longrightarrow>
    at_line src at' \<and> at' \<le> length src"
  by (induction exact table entries at dotted rule: site_entries.induct) (auto split: if_splits)

lemma site_loop_line:
  "\<forall>sec \<in> set sections. section_ok src sec \<Longrightarrow>
    (st_section site \<noteq> None \<longrightarrow> at_line src (st_at site) \<and> st_at site \<le> length src) \<Longrightarrow>
    st_section (site_loop table sections site) \<noteq> None \<Longrightarrow>
    at_line src (st_at (site_loop table sections site)) \<and> st_at (site_loop table sections site) \<le> length src"
proof (induction sections arbitrary: site)
  case (Cons sec sections)
  let ?len = "length (ts_path sec)"
  obtain at' dotted where entries:
      "site_entries (?len = length table) (drop ?len table) (ts_entries sec) (ts_content sec) False = (at', dotted)"
    by fastforce
  have "at_line src at' \<and> at' \<le> length src"
    using site_entries_line [OF entries] Cons.prems(1) by (auto simp: section_ok_def)
  then show ?case using Cons entries by (auto simp: Let_def split: if_splits)
qed simp

section \<open>Accepted splices\<close>

definition splice_ok :: "spn_toml_edit_t \<Rightarrow> spn_toml_edit_splice_t \<Rightarrow> bool" where
  "splice_ok edit s =
    (tp_at s + tp_remove s \<le> length (ed_source edit) \<and>
     (after_equals (ed_source edit) (tp_at s) = (tp_remove s \<noteq> 0)) \<and>
     (tp_remove s \<noteq> 0 \<longrightarrow> (\<exists>path entry. spn_toml_edit_find edit path = Some entry \<and>
        span_start (te_value entry) = tp_at s \<and> span_end (te_value entry) = tp_at s + tp_remove s)))"

definition splices_ok :: "spn_toml_edit_t \<Rightarrow> bool" where
  "splices_ok edit =
    (list_all (splice_ok edit) (ed_splices edit) \<and>
     map tp_seq (ed_splices edit) = [0..<length (ed_splices edit)] \<and>
     sorted_wrt (\<lambda>a b. \<not> splice_conflict (tp_at b) (tp_remove b) a) (ed_splices edit))"

lemma find_splices: "spn_toml_edit_find (edit\<lparr>ed_splices := ss\<rparr>) path = spn_toml_edit_find edit path"
  by (simp add: spn_toml_edit_find_def)

lemma splice_keeps:
  assumes "spn_toml_edit_splice edit at removed inserted = Some edit'" "splices_ok edit"
    and "splice_ok edit \<lparr>tp_at = at, tp_remove = removed, tp_seq = length (ed_splices edit), tp_insert = inserted\<rparr>"
  shows "splices_ok edit' \<and> edit' = edit\<lparr>ed_splices := ed_splices edit'\<rparr> \<and>
    length (ed_splices edit') = Suc (length (ed_splices edit))"
proof -
  have same: "splice_ok (edit\<lparr>ed_splices := ss\<rparr>) s = splice_ok edit s" for ss s
    by (simp add: splice_ok_def find_splices)
  show ?thesis
    using assms by (auto simp: spn_toml_edit_splice_def splices_ok_def same sorted_wrt_append list_ex_iff list_all_iff
        split: if_splits)
qed

lemma value_splice_ok:
  assumes "layout_ok edit" "spn_toml_edit_find edit path = Some entry"
  shows "splice_ok edit \<lparr>tp_at = span_start (te_value entry),
    tp_remove = span_end (te_value entry) - span_start (te_value entry), tp_seq = n, tp_insert = inserted\<rparr>"
  using entry_ok_parts [OF find_ok [OF assms]] assms(2) by (auto simp: splice_ok_def)

lemma insert_splice_ok:
  assumes "at_line (ed_source edit) at \<or> after_opening (ed_source edit) at" "at \<le> length (ed_source edit)"
  shows "splice_ok edit \<lparr>tp_at = at, tp_remove = 0, tp_seq = n, tp_insert = inserted\<rparr>"
  using assms line_not_equals opening_not_equals by (auto simp: splice_ok_def)

lemma container_keeps:
  assumes "set_in_container edit path quoted n = Some (Some edit')" "layout_ok edit" "splices_ok edit"
  shows "splices_ok edit' \<and> edit' = edit\<lparr>ed_splices := ed_splices edit'\<rparr> \<and>
    length (ed_splices edit') = Suc (length (ed_splices edit))"
  using assms(1)
proof (induction n)
  case (Suc n)
  show ?case
  proof (cases "spn_toml_edit_find edit (take (Suc n) path)")
    case None
    then show ?thesis using Suc by simp
  next
    case (Some container)
    show ?thesis
    proof (cases "te_entries container")
      case Nil
      then show ?thesis
        using Suc.prems Some splice_keeps [OF _ assms(3) value_splice_ok [OF assms(2) Some]] by (auto split: if_splits)
    next
      case (Cons first entries)
      have "after_opening (ed_source edit) (span_start (te_key first))"
        using entry_ok_parts [OF find_ok [OF assms(2) Some]] Cons by simp
      then have "splice_ok edit \<lparr>tp_at = span_start (te_key first), tp_remove = 0, tp_seq = k, tp_insert = ins\<rparr>" for k ins
        by (intro insert_splice_ok) (auto simp: after_opening_def)
      then show ?thesis using Suc.prems Some Cons splice_keeps [OF _ assms(3)] by (auto split: if_splits)
    qed
  qed
qed simp

lemma set_str_keeps:
  assumes "spn_toml_edit_set_str edit path v = Some edit'" "layout_ok edit" "splices_ok edit"
  shows "splices_ok edit' \<and> edit' = edit\<lparr>ed_splices := ed_splices edit'\<rparr> \<and>
    length (ed_splices edit') = Suc (length (ed_splices edit))"
proof (cases "spn_toml_edit_find edit path")
  case (Some entry)
  then show ?thesis
    using assms splice_keeps [OF _ assms(3) value_splice_ok [OF assms(2) Some]]
    by (auto simp: spn_toml_edit_set_str_def Let_def split: if_splits)
next
  case None
  note absent = None
  let ?site = "spn_toml_edit_find_site edit path"
  show ?thesis
  proof (cases "set_in_container edit path (spn_toml_edit_quoted v) (length path - 1)")
    case (Some result)
    then have "set_in_container edit path (spn_toml_edit_quoted v) (length path - 1) = Some (Some edit')"
      using assms(1) unfolding spn_toml_edit_set_str_def Let_def absent Some option.case by (simp split: if_splits)
    then show ?thesis by (rule container_keeps [OF _ assms(2,3)])
  next
    case None
    note no_container = None
    have line: "st_section ?site \<noteq> None \<Longrightarrow> at_line (ed_source edit) (st_at ?site) \<and> st_at ?site \<le> length (ed_source edit)"
      using site_loop_line [of "ed_sections edit" "ed_source edit"] assms(2)
      by (auto simp: spn_toml_edit_find_site_def layout_ok_def)
    have "at_line (ed_source edit) (length (ed_source edit))" by (simp add: at_line_def)
    moreover obtain at inserted where
        "spn_toml_edit_splice edit at 0 inserted = Some edit'"
        "at = length (ed_source edit) \<or> st_section ?site \<noteq> None \<and> at = st_at ?site"
      using assms(1) unfolding spn_toml_edit_set_str_def Let_def absent no_container option.case by (auto split: if_splits)
    ultimately show ?thesis using line splice_keeps [OF _ assms(3) insert_splice_ok] by auto
  qed
qed

section \<open>Sorted splices\<close>

definition splice_before :: "spn_toml_edit_splice_t \<Rightarrow> spn_toml_edit_splice_t \<Rightarrow> bool" where
  "splice_before a b = (tp_at a < tp_at b \<or> tp_at a = tp_at b \<and> tp_seq a \<le> tp_seq b)"

lemma splice_sort_le: "spn_toml_edit_splice_sort a b \<le> 0 \<longleftrightarrow> splice_before a b"
  by (auto simp: spn_toml_edit_splice_sort_def splice_before_def)

lemma insert_splice_mset: "mset (insert_splice s ss) = add_mset s (mset ss)"
  by (induction s ss rule: insert_splice.induct) auto

lemma insert_splice_sorted: "sorted_wrt splice_before ss \<Longrightarrow> sorted_wrt splice_before (insert_splice s ss)"
proof (induction s ss rule: insert_splice.induct)
  case (2 s other rest)
  have "set (insert_splice s rest) = insert s (set rest)"
    using insert_splice_mset [of s rest] by (metis set_mset_add_mset_insert set_mset_mset)
  moreover have "splice_before s other \<Longrightarrow> splice_before other b \<Longrightarrow> splice_before s b" for b
    by (auto simp: splice_before_def)
  moreover have "\<not> splice_before s other \<Longrightarrow> splice_before other s" by (auto simp: splice_before_def)
  ultimately show ?case using 2 by (auto simp: splice_sort_le)
qed simp

lemma sort_splices_mset: "mset (sort_splices ss) = mset ss"
  by (induction ss) (simp_all add: sort_splices_def insert_splice_mset)

lemma sort_splices_sorted: "sorted_wrt splice_before (sort_splices ss)"
  by (induction ss) (simp_all add: sort_splices_def insert_splice_sorted)

lemma conflict_symmetric: "splice_conflict (tp_at a) (tp_remove a) b = splice_conflict (tp_at b) (tp_remove b) a"
  by (auto simp: splice_conflict_def Let_def)

lemma splices_apart:
  assumes "splices_ok edit" "a \<in> set (ed_splices edit)" "b \<in> set (ed_splices edit)" "tp_seq a \<noteq> tp_seq b"
  shows "\<not> splice_conflict (tp_at a) (tp_remove a) b"
proof -
  obtain i j where ij: "i < length (ed_splices edit)" "a = ed_splices edit ! i" "j < length (ed_splices edit)" "b = ed_splices edit ! j"
    using assms(2,3) by (auto simp: in_set_conv_nth)
  then have "i < j \<or> j < i" using assms(4) by (metis linorder_neqE_nat)
  then show ?thesis
    using assms(1) ij conflict_symmetric by (auto simp: splices_ok_def sorted_wrt_iff_nth_less)
qed

definition splice_fits :: "spn_toml_edit_splice_t \<Rightarrow> spn_toml_edit_splice_t \<Rightarrow> bool" where
  "splice_fits a b = (tp_at a + tp_remove a \<le> tp_at b)"

lemma splice_fitsI:
  assumes "splice_ok edit a" "splice_ok edit b" "\<not> splice_conflict (tp_at a) (tp_remove a) b" "splice_before a b"
  shows "splice_fits a b"
proof (cases "tp_remove a = 0")
  case False
  then have "tp_remove b = 0 \<Longrightarrow> tp_at a \<noteq> tp_at b" using assms(1,2) by (auto simp: splice_ok_def)
  then show ?thesis
    using assms(3,4) False by (auto simp: splice_conflict_def splice_before_def splice_fits_def Let_def split: if_splits)
qed (use assms(4) in \<open>auto simp: splice_before_def splice_fits_def\<close>)

lemma sorted_fits:
  assumes "splices_ok edit"
  shows "sorted_wrt splice_fits (sort_splices (ed_splices edit))"
proof -
  have elems: "set (sort_splices (ed_splices edit)) = set (ed_splices edit)"
    using sort_splices_mset by (metis set_mset_mset)
  have "distinct (map tp_seq (ed_splices edit))" using assms by (simp add: splices_ok_def)
  then have "distinct (map tp_seq (sort_splices (ed_splices edit)))"
    using mset_eq_imp_distinct_iff [of "map tp_seq (sort_splices (ed_splices edit))" "map tp_seq (ed_splices edit)"]
      sort_splices_mset by auto
  then have "sorted_wrt (\<lambda>a b. tp_seq a \<noteq> tp_seq b) (sort_splices (ed_splices edit))"
    by (simp add: distinct_conv_nth sorted_wrt_iff_nth_less)
  with sort_splices_sorted have
    "sorted_wrt (\<lambda>a b. splice_before a b \<and> tp_seq a \<noteq> tp_seq b) (sort_splices (ed_splices edit))"
    by (auto simp: sorted_wrt_iff_nth_less)
  then show ?thesis
  proof (rule sorted_wrt_mono_rel [rotated])
    fix a b
    assume ab: "a \<in> set (sort_splices (ed_splices edit))" "b \<in> set (sort_splices (ed_splices edit))"
      "splice_before a b \<and> tp_seq a \<noteq> tp_seq b"
    have "splice_ok edit a" "splice_ok edit b" using ab(1,2) assms elems by (auto simp: splices_ok_def list_all_iff)
    then show "splice_fits a b" using splices_apart [OF assms] ab elems by (blast intro: splice_fitsI)
  qed
qed

section \<open>Rendering\<close>

text \<open>A document in pieces: what is kept, what is removed after it and what is inserted instead.\<close>

type_synonym toml_piece = "string \<times> string \<times> string"

definition text_before :: "toml_piece list \<Rightarrow> string" where
  "text_before pieces = concat (map (\<lambda>(kept, removed, inserted). kept @ removed) pieces)"

definition text_after :: "toml_piece list \<Rightarrow> string" where
  "text_after pieces = concat (map (\<lambda>(kept, removed, inserted). kept @ inserted) pieces)"

definition splice_piece :: "string \<Rightarrow> nat \<Rightarrow> spn_toml_edit_splice_t \<Rightarrow> toml_piece" where
  "splice_piece src cursor s =
    (write_source_range src cursor (tp_at s), str_sub src (tp_at s) (tp_remove s), tp_insert s)"

lemma write_range_drop: "start \<le> stop \<Longrightarrow> stop \<le> length src \<Longrightarrow> write_source_range src start stop @ drop stop src = drop start src"
  by (cases "start = stop") (auto simp: write_source_range_def str_sub_def simp flip: drop_drop,
      metis add.commute append_take_drop_id drop_drop le_add_diff_inverse2)

lemma render_pieces:
  "sorted_wrt splice_fits ss \<Longrightarrow> \<forall>s \<in> set ss. cursor \<le> tp_at s \<and> tp_at s + tp_remove s \<le> length src \<Longrightarrow>
    cursor \<le> length src \<Longrightarrow>
    \<exists>pieces rest. drop cursor src = text_before pieces @ rest \<and> render_loop src ss cursor = Some (text_after pieces @ rest) \<and>
      length pieces = length ss \<and>
      (\<forall>i < length ss. fst (snd (pieces ! i)) = str_sub src (tp_at (ss ! i)) (tp_remove (ss ! i)) \<and>
        snd (snd (pieces ! i)) = tp_insert (ss ! i))"
proof (induction ss arbitrary: cursor)
  case Nil
  then show ?case
    using write_range_drop [of cursor "length src" src] by (auto simp: text_before_def text_after_def)
next
  case (Cons s ss)
  have "\<forall>t \<in> set ss. tp_at s + tp_remove s \<le> tp_at t \<and> tp_at t + tp_remove t \<le> length src"
    using Cons.prems by (auto simp: splice_fits_def)
  then obtain pieces rest where IH: "drop (tp_at s + tp_remove s) src = text_before pieces @ rest"
      "render_loop src ss (tp_at s + tp_remove s) = Some (text_after pieces @ rest)" "length pieces = length ss"
      "\<forall>i < length ss. fst (snd (pieces ! i)) = str_sub src (tp_at (ss ! i)) (tp_remove (ss ! i)) \<and>
        snd (snd (pieces ! i)) = tp_insert (ss ! i)"
    using Cons.IH [of "tp_at s + tp_remove s"] Cons.prems by auto
  let ?pieces = "splice_piece src cursor s # pieces"
  have "str_sub src (tp_at s) (tp_remove s) @ drop (tp_at s + tp_remove s) src = drop (tp_at s) src"
    by (metis str_sub_def add.commute append_take_drop_id drop_drop)
  then have "drop cursor src = text_before ?pieces @ rest"
    using write_range_drop [of cursor "tp_at s" src] Cons.prems IH(1) by (simp add: splice_piece_def text_before_def)
  moreover have "render_loop src (s # ss) cursor = Some (text_after ?pieces @ rest)"
    using IH(2) Cons.prems(2) by (auto simp: splice_piece_def text_after_def)
  moreover have "\<forall>i < length (s # ss). fst (snd (?pieces ! i)) = str_sub src (tp_at ((s # ss) ! i)) (tp_remove ((s # ss) ! i)) \<and>
      snd (snd (?pieces ! i)) = tp_insert ((s # ss) ! i)"
    using IH(4) by (auto simp: splice_piece_def nth_Cons split: nat.split)
  ultimately show ?case using IH(3) by (intro exI [of _ ?pieces] exI [of _ rest]) simp
qed

end
