(* ===== verification/Toml_Text.thy ===== *)
theory Toml_Text
  imports Toml_Render
begin

text \<open>
  The keys of a table, and that the editor reads back the keys and values that it writes.
\<close>

section \<open>The keys of a table\<close>

lemma push_key: "set (spn_toml_edit_push_key keys key) = insert key (set keys)"
  "distinct keys \<Longrightarrow> distinct (spn_toml_edit_push_key keys key)"
  by (auto simp: spn_toml_edit_push_key_def)

definition keys_below :: "string list \<Rightarrow> (string list \<times> 'a) list \<Rightarrow> string set" where
  "keys_below path paths = {key. \<exists>rest x. (path @ key # rest, x) \<in> set paths}"

lemma keys_below_append: "keys_below path (xs @ ys) = keys_below path xs \<union> keys_below path ys"
  by (auto simp: keys_below_def)

lemma keys_below_Nil: "keys_below path [] = {}"
  by (simp add: keys_below_def)

lemma keys_below_Cons: "keys_below path (x # xs) = keys_below path [x] \<union> keys_below path xs"
  using keys_below_append [of path "[x]" xs] by simp

lemma keys_below_map:
  "keys_below path (map (\<lambda>(p, x). (prefix @ p, x)) xs) =
    {key. \<exists>p x rest. (p, x) \<in> set xs \<and> prefix @ p = path @ key # rest}"
proof -
  have "(y, x) \<in> set (map (\<lambda>(p, x). (prefix @ p, x)) xs) \<longleftrightarrow> (\<exists>p. (p, x) \<in> set xs \<and> prefix @ p = y)" for y x
    by force
  then show ?thesis unfolding keys_below_def by (simp only:) blast
qed

lemma keys_below_under:
  "keys_below path (map (\<lambda>(p, x). (prefix @ p, x)) xs) =
    (if length path < length prefix
     then (if spn_toml_edit_path_starts_with prefix path \<and> xs \<noteq> [] then {prefix ! length path} else {})
     else if spn_toml_edit_path_prefix prefix path then keys_below (drop (length prefix) path) xs else {})"
proof (cases "length path < length prefix")
  case True
  have split: "prefix @ p = path @ key # rest \<longleftrightarrow> (\<exists>q. prefix = path @ key # q \<and> rest = q @ p)" for p key rest
  proof
    assume *: "prefix @ p = path @ key # rest"
    then have "path = take (length path) prefix" using True by (auto simp: append_eq_append_conv_if)
    then obtain us where us: "prefix = path @ us" by (metis append_take_drop_id)
    then show "\<exists>q. prefix = path @ key # q \<and> rest = q @ p" using * True by (cases us) auto
  qed auto
  have "xs \<noteq> [] \<longleftrightarrow> (\<exists>p x. (p, x) \<in> set xs)" by (cases xs) auto
  then have "keys_below path (map (\<lambda>(p, x). (prefix @ p, x)) xs) = {key. xs \<noteq> [] \<and> (\<exists>q. prefix = path @ key # q)}"
    unfolding keys_below_map split by blast
  also have "\<dots> = (if spn_toml_edit_path_starts_with prefix path \<and> xs \<noteq> [] then {prefix ! length path} else {})"
  proof (cases "spn_toml_edit_path_starts_with prefix path")
    case starts: True
    then obtain us where "prefix = path @ us" by (auto simp: path_starts_with_iff)
    then show ?thesis using starts True by (cases us) auto
  qed (auto simp: path_starts_with_iff)
  finally show ?thesis using True by simp
next
  case False
  have split: "prefix @ p = path @ key # rest \<longleftrightarrow> (\<exists>q. path = prefix @ q \<and> p = q @ key # rest)" for p key rest
  proof
    assume *: "prefix @ p = path @ key # rest"
    then have "prefix = take (length prefix) path" using False by (auto simp: append_eq_append_conv_if split: if_splits)
    then obtain q where q: "path = prefix @ q" by (metis append_take_drop_id)
    then show "\<exists>q. path = prefix @ q \<and> p = q @ key # rest" using * by auto
  qed auto
  have "keys_below path (map (\<lambda>(p, x). (prefix @ p, x)) xs) =
      {key. \<exists>q rest x. path = prefix @ q \<and> (q @ key # rest, x) \<in> set xs}"
    unfolding keys_below_map split by blast
  also have "\<dots> = (if spn_toml_edit_path_prefix prefix path then keys_below (drop (length prefix) path) xs else {})"
    by (cases "spn_toml_edit_path_prefix prefix path") (fastforce simp: keys_below_def path_prefix_iff)+
  finally show ?thesis using False by simp
qed

lemma entry_paths_nonempty: "entry_paths entry \<noteq> []"
  by (subst entry_paths.simps) simp

lemma keys_below_entry:
  "keys_below path (entry_paths entry) =
    (if length path < length (te_path entry)
     then (if spn_toml_edit_path_starts_with (te_path entry) path then {te_path entry ! length path} else {})
     else if spn_toml_edit_path_prefix (te_path entry) path \<and> te_kind entry = SPN_TOML_EDIT_VALUE_TABLE
     then keys_below (drop (length (te_path entry)) path) (concat (map entry_paths (te_entries entry))) else {})"
proof -
  have self: "keys_below path [(te_path entry, entry)] =
      (if length path < length (te_path entry) \<and> spn_toml_edit_path_starts_with (te_path entry) path
       then {te_path entry ! length path} else {})"
    using keys_below_under [of path "te_path entry" "[([], entry)]"]
    by (auto simp: keys_below_def path_prefix_iff)
  have "keys_below path (entry_paths entry) = keys_below path [(te_path entry, entry)] \<union>
      (if te_kind entry = SPN_TOML_EDIT_VALUE_TABLE
       then keys_below path (map (\<lambda>(p, x). (te_path entry @ p, x)) (concat (map entry_paths (te_entries entry)))) else {})"
    by (subst entry_paths.simps, subst keys_below_Cons) (simp add: keys_below_Nil)
  then show ?thesis by (auto simp: self keys_below_under)
qed

lemma keys_in_set:
  "set (spn_toml_edit_keys_in entries path keys) = set keys \<union> keys_below path (concat (map entry_paths entries)) \<and>
    (distinct keys \<longrightarrow> distinct (spn_toml_edit_keys_in entries path keys))"
proof (induction entries path keys rule: spn_toml_edit_keys_in.induct)
  case (2 entry entries path keys)
  then show ?case by (auto simp: Let_def keys_below_append keys_below_entry push_key)
qed (auto simp: keys_below_def)

lemma keys_loop_set:
  "set (keys_loop sections path keys) =
     set keys \<union> {key. \<exists>sec \<in> set sections. \<exists>rest. ts_path sec = path @ key # rest} \<union>
     keys_below path (concat (map section_paths sections)) \<and>
   (distinct keys \<longrightarrow> distinct (keys_loop sections path keys))"
proof (induction sections arbitrary: keys)
  case (Cons sec sections)
  let ?len = "length (ts_path sec)"
  let ?keys = "if length path < ?len then
      (if spn_toml_edit_path_starts_with (ts_path sec) path then spn_toml_edit_push_key keys (ts_path sec ! length path) else keys)
    else if spn_toml_edit_path_prefix (ts_path sec) path then spn_toml_edit_keys_in (ts_entries sec) (drop ?len path) keys else keys"
  have step: "keys_loop (sec # sections) path keys = keys_loop sections path ?keys" by (simp add: Let_def)
  have own: "{key. \<exists>rest. ts_path sec = path @ key # rest} =
      (if length path < ?len \<and> spn_toml_edit_path_starts_with (ts_path sec) path then {ts_path sec ! length path} else {})"
  proof (cases "length path < ?len \<and> spn_toml_edit_path_starts_with (ts_path sec) path")
    case True
    then obtain us where us: "ts_path sec = path @ us" by (auto simp: path_starts_with_iff)
    then show ?thesis using True by (cases us) (auto simp: path_starts_with_iff)
  qed (auto simp: path_starts_with_iff)
  have below: "keys_below path (section_paths sec) =
      (if length path < ?len
       then (if spn_toml_edit_path_starts_with (ts_path sec) path \<and> concat (map entry_paths (ts_entries sec)) \<noteq> []
             then {ts_path sec ! length path} else {})
       else if spn_toml_edit_path_prefix (ts_path sec) path
       then keys_below (drop ?len path) (concat (map entry_paths (ts_entries sec))) else {})"
    unfolding section_paths_def by (rule keys_below_under)
  have "set ?keys = set keys \<union> {key. \<exists>rest. ts_path sec = path @ key # rest} \<union> keys_below path (section_paths sec)"
    unfolding own below by (auto simp: push_key keys_in_set)
  moreover have "distinct keys \<Longrightarrow> distinct ?keys" by (auto simp: push_key keys_in_set)
  ultimately show ?case
    unfolding step using Cons.IH [of ?keys] by (auto simp: keys_below_append)
qed (auto simp: keys_below_def)

section \<open>Values that are read back\<close>

text \<open>The text from a position on.\<close>

lemma peek_drop: "spn_toml_edit_peek src it = (case drop it src of [] \<Rightarrow> CHR 0x00 | c # _ \<Rightarrow> c)"
  by (auto simp: spn_toml_edit_peek_def spn_toml_edit_peek_at_def split: list.split)
    (metis Cons_nth_drop_Suc list.inject not_le_imp_less)+

lemma done_drop: "spn_toml_edit_done src it = (drop it src = [])"
  by (simp add: spn_toml_edit_done_def)

lemma drop_step: "drop it src = a @ b \<Longrightarrow> drop (it + length a) src = b"
  by (metis add.commute append_eq_conv_conj drop_drop)

lemma escape_char_tail: "drop it src = escape_char c @ rest \<Longrightarrow> drop (it + 1) src = tl (escape_char c) @ rest"
  by (cases "escape_char c") (auto simp: escape_char_def drop_Suc drop_tl split: if_splits)

lemma escape_char_unescapes:
  assumes "drop it src = escape_char c @ rest"
  shows "basic_loop utf8 src it decoded = basic_loop utf8 src (it + length (escape_char c)) (decoded @ [c])"
proof -
  have "drop (it + 1) src = tl (escape_char c) @ rest"
    by (rule escape_char_tail [OF assms])
  then show ?thesis
    using assms
    by (subst basic_loop.simps)
      (auto simp: peek_drop done_drop escape_char_def spn_toml_edit_unescape_def Let_def split: if_splits)
qed

lemma basic_loop_text:
  "drop it src = concat (map escape_char v) @ CHR 0x22 # rest \<Longrightarrow>
    basic_loop utf8 src it decoded = Some (decoded @ v, it + length (concat (map escape_char v)) + 1)"
proof (induction v arbitrary: it decoded)
  case Nil
  then show ?case by (subst basic_loop.simps) (simp add: peek_drop done_drop)
next
  case (Cons c v)
  then have "drop it src = escape_char c @ concat (map escape_char v) @ CHR 0x22 # rest" by simp
  from escape_char_unescapes [OF this] Cons.IH [OF drop_step [OF this]] show ?case by simp
qed

lemma string_loop_char:
  assumes "drop it src = escape_char c @ rest"
  shows "string_loop src it (CHR 0x22) False = string_loop src (it + length (escape_char c)) (CHR 0x22) False"
proof -
  have "drop (it + 1) src = tl (escape_char c) @ rest"
    by (rule escape_char_tail [OF assms])
  then show ?thesis
    using assms
    by (subst string_loop.simps)
      (auto simp: peek_drop done_drop escape_char_def spn_toml_edit_scan_escape_def spn_toml_edit_escape_valid_def Let_def
        split: if_splits)
qed

lemma string_loop_text:
  "drop it src = concat (map escape_char v) @ CHR 0x22 # rest \<Longrightarrow>
    string_loop src it (CHR 0x22) False = Some (it + length (concat (map escape_char v)) + 1)"
proof (induction v arbitrary: it)
  case Nil
  then show ?case by (subst string_loop.simps) (simp add: peek_drop done_drop)
next
  case (Cons c v)
  then have "drop it src = escape_char c @ concat (map escape_char v) @ CHR 0x22 # rest" by simp
  from string_loop_char [OF this] Cons.IH [OF drop_step [OF this]] show ?case by simp
qed

end
