(* ===== verification/Toml_Props.thy ===== *)
theory Toml_Props
  imports Toml_Text
begin

text \<open>
  The properties of the editor of manifests.
\<close>

section \<open>Keys that are read back\<close>

lemma skip_drop: "toml_skip p src it = it + length (takeWhile p (drop it src))"
proof (induction p src it rule: toml_skip.induct)
  case (1 p src it)
  show ?case
  proof (cases "drop it src")
    case Nil
    then show ?thesis by (subst toml_skip.simps) (simp add: done_drop)
  next
    case (Cons c rest)
    then have "drop (it + 1) src = rest" using drop_step [of it src "[c]" rest] by simp
    then show ?thesis using 1 Cons by (subst toml_skip.simps) (simp add: done_drop peek_drop)
  qed
qed

definition starts_with :: "(char \<Rightarrow> bool) \<Rightarrow> string \<Rightarrow> bool" where
  "starts_with p cs = (case cs of [] \<Rightarrow> False | c # _ \<Rightarrow> p c)"

lemma takeWhile_starts: "\<forall>c \<in> set cs. p c \<Longrightarrow> \<not> starts_with p rest \<Longrightarrow> takeWhile p (cs @ rest) = cs"
  by (cases rest) (auto simp: starts_with_def)

lemma bare_chars:
  "\<not> spn_toml_edit_is_bare (CHR 0x22)" "\<not> spn_toml_edit_is_bare (CHR 0x27)" "\<not> spn_toml_edit_is_bare (CHR ''.'')"
  "\<not> spn_toml_edit_is_bare (CHR '' '')" "\<not> spn_toml_edit_is_bare (CHR 0x09)" "\<not> spn_toml_edit_is_bare (CHR '']'')"
  "\<not> spn_toml_edit_is_bare (CHR ''='')"
  by (simp_all add: spn_toml_edit_is_bare_def char_between_def)

definition key_char :: "char \<Rightarrow> string" where
  "key_char c = (if c = CHR 0x22 \<or> c = CHR 0x5C then [CHR 0x5C] else []) @ [c]"

lemma basic_loop_key:
  "drop it src = concat (map key_char key) @ CHR 0x22 # rest \<Longrightarrow> CHR 0x0A \<notin> set key \<Longrightarrow>
    basic_loop utf8 src it decoded = Some (decoded @ key, it + length (concat (map key_char key)) + 1)"
proof (induction key arbitrary: it decoded)
  case Nil
  then show ?case by (subst basic_loop.simps) (simp add: peek_drop done_drop)
next
  case (Cons c key)
  then have here: "drop it src = key_char c @ concat (map key_char key) @ CHR 0x22 # rest" by simp
  have "drop (it + 1) src = tl (key_char c) @ concat (map key_char key) @ CHR 0x22 # rest"
    using drop_step [of it src "[hd (key_char c)]"] here by (simp add: key_char_def split: if_splits)
  then have "basic_loop utf8 src it decoded = basic_loop utf8 src (it + length (key_char c)) (decoded @ [c])"
    using here Cons.prems(2)
    by (subst basic_loop.simps) (auto simp: peek_drop done_drop key_char_def spn_toml_edit_unescape_def Let_def split: if_splits)
  then show ?case using Cons.IH [OF drop_step [OF here]] Cons.prems(2) by simp
qed

lemma key_segment_text:
  assumes "drop it src = spn_toml_edit_write_key key @ rest" "CHR 0x0A \<notin> set key" "\<not> starts_with spn_toml_edit_is_bare rest"
  shows "key_segment utf8 src it = Some (key, it + length (spn_toml_edit_write_key key))"
proof (cases "spn_toml_edit_key_is_bare key")
  case True
  then have bare: "key \<noteq> []" "\<forall>c \<in> set key. spn_toml_edit_is_bare c" "spn_toml_edit_write_key key = key"
    by (auto simp: spn_toml_edit_key_is_bare_def spn_toml_edit_write_key_def list_all_iff split: if_splits)
  then have "toml_skip spn_toml_edit_is_bare src it = it + length key"
    using takeWhile_starts [OF bare(2) assms(3)] assms(1) by (simp add: skip_drop)
  then show ?thesis
    using bare assms(1) bare_chars(1,2)
    by (cases key) (auto simp: key_segment_def peek_drop str_sub_def Let_def)
next
  case False
  then have key: "spn_toml_edit_write_key key = CHR 0x22 # concat (map key_char key) @ [CHR 0x22]"
    by (simp add: spn_toml_edit_write_key_def key_char_def [abs_def])
  then have "drop (it + 1) src = concat (map key_char key) @ CHR 0x22 # rest"
    using drop_step [of it src "[CHR 0x22]"] assms(1) by simp
  from basic_loop_key [OF this assms(2)] show ?thesis
    using assms(1) key by (simp add: key_segment_def peek_drop spn_toml_edit_parse_basic_def)
qed

lemma write_key_start: "\<exists>c cs. spn_toml_edit_write_key key = c # cs \<and> \<not> spn_toml_edit_is_whitespace c"
proof (cases "spn_toml_edit_key_is_bare key")
  case True
  then show ?thesis
    using bare_chars(4,5)
    by (cases key) (auto simp: spn_toml_edit_write_key_def spn_toml_edit_key_is_bare_def spn_toml_edit_is_whitespace_def)
qed (simp add: spn_toml_edit_write_key_def spn_toml_edit_is_whitespace_def)

definition key_ends :: "string \<Rightarrow> bool" where
  "key_ends rest = (\<not> starts_with spn_toml_edit_is_bare rest \<and>
     \<not> starts_with (\<lambda>c. c = CHR ''.'') (dropWhile spn_toml_edit_is_whitespace rest))"

lemma write_segments_False: "path \<noteq> [] \<Longrightarrow> write_segments False path = CHR ''.'' # write_segments True path"
  by (cases path) simp_all

lemma accept_drop:
  "spn_toml_edit_accept src it c =
    (if starts_with (\<lambda>d. d = c) (drop it src) then (True, it + 1)
     else if drop it src = [] \<and> c = CHR 0x00 then (True, it + 1) else (False, it))"
  by (auto simp: spn_toml_edit_accept_def peek_drop starts_with_def split: list.splits)

lemma key_loop_text:
  "drop it src = write_segments True path @ rest \<Longrightarrow> path \<noteq> [] \<Longrightarrow> \<forall>key \<in> set path. CHR 0x0A \<notin> set key \<Longrightarrow>
    key_ends rest \<Longrightarrow>
    key_loop utf8 src it segments =
      Some (segments @ path, spn_toml_edit_skip_whitespace src (it + length (write_segments True path)))"
proof (induction path arbitrary: it segments)
  case (Cons key path)
  let ?it = "it + length (spn_toml_edit_write_key key)"
  let ?rest = "write_segments False path @ rest"
  have here: "drop it src = spn_toml_edit_write_key key @ ?rest" using Cons.prems(1) by simp
  then have skip: "spn_toml_edit_skip_whitespace src it = it"
    using write_key_start [of key] by (auto simp: spn_toml_edit_skip_whitespace_def skip_drop)
  have "\<not> starts_with spn_toml_edit_is_bare ?rest"
    using Cons.prems(4) bare_chars(3) by (cases path) (auto simp: key_ends_def starts_with_def)
  then have segment: "key_segment utf8 src (spn_toml_edit_skip_whitespace src it) = Some (key, ?it)"
    using key_segment_text [OF here] Cons.prems(3) skip by simp
  have there: "drop ?it src = ?rest" by (rule drop_step [OF here])
  show ?case
  proof (cases "path = []")
    case True
    let ?ws = "spn_toml_edit_skip_whitespace src ?it"
    have "drop ?it src = takeWhile spn_toml_edit_is_whitespace rest @ dropWhile spn_toml_edit_is_whitespace rest"
      using there True by simp
    from drop_step [OF this] have "drop ?ws src = dropWhile spn_toml_edit_is_whitespace rest"
      using there True by (simp add: spn_toml_edit_skip_whitespace_def skip_drop)
    then have "spn_toml_edit_accept src ?ws (CHR ''.'') = (False, ?ws)"
      using Cons.prems(4) by (simp add: accept_drop key_ends_def)
    then show ?thesis using segment True by (subst key_loop.simps) simp
  next
    case False
    then have dot: "drop ?it src = [CHR ''.''] @ write_segments True path @ rest"
      using there by (simp add: write_segments_False)
    then have "spn_toml_edit_skip_whitespace src ?it = ?it"
      by (simp add: spn_toml_edit_skip_whitespace_def skip_drop spn_toml_edit_is_whitespace_def)
    moreover have "spn_toml_edit_accept src ?it (CHR ''.'') = (True, ?it + 1)"
      using dot by (simp add: accept_drop starts_with_def)
    ultimately show ?thesis
      using segment Cons.IH [of "?it + 1" "segments @ [key]"] drop_step [OF dot] Cons.prems(3,4) False
      by (subst key_loop.simps) (simp add: write_segments_False add.assoc)
  qed
qed simp

lemma quoted_scanned:
  assumes "drop it src = spn_toml_edit_quoted v @ rest" "\<not> starts_with (\<lambda>c. c = CHR 0x22) rest"
  shows "spn_toml_edit_scan_string src it = Some (it + length (spn_toml_edit_quoted v))"
    and "\<not> string_multiline src it"
    and "spn_toml_edit_parse_basic utf8 src it = Some (v, it + length (spn_toml_edit_quoted v))"
    and "spn_toml_edit_peek src it = CHR 0x22"
proof -
  have quoted: "spn_toml_edit_quoted v = CHR 0x22 # concat (map escape_char v) @ [CHR 0x22]"
    by (simp add: spn_toml_edit_quoted_def spn_toml_edit_write_str_value_def)
  then have body: "drop (it + 1) src = concat (map escape_char v) @ CHR 0x22 # rest"
    using drop_step [of it src "[CHR 0x22]"] assms(1) by simp
  show peek: "spn_toml_edit_peek src it = CHR 0x22" using assms(1) quoted by (simp add: peek_drop)
  have offset: "spn_toml_edit_peek_at src it n = spn_toml_edit_peek src (it + n)" for n
    by (simp add: spn_toml_edit_peek_def spn_toml_edit_peek_at_def)
  show single: "\<not> string_multiline src it"
  proof (cases v)
    case Nil
    then have "drop (it + 2) src = rest" using drop_step [of "it + 1" src "[CHR 0x22]" rest] body by simp
    then show ?thesis
      using assms(2) peek by (auto simp: string_multiline_def offset peek_drop starts_with_def split: list.splits)
  next
    case (Cons c cs)
    then show ?thesis
      using body peek by (auto simp: string_multiline_def offset peek_drop escape_char_def split: if_splits)
  qed
  show "spn_toml_edit_scan_string src it = Some (it + length (spn_toml_edit_quoted v))"
    using string_loop_text [OF body] single peek quoted by (simp add: spn_toml_edit_scan_string_def)
  show "spn_toml_edit_parse_basic utf8 src it = Some (v, it + length (spn_toml_edit_quoted v))"
    using basic_loop_text [OF body, of utf8 "[]"] quoted by (simp add: spn_toml_edit_parse_basic_def)
qed

section \<open>Properties\<close>

text \<open>C18: the pair that the editor writes for a path and a value is read as that pair, wherever it
  stands: the key is the path, for keys without a line break, the value is a string that ends where
  the writer ended it, and its text is the value.\<close>

theorem toml_pair_reads_back:
  assumes "path \<noteq> []" "\<forall>key \<in> set path. CHR 0x0A \<notin> set key" "\<not> starts_with (\<lambda>c. c = CHR 0x22) rest"
    and "ed_source edit = before @ spn_toml_edit_write_key_path path @ '' = '' @ spn_toml_edit_quoted v @ rest"
  shows "\<exists>entry.
    spn_toml_edit_scan_pair (spn_toml_edit_scan_value (Suc fuel) utf8 (ed_source edit)) utf8 (ed_source edit) (length before) nested =
      SCAN_OK (entry, length before + length (spn_toml_edit_write_key_path path @ '' = '' @ spn_toml_edit_quoted v)) \<and>
    te_path entry = path \<and> te_kind entry = SPN_TOML_EDIT_VALUE_STRING \<and> spn_toml_edit_entry_str utf8 edit entry = v"
proof -
  let ?src = "ed_source edit"
  let ?key_end = "length before + length (write_segments True path)"
  let ?rest = "spn_toml_edit_quoted v @ rest"
  have here: "drop (length before) ?src = write_segments True path @ '' = '' @ ?rest"
    using assms(4) by (simp add: spn_toml_edit_write_key_path_def)
  have after: "drop ?key_end ?src = [CHR '' ''] @ CHR ''='' # CHR '' '' # ?rest"
    using drop_step [OF here] by simp
  have "key_ends ('' = '' @ ?rest)"
    using bare_chars by (simp add: key_ends_def starts_with_def spn_toml_edit_is_whitespace_def)
  note key_loop_text [OF here assms(1,2) this, of utf8 "[]"]
  moreover have ws: "spn_toml_edit_skip_whitespace ?src ?key_end = ?key_end + 1"
    using after by (simp add: spn_toml_edit_skip_whitespace_def skip_drop spn_toml_edit_is_whitespace_def)
  ultimately have key: "spn_toml_edit_parse_key utf8 ?src (length before) = Some (path, ?key_end + 1)"
    by (simp add: spn_toml_edit_parse_key_def)
  have equals: "drop (?key_end + 1) ?src = [CHR ''=''] @ CHR '' '' # ?rest" using drop_step [OF after] by simp
  then have accept: "spn_toml_edit_skip_whitespace ?src (?key_end + 1) = ?key_end + 1"
      "spn_toml_edit_accept ?src (?key_end + 1) (CHR ''='') = (True, ?key_end + 2)"
    by (simp_all add: spn_toml_edit_skip_whitespace_def skip_drop accept_drop starts_with_def spn_toml_edit_is_whitespace_def)
  have space: "drop (?key_end + 2) ?src = [CHR '' ''] @ ?rest" using drop_step [OF equals] by simp
  have start: "drop (?key_end + 3) ?src = ?rest" using drop_step [OF space] by (simp add: numeral_3_eq_3 numeral_2_eq_2)
  have skip: "spn_toml_edit_skip_whitespace ?src (?key_end + 2) = ?key_end + 3"
    using space by (simp add: spn_toml_edit_skip_whitespace_def skip_drop spn_toml_edit_is_whitespace_def
        spn_toml_edit_quoted_def spn_toml_edit_write_str_value_def)
  note scanned = quoted_scanned [OF start assms(3)]
  let ?entry = "Entry path SPN_TOML_EDIT_VALUE_STRING \<lparr>span_start = length before, span_end = ?key_end + 1\<rparr>
    \<lparr>span_start = ?key_end + 3, span_end = ?key_end + 3 + length (spn_toml_edit_quoted v)\<rparr> 0 []"
  have "spn_toml_edit_scan_pair (spn_toml_edit_scan_value (Suc fuel) utf8 ?src) utf8 ?src (length before) nested =
      SCAN_OK (?entry, ?key_end + 3 + length (spn_toml_edit_quoted v))"
    using key accept skip scanned(1,4) by (simp add: spn_toml_edit_scan_pair_def Let_def)
  moreover have "spn_toml_edit_entry_str utf8 edit ?entry = v"
    using scanned by (simp add: spn_toml_edit_entry_str_def Let_def)
  ultimately show ?thesis
    by (intro exI [of _ ?entry]) (simp add: spn_toml_edit_write_key_path_def numeral_3_eq_3)
qed

definition toml_ascii :: "u32 \<Rightarrow> string" where
  "toml_ascii codepoint = [char_of (unat codepoint)]"

definition toml_example :: string where
  "toml_example = ''[deps]'' @ [CHR 0x0A] @ ''a = 1'' @ [CHR 0x0A]"

theorem toml_pair_reads_back_witness:
  "\<exists>edit entry. ed_source edit = ''deps.a = '' @ [CHR 0x22, CHR ''1'', CHR 0x22, CHR 0x0A] \<and>
    spn_toml_edit_scan_pair (spn_toml_edit_scan_value 1 toml_ascii (ed_source edit)) toml_ascii (ed_source edit) 0 False =
      SCAN_OK (entry, 12) \<and> spn_toml_edit_entry_str toml_ascii edit entry = ''1''"
proof -
  let ?edit = "\<lparr>ed_source = ''deps.a = '' @ [CHR 0x22, CHR ''1'', CHR 0x22, CHR 0x0A], ed_eol = [CHR 0x0A],
    ed_sections = [], ed_splices = []\<rparr>"
  have written: "spn_toml_edit_write_key_path [''deps'', ''a''] = ''deps.a''" by code_simp
  have quoted: "spn_toml_edit_quoted ''1'' = [CHR 0x22, CHR ''1'', CHR 0x22]" by code_simp
  show ?thesis
    using toml_pair_reads_back [of "[''deps'', ''a'']" "[CHR 0x0A]" ?edit "[]" "''1''" 0 toml_ascii False]
    by (intro exI [of _ ?edit]) (auto simp: written quoted starts_with_def)
qed

text \<open>C19: a document is read or refused, the scan always ends. In a document that is read, finding a
  path is looking it up in the list of all entries with their full paths, later sections first; the
  keys of a table are the segments that follow its path in the path of a section or an entry, each
  once.\<close>

theorem toml_document_queries:
  "spn_toml_edit_init utf8 src = SCAN_FAIL \<or>
   (\<exists>edit. spn_toml_edit_init utf8 src = SCAN_OK edit \<and> ed_source edit = src \<and>
     (\<forall>path. spn_toml_edit_find edit path = map_of (concat (map section_paths (rev (ed_sections edit)))) path) \<and>
     (\<forall>path. distinct (spn_toml_edit_keys edit path) \<and>
       set (spn_toml_edit_keys edit path) =
         {key. (\<exists>sec \<in> set (ed_sections edit). \<exists>rest. ts_path sec = path @ key # rest) \<or>
           (\<exists>sec \<in> set (ed_sections edit). \<exists>rest entry. (path @ key # rest, entry) \<in> set (section_paths sec))}))"
proof (cases "spn_toml_edit_init utf8 src")
  case SCAN_STUCK
  then show ?thesis using init_unstuck by blast
next
  case (SCAN_OK edit)
  note ok = init_ok [OF SCAN_OK]
  have "\<forall>sec \<in> set (ed_sections edit). named_entries sec"
    using ok(3) entry_ok_parts by (fastforce simp: named_entries_def section_ok_def)
  then have "spn_toml_edit_find edit path = map_of (concat (map section_paths (rev (ed_sections edit)))) path" for path
    by (auto simp: spn_toml_edit_find_def find_section_map_of split: option.split)
  moreover have "distinct (spn_toml_edit_keys edit path) \<and>
       set (spn_toml_edit_keys edit path) =
         {key. (\<exists>sec \<in> set (ed_sections edit). \<exists>rest. ts_path sec = path @ key # rest) \<or>
           (\<exists>sec \<in> set (ed_sections edit). \<exists>rest entry. (path @ key # rest, entry) \<in> set (section_paths sec))}" for path
    unfolding spn_toml_edit_keys_def using keys_loop_set [of "ed_sections edit" path "[]"]
    by (auto simp: keys_below_def)
  ultimately show ?thesis using SCAN_OK ok(1) by blast
qed simp

text \<open>Requests one after the other; one that is refused changes nothing.\<close>

definition toml_set_all :: "(string list \<times> string) list \<Rightarrow> spn_toml_edit_t \<Rightarrow> spn_toml_edit_t" where
  "toml_set_all reqs edit =
     fold (\<lambda>(path, v) edit. case spn_toml_edit_set_str edit path v of None \<Rightarrow> edit | Some edit' \<Rightarrow> edit') reqs edit"

lemma set_all_keeps:
  "layout_ok edit \<Longrightarrow> splices_ok edit \<Longrightarrow>
    splices_ok (toml_set_all reqs edit) \<and> toml_set_all reqs edit = edit\<lparr>ed_splices := ed_splices (toml_set_all reqs edit)\<rparr>"
proof (induction reqs arbitrary: edit)
  case (Cons req reqs)
  obtain path v where req: "req = (path, v)" by fastforce
  show ?case
  proof (cases "spn_toml_edit_set_str edit path v")
    case None
    then show ?thesis using Cons req by (simp add: toml_set_all_def)
  next
    case (Some edit')
    have step: "toml_set_all (req # reqs) edit = toml_set_all reqs edit'" using Some req by (simp add: toml_set_all_def)
    have keeps: "splices_ok edit'" "edit' = edit\<lparr>ed_splices := ed_splices edit'\<rparr>"
      using set_str_keeps [OF Some Cons.prems] by auto
    then have "layout_ok edit'" using Cons.prems(1) by (metis (no_types, lifting) layout_ok_def
        spn_toml_edit_t.select_convs(1,3) spn_toml_edit_t.surjective spn_toml_edit_t.update_convs(4))
    from Cons.IH [OF this keeps(1)] keeps(2) show ?thesis
      unfolding step by (metis spn_toml_edit_t.surjective spn_toml_edit_t.update_convs(4))
  qed
qed (simp add: toml_set_all_def)

text \<open>C17: whatever values are set in a document, one after the other, rendering succeeds, its
  assertion holds. The result is the document with, in place of the values that were replaced and
  between what was there, the texts that the accepted requests insert; everything else is kept. What
  is removed is the whole value of an entry that a path finds.\<close>

theorem toml_edits_keep_rest:
  assumes "spn_toml_edit_init utf8 src = SCAN_OK start" "edit = toml_set_all reqs start"
  shows "\<exists>pieces rest.
    src = text_before pieces @ rest \<and> spn_toml_edit_render edit = Some (text_after pieces @ rest) \<and>
    mset (map (\<lambda>(kept, removed, inserted). inserted) pieces) = mset (map tp_insert (ed_splices edit)) \<and>
    (\<forall>(kept, removed, inserted) \<in> set pieces. removed = [] \<or>
      (\<exists>path entry. spn_toml_edit_find start path = Some entry \<and>
        removed = str_sub src (span_start (te_value entry)) (span_end (te_value entry) - span_start (te_value entry))))"
proof -
  note ok = init_ok [OF assms(1)]
  have "layout_ok start" "splices_ok start" using ok by (simp_all add: layout_ok_def splices_ok_def)
  then have edit: "splices_ok edit" "edit = start\<lparr>ed_splices := ed_splices edit\<rparr>"
    using set_all_keeps assms(2) by auto
  then have same: "ed_source edit = src" "spn_toml_edit_find edit = spn_toml_edit_find start"
    using ok(1) find_splices by (metis spn_toml_edit_t.select_convs(1) spn_toml_edit_t.surjective
        spn_toml_edit_t.update_convs(4), metis ext)
  let ?ss = "sort_splices (ed_splices edit)"
  have elems: "set ?ss = set (ed_splices edit)" using sort_splices_mset by (metis set_mset_mset)
  have fine: "splice_ok edit s" if "s \<in> set ?ss" for s using edit(1) that elems by (auto simp: splices_ok_def list_all_iff)
  obtain pieces rest where pieces: "src = text_before pieces @ rest"
      "spn_toml_edit_render edit = Some (text_after pieces @ rest)" "length pieces = length ?ss"
      "\<forall>i < length ?ss. fst (snd (pieces ! i)) = str_sub src (tp_at (?ss ! i)) (tp_remove (?ss ! i)) \<and>
        snd (snd (pieces ! i)) = tp_insert (?ss ! i)"
    using render_pieces [OF sorted_fits [OF edit(1)], of 0 src] fine same(1)
    by (auto simp: splice_ok_def spn_toml_edit_render_def)
  have "map (\<lambda>(kept, removed, inserted). inserted) pieces = map tp_insert ?ss"
    using pieces(3,4) by (auto intro!: nth_equalityI simp: case_prod_beta)
  then have "mset (map (\<lambda>(kept, removed, inserted). inserted) pieces) = mset (map tp_insert (ed_splices edit))"
    using sort_splices_mset by (metis mset_map)
  moreover have "removed = [] \<or>
      (\<exists>path entry. spn_toml_edit_find start path = Some entry \<and>
        removed = str_sub src (span_start (te_value entry)) (span_end (te_value entry) - span_start (te_value entry)))"
    if piece: "(kept, removed, inserted) \<in> set pieces" for kept removed inserted
  proof -
    obtain i where i: "i < length ?ss" "pieces ! i = (kept, removed, inserted)"
      using piece pieces(3) by (metis in_set_conv_nth)
    then have "removed = str_sub src (tp_at (?ss ! i)) (tp_remove (?ss ! i))" using pieces(4) by force
    then show ?thesis
      using fine [OF nth_mem [OF i(1)]] same by (cases "tp_remove (?ss ! i) = 0") (force simp: splice_ok_def str_sub_def)+
  qed
  ultimately show ?thesis using pieces(1,2) by (intro exI [of _ pieces] exI [of _ rest]) fastforce
qed

theorem toml_edits_keep_rest_witness:
  "\<exists>start. spn_toml_edit_init toml_ascii toml_example = SCAN_OK start \<and>
     (\<exists>pieces rest. toml_example = text_before pieces @ rest \<and>
       spn_toml_edit_render (toml_set_all [([''deps'', ''a''], ''2''), ([''deps'', ''b''], ''3'')] start) =
         Some (text_after pieces @ rest))"
proof -
  have "\<exists>start. spn_toml_edit_init toml_ascii toml_example = SCAN_OK start"
  proof (cases "spn_toml_edit_init toml_ascii toml_example")
    case SCAN_FAIL
    moreover have "spn_toml_edit_init toml_ascii toml_example \<noteq> SCAN_FAIL" by code_simp
    ultimately show ?thesis by simp
  qed (use init_unstuck in auto)
  then show ?thesis
    using toml_edits_keep_rest [OF _ refl, of toml_ascii toml_example _ "[([''deps'', ''a''], ''2''), ([''deps'', ''b''], ''3'')]"]
    by blast
qed

text \<open>A key with a line break is written with the line break in its quotes, where no key has one.\<close>

lemma key_with_line_break_lost:
  "key_segment utf8 (spn_toml_edit_write_key [CHR ''a'', CHR 0x0A]) 0 = None"
proof -
  have written: "spn_toml_edit_write_key [CHR ''a'', CHR 0x0A] = [CHR 0x22, CHR ''a'', CHR 0x0A, CHR 0x22]" by code_simp
  have "basic_loop utf8 [CHR 0x22, CHR ''a'', CHR 0x0A, CHR 0x22] 1 [] = None"
    by (subst basic_loop.simps, subst basic_loop.simps) (simp add: peek_drop done_drop)
  then show ?thesis by (simp add: written key_segment_def spn_toml_edit_parse_basic_def peek_drop)
qed

end
