(* ===== verification/Linker.thy ===== *)
theory Linker
  imports Triple
begin

unbundle bit_operations_syntax

text \<open>
  Linking, \<open>source/core/toolchain/linker.c\<close>, and what the drivers can do,
  \<open>source/core/toolchain/toolchain.c\<close>: which combination of library kind, language runtime and libc
  a target allows for a request, why a request is refused, and which linker a driver runs.

  \<open>None\<close> is an unreachable branch of the sources.
\<close>

record spn_linking_t =
  ln_linkage :: spn_linkage_t
  ln_runtime :: spn_runtime_t
  ln_libc :: spn_runtime_t

definition linking_zero :: spn_linking_t where
  "linking_zero = \<lparr>ln_linkage = SPN_LIB_KIND_NONE, ln_runtime = SPN_RUNTIME_NONE, ln_libc = SPN_RUNTIME_NONE\<rparr>"

section \<open>Rows of a target\<close>

definition spn_ld_loader :: "spn_triple_t \<Rightarrow> spn_linking_t \<Rightarrow> bool" where
  "spn_ld_loader target linking \<longleftrightarrow>
     spn_triple_dynamic target \<and>
     \<not> (spn_os_to_native_object_format (tr_os target) = Some SPN_OBJ_ELF \<and> ln_libc linking = SPN_RUNTIME_STATIC)"

definition row_honours :: "spn_triple_t \<Rightarrow> spn_linking_t \<Rightarrow> spn_linking_t \<Rightarrow> bool" where
  "row_honours target request row \<longleftrightarrow>
    (if ln_runtime request \<noteq> SPN_RUNTIME_NONE \<and> ln_runtime row \<noteq> ln_runtime request then False
     else if ln_libc request \<noteq> SPN_RUNTIME_NONE \<and> ln_libc row \<noteq> ln_libc request then False
     else if ln_linkage request = SPN_LIB_KIND_SHARED \<and> \<not> spn_ld_loader target row then False
     else True)"

fun ld_first :: "spn_triple_t \<Rightarrow> spn_linking_t list \<Rightarrow> spn_linking_t \<Rightarrow> nat" where
  "ld_first target [] request = 0"
| "ld_first target (row # rows) request =
    (if row_honours target request row then 0 else Suc (ld_first target rows request))"

definition ld_row :: "spn_runtime_t \<Rightarrow> spn_runtime_t \<Rightarrow> spn_linking_t" where
  "ld_row runtime libc = linking_zero\<lparr>ln_runtime := runtime, ln_libc := libc\<rparr>"

definition linux_gnu :: "spn_linking_t list" where
  "linux_gnu = [ld_row SPN_RUNTIME_SHARED SPN_RUNTIME_SHARED, ld_row SPN_RUNTIME_STATIC SPN_RUNTIME_SHARED]"

definition linux_musl :: "spn_linking_t list" where
  "linux_musl =
     [ld_row SPN_RUNTIME_STATIC SPN_RUNTIME_STATIC, ld_row SPN_RUNTIME_STATIC SPN_RUNTIME_SHARED,
      ld_row SPN_RUNTIME_SHARED SPN_RUNTIME_SHARED]"

definition windows_msvc :: "spn_linking_t list" where
  "windows_msvc = [ld_row SPN_RUNTIME_STATIC SPN_RUNTIME_STATIC, ld_row SPN_RUNTIME_SHARED SPN_RUNTIME_SHARED]"

definition windows_gnu :: "spn_linking_t list" where
  "windows_gnu = [ld_row SPN_RUNTIME_STATIC SPN_RUNTIME_SHARED, ld_row SPN_RUNTIME_SHARED SPN_RUNTIME_SHARED]"

definition macos_rows :: "spn_linking_t list" where
  "macos_rows = [ld_row SPN_RUNTIME_SHARED SPN_RUNTIME_SHARED]"

definition loaderless :: "spn_linking_t list" where
  "loaderless = [ld_row SPN_RUNTIME_STATIC SPN_RUNTIME_STATIC]"

fun ld_table :: "spn_os_t \<Rightarrow> spn_abi_t \<Rightarrow> spn_linking_t list option" where
  "ld_table SPN_OS_LINUX abi =
    (case abi of
       SPN_ABI_GNU \<Rightarrow> Some linux_gnu
     | SPN_ABI_MUSL \<Rightarrow> Some linux_musl
     | SPN_ABI_BARE \<Rightarrow> Some loaderless
     | _ \<Rightarrow> None)"
| "ld_table SPN_OS_WINDOWS abi =
    (case abi of
       SPN_ABI_MSVC \<Rightarrow> Some windows_msvc
     | SPN_ABI_GNU \<Rightarrow> Some windows_gnu
     | _ \<Rightarrow> None)"
| "ld_table SPN_OS_MACOS abi = Some macos_rows"
| "ld_table SPN_OS_WASI abi = Some loaderless"
| "ld_table SPN_OS_FREESTANDING abi = Some loaderless"
| "ld_table SPN_OS_NONE abi = None"

definition ld_refusal :: "spn_triple_t \<Rightarrow> spn_linking_t list \<Rightarrow> spn_linking_t \<Rightarrow> spn_linking_refusal_t" where
  "ld_refusal target table request =
    (if ld_first target table (linking_zero\<lparr>ln_linkage := SPN_LIB_KIND_SHARED\<rparr>) = length table
     then SPN_LINKING_REFUSAL_NO_LOADER
     else if ln_libc request = SPN_RUNTIME_STATIC \<and>
             ld_first target table (linking_zero\<lparr>ln_libc := SPN_RUNTIME_STATIC\<rparr>) = length table
     then SPN_LINKING_REFUSAL_OS_LIBC
     else if ln_runtime request = SPN_RUNTIME_STATIC \<and>
             ld_first target table (linking_zero\<lparr>ln_runtime := SPN_RUNTIME_STATIC\<rparr>) = length table
     then SPN_LINKING_REFUSAL_OS_RUNTIME
     else if ln_libc request = SPN_RUNTIME_STATIC \<and> ln_runtime request = SPN_RUNTIME_SHARED
     then SPN_LINKING_REFUSAL_SHARED_RUNTIME
     else if ln_runtime request \<noteq> SPN_RUNTIME_NONE \<and> ln_libc request \<noteq> SPN_RUNTIME_NONE \<and>
             ln_runtime request \<noteq> ln_libc request
     then SPN_LINKING_REFUSAL_HYBRID_CRT
     else SPN_LINKING_REFUSAL_SHARED_DEPS)"

text \<open>The linking that was written, or the reason of the refusal.\<close>

definition spn_ld_linking :: "spn_triple_t \<Rightarrow> spn_linking_t \<Rightarrow> (spn_linking_refusal_t + spn_linking_t) option" where
  "spn_ld_linking target request =
    (case ld_table (tr_os target) (tr_abi target) of
       None \<Rightarrow> None
     | Some table \<Rightarrow>
        (let index = ld_first target table request
         in if index = length table then Some (Inl (ld_refusal target table request))
            else
              (let resolved = (table ! index)\<lparr>ln_linkage := ln_linkage request\<rparr>
               in Some (Inr (if ln_linkage resolved \<noteq> SPN_LIB_KIND_NONE then resolved
                    else resolved\<lparr>ln_linkage :=
                      (if spn_ld_loader target resolved then SPN_LIB_KIND_SHARED else SPN_LIB_KIND_STATIC)\<rparr>)))))"

section \<open>Linkers\<close>

fun ld_os_dialect :: "spn_os_t \<Rightarrow> spn_abi_t \<Rightarrow> spn_ld_dialect_t option" where
  "ld_os_dialect SPN_OS_LINUX abi = Some SPN_LD_DIALECT_GNU"
| "ld_os_dialect SPN_OS_FREESTANDING abi = Some SPN_LD_DIALECT_GNU"
| "ld_os_dialect SPN_OS_MACOS abi = Some SPN_LD_DIALECT_DARWIN"
| "ld_os_dialect SPN_OS_WASI abi = Some SPN_LD_DIALECT_WASM"
| "ld_os_dialect SPN_OS_WINDOWS abi =
    (if abi = SPN_ABI_MSVC then Some SPN_LD_DIALECT_LINK else Some SPN_LD_DIALECT_GNU)"
| "ld_os_dialect SPN_OS_NONE abi = None"

definition spn_ld_dialect :: "spn_triple_t \<Rightarrow> spn_ld_dialect_t option" where
  "spn_ld_dialect target = ld_os_dialect (tr_os target) (tr_abi target)"

fun spn_ld_scripts :: "spn_ld_family_t \<Rightarrow> spn_obj_format_t \<Rightarrow> bool option" where
  "spn_ld_scripts SPN_LD_FAMILY_GNU format = Some (format = SPN_OBJ_ELF \<or> format = SPN_OBJ_COFF)"
| "spn_ld_scripts SPN_LD_FAMILY_LLD format = Some (format = SPN_OBJ_ELF)"
| "spn_ld_scripts SPN_LD_FAMILY_LD64 format = Some False"
| "spn_ld_scripts SPN_LD_FAMILY_MSVC format = Some False"
| "spn_ld_scripts SPN_LD_FAMILY_NONE format = None"

fun ld_native_family :: "spn_ld_dialect_t \<Rightarrow> spn_ld_family_t option" where
  "ld_native_family SPN_LD_DIALECT_GNU = Some SPN_LD_FAMILY_GNU"
| "ld_native_family SPN_LD_DIALECT_LINK = Some SPN_LD_FAMILY_MSVC"
| "ld_native_family SPN_LD_DIALECT_DARWIN = Some SPN_LD_FAMILY_LD64"
| "ld_native_family SPN_LD_DIALECT_WASM = Some SPN_LD_FAMILY_LLD"
| "ld_native_family SPN_LD_DIALECT_COUNT = None"

section \<open>Drivers\<close>

type_synonym spn_cc_cap_set_t = u32

definition SPN_CC_CAP_TARGET_TRIPLE :: spn_cc_cap_set_t where "SPN_CC_CAP_TARGET_TRIPLE = push_bit 0 1"
definition SPN_CC_CAP_CLANG_FRONTEND :: spn_cc_cap_set_t where "SPN_CC_CAP_CLANG_FRONTEND = push_bit 1 1"
definition SPN_CC_CAP_LLVM_TRIPLE :: spn_cc_cap_set_t where "SPN_CC_CAP_LLVM_TRIPLE = push_bit 2 1"
definition SPN_CC_CAP_FUSE_LD :: spn_cc_cap_set_t where "SPN_CC_CAP_FUSE_LD = push_bit 3 1"
definition SPN_CC_CAP_CODEVIEW :: spn_cc_cap_set_t where "SPN_CC_CAP_CODEVIEW = push_bit 4 1"
definition SPN_CC_CAP_LIBC_FILE :: spn_cc_cap_set_t where "SPN_CC_CAP_LIBC_FILE = push_bit 5 1"
definition SPN_CC_CAP_DEFAULT_UBSAN :: spn_cc_cap_set_t where "SPN_CC_CAP_DEFAULT_UBSAN = push_bit 6 1"
definition SPN_CC_CAP_BARE :: spn_cc_cap_set_t where "SPN_CC_CAP_BARE = push_bit 7 1"
definition SPN_CC_CAP_GNU_RUNTIME :: spn_cc_cap_set_t where "SPN_CC_CAP_GNU_RUNTIME = push_bit 8 1"

lemmas cc_cap_defs = SPN_CC_CAP_TARGET_TRIPLE_def SPN_CC_CAP_CLANG_FRONTEND_def SPN_CC_CAP_LLVM_TRIPLE_def
  SPN_CC_CAP_FUSE_LD_def SPN_CC_CAP_CODEVIEW_def SPN_CC_CAP_LIBC_FILE_def SPN_CC_CAP_DEFAULT_UBSAN_def
  SPN_CC_CAP_BARE_def SPN_CC_CAP_GNU_RUNTIME_def

fun spn_toolchain_driver_caps :: "spn_cc_driver_t \<Rightarrow> spn_cc_cap_set_t option" where
  "spn_toolchain_driver_caps SPN_CC_DRIVER_GCC =
     Some (SPN_CC_CAP_FUSE_LD OR SPN_CC_CAP_BARE OR SPN_CC_CAP_GNU_RUNTIME)"
| "spn_toolchain_driver_caps SPN_CC_DRIVER_CLANG =
     Some (SPN_CC_CAP_TARGET_TRIPLE OR SPN_CC_CAP_LLVM_TRIPLE OR SPN_CC_CAP_CLANG_FRONTEND OR
       SPN_CC_CAP_FUSE_LD OR SPN_CC_CAP_GNU_RUNTIME)"
| "spn_toolchain_driver_caps SPN_CC_DRIVER_ZIG =
     Some (SPN_CC_CAP_TARGET_TRIPLE OR SPN_CC_CAP_CLANG_FRONTEND OR SPN_CC_CAP_CODEVIEW OR
       SPN_CC_CAP_LIBC_FILE OR SPN_CC_CAP_DEFAULT_UBSAN OR SPN_CC_CAP_BARE)"
| "spn_toolchain_driver_caps SPN_CC_DRIVER_MSVC = Some 0"
| "spn_toolchain_driver_caps SPN_CC_DRIVER_NONE = None"

definition spn_toolchain_driver_retargets :: "spn_cc_driver_t \<Rightarrow> bool option" where
  "spn_toolchain_driver_retargets driver =
     map_option (\<lambda>caps. caps AND SPN_CC_CAP_TARGET_TRIPLE \<noteq> 0) (spn_toolchain_driver_caps driver)"

fun spn_ld_accepts :: "spn_cc_driver_t \<Rightarrow> spn_ld_family_t \<Rightarrow> bool option" where
  "spn_ld_accepts driver SPN_LD_FAMILY_NONE = Some True"
| "spn_ld_accepts driver SPN_LD_FAMILY_LLD =
     map_option (\<lambda>caps. caps AND SPN_CC_CAP_FUSE_LD \<noteq> 0) (spn_toolchain_driver_caps driver)"
| "spn_ld_accepts driver SPN_LD_FAMILY_GNU = Some False"
| "spn_ld_accepts driver SPN_LD_FAMILY_LD64 = Some False"
| "spn_ld_accepts driver SPN_LD_FAMILY_MSVC = Some False"

definition spn_ld_native :: "spn_cc_driver_t \<Rightarrow> spn_triple_t \<Rightarrow> spn_ld_family_t option" where
  "spn_ld_native driver target =
    (case driver of
       SPN_CC_DRIVER_ZIG \<Rightarrow> Some SPN_LD_FAMILY_LLD
     | SPN_CC_DRIVER_NONE \<Rightarrow> None
     | _ \<Rightarrow> (case spn_ld_dialect target of None \<Rightarrow> None | Some dialect \<Rightarrow> ld_native_family dialect))"

definition gcc_stock_sanitizers :: "spn_triple_t \<Rightarrow> spn_sanitizer_set_t" where
  "gcc_stock_sanitizers host =
    (case tr_os host of
       SPN_OS_LINUX \<Rightarrow>
         if tr_abi host = SPN_ABI_MUSL then 0
         else SPN_SANITIZER_ADDRESS OR SPN_SANITIZER_THREAD OR SPN_SANITIZER_UNDEFINED OR SPN_SANITIZER_LEAK
     | SPN_OS_MACOS \<Rightarrow> SPN_SANITIZER_ADDRESS OR SPN_SANITIZER_THREAD OR SPN_SANITIZER_UNDEFINED
     | _ \<Rightarrow> 0)"

definition clang_stock_sanitizers :: "spn_triple_t \<Rightarrow> spn_sanitizer_set_t" where
  "clang_stock_sanitizers host =
    (case tr_os host of
       SPN_OS_LINUX \<Rightarrow>
         SPN_SANITIZER_ADDRESS OR SPN_SANITIZER_THREAD OR SPN_SANITIZER_UNDEFINED OR SPN_SANITIZER_MEMORY OR
           SPN_SANITIZER_LEAK
     | SPN_OS_MACOS \<Rightarrow>
         SPN_SANITIZER_ADDRESS OR SPN_SANITIZER_THREAD OR SPN_SANITIZER_UNDEFINED OR SPN_SANITIZER_LEAK
     | _ \<Rightarrow> 0)"

fun spn_toolchain_stock_sanitizers :: "spn_cc_driver_t \<Rightarrow> spn_triple_t \<Rightarrow> spn_sanitizer_set_t option" where
  "spn_toolchain_stock_sanitizers SPN_CC_DRIVER_GCC host = Some (gcc_stock_sanitizers host)"
| "spn_toolchain_stock_sanitizers SPN_CC_DRIVER_CLANG host = Some (clang_stock_sanitizers host)"
| "spn_toolchain_stock_sanitizers SPN_CC_DRIVER_ZIG host = Some 0"
| "spn_toolchain_stock_sanitizers SPN_CC_DRIVER_MSVC host = Some 0"
| "spn_toolchain_stock_sanitizers SPN_CC_DRIVER_NONE host = None"

fun spn_default_abi :: "spn_cc_driver_t \<Rightarrow> spn_os_t \<Rightarrow> spn_abi_t option" where
  "spn_default_abi driver SPN_OS_LINUX = Some SPN_ABI_NONE"
| "spn_default_abi driver SPN_OS_FREESTANDING = Some SPN_ABI_NONE"
| "spn_default_abi driver SPN_OS_MACOS = Some SPN_ABI_APPLE"
| "spn_default_abi driver SPN_OS_WASI = Some SPN_ABI_MUSL"
| "spn_default_abi driver SPN_OS_WINDOWS =
    (case driver of
       SPN_CC_DRIVER_GCC \<Rightarrow> Some SPN_ABI_GNU
     | SPN_CC_DRIVER_ZIG \<Rightarrow> Some SPN_ABI_GNU
     | SPN_CC_DRIVER_MSVC \<Rightarrow> Some SPN_ABI_MSVC
     | SPN_CC_DRIVER_CLANG \<Rightarrow> Some SPN_ABI_NONE
     | SPN_CC_DRIVER_NONE \<Rightarrow> None)"
| "spn_default_abi driver SPN_OS_NONE = None"

fun spn_toolchain_driver_composes :: "spn_cc_driver_t \<Rightarrow> spn_ld_dialect_t \<Rightarrow> bool option" where
  "spn_toolchain_driver_composes SPN_CC_DRIVER_GCC dialect =
     Some (dialect = SPN_LD_DIALECT_GNU \<or> dialect = SPN_LD_DIALECT_DARWIN)"
| "spn_toolchain_driver_composes SPN_CC_DRIVER_MSVC dialect = Some (dialect = SPN_LD_DIALECT_LINK)"
| "spn_toolchain_driver_composes SPN_CC_DRIVER_CLANG dialect = Some True"
| "spn_toolchain_driver_composes SPN_CC_DRIVER_ZIG dialect = Some True"
| "spn_toolchain_driver_composes SPN_CC_DRIVER_NONE dialect = None"

section \<open>Facts\<close>

text \<open>The platforms that have rows are those of the supported abis.\<close>

definition triple_supported :: "spn_triple_t \<Rightarrow> bool" where
  "triple_supported t \<longleftrightarrow> os_has_arch (tr_os t) (tr_arch t) \<and> os_has_abi (tr_os t) (tr_abi t)"

lemmas ld_tables = linux_gnu_def linux_musl_def windows_msvc_def windows_gnu_def macos_rows_def loaderless_def

lemma supported_table: "os_has_abi os abi \<Longrightarrow> \<exists>table. ld_table os abi = Some table \<and> table \<noteq> []"
  by (cases os; cases abi) (simp_all add: os_has_abi_def spn_os_abis_def ld_tables)

lemma ld_first_le: "ld_first target table request \<le> length table"
  by (induction table) simp_all

lemma ld_first_row:
  "ld_first target table request < length table \<Longrightarrow>
     row_honours target request (table ! ld_first target table request) \<and>
     (\<forall>i < ld_first target table request. \<not> row_honours target request (table ! i))"
proof (induction table)
  case (Cons row rows)
  show ?case
  proof (cases "row_honours target request row")
    case False
    then show ?thesis using Cons by (auto simp: less_Suc_eq_0_disj)
  qed simp
qed simp

lemma row_honours_shared:
  "row_honours target request row \<longleftrightarrow>
     (ln_runtime request = SPN_RUNTIME_NONE \<or> ln_runtime row = ln_runtime request) \<and>
     (ln_libc request = SPN_RUNTIME_NONE \<or> ln_libc row = ln_libc request) \<and>
     (ln_linkage request = SPN_LIB_KIND_SHARED \<longrightarrow> spn_ld_loader target row)"
  by (auto simp: row_honours_def)

lemma loader_linkage [simp]: "spn_ld_loader target (row\<lparr>ln_linkage := kind\<rparr>) = spn_ld_loader target row"
  by (simp add: spn_ld_loader_def)

lemma linking_total: "triple_supported target \<Longrightarrow> spn_ld_linking target request \<noteq> None"
  using supported_table [of "tr_os target" "tr_abi target"]
  by (auto simp: triple_supported_def spn_ld_linking_def Let_def)

lemma linking_honours:
  assumes "spn_ld_linking target request = Some (Inr linking)"
  obtains table where "ld_table (tr_os target) (tr_abi target) = Some table"
    "linking\<lparr>ln_linkage := SPN_LIB_KIND_NONE\<rparr> \<in> (\<lambda>r. r\<lparr>ln_linkage := SPN_LIB_KIND_NONE\<rparr>) ` set table"
    "row_honours target request linking"
    "ln_linkage request \<noteq> SPN_LIB_KIND_NONE \<Longrightarrow> ln_linkage linking = ln_linkage request"
    "ln_linkage linking = SPN_LIB_KIND_SHARED \<Longrightarrow> spn_ld_loader target linking"
proof -
  obtain table where table: "ld_table (tr_os target) (tr_abi target) = Some table"
    using assms by (auto simp: spn_ld_linking_def split: option.splits)
  let ?index = "ld_first target table request"
  have index: "?index < length table"
    using assms table ld_first_le [of target table request]
    by (cases "?index = length table") (auto simp: spn_ld_linking_def)
  from ld_first_row [OF this] have row: "row_honours target request (table ! ?index)" by blast
  obtain kind where kind: "linking = (table ! ?index)\<lparr>ln_linkage := kind\<rparr>"
      "kind = (if ln_linkage request \<noteq> SPN_LIB_KIND_NONE then ln_linkage request
        else if spn_ld_loader target (table ! ?index) then SPN_LIB_KIND_SHARED else SPN_LIB_KIND_STATIC)"
    using assms table index by (auto simp: spn_ld_linking_def Let_def split: if_splits)
  show ?thesis
  proof (rule that [OF table])
    show "linking\<lparr>ln_linkage := SPN_LIB_KIND_NONE\<rparr> \<in> (\<lambda>r. r\<lparr>ln_linkage := SPN_LIB_KIND_NONE\<rparr>) ` set table"
      unfolding kind(1) using index by (auto intro!: image_eqI [OF _ nth_mem])
    show "row_honours target request linking" using row by (simp add: kind(1) row_honours_shared)
    show "ln_linkage request \<noteq> SPN_LIB_KIND_NONE \<Longrightarrow> ln_linkage linking = ln_linkage request"
      by (simp add: kind)
    show "ln_linkage linking = SPN_LIB_KIND_SHARED \<Longrightarrow> spn_ld_loader target linking"
      using row by (auto simp: kind row_honours_shared split: if_splits)
  qed
qed

lemma retargets_not_none: "spn_toolchain_driver_retargets driver = None \<longleftrightarrow> driver = SPN_CC_DRIVER_NONE"
  by (cases driver) (simp_all add: spn_toolchain_driver_retargets_def)

lemma stock_not_none: "spn_toolchain_stock_sanitizers driver host = None \<longleftrightarrow> driver = SPN_CC_DRIVER_NONE"
  by (cases driver) simp_all

end
