(* ===== verification/Toolchain.thy ===== *)
theory Toolchain
  imports Linker Paths "HOL-Library.Monad_Syntax"
begin

text \<open>
  The catalog of toolchains, \<open>source/core/toolchain/catalog.c\<close>, with the platform kits of
  \<open>source/core/toolchain/sdk.c\<close> and the launchers of \<open>source/core/toolchain/toolchain.c\<close>: a declared
  toolchain is bound to the host it runs on, and its rows are the targets it can build for, each
  with its kit and its sanitizers.

  A union with its tag is a datatype, \<open>None\<close> is an unreachable branch. The kits that are found on
  the host are an argument of the catalog; how they are found (\<open>xcrun\<close>, the search for Visual
  Studio) is left out.
\<close>

section \<open>Kits\<close>

record spn_sdk_msvc_t =
  msvc_arch :: spn_arch_t
  msvc_version :: string
  msvc_bin :: spn_path_t
  msvc_include_vc :: spn_path_t
  msvc_include_ucrt :: spn_path_t
  msvc_include_um :: spn_path_t
  msvc_include_shared :: spn_path_t
  msvc_lib_vc :: spn_path_t
  msvc_lib_ucrt :: spn_path_t
  msvc_lib_um :: spn_path_t

record spn_sdk_macos_t =
  macos_root :: spn_path_t
  macos_include :: spn_path_t
  macos_frameworks :: spn_path_t

datatype spn_sdk_t =
  SdkNone
| SdkSysroot spn_path_t
| SdkMacos spn_sdk_macos_t
| SdkMsvc spn_sdk_msvc_t

record spn_sdk_host_t =
  host_macos :: spn_sdk_macos_t
  host_msvc :: "spn_sdk_msvc_t list"

fun sdk_os_kind :: "spn_os_t \<Rightarrow> spn_abi_t \<Rightarrow> spn_sdk_kind_t option" where
  "sdk_os_kind SPN_OS_MACOS abi = Some SPN_SDK_MACOS"
| "sdk_os_kind SPN_OS_WINDOWS abi = Some (if abi = SPN_ABI_MSVC then SPN_SDK_MSVC else SPN_SDK_SYSROOT)"
| "sdk_os_kind SPN_OS_LINUX abi = Some SPN_SDK_SYSROOT"
| "sdk_os_kind SPN_OS_WASI abi = Some SPN_SDK_SYSROOT"
| "sdk_os_kind SPN_OS_FREESTANDING abi = Some SPN_SDK_SYSROOT"
| "sdk_os_kind SPN_OS_NONE abi = None"

definition spn_sdk_kind :: "spn_triple_t \<Rightarrow> spn_sdk_kind_t option" where
  "spn_sdk_kind target =
    (if tr_abi target = SPN_ABI_BARE then Some SPN_SDK_NONE else sdk_os_kind (tr_os target) (tr_abi target))"

definition macos_layout :: "path_lib \<Rightarrow> spn_path_t \<Rightarrow> spn_sdk_macos_t" where
  "macos_layout lib root =
     \<lparr>macos_root = root,
      macos_include = spn_path_join lib root ''usr/include'',
      macos_frameworks = spn_path_join lib root ''System/Library/Frameworks''\<rparr>"

definition msvc_layout :: "path_lib \<Rightarrow> spn_path_t \<Rightarrow> spn_arch_t \<Rightarrow> spn_sdk_msvc_t" where
  "msvc_layout lib root arch =
    (let name = spn_arch_to_str arch
     in \<lparr>msvc_arch = arch, msvc_version = [], msvc_bin = path_zero,
         msvc_include_vc = spn_path_join lib root ''crt/include'',
         msvc_include_ucrt = spn_path_join lib root ''sdk/include/ucrt'',
         msvc_include_um = spn_path_join lib root ''sdk/include/um'',
         msvc_include_shared = spn_path_join lib root ''sdk/include/shared'',
         msvc_lib_vc = spn_path_join lib root (''crt/lib/'' @ name),
         msvc_lib_ucrt = spn_path_join lib root (''sdk/lib/ucrt/'' @ name),
         msvc_lib_um = spn_path_join lib root (''sdk/lib/um/'' @ name)\<rparr>)"

definition spn_sdk_sysroot :: "spn_path_t \<Rightarrow> spn_sdk_t" where
  "spn_sdk_sysroot root = SdkSysroot root"

definition spn_sdk_macos :: "path_lib \<Rightarrow> spn_path_t \<Rightarrow> spn_sdk_t" where
  "spn_sdk_macos lib root = SdkMacos (macos_layout lib root)"

definition spn_sdk_msvc :: "path_lib \<Rightarrow> spn_path_t \<Rightarrow> spn_arch_t \<Rightarrow> spn_sdk_t" where
  "spn_sdk_msvc lib root arch = SdkMsvc (msvc_layout lib root arch)"

definition spn_sdk_at :: "path_lib \<Rightarrow> spn_triple_t \<Rightarrow> spn_path_t \<Rightarrow> spn_sdk_t option" where
  "spn_sdk_at lib target root =
    (case spn_sdk_kind target of
       Some SPN_SDK_SYSROOT \<Rightarrow> Some (spn_sdk_sysroot root)
     | Some SPN_SDK_MACOS \<Rightarrow> Some (spn_sdk_macos lib root)
     | Some SPN_SDK_MSVC \<Rightarrow> Some (spn_sdk_msvc lib root (tr_arch target))
     | Some SPN_SDK_NONE \<Rightarrow> None
     | None \<Rightarrow> None)"

definition msvc_for :: "spn_sdk_host_t \<Rightarrow> spn_arch_t \<Rightarrow> spn_sdk_msvc_t option" where
  "msvc_for host arch = find (\<lambda>msvc. msvc_arch msvc = arch) (host_msvc host)"

definition spn_sdk_from_host :: "spn_sdk_host_t \<Rightarrow> spn_triple_t \<Rightarrow> spn_sdk_t option" where
  "spn_sdk_from_host host target =
    (case spn_sdk_kind target of
       Some SPN_SDK_NONE \<Rightarrow> Some SdkNone
     | Some SPN_SDK_SYSROOT \<Rightarrow> Some SdkNone
     | Some SPN_SDK_MACOS \<Rightarrow>
         Some (if spn_path_empty (macos_root (host_macos host)) then SdkNone else SdkMacos (host_macos host))
     | Some SPN_SDK_MSVC \<Rightarrow>
         Some (case msvc_for host (tr_arch target) of Some msvc \<Rightarrow> SdkMsvc msvc | None \<Rightarrow> SdkNone)
     | None \<Rightarrow> None)"

text \<open>The results come with the kit that was written.\<close>

definition spn_sdk_default :: "spn_sdk_host_t \<Rightarrow> spn_triple_t \<Rightarrow> (bool \<times> spn_sdk_t) option" where
  "spn_sdk_default sdks target = do {
     sdk \<leftarrow> spn_sdk_from_host sdks target;
     kind \<leftarrow> spn_sdk_kind target;
     Some (case kind of SPN_SDK_MSVC \<Rightarrow> sdk \<noteq> SdkNone | _ \<Rightarrow> True, sdk)
   }"

definition spn_sdk_served :: "spn_sdk_host_t \<Rightarrow> spn_triple_t \<Rightarrow> spn_triple_t \<Rightarrow> (bool \<times> spn_sdk_t) option" where
  "spn_sdk_served sdks host target = do {
     sdk \<leftarrow> spn_sdk_from_host sdks target;
     kind \<leftarrow> spn_sdk_kind target;
     Some (case kind of
         SPN_SDK_NONE \<Rightarrow> True
       | SPN_SDK_SYSROOT \<Rightarrow> spn_triple_equal target host
       | SPN_SDK_MACOS \<Rightarrow> sdk \<noteq> SdkNone
       | SPN_SDK_MSVC \<Rightarrow> sdk \<noteq> SdkNone, sdk)
   }"

section \<open>Launchers\<close>

record spn_toolchain_launcher_t =
  launcher_program :: spn_arg_t
  launcher_args :: "string list"

record spn_artifact_t =
  artifact_url :: string
  artifact_sha256 :: string
  artifact_mirror_list :: string

definition spn_toolchain_artifact_root :: "spn_artifact_t \<Rightarrow> spn_path_t" where
  "spn_toolchain_artifact_root artifact =
     \<lparr>path_root = SPN_PATH_ROOT_TOOLCHAIN, path_sub = artifact_sha256 artifact\<rparr>"

text \<open>The suffix of an executable of the host that the program was built for is an argument; the
  assertion is the hypothesis of its callers.\<close>

definition spn_toolchain_launcher_with_root ::
    "path_lib \<Rightarrow> bool \<Rightarrow> spn_toolchain_launcher_t \<Rightarrow> spn_path_t \<Rightarrow> spn_toolchain_launcher_t option" where
  "spn_toolchain_launcher_with_root lib win32 launcher root =
    (if \<not> spn_path_empty (arg_path (launcher_program launcher)) then None
     else
       (let name = arg_prefix (launcher_program launcher);
            name = (if win32 then name @ ''.exe'' else name)
        in Some (launcher\<lparr>launcher_program := spn_arg_path (spn_path_join lib root name)\<rparr>)))"

datatype spn_path_check_t = SPN_PATH_UNROOTED | SPN_PATH_ABSOLUTE | SPN_PATH_MALFORMED

record spn_toolchain_host_t =
  th_triple :: spn_triple_t
  th_artifact :: spn_artifact_t

datatype spn_toolchain_source_t =
  SPN_TOOLCHAIN_SOURCE_LOCAL
| SPN_TOOLCHAIN_SOURCE_DISTRIBUTION
| SPN_TOOLCHAIN_SOURCE_DETECTED

definition local_arg :: "path_lib \<Rightarrow> spn_path_root_t \<Rightarrow> string \<Rightarrow> spn_path_check_t + spn_arg_t" where
  "local_arg lib base str =
    (if fs_absolute lib str then Inr (spn_arg_path \<lparr>path_root = SPN_PATH_ROOT_NONE, path_sub = str\<rparr>)
     else if base = SPN_PATH_ROOT_NONE then Inl SPN_PATH_UNROOTED
     else Inr (spn_arg_path \<lparr>path_root = base, path_sub = str\<rparr>))"

definition spn_toolchain_sdk_path ::
    "path_lib \<Rightarrow> spn_toolchain_source_t \<Rightarrow> spn_path_root_t \<Rightarrow> string \<Rightarrow> spn_path_check_t + spn_arg_t" where
  "spn_toolchain_sdk_path lib source base str =
    (if \<not> spn_path_normal str then Inl SPN_PATH_MALFORMED
     else case source of
       SPN_TOOLCHAIN_SOURCE_LOCAL \<Rightarrow> local_arg lib base str
     | _ \<Rightarrow> Inr (if fs_absolute lib str then spn_arg_path \<lparr>path_root = SPN_PATH_ROOT_NONE, path_sub = str\<rparr>
                else spn_arg_lit str))"

definition spn_toolchain_program ::
    "path_lib \<Rightarrow> spn_toolchain_source_t \<Rightarrow> spn_path_root_t \<Rightarrow> string \<Rightarrow> spn_path_check_t + spn_arg_t" where
  "spn_toolchain_program lib source base program =
    (if \<not> spn_path_normal program then Inl SPN_PATH_MALFORMED
     else case source of
       SPN_TOOLCHAIN_SOURCE_LOCAL \<Rightarrow>
         if length (fs_name lib program) = length program then Inr (spn_arg_lit program)
         else local_arg lib base program
     | _ \<Rightarrow> if fs_absolute lib program then Inl SPN_PATH_ABSOLUTE else Inr (spn_arg_lit program))"

datatype spn_toolchain_ref_t =
  RefNone
| RefAuto
| RefNamed string

definition spn_toolchain_ref_from_str :: "string \<Rightarrow> spn_toolchain_ref_t" where
  "spn_toolchain_ref_from_str str =
    (if str = [] then RefNone else if str = ''auto'' then RefAuto else RefNamed str)"

section \<open>Declarations and bound toolchains\<close>

text \<open>The errors of the toolchains; the first is the zero of a zero-initialised structure.\<close>

datatype toolchain_err_t =
  TC_ERR_ZERO
| SPN_ERR_TOOLCHAIN_UNAVAILABLE_FOR_HOST
| SPN_ERR_TOOLCHAIN_NOT_INSTALLED
| SPN_ERR_TOOLCHAIN_SYSROOT
| SPN_ERR_TOOLCHAIN_SDK_MACOS
| SPN_ERR_TOOLCHAIN_SDK_MSVC
| SPN_ERR_TOOLCHAIN_TARGET
| SPN_ERR_TOOLCHAIN_NONE
| SPN_ERR_TOOLCHAIN_UNKNOWN
| SPN_ERR_SANITIZER_UNSUPPORTED
| SPN_ERR_SANITIZER_STATIC

record spn_toolchain_target_t =
  tt_triple :: spn_triple_t
  tt_sdk :: spn_arg_t
  tt_sanitizers :: spn_sanitizer_set_t

record spn_toolchain_row_t =
  row_triple :: spn_triple_t
  row_sdk :: spn_sdk_t
  row_sanitizers :: spn_sanitizer_set_t

datatype spn_toolchain_support_t =
  SupportNone toolchain_err_t
| SupportLocal
| SupportArtifact spn_artifact_t
| SupportDetected

text \<open>A detected source has its detection, the others their hosts.\<close>

datatype spn_toolchain_origin_t =
  OriginLocal "spn_toolchain_host_t list"
| OriginDistribution "spn_toolchain_host_t list"
| OriginDetected spn_toolchain_detect_t

record spn_toolchain_decl_t =
  td_name :: string
  td_version :: string
  td_driver :: spn_cc_driver_t
  td_compiler :: spn_toolchain_launcher_t
  td_cxx :: spn_toolchain_launcher_t
  td_archiver :: spn_toolchain_launcher_t
  td_lld :: bool
  td_link_args :: "string list"
  td_origin :: spn_toolchain_origin_t
  td_targets :: "spn_toolchain_target_t list"
  td_host_row :: bool

record spn_toolchain_info_t =
  tc_name :: string
  tc_version :: string
  tc_driver :: spn_cc_driver_t
  tc_compiler :: spn_toolchain_launcher_t
  tc_cxx :: spn_toolchain_launcher_t
  tc_archiver :: spn_toolchain_launcher_t
  tc_lld :: bool
  tc_link_args :: "string list"
  tc_rows :: "spn_toolchain_row_t list"
  tc_unserved :: "spn_triple_t list"
  tc_support :: spn_toolchain_support_t

record spn_toolchain_catalog_t =
  cat_host :: spn_triple_t
  cat_sdks :: spn_sdk_host_t
  cat_entries :: "(string \<times> spn_toolchain_info_t) list"

definition spn_toolchain_has_cxx :: "spn_toolchain_info_t \<Rightarrow> bool" where
  "spn_toolchain_has_cxx toolchain \<longleftrightarrow> \<not> spn_arg_empty (launcher_program (tc_cxx toolchain))"

section \<open>Rows\<close>

definition has_row :: "spn_toolchain_row_t list \<Rightarrow> spn_triple_t \<Rightarrow> bool" where
  "has_row rows triple \<longleftrightarrow> list_ex (\<lambda>row. spn_triple_equal (row_triple row) triple) rows"

definition push_row :: "spn_toolchain_row_t list \<Rightarrow> spn_toolchain_row_t \<Rightarrow> spn_toolchain_row_t list" where
  "push_row rows row = (if has_row rows (row_triple row) then rows else rows @ [row])"

fun sdk_root :: "path_lib \<Rightarrow> spn_toolchain_support_t \<Rightarrow> spn_arg_t \<Rightarrow> spn_path_t" where
  "sdk_root lib (SupportArtifact artifact) sdk =
    (if spn_path_empty (arg_path sdk)
     then spn_path_join lib (spn_toolchain_artifact_root artifact) (arg_prefix sdk) else arg_path sdk)"
| "sdk_root lib _ sdk = arg_path sdk"

definition declared :: "spn_toolchain_info_t \<Rightarrow> spn_triple_t \<Rightarrow> bool" where
  "declared info triple \<longleftrightarrow> has_row (tc_rows info) triple \<or> spn_triple_in (tc_unserved info) triple"

definition bind_target ::
    "path_lib \<Rightarrow> spn_toolchain_catalog_t \<Rightarrow> spn_toolchain_support_t \<Rightarrow> spn_toolchain_target_t \<Rightarrow>
     spn_toolchain_info_t \<Rightarrow> spn_toolchain_info_t option" where
  "bind_target lib catalog support target info =
    (let row = \<lparr>row_triple = tt_triple target, row_sdk = SdkNone, row_sanitizers = tt_sanitizers target\<rparr>
     in if \<not> spn_arg_empty (tt_sdk target) then do {
          sdk \<leftarrow> spn_sdk_at lib (tt_triple target) (sdk_root lib support (tt_sdk target));
          Some (info\<lparr>tc_rows := tc_rows info @ [row\<lparr>row_sdk := sdk\<rparr>]\<rparr>)
        }
        else do {
          served \<leftarrow> spn_sdk_default (cat_sdks catalog) (tt_triple target);
          Some (if fst served then info\<lparr>tc_rows := tc_rows info @ [row\<lparr>row_sdk := snd served\<rparr>]\<rparr>
                else info\<lparr>tc_unserved := tc_unserved info @ [tt_triple target]\<rparr>)
        })"

definition arg_zero :: spn_arg_t where
  "arg_zero = \<lparr>arg_prefix = [], arg_path = path_zero\<rparr>"

definition stock :: "spn_cc_driver_t \<Rightarrow> spn_triple_t \<Rightarrow> spn_toolchain_target_t option" where
  "stock driver triple =
     map_option (\<lambda>set. \<lparr>tt_triple = triple, tt_sdk = arg_zero, tt_sanitizers = set\<rparr>)
       (spn_toolchain_stock_sanitizers driver triple)"

definition push_stock ::
    "path_lib \<Rightarrow> spn_toolchain_catalog_t \<Rightarrow> spn_toolchain_decl_t \<Rightarrow> spn_toolchain_info_t \<Rightarrow>
     spn_toolchain_info_t option" where
  "push_stock lib catalog decl info = do {
     let host = cat_host catalog;
     abi \<leftarrow> (if tr_abi host \<noteq> SPN_ABI_NONE then Some (tr_abi host) else spn_default_abi (td_driver decl) (tr_os host));
     let host = host\<lparr>tr_abi := abi\<rparr>;
     if abi = SPN_ABI_NONE then Some info
     else do {
       dialect \<leftarrow> spn_ld_dialect host;
       composes \<leftarrow> spn_toolchain_driver_composes (td_driver decl) dialect;
       if \<not> composes \<or> declared info host then Some info
       else do {
         target \<leftarrow> stock (td_driver decl) host;
         bind_target lib catalog (SupportNone TC_ERR_ZERO) target info
       }
     }
   }"

text \<open>The triples of the three nested loops, in their order.\<close>

definition hosted_triples :: "spn_triple_t list" where
  "hosted_triples =
     concat (map (\<lambda>os. concat (map (\<lambda>arch. map (\<lambda>abi. \<lparr>tr_arch = arch, tr_os = os, tr_abi = abi\<rparr>)
         (spn_os_completions os)) (spn_os_archs os)))
       [SPN_OS_LINUX, SPN_OS_MACOS, SPN_OS_WINDOWS])"

fun push_hosted ::
    "spn_toolchain_catalog_t \<Rightarrow> spn_cc_driver_t \<Rightarrow> spn_triple_t list \<Rightarrow> spn_toolchain_row_t list \<Rightarrow>
     spn_toolchain_row_t list option" where
  "push_hosted catalog driver [] rows = Some rows"
| "push_hosted catalog driver (triple # triples) rows = do {
     sanitizers \<leftarrow> (if tr_os triple = tr_os (cat_host catalog)
       then spn_toolchain_stock_sanitizers driver triple else Some 0);
     served \<leftarrow> spn_sdk_served (cat_sdks catalog) (cat_host catalog) triple;
     push_hosted catalog driver triples
       (if fst served
        then push_row rows \<lparr>row_triple = triple, row_sdk = snd served, row_sanitizers = sanitizers\<rparr> else rows)
   }"

definition bare_row :: "spn_arch_t \<Rightarrow> spn_os_t \<Rightarrow> spn_toolchain_row_t" where
  "bare_row arch os =
     \<lparr>row_triple = \<lparr>tr_arch = arch, tr_os = os, tr_abi = SPN_ABI_BARE\<rparr>, row_sdk = SdkNone, row_sanitizers = 0\<rparr>"

definition push_bare ::
    "spn_cc_driver_t \<Rightarrow> spn_triple_t \<Rightarrow> spn_toolchain_row_t list \<Rightarrow> spn_toolchain_row_t list option" where
  "push_bare driver host rows = do {
     caps \<leftarrow> spn_toolchain_driver_caps driver;
     if caps AND SPN_CC_CAP_BARE = 0 then Some rows
     else do {
       format \<leftarrow> spn_os_to_native_object_format (tr_os host);
       Some (if format \<noteq> SPN_OBJ_ELF then rows
         else push_row (push_row rows (bare_row (tr_arch host) SPN_OS_FREESTANDING))
                (bare_row (tr_arch host) SPN_OS_LINUX))
     }
   }"

fun bind_targets ::
    "path_lib \<Rightarrow> spn_toolchain_catalog_t \<Rightarrow> spn_toolchain_support_t \<Rightarrow> spn_toolchain_target_t list \<Rightarrow>
     spn_toolchain_info_t \<Rightarrow> spn_toolchain_info_t option" where
  "bind_targets lib catalog support [] info = Some info"
| "bind_targets lib catalog support (target # targets) info = do {
     info \<leftarrow> bind_target lib catalog support target info;
     bind_targets lib catalog support targets info
   }"

definition bind_rows ::
    "path_lib \<Rightarrow> spn_toolchain_catalog_t \<Rightarrow> spn_toolchain_decl_t \<Rightarrow> spn_toolchain_support_t \<Rightarrow>
     spn_toolchain_info_t \<Rightarrow> spn_toolchain_info_t option" where
  "bind_rows lib catalog decl support info = do {
     info \<leftarrow> bind_targets lib catalog support (td_targets decl) (info\<lparr>tc_rows := [], tc_unserved := []\<rparr>);
     if \<not> td_host_row decl then Some info
     else do {
       info \<leftarrow> push_stock lib catalog decl info;
       rows \<leftarrow> push_bare (td_driver decl) (cat_host catalog) (tc_rows info);
       retargets \<leftarrow> spn_toolchain_driver_retargets (td_driver decl);
       rows \<leftarrow> (if retargets then push_hosted catalog (td_driver decl) hosted_triples rows else Some rows);
       Some (info\<lparr>tc_rows := rows\<rparr>)
     }
   }"

section \<open>Support\<close>

definition has_host :: "spn_toolchain_host_t list \<Rightarrow> spn_triple_t \<Rightarrow> bool" where
  "has_host hosts host \<longleftrightarrow> list_ex (\<lambda>h. spn_triple_match (th_triple h) host) hosts"

definition bind_support :: "spn_toolchain_catalog_t \<Rightarrow> spn_toolchain_decl_t \<Rightarrow> spn_toolchain_support_t option" where
  "bind_support catalog decl =
    (case td_origin decl of
       OriginLocal hosts \<Rightarrow>
         Some (if hosts = [] \<or> has_host hosts (cat_host catalog) then SupportLocal
               else SupportNone SPN_ERR_TOOLCHAIN_UNAVAILABLE_FOR_HOST)
     | OriginDistribution hosts \<Rightarrow>
         Some (case find (\<lambda>h. spn_triple_match (th_triple h) (cat_host catalog)) hosts of
             Some h \<Rightarrow> SupportArtifact (th_artifact h)
           | None \<Rightarrow> SupportNone SPN_ERR_TOOLCHAIN_UNAVAILABLE_FOR_HOST)
     | OriginDetected detect \<Rightarrow>
        (case detect of
           SPN_TOOLCHAIN_DETECT_MSVC \<Rightarrow>
             Some (if host_msvc (cat_sdks catalog) = [] then SupportNone SPN_ERR_TOOLCHAIN_NOT_INSTALLED
                   else SupportDetected)
         | SPN_TOOLCHAIN_DETECT_NONE \<Rightarrow> None))"

definition bind_toolchain ::
    "path_lib \<Rightarrow> spn_toolchain_catalog_t \<Rightarrow> spn_toolchain_decl_t \<Rightarrow> spn_toolchain_info_t option" where
  "bind_toolchain lib catalog decl = do {
     support \<leftarrow> bind_support catalog decl;
     bind_rows lib catalog decl support
       \<lparr>tc_name = td_name decl, tc_version = td_version decl, tc_driver = td_driver decl,
        tc_compiler = td_compiler decl, tc_cxx = td_cxx decl, tc_archiver = td_archiver decl,
        tc_lld = td_lld decl, tc_link_args = td_link_args decl,
        tc_rows = [], tc_unserved = [], tc_support = support\<rparr>
   }"

section \<open>The catalog\<close>

definition spn_toolchain_catalog_init :: "spn_triple_t \<Rightarrow> spn_sdk_host_t \<Rightarrow> spn_toolchain_catalog_t" where
  "spn_toolchain_catalog_init host sdks = \<lparr>cat_host = host, cat_sdks = sdks, cat_entries = []\<rparr>"

definition spn_toolchain_catalog_get ::
    "spn_toolchain_catalog_t \<Rightarrow> string \<Rightarrow> spn_toolchain_info_t option" where
  "spn_toolchain_catalog_get catalog name = ht_get (cat_entries catalog) name"

text \<open>An entry of the name is replaced in its place, a new one comes last.\<close>

definition spn_toolchain_catalog_add ::
    "path_lib \<Rightarrow> spn_toolchain_decl_t \<Rightarrow> spn_toolchain_catalog_t \<Rightarrow> spn_toolchain_catalog_t option" where
  "spn_toolchain_catalog_add lib decl catalog = do {
     toolchain \<leftarrow> bind_toolchain lib catalog decl;
     Some (catalog\<lparr>cat_entries := ht_insert (tc_name toolchain) toolchain (cat_entries catalog)\<rparr>)
   }"

end
