(* ===== verification/Toolchain_Select.thy ===== *)
theory Toolchain_Select
  imports Toolchain
begin

text \<open>
  The selection of a toolchain, \<open>source/core/toolchain/select.c\<close>: a query names candidates of a
  target in the order of preference and the sanitizers it needs; a toolchain reaches a candidate
  when it has the row of the target, and the row allows the sanitizers under the linking.

  An error is emitted with its payload, the branches that the sources call unreachable are \<open>None\<close>.
\<close>

record spn_toolchain_candidate_t =
  cand_triple :: spn_triple_t
  cand_linking :: spn_linking_t

record spn_toolchain_query_t =
  query_toolchain :: spn_toolchain_ref_t
  query_target :: spn_triple_t
  query_candidates :: "spn_toolchain_candidate_t list"
  query_sanitizers :: spn_sanitizer_set_t

record spn_toolchain_selection_t =
  sel_toolchain :: spn_toolchain_info_t
  sel_row :: spn_toolchain_row_t
  sel_linking :: spn_linking_t

datatype reach_kind_t = REACH_UNSERVED | REACH_UNLISTED | REACH_DROPPED | REACH_SANITIZERS | REACH_OK

record reach_t =
  reach_kind :: reach_kind_t
  reach_err :: toolchain_err_t
  reach_row :: spn_toolchain_row_t
  reach_unsupported :: spn_sanitizer_set_t
  reach_linking :: spn_linking_t

datatype spn_err_union_t =
  ErrToolchain toolchain_err_t string spn_triple_t spn_triple_t spn_triple_t spn_sanitizer_set_t "string list"
    "spn_triple_t list"
| ErrSanitizer toolchain_err_t string spn_triple_t spn_sanitizer_set_t spn_sanitizer_set_t

fun reach_rank :: "reach_kind_t \<Rightarrow> nat" where
  "reach_rank REACH_UNSERVED = 0"
| "reach_rank REACH_UNLISTED = 1"
| "reach_rank REACH_DROPPED = 2"
| "reach_rank REACH_SANITIZERS = 3"
| "reach_rank REACH_OK = 4"

section \<open>One candidate\<close>

definition usable :: "spn_toolchain_info_t \<Rightarrow> bool" where
  "usable toolchain \<longleftrightarrow> (case tc_support toolchain of SupportNone _ \<Rightarrow> False | _ \<Rightarrow> True)"

definition listed :: "spn_toolchain_info_t \<Rightarrow> spn_triple_t \<Rightarrow> spn_toolchain_row_t option" where
  "listed toolchain triple = find (\<lambda>row. spn_triple_equal (row_triple row) triple) (tc_rows toolchain)"

definition row_zero :: "spn_triple_t \<Rightarrow> spn_toolchain_row_t" where
  "row_zero triple = \<lparr>row_triple = triple, row_sdk = SdkNone, row_sanitizers = 0\<rparr>"

definition supports ::
    "spn_toolchain_row_t \<Rightarrow> spn_toolchain_query_t \<Rightarrow> spn_linking_t \<Rightarrow> reach_t" where
  "supports row query linking =
    (let missing = query_sanitizers query AND NOT (row_sanitizers row);
         heavy = query_sanitizers query AND NOT SPN_SANITIZER_UNDEFINED
     in if missing \<noteq> 0 then
          \<lparr>reach_kind = REACH_SANITIZERS, reach_err = SPN_ERR_SANITIZER_UNSUPPORTED, reach_row = row,
           reach_unsupported = missing, reach_linking = linking_zero\<rparr>
        else if heavy \<noteq> 0 \<and> \<not> spn_ld_loader (row_triple row) linking then
          \<lparr>reach_kind = REACH_SANITIZERS, reach_err = SPN_ERR_SANITIZER_STATIC, reach_row = row,
           reach_unsupported = heavy, reach_linking = linking_zero\<rparr>
        else
          \<lparr>reach_kind = REACH_OK, reach_err = TC_ERR_ZERO, reach_row = row, reach_unsupported = 0,
           reach_linking = linking\<rparr>)"

definition absence ::
    "spn_toolchain_catalog_t \<Rightarrow> spn_toolchain_info_t \<Rightarrow> spn_triple_t \<Rightarrow> reach_kind_t option" where
  "absence catalog toolchain triple =
    (if spn_triple_in (tc_unserved toolchain) triple then Some REACH_DROPPED
     else do {
       retargets \<leftarrow> spn_toolchain_driver_retargets (tc_driver toolchain);
       if \<not> retargets then Some REACH_UNLISTED
       else do {
         served \<leftarrow> spn_sdk_served (cat_sdks catalog) (cat_host catalog) triple;
         Some (if fst served then REACH_UNLISTED else REACH_UNSERVED)
       }
     })"

definition attempt_reach ::
    "spn_toolchain_catalog_t \<Rightarrow> spn_toolchain_info_t \<Rightarrow> spn_toolchain_query_t \<Rightarrow>
     spn_toolchain_candidate_t \<Rightarrow> reach_t option" where
  "attempt_reach catalog toolchain query candidate =
    (case listed toolchain (cand_triple candidate) of
       Some row \<Rightarrow> Some (supports row query (cand_linking candidate))
     | None \<Rightarrow> do {
         kind \<leftarrow> absence catalog toolchain (cand_triple candidate);
         Some \<lparr>reach_kind = kind, reach_err = TC_ERR_ZERO, reach_row = row_zero (cand_triple candidate),
               reach_unsupported = 0, reach_linking = linking_zero\<rparr>
       })"

definition reached :: "reach_t \<Rightarrow> bool" where
  "reached reach \<longleftrightarrow> reach_kind reach = REACH_OK"

definition closer :: "reach_t \<Rightarrow> reach_t \<Rightarrow> bool" where
  "closer a b \<longleftrightarrow> reach_rank (reach_kind b) < reach_rank (reach_kind a)"

section \<open>The best candidate\<close>

fun reach_best_loop ::
    "spn_toolchain_catalog_t \<Rightarrow> spn_toolchain_info_t \<Rightarrow> spn_toolchain_query_t \<Rightarrow>
     spn_toolchain_candidate_t list \<Rightarrow> reach_t \<Rightarrow> reach_t option" where
  "reach_best_loop catalog toolchain query [] best = Some best"
| "reach_best_loop catalog toolchain query (candidate # candidates) best =
    (if reached best then Some best
     else do {
       reach \<leftarrow> attempt_reach catalog toolchain query candidate;
       reach_best_loop catalog toolchain query candidates (if closer reach best then reach else best)
     })"

text \<open>The first candidate is read without a test of the count: \<open>None\<close> when there is none.\<close>

fun reach_best ::
    "spn_toolchain_catalog_t \<Rightarrow> spn_toolchain_info_t \<Rightarrow> spn_toolchain_query_t \<Rightarrow>
     spn_toolchain_candidate_t list \<Rightarrow> reach_t option" where
  "reach_best catalog toolchain query [] = None"
| "reach_best catalog toolchain query (candidate # candidates) = do {
     best \<leftarrow> attempt_reach catalog toolchain query candidate;
     reach_best_loop catalog toolchain query candidates best
   }"

definition sdk_refusal :: "spn_triple_t \<Rightarrow> toolchain_err_t option" where
  "sdk_refusal target =
    (case spn_sdk_kind target of
       Some SPN_SDK_SYSROOT \<Rightarrow> Some SPN_ERR_TOOLCHAIN_SYSROOT
     | Some SPN_SDK_MACOS \<Rightarrow> Some SPN_ERR_TOOLCHAIN_SDK_MACOS
     | Some SPN_SDK_MSVC \<Rightarrow> Some SPN_ERR_TOOLCHAIN_SDK_MSVC
     | Some SPN_SDK_NONE \<Rightarrow> None
     | None \<Rightarrow> None)"

text \<open>The reach, when the toolchain satisfies the query.\<close>

definition satisfies ::
    "spn_toolchain_catalog_t \<Rightarrow> spn_toolchain_info_t \<Rightarrow> spn_toolchain_query_t \<Rightarrow> reach_t option option" where
  "satisfies catalog toolchain query =
    (if \<not> usable toolchain then Some None
     else do {
       reach \<leftarrow> reach_best catalog toolchain query (query_candidates query);
       Some (if reached reach then Some reach else None)
     })"

fun satisfying_loop ::
    "spn_toolchain_catalog_t \<Rightarrow> spn_toolchain_query_t \<Rightarrow> spn_toolchain_info_t list \<Rightarrow> string list option" where
  "satisfying_loop catalog query [] = Some []"
| "satisfying_loop catalog query (entry # entries) = do {
     reach \<leftarrow> satisfies catalog entry query;
     names \<leftarrow> satisfying_loop catalog query entries;
     Some (if reach \<noteq> None then tc_name entry # names else names)
   }"

definition satisfying ::
    "spn_toolchain_catalog_t \<Rightarrow> spn_toolchain_query_t \<Rightarrow> string list option" where
  "satisfying catalog query = satisfying_loop catalog query (map snd (cat_entries catalog))"

definition ref_name :: "spn_toolchain_ref_t \<Rightarrow> string" where
  "ref_name ref = (case ref of RefNamed name \<Rightarrow> name | _ \<Rightarrow> [])"

definition emit ::
    "toolchain_err_t \<Rightarrow> spn_toolchain_catalog_t \<Rightarrow> spn_toolchain_query_t \<Rightarrow> spn_triple_t \<Rightarrow> string list \<Rightarrow>
     spn_triple_t list \<Rightarrow> spn_err_union_t" where
  "emit kind catalog query target candidates targets =
     ErrToolchain kind (ref_name (query_toolchain query)) target (query_target query) (cat_host catalog)
       (query_sanitizers query) candidates targets"

definition emit_reach ::
    "spn_toolchain_catalog_t \<Rightarrow> spn_toolchain_query_t \<Rightarrow> spn_toolchain_info_t \<Rightarrow> reach_t \<Rightarrow> string list \<Rightarrow>
     spn_err_union_t option" where
  "emit_reach catalog query toolchain reach candidates =
    (case reach_kind reach of
       REACH_SANITIZERS \<Rightarrow>
         Some (ErrSanitizer (reach_err reach) (tc_name toolchain) (row_triple (reach_row reach))
           (reach_unsupported reach) (row_sanitizers (reach_row reach)))
     | REACH_UNLISTED \<Rightarrow>
         Some (emit SPN_ERR_TOOLCHAIN_TARGET catalog query (query_target query) candidates
           (map row_triple (tc_rows toolchain)))
     | REACH_OK \<Rightarrow> None
     | _ \<Rightarrow> do {
         kind \<leftarrow> sdk_refusal (row_triple (reach_row reach));
         Some (emit kind catalog query (row_triple (reach_row reach)) candidates
           (map row_triple (tc_rows toolchain)))
       })"

section \<open>Selection\<close>

definition selection_of :: "spn_toolchain_info_t \<Rightarrow> reach_t \<Rightarrow> spn_toolchain_selection_t" where
  "selection_of toolchain reach =
     \<lparr>sel_toolchain = toolchain, sel_row = reach_row reach, sel_linking = reach_linking reach\<rparr>"

fun select_auto ::
    "spn_toolchain_catalog_t \<Rightarrow> spn_toolchain_query_t \<Rightarrow> spn_toolchain_info_t list \<Rightarrow>
     (spn_err_union_t + spn_toolchain_selection_t) option" where
  "select_auto catalog query [] =
     Some (Inl (emit SPN_ERR_TOOLCHAIN_NONE catalog query (query_target query) [] []))"
| "select_auto catalog query (entry # entries) = do {
     reach \<leftarrow> satisfies catalog entry query;
     (case reach of
        Some reach \<Rightarrow> Some (Inr (selection_of entry reach))
      | None \<Rightarrow> select_auto catalog query entries)
   }"

definition select_named ::
    "spn_toolchain_catalog_t \<Rightarrow> spn_toolchain_query_t \<Rightarrow> string \<Rightarrow>
     (spn_err_union_t + spn_toolchain_selection_t) option" where
  "select_named catalog query name =
    (case spn_toolchain_catalog_get catalog name of
       None \<Rightarrow> do {
         names \<leftarrow> satisfying catalog query;
         Some (Inl (emit SPN_ERR_TOOLCHAIN_UNKNOWN catalog query (query_target query) names []))
       }
     | Some toolchain \<Rightarrow>
        (case tc_support toolchain of
           SupportNone err \<Rightarrow> do {
             names \<leftarrow> satisfying catalog query;
             Some (Inl (emit err catalog query (query_target query) names []))
           }
         | _ \<Rightarrow> do {
             reach \<leftarrow> reach_best catalog toolchain query (query_candidates query);
             if \<not> reached reach then do {
               names \<leftarrow> satisfying catalog query;
               err \<leftarrow> emit_reach catalog query toolchain reach names;
               Some (Inl err)
             }
             else Some (Inr (selection_of toolchain reach))
           }))"

definition spn_toolchain_select ::
    "spn_toolchain_catalog_t \<Rightarrow> spn_toolchain_query_t \<Rightarrow>
     (spn_err_union_t + spn_toolchain_selection_t) option" where
  "spn_toolchain_select catalog query =
    (if query_candidates query = [] then None
     else case query_toolchain query of
       RefAuto \<Rightarrow> select_auto catalog query (map snd (cat_entries catalog))
     | RefNamed name \<Rightarrow> select_named catalog query name
     | RefNone \<Rightarrow> None)"

end
