(* ===== verification/Toolchain_Facts.thy ===== *)
theory Toolchain_Facts
  imports Toolchain_Select
begin

text \<open>
  The invariant of a catalog: every row of a bound toolchain is a supported target with the kit its
  platform needs, no target has two rows, and the targets without a row lack the kit of Visual
  Studio. Binding a declaration keeps it, and over it the selection has no unreachable branch.
\<close>

text \<open>What \<open>spn_triple_host\<close> can return.\<close>

definition host_ok :: "spn_triple_t \<Rightarrow> bool" where
  "host_ok host \<longleftrightarrow>
    (tr_arch host = SPN_ARCH_X64 \<or> tr_arch host = SPN_ARCH_ARM64) \<and>
    (case tr_os host of
       SPN_OS_LINUX \<Rightarrow> tr_abi host = SPN_ABI_GNU \<or> tr_abi host = SPN_ABI_MUSL
     | SPN_OS_WINDOWS \<Rightarrow> tr_abi host = SPN_ABI_NONE
     | SPN_OS_MACOS \<Rightarrow> tr_abi host = SPN_ABI_APPLE
     | _ \<Rightarrow> False)"

definition target_ok :: "spn_toolchain_target_t \<Rightarrow> bool" where
  "target_ok t \<longleftrightarrow> triple_supported (tt_triple t) \<and>
     (spn_arg_empty (tt_sdk t) \<or> spn_sdk_kind (tt_triple t) \<noteq> Some SPN_SDK_NONE)"

definition decl_ok :: "spn_toolchain_decl_t \<Rightarrow> bool" where
  "decl_ok d \<longleftrightarrow> td_driver d \<noteq> SPN_CC_DRIVER_NONE \<and> list_all target_ok (td_targets d) \<and>
     distinct (map tt_triple (td_targets d)) \<and> td_origin d \<noteq> OriginDetected SPN_TOOLCHAIN_DETECT_NONE"

fun sdk_fits :: "spn_triple_t \<Rightarrow> spn_sdk_t \<Rightarrow> bool" where
  "sdk_fits triple SdkNone = (spn_sdk_kind triple \<noteq> Some SPN_SDK_MSVC)"
| "sdk_fits triple (SdkSysroot _) = (spn_sdk_kind triple = Some SPN_SDK_SYSROOT)"
| "sdk_fits triple (SdkMacos _) = (spn_sdk_kind triple = Some SPN_SDK_MACOS)"
| "sdk_fits triple (SdkMsvc kit) = (spn_sdk_kind triple = Some SPN_SDK_MSVC \<and> msvc_arch kit = tr_arch triple)"

definition row_ok :: "spn_toolchain_row_t \<Rightarrow> bool" where
  "row_ok row \<longleftrightarrow> triple_supported (row_triple row) \<and> sdk_fits (row_triple row) (row_sdk row)"

definition info_ok :: "spn_sdk_host_t \<Rightarrow> spn_toolchain_info_t \<Rightarrow> bool" where
  "info_ok sdks tc \<longleftrightarrow> tc_driver tc \<noteq> SPN_CC_DRIVER_NONE \<and> list_all row_ok (tc_rows tc) \<and>
     distinct (map row_triple (tc_rows tc)) \<and>
     list_all (\<lambda>t. spn_sdk_default sdks t = Some (False, SdkNone)) (tc_unserved tc) \<and>
     set (tc_unserved tc) \<inter> row_triple ` set (tc_rows tc) = {}"

definition catalog_ok :: "spn_toolchain_catalog_t \<Rightarrow> bool" where
  "catalog_ok catalog \<longleftrightarrow> host_ok (cat_host catalog) \<and> distinct (ht_keys (cat_entries catalog)) \<and>
     list_all (\<lambda>(name, tc). tc_name tc = name \<and> info_ok (cat_sdks catalog) tc) (cat_entries catalog)"

section \<open>Kits\<close>

lemma triple_equal_eq [simp]: "spn_triple_equal a b \<longleftrightarrow> a = b"
  by (cases a; cases b) (simp add: spn_triple_equal_def)

lemma triple_in_set [simp]: "spn_triple_in triples t \<longleftrightarrow> t \<in> set triples"
  by (auto simp: spn_triple_in_def list_ex_iff)

lemma has_row_iff [simp]: "has_row rows t \<longleftrightarrow> t \<in> row_triple ` set rows"
  by (auto simp: has_row_def list_ex_iff)

lemma supported_os: "triple_supported t \<Longrightarrow> tr_os t \<noteq> SPN_OS_NONE"
  by (auto simp: triple_supported_def os_has_arch_def)

lemma sdk_kind_total: "tr_os t \<noteq> SPN_OS_NONE \<Longrightarrow> \<exists>k. spn_sdk_kind t = Some k"
  by (cases "tr_os t") (auto simp: spn_sdk_kind_def)

lemma from_host_total: "tr_os t \<noteq> SPN_OS_NONE \<Longrightarrow> \<exists>sdk. spn_sdk_from_host host t = Some sdk"
  using sdk_kind_total [of t] by (auto simp: spn_sdk_from_host_def split: spn_sdk_kind_t.splits)

lemma msvc_for_arch: "msvc_for host arch = Some kit \<Longrightarrow> msvc_arch kit = arch"
  by (auto simp: msvc_for_def find_Some_iff)

lemma from_host_fits:
  assumes "spn_sdk_from_host host t = Some sdk" "sdk \<noteq> SdkNone \<or> spn_sdk_kind t \<noteq> Some SPN_SDK_MSVC"
  shows "sdk_fits t sdk"
  using assms
  by (auto simp: spn_sdk_from_host_def dest: msvc_for_arch
      split: option.splits spn_sdk_kind_t.splits if_splits)

lemma default_total: "tr_os t \<noteq> SPN_OS_NONE \<Longrightarrow> \<exists>b sdk. spn_sdk_default sdks t = Some (b, sdk)"
  using from_host_total [of t sdks] sdk_kind_total [of t] by (auto simp: spn_sdk_default_def)

lemma default_cases:
  assumes "spn_sdk_default sdks t = Some (b, sdk)"
  obtains k where "spn_sdk_from_host sdks t = Some sdk" "spn_sdk_kind t = Some k"
    "b = (k = SPN_SDK_MSVC \<longrightarrow> sdk \<noteq> SdkNone)"
proof -
  obtain k where "spn_sdk_from_host sdks t = Some sdk" "spn_sdk_kind t = Some k"
    "b = (case k of SPN_SDK_MSVC \<Rightarrow> sdk \<noteq> SdkNone | _ \<Rightarrow> True)"
    using assms by (auto simp: spn_sdk_default_def Option.bind_eq_Some_conv)
  moreover from this(3) have "b = (k = SPN_SDK_MSVC \<longrightarrow> sdk \<noteq> SdkNone)" by (cases k) simp_all
  ultimately show ?thesis by (intro that)
qed

lemma default_fits: "spn_sdk_default sdks t = Some (True, sdk) \<Longrightarrow> sdk_fits t sdk"
  by (erule default_cases, rule from_host_fits) auto

lemma default_refused: "spn_sdk_default sdks t = Some (False, sdk) \<Longrightarrow> sdk = SdkNone \<and> spn_sdk_kind t = Some SPN_SDK_MSVC"
  by (erule default_cases) auto

lemma served_total: "tr_os t \<noteq> SPN_OS_NONE \<Longrightarrow> \<exists>b sdk. spn_sdk_served sdks host t = Some (b, sdk)"
  using from_host_total [of t sdks] sdk_kind_total [of t] by (auto simp: spn_sdk_served_def)

lemma served_cases:
  assumes "spn_sdk_served sdks host t = Some (b, sdk)"
  obtains k where "spn_sdk_from_host sdks t = Some sdk" "spn_sdk_kind t = Some k"
    "b \<Longrightarrow> k = SPN_SDK_MSVC \<Longrightarrow> sdk \<noteq> SdkNone" "k = SPN_SDK_NONE \<Longrightarrow> b"
proof -
  obtain k where "spn_sdk_from_host sdks t = Some sdk" "spn_sdk_kind t = Some k"
    "b = (case k of SPN_SDK_NONE \<Rightarrow> True | SPN_SDK_SYSROOT \<Rightarrow> spn_triple_equal t host
        | SPN_SDK_MACOS \<Rightarrow> sdk \<noteq> SdkNone | SPN_SDK_MSVC \<Rightarrow> sdk \<noteq> SdkNone)"
    using assms by (auto simp: spn_sdk_served_def Option.bind_eq_Some_conv)
  moreover from this(3) have "(b \<longrightarrow> k = SPN_SDK_MSVC \<longrightarrow> sdk \<noteq> SdkNone) \<and> (k = SPN_SDK_NONE \<longrightarrow> b)"
    by (cases k) simp_all
  ultimately show ?thesis using that by blast
qed

lemma served_fits: "spn_sdk_served sdks host t = Some (True, sdk) \<Longrightarrow> sdk_fits t sdk"
  by (erule served_cases, rule from_host_fits) auto

lemma served_refused:
  "spn_sdk_served sdks host t = Some (False, sdk) \<Longrightarrow> \<exists>k. spn_sdk_kind t = Some k \<and> k \<noteq> SPN_SDK_NONE"
  by (erule served_cases) auto

lemma sdk_at_fits:
  assumes "tr_os t \<noteq> SPN_OS_NONE" "spn_sdk_kind t \<noteq> Some SPN_SDK_NONE"
  shows "\<exists>sdk. spn_sdk_at lib t root = Some sdk \<and> sdk_fits t sdk"
  using assms sdk_kind_total [of t]
  by (auto simp: spn_sdk_at_def spn_sdk_sysroot_def spn_sdk_macos_def spn_sdk_msvc_def msvc_layout_def Let_def
      split: spn_sdk_kind_t.splits)

section \<open>Binding\<close>

lemma bind_target_ok:
  assumes "target_ok target" "info_ok (cat_sdks catalog) info" "\<not> declared info (tt_triple target)"
  obtains info' where "bind_target lib catalog support target info = Some info'" "info_ok (cat_sdks catalog) info'"
    "tc_name info' = tc_name info" "tc_driver info' = tc_driver info"
    "\<And>t. declared info' t \<longleftrightarrow> declared info t \<or> t = tt_triple target"
proof -
  let ?t = "tt_triple target"
  let ?row = "\<lambda>sdk. \<lparr>row_triple = ?t, row_sdk = sdk, row_sanitizers = tt_sanitizers target\<rparr>"
  have os: "triple_supported ?t" "tr_os ?t \<noteq> SPN_OS_NONE"
    using assms(1) supported_os by (auto simp: target_ok_def)
  have new: "?t \<notin> row_triple ` set (tc_rows info)" "?t \<notin> set (tc_unserved info)"
    using assms(3) by (auto simp: declared_def)
  have pushed: "info_ok (cat_sdks catalog) (info\<lparr>tc_rows := tc_rows info @ [?row sdk]\<rparr>)" if "sdk_fits ?t sdk" for sdk
    using assms(2) new os that by (auto simp: info_ok_def row_ok_def)
  show ?thesis
  proof (cases "spn_arg_empty (tt_sdk target)")
    case False
    then obtain sdk where "spn_sdk_at lib ?t (sdk_root lib support (tt_sdk target)) = Some sdk" "sdk_fits ?t sdk"
      using sdk_at_fits [OF os(2)] assms(1) by (auto simp: target_ok_def)
    then show ?thesis using False pushed
      by (intro that [of "info\<lparr>tc_rows := tc_rows info @ [?row sdk]\<rparr>"])
        (auto simp: bind_target_def declared_def)
  next
    case True
    obtain b sdk where default: "spn_sdk_default (cat_sdks catalog) ?t = Some (b, sdk)"
      using default_total [OF os(2)] by blast
    show ?thesis
    proof (cases b)
      case True
      then show ?thesis using \<open>spn_arg_empty _\<close> default pushed default_fits
        by (intro that [of "info\<lparr>tc_rows := tc_rows info @ [?row sdk]\<rparr>"])
          (auto simp: bind_target_def declared_def)
    next
      case False
      then have "info_ok (cat_sdks catalog) (info\<lparr>tc_unserved := tc_unserved info @ [?t]\<rparr>)"
        using default default_refused assms(2) new by (auto simp: info_ok_def)
      then show ?thesis using False True default
        by (intro that [of "info\<lparr>tc_unserved := tc_unserved info @ [?t]\<rparr>"])
          (auto simp: bind_target_def declared_def)
    qed
  qed
qed

lemma bind_targets_ok:
  assumes "list_all target_ok targets" "distinct (map tt_triple targets)" "info_ok (cat_sdks catalog) info"
    "\<forall>t \<in> set targets. \<not> declared info (tt_triple t)"
  shows "\<exists>info'. bind_targets lib catalog support targets info = Some info' \<and> info_ok (cat_sdks catalog) info' \<and>
    tc_name info' = tc_name info \<and> tc_driver info' = tc_driver info"
  using assms
proof (induction targets arbitrary: info)
  case (Cons target targets)
  obtain info' where step: "bind_target lib catalog support target info = Some info'" "info_ok (cat_sdks catalog) info'"
    "tc_name info' = tc_name info" "tc_driver info' = tc_driver info"
    "\<And>t. declared info' t \<longleftrightarrow> declared info t \<or> t = tt_triple target"
    by (rule bind_target_ok [where target = target and info = info and catalog = catalog and lib = lib and support = support]) (use Cons.prems in simp_all)
  have "\<forall>t \<in> set targets. \<not> declared info' (tt_triple t)"
    using Cons.prems(2,4) by (auto simp: step(5) image_iff)
  then show ?case using Cons.IH [of info'] Cons.prems(1,2) step by simp
qed simp

lemma stock_target_ok:
  assumes "host_ok host" "driver \<noteq> SPN_CC_DRIVER_NONE"
    "abi = (if tr_abi host \<noteq> SPN_ABI_NONE then tr_abi host else SPN_ABI_GNU) \<or> abi = SPN_ABI_MSVC \<and> tr_os host = SPN_OS_WINDOWS"
  shows "\<exists>target. stock driver (host\<lparr>tr_abi := abi\<rparr>) = Some target \<and> target_ok target \<and>
    tt_triple target = host\<lparr>tr_abi := abi\<rparr>"
  using assms stock_not_none [of driver "host\<lparr>tr_abi := abi\<rparr>"]
  by (auto simp: stock_def target_ok_def arg_zero_def spn_arg_empty_def spn_path_empty_def path_zero_def host_ok_def
      triple_supported_def os_has_arch_def os_has_abi_def spn_os_abis_def split: spn_os_t.splits if_splits)

lemma push_stock_ok:
  assumes "host_ok (cat_host catalog)" "td_driver decl \<noteq> SPN_CC_DRIVER_NONE" "info_ok (cat_sdks catalog) info"
  shows "\<exists>info'. push_stock lib catalog decl info = Some info' \<and> info_ok (cat_sdks catalog) info' \<and>
    tc_name info' = tc_name info \<and> tc_driver info' = tc_driver info"
proof -
  let ?host = "cat_host catalog"
  have "\<exists>abi. (if tr_abi ?host \<noteq> SPN_ABI_NONE then Some (tr_abi ?host)
        else spn_default_abi (td_driver decl) (tr_os ?host)) = Some abi \<and>
      (abi = SPN_ABI_NONE \<or> abi = (if tr_abi ?host \<noteq> SPN_ABI_NONE then tr_abi ?host else SPN_ABI_GNU) \<or>
       abi = SPN_ABI_MSVC \<and> tr_os ?host = SPN_OS_WINDOWS)"
    using assms(1,2) by (cases "td_driver decl") (auto simp: host_ok_def split: spn_os_t.splits)
  then obtain abi where abi: "(if tr_abi ?host \<noteq> SPN_ABI_NONE then Some (tr_abi ?host)
        else spn_default_abi (td_driver decl) (tr_os ?host)) = Some abi"
      "abi = SPN_ABI_NONE \<or> abi = (if tr_abi ?host \<noteq> SPN_ABI_NONE then tr_abi ?host else SPN_ABI_GNU) \<or>
       abi = SPN_ABI_MSVC \<and> tr_os ?host = SPN_OS_WINDOWS" by blast
  obtain dialect where dialect: "spn_ld_dialect (?host\<lparr>tr_abi := abi\<rparr>) = Some dialect"
    using assms(1) by (cases "tr_os ?host"; cases "abi = SPN_ABI_MSVC") (auto simp: host_ok_def spn_ld_dialect_def)
  obtain composes where composes: "spn_toolchain_driver_composes (td_driver decl) dialect = Some composes"
    using assms(2) by (cases "td_driver decl") auto
  show ?thesis
  proof (cases "abi = SPN_ABI_NONE \<or> \<not> composes \<or> declared info (?host\<lparr>tr_abi := abi\<rparr>)")
    case True
    then show ?thesis using abi(1) dialect composes assms(3) unfolding push_stock_def
      by (cases "abi = SPN_ABI_NONE") (auto simp: Let_def)
  next
    case False
    then obtain target where target: "stock (td_driver decl) (?host\<lparr>tr_abi := abi\<rparr>) = Some target" "target_ok target"
        "tt_triple target = ?host\<lparr>tr_abi := abi\<rparr>"
      using stock_target_ok [OF assms(1,2)] abi(2) by blast
    obtain info' where "bind_target lib catalog (SupportNone TC_ERR_ZERO) target info = Some info'" "info_ok (cat_sdks catalog) info'"
        "tc_name info' = tc_name info" "tc_driver info' = tc_driver info"
      by (rule bind_target_ok [OF target(2) assms(3)]) (use False target(3) in simp_all)
    then show ?thesis using False abi(1) dialect composes target(1) unfolding push_stock_def
      by (auto simp: Let_def)
  qed
qed


lemma push_row_ok:
  assumes "list_all row_ok rows" "distinct (map row_triple rows)" "row_ok row"
  shows "list_all row_ok (push_row rows row) \<and> distinct (map row_triple (push_row rows row)) \<and>
    row_triple ` set (push_row rows row) = insert (row_triple row) (row_triple ` set rows)"
  using assms by (auto simp: push_row_def)

lemma bare_row_ok: "host_ok host \<Longrightarrow> os = SPN_OS_LINUX \<or> os = SPN_OS_FREESTANDING \<Longrightarrow> row_ok (bare_row (tr_arch host) os)"
  by (auto simp: host_ok_def row_ok_def bare_row_def triple_supported_def os_has_arch_def os_has_abi_def
      spn_os_abis_def spn_sdk_kind_def)

lemma push_bare_ok:
  assumes "host_ok host" "driver \<noteq> SPN_CC_DRIVER_NONE" "list_all row_ok rows" "distinct (map row_triple rows)"
  shows "\<exists>rows'. push_bare driver host rows = Some rows' \<and> list_all row_ok rows' \<and>
    distinct (map row_triple rows') \<and>
    (\<forall>t \<in> row_triple ` set rows'. t \<in> row_triple ` set rows \<or> tr_abi t = SPN_ABI_BARE)"
proof -
  obtain caps where caps: "spn_toolchain_driver_caps driver = Some caps" using assms(2) by (cases driver) auto
  obtain format where format: "spn_os_to_native_object_format (tr_os host) = Some format"
    using assms(1) by (cases "tr_os host") (auto simp: host_ok_def)
  show ?thesis
  proof (cases "caps AND SPN_CC_CAP_BARE = 0 \<or> format \<noteq> SPN_OBJ_ELF")
    case True
    then show ?thesis using caps format assms(3,4) by (auto simp: push_bare_def)
  next
    case False
    let ?free = "bare_row (tr_arch host) SPN_OS_FREESTANDING"
    let ?linux = "bare_row (tr_arch host) SPN_OS_LINUX"
    let ?rows = "push_row rows ?free"
    have free: "row_ok ?free" "row_ok ?linux" using bare_row_ok [OF assms(1)] by simp_all
    have once: "list_all row_ok ?rows" "distinct (map row_triple ?rows)"
        "row_triple ` set ?rows = insert (row_triple ?free) (row_triple ` set rows)"
      using push_row_ok [OF assms(3,4) free(1)] by simp_all
    have twice: "list_all row_ok (push_row ?rows ?linux)" "distinct (map row_triple (push_row ?rows ?linux))"
        "row_triple ` set (push_row ?rows ?linux) = insert (row_triple ?linux) (row_triple ` set ?rows)"
      using push_row_ok [OF once(1,2) free(2)] by simp_all
    have "push_bare driver host rows = Some (push_row ?rows ?linux)"
      using False caps format by (simp add: push_bare_def)
    moreover have "\<forall>t \<in> row_triple ` set (push_row ?rows ?linux). t \<in> row_triple ` set rows \<or> tr_abi t = SPN_ABI_BARE"
      unfolding twice(3) once(3) by (simp add: bare_row_def)
    ultimately show ?thesis using twice(1,2) by blast
  qed
qed

lemma hosted_supported: "t \<in> set hosted_triples \<Longrightarrow> triple_supported t"
  by (auto simp: hosted_triples_def spn_os_completions_def triple_supported_def os_has_arch_def os_has_abi_def
      spn_os_abis_def)

definition has_kit :: "spn_sdk_host_t \<Rightarrow> spn_triple_t \<Rightarrow> bool" where
  "has_kit sdks t \<longleftrightarrow> (\<exists>sdk. spn_sdk_from_host sdks t = Some sdk \<and> (spn_sdk_kind t = Some SPN_SDK_MSVC \<longrightarrow> sdk \<noteq> SdkNone))"

lemma push_hosted_ok:
  assumes "driver \<noteq> SPN_CC_DRIVER_NONE" "\<forall>t \<in> set triples. triple_supported t" "list_all row_ok rows"
    "distinct (map row_triple rows)"
  shows "\<exists>rows'. push_hosted catalog driver triples rows = Some rows' \<and> list_all row_ok rows' \<and>
    distinct (map row_triple rows') \<and>
    row_triple ` set rows' \<subseteq> row_triple ` set rows \<union> Collect (has_kit (cat_sdks catalog))"
  using assms
proof (induction triples arbitrary: rows)
  case (Cons triple triples)
  obtain sanitizers where stock: "(if tr_os triple = tr_os (cat_host catalog)
       then spn_toolchain_stock_sanitizers driver triple else Some 0) = Some sanitizers"
    using Cons.prems(1) by (cases driver; cases "tr_os triple = tr_os (cat_host catalog)") simp_all
  have supported: "triple_supported triple" using Cons.prems(2) by simp
  obtain b sdk where served: "spn_sdk_served (cat_sdks catalog) (cat_host catalog) triple = Some (b, sdk)"
    using served_total [OF supported_os [OF supported]] by blast
  let ?row = "\<lparr>row_triple = triple, row_sdk = sdk, row_sanitizers = sanitizers\<rparr>"
  have pushed: "list_all row_ok (push_row rows ?row) \<and> distinct (map row_triple (push_row rows ?row)) \<and>
      row_triple ` set (push_row rows ?row) = insert triple (row_triple ` set rows)" if b
    using push_row_ok [OF Cons.prems(3,4), of ?row] served_fits served supported that by (auto simp: row_ok_def)
  have kit: "has_kit (cat_sdks catalog) triple" if b
    by (rule served_cases [OF served]) (use that in \<open>auto simp: has_kit_def\<close>)
  let ?rows = "if b then push_row rows ?row else rows"
  have rows: "list_all row_ok ?rows" "distinct (map row_triple ?rows)"
      "row_triple ` set ?rows \<subseteq> row_triple ` set rows \<union> Collect (has_kit (cat_sdks catalog))"
    using pushed kit Cons.prems(3,4) by auto
  have "push_hosted catalog driver (triple # triples) rows = push_hosted catalog driver triples ?rows"
    using stock served by simp
  moreover obtain rows' where "push_hosted catalog driver triples ?rows = Some rows'" "list_all row_ok rows'"
      "distinct (map row_triple rows')"
      "row_triple ` set rows' \<subseteq> row_triple ` set ?rows \<union> Collect (has_kit (cat_sdks catalog))"
    using Cons.IH [OF Cons.prems(1) _ rows(1,2)] Cons.prems(2) by auto
  ultimately show ?case using rows(3) by (intro exI [of _ rows']) auto
qed simp


lemma bind_support_total: "td_origin d \<noteq> OriginDetected SPN_TOOLCHAIN_DETECT_NONE \<Longrightarrow> \<exists>s. bind_support catalog d = Some s"
  by (cases "td_origin d") (auto simp: bind_support_def split: spn_toolchain_detect_t.splits)

lemma bind_rows_ok:
  assumes "host_ok (cat_host catalog)" "decl_ok d" "tc_driver info = td_driver d"
  shows "\<exists>info'. bind_rows lib catalog d support info = Some info' \<and> info_ok (cat_sdks catalog) info' \<and>
    tc_name info' = tc_name info"
proof -
  let ?start = "info\<lparr>tc_rows := [], tc_unserved := []\<rparr>"
  have driver: "td_driver d \<noteq> SPN_CC_DRIVER_NONE" using assms(2) by (simp add: decl_ok_def)
  have start: "info_ok (cat_sdks catalog) ?start" using driver assms(3) by (simp add: info_ok_def)
  have fresh: "\<forall>t \<in> set (td_targets d). \<not> declared ?start (tt_triple t)" by (simp add: declared_def)
  obtain bound where bound: "bind_targets lib catalog support (td_targets d) ?start = Some bound"
      "info_ok (cat_sdks catalog) bound" "tc_name bound = tc_name info" "tc_driver bound = tc_driver info"
    using bind_targets_ok [OF _ _ start fresh, of lib support] assms(2) by (auto simp: decl_ok_def)
  obtain stocked where stocked: "push_stock lib catalog d bound = Some stocked"
      "info_ok (cat_sdks catalog) stocked" "tc_name stocked = tc_name info" "tc_driver stocked = tc_driver info"
    using push_stock_ok [OF assms(1) driver bound(2), of lib] bound(3,4) by auto
  let ?rows = "tc_rows stocked"
  have ok: "list_all row_ok ?rows" "distinct (map row_triple ?rows)"
    using stocked(2) by (simp_all add: info_ok_def)
  obtain bare where bare: "push_bare (td_driver d) (cat_host catalog) ?rows = Some bare"
      "list_all row_ok bare" "distinct (map row_triple bare)"
      "\<forall>t \<in> row_triple ` set bare. t \<in> row_triple ` set ?rows \<or> tr_abi t = SPN_ABI_BARE"
    using push_bare_ok [OF assms(1) driver ok] by blast
  obtain retargets where retargets: "spn_toolchain_driver_retargets (td_driver d) = Some retargets"
    using driver retargets_not_none by blast
  obtain rows where rows: "(if retargets then push_hosted catalog (td_driver d) hosted_triples bare else Some bare) = Some rows"
      "list_all row_ok rows" "distinct (map row_triple rows)"
      "row_triple ` set rows \<subseteq> row_triple ` set bare \<union> Collect (has_kit (cat_sdks catalog))"
  proof (cases retargets)
    case True
    then show ?thesis
      using push_hosted_ok [OF driver _ bare(2,3), of hosted_triples catalog] hosted_supported that by auto
  next
    case False
    then show ?thesis using bare(2,3) that by simp
  qed
  have unserved: "\<forall>t \<in> set (tc_unserved stocked). spn_sdk_default (cat_sdks catalog) t = Some (False, SdkNone)"
    using stocked(2) by (simp add: info_ok_def list_all_iff)
  have "t \<notin> row_triple ` set rows" if "t \<in> set (tc_unserved stocked)" for t
  proof
    assume row: "t \<in> row_triple ` set rows"
    have none: "spn_sdk_from_host (cat_sdks catalog) t = Some SdkNone" "spn_sdk_kind t = Some SPN_SDK_MSVC"
      using unserved that by (auto elim: default_cases)
    then have "tr_abi t \<noteq> SPN_ABI_BARE" by (auto simp: spn_sdk_kind_def)
    moreover have "t \<notin> row_triple ` set ?rows" using stocked(2) that by (auto simp: info_ok_def)
    moreover have "\<not> has_kit (cat_sdks catalog) t" using none by (simp add: has_kit_def)
    ultimately show False using row rows(4) bare(4) by blast
  qed
  then have "info_ok (cat_sdks catalog) (stocked\<lparr>tc_rows := rows\<rparr>)"
    using stocked(2) rows(2,3) by (auto simp: info_ok_def)
  then show ?thesis
    using bound stocked bare(1) retargets rows(1)
    by (cases "td_host_row d") (auto simp: bind_rows_def)
qed

lemma bind_toolchain_ok:
  assumes "host_ok (cat_host catalog)" "decl_ok d"
  shows "\<exists>info. bind_toolchain lib catalog d = Some info \<and> info_ok (cat_sdks catalog) info \<and> tc_name info = td_name d"
proof -
  obtain support where support: "bind_support catalog d = Some support"
    using bind_support_total assms(2) by (auto simp: decl_ok_def)
  show ?thesis
    using bind_rows_ok [OF assms, of "\<lparr>tc_name = td_name d, tc_version = td_version d, tc_driver = td_driver d,
        tc_compiler = td_compiler d, tc_cxx = td_cxx d, tc_archiver = td_archiver d,
        tc_lld = td_lld d, tc_link_args = td_link_args d, tc_rows = [], tc_unserved = [], tc_support = support\<rparr>"
        lib support] support
    by (simp add: bind_toolchain_def)
qed

lemma catalog_init_ok: "host_ok host \<Longrightarrow> catalog_ok (spn_toolchain_catalog_init host sdks)"
  by (simp add: catalog_ok_def spn_toolchain_catalog_init_def)

lemma catalog_add_ok:
  assumes "catalog_ok catalog" "decl_ok d"
  shows "\<exists>catalog' info. spn_toolchain_catalog_add lib d catalog = Some catalog' \<and> catalog_ok catalog' \<and>
    bind_toolchain lib catalog d = Some info \<and>
    spn_toolchain_catalog_get catalog' = (spn_toolchain_catalog_get catalog)(td_name d \<mapsto> info) \<and>
    ht_keys (cat_entries catalog') =
      (if td_name d \<in> set (ht_keys (cat_entries catalog)) then ht_keys (cat_entries catalog)
       else ht_keys (cat_entries catalog) @ [td_name d])"
proof -
  obtain info where info: "bind_toolchain lib catalog d = Some info" "info_ok (cat_sdks catalog) info" "tc_name info = td_name d"
    using bind_toolchain_ok [OF _ assms(2), of catalog lib] assms(1) by (auto simp: catalog_ok_def)
  have "catalog_ok (catalog\<lparr>cat_entries := ht_insert (tc_name info) info (cat_entries catalog)\<rparr>)"
    using assms(1) info(2) set_ht_insert_subset [of "tc_name info" info "cat_entries catalog"]
    by (auto simp: catalog_ok_def list_all_iff)
  then show ?thesis using info
    by (auto simp: spn_toolchain_catalog_add_def spn_toolchain_catalog_get_def ht_keys_insert)
qed

end
