(* ===== verification/Linking.thy ===== *)
theory Linking
  imports Linker
begin

text \<open>
  What linking promises, without the tables of the code: the combinations of language runtime and libc
  that a platform has, which of them it prefers, where a shared library can be loaded, and why a
  request is refused.
\<close>

section \<open>Platforms\<close>

text \<open>A bare platform has no loader: everything is static. macOS has no static runtime or libc. A GNU
  libc is only shared, and so is the libc of Windows under the GNU abi. With MSVC the runtime comes
  from the C runtime, so both are of one kind. With musl a shared runtime needs the shared libc.\<close>

definition bare_platform :: "spn_triple_t \<Rightarrow> bool" where
  "bare_platform target \<longleftrightarrow>
     tr_os target = SPN_OS_WASI \<or> tr_os target = SPN_OS_FREESTANDING \<or> tr_abi target = SPN_ABI_BARE"

definition linkable :: "spn_triple_t \<Rightarrow> spn_runtime_t \<Rightarrow> spn_runtime_t \<Rightarrow> bool" where
  "linkable target runtime libc \<longleftrightarrow>
     runtime \<noteq> SPN_RUNTIME_NONE \<and> libc \<noteq> SPN_RUNTIME_NONE \<and>
     (bare_platform target \<longrightarrow> runtime = SPN_RUNTIME_STATIC \<and> libc = SPN_RUNTIME_STATIC) \<and>
     (tr_os target = SPN_OS_MACOS \<longrightarrow> runtime = SPN_RUNTIME_SHARED \<and> libc = SPN_RUNTIME_SHARED) \<and>
     (tr_abi target = SPN_ABI_GNU \<longrightarrow> libc = SPN_RUNTIME_SHARED) \<and>
     (tr_abi target = SPN_ABI_MSVC \<longrightarrow> runtime = libc) \<and>
     (tr_abi target = SPN_ABI_MUSL \<longrightarrow> runtime = SPN_RUNTIME_SHARED \<longrightarrow> libc = SPN_RUNTIME_SHARED)"

definition has_loader :: "spn_triple_t \<Rightarrow> spn_runtime_t \<Rightarrow> bool" where
  "has_loader target libc \<longleftrightarrow>
     \<not> bare_platform target \<and> (tr_os target = SPN_OS_LINUX \<longrightarrow> libc = SPN_RUNTIME_SHARED)"

text \<open>Linux with the GNU libc prefers shared parts, every other platform static ones.\<close>

definition parts_of :: "spn_runtime_t \<Rightarrow> spn_runtime_t \<Rightarrow> spn_runtime_t \<Rightarrow> nat" where
  "parts_of kind runtime libc = (if runtime = kind then 1 else 0) + (if libc = kind then 1 else 0)"

definition link_cost :: "spn_triple_t \<Rightarrow> spn_runtime_t \<Rightarrow> spn_runtime_t \<Rightarrow> nat" where
  "link_cost target =
     parts_of (if tr_os target = SPN_OS_LINUX \<and> tr_abi target = SPN_ABI_GNU
       then SPN_RUNTIME_STATIC else SPN_RUNTIME_SHARED)"

section \<open>Requests\<close>

definition link_asked :: "spn_triple_t \<Rightarrow> spn_linking_t \<Rightarrow> spn_runtime_t \<Rightarrow> spn_runtime_t \<Rightarrow> bool" where
  "link_asked target request runtime libc \<longleftrightarrow>
     linkable target runtime libc \<and>
     (ln_runtime request \<noteq> SPN_RUNTIME_NONE \<longrightarrow> runtime = ln_runtime request) \<and>
     (ln_libc request \<noteq> SPN_RUNTIME_NONE \<longrightarrow> libc = ln_libc request) \<and>
     (ln_linkage request = SPN_LIB_KIND_SHARED \<longrightarrow> has_loader target libc)"

definition links_as :: "spn_triple_t \<Rightarrow> spn_linking_t \<Rightarrow> spn_linking_t \<Rightarrow> bool" where
  "links_as target request linking \<longleftrightarrow>
     link_asked target request (ln_runtime linking) (ln_libc linking) \<and>
     (\<forall>runtime libc. link_asked target request runtime libc \<and> (runtime, libc) \<noteq> (ln_runtime linking, ln_libc linking) \<longrightarrow>
        link_cost target (ln_runtime linking) (ln_libc linking) < link_cost target runtime libc) \<and>
     ln_linkage linking =
       (if ln_linkage request \<noteq> SPN_LIB_KIND_NONE then ln_linkage request
        else if has_loader target (ln_libc linking) then SPN_LIB_KIND_SHARED else SPN_LIB_KIND_STATIC)"

text \<open>The reasons, which exclude each other: the platform has no loader; it has no static libc; it has
  no static runtime; a shared runtime on a static libc; a static runtime on the shared C runtime of
  MSVC; a shared library on a static libc.\<close>

fun refused_for :: "spn_triple_t \<Rightarrow> spn_linking_t \<Rightarrow> spn_linking_refusal_t \<Rightarrow> bool" where
  "refused_for target request SPN_LINKING_REFUSAL_NONE = False"
| "refused_for target request SPN_LINKING_REFUSAL_NO_LOADER = bare_platform target"
| "refused_for target request SPN_LINKING_REFUSAL_OS_LIBC =
    (\<not> bare_platform target \<and> ln_libc request = SPN_RUNTIME_STATIC \<and>
     (tr_os target = SPN_OS_MACOS \<or> tr_abi target = SPN_ABI_GNU))"
| "refused_for target request SPN_LINKING_REFUSAL_OS_RUNTIME =
    (tr_os target = SPN_OS_MACOS \<and> ln_libc request \<noteq> SPN_RUNTIME_STATIC \<and> ln_runtime request = SPN_RUNTIME_STATIC)"
| "refused_for target request SPN_LINKING_REFUSAL_SHARED_RUNTIME =
    (\<not> bare_platform target \<and> (tr_abi target = SPN_ABI_MUSL \<or> tr_abi target = SPN_ABI_MSVC) \<and>
     ln_libc request = SPN_RUNTIME_STATIC \<and> ln_runtime request = SPN_RUNTIME_SHARED)"
| "refused_for target request SPN_LINKING_REFUSAL_HYBRID_CRT =
    (tr_abi target = SPN_ABI_MSVC \<and> ln_libc request = SPN_RUNTIME_SHARED \<and> ln_runtime request = SPN_RUNTIME_STATIC)"
| "refused_for target request SPN_LINKING_REFUSAL_SHARED_DEPS =
    (tr_os target = SPN_OS_LINUX \<and> tr_abi target = SPN_ABI_MUSL \<and> ln_linkage request = SPN_LIB_KIND_SHARED \<and>
     ln_libc request = SPN_RUNTIME_STATIC \<and> ln_runtime request \<noteq> SPN_RUNTIME_SHARED)"

definition linking_answer :: "spn_triple_t \<Rightarrow> spn_linking_t \<Rightarrow> (spn_linking_refusal_t + spn_linking_t) \<Rightarrow> bool" where
  "linking_answer target request answer \<longleftrightarrow>
    (case answer of
       Inl refusal \<Rightarrow> (\<forall>runtime libc. \<not> link_asked target request runtime libc) \<and> refused_for target request refusal
     | Inr linking \<Rightarrow> links_as target request linking)"

section \<open>The link_answers of the code\<close>

lemmas answer_defs = linking_answer_def links_as_def link_asked_def linkable_def has_loader_def bare_platform_def
  link_cost_def parts_of_def

lemmas code_defs = spn_ld_linking_def ld_refusal_def row_honours_def spn_ld_loader_def spn_triple_dynamic_def
  ld_tables ld_row_def linking_zero_def Let_def

lemma all_runtimes: "(\<forall>r. P r) \<longleftrightarrow> P SPN_RUNTIME_NONE \<and> P SPN_RUNTIME_STATIC \<and> P SPN_RUNTIME_SHARED"
  by (metis spn_runtime_t.exhaust)

text \<open>On one platform the answer is computed for every request.\<close>

definition link_answers :: "spn_os_t \<Rightarrow> spn_abi_t \<Rightarrow> bool" where
  "link_answers os abi \<longleftrightarrow>
     (\<forall>target request. tr_os target = os \<longrightarrow> tr_abi target = abi \<longrightarrow>
        (\<exists>answer. spn_ld_linking target request = Some answer \<and> linking_answer target request answer))"

lemma link_answersI:
  assumes "\<And>target request runtime libc linkage. tr_os target = os \<Longrightarrow> tr_abi target = abi \<Longrightarrow>
      ln_runtime request = runtime \<Longrightarrow> ln_libc request = libc \<Longrightarrow> ln_linkage request = linkage \<Longrightarrow>
      \<exists>answer. spn_ld_linking target request = Some answer \<and> linking_answer target request answer"
  shows "link_answers os abi"
  using assms unfolding link_answers_def by blast

lemma linux_gnu_answers: "link_answers SPN_OS_LINUX SPN_ABI_GNU"
proof (rule link_answersI, goal_cases)
  case (1 target request runtime libc linkage)
  then show ?case
    by (cases runtime; cases libc; cases linkage) (simp_all add: code_defs answer_defs all_runtimes)
qed

lemma linux_musl_answers: "link_answers SPN_OS_LINUX SPN_ABI_MUSL"
proof (rule link_answersI, goal_cases)
  case (1 target request runtime libc linkage)
  then show ?case
    by (cases runtime; cases libc; cases linkage) (simp_all add: code_defs answer_defs all_runtimes)
qed

lemma linux_bare_answers: "link_answers SPN_OS_LINUX SPN_ABI_BARE"
proof (rule link_answersI, goal_cases)
  case (1 target request runtime libc linkage)
  then show ?case
    by (cases runtime; cases libc; cases linkage) (simp_all add: code_defs answer_defs all_runtimes)
qed

lemma windows_gnu_answers: "link_answers SPN_OS_WINDOWS SPN_ABI_GNU"
proof (rule link_answersI, goal_cases)
  case (1 target request runtime libc linkage)
  then show ?case
    by (cases runtime; cases libc; cases linkage) (simp_all add: code_defs answer_defs all_runtimes)
qed

lemma windows_msvc_answers: "link_answers SPN_OS_WINDOWS SPN_ABI_MSVC"
proof (rule link_answersI, goal_cases)
  case (1 target request runtime libc linkage)
  then show ?case
    by (cases runtime; cases libc; cases linkage) (simp_all add: code_defs answer_defs all_runtimes)
qed

lemma macos_answers: "link_answers SPN_OS_MACOS SPN_ABI_APPLE"
proof (rule link_answersI, goal_cases)
  case (1 target request runtime libc linkage)
  then show ?case
    by (cases runtime; cases libc; cases linkage) (simp_all add: code_defs answer_defs all_runtimes)
qed

lemma wasi_answers: "link_answers SPN_OS_WASI SPN_ABI_MUSL"
proof (rule link_answersI, goal_cases)
  case (1 target request runtime libc linkage)
  then show ?case
    by (cases runtime; cases libc; cases linkage) (simp_all add: code_defs answer_defs all_runtimes)
qed

lemma freestanding_bare_answers: "link_answers SPN_OS_FREESTANDING SPN_ABI_BARE"
proof (rule link_answersI, goal_cases)
  case (1 target request runtime libc linkage)
  then show ?case
    by (cases runtime; cases libc; cases linkage) (simp_all add: code_defs answer_defs all_runtimes)
qed

lemma freestanding_elf_answers: "link_answers SPN_OS_FREESTANDING SPN_ABI_ELF"
proof (rule link_answersI, goal_cases)
  case (1 target request runtime libc linkage)
  then show ?case
    by (cases runtime; cases libc; cases linkage) (simp_all add: code_defs answer_defs all_runtimes)
qed

lemma platform_answers: "os_has_abi os abi \<Longrightarrow> link_answers os abi"
  by (cases os; cases abi)
    (simp_all add: os_has_abi_def spn_os_abis_def linux_gnu_answers linux_musl_answers linux_bare_answers windows_gnu_answers windows_msvc_answers
      macos_answers wasi_answers freestanding_bare_answers freestanding_elf_answers)

lemma refusal_unique:
  assumes "os_has_abi (tr_os target) (tr_abi target)"
    and "refused_for target request a" "refused_for target request b"
  shows "a = b"
  using assms
  by (cases a; cases b; cases "tr_os target"; cases "tr_abi target")
    (simp_all add: os_has_abi_def spn_os_abis_def bare_platform_def)

end
