(* ===== verification/Toolchain_Props.thy ===== *)
theory Toolchain_Props
  imports Toolchain_Facts Linking
begin

text \<open>
  What the catalog and the selection promise: an abstract selection is the first offer of the
  toolchains in their order, of the candidates in the order of the query, and the search of the
  sources computes it.
\<close>

section \<open>The abstract selection\<close>

definition row_fits :: "spn_toolchain_query_t \<Rightarrow> spn_toolchain_candidate_t \<Rightarrow> spn_toolchain_row_t \<Rightarrow> bool" where
  "row_fits query candidate row \<longleftrightarrow>
     row_triple row = cand_triple candidate \<and>
     query_sanitizers query AND NOT (row_sanitizers row) = 0 \<and>
     (query_sanitizers query AND NOT SPN_SANITIZER_UNDEFINED \<noteq> 0 \<longrightarrow>
        spn_ld_loader (cand_triple candidate) (cand_linking candidate))"

definition offers_of ::
    "spn_toolchain_query_t \<Rightarrow> spn_toolchain_info_t \<Rightarrow> spn_toolchain_candidate_t list \<Rightarrow>
     spn_toolchain_selection_t list" where
  "offers_of query toolchain candidates =
     concat (map (\<lambda>c. map (\<lambda>row. \<lparr>sel_toolchain = toolchain, sel_row = row, sel_linking = cand_linking c\<rparr>)
       (filter (row_fits query c) (tc_rows toolchain))) candidates)"

definition offers ::
    "spn_toolchain_query_t \<Rightarrow> spn_toolchain_info_t \<Rightarrow> spn_toolchain_selection_t list" where
  "offers query toolchain =
     (if usable toolchain then offers_of query toolchain (query_candidates query) else [])"

definition asked :: "spn_toolchain_catalog_t \<Rightarrow> spn_toolchain_ref_t \<Rightarrow> spn_toolchain_info_t list" where
  "asked catalog ref =
    (case ref of
       RefAuto \<Rightarrow> map snd (cat_entries catalog)
     | RefNamed name \<Rightarrow> map snd (filter (\<lambda>(key, _). key = name) (cat_entries catalog))
     | RefNone \<Rightarrow> [])"

definition all_offers ::
    "spn_toolchain_catalog_t \<Rightarrow> spn_toolchain_query_t \<Rightarrow> spn_toolchain_selection_t list" where
  "all_offers catalog query = concat (map (offers query) (asked catalog (query_toolchain query)))"

definition query_ok :: "spn_toolchain_query_t \<Rightarrow> bool" where
  "query_ok query \<longleftrightarrow> query_candidates query \<noteq> [] \<and> query_toolchain query \<noteq> RefNone \<and>
     list_all (\<lambda>c. triple_supported (cand_triple c)) (query_candidates query)"

section \<open>One candidate\<close>

lemma info_listed:
  assumes "distinct (map row_triple (tc_rows tc))"
  shows "listed tc t = Some row \<longleftrightarrow> row \<in> set (tc_rows tc) \<and> row_triple row = t"
proof -
  have inj: "inj_on row_triple (set (tc_rows tc))" using assms by (simp add: distinct_map)
  show ?thesis
  proof (cases "listed tc t")
    case None
    then have "\<forall>x \<in> set (tc_rows tc). row_triple x \<noteq> t" by (auto simp: listed_def find_None_iff)
    then show ?thesis using None by auto
  next
    case (Some found)
    then have "found \<in> set (tc_rows tc)" "row_triple found = t"
      by (auto simp: listed_def find_Some_iff)
    then show ?thesis using Some inj by (auto dest: inj_onD)
  qed
qed

lemma supports_reached:
  "reached (supports row query linking) \<longleftrightarrow>
     query_sanitizers query AND NOT (row_sanitizers row) = 0 \<and>
     (query_sanitizers query AND NOT SPN_SANITIZER_UNDEFINED \<noteq> 0 \<longrightarrow> spn_ld_loader (row_triple row) linking)"
  by (auto simp: supports_def reached_def Let_def)

lemma supports_reach:
  "reach_row (supports row query linking) = row"
  "reached (supports row query linking) \<Longrightarrow> reach_linking (supports row query linking) = linking"
  "\<not> reached (supports row query linking) \<Longrightarrow> reach_kind (supports row query linking) = REACH_SANITIZERS"
  by (auto simp: supports_def reached_def Let_def)

lemma filter_unique:
  "distinct xs \<Longrightarrow> x \<in> set xs \<Longrightarrow> \<forall>y \<in> set xs. P y = (y = x) \<Longrightarrow> filter P xs = [x]"
  by (induction xs) (auto simp: filter_empty_conv)

lemma listed_only:
  assumes "distinct (map row_triple (tc_rows tc))" "listed tc t = Some row" "x \<in> set (tc_rows tc)" "row_triple x = t"
  shows "x = row"
proof -
  have "listed tc t = Some x" using info_listed [OF assms(1)] assms(3,4) by blast
  then show ?thesis using assms(2) by simp
qed

lemma listed_fits:
  assumes "distinct (map row_triple (tc_rows tc))" "listed tc (cand_triple c) = Some row"
  shows "filter (row_fits query c) (tc_rows tc) = (if row_fits query c row then [row] else [])"
proof (cases "row_fits query c row")
  case True
  have row: "row \<in> set (tc_rows tc)" using info_listed [OF assms(1)] assms(2) by blast
  have rows: "distinct (tc_rows tc)" using assms(1) by (simp add: distinct_map)
  have "row_fits query c y = (y = row)" if "y \<in> set (tc_rows tc)" for y
    using listed_only [OF assms that] True unfolding row_fits_def by blast
  then have "filter (row_fits query c) (tc_rows tc) = [row]"
    using filter_unique [OF rows row] by blast
  then show ?thesis using True by simp
next
  case False
  have "\<not> row_fits query c x" if "x \<in> set (tc_rows tc)" for x
    using listed_only [OF assms that] False unfolding row_fits_def by blast
  then show ?thesis using False by (simp add: filter_empty_conv)
qed

lemma absence_refusal:
  assumes "info_ok sdks tc" "absence catalog tc t = Some kind"
  shows "kind = REACH_UNLISTED \<or> (kind = REACH_UNSERVED \<or> kind = REACH_DROPPED) \<and> sdk_refusal t \<noteq> None"
proof (cases "t \<in> set (tc_unserved tc)")
  case True
  then have "spn_sdk_default sdks t = Some (False, SdkNone)"
    using assms(1) by (simp add: info_ok_def list_all_iff)
  then have "spn_sdk_kind t = Some SPN_SDK_MSVC" using default_refused by blast
  then show ?thesis using assms(2) True by (auto simp: absence_def sdk_refusal_def)
next
  case False
  then consider "kind = REACH_UNLISTED" | sdk where "kind = REACH_UNSERVED"
      "spn_sdk_served (cat_sdks catalog) (cat_host catalog) t = Some (False, sdk)"
    using assms(2) by (auto simp: absence_def Option.bind_eq_Some_conv split: if_splits)
  then show ?thesis
  proof cases
    case (2 sdk)
    then obtain k where "spn_sdk_kind t = Some k" "k \<noteq> SPN_SDK_NONE"
      using served_refused by blast
    then show ?thesis using 2 by (cases k) (simp_all add: sdk_refusal_def)
  qed simp
qed

lemma attempt_reach_cases:
  assumes "info_ok sdks tc" "attempt_reach catalog tc query c = Some r"
  shows "(reached r \<and> filter (row_fits query c) (tc_rows tc) = [reach_row r] \<and> reach_linking r = cand_linking c) \<or>
    (\<not> reached r \<and> filter (row_fits query c) (tc_rows tc) = [] \<and>
      (reach_kind r = REACH_SANITIZERS \<or> reach_kind r = REACH_UNLISTED \<or> sdk_refusal (row_triple (reach_row r)) \<noteq> None))"
proof (cases "listed tc (cand_triple c)")
  case (Some row)
  have distinct: "distinct (map row_triple (tc_rows tc))" using assms(1) by (simp add: info_ok_def)
  have r: "r = supports row query (cand_linking c)"
    using assms(2) Some by (simp add: attempt_reach_def)
  have "row_triple row = cand_triple c" using Some info_listed [OF distinct, of "cand_triple c" row] by simp
  then have "row_fits query c row = reached r" unfolding r supports_reached row_fits_def by simp
  then show ?thesis using listed_fits [OF distinct Some] supports_reach r by simp
next
  case None
  have none: "filter (row_fits query c) (tc_rows tc) = []"
    using None by (auto simp: listed_def find_None_iff filter_empty_conv row_fits_def)
  obtain kind where kind: "absence catalog tc (cand_triple c) = Some kind" "reach_kind r = kind"
      "row_triple (reach_row r) = cand_triple c"
    using assms(2) None by (auto simp: attempt_reach_def row_zero_def Option.bind_eq_Some_conv)
  show ?thesis using absence_refusal [OF assms(1) kind(1)] none kind(2,3) by (auto simp: reached_def)
qed

lemma attempt_reach_total:
  assumes "info_ok sdks tc" "triple_supported (cand_triple c)"
  shows "\<exists>r. attempt_reach catalog tc query c = Some r"
proof -
  have "tc_driver tc \<noteq> SPN_CC_DRIVER_NONE" using assms(1) by (simp add: info_ok_def)
  then obtain retargets where "spn_toolchain_driver_retargets (tc_driver tc) = Some retargets"
    using retargets_not_none by blast
  moreover obtain b sdk where "spn_sdk_served (cat_sdks catalog) (cat_host catalog) (cand_triple c) = Some (b, sdk)"
    using served_total [OF supported_os [OF assms(2)]] by blast
  ultimately show ?thesis
    by (cases "listed tc (cand_triple c)"; cases "cand_triple c \<in> set (tc_unserved tc)"; cases retargets)
      (auto simp: attempt_reach_def absence_def)
qed

section \<open>The best candidate\<close>

text \<open>What the search returns for the candidates tried so far.\<close>

definition reach_meets ::
    "spn_toolchain_query_t \<Rightarrow> spn_toolchain_info_t \<Rightarrow> spn_toolchain_candidate_t list \<Rightarrow> reach_t \<Rightarrow> bool" where
  "reach_meets query tc candidates r \<longleftrightarrow>
    (if reached r then \<exists>rest. offers_of query tc candidates = selection_of tc r # rest
     else offers_of query tc candidates = [] \<and>
       (reach_kind r = REACH_SANITIZERS \<or> reach_kind r = REACH_UNLISTED \<or> sdk_refusal (row_triple (reach_row r)) \<noteq> None))"

lemma offers_of_append: "offers_of query tc (xs @ ys) = offers_of query tc xs @ offers_of query tc ys"
  by (simp add: offers_of_def)

lemma reach_meets_one:
  assumes "info_ok sdks tc" "attempt_reach catalog tc query c = Some r"
  shows "reach_meets query tc [c] r"
  using attempt_reach_cases [OF assms] by (auto simp: reach_meets_def offers_of_def selection_of_def)

lemma reach_meets_more: "reach_meets query tc xs r \<Longrightarrow> reached r \<Longrightarrow> reach_meets query tc (xs @ ys) r"
  by (auto simp: reach_meets_def offers_of_append)

lemma reach_meets_next:
  "reach_meets query tc xs best \<Longrightarrow> \<not> reached best \<Longrightarrow> reach_meets query tc [c] r \<Longrightarrow>
   reach_meets query tc (xs @ [c]) (if closer r best then r else best)"
  by (cases "reach_kind r"; cases "reach_kind best")
    (auto simp: reach_meets_def offers_of_append closer_def reached_def)

lemma reach_best_loop_meets:
  assumes "info_ok sdks tc" "list_all (\<lambda>c. triple_supported (cand_triple c)) ys" "reach_meets query tc xs best"
  shows "\<exists>r. reach_best_loop catalog tc query ys best = Some r \<and> reach_meets query tc (xs @ ys) r"
  using assms(2,3)
proof (induction ys arbitrary: xs best)
  case (Cons c ys)
  show ?case
  proof (cases "reached best")
    case True
    then show ?thesis using reach_meets_more [OF Cons.prems(2)] by simp
  next
    case False
    obtain r where r: "attempt_reach catalog tc query c = Some r"
      using attempt_reach_total [OF assms(1), of c catalog query] Cons.prems(1) by auto
    have "reach_meets query tc (xs @ [c]) (if closer r best then r else best)"
      by (rule reach_meets_next [OF Cons.prems(2) False reach_meets_one [OF assms(1) r]])
    from Cons.IH [OF _ this] Cons.prems(1) False r show ?thesis by auto
  qed
qed simp

lemma reach_best_meets:
  assumes "info_ok sdks tc" "list_all (\<lambda>c. triple_supported (cand_triple c)) cs" "cs \<noteq> []"
  shows "\<exists>r. reach_best catalog tc query cs = Some r \<and> reach_meets query tc cs r"
proof -
  obtain c rest where cs: "cs = c # rest" using assms(3) by (cases cs) auto
  obtain best where best: "attempt_reach catalog tc query c = Some best"
    using attempt_reach_total [OF assms(1), of c catalog query] assms(2) cs by auto
  show ?thesis
    using reach_best_loop_meets [OF assms(1) _ reach_meets_one [OF assms(1) best], of rest catalog] assms(2) best
    by (auto simp: cs)
qed

lemma satisfies_meets:
  assumes "info_ok sdks tc" "query_ok query"
  shows "\<exists>r. satisfies catalog tc query = Some r \<and>
    (case r of Some reach \<Rightarrow> \<exists>rest. offers query tc = selection_of tc reach # rest | None \<Rightarrow> offers query tc = [])"
proof (cases "usable tc")
  case True
  obtain r where "reach_best catalog tc query (query_candidates query) = Some r"
      "reach_meets query tc (query_candidates query) r"
    using reach_best_meets [OF assms(1), of "query_candidates query" catalog query] assms(2) by (auto simp: query_ok_def)
  then show ?thesis using True by (auto simp: satisfies_def offers_def reach_meets_def split: if_splits)
qed (simp add: satisfies_def offers_def)

lemma satisfying_total:
  assumes "list_all (info_ok sdks) infos" "query_ok query"
  shows "\<exists>names. satisfying_loop catalog query infos = Some names"
  using assms(1)
proof (induction infos)
  case (Cons tc infos)
  obtain r where "satisfies catalog tc query = Some r"
    using satisfies_meets [of sdks tc query catalog] Cons.prems assms(2) by auto
  then show ?case using Cons by auto
qed simp

section \<open>The selection\<close>

definition selects ::
    "(spn_err_union_t + spn_toolchain_selection_t) option \<Rightarrow> spn_toolchain_selection_t list \<Rightarrow> bool" where
  "selects result offered \<longleftrightarrow>
    (case offered of
       sel # _ \<Rightarrow> result = Some (Inr sel)
     | [] \<Rightarrow> \<exists>err. result = Some (Inl err))"

lemma select_auto_selects:
  assumes "list_all (info_ok sdks) infos" "query_ok query"
  shows "selects (select_auto catalog query infos) (concat (map (offers query) infos))"
  using assms(1)
proof (induction infos)
  case (Cons tc infos)
  obtain r where "satisfies catalog tc query = Some r"
      "case r of Some reach \<Rightarrow> \<exists>rest. offers query tc = selection_of tc reach # rest | None \<Rightarrow> offers query tc = []"
    using satisfies_meets [of sdks tc query catalog] Cons.prems assms(2) by auto
  then show ?case using Cons by (auto simp: selects_def split: option.splits)
qed (simp add: selects_def)

lemma catalog_infos: "catalog_ok catalog \<Longrightarrow> list_all (info_ok (cat_sdks catalog)) (map snd (cat_entries catalog))"
  by (auto simp: catalog_ok_def list_all_iff)

lemma asked_named:
  "distinct (ht_keys entries) \<Longrightarrow>
   map snd (filter (\<lambda>(key, _). key = name) entries) = (case ht_get entries name of None \<Rightarrow> [] | Some v \<Rightarrow> [v])"
proof (induction entries)
  case (Cons entry entries)
  obtain key v where entry: "entry = (key, v)" by (cases entry)
  show ?case
  proof (cases "key = name")
    case True
    then have "ht_get entries name = None" using Cons.prems entry by (simp add: ht_get_None_iff)
    then show ?thesis using Cons True entry by simp
  next
    case False
    then show ?thesis using Cons entry by simp
  qed
qed simp

lemma select_named_selects:
  assumes "catalog_ok catalog" "query_ok query"
  shows "selects (select_named catalog query name)
    (concat (map (offers query) (case ht_get (cat_entries catalog) name of None \<Rightarrow> [] | Some v \<Rightarrow> [v])))"
proof (cases "spn_toolchain_catalog_get catalog name")
  case None
  obtain names where "satisfying catalog query = Some names"
    using satisfying_total [OF catalog_infos [OF assms(1)] assms(2), of catalog] by (auto simp: satisfying_def)
  then show ?thesis using None by (simp add: select_named_def selects_def spn_toolchain_catalog_get_def)
next
  case (Some tc)
  obtain names where names: "satisfying catalog query = Some names"
    using satisfying_total [OF catalog_infos [OF assms(1)] assms(2), of catalog] by (auto simp: satisfying_def)
  have info: "info_ok (cat_sdks catalog) tc"
    using Some catalog_infos [OF assms(1)] ht_get_SomeD [of "cat_entries catalog" name tc]
    by (auto simp: spn_toolchain_catalog_get_def list_all_iff)
  obtain r where r: "reach_best catalog tc query (query_candidates query) = Some r"
      "reach_meets query tc (query_candidates query) r"
    using reach_best_meets [OF info, of "query_candidates query" catalog query] assms(2) by (auto simp: query_ok_def)
  have err: "\<exists>err. emit_reach catalog query tc r names = Some err" if "\<not> reached r"
    using r(2) that by (cases "reach_kind r") (auto simp: emit_reach_def reach_meets_def reached_def)
  show ?thesis
  proof (cases "tc_support tc")
    case (SupportNone e)
    then show ?thesis using Some names
      by (simp add: select_named_def selects_def spn_toolchain_catalog_get_def offers_def usable_def)
  qed (use Some names r err in
      \<open>auto simp: select_named_def selects_def spn_toolchain_catalog_get_def offers_def usable_def reach_meets_def
          split: if_splits\<close>)
qed


section \<open>Properties\<close>

text \<open>The declarations of a session are added in their order.\<close>

fun catalog_adds ::
    "path_lib \<Rightarrow> spn_toolchain_decl_t list \<Rightarrow> spn_toolchain_catalog_t \<Rightarrow> spn_toolchain_catalog_t option" where
  "catalog_adds lib [] catalog = Some catalog"
| "catalog_adds lib (d # ds) catalog = do {
     catalog \<leftarrow> spn_toolchain_catalog_add lib d catalog;
     catalog_adds lib ds catalog
   }"

lemma catalog_adds_ok:
  "catalog_ok catalog \<Longrightarrow> list_all decl_ok ds \<Longrightarrow>
   distinct (ht_keys (cat_entries catalog) @ map td_name ds) \<Longrightarrow>
   \<exists>catalog'. catalog_adds lib ds catalog = Some catalog' \<and> catalog_ok catalog' \<and>
     ht_keys (cat_entries catalog') = ht_keys (cat_entries catalog) @ map td_name ds"
proof (induction ds arbitrary: catalog)
  case (Cons d ds)
  obtain catalog' where step: "spn_toolchain_catalog_add lib d catalog = Some catalog'" "catalog_ok catalog'"
      "ht_keys (cat_entries catalog') = ht_keys (cat_entries catalog) @ [td_name d]"
    using catalog_add_ok [of catalog d lib] Cons.prems by auto
  have "distinct (ht_keys (cat_entries catalog') @ map td_name ds)" using Cons.prems(3) step(3) by simp
  from Cons.IH [OF step(2) _ this] Cons.prems(2) show ?case using step by simp
qed simp

definition example_lib :: path_lib where
  "example_lib = \<lparr>fs_join = (\<lambda>a b. a @ ''/'' @ b), fs_name = id, fs_absolute = (\<lambda>p. take 1 p = ''/'')\<rparr>"

definition example_host :: spn_triple_t where
  "example_host = \<lparr>tr_arch = SPN_ARCH_X64, tr_os = SPN_OS_LINUX, tr_abi = SPN_ABI_GNU\<rparr>"

definition example_sdks :: spn_sdk_host_t where
  "example_sdks = \<lparr>host_macos = macos_layout example_lib path_zero, host_msvc = []\<rparr>"

definition example_launcher :: spn_toolchain_launcher_t where
  "example_launcher = \<lparr>launcher_program = spn_arg_lit ''cc'', launcher_args = []\<rparr>"

definition example_decl :: spn_toolchain_decl_t where
  "example_decl =
     \<lparr>td_name = ''zig'', td_version = [], td_driver = SPN_CC_DRIVER_ZIG, td_compiler = example_launcher,
      td_cxx = example_launcher, td_archiver = example_launcher, td_lld = False, td_link_args = [],
      td_origin = OriginLocal [],
      td_targets = [\<lparr>tt_triple = \<lparr>tr_arch = SPN_ARCH_ARM64, tr_os = SPN_OS_LINUX, tr_abi = SPN_ABI_MUSL\<rparr>,
        tt_sdk = arg_zero, tt_sanitizers = 0\<rparr>],
      td_host_row = True\<rparr>"

definition example_query :: spn_toolchain_query_t where
  "example_query =
     \<lparr>query_toolchain = RefAuto, query_target = example_host,
      query_candidates = [\<lparr>cand_triple = example_host, cand_linking = ld_row SPN_RUNTIME_SHARED SPN_RUNTIME_SHARED\<rparr>],
      query_sanitizers = 0\<rparr>"

lemmas example_defs = example_lib_def example_host_def example_sdks_def example_launcher_def example_decl_def
  example_query_def

lemma toolchain_select_selects:
  assumes "catalog_ok catalog" "query_ok query"
  shows "selects (spn_toolchain_select catalog query) (all_offers catalog query)"
proof (cases "query_toolchain query")
  case RefAuto
  then show ?thesis
    using select_auto_selects [OF catalog_infos [OF assms(1)] assms(2), of catalog] assms(2)
    by (simp add: spn_toolchain_select_def all_offers_def asked_def query_ok_def)
next
  case (RefNamed name)
  have "distinct (ht_keys (cat_entries catalog))" using assms(1) by (simp add: catalog_ok_def)
  then show ?thesis
    using RefNamed select_named_selects [OF assms, of name] assms(2)
    by (simp add: spn_toolchain_select_def all_offers_def asked_def query_ok_def asked_named)
qed (use assms(2) in \<open>simp add: query_ok_def\<close>)

text \<open>C16: the search for a toolchain returns the first offer, of the toolchains in the order they were
  declared and of the candidates in the order of the query: a row of a usable toolchain for the
  triple of the candidate, with all the sanitizers asked for, and under its linking. It fails with
  an error exactly when nothing asked for has an offer, and it reaches no unreachable branch.\<close>

theorem toolchain_search_is_first_offer:
  assumes "catalog_ok catalog" "query_ok query"
  shows "selects (spn_toolchain_select catalog query) (all_offers catalog query)"
  by (rule toolchain_select_selects [OF assms])

theorem toolchain_search_is_first_offer_witness:
  "selects (spn_toolchain_select (spn_toolchain_catalog_init example_host example_sdks) example_query)
     (all_offers (spn_toolchain_catalog_init example_host example_sdks) example_query)"
  by (rule toolchain_search_is_first_offer [OF catalog_init_ok])
    (simp_all add: example_defs host_ok_def query_ok_def triple_supported_def os_has_arch_def os_has_abi_def
      spn_os_abis_def)

text \<open>C22: what a supported target is linked with is a combination of language runtime and libc that its
  platform has, of the kinds the request names, and the one the platform prefers among these: fewest
  static parts with the GNU libc of Linux, fewest shared parts elsewhere. A shared library is only
  built where a loader is; a request that names no library kind gets a shared one where a loader is and
  a static one elsewhere. A request is refused exactly when no combination meets it, and the reason
  is the fact of the platform, or the pair of the request, that excludes it.\<close>

theorem linking_honours_request:
  assumes "triple_supported target"
  shows "case spn_ld_linking target request of
      None \<Rightarrow> False
    | Some (Inr linking) \<Rightarrow> links_as target request linking
    | Some (Inl refusal) \<Rightarrow>
        (\<forall>runtime libc. \<not> link_asked target request runtime libc) \<and> refused_for target request refusal"
proof -
  have "link_answers (tr_os target) (tr_abi target)"
    using assms by (intro platform_answers) (simp add: triple_supported_def)
  then obtain answer where "spn_ld_linking target request = Some answer" "linking_answer target request answer"
    unfolding link_answers_def by blast
  then show ?thesis by (cases answer) (simp_all add: linking_answer_def)
qed

theorem linking_honours_request_witness:
  "spn_ld_linking example_host (linking_zero\<lparr>ln_libc := SPN_RUNTIME_STATIC\<rparr>) = Some (Inl SPN_LINKING_REFUSAL_OS_LIBC) \<and>
   refused_for example_host (linking_zero\<lparr>ln_libc := SPN_RUNTIME_STATIC\<rparr>) SPN_LINKING_REFUSAL_OS_LIBC"
proof -
  have "triple_supported example_host"
    by (simp add: example_defs triple_supported_def os_has_arch_def os_has_abi_def spn_os_abis_def)
  note answer = linking_honours_request [OF this, of "linking_zero\<lparr>ln_libc := SPN_RUNTIME_STATIC\<rparr>"]
  have "spn_ld_linking example_host (linking_zero\<lparr>ln_libc := SPN_RUNTIME_STATIC\<rparr>) =
      Some (Inl SPN_LINKING_REFUSAL_OS_LIBC)" by code_simp
  then show ?thesis using answer by simp
qed

end
