(* ===== verification/Loader.thy ===== *)
theory Loader
  imports Prelude
begin

text \<open>
  The loader of a configuration file, \<open>source/core/codegen/loader.c\<close>: the path of the value that is
  being lowered, the scope it is reported under, and the issues found so far. What is read from
  the tables of the TOML library is left out.
\<close>

datatype codegen_err =
  SPN_ERR_CODEGEN_EXPECTED_BOOL
| SPN_ERR_CODEGEN_EXPECTED_STR
| SPN_ERR_CODEGEN_EXPECTED_INT
| SPN_ERR_CODEGEN_EXPECTED_OBJECT
| SPN_ERR_CODEGEN_MISSING_KEY
| SPN_ERR_CODEGEN_DUPLICATE_KEY
| SPN_ERR_CODEGEN_UNKNOWN_KEY
| SPN_ERR_CODEGEN_PARSE
| SPN_ERR_CODEGEN_FILE_MISSING
| SPN_ERR_CODEGEN_INVALID
| SPN_ERR_CODEGEN_ROOT_ONLY
| SPN_ERR_CODEGEN_PATH
| SPN_ERR_CODEGEN_UNROOTED
| SPN_ERR_CODEGEN_ABSOLUTE
| SPN_ERR_CODEGEN_LINKER

datatype codegen_seg = SegKey string | SegIndex nat

record spn_codegen_issue_t =
  issue_code :: codegen_err
  issue_path :: string
  issue_detail :: string
  issue_value :: string
  issue_scope :: string
  issue_choices :: "string list"
  issue_segs :: "codegen_seg list"

text \<open>The path is the array up to its depth. A path that is full takes no further segment, and its
  pop removes the last one all the same.\<close>

record spn_toml_loader_t =
  ld_segs :: "codegen_seg list"
  ld_scope_name :: string
  ld_scope_depth :: nat
  ld_issues :: "spn_codegen_issue_t list"

definition SPN_CODEGEN_PATH_MAX :: nat where "SPN_CODEGEN_PATH_MAX = 32"

definition spn_toml_loader_init :: spn_toml_loader_t where
  "spn_toml_loader_init = \<lparr>ld_segs = [], ld_scope_name = [], ld_scope_depth = 0, ld_issues = []\<rparr>"

definition loader_push :: "codegen_seg \<Rightarrow> spn_toml_loader_t \<Rightarrow> spn_toml_loader_t" where
  "loader_push seg ctx =
    (if SPN_CODEGEN_PATH_MAX \<le> length (ld_segs ctx) then ctx else ctx\<lparr>ld_segs := ld_segs ctx @ [seg]\<rparr>)"

definition spn_toml_loader_push_key :: "string \<Rightarrow> spn_toml_loader_t \<Rightarrow> spn_toml_loader_t" where
  "spn_toml_loader_push_key key ctx = loader_push (SegKey key) ctx"

definition spn_toml_loader_push_index :: "nat \<Rightarrow> spn_toml_loader_t \<Rightarrow> spn_toml_loader_t" where
  "spn_toml_loader_push_index index ctx = loader_push (SegIndex index) ctx"

definition spn_toml_loader_pop :: "spn_toml_loader_t \<Rightarrow> spn_toml_loader_t" where
  "spn_toml_loader_pop ctx = ctx\<lparr>ld_segs := butlast (ld_segs ctx)\<rparr>"

definition spn_toml_loader_push_scope :: "string \<Rightarrow> spn_toml_loader_t \<Rightarrow> spn_toml_loader_t" where
  "spn_toml_loader_push_scope name ctx =
     ctx\<lparr>ld_scope_name := name, ld_scope_depth := length (ld_segs ctx)\<rparr>"

definition spn_toml_loader_pop_scope :: "spn_toml_loader_t \<Rightarrow> spn_toml_loader_t" where
  "spn_toml_loader_pop_scope ctx = ctx\<lparr>ld_scope_name := [], ld_scope_depth := 0\<rparr>"

text \<open>The decimal text of a number is the runtime's: the argument \<open>fmt\<close>.\<close>

fun codegen_path_segs :: "(nat \<Rightarrow> string) \<Rightarrow> bool \<Rightarrow> codegen_seg list \<Rightarrow> string" where
  "codegen_path_segs fmt first [] = []"
| "codegen_path_segs fmt first (SegKey key # segs) =
     (if first then key else ''.'' @ key) @ codegen_path_segs fmt False segs"
| "codegen_path_segs fmt first (SegIndex index # segs) =
     ''['' @ fmt index @ '']'' @ codegen_path_segs fmt False segs"

definition spn_codegen_path :: "(nat \<Rightarrow> string) \<Rightarrow> spn_toml_loader_t \<Rightarrow> string" where
  "spn_codegen_path fmt ctx = codegen_path_segs fmt True (drop (ld_scope_depth ctx) (ld_segs ctx))"

text \<open>What a caller gives of an issue: its code, its detail, its value and the choices.\<close>

record codegen_report =
  report_code :: codegen_err
  report_detail :: string
  report_value :: string
  report_choices :: "string list"

definition loader_record ::
    "(nat \<Rightarrow> string) \<Rightarrow> codegen_report \<Rightarrow> spn_toml_loader_t \<Rightarrow> spn_toml_loader_t" where
  "loader_record fmt issue ctx =
     ctx\<lparr>ld_issues := ld_issues ctx @
       [\<lparr>issue_code = report_code issue, issue_path = spn_codegen_path fmt ctx,
         issue_detail = report_detail issue, issue_value = report_value issue,
         issue_scope = ld_scope_name ctx, issue_choices = report_choices issue,
         issue_segs = ld_segs ctx\<rparr>]\<rparr>"

definition spn_toml_loader_issue_with ::
    "(nat \<Rightarrow> string) \<Rightarrow> string \<Rightarrow> codegen_report \<Rightarrow> spn_toml_loader_t \<Rightarrow> spn_toml_loader_t" where
  "spn_toml_loader_issue_with fmt key issue ctx =
     spn_toml_loader_pop (loader_record fmt issue (spn_toml_loader_push_key key ctx))"

definition spn_toml_loader_issue ::
    "(nat \<Rightarrow> string) \<Rightarrow> codegen_err \<Rightarrow> string \<Rightarrow> spn_toml_loader_t \<Rightarrow> spn_toml_loader_t" where
  "spn_toml_loader_issue fmt code key ctx =
     spn_toml_loader_issue_with fmt key
       \<lparr>report_code = code, report_detail = key, report_value = [], report_choices = []\<rparr> ctx"

definition spn_toml_loader_issue_at ::
    "(nat \<Rightarrow> string) \<Rightarrow> codegen_err \<Rightarrow> string \<Rightarrow> spn_toml_loader_t \<Rightarrow> spn_toml_loader_t" where
  "spn_toml_loader_issue_at fmt code detail ctx =
     loader_record fmt \<lparr>report_code = code, report_detail = detail, report_value = [], report_choices = []\<rparr> ctx"

fun spn_codegen_err_name :: "codegen_err \<Rightarrow> string" where
  "spn_codegen_err_name SPN_ERR_CODEGEN_EXPECTED_BOOL = ''expected_bool''"
| "spn_codegen_err_name SPN_ERR_CODEGEN_EXPECTED_STR = ''expected_str''"
| "spn_codegen_err_name SPN_ERR_CODEGEN_EXPECTED_INT = ''expected_int''"
| "spn_codegen_err_name SPN_ERR_CODEGEN_EXPECTED_OBJECT = ''expected_object''"
| "spn_codegen_err_name SPN_ERR_CODEGEN_MISSING_KEY = ''missing_key''"
| "spn_codegen_err_name SPN_ERR_CODEGEN_DUPLICATE_KEY = ''duplicate_key''"
| "spn_codegen_err_name SPN_ERR_CODEGEN_UNKNOWN_KEY = ''unknown_key''"
| "spn_codegen_err_name SPN_ERR_CODEGEN_PARSE = ''parse''"
| "spn_codegen_err_name SPN_ERR_CODEGEN_FILE_MISSING = ''file_missing''"
| "spn_codegen_err_name SPN_ERR_CODEGEN_INVALID = ''invalid''"
| "spn_codegen_err_name SPN_ERR_CODEGEN_ROOT_ONLY = ''root_only''"
| "spn_codegen_err_name SPN_ERR_CODEGEN_PATH = ''path''"
| "spn_codegen_err_name SPN_ERR_CODEGEN_UNROOTED = ''unrooted''"
| "spn_codegen_err_name SPN_ERR_CODEGEN_ABSOLUTE = ''absolute''"
| "spn_codegen_err_name SPN_ERR_CODEGEN_LINKER = ''unknown''"

section \<open>Facts\<close>

named_theorems loader_simps \<open>the issues after a step of the loader\<close>

lemma loader_issues_frame [loader_simps, simp]:
  "ld_issues (loader_push seg ctx) = ld_issues ctx"
  "ld_issues (spn_toml_loader_push_key key ctx) = ld_issues ctx"
  "ld_issues (spn_toml_loader_push_index index ctx) = ld_issues ctx"
  "ld_issues (spn_toml_loader_pop ctx) = ld_issues ctx"
  "ld_issues (spn_toml_loader_push_scope name ctx) = ld_issues ctx"
  "ld_issues (spn_toml_loader_pop_scope ctx) = ld_issues ctx"
  by (simp_all add: loader_push_def spn_toml_loader_push_key_def spn_toml_loader_push_index_def
      spn_toml_loader_pop_def spn_toml_loader_push_scope_def spn_toml_loader_pop_scope_def)

text \<open>An issue is never taken back: a context without issues had none before.\<close>

definition clean :: "spn_toml_loader_t \<Rightarrow> bool" where
  "clean ctx \<longleftrightarrow> ld_issues ctx = []"

lemma clean_frame [loader_simps, simp]:
  "clean (loader_push seg ctx) = clean ctx"
  "clean (spn_toml_loader_push_key key ctx) = clean ctx"
  "clean (spn_toml_loader_push_index index ctx) = clean ctx"
  "clean (spn_toml_loader_pop ctx) = clean ctx"
  "clean (spn_toml_loader_push_scope name ctx) = clean ctx"
  "clean (spn_toml_loader_pop_scope ctx) = clean ctx"
  by (simp_all add: clean_def)

lemma clean_issue [loader_simps, simp]:
  "clean (loader_record fmt issue ctx) = False"
  "clean (spn_toml_loader_issue_with fmt key issue ctx) = False"
  "clean (spn_toml_loader_issue fmt code key ctx) = False"
  "clean (spn_toml_loader_issue_at fmt code detail ctx) = False"
  by (simp_all add: clean_def loader_record_def spn_toml_loader_issue_with_def spn_toml_loader_issue_def
      spn_toml_loader_issue_at_def)

end
