(* ===== verification/Toolchain_Lower.thy ===== *)
theory Toolchain_Lower
  imports Toolchain_Props Loader
begin

text \<open>
  The lowering of a declared toolchain, \<open>source/core/codegen/toolchain.c\<close>: what was read from the
  configuration is checked and turned into a declaration of the catalog; what is wrong is recorded
  as an issue of the loader, and the lowering goes on.

  A value that may be absent is an option. The functions of the runtime are the record
  \<open>lower_lib\<close>; interning a text is the identity (\<open>Intern_Props\<close>). \<open>None\<close> is an unreachable branch.
\<close>

record lower_lib =
  lw_path :: path_lib
  lw_normalize :: "string \<Rightarrow> string"
  lw_split :: "string \<Rightarrow> char \<Rightarrow> string list"
  lw_fmt :: "nat \<Rightarrow> string"

record spn_cg_artifact_t =
  cga_url :: string
  cga_sha256 :: string

record spn_cg_toolchain_target_t =
  cgt_kind :: string
  cgt_arch :: "spn_arch_t option"
  cgt_os :: "spn_os_t option"
  cgt_abi :: "spn_abi_t option"
  cgt_sdk :: string
  cgt_sanitizers :: "spn_sanitizer_t list"

record spn_cg_toolchain_decl_t =
  cgd_name :: string
  cgd_version :: string
  cgd_compiler :: string
  cgd_linker :: "spn_ld_family_t option"
  cgd_link_args :: "string list"
  cgd_archiver :: string
  cgd_driver :: "spn_cc_driver_t option"
  cgd_cxx :: string
  cgd_detect :: "spn_toolchain_detect_t option"
  cgd_host :: "(string \<times> spn_cg_artifact_t) list"
  cgd_mirrors :: string
  cgd_target :: "spn_cg_toolchain_target_t list"

section \<open>Programs and kits\<close>

fun path_issue :: "spn_path_check_t \<Rightarrow> codegen_err" where
  "path_issue SPN_PATH_UNROOTED = SPN_ERR_CODEGEN_UNROOTED"
| "path_issue SPN_PATH_ABSOLUTE = SPN_ERR_CODEGEN_ABSOLUTE"
| "path_issue SPN_PATH_MALFORMED = SPN_ERR_CODEGEN_PATH"

definition lower_program ::
    "lower_lib \<Rightarrow> string \<Rightarrow> spn_toolchain_source_t \<Rightarrow> spn_path_root_t \<Rightarrow> string \<Rightarrow> spn_toml_loader_t \<Rightarrow>
     spn_arg_t \<times> spn_toml_loader_t" where
  "lower_program lib key source base program ctx =
    (let program = lw_normalize lib program
     in case spn_toolchain_program (lw_path lib) source base program of
          Inr arg \<Rightarrow> (arg, ctx)
        | Inl check \<Rightarrow>
            (arg_zero, spn_toml_loader_pop (spn_toml_loader_issue_at (lw_fmt lib) (path_issue check) program
               (spn_toml_loader_push_key key ctx))))"

definition lower_sdk_path ::
    "lower_lib \<Rightarrow> spn_toolchain_source_t \<Rightarrow> spn_path_root_t \<Rightarrow> string \<Rightarrow> spn_toml_loader_t \<Rightarrow>
     spn_arg_t \<times> spn_toml_loader_t" where
  "lower_sdk_path lib source base sdk ctx =
    (let sdk = lw_normalize lib sdk
     in case spn_toolchain_sdk_path (lw_path lib) source base sdk of
          Inr arg \<Rightarrow> (arg, ctx)
        | Inl check \<Rightarrow>
            (arg_zero, spn_toml_loader_pop (spn_toml_loader_issue_at (lw_fmt lib) (path_issue check) sdk
               (spn_toml_loader_push_key ''sdk'' ctx))))"

definition launcher_zero :: spn_toolchain_launcher_t where
  "launcher_zero = \<lparr>launcher_program = arg_zero, launcher_args = []\<rparr>"

definition lower_launcher ::
    "lower_lib \<Rightarrow> string \<Rightarrow> spn_toolchain_source_t \<Rightarrow> spn_path_root_t \<Rightarrow> string \<Rightarrow> spn_toml_loader_t \<Rightarrow>
     spn_toolchain_launcher_t \<times> spn_toml_loader_t" where
  "lower_launcher lib key source base str ctx =
    (if str = [] then (launcher_zero, ctx)
     else case dropWhile (\<lambda>part. part = []) (lw_split lib str (CHR '' '')) of
       [] \<Rightarrow> (launcher_zero, ctx)
     | part # parts \<Rightarrow>
        (let (program, ctx) = lower_program lib key source base part ctx
         in (\<lparr>launcher_program = program, launcher_args = filter (\<lambda>part. part \<noteq> []) parts\<rparr>, ctx)))"

section \<open>Targets\<close>

definition sanitizable :: "spn_triple_t \<Rightarrow> bool" where
  "sanitizable triple \<longleftrightarrow> tr_abi triple \<noteq> SPN_ABI_BARE \<and> tr_abi triple \<noteq> SPN_ABI_ELF"

definition lower_target_fields ::
    "lower_lib \<Rightarrow> spn_toolchain_source_t \<Rightarrow> spn_path_root_t \<Rightarrow> spn_cg_toolchain_target_t \<Rightarrow>
     spn_toolchain_target_t \<Rightarrow> spn_toml_loader_t \<Rightarrow> (spn_toolchain_target_t \<times> spn_toml_loader_t) option" where
  "lower_target_fields lib source base cg target ctx =
    (let (target, ctx) =
       (if cgt_sanitizers cg = [] then (target, ctx)
        else if sanitizable (tt_triple target)
        then (target\<lparr>tt_sanitizers := spn_sanitizer_set_from_list (cgt_sanitizers cg)\<rparr>, ctx)
        else (target, spn_toml_loader_issue (lw_fmt lib) SPN_ERR_CODEGEN_INVALID ''sanitizers'' ctx))
     in if cgt_sdk cg = [] then Some (target, ctx)
        else do {
          valid \<leftarrow> (if source = SPN_TOOLCHAIN_SOURCE_DETECTED then Some False
            else map_option (\<lambda>kind. kind \<noteq> SPN_SDK_NONE) (spn_sdk_kind (tt_triple target)));
          Some (if valid
            then (let (sdk, ctx) = lower_sdk_path lib source base (cgt_sdk cg) ctx
                  in (target\<lparr>tt_sdk := sdk\<rparr>, ctx))
            else (target, spn_toml_loader_issue (lw_fmt lib) SPN_ERR_CODEGEN_INVALID ''sdk'' ctx))
        })"

definition lower_triple :: "spn_cg_toolchain_target_t \<Rightarrow> spn_triple_t" where
  "lower_triple target =
     \<lparr>tr_arch = (case cgt_arch target of None \<Rightarrow> SPN_ARCH_NONE | Some arch \<Rightarrow> arch),
      tr_os = (case cgt_os target of None \<Rightarrow> SPN_OS_NONE | Some os \<Rightarrow> os),
      tr_abi = (case cgt_abi target of None \<Rightarrow> SPN_ABI_NONE | Some abi \<Rightarrow> abi)\<rparr>"

fun issue_triple_entry ::
    "lower_lib \<Rightarrow> spn_triple_entry_t \<Rightarrow> spn_toml_loader_t \<Rightarrow> spn_toml_loader_t option" where
  "issue_triple_entry lib SPN_TRIPLE_ENTRY_MISSING_ARCH ctx =
     Some (spn_toml_loader_issue (lw_fmt lib) SPN_ERR_CODEGEN_MISSING_KEY ''arch'' ctx)"
| "issue_triple_entry lib SPN_TRIPLE_ENTRY_MISSING_OS ctx =
     Some (spn_toml_loader_issue (lw_fmt lib) SPN_ERR_CODEGEN_MISSING_KEY ''os'' ctx)"
| "issue_triple_entry lib SPN_TRIPLE_ENTRY_MISSING_ABI ctx =
     Some (spn_toml_loader_issue (lw_fmt lib) SPN_ERR_CODEGEN_MISSING_KEY ''abi'' ctx)"
| "issue_triple_entry lib SPN_TRIPLE_ENTRY_FOREIGN_ARCH ctx =
     Some (spn_toml_loader_issue (lw_fmt lib) SPN_ERR_CODEGEN_INVALID ''arch'' ctx)"
| "issue_triple_entry lib SPN_TRIPLE_ENTRY_FOREIGN_ABI ctx =
     Some (spn_toml_loader_issue (lw_fmt lib) SPN_ERR_CODEGEN_INVALID ''abi'' ctx)"
| "issue_triple_entry lib SPN_TRIPLE_ENTRY_OK ctx = None"

fun accepted_linkers_loop :: "spn_cc_driver_t \<Rightarrow> spn_ld_family_t list \<Rightarrow> string list option" where
  "accepted_linkers_loop driver [] = Some []"
| "accepted_linkers_loop driver (family # families) = do {
     accepts \<leftarrow> spn_ld_accepts driver family;
     names \<leftarrow> accepted_linkers_loop driver families;
     Some (if accepts then spn_ld_family_to_str family # names else names)
   }"

definition accepted_linkers :: "spn_cc_driver_t \<Rightarrow> string list option" where
  "accepted_linkers driver =
     accepted_linkers_loop driver
       [SPN_LD_FAMILY_GNU, SPN_LD_FAMILY_LLD, SPN_LD_FAMILY_LD64, SPN_LD_FAMILY_MSVC]"

definition lower_linker ::
    "lower_lib \<Rightarrow> spn_ld_family_t \<Rightarrow> spn_cc_driver_t \<Rightarrow> spn_toml_loader_t \<Rightarrow>
     (bool \<times> spn_toml_loader_t) option" where
  "lower_linker lib declared_family driver ctx = do {
     accepts \<leftarrow> spn_ld_accepts driver declared_family;
     if accepts then Some (declared_family = SPN_LD_FAMILY_LLD, ctx)
     else do {
       choices \<leftarrow> accepted_linkers driver;
       Some (False, spn_toml_loader_issue_with (lw_fmt lib) ''linker''
         \<lparr>report_code = SPN_ERR_CODEGEN_LINKER, report_detail = spn_cc_driver_to_str driver,
          report_value = spn_ld_family_to_str declared_family, report_choices = choices\<rparr> ctx)
     }
   }"

definition target_has_fields :: "spn_cg_toolchain_target_t \<Rightarrow> bool" where
  "target_has_fields cg \<longleftrightarrow>
     cgt_arch cg \<noteq> None \<or> cgt_os cg \<noteq> None \<or> cgt_abi cg \<noteq> None \<or> cgt_sdk cg \<noteq> [] \<or> cgt_sanitizers cg \<noteq> []"

definition targeted :: "spn_toolchain_target_t list \<Rightarrow> spn_triple_t \<Rightarrow> bool" where
  "targeted targets triple \<longleftrightarrow> list_ex (\<lambda>t. spn_triple_equal (tt_triple t) triple) targets"

text \<open>One target of the loop; the state is the targets so far, whether the host has its row, and the
  loader.\<close>

type_synonym lower_state = "spn_toolchain_target_t list \<times> bool \<times> spn_toml_loader_t"

definition lower_host_row ::
    "lower_lib \<Rightarrow> nat \<Rightarrow> spn_cg_toolchain_target_t \<Rightarrow> lower_state \<Rightarrow> lower_state" where
  "lower_host_row lib it cg st =
    (case st of (targets, host_row, ctx) \<Rightarrow>
      (let ctx = spn_toml_loader_push_index it ctx;
           invalid = spn_toml_loader_pop (spn_toml_loader_issue (lw_fmt lib) SPN_ERR_CODEGEN_INVALID ''kind'' ctx)
       in if cgt_kind cg \<noteq> ''host'' then (targets, host_row, invalid)
          else if target_has_fields cg then (targets, host_row, invalid)
          else if host_row then
            (targets, host_row,
             spn_toml_loader_pop (spn_toml_loader_issue (lw_fmt lib) SPN_ERR_CODEGEN_DUPLICATE_KEY ''kind'' ctx))
          else (targets, True, spn_toml_loader_pop ctx)))"

definition lower_row ::
    "lower_lib \<Rightarrow> spn_cc_driver_t \<Rightarrow> spn_toolchain_source_t \<Rightarrow> spn_path_root_t \<Rightarrow> nat \<Rightarrow>
     spn_cg_toolchain_target_t \<Rightarrow> lower_state \<Rightarrow> lower_state option" where
  "lower_row lib driver source base it cg st =
    (case st of (targets, host_row, ctx) \<Rightarrow>
      (case spn_triple_entry (lower_triple cg) of (entry, triple) \<Rightarrow>
        if entry \<noteq> SPN_TRIPLE_ENTRY_OK then do {
          ctx \<leftarrow> issue_triple_entry lib entry (spn_toml_loader_push_index it ctx);
          Some (targets, host_row, spn_toml_loader_pop ctx)
        }
        else do {
          dialect \<leftarrow> spn_ld_dialect triple;
          composes \<leftarrow> spn_toolchain_driver_composes driver dialect;
          name \<leftarrow> spn_triple_to_str triple;
          (let ctx = spn_toml_loader_push_index it ctx
           in if \<not> composes then
                Some (targets, host_row,
                  spn_toml_loader_pop (spn_toml_loader_issue_at (lw_fmt lib) SPN_ERR_CODEGEN_INVALID name ctx))
              else
                (let ctx = (if targeted targets triple
                       then spn_toml_loader_issue_at (lw_fmt lib) SPN_ERR_CODEGEN_DUPLICATE_KEY name ctx else ctx)
                 in do {
                   lowered \<leftarrow> lower_target_fields lib source base cg
                     \<lparr>tt_triple = triple, tt_sdk = arg_zero, tt_sanitizers = 0\<rparr> ctx;
                   Some (targets @ [fst lowered], host_row, spn_toml_loader_pop (snd lowered))
                 }))
        }))"

fun lower_targets_loop ::
    "lower_lib \<Rightarrow> spn_cc_driver_t \<Rightarrow> spn_toolchain_source_t \<Rightarrow> spn_path_root_t \<Rightarrow> nat \<Rightarrow>
     spn_cg_toolchain_target_t list \<Rightarrow> lower_state \<Rightarrow> lower_state option" where
  "lower_targets_loop lib driver source base it [] st = Some st"
| "lower_targets_loop lib driver source base it (cg # cgs) st = do {
     st \<leftarrow> (if cgt_kind cg \<noteq> [] then Some (lower_host_row lib it cg st)
           else lower_row lib driver source base it cg st);
     lower_targets_loop lib driver source base (Suc it) cgs st
   }"

definition lower_toolchain_targets ::
    "lower_lib \<Rightarrow> spn_cc_driver_t \<Rightarrow> spn_toolchain_source_t \<Rightarrow> spn_path_root_t \<Rightarrow>
     spn_cg_toolchain_target_t list \<Rightarrow> bool \<Rightarrow> spn_toml_loader_t \<Rightarrow> lower_state option" where
  "lower_toolchain_targets lib driver source base cgs host_row ctx = do {
     st \<leftarrow> lower_targets_loop lib driver source base 0 cgs ([], host_row, spn_toml_loader_push_key ''target'' ctx);
     (case st of (targets, host_row, ctx) \<Rightarrow> Some (targets, host_row, spn_toml_loader_pop ctx))
   }"

section \<open>Hosts\<close>

definition lower_host ::
    "lower_lib \<Rightarrow> string \<Rightarrow> bool \<Rightarrow> string \<times> spn_cg_artifact_t \<Rightarrow>
     spn_toolchain_host_t list \<times> spn_toml_loader_t \<Rightarrow> spn_toolchain_host_t list \<times> spn_toml_loader_t" where
  "lower_host lib mirrors distributed cell st =
    (case st of (hosts, ctx) \<Rightarrow> case cell of (key, artifact) \<Rightarrow>
      (let url = cga_url artifact \<noteq> [];
           sha = cga_sha256 artifact \<noteq> [];
           ctx = spn_toml_loader_push_key key ctx;
           ctx = (if url \<and> \<not> sha
                  then spn_toml_loader_issue (lw_fmt lib) SPN_ERR_CODEGEN_MISSING_KEY ''sha256'' ctx else ctx);
           ctx = (if \<not> url \<and> (sha \<or> distributed)
                  then spn_toml_loader_issue (lw_fmt lib) SPN_ERR_CODEGEN_MISSING_KEY ''url'' ctx else ctx)
       in case spn_triple_parse_host key of
            None \<Rightarrow> (hosts, spn_toml_loader_pop (spn_toml_loader_issue_at (lw_fmt lib) SPN_ERR_CODEGEN_INVALID key ctx))
          | Some host \<Rightarrow>
              (hosts @ [\<lparr>th_triple = host,
                 th_artifact = \<lparr>artifact_url = cga_url artifact, artifact_sha256 = cga_sha256 artifact,
                   artifact_mirror_list = mirrors\<rparr>\<rparr>], spn_toml_loader_pop ctx)))"

definition lower_hosts ::
    "lower_lib \<Rightarrow> spn_cg_toolchain_decl_t \<Rightarrow> spn_toml_loader_t \<Rightarrow>
     spn_toolchain_origin_t \<times> spn_toolchain_source_t \<times> spn_toml_loader_t" where
  "lower_hosts lib decl ctx =
    (let distributed = list_ex (\<lambda>(key, artifact). cga_url artifact \<noteq> []) (cgd_host decl);
         (hosts, ctx) = fold (lower_host lib (cgd_mirrors decl) distributed) (cgd_host decl)
           ([], spn_toml_loader_push_key ''host'' ctx);
         ctx = spn_toml_loader_pop ctx
     in if distributed then (OriginDistribution hosts, SPN_TOOLCHAIN_SOURCE_DISTRIBUTION, ctx)
        else (OriginLocal hosts, SPN_TOOLCHAIN_SOURCE_LOCAL, ctx))"

section \<open>A toolchain\<close>

definition issue_if ::
    "lower_lib \<Rightarrow> bool \<Rightarrow> codegen_err \<Rightarrow> string \<Rightarrow> spn_toml_loader_t \<Rightarrow> spn_toml_loader_t" where
  "issue_if lib wrong code key ctx = (if wrong then spn_toml_loader_issue (lw_fmt lib) code key ctx else ctx)"

definition decl_driver :: "spn_cg_toolchain_decl_t \<Rightarrow> spn_cc_driver_t" where
  "decl_driver decl = (case cgd_driver decl of None \<Rightarrow> SPN_CC_DRIVER_NONE | Some driver \<Rightarrow> driver)"

text \<open>The checks at the start.\<close>

definition lower_checks ::
    "lower_lib \<Rightarrow> spn_cg_toolchain_decl_t \<Rightarrow> spn_toml_loader_t \<Rightarrow> spn_toml_loader_t" where
  "lower_checks lib decl ctx =
    (let ctx = (if cgd_name decl = []
           then spn_toml_loader_issue (lw_fmt lib) SPN_ERR_CODEGEN_MISSING_KEY ''name'' ctx
           else spn_toml_loader_push_scope (cgd_name decl) ctx);
         ctx = issue_if lib (spn_toolchain_ref_from_str (cgd_name decl) = RefAuto) SPN_ERR_CODEGEN_INVALID ''name'' ctx;
         ctx = issue_if lib (cgd_compiler decl = []) SPN_ERR_CODEGEN_MISSING_KEY ''compiler'' ctx;
         ctx = issue_if lib (cgd_archiver decl = []) SPN_ERR_CODEGEN_MISSING_KEY ''archiver'' ctx
     in issue_if lib (decl_driver decl = SPN_CC_DRIVER_NONE) SPN_ERR_CODEGEN_MISSING_KEY ''driver'' ctx)"

definition lower_origin ::
    "lower_lib \<Rightarrow> spn_cg_toolchain_decl_t \<Rightarrow> spn_toml_loader_t \<Rightarrow>
     spn_toolchain_origin_t \<times> spn_toolchain_source_t \<times> spn_toml_loader_t" where
  "lower_origin lib decl ctx =
    (case cgd_detect decl of
       None \<Rightarrow> lower_hosts lib decl ctx
     | Some detect \<Rightarrow>
        (let ctx = issue_if lib (detect = SPN_TOOLCHAIN_DETECT_NONE) SPN_ERR_CODEGEN_INVALID ''detect'' ctx;
             ctx = issue_if lib (cgd_host decl \<noteq> []) SPN_ERR_CODEGEN_INVALID ''host'' ctx
         in (OriginDetected detect, SPN_TOOLCHAIN_SOURCE_DETECTED, ctx)))"

definition lower_rows ::
    "lower_lib \<Rightarrow> spn_toolchain_source_t \<Rightarrow> spn_path_root_t \<Rightarrow> spn_cg_toolchain_decl_t \<Rightarrow>
     spn_toml_loader_t \<Rightarrow> (bool \<times> lower_state) option" where
  "lower_rows lib source base decl ctx =
    (if decl_driver decl = SPN_CC_DRIVER_NONE then Some (False, [], cgd_target decl = [], ctx)
     else do {
       linked \<leftarrow> lower_linker lib (case cgd_linker decl of None \<Rightarrow> SPN_LD_FAMILY_NONE | Some family \<Rightarrow> family)
         (decl_driver decl) ctx;
       st \<leftarrow> lower_toolchain_targets lib (decl_driver decl) source base (cgd_target decl) (cgd_target decl = []) (snd linked);
       Some (fst linked, st)
     })"

definition spn_toolchain_lower ::
    "lower_lib \<Rightarrow> nat \<Rightarrow> spn_path_root_t \<Rightarrow> spn_cg_toolchain_decl_t \<Rightarrow> spn_toml_loader_t \<Rightarrow>
     (spn_toolchain_decl_t \<times> spn_toml_loader_t) option" where
  "spn_toolchain_lower lib at base decl ctx =
    (let ctx = spn_toml_loader_push_index at (spn_toml_loader_push_key ''toolchain'' ctx);
         ctx = lower_checks lib decl ctx;
         (origin, source, ctx) = lower_origin lib decl ctx;
         (compiler, ctx) = lower_launcher lib ''compiler'' source base (cgd_compiler decl) ctx;
         (cxx, ctx) = lower_launcher lib ''cxx'' source base (cgd_cxx decl) ctx;
         (archiver, ctx) = lower_launcher lib ''archiver'' source base (cgd_archiver decl) ctx
     in case lower_rows lib source base decl ctx of
          None \<Rightarrow> None
        | Some (lld, targets, host_row, ctx) \<Rightarrow>
            Some (\<lparr>td_name = cgd_name decl, td_version = cgd_version decl, td_driver = decl_driver decl,
                   td_compiler = compiler, td_cxx = cxx, td_archiver = archiver, td_lld = lld,
                   td_link_args = cgd_link_args decl, td_origin = origin, td_targets = targets,
                   td_host_row = host_row\<rparr>,
                  spn_toml_loader_pop (spn_toml_loader_pop (spn_toml_loader_pop_scope ctx))))"

definition toolchain_named :: "spn_toolchain_decl_t list \<Rightarrow> string \<Rightarrow> bool" where
  "toolchain_named decls name \<longleftrightarrow> list_ex (\<lambda>d. td_name d = name) decls"

definition issue_duplicate ::
    "lower_lib \<Rightarrow> nat \<Rightarrow> string \<Rightarrow> spn_toml_loader_t \<Rightarrow> spn_toml_loader_t" where
  "issue_duplicate lib it name ctx =
    (let ctx = spn_toml_loader_push_index it (spn_toml_loader_push_key ''toolchain'' ctx);
         ctx = spn_toml_loader_push_key ''name'' (spn_toml_loader_push_scope name ctx);
         ctx = spn_toml_loader_issue_at (lw_fmt lib) SPN_ERR_CODEGEN_DUPLICATE_KEY name ctx
     in spn_toml_loader_pop (spn_toml_loader_pop (spn_toml_loader_pop_scope (spn_toml_loader_pop ctx))))"

fun lower_list_loop ::
    "lower_lib \<Rightarrow> spn_path_root_t \<Rightarrow> nat \<Rightarrow> spn_cg_toolchain_decl_t list \<Rightarrow>
     spn_toolchain_decl_t list \<Rightarrow> spn_toml_loader_t \<Rightarrow>
     (spn_toolchain_decl_t list \<times> spn_toml_loader_t) option" where
  "lower_list_loop lib base it [] decls ctx = Some (decls, ctx)"
| "lower_list_loop lib base it (cg # cgs) decls ctx =
    (case spn_toolchain_lower lib it base cg ctx of
       None \<Rightarrow> None
     | Some (decl, ctx) \<Rightarrow>
        (let ctx = (if td_name decl \<noteq> [] \<and> toolchain_named decls (td_name decl)
                    then issue_duplicate lib it (td_name decl) ctx else ctx)
         in lower_list_loop lib base (Suc it) cgs (decls @ [decl]) ctx))"

definition spn_toolchains_lower_list ::
    "lower_lib \<Rightarrow> spn_path_root_t \<Rightarrow> spn_cg_toolchain_decl_t list \<Rightarrow> spn_toml_loader_t \<Rightarrow>
     (spn_toolchain_decl_t list \<times> spn_toml_loader_t) option" where
  "spn_toolchains_lower_list lib base cgs ctx = lower_list_loop lib base 0 cgs [] ctx"

end
