(* ===== verification/Toolchain_Lower_Facts.thy ===== *)
theory Toolchain_Lower_Facts
  imports Toolchain_Lower
begin

text \<open>
  A list of declarations that is lowered without an issue can be bound: the checks of the loader are
  exactly what the catalog relies on.
\<close>

definition targets_ok :: "spn_toolchain_target_t list \<Rightarrow> bool" where
  "targets_ok targets \<longleftrightarrow> list_all target_ok targets \<and> distinct (map tt_triple targets)"

text \<open>A step that ends without an issue started without one, and kept the targets in order.\<close>

fun lower_keeps :: "lower_state \<Rightarrow> lower_state \<Rightarrow> bool" where
  "lower_keeps (targets, host_row, ctx) (targets', host_row', ctx') \<longleftrightarrow>
     (clean ctx' \<longrightarrow> clean ctx \<and> (targets_ok targets \<longrightarrow> targets_ok targets'))"

lemma lower_keeps_refl [simp]: "lower_keeps st st"
  by (cases st) simp

lemma lower_keeps_trans: "lower_keeps a b \<Longrightarrow> lower_keeps b c \<Longrightarrow> lower_keeps a c"
  by (cases a; cases b; cases c) auto

lemma lower_program_clean: "clean (snd (lower_program lib key source base program ctx)) \<Longrightarrow> clean ctx"
  by (auto simp: lower_program_def Let_def split: sum.splits)

lemma lower_sdk_path_clean: "clean (snd (lower_sdk_path lib source base sdk ctx)) \<Longrightarrow> clean ctx"
  by (auto simp: lower_sdk_path_def Let_def split: sum.splits)

lemma lower_launcher_clean: "clean (snd (lower_launcher lib key source base str ctx)) \<Longrightarrow> clean ctx"
  by (auto simp: lower_launcher_def split_beta split: if_splits list.splits dest: lower_program_clean)

lemma entry_supported:
  assumes "spn_triple_entry partial = (SPN_TRIPLE_ENTRY_OK, full)"
  shows "triple_supported full" "tr_abi full \<noteq> SPN_ABI_COUNT"
proof -
  have "triple_supported full \<and> tr_abi full \<noteq> SPN_ABI_COUNT"
    using assms by (cases "tr_os partial"; cases "tr_abi partial")
      (auto simp: spn_triple_entry_def triple_supported_def os_has_abi_def spn_os_abis_def spn_os_completions_def
        split: if_splits)
  then show "triple_supported full" "tr_abi full \<noteq> SPN_ABI_COUNT" by auto
qed

lemma triple_text_total: "tr_abi t \<noteq> SPN_ABI_COUNT \<Longrightarrow> \<exists>s. spn_triple_to_str t = Some s"
  by (cases "tr_abi t") (simp_all add: spn_triple_to_str_def Let_def)

lemma dialect_total: "tr_os t \<noteq> SPN_OS_NONE \<Longrightarrow> \<exists>d. spn_ld_dialect t = Some d"
  by (cases "tr_os t"; cases "tr_abi t = SPN_ABI_MSVC") (simp_all add: spn_ld_dialect_def)

lemma composes_total: "driver \<noteq> SPN_CC_DRIVER_NONE \<Longrightarrow> \<exists>b. spn_toolchain_driver_composes driver d = Some b"
  unfolding not_None_eq [symmetric] by (cases driver) simp_all

lemma accepts_total: "driver \<noteq> SPN_CC_DRIVER_NONE \<Longrightarrow> \<exists>b. spn_ld_accepts driver family = Some b"
  unfolding not_None_eq [symmetric] by (cases driver; cases family) simp_all

lemma accepted_linkers_total: "driver \<noteq> SPN_CC_DRIVER_NONE \<Longrightarrow> \<exists>names. accepted_linkers driver = Some names"
proof -
  assume driver: "driver \<noteq> SPN_CC_DRIVER_NONE"
  have "\<exists>names. accepted_linkers_loop driver families = Some names" for families
    using accepts_total [OF driver] 
  proof (induction families)
    case (Cons family families)
    obtain b where "spn_ld_accepts driver family = Some b" using accepts_total [OF driver] by blast
    then show ?case using Cons by auto
  qed simp
  then show ?thesis unfolding accepted_linkers_def by blast
qed

lemma lower_target_fields_ok:
  assumes "triple_supported (tt_triple target)" "spn_arg_empty (tt_sdk target)"
  shows "\<exists>target' ctx'. lower_target_fields lib source base cg target ctx = Some (target', ctx') \<and>
    tt_triple target' = tt_triple target \<and> target_ok target' \<and> (clean ctx' \<longrightarrow> clean ctx)"
proof -
  let ?t = "tt_triple target"
  obtain kind where kind: "spn_sdk_kind ?t = Some kind"
    using sdk_kind_total [OF supported_os [OF assms(1)]] by blast
  obtain target1 ctx1 where first:
      "(if cgt_sanitizers cg = [] then (target, ctx)
        else if sanitizable ?t
        then (target\<lparr>tt_sanitizers := spn_sanitizer_set_from_list (cgt_sanitizers cg)\<rparr>, ctx)
        else (target, spn_toml_loader_issue (lw_fmt lib) SPN_ERR_CODEGEN_INVALID ''sanitizers'' ctx)) = (target1, ctx1)"
    by fastforce
  then have one: "tt_triple target1 = ?t" "tt_sdk target1 = tt_sdk target" "clean ctx1 \<longrightarrow> clean ctx"
    by (auto split: if_splits)
  have kept: "target_ok target1" using one assms by (simp add: target_ok_def)
  show ?thesis
  proof (cases "cgt_sdk cg = []")
    case True
    then show ?thesis using first one kept by (simp add: lower_target_fields_def)
  next
    case False
    obtain sdk ctx2 where sdk: "lower_sdk_path lib source base (cgt_sdk cg) ctx1 = (sdk, ctx2)" by fastforce
    then have "clean ctx2 \<longrightarrow> clean ctx1" using lower_sdk_path_clean [of lib source base "cgt_sdk cg" ctx1] by simp
    then show ?thesis
      using False first one kept kind sdk
      by (cases "source = SPN_TOOLCHAIN_SOURCE_DETECTED"; cases "kind = SPN_SDK_NONE")
        (auto simp: lower_target_fields_def target_ok_def)
  qed
qed

lemma lower_row_ok:
  assumes "driver \<noteq> SPN_CC_DRIVER_NONE"
  shows "\<exists>st'. lower_row lib driver source base it cg st = Some st' \<and> lower_keeps st st'"
proof -
  obtain targets host_row ctx where st: "st = (targets, host_row, ctx)" by (cases st)
  obtain entry triple where entry: "spn_triple_entry (lower_triple cg) = (entry, triple)" by fastforce
  show ?thesis
  proof (cases "entry = SPN_TRIPLE_ENTRY_OK")
    case False
    then show ?thesis by (cases entry) (simp_all add: st lower_row_def entry)
  next
    case True
    note supported = entry_supported [OF entry [unfolded True]]
    obtain dialect where dialect: "spn_ld_dialect triple = Some dialect"
      using dialect_total [OF supported_os [OF supported(1)]] by blast
    obtain composes where composes: "spn_toolchain_driver_composes driver dialect = Some composes"
      using composes_total [OF assms] by blast
    obtain name where name: "spn_triple_to_str triple = Some name" using triple_text_total [OF supported(2)] by blast
    let ?ctx = "spn_toml_loader_push_index it ctx"
    let ?dup = "if targeted targets triple
       then spn_toml_loader_issue_at (lw_fmt lib) SPN_ERR_CODEGEN_DUPLICATE_KEY name ?ctx else ?ctx"
    obtain target ctx' where fields: "lower_target_fields lib source base cg
           \<lparr>tt_triple = triple, tt_sdk = arg_zero, tt_sanitizers = 0\<rparr> ?dup = Some (target, ctx')"
        "tt_triple target = triple" "target_ok target" "clean ctx' \<longrightarrow> clean ?dup"
      using lower_target_fields_ok [of "\<lparr>tt_triple = triple, tt_sdk = arg_zero, tt_sanitizers = 0\<rparr>" lib source base cg ?dup]
        supported(1) by (auto simp: arg_zero_def spn_arg_empty_def spn_path_empty_def path_zero_def)
    have fresh: "clean ?dup \<Longrightarrow> triple \<notin> tt_triple ` set targets \<and> clean ctx"
      by (auto simp: targeted_def list_ex_iff split: if_splits)
    show ?thesis
    proof (cases composes)
      case False
      then show ?thesis using True by (simp add: st lower_row_def entry dialect composes name)
    next
      case composing: True
      have "lower_row lib driver source base it cg st = Some (targets @ [target], host_row, spn_toml_loader_pop ctx')"
        using True composing fields(1) by (simp add: st lower_row_def entry dialect composes name)
      moreover have "lower_keeps st (targets @ [target], host_row, spn_toml_loader_pop ctx')"
        using fields(2-4) fresh by (auto simp: st targets_ok_def)
      ultimately show ?thesis by blast
    qed
  qed
qed

lemma lower_host_row_ok: "lower_keeps st (lower_host_row lib it cg st)"
  by (cases st) (simp add: lower_host_row_def Let_def)

lemma lower_targets_loop_ok:
  assumes "driver \<noteq> SPN_CC_DRIVER_NONE"
  shows "\<exists>st'. lower_targets_loop lib driver source base it cgs st = Some st' \<and> lower_keeps st st'"
proof (induction cgs arbitrary: it st)
  case (Cons cg cgs)
  obtain st1 where step: "(if cgt_kind cg \<noteq> [] then Some (lower_host_row lib it cg st)
       else lower_row lib driver source base it cg st) = Some st1" "lower_keeps st st1"
    using lower_row_ok [OF assms, of lib source base it cg st] lower_host_row_ok [of st lib it cg]
    by (cases "cgt_kind cg = []") (simp, blast, simp)
  obtain st2 where rest: "lower_targets_loop lib driver source base (Suc it) cgs st1 = Some st2" "lower_keeps st1 st2"
    using Cons by blast
  show ?case using step(1) rest(1) lower_keeps_trans [OF step(2) rest(2)] by simp
qed simp

lemma lower_host_clean: "clean (snd (lower_host lib mirrors distributed cell st)) \<Longrightarrow> clean (snd st)"
  by (cases st; cases cell) (auto simp: lower_host_def Let_def split: option.splits if_splits)

lemma lower_hosts_fold_clean:
  "clean (snd (fold (lower_host lib mirrors distributed) cells st)) \<Longrightarrow> clean (snd st)"
proof (induction cells arbitrary: st)
  case (Cons cell cells)
  have "clean (snd (lower_host lib mirrors distributed cell st))" by (rule Cons.IH) (use Cons.prems in simp)
  then show ?case by (rule lower_host_clean)
qed simp

lemma lower_hosts_ok:
  assumes "lower_hosts lib decl ctx = (origin, source, ctx')"
  shows "origin \<noteq> OriginDetected SPN_TOOLCHAIN_DETECT_NONE" "clean ctx' \<Longrightarrow> clean ctx"
  using assms lower_hosts_fold_clean
      [of lib "cgd_mirrors decl" "list_ex (\<lambda>(key, artifact). cga_url artifact \<noteq> []) (cgd_host decl)" "cgd_host decl"
        "([], spn_toml_loader_push_key ''host'' ctx)"]
  by (auto simp: lower_hosts_def Let_def split: prod.splits if_splits)

lemma issue_if_clean [simp]: "clean (issue_if lib wrong code key ctx) \<longleftrightarrow> \<not> wrong \<and> clean ctx"
  by (simp add: issue_if_def)

lemma lower_origin_ok:
  assumes "lower_origin lib decl ctx = (origin, source, ctx')" "clean ctx'"
  shows "origin \<noteq> OriginDetected SPN_TOOLCHAIN_DETECT_NONE" "clean ctx"
  using assms lower_hosts_ok [of lib decl ctx origin source ctx']
  by (auto simp: lower_origin_def Let_def split: option.splits)

lemma lower_checks_clean:
  "clean (lower_checks lib decl ctx) \<Longrightarrow> clean ctx \<and> cgd_name decl \<noteq> [] \<and> decl_driver decl \<noteq> SPN_CC_DRIVER_NONE"
  by (auto simp: lower_checks_def Let_def split: if_splits)

lemma lower_linker_ok:
  assumes "driver \<noteq> SPN_CC_DRIVER_NONE"
  shows "\<exists>lld ctx'. lower_linker lib family driver ctx = Some (lld, ctx') \<and> (clean ctx' \<longrightarrow> clean ctx)"
proof -
  obtain accepts where accepts: "spn_ld_accepts driver family = Some accepts" using accepts_total [OF assms] by blast
  obtain choices where "accepted_linkers driver = Some choices" using accepted_linkers_total [OF assms] by blast
  then show ?thesis using accepts by (cases accepts) (auto simp: lower_linker_def intro: exI [of _ False])
qed

lemma lower_rows_ok:
  "\<exists>lld targets host_row ctx'. lower_rows lib source base decl ctx = Some (lld, targets, host_row, ctx') \<and>
     (clean ctx' \<longrightarrow> clean ctx \<and> targets_ok targets)"
proof (cases "decl_driver decl = SPN_CC_DRIVER_NONE")
  case True
  then show ?thesis by (auto simp: lower_rows_def targets_ok_def intro: exI [of _ False])
next
  case False
  obtain lld ctx1 where linker: "lower_linker lib (case cgd_linker decl of None \<Rightarrow> SPN_LD_FAMILY_NONE | Some family \<Rightarrow> family)
       (decl_driver decl) ctx = Some (lld, ctx1)" "clean ctx1 \<longrightarrow> clean ctx"
    using lower_linker_ok [OF False] by blast
  obtain targets host_row ctx2 where targets: "lower_targets_loop lib (decl_driver decl) source base 0 (cgd_target decl)
       ([], cgd_target decl = [], spn_toml_loader_push_key ''target'' ctx1) = Some (targets, host_row, ctx2)"
       "lower_keeps ([], cgd_target decl = [], spn_toml_loader_push_key ''target'' ctx1) (targets, host_row, ctx2)"
    using lower_targets_loop_ok [OF False, of lib source base 0 "cgd_target decl"
        "([], cgd_target decl = [], spn_toml_loader_push_key ''target'' ctx1)"] by auto
  then show ?thesis using False linker
    by (auto simp: lower_rows_def lower_toolchain_targets_def targets_ok_def)
qed

lemma toolchain_lower_ok:
  "\<exists>d ctx'. spn_toolchain_lower lib at base decl ctx = Some (d, ctx') \<and> td_name d = cgd_name decl \<and>
     (clean ctx' \<longrightarrow> clean ctx \<and> decl_ok d \<and> td_name d \<noteq> [])"
proof -
  let ?start = "spn_toml_loader_push_index at (spn_toml_loader_push_key ''toolchain'' ctx)"
  let ?checked = "lower_checks lib decl ?start"
  obtain origin source ctx1 where origin: "lower_origin lib decl ?checked = (origin, source, ctx1)"
    by (cases "lower_origin lib decl ?checked") auto
  obtain compiler ctx2 where compiler: "lower_launcher lib ''compiler'' source base (cgd_compiler decl) ctx1 = (compiler, ctx2)"
    by fastforce
  obtain cxx ctx3 where cxx: "lower_launcher lib ''cxx'' source base (cgd_cxx decl) ctx2 = (cxx, ctx3)" by fastforce
  obtain archiver ctx4 where archiver: "lower_launcher lib ''archiver'' source base (cgd_archiver decl) ctx3 = (archiver, ctx4)"
    by fastforce
  obtain lld targets host_row ctx5 where rows: "lower_rows lib source base decl ctx4 = Some (lld, targets, host_row, ctx5)"
      "clean ctx5 \<longrightarrow> clean ctx4 \<and> targets_ok targets"
    using lower_rows_ok by blast
  let ?d = "\<lparr>td_name = cgd_name decl, td_version = cgd_version decl, td_driver = decl_driver decl,
       td_compiler = compiler, td_cxx = cxx, td_archiver = archiver, td_lld = lld,
       td_link_args = cgd_link_args decl, td_origin = origin, td_targets = targets, td_host_row = host_row\<rparr>"
  have result: "spn_toolchain_lower lib at base decl ctx =
      Some (?d, spn_toml_loader_pop (spn_toml_loader_pop (spn_toml_loader_pop_scope ctx5)))"
    by (simp add: spn_toolchain_lower_def Let_def origin compiler cxx archiver rows(1))
  have "clean ctx \<and> decl_ok ?d \<and> td_name ?d \<noteq> []" if "clean ctx5"
  proof -
    have four: "clean ctx4" "targets_ok targets" using rows(2) that by auto
    then have "clean ctx3" using lower_launcher_clean archiver by (metis snd_conv)
    then have "clean ctx2" using lower_launcher_clean cxx by (metis snd_conv)
    then have "clean ctx1" using lower_launcher_clean compiler by (metis snd_conv)
    from lower_origin_ok [OF origin this]
    have "origin \<noteq> OriginDetected SPN_TOOLCHAIN_DETECT_NONE" "clean ?checked" by blast+
    then show ?thesis using lower_checks_clean [of lib decl ?start] four(2)
      by (simp add: decl_ok_def targets_ok_def)
  qed
  then show ?thesis using result by simp
qed

lemma lower_list_loop_ok:
  "\<exists>ds ctx'. lower_list_loop lib base it cgs decls ctx = Some (decls @ ds, ctx') \<and> map td_name ds = map cgd_name cgs \<and>
     (clean ctx' \<longrightarrow> clean ctx \<and> list_all decl_ok ds \<and>
        (distinct (map td_name decls) \<longrightarrow> distinct (map td_name (decls @ ds))))"
proof (induction cgs arbitrary: it decls ctx)
  case (Cons cg cgs)
  obtain d ctx1 where d: "spn_toolchain_lower lib it base cg ctx = Some (d, ctx1)" "td_name d = cgd_name cg"
      "clean ctx1 \<longrightarrow> clean ctx \<and> decl_ok d \<and> td_name d \<noteq> []"
    using toolchain_lower_ok by blast
  let ?ctx = "if td_name d \<noteq> [] \<and> toolchain_named decls (td_name d) then issue_duplicate lib it (td_name d) ctx1 else ctx1"
  obtain ds ctx' where rest: "lower_list_loop lib base (Suc it) cgs (decls @ [d]) ?ctx = Some ((decls @ [d]) @ ds, ctx')"
      "map td_name ds = map cgd_name cgs"
      "clean ctx' \<longrightarrow> clean ?ctx \<and> list_all decl_ok ds \<and>
        (distinct (map td_name (decls @ [d])) \<longrightarrow> distinct (map td_name ((decls @ [d]) @ ds)))"
    using Cons.IH [where it = "Suc it" and decls = "decls @ [d]" and ctx = ?ctx] by blast
  have loop: "lower_list_loop lib base it (cg # cgs) decls ctx = Some (decls @ d # ds, ctx')"
    using d(1) rest(1) by (simp add: Let_def)
  have ends: "clean ctx \<and> decl_ok d \<and> list_all decl_ok ds \<and>
      (distinct (map td_name decls) \<longrightarrow> distinct (map td_name (decls @ d # ds)))" if "clean ctx'"
  proof -
    have tail: "clean ?ctx" "list_all decl_ok ds"
        "distinct (map td_name (decls @ [d])) \<longrightarrow> distinct (map td_name ((decls @ [d]) @ ds))"
      using rest(3) that by blast+
    have "clean ctx1 \<and> (td_name d = [] \<or> td_name d \<notin> td_name ` set decls)"
      using tail(1) by (auto simp: issue_duplicate_def Let_def toolchain_named_def list_ex_iff split: if_splits)
    then show ?thesis using d(3) tail(2,3) by auto
  qed
  show ?case using loop ends rest(2) d(2) by (intro exI [of _ "d # ds"] exI [of _ ctx']) simp
qed auto


section \<open>Properties\<close>

lemma blank_launcher:
  assumes "list_all (\<lambda>part. part = []) (lw_split lib str (CHR '' ''))"
  shows "lower_launcher lib key source base str ctx = (launcher_zero, ctx)"
proof -
  have "dropWhile (\<lambda>part. part = []) (lw_split lib str (CHR '' '')) = []"
    using assms by (simp add: dropWhile_eq_Nil_conv list_all_iff)
  then show ?thesis by (simp only: lower_launcher_def list.case if_cancel)
qed

definition example_lower :: lower_lib where
  "example_lower = \<lparr>lw_path = example_lib, lw_normalize = id, lw_split = (\<lambda>s c. [s]), lw_fmt = (\<lambda>n. ''0'')\<rparr>"

definition example_cg :: spn_cg_toolchain_decl_t where
  "example_cg =
     \<lparr>cgd_name = ''gcc'', cgd_version = [], cgd_compiler = ''gcc'', cgd_linker = None, cgd_link_args = [],
      cgd_archiver = ''ar'', cgd_driver = Some SPN_CC_DRIVER_GCC, cgd_cxx = [], cgd_detect = None, cgd_host = [],
      cgd_mirrors = [], cgd_target = []\<rparr>"

text \<open>C15: a list of declared toolchains is always lowered, whatever is wrong with it. When it raised no
  issue the catalog binds it on every host, in the order of the declarations: no branch that the
  sources call unreachable is reached, every row is a supported target with the kit its platform
  needs, no target has two rows, and a target is left out exactly when the host lacks its kit.\<close>

theorem accepted_toolchains_bound:
  assumes "host_ok host"
  shows "\<exists>ds ctx. spn_toolchains_lower_list lib base cgs spn_toml_loader_init = Some (ds, ctx) \<and>
    (ld_issues ctx = [] \<longrightarrow>
      (\<exists>catalog. catalog_adds (lw_path lib) ds (spn_toolchain_catalog_init host sdks) = Some catalog \<and>
         catalog_ok catalog \<and> ht_keys (cat_entries catalog) = map cgd_name cgs))"
proof -
  obtain ds ctx where lowered: "lower_list_loop lib base 0 cgs [] spn_toml_loader_init = Some (ds, ctx)"
      "map td_name ds = map cgd_name cgs"
      "clean ctx \<longrightarrow> list_all decl_ok ds \<and> distinct (map td_name ds)"
    using lower_list_loop_ok [of lib base 0 cgs "[]" spn_toml_loader_init] by auto
  have "\<exists>catalog. catalog_adds (lw_path lib) ds (spn_toolchain_catalog_init host sdks) = Some catalog \<and>
         catalog_ok catalog \<and> ht_keys (cat_entries catalog) = map cgd_name cgs" if "ld_issues ctx = []"
    using catalog_adds_ok [OF catalog_init_ok [OF assms], of ds sdks "lw_path lib"] lowered(2,3) that
    by (simp add: clean_def spn_toolchain_catalog_init_def)
  then show ?thesis using lowered(1) by (auto simp: spn_toolchains_lower_list_def)
qed

theorem accepted_toolchains_bound_witness:
  "\<exists>ds ctx. spn_toolchains_lower_list example_lower SPN_PATH_ROOT_NONE [example_cg] spn_toml_loader_init = Some (ds, ctx) \<and>
    (ld_issues ctx = [] \<longrightarrow>
      (\<exists>catalog. catalog_adds (lw_path example_lower) ds (spn_toolchain_catalog_init example_host example_sdks) = Some catalog \<and>
         catalog_ok catalog \<and> ht_keys (cat_entries catalog) = map cgd_name [example_cg])) \<and>
    map (\<lambda>i. issue_detail i) (ld_issues (snd (the (spn_toolchains_lower_list example_lower SPN_PATH_ROOT_NONE
       [example_cg] spn_toml_loader_init)))) = []"
proof -
  have ok: "host_ok example_host" by (simp add: example_defs host_ok_def)
  have accepted: "ld_issues (snd (the (spn_toolchains_lower_list example_lower SPN_PATH_ROOT_NONE
       [example_cg] spn_toml_loader_init))) = []"
    by code_simp
  show ?thesis using accepted_toolchains_bound [OF ok, of example_lower SPN_PATH_ROOT_NONE "[example_cg]" example_sdks]
    accepted by auto
qed

end
