(* ===== verification/Profile.thy ===== *)
theory Profile
  imports Toolchain_Props
begin

text \<open>
  Build profiles, \<open>source/core/profile/profile.c\<close>: a profile of the manifest is laid over the default
  one, over the host and under the options of the command line; from the result come the
  candidates for a toolchain, and the toolchain that is selected completes it.

  The structure of a profile is here whole; the package model (\<open>Pkg\<close>) declares the fields that the
  resolver reads, \<open>profile_view\<close>. The environment of the conditions is that of \<open>When\<close>. \<open>None\<close> is an
  assertion that fails or an unreachable branch.
\<close>

record spn_gated_str_t =
  gated_value :: string
  gated_when :: spn_when_t

record spn_profile_t =
  pr_name :: string
  pr_toolchain :: spn_toolchain_ref_t
  pr_driver :: spn_cc_driver_t
  pr_linker :: spn_ld_family_t
  pr_os :: spn_os_t
  pr_arch :: spn_arch_t
  pr_abi :: spn_abi_t
  pr_request :: spn_linking_t
  pr_demand :: spn_linkage_t
  pr_linking :: spn_linking_t
  pr_standard :: spn_c_standard_t
  pr_mode :: spn_mode_t
  pr_opt :: spn_opt_level_t
  pr_sanitizers :: spn_sanitizer_set_t
  pr_sanitizers_set :: bool
  pr_options :: spn_when_t
  pr_targeted :: bool
  pr_sdk :: spn_sdk_t
  pr_libc_file :: spn_path_t

definition profile_zero :: spn_profile_t where
  "profile_zero =
     \<lparr>pr_name = [], pr_toolchain = RefNone, pr_driver = SPN_CC_DRIVER_NONE, pr_linker = SPN_LD_FAMILY_NONE,
      pr_os = SPN_OS_NONE, pr_arch = SPN_ARCH_NONE, pr_abi = SPN_ABI_NONE, pr_request = linking_zero,
      pr_demand = SPN_LIB_KIND_NONE, pr_linking = linking_zero, pr_standard = SPN_C_STANDARD_NONE,
      pr_mode = SPN_MODE_NONE, pr_opt = SPN_OPT_LEVEL_NONE, pr_sanitizers = 0, pr_sanitizers_set = False,
      pr_options = \<lparr>when_clauses = []\<rparr>, pr_targeted = False, pr_sdk = SdkNone, pr_libc_file = path_zero\<rparr>"

definition spn_profile_triple :: "spn_profile_t \<Rightarrow> spn_triple_t" where
  "spn_profile_triple profile = \<lparr>tr_arch = pr_arch profile, tr_os = pr_os profile, tr_abi = pr_abi profile\<rparr>"

definition profile_view :: "spn_profile_t \<Rightarrow> spn_profile_info_t" where
  "profile_view p =
     \<lparr>profile_driver = pr_driver p, profile_linker = pr_linker p, profile_os = pr_os p, profile_arch = pr_arch p,
      profile_abi = pr_abi p, profile_mode = pr_mode p, profile_opt = pr_opt p, profile_sanitizers = pr_sanitizers p,
      profile_linkage = ln_linkage (pr_linking p), profile_options = pr_options p\<rparr>"

record spn_profile_decl_t =
  pd_name :: string
  pd_os :: spn_os_t
  pd_arch :: spn_arch_t
  pd_toolchain :: "spn_gated_str_t list"
  pd_abi :: "spn_gated_str_t list"
  pd_linkage :: "spn_gated_str_t list"
  pd_runtime :: "spn_gated_str_t list"
  pd_libc :: "spn_gated_str_t list"
  pd_standard :: "spn_gated_str_t list"
  pd_mode :: "spn_gated_str_t list"
  pd_opt :: "spn_gated_str_t list"
  pd_sanitizers :: spn_sanitizer_set_t
  pd_sanitizers_set :: bool
  pd_options :: spn_when_t

definition decl_zero :: spn_profile_decl_t where
  "decl_zero =
     \<lparr>pd_name = [], pd_os = SPN_OS_NONE, pd_arch = SPN_ARCH_NONE, pd_toolchain = [], pd_abi = [], pd_linkage = [],
      pd_runtime = [], pd_libc = [], pd_standard = [], pd_mode = [], pd_opt = [], pd_sanitizers = 0,
      pd_sanitizers_set = False, pd_options = \<lparr>when_clauses = []\<rparr>\<rparr>"

record spn_profile_override_t =
  po_name :: string
  po_toolchain :: string
  po_mode :: spn_mode_t
  po_opt :: spn_opt_level_t
  po_sanitizers :: spn_sanitizer_set_t
  po_sanitizers_set :: bool
  po_triple :: spn_triple_t

text \<open>What the profile reads of its package, beside the fields of \<open>Pkg\<close>.\<close>

record spn_pkg_profiles_t = spn_pkg_info_t +
  info_profiles :: "(string \<times> spn_profile_decl_t) list"
  info_config :: "spn_pkg_config_entry_t list"

section \<open>Layers\<close>

definition overlay_profile :: "spn_profile_t \<Rightarrow> spn_profile_t \<Rightarrow> spn_profile_t" where
  "overlay_profile to from =
    (let to = (if pr_toolchain from \<noteq> RefNone then to\<lparr>pr_toolchain := pr_toolchain from\<rparr> else to);
         to = (if ln_linkage (pr_request from) \<noteq> SPN_LIB_KIND_NONE
               then to\<lparr>pr_request := (pr_request to)\<lparr>ln_linkage := ln_linkage (pr_request from)\<rparr>\<rparr> else to);
         to = (if ln_runtime (pr_request from) \<noteq> SPN_RUNTIME_NONE
               then to\<lparr>pr_request := (pr_request to)\<lparr>ln_runtime := ln_runtime (pr_request from)\<rparr>\<rparr> else to);
         to = (if ln_libc (pr_request from) \<noteq> SPN_RUNTIME_NONE
               then to\<lparr>pr_request := (pr_request to)\<lparr>ln_libc := ln_libc (pr_request from)\<rparr>\<rparr> else to);
         to = (if pr_standard from \<noteq> SPN_C_STANDARD_NONE then to\<lparr>pr_standard := pr_standard from\<rparr> else to);
         to = (if pr_mode from \<noteq> SPN_MODE_NONE then to\<lparr>pr_mode := pr_mode from\<rparr> else to);
         to = (if pr_opt from \<noteq> SPN_OPT_LEVEL_NONE then to\<lparr>pr_opt := pr_opt from\<rparr> else to);
         to = (if pr_sanitizers_set from \<or> pr_sanitizers from \<noteq> 0
               then to\<lparr>pr_sanitizers := pr_sanitizers from, pr_sanitizers_set := True\<rparr> else to);
         to = (if pr_os from \<noteq> SPN_OS_NONE then to\<lparr>pr_os := pr_os from, pr_abi := pr_abi from\<rparr>
               else if pr_abi from \<noteq> SPN_ABI_NONE then to\<lparr>pr_abi := pr_abi from\<rparr> else to);
         to = (if pr_arch from \<noteq> SPN_ARCH_NONE then to\<lparr>pr_arch := pr_arch from\<rparr> else to)
     in if when_clauses (pr_options from) \<noteq> [] then to\<lparr>pr_options := pr_options from\<rparr> else to)"

definition select_name :: "spn_profile_override_t \<Rightarrow> string" where
  "select_name override =
    (if po_name override \<noteq> [] then po_name override
     else if po_mode override = SPN_MODE_RELEASE then ''release''
     else ''debug'')"

definition builtin_mode :: "string \<Rightarrow> spn_mode_t" where
  "builtin_mode name =
    (if name = ''release'' then SPN_MODE_RELEASE
     else if name = ''debug'' then SPN_MODE_DEBUG
     else SPN_MODE_NONE)"

definition is_builtin :: "string \<Rightarrow> bool" where
  "is_builtin name \<longleftrightarrow> name = ''default'' \<or> builtin_mode name \<noteq> SPN_MODE_NONE"

definition find_decl :: "(string \<times> spn_profile_decl_t) list \<Rightarrow> string \<Rightarrow> spn_profile_decl_t option" where
  "find_decl profiles name = ht_get profiles name"

definition decl_platform :: "spn_profile_decl_t \<Rightarrow> spn_triple_t" where
  "decl_platform decl = \<lparr>tr_arch = pd_arch decl, tr_os = pd_os decl, tr_abi = SPN_ABI_NONE\<rparr>"

fun pick :: "spn_gated_str_t list \<Rightarrow> spn_when_env_t \<Rightarrow> string" where
  "pick [] env = []"
| "pick (candidate # candidates) env =
    (if spn_when_eval (Some (gated_when candidate)) env then gated_value candidate else pick candidates env)"

definition evaluate :: "spn_profile_decl_t \<Rightarrow> spn_when_env_t \<Rightarrow> spn_profile_t" where
  "evaluate decl env =
     profile_zero
      \<lparr>pr_toolchain := spn_toolchain_ref_from_str (pick (pd_toolchain decl) env),
       pr_os := pd_os decl,
       pr_arch := pd_arch decl,
       pr_abi := spn_abi_from_str (pick (pd_abi decl) env),
       pr_request :=
         \<lparr>ln_linkage = spn_linkage_from_str (pick (pd_linkage decl) env),
          ln_runtime = spn_runtime_from_str (pick (pd_runtime decl) env),
          ln_libc = spn_runtime_from_str (pick (pd_libc decl) env)\<rparr>,
       pr_standard := spn_c_standard_from_str (pick (pd_standard decl) env),
       pr_mode := spn_mode_from_str (pick (pd_mode decl) env),
       pr_opt := spn_opt_level_from_str (pick (pd_opt decl) env),
       pr_sanitizers := pd_sanitizers decl,
       pr_sanitizers_set := pd_sanitizers_set decl,
       pr_options := pd_options decl\<rparr>"

definition override_to_info :: "spn_profile_override_t \<Rightarrow> spn_profile_t" where
  "override_to_info override =
     profile_zero
      \<lparr>pr_toolchain := spn_toolchain_ref_from_str (po_toolchain override),
       pr_mode := po_mode override,
       pr_opt := po_opt override,
       pr_sanitizers := po_sanitizers override,
       pr_sanitizers_set := po_sanitizers_set override,
       pr_os := tr_os (po_triple override),
       pr_arch := tr_arch (po_triple override),
       pr_abi := tr_abi (po_triple override)\<rparr>"

section \<open>Resolution\<close>

datatype profile_err_kind =
  SPN_ERR_PROFILE_INVALID
| SPN_ERR_PROFILE_UNDEFINED
| SPN_ERR_PROFILE_ARCH
| SPN_ERR_PROFILE_ABI
| SPN_ERR_PROFILE_LINKING
| SPN_ERR_TARGET_ABI

record profile_err =
  perr_kind :: profile_err_kind
  perr_name :: string
  perr_target :: spn_triple_t
  perr_targets :: "spn_triple_t list"
  perr_refusals :: "(spn_triple_t \<times> spn_linking_refusal_t) list"

definition profile_fails ::
    "profile_err_kind \<Rightarrow> string \<Rightarrow> spn_triple_t \<Rightarrow> spn_triple_t list \<Rightarrow> profile_err" where
  "profile_fails kind name target targets =
     \<lparr>perr_kind = kind, perr_name = name, perr_target = target, perr_targets = targets, perr_refusals = []\<rparr>"

definition shared_demand :: "('a spn_pkg_profiles_t_scheme) \<Rightarrow> bool" where
  "shared_demand pkg \<longleftrightarrow>
     list_ex (\<lambda>entry. config_kind (entry_value entry) = Some SPN_LIB_KIND_SHARED) (info_config pkg) \<or>
     list_ex (\<lambda>(name, linkages). set_shared linkages \<and> \<not> set_static_lib linkages \<and> \<not> set_source linkages) (info_libs pkg)"

text \<open>The platform: the host under the two profiles and the command line.\<close>

definition profile_platform ::
    "spn_profile_override_t \<Rightarrow> spn_triple_t \<Rightarrow> spn_profile_decl_t \<Rightarrow> spn_profile_decl_t \<Rightarrow> spn_triple_t" where
  "profile_platform override host base selected =
    (let platform = \<lparr>tr_arch = tr_arch host, tr_os = tr_os host, tr_abi = SPN_ABI_NONE\<rparr>;
         platform = spn_triple_merge platform (decl_platform base);
         platform = spn_triple_merge platform (decl_platform selected)
     in spn_triple_merge platform ((po_triple override)\<lparr>tr_abi := SPN_ABI_NONE\<rparr>))"

definition profile_merged ::
    "spn_profile_override_t \<Rightarrow> string \<Rightarrow> spn_triple_t \<Rightarrow> spn_profile_decl_t \<Rightarrow> spn_profile_decl_t \<Rightarrow> spn_profile_t" where
  "profile_merged override name platform base selected =
    (let env = spn_when_env_set_platform spn_when_env_init (tr_os platform) (tr_arch platform);
         from_base = evaluate base env;
         from_selected = evaluate selected env;
         builtin = profile_zero\<lparr>pr_mode := builtin_mode name\<rparr>;
         lifted = override_to_info override;
         merged = profile_zero\<lparr>pr_toolchain := RefAuto, pr_standard := SPN_C11, pr_mode := SPN_MODE_DEBUG\<rparr>;
         merged = overlay_profile merged from_base;
         merged = overlay_profile merged builtin;
         merged = overlay_profile merged from_selected
     in overlay_profile merged lifted)"

definition profile_result ::
    "'a spn_pkg_profiles_t_scheme \<Rightarrow> string \<Rightarrow> spn_profile_t \<Rightarrow> bool \<Rightarrow> spn_triple_t \<Rightarrow> spn_profile_t" where
  "profile_result pkg name merged targeted pinned =
     profile_zero
      \<lparr>pr_name := name, pr_toolchain := pr_toolchain merged,
       pr_os := tr_os pinned, pr_arch := tr_arch pinned, pr_abi := tr_abi pinned,
       pr_request := pr_request merged,
       pr_demand := (if shared_demand pkg then SPN_LIB_KIND_SHARED else SPN_LIB_KIND_NONE),
       pr_standard := pr_standard merged, pr_mode := pr_mode merged, pr_opt := pr_opt merged,
       pr_sanitizers := pr_sanitizers merged, pr_options := pr_options merged, pr_targeted := targeted\<rparr>"

definition profile_pin ::
    "'a spn_pkg_profiles_t_scheme \<Rightarrow> string \<Rightarrow> spn_triple_t \<Rightarrow> spn_triple_t \<Rightarrow> spn_profile_t \<Rightarrow>
     (profile_err + spn_profile_t) option" where
  "profile_pin pkg name host platform merged =
    (let targeted = (pr_arch merged \<noteq> SPN_ARCH_NONE \<or> pr_os merged \<noteq> SPN_OS_NONE \<or> pr_abi merged \<noteq> SPN_ABI_NONE);
         merged = (if pr_opt merged = SPN_OPT_LEVEL_NONE
           then merged\<lparr>pr_opt := (if pr_mode merged = SPN_MODE_RELEASE then SPN_OPT_LEVEL_2 else SPN_OPT_LEVEL_0)\<rparr>
           else merged);
         pinned = \<lparr>tr_arch = tr_arch platform, tr_os = tr_os platform, tr_abi = pr_abi merged\<rparr>
     in case spn_triple_entry pinned of
          (SPN_TRIPLE_ENTRY_OK, full) \<Rightarrow> Some (Inr (profile_result pkg name merged targeted full))
        | (SPN_TRIPLE_ENTRY_MISSING_ABI, _) \<Rightarrow>
            if tr_arch pinned \<noteq> tr_arch host \<or> tr_os pinned \<noteq> tr_os host
            then Some (Inl (profile_fails SPN_ERR_TARGET_ABI name pinned (spn_os_triples (tr_arch pinned) (tr_os pinned))))
            else Some (Inr (profile_result pkg name merged targeted pinned))
        | (SPN_TRIPLE_ENTRY_FOREIGN_ARCH, _) \<Rightarrow>
            Some (Inl (profile_fails SPN_ERR_PROFILE_ARCH name pinned (spn_arch_triples (tr_arch pinned))))
        | (SPN_TRIPLE_ENTRY_FOREIGN_ABI, _) \<Rightarrow>
            Some (Inl (profile_fails SPN_ERR_PROFILE_ABI name pinned (spn_os_triples (tr_arch pinned) (tr_os pinned))))
        | (SPN_TRIPLE_ENTRY_MISSING_ARCH, _) \<Rightarrow> None
        | (SPN_TRIPLE_ENTRY_MISSING_OS, _) \<Rightarrow> None)"

definition spn_profile_resolve ::
    "spn_profile_override_t \<Rightarrow> spn_triple_t \<Rightarrow> 'a spn_pkg_profiles_t_scheme \<Rightarrow>
     (profile_err + spn_profile_t) option" where
  "spn_profile_resolve override host pkg =
    (let name = select_name override
     in if CHR ''/'' \<in> set name \<or> CHR 0x5C \<in> set name
        then Some (Inl (profile_fails SPN_ERR_PROFILE_INVALID name triple_zero []))
        else if spn_triple_parse name \<noteq> None
        then Some (Inl (profile_fails SPN_ERR_PROFILE_INVALID name triple_zero []))
        else if find_decl (info_profiles pkg) name = None \<and> \<not> is_builtin name
        then Some (Inl (profile_fails SPN_ERR_PROFILE_UNDEFINED name triple_zero []))
        else
          (let selected = (case find_decl (info_profiles pkg) name of Some decl \<Rightarrow> decl | None \<Rightarrow> decl_zero);
               base = (case find_decl (info_profiles pkg) ''default'' of Some decl \<Rightarrow> decl | None \<Rightarrow> decl_zero);
               platform = profile_platform override host base selected
           in profile_pin pkg name host platform (profile_merged override name platform base selected)))"

section \<open>The query for a toolchain\<close>

definition push_abi :: "spn_abi_t \<Rightarrow> spn_abi_t list \<Rightarrow> spn_abi_t list" where
  "push_abi abi list = (if list_ex (\<lambda>a. a = abi) list then list else list @ [abi])"

definition query_abis :: "spn_profile_t \<Rightarrow> spn_triple_t \<Rightarrow> spn_abi_t list option" where
  "query_abis profile host =
    (if pr_abi profile \<noteq> SPN_ABI_NONE then Some (push_abi (pr_abi profile) [])
     else if \<not> (pr_arch profile = tr_arch host \<and> pr_os profile = tr_os host) then None
     else
       (let abis = (if pr_os profile = SPN_OS_LINUX then push_abi (tr_abi host) [] else [])
        in Some (fold push_abi (spn_os_completions (pr_os profile)) abis)))"

text \<open>The linking of a candidate: of what is demanded, or of the request alone when the demand is not
  of the request and is refused.\<close>

definition candidate_linking ::
    "spn_triple_t \<Rightarrow> spn_linking_t \<Rightarrow> spn_linking_t \<Rightarrow> (spn_linking_refusal_t + spn_linking_t) option" where
  "candidate_linking triple demanded request =
    (case spn_ld_linking triple demanded of
       Some (Inl refusal) \<Rightarrow>
         if ln_linkage demanded \<noteq> ln_linkage request then spn_ld_linking triple request else Some (Inl refusal)
     | result \<Rightarrow> result)"

fun query_candidates_loop ::
    "spn_profile_t \<Rightarrow> spn_linking_t \<Rightarrow> spn_abi_t list \<Rightarrow>
     (spn_toolchain_candidate_t list \<times> (spn_triple_t \<times> spn_linking_refusal_t) list) option" where
  "query_candidates_loop profile demanded [] = Some ([], [])"
| "query_candidates_loop profile demanded (abi # abis) =
    (let triple = \<lparr>tr_arch = pr_arch profile, tr_os = pr_os profile, tr_abi = abi\<rparr>
     in do {
       linked \<leftarrow> candidate_linking triple demanded (pr_request profile);
       rest \<leftarrow> query_candidates_loop profile demanded abis;
       Some (case linked of
           Inl refusal \<Rightarrow> (fst rest, (triple, refusal) # snd rest)
         | Inr linking \<Rightarrow> (\<lparr>cand_triple = triple, cand_linking = linking\<rparr> # fst rest, snd rest))
     })"

definition static_musl :: "spn_toolchain_candidate_t \<Rightarrow> bool" where
  "static_musl candidate \<longleftrightarrow>
     tr_abi (cand_triple candidate) = SPN_ABI_MUSL \<and> ln_libc (cand_linking candidate) = SPN_RUNTIME_STATIC"

definition order_candidates :: "spn_os_t \<Rightarrow> spn_toolchain_candidate_t list \<Rightarrow> spn_toolchain_candidate_t list" where
  "order_candidates os candidates =
    (if os = SPN_OS_LINUX
     then filter static_musl candidates @ filter (\<lambda>c. \<not> static_musl c) candidates else candidates)"

definition spn_profile_query ::
    "spn_profile_t \<Rightarrow> spn_triple_t \<Rightarrow> (profile_err + spn_toolchain_query_t) option" where
  "spn_profile_query profile host = do {
     abis \<leftarrow> query_abis profile host;
     let demanded = (pr_request profile)\<lparr>ln_linkage :=
       (if ln_linkage (pr_request profile) \<noteq> SPN_LIB_KIND_NONE then ln_linkage (pr_request profile)
        else pr_demand profile)\<rparr>;
     found \<leftarrow> query_candidates_loop profile demanded abis;
     Some (if fst found = [] then
         Inl \<lparr>perr_kind = SPN_ERR_PROFILE_LINKING, perr_name = pr_name profile,
              perr_target = spn_profile_triple profile, perr_targets = [], perr_refusals = snd found\<rparr>
       else
         Inr \<lparr>query_toolchain = pr_toolchain profile, query_target = spn_profile_triple profile,
              query_candidates = order_candidates (pr_os profile) (fst found),
              query_sanitizers = pr_sanitizers profile\<rparr>)
   }"

definition spn_profile_finalize ::
    "spn_profile_t \<Rightarrow> spn_toolchain_selection_t \<Rightarrow> spn_profile_t option" where
  "spn_profile_finalize profile selection = do {
     let triple = row_triple (sel_row selection);
     linker \<leftarrow> (if tc_lld (sel_toolchain selection) then Some SPN_LD_FAMILY_LLD
       else spn_ld_native (tc_driver (sel_toolchain selection)) triple);
     Some (profile\<lparr>pr_abi := tr_abi triple, pr_driver := tc_driver (sel_toolchain selection), pr_linker := linker,
       pr_sdk := row_sdk (sel_row selection), pr_linking := sel_linking selection\<rparr>)
   }"

section \<open>Other profiles\<close>

definition spn_profile_metaprogram :: spn_profile_t where
  "spn_profile_metaprogram =
     profile_zero
      \<lparr>pr_name := ''metaprogram'', pr_toolchain := RefAuto, pr_arch := SPN_ARCH_WASM32, pr_os := SPN_OS_WASI,
       pr_abi := SPN_ABI_MUSL, pr_mode := SPN_MODE_DEBUG, pr_opt := SPN_OPT_LEVEL_2, pr_standard := SPN_C99,
       pr_request := \<lparr>ln_linkage = SPN_LIB_KIND_STATIC, ln_runtime = SPN_RUNTIME_STATIC,
         ln_libc = SPN_RUNTIME_STATIC\<rparr>\<rparr>"

definition spn_profile_build_dir :: "path_lib \<Rightarrow> spn_profile_t \<Rightarrow> string option" where
  "spn_profile_build_dir lib profile =
    (if \<not> pr_targeted profile then Some (pr_name profile)
     else map_option (\<lambda>text. fs_join lib text (pr_name profile)) (spn_triple_to_str (spn_profile_triple profile)))"

end
