(* ===== verification/Profile_Props.thy ===== *)
theory Profile_Props
  imports Profile
begin

text \<open>
  What a resolved profile promises, and the composition of profile, query, catalog and selection:
  none of the assertions between them can fail.
\<close>

definition profile_ok :: "spn_triple_t \<Rightarrow> spn_profile_t \<Rightarrow> bool" where
  "profile_ok host p \<longleftrightarrow>
     pr_toolchain p \<noteq> RefNone \<and> pr_standard p \<noteq> SPN_C_STANDARD_NONE \<and> pr_mode p \<noteq> SPN_MODE_NONE \<and>
     pr_opt p \<noteq> SPN_OPT_LEVEL_NONE \<and> os_has_arch (pr_os p) (pr_arch p) \<and>
     (if pr_abi p = SPN_ABI_NONE then pr_arch p = tr_arch host \<and> pr_os p = tr_os host
      else os_has_abi (pr_os p) (pr_abi p))"

section \<open>Layers\<close>

lemma overlay_toolchain: "pr_toolchain (overlay_profile to from) =
    (if pr_toolchain from \<noteq> RefNone then pr_toolchain from else pr_toolchain to)"
  by (simp add: overlay_profile_def Let_def)

lemma overlay_standard: "pr_standard (overlay_profile to from) =
    (if pr_standard from \<noteq> SPN_C_STANDARD_NONE then pr_standard from else pr_standard to)"
  by (simp add: overlay_profile_def Let_def)

lemma overlay_mode: "pr_mode (overlay_profile to from) =
    (if pr_mode from \<noteq> SPN_MODE_NONE then pr_mode from else pr_mode to)"
  by (simp add: overlay_profile_def Let_def)

lemmas overlays = overlay_toolchain overlay_standard overlay_mode

lemma merged_complete:
  "pr_toolchain (profile_merged override name platform base selected) \<noteq> RefNone"
  "pr_standard (profile_merged override name platform base selected) \<noteq> SPN_C_STANDARD_NONE"
  "pr_mode (profile_merged override name platform base selected) \<noteq> SPN_MODE_NONE"
  by (simp_all add: profile_merged_def Let_def overlays)

lemma merge_keeps:
  "tr_arch base \<noteq> SPN_ARCH_NONE \<Longrightarrow> tr_arch (spn_triple_merge base t) \<noteq> SPN_ARCH_NONE"
  "tr_os base \<noteq> SPN_OS_NONE \<Longrightarrow> tr_os (spn_triple_merge base t) \<noteq> SPN_OS_NONE"
  by (simp_all add: spn_triple_merge_def)

lemma platform_complete:
  assumes "tr_arch host \<noteq> SPN_ARCH_NONE" "tr_os host \<noteq> SPN_OS_NONE"
  shows "tr_arch (profile_platform override host base selected) \<noteq> SPN_ARCH_NONE"
    "tr_os (profile_platform override host base selected) \<noteq> SPN_OS_NONE"
  using assms by (simp_all add: profile_platform_def Let_def merge_keeps)

lemma host_complete: "host_ok host \<Longrightarrow> tr_arch host \<noteq> SPN_ARCH_NONE \<and> tr_os host \<noteq> SPN_OS_NONE"
  by (auto simp: host_ok_def)

lemma result_fields [simp]:
  "pr_toolchain (profile_result pkg name merged targeted t) = pr_toolchain merged"
  "pr_standard (profile_result pkg name merged targeted t) = pr_standard merged"
  "pr_mode (profile_result pkg name merged targeted t) = pr_mode merged"
  "pr_opt (profile_result pkg name merged targeted t) = pr_opt merged"
  "pr_os (profile_result pkg name merged targeted t) = tr_os t"
  "pr_arch (profile_result pkg name merged targeted t) = tr_arch t"
  "pr_abi (profile_result pkg name merged targeted t) = tr_abi t"
  by (simp_all add: profile_result_def)

lemma entry_cases:
  assumes "spn_triple_entry partial = (entry, full)" "tr_arch partial \<noteq> SPN_ARCH_NONE" "tr_os partial \<noteq> SPN_OS_NONE"
  shows "entry = SPN_TRIPLE_ENTRY_OK \<and> triple_supported full \<or>
    entry = SPN_TRIPLE_ENTRY_MISSING_ABI \<and> os_has_arch (tr_os partial) (tr_arch partial) \<and> tr_abi partial = SPN_ABI_NONE \<or>
    entry = SPN_TRIPLE_ENTRY_FOREIGN_ARCH \<or> entry = SPN_TRIPLE_ENTRY_FOREIGN_ABI"
  using assms by (cases "tr_os partial"; cases "tr_abi partial")
    (auto simp: spn_triple_entry_def triple_supported_def os_has_abi_def spn_os_abis_def spn_os_completions_def
      split: if_splits)

lemma supported_abi: "triple_supported t \<Longrightarrow> tr_abi t \<noteq> SPN_ABI_NONE"
  by (cases "tr_os t") (auto simp: triple_supported_def os_has_abi_def spn_os_abis_def)

lemma profile_pin_ok:
  assumes "tr_arch platform \<noteq> SPN_ARCH_NONE" "tr_os platform \<noteq> SPN_OS_NONE"
    "pr_toolchain merged \<noteq> RefNone" "pr_standard merged \<noteq> SPN_C_STANDARD_NONE" "pr_mode merged \<noteq> SPN_MODE_NONE"
  shows "\<exists>r. profile_pin pkg name host platform merged = Some r \<and> (\<forall>p. r = Inr p \<longrightarrow> profile_ok host p)"
proof -
  let ?merged = "if pr_opt merged = SPN_OPT_LEVEL_NONE
     then merged\<lparr>pr_opt := (if pr_mode merged = SPN_MODE_RELEASE then SPN_OPT_LEVEL_2 else SPN_OPT_LEVEL_0)\<rparr> else merged"
  let ?pinned = "\<lparr>tr_arch = tr_arch platform, tr_os = tr_os platform, tr_abi = pr_abi merged\<rparr>"
  obtain entry full where entry: "spn_triple_entry ?pinned = (entry, full)" by fastforce
  from entry_cases [OF this] assms(1,2)
  consider "entry = SPN_TRIPLE_ENTRY_OK" "triple_supported full"
    | "entry = SPN_TRIPLE_ENTRY_MISSING_ABI" "os_has_arch (tr_os platform) (tr_arch platform)" "pr_abi merged = SPN_ABI_NONE"
    | "entry = SPN_TRIPLE_ENTRY_FOREIGN_ARCH" | "entry = SPN_TRIPLE_ENTRY_FOREIGN_ABI" by auto
  then show ?thesis
  proof cases
    case 1
    then show ?thesis using entry assms(3-5) supported_abi [OF 1(2)]
      by (simp add: profile_pin_def Let_def profile_ok_def triple_supported_def)
  next
    case 2
    then show ?thesis using entry assms(3-5)
      by (cases "tr_arch platform = tr_arch host \<and> tr_os platform = tr_os host")
        (auto simp: profile_pin_def Let_def profile_ok_def)
  qed (use entry in \<open>simp_all add: profile_pin_def Let_def\<close>)
qed

lemma profile_resolve_ok:
  assumes "host_ok host"
  shows "\<exists>r. spn_profile_resolve override host pkg = Some r \<and> (\<forall>p. r = Inr p \<longrightarrow> profile_ok host p)"
proof -
  let ?name = "select_name override"
  let ?selected = "case find_decl (info_profiles pkg) ?name of Some decl \<Rightarrow> decl | None \<Rightarrow> decl_zero"
  let ?base = "case find_decl (info_profiles pkg) ''default'' of Some decl \<Rightarrow> decl | None \<Rightarrow> decl_zero"
  let ?platform = "profile_platform override host ?base ?selected"
  have "\<exists>r. profile_pin pkg ?name host ?platform (profile_merged override ?name ?platform ?base ?selected) = Some r \<and>
      (\<forall>p. r = Inr p \<longrightarrow> profile_ok host p)"
    using host_complete [OF assms] by (intro profile_pin_ok platform_complete merged_complete) auto
  then show ?thesis unfolding spn_profile_resolve_def Let_def by auto
qed

section \<open>Candidates\<close>

lemma push_abi_set: "set (push_abi a l) = insert a (set l)" "distinct l \<Longrightarrow> distinct (push_abi a l)"
  by (auto simp: push_abi_def list_ex_iff)

lemma fold_push_abi:
  "set (fold push_abi as l) = set as \<union> set l" "distinct l \<Longrightarrow> distinct (fold push_abi as l)"
  by (induction as arbitrary: l) (simp_all add: push_abi_set)

lemma query_abis_ok:
  assumes "host_ok host" "profile_ok host p"
  shows "\<exists>abis. query_abis p host = Some abis \<and> abis \<noteq> [] \<and> distinct abis \<and> (\<forall>abi \<in> set abis. os_has_abi (pr_os p) abi) \<and>
    (pr_abi p \<noteq> SPN_ABI_NONE \<longrightarrow> abis = [pr_abi p])"
proof (cases "pr_abi p = SPN_ABI_NONE")
  case False
  then show ?thesis using assms(2) by (simp add: query_abis_def push_abi_def profile_ok_def)
next
  case True
  then have same: "pr_arch p = tr_arch host" "pr_os p = tr_os host" using assms(2) by (simp_all add: profile_ok_def)
  let ?start = "if pr_os p = SPN_OS_LINUX then push_abi (tr_abi host) [] else []"
  let ?abis = "fold push_abi (spn_os_completions (pr_os p)) ?start"
  have "query_abis p host = Some ?abis" using True same by (simp add: query_abis_def Let_def)
  moreover have "distinct ?abis" by (simp add: fold_push_abi push_abi_set)
  moreover have members: "set ?abis = set (spn_os_completions (pr_os p)) \<union> set ?start" by (rule fold_push_abi)
  moreover have "set ?abis \<noteq> {}" "\<forall>abi \<in> set ?abis. os_has_abi (pr_os p) abi"
    unfolding members using assms(1) same
    by (auto simp: host_ok_def spn_os_completions_def push_abi_def os_has_abi_def spn_os_abis_def split: spn_os_t.splits)
  ultimately show ?thesis using True by auto
qed

lemma candidate_linking_total: "triple_supported t \<Longrightarrow> \<exists>r. candidate_linking t demanded request = Some r"
  using linking_total [of t demanded] linking_total [of t request]
  by (auto simp: candidate_linking_def split: option.splits sum.splits)

lemma candidate_linking_linked:
  "candidate_linking t demanded request = Some (Inr linking) \<Longrightarrow>
     spn_ld_linking t demanded = Some (Inr linking) \<or> spn_ld_linking t request = Some (Inr linking)"
  by (auto simp: candidate_linking_def split: option.splits sum.splits if_splits)

lemma query_loop_ok:
  assumes "os_has_arch (pr_os p) (pr_arch p)" "\<forall>abi \<in> set abis. os_has_abi (pr_os p) abi"
  shows "\<exists>found refused. query_candidates_loop p demanded abis = Some (found, refused) \<and>
    length found + length refused = length abis \<and>
    (\<forall>c \<in> set found. triple_supported (cand_triple c) \<and> tr_os (cand_triple c) = pr_os p \<and>
       tr_arch (cand_triple c) = pr_arch p \<and> tr_abi (cand_triple c) \<in> set abis \<and>
       candidate_linking (cand_triple c) demanded (pr_request p) = Some (Inr (cand_linking c)))"
  using assms(2)
proof (induction abis)
  case (Cons abi abis)
  let ?t = "\<lparr>tr_arch = pr_arch p, tr_os = pr_os p, tr_abi = abi\<rparr>"
  have t: "triple_supported ?t" using assms(1) Cons.prems by (simp add: triple_supported_def)
  obtain linked where linked: "candidate_linking ?t demanded (pr_request p) = Some linked"
    using candidate_linking_total [OF t] by blast
  obtain found refused where rest: "query_candidates_loop p demanded abis = Some (found, refused)"
      "length found + length refused = length abis"
      "\<forall>c \<in> set found. triple_supported (cand_triple c) \<and> tr_os (cand_triple c) = pr_os p \<and>
       tr_arch (cand_triple c) = pr_arch p \<and> tr_abi (cand_triple c) \<in> set abis \<and>
       candidate_linking (cand_triple c) demanded (pr_request p) = Some (Inr (cand_linking c))"
    using Cons by auto
  then show ?case using t linked by (cases linked) (auto simp: Let_def)
qed simp

lemma order_candidates_set [simp]:
  "set (order_candidates os cs) = set cs" "length (order_candidates os cs) = length cs"
  by (auto simp: order_candidates_def sum_length_filter_compl)

lemma order_candidates_empty [simp]: "order_candidates os cs = [] \<longleftrightarrow> cs = []"
  using order_candidates_set(2) [of os cs] by (metis length_0_conv)

text \<open>What the linking of a candidate is for: what is demanded of the profile, or its request.\<close>

definition demand_of :: "spn_profile_t \<Rightarrow> spn_linking_t" where
  "demand_of p = (pr_request p)\<lparr>ln_linkage :=
     (if ln_linkage (pr_request p) \<noteq> SPN_LIB_KIND_NONE then ln_linkage (pr_request p) else pr_demand p)\<rparr>"

definition query_for :: "spn_triple_t \<Rightarrow> spn_profile_t \<Rightarrow> spn_toolchain_query_t \<Rightarrow> bool" where
  "query_for host p query \<longleftrightarrow>
     query_ok query \<and> length (query_candidates query) \<le> 3 \<and>
     query_sanitizers query = pr_sanitizers p \<and> query_toolchain query = pr_toolchain p \<and>
     (\<forall>c \<in> set (query_candidates query).
        tr_os (cand_triple c) = pr_os p \<and> tr_arch (cand_triple c) = pr_arch p \<and>
        (pr_abi p = SPN_ABI_NONE \<or> tr_abi (cand_triple c) = pr_abi p) \<and>
        row_honours (cand_triple c) (pr_request p) (cand_linking c))"

lemma abis_bound: "distinct abis \<Longrightarrow> \<forall>abi \<in> set abis. os_has_abi os abi \<Longrightarrow> length abis \<le> 3"
proof -
  assume abis: "distinct abis" "\<forall>abi \<in> set abis. os_has_abi os abi"
  have "set abis \<subseteq> set (spn_os_abis os)" using abis(2) by (auto simp: os_has_abi_def list_ex_iff)
  then have "length abis \<le> length (spn_os_abis os)"
    using abis(1) by (metis card_mono distinct_card finite_set card_length le_trans)
  also have "\<dots> \<le> 3" by (cases os) (simp_all add: spn_os_abis_def)
  finally show ?thesis .
qed

lemma demand_honoured:
  assumes "candidate_linking t (demand_of p) (pr_request p) = Some (Inr linking)"
  shows "row_honours t (pr_request p) linking"
proof -
  from candidate_linking_linked [OF assms]
  have "row_honours t (demand_of p) linking \<or> row_honours t (pr_request p) linking"
    by (auto elim: linking_honours)
  then show ?thesis by (auto simp: row_honours_shared demand_of_def split: if_splits)
qed

lemma profile_query_ok:
  assumes "host_ok host" "profile_ok host p"
  shows "\<exists>r. spn_profile_query p host = Some r \<and> (\<forall>query. r = Inr query \<longrightarrow> query_for host p query)"
proof -
  obtain abis where abis: "query_abis p host = Some abis" "distinct abis" "\<forall>abi \<in> set abis. os_has_abi (pr_os p) abi"
      "pr_abi p \<noteq> SPN_ABI_NONE \<longrightarrow> abis = [pr_abi p]"
    using query_abis_ok [OF assms] by blast
  have arch: "os_has_arch (pr_os p) (pr_arch p)" using assms(2) by (simp add: profile_ok_def)
  obtain found refused where loop: "query_candidates_loop p (demand_of p) abis = Some (found, refused)"
      "length found + length refused = length abis"
      "\<forall>c \<in> set found. triple_supported (cand_triple c) \<and> tr_os (cand_triple c) = pr_os p \<and>
       tr_arch (cand_triple c) = pr_arch p \<and> tr_abi (cand_triple c) \<in> set abis \<and>
       candidate_linking (cand_triple c) (demand_of p) (pr_request p) = Some (Inr (cand_linking c))"
    using query_loop_ok [OF arch abis(3)] by blast
  let ?query = "\<lparr>query_toolchain = pr_toolchain p, query_target = spn_profile_triple p,
      query_candidates = order_candidates (pr_os p) found, query_sanitizers = pr_sanitizers p\<rparr>"
  have query: "spn_profile_query p host = Some (if found = [] then
         Inl \<lparr>perr_kind = SPN_ERR_PROFILE_LINKING, perr_name = pr_name p,
              perr_target = spn_profile_triple p, perr_targets = [], perr_refusals = refused\<rparr>
       else Inr ?query)"
    using abis(1) loop(1) by (simp add: spn_profile_query_def demand_of_def Let_def)
  have "query_for host p ?query" if "found \<noteq> []"
    using that loop(2,3) abis_bound [OF abis(2,3)] abis(4) assms(2) demand_honoured
    by (fastforce simp: query_for_def query_ok_def list_all_iff profile_ok_def)
  then show ?thesis using query by simp
qed

section \<open>Properties\<close>

lemma selects_cases:
  assumes "selects result offered"
  obtains err where "result = Some (Inl err)" "offered = []"
  | sel rest where "result = Some (Inr sel)" "offered = sel # rest"
  using assms by (cases offered) (auto simp: selects_def)

lemma first_offer:
  assumes "all_offers catalog query = sel # rest"
  shows "\<exists>c \<in> set (query_candidates query). row_fits query c (sel_row sel) \<and> sel_linking sel = cand_linking c \<and>
    sel_row sel \<in> set (tc_rows (sel_toolchain sel)) \<and> sel_toolchain sel \<in> set (asked catalog (query_toolchain query)) \<and>
    usable (sel_toolchain sel)"
proof -
  have "sel \<in> set (all_offers catalog query)" using assms by simp
  then show ?thesis by (auto simp: all_offers_def offers_def offers_of_def split: if_splits)
qed

lemma asked_infos: "tc \<in> set (asked catalog ref) \<Longrightarrow> catalog_ok catalog \<Longrightarrow> info_ok (cat_sdks catalog) tc"
  by (cases ref) (auto simp: asked_def catalog_ok_def list_all_iff)

lemma native_total: "driver \<noteq> SPN_CC_DRIVER_NONE \<Longrightarrow> tr_os t \<noteq> SPN_OS_NONE \<Longrightarrow> spn_ld_native driver t \<noteq> None"
  by (cases driver; cases "tr_os t"; cases "tr_abi t = SPN_ABI_MSVC") (simp_all add: spn_ld_native_def spn_ld_dialect_def)

text \<open>What the profile is at the end: on a supported target of its platform, with the driver, the kit
  and the sanitizers of a usable toolchain, and linked the way it requested.\<close>

definition profile_final :: "spn_profile_t \<Rightarrow> spn_toolchain_selection_t \<Rightarrow> spn_profile_t \<Rightarrow> bool" where
  "profile_final p sel final \<longleftrightarrow>
     triple_supported (spn_profile_triple final) \<and> pr_os final = pr_os p \<and> pr_arch final = pr_arch p \<and>
     (pr_abi p = SPN_ABI_NONE \<or> pr_abi final = pr_abi p) \<and> usable (sel_toolchain sel) \<and>
     pr_driver final = tc_driver (sel_toolchain sel) \<and> pr_driver final \<noteq> SPN_CC_DRIVER_NONE \<and>
     sdk_fits (spn_profile_triple final) (pr_sdk final) \<and>
     pr_sanitizers final AND NOT (row_sanitizers (sel_row sel)) = 0 \<and>
     row_honours (spn_profile_triple final) (pr_request p) (pr_linking final)"

lemma selection_completes:
  assumes "c \<in> set (query_candidates query)" "row_fits query c (sel_row sel)" "sel_linking sel = cand_linking c"
    "sel_row sel \<in> set (tc_rows (sel_toolchain sel))" "info_ok sdks (sel_toolchain sel)" "usable (sel_toolchain sel)"
    "query_for host p query"
  shows "\<exists>final. spn_profile_finalize p sel = Some final \<and> profile_final p sel final"
proof -
  let ?row = "sel_row sel"
  have row: "row_triple ?row = cand_triple c" "pr_sanitizers p AND NOT (row_sanitizers ?row) = 0"
    using assms(2,7) by (simp_all add: row_fits_def query_for_def)
  have cand: "tr_os (cand_triple c) = pr_os p" "tr_arch (cand_triple c) = pr_arch p"
      "pr_abi p = SPN_ABI_NONE \<or> tr_abi (cand_triple c) = pr_abi p"
      "row_honours (cand_triple c) (pr_request p) (cand_linking c)"
    using assms(1,7) by (simp_all add: query_for_def)
  have ok: "triple_supported (cand_triple c)" "sdk_fits (cand_triple c) (row_sdk ?row)"
      "tc_driver (sel_toolchain sel) \<noteq> SPN_CC_DRIVER_NONE"
    using assms(4,5) row(1) by (auto simp: info_ok_def list_all_iff row_ok_def)
  obtain linker where "(if tc_lld (sel_toolchain sel) then Some SPN_LD_FAMILY_LLD
       else spn_ld_native (tc_driver (sel_toolchain sel)) (cand_triple c)) = Some linker"
    using native_total [OF ok(3) supported_os [OF ok(1)]] by (cases "tc_lld (sel_toolchain sel)") auto
  then have final: "spn_profile_finalize p sel = Some (p\<lparr>pr_abi := tr_abi (cand_triple c),
      pr_driver := tc_driver (sel_toolchain sel), pr_linker := linker, pr_sdk := row_sdk ?row,
      pr_linking := sel_linking sel\<rparr>)" (is "_ = Some ?final")
    using row(1) by (simp add: spn_profile_finalize_def Let_def)
  have triple: "spn_profile_triple ?final = cand_triple c"
    using cand(1,2) by (cases "cand_triple c") (simp add: spn_profile_triple_def)
  have "profile_final p sel ?final"
    unfolding profile_final_def triple using row cand ok assms(3,6) by simp
  then show ?thesis using final by blast
qed

lemma query_selects:
  assumes "catalog_ok catalog" "query_for host p query"
  shows "\<exists>selected. spn_toolchain_select catalog query = Some selected \<and>
      (\<forall>sel. selected = Inr sel \<longrightarrow> (\<exists>final. spn_profile_finalize p sel = Some final \<and> profile_final p sel final))"
proof -
  have ok: "query_ok query" using assms(2) by (simp add: query_for_def)
  show ?thesis
  proof (rule selects_cases [OF toolchain_select_selects [OF assms(1) ok]])
    fix sel rest
    assume result: "spn_toolchain_select catalog query = Some (Inr sel)" and offer: "all_offers catalog query = sel # rest"
    obtain c where c: "c \<in> set (query_candidates query)" "row_fits query c (sel_row sel)"
        "sel_linking sel = cand_linking c" "sel_row sel \<in> set (tc_rows (sel_toolchain sel))"
        "sel_toolchain sel \<in> set (asked catalog (query_toolchain query))" "usable (sel_toolchain sel)"
      using first_offer [OF offer] by blast
    show ?thesis
      using result selection_completes [OF c(1-4) asked_infos [OF c(5) assms(1)] c(6) assms(2)] by simp
  qed simp
qed

text \<open>C14: from the command line to the selected toolchain: on every host, for every override, package
  and catalog of bound declarations, the profile resolves or fails with an error, its query for a
  toolchain never trips an assertion nor an unreachable branch, and neither do the selection and
  the completion of the profile. A completed profile has a supported target of the platform it
  resolved to, a usable toolchain with the kit of that target and all the sanitizers, and is linked
  with the library kind, the runtime and the libc that it requested.\<close>

theorem profile_to_toolchain:
  assumes "host_ok host" "catalog_ok catalog"
  shows "\<exists>resolved. spn_profile_resolve override host pkg = Some resolved \<and>
    (\<forall>p. resolved = Inr p \<longrightarrow>
      (\<exists>queried. spn_profile_query p host = Some queried \<and>
        (\<forall>query. queried = Inr query \<longrightarrow>
          (\<exists>selected. spn_toolchain_select catalog query = Some selected \<and>
            (\<forall>sel. selected = Inr sel \<longrightarrow>
              (\<exists>final. spn_profile_finalize p sel = Some final \<and> profile_final p sel final))))))"
proof -
  obtain resolved where resolved: "spn_profile_resolve override host pkg = Some resolved"
      "\<And>p. resolved = Inr p \<Longrightarrow> profile_ok host p"
    using profile_resolve_ok [OF assms(1), of override pkg] by blast
  show ?thesis
  proof (intro exI [of _ resolved] conjI allI impI)
    fix p assume "resolved = Inr p"
    from profile_query_ok [OF assms(1) resolved(2) [OF this]]
    obtain queried where queried: "spn_profile_query p host = Some queried"
        "\<And>query. queried = Inr query \<Longrightarrow> query_for host p query" by blast
    show "\<exists>queried. spn_profile_query p host = Some queried \<and> (\<forall>query. queried = Inr query \<longrightarrow>
        (\<exists>selected. spn_toolchain_select catalog query = Some selected \<and>
          (\<forall>sel. selected = Inr sel \<longrightarrow> (\<exists>final. spn_profile_finalize p sel = Some final \<and> profile_final p sel final))))"
      by (intro exI [of _ queried] conjI allI impI queried(1) query_selects [OF assms(2), where host = host] queried(2))
  qed (rule resolved(1))
qed

definition example_override :: spn_profile_override_t where
  "example_override =
     \<lparr>po_name = [], po_toolchain = [], po_mode = SPN_MODE_NONE, po_opt = SPN_OPT_LEVEL_NONE, po_sanitizers = 0,
      po_sanitizers_set = False, po_triple = triple_zero\<rparr>"

definition example_pkg :: spn_pkg_profiles_t where
  "example_pkg =
     \<lparr>info_name = ''demo'', info_qualified = ''core/demo'', info_version = Semver 1 0 0,
      info_upstream_url = [], info_upstream_commit = [], info_libs = [], info_deps = [], info_options = [],
      info_profiles = [], info_config = []\<rparr>"

theorem profile_to_toolchain_witness:
  "\<exists>resolved. spn_profile_resolve example_override example_host example_pkg = Some resolved \<and>
    (\<forall>p. resolved = Inr p \<longrightarrow>
      (\<exists>queried. spn_profile_query p example_host = Some queried \<and>
        (\<forall>query. queried = Inr query \<longrightarrow>
          (\<exists>selected. spn_toolchain_select (spn_toolchain_catalog_init example_host example_sdks) query = Some selected \<and>
            (\<forall>sel. selected = Inr sel \<longrightarrow>
              (\<exists>final. spn_profile_finalize p sel = Some final \<and> profile_final p sel final))))))"
  by (rule profile_to_toolchain [OF _ catalog_init_ok]) (simp_all add: example_defs host_ok_def)

end
